(* ===== verification/Go_Prelude.thy ===== *)
theory Go_Prelude
  imports Main "HOL-Library.Word" "HOL-Library.Char_ord" "HOL-Library.List_Lexorder"
    "HOL-Library.Sublist" "HOL-Library.Multiset"
begin

text \<open>
  Shared vocabulary of the development: the parts of Go's standard library that every
  component uses (package strings on byte strings, the fmt verbs for numbers, first-match
  loops over slices), the outside world an operation reads (clock, randomness, whether a
  write succeeds), and the error values the packages return.

  A Go string is a byte sequence and is modelled as a \<^typ>\<open>string\<close>. Case mapping and
  white space are those of package strings on ASCII text: bytes from 0x80 up (the bytes of
  multi-byte runes) are neither letters nor spaces here. Comparison of strings with the
  less-than operator is the bytewise lexicographic order of HOL-Library.List_Lexorder.
\<close>

named_theorems store_simps \<open>unfoldings of the stores' small helper operations\<close>
named_theorems go_string_simps \<open>rules on trimming and case mapping\<close>

section \<open>Package strings\<close>

definition is_space :: "char \<Rightarrow> bool" where
  "is_space c \<longleftrightarrow> c \<in> {CHR 0x09, CHR 0x0A, CHR 0x0B, CHR 0x0C, CHR 0x0D, CHR '' ''}"

definition trim_left :: "string \<Rightarrow> string" where
  "trim_left s = dropWhile is_space s"

definition trim_right :: "string \<Rightarrow> string" where
  "trim_right s = rev (dropWhile is_space (rev s))"

definition trim_space :: "string \<Rightarrow> string" where
  "trim_space s = trim_right (trim_left s)"

definition lower_char :: "char \<Rightarrow> char" where
  "lower_char c =
     (let n = (of_char c :: nat) in if 65 \<le> n \<and> n \<le> 90 then char_of (n + 32) else c)"

definition to_lower :: "string \<Rightarrow> string" where
  "to_lower s = map lower_char s"

definition equal_fold :: "string \<Rightarrow> string \<Rightarrow> bool" where
  "equal_fold s t \<longleftrightarrow> to_lower s = to_lower t"

fun str_contains :: "string \<Rightarrow> string \<Rightarrow> bool" where
  "str_contains [] sub \<longleftrightarrow> sub = []"
| "str_contains (c # s) sub \<longleftrightarrow> prefix sub (c # s) \<or> str_contains s sub"

text \<open>\<open>strings.Join\<close>\<close>

fun str_join :: "string \<Rightarrow> string list \<Rightarrow> string" where
  "str_join sep [] = ''''"
| "str_join sep [x] = x"
| "str_join sep (x # y # ys) = x @ sep @ str_join sep (y # ys)"

lemma str_contains_iff_sublist: "str_contains s sub \<longleftrightarrow> sublist sub s"
  by (induction s) (auto simp: sublist_Cons_right)

lemma lower_char_idem [simp]: "lower_char (lower_char c) = lower_char c"
proof -
  have "\<And>n::nat. 65 \<le> n \<Longrightarrow> n \<le> 90 \<Longrightarrow> of_char (char_of (n + 32) :: char) = n + 32"
    by (simp add: of_char_of)
  then show ?thesis by (auto simp: lower_char_def Let_def)
qed

lemma to_lower_idem [simp]: "to_lower (to_lower s) = to_lower s"
  by (simp add: to_lower_def)

lemma to_lower_Nil [simp]: "to_lower [] = []"
  by (simp add: to_lower_def)

lemma to_lower_append [simp]: "to_lower (s @ t) = to_lower s @ to_lower t"
  by (simp add: to_lower_def)

lemma length_to_lower [simp]: "length (to_lower s) = length s"
  by (simp add: to_lower_def)

lemma is_space_lower_char [simp]: "is_space (lower_char c) = is_space c"
proof (cases "65 \<le> (of_char c :: nat) \<and> (of_char c :: nat) \<le> 90")
  case True
  then have "(of_char (lower_char c) :: nat) = of_char c + 32"
    by (simp add: lower_char_def of_char_of)
  moreover have "is_space d \<Longrightarrow> (of_char d :: nat) < 33" for d
    by (auto simp: is_space_def)
  ultimately show ?thesis using True by fastforce
next
  case False
  then show ?thesis by (auto simp: lower_char_def Let_def)
qed

lemma dropWhile_is_space_lower:
  "dropWhile is_space (to_lower s) = to_lower (dropWhile is_space s)"
  by (induction s) (auto simp: to_lower_def)

lemma rev_to_lower: "rev (to_lower s) = to_lower (rev s)"
  by (simp add: to_lower_def rev_map)

lemma trim_space_to_lower [go_string_simps]: "trim_space (to_lower s) = to_lower (trim_space s)"
  by (simp add: trim_space_def trim_left_def trim_right_def dropWhile_is_space_lower rev_to_lower)

lemma trim_space_Nil [simp]: "trim_space [] = []"
  by (simp add: trim_space_def trim_left_def trim_right_def)

text \<open>Trimming is idempotent, so trimming an already trimmed string changes nothing.\<close>

lemma dropWhile_rev_dropWhile:
  "dropWhile P (rev (dropWhile P (rev (dropWhile P xs)))) = rev (dropWhile P (rev (dropWhile P xs)))"
proof (cases "dropWhile P xs")
  case Nil
  then show ?thesis unfolding Nil by simp
next
  case (Cons y ys)
  then have "\<not> P y" by (simp add: dropWhile_eq_Cons_conv)
  moreover have "\<exists>zs. dropWhile P (rev ys @ [y]) = zs @ [y]"
    using \<open>\<not> P y\<close> by (induction "rev ys" arbitrary: ys) (auto simp: dropWhile_append)
  ultimately show ?thesis unfolding Cons by auto
qed

lemma trim_space_idem [simp]: "trim_space (trim_space s) = trim_space s"
  by (simp add: trim_space_def trim_left_def trim_right_def dropWhile_rev_dropWhile)

lemma equal_fold_refl [simp]: "equal_fold s s"
  by (simp add: equal_fold_def)

lemma equal_fold_to_lower [simp]:
  "equal_fold (to_lower s) t = equal_fold s t" "equal_fold s (to_lower t) = equal_fold s t"
  by (simp_all add: equal_fold_def)

section \<open>First-match loops over slices\<close>

text \<open>
  The stores look up, replace and delete the first element that satisfies a test, with a
  loop that returns as soon as it has found it.
\<close>

fun replace_first :: "('a \<Rightarrow> bool) \<Rightarrow> ('a \<Rightarrow> 'a) \<Rightarrow> 'a list \<Rightarrow> 'a list" where
  "replace_first P f [] = []"
| "replace_first P f (x # xs) = (if P x then f x # xs else x # replace_first P f xs)"

fun remove_first :: "('a \<Rightarrow> bool) \<Rightarrow> 'a list \<Rightarrow> 'a list" where
  "remove_first P [] = []"
| "remove_first P (x # xs) = (if P x then xs else x # remove_first P xs)"

lemma length_replace_first [simp]: "length (replace_first P f xs) = length xs"
  by (induction xs) auto

lemma find_SomeD: "List.find P xs = Some x \<Longrightarrow> x \<in> set xs \<and> P x"
  by (auto simp: find_Some_iff)

lemma find_NoneD: "List.find P xs = None \<Longrightarrow> x \<in> set xs \<Longrightarrow> \<not> P x"
  by (auto simp: find_None_iff)

lemma replace_first_id: "List.find P xs = None \<Longrightarrow> replace_first P f xs = xs"
  by (induction xs) (auto split: if_splits)

lemma remove_first_id: "List.find P xs = None \<Longrightarrow> remove_first P xs = xs"
  by (induction xs) (auto split: if_splits)

lemma map_replace_first_key:
  assumes "\<And>x. P x \<Longrightarrow> g (f x) = g x"
  shows "map g (replace_first P f xs) = map g xs"
  by (induction xs) (auto simp: assms)

lemma set_replace_first_subset: "set (replace_first P f xs) \<subseteq> f ` set xs \<union> set xs"
  by (induction xs) auto

lemma set_remove_first_subset: "set (remove_first P xs) \<subseteq> set xs"
  by (induction xs) auto

lemma subseq_remove_first: "subseq (remove_first P xs) xs"
  by (induction xs) auto

lemma distinct_remove_first_key: "distinct (map k xs) \<Longrightarrow> distinct (map k (remove_first P xs))"
proof (induction xs)
  case (Cons x xs)
  then show ?case using set_remove_first_subset [of P xs] by auto
qed simp

lemma length_remove_first:
  "List.find P xs = Some x \<Longrightarrow> Suc (length (remove_first P xs)) = length xs"
  by (induction xs) (auto split: if_splits)

text \<open>With distinct keys, the first match is the only one.\<close>

lemma remove_first_eq_filter:
  "distinct (map k xs) \<Longrightarrow> remove_first (\<lambda>x. k x = i) xs = filter (\<lambda>x. k x \<noteq> i) xs"
proof (induction xs)
  case (Cons x xs)
  show ?case
  proof (cases "k x = i")
    case True
    with Cons.prems have "\<forall>y\<in>set xs. k y \<noteq> i" by (auto simp: image_iff)
    with True show ?thesis by simp
  next
    case False
    with Cons show ?thesis by simp
  qed
qed simp

lemma replace_first_eq_map:
  "distinct (map k xs) \<Longrightarrow>
   replace_first (\<lambda>x. k x = i) f xs = map (\<lambda>x. if k x = i then f x else x) xs"
proof (induction xs)
  case (Cons x xs)
  show ?case
  proof (cases "k x = i")
    case True
    with Cons.prems have "\<forall>y\<in>set xs. k y \<noteq> i" by (auto simp: image_iff)
    then have "map (\<lambda>x. if k x = i then f x else x) xs = xs" by (simp add: map_idI)
    with True show ?thesis by simp
  next
    case False
    with Cons show ?thesis by simp
  qed
qed simp

lemma map_replace_first_found:
  "List.find P xs = Some y \<Longrightarrow> k z = k y \<Longrightarrow> map k (replace_first P (\<lambda>_. z) xs) = map k xs"
  by (induction xs) (auto split: if_splits)

lemma find_replace_first_same:
  assumes "List.find P xs = Some x" and "\<And>x. P x \<Longrightarrow> P (f x)"
  shows "List.find P (replace_first P f xs) = Some (f x)"
  using assms(1) by (induction xs) (auto simp: assms(2) split: if_splits)

lemma find_replace_first_other:
  assumes "\<And>x. P x \<Longrightarrow> \<not> Q x" and "\<And>x. P x \<Longrightarrow> \<not> Q (f x)"
  shows "List.find Q (replace_first P f xs) = List.find Q xs"
  using assms by (induction xs) auto

lemma find_remove_first_other:
  "(\<And>x. P x \<Longrightarrow> \<not> Q x) \<Longrightarrow> List.find Q (remove_first P xs) = List.find Q xs"
  by (induction xs) auto

lemma find_append: "List.find P (xs @ ys) =
    (case List.find P xs of None \<Rightarrow> List.find P ys | Some x \<Rightarrow> Some x)"
  by (induction xs) auto

text \<open>The last \<open>n\<close> elements, as \<open>xs[len(xs)-n:]\<close> of a slice longer than \<open>n\<close>.\<close>

definition keep_last :: "nat \<Rightarrow> 'a list \<Rightarrow> 'a list" where
  "keep_last n xs = (if n < length xs then drop (length xs - n) xs else xs)"

lemma length_keep_last [simp]: "length (keep_last n xs) = min n (length xs)"
  by (simp add: keep_last_def)

lemma suffix_keep_last: "suffix (keep_last n xs) xs"
  by (simp add: keep_last_def suffix_drop)

lemma set_keep_last_subset: "set (keep_last n xs) \<subseteq> set xs"
  using suffix_keep_last [of n xs] by (auto dest: set_mono_suffix)

section \<open>Errors and the outside world\<close>

text \<open>
  The I/O errors an operation can return: reading the file failed, its JSON does not
  parse, writing it failed, the random source failed.
\<close>

datatype io_error = IoRead | BadJson | IoWrite | NoEntropy

text \<open>
  What one operation reads from outside: the clock (nanoseconds since 1970), package
  time's RFC 3339 codec (parameters: \<open>env_format\<close> formats a UTC instant, \<open>env_parse\<close> parses
  one, None when \<open>time.Parse\<close> returns an error), the bytes \<open>rand.Read\<close> delivers (None when it
  fails) and whether the file write of this operation succeeds.
\<close>

type_synonym byte = "8 word"

record go_env =
  env_now :: int
  env_format :: "int \<Rightarrow> string"
  env_parse :: "string \<Rightarrow> int option"
  env_rand :: "byte list option"
  env_write_ok :: bool

abbreviation second :: int where "second \<equiv> 1000000000"
abbreviation minute :: int where "minute \<equiv> 60 * second"
abbreviation hour :: int where "hour \<equiv> 60 * minute"

text \<open>\<open>time.Now().UTC().Format(time.RFC3339)\<close>\<close>

definition stamp :: "go_env \<Rightarrow> string" where
  "stamp e = env_format e (env_now e)"

text \<open>
  The documented law of the codec: RFC 3339 without fractions keeps whole seconds, so
  parsing a formatted instant gives it back cut down to the second; a formatted instant
  is not empty.
\<close>

definition time_codec :: "go_env \<Rightarrow> bool" where
  "time_codec e \<longleftrightarrow>
     (\<forall>t. env_parse e (env_format e t) = Some (t - t mod second) \<and> env_format e t \<noteq> [])"

lemma time_codec_parse: "time_codec e \<Longrightarrow> env_parse e (env_format e t) = Some (t - t mod second)"
  by (simp add: time_codec_def)

lemma time_codec_nonempty: "time_codec e \<Longrightarrow> env_format e t \<noteq> []"
  by (simp add: time_codec_def)

text \<open>
  Sequencing of fallible steps: the first error is returned, as
  \<open>if err != nil { return err }\<close> after a call does.
\<close>

definition and_then :: "'e + 'a \<Rightarrow> ('a \<Rightarrow> 'e + 'b) \<Rightarrow> 'e + 'b" where
  "and_then r k = (case r of Inl e \<Rightarrow> Inl e | Inr x \<Rightarrow> k x)"

lemma and_then_simps [simp]: "and_then (Inl e) k = Inl e" "and_then (Inr x) k = k x"
  by (simp_all add: and_then_def)

lemma and_then_Inr_iff: "and_then r k = Inr y \<longleftrightarrow> (\<exists>x. r = Inr x \<and> k x = Inr y)"
  by (cases r) auto

lemma and_then_Inl_iff:
  "and_then r k = Inl e \<longleftrightarrow> r = Inl e \<or> (\<exists>x. r = Inr x \<and> k x = Inl e)"
  by (cases r) auto

text \<open>
  What \<open>http.Client.Do\<close> gives: an error, or a reply with a status code and a body (as far as it
  can be read).
\<close>

datatype http_outcome = TransportError string | HttpReply nat string

section \<open>A concrete environment\<close>

text \<open>
  An environment for worked examples: an instant is written in unary, whole seconds only. It
  satisfies the law of the codec.
\<close>

definition tally_format :: "int \<Rightarrow> string" where
  "tally_format t = (if t < 0 then CHR ''-'' # replicate (nat (- (t div second))) CHR ''x''
                     else CHR ''+'' # replicate (nat (t div second)) CHR ''x'')"

definition tally_parse :: "string \<Rightarrow> int option" where
  "tally_parse s =
    (case s of
       [] \<Rightarrow> None
     | c # cs \<Rightarrow> Some ((if c = CHR ''-'' then - int (length cs) else int (length cs)) * second))"

definition tally_env :: "int \<Rightarrow> byte list option \<Rightarrow> bool \<Rightarrow> go_env" where
  "tally_env now rnd ok =
    \<lparr>env_now = now, env_format = tally_format, env_parse = tally_parse, env_rand = rnd, env_write_ok = ok\<rparr>"

lemma tally_env_sel [simp]:
  "env_now (tally_env now rnd ok) = now" "env_format (tally_env now rnd ok) = tally_format"
  "env_parse (tally_env now rnd ok) = tally_parse" "env_rand (tally_env now rnd ok) = rnd"
  "env_write_ok (tally_env now rnd ok) = ok"
  by (simp_all add: tally_env_def)

lemma tally_codec [simp]: "time_codec (tally_env now rnd ok)"
proof -
  have "tally_parse (tally_format t) = Some (t - t mod second)" for t
  proof (cases "t < 0")
    case True
    then have "t div second < 0" by (simp add: pos_imp_zdiv_neg_iff)
    then have "tally_parse (tally_format t) = Some (t div second * second)"
      using True by (simp add: tally_parse_def tally_format_def)
    then show ?thesis by (simp add: minus_mod_eq_div_mult)
  next
    case False
    then have "0 \<le> t div second" by (simp add: pos_imp_zdiv_nonneg_iff)
    then have "tally_parse (tally_format t) = Some (t div second * second)"
      using False by (simp add: tally_parse_def tally_format_def)
    then show ?thesis by (simp add: minus_mod_eq_div_mult)
  qed
  then show ?thesis by (simp add: time_codec_def tally_format_def)
qed

lemma tally_roundtrip [simp]: "tally_parse (tally_format t) = Some (t - t mod second)"
  using time_codec_parse [OF tally_codec, of 0 None True t] by simp

end
