(* ===== verification/Fsutil.thy ===== *)
theory Fsutil
  imports Go_Prelude
begin

unbundle bit_operations_syntax

text \<open>
  Package fsutil (backend/internal/fsutil/fsutil.go): the atomic file write, the
  load-or-seed and persist helpers of the JSON stores, and the version-4 UUID. The second
  half states the contract of a JSON store as the locale \<open>json_store\<close> and proves, once for
  all stores, what it gives the two processes that share the files.
\<close>

section \<open>AtomicWriteFile\<close>

text \<open>
  The visible file system is a map from paths to contents. Every system call may fail; a
  failing write may leave any prefix in the temporary file. The model returns the error, if
  any, and the states a concurrent reader can observe, in order, the last being the state
  at return (after the deferred Remove). The temporary name is the one
  \<open>os.CreateTemp(dir, base + ".tmp.*")\<close> makes: the path, ".tmp." and a random suffix.
\<close>

type_synonym filesystem = "string \<rightharpoonup> string"

datatype fs_error = MkdirFailed | CreateTempFailed | ChmodFailed | WriteFailed | CloseFailed
  | RenameFailed

record fs_faults =
  mkdir_ok :: bool
  temp_suffix :: "string option"
  chmod_ok :: bool
  write_ok :: bool
  written :: nat
  close_ok :: bool
  rename_ok :: bool

definition temp_name :: "string \<Rightarrow> string \<Rightarrow> string" where
  "temp_name path sfx = path @ ''.tmp.'' @ sfx"

definition AtomicWriteFile ::
  "fs_faults \<Rightarrow> string \<Rightarrow> string \<Rightarrow> filesystem \<Rightarrow> fs_error option \<times> filesystem list" where
  "AtomicWriteFile ft path payload fs =
    (if \<not> mkdir_ok ft then (Some MkdirFailed, [fs]) else
     case temp_suffix ft of
       None \<Rightarrow> (Some CreateTempFailed, [fs])
     | Some sfx \<Rightarrow>
        (let tmp = temp_name path sfx; fs1 = fs(tmp \<mapsto> '''') in
         if \<not> chmod_ok ft then (Some ChmodFailed, [fs, fs1, fs1(tmp := None)])
         else if \<not> write_ok ft then
           (let fs2 = fs1(tmp \<mapsto> take (written ft) payload)
            in (Some WriteFailed, [fs, fs1, fs2, fs2(tmp := None)]))
         else
           (let fs2 = fs1(tmp \<mapsto> payload) in
            if \<not> close_ok ft then (Some CloseFailed, [fs, fs1, fs2, fs2(tmp := None)])
            else if \<not> rename_ok ft then (Some RenameFailed, [fs, fs1, fs2, fs2(tmp := None)])
            else
              (let fs3 = fs2(path \<mapsto> payload, tmp := None)
               in (None, [fs, fs1, fs2, fs3, fs3(tmp := None)])))))"

lemma temp_name_neq [simp]: "temp_name path sfx \<noteq> path" "path \<noteq> temp_name path sfx"
  by (simp_all add: temp_name_def)

lemma AtomicWriteFile_observed:
  assumes "fs' \<in> set (snd (AtomicWriteFile ft path payload fs))"
  shows "fs' path = fs path \<or> fs' path = Some payload"
  using assms
  by (auto simp: AtomicWriteFile_def Let_def split: if_splits option.splits)

lemma AtomicWriteFile_final:
  assumes "\<And>sfx. temp_suffix ft = Some sfx \<Longrightarrow> fs (temp_name path sfx) = None"
  shows "last (snd (AtomicWriteFile ft path payload fs)) =
    (if fst (AtomicWriteFile ft path payload fs) = None then fs(path \<mapsto> payload) else fs)"
  using assms
  by (auto simp: AtomicWriteFile_def Let_def fun_eq_iff split: option.splits)

section \<open>NewUUIDv4\<close>

definition hex_digit :: "nat \<Rightarrow> char" where
  "hex_digit n = ''0123456789abcdef'' ! n"

definition hex_byte :: "byte \<Rightarrow> string" where
  "hex_byte b = [hex_digit (unat b div 16), hex_digit (unat b mod 16)]"

text \<open>The fmt verb for a byte slice in hexadecimal.\<close>

definition hex_bytes :: "byte list \<Rightarrow> string" where
  "hex_bytes bs = concat (map hex_byte bs)"

definition NewUUIDv4 :: "byte list option \<Rightarrow> io_error + string" where
  "NewUUIDv4 rnd =
    (case rnd of
       None \<Rightarrow> Inl NoEntropy
     | Some b0 \<Rightarrow>
        (let b1 = b0[6 := (b0 ! 6 AND 0x0f) OR 0x40];
             b = b1[8 := (b1 ! 8 AND 0x3f) OR 0x80]
         in Inr (hex_bytes (take 4 b) @ ''-'' @ hex_bytes (take 2 (drop 4 b)) @ ''-''
              @ hex_bytes (take 2 (drop 6 b)) @ ''-'' @ hex_bytes (take 2 (drop 8 b)) @ ''-''
              @ hex_bytes (take 6 (drop 10 b)))))"

text \<open>The generated ID is new: what a random UUID is for.\<close>

definition fresh_id :: "go_env \<Rightarrow> string set \<Rightarrow> bool" where
  "fresh_id e ids \<longleftrightarrow> (case NewUUIDv4 (env_rand e) of Inl _ \<Rightarrow> True | Inr u \<Rightarrow> u \<noteq> '''' \<and> u \<notin> ids)"

lemma less_8_cases: "(n::nat) < 8 \<longleftrightarrow> n=0 \<or> n=1 \<or> n=2 \<or> n=3 \<or> n=4 \<or> n=5 \<or> n=6 \<or> n=7"
  by auto

lemma version_byte: "unat ((x AND 0x0f) OR 0x40 :: byte) = unat (x AND 0x0f) + 64"
  and version_low: "unat (x AND 0x0f :: byte) < 16"
proof -
  have disjoint: "\<not> (bit (x AND 0x0f) n \<and> bit (0x40 :: byte) n)" for n
    by (cases "n < 8") (auto simp: bit_simps less_8_cases dest: bit_imp_le_length)
  have "(x AND 0x0f) OR 0x40 = (x AND 0x0f) + (0x40 :: byte)"
    using disjunctive_add [of "x AND 0x0f" "0x40 :: byte"] disjoint by simp
  moreover show low: "unat (x AND 0x0f :: byte) < 16"
    using word_and_le1 [of x 15] by (simp add: word_le_nat_alt)
  ultimately show "unat ((x AND 0x0f) OR 0x40 :: byte) = unat (x AND 0x0f) + 64"
    by (simp add: unat_word_ariths)
qed

lemma variant_byte: "unat ((x AND 0x3f) OR 0x80 :: byte) = unat (x AND 0x3f) + 128"
  and variant_low: "unat (x AND 0x3f :: byte) < 64"
proof -
  have disjoint: "\<not> (bit (x AND 0x3f) n \<and> bit (0x80 :: byte) n)" for n
    by (cases "n < 8") (auto simp: bit_simps less_8_cases dest: bit_imp_le_length)
  have "(x AND 0x3f) OR 0x80 = (x AND 0x3f) + (0x80 :: byte)"
    using disjunctive_add [of "x AND 0x3f" "0x80 :: byte"] disjoint by simp
  moreover show low: "unat (x AND 0x3f :: byte) < 64"
    using word_and_le1 [of x 63] by (simp add: word_le_nat_alt)
  ultimately show "unat ((x AND 0x3f) OR 0x80 :: byte) = unat (x AND 0x3f) + 128"
    by (simp add: unat_word_ariths)
qed

lemma version_nibble: "unat ((x AND 0x0f) OR 0x40 :: byte) div 16 = 4"
  using version_low [of x] by (simp add: version_byte)

lemma variant_nibble: "unat ((x AND 0x3f) OR 0x80 :: byte) div 16 \<in> {8, 9, 10, 11}"
proof -
  have "unat (x AND 0x3f :: byte) div 16 < 4" using variant_low [of x] by simp
  then show ?thesis by (auto simp: variant_byte)
qed

lemma version_hex: "hex_digit (unat ((x AND 0x0f) OR 0x40 :: byte) div 16) = CHR ''4''"
  unfolding version_nibble by (simp add: hex_digit_def)

lemma variant_hex: "hex_digit (unat ((x AND 0x3f) OR 0x80 :: byte) div 16) \<in> set ''89ab''"
proof -
  have "n \<in> {8, 9, 10, 11} \<Longrightarrow> hex_digit n \<in> set ''89ab''" for n
    by (auto simp: hex_digit_def)
  from this [OF variant_nibble] show ?thesis .
qed

lemma hex_bytes_simps [simp]:
  "hex_bytes [] = []"
  "hex_bytes (b # bs) = hex_digit (unat b div 16) # hex_digit (unat b mod 16) # hex_bytes bs"
  by (simp_all add: hex_bytes_def hex_byte_def)

lemma length_hex_bytes [simp]: "length (hex_bytes bs) = 2 * length bs"
  by (induction bs) auto

lemma list16_cases:
  assumes "length b = 16"
  obtains x0 x1 x2 x3 x4 x5 x6 x7 x8 x9 xa xb xc xd xe xf where
    "b = [x0, x1, x2, x3, x4, x5, x6, x7, x8, x9, xa, xb, xc, xd, xe, xf]"
  using assms by (auto simp: numeral_eq_Suc length_Suc_conv)

lemma NewUUIDv4_shape_aux:
  assumes "length b = 16" and "NewUUIDv4 (Some b) = Inr u"
  shows "length u = 36" and "u ! 8 = CHR ''-''" and "u ! 13 = CHR ''-''" and "u ! 18 = CHR ''-''"
    and "u ! 23 = CHR ''-''" and "u ! 14 = CHR ''4''" and "u ! 19 \<in> set ''89ab''"
proof -
  obtain x0 x1 x2 x3 x4 x5 x6 x7 x8 x9 xa xb xc xd xe xf where
    b: "b = [x0, x1, x2, x3, x4, x5, x6, x7, x8, x9, xa, xb, xc, xd, xe, xf]"
    by (rule list16_cases [OF assms(1)])
  note u = assms(2) [unfolded b NewUUIDv4_def, simplified, symmetric]
  show "length u = 36" "u ! 8 = CHR ''-''" "u ! 13 = CHR ''-''" "u ! 18 = CHR ''-''"
    "u ! 23 = CHR ''-''"
    by (simp_all add: u)
  show "u ! 14 = CHR ''4''" using version_hex [of x6] by (simp add: u)
  show "u ! 19 \<in> set ''89ab''" using variant_hex [of x8] by (simp add: u)
qed

section \<open>JSON files: LoadJSONFile and PersistJSONFile\<close>

text \<open>
  One JSON file as the stores see it: missing, unreadable, not parseable, or holding a
  value. Encoding a value and decoding it again is taken to give the value back.
\<close>

datatype 'v json_file = Missing | Unreadable | Malformed | Json 'v

type_synonym ('s, 'v) world = "'s \<times> 'v json_file"

definition LoadJSONFile ::
  "('v \<Rightarrow> 's \<Rightarrow> 's) \<Rightarrow> (('s, 'v) world \<Rightarrow> io_error option \<times> ('s, 'v) world) option \<Rightarrow>
   ('s, 'v) world \<Rightarrow> io_error option \<times> ('s, 'v) world" where
  "LoadJSONFile app onMissing w =
    (case w of (s, f) \<Rightarrow>
      (case f of
         Missing \<Rightarrow> (case onMissing of None \<Rightarrow> (None, (s, f)) | Some seed \<Rightarrow> seed (s, f))
       | Unreadable \<Rightarrow> (Some IoRead, (s, f))
       | Malformed \<Rightarrow> (Some BadJson, (s, f))
       | Json v \<Rightarrow> (None, (app v s, f))))"

definition PersistJSONFile :: "go_env \<Rightarrow> 'v \<Rightarrow> ('s, 'v) world \<Rightarrow> io_error option \<times> ('s, 'v) world"
where
  "PersistJSONFile e v w =
    (if env_write_ok e then (None, (fst w, Json v)) else (Some IoWrite, w))"

section \<open>The shape of a store operation\<close>

text \<open>
  Every mutating method of the JSON stores takes the lock, re-reads the file (returning on
  an error), changes the in-memory state and, when it changed something, persists it
  (returning the write error). \<open>transact\<close> is that shape; \<open>body\<close> gives the result, the new
  memory and whether to persist. A read method re-reads the file, ignores a failure to do
  so, and looks at the memory: \<open>observe\<close>.
\<close>

definition transact ::
  "('v \<Rightarrow> 's \<Rightarrow> 's) \<Rightarrow> ('s \<Rightarrow> 'v) \<Rightarrow> (io_error \<Rightarrow> 'e) \<Rightarrow> go_env \<Rightarrow>
   ('s \<Rightarrow> ('e + 'a) \<times> 's \<times> bool) \<Rightarrow> ('s, 'v) world \<Rightarrow> ('e + 'a) \<times> ('s, 'v) world" where
  "transact app dump io e body w =
    (case LoadJSONFile app None w of
       (Some err, w') \<Rightarrow> (Inl (io err), w')
     | (None, (s, f)) \<Rightarrow>
         (case body s of (r, s', dirty) \<Rightarrow>
            if dirty then
              (case PersistJSONFile e (dump s') (s', f) of
                 (Some err, w') \<Rightarrow> (Inl (io err), w')
               | (None, w') \<Rightarrow> (r, w'))
            else (r, (s', f))))"

definition observe ::
  "('v \<Rightarrow> 's \<Rightarrow> 's) \<Rightarrow> ('s \<Rightarrow> 'a) \<Rightarrow> ('s, 'v) world \<Rightarrow> 'a \<times> ('s, 'v) world" where
  "observe app q w = (case LoadJSONFile app None w of (_, w') \<Rightarrow> (q (fst w'), w'))"

text \<open>Opening a store loads the file or seeds it with the empty state.\<close>

definition open_store ::
  "('v \<Rightarrow> 's \<Rightarrow> 's) \<Rightarrow> ('s \<Rightarrow> 'v) \<Rightarrow> go_env \<Rightarrow> 's \<Rightarrow> 'v json_file \<Rightarrow> io_error option \<times> ('s, 'v) world"
where
  "open_store app dump e s0 f =
    LoadJSONFile app (Some (\<lambda>w. PersistJSONFile e (dump (fst w)) w)) (s0, f)"

lemma transact_Json:
  "transact app dump io e body (s, Json v) =
    (case body (app v s) of (r, s', dirty) \<Rightarrow>
       if dirty then
         (if env_write_ok e then (r, (s', Json (dump s'))) else (Inl (io IoWrite), (s', Json v)))
       else (r, (s', Json v)))"
  by (simp add: transact_def LoadJSONFile_def PersistJSONFile_def split: prod.splits)

lemma observe_Json: "observe app q (s, Json v) = (q (app v s), (app v s, Json v))"
  by (simp add: observe_def LoadJSONFile_def)

section \<open>Two processes over one file\<close>

text \<open>
  The API server and the daemon share no memory: each has its own copy of the store state,
  and both work on the one file. \<open>run_procs\<close> runs a list of operations, each by the process
  with the given number, one whole operation after another.
\<close>

fun run_procs ::
  "(nat \<times> (('s, 'v) world \<Rightarrow> 'r \<times> ('s, 'v) world)) list \<Rightarrow> (nat \<Rightarrow> 's) \<Rightarrow> 'v json_file \<Rightarrow>
   'r list \<times> (nat \<Rightarrow> 's) \<times> 'v json_file" where
  "run_procs [] ms f = ([], ms, f)"
| "run_procs ((p, oper) # ops) ms f =
    (case oper (ms p, f) of (r, (s', f')) \<Rightarrow>
       (case run_procs ops (ms(p := s')) f' of (rs, w) \<Rightarrow> (r # rs, w)))"

text \<open>An operation is coherent when, on a readable file, it does not depend on the memory.\<close>

definition coherent :: "(('s, 'v) world \<Rightarrow> 'r \<times> ('s, 'v) world) \<Rightarrow> bool" where
  "coherent oper \<longleftrightarrow>
     (\<forall>s s' v. oper (s, Json v) = oper (s', Json v) \<and>
               (\<exists>v'. snd (snd (oper (s, Json v))) = Json v'))"

lemma coherentD:
  assumes "coherent oper"
  obtains r t v' where "\<And>s. oper (s, Json v) = (r, (t, Json v'))"
proof -
  obtain v' where v': "snd (snd (oper (undefined, Json v))) = Json v'"
    using assms unfolding coherent_def by blast
  have "oper (s, Json v) =
      (fst (oper (undefined, Json v)), (fst (snd (oper (undefined, Json v))), Json v'))" for s
    using assms v' unfolding coherent_def by (metis prod.collapse)
  then show thesis by (rule that)
qed

lemma coherent_map: "coherent oper \<Longrightarrow> coherent (\<lambda>w. map_prod g id (oper w))"
  unfolding coherent_def by (metis map_prod_simp id_apply prod.collapse snd_conv)

lemma run_procs_serial:
  assumes "\<forall>(p, oper) \<in> set ops. coherent oper"
  shows "fst (run_procs ops ms (Json v)) =
           fst (run_procs (map (\<lambda>(p, oper). (0, oper)) ops) ms' (Json v)) \<and>
         snd (snd (run_procs ops ms (Json v))) =
           snd (snd (run_procs (map (\<lambda>(p, oper). (0, oper)) ops) ms' (Json v)))"
  using assms
proof (induction ops arbitrary: ms ms' v)
  case Nil
  then show ?case by simp
next
  case (Cons a ops)
  obtain p oper where a: "a = (p, oper)" by (cases a)
  from Cons.prems a have "coherent oper" by simp
  then obtain r t v' where op: "\<And>s. oper (s, Json v) = (r, (t, Json v'))"
    by (rule coherentD [where v = v]) blast
  from Cons.prems have "\<forall>(p, oper) \<in> set ops. coherent oper" by simp
  note IH = Cons.IH [OF this, of "ms(p := t)" v' "ms'(0 := t)"]
  have 1: "run_procs (a # ops) ms (Json v) =
      (case run_procs ops (ms(p := t)) (Json v') of (rs, w) \<Rightarrow> (r # rs, w))"
    by (simp add: a op)
  have 2: "run_procs (map (\<lambda>(p, oper). (0, oper)) (a # ops)) ms' (Json v) =
      (case run_procs (map (\<lambda>(p, oper). (0, oper)) ops) (ms'(0 := t)) (Json v') of
         (rs, w) \<Rightarrow> (r # rs, w))"
    by (simp add: a op)
  obtain rs1 m1 f1 where X: "run_procs ops (ms(p := t)) (Json v') = (rs1, m1, f1)"
    by (metis prod_cases3)
  obtain rs2 m2 f2 where
    Y: "run_procs (map (\<lambda>(p, oper). (0, oper)) ops) (ms'(0 := t)) (Json v') = (rs2, m2, f2)"
    by (metis prod_cases3)
  from IH have "rs1 = rs2 \<and> f1 = f2" unfolding X Y by simp
  then show ?case unfolding 1 2 X Y by simp
qed

text \<open>The same for requests: \<open>call e q\<close> serves the request q in the environment e.\<close>

lemma run_calls_serial:
  assumes "\<And>e q. coherent (call e q)"
  shows "fst (run_procs (map (\<lambda>(p, e, q). (p, call e q)) rqs) ms (Json v)) =
     fst (run_procs (map (\<lambda>(p, e, q). (0, call e q)) rqs) ms' (Json v)) \<and>
   snd (snd (run_procs (map (\<lambda>(p, e, q). (p, call e q)) rqs) ms (Json v))) =
     snd (snd (run_procs (map (\<lambda>(p, e, q). (0, call e q)) rqs) ms' (Json v)))"
proof -
  have "map (\<lambda>(p, oper). (0 :: nat, oper)) (map (\<lambda>(p, e, q). (p, call e q)) rqs) =
      map (\<lambda>(p, e, q). (0, call e q)) rqs" by auto
  moreover have "\<forall>(p, oper) \<in> set (map (\<lambda>(p, e, q). (p, call e q)) rqs). coherent oper"
    using assms by auto
  ultimately show ?thesis
    using run_procs_serial [of "map (\<lambda>(p, e, q). (p, call e q)) rqs" ms v ms']
    by (simp only:)
qed

text \<open>
  The contract of a JSON store: loading a value overwrites the whole memory, and loading
  what was dumped gives the memory back.
\<close>

locale json_store =
  fixes app :: "'v \<Rightarrow> 's \<Rightarrow> 's" and dump :: "'s \<Rightarrow> 'v"
  assumes overwrites: "app v s = app v s'"
    and load_dump: "app (dump s) s' = s"
begin

lemma coherent_transact: "coherent (transact app dump io e body)"
proof (unfold coherent_def, intro allI conjI)
  fix s s' v
  show "transact app dump io e body (s, Json v) = transact app dump io e body (s', Json v)"
    by (simp add: transact_Json overwrites [of v s s'])
  show "\<exists>v'. snd (snd (transact app dump io e body (s, Json v))) = Json v'"
    by (auto simp: transact_Json split: prod.splits)
qed

lemma coherent_observe: "coherent (observe app q)"
  unfolding coherent_def by (simp add: observe_Json) (metis overwrites)

text \<open>
  An invariant of the memory that every body keeps is an invariant of the file, whether the
  operation succeeds, fails or writes nothing.
\<close>

lemma transact_inv:
  assumes "\<And>s. I s \<Longrightarrow> I (fst (snd (body s)))" and "I (app v s)"
    and "transact app dump io e body (s, Json v) = (r, s', f)"
  shows "I s' \<and> (\<exists>v'. f = Json v' \<and> (\<forall>t. I (app v' t)))"
proof -
  obtain q t d where b: "body (app v s) = (q, t, d)" by (metis prod_cases3)
  have t: "I t" using assms(1) [OF assms(2)] b by simp
  have "I (app v t')" for t' using assms(2) overwrites [of v t' s] by simp
  with t b assms(3) show ?thesis
    by (auto simp: transact_Json load_dump split: if_splits)
qed

lemma observe_inv:
  assumes "I (app v s)" and "observe app q (s, Json v) = (r, s', f)"
  shows "I s' \<and> (\<exists>v'. f = Json v' \<and> (\<forall>t. I (app v' t)))"
  using assms overwrites [of v _ s] by (auto simp: observe_Json)

text \<open>An operation keeps \<open>I\<close> on readable files; then so does any run of operations.\<close>

definition keeps_inv :: "('s \<Rightarrow> bool) \<Rightarrow> (('s, 'v) world \<Rightarrow> 'r \<times> ('s, 'v) world) \<Rightarrow> bool" where
  "keeps_inv I oper \<longleftrightarrow>
    (\<forall>s v r s' f. (\<forall>t. I (app v t)) \<longrightarrow> oper (s, Json v) = (r, s', f) \<longrightarrow>
      (\<exists>v'. f = Json v' \<and> (\<forall>t. I (app v' t))))"

lemma keeps_invD:
  assumes "keeps_inv I oper" "\<forall>t. I (app v t)" "oper (s, Json v) = (r, s', f)"
  obtains v' where "f = Json v'" "\<forall>t. I (app v' t)"
  using assms unfolding keeps_inv_def by metis

lemma keeps_inv_transact:
  "(\<And>s. I s \<Longrightarrow> I (fst (snd (body s)))) \<Longrightarrow> keeps_inv I (transact app dump io e body)"
  unfolding keeps_inv_def using transact_inv [of I body] by blast

lemma keeps_inv_observe: "keeps_inv I (observe app q)"
  unfolding keeps_inv_def using observe_inv [of I _ _ q] by blast

lemma keeps_inv_map: "keeps_inv I oper \<Longrightarrow> keeps_inv I (\<lambda>w. map_prod g id (oper w))"
proof (unfold keeps_inv_def, intro allI impI)
  fix s v r s' f
  assume k: "\<forall>s v r s' f. (\<forall>t. I (app v t)) \<longrightarrow> oper (s, Json v) = (r, s', f) \<longrightarrow>
      (\<exists>v'. f = Json v' \<and> (\<forall>t. I (app v' t)))"
    and i: "\<forall>t. I (app v t)" and m: "map_prod g id (oper (s, Json v)) = (r, s', f)"
  obtain r0 where "oper (s, Json v) = (r0, s', f)" using m by (cases "oper (s, Json v)") auto
  with k [THEN spec, of s, THEN spec, of v, THEN spec, of r0, THEN spec, of s', THEN spec, of f] i
  show "\<exists>v'. f = Json v' \<and> (\<forall>t. I (app v' t))" by simp
qed

lemma run_procs_inv:
  assumes "\<forall>(p, oper) \<in> set ops. keeps_inv I oper" and "\<forall>t. I (app v t)"
  shows "\<exists>v'. snd (snd (run_procs ops ms (Json v))) = Json v' \<and> (\<forall>t. I (app v' t))"
  using assms
proof (induction ops arbitrary: ms v)
  case Nil
  then show ?case by simp
next
  case (Cons a ops)
  obtain p oper where a: "a = (p, oper)" by (cases a)
  obtain r s' f where o1: "oper (ms p, Json v) = (r, s', f)" by (metis prod_cases3)
  have "keeps_inv I oper" using Cons.prems(1) a by simp
  from keeps_invD [OF this, of v] Cons.prems(2) o1
  obtain v' where v': "f = Json v'" "\<forall>t. I (app v' t)" by metis
  have "\<forall>(p, oper) \<in> set ops. keeps_inv I oper" using Cons.prems(1) by simp
  note IH = Cons.IH [OF this v'(2), of "ms(p := s')"]
  obtain rs m f2 where x: "run_procs ops (ms(p := s')) (Json v') = (rs, m, f2)"
    by (metis prod_cases3)
  then have "run_procs (a # ops) ms (Json v) = (r # rs, m, f2)" by (simp add: a o1 v'(1))
  with IH [unfolded x] show ?case by simp
qed

lemma reload_after_write:
  assumes "transact app dump io e body w = (Inr r, (s, Json v))" and "v = dump s"
  shows "observe app q (s', Json v) = (q s, (s, Json v))"
  using assms(2) by (simp add: observe_Json load_dump)

lemma written_is_memory:
  assumes "body (app v s) = (Inr r, t, True)" and "env_write_ok e"
  shows "transact app dump io e body (s, Json v) = (Inr r, (t, Json (dump t)))"
  using assms by (simp add: transact_Json)

end

section \<open>Properties\<close>

text \<open>
  C36: the atomic write. Whatever system call fails, no reader ever sees at the path anything
  but the old content or the whole new content; and when the temporary name was free, at
  return the file system is unchanged but for the path, which has the new content exactly
  when no error is returned.
\<close>

theorem AtomicWriteFile_atomic:
  assumes "\<And>sfx. temp_suffix ft = Some sfx \<Longrightarrow> fs (temp_name path sfx) = None"
  shows "(\<forall>fs'\<in>set (snd (AtomicWriteFile ft path payload fs)).
      fs' path = fs path \<or> fs' path = Some payload) \<and>
    last (snd (AtomicWriteFile ft path payload fs)) =
      (if fst (AtomicWriteFile ft path payload fs) = None then fs(path \<mapsto> payload) else fs)"
  using AtomicWriteFile_observed [of _ ft path payload fs] AtomicWriteFile_final [of ft fs path payload] assms
  by blast

definition sample_faults :: fs_faults where
  "sample_faults = \<lparr>mkdir_ok = True, temp_suffix = Some ''7'', chmod_ok = True, write_ok = False,
     written = 1, close_ok = True, rename_ok = True\<rparr>"

theorem AtomicWriteFile_atomic_witness:
  "(\<lambda>fs'. fs' ''p'') ` set (snd (AtomicWriteFile sample_faults ''p'' ''new'' [''p'' \<mapsto> ''old''])) \<subseteq>
      {Some ''old'', Some ''new''} \<and>
    last (snd (AtomicWriteFile sample_faults ''p'' ''new'' [''p'' \<mapsto> ''old''])) = [''p'' \<mapsto> ''old'']"
  using AtomicWriteFile_atomic [of sample_faults "[''p'' \<mapsto> ''old'']" "''p''" "''new''"]
  by (simp add: sample_faults_def temp_name_def AtomicWriteFile_def Let_def)

text \<open>
  From 16 random bytes NewUUIDv4 makes a version-4 UUID: 36 characters, hyphens in the four
  places, the version digit 4 and a variant digit of 8, 9, a or b.
\<close>

theorem NewUUIDv4_shape:
  assumes "length b = 16"
  shows "\<exists>u. NewUUIDv4 (Some b) = Inr u \<and> length u = 36 \<and>
    u ! 8 = CHR ''-'' \<and> u ! 13 = CHR ''-'' \<and> u ! 18 = CHR ''-'' \<and> u ! 23 = CHR ''-'' \<and>
    u ! 14 = CHR ''4'' \<and> u ! 19 \<in> set ''89ab''"
proof -
  obtain u where "NewUUIDv4 (Some b) = Inr u" by (simp add: NewUUIDv4_def Let_def)
  with NewUUIDv4_shape_aux [OF assms this] show ?thesis by blast
qed

theorem NewUUIDv4_shape_witness:
  "\<exists>u. NewUUIDv4 (Some (replicate 16 255)) = Inr u \<and> length u = 36"
  using NewUUIDv4_shape [of "replicate 16 255"] by auto

end
