(* ===== verification/Go_Text.thy ===== *)
theory Go_Text
  imports Go_Prelude
begin

text \<open>
  Text formats several components read and write: \<open>strings.Split\<close> and \<open>strings.SplitN\<close> at
  one character, decimal numbers (\<open>strconv.Itoa\<close>, \<open>strconv.Atoi\<close>) and padded base 64
  (\<open>base64.StdEncoding\<close>), each with its round trip.
\<close>

section \<open>Splitting at a character\<close>

fun split_char :: "char \<Rightarrow> string \<Rightarrow> string list" where
  "split_char sep [] = [[]]"
| "split_char sep (c # cs) =
    (if c = sep then [] # split_char sep cs
     else (case split_char sep cs of [] \<Rightarrow> [[c]] | w # ws \<Rightarrow> (c # w) # ws))"

lemma split_char_nonempty [simp]: "split_char sep cs \<noteq> []"
  by (induction cs) (auto split: list.splits)

lemma split_char_word: "sep \<notin> set w \<Longrightarrow> split_char sep w = [w]"
  by (induction w) auto

lemma split_char_append: "sep \<notin> set w \<Longrightarrow> split_char sep (w @ sep # cs) = w # split_char sep cs"
  by (induction w) auto

lemma split_char_words: "w \<in> set (split_char sep cs) \<Longrightarrow> sep \<notin> set w"
  by (induction cs arbitrary: w) (auto split: if_splits list.splits)

text \<open>\<open>strings.SplitN(s, sep, 2)\<close>, as the pair it is when the separator occurs.\<close>

definition cut_at :: "char \<Rightarrow> string \<Rightarrow> (string \<times> string) option" where
  "cut_at sep s =
    (if sep \<in> set s then Some (takeWhile (\<lambda>c. c \<noteq> sep) s, tl (dropWhile (\<lambda>c. c \<noteq> sep) s)) else None)"

lemma cut_at_append [simp]: "sep \<notin> set w \<Longrightarrow> cut_at sep (w @ sep # cs) = Some (w, cs)"
  by (induction w) (auto simp: cut_at_def)

text \<open>\<open>strings.Replace(s, old, new, 1)\<close> for a non-empty old.\<close>

fun replace_once :: "string \<Rightarrow> string \<Rightarrow> string \<Rightarrow> string" where
  "replace_once old new [] = []"
| "replace_once old new (c # s) =
    (if prefix old (c # s) then new @ drop (length old) (c # s) else c # replace_once old new s)"

text \<open>A text in double quotes, as \<open>%q\<close> prints one that needs no escapes.\<close>

definition quoted :: "string \<Rightarrow> string" where
  "quoted s = [CHR 0x22] @ s @ [CHR 0x22]"

section \<open>Decimal numbers\<close>

definition digit_char :: "nat \<Rightarrow> char" where
  "digit_char n = char_of (n + 48)"

definition digit_value :: "char \<Rightarrow> nat option" where
  "digit_value c = (let n = (of_char c :: nat) in if 48 \<le> n \<and> n \<le> 57 then Some (n - 48) else None)"

fun dec_digits :: "nat \<Rightarrow> string" where
  "dec_digits n = (if n < 10 then [digit_char n] else dec_digits (n div 10) @ [digit_char (n mod 10)])"

declare dec_digits.simps [simp del]

definition itoa :: "int \<Rightarrow> string" where
  "itoa n = (if n < 0 then CHR ''-'' # dec_digits (nat (- n)) else dec_digits (nat n))"

fun dec_value :: "nat \<Rightarrow> string \<Rightarrow> nat option" where
  "dec_value acc [] = Some acc"
| "dec_value acc (c # cs) =
    (case digit_value c of None \<Rightarrow> None | Some d \<Rightarrow> dec_value (10 * acc + d) cs)"

text \<open>\<open>strconv.Atoi\<close> on a 64-bit machine: None is the error (syntax or range).\<close>

definition atoi :: "string \<Rightarrow> int option" where
  "atoi s =
    (let neg = (case s of [] \<Rightarrow> False | c # _ \<Rightarrow> c = CHR ''-'');
         signed = (case s of [] \<Rightarrow> False | c # _ \<Rightarrow> c = CHR ''-'' \<or> c = CHR ''+'');
         ds = (if signed then tl s else s)
     in if ds = [] then None
        else (case dec_value 0 ds of
                None \<Rightarrow> None
              | Some v \<Rightarrow>
                  (let n = (if neg then - int v else int v)
                   in if - (2 ^ 63) \<le> n \<and> n < 2 ^ 63 then Some n else None)))"

lemma digit_chars [simp]:
  "digit_char 0 = CHR ''0''" "digit_char (Suc 0) = CHR ''1''" "digit_char 1 = CHR ''1''"
  "digit_char 2 = CHR ''2''" "digit_char 3 = CHR ''3''" "digit_char 4 = CHR ''4''" "digit_char 5 = CHR ''5''"
  "digit_char 6 = CHR ''6''" "digit_char 7 = CHR ''7''" "digit_char 8 = CHR ''8''" "digit_char 9 = CHR ''9''"
  by code_simp+

lemma digit_value_char [simp]: "d < 10 \<Longrightarrow> digit_value (digit_char d) = Some d"
  by (simp add: digit_value_def digit_char_def Let_def of_char_of)

lemma dec_value_append:
  "dec_value acc (xs @ ys) = (case dec_value acc xs of None \<Rightarrow> None | Some v \<Rightarrow> dec_value v ys)"
  by (induction xs arbitrary: acc) (auto split: option.splits)

lemma dec_value_digits: "dec_value 0 (dec_digits n) = Some n"
proof (induction n rule: dec_digits.induct)
  case (1 n)
  show ?case
  proof (cases "n < 10")
    case True
    then show ?thesis by (simp add: dec_digits.simps [of n])
  next
    case False
    with 1 show ?thesis by (simp add: dec_digits.simps [of n] dec_value_append)
  qed
qed

lemma dec_digits_nonempty [simp]: "dec_digits n \<noteq> []"
  by (simp add: dec_digits.simps [of n])

lemma dec_digits_numeric: "c \<in> set (dec_digits n) \<Longrightarrow> \<exists>d<10. c = digit_char d"
proof (induction n rule: dec_digits.induct)
  case (1 n)
  show ?case
  proof (cases "n < 10")
    case True
    with "1.prems" show ?thesis by (auto simp: dec_digits.simps [of n])
  next
    case False
    have "n mod 10 < 10" by simp
    moreover have "c \<in> set (dec_digits (n div 10)) \<or> c = digit_char (n mod 10)"
      using False "1.prems" by (auto simp: dec_digits.simps [of n])
    ultimately show ?thesis using "1.IH" [OF False] by blast
  qed
qed

lemma digit_char_neq: "d < 10 \<Longrightarrow> digit_char d \<notin> {CHR ''-'', CHR ''+'', CHR ''$'', CHR '' '', CHR ''.'', CHR '':''}"
proof -
  assume "d < 10"
  then have "(of_char (digit_char d) :: nat) = d + 48" by (simp add: digit_char_def of_char_of)
  moreover have "(of_char c :: nat) < 48 \<or> (of_char c :: nat) = 58"
    if "c \<in> {CHR ''-'', CHR ''+'', CHR ''$'', CHR '' '', CHR ''.'', CHR '':''}" for c
    using that by auto
  ultimately show ?thesis using \<open>d < 10\<close> by fastforce
qed

lemma atoi_itoa: "- (2 ^ 63) \<le> n \<Longrightarrow> n < 2 ^ 63 \<Longrightarrow> atoi (itoa n) = Some n"
proof (cases "n < 0")
  case True
  moreover assume "- (2 ^ 63) \<le> n"
  ultimately show ?thesis by (simp add: atoi_def itoa_def dec_value_digits Let_def)
next
  case False
  assume n: "n < 2 ^ 63"
  obtain c cs where ds: "dec_digits (nat n) = c # cs" by (cases "dec_digits (nat n)") auto
  then obtain d where "d < 10" "c = digit_char d" using dec_digits_numeric [of c "nat n"] by auto
  then have "c \<noteq> CHR ''-''" "c \<noteq> CHR ''+''" using digit_char_neq by auto
  then show ?thesis
    using False n dec_value_digits [of "nat n"] by (simp add: atoi_def itoa_def ds Let_def)
qed

section \<open>Base 64\<close>

definition b64_digit :: "nat \<Rightarrow> char" where
  "b64_digit n =
    (if n < 26 then char_of (n + 65) else if n < 52 then char_of (n + 71)
     else if n < 62 then char_of (n - 4) else if n = 62 then CHR ''+'' else CHR ''/'')"

definition b64_value :: "char \<Rightarrow> nat option" where
  "b64_value c =
    (let n = (of_char c :: nat) in
     if 65 \<le> n \<and> n \<le> 90 then Some (n - 65) else if 97 \<le> n \<and> n \<le> 122 then Some (n - 71)
     else if 48 \<le> n \<and> n \<le> 57 then Some (n + 4) else if c = CHR ''+'' then Some 62
     else if c = CHR ''/'' then Some 63 else None)"

definition b64_quad :: "nat \<Rightarrow> string" where
  "b64_quad n = [b64_digit (n div 262144), b64_digit (n div 4096 mod 64), b64_digit (n div 64 mod 64),
     b64_digit (n mod 64)]"

abbreviation b64_pad :: char where "b64_pad \<equiv> CHR ''=''"

fun b64_encode :: "byte list \<Rightarrow> string" where
  "b64_encode [] = []"
| "b64_encode [a] = take 2 (b64_quad (unat a * 65536)) @ [b64_pad, b64_pad]"
| "b64_encode [a, b] = take 3 (b64_quad (unat a * 65536 + unat b * 256)) @ [b64_pad]"
| "b64_encode (a # b # c # bs) = b64_quad (unat a * 65536 + unat b * 256 + unat c) @ b64_encode bs"

definition b64_number :: "char \<Rightarrow> char \<Rightarrow> char \<Rightarrow> char \<Rightarrow> nat option" where
  "b64_number c0 c1 c2 c3 =
    (case (b64_value c0, b64_value c1, b64_value c2, b64_value c3) of
       (Some v0, Some v1, Some v2, Some v3) \<Rightarrow> Some (v0 * 262144 + v1 * 4096 + v2 * 64 + v3)
     | _ \<Rightarrow> None)"

definition b64_bytes :: "nat \<Rightarrow> byte list" where
  "b64_bytes n = [word_of_nat (n div 65536), word_of_nat (n div 256 mod 256), word_of_nat (n mod 256)]"

fun b64_quads :: "string \<Rightarrow> byte list option" where
  "b64_quads [] = Some []"
| "b64_quads (c0 # c1 # c2 # c3 # cs) =
    (if c3 = b64_pad then
       (if cs \<noteq> [] then None
        else if c2 = b64_pad then map_option (\<lambda>n. take 1 (b64_bytes n)) (b64_number c0 c1 CHR ''A'' CHR ''A'')
        else map_option (\<lambda>n. take 2 (b64_bytes n)) (b64_number c0 c1 c2 CHR ''A''))
     else (case b64_number c0 c1 c2 c3 of
             None \<Rightarrow> None
           | Some n \<Rightarrow> map_option ((@) (b64_bytes n)) (b64_quads cs)))"
| "b64_quads _ = None"

text \<open>Line breaks in the input are skipped.\<close>

definition b64_decode :: "string \<Rightarrow> byte list option" where
  "b64_decode s = b64_quads (filter (\<lambda>c. c \<noteq> CHR 0x0A \<and> c \<noteq> CHR 0x0D) s)"

lemma of_char_b64_digit:
  "n < 64 \<Longrightarrow> (of_char (b64_digit n) :: nat) =
    (if n < 26 then n + 65 else if n < 52 then n + 71 else if n < 62 then n - 4 else if n = 62 then 43 else 47)"
  by (auto simp: b64_digit_def of_char_of)

lemma b64_value_digit [simp]: "n < 64 \<Longrightarrow> b64_value (b64_digit n) = Some n"
proof -
  assume n: "n < 64"
  consider "n < 62" | "n = 62" | "n = 63" using n by linarith
  then show ?thesis
    by cases (auto simp: b64_value_def of_char_b64_digit Let_def, auto simp: b64_digit_def)
qed

lemma b64_digit_plain: "n < 64 \<Longrightarrow> b64_digit n \<notin> {b64_pad, CHR 0x0A, CHR 0x0D, CHR ''$''}"
proof
  assume n: "n < 64" and "b64_digit n \<in> {b64_pad, CHR 0x0A, CHR 0x0D, CHR ''$''}"
  then have "(of_char (b64_digit n) :: nat) \<in> {61, 10, 13, 36}" by auto
  then show False using n by (auto simp: of_char_b64_digit split: if_splits)
qed

lemma b64_number_quad:
  assumes "n < 16777216"
  shows "b64_number (b64_digit (n div 262144)) (b64_digit (n div 4096 mod 64)) (b64_digit (n div 64 mod 64))
    (b64_digit (n mod 64)) = Some n"
proof -
  have d3: "n div 262144 < 64" using assms by simp
  define q1 q2 q3 where q: "q1 = n div 64" "q2 = q1 div 64" "q3 = q2 div 64"
  have d: "n div 4096 = q2" "n div 262144 = q3" by (simp_all add: q div_mult2_eq [symmetric])
  have "n = q1 * 64 + n mod 64" "q1 = q2 * 64 + q1 mod 64" "q2 = q3 * 64 + q2 mod 64"
    by (simp_all add: q)
  then have s: "q3 * 262144 + q2 mod 64 * 4096 + q1 mod 64 * 64 + n mod 64 = n" by linarith
  have "q3 < 64" using d3 unfolding d .
  then show ?thesis using s by (simp add: b64_number_def d q(1) [symmetric])
qed

lemma byte_less: "unat (a :: byte) < 256"
  by (rule order_less_le_trans [OF unsigned_less]) simp

lemma b64_bytes_three:
  "b64_bytes (unat a * 65536 + unat b * 256 + unat c) = [a, b, c]"
proof -
  let ?n = "unat a * 65536 + unat b * 256 + unat c"
  have n: "?n = (unat a * 256 + unat b) * 256 + unat c" by simp
  have 1: "?n mod 256 = unat c" using byte_less [of c] by (simp only: n mod_mult_self3 mod_less)
  have 2: "?n div 256 = unat a * 256 + unat b" using byte_less [of c] by (simp only: n div_mult_self3)
  have "?n div 65536 = ?n div 256 div 256" by (simp add: div_mult2_eq [symmetric])
  then have 3: "?n div 65536 = unat a" unfolding 2 using byte_less [of b] by simp
  show ?thesis unfolding b64_bytes_def 1 2 3 using byte_less [of b] by simp
qed

lemma b64_quads_encode: "b64_quads (b64_encode bs) = Some bs"
proof (induction bs rule: b64_encode.induct)
  case 1
  then show ?case by simp
next
  case (2 a)
  let ?n = "unat a * 65536"
  have e: "?n = unat a * 1024 * 64" by simp
  have n: "?n < 16777216" "?n div 64 mod 64 = 0" "?n mod 64 = 0"
    using byte_less [of a] by (simp, simp_all only: e nonzero_mult_div_cancel_right mod_mult_self2_is_0) simp_all
  have "b64_digit 0 = CHR ''A''" by code_simp
  with b64_number_quad [OF n(1)] b64_bytes_three [of a 0 0] show ?case
    by (simp add: b64_quad_def n(2,3))
next
  case (3 a b)
  let ?n = "unat a * 65536 + unat b * 256"
  have "?n = (unat a * 1024 + unat b * 4) * 64" by simp
  then have n: "?n < 16777216" "?n mod 64 = 0"
    using byte_less [of a] byte_less [of b] by (linarith, metis mod_mult_self2_is_0)
  have A: "b64_digit 0 = CHR ''A''" by code_simp
  have "b64_digit (?n div 64 mod 64) \<noteq> b64_pad" using b64_digit_plain [of "?n div 64 mod 64"] by auto
  with b64_number_quad [OF n(1)] b64_bytes_three [of a b 0] A show ?case
    by (simp add: b64_quad_def n(2))
next
  case (4 a b c bs)
  let ?n = "unat a * 65536 + unat b * 256 + unat c"
  have n: "?n < 16777216" using byte_less [of a] byte_less [of b] byte_less [of c] by linarith
  have "b64_digit (?n mod 64) \<noteq> b64_pad" using b64_digit_plain [of "?n mod 64"] by auto
  with b64_number_quad [OF n] b64_bytes_three [of a b c] 4 show ?case by (simp add: b64_quad_def)
qed

lemma b64_quad_plain: "n < 16777216 \<Longrightarrow> c \<in> set (b64_quad n) \<Longrightarrow> c \<notin> {b64_pad, CHR 0x0A, CHR 0x0D, CHR ''$''}"
proof -
  assume n: "n < 16777216" and c: "c \<in> set (b64_quad n)"
  from n have 1: "n div 262144 < 64" by simp
  have 2: "n div 4096 mod 64 < 64" "n div 64 mod 64 < 64" "n mod 64 < 64" by simp_all
  consider "c = b64_digit (n div 262144)" | "c = b64_digit (n div 4096 mod 64)" | "c = b64_digit (n div 64 mod 64)"
    | "c = b64_digit (n mod 64)"
    using c by (auto simp: b64_quad_def)
  then show ?thesis by cases (use b64_digit_plain [OF 1] 2 [THEN b64_digit_plain] in simp_all)
qed

lemma b64_encode_plain: "c \<in> set (b64_encode bs) \<Longrightarrow> c \<notin> {CHR 0x0A, CHR 0x0D, CHR ''$''}"
proof (induction bs rule: b64_encode.induct)
  case (2 a)
  have "unat a * 65536 < 16777216" using byte_less [of a] by simp
  from b64_quad_plain [OF this, of c] 2 show ?case by (auto dest: in_set_takeD)
next
  case (3 a b)
  have "unat a * 65536 + unat b * 256 < 16777216" using byte_less [of a] byte_less [of b] by linarith
  from b64_quad_plain [OF this, of c] 3 show ?case by (auto dest: in_set_takeD)
next
  case (4 a b c' bs)
  have "unat a * 65536 + unat b * 256 + unat c' < 16777216"
    using byte_less [of a] byte_less [of b] byte_less [of c'] by linarith
  from b64_quad_plain [OF this, of c] 4 show ?case by auto
qed simp

lemma b64_decode_encode [simp]: "b64_decode (b64_encode bs) = Some bs"
proof -
  have "filter (\<lambda>c. c \<noteq> CHR 0x0A \<and> c \<noteq> CHR 0x0D) (b64_encode bs) = b64_encode bs"
    using b64_encode_plain by (auto simp: filter_id_conv)
  then show ?thesis by (simp add: b64_decode_def b64_quads_encode)
qed

end
