(* ===== verification/Users_Store.thy ===== *)
theory Users_Store
  imports Fsutil Go_Text
begin

text \<open>
  The accounts (backend/internal/users/users.go): users.json, its first creation, every
  mutation, and the scrypt password hashes. The store keeps nothing in memory: its state is
  the file. The key derivation scrypt is third-party code and a parameter.
\<close>

section \<open>Data\<close>

definition RoleAdmin :: string where "RoleAdmin = ''admin''"
definition RoleUser :: string where "RoleUser = ''user''"

record user =
  u_ID :: string
  u_Username :: string
  u_PasswordHash :: string
  u_Role :: string
  u_Active :: bool
  u_MustChangePassword :: bool
  u_CreatedAt :: string
  u_UpdatedAt :: string
  u_DeactivatedAt :: string
  u_TOTPEnabled :: bool
  u_TOTPSecretEnc :: string
  u_TOTPConfirmedAt :: string
  u_RecoveryCodesHash :: "string list"
  u_LastUsedTOTPStep :: int
  u_PushMFAEnabled :: bool
  u_PGPFingerprint :: string
  u_PGPKeyID :: string
  u_PGPPublicKey :: string
  u_PGPPrivateKeyEnc :: string
  u_PGPKeySource :: string
  u_PGPKeyCreatedAt :: string

text \<open>The zero value of the struct.\<close>

definition user_zero :: user where
  "user_zero =
    \<lparr>u_ID = '''', u_Username = '''', u_PasswordHash = '''', u_Role = '''', u_Active = False,
     u_MustChangePassword = False, u_CreatedAt = '''', u_UpdatedAt = '''', u_DeactivatedAt = '''',
     u_TOTPEnabled = False, u_TOTPSecretEnc = '''', u_TOTPConfirmedAt = '''', u_RecoveryCodesHash = [],
     u_LastUsedTOTPStep = 0, u_PushMFAEnabled = False, u_PGPFingerprint = '''', u_PGPKeyID = '''',
     u_PGPPublicKey = '''', u_PGPPrivateKeyEnc = '''', u_PGPKeySource = '''', u_PGPKeyCreatedAt = ''''\<rparr>"

record public_user =
  pu_ID :: string
  pu_Username :: string
  pu_Role :: string
  pu_Active :: bool
  pu_MustChangePassword :: bool
  pu_CreatedAt :: string
  pu_UpdatedAt :: string
  pu_DeactivatedAt :: string
  pu_TOTPEnabled :: bool
  pu_PGPFingerprint :: string
  pu_PGPKeyID :: string
  pu_PGPKeySource :: string
  pu_PGPKeyCreatedAt :: string

definition Public :: "user \<Rightarrow> public_user" where
  "Public u =
    \<lparr>pu_ID = u_ID u, pu_Username = u_Username u, pu_Role = u_Role u, pu_Active = u_Active u,
     pu_MustChangePassword = u_MustChangePassword u, pu_CreatedAt = u_CreatedAt u,
     pu_UpdatedAt = u_UpdatedAt u, pu_DeactivatedAt = u_DeactivatedAt u,
     pu_TOTPEnabled = u_TOTPEnabled u, pu_PGPFingerprint = u_PGPFingerprint u,
     pu_PGPKeyID = u_PGPKeyID u, pu_PGPKeySource = u_PGPKeySource u,
     pu_PGPKeyCreatedAt = u_PGPKeyCreatedAt u\<rparr>"

datatype users_error = UsersIO io_error | UserNotFound | UsernameTaken | NoPendingTOTP
  | TOTPStepNotNewer | RecoveryNoMatch | HashFailed

record users_file =
  uf_Version :: int
  uf_Users :: "user list"

type_synonym users_disk = "users_file json_file"

section \<open>Password hashes\<close>

text \<open>
  scrypt: password, salt, N, r, p and key length to the key, None for the error it returns.
\<close>

type_synonym scrypt = "string \<Rightarrow> byte list \<Rightarrow> int \<Rightarrow> int \<Rightarrow> int \<Rightarrow> nat \<Rightarrow> byte list option"

definition HashPassword :: "scrypt \<Rightarrow> byte list option \<Rightarrow> string \<Rightarrow> users_error + string" where
  "HashPassword kdf rnd password =
    (let n = 16384; r = 8; p = 1; keyLen = 32 in
     case rnd of
       None \<Rightarrow> Inl HashFailed
     | Some salt \<Rightarrow>
         (case kdf password salt n r p keyLen of
            None \<Rightarrow> Inl HashFailed
          | Some hash \<Rightarrow>
              Inr (''scrypt$'' @ itoa n @ ''$'' @ itoa r @ ''$'' @ itoa p @ ''$'' @ b64_encode salt
                   @ ''$'' @ b64_encode hash)))"

definition verifyScryptHash :: "scrypt \<Rightarrow> string \<Rightarrow> string \<Rightarrow> bool" where
  "verifyScryptHash kdf encoded candidate =
    (case split_char CHR ''$'' encoded of
       [tag, ns, rs, ps, salt64, hash64] \<Rightarrow>
         tag = ''scrypt'' \<and>
         (case (atoi ns, atoi rs, atoi ps, b64_decode salt64, b64_decode hash64) of
            (Some n, Some r, Some p, Some salt, Some expected) \<Rightarrow>
              expected \<noteq> [] \<and> kdf candidate salt n r p (length expected) = Some expected
          | _ \<Rightarrow> False)
     | _ \<Rightarrow> False)"

definition VerifyPassword :: "scrypt \<Rightarrow> user \<Rightarrow> string \<Rightarrow> bool" where
  "VerifyPassword kdf u candidate = verifyScryptHash kdf (u_PasswordHash u) candidate"

definition VerifySecretHash :: "scrypt \<Rightarrow> string \<Rightarrow> string \<Rightarrow> bool" where
  "VerifySecretHash kdf encoded candidate = verifyScryptHash kdf encoded candidate"

section \<open>Reading and writing\<close>

text \<open>A missing file is a read error here, as \<open>os.ReadFile\<close> returns it.\<close>

definition users_read :: "users_disk \<Rightarrow> users_error + users_file" where
  "users_read d =
    (case d of
       Missing \<Rightarrow> Inl (UsersIO IoRead)
     | Unreadable \<Rightarrow> Inl (UsersIO IoRead)
     | Malformed \<Rightarrow> Inl (UsersIO BadJson)
     | Json f \<Rightarrow> Inr f)"

definition versioned :: "users_file \<Rightarrow> users_file" where
  "versioned f = (if uf_Version f = 0 then f\<lparr>uf_Version := 1\<rparr> else f)"

definition users_write :: "go_env \<Rightarrow> users_file \<Rightarrow> users_disk \<Rightarrow> users_error option \<times> users_disk" where
  "users_write e f d =
    (if env_write_ok e then (None, Json (versioned f)) else (Some (UsersIO IoWrite), d))"

text \<open>
  The first creation. \<open>os.Link\<close> fails with "exists" when the other process was faster, and
  the loser keeps the winner's file; every other step that fails leaves the file alone.
\<close>

definition createInitial :: "go_env \<Rightarrow> users_file \<Rightarrow> users_disk \<Rightarrow> (users_error + bool) \<times> users_disk" where
  "createInitial e f d =
    (if \<not> env_write_ok e then (Inl (UsersIO IoWrite), d)
     else if d \<noteq> Missing then (Inr False, d)
     else (Inr True, Json (versioned f)))"

text \<open>\<open>admin.env\<close> line by line; None when it cannot be read or names no administrator.\<close>

definition env_line :: "string \<Rightarrow> (string \<times> string) option" where
  "env_line l = cut_at CHR ''='' (trim_space l)"

definition env_map :: "string \<Rightarrow> string \<rightharpoonup> string" where
  "env_map content =
    fold (\<lambda>l m. case env_line l of None \<Rightarrow> m | Some (k, v) \<Rightarrow> m(k \<mapsto> v))
      (split_char CHR 0x0A content) Map.empty"

definition env_get :: "(string \<rightharpoonup> string) \<Rightarrow> string \<Rightarrow> string" where
  "env_get m k = (case m k of None \<Rightarrow> '''' | Some v \<Rightarrow> v)"

definition readLegacyAdminEnv :: "string option \<Rightarrow> (string \<rightharpoonup> string) option" where
  "readLegacyAdminEnv content =
    (case content of
       None \<Rightarrow> None
     | Some c \<Rightarrow> (let m = env_map c in if env_get m ''ADMIN_USER'' = '''' then None else Some m))"

definition initial_user :: "go_env \<Rightarrow> string \<Rightarrow> string \<Rightarrow> string \<Rightarrow> bool \<Rightarrow> user" where
  "initial_user e i username hash must_change =
    user_zero\<lparr>u_ID := i, u_Username := username, u_PasswordHash := hash, u_Role := RoleAdmin,
      u_Active := True, u_MustChangePassword := must_change, u_CreatedAt := stamp e, u_UpdatedAt := stamp e\<rparr>"

text \<open>
  The user a first start creates: the administrator of admin.env (his password hashed when
  only the password is there), or a new one with the random password \<open>pw\<close> (None: the random
  source failed). \<open>salt\<close> feeds the hash, \<open>env_rand\<close> the ID.
\<close>

definition first_user ::
  "scrypt \<Rightarrow> go_env \<Rightarrow> byte list option \<Rightarrow> string option \<Rightarrow> string option \<Rightarrow> users_error + user" where
  "first_user kdf e salt pw content =
    (case readLegacyAdminEnv content of
       Some m \<Rightarrow>
         (case NewUUIDv4 (env_rand e) of
            Inl err \<Rightarrow> Inl (UsersIO err)
          | Inr i \<Rightarrow>
              (let must = equal_fold (env_get m ''MUST_CHANGE_PASSWORD'') ''true'';
                   name = env_get m ''ADMIN_USER'';
                   u = initial_user e i (if name = '''' then ''admin'' else name)
                         (env_get m ''ADMIN_PASS_HASH'') must
               in if u_PasswordHash u = '''' \<and> env_get m ''ADMIN_PASS'' \<noteq> ''''
                  then and_then (HashPassword kdf salt (env_get m ''ADMIN_PASS''))
                         (\<lambda>h. Inr (u\<lparr>u_PasswordHash := h\<rparr>))
                  else Inr u))
     | None \<Rightarrow>
         (case pw of
            None \<Rightarrow> Inl (UsersIO NoEntropy)
          | Some password \<Rightarrow>
              and_then (HashPassword kdf salt password) (\<lambda>h.
                case NewUUIDv4 (env_rand e) of
                  Inl err \<Rightarrow> Inl (UsersIO err)
                | Inr i \<Rightarrow> Inr (initial_user e i ''admin'' h True))))"

text \<open>
  Opening the store: \<open>seen\<close> is the file when it is examined, \<open>d\<close> the file when it is created
  (the other process may have run in between).
\<close>

definition LoadOrMigrate ::
  "scrypt \<Rightarrow> go_env \<Rightarrow> byte list option \<Rightarrow> string option \<Rightarrow> string option \<Rightarrow> users_disk \<Rightarrow> users_disk \<Rightarrow>
   users_error option \<times> users_disk" where
  "LoadOrMigrate kdf e salt pw content seen d =
    (case seen of
       Missing \<Rightarrow>
         (case first_user kdf e salt pw content of
            Inl err \<Rightarrow> (Some err, d)
          | Inr u \<Rightarrow>
              (case createInitial e \<lparr>uf_Version = 1, uf_Users = [u]\<rparr> d of
                 (Inl err, d') \<Rightarrow> (Some err, d')
               | (Inr _, d') \<Rightarrow> (None, d')))
     | _ \<Rightarrow> (case users_read seen of Inl err \<Rightarrow> (Some err, d) | Inr _ \<Rightarrow> (None, d)))"

section \<open>Reading accounts\<close>

definition users_List :: "users_disk \<Rightarrow> users_error + user list" where
  "users_List d = and_then (users_read d) (\<lambda>f. Inr (uf_Users f))"

definition find_or_not_found :: "(user \<Rightarrow> bool) \<Rightarrow> users_file \<Rightarrow> users_error + user" where
  "find_or_not_found P f = (case List.find P (uf_Users f) of None \<Rightarrow> Inl UserNotFound | Some u \<Rightarrow> Inr u)"

definition users_Get :: "string \<Rightarrow> users_disk \<Rightarrow> users_error + user" where
  "users_Get i d = and_then (users_read d) (find_or_not_found (\<lambda>u. u_ID u = i))"

definition users_GetByUsername :: "string \<Rightarrow> users_disk \<Rightarrow> users_error + user" where
  "users_GetByUsername name d = and_then (users_read d) (find_or_not_found (\<lambda>u. u_Username u = name))"

fun first_admin_loop :: "user \<Rightarrow> user list \<Rightarrow> user" where
  "first_admin_loop best [] = best"
| "first_admin_loop best (u # us) =
    (if u_Role u \<noteq> RoleAdmin \<or> \<not> u_Active u then first_admin_loop best us
     else if u_ID best = '''' \<or> u_CreatedAt u < u_CreatedAt best then first_admin_loop u us
     else first_admin_loop best us)"

definition FirstAdminFrom :: "user list \<Rightarrow> user" where
  "FirstAdminFrom us = first_admin_loop user_zero us"

definition FirstAdmin :: "users_disk \<Rightarrow> users_error + user" where
  "FirstAdmin d =
    and_then (users_List d) (\<lambda>us.
      let admin = FirstAdminFrom us in if u_ID admin = '''' then Inl UserNotFound else Inr admin)"

section \<open>Mutations\<close>

definition users_Create ::
  "scrypt \<Rightarrow> go_env \<Rightarrow> byte list option \<Rightarrow> string \<Rightarrow> string \<Rightarrow> string \<Rightarrow> users_disk \<Rightarrow>
   (users_error + user) \<times> users_disk" where
  "users_Create kdf e salt username password role d =
    (case users_read d of
       Inl err \<Rightarrow> (Inl err, d)
     | Inr f \<Rightarrow>
        if list_ex (\<lambda>u. u_Username u = username) (uf_Users f) then (Inl UsernameTaken, d)
        else
          (case HashPassword kdf salt password of
             Inl err \<Rightarrow> (Inl err, d)
           | Inr hash \<Rightarrow>
              (case NewUUIDv4 (env_rand e) of
                 Inl err \<Rightarrow> (Inl (UsersIO err), d)
               | Inr i \<Rightarrow>
                  (let u = user_zero\<lparr>u_ID := i, u_Username := username, u_PasswordHash := hash,
                             u_Role := role, u_Active := True, u_MustChangePassword := True,
                             u_CreatedAt := stamp e, u_UpdatedAt := stamp e\<rparr>
                   in case users_write e (f\<lparr>uf_Users := uf_Users f @ [u]\<rparr>) d of
                        (Some err, d') \<Rightarrow> (Inl err, d')
                      | (None, d') \<Rightarrow> (Inr u, d')))))"

text \<open>\<open>fn\<close> gives the changed user or the error that aborts without writing.\<close>

definition users_mutate ::
  "go_env \<Rightarrow> string \<Rightarrow> (user \<Rightarrow> users_error + user) \<Rightarrow> users_disk \<Rightarrow> (users_error + user) \<times> users_disk"
where
  "users_mutate e i fn d =
    (case users_read d of
       Inl err \<Rightarrow> (Inl err, d)
     | Inr f \<Rightarrow>
        (case List.find (\<lambda>u. u_ID u = i) (uf_Users f) of
           None \<Rightarrow> (Inl UserNotFound, d)
         | Some u \<Rightarrow>
            (case fn u of
               Inl err \<Rightarrow> (Inl err, d)
             | Inr u1 \<Rightarrow>
                (let u2 = u1\<lparr>u_UpdatedAt := stamp e\<rparr>;
                     f' = f\<lparr>uf_Users := replace_first (\<lambda>u. u_ID u = i) (\<lambda>_. u2) (uf_Users f)\<rparr>
                 in case users_write e f' d of
                      (Some err, d') \<Rightarrow> (Inl err, d')
                    | (None, d') \<Rightarrow> (Inr u2, d')))))"

definition users_SetRole :: "go_env \<Rightarrow> string \<Rightarrow> string \<Rightarrow> users_disk \<Rightarrow> (users_error + user) \<times> users_disk"
where
  "users_SetRole e i role = users_mutate e i (\<lambda>u. Inr (u\<lparr>u_Role := role\<rparr>))"

definition SetPassword ::
  "scrypt \<Rightarrow> go_env \<Rightarrow> byte list option \<Rightarrow> string \<Rightarrow> string \<Rightarrow> bool \<Rightarrow> users_disk \<Rightarrow> (users_error + user) \<times> users_disk"
where
  "SetPassword kdf e salt i newPassword requireChange d =
    (case HashPassword kdf salt newPassword of
       Inl err \<Rightarrow> (Inl err, d)
     | Inr hash \<Rightarrow>
        users_mutate e i (\<lambda>u. Inr (u\<lparr>u_PasswordHash := hash, u_MustChangePassword := requireChange\<rparr>)) d)"

definition ClearMustChangePassword :: "go_env \<Rightarrow> string \<Rightarrow> users_disk \<Rightarrow> (users_error + user) \<times> users_disk"
where
  "ClearMustChangePassword e i = users_mutate e i (\<lambda>u. Inr (u\<lparr>u_MustChangePassword := False\<rparr>))"

definition Deactivate :: "go_env \<Rightarrow> string \<Rightarrow> users_disk \<Rightarrow> (users_error + user) \<times> users_disk" where
  "Deactivate e i = users_mutate e i (\<lambda>u. Inr (u\<lparr>u_Active := False, u_DeactivatedAt := stamp e\<rparr>))"

definition Reactivate :: "go_env \<Rightarrow> string \<Rightarrow> users_disk \<Rightarrow> (users_error + user) \<times> users_disk" where
  "Reactivate e i = users_mutate e i (\<lambda>u. Inr (u\<lparr>u_Active := True, u_DeactivatedAt := ''''\<rparr>))"

definition SetPendingTOTPSecret ::
  "go_env \<Rightarrow> string \<Rightarrow> string \<Rightarrow> users_disk \<Rightarrow> (users_error + user) \<times> users_disk" where
  "SetPendingTOTPSecret e i secretEnc = users_mutate e i
    (\<lambda>u. Inr (u\<lparr>u_TOTPSecretEnc := secretEnc, u_TOTPEnabled := False, u_TOTPConfirmedAt := '''',
                u_RecoveryCodesHash := []\<rparr>))"

definition EnableTOTP ::
  "go_env \<Rightarrow> string \<Rightarrow> string \<Rightarrow> string list \<Rightarrow> users_disk \<Rightarrow> (users_error + user) \<times> users_disk" where
  "EnableTOTP e i confirmedAt recoveryHashes = users_mutate e i
    (\<lambda>u. if u_TOTPSecretEnc u = '''' then Inl NoPendingTOTP
         else Inr (u\<lparr>u_TOTPEnabled := True, u_TOTPConfirmedAt := confirmedAt,
                     u_RecoveryCodesHash := recoveryHashes\<rparr>))"

definition DisableTOTP :: "go_env \<Rightarrow> string \<Rightarrow> users_disk \<Rightarrow> (users_error + user) \<times> users_disk" where
  "DisableTOTP e i = users_mutate e i
    (\<lambda>u. Inr (u\<lparr>u_TOTPEnabled := False, u_TOTPSecretEnc := '''', u_TOTPConfirmedAt := '''',
                u_RecoveryCodesHash := [], u_PushMFAEnabled := False\<rparr>))"

definition SetPushMFAEnabled :: "go_env \<Rightarrow> string \<Rightarrow> bool \<Rightarrow> users_disk \<Rightarrow> (users_error + user) \<times> users_disk"
where
  "SetPushMFAEnabled e i enabled = users_mutate e i (\<lambda>u. Inr (u\<lparr>u_PushMFAEnabled := enabled\<rparr>))"

definition SetLastUsedTOTPStep ::
  "go_env \<Rightarrow> string \<Rightarrow> int \<Rightarrow> users_disk \<Rightarrow> (users_error + user) \<times> users_disk" where
  "SetLastUsedTOTPStep e i step = users_mutate e i
    (\<lambda>u. if step \<le> u_LastUsedTOTPStep u then Inl TOTPStepNotNewer
         else Inr (u\<lparr>u_LastUsedTOTPStep := step\<rparr>))"

definition SetPGPIdentity ::
  "go_env \<Rightarrow> string \<Rightarrow> string \<Rightarrow> string \<Rightarrow> string \<Rightarrow> string \<Rightarrow> string \<Rightarrow> string \<Rightarrow> users_disk \<Rightarrow>
   (users_error + user) \<times> users_disk" where
  "SetPGPIdentity e i fingerprint keyID armoredPublicKey privateKeyEnc source createdAt = users_mutate e i
    (\<lambda>u. Inr (u\<lparr>u_PGPFingerprint := fingerprint, u_PGPKeyID := keyID, u_PGPPublicKey := armoredPublicKey,
                u_PGPPrivateKeyEnc := privateKeyEnc, u_PGPKeySource := source,
                u_PGPKeyCreatedAt := createdAt\<rparr>))"

definition ClearPGPIdentity :: "go_env \<Rightarrow> string \<Rightarrow> users_disk \<Rightarrow> (users_error + user) \<times> users_disk" where
  "ClearPGPIdentity e i = SetPGPIdentity e i '''' '''' '''' '''' '''' ''''"

definition ReplaceRecoveryCodes ::
  "go_env \<Rightarrow> string \<Rightarrow> string list \<Rightarrow> users_disk \<Rightarrow> (users_error + user) \<times> users_disk" where
  "ReplaceRecoveryCodes e i recoveryHashes = users_mutate e i
    (\<lambda>u. Inr (u\<lparr>u_RecoveryCodesHash := recoveryHashes\<rparr>))"

definition spend_code :: "scrypt \<Rightarrow> string \<Rightarrow> user \<Rightarrow> users_error + user" where
  "spend_code kdf candidate u =
    (if list_ex (\<lambda>h. verifyScryptHash kdf h candidate) (u_RecoveryCodesHash u)
     then Inr (u\<lparr>u_RecoveryCodesHash :=
            remove_first (\<lambda>h. verifyScryptHash kdf h candidate) (u_RecoveryCodesHash u)\<rparr>)
     else Inl RecoveryNoMatch)"

definition ConsumeRecoveryCode ::
  "scrypt \<Rightarrow> go_env \<Rightarrow> string \<Rightarrow> string \<Rightarrow> users_disk \<Rightarrow> (users_error + user option) \<times> users_disk" where
  "ConsumeRecoveryCode kdf e i candidate d =
    (case users_mutate e i (spend_code kdf candidate) d of
       (Inl err, d') \<Rightarrow> (if err = RecoveryNoMatch then Inr None else Inl err, d')
     | (Inr u, d') \<Rightarrow> (Inr (Some u), d'))"

text \<open>A request to the store and its reply.\<close>

datatype users_request =
  UqCreate "byte list option" string string string
| UqRole string string
| UqPassword "byte list option" string string bool
| UqClearMustChange string
| UqDeactivate string
| UqReactivate string
| UqPendingTOTP string string
| UqEnableTOTP string string "string list"
| UqDisableTOTP string
| UqPushMFA string bool
| UqTOTPStep string int
| UqPGP string string string string string string string
| UqClearPGP string
| UqReplaceCodes string "string list"
| UqConsumeCode string string

fun users_call :: "scrypt \<Rightarrow> go_env \<Rightarrow> users_request \<Rightarrow> users_disk \<Rightarrow> (users_error + user option) \<times> users_disk"
where
  "users_call kdf e (UqConsumeCode i c) d = ConsumeRecoveryCode kdf e i c d"
| "users_call kdf e rq d = map_prod (map_sum id Some) id
    (case rq of
       UqCreate salt n p r \<Rightarrow> users_Create kdf e salt n p r d
     | UqRole i r \<Rightarrow> users_SetRole e i r d
     | UqPassword salt i p c \<Rightarrow> SetPassword kdf e salt i p c d
     | UqClearMustChange i \<Rightarrow> ClearMustChangePassword e i d
     | UqDeactivate i \<Rightarrow> Deactivate e i d
     | UqReactivate i \<Rightarrow> Reactivate e i d
     | UqPendingTOTP i s \<Rightarrow> SetPendingTOTPSecret e i s d
     | UqEnableTOTP i at hs \<Rightarrow> EnableTOTP e i at hs d
     | UqDisableTOTP i \<Rightarrow> DisableTOTP e i d
     | UqPushMFA i b \<Rightarrow> SetPushMFAEnabled e i b d
     | UqTOTPStep i st \<Rightarrow> SetLastUsedTOTPStep e i st d
     | UqPGP i a b c f g h \<Rightarrow> SetPGPIdentity e i a b c f g h d
     | UqClearPGP i \<Rightarrow> ClearPGPIdentity e i d
     | UqReplaceCodes i hs \<Rightarrow> ReplaceRecoveryCodes e i hs d)"

section \<open>What a mutation changes\<close>

text \<open>IDs and user names are distinct, and no ID is empty.\<close>

definition users_ok :: "users_file \<Rightarrow> bool" where
  "users_ok f \<longleftrightarrow> distinct (map u_ID (uf_Users f)) \<and> distinct (map u_Username (uf_Users f)) \<and>
     '''' \<notin> u_ID ` set (uf_Users f)"

definition account :: "users_disk \<Rightarrow> string \<Rightarrow> user option" where
  "account d i = (case users_Get i d of Inl _ \<Rightarrow> None | Inr u \<Rightarrow> Some u)"

lemma account_Json: "account (Json f) i = List.find (\<lambda>u. u_ID u = i) (uf_Users f)"
  by (simp add: account_def users_Get_def users_read_def find_or_not_found_def split: option.split)

lemma versioned_users [simp]: "uf_Users (versioned f) = uf_Users f"
  by (simp add: versioned_def)

text \<open>A mutation of account i, seen from any account.\<close>

lemma mutate_cases:
  assumes "users_mutate e i fn (Json f) = (r, d)"
  obtains err where "r = Inl err" "d = Json f" "err \<in> {UserNotFound, UsersIO IoWrite} \<or> (\<exists>u. account (Json f) i = Some u \<and> fn u = Inl err)"
  | u u1 where "account (Json f) i = Some u" "fn u = Inr u1" "r = Inr (u1\<lparr>u_UpdatedAt := stamp e\<rparr>)"
      "d = Json (versioned (f\<lparr>uf_Users := replace_first (\<lambda>u. u_ID u = i) (\<lambda>_. u1\<lparr>u_UpdatedAt := stamp e\<rparr>) (uf_Users f)\<rparr>))"
      "env_write_ok e"
proof (cases "List.find (\<lambda>u. u_ID u = i) (uf_Users f)")
  case None
  then show ?thesis using assms that(1) [of UserNotFound] by (simp add: users_mutate_def users_read_def)
next
  case u: (Some u)
  show ?thesis
  proof (cases "fn u")
    case (Inl err)
    then have "r = Inl err" "d = Json f" using assms u by (simp_all add: users_mutate_def users_read_def)
    then show ?thesis using Inl u by (intro that(1)) (auto simp: account_Json)
  next
    case (Inr u1)
    then show ?thesis
      using assms that(1) [of "UsersIO IoWrite"] that(2) [of u u1] u
      by (cases "env_write_ok e") (simp_all add: users_mutate_def users_read_def users_write_def account_Json Let_def)
  qed
qed

lemma mutate_account:
  assumes "users_mutate e i fn (Json f) = (r, d)" "\<And>u u1. fn u = Inr u1 \<Longrightarrow> u_ID u1 = u_ID u"
  shows "account d j = (if j = i then (case r of Inl _ \<Rightarrow> account (Json f) i | Inr u \<Rightarrow> Some u) else account (Json f) j)"
  using assms(1)
proof (cases rule: mutate_cases)
  case (1 err)
  then show ?thesis by simp
next
  case (2 u u1)
  let ?u2 = "u1\<lparr>u_UpdatedAt := stamp e\<rparr>"
  have u: "List.find (\<lambda>u. u_ID u = i) (uf_Users f) = Some u" using 2(1) by (simp add: account_Json)
  then have id2: "u_ID ?u2 = i" using find_SomeD [OF u] assms(2) [OF 2(2)] by simp
  have "List.find (\<lambda>u. u_ID u = i) (replace_first (\<lambda>u. u_ID u = i) (\<lambda>_. ?u2) (uf_Users f)) = Some ?u2"
    by (rule find_replace_first_same [OF u]) (simp add: id2)
  moreover have "List.find (\<lambda>u. u_ID u = j) (replace_first (\<lambda>u. u_ID u = i) (\<lambda>_. ?u2) (uf_Users f)) =
      List.find (\<lambda>u. u_ID u = j) (uf_Users f)" if "j \<noteq> i"
    by (rule find_replace_first_other) (use that id2 in auto)
  ultimately show ?thesis using 2 by (simp add: account_Json)
qed

lemma mutate_ok:
  assumes "users_mutate e i fn (Json f) = (r, d)" "users_ok f"
    and "\<And>u u1. fn u = Inr u1 \<Longrightarrow> u_ID u1 = u_ID u \<and> u_Username u1 = u_Username u"
  shows "\<exists>f'. d = Json f' \<and> users_ok f'"
  using assms(1)
proof (cases rule: mutate_cases)
  case (1 err)
  with assms(2) show ?thesis by simp
next
  case (2 u u1)
  let ?us = "replace_first (\<lambda>u. u_ID u = i) (\<lambda>_. u1\<lparr>u_UpdatedAt := stamp e\<rparr>) (uf_Users f)"
  have u: "List.find (\<lambda>u. u_ID u = i) (uf_Users f) = Some u" using 2(1) by (simp add: account_Json)
  have "map u_ID ?us = map u_ID (uf_Users f)" "map u_Username ?us = map u_Username (uf_Users f)"
    by (rule map_replace_first_found [OF u]; simp add: assms(3) [OF 2(2)])+
  then have "distinct (map u_ID ?us)" "distinct (map u_Username ?us)" "u_ID ` set ?us = u_ID ` set (uf_Users f)"
    using assms(2) by (simp_all add: users_ok_def) (metis image_set)
  then show ?thesis using 2(4) assms(2) by (simp add: users_ok_def)
qed

lemma mutate_step:
  assumes "users_mutate e i fn (Json f) = (r, d)" "\<And>u u1. fn u = Inr u1 \<Longrightarrow> u_ID u1 = u_ID u"
    and "account (Json f) j = Some u"
  obtains f' u' where "d = Json f'" "account d j = Some u'"
    "u' = u \<and> (j = i \<longrightarrow> (\<exists>err. r = Inl err)) \<or>
     j = i \<and> (\<exists>u1. fn u = Inr u1 \<and> u' = u1\<lparr>u_UpdatedAt := stamp e\<rparr> \<and> r = Inr u')"
proof -
  note acc = mutate_account [OF assms(1,2), of j]
  from assms(1) show thesis
  proof (cases rule: mutate_cases)
    case (1 err)
    then show thesis using that [of f u] acc assms(3) by simp
  next
    case (2 v u1)
    let ?u2 = "u1\<lparr>u_UpdatedAt := stamp e\<rparr>"
    show thesis
    proof (cases "j = i")
      case True
      then show thesis using that [of _ ?u2] acc assms(3) 2 by simp
    next
      case False
      then show thesis using that [of _ u] acc assms(3) 2 by simp
    qed
  qed
qed

text \<open>The effect of any request on one existing account.\<close>

definition accepts_step :: "string \<Rightarrow> users_request \<times> (users_error + user option) \<Rightarrow> int option" where
  "accepts_step i ev =
    (case ev of (UqTOTPStep j s, Inr (Some _)) \<Rightarrow> if j = i then Some s else None | _ \<Rightarrow> None)"

definition accepts_code :: "string \<Rightarrow> users_request \<times> (users_error + user option) \<Rightarrow> bool" where
  "accepts_code i ev = (case ev of (UqConsumeCode j c, Inr (Some _)) \<Rightarrow> j = i | _ \<Rightarrow> False)"

definition renews_codes :: "string \<Rightarrow> users_request \<Rightarrow> bool" where
  "renews_codes i rq = (case rq of UqEnableTOTP j _ _ \<Rightarrow> j = i | UqReplaceCodes j _ \<Rightarrow> j = i | _ \<Rightarrow> False)"

definition step_effect :: "string \<Rightarrow> users_request \<Rightarrow> users_error + user option \<Rightarrow> user \<Rightarrow> user \<Rightarrow> bool" where
  "step_effect i rq r u u' \<longleftrightarrow>
    (case accepts_step i (rq, r) of
       Some s \<Rightarrow> u_LastUsedTOTPStep u < s \<and> u_LastUsedTOTPStep u' = s
     | None \<Rightarrow> u_LastUsedTOTPStep u' = u_LastUsedTOTPStep u) \<and>
    (renews_codes i rq \<or>
     length (u_RecoveryCodesHash u') + (if accepts_code i (rq, r) then 1 else 0) \<le> length (u_RecoveryCodesHash u))"

lemmas users_ops = users_SetRole_def SetPassword_def ClearMustChangePassword_def Deactivate_def Reactivate_def
  SetPendingTOTPSecret_def EnableTOTP_def DisableTOTP_def SetPushMFAEnabled_def SetLastUsedTOTPStep_def
  SetPGPIdentity_def ClearPGPIdentity_def ReplaceRecoveryCodes_def

text \<open>The requests that are one mutation whose reply is passed on: the account and the change.\<close>

definition users_fn :: "go_env \<Rightarrow> users_request \<Rightarrow> (string \<times> (user \<Rightarrow> users_error + user)) option" where
  "users_fn e rq =
    (case rq of
       UqRole i r \<Rightarrow> Some (i, \<lambda>u. Inr (u\<lparr>u_Role := r\<rparr>))
     | UqClearMustChange i \<Rightarrow> Some (i, \<lambda>u. Inr (u\<lparr>u_MustChangePassword := False\<rparr>))
     | UqDeactivate i \<Rightarrow> Some (i, \<lambda>u. Inr (u\<lparr>u_Active := False, u_DeactivatedAt := stamp e\<rparr>))
     | UqReactivate i \<Rightarrow> Some (i, \<lambda>u. Inr (u\<lparr>u_Active := True, u_DeactivatedAt := ''''\<rparr>))
     | UqPendingTOTP i s \<Rightarrow> Some (i, \<lambda>u. Inr (u\<lparr>u_TOTPSecretEnc := s, u_TOTPEnabled := False,
         u_TOTPConfirmedAt := '''', u_RecoveryCodesHash := []\<rparr>))
     | UqEnableTOTP i at hs \<Rightarrow> Some (i, \<lambda>u. if u_TOTPSecretEnc u = '''' then Inl NoPendingTOTP
         else Inr (u\<lparr>u_TOTPEnabled := True, u_TOTPConfirmedAt := at, u_RecoveryCodesHash := hs\<rparr>))
     | UqDisableTOTP i \<Rightarrow> Some (i, \<lambda>u. Inr (u\<lparr>u_TOTPEnabled := False, u_TOTPSecretEnc := '''',
         u_TOTPConfirmedAt := '''', u_RecoveryCodesHash := [], u_PushMFAEnabled := False\<rparr>))
     | UqPushMFA i b \<Rightarrow> Some (i, \<lambda>u. Inr (u\<lparr>u_PushMFAEnabled := b\<rparr>))
     | UqTOTPStep i st \<Rightarrow> Some (i, \<lambda>u. if st \<le> u_LastUsedTOTPStep u then Inl TOTPStepNotNewer
         else Inr (u\<lparr>u_LastUsedTOTPStep := st\<rparr>))
     | UqPGP i a b c f g h \<Rightarrow> Some (i, \<lambda>u. Inr (u\<lparr>u_PGPFingerprint := a, u_PGPKeyID := b,
         u_PGPPublicKey := c, u_PGPPrivateKeyEnc := f, u_PGPKeySource := g, u_PGPKeyCreatedAt := h\<rparr>))
     | UqClearPGP i \<Rightarrow> Some (i, \<lambda>u. Inr (u\<lparr>u_PGPFingerprint := '''', u_PGPKeyID := '''',
         u_PGPPublicKey := '''', u_PGPPrivateKeyEnc := '''', u_PGPKeySource := '''', u_PGPKeyCreatedAt := ''''\<rparr>))
     | UqReplaceCodes i hs \<Rightarrow> Some (i, \<lambda>u. Inr (u\<lparr>u_RecoveryCodesHash := hs\<rparr>))
     | _ \<Rightarrow> None)"

lemma users_fn_call:
  "users_fn e rq = Some (i, fn) \<Longrightarrow> users_call kdf e rq d = map_prod (map_sum id Some) id (users_mutate e i fn d)"
  by (cases rq) (auto simp: users_fn_def users_ops)

lemma users_fn_names: "users_fn e rq = Some (i, fn) \<Longrightarrow> fn u = Inr u1 \<Longrightarrow> u_ID u1 = u_ID u \<and> u_Username u1 = u_Username u"
  by (cases rq) (auto simp: users_fn_def split: if_splits)

lemma users_fn_effect:
  assumes "users_fn e rq = Some (k, fn)"
  shows "i = k \<Longrightarrow> fn u = Inr u1 \<Longrightarrow> step_effect i rq (Inr (Some (u1\<lparr>u_UpdatedAt := t\<rparr>))) u (u1\<lparr>u_UpdatedAt := t\<rparr>)"
    "i \<noteq> k \<Longrightarrow> step_effect i rq r u u" "step_effect i rq (Inl err) u u"
  using assms
  by (cases rq; auto simp: users_fn_def step_effect_def accepts_step_def accepts_code_def renews_codes_def
      split: if_splits sum.split option.split)+

text \<open>The effect of a mutation on one account.\<close>

lemma mutate_effect:
  assumes "users_mutate e k fn (Json f) = (r, d)" "account (Json f) i = Some u"
    and "\<And>u u1. fn u = Inr u1 \<Longrightarrow> u_ID u1 = u_ID u"
    and "\<And>u1 t. i = k \<Longrightarrow> fn u = Inr u1 \<Longrightarrow> step_effect i rq (Inr (Some (u1\<lparr>u_UpdatedAt := t\<rparr>))) u (u1\<lparr>u_UpdatedAt := t\<rparr>)"
    and "\<And>r. i \<noteq> k \<Longrightarrow> step_effect i rq r u u" "\<And>err. step_effect i rq (Inl err) u u"
  shows "\<exists>f' u'. d = Json f' \<and> account d i = Some u' \<and> step_effect i rq (map_sum id Some r) u u'"
proof -
  obtain f' u' where s: "d = Json f'" "account d i = Some u'"
    "u' = u \<and> (i = k \<longrightarrow> (\<exists>err. r = Inl err)) \<or>
     i = k \<and> (\<exists>u1. fn u = Inr u1 \<and> u' = u1\<lparr>u_UpdatedAt := stamp e\<rparr> \<and> r = Inr u')"
    using mutate_step [OF assms(1,3,2)] by blast
  from s(3) have "step_effect i rq (map_sum id Some r) u u'"
    using assms(4-6) by (cases "i = k") auto
  with s(1,2) show ?thesis by blast
qed

lemma spend_code_Inr:
  assumes "spend_code kdf c u = Inr u1"
  shows "u_ID u1 = u_ID u" "u_Username u1 = u_Username u" "u_LastUsedTOTPStep u1 = u_LastUsedTOTPStep u"
    "length (u_RecoveryCodesHash u1) < length (u_RecoveryCodesHash u)"
proof -
  have "list_ex P hs \<Longrightarrow> length (remove_first P hs) < length hs" for P and hs :: "string list"
    by (induction hs) auto
  then show "u_ID u1 = u_ID u" "u_Username u1 = u_Username u" "u_LastUsedTOTPStep u1 = u_LastUsedTOTPStep u"
    "length (u_RecoveryCodesHash u1) < length (u_RecoveryCodesHash u)"
    using assms by (auto simp: spend_code_def split: if_splits)
qed

lemma call_effect:
  assumes "users_call kdf e rq (Json f) = (r, d)" "account (Json f) i = Some u"
  shows "\<exists>f' u'. d = Json f' \<and> account d i = Some u' \<and> step_effect i rq r u u'"
proof (cases "users_fn e rq")
  case (Some a)
  obtain k fn where a: "users_fn e rq = Some (k, fn)" using Some by (cases a) auto
  obtain r0 where m: "users_mutate e k fn (Json f) = (r0, d)" "r = map_sum id Some r0"
    using assms(1) unfolding users_fn_call [OF a] by (cases "users_mutate e k fn (Json f)") auto
  show ?thesis
    using mutate_effect [OF m(1) assms(2) _ users_fn_effect [OF a]] users_fn_names [OF a] m(2) by blast
next
  case None
  then consider (create) salt n p ro where "rq = UqCreate salt n p ro"
    | (pass) salt k p c where "rq = UqPassword salt k p c" | (code) k c where "rq = UqConsumeCode k c"
    by (cases rq) (auto simp: users_fn_def)
  then show ?thesis
  proof cases
    case create
    have "account d i = Some u \<and> (\<exists>f'. d = Json f')"
      using assms create
      by (auto simp: users_Create_def users_read_def users_write_def account_Json find_append Let_def
          split: sum.splits if_splits)
    then show ?thesis using create by (auto simp: step_effect_def accepts_step_def accepts_code_def)
  next
    case pass
    show ?thesis
    proof (cases "HashPassword kdf salt p")
      case (Inl err)
      then show ?thesis using assms pass
        by (auto simp: SetPassword_def step_effect_def accepts_step_def accepts_code_def)
    next
      case (Inr h)
      let ?fn = "\<lambda>u. Inr (u\<lparr>u_PasswordHash := h, u_MustChangePassword := c\<rparr>)"
      obtain r0 where m: "users_mutate e k ?fn (Json f) = (r0, d)" "r = map_sum id Some r0"
        using assms(1) Inr pass by (cases "users_mutate e k ?fn (Json f)") (auto simp: SetPassword_def)
      show ?thesis unfolding m(2)
        by (rule mutate_effect [OF m(1) assms(2)])
          (auto simp: pass step_effect_def accepts_step_def accepts_code_def)
    qed
  next
    case code
    obtain r0 where m: "users_mutate e k (spend_code kdf c) (Json f) = (r0, d)"
      and r: "r = (case r0 of Inl err \<Rightarrow> if err = RecoveryNoMatch then Inr None else Inl err | Inr u \<Rightarrow> Inr (Some u))"
      using assms(1) code by (auto simp: ConsumeRecoveryCode_def split: prod.splits sum.splits)
    have ids: "\<And>u u1. spend_code kdf c u = Inr u1 \<Longrightarrow> u_ID u1 = u_ID u" by (rule spend_code_Inr(1))
    obtain f' u' where s: "d = Json f'" "account d i = Some u'"
      "u' = u \<and> (i = k \<longrightarrow> (\<exists>err. r0 = Inl err)) \<or>
       i = k \<and> (\<exists>u1. spend_code kdf c u = Inr u1 \<and> u' = u1\<lparr>u_UpdatedAt := stamp e\<rparr> \<and> r0 = Inr u')"
      using mutate_step [OF m ids assms(2)] by blast
    from s(3) have "step_effect i rq r u u'"
      using code r spend_code_Inr [of kdf c u]
      by (auto simp: step_effect_def accepts_step_def accepts_code_def renews_codes_def Suc_le_eq
          split: if_splits sum.splits)
    with s show ?thesis by blast
  qed
qed

lemma call_keeps_ok:
  assumes "users_call kdf e rq (Json f) = (r, d)" "users_ok f"
    and "\<And>i. NewUUIDv4 (env_rand e) = Inr i \<Longrightarrow> i \<noteq> '''' \<and> i \<notin> u_ID ` set (uf_Users f)"
  shows "\<exists>f'. d = Json f' \<and> users_ok f'"
proof (cases "users_fn e rq")
  case (Some a)
  obtain k fn where a: "users_fn e rq = Some (k, fn)" using Some by (cases a) auto
  obtain r0 where m: "users_mutate e k fn (Json f) = (r0, d)"
    using assms(1) unfolding users_fn_call [OF a] by (cases "users_mutate e k fn (Json f)") auto
  show ?thesis by (rule mutate_ok [OF m assms(2) users_fn_names [OF a]])
next
  case None
  then consider (create) salt n p ro where "rq = UqCreate salt n p ro"
    | (pass) salt k p c where "rq = UqPassword salt k p c" | (code) k c where "rq = UqConsumeCode k c"
    by (cases rq) (auto simp: users_fn_def)
  then show ?thesis
  proof cases
    case create
    then show ?thesis
      using assms
      by (auto simp: users_Create_def users_read_def users_write_def Let_def users_ok_def list_ex_iff
          split: sum.splits if_splits)
  next
    case pass
    then show ?thesis
      using assms(1,2) mutate_ok [of e k _ f _ d] 
      by (cases "HashPassword kdf salt p"; cases "users_mutate e k (\<lambda>u. Inr (u\<lparr>u_PasswordHash :=
         projr (HashPassword kdf salt p), u_MustChangePassword := c\<rparr>)) (Json f)") (fastforce simp: SetPassword_def)+
  next
    case code
    obtain r0 where m: "users_mutate e k (spend_code kdf c) (Json f) = (r0, d)"
      using assms(1) code by (auto simp: ConsumeRecoveryCode_def split: prod.splits sum.splits)
    show ?thesis by (rule mutate_ok [OF m assms(2)]) (simp add: spend_code_Inr)
  qed
qed

text \<open>Runs of requests, by either process: the store is the file.\<close>

fun users_run :: "scrypt \<Rightarrow> (go_env \<times> users_request) list \<Rightarrow> users_disk \<Rightarrow>
    (users_request \<times> (users_error + user option)) list \<times> users_disk" where
  "users_run kdf [] d = ([], d)"
| "users_run kdf ((e, rq) # rqs) d =
    (case users_call kdf e rq d of
       (r, d') \<Rightarrow> (case users_run kdf rqs d' of (rs, d'') \<Rightarrow> ((rq, r) # rs, d'')))"

lemma run_steps_from:
  assumes "account (Json f) i = Some u"
  shows "\<forall>s\<in>set (List.map_filter (accepts_step i) (fst (users_run kdf rqs (Json f)))). u_LastUsedTOTPStep u < s"
    "sorted_wrt (<) (List.map_filter (accepts_step i) (fst (users_run kdf rqs (Json f))))"
proof -
  have "(\<forall>s\<in>set (List.map_filter (accepts_step i) (fst (users_run kdf rqs (Json f)))). u_LastUsedTOTPStep u < s) \<and>
    sorted_wrt (<) (List.map_filter (accepts_step i) (fst (users_run kdf rqs (Json f))))"
    using assms
  proof (induction rqs arbitrary: f u)
    case Nil
    then show ?case by simp
  next
    case (Cons a rqs)
    obtain e rq where a: "a = (e, rq)" by fastforce
    obtain r d where c: "users_call kdf e rq (Json f) = (r, d)" by fastforce
    obtain f' u' where s: "d = Json f'" "account d i = Some u'" "step_effect i rq r u u'"
      using call_effect [OF c Cons.prems] by blast
    obtain rs d' where run: "users_run kdf rqs (Json f') = (rs, d')" by fastforce
    note IH = Cons.IH [OF s(2) [unfolded s(1)], unfolded run fst_conv]
    have "fst (users_run kdf (a # rqs) (Json f)) = (rq, r) # rs" by (simp add: a c s(1) run)
    with IH s(3) show ?case by (fastforce simp: step_effect_def split: option.splits)
  qed
  then show "\<forall>s\<in>set (List.map_filter (accepts_step i) (fst (users_run kdf rqs (Json f)))). u_LastUsedTOTPStep u < s"
    "sorted_wrt (<) (List.map_filter (accepts_step i) (fst (users_run kdf rqs (Json f))))" by auto
qed

lemma run_codes:
  assumes "account (Json f) i = Some u" "\<forall>(e, rq)\<in>set rqs. \<not> renews_codes i rq"
  shows "length (filter (accepts_code i) (fst (users_run kdf rqs (Json f)))) \<le> length (u_RecoveryCodesHash u)"
  using assms
proof (induction rqs arbitrary: f u)
  case Nil
  then show ?case by simp
next
  case (Cons a rqs)
  obtain e rq where a: "a = (e, rq)" by fastforce
  obtain r d where c: "users_call kdf e rq (Json f) = (r, d)" by fastforce
  obtain f' u' where s: "d = Json f'" "account d i = Some u'" "step_effect i rq r u u'"
    using call_effect [OF c Cons.prems(1)] by blast
  obtain rs d' where run: "users_run kdf rqs (Json f') = (rs, d')" by fastforce
  have "length (filter (accepts_code i) rs) \<le> length (u_RecoveryCodesHash u')"
    using Cons.IH [of f' u'] s(1,2) run Cons.prems(2) by simp
  moreover have "fst (users_run kdf (a # rqs) (Json f)) = (rq, r) # rs" by (simp add: a c s(1) run)
  moreover have "\<not> renews_codes i rq" using Cons.prems(2) a by simp
  ultimately show ?case using s(3) by (auto simp: step_effect_def split: if_splits)
qed

section \<open>Properties\<close>

text \<open>
  A password verifies against its own hash: whatever salt is drawn and whatever bytes the
  key derivation gives (32 of them), the text HashPassword writes is read back by the
  verification and accepted.
\<close>

theorem password_roundtrip:
  assumes "HashPassword kdf (Some salt) password = Inr h"
    and "\<And>k. kdf password salt 16384 8 1 32 = Some k \<Longrightarrow> length k = 32"
  shows "VerifyPassword kdf (u\<lparr>u_PasswordHash := h\<rparr>) password"
proof -
  obtain k where k: "kdf password salt 16384 8 1 32 = Some k"
    and h: "h = ''scrypt$'' @ itoa 16384 @ ''$'' @ itoa 8 @ ''$'' @ itoa 1 @ ''$'' @ b64_encode salt @ ''$'' @ b64_encode k"
    using assms(1) by (auto simp: HashPassword_def Let_def split: option.splits)
  have nums: "itoa 16384 = ''16384''" "itoa 8 = ''8''" "itoa 1 = ''1''"
    "atoi ''16384'' = Some 16384" "atoi ''8'' = Some 8" "atoi ''1'' = Some 1"
    by (simp_all add: itoa_def dec_digits.simps atoi_def digit_value_def Let_def)
  have plain: "CHR ''$'' \<notin> set (b64_encode bs)" for bs using b64_encode_plain [of "CHR ''$''" bs] by auto
  have "split_char CHR ''$'' h = [''scrypt'', ''16384'', ''8'', ''1'', b64_encode salt, b64_encode k]"
    unfolding h nums
    using split_char_append [of "CHR ''$''" "''scrypt''"] split_char_append [of "CHR ''$''" "''16384''"]
      split_char_append [of "CHR ''$''" "''8''"] split_char_append [of "CHR ''$''" "''1''"]
      split_char_append [OF plain [of salt]] split_char_word [OF plain [of k]] by simp
  moreover have "k \<noteq> []" "length k = 32" using assms(2) [OF k] by auto
  ultimately show ?thesis by (simp add: VerifyPassword_def verifyScryptHash_def nums k)
qed

text \<open>
  C26: replay of one-time codes is impossible across challenges and processes: in any run of
  requests to the account store, the TOTP steps accepted for one account strictly increase,
  and all are above the one recorded before.
\<close>

theorem totp_steps_increase:
  assumes "users_Get i (Json f) = Inr u"
  shows "sorted_wrt (<) (u_LastUsedTOTPStep u # List.map_filter (accepts_step i) (fst (users_run kdf rqs (Json f))))"
proof -
  have "account (Json f) i = Some u" using assms by (simp add: account_def)
  from run_steps_from [OF this] show ?thesis by simp
qed

text \<open>
  C27: recovery codes are spent: as long as no new codes are issued for the account, no run
  of requests accepts more recovery codes than the account has, whatever is tried.
\<close>

theorem recovery_codes_spent:
  assumes "users_Get i (Json f) = Inr u" "\<forall>(e, rq)\<in>set rqs. \<not> renews_codes i rq"
  shows "length (filter (accepts_code i) (fst (users_run kdf rqs (Json f)))) \<le> length (u_RecoveryCodesHash u)"
  using run_codes [OF _ assms(2)] assms(1) by (simp add: account_def)

text \<open>
  No request to the account store, whether it succeeds, fails or cannot write, leaves two
  accounts with one ID or one user name or an account without ID, when a generated ID is new.
\<close>

theorem users_call_keeps_ok:
  assumes "users_ok f" "\<And>i. NewUUIDv4 (env_rand e) = Inr i \<Longrightarrow> i \<noteq> '''' \<and> i \<notin> u_ID ` set (uf_Users f)"
  shows "\<exists>f'. snd (users_call kdf e rq (Json f)) = Json f' \<and> users_ok f'"
proof -
  obtain r d where c: "users_call kdf e rq (Json f) = (r, d)" by fastforce
  show ?thesis using call_keeps_ok [OF c assms] by (simp add: c)
qed

text \<open>
  On the first start the API server and the daemon agree on the administrator: when both
  find no users.json and then create one, in either sequence, both succeed and the file is the
  one the first of them wrote, with its one active administrator; a later start changes
  nothing.
\<close>

theorem first_start_agrees:
  assumes "first_user kdf e1 salt1 pw1 env = Inr u1" "first_user kdf e2 salt2 pw2 env = Inr u2"
    and "env_write_ok e1" "env_write_ok e2"
  shows "\<exists>d. LoadOrMigrate kdf e1 salt1 pw1 env Missing Missing = (None, d) \<and>
    LoadOrMigrate kdf e2 salt2 pw2 env Missing d = (None, d) \<and>
    LoadOrMigrate kdf e salt pw env' d d = (None, d) \<and>
    users_List d = Inr [u1] \<and> u_Role u1 = RoleAdmin \<and> u_Active u1"
proof -
  have "u_Role u1 = RoleAdmin \<and> u_Active u1"
    using assms(1)
    by (cases "NewUUIDv4 (env_rand e1)") (auto simp: first_user_def initial_user_def Let_def and_then_Inr_iff split: option.splits sum.splits if_splits)
  then show ?thesis
    using assms by (simp add: LoadOrMigrate_def createInitial_def versioned_def users_read_def users_List_def)
qed

lemma first_admin_loop_spec:
  assumes "\<forall>u\<in>set us. u_ID u \<noteq> ''''"
    and "u_ID best = '''' \<or> u_Role best = RoleAdmin \<and> u_Active best"
  shows "let r = first_admin_loop best us; admins = filter (\<lambda>u. u_Role u = RoleAdmin \<and> u_Active u) us in
    (r = best \<or> r \<in> set admins) \<and> (u_ID r = '''' \<longleftrightarrow> u_ID best = '''' \<and> admins = []) \<and>
    (u_ID best \<noteq> '''' \<longrightarrow> u_CreatedAt r \<le> u_CreatedAt best) \<and>
    (\<forall>a\<in>set admins. u_CreatedAt r \<le> u_CreatedAt a)"
  using assms
proof (induction us arbitrary: best)
  case Nil
  then show ?case by simp
next
  case (Cons u us)
  show ?case
  proof (cases "u_Role u \<noteq> RoleAdmin \<or> \<not> u_Active u")
    case True
    with Cons show ?thesis by (auto simp: Let_def)
  next
    case admin: False
    show ?thesis
    proof (cases "u_ID best = '''' \<or> u_CreatedAt u < u_CreatedAt best")
      case True
      then have l: "first_admin_loop best (u # us) = first_admin_loop u us" using admin by auto
      show ?thesis unfolding l
        using Cons.IH [of u] Cons.prems admin True by (auto simp: Let_def)
    next
      case False
      then have l: "first_admin_loop best (u # us) = first_admin_loop best us" using admin by auto
      show ?thesis unfolding l
        using Cons.IH [of best] Cons.prems admin False by (auto simp: Let_def)
    qed
  qed
qed

text \<open>
  FirstAdmin finds an administrator exactly when there is an active one, and none that is
  active was created earlier.
\<close>

theorem FirstAdmin_earliest:
  assumes "users_ok f"
  shows "case FirstAdmin (Json f) of
      Inl err \<Rightarrow> filter (\<lambda>u. u_Role u = RoleAdmin \<and> u_Active u) (uf_Users f) = []
    | Inr a \<Rightarrow> a \<in> set (uf_Users f) \<and> u_Role a = RoleAdmin \<and> u_Active a \<and>
        filter (\<lambda>u. u_Role u = RoleAdmin \<and> u_Active u \<and> u_CreatedAt u < u_CreatedAt a) (uf_Users f) = []"
proof -
  let ?r = "first_admin_loop user_zero (uf_Users f)"
  have ids: "\<forall>u\<in>set (uf_Users f). u_ID u \<noteq> ''''" using assms by (force simp: users_ok_def)
  have z: "u_ID user_zero = ''''" by (simp add: user_zero_def)
  note spec = first_admin_loop_spec [OF ids, of user_zero, unfolded Let_def]
  have fa: "FirstAdmin (Json f) = (if u_ID ?r = '''' then Inl UserNotFound else Inr ?r)"
    by (simp add: FirstAdmin_def users_List_def users_read_def FirstAdminFrom_def Let_def)
  show ?thesis
  proof (cases "u_ID ?r = ''''")
    case True
    with spec z show ?thesis by (simp add: fa)
  next
    case False
    with spec z have "?r \<in> set (filter (\<lambda>u. u_Role u = RoleAdmin \<and> u_Active u) (uf_Users f))"
      "\<forall>a\<in>set (filter (\<lambda>u. u_Role u = RoleAdmin \<and> u_Active u) (uf_Users f)). u_CreatedAt ?r \<le> u_CreatedAt a"
      by auto
    with False show ?thesis by (fastforce simp: fa filter_empty_conv)
  qed
qed

section \<open>Worked examples\<close>

definition toy_scrypt :: scrypt where
  "toy_scrypt pw salt n r p len = Some (replicate len (word_of_nat (length pw)))"

definition sample_user :: user where
  "sample_user = user_zero\<lparr>u_ID := ''1'', u_Username := ''ann'', u_Role := RoleAdmin, u_Active := True,
     u_RecoveryCodesHash := [''scrypt$1$1$1$$AA==''], u_LastUsedTOTPStep := 5\<rparr>"

definition sample_users :: users_file where
  "sample_users = \<lparr>uf_Version = 1, uf_Users = [sample_user]\<rparr>"

lemma sample_Get: "users_Get ''1'' (Json sample_users) = Inr sample_user"
  by (simp add: users_Get_def users_read_def find_or_not_found_def sample_users_def sample_user_def)

lemma sample_users_ok: "users_ok sample_users"
  by (simp add: users_ok_def sample_users_def sample_user_def)

theorem password_roundtrip_witness:
  "\<exists>h. HashPassword toy_scrypt (Some (replicate 16 7)) ''secret'' = Inr h \<and>
    VerifyPassword toy_scrypt (user_zero\<lparr>u_PasswordHash := h\<rparr>) ''secret''"
proof -
  obtain h where h: "HashPassword toy_scrypt (Some (replicate 16 7)) ''secret'' = Inr h"
    by (simp add: HashPassword_def toy_scrypt_def Let_def)
  from password_roundtrip [OF this, of user_zero] h show ?thesis by (simp add: toy_scrypt_def)
qed

theorem totp_steps_increase_witness:
  "sorted_wrt (<) (5 # List.map_filter (accepts_step ''1'') (fst (users_run toy_scrypt
     [(tally_env 0 None True, UqTOTPStep ''1'' 7), (tally_env 0 None True, UqTOTPStep ''1'' 7)] (Json sample_users))))"
proof -
  have "u_LastUsedTOTPStep sample_user = 5" by (simp add: sample_user_def)
  from totp_steps_increase [OF sample_Get, unfolded this] show ?thesis .
qed

theorem recovery_codes_spent_witness:
  "length (filter (accepts_code ''1'') (fst (users_run toy_scrypt
     (replicate 3 (tally_env 0 None True, UqConsumeCode ''1'' '''')) (Json sample_users)))) \<le> 1"
proof -
  have "\<forall>(e, rq)\<in>set (replicate 3 (tally_env 0 None True, UqConsumeCode ''1'' '''')). \<not> renews_codes ''1'' rq"
    by (simp add: renews_codes_def)
  from recovery_codes_spent [OF sample_Get this, of toy_scrypt] show ?thesis by (simp add: sample_user_def)
qed

theorem users_call_keeps_ok_witness:
  "\<exists>f'. snd (users_call toy_scrypt (tally_env 0 None True) (UqDeactivate ''1'') (Json sample_users)) = Json f' \<and> users_ok f'"
  by (rule users_call_keeps_ok [OF sample_users_ok]) (simp add: NewUUIDv4_def)

theorem first_start_agrees_witness:
  "\<exists>d u. LoadOrMigrate toy_scrypt (tally_env 0 (Some (replicate 16 1)) True) (Some [1]) (Some ''pw'') None Missing Missing = (None, d) \<and>
    LoadOrMigrate toy_scrypt (tally_env 1 (Some (replicate 16 2)) True) (Some [2]) (Some ''pv'') None Missing d = (None, d) \<and>
    users_List d = Inr [u]"
proof -
  let ?e1 = "tally_env 0 (Some (replicate 16 1)) True" and ?e2 = "tally_env 1 (Some (replicate 16 2)) True"
  obtain u1 where 1: "first_user toy_scrypt ?e1 (Some [1]) (Some ''pw'') None = Inr u1"
    by (simp add: first_user_def readLegacyAdminEnv_def HashPassword_def toy_scrypt_def Let_def NewUUIDv4_def)
  obtain u2 where 2: "first_user toy_scrypt ?e2 (Some [2]) (Some ''pv'') None = Inr u2"
    by (simp add: first_user_def readLegacyAdminEnv_def HashPassword_def toy_scrypt_def Let_def NewUUIDv4_def)
  from first_start_agrees [OF 1 2, where e = ?e1 and salt = None and pw = None and env' = None]
  show ?thesis by auto
qed

theorem FirstAdmin_earliest_witness:
  "FirstAdmin (Json sample_users) = Inr sample_user \<and> u_Active sample_user"
proof -
  have "FirstAdmin (Json sample_users) = Inr sample_user"
    by (simp add: FirstAdmin_def users_List_def users_read_def FirstAdminFrom_def Let_def sample_users_def
        sample_user_def RoleAdmin_def user_zero_def)
  with FirstAdmin_earliest [OF sample_users_ok] show ?thesis by simp
qed

end
