(* ===== verification/Rules_Engine.thy ===== *)
theory Rules_Engine
  imports Go_Prelude
begin

text \<open>
  The filter rules of backend/internal/rules: the data model (model.go) and the evaluation
  engine (engine.go). A rule is a match tree and a list of actions; \<open>Evaluate\<close> is pure,
  \<open>ApplyOutcome\<close> drives the mail client. The RE2 engine behind the "regex" comparator is
  the parameter \<open>re2\<close> (pattern and text to the match result, None when the pattern does
  not compile); the regular expressions the code builds itself, for the "matches"
  comparator, are interpreted here.
\<close>

section \<open>The model (model.go)\<close>

datatype match_group = MatchGroup (mg_Op: string) (mg_Conditions: "condition list")
and condition = Condition (c_Negate: bool) (c_Group: "match_group option") (c_Field: string)
    (c_Comparator: string) (c_Value: string)

record action =
  a_Type :: string
  a_Value :: string

record rule_scope =
  rs_Folders :: "string list"

record rule =
  r_ID :: string
  r_Name :: string
  r_Enabled :: bool
  r_Order :: int
  r_Scope :: rule_scope
  r_Match :: match_group
  r_Actions :: "action list"
  r_Rev :: int
  r_CreatedAt :: string
  r_UpdatedAt :: string

section \<open>The engine (engine.go)\<close>

record eval_input =
  ei_UID :: int
  ei_MessageID :: string
  ei_From :: string
  ei_To :: string
  ei_CC :: string
  ei_BCC :: string
  ei_Subject :: string
  ei_Body :: string
  ei_Keywords :: "string list"
  ei_Folder :: string

record outcome =
  o_Matched :: "string list"
  o_Applied :: "action list"
  o_Stopped :: bool

subsection \<open>Glob patterns as regular expressions\<close>

text \<open>The metacharacters \<open>regexp.QuoteMeta\<close> escapes with a backslash.\<close>

definition re_metas :: "char list" where
  "re_metas = [CHR 0x5C, CHR ''.'', CHR ''+'', CHR ''*'', CHR ''?'', CHR ''('', CHR '')'',
     CHR ''|'', CHR ''['', CHR '']'', CHR ''{'', CHR ''}'', CHR ''^'', CHR ''$'']"

definition QuoteMeta_char :: "char \<Rightarrow> string" where
  "QuoteMeta_char c = (if c \<in> set re_metas then [CHR 0x5C, c] else [c])"

fun wildcardToRegexp :: "string \<Rightarrow> string" where
  "wildcardToRegexp [] = []"
| "wildcardToRegexp (r # rs) =
     (if r = CHR ''*'' then ''.*''
      else if r = CHR ''?'' then ''.''
      else QuoteMeta_char r) @ wildcardToRegexp rs"

text \<open>
  The regular expressions the code writes use the flags i and s, both anchors, literal
  characters, escaped metacharacters, the dot and the starred dot. \<open>re_parse\<close> reads that
  fragment (None: not in the fragment) and \<open>re_match\<close> is its anchored, case-insensitive
  meaning with the dot matching every character.
\<close>

datatype re_atom = ReAny | ReStar | ReLit char

fun re_parse :: "string \<Rightarrow> re_atom list option" where
  "re_parse [] = Some []"
| "re_parse (c # cs) =
     (if c = CHR 0x5C then
        (case cs of [] \<Rightarrow> None | d # ds \<Rightarrow> map_option ((#) (ReLit d)) (re_parse ds))
      else if c = CHR ''.'' then
        (case cs of
           [] \<Rightarrow> Some [ReAny]
         | d # ds \<Rightarrow> if d = CHR ''*'' then map_option ((#) ReStar) (re_parse ds)
                     else map_option ((#) ReAny) (re_parse cs))
      else if c \<in> set re_metas then None
      else map_option ((#) (ReLit c)) (re_parse cs))"

fun re_match :: "re_atom list \<Rightarrow> string \<Rightarrow> bool" where
  "re_match [] s \<longleftrightarrow> s = []"
| "re_match (ReAny # p) s \<longleftrightarrow> (case s of [] \<Rightarrow> False | _ # t \<Rightarrow> re_match p t)"
| "re_match (ReLit c # p) s \<longleftrightarrow>
     (case s of [] \<Rightarrow> False | d # t \<Rightarrow> lower_char c = lower_char d \<and> re_match p t)"
| "re_match (ReStar # p) s \<longleftrightarrow>
     re_match p s \<or> (case s of [] \<Rightarrow> False | _ # t \<Rightarrow> re_match (ReStar # p) t)"

text \<open>\<open>regexp.Compile("(?is)^" + p + "$")\<close> followed by \<open>MatchString\<close>.\<close>

definition anchored_match :: "string \<Rightarrow> string \<Rightarrow> bool" where
  "anchored_match p candidate =
     (case re_parse p of None \<Rightarrow> False | Some atoms \<Rightarrow> re_match atoms candidate)"

subsection \<open>Matching\<close>

type_synonym re2_engine = "string \<Rightarrow> string \<Rightarrow> bool option"

definition matchesValue :: "re2_engine \<Rightarrow> string \<Rightarrow> string \<Rightarrow> string \<Rightarrow> bool" where
  "matchesValue re2 comparator candidate val =
    (let cmp = to_lower (trim_space comparator) in
     if cmp = ''exists'' then trim_space candidate \<noteq> ''''
     else if cmp = ''is'' then equal_fold (trim_space candidate) (trim_space val)
     else if cmp = ''matches'' then anchored_match (wildcardToRegexp val) candidate
     else if cmp = ''regex'' then
       (case re2 (''(?is)'' @ val) candidate of None \<Rightarrow> False | Some b \<Rightarrow> b)
     else str_contains (to_lower candidate) (to_lower val))"

definition fieldValue :: "eval_input \<Rightarrow> string \<Rightarrow> string" where
  "fieldValue i field =
    (let f = to_lower (trim_space field) in
     if f = ''from'' then ei_From i
     else if f = ''to'' then ei_To i
     else if f = ''cc'' then ei_CC i
     else if f = ''bcc'' then ei_BCC i
     else if f = ''subject'' then ei_Subject i
     else if f = ''body'' then ei_Body i
     else '''')"

fun matchGroup :: "re2_engine \<Rightarrow> match_group \<Rightarrow> eval_input \<Rightarrow> bool"
  and conditionMatches :: "re2_engine \<Rightarrow> condition \<Rightarrow> eval_input \<Rightarrow> bool" where
  "matchGroup re2 (MatchGroup oper conds) i =
    (if to_lower (trim_space oper) = ''anyof''
     then list_ex (\<lambda>c. conditionMatches re2 c i) conds
     else list_all (\<lambda>c. conditionMatches re2 c i) conds)"
| "conditionMatches re2 (Condition neg grp field cmp val) i =
    (let result =
       (case grp of
          Some g \<Rightarrow> matchGroup re2 g i
        | None \<Rightarrow>
            if equal_fold (trim_space field) ''keyword''
            then list_ex (\<lambda>kw. matchesValue re2 cmp kw val) (ei_Keywords i)
            else matchesValue re2 cmp (fieldValue i field) val)
     in if neg then \<not> result else result)"

definition folderInScope :: "rule_scope \<Rightarrow> string \<Rightarrow> bool" where
  "folderInScope scope folder \<longleftrightarrow>
     rs_Folders scope = [] \<or>
     list_ex (\<lambda>f. equal_fold (trim_space f) (trim_space folder)) (rs_Folders scope)"

subsection \<open>Evaluate\<close>

definition has_stop :: "action list \<Rightarrow> bool" where
  "has_stop as \<longleftrightarrow> list_ex (\<lambda>a. a_Type a = ''stop'') as"

text \<open>The loop over the sorted rules, with the outcome as accumulator.\<close>

fun evaluate_loop :: "re2_engine \<Rightarrow> eval_input \<Rightarrow> rule list \<Rightarrow> outcome \<Rightarrow> outcome" where
  "evaluate_loop re2 i [] out = out"
| "evaluate_loop re2 i (r # rs) out =
    (if \<not> r_Enabled r then evaluate_loop re2 i rs out
     else if \<not> folderInScope (r_Scope r) (ei_Folder i) then evaluate_loop re2 i rs out
     else if \<not> matchGroup re2 (r_Match r) i then evaluate_loop re2 i rs out
     else
       (let out' = out\<lparr>o_Matched := o_Matched out @ [r_Name r],
                       o_Applied := o_Applied out @ r_Actions r\<rparr>;
            out'' = (if has_stop (r_Actions r) then out'\<lparr>o_Stopped := True\<rparr> else out')
        in if o_Stopped out'' then out'' else evaluate_loop re2 i rs out''))"

text \<open>\<open>sort.SliceStable\<close> by Order: HOL's \<^const>\<open>sort_key\<close> is the stable sort.\<close>

definition Evaluate :: "re2_engine \<Rightarrow> eval_input \<Rightarrow> rule list \<Rightarrow> outcome" where
  "Evaluate re2 i activeRules =
     evaluate_loop re2 i (sort_key r_Order activeRules)
       \<lparr>o_Matched = [], o_Applied = [], o_Stopped = False\<rparr>"

subsection \<open>ApplyOutcome\<close>

text \<open>
  The calls on the mail client, and a client as a function from a call and its state to
  the error it returns (None: success) and its next state.
\<close>

datatype mail_call =
  ApplyLabel string string
| RemoveLabel string string
| ApplyInboxAction string string string string
| EnsureLabel string

type_synonym 'c mail_client = "mail_call \<Rightarrow> 'c \<Rightarrow> string option \<times> 'c"

record action_result =
  ar_Action :: action
  ar_Err :: "string option"

text \<open>The call an action makes: None for "stop", Inl for an unsupported type.\<close>

definition action_call :: "string \<Rightarrow> string \<Rightarrow> action \<Rightarrow> string + mail_call option" where
  "action_call mailbox messageID a =
    (let t = a_Type a in
     if t = ''keyword'' then Inr (Some (ApplyLabel messageID (a_Value a)))
     else if t = ''unkeyword'' then Inr (Some (RemoveLabel messageID (a_Value a)))
     else if t = ''move'' then
       Inr (Some (ApplyInboxAction messageID ''move'' mailbox (a_Value a)))
     else if t = ''read'' then Inr (Some (ApplyInboxAction messageID ''read'' mailbox ''''))
     else if t = ''archive'' then
       Inr (Some (ApplyInboxAction messageID ''archive'' mailbox ''''))
     else if t = ''spam'' then Inr (Some (ApplyInboxAction messageID ''spam'' mailbox ''''))
     else if t = ''delete'' then
       Inr (Some (ApplyInboxAction messageID ''delete'' mailbox ''''))
     else if t = ''stop'' then Inr None
     else Inl (''unsupported action type '' @ t))"

fun apply_actions ::
  "'c mail_client \<Rightarrow> string \<Rightarrow> string \<Rightarrow> action list \<Rightarrow> 'c \<Rightarrow> action_result list \<times> 'c" where
  "apply_actions client mailbox messageID [] c = ([], c)"
| "apply_actions client mailbox messageID (a # as) c =
    (let (err, c') =
       (case action_call mailbox messageID a of
          Inl msg \<Rightarrow> (Some msg, c)
        | Inr None \<Rightarrow> (None, c)
        | Inr (Some call) \<Rightarrow> client call c);
         (rest, c'') = apply_actions client mailbox messageID as c'
     in (\<lparr>ar_Action = a, ar_Err = err\<rparr> # rest, c''))"

definition ApplyOutcome ::
  "'c mail_client \<Rightarrow> string \<Rightarrow> eval_input \<Rightarrow> outcome \<Rightarrow> 'c \<Rightarrow> action_result list \<times> 'c" where
  "ApplyOutcome client mailbox i out c =
     apply_actions client mailbox (ei_MessageID i) (o_Applied out) c"

section \<open>What the engine computes\<close>

subsection \<open>Globs\<close>

text \<open>The meaning of a glob, read off the pattern itself.\<close>

fun glob_match :: "string \<Rightarrow> string \<Rightarrow> bool" where
  "glob_match [] s \<longleftrightarrow> s = []"
| "glob_match (p # ps) s \<longleftrightarrow>
    (if p = CHR ''*'' then
       glob_match ps s \<or> (case s of [] \<Rightarrow> False | _ # t \<Rightarrow> glob_match (p # ps) t)
     else if p = CHR ''?'' then (case s of [] \<Rightarrow> False | _ # t \<Rightarrow> glob_match ps t)
     else (case s of [] \<Rightarrow> False
           | d # t \<Rightarrow> lower_char p = lower_char d \<and> glob_match ps t))"

definition glob_atom :: "char \<Rightarrow> re_atom" where
  "glob_atom p = (if p = CHR ''*'' then ReStar else if p = CHR ''?'' then ReAny else ReLit p)"

lemma re_parse_wildcard_head:
  "wildcardToRegexp rs = d # ds \<Longrightarrow> d \<noteq> CHR ''*''"
  by (cases rs) (auto simp: QuoteMeta_char_def re_metas_def split: if_splits)

lemma re_parse_wildcard: "re_parse (wildcardToRegexp p) = Some (map glob_atom p)"
proof (induction p)
  case Nil
  then show ?case by simp
next
  case (Cons r rs)
  show ?case
  proof (cases "r = CHR ''?''")
    case True
    show ?thesis
    proof (cases "wildcardToRegexp rs")
      case Nil
      with True Cons.IH show ?thesis by (simp add: glob_atom_def)
    next
      case (Cons d ds)
      then have "d \<noteq> CHR ''*''" by (rule re_parse_wildcard_head)
      with True Cons Cons.IH show ?thesis by (simp add: glob_atom_def)
    qed
  next
    case False
    with Cons.IH show ?thesis
      by (auto simp: glob_atom_def QuoteMeta_char_def re_metas_def)
  qed
qed

lemma re_match_glob: "re_match (map glob_atom p) s = glob_match p s"
proof (induction p s rule: glob_match.induct)
  case (1 s)
  then show ?case by simp
next
  case (2 p ps s)
  then show ?case by (cases s) (auto simp: glob_atom_def)
qed

lemma anchored_match_glob: "anchored_match (wildcardToRegexp p) s = glob_match p s"
  by (simp add: anchored_match_def re_parse_wildcard re_match_glob)

subsection \<open>Evaluate against a reference\<close>

text \<open>
  The rules that fire are those enabled, in scope and matching, in Order, up to and
  including the first that stops.
\<close>

definition fires :: "re2_engine \<Rightarrow> eval_input \<Rightarrow> rule \<Rightarrow> bool" where
  "fires re2 i r \<longleftrightarrow>
     r_Enabled r \<and> folderInScope (r_Scope r) (ei_Folder i) \<and> matchGroup re2 (r_Match r) i"

fun up_to_stop :: "rule list \<Rightarrow> rule list" where
  "up_to_stop [] = []"
| "up_to_stop (r # rs) = r # (if has_stop (r_Actions r) then [] else up_to_stop rs)"

definition fired :: "re2_engine \<Rightarrow> eval_input \<Rightarrow> rule list \<Rightarrow> rule list" where
  "fired re2 i rs = up_to_stop (filter (fires re2 i) (sort_key r_Order rs))"

lemma evaluate_loop_spec:
  "\<not> o_Stopped out \<Longrightarrow>
   evaluate_loop re2 i rs out =
     (let fs = up_to_stop (filter (fires re2 i) rs) in
      \<lparr>o_Matched = o_Matched out @ map r_Name fs,
       o_Applied = o_Applied out @ concat (map r_Actions fs),
       o_Stopped = list_ex (\<lambda>r. has_stop (r_Actions r)) fs\<rparr>)"
proof (induction rs arbitrary: out)
  case Nil
  then show ?case by (simp add: Let_def)
next
  case (Cons r rs)
  show ?case
  proof (cases "fires re2 i r")
    case True
    then show ?thesis
      using Cons.IH Cons.prems by (auto simp: fires_def Let_def)
  next
    case False
    then show ?thesis
      using Cons.IH [OF Cons.prems] by (auto simp: fires_def)
  qed
qed

lemma Evaluate_spec:
  "Evaluate re2 i rs =
     \<lparr>o_Matched = map r_Name (fired re2 i rs),
      o_Applied = concat (map r_Actions (fired re2 i rs)),
      o_Stopped = list_ex (\<lambda>r. has_stop (r_Actions r)) (fired re2 i rs)\<rparr>"
  by (simp add: Evaluate_def evaluate_loop_spec fired_def Let_def)

lemma set_up_to_stop: "set (up_to_stop rs) \<subseteq> set rs"
  by (induction rs) auto

lemma set_fired: "r \<in> set (fired re2 i rs) \<Longrightarrow> r \<in> set rs \<and> fires re2 i r"
  using set_up_to_stop by (force simp: fired_def)

text \<open>Only the last rule that fired can have stopped the walk.\<close>

lemma up_to_stop_last: "\<forall>r \<in> set (butlast (up_to_stop rs)). \<not> has_stop (r_Actions r)"
  by (induction rs) auto

lemma sort_key_perm:
  assumes "mset xs = mset ys" and "inj_on f (set xs)"
  shows "sort_key f xs = sort_key f ys"
  using assms by (intro sort_key_inj_key_eq) simp_all

subsection \<open>ApplyOutcome makes every call\<close>

definition calls_of :: "string \<Rightarrow> string \<Rightarrow> action list \<Rightarrow> mail_call list" where
  "calls_of mailbox messageID as =
     List.map_filter (\<lambda>a. case action_call mailbox messageID a of
       Inr (Some call) \<Rightarrow> Some call | _ \<Rightarrow> None) as"

lemma apply_actions_spec:
  "map ar_Action (fst (apply_actions client mailbox messageID as c)) = as \<and>
   snd (apply_actions client mailbox messageID as c) =
     fold (\<lambda>call c. snd (client call c)) (calls_of mailbox messageID as) c"
proof (induction as arbitrary: c)
  case Nil
  then show ?case by (simp add: calls_of_def)
next
  case (Cons a as)
  show ?case
    using Cons.IH
    by (auto simp: calls_of_def Let_def split: sum.splits option.splits prod.splits)
      (metis fst_conv snd_conv)+
qed

section \<open>Properties\<close>

text \<open>
  C2: Evaluate does what the rule language promises: the rules that fire are the enabled ones
  in scope whose match tree holds, in Order, up to and including the first with a stop
  action; the outcome lists their names, their actions in that order, and whether one of
  them stopped.
\<close>

theorem Evaluate_fires:
  "Evaluate re2 i rs =
     \<lparr>o_Matched = map r_Name (fired re2 i rs),
      o_Applied = concat (map r_Actions (fired re2 i rs)),
      o_Stopped = list_ex (\<lambda>r. has_stop (r_Actions r)) (fired re2 i rs)\<rparr> \<and>
   set (fired re2 i rs) \<subseteq> {r \<in> set rs. fires re2 i r} \<and>
   \<not> list_ex (\<lambda>r. has_stop (r_Actions r)) (butlast (fired re2 i rs))"
proof (intro conjI)
  show "set (fired re2 i rs) \<subseteq> {r \<in> set rs. fires re2 i r}" using set_fired by blast
  show "\<not> list_ex (\<lambda>r. has_stop (r_Actions r)) (butlast (fired re2 i rs))"
    unfolding fired_def using up_to_stop_last by (auto simp: list_ex_iff)
qed (rule Evaluate_spec)

text \<open>
  The sequence in which the store hands out the rules does not matter: with distinct
  Orders, any permutation of the list has the same outcome.
\<close>

theorem Evaluate_order_independent:
  assumes "mset rs = mset rs'" "inj_on r_Order (set rs)"
  shows "Evaluate re2 i rs = Evaluate re2 i rs'"
  using sort_key_perm [OF assms] by (simp add: Evaluate_def)

definition plain_rule :: "string \<Rightarrow> int \<Rightarrow> rule" where
  "plain_rule rid order =
    \<lparr>r_ID = rid, r_Name = rid, r_Enabled = True, r_Order = order, r_Scope = \<lparr>rs_Folders = []\<rparr>,
     r_Match = MatchGroup ''allof'' [], r_Actions = [], r_Rev = 1, r_CreatedAt = '''', r_UpdatedAt = ''''\<rparr>"

theorem Evaluate_order_independent_witness:
  "\<forall>i. Evaluate (\<lambda>_ _. None) i [plain_rule ''a'' 1, plain_rule ''b'' 0] =
    Evaluate (\<lambda>_ _. None) i [plain_rule ''b'' 0, plain_rule ''a'' 1]"
  by (intro allI Evaluate_order_independent) (simp_all add: plain_rule_def add_mset_commute)

text \<open>
  The comparator "matches" means glob matching: the regular expression the code writes
  for a pattern matches a candidate exactly when the pattern does, with \<open>*\<close> for any run of
  characters, \<open>?\<close> for any one and every other character for itself up to case, whatever
  metacharacters the pattern contains.
\<close>

theorem matches_is_glob:
  "matchesValue re2 ''matches'' candidate pattern = glob_match pattern candidate"
proof -
  have "to_lower (trim_space ''matches'') = ''matches''" by code_simp
  then show ?thesis by (simp add: matchesValue_def anchored_match_glob)
qed


end
