(* ===== verification/Rules_Store.thy ===== *)
theory Rules_Store
  imports Fsutil Rules_Engine
begin

text \<open>
  The rule list of one user, kept in rules.json (backend/internal/rules/store.go). The state
  is the slice of rules and the sequence number; every method re-reads the file first.
\<close>

record rules_store =
  rl_rules :: "rule list"
  rl_seq :: int

record rules_file =
  rf_Rules :: "rule list"
  rf_Seq :: int

type_synonym rules_world = "(rules_store, rules_file) world"

definition rules_empty :: rules_store where
  "rules_empty = \<lparr>rl_rules = [], rl_seq = 0\<rparr>"

definition rules_applyFile :: "rules_file \<Rightarrow> rules_store \<Rightarrow> rules_store" where
  "rules_applyFile rf s = \<lparr>rl_rules = rf_Rules rf, rl_seq = rf_Seq rf\<rparr>"

definition rules_file_of :: "rules_store \<Rightarrow> rules_file" where
  "rules_file_of s = \<lparr>rf_Rules = rl_rules s, rf_Seq = rl_seq s\<rparr>"

interpretation rules_js: json_store rules_applyFile rules_file_of
  by unfold_locales (simp_all add: rules_applyFile_def rules_file_of_def)

section \<open>The operations\<close>

definition rules_New :: "go_env \<Rightarrow> rules_file json_file \<Rightarrow> io_error option \<times> rules_world" where
  "rules_New e f = open_store rules_applyFile rules_file_of e rules_empty f"

text \<open>\<open>sort.Slice\<close> by Order; among equal orders the code leaves the sequence open.\<close>

definition rules_List :: "rules_world \<Rightarrow> rule list \<times> rules_world" where
  "rules_List = observe rules_applyFile (\<lambda>s. sort_key r_Order (rl_rules s))"

definition rule_get :: "string \<Rightarrow> rules_store \<Rightarrow> rule option" where
  "rule_get rid s = List.find (\<lambda>r. r_ID r = rid) (rl_rules s)"

definition rules_Get :: "string \<Rightarrow> rules_world \<Rightarrow> rule option \<times> rules_world" where
  "rules_Get rid = observe rules_applyFile (rule_get rid)"

definition rules_upsert_body ::
  "go_env \<Rightarrow> rule \<Rightarrow> rules_store \<Rightarrow> (io_error + rule) \<times> rules_store \<times> bool" where
  "rules_upsert_body e r s =
    (let now = stamp e; sq = rl_seq s + 1; s1 = s\<lparr>rl_seq := sq\<rparr>;
         r1 = r\<lparr>r_Rev := sq, r_UpdatedAt := now\<rparr>
     in if r_ID r1 = '''' then
          (case NewUUIDv4 (env_rand e) of
             Inl err \<Rightarrow> (Inl err, s1, False)
           | Inr rid \<Rightarrow>
               (let r2 = r1\<lparr>r_ID := rid, r_CreatedAt := now,
                            r_Order := (if r_Order r1 = 0 then int (length (rl_rules s1))
                                        else r_Order r1)\<rparr>
                in (Inr r2, s1\<lparr>rl_rules := rl_rules s1 @ [r2]\<rparr>, True)))
        else
          (case List.find (\<lambda>x. r_ID x = r_ID r1) (rl_rules s1) of
             Some existing \<Rightarrow>
               (let r2 = r1\<lparr>r_CreatedAt := (if r_CreatedAt r1 = '''' then r_CreatedAt existing
                                            else r_CreatedAt r1)\<rparr>
                in (Inr r2,
                    s1\<lparr>rl_rules := replace_first (\<lambda>x. r_ID x = r_ID r1) (\<lambda>_. r2) (rl_rules s1)\<rparr>,
                    True))
           | None \<Rightarrow>
               (let r2 = r1\<lparr>r_CreatedAt := now\<rparr>
                in (Inr r2, s1\<lparr>rl_rules := rl_rules s1 @ [r2]\<rparr>, True))))"

definition rules_Upsert :: "go_env \<Rightarrow> rule \<Rightarrow> rules_world \<Rightarrow> (io_error + rule) \<times> rules_world" where
  "rules_Upsert e r = transact rules_applyFile rules_file_of id e (rules_upsert_body e r)"

definition rules_delete_body ::
  "string \<Rightarrow> rules_store \<Rightarrow> (io_error + bool) \<times> rules_store \<times> bool" where
  "rules_delete_body rid s =
    (case List.find (\<lambda>r. r_ID r = rid) (rl_rules s) of
       None \<Rightarrow> (Inr False, s, False)
     | Some _ \<Rightarrow>
         (Inr True, s\<lparr>rl_rules := remove_first (\<lambda>r. r_ID r = rid) (rl_rules s)\<rparr>, True))"

definition rules_Delete :: "go_env \<Rightarrow> string \<Rightarrow> rules_world \<Rightarrow> (io_error + bool) \<times> rules_world" where
  "rules_Delete e rid = transact rules_applyFile rules_file_of id e (rules_delete_body rid)"

text \<open>The map from an ID to its (last) index in the request.\<close>

definition rule_position :: "string list \<Rightarrow> string \<rightharpoonup> int" where
  "rule_position ids = fold (\<lambda>(i, x) m. m(x \<mapsto> int i)) (enumerate 0 ids) Map.empty"

fun reorder_loop ::
  "(string \<rightharpoonup> int) \<Rightarrow> string \<Rightarrow> rule list \<Rightarrow> int \<Rightarrow> rule list \<times> int" where
  "reorder_loop position now [] sq = ([], sq)"
| "reorder_loop position now (r # rs) sq =
    (case position (r_ID r) of
       None \<Rightarrow> (case reorder_loop position now rs sq of (rs', sq') \<Rightarrow> (r # rs', sq'))
     | Some pos \<Rightarrow>
         (case reorder_loop position now rs (sq + 1) of
            (rs', sq') \<Rightarrow> (r\<lparr>r_Order := pos, r_Rev := sq + 1, r_UpdatedAt := now\<rparr> # rs', sq')))"

definition rules_reorder_body ::
  "go_env \<Rightarrow> string list \<Rightarrow> rules_store \<Rightarrow> (io_error + unit) \<times> rules_store \<times> bool" where
  "rules_reorder_body e ids s =
    (case reorder_loop (rule_position ids) (stamp e) (rl_rules s) (rl_seq s) of
       (rs, sq) \<Rightarrow> (Inr (), s\<lparr>rl_rules := rs, rl_seq := sq\<rparr>, True))"

definition rules_Reorder ::
  "go_env \<Rightarrow> string list \<Rightarrow> rules_world \<Rightarrow> (io_error + unit) \<times> rules_world" where
  "rules_Reorder e ids = transact rules_applyFile rules_file_of id e (rules_reorder_body e ids)"

text \<open>A request to the store and its reply, to state what holds for any run of requests.\<close>

datatype rules_request = RqList | RqGet string | RqUpsert rule | RqDelete string | RqReorder "string list"

datatype rules_reply = RpRules "rule list" | RpRule "rule option" | RpUpserted "io_error + rule"
  | RpDeleted "io_error + bool" | RpReordered "io_error + unit"

fun rules_call :: "go_env \<Rightarrow> rules_request \<Rightarrow> rules_world \<Rightarrow> rules_reply \<times> rules_world" where
  "rules_call e RqList w = map_prod RpRules id (rules_List w)"
| "rules_call e (RqGet i) w = map_prod RpRule id (rules_Get i w)"
| "rules_call e (RqUpsert r) w = map_prod RpUpserted id (rules_Upsert e r w)"
| "rules_call e (RqDelete i) w = map_prod RpDeleted id (rules_Delete e i w)"
| "rules_call e (RqReorder ids) w = map_prod RpReordered id (rules_Reorder e ids w)"

section \<open>Well-formed rule lists\<close>

text \<open>IDs are distinct and not empty, and no revision is ahead of the sequence number.\<close>

definition rules_ok :: "rules_store \<Rightarrow> bool" where
  "rules_ok s \<longleftrightarrow>
    distinct (map r_ID (rl_rules s)) \<and> '''' \<notin> r_ID ` set (rl_rules s) \<and>
    (\<forall>r\<in>set (rl_rules s). r_Rev r \<le> rl_seq s)"

lemma rules_ok_empty: "rules_ok rules_empty"
  by (simp add: rules_ok_def rules_empty_def)

lemma rules_upsert_ok:
  assumes "rules_ok s" "fresh_id e (r_ID ` set (rl_rules s))"
  shows "rules_ok (fst (snd (rules_upsert_body e r s)))"
proof -
  have rev: "r_Rev x \<le> rl_seq s + 1" if "x \<in> set (rl_rules s)" for x
    using assms(1) that by (force simp: rules_ok_def)
  show ?thesis
  proof (cases "r_ID r = ''''")
    case True
    then show ?thesis
      using assms rev
      by (auto simp: rules_upsert_body_def Let_def rules_ok_def fresh_id_def split: sum.splits)
  next
    case False
    show ?thesis
    proof (cases "List.find (\<lambda>x. r_ID x = r_ID r) (rl_rules s)")
      case None
      then have "r_ID r \<notin> r_ID ` set (rl_rules s)" by (force dest: find_NoneD)
      with None False assms(1) rev show ?thesis
        by (auto simp: rules_upsert_body_def Let_def rules_ok_def)
    next
      case (Some existing)
      define r2 where "r2 = r\<lparr>r_Rev := rl_seq s + 1, r_UpdatedAt := stamp e,
        r_CreatedAt := if r_CreatedAt r = '''' then r_CreatedAt existing else r_CreatedAt r\<rparr>"
      have eq: "fst (snd (rules_upsert_body e r s)) =
          s\<lparr>rl_seq := rl_seq s + 1,
            rl_rules := map (\<lambda>x. if r_ID x = r_ID r then r2 else x) (rl_rules s)\<rparr>"
        using False Some assms(1)
        by (simp add: rules_upsert_body_def Let_def r2_def rules_ok_def replace_first_eq_map [of r_ID])
      have "map r_ID (map (\<lambda>x. if r_ID x = r_ID r then r2 else x) (rl_rules s)) = map r_ID (rl_rules s)"
        by (simp add: r2_def)
      then show ?thesis
        using assms(1) rev False by (auto simp: eq rules_ok_def r2_def simp del: map_map)
    qed
  qed
qed

lemma rules_delete_ok: "rules_ok s \<Longrightarrow> rules_ok (fst (snd (rules_delete_body i s)))"
  using set_remove_first_subset [of "\<lambda>r. r_ID r = i" "rl_rules s"]
  by (auto simp: rules_delete_body_def rules_ok_def distinct_remove_first_key split: option.split)

lemma reorder_loop_spec:
  "reorder_loop pos now rs sq = (rs', sq') \<Longrightarrow>
    map r_ID rs' = map r_ID rs \<and> sq \<le> sq' \<and>
    (\<forall>x\<in>set rs'. x \<in> set rs \<and> pos (r_ID x) = None \<or>
       sq < r_Rev x \<and> r_Rev x \<le> sq' \<and> pos (r_ID x) = Some (r_Order x))"
proof (induction rs arbitrary: sq rs' sq')
  case (Cons r rs)
  show ?case
  proof (cases "pos (r_ID r)")
    case None
    with Cons.prems obtain rs1 where "reorder_loop pos now rs sq = (rs1, sq')" "rs' = r # rs1"
      by (auto split: prod.splits)
    with Cons.IH None show ?thesis by fastforce
  next
    case (Some p)
    with Cons.prems obtain rs1 where "reorder_loop pos now rs (sq + 1) = (rs1, sq')"
      "rs' = r\<lparr>r_Order := p, r_Rev := sq + 1, r_UpdatedAt := now\<rparr> # rs1"
      by (auto split: prod.splits)
    with Cons.IH [of "sq + 1" rs1 sq'] Some show ?thesis by fastforce
  qed
qed simp

lemma rules_reorder_ok: "rules_ok s \<Longrightarrow> rules_ok (fst (snd (rules_reorder_body e ids s)))"
proof -
  assume s: "rules_ok s"
  obtain rs sq where l: "reorder_loop (rule_position ids) (stamp e) (rl_rules s) (rl_seq s) = (rs, sq)"
    by fastforce
  from reorder_loop_spec [OF l] s have "\<forall>x\<in>set rs. r_Rev x \<le> sq"
    unfolding rules_ok_def by (meson order_trans)
  moreover have "map r_ID rs = map r_ID (rl_rules s)" using reorder_loop_spec [OF l] by blast
  ultimately show ?thesis
    using s by (simp add: rules_reorder_body_def l rules_ok_def) (metis image_set)
qed

section \<open>What the operations do\<close>

lemma position_fold:
  "distinct ids \<Longrightarrow> fold (\<lambda>(i, x) m. m(x \<mapsto> int i)) (enumerate n ids) m x =
    (if x \<in> set ids then Some (int n + int (THE k. k < length ids \<and> ids ! k = x)) else m x)"
proof (induction ids arbitrary: n m)
  case (Cons a ids)
  have the0: "(THE k. k < length (a # ids) \<and> (a # ids) ! k = a) = 0"
    using Cons.prems by (intro the_equality) (auto simp: nth_Cons split: nat.splits)
  have theS: "(THE k. k < length (a # ids) \<and> (a # ids) ! k = x) = Suc (THE k. k < length ids \<and> ids ! k = x)"
    if x: "x \<in> set ids"
  proof -
    obtain k where k: "k < length ids" "ids ! k = x" using x by (auto simp: in_set_conv_nth)
    have u: "j = k" if "j < length ids" "ids ! j = x" for j
      using that k Cons.prems nth_eq_iff_index_eq [of ids j k] by simp
    then have "(THE k. k < length ids \<and> ids ! k = x) = k" using k by blast
    moreover have "(THE k. k < length (a # ids) \<and> (a # ids) ! k = x) = Suc k"
    proof (rule the_equality)
      fix j assume "j < length (a # ids) \<and> (a # ids) ! j = x"
      moreover have "a \<noteq> x" using x Cons.prems by auto
      ultimately show "j = Suc k" using u by (cases j) auto
    qed (use k in simp)
    ultimately show ?thesis by simp
  qed
  show ?case
    using Cons the0 theS by (auto simp: enumerate_simps)
qed simp

lemma rule_position_nth:
  assumes "distinct ids" "k < length ids"
  shows "rule_position ids (ids ! k) = Some (int k)"
proof -
  have "(THE j. j < length ids \<and> ids ! j = ids ! k) = k"
    using assms by (intro the_equality) (auto simp: nth_eq_iff_index_eq)
  then show ?thesis using assms by (simp add: rule_position_def position_fold)
qed

lemma sorted_int_upt: "sorted (map int [0..<n])"
  by (induction n) (auto simp: sorted_append)

lemma sorted_by_index:
  assumes "distinct ids" "set ids = r_ID ` set rs" "distinct (map r_ID rs)"
    and ord: "\<And>r. r \<in> set rs \<Longrightarrow> rule_position ids (r_ID r) = Some (r_Order r)"
  shows "map r_ID (sort_key r_Order rs) = ids"
proof -
  let ?the = "\<lambda>i. the (List.find (\<lambda>r. r_ID r = i) rs)"
  have the: "?the (r_ID r) = r" if "r \<in> set rs" for r
  proof (cases "List.find (\<lambda>x. r_ID x = r_ID r) rs")
    case None
    with that show ?thesis by (auto dest: find_NoneD)
  next
    case (Some y)
    then show ?thesis using assms(3) that by (auto dest!: find_SomeD simp: distinct_map inj_on_def)
  qed
  let ?ys = "map ?the ids"
  have in_rs: "?the i \<in> set rs \<and> r_ID (?the i) = i" if "i \<in> set ids" for i
    using that assms(2) the by auto
  have ids: "map r_ID ?ys = ids" using in_rs by (simp add: map_idI)
  have dist: "distinct ?ys" using assms(1) ids by (metis distinct_map)
  have sets: "set ?ys = set rs" using assms(2) the by force
  have "mset ?ys = mset rs"
    using set_eq_iff_mset_eq_distinct [OF dist, of rs] sets assms(3) by (simp add: distinct_map)
  moreover have ordk: "r_Order (?ys ! k) = int k" if "k < length ids" for k
    using ord [of "?ys ! k"] in_rs [of "ids ! k"] that rule_position_nth [OF assms(1) that] by simp
  then have "map r_Order ?ys = map int [0..<length ids]"
    by (intro nth_equalityI) (simp_all only: length_map length_upt nth_map nth_upt diff_zero add_0)
  then have "sorted (map r_Order ?ys)" by (simp only: sorted_int_upt)
  moreover have "inj_on r_Order (set rs)"
  proof (rule inj_onI)
    fix x y assume x: "x \<in> set rs" and y: "y \<in> set rs" and e: "r_Order x = r_Order y"
    have "x \<in> set ?ys" "y \<in> set ?ys" by (simp_all only: sets x y)
    then obtain i j where ij: "i < length ids" "?ys ! i = x" "j < length ids" "?ys ! j = y"
      unfolding in_set_conv_nth length_map by blast
    have "int i = int j" using e ordk [OF ij(1)] ordk [OF ij(3)] ij(2,4) by argo
    then have "i = j" by simp
    with ij(2) have "?ys ! j = x" by (simp only:)
    then show "x = y" by (rule trans [OF sym ij(4)])
  qed
  ultimately have "sort_key r_Order rs = ?ys"
    by (metis sort_key_perm sort_key_id_if_sorted)
  with ids show ?thesis by simp
qed

lemma rule_get_Some: "rules_ok s \<Longrightarrow> r \<in> set (rl_rules s) \<Longrightarrow> rule_get (r_ID r) s = Some r"
proof -
  assume ok: "rules_ok s" and r: "r \<in> set (rl_rules s)"
  then obtain y where "List.find (\<lambda>x. r_ID x = r_ID r) (rl_rules s) = Some y"
    by (cases "List.find (\<lambda>x. r_ID x = r_ID r) (rl_rules s)") (auto dest: find_NoneD)
  moreover from this have "y = r"
    using ok r by (auto dest!: find_SomeD simp: rules_ok_def distinct_map inj_on_def)
  ultimately show "rule_get (r_ID r) s = Some r" by (simp add: rule_get_def)
qed

lemma upsert_body_result:
  assumes "rules_upsert_body e r s = (Inr r', s', d)" "fresh_id e (r_ID ` set (rl_rules s))"
  shows "d" "rl_seq s' = rl_seq s + 1" "r_Rev r' = rl_seq s'" "r_UpdatedAt r' = stamp e" "r_ID r' \<noteq> ''''"
    "r_ID r \<noteq> '''' \<longrightarrow> r_ID r' = r_ID r" "r_Match r' = r_Match r" "r_Actions r' = r_Actions r"
    "rule_get (r_ID r') s' = Some r'" "i \<noteq> r_ID r' \<Longrightarrow> rule_get i s' = rule_get i s"
proof -
  have "d \<and> rl_seq s' = rl_seq s + 1 \<and> r_Rev r' = rl_seq s' \<and> r_UpdatedAt r' = stamp e \<and> r_ID r' \<noteq> '''' \<and>
    (r_ID r \<noteq> '''' \<longrightarrow> r_ID r' = r_ID r) \<and> r_Match r' = r_Match r \<and> r_Actions r' = r_Actions r \<and>
    rule_get (r_ID r') s' = Some r' \<and> (i \<noteq> r_ID r' \<longrightarrow> rule_get i s' = rule_get i s)"
  proof (cases "r_ID r = ''''")
    case True
    then obtain u where u: "NewUUIDv4 (env_rand e) = Inr u"
      using assms(1) by (auto simp: rules_upsert_body_def Let_def split: sum.splits)
    then have n: "u \<noteq> ''''" "List.find (\<lambda>x. r_ID x = u) (rl_rules s) = None"
      using assms(2) by (auto simp: fresh_id_def find_None_iff)
    show ?thesis
      using assms(1) True u n
      by (auto simp: rules_upsert_body_def Let_def rule_get_def find_append split: option.splits)
  next
    case False
    show ?thesis
    proof (cases "List.find (\<lambda>x. r_ID x = r_ID r) (rl_rules s)")
      case None
      then show ?thesis
        using assms(1) False
        by (auto simp: rules_upsert_body_def Let_def rule_get_def find_append split: option.splits)
    next
      case (Some existing)
      define r2 where "r2 = r\<lparr>r_Rev := rl_seq s + 1, r_UpdatedAt := stamp e,
        r_CreatedAt := if r_CreatedAt r = '''' then r_CreatedAt existing else r_CreatedAt r\<rparr>"
      have r': "r' = r2" "d" "s' = s\<lparr>rl_seq := rl_seq s + 1,
          rl_rules := replace_first (\<lambda>x. r_ID x = r_ID r) (\<lambda>_. r2) (rl_rules s)\<rparr>"
        using assms(1) False Some by (auto simp: rules_upsert_body_def Let_def r2_def)
      have id2: "r_ID r2 = r_ID r" by (simp add: r2_def)
      have "List.find (\<lambda>x. r_ID x = r_ID r) (replace_first (\<lambda>x. r_ID x = r_ID r) (\<lambda>_. r2) (rl_rules s)) = Some r2"
        by (rule find_replace_first_same [OF Some]) (simp add: id2)
      moreover have "List.find (\<lambda>x. r_ID x = i) (replace_first (\<lambda>x. r_ID x = r_ID r) (\<lambda>_. r2) (rl_rules s))
          = List.find (\<lambda>x. r_ID x = i) (rl_rules s)" if "i \<noteq> r_ID r"
        by (rule find_replace_first_other) (use that id2 in auto)
      ultimately show ?thesis using False id2 by (simp add: r' rule_get_def) (simp add: r2_def)
    qed
  qed
  then show "d" "rl_seq s' = rl_seq s + 1" "r_Rev r' = rl_seq s'" "r_UpdatedAt r' = stamp e" "r_ID r' \<noteq> ''''"
    "r_ID r \<noteq> '''' \<longrightarrow> r_ID r' = r_ID r" "r_Match r' = r_Match r" "r_Actions r' = r_Actions r"
    "rule_get (r_ID r') s' = Some r'" "i \<noteq> r_ID r' \<Longrightarrow> rule_get i s' = rule_get i s"
    by blast+
qed

text \<open>A mutation that succeeds and wrote: the file holds the new memory.\<close>

lemma rules_written:
  assumes "transact rules_applyFile rules_file_of id e body (s, Json v) = (Inr x, s', f)"
    and "\<And>t x t' d. body t = (Inr x, t', d) \<Longrightarrow> d"
  shows "body (rules_applyFile v s) = (Inr x, s', True) \<and> f = Json (rules_file_of s')"
  using assms by (fastforce simp: transact_Json split: prod.splits if_splits)

lemma rules_reload [simp]: "rules_applyFile (rules_file_of s) t = s"
  by (rule rules_js.load_dump)

lemma rules_call_coherent: "coherent (rules_call e q)"
proof (cases q)
  case RqList
  then have "rules_call e q = (\<lambda>w. map_prod RpRules id (rules_List w))" by auto
  then show ?thesis unfolding rules_List_def by (metis coherent_map rules_js.coherent_observe)
next
  case (RqGet i)
  then have "rules_call e q = (\<lambda>w. map_prod RpRule id (rules_Get i w))" by auto
  then show ?thesis unfolding rules_Get_def by (metis coherent_map rules_js.coherent_observe)
next
  case (RqUpsert r)
  then have "rules_call e q = (\<lambda>w. map_prod RpUpserted id (rules_Upsert e r w))" by auto
  then show ?thesis unfolding rules_Upsert_def by (metis coherent_map rules_js.coherent_transact)
next
  case (RqDelete i)
  then have "rules_call e q = (\<lambda>w. map_prod RpDeleted id (rules_Delete e i w))" by auto
  then show ?thesis unfolding rules_Delete_def by (metis coherent_map rules_js.coherent_transact)
next
  case (RqReorder ids)
  then have "rules_call e q = (\<lambda>w. map_prod RpReordered id (rules_Reorder e ids w))" by auto
  then show ?thesis unfolding rules_Reorder_def by (metis coherent_map rules_js.coherent_transact)
qed

section \<open>Properties\<close>

text \<open>
  Every request to the store keeps the rule file well-formed (distinct, non-empty IDs,
  no revision ahead of the sequence number), whatever the process had in memory and whether
  the write succeeds or not, when a generated ID is new.
\<close>

theorem rules_call_keeps_ok:
  assumes "rules_ok (rules_applyFile v s)" "fresh_id e (r_ID ` set (rf_Rules v))"
  shows "\<exists>v'. snd (snd (rules_call e q (s, Json v))) = Json v' \<and> rules_ok (rules_applyFile v' t)"
proof -
  let ?s = "rules_applyFile v s"
  have ob: "\<exists>v'. snd (snd (observe rules_applyFile p (s, Json v))) = Json v' \<and> rules_ok (rules_applyFile v' t)"
    for p :: "rules_store \<Rightarrow> 'x"
    using assms(1) by (simp add: observe_Json rules_applyFile_def)
  have tr: "\<exists>v'. snd (snd (transact rules_applyFile rules_file_of id e body (s, Json v))) = Json v' \<and>
      rules_ok (rules_applyFile v' t)"
    if "rules_ok (fst (snd (body ?s)))" for body :: "rules_store \<Rightarrow> (io_error + 'x) \<times> rules_store \<times> bool"
    using that assms(1) rules_js.overwrites [of v t s]
    by (auto simp: transact_Json split: prod.splits)
  have fr: "fresh_id e (r_ID ` set (rl_rules ?s))" using assms(2) by (simp add: rules_applyFile_def)
  show ?thesis
  proof (cases q)
    case (RqUpsert r)
    with tr [of "rules_upsert_body e r"] rules_upsert_ok [OF assms(1) fr] show ?thesis
      by (simp add: rules_Upsert_def)
  next
    case (RqDelete i)
    with tr [of "rules_delete_body i"] rules_delete_ok [OF assms(1)] show ?thesis
      by (simp add: rules_Delete_def)
  next
    case (RqReorder ids)
    with tr [of "rules_reorder_body e ids"] rules_reorder_ok [OF assms(1)] show ?thesis
      by (simp add: rules_Reorder_def)
  qed (use ob in \<open>simp_all add: rules_List_def rules_Get_def\<close>)
qed

text \<open>
  An Upsert that succeeds is durable and local: from then on, in any process, Get of the
  returned ID gives the returned rule, Get of every other ID gives what it gave before, and
  the returned rule carries a revision above every revision in the file.
\<close>

theorem rules_Upsert_durable:
  assumes "rules_ok (rules_applyFile v s)" "fresh_id e (r_ID ` set (rf_Rules v))"
    and "rules_Upsert e r (s, Json v) = (Inr r', s', f)"
  shows "fst (rules_Get (r_ID r') (t, f)) = Some r' \<and>
    (\<forall>i. i \<noteq> r_ID r' \<longrightarrow> fst (rules_Get i (t, f)) = fst (rules_Get i (t, Json v))) \<and>
    (\<forall>x\<in>set (rf_Rules v). r_Rev x < r_Rev r')"
proof -
  have body_writes: "d" if "rules_upsert_body e r t = (Inr x, t', d)" for t x t' d
    using that
    by (cases "NewUUIDv4 (env_rand e)"; cases "List.find (\<lambda>x. r_ID x = r_ID r) (rl_rules t)")
      (auto simp: rules_upsert_body_def Let_def split: if_splits)
  have w: "rules_upsert_body e r (rules_applyFile v s) = (Inr r', s', True)" "f = Json (rules_file_of s')"
    using rules_written [OF assms(3) [unfolded rules_Upsert_def] body_writes] by auto
  have fr: "fresh_id e (r_ID ` set (rl_rules (rules_applyFile v s)))"
    using assms(2) by (simp add: rules_applyFile_def)
  note res = upsert_body_result [OF w(1) fr]
  have "r_Rev x < r_Rev r'" if "x \<in> set (rf_Rules v)" for x
    using assms(1) that res(2,3) by (force simp: rules_ok_def rules_applyFile_def)
  with res(9,10) show ?thesis
    by (simp add: rules_Get_def observe_Json w(2) rules_js.overwrites [of v t s])
qed

text \<open>
  After a Reorder that names every rule once and succeeds, List gives the rules in
  exactly the order of the request.
\<close>

theorem rules_Reorder_List:
  assumes "rules_ok (rules_applyFile v s)" "distinct ids" "set ids = r_ID ` set (rf_Rules v)"
    and "rules_Reorder e ids (s, Json v) = (Inr (), s', f)"
  shows "map r_ID (fst (rules_List (t, f))) = ids"
proof -
  let ?s = "rules_applyFile v s"
  have "rules_reorder_body e ids ?s = (Inr (), s', True) \<and> f = Json (rules_file_of s')"
    by (rule rules_written [OF assms(4) [unfolded rules_Reorder_def]])
      (auto simp: rules_reorder_body_def split: prod.splits)
  then have w: "rules_reorder_body e ids ?s = (Inr (), s', True)" "f = Json (rules_file_of s')" by auto
  obtain rs sq where l: "reorder_loop (rule_position ids) (stamp e) (rl_rules ?s) (rl_seq ?s) = (rs, sq)"
    by fastforce
  have s': "rl_rules s' = rs" using w(1) l by (auto simp: rules_reorder_body_def)
  note spec = reorder_loop_spec [OF l]
  have "map r_ID rs = map r_ID (rf_Rules v)" using spec by (simp add: rules_applyFile_def)
  then have ids: "set ids = r_ID ` set rs" "distinct (map r_ID rs)"
    using assms(1,3) by (simp_all add: rules_ok_def rules_applyFile_def) (metis image_set)
  have "rule_position ids (r_ID x) = Some (r_Order x)" if x: "x \<in> set rs" for x
  proof -
    have "r_ID x \<in> set ids" using ids(1) x by simp
    then obtain k where "k < length ids" "r_ID x = ids ! k" by (metis in_set_conv_nth)
    then have "rule_position ids (r_ID x) \<noteq> None" using rule_position_nth [OF assms(2)] by simp
    with spec x show ?thesis by fastforce
  qed
  from sorted_by_index [OF assms(2) ids this]
  show ?thesis by (simp add: rules_List_def observe_Json w(2) s')
qed

text \<open>
  C37: the API server and the daemon, each with its own copy of the store, give every
  request the same reply and leave the same file as one process that serves all the requests
  in the same order.
\<close>

theorem rules_processes_serial:
  "fst (run_procs (map (\<lambda>(p, e, q). (p, rules_call e q)) rqs) ms (Json v)) =
     fst (run_procs (map (\<lambda>(p, e, q). (0, rules_call e q)) rqs) ms' (Json v)) \<and>
   snd (snd (run_procs (map (\<lambda>(p, e, q). (p, rules_call e q)) rqs) ms (Json v))) =
     snd (snd (run_procs (map (\<lambda>(p, e, q). (0, rules_call e q)) rqs) ms' (Json v)))"
  by (rule run_calls_serial) (rule rules_call_coherent)

section \<open>Worked examples\<close>

text \<open>A file with two rules, for the worked examples.\<close>

definition two_rules :: rules_file where
  "two_rules = \<lparr>rf_Rules = [plain_rule ''a'' 0, plain_rule ''b'' 1], rf_Seq = 1\<rparr>"

lemma two_rules_ok: "rules_ok (rules_applyFile two_rules s)" "fresh_id (tally_env 0 None True) X"
  by (simp_all add: rules_ok_def two_rules_def rules_applyFile_def plain_rule_def fresh_id_def NewUUIDv4_def)

theorem rules_call_keeps_ok_witness:
  "\<exists>v'. snd (snd (rules_call (tally_env 0 None True) (RqUpsert (plain_rule ''c'' 2)) (rules_empty, Json two_rules))) = Json v' \<and>
     rules_ok (rules_applyFile v' rules_empty)"
  by (rule rules_call_keeps_ok [OF two_rules_ok])

theorem rules_Upsert_durable_witness:
  "\<exists>r'. r_Rev r' = 2 \<and> fst (rules_Get ''a'' (rules_empty,
      snd (snd (rules_Upsert (tally_env 0 None True) (plain_rule ''a'' 5) (rules_empty, Json two_rules))))) = Some r'"
proof -
  obtain r' s' f where u: "rules_Upsert (tally_env 0 None True) (plain_rule ''a'' 5) (rules_empty, Json two_rules) =
      (Inr r', s', f)" "r_ID r' = ''a''" "r_Rev r' = 2"
    by (simp add: rules_Upsert_def transact_Json rules_upsert_body_def two_rules_def plain_rule_def
        rules_applyFile_def Let_def)
  from rules_Upsert_durable [OF two_rules_ok u(1)] u show ?thesis by auto
qed

theorem rules_Reorder_List_witness:
  "map r_ID (fst (rules_List (rules_empty,
     snd (snd (rules_Reorder (tally_env 0 None True) [''b'', ''a''] (rules_empty, Json two_rules)))))) = [''b'', ''a'']"
proof -
  obtain s' f where r: "rules_Reorder (tally_env 0 None True) [''b'', ''a''] (rules_empty, Json two_rules) = (Inr (), s', f)"
    by (cases "reorder_loop (rule_position [''b'', ''a'']) (stamp (tally_env 0 None True))
        (rl_rules (rules_applyFile two_rules rules_empty)) (rl_seq (rules_applyFile two_rules rules_empty))")
      (simp add: rules_Reorder_def transact_Json rules_reorder_body_def)
  have "set [''b'', ''a''] = r_ID ` set (rf_Rules two_rules)" by (auto simp: two_rules_def plain_rule_def)
  from rules_Reorder_List [OF two_rules_ok(1) _ this r] show ?thesis by (simp add: r)
qed

end
