(* ===== verification/Groups_Store.thy ===== *)
theory Groups_Store
  imports Fsutil
begin

text \<open>
  The contact groups of one user, kept in groups.json (backend/internal/groups). A contact
  refers to a group by ID; renaming a group is an Upsert on its ID.
\<close>

record group =
  g_ID :: string
  g_Name :: string
  g_Rev :: int
  g_CreatedAt :: string
  g_UpdatedAt :: string

record groups_store =
  gl_groups :: "group list"
  gl_seq :: int

record groups_file =
  gf_Groups :: "group list"
  gf_Seq :: int

type_synonym groups_world = "(groups_store, groups_file) world"

definition groups_empty :: groups_store where
  "groups_empty = \<lparr>gl_groups = [], gl_seq = 0\<rparr>"

definition groups_applyFile :: "groups_file \<Rightarrow> groups_store \<Rightarrow> groups_store" where
  "groups_applyFile gf s = \<lparr>gl_groups = gf_Groups gf, gl_seq = gf_Seq gf\<rparr>"

definition groups_file_of :: "groups_store \<Rightarrow> groups_file" where
  "groups_file_of s = \<lparr>gf_Groups = gl_groups s, gf_Seq = gl_seq s\<rparr>"

interpretation groups_js: json_store groups_applyFile groups_file_of
  by unfold_locales (simp_all add: groups_applyFile_def groups_file_of_def)

section \<open>The operations\<close>

definition groups_New :: "go_env \<Rightarrow> groups_file json_file \<Rightarrow> io_error option \<times> groups_world" where
  "groups_New e f = open_store groups_applyFile groups_file_of e groups_empty f"

text \<open>\<open>sort.Slice\<close> by Name; among equal names the code leaves the sequence open.\<close>

definition groups_List :: "groups_world \<Rightarrow> group list \<times> groups_world" where
  "groups_List = observe groups_applyFile (\<lambda>s. sort_key g_Name (gl_groups s))"

definition group_get :: "string \<Rightarrow> groups_store \<Rightarrow> group option" where
  "group_get gid s = List.find (\<lambda>g. g_ID g = gid) (gl_groups s)"

definition groups_Get :: "string \<Rightarrow> groups_world \<Rightarrow> group option \<times> groups_world" where
  "groups_Get gid = observe groups_applyFile (group_get gid)"

definition groups_upsert_body ::
  "go_env \<Rightarrow> group \<Rightarrow> groups_store \<Rightarrow> (io_error + group) \<times> groups_store \<times> bool" where
  "groups_upsert_body e g s =
    (let now = stamp e; sq = gl_seq s + 1; s1 = s\<lparr>gl_seq := sq\<rparr>;
         g1 = g\<lparr>g_Rev := sq, g_UpdatedAt := now\<rparr>
     in if g_ID g1 = '''' then
          (case NewUUIDv4 (env_rand e) of
             Inl err \<Rightarrow> (Inl err, s1, False)
           | Inr gid \<Rightarrow>
               (let g2 = g1\<lparr>g_ID := gid, g_CreatedAt := now\<rparr>
                in (Inr g2, s1\<lparr>gl_groups := gl_groups s1 @ [g2]\<rparr>, True)))
        else
          (case List.find (\<lambda>x. g_ID x = g_ID g1) (gl_groups s1) of
             Some existing \<Rightarrow>
               (let g2 = g1\<lparr>g_CreatedAt := (if g_CreatedAt g1 = '''' then g_CreatedAt existing
                                            else g_CreatedAt g1)\<rparr>
                in (Inr g2,
                    s1\<lparr>gl_groups := replace_first (\<lambda>x. g_ID x = g_ID g1) (\<lambda>_. g2) (gl_groups s1)\<rparr>,
                    True))
           | None \<Rightarrow>
               (let g2 = g1\<lparr>g_CreatedAt := now\<rparr>
                in (Inr g2, s1\<lparr>gl_groups := gl_groups s1 @ [g2]\<rparr>, True))))"

definition groups_Upsert :: "go_env \<Rightarrow> group \<Rightarrow> groups_world \<Rightarrow> (io_error + group) \<times> groups_world" where
  "groups_Upsert e g = transact groups_applyFile groups_file_of id e (groups_upsert_body e g)"

definition groups_delete_body ::
  "string \<Rightarrow> groups_store \<Rightarrow> (io_error + bool) \<times> groups_store \<times> bool" where
  "groups_delete_body gid s =
    (case List.find (\<lambda>g. g_ID g = gid) (gl_groups s) of
       None \<Rightarrow> (Inr False, s, False)
     | Some _ \<Rightarrow>
         (Inr True, s\<lparr>gl_groups := remove_first (\<lambda>g. g_ID g = gid) (gl_groups s)\<rparr>, True))"

definition groups_Delete :: "go_env \<Rightarrow> string \<Rightarrow> groups_world \<Rightarrow> (io_error + bool) \<times> groups_world" where
  "groups_Delete e gid = transact groups_applyFile groups_file_of id e (groups_delete_body gid)"

section \<open>Well-formed group lists\<close>

definition groups_ok :: "groups_store \<Rightarrow> bool" where
  "groups_ok s \<longleftrightarrow>
    distinct (map g_ID (gl_groups s)) \<and> (\<forall>g\<in>set (gl_groups s). g_Rev g \<le> gl_seq s)"

lemma groups_delete_ok: "groups_ok s \<Longrightarrow> groups_ok (fst (snd (groups_delete_body i s)))"
  using set_remove_first_subset [of "\<lambda>g. g_ID g = i" "gl_groups s"]
  by (auto simp: groups_delete_body_def groups_ok_def distinct_remove_first_key split: option.split)

text \<open>
  A Delete that reports success removes exactly the group it names, in the file and for
  every process; when it reports that there was none, nothing changed.
\<close>

theorem groups_Delete_exact:
  assumes "groups_ok (groups_applyFile v s)"
    and "groups_Delete e i (s, Json v) = (Inr b, s', f)"
  shows "fst (groups_List (t, f)) = filter (\<lambda>g. g_ID g \<noteq> i) (fst (groups_List (t, Json v))) \<and>
    b = (\<exists>g\<in>set (gf_Groups v). g_ID g = i) \<and> fst (groups_Get i (t, f)) = None"
proof -
  let ?gs = "gf_Groups v"
  have d: "distinct (map g_ID ?gs)" using assms(1) by (simp add: groups_ok_def groups_applyFile_def)
  show ?thesis
  proof (cases "List.find (\<lambda>g. g_ID g = i) ?gs")
    case None
    then have "f = Json v" "b = False"
      using assms(2) by (auto simp: groups_Delete_def transact_Json groups_delete_body_def groups_applyFile_def)
    moreover have "\<forall>g\<in>set ?gs. g_ID g \<noteq> i" using None by (auto dest: find_NoneD)
    ultimately show ?thesis using None
      by (auto simp: groups_List_def groups_Get_def group_get_def observe_Json groups_applyFile_def filter_id_conv)
  next
    case (Some g)
    then have f: "f = Json (v\<lparr>gf_Groups := remove_first (\<lambda>g. g_ID g = i) ?gs\<rparr>)" "b = True"
      using assms(2)
      by (auto simp: groups_Delete_def transact_Json groups_delete_body_def groups_applyFile_def
          groups_file_of_def split: if_splits)
    have "remove_first (\<lambda>g. g_ID g = i) ?gs = filter (\<lambda>g. g_ID g \<noteq> i) ?gs"
      using d by (rule remove_first_eq_filter)
    with f find_SomeD [OF Some] show ?thesis
      by (auto simp: groups_List_def groups_Get_def group_get_def observe_Json groups_applyFile_def
          filter_sort find_None_iff)
  qed
qed

section \<open>Worked examples\<close>

definition two_groups :: groups_file where
  "two_groups = \<lparr>gf_Groups = [\<lparr>g_ID = ''1'', g_Name = ''x'', g_Rev = 1, g_CreatedAt = '''', g_UpdatedAt = ''''\<rparr>,
     \<lparr>g_ID = ''2'', g_Name = ''w'', g_Rev = 2, g_CreatedAt = '''', g_UpdatedAt = ''''\<rparr>], gf_Seq = 2\<rparr>"

theorem groups_Delete_exact_witness:
  "fst (groups_Get ''2'' (groups_empty,
     snd (snd (groups_Delete (tally_env 0 None True) ''2'' (groups_empty, Json two_groups))))) = None"
proof -
  have ok: "groups_ok (groups_applyFile two_groups groups_empty)"
    by (simp add: groups_ok_def groups_applyFile_def two_groups_def)
  obtain b s' f where d: "groups_Delete (tally_env 0 None True) ''2'' (groups_empty, Json two_groups) = (Inr b, s', f)"
    by (simp add: groups_Delete_def transact_Json groups_delete_body_def groups_applyFile_def two_groups_def)
  from groups_Delete_exact [OF ok d, of groups_empty] show ?thesis by (simp add: d)
qed

end
