(* ===== verification/Throttles.thy ===== *)
theory Throttles
  imports Go_Prelude "HOL-Library.AList"
begin

text \<open>
  The in-memory limits of the API server: the cooldowns for second-factor pushes
  (api/mfa_push_cooldown.go), send-as probes (api/sendas_cooldown.go) and classifier tests
  (api/classifier_test_cooldown.go), the one-time pairing nonces
  (api/native_pairing_nonce.go) and the failure lockout (api/login_lockout.go). A Go map is
  an association list with one entry for each key; \<open>now\<close> is the clock in nanoseconds.
\<close>

text \<open>\<open>for k, v := range m { if P(v) { delete(m, k) } }\<close>\<close>

definition delete_where :: "('v \<Rightarrow> bool) \<Rightarrow> (string \<times> 'v) list \<Rightarrow> (string \<times> 'v) list" where
  "delete_where P m = filter (\<lambda>(k, _). \<not> P (the (map_of m k))) m"

lemma map_of_delete_where:
  "map_of (delete_where P m) k =
    (case map_of m k of None \<Rightarrow> None | Some v \<Rightarrow> if P v then None else Some v)"
proof -
  have "map_of (filter (\<lambda>(k, _). Q k) xs) k = (if Q k then map_of xs k else None)" for Q and xs :: "(string \<times> 'a) list"
    by (induction xs) auto
  then show ?thesis by (simp add: delete_where_def split: option.split)
qed

section \<open>The contract of a cooldown\<close>

text \<open>The times at which the attempts for k were let through, in a run of attempts.\<close>

fun accepted_times ::
  "('s \<Rightarrow> string \<Rightarrow> int \<Rightarrow> bool \<times> 's) \<Rightarrow> string \<Rightarrow> (string \<times> int) list \<Rightarrow> 's \<Rightarrow> int list" where
  "accepted_times attempt k [] s = []"
| "accepted_times attempt k ((x, now) # as) s =
    (case attempt s x now of
       (b, s') \<Rightarrow> (if b \<and> x = k then [now] else []) @ accepted_times attempt k as s')"

text \<open>
  \<open>ok s k now\<close>: an attempt for the key k would be let through; \<open>attempt\<close> makes it. A let-through
  attempt closes the key for \<open>window\<close>; other keys and refused attempts do not matter.
\<close>

locale cooldown =
  fixes ok :: "'s \<Rightarrow> string \<Rightarrow> int \<Rightarrow> bool"
    and attempt :: "'s \<Rightarrow> string \<Rightarrow> int \<Rightarrow> bool \<times> 's"
    and window :: int
  assumes attempt_ok: "fst (attempt s k now) = ok s k now"
    and closes: "fst (attempt s k now) \<Longrightarrow> now \<le> t \<Longrightarrow>
      ok (snd (attempt s k now)) k t \<longleftrightarrow> now + window \<le> t"
    and refused: "\<not> fst (attempt s k now) \<Longrightarrow> now \<le> t \<Longrightarrow> ok (snd (attempt s k now)) k t = ok s k t"
    and others: "k' \<noteq> k \<Longrightarrow> now \<le> t \<Longrightarrow> ok (snd (attempt s k now)) k' t = ok s k' t"
begin

abbreviation accepted :: "string \<Rightarrow> (string \<times> int) list \<Rightarrow> 's \<Rightarrow> int list" where
  "accepted \<equiv> accepted_times attempt"

lemma accepted_from:
  assumes "sorted_wrt (\<le>) (map snd as)" "\<forall>(x, now) \<in> set as. t0 \<le> now"
    and "\<forall>t\<ge>t0. ok s k t \<longrightarrow> u \<le> t"
  shows "(\<forall>t\<in>set (accepted k as s). u \<le> t) \<and> sorted_wrt (\<lambda>a b. a + window \<le> b) (accepted k as s)"
  using assms
proof (induction as arbitrary: s t0 u)
  case Nil
  then show ?case by simp
next
  case (Cons a as)
  obtain x now where a: "a = (x, now)" by fastforce
  obtain b s' where at: "attempt s x now = (b, s')" by fastforce
  have later: "sorted_wrt (\<le>) (map snd as)" "\<forall>(x, t) \<in> set as. now \<le> t" "t0 \<le> now"
    using Cons.prems a by auto
  show ?case
  proof (cases "b \<and> x = k")
    case True
    then have ok: "ok s k now" "\<forall>t\<ge>now. ok s' k t \<longrightarrow> now + window \<le> t"
      using attempt_ok [of s x now] closes [of s x now] at by auto
    from Cons.IH [OF later(1,2) ok(2)] have
      "(\<forall>t\<in>set (accepted k as s'). now + window \<le> t) \<and>
        sorted_wrt (\<lambda>a b. a + window \<le> b) (accepted k as s')" .
    moreover have "(\<forall>t\<in>set (accepted k as s'). u \<le> t)"
    proof -
      have "u \<le> now" using ok(1) Cons.prems(3) later(3) by blast
      then have "\<forall>t\<ge>now. ok s' k t \<longrightarrow> u \<le> t" by simp
      from Cons.IH [OF later(1,2) this] show ?thesis by blast
    qed
    moreover have "u \<le> now" using ok(1) Cons.prems(3) later(3) by blast
    moreover have "accepted k (a # as) s = now # accepted k as s'" using True at by (auto simp: a)
    ultimately show ?thesis by simp
  next
    case False
    have "ok s' k t = ok s k t" if "now \<le> t" for t
      using False at that others [of k x now t s] refused [of s x now t] by (cases "x = k") auto
    then have "\<forall>t\<ge>now. ok s' k t \<longrightarrow> u \<le> t" using Cons.prems(3) later(3) by auto
    from Cons.IH [OF later(1,2) this] False show ?thesis by (auto simp: a at)
  qed
qed

text \<open>Two attempts for one key that are let through are at least the window apart.\<close>

lemma accepted_spaced:
  assumes "sorted_wrt (\<le>) (map snd as)"
  shows "sorted_wrt (\<lambda>a b. a + window \<le> b) (accepted k as s)"
proof (cases as)
  case Nil
  then show ?thesis by simp
next
  case (Cons a as')
  let ?t0 = "snd a"
  have "\<forall>(x, now) \<in> set as. ?t0 \<le> now" using assms Cons by auto
  from accepted_from [OF assms this, of s k ?t0] show ?thesis by blast
qed

end

section \<open>The push, probe and classifier cooldowns\<close>

type_synonym last_sent = "(string \<times> int) list"

definition cooldown_left :: "int \<Rightarrow> last_sent \<Rightarrow> string \<Rightarrow> int \<Rightarrow> int option" where
  "cooldown_left limit m key now =
    (case map_of m key of
       None \<Rightarrow> None
     | Some prev \<Rightarrow> (let remaining = limit - (now - prev)
                     in if remaining > 0 then Some remaining else None))"

definition mfaPushCooldownFor :: int where "mfaPushCooldownFor = 5 * minute"

definition mfa_push_tryConsume :: "last_sent \<Rightarrow> string \<Rightarrow> int \<Rightarrow> (bool \<times> int) \<times> last_sent" where
  "mfa_push_tryConsume m userID now =
    (case cooldown_left mfaPushCooldownFor m userID now of
       Some remaining \<Rightarrow> ((False, remaining), m)
     | None \<Rightarrow> ((True, 0), AList.update userID now m))"

definition classifierTestCooldownFor :: int where "classifierTestCooldownFor = 10 * second"

definition classifier_test_tryConsume :: "last_sent \<Rightarrow> string \<Rightarrow> int \<Rightarrow> (bool \<times> int) \<times> last_sent"
where
  "classifier_test_tryConsume m key now =
    (case cooldown_left classifierTestCooldownFor m key now of
       Some remaining \<Rightarrow> ((False, remaining), m)
     | None \<Rightarrow> ((True, 0), AList.update key now m))"

definition sendAsVerificationCooldownFor :: int where "sendAsVerificationCooldownFor = 5 * minute"
definition sendAsCooldownSweepMaxAge :: int where "sendAsCooldownSweepMaxAge = 1 * hour"

definition sendas_allowed :: "last_sent \<Rightarrow> string \<Rightarrow> int \<Rightarrow> bool \<times> int" where
  "sendas_allowed m key now =
    (case cooldown_left sendAsVerificationCooldownFor m key now of
       Some remaining \<Rightarrow> (False, remaining)
     | None \<Rightarrow> (True, 0))"

definition sendas_recordSent :: "last_sent \<Rightarrow> string \<Rightarrow> int \<Rightarrow> last_sent" where
  "sendas_recordSent m key now = AList.update key now m"

definition sendas_sweep :: "last_sent \<Rightarrow> int \<Rightarrow> int \<Rightarrow> last_sent" where
  "sendas_sweep m maxAge now = delete_where (\<lambda>sent. sent < now - maxAge) m"

text \<open>The check and the record as the handler makes them, one after the other.\<close>

definition sendas_probe :: "last_sent \<Rightarrow> string \<Rightarrow> int \<Rightarrow> bool \<times> last_sent" where
  "sendas_probe m key now =
    (if fst (sendas_allowed m key now) then (True, sendas_recordSent m key now) else (False, m))"

lemma cooldown_left_update:
  "cooldown_left limit (AList.update k now m) k' t =
    (if k' = k then if now + limit \<le> t then None else Some (limit - (t - now))
     else cooldown_left limit m k' t)"
  by (simp add: cooldown_left_def update_conv' Let_def)

interpretation mfa_push: cooldown "\<lambda>m k t. cooldown_left mfaPushCooldownFor m k t = None"
  "\<lambda>m k t. map_prod fst id (mfa_push_tryConsume m k t)" mfaPushCooldownFor
  by unfold_locales
    (auto simp: mfa_push_tryConsume_def cooldown_left_update split: option.splits if_splits)

interpretation classifier_test: cooldown "\<lambda>m k t. cooldown_left classifierTestCooldownFor m k t = None"
  "\<lambda>m k t. map_prod fst id (classifier_test_tryConsume m k t)" classifierTestCooldownFor
  by unfold_locales
    (auto simp: classifier_test_tryConsume_def cooldown_left_update split: option.splits if_splits)

interpretation sendas_probes: cooldown "\<lambda>m k t. fst (sendas_allowed m k t)" sendas_probe
  sendAsVerificationCooldownFor
  by unfold_locales
    (auto simp: sendas_probe_def sendas_allowed_def sendas_recordSent_def cooldown_left_update
      split: option.splits if_splits)

section \<open>One-time pairing nonces\<close>

definition nativePairingNonceSweepThreshold :: nat where "nativePairingNonceSweepThreshold = 10000"

definition nonce_consume :: "(string \<times> int) list \<Rightarrow> string \<Rightarrow> int \<Rightarrow> int \<Rightarrow> bool \<times> (string \<times> int) list"
where
  "nonce_consume seen nonce ttl now =
    (let seen1 = (if length seen \<ge> nativePairingNonceSweepThreshold
                  then delete_where (\<lambda>exp. exp < now) seen else seen)
     in if (case map_of seen1 nonce of Some exp \<Rightarrow> now < exp | None \<Rightarrow> False) then (False, seen1)
        else (True, AList.update nonce (now + ttl) seen1))"

definition nonce_free :: "(string \<times> int) list \<Rightarrow> string \<Rightarrow> int \<Rightarrow> bool" where
  "nonce_free seen nonce now \<longleftrightarrow> \<not> (case map_of seen nonce of Some exp \<Rightarrow> now < exp | None \<Rightarrow> False)"

lemma nonce_consume_free:
  "fst (nonce_consume seen nonce ttl now) = nonce_free seen nonce now"
  "fst (nonce_consume seen nonce ttl now) \<Longrightarrow> now \<le> t \<Longrightarrow>
     nonce_free (snd (nonce_consume seen nonce ttl now)) nonce t \<longleftrightarrow> now + ttl \<le> t"
  "now \<le> t \<Longrightarrow> k' \<noteq> nonce \<or> \<not> fst (nonce_consume seen nonce ttl now) \<Longrightarrow>
     nonce_free (snd (nonce_consume seen nonce ttl now)) k' t = nonce_free seen k' t"
  by (auto simp: nonce_consume_def nonce_free_def Let_def map_of_delete_where update_conv'
      split: option.splits if_splits)

interpretation nonces: cooldown nonce_free "\<lambda>seen n t. nonce_consume seen n ttl t" ttl for ttl
  by unfold_locales (use nonce_consume_free in auto)

section \<open>The failure lockout\<close>

definition loginMaxFailures :: int where "loginMaxFailures = 3"
definition davMaxFailures :: int where "davMaxFailures = 10"
definition mfaMaxFailures :: int where "mfaMaxFailures = 10"
definition deviceMaxFailures :: int where "deviceMaxFailures = 10"
definition loginLockoutFor :: int where "loginLockoutFor = 15 * minute"
definition loginLockoutSweepThreshold :: nat where "loginLockoutSweepThreshold = 10000"

text \<open>\<open>lockedUntil\<close> is None for the zero time.\<close>

record lockout_entry =
  le_failures :: int
  le_lockedUntil :: "int option"

record lockout =
  lo_maxFailures :: int
  lo_lockoutFor :: int
  lo_entries :: "(string \<times> lockout_entry) list"

definition newFailureLockout :: "int \<Rightarrow> int \<Rightarrow> lockout" where
  "newFailureLockout maxFailures lockoutFor =
    \<lparr>lo_maxFailures = maxFailures, lo_lockoutFor = lockoutFor, lo_entries = []\<rparr>"

definition newLoginLockout :: lockout where
  "newLoginLockout = newFailureLockout loginMaxFailures loginLockoutFor"

definition lockout_allowed :: "lockout \<Rightarrow> string \<Rightarrow> int \<Rightarrow> bool \<times> int" where
  "lockout_allowed l username now =
    (case map_of (lo_entries l) username of
       None \<Rightarrow> (True, 0)
     | Some e \<Rightarrow>
         (case le_lockedUntil e of
            None \<Rightarrow> (True, 0)
          | Some u \<Rightarrow> if u - now > 0 then (False, u - now) else (True, 0)))"

definition lock_over :: "int \<Rightarrow> lockout_entry \<Rightarrow> bool" where
  "lock_over now e = (case le_lockedUntil e of None \<Rightarrow> True | Some u \<Rightarrow> \<not> now < u)"

definition lockout_recordFailure :: "lockout \<Rightarrow> string \<Rightarrow> int \<Rightarrow> lockout" where
  "lockout_recordFailure l username now =
    (let es = (if length (lo_entries l) \<ge> loginLockoutSweepThreshold
               then delete_where (lock_over now) (lo_entries l) else lo_entries l);
         e0 = (case map_of es username of
                 None \<Rightarrow> \<lparr>le_failures = 0, le_lockedUntil = None\<rparr>
               | Some e \<Rightarrow> if le_lockedUntil e \<noteq> None \<and> lock_over now e
                           then \<lparr>le_failures = 0, le_lockedUntil = None\<rparr> else e);
         e1 = e0\<lparr>le_failures := le_failures e0 + 1\<rparr>;
         e2 = (if le_failures e1 \<ge> lo_maxFailures l
               then e1\<lparr>le_lockedUntil := Some (now + lo_lockoutFor l)\<rparr> else e1)
     in l\<lparr>lo_entries := AList.update username e2 es\<rparr>)"

definition lockout_recordSuccess :: "lockout \<Rightarrow> string \<Rightarrow> lockout" where
  "lockout_recordSuccess l username = l\<lparr>lo_entries := AList.delete username (lo_entries l)\<rparr>"

subsection \<open>What the lockout guarantees\<close>

datatype lockout_event = Failure string int | Success string

fun lockout_step :: "lockout_event \<Rightarrow> lockout \<Rightarrow> lockout" where
  "lockout_step (Failure k t) l = lockout_recordFailure l k t"
| "lockout_step (Success k) l = lockout_recordSuccess l k"

fun event_key :: "lockout_event \<Rightarrow> string" where
  "event_key (Failure k t) = k"
| "event_key (Success k) = k"

fun event_within :: "int \<Rightarrow> int \<Rightarrow> lockout_event \<Rightarrow> bool" where
  "event_within t0 t1 (Failure k t) \<longleftrightarrow> t0 \<le> t \<and> t \<le> t1"
| "event_within t0 t1 (Success k) \<longleftrightarrow> True"

text \<open>The time until which a key is locked, if it is.\<close>

definition locked_until :: "lockout \<Rightarrow> string \<Rightarrow> int option" where
  "locked_until l k = (case map_of (lo_entries l) k of None \<Rightarrow> None | Some e \<Rightarrow> le_lockedUntil e)"

lemma lockout_allowed_iff:
  "fst (lockout_allowed l k now) \<longleftrightarrow> (case locked_until l k of None \<Rightarrow> True | Some u \<Rightarrow> u \<le> now)"
  by (auto simp: lockout_allowed_def locked_until_def split: option.split)

text \<open>Events of other keys change nothing for a key, as far as \<open>allowed\<close> can tell.\<close>

lemma other_key_allowed:
  assumes "event_key ev \<noteq> k" "event_within t0 now ev"
  shows "fst (lockout_allowed (lockout_step ev l) k now) = fst (lockout_allowed l k now)"
proof (cases ev)
  case (Failure x t)
  with assms show ?thesis
    by (auto simp: lockout_allowed_def lockout_recordFailure_def Let_def update_conv'
        map_of_delete_where lock_over_def split: option.split if_splits)
next
  case (Success x)
  with assms show ?thesis by (simp add: lockout_allowed_def lockout_recordSuccess_def delete_conv')
qed

text \<open>A lock until u outlives everything but a success of its own key.\<close>

lemma locked_stays:
  assumes "locked_until l k = Some u'" "u \<le> u'" "now < u"
    and "ev \<noteq> Success k" "event_within (u - lo_lockoutFor l) now ev"
  shows "\<exists>u'. locked_until (lockout_step ev l) k = Some u' \<and> u \<le> u'"
proof (cases ev)
  case (Failure x t)
  from assms(1) obtain e where e: "map_of (lo_entries l) k = Some e" "le_lockedUntil e = Some u'"
    by (auto simp: locked_until_def split: option.splits)
  have "\<not> lock_over t e" using e(2) assms(2,3,5) Failure by (simp add: lock_over_def)
  then show ?thesis
    using Failure e assms
    by (auto simp: locked_until_def lockout_recordFailure_def Let_def update_conv' map_of_delete_where)
next
  case (Success x)
  with assms show ?thesis
    by (auto simp: locked_until_def lockout_recordSuccess_def delete_conv')
qed

lemma lockout_step_limits [simp]:
  "lo_maxFailures (lockout_step ev l) = lo_maxFailures l"
  "lo_lockoutFor (lockout_step ev l) = lo_lockoutFor l"
  by (cases ev; simp add: lockout_recordFailure_def lockout_recordSuccess_def Let_def)+

lemma locked_run:
  assumes "locked_until l k = Some u'" "u \<le> u'" "now < u"
    and "\<forall>ev\<in>set evs. ev \<noteq> Success k \<and> event_within (u - lo_lockoutFor l) now ev"
  shows "\<exists>u'. locked_until (fold lockout_step evs l) k = Some u' \<and> u \<le> u'"
  using assms
proof (induction evs arbitrary: l u')
  case (Cons ev evs)
  then obtain w where "locked_until (lockout_step ev l) k = Some w" "u \<le> w"
    using locked_stays [of l k u' u now ev] by auto
  from Cons.IH [OF this Cons.prems(3)] Cons.prems(4) show ?case by simp
qed auto

text \<open>The strikes of a key, counted while nothing is swept out and no lock runs out.\<close>

definition strikes :: "lockout \<Rightarrow> string \<Rightarrow> int" where
  "strikes l k = (case map_of (lo_entries l) k of None \<Rightarrow> 0 | Some e \<Rightarrow> le_failures e)"

lemma failures_lock:
  assumes "0 < lo_maxFailures l" "length (lo_entries l) < loginLockoutSweepThreshold"
    and "locked_until l k = None" "strikes l k = n" "n + 1 \<le> lo_maxFailures l"
  shows "strikes (lockout_recordFailure l k t) k = n + 1"
    "locked_until (lockout_recordFailure l k t) k =
       (if n + 1 = lo_maxFailures l then Some (t + lo_lockoutFor l) else None)"
  using assms
  by (auto simp: strikes_def locked_until_def lockout_recordFailure_def Let_def update_conv'
      split: option.splits if_splits)

lemma length_entries: "length (lo_entries (lockout_recordFailure l k t)) \<le> Suc (length (lo_entries l))"
proof -
  have "length (AList.update k e es) \<le> Suc (length es)" for e :: lockout_entry and es
    by (induction es) auto
  moreover have "length (delete_where P es) \<le> length es" for P and es :: "(string \<times> lockout_entry) list"
    by (simp add: delete_where_def)
  ultimately show ?thesis
    by (simp add: lockout_recordFailure_def Let_def) (meson Suc_le_mono le_trans)
qed

lemma recordFailure_limits [simp]:
  "lo_maxFailures (lockout_recordFailure l k t) = lo_maxFailures l"
  "lo_lockoutFor (lockout_recordFailure l k t) = lo_lockoutFor l"
  by (simp_all add: lockout_recordFailure_def Let_def)

lemma failures_run:
  assumes "locked_until l k = None" "strikes l k = n"
    and "n + int (length ts) < lo_maxFailures l"
    and "length (lo_entries l) + length ts < loginLockoutSweepThreshold" "0 < lo_maxFailures l"
  shows "locked_until (fold (\<lambda>t l. lockout_recordFailure l k t) ts l) k = None \<and>
    strikes (fold (\<lambda>t l. lockout_recordFailure l k t) ts l) k = n + int (length ts) \<and>
    lo_maxFailures (fold (\<lambda>t l. lockout_recordFailure l k t) ts l) = lo_maxFailures l \<and>
    lo_lockoutFor (fold (\<lambda>t l. lockout_recordFailure l k t) ts l) = lo_lockoutFor l \<and>
    length (lo_entries (fold (\<lambda>t l. lockout_recordFailure l k t) ts l)) < loginLockoutSweepThreshold"
  using assms
proof (induction ts arbitrary: l n)
  case (Cons t ts)
  let ?l = "lockout_recordFailure l k t"
  have "locked_until ?l k = None" "strikes ?l k = n + 1"
    "n + 1 + int (length ts) < lo_maxFailures ?l"
    "length (lo_entries ?l) + length ts < loginLockoutSweepThreshold" "0 < lo_maxFailures ?l"
    using Cons.prems failures_lock [of l k n t] length_entries [of l k t] by auto
  from Cons.IH [OF this] show ?case by simp
qed simp

section \<open>Properties\<close>

text \<open>
  Of the send-as probes that the handler's check lets through for one (user, address)
  pair, any two are at least five minutes apart, however many attempts for this and for other
  pairs are made in between.
\<close>

theorem sendas_probes_spaced:
  assumes "sorted_wrt (\<le>) (map snd attempts)"
  shows "sorted_wrt (\<lambda>a b. a + 5 * minute \<le> b) (accepted_times sendas_probe key attempts m)"
  using sendas_probes.accepted_spaced [OF assms, of key m]
  by (simp add: sendAsVerificationCooldownFor_def)

text \<open>
  Of the second-factor pushes for one account, any two are at least five minutes apart,
  however often a login asks for one: the limit on push fatigue.
\<close>

theorem mfa_pushes_spaced:
  assumes "sorted_wrt (\<le>) (map snd attempts)"
  shows "sorted_wrt (\<lambda>a b. a + 5 * minute \<le> b) 
    (accepted_times (\<lambda>m k t. map_prod fst id (mfa_push_tryConsume m k t)) userID attempts m)"
  using mfa_push.accepted_spaced [OF assms, of userID m] by (simp add: mfaPushCooldownFor_def)

text \<open>
  A pairing nonce is redeemed at most once within its time to live: any two accepted
  redemptions of one nonce are at least the TTL apart, across the sweeps of the table.
\<close>

theorem nonce_redeemed_once:
  assumes "sorted_wrt (\<le>) (map snd attempts)"
  shows "sorted_wrt (\<lambda>a b. a + ttl \<le> b) 
    (accepted_times (\<lambda>seen n t. nonce_consume seen n ttl t) nonce attempts seen)"
  by (rule nonces.accepted_spaced [OF assms])

text \<open>
  The hourly sweep of the probe table is invisible: no check from then on, for any key,
  has another answer than it would have had without the sweep.
\<close>

theorem sendas_sweep_invisible:
  assumes "now \<le> t"
  shows "sendas_allowed (sendas_sweep m sendAsCooldownSweepMaxAge now) key t = sendas_allowed m key t"
  using assms
  by (auto simp: sendas_allowed_def sendas_sweep_def cooldown_left_def map_of_delete_where
      sendAsCooldownSweepMaxAge_def sendAsVerificationCooldownFor_def split: option.split)


section \<open>Worked examples\<close>

theorem sendas_probes_spaced_witness:
  "sorted_wrt (\<lambda>a b. a + 5 * minute \<le> b)
     (accepted_times sendas_probe ''u'' [(''u'', 0), (''v'', second), (''u'', minute), (''u'', hour)] [])"
  by (rule sendas_probes_spaced) simp

theorem mfa_pushes_spaced_witness:
  "sorted_wrt (\<lambda>a b. a + 5 * minute \<le> b)
     (accepted_times (\<lambda>m k t. map_prod fst id (mfa_push_tryConsume m k t)) ''u'' [(''u'', 0), (''u'', minute), (''u'', hour)] [])"
  by (rule mfa_pushes_spaced) simp

theorem nonce_redeemed_once_witness:
  "sorted_wrt (\<lambda>a b. a + hour \<le> b)
     (accepted_times (\<lambda>seen n t. nonce_consume seen n hour t) ''n'' [(''n'', 0), (''n'', minute)] [])"
  by (rule nonce_redeemed_once) simp

theorem sendas_sweep_invisible_witness:
  "sendas_allowed (sendas_sweep [(''a'', 0), (''b'', 2 * hour)] sendAsCooldownSweepMaxAge (2 * hour)) ''b'' (2 * hour + minute) =
   sendas_allowed [(''a'', 0), (''b'', 2 * hour)] ''b'' (2 * hour + minute)"
  by (rule sendas_sweep_invisible) simp


end
