(* ===== verification/Sendas.thy ===== *)
theory Sendas
  imports Fsutil Throttles
begin

text \<open>
  Send-as aliases: the store (backend/internal/sendas), the poll tick that decides pending
  aliases (backend/internal/processor/sendas_check.go) and the handler that creates one
  (handleSendAsCreate in backend/internal/api/sendas_handlers.go).
\<close>

section \<open>The store\<close>

record send_alias =
  al_ID :: string
  al_UserID :: string
  al_Email :: string
  al_DisplayName :: string
  al_VerificationCode :: string
  al_Status :: string
  al_CreatedAt :: string
  al_ExpiresAt :: string
  al_VerifiedAt :: string
  al_FailedAt :: string

datatype sendas_error = SendasIO io_error | NoSuchAlias string | AliasNotPending string string

type_synonym sendas_world = "(send_alias list, send_alias list) world"

definition pendingExpiry :: int where "pendingExpiry = 5 * minute"

definition sendas_applyFile :: "send_alias list \<Rightarrow> send_alias list \<Rightarrow> send_alias list" where
  "sendas_applyFile af s = af"

definition sendas_file_of :: "send_alias list \<Rightarrow> send_alias list" where
  "sendas_file_of s = s"

interpretation sendas_js: json_store sendas_applyFile sendas_file_of
  by unfold_locales (simp_all add: sendas_applyFile_def sendas_file_of_def)

definition sendas_New :: "go_env \<Rightarrow> send_alias list json_file \<Rightarrow> io_error option \<times> sendas_world" where
  "sendas_New e f = open_store sendas_applyFile sendas_file_of e [] f"

definition sendas_List :: "sendas_world \<Rightarrow> send_alias list \<times> sendas_world" where
  "sendas_List = observe sendas_applyFile (\<lambda>s. s)"

definition verified :: "send_alias \<Rightarrow> bool" where
  "verified a \<longleftrightarrow> al_Status a = ''verified''"

definition sendas_ListVerified :: "sendas_world \<Rightarrow> send_alias list \<times> sendas_world" where
  "sendas_ListVerified = observe sendas_applyFile (filter verified)"

definition sendas_FindVerifiedByEmail :: "string \<Rightarrow> sendas_world \<Rightarrow> send_alias option \<times> sendas_world" where
  "sendas_FindVerifiedByEmail email =
    observe sendas_applyFile
      (List.find (\<lambda>a. verified a \<and> to_lower (al_Email a) = to_lower email))"

definition sendas_Get :: "string \<Rightarrow> sendas_world \<Rightarrow> send_alias option \<times> sendas_world" where
  "sendas_Get i = observe sendas_applyFile (List.find (\<lambda>a. al_ID a = i))"

definition sendas_PendingNotExpired :: "go_env \<Rightarrow> sendas_world \<Rightarrow> send_alias list \<times> sendas_world" where
  "sendas_PendingNotExpired e = observe sendas_applyFile
    (filter (\<lambda>a. al_Status a = ''pending'' \<and>
       (case env_parse e (al_ExpiresAt a) of None \<Rightarrow> False | Some t \<Rightarrow> \<not> t < env_now e)))"

definition newVerificationCode :: "byte list option \<Rightarrow> io_error + string" where
  "newVerificationCode rnd =
    (case rnd of None \<Rightarrow> Inl NoEntropy | Some b \<Rightarrow> Inr (''kp-'' @ hex_bytes b))"

text \<open>\<open>env_rand\<close> feeds the ID, \<open>rnd\<close> the verification code.\<close>

definition sendas_create_body ::
  "go_env \<Rightarrow> byte list option \<Rightarrow> string \<Rightarrow> string \<Rightarrow> string \<Rightarrow> send_alias list \<Rightarrow>
   (sendas_error + send_alias) \<times> send_alias list \<times> bool" where
  "sendas_create_body e rnd userID email displayName s =
    (case NewUUIDv4 (env_rand e) of
       Inl err \<Rightarrow> (Inl (SendasIO err), s, False)
     | Inr aid \<Rightarrow>
         (case newVerificationCode rnd of
            Inl err \<Rightarrow> (Inl (SendasIO err), s, False)
          | Inr code \<Rightarrow>
              (let a = \<lparr>al_ID = aid, al_UserID = userID, al_Email = to_lower email,
                        al_DisplayName = displayName, al_VerificationCode = code,
                        al_Status = ''pending'', al_CreatedAt = stamp e,
                        al_ExpiresAt = env_format e (env_now e + pendingExpiry),
                        al_VerifiedAt = '''', al_FailedAt = ''''\<rparr>
               in (Inr a, s @ [a], True))))"

definition sendas_Create ::
  "go_env \<Rightarrow> byte list option \<Rightarrow> string \<Rightarrow> string \<Rightarrow> string \<Rightarrow> sendas_world \<Rightarrow>
   (sendas_error + send_alias) \<times> sendas_world" where
  "sendas_Create e rnd userID email displayName =
    transact sendas_applyFile sendas_file_of SendasIO e (sendas_create_body e rnd userID email displayName)"

definition sendas_verify_body ::
  "go_env \<Rightarrow> string \<Rightarrow> send_alias list \<Rightarrow> (sendas_error + unit) \<times> send_alias list \<times> bool" where
  "sendas_verify_body e i s =
    (case List.find (\<lambda>a. al_ID a = i) s of
       None \<Rightarrow> (Inl (NoSuchAlias i), s, False)
     | Some a \<Rightarrow>
         if verified a then (Inr (), s, False)
         else (Inr (), replace_first (\<lambda>a. al_ID a = i)
                 (\<lambda>a. a\<lparr>al_Status := ''verified'', al_VerifiedAt := stamp e\<rparr>) s, True))"

definition sendas_MarkVerified :: "go_env \<Rightarrow> string \<Rightarrow> sendas_world \<Rightarrow> (sendas_error + unit) \<times> sendas_world"
where
  "sendas_MarkVerified e i =
    transact sendas_applyFile sendas_file_of SendasIO e (sendas_verify_body e i)"

definition sendas_fail_body ::
  "go_env \<Rightarrow> string \<Rightarrow> send_alias list \<Rightarrow> (sendas_error + unit) \<times> send_alias list \<times> bool" where
  "sendas_fail_body e i s =
    (case List.find (\<lambda>a. al_ID a = i) s of
       None \<Rightarrow> (Inl (NoSuchAlias i), s, False)
     | Some a \<Rightarrow>
         if al_Status a \<noteq> ''pending'' then (Inl (AliasNotPending i (al_Status a)), s, False)
         else (Inr (), replace_first (\<lambda>a. al_ID a = i)
                 (\<lambda>a. a\<lparr>al_Status := ''failed'', al_FailedAt := stamp e\<rparr>) s, True))"

definition sendas_MarkFailed :: "go_env \<Rightarrow> string \<Rightarrow> sendas_world \<Rightarrow> (sendas_error + unit) \<times> sendas_world"
where
  "sendas_MarkFailed e i = transact sendas_applyFile sendas_file_of SendasIO e (sendas_fail_body e i)"

definition sendas_delete_body ::
  "string \<Rightarrow> send_alias list \<Rightarrow> (sendas_error + unit) \<times> send_alias list \<times> bool" where
  "sendas_delete_body i s =
    (case List.find (\<lambda>a. al_ID a = i) s of
       None \<Rightarrow> (Inl (NoSuchAlias i), s, False)
     | Some a \<Rightarrow> (Inr (), remove_first (\<lambda>a. al_ID a = i) s, True))"

definition sendas_Delete :: "go_env \<Rightarrow> string \<Rightarrow> sendas_world \<Rightarrow> (sendas_error + unit) \<times> sendas_world"
where
  "sendas_Delete e i = transact sendas_applyFile sendas_file_of SendasIO e (sendas_delete_body i)"

definition sweepable :: "go_env \<Rightarrow> int \<Rightarrow> send_alias \<Rightarrow> bool" where
  "sweepable e retention a \<longleftrightarrow> al_Status a = ''failed'' \<and>
    (case env_parse e (al_FailedAt a) of None \<Rightarrow> False | Some t \<Rightarrow> t < env_now e - retention)"

definition sendas_sweep_body ::
  "go_env \<Rightarrow> int \<Rightarrow> send_alias list \<Rightarrow> (sendas_error + unit) \<times> send_alias list \<times> bool" where
  "sendas_sweep_body e retention s =
    (let kept = filter (\<lambda>a. \<not> sweepable e retention a) s
     in if list_ex (sweepable e retention) s then (Inr (), kept, True) else (Inr (), s, False))"

definition sendas_SweepTerminal :: "go_env \<Rightarrow> int \<Rightarrow> sendas_world \<Rightarrow> (sendas_error + unit) \<times> sendas_world"
where
  "sendas_SweepTerminal e retention =
    transact sendas_applyFile sendas_file_of SendasIO e (sendas_sweep_body e retention)"

section \<open>The poll tick\<close>

text \<open>
  The mail client and the DKIM check are parameters: \<open>search\<close> gives the UIDs of the messages
  whose subject has the text (None: the search failed), \<open>fetch\<close> the raw message (None: the
  fetch failed), \<open>dkim raw domain\<close> whether it carries a valid signature of the domain.
\<close>

record mail_view =
  mv_search :: "string \<Rightarrow> nat list option"
  mv_fetch :: "nat \<Rightarrow> string option"
  mv_dkim :: "string \<Rightarrow> string \<Rightarrow> bool"

text \<open>What comes after the last \<open>@\<close>, lower-cased; empty when there is none.\<close>

definition domainOf :: "string \<Rightarrow> string" where
  "domainOf email =
    (if CHR ''@'' \<in> set email then to_lower (rev (takeWhile (\<lambda>c. c \<noteq> CHR ''@'') (rev email))) else '''')"

definition dkim_evidence :: "mail_view \<Rightarrow> send_alias \<Rightarrow> bool" where
  "dkim_evidence mv a =
    (case mv_search mv (al_VerificationCode a) of
       None \<Rightarrow> False
     | Some matches \<Rightarrow>
         list_ex (\<lambda>u. case mv_fetch mv u of None \<Rightarrow> False | Some raw \<Rightarrow> mv_dkim mv raw (domainOf (al_Email a)))
           matches)"

definition alias_expired :: "go_env \<Rightarrow> send_alias \<Rightarrow> bool" where
  "alias_expired e a \<longleftrightarrow>
    (case env_parse e (al_ExpiresAt a) of None \<Rightarrow> True | Some t \<Rightarrow> \<not> env_now e < t)"

definition check_alias :: "go_env \<Rightarrow> mail_view \<Rightarrow> send_alias \<Rightarrow> sendas_world \<Rightarrow> sendas_world" where
  "check_alias e mv a w =
    (if al_Status a \<noteq> ''pending'' then w
     else if alias_expired e a then snd (sendas_MarkFailed e (al_ID a) w)
     else if dkim_evidence mv a then snd (sendas_MarkVerified e (al_ID a) w)
     else w)"

text \<open>The k-th alias of the list is checked in the environment \<open>es k\<close>, the sweep in the next.\<close>

fun check_aliases :: "(nat \<Rightarrow> go_env) \<Rightarrow> nat \<Rightarrow> mail_view \<Rightarrow> send_alias list \<Rightarrow> sendas_world \<Rightarrow> sendas_world"
where
  "check_aliases es k mv [] w = w"
| "check_aliases es k mv (a # as) w = check_aliases es (Suc k) mv as (check_alias (es k) mv a w)"

definition checkPendingSendAsAliases :: "(nat \<Rightarrow> go_env) \<Rightarrow> mail_view \<Rightarrow> sendas_world \<Rightarrow> sendas_world" where
  "checkPendingSendAsAliases es mv w =
    (case sendas_List w of
       (as, w1) \<Rightarrow> snd (sendas_SweepTerminal (es (length as)) (24 * hour) (check_aliases es 0 mv as w1)))"

section \<open>The handler that creates an alias\<close>

text \<open>
  The request as the handler sees it: \<open>sr_address\<close> is the address \<open>mail.ParseAddress\<close> found
  (None: the body or the address
  is invalid), \<open>sr_auth\<close> the caller, \<open>sr_imap\<close> the configured account name (Inl: reading
  failed, Inr None: not configured), \<open>sr_smtp\<close> whether the SMTP target resolves and
  \<open>sr_delivered\<close> whether the probe is delivered.
\<close>

record sendas_request =
  sr_address :: "string option"
  sr_displayName :: string
  sr_auth :: "string option"
  sr_imap :: "unit + string option"
  sr_smtp :: bool
  sr_delivered :: bool

datatype sendas_response = SR_InvalidEmail | SR_Unauthorized | SR_ConfigError | SR_NoConfig
  | SR_OwnAddress | SR_TooMany | SR_RateLimited int | SR_CreateFailed | SR_NoSMTP send_alias | SR_SendFailed send_alias
  | SR_Created send_alias

definition maxSendAsAliasesPerUser :: nat where "maxSendAsAliasesPerUser = 20"

text \<open>The state: the cooldown table and the caller's store.\<close>

definition handleSendAsCreate ::
  "go_env \<Rightarrow> byte list option \<Rightarrow> sendas_request \<Rightarrow> last_sent \<times> sendas_world \<Rightarrow>
   sendas_response \<times> last_sent \<times> sendas_world" where
  "handleSendAsCreate e rnd rq st =
    (case st of (cool, w) \<Rightarrow>
     case sr_address rq of None \<Rightarrow> (SR_InvalidEmail, cool, w)
     | Some addr \<Rightarrow>
     let normalizedEmail = to_lower addr in
     case sr_auth rq of None \<Rightarrow> (SR_Unauthorized, cool, w)
     | Some userID \<Rightarrow>
     (case sr_imap rq of Inl _ \<Rightarrow> (SR_ConfigError, cool, w)
      | Inr None \<Rightarrow> (SR_NoConfig, cool, w)
      | Inr (Some username) \<Rightarrow>
        if normalizedEmail = to_lower (trim_space username) then (SR_OwnAddress, cool, w)
        else
          (case sendas_List w of (as, w1) \<Rightarrow>
           if length as \<ge> maxSendAsAliasesPerUser then (SR_TooMany, cool, w1)
           else
             let key = userID @ ''|'' @ normalizedEmail in
             case sendas_allowed cool key (env_now e) of
               (False, retryAfter) \<Rightarrow> (SR_RateLimited (retryAfter div second + 1), cool, w1)
             | (True, _) \<Rightarrow>
               let cool1 = sendas_recordSent cool key (env_now e) in
               (case sendas_Create e rnd userID normalizedEmail (trim_space (sr_displayName rq)) w1 of
                  (Inl _, w2) \<Rightarrow> (SR_CreateFailed, cool1, w2)
                | (Inr a, w2) \<Rightarrow>
                    (if \<not> sr_smtp rq then SR_NoSMTP a
                     else if \<not> sr_delivered rq then SR_SendFailed a else SR_Created a, cool1, w2)))))"

section \<open>What the tick changes\<close>

text \<open>One alias before and after its check, in the environment of the check.\<close>

definition tick_alias :: "go_env \<Rightarrow> mail_view \<Rightarrow> send_alias \<Rightarrow> send_alias" where
  "tick_alias e mv a =
    (if al_Status a \<noteq> ''pending'' \<or> \<not> env_write_ok e then a
     else if alias_expired e a then a\<lparr>al_Status := ''failed'', al_FailedAt := stamp e\<rparr>
     else if dkim_evidence mv a then a\<lparr>al_Status := ''verified'', al_VerifiedAt := stamp e\<rparr>
     else a)"

fun tick_aliases :: "(nat \<Rightarrow> go_env) \<Rightarrow> nat \<Rightarrow> mail_view \<Rightarrow> send_alias list \<Rightarrow> send_alias list" where
  "tick_aliases es k mv [] = []"
| "tick_aliases es k mv (a # as) = tick_alias (es k) mv a # tick_aliases es (Suc k) mv as"

lemma tick_alias_ID [simp]: "al_ID (tick_alias e mv a) = al_ID a"
  by (simp add: tick_alias_def)

lemma replace_first_middle:
  assumes "al_ID a \<notin> al_ID ` set pre"
  shows "replace_first (\<lambda>x. al_ID x = al_ID a) f (pre @ a # post) = pre @ f a # post"
    "List.find (\<lambda>x. al_ID x = al_ID a) (pre @ a # post) = Some a"
  using assms by (induction pre) auto

lemma check_alias_step:
  assumes "al_ID a \<notin> al_ID ` set pre"
  shows "\<exists>s'. check_alias e mv a (s, Json (pre @ a # post)) = (s', Json (pre @ tick_alias e mv a # post))"
  using assms
  by (auto simp: check_alias_def tick_alias_def sendas_MarkFailed_def sendas_MarkVerified_def transact_Json
      sendas_fail_body_def sendas_verify_body_def sendas_applyFile_def sendas_file_of_def verified_def
      replace_first_middle)

lemma check_aliases_spec:
  assumes "distinct (map al_ID (pre @ as))"
  shows "\<exists>s'. check_aliases es k mv as (s, Json (pre @ as)) = (s', Json (pre @ tick_aliases es k mv as))"
  using assms
proof (induction as arbitrary: pre k s)
  case Nil
  then show ?case by simp
next
  case (Cons a as)
  have "al_ID a \<notin> al_ID ` set pre" using Cons.prems by auto
  then obtain s1 where c: "check_alias (es k) mv a (s, Json (pre @ a # as)) =
      (s1, Json (pre @ tick_alias (es k) mv a # as))"
    using check_alias_step by blast
  have "distinct (map al_ID ((pre @ [tick_alias (es k) mv a]) @ as))" using Cons.prems by simp
  from Cons.IH [OF this, of "Suc k" s1] c show ?case by simp
qed

lemma sweep_file:
  "\<exists>s'. snd (sendas_SweepTerminal e r (s, Json v)) =
    (s', Json (if env_write_ok e then filter (\<lambda>a. \<not> sweepable e r a) v else v))"
proof (cases "list_ex (sweepable e r) v")
  case True
  then show ?thesis
    by (simp add: sendas_SweepTerminal_def transact_Json sendas_sweep_body_def sendas_applyFile_def
        sendas_file_of_def Let_def)
next
  case False
  then have "filter (\<lambda>a. \<not> sweepable e r a) v = v" by (auto simp: list_ex_iff filter_id_conv)
  with False show ?thesis
    by (simp add: sendas_SweepTerminal_def transact_Json sendas_sweep_body_def sendas_applyFile_def
        sendas_file_of_def Let_def)
qed

lemma check_spec:
  assumes "distinct (map al_ID v)"
  shows "\<exists>s'. checkPendingSendAsAliases es mv (s, Json v) =
    (s', Json (if env_write_ok (es (length v))
               then filter (\<lambda>a. \<not> sweepable (es (length v)) (24 * hour) a) (tick_aliases es 0 mv v)
               else tick_aliases es 0 mv v))"
proof -
  obtain s1 where c: "check_aliases es 0 mv v (v, Json v) = (s1, Json (tick_aliases es 0 mv v))"
    using check_aliases_spec [of "[]" v es 0 mv v] assms by auto
  have l: "sendas_List (s, Json v) = (v, v, Json v)"
    by (simp add: sendas_List_def observe_Json sendas_applyFile_def)
  show ?thesis
    using sweep_file [of "es (length v)" "24 * hour" s1 "tick_aliases es 0 mv v"]
    by (simp add: checkPendingSendAsAliases_def l c)
qed

lemma nth_tick_aliases: "y \<in> set (tick_aliases es k mv v) \<Longrightarrow> \<exists>i<length v. y = tick_alias (es (k + i)) mv (v ! i)"
proof (induction v arbitrary: k)
  case (Cons a v)
  show ?case
  proof (cases "y = tick_alias (es k) mv a")
    case True
    then show ?thesis by (intro exI [of _ 0]) simp
  next
    case False
    then have "y \<in> set (tick_aliases es (Suc k) mv v)" using Cons.prems by simp
    from Cons.IH [OF this] obtain i where "i < length v" "y = tick_alias (es (Suc k + i)) mv (v ! i)"
      by blast
    then show ?thesis by (intro exI [of _ "Suc i"]) simp
  qed
qed simp

section \<open>Properties\<close>



text \<open>
  The handler never makes a user's list longer than twenty aliases, and it sends the
  probe for an address at most once in five minutes: a request that is let through closes
  its key of the cooldown table for that time.
\<close>

theorem handleSendAsCreate_limits:
  assumes "handleSendAsCreate e rnd rq (cool, (s, Json v)) = (resp, cool', (s', Json v'))"
    and "length v \<le> maxSendAsAliasesPerUser"
  shows "length v' \<le> maxSendAsAliasesPerUser \<and>
    (resp = SR_Created a \<longrightarrow> (\<exists>userID. sr_auth rq = Some userID \<and> last v' = a \<and> al_Status a = ''pending'' \<and>
       fst (sendas_allowed cool (userID @ ''|'' @ al_Email a) (env_now e)) \<and>
       (\<forall>t<env_now e + 5 * minute. \<not> fst (sendas_allowed cool' (userID @ ''|'' @ al_Email a) t))))"
proof -
  have cr: "sendas_Create e rnd u em dn (v, Json v) =
      (case sendas_create_body e rnd u em dn v of
         (r, t, d) \<Rightarrow> if d then if env_write_ok e then (r, t, Json t) else (Inl (SendasIO IoWrite), t, Json v)
                     else (r, t, Json v))" for u em dn
    by (simp add: sendas_Create_def transact_Json sendas_applyFile_def sendas_file_of_def
        split: prod.split)
  have l: "sendas_List (s, Json v) = (v, v, Json v)"
    by (simp add: sendas_List_def observe_Json sendas_applyFile_def)
  show ?thesis
    using assms
    by (auto simp: handleSendAsCreate_def l cr sendas_create_body_def Let_def sendas_allowed_def
        sendas_recordSent_def cooldown_left_update sendAsVerificationCooldownFor_def
        split: option.splits sum.splits if_splits prod.splits)
qed

section \<open>Worked examples\<close>

text \<open>Two send-as aliases, the first pending.\<close>

definition pending_alias :: "string \<Rightarrow> int \<Rightarrow> send_alias" where
  "pending_alias i expires = \<lparr>al_ID = i, al_UserID = ''u'', al_Email = ''me@x.org'', al_DisplayName = '''',
     al_VerificationCode = ''kp-1'', al_Status = ''pending'', al_CreatedAt = '''',
     al_ExpiresAt = tally_format expires, al_VerifiedAt = '''', al_FailedAt = ''''\<rparr>"

definition good_mail :: mail_view where
  "good_mail = \<lparr>mv_search = \<lambda>_. Some [7], mv_fetch = \<lambda>_. Some ''raw'', mv_dkim = \<lambda>_ d. d = ''x.org''\<rparr>"




definition sample_request :: sendas_request where
  "sample_request = \<lparr>sr_address = Some ''Me@x.org'', sr_displayName = ''Me'', sr_auth = Some ''u'',
     sr_imap = Inr (Some ''box@y.org''), sr_smtp = True, sr_delivered = True\<rparr>"

lemma sample_words: "to_lower ''Me@x.org'' = ''me@x.org''" "to_lower (trim_space ''box@y.org'') = ''box@y.org''"
  by code_simp+

theorem handleSendAsCreate_limits_witness:
  "\<exists>cool' s' v' a. handleSendAsCreate (tally_env 0 (Some (replicate 16 1)) True) (Some [7]) sample_request
     ([], ([], Json [])) = (SR_Created a, cool', s', Json v') \<and> length v' \<le> maxSendAsAliasesPerUser \<and> al_Status a = ''pending''"
proof -
  obtain a cool' s' v' where h: "handleSendAsCreate (tally_env 0 (Some (replicate 16 1)) True) (Some [7]) sample_request
     ([], ([], Json [])) = (SR_Created a, cool', s', Json v')"
    by (simp add: handleSendAsCreate_def sample_request_def sendas_List_def observe_Json sendas_applyFile_def sample_words
        maxSendAsAliasesPerUser_def sendas_allowed_def cooldown_left_def sendas_Create_def transact_Json
        sendas_create_body_def newVerificationCode_def NewUUIDv4_def Let_def sendas_file_of_def)
  from handleSendAsCreate_limits [OF h, of a] show ?thesis unfolding h by auto
qed

end
