(* ===== verification/Mfa.thy ===== *)
theory Mfa
  imports Fsutil "HOL-Library.AList"
begin

text \<open>
  The second factor: the in-memory store of login challenges and the recovery codes
  (backend/internal/mfa/mfa.go) and time-based one-time passwords
  (backend/internal/totp/totp.go). The challenge map is an association list; every method
  reads the clock once.
\<close>

section \<open>Login challenges\<close>

datatype mfa_error = ErrChallengeNotFound | ErrTooManyAttempts | ErrChallengeAlreadyUsed
  | ErrChallengeAlreadyResolved | ErrPushNotApproved

definition MaxTOTPAttempts :: int where "MaxTOTPAttempts = 5"
definition challengeTTL :: int where "challengeTTL = 5 * minute"

definition PushPending :: string where "PushPending = ''pending''"
definition PushApproved :: string where "PushApproved = ''approved''"
definition PushDenied :: string where "PushDenied = ''denied''"

record challenge =
  ch_ID :: string
  ch_UserID :: string
  ch_CreatedAt :: int
  ch_ExpiresAt :: int
  ch_TOTPAttempts :: int
  ch_UsedTOTPStep :: int
  ch_PushStatus :: string
  ch_RespondedBy :: string

type_synonym challenges = "(string \<times> challenge) list"

definition mfa_Create :: "byte list option \<Rightarrow> int \<Rightarrow> string \<Rightarrow> challenges \<Rightarrow> (io_error + challenge) \<times> challenges"
where
  "mfa_Create rnd now userID m =
    (case rnd of
       None \<Rightarrow> (Inl NoEntropy, m)
     | Some idBytes \<Rightarrow>
         (let ch = \<lparr>ch_ID = hex_bytes idBytes, ch_UserID = userID, ch_CreatedAt = now,
                    ch_ExpiresAt = now + challengeTTL, ch_TOTPAttempts = 0, ch_UsedTOTPStep = 0,
                    ch_PushStatus = '''', ch_RespondedBy = ''''\<rparr>
          in (Inr ch, AList.update (ch_ID ch) ch m)))"

text \<open>The test every method starts with: the challenge, if it is there and not expired.\<close>

definition live :: "challenges \<Rightarrow> int \<Rightarrow> string \<Rightarrow> challenge option" where
  "live m now i =
    (case map_of m i of None \<Rightarrow> None | Some ch \<Rightarrow> if now > ch_ExpiresAt ch then None else Some ch)"

definition mfa_Get :: "int \<Rightarrow> string \<Rightarrow> challenges \<Rightarrow> challenge option \<times> challenges" where
  "mfa_Get now i m =
    (case map_of m i of
       None \<Rightarrow> (None, m)
     | Some ch \<Rightarrow> if now > ch_ExpiresAt ch then (None, AList.delete i m) else (Some ch, m))"

definition mfa_RecordTOTPAttempt :: "int \<Rightarrow> string \<Rightarrow> challenges \<Rightarrow> mfa_error option \<times> challenges" where
  "mfa_RecordTOTPAttempt now i m =
    (case live m now i of
       None \<Rightarrow> (Some ErrChallengeNotFound, AList.delete i m)
     | Some ch \<Rightarrow>
         (let ch1 = ch\<lparr>ch_TOTPAttempts := ch_TOTPAttempts ch + 1\<rparr>
          in if ch_TOTPAttempts ch1 > MaxTOTPAttempts
             then (Some ErrTooManyAttempts, AList.delete i m)
             else (None, AList.update i ch1 m)))"

definition mfa_ConsumeTOTPStep :: "int \<Rightarrow> string \<Rightarrow> int \<Rightarrow> challenges \<Rightarrow> mfa_error option \<times> challenges"
where
  "mfa_ConsumeTOTPStep now i step m =
    (case live m now i of
       None \<Rightarrow> (Some ErrChallengeNotFound, AList.delete i m)
     | Some ch \<Rightarrow>
         if ch_UsedTOTPStep ch \<noteq> 0 then (Some ErrChallengeAlreadyUsed, m)
         else (None, AList.update i (ch\<lparr>ch_UsedTOTPStep := step\<rparr>) m))"

definition mfa_Delete :: "string \<Rightarrow> challenges \<Rightarrow> challenges" where
  "mfa_Delete i m = AList.delete i m"

definition mfa_DeleteByUser :: "string \<Rightarrow> challenges \<Rightarrow> challenges" where
  "mfa_DeleteByUser userID m = filter (\<lambda>(i, _). ch_UserID (the (map_of m i)) \<noteq> userID) m"

definition mfa_PushStatus :: "int \<Rightarrow> string \<Rightarrow> challenges \<Rightarrow> string option \<times> challenges" where
  "mfa_PushStatus now i m =
    (case live m now i of
       None \<Rightarrow> (None, AList.delete i m)
     | Some ch \<Rightarrow> if ch_PushStatus ch = '''' then (Some PushPending, m) else (Some (ch_PushStatus ch), m))"

text \<open>The result carries the earlier decision next to the error.\<close>

definition mfa_ResolvePush ::
  "int \<Rightarrow> string \<Rightarrow> string \<Rightarrow> bool \<Rightarrow> challenges \<Rightarrow> (string \<times> mfa_error option) \<times> challenges" where
  "mfa_ResolvePush now i deviceID approve m =
    (case live m now i of
       None \<Rightarrow> (('''', Some ErrChallengeNotFound), AList.delete i m)
     | Some ch \<Rightarrow>
         if ch_PushStatus ch = PushApproved \<or> ch_PushStatus ch = PushDenied
         then ((ch_PushStatus ch, Some ErrChallengeAlreadyResolved), m)
         else
           (let ch1 = ch\<lparr>ch_PushStatus := (if approve then PushApproved else PushDenied),
                         ch_RespondedBy := deviceID\<rparr>
            in ((ch_PushStatus ch1, None), AList.update i ch1 m)))"

definition mfa_ConsumePushApproval :: "int \<Rightarrow> string \<Rightarrow> challenges \<Rightarrow> (mfa_error + string) \<times> challenges"
where
  "mfa_ConsumePushApproval now i m =
    (case live m now i of
       None \<Rightarrow> (Inl ErrChallengeNotFound, AList.delete i m)
     | Some ch \<Rightarrow>
         if ch_PushStatus ch \<noteq> PushApproved then (Inl ErrPushNotApproved, m)
         else (Inr (ch_UserID ch), AList.delete i m))"

section \<open>The store as a state machine\<close>

datatype mfa_op = MCreate "byte list option" string | MGet string | MAttempt string
  | MTOTP string int | MDelete string | MDeleteByUser string | MPushStatus string
  | MResolve string string bool | MConsume string

datatype mfa_reply = RCreated "io_error + challenge" | RChallenge "challenge option"
  | RError "mfa_error option" | RStatus "string option" | RResolved string "mfa_error option"
  | RConsumed "mfa_error + string" | RNothing

fun mfa_exec :: "int \<Rightarrow> mfa_op \<Rightarrow> challenges \<Rightarrow> mfa_reply \<times> challenges" where
  "mfa_exec now (MCreate rnd u) m = map_prod RCreated id (mfa_Create rnd now u m)"
| "mfa_exec now (MGet i) m = map_prod RChallenge id (mfa_Get now i m)"
| "mfa_exec now (MAttempt i) m = map_prod RError id (mfa_RecordTOTPAttempt now i m)"
| "mfa_exec now (MTOTP i st) m = map_prod RError id (mfa_ConsumeTOTPStep now i st m)"
| "mfa_exec now (MDelete i) m = (RNothing, mfa_Delete i m)"
| "mfa_exec now (MDeleteByUser u) m = (RNothing, mfa_DeleteByUser u m)"
| "mfa_exec now (MPushStatus i) m = map_prod RStatus id (mfa_PushStatus now i m)"
| "mfa_exec now (MResolve i d a) m =
    map_prod (\<lambda>(str, e). RResolved str e) id (mfa_ResolvePush now i d a m)"
| "mfa_exec now (MConsume i) m = map_prod RConsumed id (mfa_ConsumePushApproval now i m)"

text \<open>A run: operations with the time of each, and what each replied.\<close>

fun mfa_run :: "(int \<times> mfa_op) list \<Rightarrow> challenges \<Rightarrow> (mfa_op \<times> mfa_reply) list \<times> challenges" where
  "mfa_run [] m = ([], m)"
| "mfa_run ((now, oper) # ops) m =
    (case mfa_exec now oper m of
       (r, m') \<Rightarrow> (case mfa_run ops m' of (rs, m'') \<Rightarrow> ((oper, r) # rs, m'')))"

text \<open>What the push protocol promises: the abstract machine of one challenge.\<close>

datatype push_state = Absent | Undecided | Approved string | Denied string

definition push_state_of :: "challenges \<Rightarrow> string \<Rightarrow> push_state" where
  "push_state_of m i =
    (case map_of m i of
       None \<Rightarrow> Absent
     | Some ch \<Rightarrow>
         if ch_PushStatus ch = PushApproved then Approved (ch_RespondedBy ch)
         else if ch_PushStatus ch = PushDenied then Denied (ch_RespondedBy ch) else Undecided)"

fun creates :: "string \<Rightarrow> mfa_op \<times> mfa_reply \<Rightarrow> bool" where
  "creates i (_, RCreated (Inr ch)) \<longleftrightarrow> ch_ID ch = i"
| "creates i _ \<longleftrightarrow> False"

fun decides :: "string \<Rightarrow> mfa_op \<times> mfa_reply \<Rightarrow> bool" where
  "decides i (MResolve j d b, RResolved w None) \<longleftrightarrow> j = i"
| "decides i _ \<longleftrightarrow> False"

fun spends :: "string \<Rightarrow> mfa_op \<times> mfa_reply \<Rightarrow> bool" where
  "spends i (MConsume j, RConsumed (Inr u)) \<longleftrightarrow> j = i"
| "spends i _ \<longleftrightarrow> False"

lemma creates_iff: "creates i ev \<longleftrightarrow> (\<exists>oper ch. ev = (oper, RCreated (Inr ch)) \<and> ch_ID ch = i)"
  by (cases "(i, ev)" rule: creates.cases) auto

lemma decides_iff: "decides i ev \<longleftrightarrow> (\<exists>d b w. ev = (MResolve i d b, RResolved w None))"
  by (cases "(i, ev)" rule: decides.cases) auto

lemma spends_iff: "spends i ev \<longleftrightarrow> (\<exists>u. ev = (MConsume i, RConsumed (Inr u)))"
  by (cases "(i, ev)" rule: spends.cases) auto

inductive push_step :: "string \<Rightarrow> push_state \<Rightarrow> mfa_op \<times> mfa_reply \<Rightarrow> push_state \<Rightarrow> bool" where
  quiet: "\<not> creates i ev \<Longrightarrow> \<not> decides i ev \<Longrightarrow> \<not> spends i ev \<Longrightarrow> push_step i p ev p"
| vanish: "\<not> creates i ev \<Longrightarrow> \<not> decides i ev \<Longrightarrow> \<not> spends i ev \<Longrightarrow> push_step i p ev Absent"
| create: "creates i ev \<Longrightarrow> push_step i p ev Undecided"
| approve: "push_step i Undecided (MResolve i d True, RResolved PushApproved None) (Approved d)"
| deny: "push_step i Undecided (MResolve i d False, RResolved PushDenied None) (Denied d)"
| consume: "push_step i (Approved d) (MConsume i, RConsumed (Inr u)) Absent"

inductive_cases push_step_spend: "push_step i p (MConsume i, RConsumed (Inr u)) q"

inductive push_trace :: "string \<Rightarrow> push_state \<Rightarrow> (mfa_op \<times> mfa_reply) list \<Rightarrow> push_state \<Rightarrow> bool" where
  trace_Nil: "push_trace i p [] p"
| trace_Cons: "push_step i p ev q \<Longrightarrow> push_trace i q evs r \<Longrightarrow> push_trace i p (ev # evs) r"

lemma push_words: "PushApproved \<noteq> PushDenied" "PushApproved \<noteq> ''''" "PushDenied \<noteq> ''''"
  "PushPending \<noteq> PushApproved" "PushPending \<noteq> PushDenied"
  by (simp_all add: PushApproved_def PushDenied_def PushPending_def)

lemma map_of_DeleteByUser:
  "map_of (mfa_DeleteByUser u m) i =
    (case map_of m i of None \<Rightarrow> None | Some ch \<Rightarrow> if ch_UserID ch = u then None else Some ch)"
proof -
  have "map_of (filter (\<lambda>(k, _). Q k) xs) i = (if Q i then map_of xs i else None)" for Q and xs :: challenges
    by (induction xs) auto
  then show ?thesis by (simp add: mfa_DeleteByUser_def split: option.split)
qed

lemmas mfa_defs = mfa_Create_def mfa_Get_def mfa_RecordTOTPAttempt_def mfa_ConsumeTOTPStep_def
  mfa_Delete_def mfa_PushStatus_def mfa_ResolvePush_def mfa_ConsumePushApproval_def

text \<open>What an operation does to the entry of one challenge, and what it then replies.\<close>

lemma exec_create:
  assumes "mfa_exec now oper m = (r, m')" "creates i (oper, r)"
  shows "push_state_of m' i = Undecided"
proof -
  obtain ch where r: "r = RCreated (Inr ch)" "ch_ID ch = i" using assms(2) by (auto simp: creates_iff)
  then obtain rnd u where "oper = MCreate rnd u"
    using assms(1) by (cases oper) (auto simp: map_prod_def split: prod.splits)
  with assms(1) r push_words show ?thesis
    by (auto simp: mfa_Create_def push_state_of_def update_conv' Let_def split: option.splits)
qed

lemma exec_push_step:
  assumes "mfa_exec now oper m = (r, m')"
  shows "push_step i (push_state_of m i) (oper, r) (push_state_of m' i)"
proof (cases "creates i (oper, r)")
  case True
  then show ?thesis using exec_create [OF assms True] by (simp add: push_step.create)
next
  case nc: False
  have keep: "push_step i (push_state_of m i) (oper, r) (push_state_of m' i)"
    if "\<not> decides i (oper, r)" "\<not> spends i (oper, r)"
      "push_state_of m' i = push_state_of m i \<or> push_state_of m' i = Absent"
    using that nc push_step.quiet push_step.vanish by metis
  show ?thesis
  proof (cases oper)
    case (MResolve j d b)
    show ?thesis
    proof (cases "j = i \<and> (\<exists>w. r = RResolved w None)")
      case True
      then obtain w where w: "r = RResolved w None" and j: "j = i" by blast
      then obtain ch where ch: "map_of m i = Some ch" "ch_PushStatus ch \<noteq> PushApproved"
          "ch_PushStatus ch \<noteq> PushDenied" "w = (if b then PushApproved else PushDenied)"
        and m': "m' = AList.update i (ch\<lparr>ch_PushStatus := w, ch_RespondedBy := d\<rparr>) m"
        using assms MResolve
        by (auto simp: mfa_ResolvePush_def live_def Let_def split: option.splits if_splits)
      have "push_state_of m i = Undecided" using ch by (simp add: push_state_of_def)
      moreover have "push_state_of m' i = (if b then Approved d else Denied d)"
        using ch(4) push_words by (simp add: push_state_of_def m' update_conv')
      ultimately show ?thesis
        using push_step.approve [of i d] push_step.deny [of i d] w ch(4) j MResolve by (cases b) auto
    next
      case False
      then have "\<not> decides i (oper, r)" "\<not> spends i (oper, r)"
        using MResolve by (auto simp: decides_iff spends_iff)
      moreover have "push_state_of m' i = push_state_of m i \<or> push_state_of m' i = Absent"
        using assms MResolve False
        by (auto simp: mfa_ResolvePush_def push_state_of_def Let_def update_conv' delete_conv'
            split: option.splits if_splits)
      ultimately show ?thesis by (rule keep)
    qed
  next
    case (MConsume j)
    show ?thesis
    proof (cases "j = i \<and> (\<exists>u. r = RConsumed (Inr u))")
      case True
      then obtain ch u where ch: "map_of m i = Some ch" "ch_PushStatus ch = PushApproved" "r = RConsumed (Inr u)"
        and m': "m' = AList.delete i m"
        using assms MConsume
        by (auto simp: mfa_ConsumePushApproval_def live_def split: option.splits if_splits)
      then show ?thesis
        using push_step.consume True MConsume by (simp add: push_state_of_def delete_conv')
    next
      case False
      then have "\<not> decides i (oper, r)" "\<not> spends i (oper, r)"
        using MConsume by (auto simp: decides_iff spends_iff)
      moreover have "push_state_of m' i = push_state_of m i \<or> push_state_of m' i = Absent"
        using assms MConsume
        by (auto simp: mfa_ConsumePushApproval_def push_state_of_def delete_conv'
            split: option.splits if_splits)
      ultimately show ?thesis by (rule keep)
    qed
  next
    case (MCreate rnd u)
    with assms nc show ?thesis
      by (intro keep) (auto simp: decides_iff spends_iff creates_iff mfa_Create_def push_state_of_def
          update_conv' Let_def split: option.splits)
  next
    case (MGet j)
    with assms show ?thesis
      by (intro keep) (auto simp: decides_iff spends_iff mfa_Get_def push_state_of_def delete_conv'
          split: option.splits if_splits)
  next
    case (MAttempt j)
    with assms show ?thesis
      by (intro keep) (auto simp: decides_iff spends_iff mfa_RecordTOTPAttempt_def live_def Let_def
          push_state_of_def delete_conv' update_conv' split: option.splits if_splits)
  next
    case (MTOTP j st)
    with assms show ?thesis
      by (intro keep) (auto simp: decides_iff spends_iff mfa_ConsumeTOTPStep_def live_def
          push_state_of_def delete_conv' update_conv' split: option.splits if_splits)
  next
    case (MDelete j)
    with assms show ?thesis
      by (intro keep) (auto simp: decides_iff spends_iff mfa_Delete_def push_state_of_def delete_conv')
  next
    case (MDeleteByUser u)
    have "push_state_of (mfa_DeleteByUser u m) i = push_state_of m i \<or>
        push_state_of (mfa_DeleteByUser u m) i = Absent"
      by (cases "map_of m i") (simp_all add: push_state_of_def map_of_DeleteByUser)
    with assms MDeleteByUser show ?thesis by (intro keep) (auto simp: decides_iff spends_iff)
  next
    case (MPushStatus j)
    with assms show ?thesis
      by (intro keep) (auto simp: decides_iff spends_iff mfa_PushStatus_def push_state_of_def delete_conv'
          split: option.splits if_splits)
  qed
qed

text \<open>Refinement for whole runs.\<close>

lemma run_push_trace: "push_trace i (push_state_of m i) (fst (mfa_run ops m)) (push_state_of (snd (mfa_run ops m)) i)"
proof (induction ops m rule: mfa_run.induct)
  case (1 m)
  then show ?case by (simp add: trace_Nil)
next
  case (2 now oper ops m)
  obtain r m' where e: "mfa_exec now oper m = (r, m')" by fastforce
  obtain rs m'' where r: "mfa_run ops m' = (rs, m'')" by fastforce
  from "2" [OF e [symmetric]] r trace_Cons [OF exec_push_step [OF e]] show ?case by (simp add: e)
qed

lemma trace_append:
  "push_trace i p (A @ B) r \<Longrightarrow> \<exists>q. push_trace i p A q \<and> push_trace i q B r"
proof (induction A arbitrary: p)
  case Nil
  then show ?case by (auto intro: trace_Nil)
next
  case (Cons ev A)
  then obtain q where "push_step i p ev q" "push_trace i q (A @ B) r"
    by (auto elim: push_trace.cases)
  with Cons.IH show ?case by (blast intro: trace_Cons)
qed

text \<open>
  Without a new challenge of that ID, the state Approved is entered only by an approving
  decision, and left for ever by a redemption.
\<close>

lemma trace_approved:
  assumes "push_trace i p evs q" "q = Approved d" "\<forall>ev\<in>set evs. \<not> creates i ev"
  shows "(\<forall>ev\<in>set evs. \<not> spends i ev) \<and>
    (p = Approved d \<or> p = Undecided \<and> (MResolve i d True, RResolved PushApproved None) \<in> set evs)"
  using assms
proof (induction rule: push_trace.induct)
  case (trace_Cons i p ev q evs r)
  then have ih: "(\<forall>ev\<in>set evs. \<not> spends i ev) \<and>
    (q = Approved d \<or> q = Undecided \<and> (MResolve i d True, RResolved PushApproved None) \<in> set evs)"
    by simp
  from trace_Cons.hyps(1) show ?case
    by cases (use ih trace_Cons.prems(2) in auto)
qed simp

text \<open>The second counter: what a run of operations without a new challenge can do.\<close>

definition attempts_of :: "challenges \<Rightarrow> string \<Rightarrow> int" where
  "attempts_of m i = (case map_of m i of None \<Rightarrow> MaxTOTPAttempts | Some ch \<Rightarrow> ch_TOTPAttempts ch)"

definition totp_open :: "challenges \<Rightarrow> string \<Rightarrow> bool" where
  "totp_open m i \<longleftrightarrow> (case map_of m i of None \<Rightarrow> False | Some ch \<Rightarrow> ch_UsedTOTPStep ch = 0)"

definition attempt_ok :: "string \<Rightarrow> mfa_op \<times> mfa_reply \<Rightarrow> bool" where
  "attempt_ok i ev \<longleftrightarrow> ev = (MAttempt i, RError None)"

fun totp_ok :: "string \<Rightarrow> mfa_op \<times> mfa_reply \<Rightarrow> bool" where
  "totp_ok i (MTOTP j step, RError None) \<longleftrightarrow> j = i \<and> step \<noteq> 0"
| "totp_ok i _ \<longleftrightarrow> False"

lemma totp_ok_iff: "totp_ok i ev \<longleftrightarrow> (\<exists>step. ev = (MTOTP i step, RError None) \<and> step \<noteq> 0)"
  by (cases "(i, ev)" rule: totp_ok.cases) auto

text \<open>The entry of a challenge after an operation that does not create it.\<close>

lemma exec_entry:
  assumes "mfa_exec now oper m = (r, m')" "\<not> creates i (oper, r)"
  shows "map_of m' i = None \<and> \<not> attempt_ok i (oper, r) \<and> \<not> totp_ok i (oper, r) \<or>
    (\<exists>ch ch'. map_of m i = Some ch \<and> map_of m' i = Some ch' \<and>
       (attempt_ok i (oper, r) \<longrightarrow> ch_TOTPAttempts ch' = ch_TOTPAttempts ch + 1 \<and>
          ch_TOTPAttempts ch' \<le> MaxTOTPAttempts \<and> ch_UsedTOTPStep ch' = ch_UsedTOTPStep ch) \<and>
       (\<not> attempt_ok i (oper, r) \<longrightarrow> ch_TOTPAttempts ch' = ch_TOTPAttempts ch) \<and>
       (totp_ok i (oper, r) \<longrightarrow> ch_UsedTOTPStep ch = 0 \<and> ch_UsedTOTPStep ch' \<noteq> 0) \<and>
       (ch_UsedTOTPStep ch \<noteq> 0 \<longrightarrow> ch_UsedTOTPStep ch' = ch_UsedTOTPStep ch))"
  (is "?P oper")
proof (cases oper)
  case (MCreate rnd u)
  with assms show ?thesis
    by (cases "map_of m i")
      (auto simp: attempt_ok_def totp_ok_iff mfa_Create_def Let_def update_conv' split: option.splits)
next
  case (MGet j)
  with assms show ?thesis
    by (cases "map_of m i") (auto simp: attempt_ok_def totp_ok_iff mfa_Get_def delete_conv' split: option.splits if_splits)
next
  case (MAttempt j)
  with assms show ?thesis
    by (cases "map_of m i") (auto simp: attempt_ok_def totp_ok_iff mfa_RecordTOTPAttempt_def live_def Let_def delete_conv'
        update_conv' split: option.splits if_splits)
next
  case (MTOTP j st)
  with assms show ?thesis
    by (cases "map_of m i") (auto simp: attempt_ok_def totp_ok_iff mfa_ConsumeTOTPStep_def live_def delete_conv'
        update_conv' split: option.splits if_splits)
next
  case (MDelete j)
  with assms show ?thesis
    by (cases "map_of m i"; cases "i = j") (auto simp: attempt_ok_def totp_ok_iff mfa_Delete_def delete_conv')
next
  case (MDeleteByUser u)
  with assms show ?thesis
    by (cases "map_of m i"; cases "ch_UserID (the (map_of m i)) = u")
      (auto simp: attempt_ok_def totp_ok_iff map_of_DeleteByUser)
next
  case (MPushStatus j)
  with assms show ?thesis
    by (cases "map_of m i") (auto simp: attempt_ok_def totp_ok_iff mfa_PushStatus_def live_def delete_conv' split: option.splits if_splits)
next
  case (MResolve j d b)
  with assms show ?thesis
    by (cases "map_of m i") (auto simp: attempt_ok_def totp_ok_iff mfa_ResolvePush_def live_def Let_def delete_conv'
        update_conv' split: option.splits if_splits)
next
  case (MConsume j)
  with assms show ?thesis
    by (cases "map_of m i") (auto simp: attempt_ok_def totp_ok_iff mfa_ConsumePushApproval_def live_def delete_conv'
        split: option.splits if_splits)
qed

lemma exec_counters:
  assumes "mfa_exec now oper m = (r, m')" "\<not> creates i (oper, r)" "attempts_of m i \<le> MaxTOTPAttempts"
  shows "(if attempt_ok i (oper, r) then 1 else 0) + attempts_of m i \<le> attempts_of m' i"
    "attempts_of m' i \<le> MaxTOTPAttempts"
    "totp_ok i (oper, r) \<Longrightarrow> totp_open m i \<and> \<not> totp_open m' i"
    "totp_open m' i \<Longrightarrow> totp_open m i"
  using exec_entry [OF assms(1,2)] assms(3)
  by (auto simp: attempts_of_def totp_open_def split: if_splits)

lemma run_counters:
  assumes "\<forall>ev\<in>set (fst (mfa_run ops m)). \<not> creates i ev" "attempts_of m i \<le> MaxTOTPAttempts"
  shows "int (length (filter (attempt_ok i) (fst (mfa_run ops m)))) + attempts_of m i \<le> MaxTOTPAttempts"
    "length (filter (totp_ok i) (fst (mfa_run ops m))) \<le> (if totp_open m i then 1 else 0)"
proof -
  have "int (length (filter (attempt_ok i) (fst (mfa_run ops m)))) + attempts_of m i \<le> MaxTOTPAttempts \<and>
    length (filter (totp_ok i) (fst (mfa_run ops m))) \<le> (if totp_open m i then 1 else 0)"
    using assms
  proof (induction ops m rule: mfa_run.induct)
    case (1 m)
    then show ?case by simp
  next
    case (2 now oper ops m)
    obtain r m' where e: "mfa_exec now oper m = (r, m')" by fastforce
    obtain rs m'' where r: "mfa_run ops m' = (rs, m'')" by fastforce
    have nc: "\<not> creates i (oper, r)" "\<forall>ev\<in>set rs. \<not> creates i ev"
      using "2.prems"(1) by (simp_all add: e r)
    note c = exec_counters [OF e nc(1) "2.prems"(2)]
    have "int (length (filter (attempt_ok i) rs)) + attempts_of m' i \<le> MaxTOTPAttempts \<and>
      length (filter (totp_ok i) rs) \<le> (if totp_open m' i then 1 else 0)"
      using "2.IH" [OF e [symmetric]] nc(2) c(2) r by simp
    then show ?case using c by (auto simp: e r split: if_splits)
  qed
  then show "int (length (filter (attempt_ok i) (fst (mfa_run ops m)))) + attempts_of m i \<le> MaxTOTPAttempts"
    "length (filter (totp_ok i) (fst (mfa_run ops m))) \<le> (if totp_open m i then 1 else 0)" by auto
qed

section \<open>Recovery codes\<close>

definition recoveryAlphabet :: string where
  "recoveryAlphabet = ''0123456789abcdefghijklmnopqrstuv''"

definition recovery_char :: "byte \<Rightarrow> char" where
  "recovery_char b = recoveryAlphabet ! (unat b mod length recoveryAlphabet)"

text \<open>One code from the twelve bytes read for it.\<close>

definition recovery_code :: "byte list \<Rightarrow> string" where
  "recovery_code raw =
    (let chars = map recovery_char raw
     in take 4 chars @ ''-'' @ take 4 (drop 4 chars) @ ''-'' @ take 4 (drop 8 chars))"

text \<open>The random reads, one for each code; None when \<open>rand.Read\<close> fails.\<close>

fun GenerateRecoveryCodes :: "byte list option list \<Rightarrow> io_error + string list" where
  "GenerateRecoveryCodes [] = Inr []"
| "GenerateRecoveryCodes (None # rs) = Inl NoEntropy"
| "GenerateRecoveryCodes (Some raw # rs) =
    and_then (GenerateRecoveryCodes rs) (\<lambda>codes. Inr (recovery_code raw # codes))"

section \<open>Time-based one-time passwords\<close>

text \<open>
  The base32 decoder and HMAC-SHA1 are parameters: \<open>decode\<close> gives None on malformed input,
  \<open>mac key msg\<close> is the digest. Unix time is in seconds.
\<close>

definition totp_period :: int where "totp_period = 30"
definition totp_digits :: nat where "totp_digits = 6"

definition be_bytes :: "64 word \<Rightarrow> byte list" where
  "be_bytes w = map (\<lambda>k. ucast (drop_bit (8 * k) w)) [7, 6, 5, 4, 3, 2, 1, 0]"

fun pad_digits :: "nat \<Rightarrow> nat \<Rightarrow> string" where
  "pad_digits 0 n = ''''"
| "pad_digits (Suc w) n = pad_digits w (n div 10) @ [''0123456789'' ! (n mod 10)]"

definition to_upper :: "string \<Rightarrow> string" where
  "to_upper = map (\<lambda>c. if CHR ''a'' \<le> c \<and> c \<le> CHR ''z'' then char_of (of_char c - 32 :: nat) else c)"

definition generateCode ::
  "(string \<Rightarrow> byte list option) \<Rightarrow> (byte list \<Rightarrow> byte list \<Rightarrow> byte list) \<Rightarrow> string \<Rightarrow> 64 word \<Rightarrow> string option"
where
  "generateCode decode mac base32Secret counter =
    (case decode (to_upper (trim_space base32Secret)) of
       None \<Rightarrow> None
     | Some key \<Rightarrow>
         (let sum = mac key (be_bytes counter);
              offset = unat (last sum AND 0x0f);
              b = (\<lambda>k. ucast (sum ! (offset + k)) :: 32 word);
              bin = push_bit 24 (b 0 AND 0x7f) OR push_bit 16 (b 1 AND 0xff) OR
                    push_bit 8 (b 2 AND 0xff) OR (b 3 AND 0xff)
          in Some (pad_digits totp_digits (unat (bin mod 1000000)))))"

text \<open>The loop over the skew: the first counter that matches.\<close>

fun totp_match :: "(64 word \<Rightarrow> string option) \<Rightarrow> string \<Rightarrow> int list \<Rightarrow> int option" where
  "totp_match gen code [] = None"
| "totp_match gen code (c # cs) =
    (if c < 0 then totp_match gen code cs
     else (case gen (word_of_int c) of
             None \<Rightarrow> None
           | Some expected \<Rightarrow> if expected = code then Some c else totp_match gen code cs))"

definition totp_Validate ::
  "(string \<Rightarrow> byte list option) \<Rightarrow> (byte list \<Rightarrow> byte list \<Rightarrow> byte list) \<Rightarrow> string \<Rightarrow> string \<Rightarrow> int \<Rightarrow> int option"
where
  "totp_Validate decode mac base32Secret code t =
    (let code1 = trim_space code; step = (if t < 0 then - (- t div totp_period) else t div totp_period)
     in if length code1 \<noteq> totp_digits then None
        else totp_match (generateCode decode mac base32Secret) code1 [step - 1, step, step + 1])"

lemma length_pad_digits [simp]: "length (pad_digits w n) = w"
  by (induction w n rule: pad_digits.induct) auto

lemma pad_digits_digits: "set (pad_digits w n) \<subseteq> set ''0123456789''"
proof (induction w n rule: pad_digits.induct)
  case (2 w n)
  have "''0123456789'' ! (n mod 10) \<in> set ''0123456789''" by (rule nth_mem) simp
  with 2 show ?case by auto
qed simp

lemma totp_match_Some: "totp_match gen code cs = Some c \<Longrightarrow> c \<in> set cs \<and> 0 \<le> c \<and> gen (word_of_int c) = Some code"
  by (induction cs) (auto split: if_splits option.splits)

lemma totp_match_complete:
  "c \<in> set cs \<Longrightarrow> 0 \<le> c \<Longrightarrow> gen (word_of_int c) = Some code \<Longrightarrow> (\<And>w. gen w \<noteq> None) \<Longrightarrow>
    totp_match gen code cs \<noteq> None"
proof (induction cs)
  case (Cons a cs)
  obtain y where "gen (word_of_int a) = Some y" using Cons.prems(4) by auto
  with Cons show ?case by auto
qed simp

lemma recovery_alphabet: "length recoveryAlphabet = 32" "distinct recoveryAlphabet"
  by (simp_all add: recoveryAlphabet_def)

lemma residues_256:
  assumes "k < 32"
  shows "length (filter (\<lambda>n. n mod 32 = k) [0..<256]) = (8::nat)"
proof -
  have "length (filter (\<lambda>n. n mod 32 = k) [0..<256]) = card {n. n < 256 \<and> n mod 32 = k}"
    by (auto simp: length_filter_conv_card intro: arg_cong [where f = card])
  also have "{n. n < 256 \<and> n mod 32 = k} = (\<lambda>q. 32 * q + k) ` {0..<8}"
  proof (rule set_eqI, rule iffI)
    fix n assume n: "n \<in> {n. n < 256 \<and> n mod 32 = k}"
    then have "n = 32 * (n div 32) + k" "n div 32 < 8" by auto
    then show "n \<in> (\<lambda>q. 32 * q + k) ` {0..<8}" by auto
  qed (use assms in auto)
  also have "card ((\<lambda>q. 32 * q + k) ` {0..<8::nat}) = 8"
    by (subst card_image) (auto simp: inj_on_def)
  finally show ?thesis .
qed

section \<open>Properties\<close>

text \<open>
  A redemption of a push approval in any run of operations comes after an approving
  decision for that challenge, and no earlier operation has redeemed it, as long as the ID
  is not issued again in between.
\<close>

theorem push_redeemed_after_approval:
  assumes "fst (mfa_run ops m) = A @ (MConsume i, RConsumed (Inr u)) # B"
    and "\<forall>ev\<in>set A. \<not> creates i ev" "push_state_of m i = Undecided"
  shows "(\<forall>ev\<in>set A. \<not> spends i ev) \<and>
    (\<exists>d. (MResolve i d True, RResolved PushApproved None) \<in> set A)"
proof -
  have "push_trace i (push_state_of m i) (A @ (MConsume i, RConsumed (Inr u)) # B)
      (push_state_of (snd (mfa_run ops m)) i)"
    using run_push_trace [of i m ops] assms(1) by simp
  then obtain q r where "push_trace i (push_state_of m i) A q" "push_step i q (MConsume i, RConsumed (Inr u)) r"
    by (blast dest: trace_append elim: push_trace.cases)
  moreover from this(2) obtain d where "q = Approved d" by (auto elim: push_step_spend)
  ultimately show ?thesis using trace_approved [of i _ A q d] assms(2,3) by auto
qed

text \<open>
  Between two issues of a challenge ID, at most five second-factor attempts are
  recorded as tolerated and at most one one-time code is accepted, whatever operations run
  and in whatever order.
\<close>

theorem challenge_attempts_bounded:
  assumes "\<forall>ev\<in>set (fst (mfa_run ops m)). \<not> creates i ev" "attempts_of m i = 0"
  shows "length (filter (attempt_ok i) (fst (mfa_run ops m))) \<le> 5 \<and>
    length (filter (totp_ok i) (fst (mfa_run ops m))) \<le> 1"
  using run_counters [OF assms(1)] assms(2) by (auto simp: MaxTOTPAttempts_def split: if_splits)

text \<open>
  The first decision of a push challenge stands: while the challenge lives, every later
  decision is refused with the first one, and changes nothing.
\<close>

theorem first_decision_wins:
  assumes "mfa_ResolvePush now i d b m = ((w, None), m')" "now \<le> t"
    and "t \<le> ch_ExpiresAt (the (map_of m i))"
  shows "mfa_ResolvePush t i d' b' m' = ((w, Some ErrChallengeAlreadyResolved), m') \<and>
    w = (if b then PushApproved else PushDenied) \<and> fst (mfa_PushStatus t i m') = Some w"
proof -
  obtain ch where ch: "map_of m i = Some ch" "w = (if b then PushApproved else PushDenied)"
    and m': "m' = AList.update i (ch\<lparr>ch_PushStatus := w, ch_RespondedBy := d\<rparr>) m"
    using assms(1) by (auto simp: mfa_ResolvePush_def live_def Let_def split: option.splits if_splits)
  have l: "live m' t i = Some (ch\<lparr>ch_PushStatus := w, ch_RespondedBy := d\<rparr>)"
    using assms(3) ch(1) by (simp add: live_def m' update_conv')
  show ?thesis using ch(2) push_words by (auto simp: mfa_ResolvePush_def mfa_PushStatus_def l)
qed

text \<open>
  The letters of recovery codes are unbiased: each of the 32 letters of the alphabet
  comes from exactly eight of the 256 byte values, and a code is twelve of them in three
  groups.
\<close>

theorem recovery_codes_unbiased:
  "(\<forall>c\<in>set recoveryAlphabet. length (filter (\<lambda>n. recovery_char (word_of_nat n) = c) [0..<256]) = 8) \<and>
   (length raw = 12 \<longrightarrow> length (recovery_code raw) = 14 \<and>
      recovery_code raw ! 4 = CHR ''-'' \<and> recovery_code raw ! 9 = CHR ''-'')"
proof
  have "recovery_char (word_of_nat n) = recoveryAlphabet ! (n mod 32)" if "n \<in> set [0..<256]" for n
  proof -
    have "unat (word_of_nat n :: byte) = n" using that by (simp add: unat_of_nat)
    then show ?thesis by (simp add: recovery_char_def recoveryAlphabet_def)
  qed
  then have eq: "filter (\<lambda>n. recovery_char (word_of_nat n) = c) [0..<256] =
      filter (\<lambda>n. recoveryAlphabet ! (n mod 32) = c) [0..<256]" for c
    by (intro filter_cong) simp_all
  show "\<forall>c\<in>set recoveryAlphabet. length (filter (\<lambda>n. recovery_char (word_of_nat n) = c) [0..<256]) = 8"
  proof
    fix c assume "c \<in> set recoveryAlphabet"
    then obtain k where k: "k < 32" "c = recoveryAlphabet ! k"
      using recovery_alphabet(1) by (auto simp: in_set_conv_nth)
    have "recoveryAlphabet ! (n mod 32) = c \<longleftrightarrow> n mod 32 = k" for n
      using recovery_alphabet k by (simp add: nth_eq_iff_index_eq)
    then show "length (filter (\<lambda>n. recovery_char (word_of_nat n) = c) [0..<256]) = 8"
      unfolding eq using residues_256 [OF k(1)] by simp
  qed
next
  show "length raw = 12 \<longrightarrow> length (recovery_code raw) = 14 \<and>
      recovery_code raw ! 4 = CHR ''-'' \<and> recovery_code raw ! 9 = CHR ''-''"
    by (auto simp: recovery_code_def Let_def nth_append)
qed

text \<open>
  Validate accepts a code exactly when, without surrounding blanks, it is the six-digit
  code of the current 30-second step or of one of its two neighbours, and gives that step.
\<close>

theorem totp_Validate_window:
  assumes "0 \<le> t"
  shows "(totp_Validate decode mac secret code t = Some c \<longrightarrow>
      c \<in> {t div 30 - 1, t div 30, t div 30 + 1} \<and> 0 \<le> c \<and>
      generateCode decode mac secret (word_of_int c) = Some (trim_space code)) \<and>
    (c \<in> {t div 30 - 1, t div 30, t div 30 + 1} \<and> 0 \<le> c \<and>
      generateCode decode mac secret (word_of_int c) = Some (trim_space code) \<longrightarrow>
      totp_Validate decode mac secret code t \<noteq> None)"
proof -
  let ?gen = "generateCode decode mac secret"
  have six: "length code' = 6" if "?gen w = Some code'" for w code'
    using that by (auto simp: generateCode_def Let_def totp_digits_def split: option.splits)
  have dec: "?gen w \<noteq> None" if "?gen w' \<noteq> None" for w w'
    using that by (auto simp: generateCode_def Let_def split: option.splits)
  let ?cs = "[t div 30 - 1, t div 30, t div 30 + 1]"
  have v: "totp_Validate decode mac secret code t =
      (if length (trim_space code) \<noteq> 6 then None else totp_match ?gen (trim_space code) ?cs)"
    using assms by (simp add: totp_Validate_def Let_def totp_period_def totp_digits_def)
  have 1: "c \<in> set ?cs \<and> 0 \<le> c \<and> ?gen (word_of_int c) = Some (trim_space code)"
    if "totp_Validate decode mac secret code t = Some c"
    using that totp_match_Some [of ?gen "trim_space code" ?cs c] unfolding v
    by (simp del: totp_match.simps split: if_splits)
  have 2: "totp_Validate decode mac secret code t \<noteq> None"
    if "c \<in> set ?cs" "0 \<le> c" "?gen (word_of_int c) = Some (trim_space code)"
  proof -
    have "?gen w \<noteq> None" for w by (rule dec [of "word_of_int c"]) (simp add: that(3))
    with totp_match_complete [of c ?cs ?gen "trim_space code"] that
    have "totp_match ?gen (trim_space code) ?cs \<noteq> None" by blast
    with six [OF that(3)] show ?thesis unfolding v by (simp del: totp_match.simps)
  qed
  show ?thesis using 1 2 by auto
qed

section \<open>Worked examples\<close>

definition sample_challenge :: challenge where
  "sample_challenge = \<lparr>ch_ID = ''c'', ch_UserID = ''u'', ch_CreatedAt = 0, ch_ExpiresAt = challengeTTL,
     ch_TOTPAttempts = 0, ch_UsedTOTPStep = 0, ch_PushStatus = '''', ch_RespondedBy = ''''\<rparr>"

theorem push_redeemed_after_approval_witness:
  "\<exists>d. (MResolve ''c'' d True, RResolved PushApproved None) \<in>
     set [(MResolve ''c'' ''phone'' True, RResolved PushApproved None)]"
proof -
  have run: "fst (mfa_run [(1, MResolve ''c'' ''phone'' True), (2, MConsume ''c'')] [(''c'', sample_challenge)]) =
      [(MResolve ''c'' ''phone'' True, RResolved PushApproved None)] @ (MConsume ''c'', RConsumed (Inr ''u'')) # []"
    by (simp add: mfa_ResolvePush_def mfa_ConsumePushApproval_def live_def sample_challenge_def Let_def
        challengeTTL_def push_words PushApproved_def PushDenied_def)
  have "push_state_of [(''c'', sample_challenge)] ''c'' = Undecided"
    by (simp add: push_state_of_def sample_challenge_def push_words PushApproved_def PushDenied_def)
  from push_redeemed_after_approval [OF run _ this] show ?thesis by simp
qed

theorem challenge_attempts_bounded_witness:
  "length (filter (attempt_ok ''c'') (fst (mfa_run (replicate 7 (1, MAttempt ''c'')) [(''c'', sample_challenge)]))) \<le> 5"
proof -
  have "\<forall>ev\<in>set (fst (mfa_run (replicate n (1, MAttempt ''c'')) m)). \<not> creates ''c'' ev" for n m
  proof (induction n arbitrary: m)
    case (Suc n)
    have "\<not> creates ''c'' (MAttempt ''c'', fst (map_prod RError id p))" for p :: "mfa_error option \<times> challenges"
      by (cases p) simp
    with Suc [of "snd (mfa_exec 1 (MAttempt ''c'') m)"] show ?case by (simp add: case_prod_beta)
  qed simp
  from challenge_attempts_bounded [OF this] show ?thesis by (simp add: attempts_of_def sample_challenge_def)
qed

theorem first_decision_wins_witness:
  "fst (mfa_ResolvePush 3 ''c'' ''other'' False
      (snd (mfa_ResolvePush 1 ''c'' ''phone'' True [(''c'', sample_challenge)]))) =
    (PushApproved, Some ErrChallengeAlreadyResolved)"
proof -
  obtain m' where r: "mfa_ResolvePush 1 ''c'' ''phone'' True [(''c'', sample_challenge)] = ((PushApproved, None), m')"
    by (simp add: mfa_ResolvePush_def live_def sample_challenge_def challengeTTL_def PushApproved_def
        PushDenied_def Let_def)
  have "3 \<le> ch_ExpiresAt (the (map_of [(''c'', sample_challenge)] ''c''))"
    by (simp add: sample_challenge_def challengeTTL_def)
  with first_decision_wins [OF r, of 3 "''other''" False] show ?thesis by (simp add: r)
qed

theorem totp_Validate_window_witness:
  "totp_Validate (\<lambda>_. Some []) (\<lambda>_ _. replicate 20 0) ''s'' ''000000'' 90 \<noteq> None"
proof -
  have "generateCode (\<lambda>_. Some []) (\<lambda>_ _. replicate 20 0) ''s'' (word_of_int 3) = Some (trim_space ''000000'')"
    by code_simp
  with totp_Validate_window [of 90 "\<lambda>_. Some []" "\<lambda>_ _. replicate 20 0" "''s''" "''000000''" 3]
  show ?thesis by simp
qed

theorem recovery_codes_unbiased_witness:
  "recovery_code (replicate 12 7) ! 4 = CHR ''-'' \<and>
   length (filter (\<lambda>n. recovery_char (word_of_nat n) = CHR ''b'') [0..<256]) = 8"
  using recovery_codes_unbiased [of "replicate 12 7"] by (simp add: recoveryAlphabet_def del: upt_conv_Cons)

end
