(* ===== verification/State_Store.thy ===== *)
theory State_Store
  imports Fsutil "HOL-Library.AList"
begin

text \<open>
  The per-user state of the daemon and the API server (backend/internal/state/store.go):
  state.json (checkpoint, processed messages, notification subscriptions, native devices,
  the App Pull queue, pairing codes and attempts, one-shot flags) and decisions.json. A Go
  map is an association list with one entry for each key; times in memory are nanoseconds,
  in the file RFC 3339 strings. A method reads the clock once.
\<close>

section \<open>Data\<close>

record decision =
  d_MessageID :: string
  d_Sender :: string
  d_SentTo :: string
  d_Subject :: string
  d_Label :: string
  d_Status :: string
  d_Detail :: string
  d_AtUTC :: string

record subscription =
  su_Endpoint :: string
  su_Auth :: string
  su_P256DH :: string
  su_UserAgent :: string
  su_UpdatedAt :: string

record native_device =
  nd_DeviceID :: string
  nd_Platform :: string
  nd_PushToken :: string
  nd_DeviceName :: string
  nd_AppVersion :: string
  nd_UserAgent :: string
  nd_RegisteredAt :: string
  nd_UpdatedAt :: string
  nd_UserID :: string
  nd_MFAApprover :: bool
  nd_Transport :: string
  nd_SecretHash :: string

definition Redacted :: "native_device \<Rightarrow> native_device" where
  "Redacted d = d\<lparr>nd_SecretHash := ''''\<rparr>"

record pull_notification =
  pn_Seq :: int
  pn_Title :: string
  pn_Body :: string
  pn_Data :: "(string \<times> string) list"
  pn_CreatedAt :: string

record pairing_attempt =
  pa_Code :: string
  pa_AttemptAt :: string
  pa_Success :: bool

record state_store =
  st_checkpoint :: string
  st_processed :: "(string \<times> int) list"
  st_decisions :: "decision list"
  st_notifications :: "subscription list"
  st_notificationsDirty :: bool
  st_nativeDevices :: "native_device list"
  st_nativeDevicesDirty :: bool
  st_subscriberID :: string
  st_deliveryMode :: string
  st_pull :: "pull_notification list"
  st_pullSeq :: int
  st_pullDirty :: bool
  st_aiExhausted :: bool
  st_aiExhaustedAt :: string
  st_ollamaNotified :: string
  st_codes :: "(string \<times> string) list"
  st_codesDirty :: bool
  st_attempts :: "pairing_attempt list"
  st_attemptsDirty :: bool

record state_file =
  sf_LastCheckpoint :: string
  sf_Processed :: "(string \<times> string) list"
  sf_Notifications :: "subscription list"
  sf_NativeDevices :: "native_device list"
  sf_SubscriberID :: string
  sf_DeliveryMode :: string
  sf_Pull :: "pull_notification list"
  sf_PullSeq :: int
  sf_AIExhausted :: bool
  sf_AIExhaustedAt :: string
  sf_OllamaNotified :: string
  sf_Codes :: "(string \<times> string) list"
  sf_Attempts :: "pairing_attempt list"

record state_world =
  sw_mem :: state_store
  sw_state :: "state_file json_file"
  sw_decisions :: "decision list json_file"

definition DeliveryModePush :: string where "DeliveryModePush = ''push''"
definition DeliveryModePull :: string where "DeliveryModePull = ''pull''"
definition maxPullNotifications :: nat where "maxPullNotifications = 100"

definition normalizeDeliveryMode :: "string \<Rightarrow> string" where
  "normalizeDeliveryMode mode =
    (if equal_fold (trim_space mode) DeliveryModePull then DeliveryModePull else DeliveryModePush)"

section \<open>Loading and saving\<close>

definition parse_after :: "go_env \<Rightarrow> int \<Rightarrow> string \<Rightarrow> bool" where
  "parse_after e t str = (case env_parse e str of None \<Rightarrow> False | Some u \<Rightarrow> t < u)"

definition applyStateFile :: "go_env \<Rightarrow> state_file \<Rightarrow> state_store \<Rightarrow> state_store" where
  "applyStateFile e sf s =
    (let codes = filter (\<lambda>(_, x). parse_after e (env_now e) x) (sf_Codes sf);
         attempts = filter (\<lambda>a. parse_after e (env_now e - 24 * hour) (pa_AttemptAt a)) (sf_Attempts sf)
     in s\<lparr>st_checkpoint := sf_LastCheckpoint sf,
          st_aiExhausted := sf_AIExhausted sf,
          st_aiExhaustedAt := sf_AIExhaustedAt sf,
          st_ollamaNotified := sf_OllamaNotified sf,
          st_subscriberID := trim_space (sf_SubscriberID sf),
          st_notifications := sf_Notifications sf, st_notificationsDirty := False,
          st_nativeDevices := sf_NativeDevices sf, st_nativeDevicesDirty := False,
          st_deliveryMode := normalizeDeliveryMode (sf_DeliveryMode sf),
          st_pull := sf_Pull sf, st_pullSeq := sf_PullSeq sf, st_pullDirty := False,
          st_processed := List.map_filter (\<lambda>(i, x). map_option (\<lambda>t. (i, t)) (env_parse e x)) (sf_Processed sf),
          st_codes := codes, st_codesDirty := length codes < length (sf_Codes sf),
          st_attempts := attempts, st_attemptsDirty := length attempts < length (sf_Attempts sf)\<rparr>)"

text \<open>
  \<open>refresh_with app\<close>: read state.json and take over what \<open>app\<close> takes; a missing file is no
  error. The whole state and its three parts are refreshed this way.
\<close>

definition refresh_with ::
  "(state_file \<Rightarrow> state_store \<Rightarrow> state_store) \<Rightarrow> state_world \<Rightarrow> io_error option \<times> state_world" where
  "refresh_with app w =
    (case sw_state w of
       Missing \<Rightarrow> (None, w)
     | Unreadable \<Rightarrow> (Some IoRead, w)
     | Malformed \<Rightarrow> (Some BadJson, w)
     | Json sf \<Rightarrow> (None, w\<lparr>sw_mem := app sf (sw_mem w)\<rparr>))"

definition refreshState :: "go_env \<Rightarrow> state_world \<Rightarrow> io_error option \<times> state_world" where
  "refreshState e = refresh_with (applyStateFile e)"

definition refreshNotifications :: "state_world \<Rightarrow> io_error option \<times> state_world" where
  "refreshNotifications =
    refresh_with (\<lambda>sf s. s\<lparr>st_notifications := sf_Notifications sf, st_notificationsDirty := False\<rparr>)"

definition refreshNativeDevices :: "state_world \<Rightarrow> io_error option \<times> state_world" where
  "refreshNativeDevices =
    refresh_with (\<lambda>sf s. s\<lparr>st_nativeDevices := sf_NativeDevices sf, st_nativeDevicesDirty := False\<rparr>)"

definition refreshPull :: "state_world \<Rightarrow> io_error option \<times> state_world" where
  "refreshPull =
    refresh_with (\<lambda>sf s. s\<lparr>st_deliveryMode := normalizeDeliveryMode (sf_DeliveryMode sf),
      st_pull := sf_Pull sf, st_pullSeq := sf_PullSeq sf, st_pullDirty := False\<rparr>)"

definition state_file_of :: "go_env \<Rightarrow> state_store \<Rightarrow> state_file" where
  "state_file_of e s =
    \<lparr>sf_LastCheckpoint = st_checkpoint s,
     sf_Processed = map (\<lambda>(i, t). (i, env_format e t)) (st_processed s),
     sf_Notifications = st_notifications s, sf_NativeDevices = st_nativeDevices s,
     sf_SubscriberID = st_subscriberID s, sf_DeliveryMode = st_deliveryMode s,
     sf_Pull = st_pull s, sf_PullSeq = st_pullSeq s,
     sf_AIExhausted = st_aiExhausted s, sf_AIExhaustedAt = st_aiExhaustedAt s,
     sf_OllamaNotified = st_ollamaNotified s, sf_Codes = st_codes s, sf_Attempts = st_attempts s\<rparr>"

definition unless_dirty ::
  "(state_store \<Rightarrow> bool) \<Rightarrow> (state_world \<Rightarrow> io_error option \<times> state_world) \<Rightarrow>
   state_world \<Rightarrow> io_error option \<times> state_world" where
  "unless_dirty dirty refresh w = (if dirty (sw_mem w) then (None, w) else refresh w)"

text \<open>Steps that stop at the first error.\<close>

definition then_io :: "io_error option \<times> 'w \<Rightarrow> ('w \<Rightarrow> io_error option \<times> 'w) \<Rightarrow> io_error option \<times> 'w" where
  "then_io r k = (case r of (Some err, w) \<Rightarrow> (Some err, w) | (None, w) \<Rightarrow> k w)"

definition persistState :: "go_env \<Rightarrow> state_world \<Rightarrow> io_error option \<times> state_world" where
  "persistState e w =
    then_io (unless_dirty st_notificationsDirty refreshNotifications w) (\<lambda>w1.
    then_io (unless_dirty st_nativeDevicesDirty refreshNativeDevices w1) (\<lambda>w2.
    then_io (unless_dirty st_pullDirty refreshPull w2) (\<lambda>w3.
      if env_write_ok e
      then (None, w3\<lparr>sw_state := Json (state_file_of e (sw_mem w3)),
                     sw_mem := (sw_mem w3)\<lparr>st_notificationsDirty := False,
                                 st_nativeDevicesDirty := False, st_pullDirty := False\<rparr>\<rparr>)
      else (Some IoWrite, w3))))"

definition persistDecisions :: "go_env \<Rightarrow> state_world \<Rightarrow> io_error option \<times> state_world" where
  "persistDecisions e w =
    (if env_write_ok e then (None, w\<lparr>sw_decisions := Json (st_decisions (sw_mem w))\<rparr>)
     else (Some IoWrite, w))"

definition state_empty :: state_store where
  "state_empty =
    \<lparr>st_checkpoint = '''', st_processed = [], st_decisions = [], st_notifications = [],
     st_notificationsDirty = False, st_nativeDevices = [], st_nativeDevicesDirty = False,
     st_subscriberID = '''', st_deliveryMode = '''', st_pull = [], st_pullSeq = 0, st_pullDirty = False,
     st_aiExhausted = False, st_aiExhaustedAt = '''', st_ollamaNotified = '''', st_codes = [],
     st_codesDirty = False, st_attempts = [], st_attemptsDirty = False\<rparr>"

definition state_load :: "go_env \<Rightarrow> state_world \<Rightarrow> io_error option \<times> state_world" where
  "state_load e w = (case sw_state w of Missing \<Rightarrow> persistState e w | _ \<Rightarrow> refreshState e w)"

definition loadDecisions :: "go_env \<Rightarrow> state_world \<Rightarrow> io_error option \<times> state_world" where
  "loadDecisions e w =
    (case sw_decisions w of
       Missing \<Rightarrow> persistDecisions e w
     | Unreadable \<Rightarrow> (Some IoRead, w)
     | Malformed \<Rightarrow> (Some BadJson, w)
     | Json d \<Rightarrow> (None, w\<lparr>sw_mem := (sw_mem w)\<lparr>st_decisions := d\<rparr>\<rparr>))"

definition state_New ::
  "go_env \<Rightarrow> state_file json_file \<Rightarrow> decision list json_file \<Rightarrow> io_error option \<times> state_world" where
  "state_New e f g =
    then_io (state_load e \<lparr>sw_mem = state_empty, sw_state = f, sw_decisions = g\<rparr>) (loadDecisions e)"

section \<open>The operations\<close>

text \<open>
  A mutating method: refresh, change the memory, persist. \<open>body\<close> gives the value to return,
  the value to return next to a write error, the new memory and whether to persist. Go
  returns the value and the error side by side; so does the model.
\<close>

definition st_transact ::
  "go_env \<Rightarrow> 'a \<Rightarrow> (state_store \<Rightarrow> 'a \<times> 'a \<times> state_store \<times> bool) \<Rightarrow> state_world \<Rightarrow>
   ('a \<times> io_error option) \<times> state_world" where
  "st_transact e zero body w =
    (case refreshState e w of
       (Some err, w1) \<Rightarrow> ((zero, Some err), w1)
     | (None, w1) \<Rightarrow>
        (case body (sw_mem w1) of (v, v_err, s', persist) \<Rightarrow>
           if persist then
             (case persistState e (w1\<lparr>sw_mem := s'\<rparr>) of
                (Some err, w2) \<Rightarrow> ((v_err, Some err), w2)
              | (None, w2) \<Rightarrow> ((v, None), w2))
           else ((v, None), w1\<lparr>sw_mem := s'\<rparr>)))"

definition Cleanup :: "go_env \<Rightarrow> int \<Rightarrow> state_world \<Rightarrow> io_error option \<times> state_world" where
  "Cleanup e keepDays w =
    then_io (refreshState e w) (\<lambda>w1.
      let cutoff = env_now e - keepDays * (24 * hour); s = sw_mem w1;
          s1 = s\<lparr>st_processed := filter (\<lambda>(_, t). \<not> t < cutoff) (st_processed s),
                 st_decisions := filter (\<lambda>d. case env_parse e (d_AtUTC d) of
                    None \<Rightarrow> True | Some t \<Rightarrow> \<not> t < cutoff) (st_decisions s)\<rparr>
      in then_io (persistDecisions e (w1\<lparr>sw_mem := s1\<rparr>)) (persistState e))"

definition Seen :: "string \<Rightarrow> state_world \<Rightarrow> bool" where
  "Seen i w = (map_of (st_processed (sw_mem w)) i \<noteq> None)"

definition MarkProcessed :: "go_env \<Rightarrow> string \<Rightarrow> state_world \<Rightarrow> (unit \<times> io_error option) \<times> state_world"
where
  "MarkProcessed e i = st_transact e ()
    (\<lambda>s. ((), (), s\<lparr>st_processed := AList.update i (env_now e) (st_processed s)\<rparr>, True))"

definition SetCheckpoint :: "go_env \<Rightarrow> string \<Rightarrow> state_world \<Rightarrow> (unit \<times> io_error option) \<times> state_world"
where
  "SetCheckpoint e value = st_transact e () (\<lambda>s. ((), (), s\<lparr>st_checkpoint := value\<rparr>, True))"

definition Checkpoint :: "state_world \<Rightarrow> string" where
  "Checkpoint w = st_checkpoint (sw_mem w)"

definition GetOrCreateSubscriberID ::
  "go_env \<Rightarrow> state_world \<Rightarrow> (string \<times> io_error option) \<times> state_world" where
  "GetOrCreateSubscriberID e w =
    (case refreshState e w of
       (Some err, w1) \<Rightarrow> (('''', Some err), w1)
     | (None, w1) \<Rightarrow>
        if st_subscriberID (sw_mem w1) \<noteq> '''' then ((st_subscriberID (sw_mem w1), None), w1)
        else
          (case NewUUIDv4 (env_rand e) of
             Inl err \<Rightarrow> (('''', Some err), w1)
           | Inr i \<Rightarrow>
              (case persistState e (w1\<lparr>sw_mem := (sw_mem w1)\<lparr>st_subscriberID := i\<rparr>\<rparr>) of
                 (Some err, w2) \<Rightarrow> (('''', Some err), w2)
               | (None, w2) \<Rightarrow> ((st_subscriberID (sw_mem w2), None), w2))))"

definition NativeDeliveryMode :: "state_world \<Rightarrow> string \<times> state_world" where
  "NativeDeliveryMode w =
    (case refreshPull w of (_, w1) \<Rightarrow> (normalizeDeliveryMode (st_deliveryMode (sw_mem w1)), w1))"

definition SetNativeDeliveryMode ::
  "go_env \<Rightarrow> string \<Rightarrow> state_world \<Rightarrow> (unit \<times> io_error option) \<times> state_world" where
  "SetNativeDeliveryMode e mode = st_transact e ()
    (\<lambda>s. ((), (), s\<lparr>st_deliveryMode := normalizeDeliveryMode mode, st_pullDirty := True\<rparr>, True))"

definition enqueue_pull :: "go_env \<Rightarrow> pull_notification \<Rightarrow> state_store \<Rightarrow> state_store" where
  "enqueue_pull e n s =
    (let sq = st_pullSeq s + 1;
         n1 = n\<lparr>pn_Seq := sq, pn_CreatedAt := (if trim_space (pn_CreatedAt n) = '''' then stamp e
                                              else pn_CreatedAt n)\<rparr>
     in s\<lparr>st_pullSeq := sq, st_pull := keep_last maxPullNotifications (st_pull s @ [n1]),
          st_pullDirty := True\<rparr>)"

definition EnqueuePullNotification ::
  "go_env \<Rightarrow> pull_notification \<Rightarrow> state_world \<Rightarrow> (unit \<times> io_error option) \<times> state_world" where
  "EnqueuePullNotification e n = st_transact e () (\<lambda>s. ((), (), enqueue_pull e n s, True))"

definition PullNotificationsAfter ::
  "int \<Rightarrow> state_world \<Rightarrow> (pull_notification list \<times> int) \<times> state_world" where
  "PullNotificationsAfter after w =
    (case refreshPull w of
       (_, w1) \<Rightarrow> ((filter (\<lambda>n. pn_Seq n > after) (st_pull (sw_mem w1)), st_pullSeq (sw_mem w1)), w1))"

definition AddDecision :: "go_env \<Rightarrow> decision \<Rightarrow> state_world \<Rightarrow> io_error option \<times> state_world" where
  "AddDecision e d w =
    (let d1 = (if d_AtUTC d = '''' then d\<lparr>d_AtUTC := stamp e\<rparr> else d);
         s = sw_mem w
     in persistDecisions e (w\<lparr>sw_mem := s\<lparr>st_decisions := st_decisions s @ [d1]\<rparr>\<rparr>))"

text \<open>\<open>sort.SliceStable\<close> by falling AtUTC: the stable sort by the reversed key.\<close>

definition decisions_desc :: "decision list \<Rightarrow> decision list" where
  "decisions_desc ds = rev (sort_key d_AtUTC (rev ds))"

definition Decisions :: "int \<Rightarrow> state_world \<Rightarrow> decision list" where
  "Decisions limit w =
    (let out = decisions_desc (st_decisions (sw_mem w))
     in if limit > 0 \<and> int (length out) > limit then take (nat limit) out else out)"

definition ProcessedSince :: "int \<Rightarrow> state_world \<Rightarrow> nat" where
  "ProcessedSince since w = length (filter (\<lambda>(_, t). \<not> t < since) (st_processed (sw_mem w)))"

subsection \<open>Subscriptions and devices\<close>

definition ListNotificationSubscriptions :: "state_world \<Rightarrow> subscription list \<times> state_world" where
  "ListNotificationSubscriptions w =
    (case refreshNotifications w of (_, w1) \<Rightarrow> (st_notifications (sw_mem w1), w1))"

definition UpsertNotificationSubscription ::
  "go_env \<Rightarrow> subscription \<Rightarrow> state_world \<Rightarrow> (unit \<times> io_error option) \<times> state_world" where
  "UpsertNotificationSubscription e sub = st_transact e ()
    (\<lambda>s. ((), (),
       s\<lparr>st_notifications :=
           (case List.find (\<lambda>x. su_Endpoint x = su_Endpoint sub) (st_notifications s) of
              Some _ \<Rightarrow> replace_first (\<lambda>x. su_Endpoint x = su_Endpoint sub) (\<lambda>_. sub) (st_notifications s)
            | None \<Rightarrow> st_notifications s @ [sub]),
         st_notificationsDirty := True\<rparr>, True))"

definition RemoveNotificationSubscription ::
  "go_env \<Rightarrow> string \<Rightarrow> state_world \<Rightarrow> (bool \<times> io_error option) \<times> state_world" where
  "RemoveNotificationSubscription e endpoint = st_transact e False
    (\<lambda>s. case List.find (\<lambda>x. su_Endpoint x = endpoint) (st_notifications s) of
       None \<Rightarrow> (False, False, s, False)
     | Some _ \<Rightarrow> (True, False,
         s\<lparr>st_notifications := remove_first (\<lambda>x. su_Endpoint x = endpoint) (st_notifications s),
           st_notificationsDirty := True\<rparr>, True))"

definition ListNativeDevices :: "state_world \<Rightarrow> native_device list \<times> state_world" where
  "ListNativeDevices w = (case refreshNativeDevices w of (_, w1) \<Rightarrow> (st_nativeDevices (sw_mem w1), w1))"

text \<open>
  The device list after a registration; None when the ID cannot be generated. \<open>RegisteredAt\<close>
  is stamped before the known devices are searched, so the test for an empty value in the
  first loop never succeeds, as in the code.
\<close>

definition register_device ::
  "go_env \<Rightarrow> native_device \<Rightarrow> native_device list \<Rightarrow> io_error + native_device list" where
  "register_device e device0 devices =
    (let d1 = device0\<lparr>nd_DeviceID := trim_space (nd_DeviceID device0),
                      nd_Platform := to_lower (trim_space (nd_Platform device0)),
                      nd_PushToken := trim_space (nd_PushToken device0)\<rparr>
     in and_then (if nd_DeviceID d1 = '''' then NewUUIDv4 (env_rand e) else Inr (nd_DeviceID d1))
     (\<lambda>i.
       let now = stamp e;
           d2 = d1\<lparr>nd_DeviceID := i,
                   nd_RegisteredAt := (if trim_space (nd_RegisteredAt d1) = '''' then now
                                       else nd_RegisteredAt d1),
                   nd_UpdatedAt := now\<rparr>
       in Inr
         (case List.find (\<lambda>x. nd_DeviceID x = nd_DeviceID d2) devices of
            Some existing \<Rightarrow>
              replace_first (\<lambda>x. nd_DeviceID x = nd_DeviceID d2)
                (\<lambda>_. d2\<lparr>nd_RegisteredAt := (if nd_RegisteredAt d2 = '''' then nd_RegisteredAt existing
                                           else nd_RegisteredAt d2),
                       nd_MFAApprover := nd_MFAApprover existing\<rparr>) devices
          | None \<Rightarrow>
              (let same = (\<lambda>x. nd_PushToken x = nd_PushToken d2 \<and> nd_Platform x = nd_Platform d2)
               in case (if nd_PushToken d2 \<noteq> '''' then List.find same devices else None) of
                    Some existing \<Rightarrow>
                      replace_first same
                        (\<lambda>_. d2\<lparr>nd_DeviceID := nd_DeviceID existing,
                               nd_RegisteredAt := nd_RegisteredAt existing,
                               nd_MFAApprover := nd_MFAApprover existing\<rparr>) devices
                  | None \<Rightarrow> devices @ [d2]))))"

definition UpsertNativeDevice ::
  "go_env \<Rightarrow> native_device \<Rightarrow> state_world \<Rightarrow> (unit \<times> io_error option) \<times> state_world" where
  "UpsertNativeDevice e device w =
    (case refreshState e w of
       (Some err, w1) \<Rightarrow> (((), Some err), w1)
     | (None, w1) \<Rightarrow>
        (case register_device e device (st_nativeDevices (sw_mem w1)) of
           Inl err \<Rightarrow> (((), Some err), w1)
         | Inr ds \<Rightarrow>
            (case persistState e (w1\<lparr>sw_mem := (sw_mem w1)\<lparr>st_nativeDevices := ds,
                                                 st_nativeDevicesDirty := True\<rparr>\<rparr>) of
               (err, w2) \<Rightarrow> (((), err), w2))))"

definition RemoveNativeDevice ::
  "go_env \<Rightarrow> string \<Rightarrow> state_world \<Rightarrow> (bool \<times> io_error option) \<times> state_world" where
  "RemoveNativeDevice e deviceID = st_transact e False
    (\<lambda>s. let i = trim_space deviceID in
       if i = '''' then (False, False, s, False)
       else case List.find (\<lambda>d. nd_DeviceID d = i) (st_nativeDevices s) of
           None \<Rightarrow> (False, False, s, False)
         | Some _ \<Rightarrow> (True, False,
             s\<lparr>st_nativeDevices := remove_first (\<lambda>d. nd_DeviceID d = i) (st_nativeDevices s),
               st_nativeDevicesDirty := True\<rparr>, True))"

definition GetNativeDevice :: "string \<Rightarrow> state_world \<Rightarrow> native_device option \<times> state_world" where
  "GetNativeDevice deviceID w =
    (case refreshNativeDevices w of
       (_, w1) \<Rightarrow>
         (let i = trim_space deviceID in
          if i = '''' then None else List.find (\<lambda>d. nd_DeviceID d = i) (st_nativeDevices (sw_mem w1)), w1))"

definition SetNativeDeviceMFAApprover ::
  "go_env \<Rightarrow> string \<Rightarrow> bool \<Rightarrow> state_world \<Rightarrow> (bool \<times> io_error option) \<times> state_world" where
  "SetNativeDeviceMFAApprover e deviceID approver = st_transact e False
    (\<lambda>s. let i = trim_space deviceID in
       if i = '''' then (False, False, s, False)
       else case List.find (\<lambda>d. nd_DeviceID d = i) (st_nativeDevices s) of
           None \<Rightarrow> (False, False, s, False)
         | Some _ \<Rightarrow> (True, True,
             s\<lparr>st_nativeDevices := replace_first (\<lambda>d. nd_DeviceID d = i)
                 (\<lambda>d. d\<lparr>nd_MFAApprover := approver, nd_UpdatedAt := stamp e\<rparr>) (st_nativeDevices s),
               st_nativeDevicesDirty := True\<rparr>, True))"

subsection \<open>One-shot flags\<close>

definition SetAICreditsExhausted ::
  "go_env \<Rightarrow> string \<Rightarrow> state_world \<Rightarrow> (bool \<times> io_error option) \<times> state_world" where
  "SetAICreditsExhausted e atUTC = st_transact e False
    (\<lambda>s. if st_aiExhausted s then (False, False, s, False)
       else (True, True, s\<lparr>st_aiExhausted := True,
         st_aiExhaustedAt := (if trim_space atUTC = '''' then stamp e else atUTC)\<rparr>, True))"

definition ClearAICreditsExhausted ::
  "go_env \<Rightarrow> state_world \<Rightarrow> (bool \<times> io_error option) \<times> state_world" where
  "ClearAICreditsExhausted e = st_transact e False
    (\<lambda>s. if \<not> st_aiExhausted s then (False, False, s, False)
       else (True, True, s\<lparr>st_aiExhausted := False, st_aiExhaustedAt := ''''\<rparr>, True))"

definition AICreditsExhausted :: "state_world \<Rightarrow> bool \<times> string" where
  "AICreditsExhausted w = (st_aiExhausted (sw_mem w), st_aiExhaustedAt (sw_mem w))"

definition SetOllamaUpdateNotified ::
  "go_env \<Rightarrow> string \<Rightarrow> state_world \<Rightarrow> (bool \<times> io_error option) \<times> state_world" where
  "SetOllamaUpdateNotified e latestVersion = st_transact e False
    (\<lambda>s. let v = trim_space latestVersion in
       if v = '''' \<or> v = st_ollamaNotified s then (False, False, s, False)
       else (True, True, s\<lparr>st_ollamaNotified := v\<rparr>, True))"

subsection \<open>Desktop pairing\<close>

definition SetDesktopPairingCode ::
  "go_env \<Rightarrow> string \<Rightarrow> int \<Rightarrow> state_world \<Rightarrow> (unit \<times> io_error option) \<times> state_world" where
  "SetDesktopPairingCode e code ttl = st_transact e ()
    (\<lambda>s. let ttl1 = (if ttl \<le> 0 then 5 * minute else ttl) in
       ((), (), s\<lparr>st_codes := AList.update (trim_space code) (env_format e (env_now e + ttl1)) (st_codes s),
                 st_codesDirty := True\<rparr>, True))"

definition ValidateDesktopPairingCode :: "go_env \<Rightarrow> string \<Rightarrow> state_world \<Rightarrow> bool \<times> state_world" where
  "ValidateDesktopPairingCode e code w =
    (let s = sw_mem w; cleaned = trim_space code in
     case map_of (st_codes s) cleaned of
       None \<Rightarrow> (False, w)
     | Some str \<Rightarrow>
        (case env_parse e str of
           None \<Rightarrow> (False, w)
         | Some t \<Rightarrow>
             if env_now e > t then (False, w\<lparr>sw_mem := s\<lparr>st_codes := AList.delete cleaned (st_codes s)\<rparr>\<rparr>)
             else (True, w)))"

definition ConsumeDesktopPairingCode ::
  "go_env \<Rightarrow> string \<Rightarrow> state_world \<Rightarrow> (bool \<times> io_error option) \<times> state_world" where
  "ConsumeDesktopPairingCode e code = st_transact e False
    (\<lambda>s. let cleaned = trim_space code; s1 = s\<lparr>st_codes := AList.delete cleaned (st_codes s)\<rparr> in
       case map_of (st_codes s) cleaned of
         None \<Rightarrow> (False, False, s, False)
       | Some str \<Rightarrow>
          (case env_parse e str of
             None \<Rightarrow> (False, False, s1, False)
           | Some t \<Rightarrow>
               if env_now e > t then (False, False, s1, False)
               else (True, True, s1\<lparr>st_codesDirty := True\<rparr>, True)))"

definition maxFailedAttempts :: int where "maxFailedAttempts = 5"

definition failed_since :: "go_env \<Rightarrow> int \<Rightarrow> pairing_attempt list \<Rightarrow> int" where
  "failed_since e t as = int (length (filter (\<lambda>a. \<not> pa_Success a \<and> parse_after e t (pa_AttemptAt a)) as))"

definition CheckDesktopPairingRateLimit ::
  "go_env \<Rightarrow> state_world \<Rightarrow> (bool \<times> int \<times> io_error option) \<times> state_world" where
  "CheckDesktopPairingRateLimit e w =
    (case refreshState e w of
       (Some err, w1) \<Rightarrow> ((False, 0, Some err), w1)
     | (None, w1) \<Rightarrow>
        (let failed = failed_since e (env_now e - 1 * hour) (st_attempts (sw_mem w1))
         in ((failed < maxFailedAttempts, max 0 (maxFailedAttempts - failed), None), w1)))"

definition RecordDesktopPairingAttempt ::
  "go_env \<Rightarrow> string \<Rightarrow> bool \<Rightarrow> state_world \<Rightarrow> (unit \<times> io_error option) \<times> state_world" where
  "RecordDesktopPairingAttempt e code success = st_transact e ()
    (\<lambda>s. let a = \<lparr>pa_Code = trim_space code, pa_AttemptAt = stamp e, pa_Success = success\<rparr> in
       ((), (), s\<lparr>st_attempts := keep_last 100 (st_attempts s @ [a]), st_attemptsDirty := True\<rparr>, True))"

section \<open>What a transaction writes\<close>

text \<open>
  A part of the state that is not marked dirty is taken from the file when persisting. On a
  body that marks what it changes (or leaves the three parts alone), this is what was in
  memory, so the file holds the new memory.
\<close>

definition marks :: "state_file \<Rightarrow> state_store \<Rightarrow> bool" where
  "marks sf s \<longleftrightarrow>
    (st_notificationsDirty s \<or> st_notifications s = sf_Notifications sf) \<and>
    (st_nativeDevicesDirty s \<or> st_nativeDevices s = sf_NativeDevices sf) \<and>
    (st_pullDirty s \<or> st_deliveryMode s = normalizeDeliveryMode (sf_DeliveryMode sf) \<and>
       st_pull s = sf_Pull sf \<and> st_pullSeq s = sf_PullSeq sf)"

lemma persist_marked:
  assumes "sw_state w = Json sf" "marks sf (sw_mem w)" "env_write_ok e"
  shows "persistState e w = (None,
    w\<lparr>sw_state := Json (state_file_of e (sw_mem w)),
      sw_mem := (sw_mem w)\<lparr>st_notificationsDirty := False, st_nativeDevicesDirty := False,
        st_pullDirty := False\<rparr>\<rparr>)"
  using assms
  by (auto simp: persistState_def then_io_def unless_dirty_def refreshNotifications_def
      refreshNativeDevices_def refreshPull_def refresh_with_def marks_def state_file_of_def)

lemma persist_fails:
  assumes "sw_state w = Json sf" "\<not> env_write_ok e"
  shows "fst (persistState e w) = Some IoWrite" "sw_state (snd (persistState e w)) = Json sf"
  using assms
  by (auto simp: persistState_def then_io_def unless_dirty_def refreshNotifications_def
      refreshNativeDevices_def refreshPull_def refresh_with_def)

lemma refreshState_Json: "sw_state w = Json sf \<Longrightarrow>
    refreshState e w = (None, w\<lparr>sw_mem := applyStateFile e sf (sw_mem w)\<rparr>)"
  by (simp add: refreshState_def refresh_with_def)

lemma st_transact_written:
  assumes "st_transact e zero body w = ((v, None), w')" "sw_state w = Json sf"
    and "body (applyStateFile e sf (sw_mem w)) = (v0, v1, s', True)" "marks sf s'"
  shows "v = v0 \<and> env_write_ok e \<and> sw_state w' = Json (state_file_of e s')"
proof (cases "env_write_ok e")
  case True
  then show ?thesis
    using assms by (auto simp: st_transact_def refreshState_Json persist_marked)
next
  case False
  let ?w = "w\<lparr>sw_mem := s'\<rparr>"
  have s: "sw_state ?w = Json sf" using assms(2) by simp
  obtain w2 where "persistState e ?w = (Some IoWrite, w2)"
    using persist_fails(1) [OF s False] by (cases "persistState e ?w") auto
  then show ?thesis
    using assms by (simp add: st_transact_def refreshState_Json)
qed

lemma st_transact_quiet:
  assumes "sw_state w = Json sf" "body (applyStateFile e sf (sw_mem w)) = (v0, v1, s', False)"
  shows "fst (st_transact e zero body w) = (v0, None) \<and> sw_state (snd (st_transact e zero body w)) = Json sf"
  using assms by (simp add: st_transact_def refreshState_Json)

lemma marks_loaded: "marks sf (applyStateFile e sf s)"
  by (simp add: marks_def applyStateFile_def Let_def)

section \<open>The App Pull queue\<close>

lemma keep_last_append_keep:
  assumes "length ys \<le> n"
  shows "\<exists>zs. keep_last n (xs @ ys) = zs @ ys \<and> set zs \<subseteq> set xs"
proof (cases "n < length (xs @ ys)")
  case True
  then have "keep_last n (xs @ ys) = drop (length xs + length ys - n) xs @ ys"
    using assms by (simp add: keep_last_def)
  then show ?thesis by (auto dest: in_set_dropD)
next
  case False
  then show ?thesis by (simp add: keep_last_def)
qed

definition stamped :: "go_env \<Rightarrow> pull_notification \<Rightarrow> int \<Rightarrow> pull_notification" where
  "stamped e n sq = n\<lparr>pn_Seq := sq, pn_CreatedAt := (if trim_space (pn_CreatedAt n) = '''' then stamp e
                                                  else pn_CreatedAt n)\<rparr>"

lemma stamped_Seq [simp]: "pn_Seq (stamped e n sq) = sq"
  by (simp add: stamped_def)

lemma enqueue_file:
  assumes "sw_state w = Json sf" "env_write_ok e"
  shows "\<exists>sf'. sw_state (snd (EnqueuePullNotification e n w)) = Json sf' \<and>
    sf_PullSeq sf' = sf_PullSeq sf + 1 \<and>
    sf_Pull sf' = keep_last maxPullNotifications (sf_Pull sf @ [stamped e n (sf_PullSeq sf + 1)])"
proof -
  let ?s = "applyStateFile e sf (sw_mem w)"
  have "marks sf (enqueue_pull e n ?s)"
    by (simp add: marks_def enqueue_pull_def applyStateFile_def Let_def)
  then show ?thesis
    using assms
    by (simp add: EnqueuePullNotification_def st_transact_def refreshState_Json persist_marked
        state_file_of_def)
      (simp add: enqueue_pull_def applyStateFile_def Let_def stamped_def)
qed

text \<open>A run of enqueues, each in its environment.\<close>

fun enqueue_all :: "(go_env \<times> pull_notification) list \<Rightarrow> state_world \<Rightarrow> state_world" where
  "enqueue_all [] w = w"
| "enqueue_all ((e, n) # ns) w = enqueue_all ns (snd (EnqueuePullNotification e n w))"

fun stamped_all :: "(go_env \<times> pull_notification) list \<Rightarrow> int \<Rightarrow> pull_notification list" where
  "stamped_all [] sq = []"
| "stamped_all ((e, n) # ns) sq = stamped e n (sq + 1) # stamped_all ns (sq + 1)"

lemma length_stamped_all [simp]: "length (stamped_all ns sq) = length ns"
  by (induction ns sq rule: stamped_all.induct) auto

lemma stamped_all_Seq: "map pn_Seq (stamped_all ns sq) = map (\<lambda>k. sq + 1 + int k) [0..<length ns]"
proof (induction ns sq rule: stamped_all.induct)
  case (2 e n ns sq)
  have "map (\<lambda>k. sq + 1 + int k) [0..<Suc (length ns)] =
      (sq + 1) # map (\<lambda>k. sq + 1 + 1 + int k) [0..<length ns]"
    unfolding map_upt_Suc by (simp add: algebra_simps)
  with 2 show ?case by (simp add: upt_rec)
qed simp

lemma enqueue_all_file:
  assumes "sw_state w = Json sf" "\<forall>(e, n)\<in>set ns. env_write_ok e"
    and "sf_Pull sf = zs @ news" "\<forall>x\<in>set zs. pn_Seq x \<le> c" "length news + length ns \<le> maxPullNotifications"
  shows "\<exists>sf' zs'. sw_state (enqueue_all ns w) = Json sf' \<and> sf_PullSeq sf' = sf_PullSeq sf + int (length ns) \<and>
    sf_Pull sf' = zs' @ news @ stamped_all ns (sf_PullSeq sf) \<and> (\<forall>x\<in>set zs'. pn_Seq x \<le> c)"
  using assms
proof (induction ns arbitrary: w sf zs news)
  case Nil
  then show ?case by auto
next
  case (Cons a ns)
  obtain e n where a: "a = (e, n)" by fastforce
  have e: "env_write_ok e" using Cons.prems(2) a by simp
  obtain sf1 where f: "sw_state (snd (EnqueuePullNotification e n w)) = Json sf1"
    "sf_PullSeq sf1 = sf_PullSeq sf + 1"
    "sf_Pull sf1 = keep_last maxPullNotifications ((zs @ news) @ [stamped e n (sf_PullSeq sf + 1)])"
    using enqueue_file [OF Cons.prems(1) e, of n] Cons.prems(3) by auto
  have len: "length (news @ [stamped e n (sf_PullSeq sf + 1)]) \<le> maxPullNotifications"
    using Cons.prems(5) by simp
  obtain zs1 where z: "sf_Pull sf1 = zs1 @ news @ [stamped e n (sf_PullSeq sf + 1)]" "set zs1 \<subseteq> set zs"
    using keep_last_append_keep [OF len, of zs] f(3) by auto
  have "\<exists>sf' zs'. sw_state (enqueue_all ns (snd (EnqueuePullNotification e n w))) = Json sf' \<and>
      sf_PullSeq sf' = sf_PullSeq sf1 + int (length ns) \<and>
      sf_Pull sf' = zs' @ (news @ [stamped e n (sf_PullSeq sf + 1)]) @ stamped_all ns (sf_PullSeq sf1) \<and>
      (\<forall>x\<in>set zs'. pn_Seq x \<le> c)"
    by (rule Cons.IH [OF f(1), of zs1]) (use Cons.prems z in auto)
  then show ?case by (simp add: a f(2) add.assoc)
qed

section \<open>Native devices\<close>

lemma find_key_unique:
  assumes "distinct (map k xs)" "x \<in> set xs"
  shows "List.find (\<lambda>y. k y = k x) xs = Some x"
proof (cases "List.find (\<lambda>y. k y = k x) xs")
  case None
  with assms(2) show ?thesis by (auto dest: find_NoneD)
next
  case (Some y)
  with assms show ?thesis by (auto dest!: find_SomeD simp: distinct_map inj_on_def)
qed

text \<open>Replacing the first element that passes a test by one with the same key.\<close>

lemma find_replace_first_key:
  assumes "List.find P xs = Some y" "k z = k y" "distinct (map k xs)"
  shows "distinct (map k (replace_first P (\<lambda>_. z) xs))"
    "List.find (\<lambda>x. k x = i) (replace_first P (\<lambda>_. z) xs) =
      (if k y = i then Some z else List.find (\<lambda>x. k x = i) xs)"
proof -
  show "distinct (map k (replace_first P (\<lambda>_. z) xs))"
    using assms(3) map_replace_first_found [OF assms(1,2)] by simp
  have mem: "k y \<in> set (map k xs)" if "List.find P xs = Some y" for xs
    using find_SomeD [OF that] by auto
  show "List.find (\<lambda>x. k x = i) (replace_first P (\<lambda>_. z) xs) =
      (if k y = i then Some z else List.find (\<lambda>x. k x = i) xs)"
    using assms
  proof (induction xs)
    case (Cons a xs)
    show ?case
    proof (cases "P a")
      case True
      with Cons.prems show ?thesis by auto
    next
      case False
      then have "List.find P xs = Some y" using Cons.prems(1) by simp
      then have "k a \<noteq> k y" using mem Cons.prems(3) by auto
      with False Cons \<open>List.find P xs = Some y\<close> show ?thesis by auto
    qed
  qed simp
qed

lemma register_device_known:
  assumes "register_device e d ds = Inr ds'" "distinct (map nd_DeviceID ds)"
    and "List.find (\<lambda>x. nd_DeviceID x = i) ds = Some x"
  shows "\<exists>y. List.find (\<lambda>x. nd_DeviceID x = i) ds' = Some y \<and> nd_MFAApprover y = nd_MFAApprover x"
proof -
  obtain d2 where r: "ds' =
         (case List.find (\<lambda>x. nd_DeviceID x = nd_DeviceID d2) ds of
            Some existing \<Rightarrow>
              replace_first (\<lambda>x. nd_DeviceID x = nd_DeviceID d2)
                (\<lambda>_. d2\<lparr>nd_RegisteredAt := (if nd_RegisteredAt d2 = '''' then nd_RegisteredAt existing
                                           else nd_RegisteredAt d2),
                       nd_MFAApprover := nd_MFAApprover existing\<rparr>) ds
          | None \<Rightarrow>
              (let same = (\<lambda>x. nd_PushToken x = nd_PushToken d2 \<and> nd_Platform x = nd_Platform d2)
               in case (if nd_PushToken d2 \<noteq> '''' then List.find same ds else None) of
                    Some existing \<Rightarrow>
                      replace_first same
                        (\<lambda>_. d2\<lparr>nd_DeviceID := nd_DeviceID existing,
                               nd_RegisteredAt := nd_RegisteredAt existing,
                               nd_MFAApprover := nd_MFAApprover existing\<rparr>) ds
                  | None \<Rightarrow> ds @ [d2]))"
    using assms(1) unfolding register_device_def Let_def and_then_Inr_iff by blast
  show ?thesis
  proof (cases "List.find (\<lambda>x. nd_DeviceID x = nd_DeviceID d2) ds")
    case (Some ex)
    then have "nd_DeviceID ex = nd_DeviceID d2" by (auto dest: find_SomeD)
    then show ?thesis
      using r Some assms(2,3)
        find_replace_first_key(2) [OF Some, of nd_DeviceID "d2\<lparr>nd_RegisteredAt := (if nd_RegisteredAt d2 = '''' then nd_RegisteredAt ex
           else nd_RegisteredAt d2), nd_MFAApprover := nd_MFAApprover ex\<rparr>" i]
      by auto
  next
    case None
    show ?thesis
    proof (cases "if nd_PushToken d2 \<noteq> '''' then List.find (\<lambda>x. nd_PushToken x = nd_PushToken d2 \<and>
        nd_Platform x = nd_Platform d2) ds else None")
      case n2: None
      with r None assms(3) show ?thesis by (simp add: Let_def find_append)
    next
      case (Some ex)
      then have f: "List.find (\<lambda>x. nd_PushToken x = nd_PushToken d2 \<and> nd_Platform x = nd_Platform d2) ds = Some ex"
        by (simp split: if_splits)
      show ?thesis
        using r None Some assms(2,3)
          find_replace_first_key(2) [OF f, of nd_DeviceID "d2\<lparr>nd_DeviceID := nd_DeviceID ex,
            nd_RegisteredAt := nd_RegisteredAt ex, nd_MFAApprover := nd_MFAApprover ex\<rparr>" i]
          find_key_unique [OF assms(2), of ex] find_SomeD [OF f]
        by (auto simp: Let_def)
    qed
  qed
qed

section \<open>Pairing\<close>

lemma map_of_filter_None: "map_of m k = None \<Longrightarrow> map_of (filter P m) k = None"
  by (auto simp: map_of_eq_None_iff)

definition recent_failure :: "go_env \<Rightarrow> pairing_attempt \<Rightarrow> bool" where
  "recent_failure e a \<longleftrightarrow> \<not> pa_Success a \<and> parse_after e (env_now e - 1 * hour) (pa_AttemptAt a)"

text \<open>Environments that share the time codec.\<close>

definition same_codec :: "go_env \<Rightarrow> go_env \<Rightarrow> bool" where
  "same_codec e1 e2 \<longleftrightarrow> env_format e1 = env_format e2 \<and> env_parse e1 = env_parse e2"

lemma record_attempt_file:
  assumes "sw_state w = Json sf" "env_write_ok e1" "time_codec e" "same_codec e1 e"
    and "env_now e - 1 * hour + second \<le> env_now e1" "env_now e1 \<le> env_now e"
    and "sf_Attempts sf = zs @ news" "\<forall>a\<in>set news. recent_failure e a" "length news < 100"
  shows "\<exists>sf' zs' a. sw_state (snd (RecordDesktopPairingAttempt e1 code False w)) = Json sf' \<and>
    sf_Attempts sf' = zs' @ news @ [a] \<and> recent_failure e a"
proof -
  let ?s = "applyStateFile e1 sf (sw_mem w)"
  let ?a = "\<lparr>pa_Code = trim_space code, pa_AttemptAt = stamp e1, pa_Success = False\<rparr>"
  have "env_parse e (stamp e1) = Some (env_now e1 - env_now e1 mod second)"
    using time_codec_parse [OF assms(3)] assms(4) by (simp add: stamp_def same_codec_def)
  moreover have "env_now e1 mod second < second" by simp
  ultimately have a: "recent_failure e ?a"
    using assms(5) by (simp add: recent_failure_def parse_after_def)
  have "parse_after e1 (env_now e1 - 24 * hour) (pa_AttemptAt x)" if "x \<in> set news" for x
    using assms(8) that assms(4,6)
    by (fastforce simp: recent_failure_def parse_after_def same_codec_def split: option.splits)
  then have "st_attempts ?s = filter (\<lambda>a. parse_after e1 (env_now e1 - 24 * hour) (pa_AttemptAt a)) zs @ news"
    by (simp add: applyStateFile_def Let_def assms(7) filter_id_conv)
  then obtain zs' where k: "keep_last 100 (st_attempts ?s @ [?a]) = zs' @ (news @ [?a])"
    using keep_last_append_keep [of "news @ [?a]" 100] assms(9) by fastforce
  have "marks sf (?s\<lparr>st_attempts := keep_last 100 (st_attempts ?s @ [?a]), st_attemptsDirty := True\<rparr>)"
    using marks_loaded [of sf e1 "sw_mem w"] by (simp add: marks_def)
  then have "sw_state (snd (RecordDesktopPairingAttempt e1 code False w)) =
      Json (state_file_of e1 (?s\<lparr>st_attempts := keep_last 100 (st_attempts ?s @ [?a]), st_attemptsDirty := True\<rparr>))"
    using assms(1,2)
    by (simp add: RecordDesktopPairingAttempt_def st_transact_def refreshState_Json persist_marked)
  with k a show ?thesis by (auto simp: state_file_of_def)
qed

fun record_failures :: "(go_env \<times> string) list \<Rightarrow> state_world \<Rightarrow> state_world" where
  "record_failures [] w = w"
| "record_failures ((e, code) # rs) w = record_failures rs (snd (RecordDesktopPairingAttempt e code False w))"

lemma record_failures_file:
  assumes "sw_state w = Json sf" "time_codec e"
    and "\<forall>(e1, code)\<in>set rs. env_write_ok e1 \<and> same_codec e1 e \<and>
      env_now e - 1 * hour + second \<le> env_now e1 \<and> env_now e1 \<le> env_now e"
    and "sf_Attempts sf = zs @ news" "\<forall>a\<in>set news. recent_failure e a" "length news + length rs \<le> 100"
  shows "\<exists>sf' zs' news'. sw_state (record_failures rs w) = Json sf' \<and> sf_Attempts sf' = zs' @ news' \<and>
    (\<forall>a\<in>set news'. recent_failure e a) \<and> length news' = length news + length rs"
  using assms
proof (induction rs arbitrary: w sf zs news)
  case Nil
  then show ?case by auto
next
  case (Cons a rs)
  obtain e1 code where a: "a = (e1, code)" by fastforce
  have h: "env_write_ok e1" "same_codec e1 e" "env_now e - 1 * hour + second \<le> env_now e1" "env_now e1 \<le> env_now e"
    "length news < 100"
    using Cons.prems(3,6) a by auto
  obtain sf1 zs1 x where f: "sw_state (snd (RecordDesktopPairingAttempt e1 code False w)) = Json sf1"
    "sf_Attempts sf1 = zs1 @ news @ [x]" "recent_failure e x"
    using record_attempt_file [OF Cons.prems(1) h(1) Cons.prems(2) h(2-4) Cons.prems(4,5) h(5)] by blast
  have "\<exists>sf' zs' news'. sw_state (record_failures rs (snd (RecordDesktopPairingAttempt e1 code False w))) = Json sf' \<and>
      sf_Attempts sf' = zs' @ news' \<and> (\<forall>a\<in>set news'. recent_failure e a) \<and>
      length news' = length (news @ [x]) + length rs"
    by (rule Cons.IH [OF f(1) Cons.prems(2), of zs1]) (use Cons.prems f in auto)
  then show ?case by (simp add: a)
qed

section \<open>Properties\<close>

text \<open>
  A client of the App Pull queue loses nothing and gets nothing twice: after any run of at
  most 100 enqueues, asking with the cursor it had before gives exactly those notifications,
  in order, numbered from the cursor on, and the cursor of the last one. Every process gives
  this answer.
\<close>

theorem pull_queue_exact:
  assumes "sw_state w = Json sf" "\<forall>n\<in>set (sf_Pull sf). pn_Seq n \<le> sf_PullSeq sf"
    and "\<forall>(e, n)\<in>set ns. env_write_ok e" "length ns \<le> maxPullNotifications"
  shows "fst (PullNotificationsAfter (sf_PullSeq sf) ((enqueue_all ns w)\<lparr>sw_mem := m\<rparr>)) =
      (stamped_all ns (sf_PullSeq sf), sf_PullSeq sf + int (length ns)) \<and>
    map pn_Seq (stamped_all ns (sf_PullSeq sf)) = map (\<lambda>k. sf_PullSeq sf + 1 + int k) [0..<length ns]"
proof -
  obtain sf' zs' where f: "sw_state (enqueue_all ns w) = Json sf'"
    "sf_PullSeq sf' = sf_PullSeq sf + int (length ns)"
    "sf_Pull sf' = zs' @ [] @ stamped_all ns (sf_PullSeq sf)" "\<forall>x\<in>set zs'. pn_Seq x \<le> sf_PullSeq sf"
    using enqueue_all_file [OF assms(1,3), of "sf_Pull sf" "[]" "sf_PullSeq sf"] assms(2,4) by auto
  have "pn_Seq x > sf_PullSeq sf" if "x \<in> set (stamped_all ns (sf_PullSeq sf))" for x
  proof -
    have "pn_Seq x \<in> set (map pn_Seq (stamped_all ns (sf_PullSeq sf)))" using that by simp
    then show ?thesis unfolding stamped_all_Seq by auto
  qed
  then have "filter (\<lambda>n. pn_Seq n > sf_PullSeq sf) (sf_Pull sf') = stamped_all ns (sf_PullSeq sf)"
    using f(3,4) by (auto simp: filter_id_conv filter_empty_conv)
  then show ?thesis
    using f(1,2) stamped_all_Seq [of ns "sf_PullSeq sf"]
    by (simp add: PullNotificationsAfter_def refreshPull_def refresh_with_def)
qed

text \<open>
  A pairing code is redeemed once: after a redemption that is reported true and without
  error, every further attempt with it, by any process at any time, is reported false.
\<close>

theorem pairing_code_once:
  assumes "sw_state w = Json sf" "ConsumeDesktopPairingCode e code w = ((True, None), w')"
  shows "fst (ConsumeDesktopPairingCode e2 code (w'\<lparr>sw_mem := m\<rparr>)) = (False, None)"
proof -
  let ?c = "trim_space code" and ?s = "applyStateFile e sf (sw_mem w)"
  let ?s1 = "?s\<lparr>st_codes := AList.delete ?c (st_codes ?s), st_codesDirty := True\<rparr>"
  have mk: "marks sf ?s1" using marks_loaded [of sf e "sw_mem w"] by (simp add: marks_def)
  obtain str t where b: "map_of (st_codes ?s) ?c = Some str" "env_parse e str = Some t" "\<not> env_now e > t"
    using assms
    by (auto simp: ConsumeDesktopPairingCode_def st_transact_def refreshState_Json Let_def
        split: option.splits if_splits prod.splits)
  have "sw_state w' = Json (state_file_of e ?s1)"
    using st_transact_written [OF assms(2) [unfolded ConsumeDesktopPairingCode_def] assms(1) _ mk, of True True] b
    by simp
  moreover have "map_of (st_codes (applyStateFile e2 (state_file_of e ?s1) m)) ?c = None"
    by (simp add: applyStateFile_def state_file_of_def Let_def map_of_filter_None delete_conv')
  ultimately show ?thesis
    by (simp add: ConsumeDesktopPairingCode_def st_transact_def refreshState_Json)
qed

text \<open>
  Five failed pairing attempts within the last hour (less the second that RFC 3339 cuts
  off) close pairing: the rate-limit check refuses, with no attempts left.
\<close>

theorem pairing_rate_limit:
  assumes "sw_state w = Json sf" "time_codec e" "length rs = 5"
    and "\<forall>(e1, code)\<in>set rs. env_write_ok e1 \<and> same_codec e1 e \<and>
      env_now e - 1 * hour + second \<le> env_now e1 \<and> env_now e1 \<le> env_now e"
  shows "fst (CheckDesktopPairingRateLimit e (record_failures rs w)) = (False, 0, None)"
proof -
  obtain sf' zs' news' where f: "sw_state (record_failures rs w) = Json sf'" "sf_Attempts sf' = zs' @ news'"
    "\<forall>a\<in>set news'. recent_failure e a" "length news' = 5"
    using record_failures_file [OF assms(1,2,4), of "sf_Attempts sf" "[]"] assms(3) by auto
  have "parse_after e (env_now e - 24 * hour) (pa_AttemptAt a)" if "a \<in> set news'" for a
    using f(3) that by (fastforce simp: recent_failure_def parse_after_def split: option.splits)
  then have at: "st_attempts (applyStateFile e sf' m) =
      filter (\<lambda>a. parse_after e (env_now e - 24 * hour) (pa_AttemptAt a)) zs' @ news'" for m
    by (simp add: applyStateFile_def Let_def f(2) filter_id_conv)
  have "filter (\<lambda>a. \<not> pa_Success a \<and> parse_after e (env_now e - 1 * hour) (pa_AttemptAt a)) news' = news'"
    using f(3) by (simp add: filter_id_conv recent_failure_def)
  then have "5 \<le> failed_since e (env_now e - 1 * hour) (st_attempts (applyStateFile e sf' m))" for m
    using f(4) by (simp add: failed_since_def at)
  then have "5 \<le> failed_since e (env_now e - 1 * hour)
      (st_attempts (applyStateFile e sf' (sw_mem (record_failures rs w))))" .
  then show ?thesis
    by (simp add: CheckDesktopPairingRateLimit_def refreshState_Json f(1) maxFailedAttempts_def Let_def
        not_less max_def del: mult_1)
qed

text \<open>
  A registration never changes whether a known device may approve logins: whatever the
  request says, and whether it matches by ID or by push token, every device that was
  registered keeps its approver flag.
\<close>

theorem registration_keeps_approvers:
  assumes "sw_state w = Json sf" "distinct (map nd_DeviceID (sf_NativeDevices sf))"
    and "UpsertNativeDevice e device w = (((), None), w')"
    and "fst (GetNativeDevice i (w\<lparr>sw_mem := m\<rparr>)) = Some d"
  shows "\<exists>d'. fst (GetNativeDevice i (w'\<lparr>sw_mem := m'\<rparr>)) = Some d' \<and> nd_MFAApprover d' = nd_MFAApprover d"
proof -
  let ?s = "applyStateFile e sf (sw_mem w)"
  have nd: "st_nativeDevices ?s = sf_NativeDevices sf" by (simp add: applyStateFile_def Let_def)
  obtain ds where ds: "register_device e device (sf_NativeDevices sf) = Inr ds"
    and p: "persistState e (w\<lparr>sw_mem := ?s\<lparr>st_nativeDevices := ds, st_nativeDevicesDirty := True\<rparr>\<rparr>) = (None, w')"
    using assms(1,3) nd
    by (auto simp: UpsertNativeDevice_def refreshState_Json split: sum.splits prod.splits)
  let ?w = "w\<lparr>sw_mem := ?s\<lparr>st_nativeDevices := ds, st_nativeDevicesDirty := True\<rparr>\<rparr>"
  have mk: "marks sf (sw_mem ?w)" using marks_loaded [of sf e "sw_mem w"] by (simp add: marks_def)
  have "env_write_ok e" using p persist_fails(1) [of ?w sf e] assms(1) by (cases "env_write_ok e") auto
  then have "sw_state w' = Json (state_file_of e (sw_mem ?w))"
    using p persist_marked [of ?w sf e] mk assms(1) by auto
  then have f: "sw_state w' = Json (state_file_of e (?s\<lparr>st_nativeDevices := ds, st_nativeDevicesDirty := True\<rparr>))"
    by simp
  have i: "trim_space i \<noteq> ''''" "List.find (\<lambda>x. nd_DeviceID x = trim_space i) (sf_NativeDevices sf) = Some d"
    using assms(1,4)
    by (auto simp: GetNativeDevice_def refreshNativeDevices_def refresh_with_def Let_def split: if_splits)
  from register_device_known [OF ds assms(2) i(2)] i(1) f show ?thesis
    by (auto simp: GetNativeDevice_def refreshNativeDevices_def refresh_with_def Let_def state_file_of_def)
qed

section \<open>Worked examples\<close>

definition sample_state :: state_file where
  "sample_state = \<lparr>sf_LastCheckpoint = '''', sf_Processed = [], sf_Notifications = [],
     sf_NativeDevices = [\<lparr>nd_DeviceID = ''d'', nd_Platform = ''ios'', nd_PushToken = ''t'', nd_DeviceName = '''',
       nd_AppVersion = '''', nd_UserAgent = '''', nd_RegisteredAt = '''', nd_UpdatedAt = '''', nd_UserID = ''u'',
       nd_MFAApprover = True, nd_Transport = '''', nd_SecretHash = ''''\<rparr>],
     sf_SubscriberID = '''', sf_DeliveryMode = ''pull'',
     sf_Pull = [\<lparr>pn_Seq = 4, pn_Title = ''old'', pn_Body = '''', pn_Data = [], pn_CreatedAt = ''x''\<rparr>], sf_PullSeq = 4,
     sf_AIExhausted = False, sf_AIExhaustedAt = '''', sf_OllamaNotified = '''',
     sf_Codes = [(''123'', tally_format hour)], sf_Attempts = []\<rparr>"

definition sample_world :: state_world where
  "sample_world = \<lparr>sw_mem = state_empty, sw_state = Json sample_state, sw_decisions = Json []\<rparr>"

definition sample_note :: "go_env \<times> pull_notification" where
  "sample_note = (tally_env 0 None True,
     \<lparr>pn_Seq = 0, pn_Title = ''t'', pn_Body = '''', pn_Data = [], pn_CreatedAt = ''''\<rparr>)"

definition sample_device :: native_device where
  "sample_device = \<lparr>nd_DeviceID = ''d'', nd_Platform = ''IOS'', nd_PushToken = ''tok'', nd_DeviceName = '''',
     nd_AppVersion = '''', nd_UserAgent = '''', nd_RegisteredAt = '''', nd_UpdatedAt = '''', nd_UserID = ''u'',
     nd_MFAApprover = False, nd_Transport = '''', nd_SecretHash = ''''\<rparr>"

lemma sample_world_sel [simp]: "sw_state sample_world = Json sample_state" "sw_mem sample_world = state_empty"
  by (simp_all add: sample_world_def)

lemma sample_trim: "trim_space ''123'' = ''123''" "trim_space ''d'' = ''d''"
    "trim_space ''tok'' = ''tok''" "to_lower (trim_space ''IOS'') = ''ios''"
  by code_simp+

theorem pull_queue_exact_witness:
  "snd (fst (PullNotificationsAfter 4
     ((enqueue_all (replicate 3 sample_note) sample_world)\<lparr>sw_mem := state_empty\<rparr>))) = 7"
proof -
  have q: "\<forall>n\<in>set (sf_Pull sample_state). pn_Seq n \<le> sf_PullSeq sample_state" by (simp add: sample_state_def)
  have w: "\<forall>(e, n)\<in>set (replicate 3 sample_note). env_write_ok e" by (simp add: sample_note_def)
  have "sf_PullSeq sample_state = 4" by (simp add: sample_state_def)
  then show ?thesis
    using pull_queue_exact [OF sample_world_sel(1) q w, of state_empty] by (simp add: maxPullNotifications_def)
qed

theorem pairing_code_once_witness:
  "fst (ConsumeDesktopPairingCode (tally_env minute None True) ''123''
     ((snd (ConsumeDesktopPairingCode (tally_env 0 None True) ''123'' sample_world))\<lparr>sw_mem := state_empty\<rparr>)) = (False, None)"
proof -
  let ?e = "tally_env 0 None True"
  let ?s = "applyStateFile ?e sample_state state_empty"
  have c: "st_codes ?s = [(''123'', tally_format hour)]"
    by (simp add: applyStateFile_def sample_state_def Let_def parse_after_def)
  have "marks sample_state (?s\<lparr>st_codes := [], st_codesDirty := True\<rparr>)"
    using marks_loaded [of sample_state ?e state_empty] by (simp add: marks_def)
  then obtain w' where w: "ConsumeDesktopPairingCode ?e ''123'' sample_world = ((True, None), w')"
    by (simp add: ConsumeDesktopPairingCode_def st_transact_def refreshState_Json Let_def sample_trim c persist_marked)
  from pairing_code_once [OF sample_world_sel(1) w] show ?thesis by (simp add: w)
qed

theorem pairing_rate_limit_witness:
  "fst (CheckDesktopPairingRateLimit (tally_env hour None True)
     (record_failures (replicate 5 (tally_env minute None True, ''999'')) sample_world)) = (False, 0, None)"
  by (rule pairing_rate_limit [OF sample_world_sel(1)]) (simp_all add: same_codec_def)

theorem registration_keeps_approvers_witness:
  "\<exists>d'. fst (GetNativeDevice ''d''
      ((snd (UpsertNativeDevice (tally_env 0 None True) sample_device sample_world))\<lparr>sw_mem := state_empty\<rparr>)) = Some d' \<and>
     nd_MFAApprover d'"
proof -
  let ?e = "tally_env 0 None True"
  let ?s = "applyStateFile ?e sample_state state_empty"
  obtain ds where ds: "register_device ?e sample_device (st_nativeDevices ?s) = Inr ds"
    by (simp add: register_device_def sample_device_def sample_trim Let_def)
  have "marks sample_state (?s\<lparr>st_nativeDevices := ds, st_nativeDevicesDirty := True\<rparr>)"
    using marks_loaded [of sample_state ?e state_empty] by (simp add: marks_def)
  then obtain w' where w: "UpsertNativeDevice ?e sample_device sample_world = (((), None), w')"
    by (simp add: UpsertNativeDevice_def refreshState_Json ds persist_marked)
  have d: "distinct (map nd_DeviceID (sf_NativeDevices sample_state))" by (simp add: sample_state_def)
  obtain d0 where "fst (GetNativeDevice ''d'' (sample_world\<lparr>sw_mem := state_empty\<rparr>)) = Some d0" "nd_MFAApprover d0"
    by (simp add: GetNativeDevice_def refreshNativeDevices_def refresh_with_def sample_trim sample_state_def)
  with registration_keeps_approvers [OF sample_world_sel(1) d w, of "''d''" state_empty d0 state_empty]
  show ?thesis by (simp add: w)
qed

end
