(* ===== verification/Rules_Sieve.thy ===== *)
theory Rules_Sieve
  imports Rules_Engine
begin

text \<open>
  The Sieve subset (backend/internal/rules/sieve.go): the compiler from a rule to script
  text, the lexer, the recursive-descent parser and the shape check on match trees. Errors
  are values carrying the line number the message starts with.
\<close>

section \<open>Compiling a rule\<close>

datatype compile_error = UnsupportedField string | UnsupportedActionType string

text \<open>
  \<open>strconv.Quote\<close>: the quote and the backslash get a backslash, the control characters with
  a letter escape get it, the other control characters and 0x7F are written in hexadecimal,
  everything else is copied.
\<close>

definition hex_low :: "nat \<Rightarrow> char" where
  "hex_low n = ''0123456789abcdef'' ! n"

definition quote_char :: "char \<Rightarrow> string" where
  "quote_char c =
    (let n = (of_char c :: nat); bs = CHR 0x5C in
     if c = CHR 0x22 then [bs, CHR 0x22]
     else if c = bs then [bs, bs]
     else if n = 7 then [bs, CHR ''a'']
     else if n = 8 then [bs, CHR ''b'']
     else if n = 12 then [bs, CHR ''f'']
     else if n = 10 then [bs, CHR ''n'']
     else if n = 13 then [bs, CHR ''r'']
     else if n = 9 then [bs, CHR ''t'']
     else if n = 11 then [bs, CHR ''v'']
     else if n < 32 \<or> n = 127 then [bs, CHR ''x'', hex_low (n div 16), hex_low (n mod 16)]
     else [c])"

definition quote :: "string \<Rightarrow> string" where
  "quote s = CHR 0x22 # concat (map quote_char s) @ [CHR 0x22]"

definition comparatorTag :: "string \<Rightarrow> string" where
  "comparatorTag comparator =
    (if to_lower (trim_space comparator) \<in> {''contains'', ''is'', ''matches'', ''regex''}
     then to_lower comparator else ''is'')"

definition compileLeafCondition :: "condition \<Rightarrow> compile_error + string" where
  "compileLeafCondition c =
    (let field = to_lower (trim_space (c_Field c)) in
     if field \<in> {''from'', ''to'', ''cc'', ''bcc'', ''subject''} then
       (if equal_fold (c_Comparator c) ''exists''
        then Inr (''exists ['' @ quote field @ '']'')
        else Inr (''header :'' @ comparatorTag (c_Comparator c) @ '' ['' @ quote field @ ''] ''
                @ quote (c_Value c)))
     else if field = ''body'' then
       Inr (''body :'' @ comparatorTag (c_Comparator c) @ '' '' @ quote (c_Value c))
     else if field = ''keyword'' then
       Inr (''hasflag :'' @ comparatorTag (c_Comparator c) @ '' '' @ quote (c_Value c))
     else Inl (UnsupportedField (c_Field c)))"

definition group_op :: "string \<Rightarrow> string" where
  "group_op oper =
    (let op1 = to_lower (trim_space oper) in
     if op1 \<noteq> ''anyof'' \<and> op1 \<noteq> ''allof'' then ''allof'' else op1)"

text \<open>A loop that appends each result and returns the first error.\<close>

fun collect :: "('e + 'a) list \<Rightarrow> 'e + 'a list" where
  "collect [] = Inr []"
| "collect (Inl e # rs) = Inl e"
| "collect (Inr x # rs) = (case collect rs of Inl e \<Rightarrow> Inl e | Inr xs \<Rightarrow> Inr (x # xs))"

fun compileMatchGroup :: "match_group \<Rightarrow> compile_error + string"
  and compileCondition :: "condition \<Rightarrow> compile_error + string" where
  "compileMatchGroup (MatchGroup oper conds) =
    (case collect (map compileCondition conds) of
       Inl e \<Rightarrow> Inl e
     | Inr parts \<Rightarrow> Inr (group_op oper @ ''('' @ str_join '', '' parts @ '')''))"
| "compileCondition (Condition neg grp field cmp val) =
    (case (case grp of
             Some g \<Rightarrow> compileMatchGroup g
           | None \<Rightarrow> compileLeafCondition (Condition neg grp field cmp val)) of
       Inl e \<Rightarrow> Inl e
     | Inr inner \<Rightarrow> Inr (if neg then ''not '' @ inner else inner))"

definition compileAction :: "action \<Rightarrow> compile_error + string" where
  "compileAction a =
    (let t = a_Type a in
     if t = ''keyword'' then Inr (''addflag '' @ quote (a_Value a) @ '';'')
     else if t = ''unkeyword'' then Inr (''removeflag '' @ quote (a_Value a) @ '';'')
     else if t = ''move'' then Inr (''fileinto '' @ quote (a_Value a) @ '';'')
     else if t = ''read'' then Inr ''markread;''
     else if t = ''archive'' then Inr ''archive;''
     else if t = ''spam'' then Inr ''markspam;''
     else if t = ''delete'' then Inr ''discard;''
     else if t = ''stop'' then Inr ''stop;''
     else Inl (UnsupportedActionType t))"

fun matchGroupUsesField :: "match_group \<Rightarrow> string \<Rightarrow> bool"
  and conditionUsesField :: "condition \<Rightarrow> string \<Rightarrow> bool" where
  "matchGroupUsesField (MatchGroup oper conds) field =
     list_ex (\<lambda>c. conditionUsesField c field) conds"
| "conditionUsesField (Condition neg grp f cmp val) field =
     (case grp of Some g \<Rightarrow> matchGroupUsesField g field | None \<Rightarrow> equal_fold f field)"

fun matchGroupUsesComparator :: "match_group \<Rightarrow> string \<Rightarrow> bool"
  and conditionUsesComparator :: "condition \<Rightarrow> string \<Rightarrow> bool" where
  "matchGroupUsesComparator (MatchGroup oper conds) comparator =
     list_ex (\<lambda>c. conditionUsesComparator c comparator) conds"
| "conditionUsesComparator (Condition neg grp f cmp val) comparator =
     (case grp of Some g \<Rightarrow> matchGroupUsesComparator g comparator
      | None \<Rightarrow> cmp = comparator)"

definition usesCapability :: "rule \<Rightarrow> string \<Rightarrow> bool" where
  "usesCapability r cap =
    (if cap = ''fileinto'' then list_ex (\<lambda>a. a_Type a = ''move'') (r_Actions r)
     else if cap = ''imap4flags'' then
       list_ex (\<lambda>a. a_Type a = ''keyword'' \<or> a_Type a = ''unkeyword'') (r_Actions r) \<or>
       matchGroupUsesField (r_Match r) ''keyword''
     else if cap = ''kymail'' then
       list_ex (\<lambda>a. a_Type a = ''read'' \<or> a_Type a = ''archive'' \<or> a_Type a = ''spam'')
         (r_Actions r)
     else if cap = ''body'' then matchGroupUsesField (r_Match r) ''body''
     else if cap = ''regex'' then matchGroupUsesComparator (r_Match r) ''regex''
     else False)"

abbreviation newline :: char where "newline \<equiv> CHR 0x0A"

definition rule_caps :: "rule \<Rightarrow> string list" where
  "rule_caps r = filter (usesCapability r)
     [''fileinto'', ''body'', ''regex'', ''imap4flags'', ''kymail'']"

definition CompileRule :: "rule \<Rightarrow> compile_error + string" where
  "CompileRule r =
    (let caps = rule_caps r;
         header = (if caps = [] then ''''
                   else ''require ['' @ str_join '', '' (map quote caps) @ ''];''
                     @ [newline, newline])
     in case compileMatchGroup (r_Match r) of
          Inl e \<Rightarrow> Inl e
        | Inr testSrc \<Rightarrow>
           (case collect (map compileAction (r_Actions r)) of
              Inl e \<Rightarrow> Inl e
            | Inr lines \<Rightarrow>
                Inr (header @ ''if '' @ testSrc @ '' {'' @ [newline]
                   @ (if r_Actions r = [] then ''    keep;'' @ [newline] else '''')
                   @ concat (map (\<lambda>l. ''    '' @ l @ [newline]) lines)
                   @ ''}'' @ [newline])))"

section \<open>The lexer\<close>

datatype tok_kind = TokWord | TokString | TokLBracket | TokRBracket | TokLParen | TokRParen
  | TokLBrace | TokRBrace | TokSemicolon | TokComma | TokColonTag | TokEOF

record token =
  tok_kind :: tok_kind
  tok_text :: string
  tok_line :: nat

datatype sieve_error =
  UnterminatedString nat
| UnexpectedChar nat char
| UnterminatedComment nat
| Expected nat string string
| UnsupportedTag nat string
| ExpectedTest nat string
| UnknownTest nat string
| NestingTooDeep nat
| NoFields nat string
| BadField nat string string
| ExpectedAction nat string
| UnknownAction nat string
| UnbalancedBraces nat
| TrailingContent nat
| UnsupportedCapability nat string
| OutOfFuel

definition isWordRune :: "char \<Rightarrow> bool" where
  "isWordRune c =
    (let n = (of_char c :: nat) in
     c = CHR ''_'' \<or> (97 \<le> n \<and> n \<le> 122) \<or> (65 \<le> n \<and> n \<le> 90) \<or> (48 \<le> n \<and> n \<le> 57))"

text \<open>
  The lexer's position is the rest of the source and the current line; \<open>next_line\<close> is what
  \<open>advance\<close> does to the line.
\<close>

definition next_line :: "char \<Rightarrow> nat \<Rightarrow> nat" where
  "next_line c line = (if c = newline then Suc line else line)"

fun skip_line_comment :: "string \<Rightarrow> nat \<Rightarrow> string \<times> nat" where
  "skip_line_comment [] line = ([], line)"
| "skip_line_comment (c # cs) line =
    (if c = newline then (cs, Suc line) else skip_line_comment cs line)"

text \<open>After the opening of a block comment: None when it is not closed.\<close>

fun skip_block_comment :: "string \<Rightarrow> nat \<Rightarrow> (string \<times> nat) option" where
  "skip_block_comment [] line = None"
| "skip_block_comment (c # cs) line =
    (if c = CHR ''*'' \<and> (case cs of [] \<Rightarrow> False | d # _ \<Rightarrow> d = CHR ''/'') then Some (tl cs, line)
     else skip_block_comment cs (next_line c line))"

lemma skip_line_comment_length: "length (fst (skip_line_comment cs line)) \<le> length cs"
  by (induction cs line rule: skip_line_comment.induct) auto

lemma skip_line_comment_lengthD: "(cs', line') = skip_line_comment cs line \<Longrightarrow> length cs' \<le> length cs"
  using skip_line_comment_length [of cs line] by (metis fst_conv)

lemma skip_line_comment_case: "(case skip_line_comment cs line of (cs', l) \<Rightarrow> length cs') \<le> length cs"
  using skip_line_comment_length [of cs line] by (simp add: case_prod_beta)

lemma skip_block_comment_length:
  "skip_block_comment cs line = Some (cs', line') \<Longrightarrow> length cs' \<le> length cs"
  by (induction cs line arbitrary: cs' line' rule: skip_block_comment.induct)
    (fastforce split: if_splits)+

function (sequential) skipWhitespaceAndComments ::
  "string \<Rightarrow> nat \<Rightarrow> sieve_error + string \<times> nat" where
  "skipWhitespaceAndComments [] line = Inr ([], line)"
| "skipWhitespaceAndComments (c # cs) line =
    (if c = CHR '' '' \<or> c = CHR 0x09 \<or> c = CHR 0x0D \<or> c = newline
     then skipWhitespaceAndComments cs (next_line c line)
     else if c = CHR ''#'' then
       (case skip_line_comment cs line of (cs', line') \<Rightarrow> skipWhitespaceAndComments cs' line')
     else if c = CHR ''/'' \<and> (case cs of [] \<Rightarrow> False | d # _ \<Rightarrow> d = CHR ''*'') then
       (case skip_block_comment (tl cs) line of
          None \<Rightarrow> Inl (UnterminatedComment line)
        | Some (cs', line') \<Rightarrow> skipWhitespaceAndComments cs' line')
     else Inr (c # cs, line))"
  by pat_completeness auto
termination
  by (relation "measure (\<lambda>(cs, line). length cs)")
    (auto dest!: skip_block_comment_length simp: less_Suc_eq_le
      intro: order_trans skip_line_comment_case)

lemma skip_length:
  "skipWhitespaceAndComments cs line = Inr (cs', line') \<Longrightarrow> length cs' \<le> length cs"
proof (induction cs line arbitrary: cs' line' rule: skipWhitespaceAndComments.induct)
  case (1 line)
  then show ?case by simp
next
  case (2 c cs line)
  let ?ws = "c = CHR '' '' \<or> c = CHR 0x09 \<or> c = CHR 0x0D \<or> c = newline"
  let ?bc = "c = CHR ''/'' \<and> (case cs of [] \<Rightarrow> False | d # _ \<Rightarrow> d = CHR ''*'')"
  consider "?ws" | "\<not> ?ws" "c = CHR ''#''" | "\<not> ?ws" "c \<noteq> CHR ''#''" "?bc"
    | "\<not> ?ws" "c \<noteq> CHR ''#''" "\<not> ?bc" by blast
  then show ?case
  proof cases
    case 1
    with "2.prems" have "skipWhitespaceAndComments cs (next_line c line) = Inr (cs', line')"
      by simp
    with "2.IH"(1) 1 show ?thesis by fastforce
  next
    case 2
    obtain cs1 l1 where e: "skip_line_comment cs line = (cs1, l1)" by fastforce
    with "2.prems" 2 have "skipWhitespaceAndComments cs1 l1 = Inr (cs', line')" by simp
    with "2.IH"(2) 2 e have "length cs' \<le> length cs1" by auto
    with skip_line_comment_length [of cs line] e show ?thesis by simp
  next
    case 3
    then obtain cs1 l1 where e: "skip_block_comment (tl cs) line = Some (cs1, l1)"
      using "2.prems" by (auto split: option.splits)
    with "2.prems" 3 have "skipWhitespaceAndComments cs1 l1 = Inr (cs', line')" by simp
    with "2.IH"(3) 3 e have "length cs' \<le> length cs1" by auto
    with skip_block_comment_length [OF e] show ?thesis by (cases cs) auto
  next
    case 4
    with "2.prems" show ?thesis by auto
  qed
qed

text \<open>A string literal after its opening quote: its text, the rest and the line.\<close>

fun lex_string :: "string \<Rightarrow> nat \<Rightarrow> string \<Rightarrow> (string \<times> string \<times> nat) option" where
  "lex_string [] line sb = None"
| "lex_string (c # cs) line sb =
    (if c = CHR 0x22 then Some (sb, cs, line)
     else if c = CHR 0x5C then
       (case cs of
          [] \<Rightarrow> None
        | c2 # cs' \<Rightarrow> lex_string cs' (next_line c2 line) (sb @ [c2]))
     else lex_string cs (next_line c line) (sb @ [c]))"

lemma lex_string_length: "lex_string cs line sb = Some (str, cs', line') \<Longrightarrow> length cs' < length cs"
proof (induction cs line sb arbitrary: str cs' line' rule: lex_string.induct)
  case (2 c cs line sb)
  then show ?case by (fastforce split: if_splits list.splits)
qed simp

definition mk_token :: "tok_kind \<Rightarrow> string \<Rightarrow> nat \<Rightarrow> token" where
  "mk_token k str line = \<lparr>tok_kind = k, tok_text = str, tok_line = line\<rparr>"

definition punct_kind :: "char \<Rightarrow> tok_kind option" where
  "punct_kind r =
    (if r = CHR ''['' then Some TokLBracket
     else if r = CHR '']'' then Some TokRBracket
     else if r = CHR ''('' then Some TokLParen
     else if r = CHR '')'' then Some TokRParen
     else if r = CHR ''{'' then Some TokLBrace
     else if r = CHR ''}'' then Some TokRBrace
     else if r = CHR '';'' then Some TokSemicolon
     else if r = CHR '','' then Some TokComma
     else None)"

text \<open>One token at a non-blank character: the token, the rest and the line.\<close>

definition lex_token :: "char \<Rightarrow> string \<Rightarrow> nat \<Rightarrow> sieve_error + token \<times> string \<times> nat" where
  "lex_token r cs line =
    (case punct_kind r of
       Some k \<Rightarrow> Inr (mk_token k [r] line, cs, line)
     | None \<Rightarrow>
        if r = CHR 0x22 then
          (case lex_string cs line '''' of
             None \<Rightarrow> Inl (UnterminatedString line)
           | Some (str, cs', line') \<Rightarrow> Inr (mk_token TokString str line, cs', line'))
        else if r = CHR '':'' then
          Inr (mk_token TokColonTag (takeWhile isWordRune cs) line, dropWhile isWordRune cs, line)
        else if \<not> isWordRune r then Inl (UnexpectedChar line r)
        else Inr (mk_token TokWord (takeWhile isWordRune (r # cs)) line,
                  dropWhile isWordRune (r # cs), line))"

lemma lex_token_length:
  "lex_token r cs line = Inr (t, cs', line') \<Longrightarrow> length cs' \<le> length cs"
  using length_dropWhile_le [of isWordRune cs]
  by (auto simp: lex_token_def split: if_splits option.splits prod.splits
      dest!: lex_string_length)

function lex_loop :: "string \<Rightarrow> nat \<Rightarrow> sieve_error + token list" where
  "lex_loop cs line =
    (case skipWhitespaceAndComments cs line of
       Inl e \<Rightarrow> Inl e
     | Inr (cs1, line1) \<Rightarrow>
        (case cs1 of
           [] \<Rightarrow> Inr [mk_token TokEOF '''' line1]
         | r # cs2 \<Rightarrow>
            (case lex_token r cs2 line1 of
               Inl e \<Rightarrow> Inl e
             | Inr (t, cs3, line3) \<Rightarrow>
                (case lex_loop cs3 line3 of Inl e \<Rightarrow> Inl e | Inr ts \<Rightarrow> Inr (t # ts)))))"
  by pat_completeness auto
termination
proof (relation "measure (\<lambda>(cs, line). length cs)", goal_cases)
  case 1
  then show ?case by simp
next
  case (2 cs line b x y x21 x22 ba xa ya xb yb)
  then show ?case by (auto dest!: skip_length lex_token_length)
qed

declare lex_loop.simps [simp del]

definition lexSieve :: "string \<Rightarrow> sieve_error + token list" where
  "lexSieve str = lex_loop str 1"

section \<open>The parser\<close>

text \<open>
  The parser's position is the rest of the token list; the end-of-file token is never
  consumed. \<open>not\<close>, \<open>allof\<close> and \<open>anyof\<close> raise the nesting depth, an argument here. The
  recursive functions take a bound on the number of calls; \<open>fuel_for\<close> is enough for every
  token list the lexer makes (lemma \<open>parse_rule_tokens_fuel\<close>).
\<close>

definition peek :: "token list \<Rightarrow> token" where
  "peek ts = (case ts of [] \<Rightarrow> mk_token TokEOF '''' 0 | t # _ \<Rightarrow> t)"

definition next_tok :: "token list \<Rightarrow> token list" where
  "next_tok ts = (case ts of t # u # us \<Rightarrow> u # us | _ \<Rightarrow> ts)"

definition tokenDisplay :: "token \<Rightarrow> string" where
  "tokenDisplay t = (if tok_kind t = TokEOF then ''end of input'' else tok_text t)"

definition expect :: "tok_kind \<Rightarrow> string \<Rightarrow> token list \<Rightarrow> sieve_error + token \<times> token list" where
  "expect k what ts =
    (let t = peek ts in
     if tok_kind t \<noteq> k then Inl (Expected (tok_line t) what (tokenDisplay t))
     else Inr (t, next_tok ts))"

definition is_word :: "token \<Rightarrow> string \<Rightarrow> bool" where
  "is_word t w \<longleftrightarrow> tok_kind t = TokWord \<and> equal_fold (tok_text t) w"

definition expectWord :: "string \<Rightarrow> token list \<Rightarrow> sieve_error + token list" where
  "expectWord w ts =
    (let t = peek ts in
     if \<not> is_word t w then Inl (Expected (tok_line t) w (tokenDisplay t))
     else Inr (next_tok ts))"

definition expectSemicolon :: "token list \<Rightarrow> sieve_error + token list" where
  "expectSemicolon ts = and_then (expect TokSemicolon '';'' ts) (\<lambda>(_, ts1). Inr ts1)"

text \<open>The strings of a list up to the closing bracket, which is not consumed.\<close>

function parse_strings :: "token list \<Rightarrow> string list \<Rightarrow> sieve_error + string list \<times> token list"
where
  "parse_strings ts acc =
    (if tok_kind (peek ts) = TokRBracket then Inr (acc, ts)
     else if tok_kind (peek ts) \<noteq> TokString then
       Inl (Expected (tok_line (peek ts)) ''string'' (tokenDisplay (peek ts)))
     else
       (let acc1 = acc @ [tok_text (peek ts)]; ts1 = next_tok ts in
        if tok_kind (peek ts1) = TokComma then parse_strings (next_tok ts1) acc1
        else Inr (acc1, ts1)))"
  by pat_completeness auto
termination
  by (relation "measure (\<lambda>(ts, acc). length ts)")
    (auto simp: peek_def next_tok_def mk_token_def split: list.splits)

declare parse_strings.simps [simp del]

definition parseStringList :: "token list \<Rightarrow> sieve_error + string list \<times> token list" where
  "parseStringList ts =
    and_then (expect TokLBracket ''['' ts) (\<lambda>(_, ts1).
    and_then (parse_strings ts1 []) (\<lambda>(out, ts2).
    and_then (expect TokRBracket '']'' ts2) (\<lambda>(_, ts3). Inr (out, ts3))))"

definition normalizeField :: "string \<Rightarrow> string" where
  "normalizeField f = to_lower (trim_space f)"

definition validHeaderAddressFields :: "string list" where
  "validHeaderAddressFields = [''from'', ''to'', ''cc'', ''bcc'', ''subject'']"

definition parseComparatorTag :: "string \<Rightarrow> token list \<Rightarrow> sieve_error + string \<times> token list" where
  "parseComparatorTag dflt ts =
    (let t = peek ts in
     if tok_kind t \<noteq> TokColonTag then Inr (dflt, ts)
     else if to_lower (tok_text t) \<in> {''contains'', ''is'', ''matches'', ''regex''}
     then Inr (to_lower (tok_text t), next_tok ts)
     else Inl (UnsupportedTag (tok_line t) (tok_text t)))"

definition leaf :: "string \<Rightarrow> string \<Rightarrow> string \<Rightarrow> condition" where
  "leaf field cmp val = Condition False None field cmp val"

definition group_condition :: "match_group \<Rightarrow> condition" where
  "group_condition g = Condition False (Some g) '''' '''' ''''"

definition fieldsToCondition :: "string list \<Rightarrow> string \<Rightarrow> string \<Rightarrow> condition" where
  "fieldsToCondition flds cmp val =
    (if length flds = 1 then leaf (normalizeField (hd flds)) cmp val
     else group_condition
       (MatchGroup ''anyof'' (map (\<lambda>f. leaf (normalizeField f) cmp val) flds)))"

definition check_fields :: "nat \<Rightarrow> string \<Rightarrow> string list \<Rightarrow> sieve_error + unit" where
  "check_fields line what flds =
    (if flds = [] then Inl (NoFields line what)
     else case List.find (\<lambda>f. normalizeField f \<notin> set validHeaderAddressFields) flds of
       Some f \<Rightarrow> Inl (BadField line what f)
     | None \<Rightarrow> Inr ())"

definition maxTestNestingDepth :: nat where "maxTestNestingDepth = 32"
definition maxMatchConditions :: nat where "maxMatchConditions = 300"

text \<open>\<open>depth\<close> is the depth on entry; \<open>enterTest\<close> gives the depth inside.\<close>

definition enterTest :: "nat \<Rightarrow> nat \<Rightarrow> sieve_error + nat" where
  "enterTest line depth =
    (if Suc depth > maxTestNestingDepth then Inl (NestingTooDeep line) else Inr (Suc depth))"

fun negate_condition :: "condition \<Rightarrow> condition" where
  "negate_condition (Condition neg g f c v) = Condition (\<not> neg) g f c v"

definition parse_header_test :: "nat \<Rightarrow> token list \<Rightarrow> sieve_error + condition \<times> token list" where
  "parse_header_test line ts =
    and_then (parseComparatorTag ''is'' ts) (\<lambda>(cmp, ts1).
    and_then (parseStringList ts1) (\<lambda>(flds, ts2).
    and_then (expect TokString ''string value'' ts2) (\<lambda>(v, ts3).
    and_then (check_fields line ''header/address'' flds) (\<lambda>_.
    Inr (fieldsToCondition flds cmp (tok_text v), ts3)))))"

definition parse_exists_test :: "nat \<Rightarrow> token list \<Rightarrow> sieve_error + condition \<times> token list" where
  "parse_exists_test line ts =
    and_then (parseStringList ts) (\<lambda>(flds, ts1).
    and_then (check_fields line ''exists'' flds) (\<lambda>_.
    Inr (fieldsToCondition flds ''exists'' '''', ts1)))"

definition parse_value_test ::
  "string \<Rightarrow> string \<Rightarrow> token list \<Rightarrow> sieve_error + condition \<times> token list" where
  "parse_value_test field dflt ts =
    and_then (parseComparatorTag dflt ts) (\<lambda>(cmp, ts1).
    and_then (expect TokString ''string value'' ts1) (\<lambda>(v, ts2).
    Inr (leaf field cmp (tok_text v), ts2)))"

fun parseTest :: "nat \<Rightarrow> nat \<Rightarrow> token list \<Rightarrow> sieve_error + condition \<times> token list"
  and parse_conds ::
    "nat \<Rightarrow> nat \<Rightarrow> token list \<Rightarrow> condition list \<Rightarrow> sieve_error + condition list \<times> token list"
where
  "parseTest 0 depth ts = Inl OutOfFuel"
| "parseTest (Suc n) depth ts =
    (let t = peek ts in
     if tok_kind t \<noteq> TokWord then Inl (ExpectedTest (tok_line t) (tokenDisplay t))
     else if equal_fold (tok_text t) ''not'' then
       and_then (enterTest (tok_line t) depth) (\<lambda>d.
       and_then (parseTest n d (next_tok ts)) (\<lambda>(inner, ts1).
       Inr (negate_condition inner, ts1)))
     else if equal_fold (tok_text t) ''allof'' \<or> equal_fold (tok_text t) ''anyof'' then
       and_then (enterTest (tok_line t) depth) (\<lambda>d.
       and_then (expect TokLParen ''('' (next_tok ts)) (\<lambda>(_, ts1).
       and_then (parse_conds n d ts1 []) (\<lambda>(conds, ts2).
       and_then (expect TokRParen '')'' ts2) (\<lambda>(_, ts3).
       Inr (group_condition (MatchGroup (to_lower (tok_text t)) conds), ts3)))))
     else if equal_fold (tok_text t) ''header'' \<or> equal_fold (tok_text t) ''address'' then
       parse_header_test (tok_line t) (next_tok ts)
     else if equal_fold (tok_text t) ''exists'' then
       parse_exists_test (tok_line t) (next_tok ts)
     else if equal_fold (tok_text t) ''body'' then
       parse_value_test ''body'' ''contains'' (next_tok ts)
     else if equal_fold (tok_text t) ''hasflag'' then
       parse_value_test ''keyword'' ''is'' (next_tok ts)
     else Inl (UnknownTest (tok_line t) (tok_text t)))"
| "parse_conds 0 depth ts acc = Inl OutOfFuel"
| "parse_conds (Suc n) depth ts acc =
    and_then (parseTest n depth ts) (\<lambda>(c, ts1).
      if tok_kind (peek ts1) = TokComma then parse_conds n depth (next_tok ts1) (acc @ [c])
      else Inr (acc @ [c], ts1))"

definition mk_action :: "string \<Rightarrow> string \<Rightarrow> action" where
  "mk_action ty val = \<lparr>a_Type = ty, a_Value = val\<rparr>"

definition parse_value_action ::
  "string \<Rightarrow> string \<Rightarrow> token list \<Rightarrow> sieve_error + action \<times> token list" where
  "parse_value_action ty what ts =
    and_then (expect TokString what ts) (\<lambda>(v, ts1).
    and_then (expectSemicolon ts1) (\<lambda>ts2. Inr (mk_action ty (tok_text v), ts2)))"

definition parse_plain_action :: "string \<Rightarrow> token list \<Rightarrow> sieve_error + action \<times> token list" where
  "parse_plain_action ty ts = and_then (expectSemicolon ts) (\<lambda>ts1. Inr (mk_action ty '''', ts1))"

definition parseAction :: "token list \<Rightarrow> sieve_error + action \<times> token list" where
  "parseAction ts =
    (let t = peek ts; ts1 = next_tok ts; name = to_lower (tok_text t) in
     if tok_kind t \<noteq> TokWord then Inl (ExpectedAction (tok_line t) (tokenDisplay t))
     else if name = ''fileinto'' then parse_value_action ''move'' ''folder string'' ts1
     else if name = ''discard'' then parse_plain_action ''delete'' ts1
     else if name = ''keep'' then parse_plain_action ''keep'' ts1
     else if name = ''stop'' then parse_plain_action ''stop'' ts1
     else if name = ''addflag'' then parse_value_action ''keyword'' ''keyword string'' ts1
     else if name = ''removeflag'' then parse_value_action ''unkeyword'' ''keyword string'' ts1
     else if name = ''markread'' then parse_plain_action ''read'' ts1
     else if name = ''archive'' then parse_plain_action ''archive'' ts1
     else if name = ''markspam'' then parse_plain_action ''spam'' ts1
     else Inl (UnknownAction (tok_line t) name))"

definition allowedCapabilities :: "string list" where
  "allowedCapabilities = [''fileinto'', ''body'', ''regex'', ''imap4flags'', ''kymail'']"

text \<open>The loop over require statements.\<close>

fun parse_requires :: "nat \<Rightarrow> token list \<Rightarrow> sieve_error + token list" where
  "parse_requires 0 ts = Inl OutOfFuel"
| "parse_requires (Suc n) ts =
    (if is_word (peek ts) ''require'' then
       and_then (parseStringList (next_tok ts)) (\<lambda>(caps, ts1).
       and_then (expectSemicolon ts1) (\<lambda>ts2.
         case List.find (\<lambda>c. normalizeField c \<notin> set allowedCapabilities) caps of
           Some c \<Rightarrow> Inl (UnsupportedCapability (tok_line (peek ts)) c)
         | None \<Rightarrow> parse_requires n ts2))
     else Inr ts)"

text \<open>The loop over actions, up to the closing brace, which is not consumed.\<close>

fun parse_actions :: "nat \<Rightarrow> token list \<Rightarrow> action list \<Rightarrow> sieve_error + action list \<times> token list"
where
  "parse_actions 0 ts acc = Inl OutOfFuel"
| "parse_actions (Suc n) ts acc =
    (if tok_kind (peek ts) = TokRBrace then Inr (acc, ts)
     else if tok_kind (peek ts) = TokEOF then Inl (UnbalancedBraces (tok_line (peek ts)))
     else and_then (parseAction ts) (\<lambda>(a, ts1).
       parse_actions n ts1 (if a_Type a \<noteq> ''keep'' then acc @ [a] else acc)))"

definition fuel_for :: "token list \<Rightarrow> nat" where
  "fuel_for ts = 2 * length ts + 2"

definition root_match :: "condition \<Rightarrow> match_group" where
  "root_match c = (case c_Group c of Some g \<Rightarrow> g | None \<Rightarrow> MatchGroup ''allof'' [c])"

definition parse_rule_tokens :: "token list \<Rightarrow> rule \<Rightarrow> sieve_error + rule" where
  "parse_rule_tokens toks existing =
    and_then (parse_requires (fuel_for toks) toks) (\<lambda>ts1.
    and_then (expectWord ''if'' ts1) (\<lambda>ts2.
    and_then (parseTest (fuel_for toks) 0 ts2) (\<lambda>(rootCond, ts3).
    and_then (expect TokLBrace ''{'' ts3) (\<lambda>(_, ts4).
    and_then (parse_actions (fuel_for toks) ts4 []) (\<lambda>(actions, ts5).
    and_then (expect TokRBrace ''}'' ts5) (\<lambda>(_, ts6).
      if tok_kind (peek ts6) \<noteq> TokEOF then Inl (TrailingContent (tok_line (peek ts6)))
      else Inr (existing\<lparr>r_Match := root_match rootCond, r_Actions := actions\<rparr>)))))))"

definition ParseRuleText :: "string \<Rightarrow> rule \<Rightarrow> sieve_error + rule" where
  "ParseRuleText str existing =
     and_then (lexSieve str) (\<lambda>toks. parse_rule_tokens toks existing)"

section \<open>The shape check\<close>

datatype shape_error = NestingExceeds | TooManyConditions

text \<open>The count is threaded through the walk, as the pointer argument does.\<close>

fun validateMatchGroupShape :: "match_group \<Rightarrow> nat \<Rightarrow> nat \<Rightarrow> shape_error + nat"
  and validate_conditions :: "condition list \<Rightarrow> nat \<Rightarrow> nat \<Rightarrow> shape_error + nat"
  and validate_condition :: "condition \<Rightarrow> nat \<Rightarrow> nat \<Rightarrow> shape_error + nat" where
  "validateMatchGroupShape (MatchGroup oper conds) depth cnt =
    (if depth > maxTestNestingDepth then Inl NestingExceeds
     else validate_conditions conds depth cnt)"
| "validate_conditions [] depth cnt = Inr cnt"
| "validate_conditions (c # cs) depth cnt =
     and_then (validate_condition c depth cnt) (\<lambda>n. validate_conditions cs depth n)"
| "validate_condition (Condition neg grp f cmp v) depth cnt =
    (case grp of
       Some g \<Rightarrow> validateMatchGroupShape g (Suc depth) cnt
     | None \<Rightarrow> if Suc cnt > maxMatchConditions then Inl TooManyConditions
               else Inr (Suc cnt))"

definition ValidateMatchShape :: "match_group \<Rightarrow> shape_error + unit" where
  "ValidateMatchShape m = and_then (validateMatchGroupShape m 1 0) (\<lambda>_. Inr ())"

end
