(* ===== verification/Sieve_Parser.thy ===== *)
theory Sieve_Parser
  imports Rules_Sieve
begin

text \<open>
  What the Sieve parser guarantees: it always returns (the bound on calls is enough), a
  parsed rule is canonical, so that it can be compiled again, its match tree is of bounded
  depth, and the shape check accepts exactly the trees within its two bounds.
\<close>

section \<open>Token lists of the lexer\<close>

definition ends_eof :: "token list \<Rightarrow> bool" where
  "ends_eof ts \<longleftrightarrow> ts \<noteq> [] \<and> tok_kind (last ts) = TokEOF"

lemma lex_loop_ends_eof: "lex_loop cs line = Inr ts \<Longrightarrow> ends_eof ts"
proof (induction cs line arbitrary: ts rule: lex_loop.induct)
  case (1 cs line)
  obtain cs1 line1 where s: "skipWhitespaceAndComments cs line = Inr (cs1, line1)"
    using "1.prems" by (subst (asm) lex_loop.simps [of cs line]) (auto split: sum.splits)
  show ?case
  proof (cases cs1)
    case Nil
    with s "1.prems" show ?thesis
      by (subst (asm) lex_loop.simps [of cs line]) (auto simp: ends_eof_def mk_token_def)
  next
    case (Cons r cs2)
    then obtain t cs3 line3 ts3 where t: "lex_token r cs2 line1 = Inr (t, cs3, line3)"
      and l: "lex_loop cs3 line3 = Inr ts3" and ts: "ts = t # ts3"
      using s "1.prems" by (subst (asm) lex_loop.simps [of cs line]) (auto split: sum.splits)
    from "1.IH" [OF s _ Cons t _ _ l] have "ends_eof ts3" by blast
    with ts show ?thesis by (simp add: ends_eof_def)
  qed
qed

lemma lexSieve_ends_eof: "lexSieve str = Inr ts \<Longrightarrow> ends_eof ts"
  by (auto simp: lexSieve_def dest: lex_loop_ends_eof)

lemma next_tok_ends_eof: "ends_eof ts \<Longrightarrow> ends_eof (next_tok ts)"
  by (auto simp: ends_eof_def next_tok_def split: list.splits)

lemma next_tok_less: "ends_eof ts \<Longrightarrow> tok_kind (peek ts) \<noteq> TokEOF \<Longrightarrow> length (next_tok ts) < length ts"
  by (auto simp: ends_eof_def peek_def next_tok_def split: list.splits if_splits)

section \<open>Progress of the parser's functions\<close>

text \<open>
  \<open>within b r\<close>: the step r does not run out of fuel, and when it succeeds at most b tokens
  are left. There is one composition rule for each function of the parser.
\<close>

named_theorems within_intros

definition within :: "nat \<Rightarrow> sieve_error + 'a \<times> token list \<Rightarrow> bool" where
  "within b r \<longleftrightarrow>
    (case r of Inl e \<Rightarrow> e \<noteq> OutOfFuel | Inr (x, ts') \<Rightarrow> ends_eof ts' \<and> length ts' \<le> b)"

lemma within_Inl [simp]: "within b (Inl e) \<longleftrightarrow> e \<noteq> OutOfFuel"
  and within_Inr [simp]: "within b (Inr (x, ts')) \<longleftrightarrow> ends_eof ts' \<and> length ts' \<le> b"
  by (simp_all add: within_def)

lemma within_and_then:
  assumes "within a r" and "\<And>x ts1. ends_eof ts1 \<Longrightarrow> length ts1 \<le> a \<Longrightarrow> within b (f (x, ts1))"
  shows "within b (and_then r f)"
  using assms by (cases r) (auto simp: within_def)

lemma expect_Inr:
  "expect k what ts = Inr (t, ts') \<longleftrightarrow> t = peek ts \<and> tok_kind (peek ts) = k \<and> ts' = next_tok ts"
  by (auto simp: expect_def Let_def split: if_splits)

lemma within_expect [within_intros]:
  assumes "ends_eof ts" "k \<noteq> TokEOF"
    and "\<And>t ts1. ends_eof ts1 \<Longrightarrow> length ts1 < length ts \<Longrightarrow> within b (f (t, ts1))"
  shows "within b (and_then (expect k what ts) f)"
  using assms next_tok_less [of ts] next_tok_ends_eof [of ts]
  by (auto simp: expect_def Let_def)

lemma within_semicolon [within_intros]:
  assumes "ends_eof ts"
    and "\<And>ts1. ends_eof ts1 \<Longrightarrow> length ts1 < length ts \<Longrightarrow> within b (f ts1)"
  shows "within b (and_then (expectSemicolon ts) f)"
  using assms next_tok_less [of ts] next_tok_ends_eof [of ts]
  by (auto simp: expectSemicolon_def expect_def Let_def)

lemma parse_strings_within: "ends_eof ts \<Longrightarrow> within (length ts) (parse_strings ts acc)"
proof (induction ts acc rule: parse_strings.induct)
  case (1 ts acc)
  let ?ts2 = "next_tok (next_tok ts)"
  have e: "ends_eof (next_tok ts)" using "1.prems" by (rule next_tok_ends_eof)
  show ?case
  proof (cases "tok_kind (peek ts) = TokString \<and> tok_kind (peek (next_tok ts)) = TokComma")
    case True
    then have "length ?ts2 \<le> length ts"
      using next_tok_less [OF "1.prems"] next_tok_less [OF e] by simp
    moreover have "within (length ?ts2) (parse_strings ?ts2 (acc @ [tok_text (peek ts)]))"
      using "1.IH" True next_tok_ends_eof [OF e] by simp
    ultimately have "within (length ts) (parse_strings ?ts2 (acc @ [tok_text (peek ts)]))"
      by (auto simp: within_def split: sum.splits)
    with True show ?thesis by (subst parse_strings.simps [of ts acc]) simp
  next
    case False
    then show ?thesis
      using "1.prems" next_tok_less [of ts] e
      by (subst parse_strings.simps [of ts acc]) (auto simp: Let_def)
  qed
qed

lemma within_strings [within_intros]:
  assumes "ends_eof ts"
    and "\<And>x ts1. ends_eof ts1 \<Longrightarrow> length ts1 \<le> length ts \<Longrightarrow> within b (f (x, ts1))"
  shows "within b (and_then (parse_strings ts acc) f)"
  using assms by (auto intro: within_and_then parse_strings_within)

lemma within_string_list [within_intros]:
  assumes "ends_eof ts"
    and "\<And>x ts1. ends_eof ts1 \<Longrightarrow> length ts1 < length ts \<Longrightarrow> within b (f (x, ts1))"
  shows "within b (and_then (parseStringList ts) f)"
proof -
  have "within (length ts - 1) (parseStringList ts)"
    unfolding parseStringList_def using assms(1) by (auto intro!: within_intros)
  moreover have "ts \<noteq> []" using assms(1) by (simp add: ends_eof_def)
  ultimately show ?thesis
    using assms(2) by (auto intro!: within_and_then simp: Suc_le_eq less_Suc_eq_le)
      (metis One_nat_def Suc_pred le_imp_less_Suc length_greater_0_conv)
qed

lemma within_comparator [within_intros]:
  assumes "ends_eof ts"
    and "\<And>x ts1. ends_eof ts1 \<Longrightarrow> length ts1 \<le> length ts \<Longrightarrow> within b (f (x, ts1))"
  shows "within b (and_then (parseComparatorTag d ts) f)"
  using assms next_tok_less [of ts] next_tok_ends_eof [of ts]
  by (auto simp: parseComparatorTag_def Let_def)

lemma within_fields [within_intros]:
  "within b (f ()) \<Longrightarrow> within b (and_then (check_fields line what flds) f)"
  by (auto simp: check_fields_def split: option.splits)

lemma within_enter [within_intros]:
  "within b (f (Suc d)) \<Longrightarrow> within b (and_then (enterTest line d) f)"
  by (simp add: enterTest_def)

lemma header_test_within [within_intros]:
  "ends_eof ts \<Longrightarrow> length ts \<le> b \<Longrightarrow> within b (parse_header_test line ts)"
  unfolding parse_header_test_def by (auto intro!: within_intros)

lemma exists_test_within [within_intros]:
  "ends_eof ts \<Longrightarrow> length ts \<le> b \<Longrightarrow> within b (parse_exists_test line ts)"
  unfolding parse_exists_test_def by (auto intro!: within_intros)

lemma value_test_within [within_intros]:
  "ends_eof ts \<Longrightarrow> length ts \<le> b \<Longrightarrow> within b (parse_value_test field d ts)"
  unfolding parse_value_test_def by (auto intro!: within_intros)

section \<open>Enough fuel\<close>

lemma parseTest_within:
  "ends_eof ts \<Longrightarrow> 2 * length ts \<le> n \<Longrightarrow> within (length ts - 1) (parseTest n d ts)"
  "ends_eof ts \<Longrightarrow> 2 * length ts + 1 \<le> n \<Longrightarrow> within (length ts - 1) (parse_conds n d ts acc)"
proof (induction n d ts and n d ts acc rule: parseTest_parse_conds.induct)
  case (1 depth ts)
  then show ?case by (simp add: ends_eof_def)
next
  case (2 n depth ts)
  let ?t = "peek ts" and ?ts1 = "next_tok ts"
  have e: "ends_eof ?ts1" using "2.prems"(1) by (rule next_tok_ends_eof)
  show ?case
  proof (cases "tok_kind ?t = TokWord")
    case True
    then have l: "length ?ts1 < length ts" using next_tok_less [OF "2.prems"(1)] by simp
    have neg: "within (length ts - 1) (and_then (enterTest (tok_line ?t) depth) (\<lambda>d.
       and_then (parseTest n d ?ts1) (\<lambda>(inner, ts1). Inr (negate_condition inner, ts1))))"
      if "equal_fold (tok_text ?t) ''not''"
    proof (cases "enterTest (tok_line ?t) depth")
      case (Inr d)
      have "within (length ?ts1 - 1) (parseTest n d ?ts1)"
        using "2.IH"(1) [OF refl _ that] True e l "2.prems"(2) by simp
      with Inr l show ?thesis by (auto intro!: within_and_then)
    qed (auto simp: enterTest_def split: if_splits)
    have grp: "within (length ts - 1) (and_then (enterTest (tok_line ?t) depth) (\<lambda>d.
       and_then (expect TokLParen ''('' ?ts1) (\<lambda>(_, ts1).
       and_then (parse_conds n d ts1 []) (\<lambda>(conds, ts2).
       and_then (expect TokRParen '')'' ts2) (\<lambda>(_, ts3).
       Inr (group_condition (MatchGroup (to_lower (tok_text ?t)) conds), ts3))))))"
      if "\<not> equal_fold (tok_text ?t) ''not''"
        "equal_fold (tok_text ?t) ''allof'' \<or> equal_fold (tok_text ?t) ''anyof''"
    proof (cases "enterTest (tok_line ?t) depth")
      case (Inr d)
      note ih = "2.IH"(2) [OF refl _ that]
      show ?thesis
      proof (cases "expect TokLParen ''('' ?ts1")
        case (Inr r)
        obtain t1 ts1 where r: "r = (t1, ts1)" by fastforce
        have e1: "ends_eof ts1" "length ts1 < length ?ts1"
          using Inr r e next_tok_less [OF e] next_tok_ends_eof [OF e] by (auto simp: expect_Inr)
        have "within (length ts1 - 1) (parse_conds n d ts1 [])"
          using ih Inr r True e1 l "2.prems"(2) by simp
        then have "within (length ts - 1) (and_then (parse_conds n d ts1 []) (\<lambda>(conds, ts2).
            and_then (expect TokRParen '')'' ts2) (\<lambda>(_, ts3).
            Inr (group_condition (MatchGroup (to_lower (tok_text ?t)) conds), ts3))))"
          by (rule within_and_then) (use e1 l in \<open>auto intro!: within_intros\<close>)
        with Inr r \<open>enterTest _ _ = Inr d\<close> show ?thesis by simp
      qed (use \<open>enterTest _ _ = Inr d\<close> in \<open>auto simp: expect_def Let_def split: if_splits\<close>)
    qed (auto simp: enterTest_def split: if_splits)
    from True neg grp e l show ?thesis
      by (auto simp: Let_def intro!: header_test_within exists_test_within value_test_within)
  qed (simp add: Let_def)
next
  case (3 depth ts acc)
  then show ?case by simp
next
  case (4 n depth ts acc)
  have t: "within (length ts - 1) (parseTest n depth ts)" using "4.IH"(1) "4.prems" by simp
  show ?case
  proof (cases "parseTest n depth ts")
    case (Inl e)
    with t show ?thesis by simp
  next
    case (Inr r)
    obtain c ts1 where r: "r = (c, ts1)" by fastforce
    have e1: "ends_eof ts1" "length ts1 \<le> length ts - 1" using t Inr r by simp_all
    show ?thesis
    proof (cases "tok_kind (peek ts1) = TokComma")
      case True
      have l: "length (next_tok ts1) < length ts1" using next_tok_less [OF e1(1)] True by simp
      have "within (length (next_tok ts1) - 1) (parse_conds n depth (next_tok ts1) (acc @ [c]))"
        using "4.IH"(2) [OF True] next_tok_ends_eof [OF e1(1)] l e1 "4.prems"(2) by simp
      then have "within (length ts - 1) (parse_conds n depth (next_tok ts1) (acc @ [c]))"
        using l e1 by (auto simp: within_def split: sum.splits)
      with Inr r True show ?thesis by simp
    qed (use Inr r e1 in simp)
  qed
qed

lemma within_action [within_intros]:
  assumes "ends_eof ts"
    and "\<And>x ts1. ends_eof ts1 \<Longrightarrow> length ts1 < length ts \<Longrightarrow> within b (f (x, ts1))"
  shows "within b (and_then (parseAction ts) f)"
proof (cases "tok_kind (peek ts) = TokWord")
  case True
  have v: "within (length ts - 1) (parse_value_action ty what (next_tok ts))"
    and p: "within (length ts - 1) (parse_plain_action ty (next_tok ts))" for ty what
    using True assms(1) next_tok_less [of ts] next_tok_ends_eof [of ts]
    by (auto simp: parse_value_action_def parse_plain_action_def intro!: within_intros)
  have "ts \<noteq> []" using assms(1) by (simp add: ends_eof_def)
  then have "length ts1 < length ts" if "length ts1 \<le> length ts - 1" for ts1 :: "token list"
    using that by (cases ts) auto
  moreover have "within (length ts - 1) (parseAction ts)"
    using v p True by (simp add: parseAction_def Let_def)
  ultimately show ?thesis using assms(2) by (auto intro!: within_and_then)
next
  case False
  then show ?thesis by (simp add: parseAction_def Let_def)
qed

lemma parse_actions_within:
  "ends_eof ts \<Longrightarrow> length ts \<le> n \<Longrightarrow> within (length ts) (parse_actions n ts acc)"
proof (induction n arbitrary: ts acc)
  case 0
  then show ?case by (simp add: ends_eof_def)
next
  case (Suc n)
  have "within (length ts) (parse_actions n ts1 acc1)"
    if "ends_eof ts1" "length ts1 < length ts" for ts1 acc1
    using Suc.IH [of ts1 acc1] Suc.prems that by (auto simp: within_def split: sum.splits)
  with Suc.prems show ?case by (auto intro!: within_intros)
qed

lemma parse_requires_within:
  assumes "ends_eof ts" "length ts < n"
  shows "parse_requires n ts \<noteq> Inl OutOfFuel"
    and "parse_requires n ts = Inr ts' \<Longrightarrow> ends_eof ts' \<and> length ts' \<le> length ts"
proof -
  have "within (length ts) (and_then (parse_requires n ts) (\<lambda>ts1. Inr ((), ts1)))"
    using assms
  proof (induction n arbitrary: ts)
    case 0
    then show ?case by simp
  next
    case (Suc n)
    let ?k = "\<lambda>ts1. Inr ((), ts1) :: sieve_error + unit \<times> token list"
    have rec: "within (length ts) (and_then (parse_requires n ts2) ?k)"
      if "ends_eof ts2" "length ts2 < length ts" for ts2
    proof -
      have "within (length ts2) (and_then (parse_requires n ts2) ?k)"
        using Suc.IH that Suc.prems(2) by simp
      then show ?thesis using that(2) by (cases "parse_requires n ts2") auto
    qed
    show ?case
    proof (cases "is_word (peek ts) ''require''")
      case False
      with Suc.prems show ?thesis by simp
    next
      case True
      then have l: "length (next_tok ts) < length ts"
        using next_tok_less [OF Suc.prems(1)] by (simp add: is_word_def)
      let ?body = "\<lambda>caps ts2. (case List.find (\<lambda>c. normalizeField c \<notin> set allowedCapabilities) caps of
           Some c \<Rightarrow> Inl (UnsupportedCapability (tok_line (peek ts)) c)
         | None \<Rightarrow> parse_requires n ts2)"
      have b: "within (length ts) (and_then (?body caps ts2) ?k)"
        if "ends_eof ts2" "length ts2 < length ts" for caps ts2
        using rec [OF that] by (simp split: option.splits)
      have assoc: "and_then (and_then r (\<lambda>(caps, ts1). and_then (expectSemicolon ts1) (?body caps))) ?k
          = and_then r (\<lambda>(caps, ts1). and_then (expectSemicolon ts1) (\<lambda>ts2. and_then (?body caps ts2) ?k))"
        for r :: "sieve_error + string list \<times> token list"
        by (cases r) (auto simp: expectSemicolon_def expect_def Let_def split: option.splits)
      show ?thesis
        using True l next_tok_ends_eof [OF Suc.prems(1)] b
        by (auto simp: assoc intro!: within_intros)
    qed
  qed
  then show "parse_requires n ts \<noteq> Inl OutOfFuel"
    and "parse_requires n ts = Inr ts' \<Longrightarrow> ends_eof ts' \<and> length ts' \<le> length ts"
    by auto
qed

lemma parse_rule_tokens_fuel:
  assumes "ends_eof toks"
  shows "parse_rule_tokens toks r \<noteq> Inl OutOfFuel"
proof (cases "parse_requires (fuel_for toks) toks")
  case (Inl e)
  then show ?thesis
    using parse_requires_within(1) [OF assms, of "fuel_for toks"]
    by (auto simp: parse_rule_tokens_def fuel_for_def)
next
  case (Inr ts1)
  then have ts1: "ends_eof ts1" "length ts1 \<le> length toks"
    using parse_requires_within(2) [OF assms, of "fuel_for toks"] by (auto simp: fuel_for_def)
  define body where "body ts2 = and_then (parseTest (fuel_for toks) 0 ts2) (\<lambda>(rootCond, ts3).
    and_then (expect TokLBrace ''{'' ts3) (\<lambda>(_, ts4).
    and_then (parse_actions (fuel_for toks) ts4 []) (\<lambda>(actions, ts5).
    and_then (expect TokRBrace ''}'' ts5) (\<lambda>(_, ts6).
      if tok_kind (peek ts6) \<noteq> TokEOF then Inl (TrailingContent (tok_line (peek ts6)))
      else Inr (r\<lparr>r_Match := root_match rootCond, r_Actions := actions\<rparr>, ts6)))))" for ts2
  have "within (length toks) (body ts2)" if "ends_eof ts2" "length ts2 \<le> length toks" for ts2
  proof -
    have acts: "within (length ts4) (parse_actions (fuel_for toks) ts4 [])"
      if "ends_eof ts4" "length ts4 \<le> length toks" for ts4
      by (rule parse_actions_within) (use that in \<open>auto simp: fuel_for_def\<close>)
    have "within (length ts2 - 1) (parseTest (fuel_for toks) 0 ts2)"
      by (rule parseTest_within(1)) (use that in \<open>auto simp: fuel_for_def\<close>)
    then show ?thesis
      unfolding body_def using that
      by (auto intro!: within_and_then [OF acts] within_and_then [where r = "parseTest _ _ _"] within_intros)
  qed
  moreover have "ends_eof (next_tok ts1)" "length (next_tok ts1) \<le> length toks"
    using next_tok_ends_eof [OF ts1(1)] ts1(2)
    by (simp, cases ts1 rule: remdups_adj.cases) (auto simp: next_tok_def)
  ultimately have "within (length toks) (body (next_tok ts1))" by blast
  then have "body (next_tok ts1) \<noteq> Inl OutOfFuel" by auto
  then show ?thesis
    using Inr by (auto simp: parse_rule_tokens_def body_def and_then_Inl_iff expectWord_def Let_def
        split: if_splits)
qed

lemma skip_fuel: "skipWhitespaceAndComments cs line \<noteq> Inl OutOfFuel"
proof (induction cs line rule: skipWhitespaceAndComments.induct)
  case (2 c cs line)
  then show ?case by (auto split: option.split prod.split)
qed simp

lemma lex_token_fuel: "lex_token r cs line \<noteq> Inl OutOfFuel"
  by (auto simp: lex_token_def split: option.splits)

lemma lex_loop_fuel: "lex_loop cs line \<noteq> Inl OutOfFuel"
proof (induction cs line rule: lex_loop.induct)
  case (1 cs line)
  show ?case
  proof (cases "skipWhitespaceAndComments cs line")
    case (Inl e)
    with skip_fuel [of cs line] show ?thesis by (subst lex_loop.simps [of cs line]) simp
  next
    case (Inr r)
    obtain cs1 line1 where s: "skipWhitespaceAndComments cs line = Inr (cs1, line1)"
      using Inr by (cases r) simp
    show ?thesis
    proof (cases cs1)
      case Nil
      with s show ?thesis by (subst lex_loop.simps [of cs line]) simp
    next
      case (Cons c cs2)
      show ?thesis
      proof (cases "lex_token c cs2 line1")
        case (Inl e)
        with s Cons lex_token_fuel [of c cs2 line1] show ?thesis
          by (subst lex_loop.simps [of cs line]) simp
      next
        case (Inr r)
        obtain t cs3 line3 where t: "lex_token c cs2 line1 = Inr (t, cs3, line3)"
          using Inr by (cases r) auto
        from "1.IH" [OF s refl Cons t refl refl] s Cons t show ?thesis
          by (subst lex_loop.simps [of cs line]) (auto split: sum.split)
      qed
    qed
  qed
qed

lemma ParseRuleText_returns_aux: "ParseRuleText str r \<noteq> Inl OutOfFuel"
  by (auto simp: ParseRuleText_def and_then_Inl_iff lexSieve_def lex_loop_fuel
      dest: lex_loop_ends_eof parse_rule_tokens_fuel)

section \<open>Depth and number of conditions of a match tree\<close>

fun group_depth :: "match_group \<Rightarrow> nat" and cond_depth :: "condition \<Rightarrow> nat" where
  "group_depth (MatchGroup oper conds) = Suc (foldr (\<lambda>c m. max (cond_depth c) m) conds 0)"
| "cond_depth (Condition neg grp f cmp v) =
    (case grp of Some g \<Rightarrow> group_depth g | None \<Rightarrow> 0)"

fun group_leaves :: "match_group \<Rightarrow> nat" and cond_leaves :: "condition \<Rightarrow> nat" where
  "group_leaves (MatchGroup oper conds) = sum_list (map cond_leaves conds)"
| "cond_leaves (Condition neg grp f cmp v) =
    (case grp of Some g \<Rightarrow> group_leaves g | None \<Rightarrow> 1)"

lemma foldr_max_le: "foldr (\<lambda>c m. max (f c) m) xs 0 \<le> k \<longleftrightarrow> (\<forall>x\<in>set xs. f x \<le> (k :: nat))"
  by (induction xs) auto

lemma add_group_depth_le:
  "d + group_depth (MatchGroup oper conds) \<le> b \<longleftrightarrow>
    Suc d \<le> b \<and> (\<forall>c\<in>set conds. Suc d + cond_depth c \<le> b)"
proof (cases "Suc d \<le> b")
  case True
  then obtain k where "b = Suc d + k" using le_iff_add by blast
  then show ?thesis by (auto simp: foldr_max_le)
qed auto

lemma validate_shape_iff:
  "0 < e \<Longrightarrow> cnt \<le> maxMatchConditions \<Longrightarrow>
     validateMatchGroupShape g e cnt = Inr n \<longleftrightarrow>
       e - 1 + group_depth g \<le> maxTestNestingDepth \<and> n = cnt + group_leaves g \<and>
       n \<le> maxMatchConditions"
  "0 < d \<Longrightarrow> cnt \<le> maxMatchConditions \<Longrightarrow> d \<le> maxTestNestingDepth \<Longrightarrow>
     validate_conditions cs d cnt = Inr n \<longleftrightarrow>
       (\<forall>c\<in>set cs. d + cond_depth c \<le> maxTestNestingDepth) \<and>
       n = cnt + sum_list (map cond_leaves cs) \<and> n \<le> maxMatchConditions"
  "0 < d \<Longrightarrow> cnt \<le> maxMatchConditions \<Longrightarrow> d \<le> maxTestNestingDepth \<Longrightarrow>
     validate_condition c d cnt = Inr n \<longleftrightarrow>
       d + cond_depth c \<le> maxTestNestingDepth \<and> n = cnt + cond_leaves c \<and> n \<le> maxMatchConditions"
proof (induction g e cnt and cs d cnt and c d cnt arbitrary: n and n and n
    rule: validateMatchGroupShape_validate_conditions_validate_condition.induct)
  case (1 oper conds e cnt)
  then have e: "Suc (e - 1) = e" by simp
  show ?case
  proof (cases "e \<le> maxTestNestingDepth")
    case True
    then show ?thesis
      using "1.IH" "1.prems" add_group_depth_le [of "e - 1" oper conds maxTestNestingDepth]
      by (simp del: group_depth.simps add: e)
  next
    case False
    then show ?thesis
      using add_group_depth_le [of "e - 1" oper conds maxTestNestingDepth] e
      by (simp del: group_depth.simps)
  qed
next
  case (2 depth cnt)
  then show ?case by auto
next
  case (3 c cs depth cnt)
  then show ?case by (auto simp: and_then_Inr_iff)
next
  case (4 neg grp f cmp v depth cnt)
  then show ?case by (cases grp) auto
qed

lemma ValidateMatchShape_iff:
  "ValidateMatchShape m = Inr () \<longleftrightarrow>
     group_depth m \<le> maxTestNestingDepth \<and> group_leaves m \<le> maxMatchConditions"
  using validate_shape_iff(1) [of 1 0 m]
  by (auto simp: ValidateMatchShape_def and_then_Inr_iff)

section \<open>The depth of a parsed match tree\<close>

lemma enterTest_Inr: "enterTest line d = Inr d' \<longleftrightarrow> d' = Suc d \<and> Suc d \<le> maxTestNestingDepth"
  by (auto simp: enterTest_def)

lemma cond_depth_negate [simp]: "cond_depth (negate_condition c) = cond_depth c"
  by (cases c) simp

lemma cond_depth_leaf [simp]: "cond_depth (leaf f c v) = 0"
  by (simp add: leaf_def)

lemma cond_depth_fields: "cond_depth (fieldsToCondition flds cmp v) \<le> 1"
  using foldr_max_le [where k = 0 and f = cond_depth]
  by (auto simp: fieldsToCondition_def group_condition_def)

lemma cond_depth_group [simp]: "cond_depth (group_condition g) = group_depth g"
  by (simp add: group_condition_def)

text \<open>The result of each test without recursion.\<close>

definition sieve_comparators :: "string list" where
  "sieve_comparators = [''contains'', ''is'', ''matches'', ''regex'']"

definition known_fields :: "string list \<Rightarrow> bool" where
  "known_fields flds \<longleftrightarrow> flds \<noteq> [] \<and> list_all (\<lambda>f. normalizeField f \<in> set validHeaderAddressFields) flds"

lemma check_fields_Inr: "check_fields line what flds = Inr u \<longleftrightarrow> known_fields flds"
  by (auto simp: check_fields_def known_fields_def list_all_iff find_None_iff
      split: option.splits dest!: find_Some_iff [THEN iffD1] intro: nth_mem)

lemma comparator_Inr:
  "parseComparatorTag d ts = Inr (cmp, ts') \<Longrightarrow> cmp = d \<or> cmp \<in> set sieve_comparators"
  by (auto simp: parseComparatorTag_def sieve_comparators_def Let_def split: if_splits)

lemma header_test_Inr:
  "parse_header_test line ts = Inr (c, ts') \<Longrightarrow>
    \<exists>flds cmp v. c = fieldsToCondition flds cmp v \<and> known_fields flds \<and> cmp \<in> set sieve_comparators"
  by (fastforce simp: parse_header_test_def and_then_Inr_iff check_fields_Inr sieve_comparators_def
      dest!: comparator_Inr)

lemma exists_test_Inr:
  "parse_exists_test line ts = Inr (c, ts') \<Longrightarrow>
    \<exists>flds. c = fieldsToCondition flds ''exists'' '''' \<and> known_fields flds"
  by (auto simp: parse_exists_test_def and_then_Inr_iff check_fields_Inr)

lemma value_test_Inr:
  "parse_value_test field d ts = Inr (c, ts') \<Longrightarrow> d \<in> set sieve_comparators \<Longrightarrow>
    \<exists>cmp v. c = leaf field cmp v \<and> cmp \<in> set sieve_comparators"
  by (fastforce simp: parse_value_test_def and_then_Inr_iff dest!: comparator_Inr)

section \<open>Canonical rules\<close>

text \<open>
  The match trees and actions the parser makes: known fields in lower case, the comparators
  of the language, the two group operators, no empty group, action types with a keyword in
  the language and no value where the keyword takes none.
\<close>

definition canonical_leaf :: "string \<Rightarrow> string \<Rightarrow> string \<Rightarrow> bool" where
  "canonical_leaf field cmp v \<longleftrightarrow>
    (field \<in> set validHeaderAddressFields \<and>
       (cmp \<in> set sieve_comparators \<or> cmp = ''exists'' \<and> v = '''')) \<or>
    (field = ''body'' \<or> field = ''keyword'') \<and> cmp \<in> set sieve_comparators"

fun canonical_group :: "match_group \<Rightarrow> bool" and canonical_cond :: "condition \<Rightarrow> bool" where
  "canonical_group (MatchGroup oper conds) \<longleftrightarrow>
     (oper = ''allof'' \<or> oper = ''anyof'') \<and> conds \<noteq> [] \<and> list_all canonical_cond conds"
| "canonical_cond (Condition neg grp f cmp v) \<longleftrightarrow>
     (case grp of
        Some g \<Rightarrow> canonical_group g \<and> f = '''' \<and> cmp = '''' \<and> v = ''''
      | None \<Rightarrow> canonical_leaf f cmp v)"

definition valued_types :: "string list" where
  "valued_types = [''move'', ''keyword'', ''unkeyword'']"

definition plain_types :: "string list" where
  "plain_types = [''delete'', ''stop'', ''read'', ''archive'', ''spam'']"

definition canonical_action :: "action \<Rightarrow> bool" where
  "canonical_action a \<longleftrightarrow>
    a_Type a \<in> set valued_types \<or> a_Type a \<in> set plain_types \<and> a_Value a = ''''"

definition canonical_rule :: "rule \<Rightarrow> bool" where
  "canonical_rule r \<longleftrightarrow> canonical_group (r_Match r) \<and> list_all canonical_action (r_Actions r)"

lemma canonical_negate [simp]: "canonical_cond (negate_condition c) = canonical_cond c"
  by (cases c) simp

lemma canonical_group_condition [simp]: "canonical_cond (group_condition g) = canonical_group g"
  by (simp add: group_condition_def)

lemma canonical_fields:
  assumes "known_fields flds" "cmp \<in> set sieve_comparators \<or> cmp = ''exists'' \<and> v = ''''"
  shows "canonical_cond (fieldsToCondition flds cmp v)"
  using assms
  by (cases flds) (auto simp: fieldsToCondition_def known_fields_def leaf_def canonical_leaf_def list_all_iff)

lemma canonical_tests:
  "parse_header_test line ts = Inr (c, ts') \<Longrightarrow> canonical_cond c"
  "parse_exists_test line ts = Inr (c, ts') \<Longrightarrow> canonical_cond c"
  "parse_value_test ''body'' ''contains'' ts = Inr (c, ts') \<Longrightarrow> canonical_cond c"
  "parse_value_test ''keyword'' ''is'' ts = Inr (c, ts') \<Longrightarrow> canonical_cond c"
  by (auto dest!: header_test_Inr exists_test_Inr value_test_Inr intro: canonical_fields
      simp: leaf_def canonical_leaf_def sieve_comparators_def)

lemma depth_tests:
  "parse_header_test line ts = Inr (c, ts') \<Longrightarrow> cond_depth c \<le> 1"
  "parse_exists_test line ts = Inr (c, ts') \<Longrightarrow> cond_depth c \<le> 1"
  "parse_value_test field d ts = Inr (c, ts') \<Longrightarrow> cond_depth c \<le> 1"
  using cond_depth_fields
  by (auto dest!: header_test_Inr exists_test_Inr simp: parse_value_test_def and_then_Inr_iff)

lemma equal_fold_groups:
  "equal_fold w ''allof'' \<or> equal_fold w ''anyof'' \<Longrightarrow> to_lower w = ''allof'' \<or> to_lower w = ''anyof''"
  by (auto simp: equal_fold_def to_lower_def lower_char_def)

lemma parseTest_shape:
  "d \<le> maxTestNestingDepth \<Longrightarrow> parseTest n d ts = Inr (c, ts') \<Longrightarrow>
     canonical_cond c \<and> d + cond_depth c \<le> Suc maxTestNestingDepth"
  "d \<le> maxTestNestingDepth \<Longrightarrow> parse_conds n d ts acc = Inr (cs, ts') \<Longrightarrow>
     (\<forall>c\<in>set acc. canonical_cond c \<and> d + cond_depth c \<le> Suc maxTestNestingDepth) \<Longrightarrow>
     cs \<noteq> [] \<and> (\<forall>c\<in>set cs. canonical_cond c \<and> d + cond_depth c \<le> Suc maxTestNestingDepth)"
proof (induction n d ts and n d ts acc arbitrary: c ts' and cs ts' rule: parseTest_parse_conds.induct)
  case (1 depth ts)
  then show ?case by simp
next
  case (2 n depth ts)
  let ?t = "peek ts" and ?ts1 = "next_tok ts"
  have w: "tok_kind ?t = TokWord" using "2.prems" by (auto simp: Let_def split: if_splits)
  consider (neg) "equal_fold (tok_text ?t) ''not''"
    | (grp) "\<not> equal_fold (tok_text ?t) ''not''"
        "equal_fold (tok_text ?t) ''allof'' \<or> equal_fold (tok_text ?t) ''anyof''"
    | (leaf) "\<not> equal_fold (tok_text ?t) ''not''"
        "\<not> (equal_fold (tok_text ?t) ''allof'' \<or> equal_fold (tok_text ?t) ''anyof'')"
    by blast
  then show ?case
  proof cases
    case neg
    then obtain inner ts1 where d: "Suc depth \<le> maxTestNestingDepth"
      and p: "parseTest n (Suc depth) ?ts1 = Inr (inner, ts1)" and c: "c = negate_condition inner"
      using "2.prems"(2) w by (auto simp: Let_def and_then_Inr_iff enterTest_Inr)
    from "2.IH"(1) [OF refl _ neg d p] w c show ?thesis by auto
  next
    case grp
    then obtain t1 ts1 conds ts2 where d: "Suc depth \<le> maxTestNestingDepth"
      and e: "expect TokLParen ''('' ?ts1 = Inr (t1, ts1)"
      and p: "parse_conds n (Suc depth) ts1 [] = Inr (conds, ts2)"
      and c: "c = group_condition (MatchGroup (to_lower (tok_text ?t)) conds)"
      using "2.prems"(2) w by (auto simp: Let_def and_then_Inr_iff enterTest_Inr)
    have "conds \<noteq> [] \<and> (\<forall>c\<in>set conds. canonical_cond c \<and> Suc depth + cond_depth c \<le> Suc maxTestNestingDepth)"
      using "2.IH"(2) [OF refl _ grp, of "Suc depth" ts1 conds ts2] w d p by simp
    then show ?thesis
      using equal_fold_groups [OF grp(2)] d
        add_group_depth_le [of depth "to_lower (tok_text ?t)" conds "Suc maxTestNestingDepth"]
      by (auto simp: c list_all_iff simp del: group_depth.simps)
  next
    case leaf
    then have "parse_header_test (tok_line ?t) ?ts1 = Inr (c, ts') \<or>
        parse_exists_test (tok_line ?t) ?ts1 = Inr (c, ts') \<or>
        parse_value_test ''body'' ''contains'' ?ts1 = Inr (c, ts') \<or>
        parse_value_test ''keyword'' ''is'' ?ts1 = Inr (c, ts')"
      using "2.prems"(2) w by (simp add: Let_def split: if_splits)
    then have "canonical_cond c \<and> cond_depth c \<le> 1"
      by (elim disjE) (use canonical_tests depth_tests in \<open>metis (no_types)\<close>)+
    then show ?thesis using "2.prems"(1) by simp
  qed
next
  case (3 depth ts acc)
  then show ?case by simp
next
  case (4 n depth ts acc)
  then obtain c ts1 where p: "parseTest n depth ts = Inr (c, ts1)"
    by (auto simp: and_then_Inr_iff)
  from "4.IH"(1) [OF "4.prems"(1) p]
  have c: "canonical_cond c \<and> depth + cond_depth c \<le> Suc maxTestNestingDepth" .
  show ?case
  proof (cases "tok_kind (peek ts1) = TokComma")
    case True
    have "parse_conds n depth (next_tok ts1) (acc @ [c]) = Inr (cs, ts')"
      using "4.prems"(2) p True by simp
    from "4.IH"(2) [OF True "4.prems"(1) this] c "4.prems"(3) show ?thesis by auto
  next
    case False
    then have "cs = acc @ [c]" using "4.prems"(2) p by simp
    with "4.prems"(3) c show ?thesis by auto
  qed
qed

lemma parseAction_canonical:
  "parseAction ts = Inr (a, ts') \<Longrightarrow> a_Type a \<noteq> ''keep'' \<Longrightarrow> canonical_action a"
  by (auto simp: parseAction_def Let_def parse_value_action_def parse_plain_action_def mk_action_def
      and_then_Inr_iff canonical_action_def valued_types_def plain_types_def split: if_splits)

lemma parse_actions_canonical:
  "parse_actions n ts acc = Inr (acts, ts') \<Longrightarrow> list_all canonical_action acc \<Longrightarrow>
     list_all canonical_action acts"
proof (induction n ts acc rule: parse_actions.induct)
  case (2 n ts acc)
  show ?case
  proof (cases "tok_kind (peek ts) = TokRBrace")
    case True
    with "2.prems" show ?thesis by simp
  next
    case False
    then obtain a ts1 where a: "parseAction ts = Inr (a, ts1)"
      and p: "parse_actions n ts1 (if a_Type a \<noteq> ''keep'' then acc @ [a] else acc) = Inr (acts, ts')"
      and e: "tok_kind (peek ts) \<noteq> TokEOF"
      using "2.prems"(1) by (auto simp: and_then_Inr_iff split: if_splits)
    have "list_all canonical_action (if a_Type a \<noteq> ''keep'' then acc @ [a] else acc)"
      using "2.prems"(2) parseAction_canonical [OF a] by simp
    with "2.IH" [OF False e p] show ?thesis .
  qed
qed simp

lemma root_match_shape:
  "canonical_cond c \<Longrightarrow> canonical_group (root_match c)"
  "cond_depth c \<le> k \<Longrightarrow> 0 < k \<Longrightarrow> group_depth (root_match c) \<le> k"
  by (cases c; auto simp: root_match_def split: option.splits)+

lemma ParseRuleText_shape:
  assumes "ParseRuleText str existing = Inr r"
  shows "canonical_rule r" "group_depth (r_Match r) \<le> Suc maxTestNestingDepth"
    "r = existing\<lparr>r_Match := r_Match r, r_Actions := r_Actions r\<rparr>"
proof -
  obtain n ts2 c ts3 m ts4 acts ts5
    where p: "parseTest n 0 ts2 = Inr (c, ts3)" "parse_actions m ts4 [] = Inr (acts, ts5)"
      and r: "r = existing\<lparr>r_Match := root_match c, r_Actions := acts\<rparr>"
    using assms
    by (auto simp: ParseRuleText_def parse_rule_tokens_def and_then_Inr_iff split: if_splits)
  from parseTest_shape(1) [OF _ p(1)]
  have c: "canonical_cond c" "cond_depth c \<le> Suc maxTestNestingDepth" by auto
  show "canonical_rule r" "group_depth (r_Match r) \<le> Suc maxTestNestingDepth"
    "r = existing\<lparr>r_Match := r_Match r, r_Actions := r_Actions r\<rparr>"
    using root_match_shape(1) [OF c(1)] root_match_shape(2) [OF c(2)]
      parse_actions_canonical [OF p(2)]
    by (simp_all add: canonical_rule_def r)
qed

section \<open>Canonical rules compile\<close>

lemma collect_Inr: "collect rs = Inr xs \<longleftrightarrow> rs = map Inr xs"
proof (induction rs arbitrary: xs rule: collect.induct)
  case (3 x rs)
  show ?case
  proof (cases "collect rs")
    case (Inl e)
    with 3 [of "tl xs"] show ?thesis by (cases xs) auto
  next
    case (Inr ys)
    with 3 [of ys] show ?thesis by (auto simp: Cons_eq_map_conv)
  qed
qed auto

lemma collect_map_Inr:
  assumes "\<And>x. x \<in> set xs \<Longrightarrow> \<exists>y. f x = Inr y"
  shows "\<exists>ys. collect (map f xs) = Inr ys"
  using assms
proof (induction xs)
  case (Cons a xs)
  obtain y where "f a = Inr y" using Cons.prems by fastforce
  moreover obtain ys where "collect (map f xs) = Inr ys" using Cons by fastforce
  ultimately show ?case by simp
qed simp

lemma normal_field:
  "f \<in> set (''body'' # ''keyword'' # validHeaderAddressFields) \<Longrightarrow> to_lower (trim_space f) = f"
proof -
  have "list_all (\<lambda>f. to_lower (trim_space f) = f) (''body'' # ''keyword'' # validHeaderAddressFields)"
    by code_simp
  then show "f \<in> set (''body'' # ''keyword'' # validHeaderAddressFields) \<Longrightarrow> to_lower (trim_space f) = f"
    unfolding list_all_iff by blast
qed

lemma leaf_compiles:
  assumes "canonical_leaf f cmp v"
  shows "\<exists>t. compileLeafCondition (Condition neg grp f cmp v) = Inr t"
proof -
  have "f \<in> set (''body'' # ''keyword'' # validHeaderAddressFields)"
    using assms by (auto simp: canonical_leaf_def)
  from normal_field [OF this] this show ?thesis
    by (auto simp: validHeaderAddressFields_def compileLeafCondition_def Let_def)
qed

lemma canonical_compiles:
  "canonical_group g \<Longrightarrow> \<exists>t. compileMatchGroup g = Inr t"
  "canonical_cond c \<Longrightarrow> \<exists>t. compileCondition c = Inr t"
proof (induction g and c rule: compileMatchGroup_compileCondition.induct)
  case (1 oper conds)
  then have "\<exists>ys. collect (map compileCondition conds) = Inr ys"
    by (intro collect_map_Inr) (auto simp: list_all_iff)
  then show ?case by auto
next
  case (2 neg grp f cmp v)
  show ?case
  proof (cases grp)
    case None
    with 2 leaf_compiles [of f cmp v neg None] show ?thesis by auto
  next
    case (Some g)
    with 2 show ?thesis by auto
  qed
qed

lemma action_compiles: "canonical_action a \<Longrightarrow> \<exists>t. compileAction a = Inr t"
  by (auto simp: canonical_action_def valued_types_def plain_types_def compileAction_def Let_def)

lemma canonical_rule_compiles:
  assumes "canonical_rule r"
  shows "\<exists>t. CompileRule r = Inr t"
proof -
  obtain t where "compileMatchGroup (r_Match r) = Inr t"
    using assms canonical_compiles by (auto simp: canonical_rule_def)
  moreover obtain ls where "collect (map compileAction (r_Actions r)) = Inr ls"
    using assms collect_map_Inr [of "r_Actions r" compileAction] action_compiles
    by (auto simp: canonical_rule_def list_all_iff)
  ultimately show ?thesis by (simp add: CompileRule_def Let_def)
qed

end
