(* ===== verification/Sieve_Roundtrip.thy ===== *)
theory Sieve_Roundtrip
  imports Sieve_Parser
begin

text \<open>
  The round trip of the Sieve subset: the text compiled from a canonical rule is lexed to
  the token sequence written down here, and parsing that sequence gives the rule back.
\<close>

section \<open>Lexing compiled text\<close>

text \<open>A token without its line.\<close>

definition kt :: "token \<Rightarrow> tok_kind \<times> string" where
  "kt t = (tok_kind t, tok_text t)"

text \<open>
  \<open>lexes str ks\<close>: in front of any text, str is lexed to tokens with the kinds and texts ks.
\<close>

named_theorems lexes_intros

definition lexes :: "string \<Rightarrow> (tok_kind \<times> string) list \<Rightarrow> bool" where
  "lexes str ks \<longleftrightarrow>
    (\<forall>rest line. \<exists>toks line'. map kt toks = ks \<and>
      lex_loop (str @ rest) line = map_sum id (\<lambda>ts. toks @ ts) (lex_loop rest line'))"

lemma lexesD:
  assumes "lexes str ks"
  obtains toks line' where "map kt toks = ks"
    "lex_loop (str @ rest) line = map_sum id (\<lambda>ts. toks @ ts) (lex_loop rest line')"
  using assms unfolding lexes_def by blast

lemma lexes_Nil: "lexes '''' []"
  unfolding lexes_def
proof (intro allI exI conjI)
  fix rest line
  show "lex_loop ('''' @ rest) line = map_sum id (\<lambda>ts. [] @ ts) (lex_loop rest line)"
    by (cases "lex_loop rest line") simp_all
qed simp

lemma lexes_append [lexes_intros]:
  assumes "lexes a ks" "lexes b ls"
  shows "lexes (a @ b) (ks @ ls)"
  unfolding lexes_def
proof (intro allI)
  fix rest line
  obtain t1 l1 where 1: "map kt t1 = ks"
    "lex_loop (a @ b @ rest) line = map_sum id (\<lambda>ts. t1 @ ts) (lex_loop (b @ rest) l1)"
    using assms(1) by (rule lexesD)
  obtain t2 l2 where 2: "map kt t2 = ls"
    "lex_loop (b @ rest) l1 = map_sum id (\<lambda>ts. t2 @ ts) (lex_loop rest l2)"
    using assms(2) by (rule lexesD)
  have "lex_loop ((a @ b) @ rest) line = map_sum id (\<lambda>ts. (t1 @ t2) @ ts) (lex_loop rest l2)"
    using 1(2) 2(2) by (cases "lex_loop rest l2") simp_all
  then show "\<exists>toks line'. map kt toks = ks @ ls \<and>
      lex_loop ((a @ b) @ rest) line = map_sum id (\<lambda>ts. toks @ ts) (lex_loop rest line')"
    using 1(1) 2(1) by (metis map_append)
qed

lemma lex_loop_ws:
  assumes "c \<in> {CHR '' '', CHR 0x09, CHR 0x0D, newline}"
  shows "lex_loop (c # cs) line = lex_loop cs (next_line c line)"
proof -
  have "skipWhitespaceAndComments (c # cs) line = skipWhitespaceAndComments cs (next_line c line)"
    using assms by auto
  then show ?thesis
    by (subst lex_loop.simps [of "c # cs"], subst lex_loop.simps [of cs]) simp
qed

lemma lexes_ws:
  assumes "c \<in> {CHR '' '', CHR 0x09, CHR 0x0D, newline}"
  shows "lexes [c] []"
  unfolding lexes_def
proof (intro allI exI conjI)
  fix rest line
  show "lex_loop ([c] @ rest) line = map_sum id (\<lambda>ts. [] @ ts) (lex_loop rest (next_line c line))"
    using lex_loop_ws [OF assms, of rest line]
    by (cases "lex_loop rest (next_line c line)") simp_all
qed simp

lemma lexes_space [lexes_intros]: "lexes '' '' []"
  and lexes_newline [lexes_intros]: "lexes [newline] []"
  by (rule lexes_ws; simp)+

text \<open>A character that starts a token.\<close>

definition starts_token :: "char \<Rightarrow> bool" where
  "starts_token c \<longleftrightarrow> c \<notin> {CHR '' '', CHR 0x09, CHR 0x0D, newline, CHR ''#'', CHR ''/''}"

lemma lexes_token:
  assumes "starts_token c"
    and "\<And>rest line. \<exists>t line'. kt t = k \<and> lex_token c (str @ rest) line = Inr (t, rest, line')"
  shows "lexes (c # str) [k]"
  unfolding lexes_def
proof (intro allI)
  fix rest line
  obtain t line' where t: "kt t = k" "lex_token c (str @ rest) line = Inr (t, rest, line')"
    using assms(2) by blast
  have "skipWhitespaceAndComments (c # str @ rest) line = Inr (c # str @ rest, line)"
    using assms(1) by (simp add: starts_token_def)
  with t(2) have "lex_loop ((c # str) @ rest) line = map_sum id (\<lambda>ts. [t] @ ts) (lex_loop rest line')"
    by (subst lex_loop.simps) (auto split: sum.split)
  with t(1) show "\<exists>toks line'. map kt toks = [k] \<and>
      lex_loop ((c # str) @ rest) line = map_sum id (\<lambda>ts. toks @ ts) (lex_loop rest line')"
    by (metis list.map(1) list.map(2))
qed

lemma lexes_punct:
  assumes "punct_kind c = Some k" "starts_token c"
  shows "lexes [c] [(k, [c])]"
  using assms by (intro lexes_token) (simp_all add: lex_token_def kt_def mk_token_def)

text \<open>A word needs a following character that ends it.\<close>

definition ends_word :: "string \<Rightarrow> bool" where
  "ends_word str \<longleftrightarrow> str \<noteq> [] \<and> \<not> isWordRune (hd str)"

lemma takeWhile_word:
  assumes "list_all isWordRune w" "ends_word str"
  shows "takeWhile isWordRune (w @ str) = w" "dropWhile isWordRune (w @ str) = str"
  using assms by (cases str; auto simp: list_all_iff ends_word_def takeWhile_tail)+

lemma word_rune_starts:
  assumes "isWordRune c"
  shows "starts_token c" "punct_kind c = None" "c \<noteq> CHR 0x22" "c \<noteq> CHR '':''"
proof -
  have "list_all (\<lambda>d. \<not> isWordRune d)
      [CHR '' '', CHR 0x09, CHR 0x0D, newline, CHR ''#'', CHR ''/'', CHR ''['', CHR '']'',
       CHR ''('', CHR '')'', CHR ''{'', CHR ''}'', CHR '';'', CHR '','', CHR 0x22, CHR '':'']"
    by code_simp
  with assms have "c \<notin> {CHR '' '', CHR 0x09, CHR 0x0D, newline, CHR ''#'', CHR ''/'', CHR ''['', CHR '']'',
       CHR ''('', CHR '')'', CHR ''{'', CHR ''}'', CHR '';'', CHR '','', CHR 0x22, CHR '':''}"
    unfolding list_all_iff by auto
  then show "starts_token c" "punct_kind c = None" "c \<noteq> CHR 0x22" "c \<noteq> CHR '':''"
    by (simp_all add: starts_token_def punct_kind_def)
qed

lemma lexes_Cons:
  assumes "starts_token c"
    and "\<And>rest line. \<exists>t line'. kt t = k \<and> lex_token c (w @ str @ rest) line = Inr (t, str @ rest, line')"
    and "lexes str ks"
  shows "lexes (c # w @ str) (k # ks)"
  unfolding lexes_def
proof (intro allI)
  fix rest line
  obtain t line' where t: "kt t = k" "lex_token c (w @ str @ rest) line = Inr (t, str @ rest, line')"
    using assms(2) by blast
  obtain toks line2 where l: "map kt toks = ks"
    "lex_loop (str @ rest) line' = map_sum id (\<lambda>ts. toks @ ts) (lex_loop rest line2)"
    using assms(3) by (rule lexesD)
  have "skipWhitespaceAndComments (c # w @ str @ rest) line = Inr (c # w @ str @ rest, line)"
    using assms(1) by (simp add: starts_token_def)
  with t(2) l(2) have "lex_loop ((c # w @ str) @ rest) line
      = map_sum id (\<lambda>ts. (t # toks) @ ts) (lex_loop rest line2)"
    by (subst lex_loop.simps) (cases "lex_loop rest line2"; simp)
  with t(1) l(1) show "\<exists>toks line'. map kt toks = k # ks \<and>
      lex_loop ((c # w @ str) @ rest) line = map_sum id (\<lambda>ts. toks @ ts) (lex_loop rest line')"
    by (metis list.map(2))
qed

lemma lexes_word:
  assumes "w \<noteq> ''''" "list_all isWordRune w" "ends_word str" "lexes str ks"
  shows "lexes (w @ str) ((TokWord, w) # ks)"
proof -
  obtain c w' where w: "w = c # w'" using assms(1) by (cases w) auto
  have c: "isWordRune c" using assms(2) w by simp
  have "ends_word (str @ rest)" for rest using assms(3) by (simp add: ends_word_def)
  then have "takeWhile isWordRune (w @ str @ rest) = w" "dropWhile isWordRune (w @ str @ rest) = str @ rest"
    for rest using takeWhile_word [OF assms(2)] by blast+
  then have "lex_token c (w' @ str @ rest) line = Inr (mk_token TokWord w line, str @ rest, line)"
    for rest line
    using c word_rune_starts [OF c] by (simp add: lex_token_def w)
  then have "lexes (c # w' @ str) ((TokWord, w) # ks)"
    using word_rune_starts(1) [OF c] assms(4)
    by (intro lexes_Cons) (auto simp: kt_def mk_token_def)
  then show ?thesis by (simp add: w)
qed

lemma lexes_tag:
  assumes "list_all isWordRune w" "ends_word str" "lexes str ks"
  shows "lexes ('':'' @ w @ str) ((TokColonTag, w) # ks)"
proof -
  have "ends_word (str @ rest)" for rest using assms(2) by (simp add: ends_word_def)
  then have "lex_token CHR '':'' (w @ str @ rest) line
      = Inr (mk_token TokColonTag w line, str @ rest, line)" for rest line
    using takeWhile_word [OF assms(1)] by (simp add: lex_token_def punct_kind_def)
  then have "lexes (CHR '':'' # w @ str) ((TokColonTag, w) # ks)"
    using assms(3) by (intro lexes_Cons) (auto simp: kt_def mk_token_def starts_token_def)
  then show ?thesis by simp
qed

text \<open>Printable ASCII: \<open>strconv.Quote\<close> then escapes only the quote and the backslash.\<close>

definition printable :: "string \<Rightarrow> bool" where
  "printable v \<longleftrightarrow> list_all (\<lambda>c. 32 \<le> (of_char c :: nat) \<and> (of_char c :: nat) < 127) v"

lemma lex_string_quote:
  "printable v \<Longrightarrow>
    lex_string (concat (map quote_char v) @ CHR 0x22 # rest) line sb = Some (sb @ v, rest, line)"
proof (induction v arbitrary: sb)
  case (Cons c v)
  then have v: "printable v" and c: "32 \<le> (of_char c :: nat)" "(of_char c :: nat) < 127"
    by (simp_all add: printable_def)
  have nl: "c \<noteq> newline" using c(1) by auto
  consider "c = CHR 0x22" | "c = CHR 0x5C" | "c \<noteq> CHR 0x22" "c \<noteq> CHR 0x5C" by blast
  then show ?case
  proof cases
    case 1
    moreover have "quote_char CHR 0x22 = [CHR 0x5C, CHR 0x22]" by (simp add: quote_char_def)
    ultimately show ?thesis using Cons.IH [OF v, of "sb @ [c]"] by (simp add: next_line_def)
  next
    case 2
    moreover have "quote_char CHR 0x5C = [CHR 0x5C, CHR 0x5C]" by (simp add: quote_char_def Let_def)
    ultimately show ?thesis using Cons.IH [OF v, of "sb @ [c]"] by (simp add: next_line_def)
  next
    case 3
    then have "quote_char c = [c]" using c by (simp add: quote_char_def Let_def)
    then show ?thesis using 3 nl Cons.IH [OF v, of "sb @ [c]"] by (simp add: next_line_def)
  qed
qed simp

lemma lexes_quote [lexes_intros]:
  assumes "printable v"
  shows "lexes (quote v) [(TokString, v)]"
proof -
  have "\<exists>t line'. kt t = (TokString, v) \<and>
      lex_token CHR 0x22 ((concat (map quote_char v) @ [CHR 0x22]) @ rest) line = Inr (t, rest, line')"
    for rest line
    using lex_string_quote [OF assms, of rest line "''''"]
    by (auto simp: lex_token_def punct_kind_def kt_def mk_token_def)
  then show ?thesis
    unfolding quote_def by (intro lexes_token) (simp_all add: starts_token_def)
qed

section \<open>The tokens of compiled text\<close>

abbreviation "LP \<equiv> (TokLParen, ''('')"
abbreviation "RP \<equiv> (TokRParen, '')'')"
abbreviation "LK \<equiv> (TokLBracket, ''['')"
abbreviation "RK \<equiv> (TokRBracket, '']'')"
abbreviation "LC \<equiv> (TokLBrace, ''{'')"
abbreviation "RC \<equiv> (TokRBrace, ''}'')"
abbreviation "SM \<equiv> (TokSemicolon, '';'')"
abbreviation "CM \<equiv> (TokComma, '','')"

lemma lexes_punctuation [lexes_intros]:
  "lexes ''('' [LP]" "lexes '')'' [RP]" "lexes ''['' [LK]" "lexes '']'' [RK]"
  "lexes ''{'' [LC]" "lexes ''}'' [RC]" "lexes '';'' [SM]" "lexes '','' [CM]"
  by (rule lexes_punct; simp add: punct_kind_def starts_token_def)+

fun sep_toks :: "(tok_kind \<times> string) list list \<Rightarrow> (tok_kind \<times> string) list" where
  "sep_toks [] = []"
| "sep_toks [x] = x"
| "sep_toks (x # y # ys) = x @ CM # sep_toks (y # ys)"

lemma lexes_join:
  assumes "list_all2 lexes strs kss"
  shows "lexes (str_join '', '' strs) (sep_toks kss)"
  using assms
proof (induction strs arbitrary: kss rule: induct_list012)
  case (3 x y ys)
  then obtain kx ky kys where k: "kss = kx # ky # kys" "lexes x kx" "list_all2 lexes (y # ys) (ky # kys)"
    by (auto simp: list_all2_Cons1)
  have "lexes ('','' @ '' '') ([CM] @ [])" by (intro lexes_intros)
  then have "lexes (x @ '', '' @ str_join '', '' (y # ys)) (kx @ [CM] @ sep_toks (ky # kys))"
    using k "3.IH"(2) [OF k(3)] by (intro lexes_append) simp_all
  then show ?case by (simp add: k)
qed (auto simp: lexes_Nil list_all2_Cons1)

definition leaf_toks :: "string \<Rightarrow> string \<Rightarrow> string \<Rightarrow> (tok_kind \<times> string) list" where
  "leaf_toks f cmp v =
    (if f = ''body'' then [(TokWord, ''body''), (TokColonTag, cmp), (TokString, v)]
     else if f = ''keyword'' then [(TokWord, ''hasflag''), (TokColonTag, cmp), (TokString, v)]
     else if cmp = ''exists'' then [(TokWord, ''exists''), LK, (TokString, f), RK]
     else [(TokWord, ''header''), (TokColonTag, cmp), LK, (TokString, f), RK, (TokString, v)])"

fun group_toks :: "match_group \<Rightarrow> (tok_kind \<times> string) list"
  and cond_toks :: "condition \<Rightarrow> (tok_kind \<times> string) list" where
  "group_toks (MatchGroup oper conds) =
     (TokWord, oper) # LP # sep_toks (map cond_toks conds) @ [RP]"
| "cond_toks (Condition neg grp f cmp v) =
     (if neg then [(TokWord, ''not'')] else []) @
     (case grp of Some g \<Rightarrow> group_toks g | None \<Rightarrow> leaf_toks f cmp v)"

text \<open>Every value of the tree is printable.\<close>

fun printable_group :: "match_group \<Rightarrow> bool" and printable_cond :: "condition \<Rightarrow> bool" where
  "printable_group (MatchGroup oper conds) = list_all printable_cond conds"
| "printable_cond (Condition neg grp f cmp v) =
     (case grp of Some g \<Rightarrow> printable_group g | None \<Rightarrow> printable v)"

lemma comparatorTag_canonical: "cmp \<in> set sieve_comparators \<Longrightarrow> comparatorTag cmp = cmp"
proof -
  have "list_all (\<lambda>c. comparatorTag c = c) sieve_comparators" by code_simp
  then show "cmp \<in> set sieve_comparators \<Longrightarrow> comparatorTag cmp = cmp" unfolding list_all_iff by blast
qed

lemma comparator_runes: "cmp \<in> set sieve_comparators \<Longrightarrow> list_all isWordRune cmp \<and> \<not> equal_fold cmp ''exists'' \<and> cmp \<noteq> ''exists''"
proof -
  have "list_all (\<lambda>c. list_all isWordRune c \<and> \<not> equal_fold c ''exists'' \<and> c \<noteq> ''exists'') sieve_comparators"
    by code_simp
  then show "cmp \<in> set sieve_comparators \<Longrightarrow> list_all isWordRune cmp \<and> \<not> equal_fold cmp ''exists'' \<and> cmp \<noteq> ''exists''"
    unfolding list_all_iff [of _ sieve_comparators] by blast
qed

lemma known_field_printable: "f \<in> set validHeaderAddressFields \<Longrightarrow> printable f"
proof -
  have "list_all printable validHeaderAddressFields" by code_simp
  then show "f \<in> set validHeaderAddressFields \<Longrightarrow> printable f" unfolding list_all_iff by blast
qed

lemma ends_word_intros [lexes_intros]:
  "ends_word ('' '' @ str)" "ends_word ('':'' @ str)" "ends_word (''('' @ str)" "ends_word ('';'' @ str)"
  by (simp_all add: ends_word_def isWordRune_def)

lemma lexes_sp [lexes_intros]: "lexes str ks \<Longrightarrow> lexes ('' '' @ str) ks"
  using lexes_append [OF lexes_space] by fastforce

lemma lexes_nl [lexes_intros]: "lexes str ks \<Longrightarrow> lexes ([newline] @ str) ks"
  using lexes_append [OF lexes_newline] by fastforce

lemma lexes_punct_Cons [lexes_intros]:
  "lexes str ks \<Longrightarrow> lexes (''('' @ str) (LP # ks)" "lexes str ks \<Longrightarrow> lexes (''['' @ str) (LK # ks)"
  "lexes str ks \<Longrightarrow> lexes ('']'' @ str) (RK # ks)" "lexes str ks \<Longrightarrow> lexes (''{'' @ str) (LC # ks)"
  "lexes str ks \<Longrightarrow> lexes ('';'' @ str) (SM # ks)"
  using lexes_append [OF lexes_punctuation(1)] lexes_append [OF lexes_punctuation(3)]
    lexes_append [OF lexes_punctuation(4)] lexes_append [OF lexes_punctuation(5)]
    lexes_append [OF lexes_punctuation(7)]
  by fastforce+

lemma lexes_quote_Cons [lexes_intros]:
  "printable v \<Longrightarrow> lexes str ks \<Longrightarrow> lexes (quote v @ str) ((TokString, v) # ks)"
  using lexes_append [OF lexes_quote] by fastforce

lemma words: "list_all isWordRune ''header''" "list_all isWordRune ''exists''" "list_all isWordRune ''body''"
  "list_all isWordRune ''hasflag''" "list_all isWordRune ''not''" "list_all isWordRune ''if''"
  "list_all isWordRune ''allof''" "list_all isWordRune ''anyof''" "list_all isWordRune ''require''"
  by code_simp+

lemma lexes_leaf:
  assumes "canonical_leaf f cmp v" "printable v"
    and "compileLeafCondition (Condition neg grp f cmp v) = Inr str"
  shows "lexes str (leaf_toks f cmp v)"
proof -
  have f: "to_lower (trim_space f) = f"
    by (rule normal_field) (use assms(1) in \<open>auto simp: canonical_leaf_def\<close>)
  consider (ex) "f \<in> set validHeaderAddressFields" "cmp = ''exists''" "v = ''''"
    | (header) "f \<in> set validHeaderAddressFields" "cmp \<in> set sieve_comparators"
    | (body) "f = ''body''" "cmp \<in> set sieve_comparators"
    | (keyword) "f = ''keyword''" "cmp \<in> set sieve_comparators"
    using assms(1) by (auto simp: canonical_leaf_def)
  then show ?thesis
  proof cases
    case ex
    have "lexes (''exists'' @ '' '' @ ''['' @ quote f @ '']'')
        [(TokWord, ''exists''), LK, (TokString, f), RK]"
      by (intro lexes_word lexes_intros words known_field_printable ex) simp
    moreover have "str = ''exists'' @ '' '' @ ''['' @ quote f @ '']''"
      using assms(3) ex f by (auto simp: compileLeafCondition_def Let_def validHeaderAddressFields_def equal_fold_def)
    ultimately show ?thesis using ex by (auto simp: leaf_toks_def validHeaderAddressFields_def)
  next
    case header
    have "lexes (''header'' @ '' '' @ '':'' @ cmp @ '' '' @ ''['' @ quote f @ '']'' @ '' '' @ quote v)
        [(TokWord, ''header''), (TokColonTag, cmp), LK, (TokString, f), RK, (TokString, v)]"
      using comparator_runes [OF header(2)] assms(2)
        known_field_printable [OF header(1)]
      by (intro lexes_word lexes_tag lexes_intros words) simp_all
    moreover have "str = ''header'' @ '' '' @ '':'' @ cmp @ '' '' @ ''['' @ quote f @ '']'' @ '' '' @ quote v"
      using assms(3) header f comparator_runes [OF header(2)] comparatorTag_canonical [OF header(2)]
      by (auto simp: compileLeafCondition_def Let_def validHeaderAddressFields_def)
    ultimately show ?thesis using header comparator_runes [OF header(2)]
      by (auto simp: leaf_toks_def validHeaderAddressFields_def)
  next
    case body
    have "lexes (''body'' @ '' '' @ '':'' @ cmp @ '' '' @ quote v)
        [(TokWord, ''body''), (TokColonTag, cmp), (TokString, v)]"
      using comparator_runes [OF body(2)] assms(2)
      by (intro lexes_word lexes_tag lexes_intros words) simp_all
    moreover have "str = ''body'' @ '' '' @ '':'' @ cmp @ '' '' @ quote v"
      using assms(3) body f comparatorTag_canonical [OF body(2)]
      by (auto simp: compileLeafCondition_def Let_def)
    ultimately show ?thesis using body by (simp add: leaf_toks_def)
  next
    case keyword
    have "lexes (''hasflag'' @ '' '' @ '':'' @ cmp @ '' '' @ quote v)
        [(TokWord, ''hasflag''), (TokColonTag, cmp), (TokString, v)]"
      using comparator_runes [OF keyword(2)] assms(2)
      by (intro lexes_word lexes_tag lexes_intros words) simp_all
    moreover have "str = ''hasflag'' @ '' '' @ '':'' @ cmp @ '' '' @ quote v"
      using assms(3) keyword f comparatorTag_canonical [OF keyword(2)]
      by (auto simp: compileLeafCondition_def Let_def)
    ultimately show ?thesis using keyword by (simp add: leaf_toks_def)
  qed
qed

lemma group_op_canonical: "oper = ''allof'' \<or> oper = ''anyof'' \<Longrightarrow> group_op oper = oper"
proof -
  have "group_op ''allof'' = ''allof''" "group_op ''anyof'' = ''anyof''" by code_simp+
  then show "oper = ''allof'' \<or> oper = ''anyof'' \<Longrightarrow> group_op oper = oper" by auto
qed

lemma lexes_group:
  "canonical_group g \<Longrightarrow> printable_group g \<Longrightarrow> compileMatchGroup g = Inr str \<Longrightarrow> lexes str (group_toks g)"
  "canonical_cond c \<Longrightarrow> printable_cond c \<Longrightarrow> compileCondition c = Inr str \<Longrightarrow> lexes str (cond_toks c)"
proof (induction g and c arbitrary: str and str rule: compileMatchGroup_compileCondition.induct)
  case (1 oper conds)
  then obtain parts where p: "map compileCondition conds = map Inr parts"
    and str: "str = group_op oper @ ''('' @ str_join '', '' parts @ '')''"
    by (auto simp: collect_Inr split: sum.splits)
  have len: "length parts = length conds" using p by (metis length_map)
  have "oper = ''allof'' \<or> oper = ''anyof''" using "1.prems"(1) by simp
  then have oper: "oper \<noteq> ''''" "list_all isWordRune oper" using words(7,8) by (auto simp only: list.simps)
  have "list_all2 lexes parts (map cond_toks conds)"
    unfolding list_all2_conv_all_nth
  proof (intro conjI allI impI)
    fix i assume i: "i < length parts"
    have "compileCondition (conds ! i) = Inr (parts ! i)"
      using p i len by (metis nth_map)
    moreover have "conds ! i \<in> set conds" using i len by simp
    ultimately show "lexes (parts ! i) (map cond_toks conds ! i)"
      using "1.IH" "1.prems"(1,2) i len by (auto simp: list_all_iff)
  qed (simp add: len)
  then have "lexes (str_join '', '' parts @ '')'') (sep_toks (map cond_toks conds) @ [RP])"
    by (intro lexes_append lexes_join lexes_punctuation)
  then have "lexes (oper @ ''('' @ str_join '', '' parts @ '')'')
      ((TokWord, oper) # LP # sep_toks (map cond_toks conds) @ [RP])"
    using oper by (intro lexes_word ends_word_intros lexes_punct_Cons)
  then show ?case using str group_op_canonical "1.prems"(1) by auto
next
  case (2 neg grp f cmp v)
  obtain inner where i: "(case grp of Some g \<Rightarrow> compileMatchGroup g
        | None \<Rightarrow> compileLeafCondition (Condition neg grp f cmp v)) = Inr inner"
    and str: "str = (if neg then ''not '' @ inner else inner)"
    using "2.prems"(3) by (auto split: sum.splits)
  have l: "lexes inner (case grp of Some g \<Rightarrow> group_toks g | None \<Rightarrow> leaf_toks f cmp v)"
  proof (cases grp)
    case None
    with "2.prems" i lexes_leaf show ?thesis by auto
  next
    case (Some g)
    with "2.IH" "2.prems" i show ?thesis by simp
  qed
  then have "lexes (''not'' @ '' '' @ inner)
      ((TokWord, ''not'') # (case grp of Some g \<Rightarrow> group_toks g | None \<Rightarrow> leaf_toks f cmp v))"
    by (intro lexes_word lexes_intros words) simp_all
  with l show ?case by (simp add: str)
qed

section \<open>Parsing the tokens back\<close>

lemma peek_Cons [simp]: "peek (t # ts) = t"
  by (simp add: peek_def)

lemma next_tok_Cons [simp]: "ts \<noteq> [] \<Longrightarrow> next_tok (t # ts) = ts"
  by (cases ts) (simp_all add: next_tok_def)

lemma map_kt_Cons:
  "map kt T = (k, str) # ks \<longleftrightarrow>
    (\<exists>t T'. T = t # T' \<and> tok_kind t = k \<and> tok_text t = str \<and> map kt T' = ks)"
  by (auto simp: kt_def Cons_eq_map_conv map_eq_Cons_conv)

lemma map_kt_append:
  "map kt T = ks @ ls \<longleftrightarrow> (\<exists>A B. T = A @ B \<and> map kt A = ks \<and> map kt B = ls)"
  by (auto simp: map_eq_append_conv)

lemmas kt_simps = map_kt_Cons map_kt_append

lemma expect_Cons: "expect k what (t # ts) =
    (if tok_kind t \<noteq> k then Inl (Expected (tok_line t) what (tokenDisplay t)) else Inr (t, next_tok (t # ts)))"
  by (simp add: expect_def Let_def)

lemma expectSemicolon_Cons:
  "tok_kind t = TokSemicolon \<Longrightarrow> expectSemicolon (t # ts) = Inr (next_tok (t # ts))"
  by (simp add: expectSemicolon_def expect_Cons)

text \<open>Lists of strings.\<close>

lemma sep_toks_Cons: "sep_toks (x # xs) = (if xs = [] then x else x @ CM # sep_toks xs)"
  by (cases xs) simp_all

lemma parse_strings_toks:
  "map kt T = sep_toks (map (\<lambda>s. [(TokString, s)]) ss) \<Longrightarrow> tok_kind t = TokRBracket \<Longrightarrow>
    parse_strings (T @ t # rest) acc = Inr (acc @ ss, t # rest)"
proof (induction ss arbitrary: T acc)
  case Nil
  then show ?case by (subst parse_strings.simps) simp
next
  case (Cons s ss)
  show ?case
  proof (cases "ss = []")
    case True
    with Cons.prems show ?thesis
      by (subst parse_strings.simps) (auto simp: kt_simps Let_def)
  next
    case False
    with Cons.prems obtain a b T' where T: "T = a # b # T'" "tok_kind a = TokString" "tok_text a = s"
      "tok_kind b = TokComma" "map kt T' = sep_toks (map (\<lambda>s. [(TokString, s)]) ss)"
      by (auto simp: kt_simps sep_toks_Cons)
    from Cons.IH [OF T(5) Cons.prems(2), of "acc @ [s]"] T show ?thesis
      by (subst parse_strings.simps) (simp add: Let_def)
  qed
qed

lemma parseStringList_toks:
  assumes "map kt T = LK # sep_toks (map (\<lambda>s. [(TokString, s)]) ss) @ [RK]" "rest \<noteq> []"
  shows "parseStringList (T @ rest) = Inr (ss, rest)"
proof -
  obtain a T' b where T: "T = a # T' @ [b]" "tok_kind a = TokLBracket" "tok_kind b = TokRBracket"
    "map kt T' = sep_toks (map (\<lambda>s. [(TokString, s)]) ss)"
    using assms(1) by (auto simp: kt_simps)
  show ?thesis
    using T assms(2) parse_strings_toks [OF T(4) T(3), of rest "[]"]
    by (simp add: parseStringList_def expect_Cons)
qed

text \<open>Leaves.\<close>

lemma sieve_comparators_lower:
  "cmp \<in> set sieve_comparators \<Longrightarrow> to_lower cmp = cmp \<and> cmp \<in> {''contains'', ''is'', ''matches'', ''regex''}"
proof -
  have "list_all (\<lambda>c. to_lower c = c) sieve_comparators" by code_simp
  then have "\<forall>c\<in>set sieve_comparators. to_lower c = c" unfolding list_all_iff .
  then show "cmp \<in> set sieve_comparators \<Longrightarrow> to_lower cmp = cmp \<and> cmp \<in> {''contains'', ''is'', ''matches'', ''regex''}"
    unfolding sieve_comparators_def by auto
qed

lemma comparator_toks:
  assumes "tok_kind t = TokColonTag" "tok_text t = cmp" "cmp \<in> set sieve_comparators" "ts \<noteq> []"
  shows "parseComparatorTag d (t # ts) = Inr (cmp, ts)"
  using assms sieve_comparators_lower [OF assms(3)] by (simp add: parseComparatorTag_def)

lemma known_field_single: "f \<in> set validHeaderAddressFields \<Longrightarrow>
    known_fields [f] \<and> fieldsToCondition [f] cmp v = leaf f cmp v"
  using normal_field [of f] by (simp add: known_fields_def fieldsToCondition_def normalizeField_def)

lemma check_fields_known: "known_fields flds \<Longrightarrow> check_fields line what flds = Inr ()"
  by (simp add: check_fields_Inr)

lemma test_words:
  "\<not> equal_fold ''header'' ''not''" "\<not> equal_fold ''header'' ''allof''" "\<not> equal_fold ''header'' ''anyof''"
  "equal_fold ''header'' ''header''"
  "\<not> equal_fold ''exists'' ''not''" "\<not> equal_fold ''exists'' ''allof''" "\<not> equal_fold ''exists'' ''anyof''"
  "\<not> equal_fold ''exists'' ''header''" "\<not> equal_fold ''exists'' ''address''" "equal_fold ''exists'' ''exists''"
  "\<not> equal_fold ''body'' ''not''" "\<not> equal_fold ''body'' ''allof''" "\<not> equal_fold ''body'' ''anyof''"
  "\<not> equal_fold ''body'' ''header''" "\<not> equal_fold ''body'' ''address''" "\<not> equal_fold ''body'' ''exists''"
  "equal_fold ''body'' ''body''"
  "\<not> equal_fold ''hasflag'' ''not''" "\<not> equal_fold ''hasflag'' ''allof''" "\<not> equal_fold ''hasflag'' ''anyof''"
  "\<not> equal_fold ''hasflag'' ''header''" "\<not> equal_fold ''hasflag'' ''address''" "\<not> equal_fold ''hasflag'' ''exists''"
  "\<not> equal_fold ''hasflag'' ''body''" "equal_fold ''hasflag'' ''hasflag''"
  "equal_fold ''not'' ''not''" "\<not> equal_fold ''allof'' ''not''" "\<not> equal_fold ''anyof'' ''not''"
  "equal_fold ''allof'' ''allof''" "equal_fold ''anyof'' ''anyof''"
  by code_simp+

lemma group_words: "oper = ''allof'' \<or> oper = ''anyof'' \<Longrightarrow> to_lower oper = oper"
proof -
  have "to_lower ''allof'' = ''allof''" "to_lower ''anyof'' = ''anyof''" by code_simp+
  then show "oper = ''allof'' \<or> oper = ''anyof'' \<Longrightarrow> to_lower oper = oper" by auto
qed

lemma parse_leaf_toks:
  assumes "canonical_leaf f cmp v" "map kt T = leaf_toks f cmp v" "rest \<noteq> []" "n \<noteq> 0"
  shows "parseTest n d (T @ rest) = Inr (Condition False None f cmp v, rest)"
proof -
  obtain m where n: "n = Suc m" using assms(4) by (cases n) auto
  consider (ex) "f \<in> set validHeaderAddressFields" "cmp = ''exists''" "v = ''''"
    | (header) "f \<in> set validHeaderAddressFields" "cmp \<in> set sieve_comparators"
    | (body) "f = ''body''" "cmp \<in> set sieve_comparators"
    | (keyword) "f = ''keyword''" "cmp \<in> set sieve_comparators"
    using assms(1) by (auto simp: canonical_leaf_def)
  then show ?thesis
  proof cases
    case ex
    then have "leaf_toks f cmp v = (TokWord, ''exists'') # LK # sep_toks (map (\<lambda>s. [(TokString, s)]) [f]) @ [RK]"
      by (auto simp: leaf_toks_def validHeaderAddressFields_def)
    with assms(2) obtain w T' where T: "T = w # T'" "tok_kind w = TokWord" "tok_text w = ''exists''"
      and T': "map kt T' = LK # sep_toks (map (\<lambda>s. [(TokString, s)]) [f]) @ [RK]"
      by (auto simp: map_kt_Cons)
    from parseStringList_toks [OF T' assms(3)] T ex assms(3) show ?thesis
      using known_field_single [OF ex(1), of "''exists''" "''''"]
      by (simp add: n Let_def test_words parse_exists_test_def leaf_def
          check_fields_known)
  next
    case header
    have c: "cmp \<noteq> ''exists''" using comparator_runes [OF header(2)] by simp
    have f: "f \<noteq> ''body''" "f \<noteq> ''keyword''" using header(1) by (auto simp: validHeaderAddressFields_def)
    have "leaf_toks f cmp v = (TokWord, ''header'') # (TokColonTag, cmp) #
        (LK # sep_toks (map (\<lambda>s. [(TokString, s)]) [f]) @ [RK]) @ [(TokString, v)]"
      using f c by (simp add: leaf_toks_def)
    with assms(2) obtain w g T' u where T: "T = w # g # T' @ [u]" "tok_kind w = TokWord" "tok_text w = ''header''"
      "tok_kind g = TokColonTag" "tok_text g = cmp" "tok_kind u = TokString" "tok_text u = v"
      and T': "map kt T' = LK # sep_toks (map (\<lambda>s. [(TokString, s)]) [f]) @ [RK]"
      by (fastforce simp: kt_simps)
    from parseStringList_toks [OF T', of "u # rest"] T header assms(3) show ?thesis
      using known_field_single [OF header(1), of cmp v] comparator_toks [OF T(4,5) header(2)]
      by (simp add: n Let_def test_words parse_header_test_def expect_Cons leaf_def
          check_fields_known)
  next
    case body
    with assms(2) obtain w g u where T: "T = [w, g, u]" "tok_kind w = TokWord" "tok_text w = ''body''"
      "tok_kind g = TokColonTag" "tok_text g = cmp" "tok_kind u = TokString" "tok_text u = v"
      by (auto simp: leaf_toks_def kt_simps)
    with comparator_toks [OF T(4,5) body(2)] assms(3) body show ?thesis
      by (simp add: n Let_def test_words parse_value_test_def expect_Cons leaf_def)
  next
    case keyword
    with assms(2) obtain w g u where T: "T = [w, g, u]" "tok_kind w = TokWord" "tok_text w = ''hasflag''"
      "tok_kind g = TokColonTag" "tok_text g = cmp" "tok_kind u = TokString" "tok_text u = v"
      by (auto simp: leaf_toks_def kt_simps)
    with comparator_toks [OF T(4,5) keyword(2)] assms(3) keyword show ?thesis
      by (simp add: n Let_def test_words parse_value_test_def expect_Cons leaf_def)
  qed
qed

text \<open>The nesting the parser counts: groups and negations.\<close>

fun group_nest :: "match_group \<Rightarrow> nat" and cond_nest :: "condition \<Rightarrow> nat" where
  "group_nest (MatchGroup oper conds) = Suc (foldr (\<lambda>c m. max (cond_nest c) m) conds 0)"
| "cond_nest (Condition neg grp f cmp v) =
     (if neg then 1 else 0) + (case grp of Some g \<Rightarrow> group_nest g | None \<Rightarrow> 0)"

lemma parse_conds_toks:
  assumes "conds \<noteq> []" "map kt T = sep_toks (map cond_toks conds)" "rest \<noteq> []"
    "tok_kind (peek rest) \<noteq> TokComma" "2 * length (T @ rest) + 1 \<le> n"
    and "\<And>c T rest n. c \<in> set conds \<Longrightarrow> map kt T = cond_toks c \<Longrightarrow> rest \<noteq> [] \<Longrightarrow>
      2 * length (T @ rest) \<le> n \<Longrightarrow> parseTest n d (T @ rest) = Inr (c, rest)"
  shows "parse_conds n d (T @ rest) acc = Inr (acc @ conds, rest)"
  using assms
proof (induction conds arbitrary: T acc n)
  case Nil
  then show ?case by simp
next
  case (Cons c conds)
  obtain m where n: "n = Suc m" using Cons.prems(5) by (cases n) auto
  show ?case
  proof (cases "conds = []")
    case True
    then have "parseTest m d (T @ rest) = Inr (c, rest)"
      using Cons.prems n by (intro Cons.prems(6)) auto
    with True Cons.prems(4) n show ?thesis by simp
  next
    case False
    then obtain A b T' where T: "T = A @ b # T'" "map kt A = cond_toks c" "tok_kind b = TokComma"
      "map kt T' = sep_toks (map cond_toks conds)"
      using Cons.prems(2) by (auto simp: kt_simps sep_toks_Cons)
    have ne: "T' @ rest \<noteq> []" using Cons.prems(3) by simp
    have "parseTest m d (A @ (b # T' @ rest)) = Inr (c, b # T' @ rest)"
      using T Cons.prems(5) n by (intro Cons.prems(6)) auto
    moreover have "parse_conds m d (T' @ rest) (acc @ [c]) = Inr ((acc @ [c]) @ conds, rest)"
      using Cons.prems T False n by (intro Cons.IH) auto
    ultimately show ?thesis using T ne n by simp
  qed
qed

lemma parse_group_toks:
  "canonical_group g \<Longrightarrow> map kt T = group_toks g \<Longrightarrow> rest \<noteq> [] \<Longrightarrow>
     d + group_nest g \<le> maxTestNestingDepth \<Longrightarrow> 2 * length (T @ rest) \<le> n \<Longrightarrow>
     parseTest n d (T @ rest) = Inr (group_condition g, rest)"
  "canonical_cond c \<Longrightarrow> map kt T = cond_toks c \<Longrightarrow> rest \<noteq> [] \<Longrightarrow>
     d + cond_nest c \<le> maxTestNestingDepth \<Longrightarrow> 2 * length (T @ rest) \<le> n \<Longrightarrow>
     parseTest n d (T @ rest) = Inr (c, rest)"
proof (induction g and c arbitrary: T rest d n and T rest d n rule: group_toks_cond_toks.induct)
  case (1 oper conds)
  obtain w l C r where T: "T = w # l # C @ [r]" "tok_kind w = TokWord" "tok_text w = oper"
    "tok_kind l = TokLParen" "map kt C = sep_toks (map cond_toks conds)" "tok_kind r = TokRParen"
    using "1.prems"(2) by (auto simp: kt_simps)
  obtain m where n: "n = Suc m" using "1.prems"(5) T by (cases n) auto
  have d: "Suc d \<le> maxTestNestingDepth" using "1.prems"(4) by simp
  have nest: "Suc d + cond_nest c \<le> maxTestNestingDepth" if "c \<in> set conds" for c
  proof -
    have "foldr (\<lambda>c m. max (cond_nest c) m) conds 0 \<le> maxTestNestingDepth - Suc d"
      using "1.prems"(4) by simp
    with that have "cond_nest c \<le> maxTestNestingDepth - Suc d" by (simp add: foldr_max_le)
    with d show ?thesis by simp
  qed
  have "parse_conds m (Suc d) (C @ (r # rest)) [] = Inr ([] @ conds, r # rest)"
  proof (rule parse_conds_toks)
    show "parseTest n' (Suc d) (T' @ rest') = Inr (c, rest')"
      if "c \<in> set conds" "map kt T' = cond_toks c" "rest' \<noteq> []" "2 * length (T' @ rest') \<le> n'"
      for c T' rest' n'
      using "1.IH" [OF that(1)] "1.prems"(1) that nest [OF that(1)] by (simp add: list_all_iff)
  qed (use "1.prems" T n in auto)
  then have p: "parse_conds m (Suc d) (C @ r # rest) [] = Inr (conds, r # rest)" by simp
  have op2: "oper = ''allof'' \<or> oper = ''anyof''" using "1.prems"(1) by simp
  then have lo: "to_lower oper = oper" "\<not> equal_fold oper ''not''"
    "equal_fold oper ''allof'' \<or> equal_fold oper ''anyof''"
    using group_words test_words by blast+
  have e: "enterTest (tok_line w) d = Inr (Suc d)" using d by (simp add: enterTest_Inr)
  have "parseTest n d (T @ rest) =
      and_then (expect TokLParen ''('' (l # C @ r # rest)) (\<lambda>(_, ts1).
       and_then (parse_conds m (Suc d) ts1 []) (\<lambda>(conds, ts2).
       and_then (expect TokRParen '')'' ts2) (\<lambda>(_, ts3).
       Inr (group_condition (MatchGroup (to_lower oper) conds), ts3))))"
    using T(1-3) n lo e by (simp add: Let_def)
  then show ?case using p T(4,6) "1.prems"(3) lo(1) by (simp add: expect_Cons)
next
  case (2 neg grp f cmp v)
  have inner: "parseTest n' d' (T' @ rest) = Inr (Condition False grp f cmp v, rest)"
    if T': "map kt T' = (case grp of Some g \<Rightarrow> group_toks g | None \<Rightarrow> leaf_toks f cmp v)"
      and d': "d' + (case grp of Some g \<Rightarrow> group_nest g | None \<Rightarrow> 0) \<le> maxTestNestingDepth"
      and n': "2 * length (T' @ rest) \<le> n'" for T' d' n'
  proof (cases grp)
    case None
    have "n' \<noteq> 0" using n' "2.prems"(3) by (cases rest) auto
    with None parse_leaf_toks [of f cmp v T' rest n' d'] "2.prems" T' show ?thesis by simp
  next
    case (Some g)
    with "2.IH" [OF Some] "2.prems" T' d' n' show ?thesis by (simp add: group_condition_def)
  qed
  show ?case
  proof (cases neg)
    case False
    with inner [of T d n] "2.prems" show ?thesis by simp
  next
    case True
    with "2.prems"(2) obtain w T' where T: "T = w # T'" "tok_kind w = TokWord" "tok_text w = ''not''"
      and T': "map kt T' = (case grp of Some g \<Rightarrow> group_toks g | None \<Rightarrow> leaf_toks f cmp v)"
      by (auto simp: kt_simps)
    obtain m where n: "n = Suc m" using "2.prems"(5) T by (cases n) auto
    have "Suc d \<le> maxTestNestingDepth" using "2.prems"(4) True by simp
    moreover have "parseTest m (Suc d) (T' @ rest) = Inr (Condition False grp f cmp v, rest)"
      using "2.prems"(4,5) True T n by (intro inner T') auto
    ultimately show ?thesis
      using T n True "2.prems"(3) enterTest_Inr [THEN iffD2, of "Suc d" d]
      by (simp add: Let_def test_words)
  qed
qed

section \<open>Whole rules\<close>

definition action_verb :: "string \<Rightarrow> string" where
  "action_verb t =
    (if t = ''move'' then ''fileinto'' else if t = ''keyword'' then ''addflag''
     else if t = ''unkeyword'' then ''removeflag'' else if t = ''read'' then ''markread''
     else if t = ''archive'' then ''archive'' else if t = ''spam'' then ''markspam''
     else if t = ''delete'' then ''discard'' else ''stop'')"

definition action_toks :: "action \<Rightarrow> (tok_kind \<times> string) list" where
  "action_toks a =
    (if a_Type a \<in> set valued_types
     then [(TokWord, action_verb (a_Type a)), (TokString, a_Value a), SM]
     else [(TokWord, action_verb (a_Type a)), SM])"

lemma lexes_if: "ends_word str \<Longrightarrow> lexes str ks \<Longrightarrow> lexes (''if'' @ str) ((TokWord, ''if'') # ks)"
  by (rule lexes_word) (use words in simp_all)

lemma verb_words: "t \<in> set (valued_types @ plain_types) \<Longrightarrow> action_verb t \<noteq> '''' \<and> list_all isWordRune (action_verb t)"
proof -
  have "list_all (\<lambda>t. action_verb t \<noteq> '''' \<and> list_all isWordRune (action_verb t)) (valued_types @ plain_types)"
    by code_simp
  then show "t \<in> set (valued_types @ plain_types) \<Longrightarrow> action_verb t \<noteq> '''' \<and> list_all isWordRune (action_verb t)"
    unfolding list_all_iff [of _ "valued_types @ plain_types"] by blast
qed

lemma compileAction_canonical:
  assumes "canonical_action a"
  shows "compileAction a = Inr (if a_Type a \<in> set valued_types
      then action_verb (a_Type a) @ '' '' @ quote (a_Value a) @ '';'' else action_verb (a_Type a) @ '';'')"
  using assms
  by (auto simp: canonical_action_def valued_types_def plain_types_def compileAction_def action_verb_def)

lemma lexes_action:
  assumes "canonical_action a" "printable (a_Value a)" "compileAction a = Inr str"
  shows "lexes str (action_toks a)"
proof -
  have t: "a_Type a \<in> set (valued_types @ plain_types)" using assms(1) by (auto simp: canonical_action_def)
  have "lexes (action_verb (a_Type a) @ '' '' @ quote (a_Value a) @ '';'')
      [(TokWord, action_verb (a_Type a)), (TokString, a_Value a), SM]"
    using verb_words [OF t] assms(2) by (intro lexes_word lexes_intros) simp_all
  moreover have "lexes (action_verb (a_Type a) @ '';'' @ '''') [(TokWord, action_verb (a_Type a)), SM]"
    using verb_words [OF t] lexes_Nil
    by (intro lexes_word ends_word_intros lexes_punct_Cons) simp_all
  ultimately show ?thesis
    using compileAction_canonical [OF assms(1)] assms(3) by (auto simp: action_toks_def split: if_splits)
qed

definition require_toks :: "string list \<Rightarrow> (tok_kind \<times> string) list" where
  "require_toks caps =
    (if caps = [] then []
     else (TokWord, ''require'') # LK # sep_toks (map (\<lambda>s. [(TokString, s)]) caps) @ [RK, SM])"

definition rule_toks :: "rule \<Rightarrow> (tok_kind \<times> string) list" where
  "rule_toks r = require_toks (rule_caps r) @ (TokWord, ''if'') # group_toks (r_Match r) @ LC #
     (if r_Actions r = [] then [(TokWord, ''keep''), SM] else concat (map action_toks (r_Actions r))) @ [RC]"

definition printable_rule :: "rule \<Rightarrow> bool" where
  "printable_rule r \<longleftrightarrow>
    printable_group (r_Match r) \<and> list_all (\<lambda>a. printable (a_Value a)) (r_Actions r)"

lemma rule_caps_allowed: "c \<in> set (rule_caps r) \<Longrightarrow> c \<in> set allowedCapabilities"
  by (auto simp: rule_caps_def allowedCapabilities_def split: if_splits)

lemma allowed_facts: "c \<in> set allowedCapabilities \<Longrightarrow> printable c \<and> normalizeField c = c"
proof -
  have "list_all (\<lambda>c. printable c \<and> normalizeField c = c) allowedCapabilities" by code_simp
  then show "c \<in> set allowedCapabilities \<Longrightarrow> printable c \<and> normalizeField c = c"
    unfolding list_all_iff by blast
qed

lemma lexes_strings:
  assumes "list_all printable ss"
  shows "lexes (str_join '', '' (map quote ss)) (sep_toks (map (\<lambda>s. [(TokString, s)]) ss))"
  by (rule lexes_join) (use assms in \<open>auto simp: list_all2_conv_all_nth list_all_length lexes_quote\<close>)

lemma lexes_concat: "list_all2 lexes strs kss \<Longrightarrow>
    lexes (concat (map (\<lambda>l. ''    '' @ l @ [newline]) strs)) (concat kss)"
proof (induction strs kss rule: list_all2_induct)
  case Nil
  show ?case using lexes_Nil by simp
next
  case (Cons str strs ks kss)
  have "lexes ('' '' @ '' '' @ '' '' @ '' '' @ str @ ([newline] @
      concat (map (\<lambda>l. ''    '' @ l @ [newline]) strs))) (ks @ concat kss)"
    using Cons by (intro lexes_sp lexes_append lexes_nl)
  then show ?case by simp
qed

lemma lexes_rule:
  assumes "canonical_rule r" "printable_rule r" "CompileRule r = Inr str"
  shows "lexes str (rule_toks r)"
proof -
  let ?caps = "rule_caps r"
  obtain test ls where test: "compileMatchGroup (r_Match r) = Inr test"
    and ls: "map compileAction (r_Actions r) = map Inr ls"
    and str: "str = (if ?caps = [] then '''' else ''require ['' @ str_join '', '' (map quote ?caps) @ ''];'' @ [newline, newline])
      @ ''if '' @ test @ '' {'' @ [newline]
      @ (if r_Actions r = [] then ''    keep;'' @ [newline] else '''')
      @ concat (map (\<lambda>l. ''    '' @ l @ [newline]) ls) @ ''}'' @ [newline]"
    using assms(3) by (auto simp: CompileRule_def Let_def collect_Inr split: sum.splits)
  have len: "length ls = length (r_Actions r)" using ls by (metis length_map)
  have acts: "list_all2 lexes ls (map action_toks (r_Actions r))"
    unfolding list_all2_conv_all_nth
  proof (intro conjI allI impI)
    fix i assume i: "i < length ls"
    have "compileAction (r_Actions r ! i) = Inr (ls ! i)" using ls i len by (metis nth_map)
    then show "lexes (ls ! i) (map action_toks (r_Actions r) ! i)"
      using assms(1,2) i len
      by (auto simp: canonical_rule_def printable_rule_def list_all_length intro: lexes_action)
  qed (simp add: len)
  have caps: "list_all printable ?caps"
    using rule_caps_allowed allowed_facts by (auto simp: list_all_iff)
  have req: "lexes (''require'' @ '' '' @ ''['' @ str_join '', '' (map quote ?caps) @ '']'' @ '';'' @ [newline] @ [newline] @ '''')
      ((TokWord, ''require'') # LK # sep_toks (map (\<lambda>s. [(TokString, s)]) ?caps) @ RK # SM # [])"
    using words by (intro lexes_word ends_word_intros lexes_sp lexes_punct_Cons lexes_append
        lexes_strings caps lexes_nl lexes_Nil) simp_all
  have "lexes ('' '' @ '' '' @ '' '' @ '' '' @ ''keep'' @ '';'' @ [newline]) ((TokWord, ''keep'') # SM # [])"
    by (intro lexes_sp lexes_word ends_word_intros lexes_punct_Cons lexes_newline)
      (simp_all add: isWordRune_def)
  then have keep: "lexes (''    keep;'' @ [newline]) [(TokWord, ''keep''), SM]" by simp
  have req2: "lexes (if ?caps = [] then '''' else ''require ['' @ str_join '', '' (map quote ?caps) @ ''];'' @ [newline, newline])
      (require_toks ?caps)"
    using req lexes_Nil by (simp add: require_toks_def)
  have bod: "lexes ((if r_Actions r = [] then ''    keep;'' @ [newline] else '''')
      @ concat (map (\<lambda>l. ''    '' @ l @ [newline]) ls))
      (if r_Actions r = [] then [(TokWord, ''keep''), SM] else concat (map action_toks (r_Actions r)))"
    using keep lexes_concat [OF acts] len by auto
  have grp: "lexes test (group_toks (r_Match r))"
    using assms(1,2) test lexes_group(1) by (auto simp: canonical_rule_def printable_rule_def)
  have "lexes (''}'' @ [newline]) ([RC] @ [])" by (intro lexes_append lexes_punctuation lexes_newline)
  from lexes_append [OF bod this]
  have "lexes (''if'' @ '' '' @ test @ ('' '' @ ''{'' @ [newline] @
      ((if r_Actions r = [] then ''    keep;'' @ [newline] else '''')
      @ concat (map (\<lambda>l. ''    '' @ l @ [newline]) ls)) @ ''}'' @ [newline]))
      ((TokWord, ''if'') # group_toks (r_Match r) @ LC #
       (if r_Actions r = [] then [(TokWord, ''keep''), SM] else concat (map action_toks (r_Actions r))) @ [RC])"
    by (intro lexes_if ends_word_intros lexes_sp lexes_append [OF grp] lexes_punct_Cons lexes_nl) simp
  from lexes_append [OF req2 this] show ?thesis by (simp add: str rule_toks_def)
qed

lemma lexSieve_rule:
  assumes "lexes str ks"
  obtains toks e where "lexSieve str = Inr (toks @ [e])" "map kt toks = ks" "tok_kind e = TokEOF"
proof -
  obtain toks l where t: "map kt toks = ks"
    "lex_loop (str @ '''') 1 = map_sum id (\<lambda>ts. toks @ ts) (lex_loop '''' l)"
    using assms by (rule lexesD)
  have "lex_loop '''' l = Inr [mk_token TokEOF '''' l]" by (subst lex_loop.simps) simp
  with t that [of toks "mk_token TokEOF '''' l"] show thesis by (simp add: lexSieve_def mk_token_def)
qed

section \<open>Parsing a whole rule\<close>

lemma parse_requires_toks:
  assumes "map kt T = require_toks caps" "set caps \<subseteq> set allowedCapabilities"
    "tok_kind i = TokWord" "tok_text i = ''if''" "2 \<le> n" "rest \<noteq> []"
  shows "parse_requires n (T @ i # rest) = Inr (i # rest)"
proof -
  obtain m where n: "n = Suc (Suc m)" using assms(5) le_Suc_ex [of 2 n] by auto
  have ni: "\<not> is_word i ''require''"
  proof -
    have "\<not> equal_fold ''if'' ''require''" by code_simp
    then show ?thesis using assms(4) by (simp add: is_word_def)
  qed
  show ?thesis
  proof (cases "caps = []")
    case True
    with assms(1) ni n show ?thesis by (simp add: require_toks_def)
  next
    case False
    obtain w T' s where T: "T = w # T' @ [s]" "tok_kind w = TokWord" "tok_text w = ''require''"
      "tok_kind s = TokSemicolon"
      and T': "map kt T' = LK # sep_toks (map (\<lambda>s. [(TokString, s)]) caps) @ [RK]"
      using assms(1) False by (fastforce simp: require_toks_def kt_simps)
    have "is_word w ''require''"
    proof -
      have "equal_fold ''require'' ''require''" by code_simp
      then show ?thesis using T by (simp add: is_word_def)
    qed
    moreover have "List.find (\<lambda>c. normalizeField c \<notin> set allowedCapabilities) caps = None"
      using assms(2) allowed_facts by (auto simp: find_None_iff)
    ultimately show ?thesis
      using parseStringList_toks [OF T', of "s # i # rest"] T ni n
      by (simp add: expectSemicolon_Cons)
  qed
qed

lemma verb_lower: "t \<in> set (valued_types @ plain_types) \<Longrightarrow> to_lower (action_verb t) = action_verb t"
proof -
  have "list_all (\<lambda>t. to_lower (action_verb t) = action_verb t) (valued_types @ plain_types)" by code_simp
  then show "t \<in> set (valued_types @ plain_types) \<Longrightarrow> to_lower (action_verb t) = action_verb t"
    unfolding list_all_iff [of _ "valued_types @ plain_types"] by blast
qed

lemma valued_elim:
  assumes "t \<in> set valued_types"
  obtains "t = ''move''" | "t = ''keyword''" | "t = ''unkeyword''"
  using assms by (auto simp: valued_types_def)

lemma plain_elim:
  assumes "t \<in> set plain_types"
  obtains "t = ''delete''" | "t = ''stop''" | "t = ''read''" | "t = ''archive''" | "t = ''spam''"
  using assms by (auto simp: plain_types_def)

lemma parseAction_toks:
  assumes "canonical_action a" "map kt T = action_toks a" "rest \<noteq> []"
  shows "parseAction (T @ rest) = Inr (a, rest)" "tok_kind (peek (T @ rest)) = TokWord" "T \<noteq> []"
proof -
  have t: "a_Type a \<in> set (valued_types @ plain_types)" using assms(1) by (auto simp: canonical_action_def)
  note low = verb_lower [OF t]
  have "parseAction (T @ rest) = Inr (a, rest) \<and> tok_kind (peek (T @ rest)) = TokWord \<and> T \<noteq> []"
  proof (cases "a_Type a \<in> set valued_types")
    case True
    with assms(2) obtain w v s where T: "T = [w, v, s]" "tok_kind w = TokWord"
      "tok_text w = action_verb (a_Type a)" "tok_kind v = TokString" "tok_text v = a_Value a"
      "tok_kind s = TokSemicolon"
      by (auto simp: action_toks_def kt_simps)
    have d: "parseAction (w # ts) = parse_value_action (a_Type a) what (next_tok (w # ts))"
      if "what = (if a_Type a = ''move'' then ''folder string'' else ''keyword string'')" for ts what
      using True T(2) low
      by (elim valued_elim; simp add: parseAction_def Let_def T(3) action_verb_def that)
    show ?thesis using assms(3) T
      by (simp add: d [OF refl] parse_value_action_def expect_Cons expectSemicolon_Cons mk_action_def)
  next
    case False
    then have p: "a_Type a \<in> set plain_types" "a_Value a = ''''"
      using assms(1) by (auto simp: canonical_action_def)
    from False assms(2) obtain w s where T: "T = [w, s]" "tok_kind w = TokWord"
      "tok_text w = action_verb (a_Type a)" "tok_kind s = TokSemicolon"
      by (auto simp: action_toks_def kt_simps)
    have d: "parseAction (w # ts) = parse_plain_action (a_Type a) (next_tok (w # ts))" for ts
      using p(1) T(2) low
      by (elim plain_elim; simp add: parseAction_def Let_def T(3) action_verb_def)
    show ?thesis using assms(3) T p(2)
      by (simp add: d parse_plain_action_def expectSemicolon_Cons mk_action_def)
  qed
  then show "parseAction (T @ rest) = Inr (a, rest)" "tok_kind (peek (T @ rest)) = TokWord" "T \<noteq> []"
    by blast+
qed

lemma parse_actions_toks:
  assumes "list_all canonical_action acts" "map kt T = concat (map action_toks acts)"
    "tok_kind e = TokRBrace" "length acts < n"
  shows "parse_actions n (T @ e # rest) acc = Inr (acc @ acts, e # rest)"
  using assms
proof (induction acts arbitrary: T n acc)
  case Nil
  then obtain m where "n = Suc m" by (cases n) auto
  with Nil show ?case by simp
next
  case (Cons a acts)
  then obtain m where n: "n = Suc m" by (cases n) auto
  from Cons.prems(2) obtain A B where T: "T = A @ B" "map kt A = action_toks a"
    "map kt B = concat (map action_toks acts)" by (auto simp: map_kt_append)
  have a: "canonical_action a" using Cons.prems(1) by simp
  note p = parseAction_toks [OF a T(2), of "B @ e # rest"]
  have k: "a_Type a \<noteq> ''keep''" using a by (auto simp: canonical_action_def valued_types_def plain_types_def)
  have "parse_actions m (B @ e # rest) (acc @ [a]) = Inr ((acc @ [a]) @ acts, e # rest)"
    using Cons.prems T n by (intro Cons.IH) auto
  with p k T n show ?case by simp
qed

lemma keep_toks:
  assumes "map kt T = [(TokWord, ''keep''), SM]" "tok_kind e = TokRBrace" "2 \<le> n"
  shows "parse_actions n (T @ e # rest) [] = Inr ([], e # rest)"
proof -
  obtain m where n: "n = Suc (Suc m)" using assms(3) le_Suc_ex [of 2 n] by auto
  obtain w s where T: "T = [w, s]" "tok_kind w = TokWord" "tok_text w = ''keep''" "tok_kind s = TokSemicolon"
    using assms(1) by (auto simp: kt_simps)
  have "to_lower ''keep'' = ''keep''" by code_simp
  with T have "parseAction (w # s # e # rest) = Inr (mk_action ''keep'' '''', e # rest)"
    by (simp add: parseAction_def Let_def parse_plain_action_def expectSemicolon_Cons)
  with T n assms(2) show ?thesis by (simp add: mk_action_def)
qed

lemma length_action_toks: "length acts \<le> length (concat (map action_toks acts))"
  by (induction acts) (auto simp: action_toks_def)

lemma parse_rule_toks:
  assumes "canonical_rule r" "group_nest (r_Match r) \<le> maxTestNestingDepth"
    and "map kt toks = rule_toks r" "tok_kind e = TokEOF"
  shows "parse_rule_tokens (toks @ [e]) existing
    = Inr (existing\<lparr>r_Match := r_Match r, r_Actions := r_Actions r\<rparr>)"
proof -
  let ?acts = "if r_Actions r = [] then [(TokWord, ''keep''), SM] else concat (map action_toks (r_Actions r))"
  obtain Q i G b A c where T: "toks = Q @ i # G @ b # A @ [c]"
    and Q: "map kt Q = require_toks (rule_caps r)" and i: "tok_kind i = TokWord" "tok_text i = ''if''"
    and G: "map kt G = group_toks (r_Match r)" and b: "tok_kind b = TokLBrace"
    and A: "map kt A = ?acts" and c: "tok_kind c = TokRBrace"
    using assms(3) unfolding rule_toks_def by (auto simp only: kt_simps list.map map_is_Nil_conv append_Cons append_Nil append_assoc)
  define n where "n = fuel_for (toks @ [e])"
  have g: "canonical_group (r_Match r)" and acts: "list_all canonical_action (r_Actions r)"
    using assms(1) by (auto simp: canonical_rule_def)
  have 1: "parse_requires n (toks @ [e]) = Inr (i # G @ b # A @ c # [e])"
    using parse_requires_toks [OF Q _ i, of n "G @ b # A @ c # [e]"] rule_caps_allowed
    by (simp add: T n_def fuel_for_def subsetI)
  have 2: "expectWord ''if'' (i # G @ b # A @ c # [e]) = Inr (G @ b # A @ c # [e])"
  proof -
    have "equal_fold ''if'' ''if''" by code_simp
    with i show ?thesis by (simp add: expectWord_def is_word_def)
  qed
  have 3: "parseTest n 0 (G @ b # A @ c # [e]) = Inr (group_condition (r_Match r), b # A @ c # [e])"
    by (rule parse_group_toks(1) [OF g G]) (use assms(2) in \<open>auto simp: n_def fuel_for_def T\<close>)
  have 4: "expect TokLBrace ''{'' (b # A @ c # [e]) = Inr (b, A @ c # [e])"
    using b by (simp add: expect_Cons)
  have 5: "parse_actions n (A @ c # [e]) [] = Inr (r_Actions r, c # [e])"
  proof (cases "r_Actions r = []")
    case True
    with A keep_toks [of A c n "[e]"] c show ?thesis by (simp add: n_def fuel_for_def)
  next
    case False
    then have "map kt A = concat (map action_toks (r_Actions r))" using A by simp
    moreover from this have "length (r_Actions r) \<le> length A"
      using length_action_toks [of "r_Actions r"] by (metis length_map)
    ultimately show ?thesis
      using parse_actions_toks [OF acts, of A c n "[e]" "[]"] c by (simp add: n_def fuel_for_def T)
  qed
  have 6: "expect TokRBrace ''}'' (c # [e]) = Inr (c, [e])" using c by (simp add: expect_Cons)
  show ?thesis
    using 1 2 3 4 5 6 assms(4) unfolding n_def [symmetric] parse_rule_tokens_def
    by (simp add: root_match_def group_condition_def)
qed

lemma compile_parse:
  assumes "canonical_rule r" "printable_rule r" "group_nest (r_Match r) \<le> maxTestNestingDepth"
    and "CompileRule r = Inr str"
  shows "ParseRuleText str existing = Inr (existing\<lparr>r_Match := r_Match r, r_Actions := r_Actions r\<rparr>)"
proof -
  obtain toks e where t: "lexSieve str = Inr (toks @ [e])" "map kt toks = rule_toks r" "tok_kind e = TokEOF"
    using lexes_rule [OF assms(1,2,4)] by (rule lexSieve_rule)
  from parse_rule_toks [OF assms(1,3) t(2,3)] t(1) show ?thesis
    by (simp add: ParseRuleText_def)
qed

section \<open>Properties\<close>

text \<open>A rule for the witnesses: a negated group, a multi-valued test, two actions.\<close>

definition sample_rule :: rule where
  "sample_rule =
    \<lparr>r_ID = ''r1'', r_Name = ''sample'', r_Enabled = True, r_Order = 0, r_Scope = \<lparr>rs_Folders = []\<rparr>,
     r_Match = MatchGroup ''allof''
       [Condition True (Some (MatchGroup ''anyof''
          [Condition False None ''from'' ''contains'' ''a\"b'', Condition False None ''cc'' ''exists'' '''']))
          '''' '''' '''',
        Condition False None ''keyword'' ''is'' ''Work''],
     r_Actions = [\<lparr>a_Type = ''move'', a_Value = ''Archive''\<rparr>, \<lparr>a_Type = ''stop'', a_Value = ''''\<rparr>],
     r_Rev = 1, r_CreatedAt = '''', r_UpdatedAt = ''''\<rparr>"

lemma sample_rule_ok:
  "canonical_rule sample_rule" "printable_rule sample_rule"
  "group_nest (r_Match sample_rule) \<le> maxTestNestingDepth"
  by code_simp+



text \<open>
  C10: the parser always gives a verdict: on every text, within the bound on calls that the
  definitions carry, it returns a rule or one of its own errors; the bound is never what
  stops it.
\<close>

theorem ParseRuleText_total: "ParseRuleText str existing \<noteq> Inl OutOfFuel"
  by (rule ParseRuleText_returns_aux)

text \<open>
  C38: what the parser accepts is sound for the rest of the program: the match tree and the
  actions are canonical, so that the rule can be compiled to text again, and no field but the
  match tree and the actions differs from the rule it was parsed into.
\<close>

theorem parsed_rule_canonical:
  assumes "ParseRuleText str existing = Inr r"
  shows "canonical_rule r \<and> (\<exists>str'. CompileRule r = Inr str') \<and>
    r = existing\<lparr>r_Match := r_Match r, r_Actions := r_Actions r\<rparr>"
  using ParseRuleText_shape [OF assms] canonical_rule_compiles by blast

definition sample_text :: string where
  "sample_text = ''if header :is [\"from\"] \"x\" {stop;}''"

lemma sample_text_parses: "\<exists>r. ParseRuleText sample_text sample_rule = Inr r"
  by (rule exI [of _ "sample_rule\<lparr>r_Match := MatchGroup ''allof'' [Condition False None ''from'' ''is'' ''x''],
      r_Actions := [\<lparr>a_Type = ''stop'', a_Value = ''''\<rparr>]\<rparr>"]) code_simp

theorem parsed_rule_canonical_witness:
  "\<exists>r. ParseRuleText sample_text sample_rule = Inr r \<and> canonical_rule r"
  using sample_text_parses parsed_rule_canonical by blast

text \<open>
  The match tree of an accepted script is at most 33 groups deep: the limit of 32 on
  nested tests and one more group when a header test names several fields.
\<close>

theorem parsed_depth_bounded:
  assumes "ParseRuleText str existing = Inr r"
  shows "group_depth (r_Match r) \<le> maxTestNestingDepth + 1"
  using ParseRuleText_shape(2) [OF assms] by simp

theorem parsed_depth_bounded_witness:
  "\<exists>r. ParseRuleText sample_text sample_rule = Inr r \<and> group_depth (r_Match r) \<le> maxTestNestingDepth + 1"
  using sample_text_parses parsed_depth_bounded by blast

text \<open>
  The shape check of the structured form accepts a match tree exactly when it is at most
  32 groups deep and has at most 300 leaf conditions.
\<close>

theorem ValidateMatchShape_exact:
  "ValidateMatchShape m = Inr () \<longleftrightarrow>
     group_depth m \<le> maxTestNestingDepth \<and> group_leaves m \<le> maxMatchConditions"
  by (rule ValidateMatchShape_iff)

section \<open>Divergences\<close>

text \<open>
  The parser accepts a script whose match tree the shape check rejects: 32 nested groups
  around a header test with two fields.
\<close>

definition deep_text :: string where
  "deep_text = ''if '' @ concat (replicate 32 ''allof('') @ ''exists [\"from\",\"to\"]''
     @ replicate 32 (CHR '')'') @ '' {stop;}''"

lemma parser_exceeds_shape_check:
  "(case ParseRuleText deep_text sample_rule of Inl _ \<Rightarrow> False
    | Inr r \<Rightarrow> group_depth (r_Match r) = 33 \<and> ValidateMatchShape (r_Match r) = Inl NestingExceeds)"
  by code_simp

text \<open>A negation of the whole test is lost when the test is a group: both scripts parse alike.\<close>

lemma root_negation_dropped:
  "ParseRuleText ''if not anyof(exists [\"from\"]) {stop;}'' sample_rule =
   ParseRuleText ''if anyof(exists [\"from\"]) {stop;}'' sample_rule"
  by code_simp

text \<open>A line break in a value is written as an escape that the lexer reads as the letter n.\<close>

lemma line_break_not_preserved:
  "(case CompileRule (sample_rule\<lparr>r_Match := MatchGroup ''allof'' [Condition False None ''body'' ''is'' [newline]]\<rparr>) of
      Inl _ \<Rightarrow> False
    | Inr str \<Rightarrow> (case ParseRuleText str sample_rule of Inl _ \<Rightarrow> False
        | Inr r \<Rightarrow> r_Match r = MatchGroup ''allof'' [Condition False None ''body'' ''is'' ''n'']))"
  by code_simp

text \<open>An empty comparator is evaluated as a substring test but written out as \<open>:is\<close>.\<close>

lemma empty_comparator_changes_meaning:
  "matchesValue re2 '''' ''newsletter'' ''news'' \<and> comparatorTag '''' = ''is'' \<and>
   \<not> matchesValue re2 (comparatorTag '''') ''newsletter'' ''news''"
proof -
  have "comparatorTag '''' = ''is''" by code_simp
  moreover have "\<not> equal_fold (trim_space ''newsletter'') (trim_space ''news'')"
    "str_contains (to_lower ''newsletter'') (to_lower ''news'')"
    "to_lower (trim_space '''') = ''''" "to_lower (trim_space ''is'') = ''is''"
    by code_simp+
  ultimately show ?thesis by (simp add: matchesValue_def Let_def)
qed

end
