(* ===== verification/Contacts_Model.thy ===== *)
theory Contacts_Model
  imports Fsutil Go_Text
begin

text \<open>
  The address book entry and its normal forms (backend/internal/contacts/contacts.go and the
  first part of dedupe.go): the contact with its multi-valued fields, its entity tag, the
  tombstone that is left of a deleted one, and the keys two contacts are compared by.
\<close>

section \<open>Contacts\<close>

record contact_value =
  cv_Label :: string
  cv_Value :: string

record contact_address =
  ca_Label :: string
  ca_Street :: string
  ca_City :: string
  ca_Region :: string
  ca_PostalCode :: string
  ca_Country :: string

record contact_im =
  ci_Service :: string
  ci_Label :: string
  ci_Value :: string

record contact_url =
  cu_Label :: string
  cu_Value :: string

record contact_relation =
  cr_Label :: string
  cr_Name :: string

record contact_event =
  ce_Label :: string
  ce_Date :: string

record contact_custom_field =
  cc_Label :: string
  cc_Value :: string

record contact =
  ct_UID :: string
  ct_Rev :: int
  ct_Deleted :: bool
  ct_CreatedAt :: string
  ct_UpdatedAt :: string
  ct_IsSelf :: bool
  ct_FormattedName :: string
  ct_GivenName :: string
  ct_FamilyName :: string
  ct_MiddleName :: string
  ct_Prefix :: string
  ct_Suffix :: string
  ct_Nickname :: string
  ct_Org :: string
  ct_Title :: string
  ct_Emails :: "contact_value list"
  ct_Phones :: "contact_value list"
  ct_Addresses :: "contact_address list"
  ct_Notes :: string
  ct_Birthday :: string
  ct_PhotoRef :: string
  ct_GroupIDs :: "string list"
  ct_PGPKey :: string
  ct_IMs :: "contact_im list"
  ct_Websites :: "contact_url list"
  ct_Relations :: "contact_relation list"
  ct_Events :: "contact_event list"
  ct_PhoneticGivenName :: string
  ct_PhoneticFamilyName :: string
  ct_Department :: string
  ct_CustomFields :: "contact_custom_field list"
  ct_Pronouns :: string
  ct_MergedUIDs :: "string list"
  ct_MergedInto :: string

definition etagForRev :: "int \<Rightarrow> string" where
  "etagForRev rv = ''rev-'' @ itoa rv"

definition ETag :: "contact \<Rightarrow> string" where
  "ETag c = etagForRev (ct_Rev c)"

definition tombstone :: "contact \<Rightarrow> contact" where
  "tombstone c =
    c\<lparr>ct_Deleted := True, ct_FormattedName := '''', ct_GivenName := '''', ct_FamilyName := '''',
      ct_MiddleName := '''', ct_Prefix := '''', ct_Suffix := '''', ct_Nickname := '''', ct_Org := '''',
      ct_Title := '''', ct_Emails := [], ct_Phones := [], ct_Addresses := [], ct_Notes := '''',
      ct_Birthday := '''', ct_PhotoRef := '''', ct_GroupIDs := [], ct_PGPKey := '''', ct_IMs := [],
      ct_Websites := [], ct_Relations := [], ct_Events := [], ct_PhoneticGivenName := '''',
      ct_PhoneticFamilyName := '''', ct_Department := '''', ct_CustomFields := [], ct_Pronouns := '''',
      ct_IsSelf := False, ct_MergedUIDs := []\<rparr>"

lemma tombstone_sel [simp]:
  "ct_UID (tombstone c) = ct_UID c" "ct_Deleted (tombstone c)" "ct_Rev (tombstone c) = ct_Rev c"
  by (simp_all add: tombstone_def)

section \<open>Normal forms (dedupe.go)\<close>

definition normalizeEmail :: "string \<Rightarrow> string" where
  "normalizeEmail s = to_lower (trim_space s)"

definition is_digit :: "char \<Rightarrow> bool" where
  "is_digit c \<longleftrightarrow> digit_value c \<noteq> None"

definition normalizePhone :: "string \<Rightarrow> string" where
  "normalizePhone s = (let d = filter is_digit s in if length d \<ge> 10 then keep_last 10 d else d)"

text \<open>\<open>strings.Fields\<close>: the words between runs of white space.\<close>

fun str_fields :: "string \<Rightarrow> string list" where
  "str_fields [] = []"
| "str_fields (c # cs) =
    (if is_space c then str_fields cs
     else (case cs of
             [] \<Rightarrow> [[c]]
           | d # ds \<Rightarrow>
               (if is_space d then [c] # str_fields ds
                else (case str_fields cs of [] \<Rightarrow> [[c]] | w # ws \<Rightarrow> (c # w) # ws))))"

definition normalizeName :: "contact \<Rightarrow> string" where
  "normalizeName c = to_lower (str_join '' '' (str_fields (ct_FormattedName c)))"

definition otherwiseEmpty :: "contact \<Rightarrow> bool" where
  "otherwiseEmpty c \<longleftrightarrow> length (ct_Emails c) = 0 \<and> length (ct_Phones c) = 0"

definition matchKeys :: "contact \<Rightarrow> string list" where
  "matchKeys c =
    map (\<lambda>v. ''e:'' @ v) (filter (\<lambda>v. v \<noteq> '''') (map (\<lambda>e. normalizeEmail (cv_Value e)) (ct_Emails c))) @
    map (\<lambda>v. ''p:'' @ v) (filter (\<lambda>v. v \<noteq> '''') (map (\<lambda>p. normalizePhone (cv_Value p)) (ct_Phones c)))"

section \<open>A sample contact\<close>

definition blank_contact :: contact where
  "blank_contact =
    \<lparr>ct_UID = '''', ct_Rev = 0, ct_Deleted = False, ct_CreatedAt = '''', ct_UpdatedAt = '''', ct_IsSelf = False,
     ct_FormattedName = '''', ct_GivenName = '''', ct_FamilyName = '''', ct_MiddleName = '''', ct_Prefix = '''',
     ct_Suffix = '''', ct_Nickname = '''', ct_Org = '''', ct_Title = '''', ct_Emails = [], ct_Phones = [],
     ct_Addresses = [], ct_Notes = '''', ct_Birthday = '''', ct_PhotoRef = '''', ct_GroupIDs = [], ct_PGPKey = '''',
     ct_IMs = [], ct_Websites = [], ct_Relations = [], ct_Events = [], ct_PhoneticGivenName = '''',
     ct_PhoneticFamilyName = '''', ct_Department = '''', ct_CustomFields = [], ct_Pronouns = '''',
     ct_MergedUIDs = [], ct_MergedInto = ''''\<rparr>"

definition ann :: contact where
  "ann = blank_contact\<lparr>ct_UID := ''a'', ct_Rev := 1, ct_FormattedName := ''Ann'',
    ct_Emails := [\<lparr>cv_Label = '''', cv_Value = ''ann@x''\<rparr>]\<rparr>"

end
