(* ===== verification/Union_Find.thy ===== *)
theory Union_Find
  imports Main
begin

text \<open>
  The union-find structure of backend/internal/contacts/dedupe.go: an array of parents,
  \<open>find\<close> with path halving and \<open>union\<close> without ranks. The array holds for every element a
  path to a root; \<open>find\<close> returns that root in finitely many steps and keeps all roots, and
  \<open>union\<close> merges exactly two classes.
\<close>

definition newUnionFind :: "nat \<Rightarrow> nat list" where
  "newUnionFind n = [0..<n]"

text \<open>The loop of \<open>find\<close>, which also writes the array: None when it does not end.\<close>

partial_function (option) find_root :: "nat list \<Rightarrow> nat \<Rightarrow> (nat \<times> nat list) option" where
  "find_root p x =
    (if p ! x = x then Some (x, p)
     else (let p' = p[x := p ! (p ! x)] in find_root p' (p' ! x)))"

declare find_root.simps [code]

definition union_roots :: "nat list \<Rightarrow> nat \<Rightarrow> nat \<Rightarrow> nat list option" where
  "union_roots p a b =
    (case find_root p a of
       None \<Rightarrow> None
     | Some (ra, p1) \<Rightarrow>
        (case find_root p1 b of
           None \<Rightarrow> None
         | Some (rb, p2) \<Rightarrow> Some (if ra \<noteq> rb then p2[rb := ra] else p2)))"

section \<open>Roots\<close>

text \<open>\<open>path p k y r\<close>: k steps up from y lead to the root r.\<close>

fun path :: "nat list \<Rightarrow> nat \<Rightarrow> nat \<Rightarrow> nat \<Rightarrow> bool" where
  "path p 0 y r \<longleftrightarrow> y < length p \<and> p ! y = y \<and> r = y"
| "path p (Suc k) y r \<longleftrightarrow> y < length p \<and> p ! y \<noteq> y \<and> path p k (p ! y) r"

definition forest :: "nat list \<Rightarrow> bool" where
  "forest p \<longleftrightarrow> (\<forall>y<length p. \<exists>k r. path p k y r)"

definition root_of :: "nat list \<Rightarrow> nat \<Rightarrow> nat" where
  "root_of p y = (THE r. \<exists>k. path p k y r)"

lemma path_unique: "path p k y r \<Longrightarrow> path p l y s \<Longrightarrow> k = l \<and> r = s"
proof (induction k arbitrary: y l)
  case 0
  then show ?case by (cases l) auto
next
  case (Suc k)
  then show ?case by (cases l) auto
qed

lemma path_bounds: "path p k y r \<Longrightarrow> y < length p \<and> r < length p \<and> p ! r = r"
  by (induction k arbitrary: y) auto

lemma root_of_path: "path p k y r \<Longrightarrow> root_of p y = r"
  unfolding root_of_def using path_unique by blast

lemma forest_path:
  assumes "forest p" "y < length p"
  obtains k where "path p k y (root_of p y)"
  using assms root_of_path unfolding forest_def by metis

lemma root_of_root: "path p k y r \<Longrightarrow> path p 0 r r"
  using path_bounds by simp

lemma no_two_cycle:
  assumes "path p k x r" "p ! x \<noteq> x"
  shows "p ! (p ! x) \<noteq> x"
proof
  assume c: "p ! (p ! x) = x"
  obtain l where l: "k = Suc l" "path p l (p ! x) r" using assms by (cases k) auto
  then obtain m where "l = Suc m" "path p m x r" using c assms(2) by (cases l) auto
  with assms(1) l(1) show False using path_unique by (metis n_not_Suc_n Suc_n_not_n lessI less_SucI less_irrefl)
qed

text \<open>Halving the path of one element keeps all roots.\<close>

lemma halve_path:
  assumes "path p k y r" "\<exists>l s. path p l x s"
  shows "\<exists>l. path (p[x := p ! (p ! x)]) l y r"
  using assms(1)
proof (induction k arbitrary: y)
  case 0
  show ?case
  proof (cases "y = x")
    case True
    with 0 show ?thesis by (intro exI [of _ 0]) (simp add: list_update_same_conv)
  next
    case False
    with 0 show ?thesis by (intro exI [of _ 0]) simp
  qed
next
  case (Suc k)
  let ?p = "p[x := p ! (p ! x)]"
  obtain l where l: "path ?p l (p ! y) r" using Suc by auto
  have y: "y < length p" "p ! y \<noteq> y" using Suc.prems by auto
  show ?case
  proof (cases "y = x")
    case False
    with l y show ?thesis by (intro exI [of _ "Suc l"]) simp
  next
    case True
    obtain m s where "path p m x s" using assms(2) by blast
    then have nc: "p ! (p ! x) \<noteq> x" using no_two_cycle y True by blast
    have px: "?p ! x = p ! (p ! x)" using y True by simp
    have ppx: "?p ! (p ! x) = p ! (p ! x)" using y True by simp
    show ?thesis
    proof (cases "p ! (p ! x) = p ! x")
      case same: True
      then show ?thesis using l True y px nc by (intro exI [of _ "Suc l"]) simp
    next
      case False
      then obtain l' where "path ?p l' (p ! (p ! x)) r"
        using l True ppx by (cases l) auto
      then show ?thesis using True y px nc by (intro exI [of _ "Suc l'"]) simp
    qed
  qed
qed

lemma halve_forest:
  assumes "forest p" "x < length p"
  shows "forest (p[x := p ! (p ! x)])" "y < length p \<Longrightarrow> root_of (p[x := p ! (p ! x)]) y = root_of p y"
proof -
  have x: "\<exists>l s. path p l x s" using assms unfolding forest_def by blast
  have 1: "\<exists>l. path (p[x := p ! (p ! x)]) l y (root_of p y)" if "y < length p" for y
    using forest_path [OF assms(1) that] halve_path [OF _ x] by metis
  then show "forest (p[x := p ! (p ! x)])" unfolding forest_def by (metis length_list_update)
  show "y < length p \<Longrightarrow> root_of (p[x := p ! (p ! x)]) y = root_of p y"
    using 1 root_of_path by blast
qed

section \<open>find and union\<close>

text \<open>The array after \<open>find\<close> has the same roots.\<close>

definition same_roots :: "nat list \<Rightarrow> nat list \<Rightarrow> bool" where
  "same_roots p p' \<longleftrightarrow> length p' = length p \<and> forest p' \<and> (\<forall>y<length p. root_of p' y = root_of p y)"

lemma same_roots_trans: "same_roots p q \<Longrightarrow> same_roots q r \<Longrightarrow> same_roots p r"
  by (simp add: same_roots_def)

text \<open>
  Every step of the loop shortens the way from the current element to its root by at least
  one, so it ends.
\<close>

lemma find_root_path:
  assumes "forest p" "path p k x r"
  shows "\<exists>p'. find_root p x = Some (r, p') \<and> same_roots p p'"
  using assms
proof (induction k arbitrary: p x rule: less_induct)
  case (less k)
  show ?case
  proof (cases "p ! x = x")
    case True
    then have "k = 0" "r = x" using less.prems(2) by (cases k; simp)+
    with True less.prems(1) show ?thesis
      by (subst find_root.simps) (simp add: same_roots_def)
  next
    case False
    let ?p = "p[x := p ! (p ! x)]"
    obtain l where l: "k = Suc l" "path p l (p ! x) r" "x < length p" using less.prems(2) False by (cases k) auto
    have x: "\<exists>l s. path p l x s" using less.prems(2) by blast
    have px: "?p ! x = p ! (p ! x)" using l(3) by simp
    have unaffected: "path ?p m y s" if "path p m y s" "m < k" for m y s
      using that
    proof (induction m arbitrary: y)
      case 0
      moreover have "y \<noteq> x" using 0 False by auto
      ultimately show ?case by simp
    next
      case (Suc m)
      have "y \<noteq> x" using Suc.prems path_unique [OF less.prems(2), of "Suc m" s] by auto
      with Suc show ?case by simp
    qed
    have "\<exists>m<k. path ?p m (?p ! x) r"
    proof (cases l)
      case 0
      then have "p ! (p ! x) = p ! x" using l(2) by simp
      then show ?thesis using unaffected [OF l(2)] l(1) px by auto
    next
      case (Suc m)
      then have "path p m (p ! (p ! x)) r" using l(2) by simp
      then have "path ?p m (?p ! x) r" unfolding px using unaffected [of m] l(1) Suc by simp
      then show ?thesis using l(1) Suc by (intro exI [of _ m]) simp
    qed
    then obtain m where m: "m < k" "path ?p m (?p ! x) r" by blast
    from less.IH [OF m(1) halve_forest(1) [OF less.prems(1) l(3)] m(2)]
    obtain p' where p': "find_root ?p (?p ! x) = Some (r, p')" "same_roots ?p p'" by blast
    have "same_roots p ?p" using halve_forest [OF less.prems(1) l(3)] by (simp add: same_roots_def)
    with p' False show ?thesis
      by (subst find_root.simps) (simp only: if_False Let_def, metis same_roots_trans)
  qed
qed

lemma find_root_spec:
  assumes "forest p" "x < length p"
  obtains p' where "find_root p x = Some (root_of p x, p')" "same_roots p p'"
  using forest_path [OF assms] find_root_path [OF assms(1)] by metis

lemma link_path:
  assumes "path p k y r" "p ! a = a" "p ! b = b" "a \<noteq> b" "a < length p" "b < length p"
  shows "path (p[b := a]) (if r = b then Suc k else k) y (if r = b then a else r)"
  using assms(1)
proof (induction k arbitrary: y)
  case 0
  with assms(2-6) show ?case by auto
next
  case (Suc k)
  then have "y \<noteq> b" using assms(3) by auto
  with Suc show ?case by auto
qed

lemma union_roots_spec:
  assumes "forest p" "a < length p" "b < length p"
  obtains p' where "union_roots p a b = Some p'" "length p' = length p" "forest p'"
    "\<forall>y<length p. root_of p' y = (if root_of p y = root_of p b then root_of p a else root_of p y)"
proof -
  obtain p1 where p1: "find_root p a = Some (root_of p a, p1)" "same_roots p p1"
    using find_root_spec [OF assms(1,2)] .
  have f1: "forest p1" "b < length p1" using p1(2) assms(3) by (simp_all add: same_roots_def)
  obtain p2 where p2: "find_root p1 b = Some (root_of p1 b, p2)" "same_roots p1 p2"
    using find_root_spec [OF f1] .
  have rb: "root_of p1 b = root_of p b" using p1(2) assms(3) by (simp add: same_roots_def)
  have s: "same_roots p p2" using same_roots_trans p1(2) p2(2) by blast
  have u: "union_roots p a b = Some (if root_of p a \<noteq> root_of p b then p2[root_of p b := root_of p a] else p2)"
    by (simp add: union_roots_def p1(1) p2(1) rb)
  show thesis
  proof (cases "root_of p a = root_of p b")
    case True
    with u s show thesis by (intro that [of p2]) (auto simp: same_roots_def)
  next
    case False
    let ?ra = "root_of p a" and ?rb = "root_of p b"
    have l2: "length p2 = length p" "forest p2" using s by (simp_all add: same_roots_def)
    have root2: "root_of p2 y = root_of p y" if "y < length p" for y using s that by (simp add: same_roots_def)
    have ra: "p2 ! ?ra = ?ra \<and> ?ra < length p2"
      using forest_path [OF l2(2), of a] assms(2) l2(1) root2 [OF assms(2)] path_bounds by metis
    have rb2: "p2 ! ?rb = ?rb \<and> ?rb < length p2"
      using forest_path [OF l2(2), of b] assms(3) l2(1) root2 [OF assms(3)] path_bounds by metis
    have new: "\<exists>k. path (p2[?rb := ?ra]) k y (if root_of p y = ?rb then ?ra else root_of p y)"
      if y: "y < length p" for y
    proof -
      obtain k where "path p2 k y (root_of p y)"
        using forest_path [OF l2(2), of y] y l2(1) root2 [OF y] by metis
      from link_path [OF this] ra rb2 False show ?thesis by blast
    qed
    show thesis
    proof (rule that [of "p2[?rb := ?ra]"])
      show "union_roots p a b = Some (p2[?rb := ?ra])" using u False by simp
      show "length (p2[?rb := ?ra]) = length p" using l2 by simp
      show "forest (p2[?rb := ?ra])" unfolding forest_def using new l2(1) by (metis length_list_update)
      show "\<forall>y<length p. root_of (p2[?rb := ?ra]) y = (if root_of p y = ?rb then ?ra else root_of p y)"
        using new root_of_path by blast
    qed
  qed
qed

lemma forest_new: "forest (newUnionFind n)"
proof -
  have "path (newUnionFind n) 0 y y" if "y < n" for y using that by (simp add: newUnionFind_def)
  then show ?thesis unfolding forest_def by (metis length_upt newUnionFind_def diff_zero)
qed

lemma root_of_new: "y < n \<Longrightarrow> root_of (newUnionFind n) y = y"
  by (rule root_of_path [of _ 0]) (simp add: newUnionFind_def)

end
