(* ===== verification/Contacts_Dedupe.thy ===== *)
theory Contacts_Dedupe
  imports Contacts_Model Union_Find "HOL-Library.Product_Lexorder"
begin

text \<open>
  Finding and merging duplicate contacts (backend/internal/contacts/dedupe.go). Go iterates
  over a map in no fixed sequence; \<open>order\<close> parameters stand for the sequence of one run.
\<close>

section \<open>Duplicate groups\<close>

text \<open>All pairs of an index and a key of its contact, as the nested loops visit them.\<close>

definition key_occurrences :: "contact list \<Rightarrow> (nat \<times> string) list" where
  "key_occurrences cs = concat (map (\<lambda>(i, c). map (Pair i) (matchKeys c)) (enumerate 0 cs))"

fun union_keys :: "(nat \<times> string) list \<Rightarrow> (string \<rightharpoonup> nat) \<Rightarrow> nat list \<Rightarrow> nat list option" where
  "union_keys [] byKey p = Some p"
| "union_keys ((i, k) # os) byKey p =
    (case byKey k of
       Some j \<Rightarrow> (case union_roots p i j of None \<Rightarrow> None | Some p' \<Rightarrow> union_keys os byKey p')
     | None \<Rightarrow> union_keys os (byKey(k \<mapsto> i)) p)"

text \<open>The indices listed under one name, and the pairs of them that are joined.\<close>

definition name_index :: "contact list \<Rightarrow> string \<Rightarrow> nat list" where
  "name_index cs n = map fst (filter (\<lambda>(i, c). normalizeName c = n) (enumerate 0 cs))"

definition name_pairs :: "contact list \<Rightarrow> string \<Rightarrow> (nat \<times> nat) list" where
  "name_pairs cs n =
    (let idxs = name_index cs n in
     concat (map (\<lambda>a. map (\<lambda>b. (idxs ! a, idxs ! b))
        (filter (\<lambda>b. otherwiseEmpty (cs ! (idxs ! a)) \<or> otherwiseEmpty (cs ! (idxs ! b)))
          [Suc a..<length idxs])) [0..<length idxs]))"

fun union_pairs :: "(nat \<times> nat) list \<Rightarrow> nat list \<Rightarrow> nat list option" where
  "union_pairs [] p = Some p"
| "union_pairs ((a, b) # ps) p =
    (case union_roots p a b of None \<Rightarrow> None | Some p' \<Rightarrow> union_pairs ps p')"

definition known_names :: "contact list \<Rightarrow> string list" where
  "known_names cs = remdups (filter (\<lambda>n. n \<noteq> '''') (map normalizeName cs))"

text \<open>The roots of all indices; \<open>find\<close> goes on shortening paths meanwhile.\<close>

fun find_all :: "nat list \<Rightarrow> nat list \<Rightarrow> nat list option" where
  "find_all [] p = Some []"
| "find_all (i # is) p =
    (case find_root p i of
       None \<Rightarrow> None
     | Some (r, p') \<Rightarrow> map_option ((#) r) (find_all is p'))"

definition members_of :: "nat list \<Rightarrow> nat \<Rightarrow> nat list" where
  "members_of roots r = sort (filter (\<lambda>i. roots ! i = r) [0..<length roots])"

record map_orders =
  mo_names :: "string list \<Rightarrow> string list"
  mo_roots :: "nat list \<Rightarrow> nat list"

definition findDuplicateGroups :: "map_orders \<Rightarrow> contact list \<Rightarrow> nat list list option" where
  "findDuplicateGroups mo cs =
    (case union_keys (key_occurrences cs) Map.empty (newUnionFind (length cs)) of
       None \<Rightarrow> None
     | Some p1 \<Rightarrow>
        (case union_pairs (concat (map (name_pairs cs) (mo_names mo (known_names cs)))) p1 of
           None \<Rightarrow> None
         | Some p2 \<Rightarrow>
            (case find_all [0..<length cs] p2 of
               None \<Rightarrow> None
             | Some roots \<Rightarrow>
                Some (sort_key hd (filter (\<lambda>g. length g \<ge> 2)
                  (map (members_of roots) (mo_roots mo (remdups roots))))))))"

definition groupShouldMerge :: "contact list \<Rightarrow> bool" where
  "groupShouldMerge members =
    (if length members < 2 then False
     else if length members = 2 then True
     else
       (let name = normalizeName (members ! 0) in
        if name = '''' then False else list_all (\<lambda>m. normalizeName m = name) (tl members)))"

section \<open>Merging\<close>

definition firstNonEmpty :: "contact list \<Rightarrow> (contact \<Rightarrow> string) \<Rightarrow> string" where
  "firstNonEmpty cs get = (case List.find (\<lambda>c. get c \<noteq> '''') cs of None \<Rightarrow> '''' | Some c \<Rightarrow> get c)"

text \<open>The loops that keep the first element for each key.\<close>

fun keep_new :: "('a \<Rightarrow> 'k) \<Rightarrow> 'k set \<Rightarrow> 'a list \<Rightarrow> 'a list" where
  "keep_new key seen [] = []"
| "keep_new key seen (v # vs) =
    (if key v \<in> seen then keep_new key seen vs else v # keep_new key (insert (key v) seen) vs)"

definition unionValues ::
  "contact list \<Rightarrow> (contact \<Rightarrow> contact_value list) \<Rightarrow> (string \<Rightarrow> string) \<Rightarrow> contact_value list" where
  "unionValues members get norm = keep_new (\<lambda>v. norm (cv_Value v)) {''''} (concat (map get members))"

definition unionStrings :: "contact list \<Rightarrow> (contact \<Rightarrow> string list) \<Rightarrow> string list" where
  "unionStrings members get = keep_new id {''''} (concat (map get members))"

definition unionComparable :: "contact list \<Rightarrow> (contact \<Rightarrow> 'a list) \<Rightarrow> 'a list" where
  "unionComparable members get = keep_new id {} (concat (map get members))"

definition unionAddresses :: "contact list \<Rightarrow> contact_address list" where
  "unionAddresses members = keep_new id {} (concat (map ct_Addresses members))"

text \<open>
  \<open>sort.Slice\<close> by \<open>olderThan\<close> and by \<open>newerThan\<close>. The first is a strict order on contacts with
  different UIDs; contacts with equal UpdatedAt and Rev, which the second leaves open, stay in
  their sequence, as in the insertion sort Go uses for up to twelve elements.
\<close>

definition age_key :: "contact \<Rightarrow> string \<times> int \<times> string" where
  "age_key c = (ct_CreatedAt c, ct_Rev c, ct_UID c)"

definition olderThan :: "contact \<Rightarrow> contact \<Rightarrow> bool" where
  "olderThan a b =
    (if ct_CreatedAt a \<noteq> ct_CreatedAt b then ct_CreatedAt a < ct_CreatedAt b
     else if ct_Rev a \<noteq> ct_Rev b then ct_Rev a < ct_Rev b
     else ct_UID a < ct_UID b)"

definition newerThan :: "contact \<Rightarrow> contact \<Rightarrow> bool" where
  "newerThan a b =
    (if ct_UpdatedAt a \<noteq> ct_UpdatedAt b then ct_UpdatedAt a > ct_UpdatedAt b else ct_Rev a > ct_Rev b)"

definition by_age :: "contact list \<Rightarrow> contact list" where
  "by_age members = sort_key age_key members"

definition by_newest :: "contact list \<Rightarrow> contact list" where
  "by_newest members = rev (sort_key (\<lambda>c. (ct_UpdatedAt c, ct_Rev c)) (rev members))"

lemma olderThan_key: "olderThan a b \<longleftrightarrow> age_key a < age_key b"
  by (auto simp: olderThan_def age_key_def less_prod_def)

definition mergedUIDs :: "contact \<Rightarrow> contact list \<Rightarrow> string list \<Rightarrow> string list" where
  "mergedUIDs survivor members absorbed =
    sort (remdups (filter (\<lambda>u. u \<noteq> '''' \<and> u \<noteq> ct_UID survivor)
      (absorbed @ concat (map ct_MergedUIDs members))))"

definition mergeGroup :: "contact list \<Rightarrow> contact \<times> string list" where
  "mergeGroup members =
    (let ordered = by_age members;
         oldest = hd ordered;
         absorbed = sort (map ct_UID (tl ordered));
         pick = firstNonEmpty (by_newest members)
     in (oldest\<lparr>ct_FormattedName := pick ct_FormattedName, ct_GivenName := pick ct_GivenName,
          ct_FamilyName := pick ct_FamilyName, ct_MiddleName := pick ct_MiddleName,
          ct_Prefix := pick ct_Prefix, ct_Suffix := pick ct_Suffix, ct_Nickname := pick ct_Nickname,
          ct_Org := pick ct_Org, ct_Title := pick ct_Title, ct_Notes := pick ct_Notes,
          ct_Birthday := pick ct_Birthday, ct_PhotoRef := pick ct_PhotoRef, ct_PGPKey := pick ct_PGPKey,
          ct_PhoneticGivenName := pick ct_PhoneticGivenName,
          ct_PhoneticFamilyName := pick ct_PhoneticFamilyName, ct_Department := pick ct_Department,
          ct_Pronouns := pick ct_Pronouns,
          ct_Emails := unionValues members ct_Emails normalizeEmail,
          ct_Phones := unionValues members ct_Phones normalizePhone,
          ct_Addresses := unionAddresses members, ct_GroupIDs := unionStrings members ct_GroupIDs,
          ct_IMs := unionComparable members ct_IMs, ct_Websites := unionComparable members ct_Websites,
          ct_Relations := unionComparable members ct_Relations,
          ct_Events := unionComparable members ct_Events,
          ct_CustomFields := unionComparable members ct_CustomFields,
          ct_MergedUIDs := mergedUIDs oldest members absorbed, ct_MergedInto := ''''\<rparr>, absorbed))"

end
