(* ===== verification/Dedupe_Groups.thy ===== *)
theory Dedupe_Groups
  imports Contacts_Dedupe
begin

text \<open>
  What findDuplicateGroups computes: the connected components, of two contacts or more, of
  the graph that joins contacts sharing an e-mail address or a telephone number, or a name
  when one of them has neither. The loops end, and neither the result nor its sequence
  depends on the sequences of the map iterations.
\<close>

section \<open>The graph\<close>

definition shares_key :: "contact \<Rightarrow> contact \<Rightarrow> bool" where
  "shares_key c d \<longleftrightarrow> (\<exists>k\<in>set (matchKeys c). k \<in> set (matchKeys d))"

definition shares_name :: "contact \<Rightarrow> contact \<Rightarrow> bool" where
  "shares_name c d \<longleftrightarrow> normalizeName c = normalizeName d \<and> normalizeName c \<noteq> '''' \<and>
     (otherwiseEmpty c \<or> otherwiseEmpty d)"

definition linked :: "contact \<Rightarrow> contact \<Rightarrow> bool" where
  "linked c d \<longleftrightarrow> shares_key c d \<or> shares_name c d"

lemma linked_sym: "linked c d = linked d c"
  by (auto simp: linked_def shares_key_def shares_name_def)

definition conn :: "(nat \<times> nat) set \<Rightarrow> (nat \<times> nat) set" where
  "conn E = (E \<union> E\<inverse>)\<^sup>*"

lemma conn_sym: "(x, y) \<in> conn E \<Longrightarrow> (y, x) \<in> conn E"
proof -
  have "sym (E \<union> E\<inverse>)" by (auto simp: sym_def)
  then show "(x, y) \<in> conn E \<Longrightarrow> (y, x) \<in> conn E" unfolding conn_def by (meson sym_rtrancl symD)
qed

lemma conn_trans: "(x, y) \<in> conn E \<Longrightarrow> (y, z) \<in> conn E \<Longrightarrow> (x, z) \<in> conn E"
  unfolding conn_def by (rule rtrancl_trans)

lemma conn_refl [simp]: "(x, x) \<in> conn E"
  by (simp add: conn_def)

lemma conn_edge: "(x, y) \<in> E \<Longrightarrow> (x, y) \<in> conn E"
  by (auto simp: conn_def)

lemma conn_mono: "E \<subseteq> F \<Longrightarrow> conn E \<subseteq> conn F"
  unfolding conn_def by (intro rtrancl_mono) auto

text \<open>An equivalence that contains the edges contains the connected pairs.\<close>

lemma conn_least:
  assumes "(x, y) \<in> conn E" "\<And>a b. (a, b) \<in> E \<Longrightarrow> R a b" "\<And>a. R a a"
    and "\<And>a b. R a b \<Longrightarrow> R b a" "\<And>a b c. R a b \<Longrightarrow> R b c \<Longrightarrow> R a c"
  shows "R x y"
  using assms(1) unfolding conn_def
proof (induction rule: rtrancl_induct)
  case base
  then show ?case by (rule assms(3))
next
  case (step y z)
  then have "R y z" using assms(2,4) by auto
  with step.IH show ?case by (rule assms(5))
qed

lemma conn_subset: "(\<And>a b. (a, b) \<in> E \<Longrightarrow> (a, b) \<in> conn F) \<Longrightarrow> conn E \<subseteq> conn F"
proof (rule subrelI)
  fix x y
  assume E: "\<And>a b. (a, b) \<in> E \<Longrightarrow> (a, b) \<in> conn F" and xy: "(x, y) \<in> conn E"
  from xy E show "(x, y) \<in> conn F"
    by (rule conn_least [where R = "\<lambda>a b. (a, b) \<in> conn F"]) (auto intro: conn_sym conn_trans)
qed

section \<open>Unions build the components\<close>

definition represents :: "nat list \<Rightarrow> (nat \<times> nat) set \<Rightarrow> bool" where
  "represents p E \<longleftrightarrow> forest p \<and> E \<subseteq> {..<length p} \<times> {..<length p} \<and>
     (\<forall>x<length p. \<forall>y<length p. root_of p x = root_of p y \<longleftrightarrow> (x, y) \<in> conn E)"

lemma represents_new: "represents (newUnionFind n) {}"
proof -
  have l: "length (newUnionFind n) = n" by (simp add: newUnionFind_def)
  show ?thesis unfolding represents_def l by (simp add: forest_new root_of_new conn_def)
qed

lemma represents_union:
  assumes "represents p E" "a < length p" "b < length p"
  obtains p' where "union_roots p a b = Some p'" "length p' = length p" "represents p' (insert (a, b) E)"
proof -
  obtain p' where p': "union_roots p a b = Some p'" "length p' = length p" "forest p'"
    "\<forall>y<length p. root_of p' y = (if root_of p y = root_of p b then root_of p a else root_of p y)"
    using union_roots_spec [OF _ assms(2,3)] assms(1) by (auto simp: represents_def)
  let ?E = "insert (a, b) E"
  have old: "root_of p x = root_of p y \<longleftrightarrow> (x, y) \<in> conn E" if "x < length p" "y < length p" for x y
    using assms(1) that by (simp add: represents_def)
  have up: "(x, y) \<in> conn ?E" if "(x, y) \<in> conn E" for x y using that conn_mono [of E ?E] by blast
  have ab: "(a, b) \<in> conn ?E" by (rule conn_edge) simp
  have "root_of p' x = root_of p' y \<longleftrightarrow> (x, y) \<in> conn ?E" if x: "x < length p" and y: "y < length p" for x y
  proof
    assume "root_of p' x = root_of p' y"
    then consider "root_of p x = root_of p y" | "root_of p x = root_of p b" "root_of p a = root_of p y"
      | "root_of p y = root_of p b" "root_of p x = root_of p a"
      using p'(4) x y by (auto split: if_splits)
    then show "(x, y) \<in> conn ?E"
    proof cases
      case 1
      then show ?thesis using old x y up by blast
    next
      case 2
      then have "(x, b) \<in> conn ?E" "(a, y) \<in> conn ?E" using old x y assms(2,3) up by auto
      then show ?thesis using conn_trans conn_sym ab by metis
    next
      case 3
      then have "(x, a) \<in> conn ?E" "(b, y) \<in> conn ?E" using old x y assms(2,3) up by metis+
      then show ?thesis using conn_trans ab by metis
    qed
  next
    assume c: "(x, y) \<in> conn ?E"
    have "x = y \<or> x < length p \<and> y < length p \<and> root_of p' x = root_of p' y"
      using c
    proof (rule conn_least)
      fix u v assume "(u, v) \<in> ?E"
      then consider "u = a" "v = b" | "(u, v) \<in> E" by auto
      then show "u = v \<or> u < length p \<and> v < length p \<and> root_of p' u = root_of p' v"
      proof cases
        case 1
        with p'(4) assms(2,3) show ?thesis by simp
      next
        case 2
        then have uv: "u < length p" "v < length p" using assms(1) by (auto simp: represents_def)
        have "root_of p u = root_of p v" using old [OF uv] conn_edge [OF 2] by simp
        then show ?thesis using uv p'(4) by simp
      qed
    qed auto
    then show "root_of p' x = root_of p' y" by auto
  qed
  moreover have "?E \<subseteq> {..<length p'} \<times> {..<length p'}"
    using assms p'(2) by (auto simp: represents_def)
  ultimately show thesis using that [OF p'(1,2)] p'(2,3) by (auto simp: represents_def)
qed

lemma union_pairs_represents:
  assumes "represents p E" "set ps \<subseteq> {..<length p} \<times> {..<length p}"
  shows "\<exists>p'. union_pairs ps p = Some p' \<and> length p' = length p \<and> represents p' (E \<union> set ps)"
  using assms
proof (induction ps arbitrary: p E)
  case Nil
  then show ?case by simp
next
  case (Cons a ps)
  obtain x y where a: "a = (x, y)" by fastforce
  then have xy: "x < length p" "y < length p" using Cons.prems(2) by auto
  obtain p1 where p1: "union_roots p x y = Some p1" "length p1 = length p" "represents p1 (insert (x, y) E)"
    using represents_union [OF Cons.prems(1) xy] .
  from Cons.IH [OF p1(3)] Cons.prems(2) p1(1,2) a show ?case by auto
qed

text \<open>The pairs the loop over keys joins.\<close>

fun key_pairs :: "(nat \<times> string) list \<Rightarrow> (string \<rightharpoonup> nat) \<Rightarrow> (nat \<times> nat) list" where
  "key_pairs [] byKey = []"
| "key_pairs ((i, k) # os) byKey =
    (case byKey k of Some j \<Rightarrow> (i, j) # key_pairs os byKey | None \<Rightarrow> key_pairs os (byKey(k \<mapsto> i)))"

lemma union_keys_pairs: "union_keys os m p = union_pairs (key_pairs os m) p"
proof (induction os m p rule: union_keys.induct)
  case (2 i k os m p)
  show ?case
  proof (cases "m k")
    case None
    with 2(1) [OF None] show ?thesis by (simp del: fun_upd_apply)
  next
    case (Some j)
    with 2(2) [OF Some] show ?thesis by (auto split: option.splits)
  qed
qed simp

text \<open>Where a key is known from: the occurrences still to come and the entry of the map.\<close>

definition holders :: "(nat \<times> string) list \<Rightarrow> (string \<rightharpoonup> nat) \<Rightarrow> string \<Rightarrow> nat set" where
  "holders os m k = {i. (i, k) \<in> set os \<or> m k = Some i}"

lemma key_pairs_sound: "(i, j) \<in> set (key_pairs os m) \<Longrightarrow> \<exists>k. i \<in> holders os m k \<and> j \<in> holders os m k"
proof (induction os m rule: key_pairs.induct)
  case (2 x k os m)
  show ?case
  proof (cases "m k")
    case None
    then have "(i, j) \<in> set (key_pairs os (m(k \<mapsto> x)))" using "2.prems" by (simp del: fun_upd_apply)
    from "2.IH"(1) [OF None this]
    obtain k' where "i \<in> holders os (m(k \<mapsto> x)) k'" "j \<in> holders os (m(k \<mapsto> x)) k'" by blast
    then show ?thesis using None by (intro exI [of _ k']) (auto simp: holders_def split: if_splits)
  next
    case (Some y)
    show ?thesis
    proof (cases "(i, j) = (x, y)")
      case True
      with Some show ?thesis by (intro exI [of _ k]) (auto simp: holders_def)
    next
      case False
      with Some "2.prems" "2.IH"(2) [OF Some] show ?thesis by (auto simp: holders_def)
    qed
  qed
qed simp

lemma key_pairs_complete:
  "i \<in> holders os m k \<Longrightarrow> j \<in> holders os m k \<Longrightarrow> (i, j) \<in> conn (set (key_pairs os m))"
proof (induction os m arbitrary: i j k rule: key_pairs.induct)
  case (1 m)
  then show ?case by (auto simp: holders_def)
next
  case (2 x k' os m)
  show ?case
  proof (cases "m k'")
    case None
    have "h \<in> holders os (m(k' \<mapsto> x)) k" if "h \<in> holders ((x, k') # os) m k" for h
      using that None by (auto simp: holders_def)
    with "2.prems" have "i \<in> holders os (m(k' \<mapsto> x)) k" "j \<in> holders os (m(k' \<mapsto> x)) k" by blast+
    from "2.IH"(1) [OF None this] None show ?thesis by (simp del: fun_upd_apply)
  next
    case (Some y)
    let ?F = "set (key_pairs ((x, k') # os) m)"
    have F: "?F = insert (x, y) (set (key_pairs os m))" using Some by simp
    have IH: "(a, b) \<in> conn ?F" if "a \<in> holders os m k" "b \<in> holders os m k" for a b
      using "2.IH"(2) [OF Some that] conn_mono [of "set (key_pairs os m)" ?F] F by auto
    have xy: "(x, y) \<in> conn ?F" by (rule conn_edge) (subst F, simp)
    have "h \<in> holders os m k \<or> h = x \<and> k = k'" if "h \<in> holders ((x, k') # os) m k" for h
      using that by (auto simp: holders_def)
    moreover have "y \<in> holders os m k'" using Some by (simp add: holders_def)
    ultimately show ?thesis using "2.prems" IH xy conn_sym conn_trans conn_refl by metis
  qed
qed

lemma key_occurrences_iff: "(i, k) \<in> set (key_occurrences cs) \<longleftrightarrow> i < length cs \<and> k \<in> set (matchKeys (cs ! i))"
  by (auto simp: key_occurrences_def in_set_enumerate_eq image_iff) 

lemma key_components:
  "(i, j) \<in> set (key_pairs (key_occurrences cs) Map.empty) \<Longrightarrow>
     i < length cs \<and> j < length cs \<and> shares_key (cs ! i) (cs ! j)"
  "i < length cs \<Longrightarrow> j < length cs \<Longrightarrow> shares_key (cs ! i) (cs ! j) \<Longrightarrow>
     (i, j) \<in> conn (set (key_pairs (key_occurrences cs) Map.empty))"
  using key_pairs_sound [of i j "key_occurrences cs" Map.empty]
    key_pairs_complete [of i "key_occurrences cs" Map.empty _ j]
  by (auto simp: holders_def key_occurrences_iff shares_key_def)

lemma name_index_iff: "i \<in> set (name_index cs n) \<longleftrightarrow> i < length cs \<and> normalizeName (cs ! i) = n"
  by (auto simp: name_index_def in_set_enumerate_eq image_iff)

lemma name_pairs_iff:
  assumes "n \<noteq> ''''"
  shows "(i, j) \<in> set (name_pairs cs n) \<Longrightarrow>
      i < length cs \<and> j < length cs \<and> shares_name (cs ! i) (cs ! j)"
    "i < length cs \<Longrightarrow> j < length cs \<Longrightarrow> i \<noteq> j \<Longrightarrow> normalizeName (cs ! i) = n \<Longrightarrow> shares_name (cs ! i) (cs ! j) \<Longrightarrow>
      (i, j) \<in> set (name_pairs cs n) \<or> (j, i) \<in> set (name_pairs cs n)"
proof -
  let ?I = "name_index cs n"
  have pair: "(i, j) \<in> set (name_pairs cs n) \<longleftrightarrow> (\<exists>a b. a < b \<and> b < length ?I \<and> i = ?I ! a \<and> j = ?I ! b \<and>
      (otherwiseEmpty (cs ! i) \<or> otherwiseEmpty (cs ! j)))" for i j
    by (auto simp: name_pairs_def Let_def Suc_le_eq)
  { assume "(i, j) \<in> set (name_pairs cs n)"
    then obtain a b where ab: "a < b" "b < length ?I" "i = ?I ! a" "j = ?I ! b"
      "otherwiseEmpty (cs ! i) \<or> otherwiseEmpty (cs ! j)" unfolding pair by blast
    then have "i \<in> set ?I" "j \<in> set ?I" by simp_all
    then show "i < length cs \<and> j < length cs \<and> shares_name (cs ! i) (cs ! j)"
      using ab(5) assms by (simp add: name_index_iff shares_name_def) }
  { assume h: "i < length cs" "j < length cs" "i \<noteq> j" "normalizeName (cs ! i) = n" "shares_name (cs ! i) (cs ! j)"
    then have "i \<in> set ?I" "j \<in> set ?I" by (simp_all add: name_index_iff shares_name_def)
    then obtain a b where "a < length ?I" "?I ! a = i" "b < length ?I" "?I ! b = j" by (metis in_set_conv_nth)
    moreover have "a \<noteq> b" using calculation h(3) by auto
    moreover have "otherwiseEmpty (cs ! i) \<or> otherwiseEmpty (cs ! j)" using h(5) by (simp add: shares_name_def)
    ultimately show "(i, j) \<in> set (name_pairs cs n) \<or> (j, i) \<in> set (name_pairs cs n)"
      unfolding pair by (metis linorder_neqE_nat) }
qed


section \<open>The components\<close>

definition joined :: "contact list \<Rightarrow> (nat \<times> nat) set" where
  "joined cs = {(i, j). i < length cs \<and> j < length cs \<and> linked (cs ! i) (cs ! j)}"

text \<open>The component of an index, and the components by their first index.\<close>

definition component_of :: "contact list \<Rightarrow> nat \<Rightarrow> nat list" where
  "component_of cs i = filter (\<lambda>j. (i, j) \<in> conn (joined cs)) [0..<length cs]"

definition component_groups :: "contact list \<Rightarrow> nat list list" where
  "component_groups cs =
    filter (\<lambda>g. length g \<ge> 2)
      (map (component_of cs) (filter (\<lambda>i. hd (component_of cs i) = i) [0..<length cs]))"

text \<open>What a run may choose as the sequence of a map iteration: any arrangement of the keys.\<close>

definition map_iteration :: "map_orders \<Rightarrow> bool" where
  "map_iteration mo \<longleftrightarrow> (\<forall>xs. mset (mo_names mo xs) = mset xs) \<and> (\<forall>xs. mset (mo_roots mo xs) = mset xs)"

definition all_pairs :: "map_orders \<Rightarrow> contact list \<Rightarrow> (nat \<times> nat) list" where
  "all_pairs mo cs = key_pairs (key_occurrences cs) Map.empty @
     concat (map (name_pairs cs) (mo_names mo (known_names cs)))"

lemma mem_component_of: "j \<in> set (component_of cs i) \<longleftrightarrow> j < length cs \<and> (i, j) \<in> conn (joined cs)"
  by (auto simp: component_of_def)

lemma component_of_same: "(i, j) \<in> conn (joined cs) \<Longrightarrow> component_of cs i = component_of cs j"
  unfolding component_of_def by (intro filter_cong refl) (auto intro: conn_trans conn_sym)

lemma component_of_hd:
  assumes "i < length cs"
  shows "hd (component_of cs i) < length cs" "(i, hd (component_of cs i)) \<in> conn (joined cs)"
proof -
  have "component_of cs i \<noteq> []" using assms mem_component_of [of i cs i] by auto
  then have "hd (component_of cs i) \<in> set (component_of cs i)" by simp
  then show "hd (component_of cs i) < length cs" "(i, hd (component_of cs i)) \<in> conn (joined cs)"
    by (simp_all add: mem_component_of)
qed

lemma set_order: "map_iteration mo \<Longrightarrow> set (mo_names mo xs) = set xs"
  "map_iteration mo \<Longrightarrow> set (mo_roots mo ys) = set ys"
  "map_iteration mo \<Longrightarrow> distinct (mo_roots mo ys) \<longleftrightarrow> distinct ys"
  unfolding map_iteration_def by (metis mset_eq_setD, metis mset_eq_setD, metis mset_eq_imp_distinct_iff)

lemma all_pairs_sound: "map_iteration mo \<Longrightarrow> (i, j) \<in> set (all_pairs mo cs) \<Longrightarrow> (i, j) \<in> joined cs"
  using key_components(1) [of i j cs] name_pairs_iff(1) [of _ i j cs]
  by (auto simp: all_pairs_def joined_def linked_def set_order known_names_def)

lemma all_pairs_complete:
  assumes "map_iteration mo" "(i, j) \<in> joined cs"
  shows "(i, j) \<in> conn (set (all_pairs mo cs))"
proof -
  have b: "i < length cs" "j < length cs" "linked (cs ! i) (cs ! j)" using assms(2) by (auto simp: joined_def)
  consider "shares_key (cs ! i) (cs ! j)" | "i = j" | "i \<noteq> j" "shares_name (cs ! i) (cs ! j)"
    using b(3) by (auto simp: linked_def)
  then show ?thesis
  proof cases
    case 1
    then have "(i, j) \<in> conn (set (key_pairs (key_occurrences cs) Map.empty))" using key_components(2) b by blast
    moreover have "set (key_pairs (key_occurrences cs) Map.empty) \<subseteq> set (all_pairs mo cs)"
      by (simp add: all_pairs_def)
    ultimately show ?thesis using conn_mono by blast
  next
    case 2
    then show ?thesis by simp
  next
    case 3
    let ?n = "normalizeName (cs ! i)"
    have n: "?n \<noteq> ''''" using 3(2) unfolding shares_name_def by blast
    then have "?n \<in> set (mo_names mo (known_names cs))"
      using b(1) assms(1) by (auto simp: set_order known_names_def)
    then have "set (name_pairs cs ?n) \<subseteq> set (all_pairs mo cs)" by (auto simp: all_pairs_def)
    with name_pairs_iff(2) [OF n b(1,2) 3(1) refl 3(2)]
    show ?thesis using conn_edge conn_sym by blast
  qed
qed

lemma conn_all_pairs: "map_iteration mo \<Longrightarrow> conn (set (all_pairs mo cs)) = conn (joined cs)"
  using conn_subset [of "set (all_pairs mo cs)" "joined cs"] conn_subset [of "joined cs" "set (all_pairs mo cs)"]
    all_pairs_sound all_pairs_complete conn_edge by blast

lemma union_pairs_append:
  "union_pairs (ps @ qs) p = (case union_pairs ps p of None \<Rightarrow> None | Some p' \<Rightarrow> union_pairs qs p')"
  by (induction ps p rule: union_pairs.induct) (auto split: option.splits)

lemma find_all_roots:
  assumes "forest p" "\<forall>i\<in>set is. i < length p"
  shows "find_all is p = Some (map (root_of p) is)"
  using assms
proof (induction "is" arbitrary: p)
  case Nil
  then show ?case by simp
next
  case (Cons i "is")
  obtain p' where p': "find_root p i = Some (root_of p i, p')" "same_roots p p'"
    using find_root_spec [OF Cons.prems(1), of i] Cons.prems(2) by auto
  then have "find_all is p' = Some (map (root_of p') is)" using Cons by (auto simp: same_roots_def)
  moreover have "map (root_of p') is = map (root_of p) is" using p'(2) Cons.prems(2) by (auto simp: same_roots_def)
  ultimately show ?case using p'(1) by simp
qed

text \<open>The groups listed by root are the components listed by first index.\<close>

lemma members_of_roots:
  assumes "represents p E" "conn E = conn (joined cs)" "length p = length cs" "i < length cs"
  shows "members_of (map (root_of p) [0..<length cs]) (root_of p i) = component_of cs i"
proof -
  have "root_of p j = root_of p i \<longleftrightarrow> (i, j) \<in> conn (joined cs)" if "j < length cs" for j
    using assms that unfolding represents_def by metis
  moreover have "sorted (filter (\<lambda>j. (i, j) \<in> conn (joined cs)) [0..<length cs])" by (simp add: sorted_wrt_filter)
  moreover have "filter (\<lambda>j. map (root_of p) [0..<length cs] ! j = root_of p i) [0..<length cs] =
      filter (\<lambda>j. (i, j) \<in> conn (joined cs)) [0..<length cs]"
    by (rule filter_cong) (use calculation(1) in auto)
  ultimately show ?thesis by (simp add: members_of_def component_of_def sorted_sort_id)
qed

lemma component_groups_props:
  "sorted (map hd (component_groups cs))" "distinct (map hd (component_groups cs))"
  "set (component_groups cs) = {g. \<exists>i<length cs. g = component_of cs i \<and> length g \<ge> 2}"
proof -
  let ?L = "filter (\<lambda>i. hd (component_of cs i) = i) [0..<length cs]"
  have m: "map hd (map (component_of cs) ?L) = ?L" by (induction ?L) (auto intro: map_idI)
  have s: "sorted (map hd (map (component_of cs) ?L))" "distinct (map hd (map (component_of cs) ?L))"
    unfolding m by (simp_all add: sorted_wrt_filter)
  show "sorted (map hd (component_groups cs))" "distinct (map hd (component_groups cs))"
    unfolding component_groups_def using s by (auto intro: sorted_filter distinct_map_filter)
  have "\<exists>j<length cs. hd (component_of cs j) = j \<and> component_of cs j = component_of cs i" if i: "i < length cs" for i
  proof -
    note h = component_of_hd [OF i]
    have "component_of cs (hd (component_of cs i)) = component_of cs i" using component_of_same [OF h(2)] by simp
    then show ?thesis using h(1) by (intro exI [of _ "hd (component_of cs i)"]) simp
  qed
  then show "set (component_groups cs) = {g. \<exists>i<length cs. g = component_of cs i \<and> length g \<ge> 2}"
    unfolding component_groups_def by (auto simp: image_iff) metis
qed


lemma findDuplicateGroups_components_aux:
  assumes "map_iteration mo"
  shows "findDuplicateGroups mo cs = Some (component_groups cs)"
proof -
  let ?n = "length cs"
  have "set (all_pairs mo cs) \<subseteq> {..<length (newUnionFind ?n)} \<times> {..<length (newUnionFind ?n)}"
    using all_pairs_sound [OF assms, of _ _ cs] by (auto simp: joined_def newUnionFind_def)
  from union_pairs_represents [OF represents_new this]
  obtain p where p: "union_pairs (all_pairs mo cs) (newUnionFind ?n) = Some p" "length p = ?n"
    "represents p (set (all_pairs mo cs))" by (auto simp: newUnionFind_def)
  note c = conn_all_pairs [OF assms, of cs]
  let ?roots = "map (root_of p) [0..<?n]" and ?g = "map (members_of (map (root_of p) [0..<length cs]))"
  have fa: "find_all [0..<?n] p = Some ?roots" using find_all_roots [of p] p(2,3) by (auto simp: represents_def)
  have g: "members_of ?roots (root_of p i) = component_of cs i" if "i < ?n" for i
    using members_of_roots [OF p(3) c p(2) that] .
  define L where "L = filter (\<lambda>g. length g \<ge> 2) (map (members_of ?roots) (mo_roots mo (remdups ?roots)))"
  have "findDuplicateGroups mo cs = Some (sort_key hd L)"
    using p(1) fa unfolding findDuplicateGroups_def all_pairs_def union_pairs_append union_keys_pairs L_def
    by (auto split: option.splits)
  moreover have "sort_key hd L = component_groups cs"
  proof (rule map_sorted_distinct_set_unique [where f = hd])
    have setL: "set L = set (component_groups cs)"
      using g set_order(2) [OF assms] by (auto simp: L_def component_groups_props(3) image_iff)
    then show "set (sort_key hd L) = set (component_groups cs)" by simp
    show "sorted (map hd (sort_key hd L))" by simp
    have root: "hd (members_of ?roots r) < ?n \<and> root_of p (hd (members_of ?roots r)) = r" if r: "r \<in> set ?roots" for r
    proof -
      obtain i where i: "i < ?n" "r = root_of p i" using r by auto
      then have "i \<in> set (members_of ?roots r)" by (simp add: members_of_def)
      then have "hd (members_of ?roots r) \<in> set (members_of ?roots r)" by (metis hd_in_set list.distinct(1) list.set(1) equals0D)
      then have "hd (members_of ?roots r) < ?n" "?roots ! hd (members_of ?roots r) = r"
        unfolding members_of_def set_sort set_filter by auto
      then show ?thesis by (metis add_0 length_upt minus_nat.diff_0 nth_map nth_upt)
    qed
    have "inj_on (hd \<circ> members_of ?roots) (set (mo_roots mo (remdups ?roots)))"
      by (rule inj_on_inverseI [where g = "root_of p"]) (use root set_order(2) [OF assms] in auto)
    then have "distinct (map hd (map (members_of ?roots) (mo_roots mo (remdups ?roots))))"
      using set_order(3) [OF assms] by (simp add: distinct_map)
    then have d: "distinct (map hd L)" unfolding L_def by (rule distinct_map_filter)
    then show "distinct (map hd (sort_key hd L))" by (simp add: distinct_map)
    show "inj_on hd (set (sort_key hd L) \<union> set (component_groups cs))"
      using d setL by (simp add: distinct_map)
  qed (rule component_groups_props)+
  ultimately show ?thesis by simp
qed

section \<open>Properties\<close>

text \<open>
  C12: findDuplicateGroups returns, whatever the sequences of its map iterations, and what it
  returns are the connected components of two contacts or more of the graph its comment
  describes, every group in the sequence of the contacts and the groups by their first contact.
\<close>

theorem findDuplicateGroups_components:
  assumes "map_iteration mo"
  shows "findDuplicateGroups mo cs = Some (component_groups cs)"
  by (rule findDuplicateGroups_components_aux [OF assms])


section \<open>Worked examples\<close>

definition ann2 :: contact where
  "ann2 = blank_contact\<lparr>ct_UID := ''b'', ct_Rev := 2, ct_FormattedName := ''Ann B'', ct_CreatedAt := ''+'',
    ct_Emails := [\<lparr>cv_Label = '''', cv_Value = '' ANN@x''\<rparr>]\<rparr>"

definition plain_order :: map_orders where
  "plain_order = \<lparr>mo_names = id, mo_roots = id\<rparr>"

lemma plain_order_ok: "map_iteration plain_order"
  by (simp add: map_iteration_def plain_order_def)

theorem findDuplicateGroups_components_witness: "component_groups [ann, blank_contact, ann2] = [[0, 2]]"
proof -
  have "findDuplicateGroups plain_order [ann, blank_contact, ann2] = Some [[0, 2]]" by code_simp
  with findDuplicateGroups_components [OF plain_order_ok, of "[ann, blank_contact, ann2]"] show ?thesis by simp
qed

end
