(* ===== verification/Contacts_Store.thy ===== *)
theory Contacts_Store
  imports Dedupe_Groups
begin

text \<open>
  The address book of one user, kept in contacts.json (backend/internal/contacts/store.go).
  Rev is a revision number of the whole book; every mutation stamps the contacts it touches
  with the next one. It serves as entity tag and as cursor of the synchronising clients.
\<close>

record contacts_store =
  co_contacts :: "contact list"
  co_seq :: int
  co_gcHigh :: int

record contacts_file =
  cf_Contacts :: "contact list"
  cf_Seq :: int
  cf_GCHighWaterRev :: int

type_synonym contacts_world = "(contacts_store, contacts_file) world"

text \<open>
  Errors of the operations. The last two are no values of the code: a slice index out of
  range, and a call that does not return. Neither occurs on the books the store writes.
\<close>

datatype contacts_error = ContactsIO io_error | PreconditionFailed | IndexPanic | NoReturn

definition contacts_empty :: contacts_store where
  "contacts_empty = \<lparr>co_contacts = [], co_seq = 0, co_gcHigh = 0\<rparr>"

definition contacts_applyFile :: "contacts_file \<Rightarrow> contacts_store \<Rightarrow> contacts_store" where
  "contacts_applyFile cf s =
    \<lparr>co_contacts = cf_Contacts cf, co_seq = cf_Seq cf, co_gcHigh = cf_GCHighWaterRev cf\<rparr>"

definition contacts_file_of :: "contacts_store \<Rightarrow> contacts_file" where
  "contacts_file_of s =
    \<lparr>cf_Contacts = co_contacts s, cf_Seq = co_seq s, cf_GCHighWaterRev = co_gcHigh s\<rparr>"

interpretation contacts_js: json_store contacts_applyFile contacts_file_of
  by unfold_locales (simp_all add: contacts_applyFile_def contacts_file_of_def)

section \<open>Reading\<close>

definition contacts_New :: "go_env \<Rightarrow> contacts_file json_file \<Rightarrow> io_error option \<times> contacts_world" where
  "contacts_New e f = open_store contacts_applyFile contacts_file_of e contacts_empty f"

definition live_contacts :: "contacts_store \<Rightarrow> contact list" where
  "live_contacts s = filter (\<lambda>c. \<not> ct_Deleted c) (co_contacts s)"

definition contacts_List :: "contacts_world \<Rightarrow> contact list \<times> contacts_world" where
  "contacts_List = observe contacts_applyFile live_contacts"

definition contact_get :: "string \<Rightarrow> contacts_store \<Rightarrow> contact option" where
  "contact_get uid s = List.find (\<lambda>c. ct_UID c = uid) (co_contacts s)"

definition contacts_Get :: "string \<Rightarrow> contacts_world \<Rightarrow> contact option \<times> contacts_world" where
  "contacts_Get uid = observe contacts_applyFile (contact_get uid)"

definition contacts_self :: "contacts_store \<Rightarrow> contact option" where
  "contacts_self s = List.find (\<lambda>c. ct_IsSelf c \<and> \<not> ct_Deleted c) (co_contacts s)"

definition contacts_GetSelf :: "contacts_world \<Rightarrow> contact option \<times> contacts_world" where
  "contacts_GetSelf w =
    (case LoadJSONFile contacts_applyFile None w of
       (Some err, w') \<Rightarrow> (None, w')
     | (None, w') \<Rightarrow> (contacts_self (fst w'), w'))"

record sync_delta =
  sd_changed :: "contact list"
  sd_deleted :: "contact list"
  sd_cursor :: int
  sd_tooOld :: bool

definition changed_since :: "int \<Rightarrow> contacts_store \<Rightarrow> sync_delta" where
  "changed_since rv s =
    (let old = rv > 0 \<and> rv < co_gcHigh s;
         newer = (if old then [] else filter (\<lambda>c. \<not> ct_Rev c \<le> rv) (co_contacts s))
     in \<lparr>sd_changed = filter (\<lambda>c. \<not> ct_Deleted c) newer, sd_deleted = filter ct_Deleted newer,
         sd_cursor = co_seq s, sd_tooOld = old\<rparr>)"

definition contacts_ChangedSince :: "int \<Rightarrow> contacts_world \<Rightarrow> sync_delta \<times> contacts_world" where
  "contacts_ChangedSince rv = observe contacts_applyFile (changed_since rv)"

text \<open>The score of a contact for a lower-case query; None is the score -1.\<close>

definition search_score :: "string \<Rightarrow> contact \<Rightarrow> nat option" where
  "search_score q c =
    (if prefix q (to_lower (ct_FormattedName c)) then Some 0
     else if \<exists>m\<in>set (ct_Emails c). prefix q (to_lower (cv_Value m)) then Some 1
     else if str_contains (to_lower (ct_FormattedName c)) q then Some 2
     else if str_contains (to_lower (ct_GivenName c)) q \<or> str_contains (to_lower (ct_FamilyName c)) q then Some 3
     else if \<exists>m\<in>set (ct_Emails c). str_contains (to_lower (cv_Value m)) q then Some 4
     else None)"

definition search_contacts :: "string \<Rightarrow> int \<Rightarrow> contacts_store \<Rightarrow> contact list" where
  "search_contacts query limit s =
    (let query1 = trim_space query in
     if query1 = '''' \<or> limit \<le> 0 then []
     else
       (let q = to_lower query1;
            results = filter (\<lambda>c. search_score q c \<noteq> None) (live_contacts s)
        in take (nat limit) (sort_key (\<lambda>c. the (search_score q c)) results)))"

definition contacts_Search :: "string \<Rightarrow> int \<Rightarrow> contacts_world \<Rightarrow> contact list \<times> contacts_world" where
  "contacts_Search query limit = observe contacts_applyFile (search_contacts query limit)"

section \<open>Writing one contact\<close>

definition contact_upsert ::
  "go_env \<Rightarrow> contact \<Rightarrow> contacts_store \<Rightarrow> (contacts_error + contact) \<times> contacts_store \<times> bool" where
  "contact_upsert e c s =
    (let now = stamp e; sq = co_seq s + 1; s1 = s\<lparr>co_seq := sq\<rparr>;
         c1 = c\<lparr>ct_Rev := sq, ct_Deleted := False, ct_UpdatedAt := now\<rparr>
     in if ct_UID c1 = '''' then
          (case NewUUIDv4 (env_rand e) of
             Inl err \<Rightarrow> (Inl (ContactsIO err), s1, False)
           | Inr uid \<Rightarrow>
               (let c2 = c1\<lparr>ct_UID := uid, ct_CreatedAt := now\<rparr>
                in (Inr c2, s1\<lparr>co_contacts := co_contacts s1 @ [c2]\<rparr>, True)))
        else
          (case List.find (\<lambda>x. ct_UID x = ct_UID c1) (co_contacts s1) of
             Some existing \<Rightarrow>
               (let c2 = c1\<lparr>ct_CreatedAt := (if ct_CreatedAt c1 = '''' then ct_CreatedAt existing
                                             else ct_CreatedAt c1),
                            ct_IsSelf := ct_IsSelf existing\<rparr>
                in (Inr c2,
                    s1\<lparr>co_contacts := replace_first (\<lambda>x. ct_UID x = ct_UID c1) (\<lambda>_. c2) (co_contacts s1)\<rparr>,
                    True))
           | None \<Rightarrow>
               (let c2 = c1\<lparr>ct_CreatedAt := now\<rparr>
                in (Inr c2, s1\<lparr>co_contacts := co_contacts s1 @ [c2]\<rparr>, True))))"

definition contacts_Upsert ::
  "go_env \<Rightarrow> contact \<Rightarrow> contacts_world \<Rightarrow> (contacts_error + contact) \<times> contacts_world" where
  "contacts_Upsert e c = transact contacts_applyFile contacts_file_of ContactsIO e (contact_upsert e c)"

record contact_precondition =
  RequireAbsent :: bool
  RequireETag :: string

definition contact_upsert_if ::
  "go_env \<Rightarrow> contact \<Rightarrow> contact_precondition \<Rightarrow> contacts_store \<Rightarrow>
   (contacts_error + contact) \<times> contacts_store \<times> bool" where
  "contact_upsert_if e c pre s =
    (let existing = contact_get (ct_UID c) s in
     if RequireAbsent pre \<and> (case existing of None \<Rightarrow> False | Some x \<Rightarrow> \<not> ct_Deleted x)
     then (Inl PreconditionFailed, s, False)
     else if RequireETag pre \<noteq> '''' \<and> (case existing of None \<Rightarrow> True | Some x \<Rightarrow> ETag x \<noteq> RequireETag pre)
     then (Inl PreconditionFailed, s, False)
     else contact_upsert e c s)"

definition contacts_UpsertWithPrecondition ::
  "go_env \<Rightarrow> contact \<Rightarrow> contact_precondition \<Rightarrow> contacts_world \<Rightarrow>
   (contacts_error + contact) \<times> contacts_world" where
  "contacts_UpsertWithPrecondition e c pre =
    transact contacts_applyFile contacts_file_of ContactsIO e (contact_upsert_if e c pre)"

definition contact_delete ::
  "go_env \<Rightarrow> string \<Rightarrow> contacts_store \<Rightarrow> (contacts_error + bool) \<times> contacts_store \<times> bool" where
  "contact_delete e uid s =
    (case List.find (\<lambda>c. ct_UID c = uid) (co_contacts s) of
       None \<Rightarrow> (Inr False, s, False)
     | Some c \<Rightarrow>
         (let sq = co_seq s + 1; c1 = (tombstone c)\<lparr>ct_Rev := sq, ct_UpdatedAt := stamp e\<rparr>
          in (Inr True,
              s\<lparr>co_seq := sq, co_contacts := replace_first (\<lambda>x. ct_UID x = uid) (\<lambda>_. c1) (co_contacts s)\<rparr>,
              True)))"

definition contacts_Delete ::
  "go_env \<Rightarrow> string \<Rightarrow> contacts_world \<Rightarrow> (contacts_error + bool) \<times> contacts_world" where
  "contacts_Delete e uid = transact contacts_applyFile contacts_file_of ContactsIO e (contact_delete e uid)"

text \<open>The loop that takes the flag from the other contacts; \<open>i\<close> is the loop index.\<close>

fun clear_other_selfs ::
  "string \<Rightarrow> nat \<Rightarrow> nat \<Rightarrow> contact list \<Rightarrow> int \<Rightarrow> contact list \<times> int \<times> bool" where
  "clear_other_selfs now idx i [] sq = ([], sq, False)"
| "clear_other_selfs now idx i (c # cs) sq =
    (if i \<noteq> idx \<and> ct_IsSelf c then
       (case clear_other_selfs now idx (Suc i) cs (sq + 1) of
          (cs', sq', _) \<Rightarrow> (c\<lparr>ct_IsSelf := False, ct_Rev := sq + 1, ct_UpdatedAt := now\<rparr> # cs', sq', True))
     else
       (case clear_other_selfs now idx (Suc i) cs sq of (cs', sq', ch) \<Rightarrow> (c # cs', sq', ch)))"

text \<open>The index of the first element that satisfies a test.\<close>

fun find_index :: "('a \<Rightarrow> bool) \<Rightarrow> 'a list \<Rightarrow> nat option" where
  "find_index P [] = None"
| "find_index P (x # xs) = (if P x then Some 0 else map_option Suc (find_index P xs))"

definition contact_set_self ::
  "go_env \<Rightarrow> string \<Rightarrow> bool \<Rightarrow> contacts_store \<Rightarrow> (contacts_error + contact option) \<times> contacts_store \<times> bool"
where
  "contact_set_self e uid self s =
    (case find_index (\<lambda>c. ct_UID c = uid) (co_contacts s) of
       None \<Rightarrow> (Inr None, s, False)
     | Some idx \<Rightarrow>
         (let now = stamp e;
              (cs1, sq1, changed1) =
                (if self then clear_other_selfs now idx 0 (co_contacts s) (co_seq s)
                 else (co_contacts s, co_seq s, False));
              c = cs1 ! idx;
              (cs2, sq2, changed2) =
                (if ct_IsSelf c \<noteq> self
                 then (cs1[idx := c\<lparr>ct_IsSelf := self, ct_Rev := sq1 + 1, ct_UpdatedAt := now\<rparr>], sq1 + 1, True)
                 else (cs1, sq1, changed1))
          in (Inr (Some (cs2 ! idx)), s\<lparr>co_contacts := cs2, co_seq := sq2\<rparr>, changed2)))"

definition contacts_SetSelf ::
  "go_env \<Rightarrow> string \<Rightarrow> bool \<Rightarrow> contacts_world \<Rightarrow> (contacts_error + contact option) \<times> contacts_world" where
  "contacts_SetSelf e uid self =
    transact contacts_applyFile contacts_file_of ContactsIO e (contact_set_self e uid self)"

section \<open>Dedupe and GC\<close>

record dedupe_merge =
  dm_Survivor :: string
  dm_Absorbed :: "string list"

record dedupe_report =
  dr_MergedCount :: nat
  dr_Groups :: "dedupe_merge list"

text \<open>
  \<open>byUID\<close> of Dedupe gives the position of a group member in the whole list; its -1 is None
  here, and using it as an index is the panic None of the functions below.
\<close>

definition byUID :: "contact list \<Rightarrow> nat list \<Rightarrow> nat list \<Rightarrow> string \<Rightarrow> nat option" where
  "byUID live liveIdx grp uid =
    map_option (\<lambda>gi. liveIdx ! gi) (List.find (\<lambda>gi. ct_UID (live ! gi) = uid) grp)"

fun absorb_losers ::
  "string \<Rightarrow> (string \<Rightarrow> nat option) \<Rightarrow> string \<Rightarrow> string list \<Rightarrow> contacts_store \<Rightarrow> contacts_store option" where
  "absorb_losers now at surv [] s = Some s"
| "absorb_losers now at surv (uid # uids) s =
    (case at uid of
       None \<Rightarrow> None
     | Some i \<Rightarrow>
         (let sq = co_seq s + 1;
              loser = (tombstone (co_contacts s ! i))\<lparr>ct_MergedInto := surv, ct_Rev := sq, ct_UpdatedAt := now\<rparr>
          in absorb_losers now at surv uids (s\<lparr>co_seq := sq, co_contacts := (co_contacts s)[i := loser]\<rparr>)))"

fun dedupe_groups ::
  "string \<Rightarrow> contact list \<Rightarrow> nat list \<Rightarrow> nat list list \<Rightarrow> contacts_store \<times> dedupe_report \<times> bool \<Rightarrow>
   (contacts_store \<times> dedupe_report \<times> bool) option" where
  "dedupe_groups now live liveIdx [] st = Some st"
| "dedupe_groups now live liveIdx (grp # grps) (s, report, changed) =
    (let members = map ((!) live) grp in
     if \<not> groupShouldMerge members then dedupe_groups now live liveIdx grps (s, report, changed)
     else
       (let (survivor, absorbed) = mergeGroup members;
            at = byUID live liveIdx grp;
            sq = co_seq s + 1;
            survivor1 = survivor\<lparr>ct_Rev := sq, ct_UpdatedAt := now\<rparr>
        in case at (ct_UID survivor1) of
             None \<Rightarrow> None
           | Some i \<Rightarrow>
               (case absorb_losers now at (ct_UID survivor1) absorbed
                       (s\<lparr>co_seq := sq, co_contacts := (co_contacts s)[i := survivor1]\<rparr>) of
                  None \<Rightarrow> None
                | Some s' \<Rightarrow>
                    dedupe_groups now live liveIdx grps
                      (s', \<lparr>dr_MergedCount = dr_MergedCount report + length absorbed,
                            dr_Groups = dr_Groups report @
                              [\<lparr>dm_Survivor = ct_UID survivor1, dm_Absorbed = absorbed\<rparr>]\<rparr>, True))))"

definition live_index :: "contact list \<Rightarrow> nat list" where
  "live_index cs = filter (\<lambda>i. \<not> ct_Deleted (cs ! i)) [0..<length cs]"

definition contacts_dedupe ::
  "go_env \<Rightarrow> map_orders \<Rightarrow> contacts_store \<Rightarrow> (contacts_error + dedupe_report) \<times> contacts_store \<times> bool" where
  "contacts_dedupe e mo s =
    (let live = live_contacts s; liveIdx = live_index (co_contacts s) in
     case findDuplicateGroups mo live of
       None \<Rightarrow> (Inl NoReturn, s, False)
     | Some groups \<Rightarrow>
         (case dedupe_groups (stamp e) live liveIdx groups (s, \<lparr>dr_MergedCount = 0, dr_Groups = []\<rparr>, False) of
            None \<Rightarrow> (Inl IndexPanic, s, False)
          | Some (s', report, changed) \<Rightarrow> (Inr report, s', changed)))"

definition contacts_Dedupe ::
  "go_env \<Rightarrow> map_orders \<Rightarrow> contacts_world \<Rightarrow> (contacts_error + dedupe_report) \<times> contacts_world" where
  "contacts_Dedupe e mo = transact contacts_applyFile contacts_file_of ContactsIO e (contacts_dedupe e mo)"

definition defaultTombstoneRetention :: int where
  "defaultTombstoneRetention = 30 * 24 * hour"

definition gc_purges :: "go_env \<Rightarrow> int \<Rightarrow> contact \<Rightarrow> bool" where
  "gc_purges e cutoff c \<longleftrightarrow> ct_Deleted c \<and>
    (case env_parse e (ct_UpdatedAt c) of None \<Rightarrow> False | Some t \<Rightarrow> t < cutoff)"

definition contacts_gc ::
  "go_env \<Rightarrow> int \<Rightarrow> contacts_store \<Rightarrow> (contacts_error + unit) \<times> contacts_store \<times> bool" where
  "contacts_gc e retention s =
    (let keep = (if retention \<le> 0 then defaultTombstoneRetention else retention);
         cutoff = env_now e - keep;
         purged = filter (gc_purges e cutoff) (co_contacts s);
         high = fold (\<lambda>c h. if ct_Rev c > h then ct_Rev c else h) purged (co_gcHigh s)
     in if purged = [] then (Inr (), s, False)
        else (Inr (), s\<lparr>co_gcHigh := high, co_contacts := filter (\<lambda>c. \<not> gc_purges e cutoff c) (co_contacts s)\<rparr>,
              True))"

definition contacts_GC :: "go_env \<Rightarrow> int \<Rightarrow> contacts_world \<Rightarrow> (contacts_error + unit) \<times> contacts_world" where
  "contacts_GC e retention = transact contacts_applyFile contacts_file_of ContactsIO e (contacts_gc e retention)"

text \<open>A request that writes and its effect on the book, to state what holds for any run.\<close>

datatype contacts_request = CqUpsert contact | CqUpsertIf contact contact_precondition | CqDelete string
  | CqSetSelf string bool | CqDedupe map_orders | CqGC int

fun contacts_call :: "go_env \<Rightarrow> contacts_request \<Rightarrow> contacts_world \<Rightarrow> contacts_world" where
  "contacts_call e (CqUpsert c) w = snd (contacts_Upsert e c w)"
| "contacts_call e (CqUpsertIf c pre) w = snd (contacts_UpsertWithPrecondition e c pre w)"
| "contacts_call e (CqDelete uid) w = snd (contacts_Delete e uid w)"
| "contacts_call e (CqSetSelf uid b) w = snd (contacts_SetSelf e uid b w)"
| "contacts_call e (CqDedupe mo) w = snd (contacts_Dedupe e mo w)"
| "contacts_call e (CqGC d) w = snd (contacts_GC e d w)"

end
