(* ===== verification/Contacts_Sync.thy ===== *)
theory Contacts_Sync
  imports Contacts_Store
begin

text \<open>
  What the address book promises the clients that synchronise with it: revisions and the
  watermark of the garbage collection only grow, every change is behind a newer revision, and
  so a client that applies the delta since its cursor holds the live contacts.
\<close>

section \<open>Well-formed books\<close>

definition contacts_ok :: "contacts_store \<Rightarrow> bool" where
  "contacts_ok s \<longleftrightarrow> distinct (map ct_UID (co_contacts s)) \<and> '''' \<notin> ct_UID ` set (co_contacts s) \<and>
     (\<forall>c\<in>set (co_contacts s). 0 < ct_Rev c \<and> ct_Rev c \<le> co_seq s) \<and>
     0 \<le> co_seq s \<and> co_gcHigh s \<le> co_seq s"

text \<open>
  How a book may change: from one state to a later one a contact is the same, or has a revision
  above the old sequence number, or is gone, and then it was a tombstone or the watermark is
  above the old sequence number.
\<close>

definition evolves :: "contacts_store \<Rightarrow> contacts_store \<Rightarrow> bool" where
  "evolves s s' \<longleftrightarrow> co_seq s \<le> co_seq s' \<and> co_gcHigh s \<le> co_gcHigh s' \<and>
     (\<forall>u. contact_get u s' = contact_get u s \<or>
        (\<exists>c. contact_get u s' = Some c \<and> co_seq s < ct_Rev c) \<or>
        (contact_get u s' = None \<and>
          (\<exists>c. contact_get u s = Some c \<and>
            (ct_Deleted c \<and> ct_Rev c \<le> co_gcHigh s' \<or> co_seq s < co_gcHigh s'))))"

lemma evolves_refl [simp]: "evolves s s"
  by (simp add: evolves_def)

lemma evolves_trans:
  assumes "evolves s s'" "evolves s' s''"
  shows "evolves s s''"
proof -
  have m: "co_seq s \<le> co_seq s'" "co_seq s' \<le> co_seq s''" "co_gcHigh s \<le> co_gcHigh s'" "co_gcHigh s' \<le> co_gcHigh s''"
    using assms by (auto simp: evolves_def)
  have "contact_get u s'' = contact_get u s \<or>
      (\<exists>c. contact_get u s'' = Some c \<and> co_seq s < ct_Rev c) \<or>
      (contact_get u s'' = None \<and> (\<exists>c. contact_get u s = Some c \<and>
        (ct_Deleted c \<and> ct_Rev c \<le> co_gcHigh s'' \<or> co_seq s < co_gcHigh s'')))" for u
  proof -
    consider (same) "contact_get u s'' = contact_get u s'"
      | (newer) c where "contact_get u s'' = Some c" "co_seq s' < ct_Rev c"
      | (gone) c where "contact_get u s'' = None" "contact_get u s' = Some c"
          "ct_Deleted c \<and> ct_Rev c \<le> co_gcHigh s'' \<or> co_seq s' < co_gcHigh s''"
      using assms(2) unfolding evolves_def by blast
    then show ?thesis
    proof cases
      case same
      with assms(1) m show ?thesis unfolding evolves_def by (smt (verit))
    next
      case newer
      with m show ?thesis by auto
    next
      case (gone c)
      consider (same1) "contact_get u s' = contact_get u s" | (newer1) "co_seq s < ct_Rev c"
        using assms(1) gone(2) unfolding evolves_def by (metis option.distinct(1) option.inject)
      then show ?thesis
      proof cases
        case same1
        with gone m show ?thesis by auto
      next
        case newer1
        with gone m have "co_seq s < co_gcHigh s''" by auto
        with gone(1) show ?thesis by (cases "contact_get u s") auto
      qed
    qed
  qed
  with m show ?thesis unfolding evolves_def by (meson order_trans)
qed

text \<open>
  Most operations write some contacts in place, each with a revision above the old sequence
  number.
\<close>

definition touched :: "contacts_store \<Rightarrow> contacts_store \<Rightarrow> bool" where
  "touched s s' \<longleftrightarrow> co_gcHigh s' = co_gcHigh s \<and> co_seq s \<le> co_seq s' \<and>
     length (co_contacts s') = length (co_contacts s) \<and>
     (\<forall>i<length (co_contacts s). co_contacts s' ! i = co_contacts s ! i \<or>
        ct_UID (co_contacts s' ! i) = ct_UID (co_contacts s ! i) \<and>
        co_seq s < ct_Rev (co_contacts s' ! i) \<and> ct_Rev (co_contacts s' ! i) \<le> co_seq s')"

lemma touched_refl [simp]: "touched s s"
  by (simp add: touched_def)

lemma touched_trans: "touched s s' \<Longrightarrow> touched s' s'' \<Longrightarrow> touched s s''"
  unfolding touched_def by (smt (verit))

lemma touched_update:
  "i < length (co_contacts s) \<Longrightarrow> ct_UID c = ct_UID (co_contacts s ! i) \<Longrightarrow> ct_Rev c = co_seq s + 1 \<Longrightarrow>
    touched s (s\<lparr>co_seq := co_seq s + 1, co_contacts := (co_contacts s)[i := c]\<rparr>)"
  by (auto simp: touched_def nth_list_update)

lemma touched_uid_nth:
  "touched s s' \<Longrightarrow> i < length (co_contacts s) \<Longrightarrow> ct_UID (co_contacts s' ! i) = ct_UID (co_contacts s ! i)"
  unfolding touched_def by metis

lemma touched_length: "touched s s' \<Longrightarrow> length (co_contacts s') = length (co_contacts s)"
  by (simp add: touched_def)

lemma touched_uids: "touched s s' \<Longrightarrow> map ct_UID (co_contacts s') = map ct_UID (co_contacts s)"
  by (rule nth_equalityI) (simp_all add: touched_length touched_uid_nth)

lemma touched_ok:
  assumes "contacts_ok s" "touched s s'"
  shows "contacts_ok s'"
proof -
  note u = touched_uids [OF assms(2)]
  then have "ct_UID ` set (co_contacts s') = ct_UID ` set (co_contacts s)" by (metis set_map)
  moreover have "0 < ct_Rev c \<and> ct_Rev c \<le> co_seq s'" if c: "c \<in> set (co_contacts s')" for c
  proof -
    obtain i where i: "i < length (co_contacts s')" "co_contacts s' ! i = c" using c by (metis in_set_conv_nth)
    then have l: "i < length (co_contacts s)" using assms(2) by (simp add: touched_def)
    then have old: "0 < ct_Rev (co_contacts s ! i) \<and> ct_Rev (co_contacts s ! i) \<le> co_seq s"
      using assms(1) nth_mem by (auto simp: contacts_ok_def)
    have "co_contacts s' ! i = co_contacts s ! i \<or> co_seq s < ct_Rev (co_contacts s' ! i) \<and>
        ct_Rev (co_contacts s' ! i) \<le> co_seq s'" "co_seq s \<le> co_seq s'" "0 \<le> co_seq s"
      using assms l by (auto simp: touched_def contacts_ok_def)
    with old i(2) show ?thesis by auto
  qed
  ultimately show ?thesis using assms u by (auto simp: contacts_ok_def touched_def)
qed

lemma contact_get_nth:
  assumes "distinct (map ct_UID (co_contacts s))" "i < length (co_contacts s)"
  shows "contact_get (ct_UID (co_contacts s ! i)) s = Some (co_contacts s ! i)"
proof (cases "contact_get (ct_UID (co_contacts s ! i)) s")
  case None
  then show ?thesis using nth_mem [OF assms(2)] by (auto simp: contact_get_def find_None_iff)
next
  case (Some c)
  then have "c \<in> set (co_contacts s)" "ct_UID c = ct_UID (co_contacts s ! i)"
    by (auto simp: contact_get_def dest!: find_SomeD)
  then have "c = co_contacts s ! i" using assms by (auto simp: distinct_map inj_on_def)
  with Some show ?thesis by simp
qed

lemma contact_get_None: "contact_get u s = None \<longleftrightarrow> u \<notin> ct_UID ` set (co_contacts s)"
  by (auto simp: contact_get_def find_None_iff)

lemma touched_evolves:
  assumes "contacts_ok s" "touched s s'"
  shows "evolves s s'"
proof -
  have d: "distinct (map ct_UID (co_contacts s))" "distinct (map ct_UID (co_contacts s'))"
    using assms touched_uids [OF assms(2)] by (simp_all add: contacts_ok_def)
  have "contact_get u s' = contact_get u s \<or> (\<exists>c. contact_get u s' = Some c \<and> co_seq s < ct_Rev c)" for u
  proof (cases "u \<in> ct_UID ` set (co_contacts s)")
    case False
    then have "u \<notin> ct_UID ` set (co_contacts s')" using touched_uids [OF assms(2)] by (metis set_map)
    with False show ?thesis by (metis contact_get_None)
  next
    case True
    then obtain i where i: "i < length (co_contacts s)" "u = ct_UID (co_contacts s ! i)"
      by (auto simp: in_set_conv_nth)
    moreover have "i < length (co_contacts s')" "ct_UID (co_contacts s' ! i) = u"
      using i assms(2) touched_uid_nth [OF assms(2)] by (simp_all add: touched_def)
    ultimately have "contact_get u s = Some (co_contacts s ! i)" "contact_get u s' = Some (co_contacts s' ! i)"
      using contact_get_nth [OF d(1) i(1)] contact_get_nth [OF d(2), of i] by simp_all
    with assms(2) i(1) show ?thesis by (auto simp: touched_def)
  qed
  then show ?thesis using assms(2) unfolding evolves_def touched_def by auto
qed


section \<open>Every operation\<close>

lemma replace_first_update:
  assumes "List.find P xs = Some x"
  obtains i where "i < length xs" "xs ! i = x" "P x" "replace_first P (\<lambda>_. y) xs = xs[i := y]"
proof -
  have "\<exists>i<length xs. xs ! i = x \<and> P x \<and> replace_first P (\<lambda>_. y) xs = xs[i := y]"
    using assms
  proof (induction xs)
    case (Cons a xs)
    show ?case
    proof (cases "P a")
      case True
      with Cons.prems show ?thesis by (intro exI [of _ 0]) auto
    next
      case False
      with Cons obtain i where "i < length xs" "xs ! i = x" "P x" "replace_first P (\<lambda>_. y) xs = xs[i := y]" by auto
      with False show ?thesis by (intro exI [of _ "Suc i"]) auto
    qed
  qed simp
  then show thesis using that by blast
qed

text \<open>What one body may do: keep the book well-formed and let it evolve.\<close>

definition good_step :: "contacts_store \<Rightarrow> contacts_store \<Rightarrow> bool" where
  "good_step s s' \<longleftrightarrow> contacts_ok s' \<and> evolves s s'"

lemma touched_good: "contacts_ok s \<Longrightarrow> touched s s' \<Longrightarrow> good_step s s'"
  by (simp add: good_step_def touched_ok touched_evolves)

lemma good_refl: "contacts_ok s \<Longrightarrow> good_step s s"
  by (simp add: good_step_def)

lemma append_good:
  assumes "contacts_ok s" "ct_UID c \<notin> ct_UID ` set (co_contacts s)" "ct_UID c \<noteq> ''''" "ct_Rev c = co_seq s + 1"
  shows "good_step s (s\<lparr>co_seq := co_seq s + 1, co_contacts := co_contacts s @ [c]\<rparr>)"
proof -
  have g: "contact_get u (s\<lparr>co_seq := co_seq s + 1, co_contacts := co_contacts s @ [c]\<rparr>) =
      (if u = ct_UID c then Some c else contact_get u s)" for u
  proof (cases "u = ct_UID c")
    case True
    then have "List.find (\<lambda>x. ct_UID x = ct_UID c) (co_contacts s) = None"
      using assms(2) unfolding find_None_iff by (metis image_eqI)
    with True show ?thesis by (simp add: contact_get_def find_append)
  qed (auto simp: contact_get_def find_append split: option.splits)
  have "contact_get (ct_UID c) s = None" using assms(2) by (simp add: contact_get_None)
  then show ?thesis using assms
    unfolding good_step_def evolves_def g contacts_ok_def by (auto simp: add_increasing2)
qed

lemma seq_only_good: "contacts_ok s \<Longrightarrow> good_step s (s\<lparr>co_seq := co_seq s + 1\<rparr>)"
  by (rule touched_good) (simp_all add: touched_def)

lemma upsert_good:
  assumes "contacts_ok s" "fresh_id e (ct_UID ` set (co_contacts s))"
  shows "good_step s (fst (snd (contact_upsert e c s)))"
proof (cases "ct_UID c = ''''")
  case True
  then show ?thesis
    using assms append_good [OF assms(1)] seq_only_good [OF assms(1)]
    by (auto simp: contact_upsert_def Let_def fresh_id_def split: sum.split)
next
  case False
  show ?thesis
  proof (cases "List.find (\<lambda>x. ct_UID x = ct_UID c) (co_contacts s)")
    case None
    then have "ct_UID c \<notin> ct_UID ` set (co_contacts s)" by (force simp: find_None_iff)
    with None False show ?thesis
      by (auto simp: contact_upsert_def Let_def intro!: append_good [OF assms(1)])
  next
    case (Some x)
    define c2 where "c2 = c\<lparr>ct_Rev := co_seq s + 1, ct_Deleted := False, ct_UpdatedAt := stamp e,
      ct_CreatedAt := (if ct_CreatedAt c = '''' then ct_CreatedAt x else ct_CreatedAt c), ct_IsSelf := ct_IsSelf x\<rparr>"
    obtain i where i: "i < length (co_contacts s)" "co_contacts s ! i = x" "ct_UID x = ct_UID c"
      "replace_first (\<lambda>x. ct_UID x = ct_UID c) (\<lambda>_. c2) (co_contacts s) = (co_contacts s)[i := c2]"
      using replace_first_update [OF Some] .
    have "fst (snd (contact_upsert e c s)) = s\<lparr>co_seq := co_seq s + 1, co_contacts := (co_contacts s)[i := c2]\<rparr>"
      unfolding i(4) [symmetric] using False Some by (simp add: contact_upsert_def Let_def c2_def)
    moreover have "touched s (s\<lparr>co_seq := co_seq s + 1, co_contacts := (co_contacts s)[i := c2]\<rparr>)"
      using i by (intro touched_update) (simp_all add: c2_def)
    ultimately show ?thesis using touched_good [OF assms(1)] by simp
  qed
qed

lemma upsert_if_good:
  "contacts_ok s \<Longrightarrow> fresh_id e (ct_UID ` set (co_contacts s)) \<Longrightarrow> good_step s (fst (snd (contact_upsert_if e c p s)))"
  by (simp add: contact_upsert_if_def Let_def upsert_good good_refl)

lemma delete_touched: "touched s (fst (snd (contact_delete e u s)))"
proof (cases "List.find (\<lambda>c. ct_UID c = u) (co_contacts s)")
  case None
  then show ?thesis by (simp add: contact_delete_def)
next
  case (Some c)
  define c1 where "c1 = (tombstone c)\<lparr>ct_Rev := co_seq s + 1, ct_UpdatedAt := stamp e\<rparr>"
  obtain i where i: "i < length (co_contacts s)" "co_contacts s ! i = c" "ct_UID c = u"
    "replace_first (\<lambda>c. ct_UID c = u) (\<lambda>_. c1) (co_contacts s) = (co_contacts s)[i := c1]"
    using replace_first_update [OF Some] .
  have "fst (snd (contact_delete e u s)) = s\<lparr>co_seq := co_seq s + 1, co_contacts := (co_contacts s)[i := c1]\<rparr>"
    unfolding i(4) [symmetric] using Some by (simp add: contact_delete_def Let_def c1_def)
  moreover have "touched s (s\<lparr>co_seq := co_seq s + 1, co_contacts := (co_contacts s)[i := c1]\<rparr>)"
    using i by (intro touched_update) (simp_all add: c1_def)
  ultimately show ?thesis by simp
qed

lemma clear_other_selfs_spec:
  "clear_other_selfs now idx i cs sq = (cs', sq', ch) \<Longrightarrow> sq \<le> sq' \<and> length cs' = length cs \<and>
    (\<forall>j<length cs. cs' ! j = cs ! j \<and> (i + j \<noteq> idx \<longrightarrow> \<not> ct_IsSelf (cs ! j)) \<or>
       i + j \<noteq> idx \<and> ct_UID (cs' ! j) = ct_UID (cs ! j) \<and> ct_Deleted (cs' ! j) = ct_Deleted (cs ! j) \<and>
       \<not> ct_IsSelf (cs' ! j) \<and> sq < ct_Rev (cs' ! j) \<and> ct_Rev (cs' ! j) \<le> sq') \<and>
    (\<not> ch \<longrightarrow> cs' = cs \<and> sq' = sq)"
proof (induction cs arbitrary: i sq cs' sq' ch)
  case Nil
  then show ?case by simp
next
  case (Cons c cs)
  let ?clear = "i \<noteq> idx \<and> ct_IsSelf c"
  let ?sq = "if ?clear then sq + 1 else sq"
  let ?c = "if ?clear then c\<lparr>ct_IsSelf := False, ct_Rev := sq + 1, ct_UpdatedAt := now\<rparr> else c"
  obtain cs1 sq1 ch1 where r: "clear_other_selfs now idx (Suc i) cs ?sq = (cs1, sq1, ch1)" by (metis prod_cases3)
  have eq: "cs' = ?c # cs1" "sq' = sq1" "ch = (?clear \<or> ch1)"
    using Cons.prems r by (auto split: if_splits)
  note IH = Cons.IH [OF r]
  have "cs' ! j = (c # cs) ! j \<and> (i + j \<noteq> idx \<longrightarrow> \<not> ct_IsSelf ((c # cs) ! j)) \<or>
       i + j \<noteq> idx \<and> ct_UID (cs' ! j) = ct_UID ((c # cs) ! j) \<and> ct_Deleted (cs' ! j) = ct_Deleted ((c # cs) ! j) \<and>
       \<not> ct_IsSelf (cs' ! j) \<and> sq < ct_Rev (cs' ! j) \<and> ct_Rev (cs' ! j) \<le> sq'" if j: "j < length (c # cs)" for j
  proof (cases j)
    case 0
    with eq IH show ?thesis by auto
  next
    case (Suc k)
    then have "k < length cs" using j by simp
    with IH Suc eq show ?thesis by (auto split: if_splits)
  qed
  then show ?case using IH eq by (auto split: if_splits)
qed

lemma find_index_Some: "find_index P xs = Some i \<Longrightarrow> i < length xs \<and> P (xs ! i) \<and> (\<forall>j<i. \<not> P (xs ! j))"
  by (induction xs arbitrary: i) (auto split: if_splits simp: less_Suc_eq_0_disj)

lemma find_index_None: "find_index P xs = None \<longleftrightarrow> (\<forall>x\<in>set xs. \<not> P x)"
  by (induction xs) auto


lemma set_self_touched: "touched s (fst (snd (contact_set_self e u b s)))"
proof (cases "find_index (\<lambda>c. ct_UID c = u) (co_contacts s)")
  case None
  then show ?thesis by (simp add: contact_set_self_def)
next
  case (Some idx)
  define st where "st = (if b then clear_other_selfs (stamp e) idx 0 (co_contacts s) (co_seq s)
    else (co_contacts s, co_seq s, False))"
  obtain cs1 sq1 ch1 where st: "st = (cs1, sq1, ch1)" by (metis prod_cases3)
  let ?s1 = "s\<lparr>co_contacts := cs1, co_seq := sq1\<rparr>"
  let ?c2 = "(cs1 ! idx)\<lparr>ct_IsSelf := b, ct_Rev := sq1 + 1, ct_UpdatedAt := stamp e\<rparr>"
  have t1: "touched s ?s1"
  proof (cases b)
    case True
    then have "clear_other_selfs (stamp e) idx 0 (co_contacts s) (co_seq s) = (cs1, sq1, ch1)"
      using st st_def by simp
    from clear_other_selfs_spec [OF this] show ?thesis unfolding touched_def by auto
  next
    case False
    with st st_def show ?thesis by (simp add: touched_def)
  qed
  have "idx < length (co_contacts s)" using find_index_Some [OF Some] by blast
  then have l: "idx < length (co_contacts ?s1)" using touched_length [OF t1] by simp
  then have "touched ?s1 (?s1\<lparr>co_seq := co_seq ?s1 + 1, co_contacts := (co_contacts ?s1)[idx := ?c2]\<rparr>)"
    by (intro touched_update) simp_all
  from touched_trans [OF t1 this]
  have t2: "touched s (s\<lparr>co_contacts := cs1[idx := ?c2], co_seq := sq1 + 1\<rparr>)" by (simp add: touched_def)
  have "fst (snd (contact_set_self e u b s)) =
      (if ct_IsSelf (cs1 ! idx) \<noteq> b then s\<lparr>co_contacts := cs1[idx := ?c2], co_seq := sq1 + 1\<rparr> else ?s1)"
    using Some st unfolding st_def by (auto simp: contact_set_self_def Let_def)
  with t1 t2 show ?thesis by simp
qed

lemma live_nth:
  "gi < length (live_contacts s) \<Longrightarrow> live_index (co_contacts s) ! gi < length (co_contacts s) \<and>
     co_contacts s ! (live_index (co_contacts s) ! gi) = live_contacts s ! gi \<and>
     \<not> ct_Deleted (live_contacts s ! gi)"
  "length (live_index (co_contacts s)) = length (live_contacts s)"
  "distinct (live_index (co_contacts s))"
proof -
  have "map ((!) (co_contacts s)) (live_index (co_contacts s)) =
      filter (\<lambda>c. \<not> ct_Deleted c) (map ((!) (co_contacts s)) [0..<length (co_contacts s)])"
    by (simp add: live_index_def filter_map o_def)
  also have "\<dots> = live_contacts s" by (simp add: map_nth live_contacts_def)
  finally have m: "map ((!) (co_contacts s)) (live_index (co_contacts s)) = live_contacts s" .
  show l: "length (live_index (co_contacts s)) = length (live_contacts s)" by (metis m length_map)
  show "distinct (live_index (co_contacts s))" by (simp add: live_index_def)
  assume gi: "gi < length (live_contacts s)"
  then have "live_index (co_contacts s) ! gi \<in> set (live_index (co_contacts s))" using l by simp
  then have "live_index (co_contacts s) ! gi < length (co_contacts s)" by (simp add: live_index_def)
  moreover have "co_contacts s ! (live_index (co_contacts s) ! gi) = live_contacts s ! gi"
    using gi l m by (metis nth_map)
  moreover have "live_contacts s ! gi \<in> set (live_contacts s)" using gi by simp
  then have "\<not> ct_Deleted (live_contacts s ! gi)" by (simp add: live_contacts_def)
  ultimately show "live_index (co_contacts s) ! gi < length (co_contacts s) \<and>
     co_contacts s ! (live_index (co_contacts s) ! gi) = live_contacts s ! gi \<and>
     \<not> ct_Deleted (live_contacts s ! gi)" by blast
qed

lemma absorb_losers_touched:
  assumes "absorb_losers now at surv uids s = Some s'" "\<And>u i. at u = Some i \<Longrightarrow> i < length (co_contacts s)"
  shows "touched s s'"
  using assms
proof (induction now at surv uids s rule: absorb_losers.induct)
  case (2 now at surv uid uids s)
  obtain i where i: "at uid = Some i" using "2.prems"(1) by (auto split: option.splits)
  define loser where "loser = (tombstone (co_contacts s ! i))\<lparr>ct_MergedInto := surv, ct_Rev := co_seq s + 1, ct_UpdatedAt := now\<rparr>"
  let ?s = "s\<lparr>co_seq := co_seq s + 1, co_contacts := (co_contacts s)[i := loser]\<rparr>"
  have l: "i < length (co_contacts s)" using "2.prems"(2) [OF i] .
  then have "touched s ?s" by (intro touched_update) (simp_all add: loser_def)
  moreover have "touched ?s s'"
    using "2.IH" [OF i refl refl] "2.prems" i by (simp add: Let_def loser_def)
  ultimately show ?case by (rule touched_trans)
qed simp

lemma byUID_Some:
  assumes "byUID (live_contacts s) (live_index (co_contacts s)) grp u = Some i"
    and "\<forall>gi\<in>set grp. gi < length (live_contacts s)"
  shows "i < length (co_contacts s) \<and> ct_UID (co_contacts s ! i) = u"
  using assms live_nth(1) [of _ s] by (auto simp: byUID_def dest!: find_SomeD)

lemma dedupe_groups_touched:
  assumes "dedupe_groups now (live_contacts s0) (live_index (co_contacts s0)) grps (s, r, ch) = Some (s', r', ch')"
    and "\<forall>grp\<in>set grps. \<forall>gi\<in>set grp. gi < length (live_contacts s0)" and "touched s0 s"
  shows "touched s0 s'"
  using assms
proof (induction grps arbitrary: s r ch)
  case Nil
  then show ?case by simp
next
  case (Cons grp grps)
  let ?live = "live_contacts s0" and ?idx = "live_index (co_contacts s0)"
  let ?members = "map ((!) ?live) grp"
  note bu = byUID_Some [of s0 grp]
  show ?case
  proof (cases "groupShouldMerge ?members")
    case False
    with Cons show ?thesis by (auto simp: Let_def)
  next
    case True
    obtain survivor absorbed where mg: "mergeGroup ?members = (survivor, absorbed)" by fastforce
    define sv where "sv = survivor\<lparr>ct_Rev := co_seq s + 1, ct_UpdatedAt := now\<rparr>"
    have svu: "ct_UID sv = ct_UID survivor" by (simp add: sv_def)
    obtain i where i: "byUID ?live ?idx grp (ct_UID survivor) = Some i"
      using Cons.prems(1) True mg by (auto simp: Let_def split: option.splits)
    let ?s1 = "s\<lparr>co_seq := co_seq s + 1, co_contacts := (co_contacts s)[i := sv]\<rparr>"
    obtain s2 where s2: "absorb_losers now (byUID ?live ?idx grp) (ct_UID survivor) absorbed ?s1 = Some s2"
      "\<exists>r2. dedupe_groups now ?live ?idx grps (s2, r2, True) = Some (s', r', ch')"
      using Cons.prems(1) True mg i by (auto simp: Let_def sv_def split: option.splits)
    have l: "length (co_contacts s) = length (co_contacts s0)" using Cons.prems(3) by (rule touched_length)
    have "i < length (co_contacts s0) \<and> ct_UID (co_contacts s0 ! i) = ct_UID survivor"
      using bu i Cons.prems(2) by simp
    then have "touched s ?s1"
      using touched_uid_nth [OF Cons.prems(3), of i] l by (intro touched_update) (simp_all add: sv_def)
    moreover have "touched ?s1 s2" using s2(1) by (rule absorb_losers_touched) (use bu Cons.prems(2) l in auto)
    ultimately have "touched s0 s2" using touched_trans Cons.prems(3) by blast
    with Cons.IH s2(2) Cons.prems(2) show ?thesis by fastforce
  qed
qed

lemma component_groups_bounded: "grp \<in> set (component_groups cs) \<Longrightarrow> gi \<in> set grp \<Longrightarrow> gi < length cs"
  by (auto simp: component_groups_def mem_component_of)

lemma dedupe_touched:
  assumes "map_iteration mo"
  shows "touched s (fst (snd (contacts_dedupe e mo s)))"
proof -
  let ?d = "dedupe_groups (stamp e) (live_contacts s) (live_index (co_contacts s))
      (component_groups (live_contacts s)) (s, \<lparr>dr_MergedCount = 0, dr_Groups = []\<rparr>, False)"
  have "touched s s'" if "?d = Some (s', r', ch')" for s' r' ch'
    using dedupe_groups_touched [OF that] component_groups_bounded by simp
  then show ?thesis
    by (auto simp: contacts_dedupe_def Let_def findDuplicateGroups_components_aux [OF assms] split: option.splits)
qed

lemma gc_high:
  fixes c :: contact and cs :: "contact list"
  shows "h \<le> fold (\<lambda>c h. if ct_Rev c > h then ct_Rev c else h) cs h"
  "c \<in> set cs \<Longrightarrow> ct_Rev c \<le> fold (\<lambda>c h. if ct_Rev c > h then ct_Rev c else h) cs h"
  "h \<le> b \<Longrightarrow> (\<And>c. c \<in> set cs \<Longrightarrow> ct_Rev c \<le> b) \<Longrightarrow> fold (\<lambda>c h. if ct_Rev c > h then ct_Rev c else h) cs h \<le> b"
proof -
  let ?f = "\<lambda>(c::contact) h. if ct_Rev c > h then ct_Rev c else h"
  have *: "h \<le> fold ?f cs h" for cs :: "contact list" and h
  proof (induction cs arbitrary: h)
    case (Cons c cs)
    have "h \<le> ?f c h" by simp
    also have "\<dots> \<le> fold ?f cs (?f c h)" by (rule Cons)
    finally show ?case by simp
  qed simp
  show "h \<le> fold ?f cs h" by (rule *)
  show "c \<in> set cs \<Longrightarrow> ct_Rev c \<le> fold ?f cs h"
  proof (induction cs arbitrary: h)
    case (Cons d cs)
    then show ?case using * [of "?f c h" cs] by (auto split: if_splits)
  qed simp
  show "h \<le> b \<Longrightarrow> (\<And>c. c \<in> set cs \<Longrightarrow> ct_Rev c \<le> b) \<Longrightarrow> fold ?f cs h \<le> b"
    by (induction cs arbitrary: h) auto
qed


lemma gc_good:
  assumes ok: "contacts_ok s"
  shows "good_step s (fst (snd (contacts_gc e d s)))"
proof -
  define cutoff where "cutoff = env_now e - (if d \<le> 0 then defaultTombstoneRetention else d)"
  let ?p = "gc_purges e cutoff" and ?cs = "co_contacts s"
  let ?f = "\<lambda>(c :: contact) h. if ct_Rev c > h then ct_Rev c else h"
  define high where "high = fold ?f (filter ?p ?cs) (co_gcHigh s)"
  let ?s' = "s\<lparr>co_gcHigh := high, co_contacts := filter (\<lambda>c. \<not> ?p c) ?cs\<rparr>"
  have eq: "fst (snd (contacts_gc e d s)) = (if filter ?p ?cs = [] then s else ?s')"
    by (simp add: contacts_gc_def Let_def cutoff_def [symmetric] high_def)
  have b: "co_gcHigh s \<le> high" "high \<le> co_seq s" "\<And>c. c \<in> set ?cs \<Longrightarrow> ?p c \<Longrightarrow> ct_Rev c \<le> high"
  proof -
    show "co_gcHigh s \<le> high" unfolding high_def by (rule gc_high(1))
    show "high \<le> co_seq s" unfolding high_def by (rule gc_high(3)) (use ok in \<open>auto simp: contacts_ok_def\<close>)
    show "ct_Rev c \<le> high" if "c \<in> set ?cs" "?p c" for c unfolding high_def by (rule gc_high(2)) (use that in simp)
  qed
  have dist: "distinct (map ct_UID ?cs)" using ok by (simp add: contacts_ok_def)
  have ok': "contacts_ok ?s'"
    using ok b(2) distinct_map_filter [OF dist] by (auto simp: contacts_ok_def)
  have "contact_get u ?s' = contact_get u s \<or> contact_get u ?s' = None \<and>
      (\<exists>c. contact_get u s = Some c \<and> ct_Deleted c \<and> ct_Rev c \<le> high)" for u
  proof (cases "contact_get u s")
    case None
    then have "contact_get u ?s' = None" by (auto simp: contact_get_None)
    with None show ?thesis by simp
  next
    case (Some c)
    then have c: "c \<in> set ?cs" "ct_UID c = u" by (auto simp: contact_get_def dest!: find_SomeD)
    show ?thesis
    proof (cases "?p c")
      case True
      have "u \<notin> ct_UID ` set (co_contacts ?s')"
        using c True dist by (auto simp: distinct_map inj_on_def)
      then have "contact_get u ?s' = None" unfolding contact_get_None .
      moreover have "ct_Deleted c" using True by (simp add: gc_purges_def)
      ultimately show ?thesis using Some b(3) [OF c(1) True] by blast
    next
      case False
      then have "c \<in> set (co_contacts ?s')" using c by simp
      then obtain i where i: "i < length (co_contacts ?s')" "co_contacts ?s' ! i = c" by (metis in_set_conv_nth)
      have "distinct (map ct_UID (co_contacts ?s'))" using ok' by (simp add: contacts_ok_def)
      from contact_get_nth [OF this i(1)] i(2) c(2) Some show ?thesis by simp
    qed
  qed
  then have "evolves s ?s'" using b(1) unfolding evolves_def by (simp, blast)
  with ok' ok show ?thesis by (simp add: eq good_step_def)
qed

section \<open>Runs\<close>

text \<open>
  Any run of writing requests, each by some process with whatever it had in memory, in an
  environment whose random identifiers are new; Go chooses the map iterations.
\<close>

fun possible :: "contacts_request \<Rightarrow> bool" where
  "possible (CqDedupe mo) = map_iteration mo"
| "possible _ = True"

inductive contacts_steps :: "contacts_file \<Rightarrow> contacts_file \<Rightarrow> bool" where
  start: "contacts_steps v v"
| request: "contacts_steps v v' \<Longrightarrow> fresh_id e (ct_UID ` set (cf_Contacts v')) \<Longrightarrow> possible q \<Longrightarrow>
    contacts_call e q (m, Json v') = (m', Json v'') \<Longrightarrow> contacts_steps v v''"

definition book :: "contacts_file \<Rightarrow> contacts_store" where
  "book v = contacts_applyFile v contacts_empty"

lemma apply_book: "contacts_applyFile v m = book v"
  unfolding book_def by (rule contacts_js.overwrites)

lemma book_dump [simp]: "book (contacts_file_of s) = s"
  by (simp add: book_def contacts_js.load_dump)

lemma transact_good:
  assumes "contacts_ok (book v)" "good_step (book v) (fst (snd (body (book v))))"
    and "snd (transact contacts_applyFile contacts_file_of io e body (m, Json v)) = (m', f)"
  shows "\<exists>v'. f = Json v' \<and> good_step (book v) (book v')"
  using assms good_refl [OF assms(1)]
  by (auto simp: transact_Json apply_book split: prod.splits if_splits)

lemma call_good:
  assumes "contacts_ok (book v)" "fresh_id e (ct_UID ` set (cf_Contacts v))" "possible q"
    and "contacts_call e q (m, Json v) = (m', f)"
  shows "\<exists>v'. f = Json v' \<and> good_step (book v) (book v')"
proof -
  have fr: "fresh_id e (ct_UID ` set (co_contacts (book v)))"
    using assms(2) by (simp add: book_def contacts_applyFile_def)
  note good = upsert_good [OF assms(1) fr] upsert_if_good [OF assms(1) fr] gc_good [OF assms(1)]
    touched_good [OF assms(1) delete_touched] touched_good [OF assms(1) set_self_touched]
    touched_good [OF assms(1) dedupe_touched]
  show ?thesis
  proof (cases q)
    case (CqUpsert c)
    with assms(4) good(1) show ?thesis by (auto simp: contacts_Upsert_def intro: transact_good [OF assms(1)])
  next
    case (CqUpsertIf c p)
    with assms(4) good(2) show ?thesis
      by (auto simp: contacts_UpsertWithPrecondition_def intro: transact_good [OF assms(1)])
  next
    case (CqDelete u)
    with assms(4) good(4) show ?thesis by (auto simp: contacts_Delete_def intro: transact_good [OF assms(1)])
  next
    case (CqSetSelf u b)
    with assms(4) good(5) show ?thesis by (auto simp: contacts_SetSelf_def intro: transact_good [OF assms(1)])
  next
    case (CqDedupe mo)
    with assms(3,4) good(6) show ?thesis by (auto simp: contacts_Dedupe_def intro: transact_good [OF assms(1)])
  next
    case (CqGC d)
    with assms(4) good(3) show ?thesis by (auto simp: contacts_GC_def intro: transact_good [OF assms(1)])
  qed
qed

lemma steps_good:
  assumes "contacts_steps v v'" "contacts_ok (book v)"
  shows "good_step (book v) (book v')"
  using assms
proof (induction rule: contacts_steps.induct)
  case (start v)
  then show ?case by (rule good_refl)
next
  case (request v v' e q m m' v'')
  then have g: "good_step (book v) (book v')" by simp
  then have "contacts_ok (book v')" by (simp add: good_step_def)
  from call_good [OF this request.hyps(2-4)] have "good_step (book v') (book v'')" by blast
  with g show ?case unfolding good_step_def using evolves_trans by blast
qed

section \<open>The synchronising client\<close>

text \<open>The live contacts by UID, and what a client makes of them with a delta.\<close>

definition live_book :: "contacts_store \<Rightarrow> string \<rightharpoonup> contact" where
  "live_book s u = (case contact_get u s of None \<Rightarrow> None | Some c \<Rightarrow> if ct_Deleted c then None else Some c)"

definition apply_delta :: "(string \<rightharpoonup> contact) \<Rightarrow> sync_delta \<Rightarrow> string \<rightharpoonup> contact" where
  "apply_delta view d u =
    (case List.find (\<lambda>c. ct_UID c = u) (sd_changed d) of
       Some c \<Rightarrow> Some c
     | None \<Rightarrow> if u \<in> ct_UID ` set (sd_deleted d) then None else view u)"

lemma find_filter_uid:
  assumes "distinct (map ct_UID cs)"
  shows "List.find (\<lambda>c. ct_UID c = u) (filter P cs) =
    (case List.find (\<lambda>c. ct_UID c = u) cs of None \<Rightarrow> None | Some c \<Rightarrow> if P c then Some c else None)"
  using assms
proof (induction cs)
  case (Cons c cs)
  have "u \<notin> ct_UID ` set cs \<Longrightarrow> List.find (\<lambda>c. ct_UID c = u) (filter P cs) = None"
    by (auto simp: find_None_iff)
  with Cons show ?case by auto
qed simp

lemma delta_view:
  assumes "distinct (map ct_UID (co_contacts s))" "\<not> sd_tooOld (changed_since n s)"
  shows "apply_delta view (changed_since n s) u =
    (case contact_get u s of None \<Rightarrow> view u
     | Some c \<Rightarrow> if n < ct_Rev c then (if ct_Deleted c then None else Some c) else view u)"
proof -
  let ?D = "changed_since n s"
  have ch: "sd_changed ?D = filter (\<lambda>c. n < ct_Rev c \<and> \<not> ct_Deleted c) (co_contacts s)"
    and de: "sd_deleted ?D = filter (\<lambda>c. n < ct_Rev c \<and> ct_Deleted c) (co_contacts s)"
    using assms(2) by (auto simp: changed_since_def Let_def not_le intro!: filter_cong)
  have del: "u \<in> ct_UID ` set (sd_deleted ?D) \<longleftrightarrow>
      (\<exists>c. contact_get u s = Some c \<and> n < ct_Rev c \<and> ct_Deleted c)"
  proof -
    have "u \<in> ct_UID ` set (sd_deleted ?D) \<longleftrightarrow> List.find (\<lambda>c. ct_UID c = u) (sd_deleted ?D) \<noteq> None"
      by (auto simp: find_None_iff)
    also have "\<dots> \<longleftrightarrow> (\<exists>c. contact_get u s = Some c \<and> n < ct_Rev c \<and> ct_Deleted c)"
      unfolding de find_filter_uid [OF assms(1)] by (auto simp: contact_get_def split: option.splits)
    finally show ?thesis .
  qed
  show ?thesis
    unfolding apply_delta_def del ch find_filter_uid [OF assms(1)]
    by (auto simp: contact_get_def split: option.splits)
qed

lemma delta_converges:
  assumes "good_step s s'" "contacts_ok s" "\<not> sd_tooOld (changed_since (co_seq s) s')"
  shows "apply_delta (live_book s) (changed_since (co_seq s) s') = live_book s'"
proof
  fix u
  have ok': "contacts_ok s'" and ev: "evolves s s'" using assms(1) by (simp_all add: good_step_def)
  have rev: "0 < ct_Rev c \<and> ct_Rev c \<le> co_seq s" if "contact_get u s = Some c" for c
    using that assms(2) by (auto simp: contact_get_def contacts_ok_def dest!: find_SomeD)
  have young: "\<not> co_seq s < co_gcHigh s'" if "contact_get u s = Some c" for c
    using rev [OF that] assms(3) by (auto simp: changed_since_def Let_def)
  have d: "distinct (map ct_UID (co_contacts s'))" using ok' by (simp add: contacts_ok_def)
  from ev consider (same) "contact_get u s' = contact_get u s"
    | (new) c where "contact_get u s' = Some c" "co_seq s < ct_Rev c"
    | (gone) c where "contact_get u s' = None" "contact_get u s = Some c" "ct_Deleted c"
    unfolding evolves_def using young by metis
  then show "apply_delta (live_book s) (changed_since (co_seq s) s') u = live_book s' u"
    unfolding delta_view [OF d assms(3)]
  proof cases
    case same
    then show "(case contact_get u s' of None \<Rightarrow> live_book s u
     | Some c \<Rightarrow> if co_seq s < ct_Rev c then (if ct_Deleted c then None else Some c) else live_book s u) = live_book s' u"
      using rev by (auto simp: live_book_def split: option.splits)
  qed (auto simp: live_book_def)
qed


lemma dec_digits_inj: "dec_digits m = dec_digits n \<Longrightarrow> m = n"
  by (metis dec_value_digits option.inject)

lemma itoa_inj: "itoa m = itoa n \<longleftrightarrow> m = n"
proof
  assume e: "itoa m = itoa n"
  have no_sign: "dec_digits k \<noteq> CHR ''-'' # ds" for k ds
    using dec_digits_numeric [of "CHR ''-''" k] digit_char_neq by fastforce
  from e show "m = n"
    using no_sign [of "nat m"] no_sign [of "nat n"] dec_digits_inj [of "nat (- m)" "nat (- n)"]
      dec_digits_inj [of "nat m" "nat n"]
    by (auto simp: itoa_def split: if_splits) (metis no_sign)+
qed simp

lemma ETag_iff: "ETag c = ETag d \<longleftrightarrow> ct_Rev c = ct_Rev d"
  by (simp add: ETag_def etagForRev_def itoa_inj)

text \<open>A revision that was overwritten never comes back.\<close>

lemma old_revision_gone:
  assumes "good_step s s'" "\<And>c. contact_get u s = Some c \<Longrightarrow> n < ct_Rev c" "contacts_ok s" "n \<le> co_seq s"
    and "contact_get u s' = Some c"
  shows "n < ct_Rev c"
proof -
  from assms(1,5) have "contact_get u s = Some c \<or> co_seq s < ct_Rev c"
    unfolding good_step_def evolves_def by (metis option.distinct(1) option.inject)
  with assms(2,4) show ?thesis by auto
qed

lemma upsert_rev:
  assumes "contact_upsert e c s = (Inr c', s', d)" "ct_UID c \<noteq> ''''"
  shows "contact_get (ct_UID c) s' = Some c' \<and> ct_Rev c' = co_seq s + 1 \<and> co_seq s' = co_seq s + 1 \<and> d"
proof (cases "List.find (\<lambda>x. ct_UID x = ct_UID c) (co_contacts s)")
  case None
  with assms show ?thesis by (auto simp: contact_upsert_def Let_def contact_get_def find_append)
next
  case (Some x)
  define c2 where "c2 = c\<lparr>ct_Rev := co_seq s + 1, ct_Deleted := False, ct_UpdatedAt := stamp e,
    ct_CreatedAt := (if ct_CreatedAt c = '''' then ct_CreatedAt x else ct_CreatedAt c), ct_IsSelf := ct_IsSelf x\<rparr>"
  have r: "c' = c2" "d" "s' = s\<lparr>co_seq := co_seq s + 1,
      co_contacts := replace_first (\<lambda>x. ct_UID x = ct_UID c) (\<lambda>_. c2) (co_contacts s)\<rparr>"
    using assms Some by (auto simp: contact_upsert_def Let_def c2_def)
  have "List.find (\<lambda>x. ct_UID x = ct_UID c) (replace_first (\<lambda>x. ct_UID x = ct_UID c) (\<lambda>_. c2) (co_contacts s)) = Some c2"
    by (rule find_replace_first_same [OF Some]) (simp add: c2_def)
  with r show ?thesis by (simp add: contact_get_def) (simp add: c2_def)
qed

section \<open>Properties\<close>

text \<open>
  C11: a client that holds the live contacts of a book and its sequence number as cursor, and
  asks for the changes after any run of requests by any processes, holds the live contacts of
  the new book when it applies the answer, and its new cursor is the new sequence number,
  unless it was told that its cursor is too old; and the full snapshot it starts from is the list
  of the live contacts.
\<close>

theorem contacts_sync_converges:
  assumes "contacts_ok (book v)" "contacts_steps v v'"
    and "fst (contacts_ChangedSince (cf_Seq v) (m, Json v')) = d" "\<not> sd_tooOld d"
  shows "apply_delta (live_book (book v)) d = live_book (book v') \<and> sd_cursor d = cf_Seq v' \<and>
    fst (contacts_ChangedSince 0 (m, Json v)) =
      \<lparr>sd_changed = fst (contacts_List (m, Json v)), sd_deleted = filter ct_Deleted (cf_Contacts v),
       sd_cursor = cf_Seq v, sd_tooOld = False\<rparr>"
proof -
  have sq: "co_seq (book v) = cf_Seq v" by (simp add: book_def contacts_applyFile_def)
  have d: "d = changed_since (co_seq (book v)) (book v')"
    using assms(3) by (simp add: contacts_ChangedSince_def observe_Json apply_book sq)
  have "\<forall>c\<in>set (cf_Contacts v). \<not> ct_Rev c \<le> 0"
    using assms(1) by (auto simp: contacts_ok_def book_def contacts_applyFile_def)
  then have "filter (\<lambda>c. \<not> ct_Rev c \<le> 0) (cf_Contacts v) = cf_Contacts v" by (simp add: filter_id_conv)
  then have "fst (contacts_ChangedSince 0 (m, Json v)) =
      \<lparr>sd_changed = fst (contacts_List (m, Json v)), sd_deleted = filter ct_Deleted (cf_Contacts v),
       sd_cursor = cf_Seq v, sd_tooOld = False\<rparr>"
    by (simp add: contacts_ChangedSince_def contacts_List_def observe_Json changed_since_def
        live_contacts_def contacts_applyFile_def Let_def)
  moreover have "sd_cursor d = cf_Seq v'" by (simp add: d changed_since_def Let_def book_def contacts_applyFile_def)
  ultimately show ?thesis
    using delta_converges [OF steps_good [OF assms(2,1)] assms(1)] assms(4) d by simp
qed

text \<open>
  No lost update. When a conditional write with an entity tag has succeeded, every later
  conditional write of the same contact with the same tag is refused, whatever other requests
  came in between and whichever process serves it.
\<close>

theorem contacts_tag_used_once:
  assumes "contacts_ok (book v)" "t \<noteq> ''''" "ct_UID d = ct_UID c"
    and "contacts_UpsertWithPrecondition e c \<lparr>RequireAbsent = a, RequireETag = t\<rparr> (m, Json v) = (Inr c', m', Json v')"
    and "contacts_steps v' v''"
  shows "fst (contacts_UpsertWithPrecondition e' d \<lparr>RequireAbsent = a', RequireETag = t\<rparr> (n, Json v'')) =
    Inl PreconditionFailed"
proof -
  let ?s = "book v" and ?u = "ct_UID c"
  obtain x where x: "contact_get ?u ?s = Some x" "ETag x = t" "contact_upsert e c ?s = (Inr c', m', True)"
    "v' = contacts_file_of m'"
    using assms(2,4)
    by (auto simp: contacts_UpsertWithPrecondition_def transact_Json apply_book contact_upsert_if_def Let_def
        split: prod.splits if_splits option.splits)
      (auto simp: contact_upsert_def Let_def split: if_splits option.splits sum.splits)
  have ne: "?u \<noteq> ''''"
    using x(1) assms(1) contact_get_None unfolding contacts_ok_def by (metis option.distinct(1))
  have xr: "ct_Rev x \<le> co_seq ?s" using x(1) assms(1) by (auto simp: contact_get_def contacts_ok_def dest!: find_SomeD)
  have up: "contact_get ?u (book v') = Some c'" "ct_Rev c' = co_seq ?s + 1" "co_seq (book v') = co_seq ?s + 1"
    using upsert_rev [OF x(3) ne] x(4) by simp_all
  have fr: "fresh_id (e\<lparr>env_rand := None\<rparr>) (ct_UID ` set (co_contacts ?s))"
    by (simp add: fresh_id_def NewUUIDv4_def)
  have "contact_upsert (e\<lparr>env_rand := None\<rparr>) c ?s = contact_upsert e c ?s"
    using ne by (simp add: contact_upsert_def Let_def stamp_def)
  with upsert_good [OF assms(1) fr, of c] x(3,4) have ok: "contacts_ok (book v')" by (simp add: good_step_def)
  have rev: "ct_Rev x < ct_Rev y" if "contact_get ?u (book v'') = Some y" for y
    using old_revision_gone [OF steps_good [OF assms(5) ok] _ ok _ that, of "ct_Rev x"] up xr by auto
  show ?thesis
    using rev assms(2,3) x(2)
    by (auto simp: contacts_UpsertWithPrecondition_def transact_Json apply_book contact_upsert_if_def Let_def
        ETag_iff split: option.splits)
qed


section \<open>Worked examples\<close>

definition bob :: contact where
  "bob = blank_contact\<lparr>ct_UID := ''b'', ct_Rev := 2, ct_FormattedName := ''Bob''\<rparr>"

definition small_book :: contacts_file where
  "small_book = \<lparr>cf_Contacts = [ann, bob], cf_Seq = 2, cf_GCHighWaterRev = 0\<rparr>"

lemma small_book_ok: "contacts_ok (book small_book)"
  by (simp add: contacts_ok_def book_def contacts_applyFile_def small_book_def ann_def bob_def blank_contact_def)

abbreviation quiet :: go_env where "quiet \<equiv> tally_env 0 None True"

definition without_bob :: contacts_file where
  "without_bob = \<lparr>cf_Contacts = [ann, (tombstone bob)\<lparr>ct_Rev := 3, ct_UpdatedAt := ''+''\<rparr>], cf_Seq = 3,
     cf_GCHighWaterRev = 0\<rparr>"

lemma delete_bob: "contacts_call quiet (CqDelete ''b'') (contacts_empty, Json small_book) =
    (book without_bob, Json without_bob)"
  by (simp add: contacts_Delete_def transact_Json contact_delete_def contacts_applyFile_def small_book_def
      Let_def book_def without_bob_def contacts_file_of_def ann_def bob_def blank_contact_def stamp_def tally_format_def)

lemma small_steps: "contacts_steps small_book without_bob"
  by (rule contacts_steps.request [OF contacts_steps.start _ _ delete_bob])
    (simp_all add: fresh_id_def NewUUIDv4_def)

theorem contacts_sync_converges_witness:
  "apply_delta (live_book (book small_book)) (fst (contacts_ChangedSince 2 (contacts_empty, Json without_bob))) ''b'' = None"
proof -
  let ?d = "fst (contacts_ChangedSince 2 (contacts_empty, Json without_bob))"
  have "\<not> sd_tooOld ?d"
    by (simp add: contacts_ChangedSince_def observe_Json changed_since_def contacts_applyFile_def without_bob_def Let_def)
  moreover have "cf_Seq small_book = 2" by (simp add: small_book_def)
  ultimately have "apply_delta (live_book (book small_book)) ?d = live_book (book without_bob)"
    using contacts_sync_converges [OF small_book_ok small_steps, of contacts_empty ?d] by simp
  then show ?thesis
    by (simp add: live_book_def contact_get_def book_def contacts_applyFile_def without_bob_def ann_def bob_def
        blank_contact_def)
qed

definition with_anna :: contacts_file where
  "with_anna = \<lparr>cf_Contacts = [ann\<lparr>ct_FormattedName := ''Anna'', ct_Rev := 3, ct_UpdatedAt := ''+'', ct_CreatedAt := ''+''\<rparr>, bob],
     cf_Seq = 3, cf_GCHighWaterRev = 0\<rparr>"

theorem contacts_tag_used_once_witness:
  "fst (contacts_UpsertWithPrecondition quiet ann \<lparr>RequireAbsent = False, RequireETag = ''rev-1''\<rparr>
     (contacts_empty, Json with_anna)) = Inl PreconditionFailed"
proof -
  let ?c = "ann\<lparr>ct_FormattedName := ''Anna'', ct_CreatedAt := ''+''\<rparr>"
  have tag: "ETag ann = ''rev-1''" by code_simp
  have "contacts_UpsertWithPrecondition quiet ?c \<lparr>RequireAbsent = False, RequireETag = ''rev-1''\<rparr>
      (contacts_empty, Json small_book) =
    (Inr (ann\<lparr>ct_FormattedName := ''Anna'', ct_Rev := 3, ct_UpdatedAt := ''+'', ct_CreatedAt := ''+''\<rparr>),
     book with_anna, Json with_anna)"
    using tag
    by (simp add: contacts_UpsertWithPrecondition_def transact_Json contact_upsert_if_def contact_get_def
        contacts_applyFile_def small_book_def Let_def book_def with_anna_def contacts_file_of_def
        contact_upsert_def stamp_def tally_format_def)
      (simp add: ann_def bob_def blank_contact_def)
  from contacts_tag_used_once [OF small_book_ok _ _ this contacts_steps.start, where d = ann and n = contacts_empty]
  show ?thesis by simp
qed

end
