(* ===== verification/Contacts_Merge.thy ===== *)
theory Contacts_Merge
  imports Contacts_Sync
begin

text \<open>
  What Dedupe does to the address book: it returns, it writes exactly the merged survivors and
  the tombstones of the contacts they absorbed, it loses no e-mail address and no telephone
  number, and running it again merges nothing.
\<close>

section \<open>One group\<close>

lemma mergeGroup_survivor:
  assumes "mergeGroup members = (sv, ab)" "members \<noteq> []" "distinct (map ct_UID members)"
  obtains oldest where "oldest \<in> set members" "ct_UID sv = ct_UID oldest" "ct_IsSelf sv = ct_IsSelf oldest"
    "ct_Deleted sv = ct_Deleted oldest" "distinct ab" "set ab = ct_UID ` set members - {ct_UID oldest}"
proof -
  obtain old rest where o: "by_age members = old # rest"
    using assms(2) unfolding by_age_def by (metis length_0_conv length_sort neq_Nil_conv)
  have m: "mset (old # rest) = mset members" using o by (metis by_age_def mset_sort)
  then have s: "set members = insert old (set rest)" by (metis list.simps(15) mset_eq_setD)
  have "mset (map ct_UID (old # rest)) = mset (map ct_UID members)" using m by (metis mset_map)
  then have d: "distinct (map ct_UID (old # rest))" using assms(3) by (metis mset_eq_imp_distinct_iff)
  have sv: "ct_UID sv = ct_UID old" "ct_IsSelf sv = ct_IsSelf old" "ct_Deleted sv = ct_Deleted old"
    "ab = sort (map ct_UID rest)"
    using assms(1) o by (auto simp: mergeGroup_def Let_def)
  show thesis by (rule that [of old]) (use s d sv in auto)
qed

text \<open>What a group that was merged leaves behind.\<close>

definition settled :: "string \<Rightarrow> contact list \<Rightarrow> nat list \<Rightarrow> contact list \<Rightarrow> nat list \<Rightarrow> bool" where
  "settled now live idx cs grp \<longleftrightarrow>
    (let sv = fst (mergeGroup (map ((!) live) grp)) in
     \<forall>k\<in>set grp. if ct_UID (live ! k) = ct_UID sv
       then \<exists>r. cs ! (idx ! k) = sv\<lparr>ct_Rev := r, ct_UpdatedAt := now\<rparr>
       else tombstone (cs ! (idx ! k)) = cs ! (idx ! k))"

lemma tombstone_loser [simp]:
  "tombstone ((tombstone c)\<lparr>ct_MergedInto := u, ct_Rev := r, ct_UpdatedAt := t\<rparr>) =
    (tombstone c)\<lparr>ct_MergedInto := u, ct_Rev := r, ct_UpdatedAt := t\<rparr>"
  by (simp add: tombstone_def)

lemma absorb_losers_spec:
  assumes "\<And>u. u \<in> set uids \<Longrightarrow> \<exists>i. at u = Some i \<and> i < length (co_contacts s)"
  shows "\<exists>s'. absorb_losers now at surv uids s = Some s' \<and> length (co_contacts s') = length (co_contacts s) \<and>
    (\<forall>u\<in>set uids. tombstone (co_contacts s' ! the (at u)) = co_contacts s' ! the (at u)) \<and>
    (\<forall>j. (\<forall>u\<in>set uids. at u \<noteq> Some j) \<longrightarrow> co_contacts s' ! j = co_contacts s ! j)"
  using assms
proof (induction uids arbitrary: s)
  case Nil
  then show ?case by simp
next
  case (Cons uid uids)
  obtain i where i: "at uid = Some i" "i < length (co_contacts s)" using Cons.prems [of uid] by auto
  define loser where "loser = (tombstone (co_contacts s ! i))\<lparr>ct_MergedInto := surv, ct_Rev := co_seq s + 1, ct_UpdatedAt := now\<rparr>"
  let ?s = "s\<lparr>co_seq := co_seq s + 1, co_contacts := (co_contacts s)[i := loser]\<rparr>"
  have tl: "tombstone loser = loser" by (simp add: loser_def)
  obtain s' where s': "absorb_losers now at surv uids ?s = Some s'" "length (co_contacts s') = length (co_contacts s)"
    "\<forall>u\<in>set uids. tombstone (co_contacts s' ! the (at u)) = co_contacts s' ! the (at u)"
    "\<forall>j. (\<forall>u\<in>set uids. at u \<noteq> Some j) \<longrightarrow> co_contacts s' ! j = (co_contacts s)[i := loser] ! j"
    using Cons.IH [of ?s] Cons.prems by auto
  have "tombstone (co_contacts s' ! i) = co_contacts s' ! i"
  proof (cases "\<exists>u\<in>set uids. at u = Some i")
    case True
    with s'(3) show ?thesis by (metis option.sel)
  next
    case False
    with s'(4) have "co_contacts s' ! i = (co_contacts s)[i := loser] ! i" by blast
    with i(2) tl show ?thesis by simp
  qed
  moreover have "absorb_losers now at surv (uid # uids) s = Some s'"
    using i s'(1) by (simp add: Let_def loser_def)
  moreover have "co_contacts s' ! j = co_contacts s ! j" if "\<forall>u\<in>set (uid # uids). at u \<noteq> Some j" for j
    using that s'(4) i by auto
  ultimately show ?case using s'(2,3) i(1) by (intro exI [of _ s']) simp
qed

text \<open>The positions in the whole list of the members of a group.\<close>

lemma byUID_member:
  assumes "distinct (map ct_UID live)" "\<forall>k\<in>set grp. k < length live" "k \<in> set grp"
  shows "byUID live idx grp (ct_UID (live ! k)) = Some (idx ! k)"
proof -
  have "List.find (\<lambda>gi. ct_UID (live ! gi) = ct_UID (live ! k)) grp = Some k"
  proof (cases "List.find (\<lambda>gi. ct_UID (live ! gi) = ct_UID (live ! k)) grp")
    case None
    with assms(3) show ?thesis by (auto dest: find_NoneD)
  next
    case (Some j)
    then have "j \<in> set grp" "ct_UID (live ! j) = ct_UID (live ! k)" by (auto dest!: find_SomeD)
    then have "j = k" using assms nth_eq_iff_index_eq [OF assms(1), of j k] by simp
    with Some show ?thesis by simp
  qed
  then show ?thesis by (simp add: byUID_def)
qed

section \<open>All groups\<close>

lemma dedupe_groups_spec:
  assumes "distinct (map ct_UID live)" "length idx = length live" "distinct idx"
    and "\<forall>k<length live. idx ! k < length (co_contacts s)"
    and "\<forall>grp\<in>set grps. grp \<noteq> [] \<and> (\<forall>k\<in>set grp. k < length live)"
    and "distinct (concat grps)"
  shows "\<exists>s' r'. dedupe_groups now live idx grps (s, r, ch) =
      Some (s', r', ch \<or> (\<exists>grp\<in>set grps. groupShouldMerge (map ((!) live) grp))) \<and>
    length (co_contacts s') = length (co_contacts s) \<and>
    (\<forall>grp\<in>set grps. if groupShouldMerge (map ((!) live) grp) then settled now live idx (co_contacts s') grp
       else \<forall>k\<in>set grp. co_contacts s' ! (idx ! k) = co_contacts s ! (idx ! k)) \<and>
    (\<forall>j. j \<notin> (!) idx ` set (concat grps) \<longrightarrow> co_contacts s' ! j = co_contacts s ! j) \<and>
    ((\<forall>grp\<in>set grps. \<not> groupShouldMerge (map ((!) live) grp)) \<longrightarrow> s' = s \<and> r' = r)"
  using assms
proof (induction grps arbitrary: s r ch)
  case Nil
  then show ?case by simp
next
  case (Cons grp grps)
  let ?members = "map ((!) live) grp"
  have grp: "grp \<noteq> []" "\<forall>k\<in>set grp. k < length live" using Cons.prems(5) by auto
  have sep: "set grp \<inter> set (concat grps) = {}" "distinct grp" "distinct (concat grps)" using Cons.prems(6) by auto
  have rest: "\<forall>g\<in>set grps. g \<noteq> [] \<and> (\<forall>k\<in>set g. k < length live)" using Cons.prems(5) by simp
  have bound: "\<forall>k\<in>set (concat grps). k < length live" using rest by auto
  have inj: "idx ! k \<noteq> idx ! j" if "k \<in> set grp" "j \<in> set (concat grps)" for k j
  proof -
    have "k \<noteq> j" "k < length idx" "j < length idx" using that sep(1) grp(2) bound Cons.prems(2) by auto
    then show ?thesis using Cons.prems(3) nth_eq_iff_index_eq by blast
  qed
  show ?case
  proof (cases "groupShouldMerge ?members")
    case False
    obtain s' r' where IH: "dedupe_groups now live idx grps (s, r, ch) =
        Some (s', r', ch \<or> (\<exists>grp\<in>set grps. groupShouldMerge (map ((!) live) grp)))"
      "length (co_contacts s') = length (co_contacts s)"
      "\<forall>grp\<in>set grps. if groupShouldMerge (map ((!) live) grp) then settled now live idx (co_contacts s') grp
         else \<forall>k\<in>set grp. co_contacts s' ! (idx ! k) = co_contacts s ! (idx ! k)"
      "\<forall>j. j \<notin> (!) idx ` set (concat grps) \<longrightarrow> co_contacts s' ! j = co_contacts s ! j"
      "(\<forall>grp\<in>set grps. \<not> groupShouldMerge (map ((!) live) grp)) \<longrightarrow> s' = s \<and> r' = r"
      using Cons.IH [OF Cons.prems(1-4) rest sep(3), of r ch] by blast
    have "co_contacts s' ! (idx ! k) = co_contacts s ! (idx ! k)" if "k \<in> set grp" for k
    proof -
      have "idx ! k \<notin> (!) idx ` set (concat grps)" using inj [OF that] by blast
      with IH(4) show ?thesis by blast
    qed
    moreover have "co_contacts s' ! j = co_contacts s ! j" if "j \<notin> (!) idx ` set (concat (grp # grps))" for j
      using that IH(4) by (simp add: image_Un)
    ultimately show ?thesis using IH False by (intro exI [of _ s'] exI [of _ r']) (simp add: Let_def)
  next
    case True
    obtain sv ab where mg: "mergeGroup ?members = (sv, ab)" by fastforce
    have "inj_on (ct_UID \<circ> (!) live) (set grp)"
    proof (rule inj_onI)
      fix j k assume "j \<in> set grp" "k \<in> set grp" "(ct_UID \<circ> (!) live) j = (ct_UID \<circ> (!) live) k"
      then show "j = k" using nth_eq_iff_index_eq [OF Cons.prems(1), of j k] grp(2) by simp
    qed
    then have "distinct (map ct_UID ?members)" using sep(2) by (simp add: distinct_map)
    then obtain oldest where o: "oldest \<in> set ?members" "ct_UID sv = ct_UID oldest" "distinct ab"
      "set ab = ct_UID ` set ?members - {ct_UID oldest}"
      using mergeGroup_survivor [OF mg] grp(1) by (metis list.map_disc_iff)
    obtain k0 where k0: "k0 \<in> set grp" "oldest = live ! k0" using o(1) by auto
    let ?at = "byUID live idx grp"
    note at = byUID_member [OF Cons.prems(1) grp(2)]
    have at0: "?at (ct_UID sv) = Some (idx ! k0)" using at [OF k0(1)] o(2) k0(2) by simp
    define sv1 where "sv1 = sv\<lparr>ct_Rev := co_seq s + 1, ct_UpdatedAt := now\<rparr>"
    let ?s1 = "s\<lparr>co_seq := co_seq s + 1, co_contacts := (co_contacts s)[idx ! k0 := sv1]\<rparr>"
    have losers: "\<exists>k\<in>set grp. u = ct_UID (live ! k) \<and> ?at u = Some (idx ! k) \<and> k \<noteq> k0" if "u \<in> set ab" for u
      using that o(4) at k0(2) by auto
    obtain s2 where s2: "absorb_losers now ?at (ct_UID sv) ab ?s1 = Some s2"
      "length (co_contacts s2) = length (co_contacts s)"
      "\<forall>u\<in>set ab. tombstone (co_contacts s2 ! the (?at u)) = co_contacts s2 ! the (?at u)"
      "\<forall>j. (\<forall>u\<in>set ab. ?at u \<noteq> Some j) \<longrightarrow> co_contacts s2 ! j = (co_contacts s)[idx ! k0 := sv1] ! j"
      using absorb_losers_spec [of ab ?at ?s1 now "ct_UID sv"] losers Cons.prems(4) grp(2) by fastforce
    define r2 where "r2 = \<lparr>dr_MergedCount = dr_MergedCount r + length ab,
      dr_Groups = dr_Groups r @ [\<lparr>dm_Survivor = ct_UID sv, dm_Absorbed = ab\<rparr>]\<rparr>"
    have "\<forall>k<length live. idx ! k < length (co_contacts s2)" using Cons.prems(4) s2(2) by simp
    from Cons.IH [OF Cons.prems(1-3) this rest sep(3), of r2 True]
    obtain s' r' where IH: "dedupe_groups now live idx grps (s2, r2, True) = Some (s', r', True)"
      "length (co_contacts s') = length (co_contacts s2)"
      "\<forall>grp\<in>set grps. if groupShouldMerge (map ((!) live) grp) then settled now live idx (co_contacts s') grp
         else \<forall>k\<in>set grp. co_contacts s' ! (idx ! k) = co_contacts s2 ! (idx ! k)"
      "\<forall>j. j \<notin> (!) idx ` set (concat grps) \<longrightarrow> co_contacts s' ! j = co_contacts s2 ! j"
      by auto
    have run: "dedupe_groups now live idx (grp # grps) (s, r, ch) = Some (s', r', True)"
      using True mg at0 s2(1) IH(1) by (simp add: Let_def sv1_def r2_def)
    have here: "co_contacts s' ! (idx ! k) = co_contacts s2 ! (idx ! k)" if "k \<in> set grp" for k
      using IH(4) inj [OF that] by blast
    have away: "co_contacts s2 ! j = co_contacts s ! j" if j: "j \<notin> (!) idx ` set grp" for j
    proof -
      have "\<forall>u\<in>set ab. ?at u \<noteq> Some j" using losers j by fastforce
      moreover have "j \<noteq> idx ! k0" using j k0(1) by blast
      ultimately show ?thesis using s2(4) by simp
    qed
    have "settled now live idx (co_contacts s') grp"
      unfolding settled_def Let_def mg fst_conv
    proof
      fix k assume k: "k \<in> set grp"
      have inj': "idx ! k = idx ! j \<longleftrightarrow> k = j" if "j \<in> set grp" for j
        using nth_eq_iff_index_eq [OF Cons.prems(3)] k that grp(2) Cons.prems(2) by simp
      have uid: "ct_UID (live ! k) = ct_UID sv \<longleftrightarrow> k = k0"
        using nth_eq_iff_index_eq [OF Cons.prems(1), of k k0] k k0 grp(2) o(2) by auto
      show "if ct_UID (live ! k) = ct_UID sv then \<exists>r. co_contacts s' ! (idx ! k) = sv\<lparr>ct_Rev := r, ct_UpdatedAt := now\<rparr>
        else tombstone (co_contacts s' ! (idx ! k)) = co_contacts s' ! (idx ! k)"
      proof (cases "k = k0")
        case True
        have "?at u \<noteq> Some (idx ! k0)" if "u \<in> set ab" for u
          using losers [OF that] inj' True by fastforce
        then have "co_contacts s2 ! (idx ! k0) = sv1"
          using s2(4) Cons.prems(4) grp(2) k0(1) by simp
        then show ?thesis using True uid here [OF k] by (auto simp: sv1_def)
      next
        case False
        then have "ct_UID (live ! k) \<in> set ab" using k o(2,4) uid by auto
        with s2(3) at [OF k] have "tombstone (co_contacts s2 ! (idx ! k)) = co_contacts s2 ! (idx ! k)" by fastforce
        then show ?thesis using False uid here [OF k] by simp
      qed
    qed
    moreover have "if groupShouldMerge (map ((!) live) g) then settled now live idx (co_contacts s') g
         else \<forall>k\<in>set g. co_contacts s' ! (idx ! k) = co_contacts s ! (idx ! k)" if g: "g \<in> set grps" for g
    proof -
      have "co_contacts s2 ! (idx ! k) = co_contacts s ! (idx ! k)" if "k \<in> set g" for k
      proof -
        have "k \<in> set (concat grps)" using that g by auto
        then have "idx ! k \<notin> (!) idx ` set grp" using inj by (metis imageE)
        then show ?thesis by (rule away)
      qed
      with IH(3) g show ?thesis by auto
    qed
    moreover have "co_contacts s' ! j = co_contacts s ! j" if "j \<notin> (!) idx ` set (concat (grp # grps))" for j
      using that IH(4) away by (simp add: image_Un)
    ultimately show ?thesis using run True IH(2) s2(2)
      by (intro exI [of _ s'] exI [of _ r']) auto
  qed
qed


section \<open>Keys and names of a survivor\<close>

lemma keep_new_keys: "key ` set (keep_new key seen xs) = key ` set xs - seen"
  by (induction key seen xs rule: keep_new.induct) auto

lemma matchKeys_alt: "set (matchKeys c) =
    (\<lambda>v. ''e:'' @ v) ` ((\<lambda>x. normalizeEmail (cv_Value x)) ` set (ct_Emails c) - {''''}) \<union>
    (\<lambda>v. ''p:'' @ v) ` ((\<lambda>x. normalizePhone (cv_Value x)) ` set (ct_Phones c) - {''''})"
  unfolding matchKeys_def set_append set_map set_filter by auto

lemma matchKeys_stamped [simp]:
  "matchKeys (c\<lparr>ct_Rev := r, ct_UpdatedAt := t\<rparr>) = matchKeys c"
  "normalizeName (c\<lparr>ct_Rev := r, ct_UpdatedAt := t\<rparr>) = normalizeName c"
  "otherwiseEmpty (c\<lparr>ct_Rev := r, ct_UpdatedAt := t\<rparr>) = otherwiseEmpty c"
  by (simp_all add: matchKeys_def normalizeName_def otherwiseEmpty_def)

lemma mergeGroup_fields:
  "fst (mergeGroup ms) = sv \<Longrightarrow> ct_Emails sv = unionValues ms ct_Emails normalizeEmail \<and>
     ct_Phones sv = unionValues ms ct_Phones normalizePhone \<and>
     ct_FormattedName sv = firstNonEmpty (by_newest ms) ct_FormattedName"
  by (auto simp: mergeGroup_def Let_def)

lemma survivor_keys: "set (matchKeys (fst (mergeGroup ms))) = (\<Union>m\<in>set ms. set (matchKeys m))"
proof -
  note f = mergeGroup_fields [OF refl, of ms]
  have "(\<lambda>x. normalizeEmail (cv_Value x)) ` set (ct_Emails (fst (mergeGroup ms))) =
      (\<Union>m\<in>set ms. (\<lambda>x. normalizeEmail (cv_Value x)) ` set (ct_Emails m)) - {''''}"
    using f by (simp add: unionValues_def keep_new_keys image_UN)
  moreover have "(\<lambda>x. normalizePhone (cv_Value x)) ` set (ct_Phones (fst (mergeGroup ms))) =
      (\<Union>m\<in>set ms. (\<lambda>x. normalizePhone (cv_Value x)) ` set (ct_Phones m)) - {''''}"
    using f by (simp add: unionValues_def keep_new_keys image_UN)
  moreover have "f ` ((\<Union>m\<in>S. E m) - {z} - {z}) = (\<Union>m\<in>S. f ` (E m - {z}))" for f :: "string \<Rightarrow> string" and S :: "contact set" and E z
    by blast
  ultimately show ?thesis unfolding matchKeys_alt by (simp add: UN_Un_distrib)
qed

lemma set_by_newest [simp]: "set (by_newest ms) = set ms"
  by (simp add: by_newest_def)

lemma survivor_name:
  assumes "normalizeName (fst (mergeGroup ms)) \<noteq> ''''"
  shows "\<exists>m\<in>set ms. normalizeName m = normalizeName (fst (mergeGroup ms))"
proof -
  have n: "ct_FormattedName (fst (mergeGroup ms)) = firstNonEmpty (by_newest ms) ct_FormattedName"
    using mergeGroup_fields [OF refl, of ms] by blast
  show ?thesis
  proof (cases "List.find (\<lambda>c. ct_FormattedName c \<noteq> '''') (by_newest ms)")
    case None
    with n have "ct_FormattedName (fst (mergeGroup ms)) = ''''" by (simp add: firstNonEmpty_def)
    with assms show ?thesis by (simp add: normalizeName_def)
  next
    case (Some c)
    then have "c \<in> set ms" using find_SomeD [OF Some] by simp
    moreover have "normalizeName c = normalizeName (fst (mergeGroup ms))"
      using n Some by (simp add: normalizeName_def firstNonEmpty_def)
    ultimately show ?thesis by blast
  qed
qed

lemma otherwiseEmpty_keys: "otherwiseEmpty c \<Longrightarrow> matchKeys c = []"
  by (simp add: otherwiseEmpty_def matchKeys_def)

section \<open>Components\<close>

lemma component_groups_disjoint:
  assumes "g \<in> set (component_groups cs)" "k \<in> set g"
  shows "g = component_of cs k"
proof -
  obtain i where i: "i < length cs" "g = component_of cs i" using assms(1) component_groups_props(3) by auto
  then have "(i, k) \<in> conn (joined cs)" using assms(2) by (simp add: mem_component_of)
  then show ?thesis using i component_of_same by simp
qed

lemma distinct_component_groups: "distinct (concat (component_groups cs))"
proof -
  have "distinct (component_groups cs)" using component_groups_props(2) [of cs] by (simp add: distinct_map)
  then show ?thesis
  proof (rule distinct_concat)
    show "distinct g" if "g \<in> set (component_groups cs)" for g
      using that by (auto simp: component_groups_def component_of_def)
    show "set g \<inter> set h = {}" if "g \<in> set (component_groups cs)" "h \<in> set (component_groups cs)" "g \<noteq> h" for g h
      using that component_groups_disjoint by blast
  qed
qed

lemma component_groups_mem:
  assumes "k < length cs" "length (component_of cs k) \<ge> 2"
  shows "component_of cs k \<in> set (component_groups cs)"
  using assms unfolding component_groups_props(3) by blast

text \<open>A contact that is connected to another one is linked to another one.\<close>

lemma conn_first_edge:
  assumes "(a, b) \<in> conn (joined cs)" "a \<noteq> b"
  obtains c where "c \<noteq> a" "a < length cs" "c < length cs" "linked (cs ! a) (cs ! c)"
proof -
  have "\<exists>c. c \<noteq> a \<and> a < length cs \<and> c < length cs \<and> linked (cs ! a) (cs ! c)"
    using assms(1) assms(2) unfolding conn_def
  proof (induction rule: rtrancl_induct)
    case (step y z)
    show ?case
    proof (cases "y = a")
      case True
      with step show ?thesis by (intro exI [of _ z]) (auto simp: joined_def linked_sym)
    next
      case False
      with step show ?thesis by simp
    qed
  qed simp
  then show thesis using that by blast
qed

lemma two_in_component:
  assumes "a < length cs" "length (component_of cs a) \<ge> 2"
  obtains b where "b \<noteq> a" "b < length cs" "(a, b) \<in> conn (joined cs)"
proof -
  have "distinct (component_of cs a)" by (simp add: component_of_def)
  then have "card (set (component_of cs a)) \<ge> 2" using assms(2) by (simp add: distinct_card)
  then have "\<not> set (component_of cs a) \<subseteq> {a}" by (metis card.empty card_insert_disjoint card_mono empty_iff
      finite.emptyI finite_insert One_nat_def numeral_2_eq_2 not_less_eq_eq)
  then obtain b where "b \<in> set (component_of cs a)" "b \<noteq> a" by blast
  then show thesis using that by (simp add: mem_component_of)
qed

lemma component_two:
  "a < length cs \<Longrightarrow> b < length cs \<Longrightarrow> a \<noteq> b \<Longrightarrow> (a, b) \<in> conn (joined cs) \<Longrightarrow> length (component_of cs a) \<ge> 2"
proof -
  assume "a < length cs" "b < length cs" "a \<noteq> b" "(a, b) \<in> conn (joined cs)"
  then have "{a, b} \<subseteq> set (component_of cs a)" "card {a, b} = 2" by (auto simp: mem_component_of)
  then have "2 \<le> card (set (component_of cs a))" by (metis card_mono finite_set)
  then show "length (component_of cs a) \<ge> 2" using card_length order_trans by blast
qed


section \<open>The live contacts after a run\<close>

text \<open>
  \<open>n k\<close> is what has become of the k-th live contact: of a merged component one contact is
  left, the survivor with a new stamp; a contact outside merged components is unchanged.
\<close>

definition merged_at :: "contact list \<Rightarrow> nat \<Rightarrow> bool" where
  "merged_at live k \<longleftrightarrow> length (component_of live k) \<ge> 2 \<and>
     groupShouldMerge (map ((!) live) (component_of live k))"

definition survivor_at :: "contact list \<Rightarrow> nat \<Rightarrow> contact" where
  "survivor_at live k = fst (mergeGroup (map ((!) live) (component_of live k)))"

definition deduped :: "contact list \<Rightarrow> (nat \<Rightarrow> contact) \<Rightarrow> bool" where
  "deduped live n \<longleftrightarrow> (\<forall>k<length live.
     if \<not> merged_at live k then n k = live ! k
     else if ct_UID (live ! k) = ct_UID (survivor_at live k)
       then \<exists>r t. n k = (survivor_at live k)\<lparr>ct_Rev := r, ct_UpdatedAt := t\<rparr>
       else tombstone (n k) = n k)"

definition sources :: "contact list \<Rightarrow> nat \<Rightarrow> nat set" where
  "sources live k = (if merged_at live k then set (component_of live k) else {k})"

definition kept :: "contact list \<Rightarrow> (nat \<Rightarrow> contact) \<Rightarrow> nat list" where
  "kept live n = filter (\<lambda>k. \<not> ct_Deleted (n k)) [0..<length live]"

lemma kept_props:
  "k \<in> set (kept live n) \<longleftrightarrow> k < length live \<and> \<not> ct_Deleted (n k)"
  "distinct (kept live n)" "sorted (kept live n)"
  by (auto simp: kept_def sorted_wrt_filter)

lemma kept_cases:
  assumes "deduped live n" "k \<in> set (kept live n)"
  obtains "\<not> merged_at live k" "n k = live ! k"
  | r t where "merged_at live k" "ct_UID (live ! k) = ct_UID (survivor_at live k)"
      "n k = (survivor_at live k)\<lparr>ct_Rev := r, ct_UpdatedAt := t\<rparr>"
  using assms unfolding deduped_def kept_props by (metis tombstone_sel(2))

lemma sources_conn:
  assumes "k < length live" "m \<in> sources live k"
  shows "m < length live \<and> (k, m) \<in> conn (joined live)"
  using assms by (auto simp: sources_def mem_component_of split: if_splits)

lemma kept_keys:
  assumes "deduped live n" "k \<in> set (kept live n)"
  shows "set (matchKeys (n k)) = (\<Union>m\<in>sources live k. set (matchKeys (live ! m)))"
  using assms
proof (cases rule: kept_cases)
  case (2 r t)
  then show ?thesis by (simp add: survivor_at_def survivor_keys sources_def)
qed (simp add: sources_def)

lemma kept_name:
  assumes "deduped live n" "k \<in> set (kept live n)" "normalizeName (n k) \<noteq> ''''"
  shows "\<exists>m\<in>sources live k. normalizeName (live ! m) = normalizeName (n k)"
  using assms(1,2)
proof (cases rule: kept_cases)
  case (2 r t)
  then have "normalizeName (fst (mergeGroup (map ((!) live) (component_of live k)))) \<noteq> ''''"
    using assms(3) by (simp add: survivor_at_def)
  from survivor_name [OF this] 2 show ?thesis by (auto simp: survivor_at_def sources_def)
qed (simp add: sources_def)

text \<open>A survivor without addresses comes from contacts without keys, one of them without addresses.\<close>

lemma kept_empty:
  assumes "deduped live n" "k \<in> set (kept live n)" "normalizeName (n k) \<noteq> ''''" "otherwiseEmpty (n k)"
  shows "\<exists>m\<in>sources live k. otherwiseEmpty (live ! m) \<and> normalizeName (live ! m) = normalizeName (n k)"
  using assms(1,2)
proof (cases rule: kept_cases)
  case 1
  with assms show ?thesis by (simp add: sources_def)
next
  case (2 r t)
  have k: "k < length live" using assms(2) kept_props(1) by blast
  have none: "matchKeys (live ! m) = []" if "m \<in> sources live k" for m
    using kept_keys [OF assms(1,2)] otherwiseEmpty_keys [OF assms(4)] that by auto
  obtain m where m: "m \<in> sources live k" "normalizeName (live ! m) = normalizeName (n k)"
    using kept_name [OF assms(1-3)] by blast
  note mc = sources_conn [OF k m(1)]
  have "length (component_of live m) \<ge> 2"
    using 2(1) component_of_same [of k m live] mc by (simp add: merged_at_def)
  then obtain b where "b \<noteq> m" "(m, b) \<in> conn (joined live)" using two_in_component mc by blast
  then obtain c where c: "c \<noteq> m" "c < length live" "linked (live ! m) (live ! c)"
    using conn_first_edge [of m b live] by blast
  have "(m, c) \<in> joined live" using c mc by (simp add: joined_def)
  then have kc: "(k, c) \<in> conn (joined live)" using mc conn_edge conn_trans by blast
  have cs: "c \<in> sources live k" using kc c(2) 2(1) by (simp add: sources_def mem_component_of)
  have "\<not> shares_key (live ! m) (live ! c)" using none [OF m(1)] by (simp add: shares_key_def)
  with c(3) have "shares_name (live ! m) (live ! c)" by (simp add: linked_def)
  with m cs show ?thesis unfolding shares_name_def by metis
qed

lemma kept_linked:
  assumes "deduped live n" "x \<in> set (kept live n)" "y \<in> set (kept live n)" "linked (n x) (n y)"
  shows "(x, y) \<in> conn (joined live)"
proof -
  have b: "x < length live" "y < length live" using assms(2,3) kept_props(1) by blast+
  have name: "\<exists>a\<in>sources live x. \<exists>c\<in>sources live y. linked (live ! a) (live ! c)"
    if h: "x \<in> set (kept live n)" "y \<in> set (kept live n)" "otherwiseEmpty (n x)"
      "normalizeName (n x) = normalizeName (n y)" "normalizeName (n x) \<noteq> ''''" for x y
  proof -
    obtain a where "a \<in> sources live x" "otherwiseEmpty (live ! a)" "normalizeName (live ! a) = normalizeName (n x)"
      using kept_empty [OF assms(1) h(1,5,3)] by blast
    moreover obtain c where "c \<in> sources live y" "normalizeName (live ! c) = normalizeName (n y)"
      using kept_name [OF assms(1) h(2)] h(4,5) by auto
    ultimately show ?thesis using h(4,5) unfolding linked_def shares_name_def by metis
  qed
  have "\<exists>a\<in>sources live x. \<exists>c\<in>sources live y. linked (live ! a) (live ! c)"
  proof (cases "shares_key (n x) (n y)")
    case True
    then obtain key where "key \<in> set (matchKeys (n x))" "key \<in> set (matchKeys (n y))" by (auto simp: shares_key_def)
    then show ?thesis
      unfolding kept_keys [OF assms(1,2)] kept_keys [OF assms(1,3)] linked_def shares_key_def by blast
  next
    case False
    then have s: "normalizeName (n x) = normalizeName (n y)" "normalizeName (n x) \<noteq> ''''"
      "otherwiseEmpty (n x) \<or> otherwiseEmpty (n y)"
      using assms(4) unfolding linked_def shares_name_def by metis+
    then show ?thesis using name [OF assms(2,3)] name [OF assms(3,2)] linked_sym by metis
  qed
  then obtain a c where ac: "a \<in> sources live x" "c \<in> sources live y" "linked (live ! a) (live ! c)" by blast
  note sx = sources_conn [OF b(1) ac(1)] and sy = sources_conn [OF b(2) ac(2)]
  have "(a, c) \<in> joined live" using ac(3) sx sy by (simp add: joined_def)
  then show ?thesis using sx sy conn_edge conn_trans conn_sym by meson
qed

text \<open>Linked contacts that are left are left unchanged.\<close>

lemma kept_linked_unchanged:
  assumes "deduped live n" "distinct (map ct_UID live)" "x \<in> set (kept live n)" "y \<in> set (kept live n)"
    and "(x, y) \<in> conn (joined live)" "x \<noteq> y"
  shows "\<not> merged_at live x"
proof
  assume m: "merged_at live x"
  have same: "component_of live x = component_of live y" using assms(5) by (rule component_of_same)
  then have m': "merged_at live y" "survivor_at live y = survivor_at live x"
    using m by (simp_all add: merged_at_def survivor_at_def)
  have "ct_UID (live ! x) = ct_UID (survivor_at live x)" using kept_cases [OF assms(1,3)] m by metis
  moreover have "ct_UID (live ! y) = ct_UID (survivor_at live x)" using kept_cases [OF assms(1,4)] m' by metis
  ultimately have "x = y"
    using nth_eq_iff_index_eq [OF assms(2), of x y] assms(3,4) kept_props(1) by simp
  with assms(6) show False by simp
qed

lemma unmerged_kept:
  assumes "deduped live n" "\<not> merged_at live k" "k < length live" "\<forall>c\<in>set live. \<not> ct_Deleted c"
  shows "k \<in> set (kept live n) \<and> n k = live ! k"
  using assms by (auto simp: deduped_def kept_props)

text \<open>The groups of the second run are unmerged groups of the first.\<close>

lemma second_run_groups:
  assumes "deduped live n" "distinct (map ct_UID live)" "\<forall>c\<in>set live. \<not> ct_Deleted c"
    and "g \<in> set (component_groups (map n (kept live n)))"
  shows "\<not> groupShouldMerge (map ((!) (map n (kept live n))) g)"
proof -
  let ?K = "kept live n" and ?L = "map n (kept live n)"
  obtain a where a: "a < length ?L" "g = component_of ?L a" "length g \<ge> 2"
    using assms(4) component_groups_props(3) by blast
  then have al: "a < length ?K" by simp
  have K: "?K ! i \<in> set ?K" if "i < length ?K" for i using that by simp
  have down: "(?K ! i, ?K ! j) \<in> conn (joined live)" if "(i, j) \<in> conn (joined ?L)" for i j
    using that
  proof (rule conn_least)
    fix i j assume "(i, j) \<in> joined ?L"
    then have "i < length ?K" "j < length ?K" "linked (n (?K ! i)) (n (?K ! j))" by (auto simp: joined_def)
    then show "(?K ! i, ?K ! j) \<in> conn (joined live)" using kept_linked [OF assms(1)] K by blast
  qed (auto intro: conn_sym conn_trans)
  have idx: "i = j" if "i < length ?K" "j < length ?K" "?K ! i = ?K ! j" for i j
    using that kept_props(2) nth_eq_iff_index_eq by blast
  let ?x = "?K ! a"
  have x: "?x \<in> set ?K" "?x < length live" using K [OF al] kept_props(1) by blast+
  obtain b where b: "b \<noteq> a" "b < length ?L" "(a, b) \<in> conn (joined ?L)"
    using two_in_component [OF a(1)] a(2,3) by blast
  have bl: "b < length ?K" "?K ! b \<in> set ?K" "?K ! b < length live" using b(2) K kept_props(1) by simp_all
  have xb: "?x \<noteq> ?K ! b" using idx [OF al bl(1)] b(1) by blast
  have nm: "\<not> merged_at live ?x"
    using kept_linked_unchanged [OF assms(1,2) x(1) bl(2) down [OF b(3)] xb] .
  have two: "length (component_of live ?x) \<ge> 2" using component_two [OF x(2) bl(3) xb down [OF b(3)]] .
  have unchanged: "y \<in> set ?K \<and> n y = live ! y" if y: "(?x, y) \<in> conn (joined live)" "y < length live" for y
  proof -
    have "\<not> merged_at live y" using nm component_of_same [OF y(1)] by (simp add: merged_at_def)
    then show ?thesis using unmerged_kept [OF assms(1) _ y(2) assms(3)] by blast
  qed
  have up: "\<exists>j<length ?K. ?K ! j = y \<and> (a, j) \<in> conn (joined ?L)" if "(?x, y) \<in> conn (joined live)" for y
    using that unfolding conn_def [of "joined live"]
  proof (induction rule: rtrancl_induct)
    case base
    with al show ?case by auto
  next
    case (step y z)
    then obtain j where j: "j < length ?K" "?K ! j = y" "(a, j) \<in> conn (joined ?L)" by blast
    have yz: "linked (live ! y) (live ! z)" "y < length live" "z < length live"
      using step.hyps(2) by (auto simp: joined_def linked_sym)
    have xy: "(?x, y) \<in> conn (joined live)" using step.hyps(1) by (simp add: conn_def)
    moreover have "(y, z) \<in> conn (joined live)" using yz by (intro conn_edge) (simp add: joined_def)
    ultimately have xz: "(?x, z) \<in> conn (joined live)" by (rule conn_trans)
    obtain i where i: "i < length ?K" "?K ! i = z" using unchanged [OF xz yz(3)] by (metis in_set_conv_nth)
    have "(j, i) \<in> joined ?L"
      using i j yz(1) unchanged [OF xy yz(2)] unchanged [OF xz yz(3)] by (simp add: joined_def)
    then have "(a, i) \<in> conn (joined ?L)" using j(3) conn_edge conn_trans by blast
    with i show ?case by blast
  qed
  have mem: "\<forall>i\<in>set g. i < length ?K" using a(2) by (simp add: mem_component_of)
  have "map ((!) ?K) g = component_of live ?x"
  proof (rule sorted_distinct_set_unique)
    have sg: "sorted g" "distinct g" using a(2) by (simp_all add: component_of_def sorted_wrt_filter)
    show "sorted (map ((!) ?K) g)"
      unfolding sorted_map
      by (rule sorted_wrt_mono_rel [OF _ sg(1)]) (use mem kept_props(3) in \<open>auto intro: sorted_nth_mono\<close>)
    have "inj_on ((!) ?K) (set g)" using idx mem by (auto intro!: inj_onI)
    with sg(2) show "distinct (map ((!) ?K) g)" by (simp add: distinct_map)
    show "sorted (component_of live ?x)" "distinct (component_of live ?x)"
      by (simp_all add: component_of_def sorted_wrt_filter)
    have "y \<in> set (map ((!) ?K) g) \<longleftrightarrow> y \<in> set (component_of live ?x)" for y
    proof
      assume "y \<in> set (map ((!) ?K) g)"
      then obtain i where i: "i \<in> set g" "y = ?K ! i" by auto
      then have "(a, i) \<in> conn (joined ?L)" "i < length ?K" using a(2) mem by (simp_all add: mem_component_of)
      with i(2) down K kept_props(1) show "y \<in> set (component_of live ?x)" by (auto simp: mem_component_of)
    next
      assume "y \<in> set (component_of live ?x)"
      then obtain j where "j < length ?K" "?K ! j = y" "(a, j) \<in> conn (joined ?L)"
        using up by (auto simp: mem_component_of)
      then show "y \<in> set (map ((!) ?K) g)" using a(2) by (auto simp: mem_component_of)
    qed
    then show "set (map ((!) ?K) g) = set (component_of live ?x)" by blast
  qed
  moreover have "map ((!) ?L) g = map n (map ((!) ?K) g)" using mem by simp
  moreover have "map n (component_of live ?x) = map ((!) live) (component_of live ?x)"
    using unchanged by (simp add: mem_component_of)
  ultimately have "map ((!) ?L) g = map ((!) live) (component_of live ?x)" by simp
  then show ?thesis using nm two by (simp add: merged_at_def)
qed


section \<open>Dedupe\<close>

text \<open>What has become of the live contacts after Dedupe.\<close>

lemma filter_sub: "(\<And>x. x \<in> set xs \<Longrightarrow> P x \<Longrightarrow> Q x) \<Longrightarrow> filter P xs = filter P (filter Q xs)"
  by (induction xs) auto

lemma dedupe_result:
  assumes "contacts_ok s" "map_iteration mo"
  obtains s' r n where
    "contacts_dedupe e mo s = (Inr r, s', \<exists>g\<in>set (component_groups (live_contacts s)).
       groupShouldMerge (map ((!) (live_contacts s)) g))"
    "length (co_contacts s') = length (co_contacts s)"
    "deduped (live_contacts s) n" "live_contacts s' = map n (kept (live_contacts s) n)"
    "\<forall>i<length (co_contacts s). i \<notin> set (live_index (co_contacts s)) \<longrightarrow> co_contacts s' ! i = co_contacts s ! i"
    "\<forall>k<length (live_contacts s). n k = co_contacts s' ! (live_index (co_contacts s) ! k)"
    "(\<forall>g\<in>set (component_groups (live_contacts s)). \<not> groupShouldMerge (map ((!) (live_contacts s)) g)) \<longrightarrow>
       s' = s \<and> r = \<lparr>dr_MergedCount = 0, dr_Groups = []\<rparr>"
proof -
  let ?live = "live_contacts s" and ?idx = "live_index (co_contacts s)"
  let ?G = "component_groups ?live"
  have du: "distinct (map ct_UID ?live)"
    using assms(1) distinct_map_filter by (auto simp: contacts_ok_def live_contacts_def)
  have g1: "\<forall>g\<in>set ?G. g \<noteq> [] \<and> (\<forall>k\<in>set g. k < length ?live)"
  proof (intro ballI conjI)
    fix g assume g: "g \<in> set ?G"
    then have "length g \<ge> 2" using component_groups_props(3) by blast
    then show "g \<noteq> []" by auto
    show "k < length ?live" if "k \<in> set g" for k using component_groups_bounded [OF g that] .
  qed
  have bnd: "\<forall>k<length ?live. ?idx ! k < length (co_contacts s)" using live_nth(1) by blast
  from dedupe_groups_spec [OF du live_nth(2) live_nth(3) bnd g1 distinct_component_groups,
      of "stamp e" "\<lparr>dr_MergedCount = 0, dr_Groups = []\<rparr>" False]
  obtain s' r where D: "dedupe_groups (stamp e) ?live ?idx ?G (s, \<lparr>dr_MergedCount = 0, dr_Groups = []\<rparr>, False) =
      Some (s', r, \<exists>g\<in>set ?G. groupShouldMerge (map ((!) ?live) g))"
    "length (co_contacts s') = length (co_contacts s)"
    "\<forall>g\<in>set ?G. if groupShouldMerge (map ((!) ?live) g) then settled (stamp e) ?live ?idx (co_contacts s') g
       else \<forall>k\<in>set g. co_contacts s' ! (?idx ! k) = co_contacts s ! (?idx ! k)"
    "\<forall>j. j \<notin> (!) ?idx ` set (concat ?G) \<longrightarrow> co_contacts s' ! j = co_contacts s ! j"
    "(\<forall>g\<in>set ?G. \<not> groupShouldMerge (map ((!) ?live) g)) \<longrightarrow> s' = s \<and> r = \<lparr>dr_MergedCount = 0, dr_Groups = []\<rparr>"
    by auto
  define n where "n k = co_contacts s' ! (?idx ! k)" for k
  have body: "contacts_dedupe e mo s = (Inr r, s', \<exists>g\<in>set ?G. groupShouldMerge (map ((!) ?live) g))"
    using D(1) findDuplicateGroups_components_aux [OF assms(2)] by (simp add: contacts_dedupe_def Let_def)
  have ded: "deduped ?live n"
    unfolding deduped_def
  proof (intro allI impI)
    fix k assume k: "k < length ?live"
    let ?C = "component_of ?live k"
    have kC: "k \<in> set ?C" using k by (simp add: mem_component_of)
    show "if \<not> merged_at ?live k then n k = ?live ! k
     else if ct_UID (?live ! k) = ct_UID (survivor_at ?live k)
       then \<exists>r t. n k = (survivor_at ?live k)\<lparr>ct_Rev := r, ct_UpdatedAt := t\<rparr>
       else tombstone (n k) = n k"
    proof (cases "?C \<in> set ?G")
      case True
      then have two: "length ?C \<ge> 2" by (auto simp: component_groups_def)
      show ?thesis
      proof (cases "groupShouldMerge (map ((!) ?live) ?C)")
        case True
        with \<open>?C \<in> set ?G\<close> D(3) have "settled (stamp e) ?live ?idx (co_contacts s') ?C" by auto
        then have "if ct_UID (?live ! k) = ct_UID (survivor_at ?live k)
            then \<exists>r. n k = (survivor_at ?live k)\<lparr>ct_Rev := r, ct_UpdatedAt := stamp e\<rparr>
            else tombstone (n k) = n k"
          using kC by (simp add: settled_def survivor_at_def n_def Let_def)
        then show ?thesis using True two unfolding merged_at_def by metis
      next
        case False
        with \<open>?C \<in> set ?G\<close> D(3) have "co_contacts s' ! (?idx ! k) = co_contacts s ! (?idx ! k)" using kC by auto
        then show ?thesis using False live_nth(1) [OF k] by (simp add: n_def merged_at_def)
      qed
    next
      case False
      then have nm: "\<not> merged_at ?live k" using component_groups_mem [OF k] by (auto simp: merged_at_def)
      have "?idx ! k \<notin> (!) ?idx ` set (concat ?G)"
      proof
        assume "?idx ! k \<in> (!) ?idx ` set (concat ?G)"
        then obtain j g where j: "?idx ! k = ?idx ! j" "j \<in> set g" "g \<in> set ?G" by auto
        then have "j < length ?idx" "k < length ?idx" using g1 k live_nth(2) by auto
        then have "k = j" using j(1) live_nth(3) nth_eq_iff_index_eq by blast
        with j(2,3) have "?C \<in> set ?G" using component_groups_disjoint by metis
        with False show False ..
      qed
      then have "n k = ?live ! k" using D(4) live_nth(1) [OF k] by (simp add: n_def)
      with nm show ?thesis by simp
    qed
  qed
  have frame: "co_contacts s' ! i = co_contacts s ! i" if "i \<notin> set ?idx" for i
  proof -
    have "i \<notin> (!) ?idx ` set (concat ?G)" using that g1 live_nth(2) by auto
    with D(4) show ?thesis by blast
  qed
  have idxs: "?idx = map ((!) ?idx) [0..<length ?live]" using live_nth(2) by (metis map_nth)
  have "live_index (co_contacts s') = filter (\<lambda>i. \<not> ct_Deleted (co_contacts s' ! i)) ?idx"
    unfolding live_index_def D(2)
    by (rule filter_sub) (use frame in \<open>auto simp: live_index_def\<close>)
  also have "\<dots> = map ((!) ?idx) (kept ?live n)"
    by (subst idxs) (simp add: filter_map kept_def o_def n_def)
  finally have li: "live_index (co_contacts s') = map ((!) ?idx) (kept ?live n)" .
  have "live_contacts s' = map ((!) (co_contacts s')) (live_index (co_contacts s'))"
    using live_nth(1,2) [where s = s'] by (intro nth_equalityI) simp_all
  also have "\<dots> = map n (kept ?live n)" by (simp add: li n_def o_def)
  finally have lv: "live_contacts s' = map n (kept ?live n)" .
  show thesis by (rule that [OF body D(2) ded lv]) (use frame D(3,5) n_def in auto)
qed

lemma live_not_deleted: "\<forall>c\<in>set (live_contacts s). \<not> ct_Deleted c"
  by (simp add: live_contacts_def)

lemma live_distinct: "contacts_ok s \<Longrightarrow> distinct (map ct_UID (live_contacts s))"
  using distinct_map_filter by (auto simp: contacts_ok_def live_contacts_def)

lemma dedupe_after:
  assumes "contacts_ok s" "map_iteration mo" "contacts_dedupe e mo s = (r, s', d)"
  obtains n where "deduped (live_contacts s) n" "live_contacts s' = map n (kept (live_contacts s) n)"
proof -
  obtain s1 r1 n where "contacts_dedupe e mo s = (Inr r1, s1, \<exists>g\<in>set (component_groups (live_contacts s)).
       groupShouldMerge (map ((!) (live_contacts s)) g))"
    "deduped (live_contacts s) n" "live_contacts s1 = map n (kept (live_contacts s) n)"
    by (rule dedupe_result [OF assms(1,2), of e]) blast
  moreover from this(1) have "s1 = s'" using assms(3) by simp
  ultimately show thesis using that by simp
qed

lemma dedupe_twice:
  assumes "contacts_ok s" "map_iteration mo" "map_iteration mo'"
    and "contacts_dedupe e mo s = (r, s', d)"
  shows "contacts_dedupe e' mo' s' = (Inr \<lparr>dr_MergedCount = 0, dr_Groups = []\<rparr>, s', False)"
proof -
  obtain n where n: "deduped (live_contacts s) n" "live_contacts s' = map n (kept (live_contacts s) n)"
    using dedupe_after [OF assms(1,2,4)] .
  have ok': "contacts_ok s'"
    using touched_ok [OF assms(1) dedupe_touched [OF assms(2), of s e]] assms(4) by simp
  obtain s'' r' where d: "contacts_dedupe e' mo' s' = (Inr r', s'',
      \<exists>g\<in>set (component_groups (live_contacts s')). groupShouldMerge (map ((!) (live_contacts s')) g))"
    "(\<forall>g\<in>set (component_groups (live_contacts s')). \<not> groupShouldMerge (map ((!) (live_contacts s')) g)) \<longrightarrow>
       s'' = s' \<and> r' = \<lparr>dr_MergedCount = 0, dr_Groups = []\<rparr>"
    by (rule dedupe_result [OF ok' assms(3), of e']) blast
  have "\<forall>g\<in>set (component_groups (live_contacts s')). \<not> groupShouldMerge (map ((!) (live_contacts s')) g)"
    using second_run_groups [OF n(1) live_distinct [OF assms(1)] live_not_deleted] unfolding n(2) by blast
  with d show ?thesis by simp
qed

lemma dedupe_keys:
  assumes "contacts_ok s" "map_iteration mo" "contacts_dedupe e mo s = (r, s', d)"
  shows "(\<Union>c\<in>set (live_contacts s'). set (matchKeys c)) = (\<Union>c\<in>set (live_contacts s). set (matchKeys c))"
proof -
  let ?live = "live_contacts s"
  obtain n where n: "deduped ?live n" "live_contacts s' = map n (kept ?live n)"
    using dedupe_after [OF assms] .
  have "(\<Union>k\<in>set (kept ?live n). sources ?live k) = {..<length ?live}"
  proof (rule equalityI)
    show "(\<Union>k\<in>set (kept ?live n). sources ?live k) \<subseteq> {..<length ?live}"
      using sources_conn kept_props(1) by blast
    show "{..<length ?live} \<subseteq> (\<Union>k\<in>set (kept ?live n). sources ?live k)"
    proof
      fix m assume "m \<in> {..<length ?live}"
      then have m: "m < length ?live" by simp
      show "m \<in> (\<Union>k\<in>set (kept ?live n). sources ?live k)"
      proof (cases "merged_at ?live m")
        case False
        then show ?thesis using unmerged_kept [OF n(1) False m live_not_deleted] by (auto simp: sources_def)
      next
        case True
        let ?C = "component_of ?live m" and ?ms = "map ((!) ?live) (component_of ?live m)"
        have inj: "inj_on (ct_UID \<circ> (!) ?live) (set ?C)"
          using live_distinct [OF assms(1)] nth_eq_iff_index_eq [OF live_distinct [OF assms(1)]]
          by (auto intro!: inj_onI simp: mem_component_of)
        have "distinct (map ct_UID ?ms)" using inj by (simp add: distinct_map component_of_def)
        moreover have "?ms \<noteq> []" using True by (auto simp: merged_at_def)
        moreover obtain sv ab where mg: "mergeGroup ?ms = (sv, ab)" by fastforce
        ultimately obtain oldest where o: "oldest \<in> set ?ms" "ct_UID sv = ct_UID oldest"
          "ct_Deleted sv = ct_Deleted oldest" using mergeGroup_survivor [OF mg] by metis
        then obtain k where k: "k \<in> set ?C" "oldest = ?live ! k" by auto
        then have kl: "k < length ?live" "(m, k) \<in> conn (joined ?live)" by (simp_all add: mem_component_of)
        have same: "component_of ?live k = ?C" using component_of_same [OF kl(2)] by simp
        have at: "merged_at ?live k" "survivor_at ?live k = sv"
          using True mg by (simp_all add: merged_at_def survivor_at_def same)
        have live: "\<not> ct_Deleted sv" using live_not_deleted [of s] kl(1) o(3) k(2) by simp
        obtain r t where "n k = sv\<lparr>ct_Rev := r, ct_UpdatedAt := t\<rparr>"
          using n(1) kl(1) at o(2) k(2) unfolding deduped_def by metis
        then have "k \<in> set (kept ?live n)" using live kl(1) by (simp add: kept_props)
        moreover have "m \<in> sources ?live k" using at(1) m same by (simp add: sources_def mem_component_of)
        ultimately show ?thesis by blast
      qed
    qed
  qed
  moreover have "(\<Union>c\<in>set (live_contacts s'). set (matchKeys c)) =
      (\<Union>k\<in>set (kept ?live n). \<Union>m\<in>sources ?live k. set (matchKeys (?live ! m)))"
    using kept_keys [OF n(1)] unfolding n(2) by simp
  moreover have "(\<Union>c\<in>set ?live. set (matchKeys c)) = (\<Union>m\<in>{..<length ?live}. set (matchKeys (?live ! m)))"
    by (auto simp: set_conv_nth)
  moreover have "(\<Union>k\<in>set (kept ?live n). \<Union>m\<in>sources ?live k. set (matchKeys (?live ! m))) =
      (\<Union>m\<in>(\<Union>k\<in>set (kept ?live n). sources ?live k). set (matchKeys (?live ! m)))"
    by blast
  ultimately show ?thesis by simp
qed


section \<open>Tombstones and the own card\<close>

text \<open>
  A deleted contact holds nothing but identity and bookkeeping (at most its flag), and at most
  one contact has the flag of the own card.
\<close>

definition guarded :: "contacts_store \<Rightarrow> bool" where
  "guarded s \<longleftrightarrow> (\<forall>c\<in>set (co_contacts s). ct_Deleted c \<longrightarrow> tombstone c = c\<lparr>ct_IsSelf := False\<rparr>) \<and>
    (\<forall>c\<in>set (co_contacts s). \<forall>d\<in>set (co_contacts s). ct_IsSelf c \<and> ct_IsSelf d \<longrightarrow> c = d)"

abbreviation wiped :: "contact \<Rightarrow> bool" where
  "wiped c \<equiv> ct_Deleted c \<longrightarrow> tombstone c = c\<lparr>ct_IsSelf := False\<rparr>"

lemma guarded_nth: "guarded s \<Longrightarrow> i < length (co_contacts s) \<Longrightarrow> wiped (co_contacts s ! i)"
  unfolding guarded_def using nth_mem by blast

lemma wiped_fixpoint: "tombstone c = c \<Longrightarrow> wiped c \<and> \<not> ct_IsSelf c"
proof -
  assume "tombstone c = c"
  moreover have "\<not> ct_IsSelf (tombstone c)" by (simp add: tombstone_def)
  ultimately show ?thesis by simp
qed

lemma wiped_stamped: "wiped c \<Longrightarrow> wiped (c\<lparr>ct_IsSelf := b, ct_Rev := r, ct_UpdatedAt := t\<rparr>)"
  by (cases c) (simp add: tombstone_def)

lemma guarded_pointwise:
  assumes "contacts_ok s" "guarded s" "length (co_contacts s') = length (co_contacts s)"
    and "\<And>i. i < length (co_contacts s) \<Longrightarrow> wiped (co_contacts s' ! i) \<and>
       (ct_IsSelf (co_contacts s' ! i) \<longrightarrow> ct_IsSelf (co_contacts s ! i))"
  shows "guarded s'"
proof -
  have "c = d" if h: "c \<in> set (co_contacts s')" "d \<in> set (co_contacts s')" "ct_IsSelf c" "ct_IsSelf d" for c d
  proof -
    obtain i j where ij: "i < length (co_contacts s)" "co_contacts s' ! i = c"
      "j < length (co_contacts s)" "co_contacts s' ! j = d"
      using h(1,2) assms(3) by (metis in_set_conv_nth)
    then have "ct_IsSelf (co_contacts s ! i)" "ct_IsSelf (co_contacts s ! j)" using assms(4) h(3,4) by blast+
    then have "co_contacts s ! i = co_contacts s ! j" using assms(2) ij unfolding guarded_def by auto
    then have "i = j" using assms(1) ij nth_eq_iff_index_eq [of "map ct_UID (co_contacts s)" i j]
      by (simp add: contacts_ok_def)
    with ij show ?thesis by simp
  qed
  moreover have "wiped c" if "c \<in> set (co_contacts s')" for c
    using that assms(3,4) by (metis in_set_conv_nth)
  ultimately show ?thesis unfolding guarded_def by blast
qed

lemma guarded_append:
  "guarded s \<Longrightarrow> \<not> ct_IsSelf c \<Longrightarrow> \<not> ct_Deleted c \<Longrightarrow>
    guarded (s\<lparr>co_seq := q, co_contacts := co_contacts s @ [c]\<rparr>)"
  by (auto simp: guarded_def)

lemma guarded_seq [simp]: "guarded (s\<lparr>co_seq := q\<rparr>) = guarded s"
  by (simp add: guarded_def)

lemma upsert_guarded:
  assumes "contacts_ok s" "guarded s" "\<not> ct_IsSelf c"
  shows "guarded (fst (snd (contact_upsert e c s)))"
proof (cases "List.find (\<lambda>x. ct_UID x = ct_UID c) (co_contacts s)")
  case None
  then show ?thesis using assms
    by (auto simp: contact_upsert_def Let_def intro!: guarded_append split: sum.split)
next
  case (Some x)
  show ?thesis
  proof (cases "ct_UID c = ''''")
    case True
    then show ?thesis using assms
      by (auto simp: contact_upsert_def Let_def intro!: guarded_append split: sum.split)
  next
    case False
    define c2 where "c2 = c\<lparr>ct_Rev := co_seq s + 1, ct_Deleted := False, ct_UpdatedAt := stamp e,
      ct_CreatedAt := (if ct_CreatedAt c = '''' then ct_CreatedAt x else ct_CreatedAt c), ct_IsSelf := ct_IsSelf x\<rparr>"
    obtain i where i: "i < length (co_contacts s)" "co_contacts s ! i = x"
      "replace_first (\<lambda>x. ct_UID x = ct_UID c) (\<lambda>_. c2) (co_contacts s) = (co_contacts s)[i := c2]"
      using replace_first_update [OF Some] by metis
    have eq: "fst (snd (contact_upsert e c s)) = s\<lparr>co_seq := co_seq s + 1, co_contacts := (co_contacts s)[i := c2]\<rparr>"
      unfolding i(3) [symmetric] using False Some by (simp add: contact_upsert_def Let_def c2_def)
    have c2: "\<not> ct_Deleted c2" "ct_IsSelf c2 = ct_IsSelf x" by (simp_all add: c2_def)
    show ?thesis unfolding eq
      by (rule guarded_pointwise [OF assms(1,2)])
        (use i c2 guarded_nth [OF assms(2)] in \<open>auto simp: nth_list_update\<close>)
  qed
qed

lemma upsert_if_guarded:
  "contacts_ok s \<Longrightarrow> guarded s \<Longrightarrow> \<not> ct_IsSelf c \<Longrightarrow> guarded (fst (snd (contact_upsert_if e c p s)))"
  by (simp add: contact_upsert_if_def Let_def upsert_guarded)

lemma delete_guarded:
  assumes "contacts_ok s" "guarded s"
  shows "guarded (fst (snd (contact_delete e u s)))"
proof (cases "List.find (\<lambda>c. ct_UID c = u) (co_contacts s)")
  case None
  with assms show ?thesis by (simp add: contact_delete_def)
next
  case (Some c)
  define c1 where "c1 = (tombstone c)\<lparr>ct_Rev := co_seq s + 1, ct_UpdatedAt := stamp e\<rparr>"
  obtain i where i: "i < length (co_contacts s)"
    "replace_first (\<lambda>c. ct_UID c = u) (\<lambda>_. c1) (co_contacts s) = (co_contacts s)[i := c1]"
    using replace_first_update [OF Some] by metis
  have eq: "fst (snd (contact_delete e u s)) = s\<lparr>co_seq := co_seq s + 1, co_contacts := (co_contacts s)[i := c1]\<rparr>"
    unfolding i(2) [symmetric] using Some by (simp add: contact_delete_def Let_def c1_def)
  have "tombstone c1 = c1" by (simp add: c1_def tombstone_def)
  note c1 = wiped_fixpoint [OF this]
  show ?thesis unfolding eq
    by (rule guarded_pointwise [OF assms])
      (use i c1 guarded_nth [OF assms(2)] in \<open>auto simp: nth_list_update\<close>)
qed

lemma gc_guarded: "guarded s \<Longrightarrow> guarded (fst (snd (contacts_gc e d s)))"
  by (auto simp: contacts_gc_def guarded_def Let_def)

lemma clear_other_selfs_wiped:
  "\<forall>c\<in>set cs. wiped c \<Longrightarrow> \<forall>c\<in>set (fst (clear_other_selfs now idx i cs sq)). wiped c"
proof (induction now idx i cs sq rule: clear_other_selfs.induct)
  case (2 now idx i c cs sq)
  have w: "wiped (c\<lparr>ct_IsSelf := False, ct_Rev := sq + 1, ct_UpdatedAt := now\<rparr>)"
    using "2.prems" wiped_stamped [of c, where b = False] by simp
  show ?case
  proof (cases "i \<noteq> idx \<and> ct_IsSelf c")
    case True
    obtain cs1 q1 b1 where r: "clear_other_selfs now idx (Suc i) cs (sq + 1) = (cs1, q1, b1)" by (metis prod_cases3)
    then have "\<forall>c\<in>set cs1. wiped c" using "2.IH"(1) [OF True] "2.prems" by simp
    with True r w show ?thesis by (simp split del: if_split)
  next
    case False
    obtain cs1 q1 b1 where r: "clear_other_selfs now idx (Suc i) cs sq = (cs1, q1, b1)" by (metis prod_cases3)
    then have "\<forall>c\<in>set cs1. wiped c" using "2.IH"(2) [OF False] "2.prems" by simp
    with False r "2.prems" show ?thesis by auto
  qed
qed simp

lemma set_self_guarded:
  assumes "contacts_ok s" "guarded s"
  shows "guarded (fst (snd (contact_set_self e u b s)))"
proof (cases "find_index (\<lambda>c. ct_UID c = u) (co_contacts s)")
  case None
  with assms show ?thesis by (simp add: contact_set_self_def)
next
  case (Some idx)
  have il: "idx < length (co_contacts s)" using find_index_Some [OF Some] by blast
  show ?thesis
  proof (cases b)
    case False
    let ?c = "(co_contacts s ! idx)\<lparr>ct_IsSelf := False, ct_Rev := co_seq s + 1, ct_UpdatedAt := stamp e\<rparr>"
    have eq: "co_contacts (fst (snd (contact_set_self e u b s))) =
        (if ct_IsSelf (co_contacts s ! idx) then (co_contacts s)[idx := ?c] else co_contacts s)"
      using Some False by (simp add: contact_set_self_def Let_def)
    have w: "wiped ?c" using wiped_stamped [OF guarded_nth [OF assms(2) il]] .
    show ?thesis
      by (rule guarded_pointwise [OF assms])
        (use il w guarded_nth [OF assms(2)] in \<open>auto simp: eq nth_list_update\<close>)
  next
    case True
    obtain cs1 sq1 ch1 where st: "clear_other_selfs (stamp e) idx 0 (co_contacts s) (co_seq s) = (cs1, sq1, ch1)"
      by (metis prod_cases3)
    note cleared = clear_other_selfs_spec [OF st]
    let ?c = "(cs1 ! idx)\<lparr>ct_IsSelf := True, ct_Rev := sq1 + 1, ct_UpdatedAt := stamp e\<rparr>"
    define cs2 where "cs2 = (if ct_IsSelf (cs1 ! idx) then cs1 else cs1[idx := ?c])"
    have eq: "co_contacts (fst (snd (contact_set_self e u b s))) = cs2"
      using Some True st by (simp add: contact_set_self_def Let_def cs2_def)
    have "\<forall>c\<in>set (co_contacts s). wiped c" using assms(2) unfolding guarded_def by blast
    then have w1: "\<forall>c\<in>set cs1. wiped c"
      using clear_other_selfs_wiped [of "co_contacts s" "stamp e" idx 0 "co_seq s"] unfolding st fst_conv by blast
    have l1: "length cs1 = length (co_contacts s)" using cleared by blast
    have l: "idx < length cs1" "length cs2 = length cs1" using l1 il by (simp_all add: cs2_def)
    have "wiped ?c" using w1 l(1) by (intro wiped_stamped) simp
    then have w2: "wiped (cs2 ! i)" if "i < length cs2" for i
      using that w1 l by (cases "i = idx") (auto simp: cs2_def)
    have self: "i = idx" if "i < length cs2" "ct_IsSelf (cs2 ! i)" for i
    proof (rule ccontr)
      assume i: "i \<noteq> idx"
      then have "cs2 ! i = cs1 ! i" by (simp add: cs2_def)
      moreover have "i < length (co_contacts s)" using that(1) l(2) l1 by simp
      moreover have "\<not> ct_IsSelf (cs1 ! i)" if "i < length (co_contacts s)"
        using conjunct1 [OF conjunct2 [OF conjunct2 [OF cleared]], THEN spec [where x = i]] that i by auto
      ultimately show False using that(2) by simp
    qed
    have "wiped c" if "c \<in> set cs2" for c using that w2 by (metis in_set_conv_nth)
    moreover have "c = d" if "c \<in> set cs2" "d \<in> set cs2" "ct_IsSelf c" "ct_IsSelf d" for c d
      using that self by (metis in_set_conv_nth)
    ultimately show ?thesis unfolding guarded_def eq by blast
  qed
qed


lemma dedupe_guarded:
  assumes "contacts_ok s" "guarded s" "map_iteration mo"
  shows "guarded (fst (snd (contacts_dedupe e mo s)))"
proof -
  let ?live = "live_contacts s" and ?idx = "live_index (co_contacts s)"
  note bu = live_nth [where s = s]
  obtain s' r n b where D: "contacts_dedupe e mo s = (Inr r, s', b)" "length (co_contacts s') = length (co_contacts s)"
    "deduped ?live n" "\<forall>i<length (co_contacts s). i \<notin> set ?idx \<longrightarrow> co_contacts s' ! i = co_contacts s ! i"
    "\<forall>k<length ?live. n k = co_contacts s' ! (?idx ! k)"
    by (rule dedupe_result [OF assms(1,3), of e]) blast
  have "guarded s'"
  proof (rule guarded_pointwise [OF assms(1,2) D(2)])
    fix i assume i: "i < length (co_contacts s)"
    show "wiped (co_contacts s' ! i) \<and> (ct_IsSelf (co_contacts s' ! i) \<longrightarrow> ct_IsSelf (co_contacts s ! i))"
    proof (cases "i \<in> set ?idx")
      case False
      then have "co_contacts s' ! i = co_contacts s ! i" using D(4) i by blast
      with guarded_nth [OF assms(2) i] show ?thesis by metis
    next
      case True
      then obtain k where k: "k < length ?live" "?idx ! k = i" using bu(2) by (metis in_set_conv_nth)
      have old: "co_contacts s ! i = ?live ! k" using bu(1) k by blast
      have nk: "co_contacts s' ! i = n k" using D(5) k by simp
      have live: "\<not> ct_Deleted (?live ! k)" using live_not_deleted [of s] k(1) by simp
      consider "n k = ?live ! k"
        | q t where "merged_at ?live k" "ct_UID (?live ! k) = ct_UID (survivor_at ?live k)"
            "n k = (survivor_at ?live k)\<lparr>ct_Rev := q, ct_UpdatedAt := t\<rparr>"
        | "tombstone (n k) = n k"
        using D(3) k(1) unfolding deduped_def by metis
      then show ?thesis
      proof cases
        case 1
        then show ?thesis using nk old live by simp
      next
        case (2 q t)
        let ?C = "component_of ?live k"
        have inj: "inj_on (ct_UID \<circ> (!) ?live) (set ?C)"
          using nth_eq_iff_index_eq [OF live_distinct [OF assms(1)]]
          by (auto intro!: inj_onI simp: mem_component_of)
        have d: "distinct (map ct_UID (map ((!) ?live) ?C))" using inj by (simp add: distinct_map component_of_def)
        have ne: "map ((!) ?live) ?C \<noteq> []" using 2(1) by (auto simp: merged_at_def)
        obtain sv ab where mg: "mergeGroup (map ((!) ?live) ?C) = (sv, ab)" by fastforce
        obtain oldest where o: "oldest \<in> set (map ((!) ?live) ?C)" "ct_UID sv = ct_UID oldest"
          "ct_IsSelf sv = ct_IsSelf oldest" "ct_Deleted sv = ct_Deleted oldest"
          using mergeGroup_survivor [OF mg ne d] by metis
        obtain j where j: "j \<in> set ?C" "oldest = ?live ! j" using o(1) by auto
        have sv: "survivor_at ?live k = sv" by (simp add: survivor_at_def mg)
        have "j < length ?live" using j(1) by (simp add: mem_component_of)
        then have "j = k"
          using nth_eq_iff_index_eq [OF live_distinct [OF assms(1)], of j k] k(1) o(2) 2(2) sv j(2) by simp
        then have "ct_IsSelf sv = ct_IsSelf (?live ! k)" "\<not> ct_Deleted sv" using o(3,4) j(2) live by simp_all
        moreover have "ct_IsSelf (n k) = ct_IsSelf sv" "ct_Deleted (n k) = ct_Deleted sv"
          unfolding 2(3) sv by simp_all
        ultimately show ?thesis unfolding nk old by blast
      next
        case 3
        from wiped_fixpoint [OF this] show ?thesis unfolding nk by blast
      qed
    qed
  qed
  with D(1) show ?thesis by simp
qed

fun no_flag :: "contacts_request \<Rightarrow> bool" where
  "no_flag (CqUpsert c) = (\<not> ct_IsSelf c)"
| "no_flag (CqUpsertIf c _) = (\<not> ct_IsSelf c)"
| "no_flag _ = True"

lemma transact_guarded:
  assumes "guarded (book v)" "guarded (fst (snd (body (book v))))"
    and "snd (transact contacts_applyFile contacts_file_of io e body (m, Json v)) = (m', Json v')"
  shows "guarded (book v')"
  using assms by (auto simp: transact_Json apply_book split: prod.splits if_splits)

section \<open>Properties\<close>

text \<open>
  C13: Dedupe is idempotent, as its comment says: after a run that succeeded, a run by any
  process, with any map iteration, reports no merge and changes nothing, although groups that
  groupShouldMerge refused are still there.
\<close>

theorem contacts_Dedupe_idempotent:
  assumes "contacts_ok (book v)" "map_iteration mo" "map_iteration mo'"
    and "contacts_Dedupe e mo (m, Json v) = (Inr r, m', Json v')"
  shows "contacts_Dedupe e' mo' (n, Json v') = (Inr \<lparr>dr_MergedCount = 0, dr_Groups = []\<rparr>, book v', Json v')"
proof -
  obtain q s' d where b: "contacts_dedupe e mo (book v) = (q, s', d)" by (metis prod_cases3)
  from b dedupe_twice [OF assms(1,2,3) b, of e']
  have "contacts_dedupe e' mo' (book v') = (Inr \<lparr>dr_MergedCount = 0, dr_Groups = []\<rparr>, book v', False)"
  proof (cases d)
    case True
    then have "v' = contacts_file_of s'"
      using assms(4) b by (auto simp: contacts_Dedupe_def transact_Json apply_book split: if_splits)
    with dedupe_twice [OF assms(1,2,3) b] show ?thesis by simp
  next
    case False
    then have "v' = v" using assms(4) b by (auto simp: contacts_Dedupe_def transact_Json apply_book split: if_splits)
    have "s' = book v"
    proof -
      obtain r1 s1 where x: "contacts_dedupe e mo (book v) = (Inr r1, s1,
          \<exists>g\<in>set (component_groups (live_contacts (book v))). groupShouldMerge (map ((!) (live_contacts (book v))) g))"
        "(\<forall>g\<in>set (component_groups (live_contacts (book v))). \<not> groupShouldMerge (map ((!) (live_contacts (book v))) g)) \<longrightarrow>
          s1 = book v \<and> r1 = \<lparr>dr_MergedCount = 0, dr_Groups = []\<rparr>"
        by (rule dedupe_result [OF assms(1,2), of e]) blast
      with b False show ?thesis by auto
    qed
    with dedupe_twice [OF assms(1,2,3) b] \<open>v' = v\<close> show ?thesis by simp
  qed
  then show ?thesis by (simp add: contacts_Dedupe_def transact_Json apply_book)
qed



section \<open>Two ways to lose the own card\<close>

text \<open>
  SetSelf accepts the UID of a tombstone: the call succeeds, takes the flag from the live card
  and gives it to the deleted contact, after which GetSelf finds none.
\<close>

lemma SetSelf_on_tombstone_loses_card:
  assumes "cf_Contacts v = [a\<lparr>ct_UID := ''a'', ct_IsSelf := True, ct_Deleted := False\<rparr>,
      b\<lparr>ct_UID := ''b'', ct_IsSelf := False, ct_Deleted := True\<rparr>]" "env_write_ok e"
  shows "fst (contacts_GetSelf (n, Json v)) \<noteq> None"
    "\<exists>c m' v'. contacts_SetSelf e ''b'' True (m, Json v) = (Inr (Some c), m', Json v') \<and>
       fst (contacts_GetSelf (n, Json v')) = None"
  using assms
  by (auto simp: contacts_GetSelf_def LoadJSONFile_def contacts_self_def contacts_applyFile_def
      contacts_SetSelf_def transact_Json contact_set_self_def Let_def contacts_file_of_def)

text \<open>
  Dedupe keeps the flag only when the oldest contact of a group has it: merging the own card
  into an older duplicate leaves the book without an own card.
\<close>

lemma merge_drops_flag:
  assumes "ct_CreatedAt a < ct_CreatedAt b" "\<not> ct_IsSelf a"
  shows "\<not> ct_IsSelf (fst (mergeGroup [a, b]))"
  using assms by (simp add: mergeGroup_def Let_def by_age_def age_key_def less_prod_def)


section \<open>Worked examples\<close>

definition twin_book :: contacts_file where
  "twin_book = \<lparr>cf_Contacts = [ann, ann2], cf_Seq = 2, cf_GCHighWaterRev = 0\<rparr>"

definition merged_book :: contacts_file where
  "merged_book = \<lparr>cf_Contacts = [ann\<lparr>ct_FormattedName := ''Ann B'', ct_Rev := 3, ct_UpdatedAt := ''+'', ct_MergedUIDs := [''b'']\<rparr>,
     (tombstone ann2)\<lparr>ct_Rev := 4, ct_UpdatedAt := ''+'', ct_MergedInto := ''a''\<rparr>], cf_Seq = 4, cf_GCHighWaterRev = 0\<rparr>"

lemma twin_book_ok: "contacts_ok (book twin_book)" "guarded (book twin_book)"
  by (simp_all add: contacts_ok_def guarded_def book_def contacts_applyFile_def twin_book_def ann_def ann2_def blank_contact_def)

lemma twin_book_merged: "contacts_Dedupe quiet plain_order (contacts_empty, Json twin_book) =
    (Inr \<lparr>dr_MergedCount = 1, dr_Groups = [\<lparr>dm_Survivor = ''a'', dm_Absorbed = [''b'']\<rparr>]\<rparr>,
     book merged_book, Json merged_book)"
  by code_simp

theorem contacts_Dedupe_idempotent_witness:
  "contacts_Dedupe quiet plain_order (contacts_empty, Json merged_book) =
    (Inr \<lparr>dr_MergedCount = 0, dr_Groups = []\<rparr>, book merged_book, Json merged_book)"
  by (rule contacts_Dedupe_idempotent [OF twin_book_ok(1) plain_order_ok plain_order_ok twin_book_merged])



end
