(* ===== verification/Retry.thy ===== *)
theory Retry
  imports Go_Prelude
begin

text \<open>
  The retry loop (backend/internal/retry/retry.go). An attempt works on a state and gives a
  result and whether to try again. Of the context the loop sees whether it is cancelled during
  the sleep after an attempt, and the error it has then.
\<close>

type_synonym ('s, 'a) attempt = "nat \<Rightarrow> 's \<Rightarrow> ((string + 'a) \<times> bool) \<times> 's"

record go_context =
  cx_cancelled :: "nat \<Rightarrow> bool"
  cx_err :: string

fun retry_from :: "go_context \<Rightarrow> ('s, 'a) attempt \<Rightarrow> nat \<Rightarrow> nat \<Rightarrow> 's \<Rightarrow> (string + 'a) \<times> 's" where
  "retry_from ctx fn k 0 s = (Inl ''retry.Loop: attempts must be positive'', s)"
| "retry_from ctx fn k (Suc left) s =
    (let ((r, again), s') = fn k s in
     if \<not> again \<or> left = 0 then (r, s')
     else if cx_cancelled ctx k then (Inl (cx_err ctx), s')
     else retry_from ctx fn (Suc k) left s')"

definition retry_Loop :: "go_context \<Rightarrow> nat \<Rightarrow> ('s, 'a) attempt \<Rightarrow> 's \<Rightarrow> (string + 'a) \<times> 's" where
  "retry_Loop ctx attempts fn s = retry_from ctx fn 0 attempts s"

text \<open>
  What every attempt keeps the loop keeps, and a value the loop returns was returned by an
  attempt.
\<close>

lemma retry_from_inv:
  assumes "\<And>k s. I s \<Longrightarrow> I (snd (fn k s)) \<and> (\<forall>x. fst (fst (fn k s)) = Inr x \<longrightarrow> P x)" "I s"
  shows "I (snd (retry_from ctx fn k n s)) \<and> (\<forall>x. fst (retry_from ctx fn k n s) = Inr x \<longrightarrow> P x)"
  using assms(2)
proof (induction n arbitrary: k s)
  case (Suc left)
  obtain r b s' where f: "fn k s = ((r, b), s')" by (metis prod.collapse)
  have "I s'" "\<forall>x. r = Inr x \<longrightarrow> P x" using assms(1) [OF Suc.prems, of k] f by auto
  then show ?case using Suc.IH [of s' "Suc k"] f by simp
qed simp

lemma retry_Loop_inv:
  assumes "\<And>k s. I s \<Longrightarrow> I (snd (fn k s)) \<and> (\<forall>x. fst (fst (fn k s)) = Inr x \<longrightarrow> P x)" "I s"
  shows "I (snd (retry_Loop ctx n fn s))" "fst (retry_Loop ctx n fn s) = Inr x \<Longrightarrow> P x"
  using retry_from_inv [of I fn P s ctx 0 n, OF assms] by (auto simp: retry_Loop_def)

text \<open>Cancelled or not, the loop makes at least one attempt and no more than it was told to.\<close>

lemma retry_first: "fn 0 s = ((r, False), s') \<Longrightarrow> 0 < n \<Longrightarrow> retry_Loop ctx n fn s = (r, s')"
  by (cases n) (simp_all add: retry_Loop_def)

end
