(* ===== verification/Cryptutil.thy ===== *)
theory Cryptutil
  imports Fsutil Go_Text
begin

text \<open>
  Encryption at rest (backend/internal/cryptutil): the envelope, the master key file and sealing and
  opening of texts. AES-GCM is a parameter (\<open>aead\<close>), and so are the JSON encoder and decoder of the
  envelope. The key file is missing, unreadable, or holds a text.
\<close>

record envelope =
  ev_Version :: int
  ev_Nonce :: string
  ev_Ciphertext :: string

record aead =
  ae_Seal :: "byte list \<Rightarrow> byte list \<Rightarrow> string \<Rightarrow> byte list"
  ae_Open :: "byte list \<Rightarrow> byte list \<Rightarrow> byte list \<Rightarrow> string option"

record envelope_codec =
  ec_Marshal :: "envelope \<Rightarrow> string"
  ec_Unmarshal :: "string \<Rightarrow> envelope option"

datatype crypto_error =
  KeyIO io_error
| KeyMissing
| BadBase64
| BadKeyLength
| BadCipherKey
| NotEnvelope
| NotAuthentic
| NonceLengthPanic

definition ParseEnvelope :: "envelope_codec \<Rightarrow> string \<Rightarrow> envelope option" where
  "ParseEnvelope codec raw =
    (case ec_Unmarshal codec raw of
       None \<Rightarrow> None
     | Some env \<Rightarrow>
        if ev_Version env \<noteq> 1 \<or> trim_space (ev_Nonce env) = '''' \<or> trim_space (ev_Ciphertext env) = ''''
        then None else Some env)"

definition decodeKey :: "string \<Rightarrow> crypto_error + byte list" where
  "decodeKey raw =
    (case b64_decode (trim_space raw) of
       None \<Rightarrow> Inl BadBase64
     | Some decoded \<Rightarrow> if length decoded \<noteq> 32 then Inl BadKeyLength else Inr decoded)"

definition LoadKey :: "string json_file \<Rightarrow> crypto_error + byte list" where
  "LoadKey f =
    (case f of Json raw \<Rightarrow> decodeKey raw | Missing \<Rightarrow> Inl KeyMissing | _ \<Rightarrow> Inl (KeyIO IoRead))"

text \<open>
  The key is created when its file is missing. In one process the mutex and the second look make
  this one step.
\<close>

definition LoadOrCreateKey :: "go_env \<Rightarrow> string json_file \<Rightarrow> (crypto_error + byte list) \<times> string json_file" where
  "LoadOrCreateKey e f =
    (if f \<noteq> Missing then (LoadKey f, f)
     else
       (case env_rand e of
          None \<Rightarrow> (Inl (KeyIO NoEntropy), f)
        | Some key \<Rightarrow>
            if env_write_ok e then (Inr key, Json (b64_encode key)) else (Inl (KeyIO IoWrite), f)))"

text \<open>\<open>aes.NewCipher\<close> takes keys of 16, 24 and 32 bytes; the nonce of GCM has 12.\<close>

definition NewCipher :: "byte list \<Rightarrow> crypto_error + byte list" where
  "NewCipher key = (if length key \<in> {16, 24, 32} then Inr key else Inl BadCipherKey)"

definition Seal :: "aead \<Rightarrow> byte list option \<Rightarrow> string \<Rightarrow> byte list \<Rightarrow> crypto_error + envelope" where
  "Seal a nonceBytes payload key =
    and_then (NewCipher key) (\<lambda>k.
      case nonceBytes of
        None \<Rightarrow> Inl (KeyIO NoEntropy)
      | Some nonce \<Rightarrow> Inr \<lparr>ev_Version = 1, ev_Nonce = b64_encode nonce, ev_Ciphertext = b64_encode (ae_Seal a k nonce payload)\<rparr>)"

text \<open>\<open>gcm.Open\<close> panics on a nonce of another length, which Open does not check.\<close>

definition Open :: "aead \<Rightarrow> envelope \<Rightarrow> byte list \<Rightarrow> crypto_error + string" where
  "Open a env key =
    and_then (NewCipher key) (\<lambda>k.
      case b64_decode (ev_Nonce env) of
        None \<Rightarrow> Inl BadBase64
      | Some nonce \<Rightarrow>
         (case b64_decode (ev_Ciphertext env) of
            None \<Rightarrow> Inl BadBase64
          | Some ciphertext \<Rightarrow>
              if length nonce \<noteq> 12 then Inl NonceLengthPanic
              else (case ae_Open a k nonce ciphertext of None \<Rightarrow> Inl NotAuthentic | Some plain \<Rightarrow> Inr plain)))"

definition SealString ::
  "aead \<Rightarrow> envelope_codec \<Rightarrow> go_env \<Rightarrow> byte list option \<Rightarrow> string \<Rightarrow> string json_file \<Rightarrow>
   (crypto_error + string) \<times> string json_file" where
  "SealString a codec e nonceBytes plaintext f =
    (case LoadOrCreateKey e f of
       (r, f') \<Rightarrow> (and_then r (\<lambda>key. and_then (Seal a nonceBytes plaintext key) (\<lambda>env. Inr (ec_Marshal codec env))), f'))"

definition OpenString ::
  "aead \<Rightarrow> envelope_codec \<Rightarrow> go_env \<Rightarrow> string \<Rightarrow> string json_file \<Rightarrow> (crypto_error + string) \<times> string json_file" where
  "OpenString a codec e enc f =
    (case ParseEnvelope codec enc of
       None \<Rightarrow> (Inl NotEnvelope, f)
     | Some env \<Rightarrow> (case LoadOrCreateKey e f of (r, f') \<Rightarrow> (and_then r (Open a env), f')))"

section \<open>Sealing and opening\<close>

text \<open>What AES-GCM and the JSON package promise.\<close>

definition aead_ok :: "aead \<Rightarrow> bool" where
  "aead_ok a \<longleftrightarrow> (\<forall>k n p. length n = 12 \<longrightarrow> ae_Open a k n (ae_Seal a k n p) = Some p \<and> ae_Seal a k n p \<noteq> [])"

definition codec_ok :: "envelope_codec \<Rightarrow> bool" where
  "codec_ok codec \<longleftrightarrow> (\<forall>env. ec_Unmarshal codec (ec_Marshal codec env) = Some env)"

lemma b64_digit_not_space: "n < 64 \<Longrightarrow> \<not> is_space (b64_digit n)"
proof
  assume n: "n < 64" and "is_space (b64_digit n)"
  then have "(of_char (b64_digit n) :: nat) \<in> {9, 10, 11, 12, 13, 32}" by (auto simp: is_space_def)
  then show False using n by (auto simp: of_char_b64_digit split: if_splits)
qed

lemma b64_encode_not_space: "c \<in> set (b64_encode bs) \<Longrightarrow> \<not> is_space c"
proof (induction bs rule: b64_encode.induct)
  case (2 a)
  then show ?case
    using b64_digit_not_space byte_less [of a] by (auto simp: b64_quad_def is_space_def)
next
  case (3 a b)
  then show ?case
    using b64_digit_not_space byte_less [of a] byte_less [of b] by (auto simp: b64_quad_def is_space_def)
next
  case (4 a b c' bs)
  then show ?case
    using b64_digit_not_space byte_less [of a] byte_less [of b] byte_less [of c'] by (auto simp: b64_quad_def)
qed simp

lemma trim_no_space: "\<forall>c\<in>set s. \<not> is_space c \<Longrightarrow> trim_space s = s"
proof -
  assume "\<forall>c\<in>set s. \<not> is_space c"
  then have "takeWhile is_space s = []" "takeWhile is_space (rev s) = []"
    by (auto simp: takeWhile_eq_Nil_iff hd_rev)
  then have "dropWhile is_space s = s" "dropWhile is_space (rev s) = rev s"
    by (metis append_Nil takeWhile_dropWhile_id)+
  then show ?thesis by (simp add: trim_space_def trim_left_def trim_right_def)
qed

lemma trim_b64 [simp]: "trim_space (b64_encode bs) = b64_encode bs"
  using b64_encode_not_space by (intro trim_no_space) auto

lemma b64_encode_nonempty: "bs \<noteq> [] \<Longrightarrow> b64_encode bs \<noteq> []"
  by (cases bs rule: b64_encode.cases) (auto simp: b64_quad_def)

lemma created_key_loads:
  assumes "LoadOrCreateKey e f = (Inr key, f')" "\<And>k. env_rand e = Some k \<Longrightarrow> length k = 32"
  shows "length key = 32 \<and> (\<forall>e'. LoadOrCreateKey e' f' = (Inr key, f'))"
  using assms by (cases f) (auto simp: LoadOrCreateKey_def LoadKey_def decodeKey_def split: option.splits if_splits)

section \<open>Properties\<close>

text \<open>
  What SealString made, with the master key in its file or with one created for it, OpenString
  opens to the same text, in every process and after any number of other calls; and neither it nor
  any later call changes the key.
\<close>

theorem sealed_text_opens:
  assumes "aead_ok a" "codec_ok codec" "length nonce = 12"
    and "\<And>k. env_rand e = Some k \<Longrightarrow> length k = 32"
    and "SealString a codec e (Some nonce) plaintext f = (Inr enc, f')"
  shows "OpenString a codec e' enc f' = (Inr plaintext, f') \<and>
    snd (SealString a codec e' n other f') = f' \<and> snd (OpenString a codec e' other f') = f'"
proof -
  obtain key where k: "LoadOrCreateKey e f = (Inr key, f')"
    using assms(5) by (auto simp: SealString_def and_then_Inr_iff split: prod.splits)
  then have len: "length key = 32" and again: "\<And>e'. LoadOrCreateKey e' f' = (Inr key, f')"
    using created_key_loads [OF k assms(4)] by auto
  let ?env = "\<lparr>ev_Version = 1, ev_Nonce = b64_encode nonce, ev_Ciphertext = b64_encode (ae_Seal a key nonce plaintext)\<rparr>"
  have enc: "enc = ec_Marshal codec ?env"
    using assms(5) k len by (auto simp: SealString_def Seal_def NewCipher_def)
  have "nonce \<noteq> []" "ae_Seal a key nonce plaintext \<noteq> []"
    using assms(1,3) by (auto simp: aead_ok_def)
  then have "b64_encode nonce \<noteq> []" "b64_encode (ae_Seal a key nonce plaintext) \<noteq> []"
    by (simp_all add: b64_encode_nonempty)
  then have "ParseEnvelope codec enc = Some ?env"
    using assms(2) enc by (simp add: ParseEnvelope_def codec_ok_def)
  then have "OpenString a codec e' enc f' = (Inr plaintext, f')"
    using again len assms(1,3) by (simp add: OpenString_def Open_def NewCipher_def aead_ok_def)
  then show ?thesis using again by (auto simp: SealString_def OpenString_def split: option.splits)
qed

text \<open>A cipher and a codec for worked examples: the text in the clear, and unary numbers.\<close>

definition plain_aead :: aead where
  "plain_aead =
    \<lparr>ae_Seal = \<lambda>k n p. 0 # map (\<lambda>c. word_of_nat (of_char c)) p,
     ae_Open = \<lambda>k n c. Some (map (\<lambda>b. char_of (unat b)) (tl c))\<rparr>"

lemma plain_aead_ok: "aead_ok plain_aead"
proof -
  have "(of_char c :: nat) < 256" for c :: char by simp
  then have "unat (word_of_nat (of_char c) :: byte) = of_char c" for c :: char
    by (simp add: unat_of_nat)
  then show ?thesis by (simp add: aead_ok_def plain_aead_def comp_def)
qed

definition unary :: "nat \<Rightarrow> string" where
  "unary n = replicate n CHR ''x'' @ ''y''"

definition read_unary :: "string \<Rightarrow> nat \<times> string" where
  "read_unary s = (length (takeWhile (\<lambda>c. c = CHR ''x'') s), tl (dropWhile (\<lambda>c. c = CHR ''x'') s))"

lemma read_unary [simp]: "read_unary (unary n @ s) = (n, s)"
  by (induction n) (simp_all add: read_unary_def unary_def)

definition unary_codec :: envelope_codec where
  "unary_codec =
    \<lparr>ec_Marshal = \<lambda>env. unary (nat (ev_Version env)) @ unary (nat (- ev_Version env)) @
       unary (length (ev_Nonce env)) @ ev_Nonce env @ ev_Ciphertext env,
     ec_Unmarshal = \<lambda>s. (case read_unary s of (v, s1) \<Rightarrow> (case read_unary s1 of (v', s2) \<Rightarrow>
       (case read_unary s2 of (k, s3) \<Rightarrow>
         Some \<lparr>ev_Version = int v - int v', ev_Nonce = take k s3, ev_Ciphertext = drop k s3\<rparr>)))\<rparr>"

lemma unary_codec_ok: "codec_ok unary_codec"
  by (simp add: codec_ok_def unary_codec_def)

definition sample_key :: "byte list" where
  "sample_key = replicate 32 7"

lemma sample_sealed:
  "\<exists>enc f'. SealString plain_aead unary_codec (tally_env 0 (Some sample_key) True) (Some (replicate 12 1)) ''secret'' Missing =
    (Inr enc, f')"
  by (simp add: SealString_def LoadOrCreateKey_def Seal_def NewCipher_def sample_key_def)

theorem sealed_text_opens_witness:
  "\<exists>enc f'. SealString plain_aead unary_codec (tally_env 0 (Some sample_key) True) (Some (replicate 12 1)) ''secret'' Missing =
      (Inr enc, f') \<and> fst (OpenString plain_aead unary_codec (tally_env 5 None False) enc f') = Inr ''secret''"
proof -
  obtain enc f' where s: "SealString plain_aead unary_codec (tally_env 0 (Some sample_key) True) (Some (replicate 12 1))
    ''secret'' Missing = (Inr enc, f')" using sample_sealed by blast
  then show ?thesis
    using sealed_text_opens [OF plain_aead_ok unary_codec_ok _ _ s, of "tally_env 5 None False" None "''other''"]
    by (simp add: sample_key_def)
qed

text \<open>
  An envelope whose nonce is not 12 bytes long, as a damaged file can hold, is not answered with an
  error: the call to the cipher panics.
\<close>

lemma short_nonce_panics:
  "length key = 32 \<Longrightarrow> length nonce \<noteq> 12 \<Longrightarrow>
   Open a \<lparr>ev_Version = 1, ev_Nonce = b64_encode nonce, ev_Ciphertext = b64_encode c\<rparr> key = Inl NonceLengthPanic"
  by (simp add: Open_def NewCipher_def)

end
