(* ===== verification/Mailmsg.thy ===== *)
theory Mailmsg
  imports Cryptutil
begin

text \<open>
  Outgoing messages (backend/internal/mailmsg): the RFC 5322 text Build renders, with the parts of
  package mime/multipart and \<open>mime.FormatMediaType\<close> it uses, the choice of the SMTP server and the
  reading of the stored credentials. The delivery itself is the standard library's.
\<close>

section \<open>The message\<close>

record attachment =
  at_Name :: string
  at_MimeType :: string
  at_Content :: "byte list"

record message =
  m_From :: string
  m_To :: "string list"
  m_CC :: "string list"
  m_BCC :: "string list"
  m_Subject :: string
  m_Body :: string
  m_Mode :: string
  m_Attachments :: "attachment list"

definition ContentType :: "message \<Rightarrow> string" where
  "ContentType m =
    (let mode = to_lower (trim_space (m_Mode m)) in
     if mode = ''html'' then ''text/html; charset=UTF-8''
     else if mode = ''markup'' then ''text/markdown; charset=UTF-8''
     else ''text/plain; charset=UTF-8'')"

definition SanitizeHeaderValue :: "string \<Rightarrow> string" where
  "SanitizeHeaderValue value = trim_space (map (\<lambda>c. if c = CHR 0x0D \<or> c = CHR 0x0A then CHR '' '' else c) value)"

definition sanitizeHeaderValues :: "string list \<Rightarrow> string list" where
  "sanitizeHeaderValues values = map SanitizeHeaderValue values"

definition crlf :: string where
  "crlf = [CHR 0x0D, CHR 0x0A]"

text \<open>The lines Build writes before the content type.\<close>

definition address_lines :: "message \<Rightarrow> string list" where
  "address_lines m =
    [''From: '' @ SanitizeHeaderValue (m_From m), ''To: '' @ str_join '', '' (sanitizeHeaderValues (m_To m))] @
    (if m_CC m \<noteq> [] then [''Cc: '' @ str_join '', '' (sanitizeHeaderValues (m_CC m))] else []) @
    (if m_BCC m \<noteq> [] then [''Bcc: '' @ str_join '', '' (sanitizeHeaderValues (m_BCC m))] else []) @
    [''Subject: '' @ SanitizeHeaderValue (m_Subject m), ''MIME-Version: 1.0'']"

definition crlf_lines :: "string list \<Rightarrow> string" where
  "crlf_lines ls = concat (map (\<lambda>l. l @ crlf) ls)"

section \<open>Attachments\<close>

text \<open>\<open>mime.FormatMediaType\<close> with the type \<open>attachment\<close> and the one parameter \<open>filename\<close>.\<close>

definition tspecials :: string where
  "tspecials = ''()<>@,;:'' @ [CHR 0x5C, CHR 0x22] @ ''/[]?=''"

definition token_char :: "char \<Rightarrow> bool" where
  "token_char c = (let n = (of_char c :: nat) in 32 < n \<and> n < 127 \<and> c \<notin> set tspecials)"

definition needs_encoding :: "string \<Rightarrow> bool" where
  "needs_encoding s = list_ex (\<lambda>c. let n = (of_char c :: nat) in (n < 32 \<or> n > 126) \<and> c \<noteq> CHR 0x09) s"

definition upper_hex :: "nat \<Rightarrow> char" where
  "upper_hex n = ''0123456789ABCDEF'' ! n"

definition percent_char :: "char \<Rightarrow> string" where
  "percent_char c =
    (let n = (of_char c :: nat) in
     if n \<le> 32 \<or> n \<ge> 127 \<or> c = CHR ''*'' \<or> c = CHR 0x27 \<or> c = CHR ''%'' \<or> c \<in> set tspecials
     then [CHR ''%'', upper_hex (n div 16), upper_hex (n mod 16)] else [c])"

definition quoted_char :: "char \<Rightarrow> string" where
  "quoted_char c = (if c = CHR 0x22 \<or> c = CHR 0x5C then [CHR 0x5C, c] else [c])"

definition attachment_disposition :: "string \<Rightarrow> string" where
  "attachment_disposition name =
    ''attachment; filename'' @
    (if needs_encoding name then ''*=utf-8'' @ [CHR 0x27, CHR 0x27] @ concat (map percent_char name)
     else if name \<noteq> '''' \<and> list_all token_char name then ''='' @ name
     else ''='' @ [CHR 0x22] @ concat (map quoted_char name) @ [CHR 0x22])"

text \<open>Base64 in lines of 76 characters.\<close>

function wrap_lines :: "string \<Rightarrow> string list" where
  "wrap_lines s = (if s = [] then [] else take 76 s # wrap_lines (drop 76 s))"
  by pat_completeness auto
termination by (relation "measure length") auto

declare wrap_lines.simps [simp del]

definition writeBase64Wrapped :: "byte list \<Rightarrow> string" where
  "writeBase64Wrapped data = crlf_lines (wrap_lines (b64_encode data))"

text \<open>
  Parts of a multipart message: \<open>CreatePart\<close> writes the boundary line and the headers as they are,
  sorted by name.
\<close>

definition part_headers :: "attachment \<Rightarrow> string list" where
  "part_headers a =
    (let contentType = (if trim_space (at_MimeType a) = '''' then ''application/octet-stream'' else trim_space (at_MimeType a));
         name = (if SanitizeHeaderValue (at_Name a) = '''' then ''attachment'' else SanitizeHeaderValue (at_Name a))
     in [''Content-Disposition: '' @ attachment_disposition name, ''Content-Transfer-Encoding: base64'',
         ''Content-Type: '' @ contentType])"

definition attachment_part :: "string \<Rightarrow> attachment \<Rightarrow> string" where
  "attachment_part boundary a =
    crlf @ ''--'' @ boundary @ crlf @ crlf_lines (part_headers a) @ crlf @ writeBase64Wrapped (at_Content a)"

definition message_headers :: "string \<Rightarrow> message \<Rightarrow> string list" where
  "message_headers boundary m =
    address_lines m @
    [if m_Attachments m = [] then ''Content-Type: '' @ ContentType m
     else ''Content-Type: multipart/mixed; boundary='' @ boundary]"

definition message_content :: "string \<Rightarrow> message \<Rightarrow> string" where
  "message_content boundary m =
    (if m_Attachments m = [] then m_Body m
     else ''--'' @ boundary @ crlf @ ''Content-Type: '' @ ContentType m @ crlf @ crlf @ m_Body m @
       concat (map (attachment_part boundary) (m_Attachments m)) @ crlf @ ''--'' @ boundary @ ''--'' @ crlf)"

text \<open>The boundary is 30 random bytes in hexadecimal.\<close>

definition Build :: "byte list \<Rightarrow> message \<Rightarrow> string" where
  "Build rnd m =
    (let boundary = hex_bytes rnd in
     crlf_lines (message_headers boundary m) @ crlf @ message_content boundary m)"

section \<open>The SMTP server\<close>

record imap_payload =
  ip_Host :: string
  ip_Port :: int
  ip_Username :: string
  ip_Password :: string
  ip_Mailbox :: string
  ip_SMTPHost :: string
  ip_SMTPPort :: int
  ip_UpdatedAt :: string

definition NormalizeIMAPPayload :: "imap_payload \<Rightarrow> imap_payload" where
  "NormalizeIMAPPayload p =
    (let smtpHost = trim_space (ip_SMTPHost p); mailbox = trim_space (ip_Mailbox p) in
     p\<lparr>ip_Host := trim_space (ip_Host p), ip_Username := trim_space (ip_Username p),
       ip_Password := trim_space (ip_Password p), ip_SMTPHost := smtpHost,
       ip_Port := (if ip_Port p \<le> 0 then 993 else ip_Port p),
       ip_Mailbox := (if mailbox = '''' then ''INBOX'' else mailbox),
       ip_SMTPPort := (if smtpHost \<noteq> '''' \<and> ip_SMTPPort p \<le> 0 then 587 else ip_SMTPPort p)\<rparr>)"

definition deriveSMTPHost :: "string \<Rightarrow> string" where
  "deriveSMTPHost imapHost =
    (let host = trim_space imapHost; lower = to_lower host in
     if host = '''' then ''''
     else if prefix ''imap.'' lower then ''smtp.'' @ drop (length ''imap.'') host
     else if str_contains lower ''.imap.'' then replace_once ''.imap.'' ''.smtp.'' host
     else host)"

text \<open>\<open>SMTP_HOST\<close> and \<open>SMTP_PORT\<close> of the process environment are arguments, the port as EnvInt reads it.\<close>

definition ResolveSMTPTarget :: "string \<Rightarrow> int \<Rightarrow> imap_payload \<Rightarrow> string + (string \<times> int \<times> string)" where
  "ResolveSMTPTarget envHost envPort p =
    (let own = trim_space (ip_SMTPHost p); h1 = (if own = '''' then trim_space envHost else own);
         host = (if h1 = '''' then deriveSMTPHost (ip_Host p) else h1);
         p1 = (if ip_SMTPPort p \<le> 0 then envPort else ip_SMTPPort p);
         port = (if p1 \<le> 0 then 587 else p1)
     in if host = '''' then Inl ''smtp host is not configured''
        else Inr (host, port, host @ '':'' @ itoa port))"

text \<open>
  The stored credentials: an envelope, or the plain text of old files. \<open>decode\<close> is the JSON decoder.
  The file of the master key is created when it is missing.
\<close>

definition decryptEncryptedPayload ::
  "aead \<Rightarrow> envelope_codec \<Rightarrow> go_env \<Rightarrow> string \<Rightarrow> string json_file \<Rightarrow> (crypto_error + string) \<times> string json_file" where
  "decryptEncryptedPayload a codec e raw keyFile =
    (case ParseEnvelope codec raw of
       None \<Rightarrow> (Inr raw, keyFile)
     | Some env \<Rightarrow> (case LoadOrCreateKey e keyFile of (r, f) \<Rightarrow> (and_then r (Open a env), f)))"

definition ReadIMAPConfigPayload ::
  "aead \<Rightarrow> envelope_codec \<Rightarrow> (string \<Rightarrow> imap_payload option) \<Rightarrow> go_env \<Rightarrow> string json_file \<Rightarrow> string json_file \<Rightarrow>
   (crypto_error + imap_payload option) \<times> string json_file" where
  "ReadIMAPConfigPayload a codec decode e config keyFile =
    (case config of
       Missing \<Rightarrow> (Inr None, keyFile)
     | Json raw \<Rightarrow>
        (case decryptEncryptedPayload a codec e raw keyFile of
           (r, f) \<Rightarrow> (and_then r (\<lambda>plain. case decode plain of
              None \<Rightarrow> Inl (KeyIO BadJson) | Some p \<Rightarrow> Inr (Some (NormalizeIMAPPayload p))), f))
     | _ \<Rightarrow> (Inl (KeyIO IoRead), keyFile))"

section \<open>Reading a message back\<close>

text \<open>A reference reader: the header lines up to the first empty line, and what follows it.\<close>

fun read_line :: "string \<Rightarrow> string \<times> string" where
  "read_line [] = ([], [])"
| "read_line (c # s) =
    (if prefix crlf (c # s) then ([], drop 2 (c # s)) else (case read_line s of (l, r) \<Rightarrow> (c # l, r)))"

lemma read_line_length: "fst (read_line s) \<noteq> [] \<Longrightarrow> length (snd (read_line s)) < length s"
proof (induction s)
  case (Cons c s)
  show ?case
  proof (cases "prefix crlf (c # s)")
    case False
    have "length (snd (read_line s)) \<le> length s"
      by (induction s) (auto split: prod.splits)
    with False show ?thesis by (auto split: prod.splits)
  qed (use Cons in auto)
qed simp

function read_headers :: "string \<Rightarrow> string list \<times> string" where
  "read_headers s =
    (case read_line s of (l, r) \<Rightarrow>
      if l = [] then ([], r) else (case read_headers r of (ls, rest) \<Rightarrow> (l # ls, rest)))"
  by pat_completeness auto
termination
  by (relation "measure length") (simp, metis fst_conv snd_conv read_line_length in_measure)

declare read_headers.simps [simp del]

definition plain_line :: "string \<Rightarrow> bool" where
  "plain_line l \<longleftrightarrow> l \<noteq> [] \<and> CHR 0x0D \<notin> set l"

lemma read_line_plain: "CHR 0x0D \<notin> set l \<Longrightarrow> read_line (l @ crlf @ s) = (l, s)"
  by (induction l) (auto simp: crlf_def)

lemma read_headers_lines:
  "\<forall>l\<in>set ls. plain_line l \<Longrightarrow> read_headers (crlf_lines ls @ crlf @ s) = (ls, s)"
proof (induction ls)
  case Nil
  then show ?case using read_line_plain [of "[]" s] by (subst read_headers.simps) (simp add: crlf_lines_def)
next
  case (Cons l ls)
  then have "CHR 0x0D \<notin> set l" "l \<noteq> []" by (simp_all add: plain_line_def)
  then have "read_line (crlf_lines (l # ls) @ crlf @ s) = (l, crlf_lines ls @ crlf @ s)"
    using read_line_plain [of l "crlf_lines ls @ crlf @ s"] by (simp add: crlf_lines_def)
  then show ?case using Cons \<open>l \<noteq> []\<close> by (subst read_headers.simps) simp
qed

lemma set_trim_space: "set (trim_space s) \<subseteq> set s"
  unfolding trim_space_def trim_left_def trim_right_def by (auto dest!: set_dropWhileD)

lemma SanitizeHeaderValue_flat [simp]:
  "CHR 0x0D \<notin> set (SanitizeHeaderValue v)" "CHR 0x0A \<notin> set (SanitizeHeaderValue v)"
  unfolding SanitizeHeaderValue_def using set_trim_space by fastforce+

lemma set_str_join: "set (str_join sep xs) \<subseteq> set sep \<union> \<Union> (set ` set xs)"
  by (induction sep xs rule: str_join.induct) auto

lemma joined_flat: "CHR 0x0D \<notin> set (str_join '', '' (sanitizeHeaderValues vs))"
  using set_str_join [of "'', ''" "sanitizeHeaderValues vs"] by (auto simp: sanitizeHeaderValues_def)

lemma hex_bytes_flat: "CHR 0x0D \<notin> set (hex_bytes bs)"
proof -
  have d: "hex_digit n \<noteq> CHR 0x0D" if "n < 16" for n
    using that unfolding hex_digit_def by (auto simp: nth_Cons' split: if_splits)
  have "unat b div 16 < 16" "unat b mod 16 < 16" for b :: byte
    using byte_less [of b] by simp_all
  then have "CHR 0x0D \<notin> set (hex_byte b)" for b :: byte
    using d [of "unat b div 16"] d [of "unat b mod 16"] by (auto simp: hex_byte_def)
  then show ?thesis by (simp add: hex_bytes_def)
qed

lemma ContentType_flat: "CHR 0x0D \<notin> set (ContentType m)"
  by (simp add: ContentType_def Let_def)

lemma message_headers_plain: "l \<in> set (message_headers (hex_bytes rnd) m) \<Longrightarrow> plain_line l"
  using joined_flat hex_bytes_flat [of rnd] ContentType_flat [of m]
  by (auto simp: message_headers_def address_lines_def plain_line_def split: if_splits)

lemma wrap_lines_spec: "concat (wrap_lines s) = s \<and> (\<forall>l\<in>set (wrap_lines s). length l \<le> 76)"
proof (induction s rule: wrap_lines.induct)
  case (1 s)
  show ?case
  proof (cases "s = []")
    case True
    then show ?thesis by (simp add: wrap_lines.simps)
  next
    case False
    then show ?thesis using 1 by (subst (1 2) wrap_lines.simps) simp
  qed
qed

text \<open>What the wrapped base64 of an attachment decodes to.\<close>

lemma b64_wrapped_decodes: "b64_decode (writeBase64Wrapped data) = Some data"
proof -
  have "filter (\<lambda>c. c \<noteq> CHR 0x0A \<and> c \<noteq> CHR 0x0D) (crlf_lines ls) = filter (\<lambda>c. c \<noteq> CHR 0x0A \<and> c \<noteq> CHR 0x0D) (concat ls)"
    for ls by (induction ls) (simp_all add: crlf_lines_def crlf_def)
  then have "b64_decode (writeBase64Wrapped data) = b64_decode (b64_encode data)"
    unfolding b64_decode_def writeBase64Wrapped_def using wrap_lines_spec by simp
  then show ?thesis by simp
qed

text \<open>
  The content type of an attachment is not flattened: a line break in it, which a request can
  contain, puts a header of its own into the part.
\<close>

lemma part_header_injected:
  "read_headers (crlf_lines (part_headers \<lparr>at_Name = ''a'', at_MimeType = ''text/plain'' @ crlf @ ''X: y'', at_Content = []\<rparr>)
     @ crlf) =
   ([''Content-Disposition: attachment; filename=a'', ''Content-Transfer-Encoding: base64'',
     ''Content-Type: text/plain'', ''X: y''], '''')"
  by code_simp

text \<open>A host name in capitals is recognised as an IMAP host, but not turned into the SMTP host.\<close>

lemma derive_ignores_capitals: "deriveSMTPHost ''mail.IMAP.example'' = ''mail.IMAP.example''"
  by code_simp

section \<open>Properties\<close>


end
