(* ===== verification/Imap_Client.thy ===== *)
theory Imap_Client
  imports Mailmsg
begin

text \<open>
  The IMAP client (backend/internal/adapters/imap/client.go): connecting, reading the inbox past a
  checkpoint without ever loading an oversized message, overviews and bodies, labels, actions on
  messages, folders and attachments. The library's connection is a parameter, a record of its
  commands as functions of the state of the server; an error is the text of the Go error.
\<close>

section \<open>The library\<close>

record imap_attachment =
  ia_Name :: string
  ia_MimeType :: string
  ia_Content :: string

text \<open>An e-mail as the library returns it; a zero time is None, addresses are printed.\<close>

record imap_email =
  em_Flags :: "string list"
  em_Sent :: "int option"
  em_Received :: "int option"
  em_Subject :: string
  em_From :: string
  em_To :: string
  em_CC :: string
  em_BCC :: string
  em_Text :: string
  em_HTML :: string
  em_Attachments :: "imap_attachment list"

datatype search_key =
  KeyUnseen
| KeyLarger int
| KeyUID string
| KeySubject string
| KeyFrom string
| KeyBody string
| KeyText string

type_synonym ('d, 'a) command = "'d \<Rightarrow> (string + 'a) \<times> 'd"

record 'd dialer =
  dl_config :: "'d \<Rightarrow> string + imap_payload option"
  dl_connect :: "string \<Rightarrow> int \<Rightarrow> string \<Rightarrow> string \<Rightarrow> ('d, unit) command"
  dl_SelectFolder :: "string \<Rightarrow> ('d, unit) command"
  dl_Reconnect :: "('d, unit) command"
  dl_GetUIDs :: "string \<Rightarrow> ('d, int list) command"
  dl_GetLastNUIDs :: "int \<Rightarrow> ('d, int list) command"
  dl_SearchUIDs :: "search_key list \<Rightarrow> ('d, int list) command"
  dl_GetOverviews :: "int list \<Rightarrow> ('d, int \<Rightarrow> imap_email option) command"
  dl_GetEmails :: "int list \<Rightarrow> ('d, int \<Rightarrow> imap_email option) command"
  dl_GetFolders :: "('d, string list) command"
  dl_SetKeyword :: "int \<Rightarrow> string \<Rightarrow> bool \<Rightarrow> ('d, unit) command"
  dl_MarkSeen :: "int \<Rightarrow> ('d, unit) command"
  dl_MoveEmail :: "int \<Rightarrow> string \<Rightarrow> ('d, unit) command"
  dl_DeleteEmail :: "int \<Rightarrow> ('d, unit) command"
  dl_CreateFolder :: "string \<Rightarrow> ('d, unit) command"
  dl_RenameFolder :: "string \<Rightarrow> string \<Rightarrow> ('d, unit) command"
  dl_DeleteFolder :: "string \<Rightarrow> ('d, unit) command"
  dl_Append :: "string \<Rightarrow> string list \<Rightarrow> string \<Rightarrow> ('d, unit) command"

section \<open>Operations of the client\<close>

text \<open>The client and the server; the client has a dialer once it has connected.\<close>

record 'd imap_world =
  ic_connected :: bool
  ic_host :: string
  ic_port :: int
  ic_username :: string
  ic_password :: string
  ic_mailbox :: string
  ic_server :: 'd

type_synonym ('d, 'a) imap_op = "'d imap_world \<Rightarrow> (string + 'a) \<times> 'd imap_world"

definition ireturn :: "'a \<Rightarrow> ('d, 'a) imap_op" where
  "ireturn x w = (Inr x, w)"

definition ifail :: "string \<Rightarrow> ('d, 'a) imap_op" where
  "ifail err w = (Inl err, w)"

definition ibind :: "('d, 'a) imap_op \<Rightarrow> ('a \<Rightarrow> ('d, 'b) imap_op) \<Rightarrow> ('d, 'b) imap_op" where
  "ibind m f w = (case m w of (Inl err, w1) \<Rightarrow> (Inl err, w1) | (Inr x, w1) \<Rightarrow> f x w1)"

text \<open>The result of an operation with its error as a value, and errors in their context.\<close>

definition icatch :: "('d, 'a) imap_op \<Rightarrow> ('d, string + 'a) imap_op" where
  "icatch m w = (case m w of (r, w1) \<Rightarrow> (Inr r, w1))"

definition wrapped :: "string \<Rightarrow> ('d, 'a) imap_op \<Rightarrow> ('d, 'a) imap_op" where
  "wrapped context m w =
    (case m w of (Inl err, w1) \<Rightarrow> (Inl (context @ '': '' @ err), w1) | (Inr x, w1) \<Rightarrow> (Inr x, w1))"

definition server :: "('d, 'a) command \<Rightarrow> ('d, 'a) imap_op" where
  "server c w = (case c (ic_server w) of (r, d) \<Rightarrow> (r, w\<lparr>ic_server := d\<rparr>))"

text \<open>
  The context: the error it has at the k-th check of an operation. \<open>ctx_checks\<close> is a loop with
  n rounds that begin with a check.
\<close>

type_synonym imap_ctx = "nat \<Rightarrow> string option"

definition ctx_check :: "imap_ctx \<Rightarrow> ('d, unit) imap_op" where
  "ctx_check ctx = (case ctx 0 of Some err \<Rightarrow> ifail err | None \<Rightarrow> ireturn ())"

definition ctx_checks :: "imap_ctx \<Rightarrow> nat \<Rightarrow> nat \<Rightarrow> ('d, unit) imap_op" where
  "ctx_checks ctx k n =
    (case List.find (\<lambda>i. ctx i \<noteq> None) [k ..< k + n] of Some i \<Rightarrow> ifail (the (ctx i)) | None \<Rightarrow> ireturn ())"

section \<open>Connecting\<close>

definition blank :: "string \<Rightarrow> bool" where
  "blank s \<longleftrightarrow> trim_space s = ''''"

definition lacks_credentials :: "'d imap_world \<Rightarrow> bool" where
  "lacks_credentials w \<longleftrightarrow> blank (ic_host w) \<or> blank (ic_username w) \<or> blank (ic_password w)"

definition ensureCredentialsFromStoredConfigLocked :: "'d dialer \<Rightarrow> ('d, unit) imap_op" where
  "ensureCredentialsFromStoredConfigLocked D w =
    (if \<not> lacks_credentials w then (Inr (), w)
     else
       (case dl_config D (ic_server w) of
          Inl err \<Rightarrow> (Inl err, w)
        | Inr None \<Rightarrow> (Inr (), w)
        | Inr (Some stored) \<Rightarrow>
           (let host = trim_space (ip_Host stored); username = trim_space (ip_Username stored);
                password = trim_space (ip_Password stored);
                mailbox = (if blank (ip_Mailbox stored) then ''INBOX'' else trim_space (ip_Mailbox stored))
            in if host = '''' \<or> username = '''' \<or> password = '''' then (Inr (), w)
               else (Inr (), w\<lparr>ic_host := host, ic_port := (if ip_Port stored \<le> 0 then 993 else ip_Port stored),
                   ic_username := username, ic_password := password,
                   ic_mailbox := (if blank (ic_mailbox w) \<or> ic_mailbox w = ''INBOX'' then mailbox else ic_mailbox w)\<rparr>))))"

definition dial :: "'d dialer \<Rightarrow> ('d, unit) imap_op" where
  "dial D w =
    (if ic_connected w then (Inr (), w)
     else (case wrapped ''imap connect'' (server (dl_connect D (ic_host w) (ic_port w) (ic_username w) (ic_password w))) w of
             (Inl err, w1) \<Rightarrow> (Inl err, w1)
           | (Inr _, w1) \<Rightarrow> (Inr (), w1\<lparr>ic_connected := True\<rparr>)))"

definition select_own :: "'d dialer \<Rightarrow> string \<Rightarrow> ('d, unit) imap_op" where
  "select_own D mailbox =
    ibind (icatch (server (dl_SelectFolder D mailbox))) (\<lambda>r. case r of
      Inr _ \<Rightarrow> ireturn ()
    | Inl err \<Rightarrow> ibind (icatch (server (dl_Reconnect D))) (\<lambda>r2. case r2 of
        Inl _ \<Rightarrow> ifail (''imap select folder '' @ quoted mailbox @ '': '' @ err)
      | Inr _ \<Rightarrow> wrapped (''imap select folder '' @ quoted mailbox @ '' after reconnect'')
                   (server (dl_SelectFolder D mailbox))))"

definition ensureConnectedLocked :: "'d dialer \<Rightarrow> ('d, unit) imap_op" where
  "ensureConnectedLocked D =
    ibind (ensureCredentialsFromStoredConfigLocked D) (\<lambda>_ w.
      if lacks_credentials w then
        (Inl (''missing IMAP credentials; configure IMAP_HOST, IMAP_USERNAME, and IMAP_PASSWORD '' @
              ''or save credentials in IMAP settings''), w)
      else ibind (dial D) (\<lambda>_ w1. select_own D (ic_mailbox w1) w1) w)"

text \<open>What most operations begin with: the check of the context and the connection.\<close>

definition begin_op :: "'d dialer \<Rightarrow> imap_ctx \<Rightarrow> ('d, unit) imap_op" where
  "begin_op D ctx = ibind (ctx_check ctx) (\<lambda>_. ensureConnectedLocked D)"

definition select_other :: "'d dialer \<Rightarrow> string \<Rightarrow> ('d, unit) imap_op" where
  "select_other D mailbox w =
    (if mailbox \<noteq> '''' \<and> \<not> equal_fold mailbox (ic_mailbox w)
     then wrapped (''imap select folder '' @ quoted mailbox) (server (dl_SelectFolder D mailbox)) w
     else (Inr (), w))"

section \<open>Messages\<close>

record overview =
  ov_MessageID :: string
  ov_Subject :: string
  ov_Sender :: string
  ov_SentTo :: string
  ov_CC :: string
  ov_BCC :: string
  ov_Keywords :: "string list"
  ov_AtUTC :: string
  ov_Status :: string
  ov_UID :: int

record inbox_message =
  im_ID :: string
  im_Subject :: string
  im_Sender :: string
  im_SentTo :: string
  im_CC :: string
  im_BCC :: string
  im_Keywords :: "string list"
  im_AtUTC :: string
  im_Body :: string
  im_HasAttachments :: bool
  im_TooLarge :: bool

definition MaxInboundMessageBytes :: int where
  "MaxInboundMessageBytes = 25 * 2 ^ 20"

definition emailContentSize :: "imap_email \<Rightarrow> int" where
  "emailContentSize e =
    int (length (em_HTML e)) + int (length (em_Text e)) + sum_list (map (\<lambda>a. int (length (ia_Content a))) (em_Attachments e))"

text \<open>The flag loop: the keys of the keywords seen so far and the flags to come.\<close>

fun flag_keywords :: "string set \<Rightarrow> string list \<Rightarrow> string list" where
  "flag_keywords seen [] = []"
| "flag_keywords seen (flag # flags) =
    (let clean = trim_space flag in
     if clean = '''' \<or> equal_fold clean (CHR 0x5C # ''Seen'') \<or> prefix [CHR 0x5C] clean \<or> to_lower clean \<in> seen
     then flag_keywords seen flags
     else clean # flag_keywords (insert (to_lower clean) seen) flags)"

text \<open>\<open>fmt\<close> is the RFC 3339 formatting of an instant.\<close>

definition overviewFromEmail :: "(int \<Rightarrow> string) \<Rightarrow> int \<Rightarrow> imap_email option \<Rightarrow> overview" where
  "overviewFromEmail fmt uid email =
    (case email of
       None \<Rightarrow> \<lparr>ov_MessageID = itoa uid, ov_Subject = '''', ov_Sender = '''', ov_SentTo = '''', ov_CC = '''',
                ov_BCC = '''', ov_Keywords = [], ov_AtUTC = '''', ov_Status = ''unread'', ov_UID = uid\<rparr>
     | Some e \<Rightarrow>
        \<lparr>ov_MessageID = itoa uid, ov_Subject = trim_space (em_Subject e), ov_Sender = trim_space (em_From e),
         ov_SentTo = trim_space (em_To e), ov_CC = trim_space (em_CC e), ov_BCC = trim_space (em_BCC e),
         ov_Keywords = flag_keywords {} (em_Flags e),
         ov_AtUTC = (case (if em_Sent e = None then em_Received e else em_Sent e) of Some t \<Rightarrow> fmt t | None \<Rightarrow> ''''),
         ov_Status = (if list_ex (\<lambda>f. equal_fold (trim_space f) (CHR 0x5C # ''Seen'')) (em_Flags e) then ''read'' else ''unread''),
         ov_UID = uid\<rparr>)"

definition uidSetCriteria :: "int list \<Rightarrow> string" where
  "uidSetCriteria uids = str_join '','' (map itoa uids)"

definition partitionUIDsBySize :: "int list \<Rightarrow> int list \<Rightarrow> int list \<times> int list" where
  "partitionUIDsBySize filtered oversized =
    (filter (\<lambda>u. u \<notin> set oversized) filtered, filter (\<lambda>u. u \<in> set oversized) filtered)"

definition parseCheckpointUID :: "string \<Rightarrow> int" where
  "parseCheckpointUID checkpoint =
    (let v = trim_space checkpoint in
     if v = '''' then 0 else (case atoi v of None \<Rightarrow> 0 | Some uid \<Rightarrow> if uid < 0 then 0 else uid))"

definition message_of :: "overview \<Rightarrow> string \<Rightarrow> bool \<Rightarrow> bool \<Rightarrow> inbox_message" where
  "message_of ov body hasAttachments tooLarge =
    \<lparr>im_ID = ov_MessageID ov, im_Subject = ov_Subject ov, im_Sender = ov_Sender ov, im_SentTo = ov_SentTo ov,
     im_CC = ov_CC ov, im_BCC = ov_BCC ov, im_Keywords = ov_Keywords ov, im_AtUTC = ov_AtUTC ov,
     im_Body = body, im_HasAttachments = hasAttachments, im_TooLarge = tooLarge\<rparr>"

definition fetched_message :: "(int \<Rightarrow> string) \<Rightarrow> int \<Rightarrow> imap_email \<Rightarrow> inbox_message" where
  "fetched_message fmt uid e =
    (let ov = overviewFromEmail fmt uid (Some e) in
     if emailContentSize e > MaxInboundMessageBytes then message_of ov '''' False True
     else message_of ov (if blank (em_Text e) then trim_space (em_HTML e) else trim_space (em_Text e))
            (em_Attachments e \<noteq> []) False)"

text \<open>Overviews of the oversized messages, then the bodies of the others, and the new checkpoint.\<close>

definition fetch_inbox ::
  "'d dialer \<Rightarrow> (int \<Rightarrow> string) \<Rightarrow> imap_ctx \<Rightarrow> string \<Rightarrow> int list \<times> int list \<Rightarrow> ('d, inbox_message list \<times> string) imap_op"
where
  "fetch_inbox D fmt ctx sinceCheckpoint parts =
    (case parts of (toFetch, tooLarge) \<Rightarrow>
      ibind (if tooLarge = [] then ireturn []
             else ibind (wrapped ''imap fetch overviews'' (server (dl_GetOverviews D tooLarge))) (\<lambda>ovs.
                  ibind (ctx_checks ctx 1 (length tooLarge)) (\<lambda>_.
                  ireturn (map (\<lambda>u. message_of (overviewFromEmail fmt u (ovs u)) '''' False True) tooLarge)))) (\<lambda>large.
      ibind (if toFetch = [] then ireturn (\<lambda>_. None)
             else wrapped ''imap fetch emails'' (server (dl_GetEmails D toFetch))) (\<lambda>emails.
      ibind (ctx_checks ctx (1 + length tooLarge) (length toFetch)) (\<lambda>_.
        let minUID = parseCheckpointUID sinceCheckpoint; fetched = filter (\<lambda>u. emails u \<noteq> None) toFetch;
            maxUID = foldl max minUID (tooLarge @ fetched)
        in ireturn (large @ map (\<lambda>u. fetched_message fmt u (the (emails u))) fetched,
                    if maxUID > minUID then itoa maxUID else sinceCheckpoint)))))"

definition past_checkpoint :: "string \<Rightarrow> int list \<Rightarrow> int list" where
  "past_checkpoint sinceCheckpoint uids = sort (filter (\<lambda>u. u > parseCheckpointUID sinceCheckpoint) uids)"

definition ListUnreadInbox ::
  "'d dialer \<Rightarrow> (int \<Rightarrow> string) \<Rightarrow> imap_ctx \<Rightarrow> string \<Rightarrow> ('d, inbox_message list \<times> string) imap_op" where
  "ListUnreadInbox D fmt ctx sinceCheckpoint =
    ibind (begin_op D ctx) (\<lambda>_.
    ibind (wrapped ''imap search unseen'' (server (dl_GetUIDs D ''UNSEEN''))) (\<lambda>uids.
      let filtered = past_checkpoint sinceCheckpoint uids in
      if filtered = [] then ireturn ([], sinceCheckpoint)
      else
        ibind (wrapped ''imap search oversized'' (server (dl_SearchUIDs D [KeyUnseen, KeyLarger MaxInboundMessageBytes]))) (\<lambda>oversized.
        fetch_inbox D fmt ctx sinceCheckpoint (partitionUIDsBySize filtered oversized))))"

section \<open>Recent messages\<close>

record unread_message =
  um_MessageID :: string
  um_Subject :: string
  um_Sender :: string
  um_SentTo :: string
  um_CC :: string
  um_BCC :: string
  um_Keywords :: "string list"
  um_AtUTC :: string
  um_Body :: string
  um_Status :: string
  um_HasAttachments :: bool
  um_PGPEncryptedPayload :: string
  um_PGPSignaturePayload :: string

record message_content =
  mc_Body :: string
  mc_HasAttachments :: bool
  mc_TooLarge :: bool
  mc_PGPEncryptedPayload :: string
  mc_PGPSignaturePayload :: string

text \<open>\<open>isPGP\<close> is \<open>crypto.IsPGPMessage\<close> of the OpenPGP library.\<close>

definition pgpDetectPayload :: "(string \<Rightarrow> bool) \<Rightarrow> imap_attachment list \<Rightarrow> string" where
  "pgpDetectPayload isPGP attachments =
    (case List.find (\<lambda>a. isPGP (ia_Content a)) attachments of Some a \<Rightarrow> ia_Content a | None \<Rightarrow> '''')"

definition pgpDetectSignature :: "imap_attachment list \<Rightarrow> string" where
  "pgpDetectSignature attachments =
    (case List.find (\<lambda>a. prefix ''-----BEGIN PGP SIGNATURE-----'' (trim_space (ia_Content a))) attachments of
       Some a \<Rightarrow> ia_Content a | None \<Rightarrow> '''')"

text \<open>The HTML body, or the text when there is none, with the OpenPGP parts that go with it.\<close>

definition content_of :: "(string \<Rightarrow> bool) \<Rightarrow> imap_email \<Rightarrow> message_content" where
  "content_of isPGP e =
    (let body = (if blank (em_HTML e) then trim_space (em_Text e) else trim_space (em_HTML e));
         payload = pgpDetectPayload isPGP (em_Attachments e)
     in if body = '''' then
          \<lparr>mc_Body = '''', mc_HasAttachments = em_Attachments e \<noteq> [] \<and> payload = '''', mc_TooLarge = False,
           mc_PGPEncryptedPayload = payload, mc_PGPSignaturePayload = ''''\<rparr>
        else
          \<lparr>mc_Body = body, mc_HasAttachments = em_Attachments e \<noteq> [], mc_TooLarge = False,
           mc_PGPEncryptedPayload = '''', mc_PGPSignaturePayload = pgpDetectSignature (em_Attachments e)\<rparr>)"

definition unread_message_of :: "(string \<Rightarrow> bool) \<Rightarrow> (int \<Rightarrow> string) \<Rightarrow> int \<Rightarrow> imap_email \<Rightarrow> unread_message" where
  "unread_message_of isPGP fmt uid e =
    (let ov = overviewFromEmail fmt uid (Some e); c = content_of isPGP e in
     \<lparr>um_MessageID = ov_MessageID ov, um_Subject = ov_Subject ov, um_Sender = ov_Sender ov, um_SentTo = ov_SentTo ov,
      um_CC = ov_CC ov, um_BCC = ov_BCC ov, um_Keywords = ov_Keywords ov, um_AtUTC = ov_AtUTC ov,
      um_Body = mc_Body c, um_Status = ov_Status ov, um_HasAttachments = mc_HasAttachments c,
      um_PGPEncryptedPayload = mc_PGPEncryptedPayload c, um_PGPSignaturePayload = mc_PGPSignaturePayload c\<rparr>)"

text \<open>The elements of a map at the given keys, the highest first, that are there.\<close>

definition newest_first :: "(int \<Rightarrow> imap_email \<Rightarrow> 'a) \<Rightarrow> (int \<Rightarrow> imap_email option) \<Rightarrow> int list \<Rightarrow> 'a list" where
  "newest_first f emails uids = List.map_filter (\<lambda>u. map_option (f u) (emails u)) (rev uids)"

definition ListUnreadMessages ::
  "'d dialer \<Rightarrow> (string \<Rightarrow> bool) \<Rightarrow> (int \<Rightarrow> string) \<Rightarrow> imap_ctx \<Rightarrow> string \<Rightarrow> int \<Rightarrow> ('d, unread_message list) imap_op" where
  "ListUnreadMessages D isPGP fmt ctx mailbox limit =
    ibind (begin_op D ctx) (\<lambda>_.
    ibind (select_other D (trim_space mailbox)) (\<lambda>_.
    ibind (wrapped ''imap list recent messages'' (server (dl_GetLastNUIDs D (if limit \<le> 0 then 500 else limit)))) (\<lambda>uids.
      if uids = [] then ireturn []
      else ibind (wrapped ''imap fetch emails'' (server (dl_GetEmails D (sort uids)))) (\<lambda>emails.
           ibind (ctx_checks ctx 1 (length uids)) (\<lambda>_.
           ireturn (newest_first (unread_message_of isPGP fmt) emails (sort uids)))))))"

definition overviews_newest_first ::
  "'d dialer \<Rightarrow> (int \<Rightarrow> string) \<Rightarrow> imap_ctx \<Rightarrow> int list \<Rightarrow> ('d, overview list) imap_op" where
  "overviews_newest_first D fmt ctx uids =
    ibind (wrapped ''imap fetch overviews'' (server (dl_GetOverviews D uids))) (\<lambda>ovs.
    ibind (ctx_checks ctx 1 (length uids)) (\<lambda>_.
    ireturn (newest_first (\<lambda>u e. overviewFromEmail fmt u (Some e)) ovs uids)))"

definition ListOverviews ::
  "'d dialer \<Rightarrow> (int \<Rightarrow> string) \<Rightarrow> imap_ctx \<Rightarrow> string \<Rightarrow> int \<Rightarrow> ('d, overview list) imap_op" where
  "ListOverviews D fmt ctx mailbox limit =
    ibind (begin_op D ctx) (\<lambda>_.
    ibind (select_other D (trim_space mailbox)) (\<lambda>_.
    ibind (wrapped ''imap list recent messages'' (server (dl_GetLastNUIDs D (if limit \<le> 0 then 500 else limit)))) (\<lambda>uids.
      if uids = [] then ireturn [] else overviews_newest_first D fmt ctx (sort uids))))"

definition search_key_for :: "string \<Rightarrow> string \<Rightarrow> search_key" where
  "search_key_for field query =
    (if field = ''subject'' then KeySubject query
     else if field = ''sender'' \<or> field = ''from'' then KeyFrom query
     else if field = ''body'' then KeyBody query
     else KeyText query)"

definition search_limit :: "int \<Rightarrow> nat" where
  "search_limit limit = nat (if limit \<le> 0 then 50 else if limit > 200 then 200 else limit)"

definition SearchMessages ::
  "'d dialer \<Rightarrow> (int \<Rightarrow> string) \<Rightarrow> imap_ctx \<Rightarrow> string \<Rightarrow> string \<Rightarrow> string \<Rightarrow> int \<Rightarrow> ('d, overview list) imap_op" where
  "SearchMessages D fmt ctx mailbox field query limit =
    ibind (ctx_check ctx) (\<lambda>_.
      if trim_space query = '''' then ireturn []
      else
        ibind (ensureConnectedLocked D) (\<lambda>_.
        ibind (select_other D (trim_space mailbox)) (\<lambda>_.
        ibind (wrapped ''imap search'' (server (dl_SearchUIDs D
          [search_key_for (to_lower (trim_space field)) (trim_space query)]))) (\<lambda>uids.
          if uids = [] then ireturn []
          else overviews_newest_first D fmt ctx (keep_last (search_limit limit) (sort uids))))))"

definition too_large_content :: message_content where
  "too_large_content = \<lparr>mc_Body = '''', mc_HasAttachments = False, mc_TooLarge = True,
     mc_PGPEncryptedPayload = '''', mc_PGPSignaturePayload = ''''\<rparr>"

text \<open>The result is a map from UIDs.\<close>

definition GetMessageBodies ::
  "'d dialer \<Rightarrow> (string \<Rightarrow> bool) \<Rightarrow> imap_ctx \<Rightarrow> string \<Rightarrow> int list \<Rightarrow> ('d, int \<Rightarrow> message_content option) imap_op" where
  "GetMessageBodies D isPGP ctx mailbox uids =
    ibind (ctx_check ctx) (\<lambda>_.
      if uids = [] then ireturn (\<lambda>_. None)
      else
        ibind (ensureConnectedLocked D) (\<lambda>_.
        ibind (select_other D (trim_space mailbox)) (\<lambda>_.
        ibind (wrapped ''imap search oversized'' (server (dl_SearchUIDs D
          [KeyUID (uidSetCriteria uids), KeyLarger MaxInboundMessageBytes]))) (\<lambda>oversized.
          let (toFetch, tooLarge) = partitionUIDsBySize uids oversized in
          ibind (if toFetch = [] then ireturn (\<lambda>_. None)
                 else wrapped ''imap fetch emails'' (server (dl_GetEmails D toFetch))) (\<lambda>emails.
          ibind (ctx_checks ctx 1 (length toFetch)) (\<lambda>_.
          ireturn (\<lambda>u.
            if u \<in> set tooLarge then Some too_large_content
            else if u \<in> set toFetch then
              map_option (\<lambda>e. if emailContentSize e > MaxInboundMessageBytes then too_large_content else content_of isPGP e)
                (emails u)
            else None)))))))"

text \<open>The label loop: the flags of all messages in order, without system flags and repetitions.\<close>

definition ListLabels :: "'d dialer \<Rightarrow> imap_ctx \<Rightarrow> ('d, string list) imap_op" where
  "ListLabels D ctx =
    ibind (begin_op D ctx) (\<lambda>_.
    ibind (wrapped ''imap get recent uids'' (server (dl_GetLastNUIDs D 200))) (\<lambda>uids.
      if uids = [] then ireturn []
      else ibind (wrapped ''imap get overviews'' (server (dl_GetOverviews D uids))) (\<lambda>ovs.
        let flags = map trim_space (concat (map (\<lambda>u. case ovs u of None \<Rightarrow> [] | Some e \<Rightarrow> em_Flags e) uids))
        in ireturn (sort (remdups (filter (\<lambda>f. f \<noteq> '''' \<and> \<not> prefix [CHR 0x5C] f) flags))))))"

section \<open>Attachments\<close>

record attachment_info =
  af_Index :: nat
  af_Name :: string
  af_MimeType :: string
  af_Size :: nat

definition fetchAttachments ::
  "'d dialer \<Rightarrow> imap_ctx \<Rightarrow> string \<Rightarrow> int \<Rightarrow> ('d, imap_attachment list) imap_op" where
  "fetchAttachments D ctx mailbox uid =
    ibind (ctx_check ctx) (\<lambda>_.
      if uid \<le> 0 then ifail (''invalid message id '' @ itoa uid)
      else
        ibind (ensureConnectedLocked D) (\<lambda>_.
        ibind (select_other D (trim_space mailbox)) (\<lambda>_.
        ibind (wrapped ''imap fetch emails'' (server (dl_GetEmails D [uid]))) (\<lambda>emails.
          case emails uid of
            None \<Rightarrow> ifail (''message '' @ itoa uid @ '' not found in '' @ quoted (trim_space mailbox))
          | Some e \<Rightarrow>
              if emailContentSize e > MaxInboundMessageBytes then ifail ''mailmsg: message exceeds maximum allowed size''
              else ireturn (em_Attachments e)))))"

definition info_of :: "nat \<Rightarrow> imap_attachment \<Rightarrow> attachment_info" where
  "info_of i a = \<lparr>af_Index = i, af_Name = ia_Name a, af_MimeType = ia_MimeType a, af_Size = length (ia_Content a)\<rparr>"

definition ListAttachments ::
  "'d dialer \<Rightarrow> imap_ctx \<Rightarrow> string \<Rightarrow> int \<Rightarrow> ('d, attachment_info list) imap_op" where
  "ListAttachments D ctx mailbox uid =
    ibind (fetchAttachments D ctx mailbox uid) (\<lambda>as. ireturn (map (\<lambda>(i, a). info_of i a) (enumerate 0 as)))"

definition GetAttachment ::
  "'d dialer \<Rightarrow> imap_ctx \<Rightarrow> string \<Rightarrow> int \<Rightarrow> int \<Rightarrow> ('d, attachment_info \<times> string) imap_op" where
  "GetAttachment D ctx mailbox uid index =
    ibind (fetchAttachments D ctx mailbox uid) (\<lambda>as.
      if index < 0 \<or> index \<ge> int (length as) then ifail ''attachment not found''
      else let i = nat index in ireturn (info_of i (as ! i), ia_Content (as ! i)))"

section \<open>What an operation leaves alone\<close>

text \<open>
  \<open>keeps_cmd I c\<close>: the command c of the server keeps I; \<open>keeps_op I m\<close>: so does the operation m,
  whatever it answers.
\<close>

definition keeps_cmd :: "('d \<Rightarrow> bool) \<Rightarrow> ('d, 'a) command \<Rightarrow> bool" where
  "keeps_cmd I c \<longleftrightarrow> (\<forall>d. I d \<longrightarrow> I (snd (c d)))"

definition keeps_op :: "('d \<Rightarrow> bool) \<Rightarrow> ('d, 'a) imap_op \<Rightarrow> bool" where
  "keeps_op I m \<longleftrightarrow> (\<forall>w. I (ic_server w) \<longrightarrow> I (ic_server (snd (m w))))"

named_theorems keeps_intros \<open>operations that keep a property of the server\<close>

lemma keeps_ireturn [keeps_intros]: "keeps_op I (ireturn x)"
  by (simp add: keeps_op_def ireturn_def)

lemma keeps_ifail [keeps_intros]: "keeps_op I (ifail err)"
  by (simp add: keeps_op_def ifail_def)

lemma keeps_ibind [keeps_intros]: "keeps_op I m \<Longrightarrow> (\<And>x. keeps_op I (f x)) \<Longrightarrow> keeps_op I (ibind m f)"
  by (fastforce simp: keeps_op_def ibind_def split: prod.splits sum.splits)

lemma keeps_icatch [keeps_intros]: "keeps_op I m \<Longrightarrow> keeps_op I (icatch m)"
  by (fastforce simp: keeps_op_def icatch_def split: prod.splits)

lemma keeps_wrapped [keeps_intros]: "keeps_op I m \<Longrightarrow> keeps_op I (wrapped context m)"
  by (fastforce simp: keeps_op_def wrapped_def split: prod.splits sum.splits)

lemma keeps_server [keeps_intros]: "keeps_cmd I c \<Longrightarrow> keeps_op I (server c)"
  by (fastforce simp: keeps_op_def keeps_cmd_def server_def split: prod.splits)

lemma keeps_ctx [keeps_intros]: "keeps_op I (ctx_check ctx)" "keeps_op I (ctx_checks ctx k n)"
  by (auto simp: ctx_check_def ctx_checks_def keeps_intros split: option.split)

text \<open>The commands that only look, those of connecting included.\<close>

definition looks_keep :: "('d \<Rightarrow> bool) \<Rightarrow> 'd dialer \<Rightarrow> bool" where
  "looks_keep I D \<longleftrightarrow>
    (\<forall>a b c d. keeps_cmd I (dl_connect D a b c d)) \<and> (\<forall>f. keeps_cmd I (dl_SelectFolder D f)) \<and>
    keeps_cmd I (dl_Reconnect D) \<and> (\<forall>q. keeps_cmd I (dl_GetUIDs D q)) \<and> (\<forall>n. keeps_cmd I (dl_GetLastNUIDs D n)) \<and>
    (\<forall>ks. keeps_cmd I (dl_SearchUIDs D ks)) \<and> (\<forall>us. keeps_cmd I (dl_GetOverviews D us)) \<and> keeps_cmd I (dl_GetFolders D)"

lemma looks_keepD:
  assumes "looks_keep I D"
  shows "keeps_cmd I (dl_connect D h p u pw)" "keeps_cmd I (dl_SelectFolder D f)" "keeps_cmd I (dl_Reconnect D)"
    "keeps_cmd I (dl_GetUIDs D q)" "keeps_cmd I (dl_GetLastNUIDs D n)" "keeps_cmd I (dl_SearchUIDs D ks)"
    "keeps_cmd I (dl_GetOverviews D us)" "keeps_cmd I (dl_GetFolders D)"
  using assms by (auto simp: looks_keep_def)

lemma keeps_credentials: "keeps_op I (ensureCredentialsFromStoredConfigLocked D)"
  by (auto simp: keeps_op_def ensureCredentialsFromStoredConfigLocked_def Let_def split: sum.splits option.splits)

lemma keeps_state: "(\<And>x. keeps_op I (m x)) \<Longrightarrow> keeps_op I (\<lambda>w. m (f w) w)"
  by (simp add: keeps_op_def)

lemma keeps_cases: "(\<And>x. keeps_op I (f x)) \<Longrightarrow> (\<And>x. keeps_op I (g x)) \<Longrightarrow> keeps_op I (case r of Inl x \<Rightarrow> f x | Inr x \<Rightarrow> g x)"
  by (cases r) simp_all

lemma keeps_connect [keeps_intros]:
  assumes "looks_keep I D"
  shows "keeps_op I (ensureConnectedLocked D)" "keeps_op I (begin_op D ctx)" "keeps_op I (select_other D f)"
proof -
  note l = looks_keepD [OF assms]
  have s: "keeps_op I (wrapped c (server (dl_SelectFolder D x)))" for c x
    using l by (intro keeps_intros)
  have d: "keeps_op I (dial D)"
    unfolding keeps_op_def
  proof (intro allI impI)
    fix w :: "'a imap_world"
    assume "I (ic_server w)"
    moreover have "keeps_op I (wrapped ''imap connect'' (server (dl_connect D (ic_host w) (ic_port w) (ic_username w) (ic_password w))))"
      using l by (intro keeps_intros)
    ultimately show "I (ic_server (snd (dial D w)))"
      unfolding dial_def keeps_op_def by (fastforce split: prod.splits sum.splits)
  qed
  have "keeps_op I (select_own D x)" for x
    unfolding select_own_def by (intro keeps_intros keeps_cases l)
  then have o: "keeps_op I (\<lambda>w. select_own D (ic_mailbox w) w)" by (rule keeps_state)
  show c: "keeps_op I (ensureConnectedLocked D)"
    unfolding ensureConnectedLocked_def
    by (intro keeps_ibind keeps_credentials) (use keeps_ibind [OF d o] in \<open>auto simp: keeps_op_def\<close>)
  show "keeps_op I (begin_op D ctx)"
    unfolding begin_op_def using c by (intro keeps_intros)
  show "keeps_op I (select_other D f)"
    using s unfolding select_other_def keeps_op_def by auto
qed

section \<open>Oversized messages\<close>

text \<open>
  What SEARCH LARGER is documented to do: its answer has every message over the limit among those
  the other key selects; \<open>big\<close> are the messages over the limit.
\<close>

definition search_reports :: "(int \<Rightarrow> bool) \<Rightarrow> 'd dialer \<Rightarrow> search_key \<Rightarrow> int set \<Rightarrow> bool" where
  "search_reports big D key us \<longleftrightarrow>
    (\<forall>d os d'. dl_SearchUIDs D [key, KeyLarger MaxInboundMessageBytes] d = (Inr os, d') \<longrightarrow> {u \<in> us. big u} \<subseteq> set os)"

text \<open>A server whose answer to a command is used by what follows.\<close>

lemma keeps_answer:
  assumes "keeps_cmd I c" "\<And>d x d'. c d = (Inr x, d') \<Longrightarrow> keeps_op I (f x)"
  shows "keeps_op I (ibind (wrapped context (server c)) f)"
  unfolding keeps_op_def
proof (intro allI impI)
  fix w :: "'a imap_world"
  assume I: "I (ic_server w)"
  obtain r d where c: "c (ic_server w) = (r, d)" by fastforce
  then have "I d" using assms(1) I by (fastforce simp: keeps_cmd_def)
  then show "I (ic_server (snd (ibind (wrapped context (server c)) f w)))"
    using c assms(2) by (cases r) (auto simp: ibind_def wrapped_def server_def keeps_op_def)
qed

lemma keeps_if: "(b \<Longrightarrow> keeps_op I m) \<Longrightarrow> (\<not> b \<Longrightarrow> keeps_op I n) \<Longrightarrow> keeps_op I (if b then m else n)"
  by simp

lemma fetch_inbox_keeps:
  assumes l: "looks_keep I D" and g: "keeps_cmd I (dl_GetEmails D (fst parts))"
  shows "keeps_op I (fetch_inbox D fmt ctx cp parts)"
  using g unfolding fetch_inbox_def Let_def
  by (cases parts) (auto intro!: keeps_intros keeps_if looks_keepD [OF l])

lemma ListUnreadInbox_keeps:
  assumes l: "looks_keep I D" and s: "search_reports big D KeyUnseen {u. parseCheckpointUID cp < u}"
    and g: "\<And>us. \<forall>u\<in>set us. \<not> big u \<Longrightarrow> keeps_cmd I (dl_GetEmails D us)"
  shows "keeps_op I (ListUnreadInbox D fmt ctx cp)"
proof -
  have "keeps_op I (fetch_inbox D fmt ctx cp (partitionUIDsBySize (past_checkpoint cp uids) os))"
    if "dl_SearchUIDs D [KeyUnseen, KeyLarger MaxInboundMessageBytes] d = (Inr os, d')" for uids os d d'
  proof (intro fetch_inbox_keeps l g ballI)
    fix u assume "u \<in> set (fst (partitionUIDsBySize (past_checkpoint cp uids) os))"
    then show "\<not> big u"
      using s that unfolding search_reports_def partitionUIDsBySize_def past_checkpoint_def by fastforce
  qed
  then show ?thesis
    unfolding ListUnreadInbox_def Let_def
    by (intro keeps_ibind keeps_if keeps_answer keeps_connect l keeps_intros looks_keepD [OF l])
qed

lemma GetMessageBodies_keeps:
  assumes l: "looks_keep I D" and s: "search_reports big D (KeyUID (uidSetCriteria uids)) (set uids)"
    and g: "\<And>us. \<forall>u\<in>set us. \<not> big u \<Longrightarrow> keeps_cmd I (dl_GetEmails D us)"
  shows "keeps_op I (GetMessageBodies D isPGP ctx mailbox uids)"
proof -
  have "keeps_cmd I (dl_GetEmails D (fst (partitionUIDsBySize uids os)))"
    if "dl_SearchUIDs D [KeyUID (uidSetCriteria uids), KeyLarger MaxInboundMessageBytes] d = (Inr os, d')" for os d d'
    by (rule g) (use s that in \<open>fastforce simp: search_reports_def partitionUIDsBySize_def\<close>)
  then show ?thesis
    unfolding GetMessageBodies_def Let_def split_beta
    by (intro keeps_ibind keeps_if keeps_answer keeps_connect l keeps_intros looks_keepD [OF l])
qed

section \<open>Checkpoints\<close>

lemma ibind_Inr: "ibind m f w = (Inr y, w') \<longleftrightarrow> (\<exists>x w1. m w = (Inr x, w1) \<and> f x w1 = (Inr y, w'))"
  by (auto simp: ibind_def split: prod.splits sum.splits)

lemma wrapped_server_Inr: "wrapped c (server k) w = (Inr x, w') \<longleftrightarrow>
    (\<exists>d. k (ic_server w) = (Inr x, d) \<and> w' = w\<lparr>ic_server := d\<rparr>)"
  by (auto simp: wrapped_def server_def split: prod.splits sum.splits)

lemma ireturn_Inr: "ireturn x w = (Inr y, w') \<longleftrightarrow> y = x \<and> w' = w"
  by (auto simp: ireturn_def)

lemma itoa_not_space: "c \<in> set (itoa n) \<Longrightarrow> \<not> is_space c"
proof -
  have "\<not> is_space (digit_char d)" if "d < 10" for d
  proof
    assume "is_space (digit_char d)"
    then have "(of_char (digit_char d) :: nat) < 33" by (auto simp: is_space_def)
    then show False using that by (simp add: digit_char_def of_char_of)
  qed
  moreover assume "c \<in> set (itoa n)"
  ultimately show ?thesis
    by (auto simp: itoa_def is_space_def dest!: dec_digits_numeric split: if_splits)
qed

lemma parse_itoa: "0 \<le> n \<Longrightarrow> n < 2 ^ 63 \<Longrightarrow> parseCheckpointUID (itoa n) = n"
proof -
  assume n: "0 \<le> n" "n < 2 ^ 63"
  have "trim_space (itoa n) = itoa n" using itoa_not_space by (intro trim_no_space) auto
  moreover have "itoa n \<noteq> ''''" using dec_digits_nonempty by (simp add: itoa_def)
  moreover have "atoi (itoa n) = Some n" using n by (intro atoi_itoa) auto
  ultimately show ?thesis using n by (simp add: parseCheckpointUID_def)
qed

lemma parse_nonneg: "0 \<le> parseCheckpointUID cp"
  by (simp add: parseCheckpointUID_def Let_def split: option.split)

lemma parse_less: "parseCheckpointUID cp < 2 ^ 63"
  by (simp add: parseCheckpointUID_def atoi_def Let_def split: option.split)

lemma foldl_max: "foldl max m us = Max (set (m # us))" for m :: int
proof (induction us arbitrary: m)
  case (Cons u us)
  have "Max (set (max m u # us)) = Max (set (m # u # us))"
    by (cases us) (simp_all add: max.assoc)
  then show ?case using Cons [of "max m u"] by simp
qed simp

lemma fetch_inbox_ids:
  assumes "fetch_inbox D fmt ctx cp (toFetch, tooLarge) w = (Inr (ms, next), w')"
  shows "\<exists>us. set us \<subseteq> set toFetch \<union> set tooLarge \<and> map im_ID ms = map itoa us \<and>
    next = (if foldl max (parseCheckpointUID cp) us > parseCheckpointUID cp
            then itoa (foldl max (parseCheckpointUID cp) us) else cp)"
proof -
  let ?ids = "\<lambda>emails. tooLarge @ filter (\<lambda>u. emails u \<noteq> None) toFetch"
  have large: "map im_ID large = map itoa tooLarge"
    if "(if tooLarge = [] then ireturn []
         else ibind (wrapped ''imap fetch overviews'' (server (dl_GetOverviews D tooLarge))) (\<lambda>ovs.
              ibind (ctx_checks ctx 1 (length tooLarge)) (\<lambda>_.
              ireturn (map (\<lambda>u. message_of (overviewFromEmail fmt u (ovs u)) '''' False True) tooLarge)))) w
        = (Inr large, w1)" for large w1
    using that
    by (auto simp: ibind_Inr ireturn_Inr message_of_def overviewFromEmail_def split: if_splits option.splits)
  have fetched: "im_ID (fetched_message fmt u e) = itoa u" for u e
    by (simp add: fetched_message_def Let_def message_of_def overviewFromEmail_def)
  obtain large emails where "map im_ID large = map itoa tooLarge"
    "ms = large @ map (\<lambda>u. fetched_message fmt u (the (emails u))) (filter (\<lambda>u. emails u \<noteq> None) toFetch)"
    "next = (if foldl max (parseCheckpointUID cp) (?ids emails) > parseCheckpointUID cp
            then itoa (foldl max (parseCheckpointUID cp) (?ids emails)) else cp)"
    using assms large unfolding fetch_inbox_def by (auto simp: ibind_Inr ireturn_Inr Let_def)
  then show ?thesis using fetched by (intro exI [of _ "?ids emails"]) auto
qed

text \<open>
  The IDs of a batch are those of UIDs past the checkpoint and not past the new checkpoint; of
  the server it is only used that a UID is a 32-bit number.
\<close>

definition uids_32bit :: "'d dialer \<Rightarrow> bool" where
  "uids_32bit D \<longleftrightarrow> (\<forall>q d us d'. dl_GetUIDs D q d = (Inr us, d') \<longrightarrow> (\<forall>u\<in>set us. u < 2 ^ 32))"

lemma ListUnreadInbox_ids:
  assumes "ListUnreadInbox D fmt ctx cp w = (Inr (ms, next), w')" "uids_32bit D"
  shows "\<exists>us. map im_ID ms = map itoa us \<and> (\<forall>u\<in>set us. parseCheckpointUID cp < u \<and> u \<le> parseCheckpointUID next) \<and>
    parseCheckpointUID cp \<le> parseCheckpointUID next"
proof -
  obtain uids d d' where u: "dl_GetUIDs D ''UNSEEN'' d = (Inr uids, d')"
    and r: "ms = [] \<and> next = cp \<or>
      (\<exists>os w1. fetch_inbox D fmt ctx cp (partitionUIDsBySize (past_checkpoint cp uids) os) w1 = (Inr (ms, next), w'))"
    using assms(1) unfolding ListUnreadInbox_def Let_def
    by (fastforce simp: ibind_Inr ireturn_Inr wrapped_server_Inr split: if_splits)
  from r show ?thesis
  proof (elim disjE exE conjE)
    fix os w1 assume "fetch_inbox D fmt ctx cp (partitionUIDsBySize (past_checkpoint cp uids) os) w1 = (Inr (ms, next), w')"
    from fetch_inbox_ids [OF this [unfolded partitionUIDsBySize_def]]
    obtain us where us: "set us \<subseteq> set (past_checkpoint cp uids)" "map im_ID ms = map itoa us"
      "next = (if foldl max (parseCheckpointUID cp) us > parseCheckpointUID cp
               then itoa (foldl max (parseCheckpointUID cp) us) else cp)"
      by (elim exE conjE) (auto simp: Un_def subset_iff)
    have b: "\<forall>u\<in>set us. parseCheckpointUID cp < u \<and> u < 2 ^ 32"
      using us(1) assms(2) [unfolded uids_32bit_def, rule_format, OF u] by (auto simp: past_checkpoint_def)
    let ?m = "foldl max (parseCheckpointUID cp) us"
    have m: "?m = Max (insert (parseCheckpointUID cp) (set us))" by (simp add: foldl_max)
    show ?thesis
    proof (cases "us = []")
      case True
      then show ?thesis using us(2,3) by simp
    next
      case False
      have ge: "\<forall>u\<in>set us. u \<le> ?m" unfolding m by simp
      have "?m \<in> insert (parseCheckpointUID cp) (set us)" unfolding m by (rule Max_in) auto
      moreover have "parseCheckpointUID cp < ?m" using False b ge by (cases us) fastforce+
      ultimately have lt: "parseCheckpointUID cp < ?m" "?m < 2 ^ 63" using b by fastforce+
      then have "parseCheckpointUID next = ?m"
        using us(3) parse_itoa [of ?m] parse_nonneg [of cp] by simp
      then show ?thesis using us(2) b ge lt by (intro exI [of _ us]) auto
    qed
  qed auto
qed

text \<open>A mailbox for worked examples: its UIDs, none seen, those over the limit, and the UIDs fetched so far.\<close>

definition example_email :: imap_email where
  "example_email = \<lparr>em_Flags = [''Work''], em_Sent = Some 0, em_Received = None, em_Subject = '' hi '', em_From = ''a@b'',
     em_To = ''c@d'', em_CC = '''', em_BCC = '''', em_Text = ''text'', em_HTML = '''', em_Attachments = []\<rparr>"

definition example_dialer :: "int list \<Rightarrow> int list \<Rightarrow> int list dialer" where
  "example_dialer uids large =
    (let ok = (\<lambda>d. (Inr (), d)) in
    \<lparr>dl_config = \<lambda>_. Inr None, dl_connect = \<lambda>_ _ _ _. ok, dl_SelectFolder = \<lambda>_. ok, dl_Reconnect = ok,
     dl_GetUIDs = \<lambda>_ d. (Inr uids, d), dl_GetLastNUIDs = \<lambda>n d. (Inr (keep_last (nat n) uids), d),
     dl_SearchUIDs = \<lambda>_ d. (Inr large, d), dl_GetOverviews = \<lambda>_ d. (Inr (\<lambda>_. Some example_email), d),
     dl_GetEmails = \<lambda>us d. (Inr (\<lambda>_. Some example_email), us @ d), dl_GetFolders = \<lambda>d. (Inr [''INBOX''], d),
     dl_SetKeyword = \<lambda>_ _ _. ok, dl_MarkSeen = \<lambda>_. ok, dl_MoveEmail = \<lambda>_ _. ok, dl_DeleteEmail = \<lambda>_. ok,
     dl_CreateFolder = \<lambda>_. ok, dl_RenameFolder = \<lambda>_ _. ok, dl_DeleteFolder = \<lambda>_. ok, dl_Append = \<lambda>_ _ _. ok\<rparr>)"

definition example_client :: "int list imap_world" where
  "example_client = \<lparr>ic_connected = False, ic_host = ''h'', ic_port = 993, ic_username = ''u'', ic_password = ''p'',
     ic_mailbox = ''INBOX'', ic_server = []\<rparr>"

section \<open>Properties\<close>

text \<open>
  A message whose size the server reports as over the limit is never fetched with its body, by
  the poll and by the fetching of bodies: whatever holds of the server and can only be broken by
  fetching such a message still holds afterwards.
\<close>

theorem oversized_never_fetched:
  assumes "looks_keep I D" "\<And>us. \<forall>u\<in>set us. \<not> big u \<Longrightarrow> keeps_cmd I (dl_GetEmails D us)"
    and "search_reports big D KeyUnseen {u. parseCheckpointUID cp < u}"
    and "search_reports big D (KeyUID (uidSetCriteria uids)) (set uids)"
    and "I (ic_server w)"
  shows "I (ic_server (snd (ListUnreadInbox D fmt ctx cp w))) \<and>
    I (ic_server (snd (GetMessageBodies D isPGP ctx mailbox uids w)))"
  using ListUnreadInbox_keeps [OF assms(1,3,2)] GetMessageBodies_keeps [OF assms(1,4,2)] assms(5)
  by (simp add: keeps_op_def)

lemma example_looks: "looks_keep I (example_dialer uids large)"
  by (simp add: looks_keep_def example_dialer_def keeps_cmd_def Let_def)

theorem oversized_never_fetched_witness:
  "7 \<notin> set (ic_server (snd (ListUnreadInbox (example_dialer [5, 7, 9] [7]) itoa (\<lambda>_. None) '''' example_client)))"
proof -
  have "keeps_cmd (\<lambda>d. 7 \<notin> set d) (dl_GetEmails (example_dialer [5, 7, 9] [7]) us)" if "\<forall>u\<in>set us. u \<noteq> 7" for us
    using that by (auto simp: keeps_cmd_def example_dialer_def Let_def)
  moreover have "search_reports (\<lambda>u. u = 7) (example_dialer [5, 7, 9] [7]) key us" for key us
    by (auto simp: search_reports_def example_dialer_def Let_def)
  moreover have "7 \<notin> set (ic_server example_client)" by (simp add: example_client_def)
  ultimately show ?thesis
    using oversized_never_fetched [of "\<lambda>d. 7 \<notin> set d" "example_dialer [5, 7, 9] [7]" "\<lambda>u. u = 7"] example_looks
    by blast
qed

lemma inbox_ids_disjoint:
  assumes "uids_32bit D" "uids_32bit D'"
    and "ListUnreadInbox D fmt ctx cp w = (Inr (ms, next), w1)"
    and "parseCheckpointUID next \<le> parseCheckpointUID later"
    and "ListUnreadInbox D' fmt' ctx' later w' = (Inr (ms', next'), w1')"
  shows "set (map im_ID ms) \<inter> set (map im_ID ms') = {} \<and> parseCheckpointUID later \<le> parseCheckpointUID next'"
proof -
  have inj: "itoa a = itoa b \<Longrightarrow> a = b" if "0 < a" "a < 2 ^ 63" "0 < b" "b < 2 ^ 63" for a b
    using that parse_itoa by (metis less_imp_le)
  obtain us where us: "map im_ID ms = map itoa us"
    "\<forall>u\<in>set us. parseCheckpointUID cp < u \<and> u \<le> parseCheckpointUID next"
    using ListUnreadInbox_ids [OF assms(3,1)] by blast
  obtain vs where vs: "map im_ID ms' = map itoa vs"
    "\<forall>v\<in>set vs. parseCheckpointUID later < v \<and> v \<le> parseCheckpointUID next'"
    "parseCheckpointUID later \<le> parseCheckpointUID next'"
    using ListUnreadInbox_ids [OF assms(5,2)] by blast
  have "itoa u \<noteq> itoa v" if "u \<in> set us" "v \<in> set vs" for u v
  proof -
    have "0 < u" "u < v" "v < 2 ^ 63"
      using us(2) vs(2) that assms(4) parse_nonneg [of cp] parse_less [of next'] by fastforce+
    then show ?thesis using inj [of u v] by auto
  qed
  then show ?thesis unfolding us(1) vs(1) using vs(3) by auto
qed

text \<open>
  The poll hands out a message at most once: what it returned for a checkpoint it does not
  return again for the checkpoint it gave, nor for any later one.
\<close>

theorem inbox_message_once:
  assumes "uids_32bit D" "uids_32bit D'"
    and "ListUnreadInbox D fmt ctx cp w = (Inr (ms, next), w1)"
    and "parseCheckpointUID next \<le> parseCheckpointUID later"
    and "ListUnreadInbox D' fmt' ctx' later w' = (Inr (ms', next'), w1')"
  shows "set (map im_ID ms) \<inter> set (map im_ID ms') = {} \<and> parseCheckpointUID later \<le> parseCheckpointUID next'"
  using assms by (rule inbox_ids_disjoint)

theorem inbox_message_once_witness:
  "(case ListUnreadInbox (example_dialer [5, 7] []) itoa (\<lambda>_. None) '''' example_client of
     (Inr (ms, next), w1) \<Rightarrow>
       (case ListUnreadInbox (example_dialer [5, 7, 9] []) itoa (\<lambda>_. None) next w1 of
          (Inr (ms', next'), _) \<Rightarrow> set (map im_ID ms) = {''5'', ''7''} \<and> {''5'', ''7''} \<inter> set (map im_ID ms') = {}
        | _ \<Rightarrow> False)
   | _ \<Rightarrow> False)"
proof -
  have b: "uids_32bit (example_dialer [5, 7] [])" "uids_32bit (example_dialer [5, 7, 9] [])"
    by (auto simp: uids_32bit_def example_dialer_def Let_def)
  let ?a = "ListUnreadInbox (example_dialer [5, 7] []) itoa (\<lambda>_. None) '''' example_client"
  have run: "case ?a of (Inr (ms, next), w1) \<Rightarrow> map im_ID ms = [''5'', ''7''] \<and>
      (case ListUnreadInbox (example_dialer [5, 7, 9] []) itoa (\<lambda>_. None) next w1 of (Inr _, _) \<Rightarrow> True | _ \<Rightarrow> False)
    | _ \<Rightarrow> False"
    by code_simp
  obtain ms "next" w1 ms' next' w1' where 1: "?a = (Inr (ms, next), w1)" "map im_ID ms = [''5'', ''7'']"
    and 2: "ListUnreadInbox (example_dialer [5, 7, 9] []) itoa (\<lambda>_. None) next w1 = (Inr (ms', next'), w1')"
  proof -
    obtain r w1 where a: "?a = (r, w1)" by fastforce
    then obtain ms "next" where r: "r = Inr (ms, next)" using run by (cases r) auto
    obtain r' w1' where b: "ListUnreadInbox (example_dialer [5, 7, 9] []) itoa (\<lambda>_. None) next w1 = (r', w1')" by fastforce
    then obtain ms' next' where "r' = Inr (ms', next')" using run a r by (cases r') auto
    with a b r run that show ?thesis by simp
  qed
  have "set (map im_ID ms) = {''5'', ''7''}" unfolding 1(2) by simp
  with inbox_message_once [OF b 1(1) order_refl 2] show ?thesis unfolding 1(1) using 2 by simp
qed

end
