(* ===== verification/Poller_Text.thy ===== *)
theory Poller_Text
  imports Classifier State_Store Imap_Client Rules_Engine
begin

text \<open>
  The decisions of the poller (backend/internal/processor/poller.go) that need no state: which
  keywords a label stands for, whether a message is worth a notification and what it says, which
  failures are permanent, the rate limit, and the texts that are recorded.
\<close>

section \<open>Configuration\<close>

text \<open>
  What the poller reads of the global configuration; the keyword mappings in the order in which the
  runtime iterates the map.
\<close>

record poll_config =
  pc_Allowlist :: "string list"
  pc_KeywordMappings :: "(string \<times> string list) list"
  pc_PerMinute :: int
  pc_PerHour :: int
  pc_PrivateKeyPath :: string
  pc_PublicKey :: string

record notification_settings =
  ns_Mode :: string
  ns_Keywords :: "string list"

section \<open>Labels and keywords\<close>

definition disabledLabelingFallback :: "string list \<Rightarrow> string" where
  "disabledLabelingFallback allowlist =
    (case List.find (\<lambda>l. equal_fold (trim_space l) ''Primary'') allowlist of
       Some label \<Rightarrow> trim_space label
     | None \<Rightarrow> (case allowlist of l # _ \<Rightarrow> trim_space l | [] \<Rightarrow> ''Primary''))"

text \<open>The loop at the end of keywordsForSelectedLabel: the first spelling of each keyword.\<close>

fun unique_keywords :: "string set \<Rightarrow> string list \<Rightarrow> string list" where
  "unique_keywords seen [] = []"
| "unique_keywords seen (keyword # rest) =
    (let key = to_lower (trim_space keyword) in
     if key = '''' \<or> key \<in> seen then unique_keywords seen rest
     else trim_space keyword # unique_keywords (insert key seen) rest)"

definition keywordsForSelectedLabel :: "string \<Rightarrow> (string \<times> string list) list \<Rightarrow> string list" where
  "keywordsForSelectedLabel label mappings =
    (let base = trim_space label in
     if base = '''' then []
     else
       (let mapped = (case List.find (\<lambda>(l, _). equal_fold (trim_space l) base) mappings of
              Some (_, ks) \<Rightarrow> filter (\<lambda>k. k \<noteq> '''') (map trim_space ks) | None \<Rightarrow> [])
        in unique_keywords {} (base # mapped)))"

section \<open>Notifications\<close>

definition shouldSendNotification :: "notification_settings \<Rightarrow> string \<Rightarrow> string list \<Rightarrow> bool" where
  "shouldSendNotification settings selectedLabel messageKeywords =
    (let mode = to_lower (trim_space (ns_Mode settings)) in
     if mode = ''none'' \<or> mode = '''' then False
     else if mode = ''all'' then True
     else if mode = ''keywords'' then
       (let selected = trim_space selectedLabel;
            kws = (if selected \<noteq> '''' then selected # messageKeywords else messageKeywords);
            clean = (\<lambda>k. to_lower (trim_space k));
            enabled = filter (\<lambda>k. k \<noteq> '''') (map clean (ns_Keywords settings))
        in if enabled = [] then False
           else list_ex (\<lambda>k. clean k \<noteq> '''' \<and> clean k \<in> set enabled) kws)
     else False)"

definition buildNotificationBody :: "inbox_message \<Rightarrow> string" where
  "buildNotificationBody msg =
    (let from_addr = trim_space (im_Sender msg); subject = trim_space (im_Subject msg) in
     if from_addr = '''' \<and> subject = '''' then ''You have a new email.''
     else if from_addr = '''' then ''Subject: '' @ subject
     else if subject = '''' then ''From: '' @ from_addr
     else ''From '' @ from_addr @ '': '' @ subject)"

definition buildNativeNotificationText :: "inbox_message \<Rightarrow> string \<times> string" where
  "buildNativeNotificationText msg =
    (let from_addr = trim_space (im_Sender msg); subject = trim_space (im_Subject msg) in
     (if from_addr = '''' then ''New Email'' else from_addr,
      if subject = '''' then ''You have a new email.'' else subject))"

definition buildNativePushData :: "inbox_message \<Rightarrow> string list \<Rightarrow> string \<Rightarrow> string \<Rightarrow> (string \<times> string) list" where
  "buildNativePushData msg messageKeywords title body =
    [(''messageId'', trim_space (im_ID msg)), (''sender'', trim_space (im_Sender msg)),
     (''subject'', trim_space (im_Subject msg)), (''senderName'', trim_space (im_Sender msg)),
     (''emailSubject'', trim_space (im_Subject msg)), (''Keywords'', str_join '','' messageKeywords),
     (''title'', title), (''body'', body), (''url'', ''/read'')]"

text \<open>\<open>url.Values.Encode\<close> for the link of a notification; the keys come out sorted.\<close>

definition url_unreserved :: "char \<Rightarrow> bool" where
  "url_unreserved c \<longleftrightarrow>
    (let n = of_char c :: nat in 48 \<le> n \<and> n \<le> 57 \<or> 65 \<le> n \<and> n \<le> 90 \<or> 97 \<le> n \<and> n \<le> 122) \<or> c \<in> set ''-_.~''"

definition query_escape :: "string \<Rightarrow> string" where
  "query_escape s = concat (map (\<lambda>c. if url_unreserved c then [c] else if c = CHR '' '' then ''+''
     else (let n = of_char c :: nat in [CHR ''%'', ''0123456789ABCDEF'' ! (n div 16), ''0123456789ABCDEF'' ! (n mod 16)])) s)"

definition message_link :: "inbox_message \<Rightarrow> string \<Rightarrow> string" where
  "message_link msg selectedLabel =
    (let tab = trim_space selectedLabel in
     ''/read?message='' @ query_escape (trim_space (im_ID msg)) @
     (if tab \<noteq> '''' then ''&tab='' @ query_escape tab else ''''))"

section \<open>Failures\<close>

definition isAICreditsExhaustedError :: "string \<Rightarrow> bool" where
  "isAICreditsExhaustedError err =
    (let msg = to_lower err in str_contains msg ''out of ai credits'' \<or> str_contains msg ''weekly chat limit'')"

definition isPermanentClassifierError :: "string \<Rightarrow> bool" where
  "isPermanentClassifierError err =
    (let msg = to_lower (trim_space err) in
     str_contains msg ''422'' \<or> str_contains msg ''invalid input'' \<or> str_contains msg ''unprocessable'' \<or>
     isAICreditsExhaustedError err)"

text \<open>The error of handleMessage: wrapped as a classifier error, or any other.\<close>

datatype message_error = ClassifierErr string | OtherErr string

fun error_text :: "message_error \<Rightarrow> string" where
  "error_text (ClassifierErr s) = s"
| "error_text (OtherErr s) = s"

fun shouldMarkProcessedOnError :: "message_error \<Rightarrow> bool" where
  "shouldMarkProcessedOnError (ClassifierErr err) = isPermanentClassifierError err"
| "shouldMarkProcessedOnError (OtherErr err) = True"

section \<open>The rate limit\<close>

text \<open>The times of one user's messages within the last hour; a message is allowed or deferred.\<close>

definition allow_window :: "poll_config \<Rightarrow> int \<Rightarrow> int list \<Rightarrow> bool \<times> int list" where
  "allow_window cfg now window =
    (let trimmed = filter (\<lambda>t. t > now - 1 * hour) window;
         minuteCount = int (length (filter (\<lambda>t. t > now - 1 * minute) trimmed))
     in if minuteCount \<ge> pc_PerMinute cfg \<or> int (length trimmed) \<ge> pc_PerHour cfg then (False, trimmed)
        else (True, trimmed @ [now]))"

definition allowByRate ::
  "poll_config \<Rightarrow> int \<Rightarrow> string \<Rightarrow> (string \<Rightarrow> int list) \<Rightarrow> bool \<times> (string \<Rightarrow> int list)" where
  "allowByRate cfg now userID rate =
    (case allow_window cfg now (rate userID) of (ok, window) \<Rightarrow> (ok, rate(userID := window)))"

section \<open>Context for the classifier\<close>

definition arrow :: string where
  "arrow = [CHR 0xE2, CHR 0x86, CHR 0x92]"

definition decision_line :: "decision \<Rightarrow> string" where
  "decision_line d =
    ''- From: '' @ d_Sender d @ (if d_Subject d \<noteq> '''' then '', Subject: '' @ d_Subject d else '''') @
    '' '' @ arrow @ '' Label: '' @ d_Label d @ newline"

definition recentDecisionsContext :: "nat \<Rightarrow> state_world \<Rightarrow> string" where
  "recentDecisionsContext limit w =
    (let applied = take limit (filter (\<lambda>d. d_Status d = ''applied'' \<and> d_Label d \<noteq> '''') (Decisions 50 w)) in
     if applied = [] then ''''
     else
       (let text = ''Recent labeling decisions for reference:'' @ newline @ concat (map decision_line applied)
        in rev (dropWhile (\<lambda>c. c = CHR 0x0A) (rev text))))"

definition classifier_body :: "(string \<Rightarrow> string) \<Rightarrow> inbox_message \<Rightarrow> state_world \<Rightarrow> string" where
  "classifier_body redact msg w =
    (let redacted = redact (take 2000 (trim_space (im_Body msg))); ctx = recentDecisionsContext 10 w in
     if ctx = '''' then redacted
     else if redacted \<noteq> '''' then redacted @ newline @ ''---'' @ newline @ ctx
     else ctx)"

section \<open>Records\<close>

definition decision_for :: "inbox_message \<Rightarrow> string \<Rightarrow> string \<Rightarrow> string \<Rightarrow> decision" where
  "decision_for msg label status detail =
    \<lparr>d_MessageID = im_ID msg, d_Sender = im_Sender msg, d_SentTo = im_SentTo msg, d_Subject = im_Subject msg,
     d_Label = label, d_Status = status, d_Detail = detail, d_AtUTC = ''''\<rparr>"

text \<open>The value strconv.Atoi returns beside its error: 0, or the nearest int when out of range.\<close>

definition atoi_value :: "string \<Rightarrow> int" where
  "atoi_value s =
    (case atoi s of
       Some n \<Rightarrow> n
     | None \<Rightarrow>
        (let neg = prefix ''-'' s; ds = (if neg \<or> prefix ''+'' s then tl s else s)
         in if ds = [] \<or> dec_value 0 ds = None then 0 else if neg then - (2 ^ 63) else 2 ^ 63 - 1))"

definition rule_input :: "inbox_message \<Rightarrow> eval_input" where
  "rule_input msg =
    \<lparr>ei_UID = atoi_value (trim_space (im_ID msg)), ei_MessageID = im_ID msg,
     ei_From = im_Sender msg, ei_To = im_SentTo msg, ei_CC = im_CC msg, ei_BCC = im_BCC msg,
     ei_Subject = im_Subject msg, ei_Body = im_Body msg, ei_Keywords = im_Keywords msg, ei_Folder = ''INBOX''\<rparr>"

definition rules_detail :: "string list \<Rightarrow> action_result list \<Rightarrow> string" where
  "rules_detail matched results =
    (let failures = List.map_filter (\<lambda>r. map_option (\<lambda>err. a_Type (ar_Action r) @ '': '' @ err) (ar_Err r)) results in
     ''rule(s) applied: '' @ str_join '', '' matched @
     (if failures \<noteq> []
      then ''; '' @ itoa (int (length failures)) @ '' action(s) failed: '' @ str_join ''; '' failures else ''''))"
section \<open>Lemmas\<close>

lemma unique_keywords_spec:
  "distinct (map to_lower (unique_keywords seen ks)) \<and> (\<forall>k\<in>set (unique_keywords seen ks). to_lower k \<notin> seen \<and> k \<in> trim_space ` set ks)"
proof (induction ks arbitrary: seen)
  case (Cons k ks)
  let ?key = "to_lower (trim_space k)"
  show ?case
  proof (cases "?key = '''' \<or> ?key \<in> seen")
    case True
    then have "unique_keywords seen (k # ks) = unique_keywords seen ks" by (simp add: Let_def)
    then show ?thesis using Cons.IH [of seen] by auto
  next
    case False
    then have "unique_keywords seen (k # ks) = trim_space k # unique_keywords (insert ?key seen) ks" by (simp add: Let_def)
    then show ?thesis using Cons.IH [of "insert ?key seen"] False by auto
  qed
qed simp

lemma keywords_of_label:
  assumes "k \<in> set (keywordsForSelectedLabel label mappings)"
  shows "k = trim_space label \<or>
    (\<exists>l ks. (l, ks) \<in> set mappings \<and> equal_fold (trim_space l) (trim_space label) \<and> k \<in> trim_space ` set ks)"
proof -
  define mapped where "mapped = (case List.find (\<lambda>(l, _). equal_fold (trim_space l) (trim_space label)) mappings of
    Some (_, ks) \<Rightarrow> filter (\<lambda>k. k \<noteq> '''') (map trim_space ks) | None \<Rightarrow> [])"
  have trim: "trim_space (trim_space s) = trim_space s" for s by simp
  have "k \<in> trim_space ` set (trim_space label # mapped)"
    using assms unique_keywords_spec [of "{}" "trim_space label # mapped"]
    unfolding keywordsForSelectedLabel_def Let_def mapped_def [symmetric] by (auto simp del: unique_keywords.simps split: if_splits)
  then consider "k = trim_space label" | x where "x \<in> set mapped" "k = trim_space x" by (auto simp: trim)
  then show ?thesis
  proof cases
    case 2
    then obtain l ks where f: "List.find (\<lambda>(l, _). equal_fold (trim_space l) (trim_space label)) mappings = Some (l, ks)"
      and x: "x \<in> trim_space ` set ks"
      unfolding mapped_def
      by (cases "List.find (\<lambda>(l, _). equal_fold (trim_space l) (trim_space label)) mappings") auto
    then have "k \<in> trim_space ` set ks" using 2 trim by auto
    moreover have "(l, ks) \<in> set mappings \<and> equal_fold (trim_space l) (trim_space label)" using find_SomeD [OF f] by simp
    ultimately show ?thesis by blast
  qed simp
qed

text \<open>
  A run of the rate limiter: the stored windows, and beside them the times of every message of each
  user that was allowed.
\<close>

definition rate_step ::
  "poll_config \<Rightarrow> (string \<Rightarrow> int list) \<times> (string \<Rightarrow> int list) \<Rightarrow> string \<times> int \<Rightarrow> (string \<Rightarrow> int list) \<times> (string \<Rightarrow> int list)" where
  "rate_step cfg st call =
    (case call of (u, now) \<Rightarrow>
      (case allowByRate cfg now u (fst st) of
         (ok, rate) \<Rightarrow> (rate, if ok then (snd st)(u := snd st u @ [now]) else snd st)))"

definition rate_run :: "poll_config \<Rightarrow> (string \<times> int) list \<Rightarrow> (string \<Rightarrow> int list) \<times> (string \<Rightarrow> int list)" where
  "rate_run cfg calls = foldl (rate_step cfg) (\<lambda>_. [], \<lambda>_. []) calls"

definition within :: "int \<Rightarrow> int \<Rightarrow> int list \<Rightarrow> int list" where
  "within d s ts = filter (\<lambda>t. s - d < t \<and> t \<le> s) ts"

definition rate_inv :: "poll_config \<Rightarrow> int \<Rightarrow> int list \<Rightarrow> int list \<Rightarrow> bool" where
  "rate_inv cfg n window allowed \<longleftrightarrow> (\<forall>t\<in>set allowed. t \<le> n) \<and>
    (\<forall>now\<ge>n. filter (\<lambda>t. t > now - 1 * hour) window = filter (\<lambda>t. t > now - 1 * hour) allowed) \<and>
    (\<forall>s. length (within minute s allowed) \<le> nat (pc_PerMinute cfg) \<and> length (within hour s allowed) \<le> nat (pc_PerHour cfg))"

lemma rate_inv_later: "rate_inv cfg n window allowed \<Longrightarrow> n \<le> m \<Longrightarrow> rate_inv cfg m window allowed"
  unfolding rate_inv_def by fastforce

lemma within_snoc:
  assumes "\<forall>t\<in>set ts. t \<le> now" "length (filter (\<lambda>t. t > now - d) ts) < k" "length (within d s ts) \<le> k"
  shows "length (within d s (ts @ [now])) \<le> k"
proof (cases "now \<le> s")
  case True
  have "length (within d s ts) \<le> length (filter (\<lambda>t. t > now - d) ts)"
    unfolding within_def length_filter_conv_card using True by (intro card_mono) auto
  then show ?thesis using assms(2) by (simp add: within_def)
next
  case False
  then show ?thesis using assms(3) by (simp add: within_def)
qed

lemma allow_window_inv:
  assumes "rate_inv cfg now window allowed" "allow_window cfg now window = (ok, window')"
  shows "rate_inv cfg now window' (if ok then allowed @ [now] else allowed)"
proof -
  let ?h = "filter (\<lambda>t. t > now - 1 * hour)"
  have same: "?h window = ?h allowed" and le: "\<forall>t\<in>set allowed. t \<le> now"
    and later: "\<And>m. now \<le> m \<Longrightarrow> filter (\<lambda>t. t > m - 1 * hour) window = filter (\<lambda>t. t > m - 1 * hour) allowed"
    and cnt: "\<And>s. length (within minute s allowed) \<le> nat (pc_PerMinute cfg)"
      "\<And>s. length (within hour s allowed) \<le> nat (pc_PerHour cfg)"
    using assms(1) unfolding rate_inv_def by auto
  have keep: "filter (\<lambda>t. t > m - 1 * hour) (?h window) = filter (\<lambda>t. t > m - 1 * hour) allowed" if "now \<le> m" for m
    using later [OF that] that by (simp add: conj_commute cong: conj_cong)
  have minutes: "filter (\<lambda>t. t > now - 1 * minute) (?h window) = filter (\<lambda>t. t > now - minute) allowed"
    unfolding same filter_filter by (rule filter_cong) auto
  show ?thesis
  proof (cases ok)
    case True
    have w: "window' = ?h window @ [now]" and
      lt: "int (length (filter (\<lambda>t. t > now - minute) allowed)) < pc_PerMinute cfg"
      "int (length (?h allowed)) < pc_PerHour cfg"
      using assms(2) True minutes same unfolding allow_window_def Let_def by (auto split: if_splits)
    have "length (within minute s (allowed @ [now])) \<le> nat (pc_PerMinute cfg)" for s
      by (rule within_snoc [OF le _ cnt(1)]) (use lt(1) in linarith)
    moreover have "length (within hour s (allowed @ [now])) \<le> nat (pc_PerHour cfg)" for s
      by (rule within_snoc [OF le _ cnt(2)]) (use lt(2) in simp)
    ultimately show ?thesis using True le keep unfolding rate_inv_def w by auto
  next
    case False
    then have "window' = ?h window" using assms(2) unfolding allow_window_def Let_def by (auto split: if_splits)
    then show ?thesis using False le keep cnt unfolding rate_inv_def by auto
  qed
qed

lemma rate_run_inv:
  assumes "sorted (map snd calls)" "\<forall>c\<in>set calls. snd c \<le> n"
  shows "rate_inv cfg n (fst (rate_run cfg calls) u) (snd (rate_run cfg calls) u)"
  using assms
proof (induction calls arbitrary: n rule: rev_induct)
  case Nil
  then show ?case by (simp add: rate_run_def rate_inv_def within_def)
next
  case (snoc c calls)
  obtain v now where c: "c = (v, now)" by (cases c)
  have "\<forall>c\<in>set calls. snd c \<le> now" "sorted (map snd calls)" "now \<le> n"
    using snoc.prems c by (auto simp: sorted_append)
  then have I: "rate_inv cfg now (fst (rate_run cfg calls) u) (snd (rate_run cfg calls) u)" using snoc.IH by blast
  have step: "rate_run cfg (calls @ [c]) = rate_step cfg (rate_run cfg calls) c" by (simp add: rate_run_def)
  obtain ok window' where a: "allow_window cfg now (fst (rate_run cfg calls) v) = (ok, window')" by fastforce
  have "rate_inv cfg now (fst (rate_run cfg (calls @ [c])) u) (snd (rate_run cfg (calls @ [c])) u)"
  proof (cases "u = v")
    case True
    have "rate_inv cfg now window' (if ok then snd (rate_run cfg calls) u @ [now] else snd (rate_run cfg calls) u)"
      by (rule allow_window_inv [OF I]) (simp add: a True)
    then show ?thesis using a True unfolding step by (cases ok) (simp_all add: rate_step_def c allowByRate_def)
  next
    case False
    then show ?thesis using I a unfolding step by (simp add: rate_step_def c allowByRate_def)
  qed
  with \<open>now \<le> n\<close> show ?case by (rule rate_inv_later [rotated])
qed

section \<open>Properties\<close>

text \<open>
  C25: In any run of the rate limiter whose clock does not go back, no user has more messages
  allowed within any minute, or within any hour, than the policy says, whatever the other users do.
\<close>

theorem rate_limit_respected:
  assumes "sorted (map snd calls)"
  shows "length (within minute s (snd (rate_run cfg calls) u)) \<le> nat (pc_PerMinute cfg) \<and>
    length (within hour s (snd (rate_run cfg calls) u)) \<le> nat (pc_PerHour cfg)"
proof -
  have "\<forall>c\<in>set calls. snd c \<le> (if calls = [] then 0 else last (map snd calls))"
  proof (cases calls rule: rev_exhaust)
    case (snoc cs c)
    then show ?thesis using assms by (auto simp: sorted_append)
  qed simp
  from rate_run_inv [OF assms this] show ?thesis unfolding rate_inv_def by blast
qed

definition sample_config :: poll_config where
  "sample_config = \<lparr>pc_Allowlist = [''Work'', ''Home''], pc_KeywordMappings = [(''work'', [''job'', '' Work''])],
     pc_PerMinute = 2, pc_PerHour = 3, pc_PrivateKeyPath = '''', pc_PublicKey = ''''\<rparr>"

theorem rate_limit_respected_witness:
  "let calls = [(''a'', 0), (''a'', 1), (''a'', 2), (''b'', 2), (''a'', 2 * minute), (''a'', 3 * minute)] in
   snd (rate_run sample_config calls) ''a'' = [0, 1, 2 * minute] \<and>
   length (within hour (3 * minute) (snd (rate_run sample_config calls) ''a'')) \<le> 3"
proof -
  let ?calls = "[(''a'', 0), (''a'', 1), (''a'', 2), (''b'', 2), (''a'', 2 * minute), (''a'', 3 * minute)]"
  have "snd (rate_run sample_config ?calls) ''a'' = [0, 1, 2 * minute]"
    by (simp add: rate_run_def rate_step_def allowByRate_def allow_window_def Let_def sample_config_def)
  moreover have "nat (pc_PerHour sample_config) = 3" by (simp add: sample_config_def)
  ultimately show ?thesis
    using rate_limit_respected [of ?calls "3 * minute" sample_config "''a''"] by (simp add: Let_def)
qed

text \<open>
  A transient failure counts as permanent when its text has 422 in it, for instance in the port of a
  model server that cannot be reached.
\<close>

lemma port_counts_as_permanent: "isPermanentClassifierError ''dial tcp 10.0.0.2:14220: connection refused''"
  by code_simp

end
