(* ===== verification/Health.thy ===== *)
theory Health
  imports Go_Prelude
begin

text \<open>
  The health service (backend/internal/health/service.go): the status the container's health
  check reads, and beside it two flags that outlive every change of the status, for used up AI
  credits and for a failing push relay. A method reads the clock once.
\<close>

record health_status =
  hs_Healthy :: bool
  hs_UnhealthyFor :: int
  hs_LastCheckUTC :: string
  hs_FailureReason :: "string list"
  hs_AICreditsExhausted :: bool
  hs_AICreditsExhaustedAt :: string
  hs_NativePushFailing :: bool
  hs_NativePushLastError :: string
  hs_NativePushFailingAt :: string
  hs_NativePushLastSuccess :: string

record health_service =
  hv_status :: health_status
  hv_unhealthySince :: "int option"
  hv_aiCreditsExhausted :: bool
  hv_aiCreditsExhaustedAt :: string
  hv_nativePushFailing :: bool
  hv_nativePushLastError :: string
  hv_nativePushFailingAt :: string
  hv_nativePushLastSuccess :: string

text \<open>The status a composite literal gives that names two fields.\<close>

definition status_literal :: "bool \<Rightarrow> string list \<Rightarrow> health_status" where
  "status_literal healthy reasons =
    \<lparr>hs_Healthy = healthy, hs_UnhealthyFor = 0, hs_LastCheckUTC = '''', hs_FailureReason = reasons,
     hs_AICreditsExhausted = False, hs_AICreditsExhaustedAt = '''', hs_NativePushFailing = False,
     hs_NativePushLastError = '''', hs_NativePushFailingAt = '''', hs_NativePushLastSuccess = ''''\<rparr>"

definition NewService :: "go_env \<Rightarrow> health_service" where
  "NewService e =
    \<lparr>hv_status = (status_literal True [])\<lparr>hs_LastCheckUTC := stamp e\<rparr>, hv_unhealthySince = None,
     hv_aiCreditsExhausted = False, hv_aiCreditsExhaustedAt = '''', hv_nativePushFailing = False,
     hv_nativePushLastError = '''', hv_nativePushFailingAt = '''', hv_nativePushLastSuccess = ''''\<rparr>"

text \<open>Whole seconds since an instant, cut towards zero.\<close>

definition seconds_since :: "go_env \<Rightarrow> int \<Rightarrow> int" where
  "seconds_since e t = (if env_now e < t then - ((t - env_now e) div second) else (env_now e - t) div second)"

definition SetStatus :: "go_env \<Rightarrow> health_status \<Rightarrow> health_service \<Rightarrow> health_service" where
  "SetStatus e st s =
    (let since = (if hs_Healthy st then None
                  else if hv_unhealthySince s = None then Some (env_now e) else hv_unhealthySince s);
         st1 = st\<lparr>hs_LastCheckUTC := stamp e,
                  hs_UnhealthyFor := (case since of Some t \<Rightarrow> seconds_since e t
                    | None \<Rightarrow> if hs_Healthy st then 0 else hs_UnhealthyFor st)\<rparr>
     in s\<lparr>hv_status := st1, hv_unhealthySince := since\<rparr>)"

definition MarkHealthy :: "go_env \<Rightarrow> health_service \<Rightarrow> health_service" where
  "MarkHealthy e = SetStatus e (status_literal True [])"

definition MarkUnhealthy :: "go_env \<Rightarrow> string list \<Rightarrow> health_service \<Rightarrow> health_service" where
  "MarkUnhealthy e reasons = SetStatus e (status_literal False reasons)"

definition GetStatus :: "go_env \<Rightarrow> health_service \<Rightarrow> health_status" where
  "GetStatus e s =
    (hv_status s)\<lparr>
      hs_UnhealthyFor := (case hv_unhealthySince s of Some t \<Rightarrow> seconds_since e t
                          | None \<Rightarrow> hs_UnhealthyFor (hv_status s)),
      hs_LastCheckUTC := stamp e,
      hs_AICreditsExhausted := hv_aiCreditsExhausted s,
      hs_AICreditsExhaustedAt := hv_aiCreditsExhaustedAt s,
      hs_NativePushFailing := hv_nativePushFailing s,
      hs_NativePushLastError := hv_nativePushLastError s,
      hs_NativePushFailingAt := hv_nativePushFailingAt s,
      hs_NativePushLastSuccess := hv_nativePushLastSuccess s\<rparr>"

definition health_SetAICreditsExhausted :: "string \<Rightarrow> health_service \<Rightarrow> health_service" where
  "health_SetAICreditsExhausted atUTC s =
    s\<lparr>hv_aiCreditsExhausted := True, hv_aiCreditsExhaustedAt := atUTC\<rparr>"

definition health_ClearAICreditsExhausted :: "health_service \<Rightarrow> health_service" where
  "health_ClearAICreditsExhausted s =
    s\<lparr>hv_aiCreditsExhausted := False, hv_aiCreditsExhaustedAt := ''''\<rparr>"

definition RecordNativePushSuccess :: "go_env \<Rightarrow> health_service \<Rightarrow> health_service" where
  "RecordNativePushSuccess e s =
    s\<lparr>hv_nativePushFailing := False, hv_nativePushLastError := '''', hv_nativePushFailingAt := '''',
      hv_nativePushLastSuccess := stamp e\<rparr>"

definition RecordNativePushFailure :: "go_env \<Rightarrow> string \<Rightarrow> health_service \<Rightarrow> health_service" where
  "RecordNativePushFailure e reason s =
    (if hv_nativePushFailing s then s
     else s\<lparr>hv_nativePushFailing := True, hv_nativePushFailingAt := stamp e\<rparr>)
    \<lparr>hv_nativePushLastError := reason\<rparr>"

section \<open>Runs of calls\<close>

datatype health_call =
  CallSetStatus health_status
| CallSetCredits string
| CallClearCredits
| CallPushSuccess
| CallPushFailure string

definition health_call :: "go_env \<times> health_call \<Rightarrow> health_service \<Rightarrow> health_service" where
  "health_call ec s =
    (case ec of (e, c) \<Rightarrow>
      (case c of
         CallSetStatus st \<Rightarrow> SetStatus e st s
       | CallSetCredits t \<Rightarrow> health_SetAICreditsExhausted t s
       | CallClearCredits \<Rightarrow> health_ClearAICreditsExhausted s
       | CallPushSuccess \<Rightarrow> RecordNativePushSuccess e s
       | CallPushFailure reason \<Rightarrow> RecordNativePushFailure e reason s))"

definition health_run :: "(go_env \<times> health_call) list \<Rightarrow> health_service \<Rightarrow> health_service" where
  "health_run cs s = fold health_call cs s"

text \<open>The calls after the last one that satisfies a test.\<close>

definition after_last :: "('a \<Rightarrow> bool) \<Rightarrow> 'a list \<Rightarrow> 'a list" where
  "after_last P xs = rev (takeWhile (\<lambda>x. \<not> P x) (rev xs))"

lemma after_last_snoc: "after_last P (xs @ [x]) = (if P x then [] else after_last P xs @ [x])"
  by (simp add: after_last_def)

definition push_failures :: "(go_env \<times> health_call) list \<Rightarrow> (go_env \<times> string) list" where
  "push_failures cs =
    List.map_filter (\<lambda>(e, c). case c of CallPushFailure r \<Rightarrow> Some (e, r) | _ \<Rightarrow> None)
      (after_last (\<lambda>(e, c). c = CallPushSuccess) cs)"

definition outages :: "(go_env \<times> health_call) list \<Rightarrow> go_env list" where
  "outages cs =
    List.map_filter (\<lambda>(e, c). case c of CallSetStatus st \<Rightarrow> Some e | _ \<Rightarrow> None)
      (after_last (\<lambda>(e, c). case c of CallSetStatus st \<Rightarrow> hs_Healthy st | _ \<Rightarrow> False) cs)"

lemma map_filter_snoc [simp]: "List.map_filter f (xs @ [x]) = List.map_filter f xs @ (case f x of None \<Rightarrow> [] | Some y \<Rightarrow> [y])"
  by (simp add: List.map_filter_def split: option.splits)

lemma push_failures_snoc:
  "push_failures (cs @ [(e, c)]) =
    (case c of CallPushSuccess \<Rightarrow> [] | CallPushFailure r \<Rightarrow> push_failures cs @ [(e, r)] | _ \<Rightarrow> push_failures cs)"
  by (simp add: push_failures_def after_last_snoc List.map_filter_def split: health_call.splits)

lemma outages_snoc:
  "outages (cs @ [(e, c)]) =
    (case c of CallSetStatus st \<Rightarrow> if hs_Healthy st then [] else outages cs @ [e] | _ \<Rightarrow> outages cs)"
  by (simp add: outages_def after_last_snoc List.map_filter_def split: health_call.splits)

lemmas health_defs = health_call_def SetStatus_def health_SetAICreditsExhausted_def
  health_ClearAICreditsExhausted_def RecordNativePushSuccess_def RecordNativePushFailure_def Let_def

lemma health_run_state:
  "hv_nativePushFailing (health_run cs (NewService e0)) = (push_failures cs \<noteq> []) \<and>
   hv_nativePushFailingAt (health_run cs (NewService e0)) =
     (case push_failures cs of [] \<Rightarrow> '''' | (e, _) # _ \<Rightarrow> stamp e) \<and>
   hv_nativePushLastError (health_run cs (NewService e0)) =
     (if push_failures cs = [] then '''' else snd (last (push_failures cs))) \<and>
   hv_unhealthySince (health_run cs (NewService e0)) =
     (case outages cs of [] \<Rightarrow> None | e # _ \<Rightarrow> Some (env_now e)) \<and>
   (outages cs = [] \<longrightarrow> hs_UnhealthyFor (hv_status (health_run cs (NewService e0))) = 0)"
proof (induction cs rule: rev_induct)
  case Nil
  then show ?case
    by (simp add: health_run_def NewService_def push_failures_def outages_def after_last_def
        List.map_filter_def status_literal_def)
next
  case (snoc x cs)
  obtain e c where x: "x = (e, c)" by (cases x)
  note IH = snoc.IH [unfolded health_run_def]
  show ?case
    using IH unfolding x health_run_def
    by (cases c) (auto simp: push_failures_snoc outages_snoc health_defs split: list.splits option.splits)
qed

section \<open>Properties\<close>

text \<open>
  In any run of the service's calls the push relay is reported as failing exactly when a
  failure was recorded after the last success, since the first such failure and with the reason of
  the latest, and the time of being unhealthy counts from the first of the unhealthy statuses that
  no healthy one followed; neither depends on the calls for the other or for the AI credits.
\<close>

theorem outages_counted_from_first:
  "hs_NativePushFailing (GetStatus e (health_run cs (NewService e0))) = (push_failures cs \<noteq> []) \<and>
   hs_NativePushFailingAt (GetStatus e (health_run cs (NewService e0))) =
     (case push_failures cs of [] \<Rightarrow> '''' | (e1, _) # _ \<Rightarrow> stamp e1) \<and>
   hs_NativePushLastError (GetStatus e (health_run cs (NewService e0))) =
     (if push_failures cs = [] then '''' else snd (last (push_failures cs))) \<and>
   hs_UnhealthyFor (GetStatus e (health_run cs (NewService e0))) =
     (case outages cs of [] \<Rightarrow> 0 | e1 # _ \<Rightarrow> seconds_since e (env_now e1))"
  using health_run_state [of cs e0] by (auto simp: GetStatus_def split: list.splits)

end
