(* ===== verification/Push_Dispatch.thy ===== *)
theory Push_Dispatch
  imports State_Store Health Go_Text
begin

text \<open>
  Push notifications (backend/internal/processor/push_dispatch.go and native_sender.go): the
  transport a device is served by, what counts as a stale token, and the dispatch to all browser
  subscriptions and to all native devices, with the pruning of stale ones and the relay's health.
  The network is a function from a request and its state to an outcome and its next state; web push
  encryption and the VAPID key file are parts of it. The error callback, which only logs, is left
  out.
\<close>

section \<open>Transports\<close>

record push_message =
  pm_Title :: string
  pm_Body :: string
  pm_Data :: "(string \<times> string) list"

record relay_sender =
  rs_relayURL :: string
  rs_apiKey :: string

record push_dispatcher =
  di_fcmSender :: "relay_sender option"
  di_apnsSender :: "relay_sender option"

datatype native_sender = Relay relay_sender | UnifiedPush

definition selectSender :: "push_dispatcher \<Rightarrow> native_device \<Rightarrow> string + native_sender" where
  "selectSender d device =
    (let given = to_lower (trim_space (nd_Transport device));
         platform = to_lower (trim_space (nd_Platform device));
         transport = (if given = '''' then (if platform = ''ios'' \<or> platform = ''macos'' then ''apns'' else ''fcm'')
                      else given)
     in if transport = ''unifiedpush'' then Inr UnifiedPush
        else if transport = ''apns'' then
          (case di_apnsSender d of Some s \<Rightarrow> Inr (Relay s) | None \<Rightarrow> Inl ''APNs relay not configured'')
        else if transport = ''fcm'' then
          (case di_fcmSender d of Some s \<Rightarrow> Inr (Relay s) | None \<Rightarrow> Inl ''FCM relay not configured'')
        else Inl (''unknown transport '' @ quoted transport))"

definition isRelayStaleResponse :: "nat \<Rightarrow> string \<Rightarrow> bool" where
  "isRelayStaleResponse statusCode response =
    (let lower = to_lower response in
     statusCode = 410 \<or>
     str_contains lower (quoted ''stale'' @ '':true'') \<or> str_contains lower (quoted ''stale'' @ '': true'') \<or>
     str_contains lower ''unregistered'' \<or> str_contains lower ''notregistered'' \<or>
     str_contains lower ''registration-token-not-registered'' \<or>
     statusCode = 404 \<and> str_contains lower ''requested entity was not found'')"

text \<open>A failed send: the token is stale (\<open>ErrNativeDeviceStale\<close>), or any other error.\<close>

datatype send_error = StaleToken string | SendFailed string

datatype push_request =
  RelaySend relay_sender string push_message string
| UnifiedPost string push_message

record webpush_options =
  wp_VAPIDPublicKey :: string
  wp_VAPIDPrivateKey :: string
  wp_TTL :: int

record web_payload =
  wl_title :: string
  wl_body :: string
  wl_url :: string
  wl_tag :: string

record 'n push_net =
  np_post :: "push_request \<Rightarrow> 'n \<Rightarrow> http_outcome \<times> 'n"
  np_webpush :: "web_payload \<Rightarrow> subscription \<Rightarrow> webpush_options \<Rightarrow> 'n \<Rightarrow> http_outcome \<times> 'n"
  np_vapidKey :: "string \<Rightarrow> 'n \<Rightarrow> string + string"

definition reply_text :: "nat \<Rightarrow> string \<Rightarrow> string" where
  "reply_text status raw = ''status='' @ itoa (int status) @ '' response='' @ trim_space (take 8192 raw)"

definition RelaySender_Send ::
  "'n push_net \<Rightarrow> relay_sender \<Rightarrow> native_device \<Rightarrow> push_message \<Rightarrow> 'n \<Rightarrow> send_error option \<times> 'n" where
  "RelaySender_Send net s device msg n =
    (let token = trim_space (nd_PushToken device) in
     if token = '''' then (Some (SendFailed ''missing push token''), n)
     else
       (case np_post net (RelaySend s token msg (nd_Platform device)) n of
          (TransportError err, n') \<Rightarrow> (Some (SendFailed err), n')
        | (HttpReply status raw, n') \<Rightarrow>
           ((if 200 \<le> status \<and> status < 300 then None
             else if isRelayStaleResponse status (trim_space (take 8192 raw))
             then Some (StaleToken (''native device token is stale: '' @ reply_text status raw))
             else Some (SendFailed (''push relay send failed: '' @ reply_text status raw))), n')))"

definition UnifiedPushSender_Send ::
  "'n push_net \<Rightarrow> native_device \<Rightarrow> push_message \<Rightarrow> 'n \<Rightarrow> send_error option \<times> 'n" where
  "UnifiedPushSender_Send net device msg n =
    (let endpointURL = trim_space (nd_PushToken device) in
     if endpointURL = '''' then (Some (SendFailed ''missing UnifiedPush endpoint URL''), n)
     else if \<not> prefix ''https://'' endpointURL then
       (Some (SendFailed ''UnifiedPush endpoint must use https''), n)
     else
       (case np_post net (UnifiedPost endpointURL msg) n of
          (TransportError err, n') \<Rightarrow> (Some (SendFailed (''POST failed: '' @ err)), n')
        | (HttpReply status raw, n') \<Rightarrow>
           ((if 200 \<le> status \<and> status < 300 then None
             else if status = 404 \<or> status = 410
             then Some (StaleToken (''native device token is stale: '' @ reply_text status raw))
             else Some (SendFailed (''UnifiedPush endpoint failed: '' @ reply_text status raw))), n')))"

definition dispatcher_Send ::
  "'n push_net \<Rightarrow> push_dispatcher \<Rightarrow> native_device \<Rightarrow> push_message \<Rightarrow> 'n \<Rightarrow> send_error option \<times> 'n" where
  "dispatcher_Send net d device msg n =
    (case selectSender d device of
       Inl err \<Rightarrow> (Some (SendFailed err), n)
     | Inr UnifiedPush \<Rightarrow> UnifiedPushSender_Send net device msg n
     | Inr (Relay s) \<Rightarrow> RelaySender_Send net s device msg n)"

section \<open>The world of the processor\<close>

text \<open>
  What the processor works on: the store of one user, the health service and the network.
  \<open>uw_env w k\<close> is what the k-th operation from now on reads from outside.
\<close>

record 'n push_world =
  uw_env :: "nat \<Rightarrow> go_env"
  uw_store :: state_world
  uw_health :: health_service
  uw_net :: 'n

definition on_store ::
  "(go_env \<Rightarrow> state_world \<Rightarrow> 'r \<times> state_world) \<Rightarrow> ('n, 'z) push_world_scheme \<Rightarrow> 'r \<times> ('n, 'z) push_world_scheme"
where
  "on_store f w =
    (case f (uw_env w 0) (uw_store w) of
       (r, s) \<Rightarrow> (r, w\<lparr>uw_store := s, uw_env := \<lambda>k. uw_env w (Suc k)\<rparr>))"

definition on_health ::
  "(go_env \<Rightarrow> health_service \<Rightarrow> health_service) \<Rightarrow> ('n, 'z) push_world_scheme \<Rightarrow> ('n, 'z) push_world_scheme"
where
  "on_health f w = w\<lparr>uw_health := f (uw_env w 0) (uw_health w), uw_env := \<lambda>k. uw_env w (Suc k)\<rparr>"

definition on_net :: "('n \<Rightarrow> 'r \<times> 'n) \<Rightarrow> ('n, 'z) push_world_scheme \<Rightarrow> 'r \<times> ('n, 'z) push_world_scheme" where
  "on_net f w = (case f (uw_net w) of (r, n) \<Rightarrow> (r, w\<lparr>uw_net := n\<rparr>))"

section \<open>Browser subscriptions\<close>

record web_outcome =
  wo_Subscriptions :: nat
  wo_Sent :: nat
  wo_Failed :: nat
  wo_Removed :: nat

text \<open>The send loop: what it counts, and the endpoints the push service calls gone.\<close>

fun web_sends ::
  "'n push_net \<Rightarrow> webpush_options \<Rightarrow> web_payload \<Rightarrow> subscription list \<Rightarrow> ('n, 'z) push_world_scheme \<Rightarrow>
   (nat \<times> nat \<times> string list) \<times> ('n, 'z) push_world_scheme" where
  "web_sends net opts payload [] w = ((0, 0, []), w)"
| "web_sends net opts payload (sub # subs) w =
    (let (r, w1) = on_net (np_webpush net payload sub opts) w;
         ((sent, failed, stale), w2) = web_sends net opts payload subs w1
     in (case r of
           TransportError _ \<Rightarrow> (sent, failed + 1, stale)
         | HttpReply status _ \<Rightarrow>
             if status = 201 then (sent + 1, failed, stale)
             else (sent, failed + 1, if status = 410 \<or> status = 404 then su_Endpoint sub # stale else stale), w2))"

fun remove_stale :: "string list \<Rightarrow> ('n, 'z) push_world_scheme \<Rightarrow> nat \<times> ('n, 'z) push_world_scheme" where
  "remove_stale [] w = (0, w)"
| "remove_stale (endpoint # rest) w =
    (let ((ok, err), w1) = on_store (\<lambda>e. RemoveNotificationSubscription e endpoint) w;
         (n, w2) = remove_stale rest w1
     in ((if err = None \<and> ok then n + 1 else n), w2))"

definition SendWebPush ::
  "'n push_net \<Rightarrow> string \<Rightarrow> string \<Rightarrow> int \<Rightarrow> web_payload \<Rightarrow> ('n, 'z) push_world_scheme \<Rightarrow>
   (string + web_outcome) \<times> ('n, 'z) push_world_scheme" where
  "SendWebPush net publicKey privateKeyPath ttl payload w =
    (let (subs, w1) = on_store (\<lambda>_. ListNotificationSubscriptions) w in
     if subs = [] then (Inr \<lparr>wo_Subscriptions = 0, wo_Sent = 0, wo_Failed = 0, wo_Removed = 0\<rparr>, w1)
     else
       (case np_vapidKey net privateKeyPath (uw_net w1) of
          Inl err \<Rightarrow> (Inl err, w1)
        | Inr key \<Rightarrow>
           (let opts = \<lparr>wp_VAPIDPublicKey = publicKey, wp_VAPIDPrivateKey = key, wp_TTL = ttl\<rparr>;
                ((sent, failed, stale), w2) = web_sends net opts payload subs w1;
                (removed, w3) = remove_stale stale w2
            in (Inr \<lparr>wo_Subscriptions = length subs, wo_Sent = sent, wo_Failed = failed,
                     wo_Removed = removed\<rparr>, w3))))"

section \<open>Native devices\<close>

record native_outcome =
  no_Devices :: nat
  no_Sent :: nat
  no_Failed :: nat
  no_Removed :: nat
  no_Queued :: bool

text \<open>
  The variables of the send loop. The two maps are an association list with one entry for each
  platform and a list of platforms.
\<close>

record native_loop =
  nl_sent :: nat
  nl_failed :: nat
  nl_removed :: nat
  nl_responded :: "string list"
  nl_failure :: "(string \<times> string) list"

definition device_platform :: "native_device \<Rightarrow> string" where
  "device_platform device =
    (let platform = to_lower (trim_space (nd_Platform device)) in
     if platform = '''' then ''android'' else platform)"

definition send_device ::
  "'n push_net \<Rightarrow> push_dispatcher \<Rightarrow> push_message \<Rightarrow> native_device \<Rightarrow> native_loop \<Rightarrow>
   ('n, 'z) push_world_scheme \<Rightarrow> native_loop \<times> ('n, 'z) push_world_scheme" where
  "send_device net d msg device l w =
    (let platform = device_platform device; (err, w1) = on_net (dispatcher_Send net d device msg) w in
     case err of
       None \<Rightarrow> (l\<lparr>nl_responded := List.insert platform (nl_responded l), nl_sent := nl_sent l + 1\<rparr>, w1)
     | Some (StaleToken _) \<Rightarrow>
        (let l1 = l\<lparr>nl_failed := nl_failed l + 1, nl_responded := List.insert platform (nl_responded l)\<rparr> in
         if trim_space (nd_DeviceID device) \<noteq> '''' then
           (let ((ok, rmErr), w2) = on_store (\<lambda>e. RemoveNativeDevice e (nd_DeviceID device)) w1
            in (if rmErr = None \<and> ok then l1\<lparr>nl_removed := nl_removed l1 + 1\<rparr> else l1, w2))
         else (l1, w1))
     | Some (SendFailed msg) \<Rightarrow>
        (l\<lparr>nl_failed := nl_failed l + 1,
           nl_failure := AList.update platform (''['' @ platform @ ''] '' @ msg) (nl_failure l)\<rparr>, w1))"

fun send_devices ::
  "'n push_net \<Rightarrow> push_dispatcher \<Rightarrow> push_message \<Rightarrow> native_device list \<Rightarrow> native_loop \<Rightarrow>
   ('n, 'z) push_world_scheme \<Rightarrow> native_loop \<times> ('n, 'z) push_world_scheme" where
  "send_devices net d msg [] l w = (l, w)"
| "send_devices net d msg (device # devices) l w =
    (let (l1, w1) = send_device net d msg device l w in send_devices net d msg devices l1 w1)"

text \<open>
  The health calls after the loop. \<open>order\<close> gives the order in which the runtime iterates a map
  with the given keys.
\<close>

definition report_health ::
  "(string list \<Rightarrow> string list) \<Rightarrow> native_loop \<Rightarrow> ('n, 'z) push_world_scheme \<Rightarrow> ('n, 'z) push_world_scheme" where
  "report_health order l w =
    (let w1 = fold (\<lambda>p. case map_of (nl_failure l) p of
               Some failure \<Rightarrow> on_health (\<lambda>e. RecordNativePushFailure e failure) | None \<Rightarrow> id)
             (order (map fst (nl_failure l))) w
     in fold (\<lambda>p. if map_of (nl_failure l) p = None then on_health RecordNativePushSuccess else id)
          (order (nl_responded l)) w1)"

definition SendNativePushToDevices ::
  "'n push_net \<Rightarrow> (string list \<Rightarrow> string list) \<Rightarrow> push_dispatcher \<Rightarrow> native_device list \<Rightarrow> push_message \<Rightarrow>
   ('n, 'z) push_world_scheme \<Rightarrow> (native_outcome \<times> io_error option) \<times> ('n, 'z) push_world_scheme" where
  "SendNativePushToDevices net order d devices msg w =
    (if devices = [] then
       ((\<lparr>no_Devices = 0, no_Sent = 0, no_Failed = 0, no_Removed = 0, no_Queued = False\<rparr>, None), w)
     else
       (let (mode, w1) = on_store (\<lambda>_. NativeDeliveryMode) w in
        if mode = DeliveryModePull then
          (let ((_, err), w2) = on_store (\<lambda>e. EnqueuePullNotification e
                 \<lparr>pn_Seq = 0, pn_Title = pm_Title msg, pn_Body = pm_Body msg, pn_Data = pm_Data msg,
                  pn_CreatedAt = ''''\<rparr>) w1
           in ((\<lparr>no_Devices = length devices, no_Sent = (if err = None then 1 else 0), no_Failed = 0,
                 no_Removed = 0, no_Queued = True\<rparr>, err), w2))
        else
          (let (l, w2) = send_devices net d msg devices
                 \<lparr>nl_sent = 0, nl_failed = 0, nl_removed = 0, nl_responded = [], nl_failure = []\<rparr> w1
           in ((\<lparr>no_Devices = length devices, no_Sent = nl_sent l, no_Failed = nl_failed l,
                 no_Removed = nl_removed l, no_Queued = False\<rparr>, None), report_health order l w2))))"

definition SendNativePush ::
  "'n push_net \<Rightarrow> (string list \<Rightarrow> string list) \<Rightarrow> push_dispatcher \<Rightarrow> push_message \<Rightarrow>
   ('n, 'z) push_world_scheme \<Rightarrow> (native_outcome \<times> io_error option) \<times> ('n, 'z) push_world_scheme" where
  "SendNativePush net order d msg w =
    (let (devices, w1) = on_store (\<lambda>_. ListNativeDevices) w
     in SendNativePushToDevices net order d devices msg w1)"


section \<open>What a dispatch does to the store\<close>

lemma on_store_sel [simp]:
  "uw_store (snd (on_store f w)) = snd (f (uw_env w 0) (uw_store w))"
  "fst (on_store f w) = fst (f (uw_env w 0) (uw_store w))"
  "uw_health (snd (on_store f w)) = uw_health w" "uw_net (snd (on_store f w)) = uw_net w"
  by (simp_all add: on_store_def split: prod.splits)

lemma on_net_sel [simp]:
  "uw_store (snd (on_net f w)) = uw_store w" "uw_health (snd (on_net f w)) = uw_health w"
  "uw_net (snd (on_net f w)) = snd (f (uw_net w))" "fst (on_net f w) = fst (f (uw_net w))"
  by (simp_all add: on_net_def split: prod.splits)

lemma on_health_sel [simp]:
  "uw_store (on_health f w) = uw_store w" "uw_net (on_health f w) = uw_net w"
  "uw_health (on_health f w) = f (uw_env w 0) (uw_health w)"
  by (simp_all add: on_health_def)

text \<open>What holds of the file and of what the body makes of it holds of the file afterwards.\<close>

lemma st_transact_file:
  assumes "sw_state w = Json sf" "Q sf"
    and b: "\<And>v0 v1 s'. body (applyStateFile e sf (sw_mem w)) = (v0, v1, s', True) \<Longrightarrow>
      marks sf s' \<and> Q (state_file_of e s')"
  shows "\<exists>sf'. sw_state (snd (st_transact e zero body w)) = Json sf' \<and> Q sf'"
proof -
  obtain v0 v1 s' p where r: "body (applyStateFile e sf (sw_mem w)) = (v0, v1, s', p)" by (metis prod_cases4)
  let ?w = "w\<lparr>sw_mem := s'\<rparr>"
  have s: "sw_state ?w = Json sf" using assms(1) by simp
  consider "\<not> p" | "p" "env_write_ok e" | "p" "\<not> env_write_ok e" by blast
  then show ?thesis
  proof cases
    case 1
    then show ?thesis using assms(1,2) r by (simp add: st_transact_def refreshState_Json)
  next
    case 2
    then show ?thesis using assms(1) r b by (simp add: st_transact_def refreshState_Json persist_marked)
  next
    case 3
    obtain w2 where "persistState e ?w = (Some IoWrite, w2)" "sw_state w2 = Json sf"
      using persist_fails [OF s 3(2)] by (metis prod.collapse)
    then show ?thesis using 3(1) assms(1,2) r by (simp add: st_transact_def refreshState_Json)
  qed
qed

lemma NativeDeliveryMode_file [simp]: "sw_state (snd (NativeDeliveryMode w)) = sw_state w"
  by (auto simp: NativeDeliveryMode_def refreshPull_def refresh_with_def split: json_file.splits)

lemma RemoveNativeDevice_file:
  assumes "sw_state w = Json sf"
  shows "\<exists>sf'. sw_state (snd (RemoveNativeDevice e i w)) = Json sf' \<and>
    sf_NativeDevices sf' \<in> {sf_NativeDevices sf, remove_first (\<lambda>d. nd_DeviceID d = trim_space i) (sf_NativeDevices sf)}"
  unfolding RemoveNativeDevice_def
proof (rule st_transact_file [OF assms], simp, goal_cases)
  case (1 v0 v1 s')
  have "st_nativeDevices (applyStateFile e sf (sw_mem w)) = sf_NativeDevices sf"
    by (simp add: applyStateFile_def Let_def)
  then show ?case
    using 1 marks_loaded [of sf e "sw_mem w"]
    by (auto simp: Let_def marks_def state_file_of_def split: if_splits option.splits)
qed

text \<open>
  A send loop takes away, if anything, devices whose ID is that of a device whose token was answered
  to be stale.
\<close>

definition answered_stale ::
  "'n push_net \<Rightarrow> push_dispatcher \<Rightarrow> push_message \<Rightarrow> native_device list \<Rightarrow> string \<Rightarrow> bool" where
  "answered_stale net d msg devices i \<longleftrightarrow>
    (\<exists>x\<in>set devices. \<exists>n r n'. trim_space (nd_DeviceID x) = i \<and> dispatcher_Send net d x msg n = (Some (StaleToken r), n'))"

definition pruned :: "(string \<Rightarrow> bool) \<Rightarrow> native_device list \<Rightarrow> native_device list \<Rightarrow> bool" where
  "pruned P old new \<longleftrightarrow> subseq new old \<and> (\<forall>x\<in>set old. x \<in> set new \<or> P (nd_DeviceID x))"

lemma pruned_refl: "pruned P ds ds"
  by (simp add: pruned_def)

lemma pruned_trans: "pruned P a b \<Longrightarrow> pruned P b c \<Longrightarrow> pruned P a c"
  unfolding pruned_def using subseq_order.order_trans by blast

lemma pruned_remove_first: "P i \<Longrightarrow> pruned P ds (remove_first (\<lambda>d. nd_DeviceID d = i) ds)"
  by (induction ds) (auto simp: pruned_def)

lemma send_device_file:
  assumes "sw_state (uw_store w) = Json sf"
    and "\<And>n r n'. dispatcher_Send net d x msg n = (Some (StaleToken r), n') \<Longrightarrow> P (trim_space (nd_DeviceID x))"
  shows "\<exists>sf'. sw_state (uw_store (snd (send_device net d msg x l w))) = Json sf' \<and>
    pruned P (sf_NativeDevices sf) (sf_NativeDevices sf')"
proof -
  obtain err n' where s: "dispatcher_Send net d x msg (uw_net w) = (err, n')" by fastforce
  obtain w1 where on: "on_net (dispatcher_Send net d x msg) w = (err, w1)" and w1: "sw_state (uw_store w1) = Json sf"
    using s assms(1) by (simp add: on_net_def)
  have quiet: "pruned P (sf_NativeDevices sf) (sf_NativeDevices sf)" by (rule pruned_refl)
  show ?thesis
  proof (cases err)
    case (Some e)
    show ?thesis
    proof (cases e)
      case (StaleToken r)
      obtain sf' where f: "sw_state (snd (RemoveNativeDevice (uw_env w1 0) (nd_DeviceID x) (uw_store w1))) = Json sf'"
        "sf_NativeDevices sf' \<in> {sf_NativeDevices sf,
          remove_first (\<lambda>y. nd_DeviceID y = trim_space (nd_DeviceID x)) (sf_NativeDevices sf)}"
        using RemoveNativeDevice_file [OF w1] by blast
      have "P (trim_space (nd_DeviceID x))" using assms(2) s Some StaleToken by blast
      then have "pruned P (sf_NativeDevices sf) (sf_NativeDevices sf')"
        using f(2) pruned_refl pruned_remove_first by fastforce
      then show ?thesis
        using f(1) quiet w1
        by (simp add: send_device_def on Some StaleToken Let_def split_beta)
    qed (use quiet w1 in \<open>simp add: send_device_def on Some Let_def\<close>)
  qed (use quiet w1 in \<open>simp add: send_device_def on Let_def\<close>)
qed

lemma send_devices_file:
  assumes "sw_state (uw_store w) = Json sf"
    and "\<And>x n r n'. x \<in> set ds \<Longrightarrow> dispatcher_Send net d x msg n = (Some (StaleToken r), n') \<Longrightarrow>
      P (trim_space (nd_DeviceID x))"
  shows "\<exists>sf'. sw_state (uw_store (snd (send_devices net d msg ds l w))) = Json sf' \<and>
    pruned P (sf_NativeDevices sf) (sf_NativeDevices sf')"
  using assms
proof (induction ds arbitrary: l w sf)
  case (Cons x ds)
  obtain l1 w1 where s: "send_device net d msg x l w = (l1, w1)" by fastforce
  obtain sf1 where f1: "sw_state (uw_store w1) = Json sf1" "pruned P (sf_NativeDevices sf) (sf_NativeDevices sf1)"
    using send_device_file [OF Cons.prems(1), of net d x msg P l] Cons.prems(2) s by (metis list.set_intros(1) snd_conv)
  then show ?case
    using Cons.IH [OF f1(1), of l1] Cons.prems(2) pruned_trans [OF f1(2)] s by fastforce
qed (auto simp: pruned_refl)

section \<open>What a dispatch tells the health service\<close>

lemma send_devices_health [simp]: "uw_health (snd (send_devices net d msg ds l w)) = uw_health w"
proof (induction ds arbitrary: l w)
  case (Cons x ds)
  have "uw_health (snd (send_device net d msg x l w)) = uw_health w"
    by (simp add: send_device_def Let_def split_beta split: option.split send_error.split)
  then show ?case using Cons.IH by (simp add: split_beta)
qed simp

lemma fold_health_store:
  assumes "\<And>p w. uw_store (f p w) = uw_store w"
  shows "uw_store (fold f ps w) = uw_store w"
  by (induction ps arbitrary: w) (simp_all add: assms)

lemma report_health_store [simp]: "uw_store (report_health order l w) = uw_store w"
  unfolding report_health_def Let_def
  by (subst fold_health_store, simp split: option.split)+ simp

lemma fold_failures:
  "\<forall>p\<in>set ps. map_of m p \<noteq> None \<Longrightarrow>
   hv_nativePushFailing (uw_health (fold (\<lambda>p. case map_of m p of
      Some failure \<Rightarrow> on_health (\<lambda>e. RecordNativePushFailure e failure) | None \<Rightarrow> id) ps w)) =
   (ps \<noteq> [] \<or> hv_nativePushFailing (uw_health w))"
  by (induction ps arbitrary: w) (auto simp: RecordNativePushFailure_def)

lemma fold_successes:
  "hv_nativePushFailing (uw_health (fold (\<lambda>p. if map_of m p = None then on_health RecordNativePushSuccess
      else id) ps w)) =
   ((\<forall>p\<in>set ps. map_of m p \<noteq> None) \<and> hv_nativePushFailing (uw_health w))"
  by (induction ps arbitrary: w) (auto simp: RecordNativePushSuccess_def)

lemma report_health_failing:
  assumes "\<And>xs. set (order xs) = set xs"
  shows "hv_nativePushFailing (uw_health (report_health order l w)) =
    ((\<forall>p\<in>set (nl_responded l). map_of (nl_failure l) p \<noteq> None) \<and>
     (nl_failure l \<noteq> [] \<or> hv_nativePushFailing (uw_health w)))"
proof -
  have "\<forall>p\<in>set (order (map fst (nl_failure l))). map_of (nl_failure l) p \<noteq> None"
    using assms by (auto simp: map_of_eq_None_iff)
  moreover have "order (map fst (nl_failure l)) = [] \<longleftrightarrow> nl_failure l = []"
    using assms [of "map fst (nl_failure l)"] by (metis map_is_Nil_conv set_empty)
  ultimately show ?thesis
    by (simp add: report_health_def Let_def fold_failures fold_successes assms)
qed


section \<open>Worked examples\<close>

definition example_device :: "string \<Rightarrow> string \<Rightarrow> native_device" where
  "example_device i platform =
    \<lparr>nd_DeviceID = i, nd_Platform = platform, nd_PushToken = i, nd_DeviceName = '''', nd_AppVersion = '''',
     nd_UserAgent = '''', nd_RegisteredAt = '''', nd_UpdatedAt = '''', nd_UserID = '''', nd_MFAApprover = False,
     nd_Transport = '''', nd_SecretHash = ''''\<rparr>"

definition example_file :: "string \<Rightarrow> native_device list \<Rightarrow> state_file" where
  "example_file mode devices =
    (state_file_of (tally_env 0 None True) state_empty)\<lparr>sf_DeliveryMode := mode, sf_NativeDevices := devices\<rparr>"

definition example_world :: "state_file \<Rightarrow> unit push_world" where
  "example_world sf =
    \<lparr>uw_env = \<lambda>k. tally_env (int k * second) None True,
     uw_store = \<lparr>sw_mem = state_empty, sw_state = Json sf, sw_decisions = Missing\<rparr>,
     uw_health = NewService (tally_env 0 None True), uw_net = ()\<rparr>"

text \<open>A network on which one relay answers every request with the given status, the other with 200.\<close>

definition example_relay :: "string \<Rightarrow> relay_sender" where
  "example_relay u = \<lparr>rs_relayURL = u, rs_apiKey = ''k''\<rparr>"

definition example_net :: "nat \<Rightarrow> unit push_net" where
  "example_net status =
    \<lparr>np_post = \<lambda>req n. (case req of
         RelaySend s _ _ _ \<Rightarrow> (HttpReply (if rs_relayURL s = ''a'' then status else 200) '''', n)
       | UnifiedPost _ _ \<Rightarrow> (TransportError ''no route'', n)),
     np_webpush = \<lambda>_ _ _ n. (TransportError ''no route'', n), np_vapidKey = \<lambda>_ _. Inl ''no key''\<rparr>"

definition example_dispatcher :: push_dispatcher where
  "example_dispatcher = \<lparr>di_fcmSender = Some (example_relay ''f''), di_apnsSender = Some (example_relay ''a'')\<rparr>"

definition example_devices :: "native_device list" where
  "example_devices = [example_device ''p'' ''ios'', example_device ''t'' '''']"

definition example_message :: push_message where
  "example_message = \<lparr>pm_Title = ''t'', pm_Body = ''b'', pm_Data = []\<rparr>"

text \<open>
  The flag is one for all platforms, but failures are recorded before the successes of the other
  platforms: with an Apple relay that fails and another that works, it does not go up.
\<close>

lemma working_relay_hides_failing_one:
  "(case SendNativePushToDevices (example_net 500) id example_dispatcher example_devices example_message
      (example_world (example_file ''push'' example_devices)) of
     ((r, _), w) \<Rightarrow> no_Failed r = 1 \<and> no_Sent r = 1 \<and> \<not> hv_nativePushFailing (uw_health w))"
  by code_simp

section \<open>Properties\<close>

text \<open>
  C33: a push dispatch unregisters a device only when its relay or endpoint answered that its token
  is stale; every other device of the account stays registered, and none is added.
\<close>

theorem push_prunes_only_stale:
  assumes "sw_state (uw_store w) = Json sf"
    and "SendNativePushToDevices net order d devices msg w = (r, w')"
  shows "\<exists>sf'. sw_state (uw_store w') = Json sf' \<and>
    pruned (answered_stale net d msg devices) (sf_NativeDevices sf) (sf_NativeDevices sf')"
proof -
  let ?Q = "\<lambda>sf'. pruned (answered_stale net d msg devices) (sf_NativeDevices sf) (sf_NativeDevices sf')"
  obtain mode w1 where m: "on_store (\<lambda>_. NativeDeliveryMode) w = (mode, w1)" by fastforce
  then have w1: "sw_state (uw_store w1) = Json sf"
    using assms(1) NativeDeliveryMode_file [of "uw_store w"] on_store_sel(1) [of "\<lambda>_. NativeDeliveryMode" w] by simp
  have q: "\<exists>sf'. sw_state (snd (EnqueuePullNotification e n (uw_store w1))) = Json sf' \<and> ?Q sf'" for e n
    unfolding EnqueuePullNotification_def
    by (rule st_transact_file [OF w1])
      (auto simp: pruned_refl marks_def enqueue_pull_def state_file_of_def applyStateFile_def Let_def)
  have s: "\<exists>sf'. sw_state (uw_store (snd (send_devices net d msg devices l w1))) = Json sf' \<and> ?Q sf'" for l
    by (rule send_devices_file [OF w1]) (auto simp: answered_stale_def)
  show ?thesis
    using assms q s pruned_refl [of _ "sf_NativeDevices sf"] m
    by (auto simp: SendNativePushToDevices_def Let_def split_beta split: if_splits)
qed

theorem push_prunes_only_stale_witness:
  "\<exists>sf'. sw_state (uw_store (snd (SendNativePushToDevices (example_net 410) id example_dispatcher example_devices
       example_message (example_world (example_file ''push'' example_devices))))) = Json sf' \<and>
    pruned (answered_stale (example_net 410) example_dispatcher example_message example_devices)
      example_devices (sf_NativeDevices sf')"
  using push_prunes_only_stale [of "example_world (example_file ''push'' example_devices)" "example_file ''push'' example_devices"
      "example_net 410" id example_dispatcher example_devices example_message]
  by (simp add: example_world_def example_file_def prod_eq_iff)

text \<open>
  For an account in pull mode a push dispatch contacts neither a relay nor a push endpoint and
  does not touch the relay's health; it appends the one notification to the account's queue.
\<close>

theorem pull_mode_stays_local:
  assumes "sw_state (uw_store w) = Json sf" "normalizeDeliveryMode (sf_DeliveryMode sf) = DeliveryModePull"
    and "devices \<noteq> []" "env_write_ok (uw_env w 1)"
    and "SendNativePushToDevices net order d devices msg w = (r, w')"
  shows "uw_net w' = uw_net w \<and> uw_health w' = uw_health w \<and>
    (\<exists>sf' n. sw_state (uw_store w') = Json sf' \<and> pn_Title n = pm_Title msg \<and> pn_Body n = pm_Body msg \<and>
       pn_Seq n = sf_PullSeq sf + 1 \<and> sf_Pull sf' = keep_last maxPullNotifications (sf_Pull sf @ [n]))"
proof -
  have pull: "normalizeDeliveryMode DeliveryModePull = DeliveryModePull" by code_simp
  obtain w1 where m: "on_store (\<lambda>_. NativeDeliveryMode) w = (DeliveryModePull, w1)"
    and w1: "sw_state (uw_store w1) = Json sf" "uw_net w1 = uw_net w" "uw_health w1 = uw_health w" "uw_env w1 0 = uw_env w 1"
    using assms(1,2) pull by (simp add: on_store_def NativeDeliveryMode_def refreshPull_def refresh_with_def)
  let ?n = "\<lparr>pn_Seq = 0, pn_Title = pm_Title msg, pn_Body = pm_Body msg, pn_Data = pm_Data msg, pn_CreatedAt = ''''\<rparr>"
  obtain sf' where f: "sw_state (snd (EnqueuePullNotification (uw_env w1 0) ?n (uw_store w1))) = Json sf'"
    "sf_Pull sf' = keep_last maxPullNotifications (sf_Pull sf @ [stamped (uw_env w1 0) ?n (sf_PullSeq sf + 1)])"
    using enqueue_file [OF w1(1), of "uw_env w1 0" ?n] assms(4) w1(4) by auto
  have w': "w' = snd (on_store (\<lambda>e. EnqueuePullNotification e ?n) w1)"
    using assms(3,5) m by (simp add: SendNativePushToDevices_def Let_def split_beta)
  have "pn_Title (stamped e ?n k) = pm_Title msg \<and> pn_Body (stamped e ?n k) = pm_Body msg" for e k
    by (simp add: stamped_def)
  then show ?thesis
    unfolding w' using f w1(2,3) by (auto intro: exI [of _ "stamped (uw_env w1 0) ?n (sf_PullSeq sf + 1)"])
qed

theorem pull_mode_stays_local_witness:
  "\<exists>n. pn_Seq n = 1 \<and> pn_Title n = ''t'' \<and>
    (case sw_state (uw_store (snd (SendNativePushToDevices (example_net 500) id example_dispatcher example_devices
       example_message (example_world (example_file ''pull'' example_devices))))) of Json sf' \<Rightarrow> sf_Pull sf' = [n] | _ \<Rightarrow> False)"
proof -
  have "normalizeDeliveryMode (sf_DeliveryMode (example_file ''pull'' example_devices)) = DeliveryModePull"
    by code_simp
  then show ?thesis
    using pull_mode_stays_local [of "example_world (example_file ''pull'' example_devices)" "example_file ''pull'' example_devices"
      example_devices "example_net 500" id example_dispatcher example_message]
    by (auto simp: example_world_def example_file_def prod_eq_iff example_devices_def state_file_of_def
        state_empty_def example_message_def keep_last_def maxPullNotifications_def)
qed

end
