(* ===== verification/Imap_Actions.thy ===== *)
theory Imap_Actions
  imports Imap_Client Rules_Engine
begin

text \<open>
  What the IMAP client changes on the server (backend/internal/adapters/imap/client.go): labels,
  the actions on a message, folders, drafts and sent mail.
\<close>

section \<open>Labels\<close>

definition EnsureLabel_op :: "imap_ctx \<Rightarrow> string \<Rightarrow> ('d, unit) imap_op" where
  "EnsureLabel_op ctx label =
    ibind (ctx_check ctx) (\<lambda>_. if blank label then ifail ''label is required'' else ireturn ())"

text \<open>The UID a message ID stands for.\<close>

definition message_uid :: "string \<Rightarrow> int option" where
  "message_uid messageID = (case atoi (trim_space messageID) of Some uid \<Rightarrow> if uid \<le> 0 then None else Some uid | None \<Rightarrow> None)"

definition with_uid :: "string \<Rightarrow> (int \<Rightarrow> ('d, 'a) imap_op) \<Rightarrow> ('d, 'a) imap_op" where
  "with_uid messageID k =
    (case message_uid messageID of None \<Rightarrow> ifail (''invalid message id '' @ quoted messageID) | Some uid \<Rightarrow> k uid)"

definition set_label :: "string \<Rightarrow> bool \<Rightarrow> 'd dialer \<Rightarrow> imap_ctx \<Rightarrow> string \<Rightarrow> string \<Rightarrow> ('d, unit) imap_op" where
  "set_label verb on D ctx messageID label =
    ibind (ctx_check ctx) (\<lambda>_. with_uid messageID (\<lambda>uid.
      let l = trim_space label in
      if l = '''' then ifail ''label is required''
      else ibind (ensureConnectedLocked D) (\<lambda>_.
        wrapped (''imap '' @ verb @ '' keyword '' @ quoted l @ '' on uid '' @ itoa uid) (server (dl_SetKeyword D uid l on)))))"

definition ApplyLabel_op :: "'d dialer \<Rightarrow> imap_ctx \<Rightarrow> string \<Rightarrow> string \<Rightarrow> ('d, unit) imap_op" where
  "ApplyLabel_op = set_label ''set'' True"

definition RemoveLabel_op :: "'d dialer \<Rightarrow> imap_ctx \<Rightarrow> string \<Rightarrow> string \<Rightarrow> ('d, unit) imap_op" where
  "RemoveLabel_op = set_label ''clear'' False"

section \<open>Actions on a message\<close>

definition ensureFolderThenRun :: "'d dialer \<Rightarrow> string \<Rightarrow> (string \<Rightarrow> ('d, unit) imap_op) \<Rightarrow> ('d, unit) imap_op" where
  "ensureFolderThenRun D folder try =
    ibind (icatch (try folder)) (\<lambda>r. case r of
      Inr _ \<Rightarrow> ireturn ()
    | Inl _ \<Rightarrow> ibind (server (dl_CreateFolder D folder)) (\<lambda>_. try folder))"

text \<open>The first target that works; the last error when none does.\<close>

fun try_targets :: "string option \<Rightarrow> (string \<Rightarrow> ('d, unit) imap_op) \<Rightarrow> string list \<Rightarrow> ('d, string option) imap_op" where
  "try_targets lastErr try [] = ireturn lastErr"
| "try_targets lastErr try (folder # folders) =
    ibind (icatch (try folder)) (\<lambda>r. case r of Inr _ \<Rightarrow> ireturn None | Inl err \<Rightarrow> try_targets (Some err) try folders)"

definition first_target :: "string \<Rightarrow> (string \<Rightarrow> ('d, unit) imap_op) \<Rightarrow> string list \<Rightarrow> ('d, unit) imap_op" where
  "first_target context try folders =
    ibind (try_targets None try folders) (\<lambda>r. case r of Some err \<Rightarrow> ifail (context @ '': '' @ err) | None \<Rightarrow> ireturn ())"

definition move_to :: "'d dialer \<Rightarrow> int \<Rightarrow> string \<Rightarrow> ('d, unit) imap_op" where
  "move_to D uid folder = ensureFolderThenRun D folder (\<lambda>f. server (dl_MoveEmail D uid f))"

definition isTrashMailbox :: "string \<Rightarrow> bool" where
  "isTrashMailbox name = (trim_space (to_lower name) \<in> {''trash'', ''inbox/trash'', ''inbox.trash''})"

text \<open>The calendar year of an instant in UTC, from the number of days since 1970 (Gregorian calendar).\<close>

definition utc_year :: "int \<Rightarrow> int" where
  "utc_year t =
    (let z = t div (24 * hour) + 719468; era = z div 146097; doe = z - era * 146097;
         yoe = (doe - doe div 1460 + doe div 36524 - doe div 146096) div 365;
         doy = doe - (365 * yoe + yoe div 4 - yoe div 100);
         mp = (5 * doy + 2) div 153
     in yoe + era * 400 + (if mp < 10 then 0 else 1))"

definition archive_year :: "go_env \<Rightarrow> string + (int \<Rightarrow> imap_email option) \<Rightarrow> int \<Rightarrow> int" where
  "archive_year e fetched uid =
    (case fetched of
       Inl _ \<Rightarrow> utc_year (env_now e)
     | Inr emails \<Rightarrow>
        (case emails uid of
           None \<Rightarrow> utc_year (env_now e)
         | Some m \<Rightarrow>
            (case (if em_Sent m = None then em_Received m else em_Sent m) of
               None \<Rightarrow> utc_year (env_now e) | Some t \<Rightarrow> utc_year t)))"

definition inbox_action ::
  "'d dialer \<Rightarrow> go_env \<Rightarrow> int \<Rightarrow> string \<Rightarrow> string \<Rightarrow> string \<Rightarrow> ('d, unit) imap_op" where
  "inbox_action D e uid action mailbox target =
    (if action = ''read'' then wrapped (''imap mark seen uid '' @ itoa uid) (server (dl_MarkSeen D uid))
     else if action = ''archive'' then
       ibind (icatch (server (dl_GetEmails D [uid]))) (\<lambda>fetched.
         let year = itoa (archive_year e fetched uid) in
         first_target (''imap move uid '' @ itoa uid @ '' to yearly archive'') (move_to D uid)
           [''Archive/'' @ year, ''Archive.'' @ year])
     else if action = ''spam'' then wrapped (''imap move uid '' @ itoa uid @ '' to Spam'') (move_to D uid ''Spam'')
     else if action = ''delete'' then
       (if isTrashMailbox mailbox
        then wrapped (''imap delete uid '' @ itoa uid @ '' from Trash'') (server (dl_DeleteEmail D uid))
        else first_target (''imap move uid '' @ itoa uid @ '' to Trash'') (move_to D uid)
               [''Trash'', ''INBOX/Trash'', ''INBOX.Trash''])
     else if action = ''move'' then
       (if target = '''' then ifail ''target mailbox is required''
        else if equal_fold mailbox target then ireturn ()
        else wrapped (''imap move uid '' @ itoa uid @ '' to '' @ quoted target) (move_to D uid target))
     else ifail (''unsupported inbox action '' @ quoted action))"

definition ApplyInboxAction_op ::
  "'d dialer \<Rightarrow> go_env \<Rightarrow> imap_ctx \<Rightarrow> string \<Rightarrow> string \<Rightarrow> string \<Rightarrow> string \<Rightarrow> ('d, unit) imap_op" where
  "ApplyInboxAction_op D e ctx messageID action mailbox targetMailbox =
    ibind (ctx_check ctx) (\<lambda>_. with_uid messageID (\<lambda>uid.
    ibind (ensureConnectedLocked D) (\<lambda>_.
    ibind (select_other D (trim_space mailbox)) (\<lambda>_.
    inbox_action D e uid (to_lower (trim_space action)) (trim_space mailbox) (trim_space targetMailbox)))))"

section \<open>Folders\<close>

definition sep_char :: "char \<Rightarrow> bool" where
  "sep_char c \<longleftrightarrow> c = CHR ''/'' \<or> c = CHR ''.''"

definition before_sep :: "string \<Rightarrow> string" where
  "before_sep s = takeWhile (\<lambda>c. \<not> sep_char c) s"

definition prefix_fold :: "string \<Rightarrow> string \<Rightarrow> bool" where
  "prefix_fold p s \<longleftrightarrow> prefix (to_lower p) (to_lower s)"

definition containsMailboxPath :: "string list \<Rightarrow> string \<Rightarrow> bool" where
  "containsMailboxPath folders target \<longleftrightarrow>
    \<not> blank target \<and> list_ex (\<lambda>f. equal_fold (trim_space f) (trim_space target)) folders"

fun delimiter_of :: "string \<Rightarrow> string list \<Rightarrow> string" where
  "delimiter_of clean [] = ''/''"
| "delimiter_of clean (folder # folders) =
    (if prefix_fold (clean @ ''/'') (trim_space folder) then ''/''
     else if prefix_fold (clean @ ''.'') (trim_space folder) then ''.''
     else delimiter_of clean folders)"

definition preferredMailboxDelimiters :: "string \<Rightarrow> string list \<Rightarrow> string list" where
  "preferredMailboxDelimiters parent folders =
    (let clean = trim_space parent;
         first = (if CHR ''/'' \<in> set clean then ''/'' else if CHR ''.'' \<in> set clean then ''.'' else delimiter_of clean folders)
     in if first = ''/'' then [''/'', ''.''] else [''.'', ''/''])"

definition mailboxParent :: "string \<Rightarrow> string" where
  "mailboxParent path =
    (let r = dropWhile (\<lambda>c. \<not> sep_char c) (rev (trim_space path)) in if length r \<le> 1 then '''' else rev (tl r))"

definition check_folder_name :: "string \<Rightarrow> string option" where
  "check_folder_name name =
    (if name = '''' then Some ''folder name is required''
     else if list_ex sep_char name then Some ''folder name must be a single level without / or .''
     else None)"

fun create_candidates ::
  "'d dialer \<Rightarrow> string list \<Rightarrow> string option \<Rightarrow> string list \<Rightarrow> ('d, string + string option) imap_op" where
  "create_candidates D folders lastErr [] = ireturn (Inr lastErr)"
| "create_candidates D folders lastErr (candidate # rest) =
    (if containsMailboxPath folders candidate then ireturn (Inl candidate)
     else ibind (icatch (server (dl_CreateFolder D candidate))) (\<lambda>r. case r of
            Inr _ \<Rightarrow> ireturn (Inl candidate)
          | Inl err \<Rightarrow> create_candidates D folders (Some err) rest))"

definition CreateFolder_op :: "'d dialer \<Rightarrow> imap_ctx \<Rightarrow> string \<Rightarrow> string \<Rightarrow> ('d, string) imap_op" where
  "CreateFolder_op D ctx parent0 name0 =
    ibind (ctx_check ctx) (\<lambda>_.
      let parent = trim_space parent0; name = trim_space name0 in
      case check_folder_name name of
        Some err \<Rightarrow> ifail err
      | None \<Rightarrow>
         ibind (ensureConnectedLocked D) (\<lambda>_.
         ibind (wrapped ''imap list folders'' (server (dl_GetFolders D))) (\<lambda>folders.
           if parent = '''' then
             (if containsMailboxPath folders name then ireturn name
              else ibind (wrapped (''imap create folder '' @ quoted name) (server (dl_CreateFolder D name))) (\<lambda>_. ireturn name))
           else
             ibind (create_candidates D folders None
               (map (\<lambda>d. parent @ d @ name) (preferredMailboxDelimiters parent folders))) (\<lambda>r. case r of
                 Inl path \<Rightarrow> ireturn path
               | Inr lastErr \<Rightarrow> ifail (''imap create folder '' @ quoted name @ '' under '' @ quoted parent @
                   (case lastErr of Some err \<Rightarrow> '': '' @ err | None \<Rightarrow> '' failed''))))))"

definition RenameFolder_op :: "'d dialer \<Rightarrow> imap_ctx \<Rightarrow> string \<Rightarrow> string \<Rightarrow> ('d, string) imap_op" where
  "RenameFolder_op D ctx folder0 name0 =
    ibind (ctx_check ctx) (\<lambda>_.
      let folder = trim_space folder0; name = trim_space name0; parent = mailboxParent folder in
      if folder = '''' then ifail ''folder is required''
      else case check_folder_name name of
        Some err \<Rightarrow> ifail err
      | None \<Rightarrow>
         if parent = '''' then ifail ''folder must have a parent mailbox''
         else
           ibind (ensureConnectedLocked D) (\<lambda>_.
           ibind (wrapped ''imap list folders'' (server (dl_GetFolders D))) (\<lambda>folders.
             let delimiter = (if \<not> list_ex sep_char folder then hd (preferredMailboxDelimiters parent folders)
                              else if CHR ''.'' \<in> set folder then ''.'' else ''/'');
                 newPath = parent @ delimiter @ name
             in if equal_fold folder newPath then ireturn folder
                else if containsMailboxPath folders newPath then ifail (''folder '' @ quoted newPath @ '' already exists'')
                else ibind (wrapped (''imap rename folder '' @ quoted folder @ '' to '' @ quoted newPath)
                       (server (dl_RenameFolder D folder newPath))) (\<lambda>_. ireturn newPath))))"

text \<open>The move loop of DeleteFolder, with the index of the context check of its next round.\<close>

fun move_all :: "'d dialer \<Rightarrow> imap_ctx \<Rightarrow> nat \<Rightarrow> string \<Rightarrow> string \<Rightarrow> int list \<Rightarrow> ('d, unit) imap_op" where
  "move_all D ctx k folder parent [] = ireturn ()"
| "move_all D ctx k folder parent (uid # uids) =
    ibind (case ctx k of Some err \<Rightarrow> ifail err | None \<Rightarrow> ireturn ()) (\<lambda>_.
    ibind (wrapped (''imap move uid '' @ itoa uid @ '' from '' @ quoted folder @ '' to '' @ quoted parent)
      (server (dl_MoveEmail D uid parent))) (\<lambda>_. move_all D ctx (Suc k) folder parent uids))"

definition has_subfolder :: "string list \<Rightarrow> string \<Rightarrow> bool" where
  "has_subfolder folders folder =
    list_ex (\<lambda>f. \<not> equal_fold (trim_space f) folder \<and>
      (prefix_fold (folder @ ''/'') (trim_space f) \<or> prefix_fold (folder @ ''.'') (trim_space f))) folders"

definition DeleteFolder_op :: "'d dialer \<Rightarrow> imap_ctx \<Rightarrow> string \<Rightarrow> ('d, unit) imap_op" where
  "DeleteFolder_op D ctx folder0 =
    ibind (ctx_check ctx) (\<lambda>_.
      let folder = trim_space folder0; parent = mailboxParent folder in
      if folder = '''' then ifail ''folder is required''
      else if parent = '''' then ifail ''folder must have a parent mailbox''
      else
        ibind (ensureConnectedLocked D) (\<lambda>_.
        ibind (wrapped ''imap list folders'' (server (dl_GetFolders D))) (\<lambda>folders.
          if has_subfolder folders folder then ifail ''folder has subfolders and cannot be deleted yet''
          else
            ibind (wrapped (''imap select folder '' @ quoted folder) (server (dl_SelectFolder D folder))) (\<lambda>_.
            ibind (wrapped (''imap list folder messages '' @ quoted folder) (server (dl_GetUIDs D ''ALL''))) (\<lambda>uids.
            ibind (move_all D ctx 1 folder parent uids) (\<lambda>_.
            ibind (wrapped (''imap select parent folder '' @ quoted parent) (server (dl_SelectFolder D parent))) (\<lambda>_.
            wrapped (''imap delete folder '' @ quoted folder) (server (dl_DeleteFolder D folder)))))))))"

section \<open>Saving messages\<close>

record draft_message =
  dm_To :: "string list"
  dm_CC :: "string list"
  dm_BCC :: "string list"
  dm_Subject :: string
  dm_Body :: string
  dm_Mode :: string
  dm_Attachments :: "attachment list"

definition saveMessage ::
  "'d dialer \<Rightarrow> byte list \<Rightarrow> imap_ctx \<Rightarrow> draft_message \<Rightarrow> string list \<Rightarrow> string list \<Rightarrow> string \<Rightarrow> ('d, unit) imap_op" where
  "saveMessage D rnd ctx draft targets flags failureVerb =
    ibind (ctx_check ctx) (\<lambda>_.
      if dm_To draft = [] then ifail ''at least one TO recipient is required''
      else ibind (ensureConnectedLocked D) (\<lambda>_ w.
        let raw = Build rnd \<lparr>m_From = ic_username w, m_To = dm_To draft, m_CC = dm_CC draft, m_BCC = dm_BCC draft,
                   m_Subject = dm_Subject draft, m_Body = dm_Body draft, m_Mode = dm_Mode draft,
                   m_Attachments = dm_Attachments draft\<rparr>
        in first_target (''failed to '' @ failureVerb)
             (\<lambda>folder. ensureFolderThenRun D folder (\<lambda>f. server (dl_Append D f flags raw))) targets w))"

definition SaveDraft :: "'d dialer \<Rightarrow> byte list \<Rightarrow> imap_ctx \<Rightarrow> draft_message \<Rightarrow> ('d, unit) imap_op" where
  "SaveDraft D rnd ctx draft =
    saveMessage D rnd ctx draft [''Drafts'', ''INBOX/Drafts'', ''INBOX.Drafts''] [CHR 0x5C # ''Draft''] ''save draft''"

definition SaveSent :: "'d dialer \<Rightarrow> byte list \<Rightarrow> imap_ctx \<Rightarrow> draft_message \<Rightarrow> ('d, unit) imap_op" where
  "SaveSent D rnd ctx draft =
    saveMessage D rnd ctx draft
      [''Sent'', ''INBOX/Sent'', ''INBOX.Sent'', ''Sent Items'', ''INBOX/Sent Items'', ''INBOX.Sent Items'']
      [CHR 0x5C # ''Seen''] ''save sent mail''"

section \<open>The client the rules and the poller call\<close>

definition error_of :: "('d, unit) imap_op \<Rightarrow> 'd imap_world \<Rightarrow> string option \<times> 'd imap_world" where
  "error_of m w = (case m w of (Inl err, w') \<Rightarrow> (Some err, w') | (Inr _, w') \<Rightarrow> (None, w'))"

definition imap_mail_client :: "'d dialer \<Rightarrow> go_env \<Rightarrow> imap_ctx \<Rightarrow> 'd imap_world mail_client" where
  "imap_mail_client D e ctx call =
    (case call of
       ApplyLabel messageID label \<Rightarrow> error_of (ApplyLabel_op D ctx messageID label)
     | RemoveLabel messageID label \<Rightarrow> error_of (RemoveLabel_op D ctx messageID label)
     | ApplyInboxAction messageID action mailbox target \<Rightarrow>
         error_of (ApplyInboxAction_op D e ctx messageID action mailbox target)
     | EnsureLabel label \<Rightarrow> error_of (EnsureLabel_op ctx label))"

section \<open>What an action can destroy\<close>

lemma keeps_option: "keeps_op I m \<Longrightarrow> (\<And>x. keeps_op I (f x)) \<Longrightarrow> keeps_op I (case r of None \<Rightarrow> m | Some x \<Rightarrow> f x)"
  by (cases r) simp_all

lemma keeps_ensureFolderThenRun:
  assumes "\<And>f. keeps_cmd I (dl_CreateFolder D f)" "\<And>f. keeps_op I (try f)"
  shows "keeps_op I (ensureFolderThenRun D folder try)"
  unfolding ensureFolderThenRun_def by (intro keeps_intros keeps_cases assms)

lemma keeps_try_targets:
  assumes "\<And>f. keeps_op I (try f)"
  shows "keeps_op I (try_targets lastErr try folders)"
  by (induction folders arbitrary: lastErr) (auto intro!: keeps_intros keeps_cases assms)

lemma keeps_first_target:
  assumes "\<And>f. keeps_op I (try f)"
  shows "keeps_op I (first_target c try folders)"
  unfolding first_target_def by (intro keeps_intros keeps_option keeps_try_targets assms)

text \<open>The commands the client's writing operations use, except the deletion of messages and folders.\<close>

definition writes_keep :: "('d \<Rightarrow> bool) \<Rightarrow> 'd dialer \<Rightarrow> bool" where
  "writes_keep I D \<longleftrightarrow>
    looks_keep I D \<and> (\<forall>us. keeps_cmd I (dl_GetEmails D us)) \<and> (\<forall>u l b. keeps_cmd I (dl_SetKeyword D u l b)) \<and>
    (\<forall>u. keeps_cmd I (dl_MarkSeen D u)) \<and> (\<forall>u f. keeps_cmd I (dl_MoveEmail D u f)) \<and>
    (\<forall>f. keeps_cmd I (dl_CreateFolder D f)) \<and> (\<forall>f g. keeps_cmd I (dl_RenameFolder D f g)) \<and>
    (\<forall>f fl r. keeps_cmd I (dl_Append D f fl r))"

lemma writes_keepD:
  assumes "writes_keep I D"
  shows "looks_keep I D" "keeps_cmd I (dl_GetEmails D us)" "keeps_cmd I (dl_SetKeyword D u l b)"
    "keeps_cmd I (dl_MarkSeen D u)" "keeps_cmd I (dl_MoveEmail D u f)" "keeps_cmd I (dl_CreateFolder D f)"
    "keeps_cmd I (dl_RenameFolder D f g)" "keeps_cmd I (dl_Append D f fl r)"
  using assms by (auto simp: writes_keep_def)

lemma inbox_action_keeps:
  assumes "writes_keep I D" "\<not> (action = ''delete'' \<and> isTrashMailbox mailbox)"
  shows "keeps_op I (inbox_action D e uid action mailbox target)"
proof -
  note k = writes_keepD [OF assms(1)]
  have m: "keeps_op I (move_to D uid f)" for f
    unfolding move_to_def by (intro keeps_ensureFolderThenRun keeps_intros k)
  show ?thesis
    using assms(2) unfolding inbox_action_def Let_def
    by (auto intro!: keeps_intros keeps_if keeps_first_target m k)
qed

lemma with_uid_keeps: "(\<And>u. keeps_op I (k u)) \<Longrightarrow> keeps_op I (with_uid messageID k)"
  unfolding with_uid_def by (intro keeps_option keeps_intros)

lemma ApplyInboxAction_keeps:
  assumes "writes_keep I D" "\<not> (to_lower (trim_space action) = ''delete'' \<and> isTrashMailbox (trim_space mailbox))"
  shows "keeps_op I (ApplyInboxAction_op D e ctx messageID action mailbox target)"
  unfolding ApplyInboxAction_op_def
  by (intro keeps_intros with_uid_keeps keeps_connect inbox_action_keeps assms writes_keepD(1) [OF assms(1)])

lemma set_label_keeps: "writes_keep I D \<Longrightarrow> keeps_op I (set_label verb on D ctx messageID label)"
  unfolding set_label_def Let_def
  by (intro keeps_intros with_uid_keeps keeps_if keeps_connect) (auto dest: writes_keepD)

lemma imap_mail_client_keeps:
  assumes "writes_keep I D" "\<And>i t m. call = ApplyInboxAction i ''delete'' m t \<Longrightarrow> \<not> isTrashMailbox (trim_space m)"
    and "\<And>i a m t. call = ApplyInboxAction i a m t \<Longrightarrow> to_lower (trim_space a) = a"
    and "I (ic_server w)"
  shows "I (ic_server (snd (imap_mail_client D e ctx call w)))"
proof -
  have e: "I (ic_server (snd (error_of m w)))" if "keeps_op I m" for m
    using that assms(4) by (fastforce simp: error_of_def keeps_op_def split: prod.splits sum.splits)
  show ?thesis
  proof (cases call)
    case (ApplyInboxAction i a m t)
    then have "\<not> (to_lower (trim_space a) = ''delete'' \<and> isTrashMailbox (trim_space m))" using assms(2,3) by metis
    then show ?thesis
      using e ApplyInboxAction_keeps [OF assms(1)] ApplyInboxAction by (simp add: imap_mail_client_def)
  qed (use e set_label_keeps [OF assms(1)] in
    \<open>auto simp: imap_mail_client_def ApplyLabel_op_def RemoveLabel_op_def EnsureLabel_op_def intro!: e keeps_intros keeps_if\<close>)
qed

section \<open>Properties\<close>

text \<open>
  C32: whatever actions the rules that matched ask for, applying them to a mailbox other than Trash
  destroys no message: what holds of the server and can only be broken by deleting a message or a
  folder holds afterwards. (A rule that deletes moves to Trash.)
\<close>

theorem rules_destroy_nothing:
  assumes "writes_keep I D" "\<not> isTrashMailbox (trim_space mailbox)" "I (ic_server w)"
  shows "I (ic_server (snd (ApplyOutcome (imap_mail_client D e ctx) mailbox i out w)))"
proof -
  have lower: "to_lower (trim_space a) = a" if "a \<in> {''move'', ''read'', ''archive'', ''spam'', ''delete''}" for a
    using that by (auto; code_simp)
  have "I (ic_server (snd (imap_mail_client D e ctx call w)))"
    if "action_call mailbox messageID a = Inr (Some call)" "I (ic_server w)" for call messageID a w
    by (rule imap_mail_client_keeps [OF assms(1)])
      (use that assms(2) in \<open>auto simp: action_call_def Let_def lower split: if_splits\<close>)
  then have step: "call \<in> set (calls_of mailbox messageID as) \<Longrightarrow> I (ic_server w) \<Longrightarrow>
      I (ic_server (snd (imap_mail_client D e ctx call w)))" for call messageID as w
    by (auto simp: calls_of_def List.map_filter_def split: sum.splits option.splits)
  have "set cs \<subseteq> set (calls_of mailbox messageID as) \<Longrightarrow> I (ic_server w) \<Longrightarrow>
      I (ic_server (fold (\<lambda>call w. snd (imap_mail_client D e ctx call w)) cs w))" for cs messageID as w
    by (induction cs arbitrary: w) (auto dest: step)
  then show ?thesis
    using assms(3) apply_actions_spec unfolding ApplyOutcome_def by (metis order_refl)
qed

definition deleting_dialer :: "int list dialer" where
  "deleting_dialer = (example_dialer [5] [])\<lparr>dl_GetEmails := \<lambda>us d. (Inr (\<lambda>_. Some example_email), d),
     dl_DeleteEmail := \<lambda>u d. (Inr (), u # d)\<rparr>"

theorem rules_destroy_nothing_witness:
  "ic_server (snd (ApplyOutcome (imap_mail_client deleting_dialer (tally_env 0 None True) (\<lambda>_. None)) ''INBOX''
      \<lparr>ei_UID = 5, ei_MessageID = ''5'', ei_From = '''', ei_To = '''', ei_CC = '''', ei_BCC = '''', ei_Subject = '''',
       ei_Body = '''', ei_Keywords = [], ei_Folder = ''INBOX''\<rparr>
      \<lparr>o_Matched = [''r''], o_Applied = [\<lparr>a_Type = ''delete'', a_Value = ''''\<rparr>], o_Stopped = False\<rparr> example_client)) = []"
proof -
  have "writes_keep (\<lambda>d. d = []) deleting_dialer"
    by (simp add: writes_keep_def looks_keep_def deleting_dialer_def example_dialer_def keeps_cmd_def Let_def)
  moreover have "\<not> isTrashMailbox (trim_space ''INBOX'')" by code_simp
  ultimately show ?thesis
    using rules_destroy_nothing [of "\<lambda>d. d = []" deleting_dialer "''INBOX''" example_client] by (simp add: example_client_def)
qed

text \<open>
  RenameFolder takes a dot anywhere in the path for the separator: a folder below one whose name has
  a dot is moved out of it.
\<close>

lemma rename_leaves_parent:
  "fst (RenameFolder_op (example_dialer [] []) (\<lambda>_. None) ''A.b/c'' ''d'' example_client) = Inr ''A.b.d''"
  by code_simp

end
