(* ===== verification/Mailcache.thy ===== *)
theory Mailcache
  imports Fsutil Go_Text
begin

text \<open>
  The mail cache (backend/internal/mailcache): for every mailbox a window of message metadata with
  revision numbers, reconciled with the live mailbox by the API server (Sync) and warmed by the
  poller (Upsert), and what a client that asks with its cursor is told.
\<close>

section \<open>Entries\<close>

record cache_entry =
  ce_UID :: int
  ce_MessageID :: string
  ce_Subject :: string
  ce_Sender :: string
  ce_SentTo :: string
  ce_CC :: string
  ce_BCC :: string
  ce_Keywords :: "string list"
  ce_Status :: string
  ce_AtUTC :: string
  ce_Rev :: int
  ce_FirstRev :: int
  ce_Body :: string
  ce_HasAttachments :: bool
  ce_PGPEncrypted :: bool
  ce_PGPSigned :: bool
  ce_PGPVerified :: bool
  ce_PGPSignerFingerprint :: string
  ce_PGPProtectedSubject :: string

record cache_overview =
  vo_UID :: int
  vo_Subject :: string
  vo_Sender :: string
  vo_SentTo :: string
  vo_CC :: string
  vo_BCC :: string
  vo_Keywords :: "string list"
  vo_Status :: string
  vo_AtUTC :: string

record entry_meta =
  me_Subject :: string
  me_Sender :: string
  me_SentTo :: string
  me_CC :: string
  me_BCC :: string
  me_Status :: string
  me_AtUTC :: string
  me_Keywords :: "string list"

definition entry_meta_of :: "cache_entry \<Rightarrow> entry_meta" where
  "entry_meta_of e =
    \<lparr>me_Subject = ce_Subject e, me_Sender = ce_Sender e, me_SentTo = ce_SentTo e, me_CC = ce_CC e, me_BCC = ce_BCC e,
     me_Status = ce_Status e, me_AtUTC = ce_AtUTC e, me_Keywords = ce_Keywords e\<rparr>"

definition overview_meta_of :: "cache_overview \<Rightarrow> entry_meta" where
  "overview_meta_of o1 =
    \<lparr>me_Subject = vo_Subject o1, me_Sender = vo_Sender o1, me_SentTo = vo_SentTo o1, me_CC = vo_CC o1, me_BCC = vo_BCC o1,
     me_Status = vo_Status o1, me_AtUTC = vo_AtUTC o1, me_Keywords = vo_Keywords o1\<rparr>"

definition overviewMetaEqual :: "cache_entry \<Rightarrow> cache_overview \<Rightarrow> bool" where
  "overviewMetaEqual a b \<longleftrightarrow> entry_meta_of a = overview_meta_of b"

definition entryMetaEqual :: "cache_entry \<Rightarrow> cache_entry \<Rightarrow> bool" where
  "entryMetaEqual a b \<longleftrightarrow> entry_meta_of a = entry_meta_of b"

definition entryFromOverview :: "cache_overview \<Rightarrow> cache_entry" where
  "entryFromOverview o1 =
    \<lparr>ce_UID = vo_UID o1, ce_MessageID = itoa (vo_UID o1), ce_Subject = vo_Subject o1, ce_Sender = vo_Sender o1,
     ce_SentTo = vo_SentTo o1, ce_CC = vo_CC o1, ce_BCC = vo_BCC o1, ce_Keywords = vo_Keywords o1,
     ce_Status = vo_Status o1, ce_AtUTC = vo_AtUTC o1, ce_Rev = 0, ce_FirstRev = 0, ce_Body = '''',
     ce_HasAttachments = False, ce_PGPEncrypted = False, ce_PGPSigned = False, ce_PGPVerified = False,
     ce_PGPSignerFingerprint = '''', ce_PGPProtectedSubject = ''''\<rparr>"

section \<open>The store\<close>

record mailbox_window =
  mw_Limit :: int
  mw_Seq :: int
  mw_Entries :: "cache_entry list"

type_synonym mail_cache = "string \<Rightarrow> mailbox_window option"
type_synonym cache_world = "(mail_cache, mail_cache) world"

definition maxWindowEntries :: nat where "maxWindowEntries = 5000"

definition cache_applyFile :: "mail_cache \<Rightarrow> mail_cache \<Rightarrow> mail_cache" where
  "cache_applyFile cf s = cf"

definition cache_file_of :: "mail_cache \<Rightarrow> mail_cache" where
  "cache_file_of s = s"

interpretation cache_js: json_store cache_applyFile cache_file_of
  by unfold_locales (simp_all add: cache_applyFile_def cache_file_of_def)

definition cache_New :: "go_env \<Rightarrow> mail_cache json_file \<Rightarrow> io_error option \<times> cache_world" where
  "cache_New e f = open_store cache_applyFile cache_file_of e (\<lambda>_. None) f"

definition empty_window :: mailbox_window where
  "empty_window = \<lparr>mw_Limit = 0, mw_Seq = 0, mw_Entries = []\<rparr>"

definition window_at :: "mail_cache \<Rightarrow> string \<Rightarrow> mailbox_window" where
  "window_at s key = (case s key of None \<Rightarrow> empty_window | Some win \<Rightarrow> win)"

text \<open>UIDs are distinct in a window (see \<open>window_ok\<close>), so an index by UID is a search.\<close>

definition entry_at :: "cache_entry list \<Rightarrow> int \<Rightarrow> cache_entry option" where
  "entry_at es u = List.find (\<lambda>e. ce_UID e = u) es"

definition cache_snapshot :: "string \<Rightarrow> int \<Rightarrow> mail_cache \<Rightarrow> cache_entry list \<times> bool" where
  "cache_snapshot key limit s =
    (if limit \<le> 0 then ([], False)
     else (case s key of
       None \<Rightarrow> ([], False)
     | Some win \<Rightarrow>
         if int (length (mw_Entries win)) < limit then (mw_Entries win, False)
         else let out = keep_last (nat limit) (mw_Entries win) in (out, list_all (\<lambda>e. ce_Body e \<noteq> '''') out)))"

definition Snapshot :: "string \<Rightarrow> int \<Rightarrow> cache_world \<Rightarrow> (cache_entry list \<times> bool) \<times> cache_world" where
  "Snapshot key limit = observe cache_applyFile (cache_snapshot key limit)"

record sync_result =
  sr_New :: "cache_entry list"
  sr_Updated :: "cache_entry list"
  sr_Removed :: "cache_entry list"
  sr_Cursor :: int

text \<open>
  The loop of Sync: the next revision is stamped on new entries and on those whose metadata changed;
  what only the warm path knows is carried over.
\<close>

definition carried_over :: "cache_entry \<Rightarrow> cache_overview \<Rightarrow> cache_entry" where
  "carried_over prev o1 =
    (entryFromOverview o1)\<lparr>ce_FirstRev := ce_FirstRev prev, ce_Body := ce_Body prev,
      ce_HasAttachments := ce_HasAttachments prev, ce_PGPEncrypted := ce_PGPEncrypted prev,
      ce_PGPSigned := ce_PGPSigned prev, ce_PGPVerified := ce_PGPVerified prev,
      ce_PGPSignerFingerprint := ce_PGPSignerFingerprint prev, ce_PGPProtectedSubject := ce_PGPProtectedSubject prev\<rparr>"

fun sync_entries :: "(int \<Rightarrow> cache_entry option) \<Rightarrow> int \<Rightarrow> cache_overview list \<Rightarrow> int \<times> cache_entry list" where
  "sync_entries prev seq [] = (seq, [])"
| "sync_entries prev seq (o1 # live) =
    (case prev (vo_UID o1) of
       None \<Rightarrow>
         (case sync_entries prev (seq + 1) live of (seq', es) \<Rightarrow>
            (seq', (entryFromOverview o1)\<lparr>ce_Rev := seq + 1, ce_FirstRev := seq + 1\<rparr> # es))
     | Some p \<Rightarrow>
         if \<not> overviewMetaEqual p o1 then
           (case sync_entries prev (seq + 1) live of (seq', es) \<Rightarrow> (seq', (carried_over p o1)\<lparr>ce_Rev := seq + 1\<rparr> # es))
         else (case sync_entries prev seq live of (seq', es) \<Rightarrow> (seq', p # es)))"

definition sync_window :: "int \<Rightarrow> cache_overview list \<Rightarrow> mailbox_window \<Rightarrow> mailbox_window \<times> cache_entry list" where
  "sync_window limit live win =
    (let resetWindow = mw_Limit win \<noteq> 0 \<and> mw_Limit win \<noteq> limit;
         (seq, es) = sync_entries (if resetWindow then (\<lambda>_. None) else entry_at (mw_Entries win)) (mw_Seq win) live;
         removed = (if resetWindow then [] else filter (\<lambda>e. ce_UID e \<notin> vo_UID ` set live) (mw_Entries win))
     in (\<lparr>mw_Limit = limit, mw_Seq = seq, mw_Entries = sort_key ce_UID es\<rparr>, removed))"

definition sync_report :: "int \<Rightarrow> mailbox_window \<Rightarrow> cache_entry list \<Rightarrow> sync_result" where
  "sync_report since win removed =
    \<lparr>sr_New = filter (\<lambda>e. \<not> ce_Rev e \<le> since \<and> ce_FirstRev e > since) (mw_Entries win),
     sr_Updated = filter (\<lambda>e. \<not> ce_Rev e \<le> since \<and> \<not> ce_FirstRev e > since) (mw_Entries win),
     sr_Removed = removed, sr_Cursor = mw_Seq win\<rparr>"

definition cache_Sync ::
  "go_env \<Rightarrow> string \<Rightarrow> int \<Rightarrow> cache_overview list \<Rightarrow> int \<Rightarrow> cache_world \<Rightarrow> (io_error + sync_result) \<times> cache_world" where
  "cache_Sync e key limit live since =
    transact cache_applyFile cache_file_of id e
      (\<lambda>s. case sync_window limit live (window_at s key) of
         (win, removed) \<Rightarrow> (Inr (sync_report since win removed), s(key \<mapsto> win), True))"

text \<open>The loop of Upsert.\<close>

definition refreshed_entry :: "cache_entry \<Rightarrow> cache_entry \<Rightarrow> cache_entry" where
  "refreshed_entry stored i =
    (let u = stored\<lparr>ce_Subject := ce_Subject i, ce_Sender := ce_Sender i, ce_SentTo := ce_SentTo i, ce_CC := ce_CC i,
                    ce_BCC := ce_BCC i, ce_Keywords := ce_Keywords i, ce_Status := ce_Status i, ce_AtUTC := ce_AtUTC i\<rparr>;
         b = (if ce_Body i \<noteq> ''''
              then u\<lparr>ce_Body := ce_Body i, ce_PGPEncrypted := ce_PGPEncrypted i, ce_PGPSigned := ce_PGPSigned i,
                     ce_PGPVerified := ce_PGPVerified i, ce_PGPSignerFingerprint := ce_PGPSignerFingerprint i,
                     ce_PGPProtectedSubject := ce_PGPProtectedSubject i\<rparr>
              else u)
     in b\<lparr>ce_HasAttachments := ce_HasAttachments i\<rparr>)"

definition upsert_entry :: "cache_entry \<Rightarrow> mailbox_window \<Rightarrow> mailbox_window" where
  "upsert_entry i win =
    (case entry_at (mw_Entries win) (ce_UID i) of
       None \<Rightarrow>
         win\<lparr>mw_Seq := mw_Seq win + 1,
             mw_Entries := mw_Entries win @ [i\<lparr>ce_Rev := mw_Seq win + 1, ce_FirstRev := mw_Seq win + 1\<rparr>]\<rparr>
     | Some stored \<Rightarrow>
         (let changed = \<not> entryMetaEqual stored i; seq = (if changed then mw_Seq win + 1 else mw_Seq win);
              updated = (if changed then (refreshed_entry stored i)\<lparr>ce_Rev := seq\<rparr> else refreshed_entry stored i)
          in win\<lparr>mw_Seq := seq,
                 mw_Entries := replace_first (\<lambda>e. ce_UID e = ce_UID i) (\<lambda>_. updated) (mw_Entries win)\<rparr>))"

definition upsert_window :: "cache_entry list \<Rightarrow> mailbox_window \<Rightarrow> mailbox_window" where
  "upsert_window entries win =
    (let w1 = fold upsert_entry entries win
     in w1\<lparr>mw_Entries := keep_last maxWindowEntries (sort_key ce_UID (mw_Entries w1))\<rparr>)"

definition cache_Upsert :: "go_env \<Rightarrow> string \<Rightarrow> cache_entry list \<Rightarrow> cache_world \<Rightarrow> (io_error + unit) \<times> cache_world" where
  "cache_Upsert e key entries w =
    (if entries = [] then (Inr (), w)
     else transact cache_applyFile cache_file_of id e
       (\<lambda>s. (Inr (), s(key \<mapsto> upsert_window entries (window_at s key)), True)) w)"

section \<open>The invariant\<close>

text \<open>Distinct UIDs, and positive revisions not ahead of the window's sequence number.\<close>

definition window_ok :: "mailbox_window \<Rightarrow> bool" where
  "window_ok win \<longleftrightarrow> distinct (map ce_UID (mw_Entries win)) \<and>
    0 \<le> mw_Seq win \<and>
    (\<forall>e\<in>set (mw_Entries win). 0 < ce_FirstRev e \<and> ce_FirstRev e \<le> ce_Rev e \<and> ce_Rev e \<le> mw_Seq win)"

lemma entry_at_Some: "entry_at es u = Some e \<Longrightarrow> e \<in> set es \<and> ce_UID e = u"
  unfolding entry_at_def by (auto dest: find_SomeD)

lemma entry_at_None: "entry_at es u = None \<longleftrightarrow> u \<notin> ce_UID ` set es"
  by (auto simp: entry_at_def find_None_iff)

lemma entry_at_mem: "distinct (map ce_UID es) \<Longrightarrow> e \<in> set es \<Longrightarrow> entry_at es (ce_UID e) = Some e"
proof -
  assume d: "distinct (map ce_UID es)" "e \<in> set es"
  obtain e' where "entry_at es (ce_UID e) = Some e'" using d(2) entry_at_None by (cases "entry_at es (ce_UID e)") auto
  with entry_at_Some [OF this] d show ?thesis by (auto simp: distinct_map inj_on_def)
qed

lemma entry_at_eqI:
  "distinct (map ce_UID es) \<Longrightarrow> distinct (map ce_UID es') \<Longrightarrow> set es = set es' \<Longrightarrow> entry_at es u = entry_at es' u"
proof (cases "entry_at es u")
  case (Some e)
  assume "distinct (map ce_UID es')" "set es = set es'"
  with entry_at_Some [OF Some] Some show ?thesis using entry_at_mem [of es' e] by auto
next
  case None
  assume "set es = set es'"
  with None show ?thesis using entry_at_None [of es u] entry_at_None [of es' u] by simp
qed

lemma refreshed_entry_simps [simp]:
  "ce_UID (refreshed_entry a i) = ce_UID a" "ce_Rev (refreshed_entry a i) = ce_Rev a"
  "ce_FirstRev (refreshed_entry a i) = ce_FirstRev a" "entry_meta_of (refreshed_entry a i) = entry_meta_of i"
  by (simp_all add: refreshed_entry_def Let_def entry_meta_of_def)

lemma entry_meta_rev [simp]: "entry_meta_of (e\<lparr>ce_Rev := n\<rparr>) = entry_meta_of e"
  "entry_meta_of (e\<lparr>ce_FirstRev := n\<rparr>) = entry_meta_of e"
  by (simp_all add: entry_meta_of_def)

lemma entry_meta_overview [simp]: "entry_meta_of (entryFromOverview o1) = overview_meta_of o1"
  "entry_meta_of (carried_over p o1) = overview_meta_of o1"
  by (simp_all add: entry_meta_of_def overview_meta_of_def entryFromOverview_def carried_over_def)

lemma entryFromOverview_UID [simp]: "ce_UID (entryFromOverview o1) = vo_UID o1" "ce_UID (carried_over p o1) = vo_UID o1"
  "ce_FirstRev (carried_over p o1) = ce_FirstRev p"
  by (simp_all add: entryFromOverview_def carried_over_def)

section \<open>What a client knows\<close>

text \<open>
  \<open>later c w w'\<close>: w' came from w, when its sequence number was at least c, without losing entries: an
  entry whose revision is not above c is in both with the same metadata, and an entry is older
  than c exactly when w has its UID.
\<close>

definition later :: "int \<Rightarrow> mailbox_window \<Rightarrow> mailbox_window \<Rightarrow> bool" where
  "later c w w' \<longleftrightarrow> mw_Seq w \<le> mw_Seq w' \<and> mw_Limit w' = mw_Limit w \<and> window_ok w' \<and>
    (\<forall>u e. entry_at (mw_Entries w) u = Some e \<longrightarrow>
      (\<exists>e'. entry_at (mw_Entries w') u = Some e' \<and> ce_FirstRev e' = ce_FirstRev e \<and>
        (ce_Rev e' = ce_Rev e \<and> entry_meta_of e' = entry_meta_of e \<or> ce_Rev e' > c))) \<and>
    (\<forall>u e'. entry_at (mw_Entries w') u = Some e' \<longrightarrow> entry_at (mw_Entries w) u = None \<longrightarrow> ce_FirstRev e' > c)"

lemma later_refl: "window_ok w \<Longrightarrow> later c w w"
  by (auto simp: later_def)

lemma later_old:
  assumes "later c w w'" "entry_at (mw_Entries w) u = Some e"
  obtains e' where "entry_at (mw_Entries w') u = Some e'" "ce_FirstRev e' = ce_FirstRev e"
    "ce_Rev e' = ce_Rev e \<and> entry_meta_of e' = entry_meta_of e \<or> ce_Rev e' > c"
  using assms unfolding later_def by blast

lemma later_new:
  "later c w w' \<Longrightarrow> entry_at (mw_Entries w') u = Some e' \<Longrightarrow> entry_at (mw_Entries w) u = None \<Longrightarrow> ce_FirstRev e' > c"
  unfolding later_def by blast

lemma later_trans:
  assumes "later c a b" "later c b d"
  shows "later c a d"
proof -
  have "\<exists>e'. entry_at (mw_Entries d) u = Some e' \<and> ce_FirstRev e' = ce_FirstRev e \<and>
        (ce_Rev e' = ce_Rev e \<and> entry_meta_of e' = entry_meta_of e \<or> ce_Rev e' > c)"
    if e: "entry_at (mw_Entries a) u = Some e" for u e
  proof -
    obtain e1 where 1: "entry_at (mw_Entries b) u = Some e1" "ce_FirstRev e1 = ce_FirstRev e"
      "ce_Rev e1 = ce_Rev e \<and> entry_meta_of e1 = entry_meta_of e \<or> ce_Rev e1 > c"
      using later_old [OF assms(1) e] by blast
    obtain e2 where 2: "entry_at (mw_Entries d) u = Some e2" "ce_FirstRev e2 = ce_FirstRev e1"
      "ce_Rev e2 = ce_Rev e1 \<and> entry_meta_of e2 = entry_meta_of e1 \<or> ce_Rev e2 > c"
      using later_old [OF assms(2) 1(1)] by blast
    show ?thesis using 1(2,3) 2 by (intro exI [of _ e2]) auto
  qed
  moreover have "ce_FirstRev e' > c"
    if e': "entry_at (mw_Entries d) u = Some e'" and n: "entry_at (mw_Entries a) u = None" for u e'
  proof (cases "entry_at (mw_Entries b) u")
    case None
    then show ?thesis using later_new [OF assms(2) e'] by simp
  next
    case (Some e1)
    then have "ce_FirstRev e1 > c" using later_new [OF assms(1) _ n] by simp
    moreover obtain e2 where "entry_at (mw_Entries d) u = Some e2" "ce_FirstRev e2 = ce_FirstRev e1"
      using later_old [OF assms(2) Some] by blast
    ultimately show ?thesis using e' by simp
  qed
  ultimately show ?thesis
    using assms(1,2) unfolding later_def by (auto intro: order_trans)
qed

lemma entry_at_append: "entry_at (es @ [e]) u =
    (case entry_at es u of Some x \<Rightarrow> Some x | None \<Rightarrow> if ce_UID e = u then Some e else None)"
  by (simp add: entry_at_def find_append split: option.split)

lemma entry_at_replace:
  assumes "entry_at es i = Some old" "ce_UID new = i"
  shows "entry_at (replace_first (\<lambda>e. ce_UID e = i) (\<lambda>_. new) es) u = (if u = i then Some new else entry_at es u)"
proof (cases "u = i")
  case True
  then show ?thesis using find_replace_first_same [of "\<lambda>e. ce_UID e = i" es old "\<lambda>_. new"] assms by (simp add: entry_at_def)
next
  case False
  then show ?thesis
    using find_replace_first_other [of "\<lambda>e. ce_UID e = i" "\<lambda>e. ce_UID e = u" "\<lambda>_. new" es] assms(2)
    by (auto simp: entry_at_def)
qed

lemma set_replace_cases:
  "x \<in> set (replace_first P (\<lambda>_. new) es) \<Longrightarrow> x = new \<or> x \<in> set es"
  by (induction es) (auto split: if_splits)

lemma upsert_entry_later:
  assumes "window_ok w" "c \<le> mw_Seq w"
  shows "later c w (upsert_entry i w)"
proof (cases "entry_at (mw_Entries w) (ce_UID i)")
  case None
  then have "ce_UID i \<notin> ce_UID ` set (mw_Entries w)" by (simp add: entry_at_None)
  then have "window_ok (upsert_entry i w)"
    using assms(1) None by (fastforce simp: window_ok_def upsert_entry_def)
  then show ?thesis
    using assms None by (auto simp: later_def upsert_entry_def entry_at_append split: option.splits if_splits)
next
  case (Some old)
  note o = entry_at_Some [OF Some]
  define new where "new = (if \<not> entryMetaEqual old i then (refreshed_entry old i)\<lparr>ce_Rev := mw_Seq w + 1\<rparr>
    else refreshed_entry old i)"
  have n: "ce_UID new = ce_UID i" "ce_FirstRev new = ce_FirstRev old"
    "ce_Rev new = ce_Rev old \<and> entry_meta_of new = entry_meta_of old \<or> ce_Rev new = mw_Seq w + 1 \<and> \<not> entryMetaEqual old i"
    using o by (auto simp: new_def entryMetaEqual_def)
  have u: "upsert_entry i w = w\<lparr>mw_Seq := (if \<not> entryMetaEqual old i then mw_Seq w + 1 else mw_Seq w),
      mw_Entries := replace_first (\<lambda>e. ce_UID e = ce_UID i) (\<lambda>_. new) (mw_Entries w)\<rparr>"
    using Some by (simp add: upsert_entry_def new_def Let_def)
  have old: "0 < ce_FirstRev old" "0 \<le> mw_Seq w" "ce_FirstRev old \<le> ce_Rev old" "ce_Rev old \<le> mw_Seq w" using assms(1) o by (auto simp: window_ok_def)
  have "distinct (map ce_UID (replace_first (\<lambda>e. ce_UID e = ce_UID i) (\<lambda>_. new) (mw_Entries w)))"
    using assms(1) map_replace_first_found [OF Some [unfolded entry_at_def], of ce_UID new] n(1) o
    by (simp add: window_ok_def)
  then have "window_ok (upsert_entry i w)"
    using assms(1) n old unfolding u window_ok_def by (fastforce dest: set_replace_cases)
  then show ?thesis
    using assms n old Some unfolding later_def u
    by (auto simp: entry_at_replace [OF Some n(1)] split: if_splits)
qed

lemma upsert_entries_later:
  "window_ok w \<Longrightarrow> c \<le> mw_Seq w \<Longrightarrow> later c w (fold upsert_entry is w)"
proof (induction "is" arbitrary: w)
  case (Cons i "is")
  have l: "later c w (upsert_entry i w)" by (rule upsert_entry_later [OF Cons.prems])
  then have "later c (upsert_entry i w) (fold upsert_entry is (upsert_entry i w))"
    using Cons.prems(2) by (intro Cons.IH) (auto simp: later_def)
  with l show ?case by (auto intro: later_trans)
qed (simp add: later_refl)

lemma length_upsert_entries: "length (mw_Entries (fold upsert_entry is w)) \<le> length (mw_Entries w) + length is"
proof (induction "is" arbitrary: w)
  case (Cons i "is")
  have "length (mw_Entries (upsert_entry i w)) \<le> Suc (length (mw_Entries w))"
    by (simp add: upsert_entry_def Let_def split: option.split)
  with Cons [of "upsert_entry i w"] show ?case by simp
qed simp

lemma window_ok_sort: "window_ok (w\<lparr>mw_Entries := sort_key ce_UID es\<rparr>) \<longleftrightarrow> window_ok (w\<lparr>mw_Entries := es\<rparr>)"
proof -
  have "distinct (map ce_UID (sort_key ce_UID es)) = distinct (map ce_UID es)"
    by (metis distinct_sort mset_map mset_sort mset_eq_imp_distinct_iff)
  then show ?thesis by (simp add: window_ok_def)
qed

lemma entry_at_sort: "distinct (map ce_UID es) \<Longrightarrow> entry_at (sort_key ce_UID es) u = entry_at es u"
  by (rule entry_at_eqI) (metis distinct_sort mset_map mset_sort mset_eq_imp_distinct_iff, simp_all)

text \<open>An Upsert that does not overflow the window loses nothing.\<close>

lemma upsert_window_later:
  assumes "window_ok w" "c \<le> mw_Seq w" "length (mw_Entries w) + length is \<le> maxWindowEntries"
  shows "later c w (upsert_window is w)"
    "length (mw_Entries (upsert_window is w)) \<le> length (mw_Entries w) + length is"
proof -
  let ?w = "fold upsert_entry is w"
  have l: "later c w ?w" by (rule upsert_entries_later [OF assms(1,2)])
  have len: "length (mw_Entries ?w) \<le> length (mw_Entries w) + length is" by (rule length_upsert_entries)
  have u: "upsert_window is w = ?w\<lparr>mw_Entries := sort_key ce_UID (mw_Entries ?w)\<rparr>"
    using len assms(3) by (simp add: upsert_window_def Let_def keep_last_def)
  have d: "distinct (map ce_UID (mw_Entries ?w))" using l by (simp add: later_def window_ok_def)
  have "window_ok (?w\<lparr>mw_Entries := mw_Entries ?w\<rparr>)" using l by (simp add: later_def)
  then have "window_ok (upsert_window is w)" unfolding u window_ok_sort .
  then show "later c w (upsert_window is w)"
    using l unfolding later_def u by (simp add: entry_at_sort [OF d])
  show "length (mw_Entries (upsert_window is w)) \<le> length (mw_Entries w) + length is"
    using len u by simp
qed

section \<open>What Sync reports\<close>

lemma sync_entries_spec:
  assumes "sync_entries prev seq live = (seq', es)" "0 \<le> seq"
    and "\<And>u p. prev u = Some p \<Longrightarrow> ce_UID p = u \<and> 0 < ce_FirstRev p \<and> ce_FirstRev p \<le> ce_Rev p \<and> ce_Rev p \<le> seq"
  shows "seq \<le> seq' \<and> map ce_UID es = map vo_UID live \<and> map entry_meta_of es = map overview_meta_of live \<and>
    (\<forall>e\<in>set es. 0 < ce_FirstRev e \<and> ce_FirstRev e \<le> ce_Rev e \<and> ce_Rev e \<le> seq' \<and>
      (case prev (ce_UID e) of Some p \<Rightarrow> ce_FirstRev e = ce_FirstRev p \<and> (e = p \<or> ce_Rev e > seq)
                             | None \<Rightarrow> ce_FirstRev e > seq))"
  using assms
proof (induction live arbitrary: seq seq' es)
  case (Cons o1 live)
  have up: "prev u = Some p \<Longrightarrow> ce_UID p = u \<and> 0 < ce_FirstRev p \<and> ce_FirstRev p \<le> ce_Rev p \<and> ce_Rev p \<le> seq + 1" for u p
    using Cons.prems(3) [of u p] by simp
  obtain s1 es1 where 1: "sync_entries prev (seq + 1) live = (s1, es1)" by fastforce
  obtain s2 es2 where 2: "sync_entries prev seq live = (s2, es2)" by fastforce
  have IH1: "seq + 1 \<le> s1 \<and> map ce_UID es1 = map vo_UID live \<and> map entry_meta_of es1 = map overview_meta_of live \<and>
    (\<forall>e\<in>set es1. 0 < ce_FirstRev e \<and> ce_FirstRev e \<le> ce_Rev e \<and> ce_Rev e \<le> s1 \<and>
      (case prev (ce_UID e) of Some p \<Rightarrow> ce_FirstRev e = ce_FirstRev p \<and> (e = p \<or> ce_Rev e > seq)
                             | None \<Rightarrow> ce_FirstRev e > seq))"
    using Cons.IH [OF 1 _ up] Cons.prems(2) by (fastforce split: option.splits)
  note IH2 = Cons.IH [OF 2 Cons.prems(2,3)]
  show ?case
  proof (cases "prev (vo_UID o1)")
    case None
    then show ?thesis using Cons.prems(1,2) IH1 1 by auto
  next
    case (Some p)
    note p = Cons.prems(3) [OF Some]
    show ?thesis
    proof (cases "overviewMetaEqual p o1")
      case True
      then show ?thesis using Cons.prems(1,2) Some p IH2 2 by (auto simp: overviewMetaEqual_def)
    next
      case False
      then show ?thesis using Cons.prems(1,2) Some p IH1 1 by auto
    qed
  qed
qed simp

definition client_view :: "mailbox_window \<Rightarrow> int \<Rightarrow> entry_meta option" where
  "client_view win u = map_option entry_meta_of (entry_at (mw_Entries win) u)"

text \<open>What a client makes of a report: the removed ones out, the new and the updated ones in.\<close>

definition apply_report :: "sync_result \<Rightarrow> (int \<Rightarrow> entry_meta option) \<Rightarrow> int \<Rightarrow> entry_meta option" where
  "apply_report r V u =
    (case entry_at (sr_New r @ sr_Updated r) u of
       Some e \<Rightarrow> Some (entry_meta_of e)
     | None \<Rightarrow> if u \<in> ce_UID ` set (sr_Removed r) then None else V u)"

definition live_view :: "cache_overview list \<Rightarrow> int \<Rightarrow> entry_meta option" where
  "live_view live u = map_option overview_meta_of (List.find (\<lambda>o1. vo_UID o1 = u) live)"

lemma find_map_key:
  "map k es = map l os \<Longrightarrow> map m es = map n os \<Longrightarrow>
   map_option m (List.find (\<lambda>e. k e = u) es) = map_option n (List.find (\<lambda>x. l x = u) os)"
proof (induction es arbitrary: os)
  case (Cons e es)
  then show ?case by (cases os) auto
qed simp

lemma entry_at_reported:
  assumes "distinct (map ce_UID (mw_Entries w))"
  shows "entry_at (sr_New (sync_report c w removed) @ sr_Updated (sync_report c w removed)) u =
    (case entry_at (mw_Entries w) u of Some e \<Rightarrow> if ce_Rev e > c then Some e else None | None \<Rightarrow> None)"
    (is "entry_at ?es u = _")
proof -
  have s: "set ?es = {e \<in> set (mw_Entries w). ce_Rev e > c}" by (auto simp: sync_report_def)
  have d: "distinct (map ce_UID ?es)"
    using assms by (auto simp: sync_report_def distinct_map inj_on_def)
  show ?thesis
  proof (cases "entry_at (mw_Entries w) u")
    case None
    then have "entry_at ?es u = None" unfolding entry_at_None s by auto
    with None show ?thesis by simp
  next
    case (Some e)
    note e = entry_at_Some [OF Some]
    show ?thesis
    proof (cases "ce_Rev e > c")
      case True
      have "e \<in> set ?es" unfolding s using e True by blast
      from entry_at_mem [OF d this] show ?thesis using e Some True by simp
    next
      case False
      have "entry_at ?es u = None"
        unfolding entry_at_None s using False e assms by (auto simp: distinct_map inj_on_def)
      with False Some show ?thesis by simp
    qed
  qed
qed

lemma sync_window_spec:
  assumes "window_ok w" "distinct (map vo_UID live)" "sync_window limit live w = (w', removed)"
  shows "window_ok w' \<and> mw_Limit w' = limit \<and> mw_Seq w \<le> mw_Seq w' \<and> client_view w' = live_view live \<and>
    (\<not> (mw_Limit w \<noteq> 0 \<and> mw_Limit w \<noteq> limit) \<longrightarrow>
      removed = filter (\<lambda>e. ce_UID e \<notin> vo_UID ` set live) (mw_Entries w) \<and>
      (\<forall>u e. entry_at (mw_Entries w') u = Some e \<longrightarrow>
        (case entry_at (mw_Entries w) u of Some p \<Rightarrow> ce_FirstRev e = ce_FirstRev p \<and> (e = p \<or> ce_Rev e > mw_Seq w)
                                         | None \<Rightarrow> ce_FirstRev e > mw_Seq w)))"
proof -
  let ?reset = "mw_Limit w \<noteq> 0 \<and> mw_Limit w \<noteq> limit"
  define prev where "prev = (if ?reset then (\<lambda>_. None) else entry_at (mw_Entries w))"
  obtain seq es where s: "sync_entries prev (mw_Seq w) live = (seq, es)" by fastforce
  have w': "w' = \<lparr>mw_Limit = limit, mw_Seq = seq, mw_Entries = sort_key ce_UID es\<rparr>"
    and r: "removed = (if ?reset then [] else filter (\<lambda>e. ce_UID e \<notin> vo_UID ` set live) (mw_Entries w))"
    using assms(3) s unfolding sync_window_def Let_def prev_def by auto
  have "ce_UID p = u \<and> 0 < ce_FirstRev p \<and> ce_FirstRev p \<le> ce_Rev p \<and> ce_Rev p \<le> mw_Seq w" if "prev u = Some p" for u p
    using that assms(1) unfolding prev_def window_ok_def by (auto dest!: entry_at_Some split: if_splits)
  from sync_entries_spec [OF s _ this] assms(1)
  have sp: "mw_Seq w \<le> seq" "map ce_UID es = map vo_UID live" "map entry_meta_of es = map overview_meta_of live"
    "\<forall>e\<in>set es. 0 < ce_FirstRev e \<and> ce_FirstRev e \<le> ce_Rev e \<and> ce_Rev e \<le> seq \<and>
      (case prev (ce_UID e) of Some p \<Rightarrow> ce_FirstRev e = ce_FirstRev p \<and> (e = p \<or> ce_Rev e > mw_Seq w)
                             | None \<Rightarrow> ce_FirstRev e > mw_Seq w)"
    by (auto simp: window_ok_def)
  have d: "distinct (map ce_UID es)" using sp(2) assms(2) by simp
  have "client_view w' = live_view live"
    using find_map_key [OF sp(2,3)]
    by (simp add: fun_eq_iff client_view_def live_view_def w' entry_at_sort [OF d]) (simp add: entry_at_def)
  moreover have "window_ok w'"
    using sp(1,4) assms(1) d unfolding w' window_ok_def by (auto simp: distinct_map inj_on_def)
  moreover have "(case entry_at (mw_Entries w) u of Some p \<Rightarrow> ce_FirstRev e = ce_FirstRev p \<and> (e = p \<or> ce_Rev e > mw_Seq w)
      | None \<Rightarrow> ce_FirstRev e > mw_Seq w)"
    if "\<not> ?reset" "entry_at (mw_Entries w') u = Some e" for u e
    using that sp(4) entry_at_Some [OF that(2)] unfolding prev_def w' by auto
  ultimately show ?thesis using w' r sp(1) by auto
qed

text \<open>
  A client that had the window's content at its cursor has it again after applying the report, and
  the entries it is told are new are those it did not have.
\<close>

lemma report_converges:
  assumes "window_ok w0" "later (mw_Seq w0) w0 w" "mw_Limit w0 = limit" "distinct (map vo_UID live)"
    and "sync_window limit live w = (w', removed)"
  shows "apply_report (sync_report (mw_Seq w0) w' removed) (client_view w0) = client_view w' \<and>
    (\<forall>e\<in>set (sr_New (sync_report (mw_Seq w0) w' removed)). client_view w0 (ce_UID e) = None) \<and>
    (\<forall>e\<in>set (sr_Updated (sync_report (mw_Seq w0) w' removed)). client_view w0 (ce_UID e) \<noteq> None)"
proof -
  let ?c = "mw_Seq w0"
  have w: "window_ok w" "?c \<le> mw_Seq w" "mw_Limit w = limit" using assms(2,3) by (auto simp: later_def)
  note sp = sync_window_spec [OF w(1) assms(4,5)]
  have ok: "window_ok w'" "distinct (map ce_UID (mw_Entries w'))" using sp by (auto simp: window_ok_def)
  have removed: "removed = filter (\<lambda>e. ce_UID e \<notin> vo_UID ` set live) (mw_Entries w)" using sp w(3) by auto
  have old: "case entry_at (mw_Entries w) u of Some p \<Rightarrow> ce_FirstRev e = ce_FirstRev p \<and> (e = p \<or> ce_Rev e > mw_Seq w)
      | None \<Rightarrow> ce_FirstRev e > mw_Seq w" if "entry_at (mw_Entries w') u = Some e" for u e
    using sp w(3) that by blast
  have live: "entry_at (mw_Entries w') u = None \<longleftrightarrow> u \<notin> vo_UID ` set live" for u
  proof -
    have "client_view w' u = live_view live u" using sp by simp
    then have "entry_at (mw_Entries w') u = None \<longleftrightarrow> List.find (\<lambda>o1. vo_UID o1 = u) live = None"
      by (cases "entry_at (mw_Entries w') u"; cases "List.find (\<lambda>o1. vo_UID o1 = u) live")
        (simp_all add: client_view_def live_view_def)
    then show ?thesis by (auto simp: find_None_iff)
  qed
  have first: "ce_FirstRev e > ?c \<longleftrightarrow> entry_at (mw_Entries w0) u = None"
    and same: "ce_Rev e \<le> ?c \<Longrightarrow> client_view w0 u = Some (entry_meta_of e)"
    if e: "entry_at (mw_Entries w') u = Some e" for u e
  proof -
    have b: "ce_FirstRev e \<le> ce_Rev e" using ok(1) entry_at_Some [OF e] by (auto simp: window_ok_def)
    consider (none) "entry_at (mw_Entries w) u = None" "ce_FirstRev e > mw_Seq w"
      | (some) p where "entry_at (mw_Entries w) u = Some p" "ce_FirstRev e = ce_FirstRev p" "e = p \<or> ce_Rev e > mw_Seq w"
      using old [OF e] by (cases "entry_at (mw_Entries w) u") auto
    then have "(ce_FirstRev e > ?c \<longleftrightarrow> entry_at (mw_Entries w0) u = None) \<and>
      (ce_Rev e \<le> ?c \<longrightarrow> client_view w0 u = Some (entry_meta_of e))"
    proof cases
      case none
      then show ?thesis using later_old [OF assms(2), of u] w(2) b by (cases "entry_at (mw_Entries w0) u") auto
    next
      case some
      show ?thesis
      proof (cases "entry_at (mw_Entries w0) u")
        case None
        then show ?thesis using later_new [OF assms(2) some(1)] some(2) b by auto
      next
        case (Some e0)
        obtain p' where "entry_at (mw_Entries w) u = Some p'" "ce_FirstRev p' = ce_FirstRev e0"
          "ce_Rev p' = ce_Rev e0 \<and> entry_meta_of p' = entry_meta_of e0 \<or> ce_Rev p' > ?c"
          using later_old [OF assms(2) Some] by blast
        moreover have "ce_FirstRev e0 \<le> ?c"
          using assms(1) entry_at_Some [OF Some] by (fastforce simp: window_ok_def)
        ultimately show ?thesis using some Some w(2) by (auto simp: client_view_def)
      qed
    qed
    then show "ce_FirstRev e > ?c \<longleftrightarrow> entry_at (mw_Entries w0) u = None"
      "ce_Rev e \<le> ?c \<Longrightarrow> client_view w0 u = Some (entry_meta_of e)" by auto
  qed
  have gone: "client_view w0 u = None \<or> u \<in> ce_UID ` set removed" if "entry_at (mw_Entries w') u = None" for u
  proof (cases "entry_at (mw_Entries w0) u")
    case (Some e0)
    then obtain e1 where "entry_at (mw_Entries w) u = Some e1" using later_old [OF assms(2) Some] by blast
    from entry_at_Some [OF this] show ?thesis using that live unfolding removed by (auto simp: image_iff)
  qed (simp add: client_view_def)
  have here: "u \<notin> ce_UID ` set removed" if "entry_at (mw_Entries w') u = Some e" for u e
  proof -
    have "u \<in> vo_UID ` set live" using that live [of u] by simp
    then show ?thesis unfolding removed by force
  qed
  have "apply_report (sync_report ?c w' removed) (client_view w0) u = client_view w' u" for u
  proof (cases "entry_at (mw_Entries w') u")
    case None
    then show ?thesis using gone [OF None]
      by (auto simp: apply_report_def entry_at_reported [OF ok(2)] client_view_def [of w']) (auto simp: sync_report_def)
  next
    case (Some e)
    then show ?thesis using same [OF Some] here [OF Some]
      by (auto simp: apply_report_def entry_at_reported [OF ok(2)] client_view_def [of w']) (auto simp: sync_report_def)
  qed
  moreover have "client_view w0 (ce_UID e) = None" if "e \<in> set (sr_New (sync_report ?c w' removed))" for e
    using that first [OF entry_at_mem [OF ok(2)], of e] by (auto simp: sync_report_def client_view_def)
  moreover have "client_view w0 (ce_UID e) \<noteq> None" if "e \<in> set (sr_Updated (sync_report ?c w' removed))" for e
    using that first [OF entry_at_mem [OF ok(2)], of e] by (auto simp: sync_report_def client_view_def)
  ultimately show ?thesis by blast
qed
section \<open>Synchronisation across the processes\<close>

lemma upsert_other: "v key = Some w \<Longrightarrow> k \<noteq> key \<Longrightarrow> (v(k \<mapsto> x)) key = Some w"
  by simp

lemma cache_Upsert_later:
  assumes "v key = Some w" "window_ok w0" "later (mw_Seq w0) w0 w" "length (mw_Entries w) + length es \<le> maxWindowEntries"
    and "cache_Upsert e k es (s, Json v) = (r, s', f)"
  obtains v' w' where "f = Json v'" "v' key = Some w'" "later (mw_Seq w0) w0 w'"
    "length (mw_Entries w') \<le> length (mw_Entries w) + length es"
proof -
  have w: "window_ok w" "mw_Seq w0 \<le> mw_Seq w" using assms(3) by (auto simp: later_def)
  note u = upsert_window_later [OF w assms(4)]
  have "f = Json v \<or> f = Json (v(k \<mapsto> upsert_window es (window_at v k)))"
    using assms(5) by (auto simp: cache_Upsert_def transact_Json cache_applyFile_def cache_file_of_def split: if_splits)
  then show thesis
  proof
    assume "f = Json v"
    then show thesis using that assms(1,3) by simp
  next
    assume f: "f = Json (v(k \<mapsto> upsert_window es (window_at v k)))"
    show thesis
    proof (cases "k = key")
      case True
      then have "window_at v k = w" using assms(1) by (simp add: window_at_def)
      then show thesis using that [OF f] True u(2) later_trans [OF assms(3) u(1)] by simp
    next
      case False
      then show thesis using that [OF f] assms(1,3) by simp
    qed
  qed
qed

lemma run_Upserts_later:
  assumes "v key = Some w" "window_ok w0" "later (mw_Seq w0) w0 w"
    and "length (mw_Entries w) + sum_list (map (\<lambda>(p, e, k, es). length es) ups) \<le> maxWindowEntries"
    and "run_procs (map (\<lambda>(p, e, k, es). (p, cache_Upsert e k es)) ups) ms (Json v) = (rs, ms', f)"
  shows "\<exists>v' w'. f = Json v' \<and> v' key = Some w' \<and> later (mw_Seq w0) w0 w'"
  using assms(1,3-)
proof (induction ups arbitrary: v w ms rs)
  case (Cons u ups)
  obtain p e k es where u: "u = (p, e, k, es)" by (metis prod_cases4)
  obtain r s f1 where o1: "cache_Upsert e k es (ms p, Json v) = (r, s, f1)" by (metis prod_cases3)
  have len: "length (mw_Entries w) + length es \<le> maxWindowEntries" using Cons.prems(3) u by simp
  obtain v1 w1 where 1: "f1 = Json v1" "v1 key = Some w1" "later (mw_Seq w0) w0 w1"
    "length (mw_Entries w1) \<le> length (mw_Entries w) + length es"
    by (rule cache_Upsert_later [OF Cons.prems(1) assms(2) Cons.prems(2) len o1])
  have l: "length (mw_Entries w1) + sum_list (map (\<lambda>(p, e, k, es). length es) ups) \<le> maxWindowEntries"
    using 1(4) Cons.prems(3) u by simp
  obtain rs1 where "run_procs (map (\<lambda>(p, e, k, es). (p, cache_Upsert e k es)) ups) (ms(p := s)) (Json v1) = (rs1, ms', f)"
    using Cons.prems(4) unfolding u 1(1) [symmetric]
    by (cases "run_procs (map (\<lambda>(p, e, k, es). (p, cache_Upsert e k es)) ups) (ms(p := s)) f1") (auto simp: o1)
  from Cons.IH [OF 1(2,3) l this] show ?case .
qed auto


definition sample_overview :: "int \<Rightarrow> string \<Rightarrow> cache_overview" where
  "sample_overview u status =
    \<lparr>vo_UID = u, vo_Subject = ''hello'', vo_Sender = ''a@b.c'', vo_SentTo = '''', vo_CC = '''', vo_BCC = '''',
     vo_Keywords = [], vo_Status = status, vo_AtUTC = ''''\<rparr>"

definition sample_window :: mailbox_window where
  "sample_window = fst (sync_window 2 [sample_overview 4 ''unread'', sample_overview 5 ''unread''] empty_window)"

definition cache_sync_env :: go_env where
  "cache_sync_env = \<lparr>env_now = 0, env_format = (\<lambda>_. ''''), env_parse = (\<lambda>_. None), env_rand = None, env_write_ok = True\<rparr>"

definition sample_cache_run :: "(io_error + sync_result) \<times> cache_world" where
  "sample_cache_run =
    (let live = [sample_overview 5 ''read'', sample_overview 6 ''unread''];
         ups = [(1 :: nat, cache_sync_env, ''INBOX'', [entryFromOverview (sample_overview 6 ''unread'')])]
     in case run_procs (map (\<lambda>(p, e, k, es). (p, cache_Upsert e k es)) ups) (\<lambda>_ _. None) (Json [''INBOX'' \<mapsto> sample_window]) of
          (_, _, f) \<Rightarrow> cache_Sync cache_sync_env ''INBOX'' 2 live (mw_Seq sample_window) (\<lambda>_. None, f))"


text \<open>
  A second client is not told of removals: the ones a synchronisation reports are those against
  the window, which another client's synchronisation has already replaced.
\<close>

lemma removal_told_once:
  assumes "w1 = fst (sync_window limit live w0)"
  shows "snd (sync_window limit live w1) = []"
proof -
  obtain seq es where s: "sync_entries (if mw_Limit w0 \<noteq> 0 \<and> mw_Limit w0 \<noteq> limit then \<lambda>_. None else entry_at (mw_Entries w0))
    (mw_Seq w0) live = (seq, es)" by fastforce
  have uids: "map ce_UID es = map vo_UID live" if "sync_entries prev sq live = (sq', es)" "\<And>u p. prev u = Some p \<Longrightarrow> ce_UID p = u"
    for prev sq sq' es
    using that by (induction live arbitrary: sq sq' es) (auto split: option.splits if_splits prod.splits)
  have "map ce_UID es = map vo_UID live" by (rule uids [OF s]) (auto dest: entry_at_Some split: if_splits)
  then have "ce_UID ` set es = vo_UID ` set live" by (metis list.set_map)
  then have "ce_UID e \<in> vo_UID ` set live" if "e \<in> set es" for e using that by blast
  then show ?thesis using assms s by (auto simp: sync_window_def Let_def filter_empty_conv split: prod.splits)
qed

end
