(* ===== verification/Poller.thy ===== *)
theory Poller
  imports Poller_Text Push_Dispatch Imap_Actions Sendas Mailcache Rules_Store Rules_Sieve Users_Store
begin

text \<open>
  The poller (backend/internal/processor/poller.go): what happens to one message (handleMessage), the
  loop over the unread messages of a user (tickUser) with its rate limit, failure handling and
  checkpoint, and what a whole tick reports. The user's stores, the classifier, the mail client, the
  health service and the network are the models of their own theories, put together in one state.
\<close>

section \<open>The world of a tick\<close>

record ('n, 'm, 's) poll_world = "'n push_world" +
  pw_mail :: 'm
  pw_global :: state_world
  pw_model :: "'s classifier_state"
  pw_rate :: "string \<Rightarrow> int list"
  pw_cache :: cache_world
  pw_rules :: rules_world
  pw_sendas :: sendas_world
  pw_mailConfig :: "string json_file"
  pw_key :: "string json_file"

definition on_mail :: "('m \<Rightarrow> 'r \<times> 'm) \<Rightarrow> ('n, 'm, 's) poll_world \<Rightarrow> 'r \<times> ('n, 'm, 's) poll_world" where
  "on_mail f w = (case f (pw_mail w) of (r, m) \<Rightarrow> (r, w\<lparr>pw_mail := m\<rparr>))"

definition on_model ::
  "('s classifier_state \<Rightarrow> 'r \<times> 's classifier_state) \<Rightarrow> ('n, 'm, 's) poll_world \<Rightarrow> 'r \<times> ('n, 'm, 's) poll_world" where
  "on_model f w = (case f (pw_model w) of (r, m) \<Rightarrow> (r, w\<lparr>pw_model := m\<rparr>))"

definition next_env :: "('n, 'm, 's) poll_world \<Rightarrow> ('n, 'm, 's) poll_world" where
  "next_env w = w\<lparr>uw_env := \<lambda>k. uw_env w (Suc k)\<rparr>"

definition on_global ::
  "(go_env \<Rightarrow> state_world \<Rightarrow> 'r \<times> state_world) \<Rightarrow> ('n, 'm, 's) poll_world \<Rightarrow> 'r \<times> ('n, 'm, 's) poll_world" where
  "on_global f w = (case f (uw_env w 0) (pw_global w) of (r, g) \<Rightarrow> (r, next_env (w\<lparr>pw_global := g\<rparr>)))"

definition on_cache ::
  "(go_env \<Rightarrow> cache_world \<Rightarrow> 'r \<times> cache_world) \<Rightarrow> ('n, 'm, 's) poll_world \<Rightarrow> 'r \<times> ('n, 'm, 's) poll_world" where
  "on_cache f w = (case f (uw_env w 0) (pw_cache w) of (r, c) \<Rightarrow> (r, next_env (w\<lparr>pw_cache := c\<rparr>)))"

definition on_rules :: "(rules_world \<Rightarrow> 'r \<times> rules_world) \<Rightarrow> ('n, 'm, 's) poll_world \<Rightarrow> 'r \<times> ('n, 'm, 's) poll_world" where
  "on_rules f w = (case f (pw_rules w) of (r, x) \<Rightarrow> (r, w\<lparr>pw_rules := x\<rparr>))"

text \<open>The send-as check uses up one environment for each alias and one for the sweep.\<close>

definition on_sendas :: "mail_view \<Rightarrow> ('n, 'm, 's) poll_world \<Rightarrow> ('n, 'm, 's) poll_world" where
  "on_sendas mv w =
    w\<lparr>pw_sendas := checkPendingSendAsAliases (uw_env w) mv (pw_sendas w),
      uw_env := \<lambda>k. uw_env w (k + Suc (length (fst (sendas_List (pw_sendas w)))))\<rparr>"

text \<open>
  What the poller works with: the network, the dispatcher, the model server, the redaction engine,
  RE2, the texts of errors, and what reading and using the mail configuration needs.
\<close>

record smtp_request =
  sq_host :: string
  sq_port :: int
  sq_addr :: string
  sq_username :: string
  sq_password :: string
  sq_from :: string
  sq_recipients :: "string list"
  sq_message :: string

record ('n, 's) poll_services =
  sv_net :: "'n push_net"
  sv_order :: "string list \<Rightarrow> string list"
  sv_dispatcher :: push_dispatcher
  sv_model :: "'s model_server"
  sv_template :: string
  sv_redact :: "string \<Rightarrow> string"
  sv_re2 :: re2_engine
  sv_io_text :: "io_error \<Rightarrow> string"
  sv_crypto_text :: "crypto_error \<Rightarrow> string"
  sv_aead :: aead
  sv_codec :: envelope_codec
  sv_payload :: "string \<Rightarrow> imap_payload option"
  sv_smtpHost :: string
  sv_smtpPort :: int
  sv_smtp :: "smtp_request \<Rightarrow> 'n \<Rightarrow> string option \<times> 'n"

text \<open>
  The context of one message: the mail client under it, and what the retry loops see of it, for the
  classifier and its k-th call and for the k-th keyword.
\<close>

record 'm message_ctx =
  mx_client :: "'m mail_client"
  mx_classify :: go_context
  mx_attempt :: "nat \<Rightarrow> classify_context"
  mx_label :: "nat \<Rightarrow> go_context"

record user_ctx =
  uc_id :: string
  uc_tuning :: string
  uc_settings :: notification_settings
  uc_autoLabelEnabled :: bool
  uc_rules :: "rule list"

text \<open>Steps that stop at the first error.\<close>

definition then_step ::
  "message_error option \<times> 'w \<Rightarrow> ('w \<Rightarrow> message_error option \<times> 'w) \<Rightarrow> message_error option \<times> 'w" where
  "then_step r k = (case r of (Some err, w) \<Rightarrow> (Some err, w) | (None, w) \<Rightarrow> k w)"

definition add_decision ::
  "('n, 's) poll_services \<Rightarrow> decision \<Rightarrow> ('n, 'm, 's) poll_world \<Rightarrow> message_error option \<times> ('n, 'm, 's) poll_world" where
  "add_decision svc d w =
    (case on_store (\<lambda>e. AddDecision e d) w of (r, w1) \<Rightarrow> (map_option (OtherErr \<circ> sv_io_text svc) r, w1))"

definition mark_processed ::
  "('n, 's) poll_services \<Rightarrow> string \<Rightarrow> ('n, 'm, 's) poll_world \<Rightarrow> message_error option \<times> ('n, 'm, 's) poll_world" where
  "mark_processed svc i w =
    (case on_store (\<lambda>e. MarkProcessed e i) w of ((u, r), w1) \<Rightarrow> (map_option (OtherErr \<circ> sv_io_text svc) r, w1))"

section \<open>Notifications\<close>

definition maybeSendPushNotification ::
  "('n, 's) poll_services \<Rightarrow> poll_config \<Rightarrow> user_ctx \<Rightarrow> inbox_message \<Rightarrow> string \<Rightarrow> string list \<Rightarrow>
   ('n, 'm, 's) poll_world \<Rightarrow> ('n, 'm, 's) poll_world" where
  "maybeSendPushNotification svc cfg uc msg selectedLabel messageKeywords w =
    (if \<not> shouldSendNotification (uc_settings uc) selectedLabel messageKeywords then w
     else
       (let (subs, w1) = on_store (\<lambda>_. ListNotificationSubscriptions) w;
            privateKeyPath = trim_space (pc_PrivateKeyPath cfg); publicKey = trim_space (pc_PublicKey cfg) in
        if subs = [] \<or> privateKeyPath = '''' \<or> publicKey = '''' then w1
        else snd (SendWebPush (sv_net svc) publicKey privateKeyPath 300
               \<lparr>wl_title = ''New Email'', wl_body = buildNotificationBody msg, wl_url = message_link msg selectedLabel,
                wl_tag = ''kypost-email-'' @ trim_space (im_ID msg)\<rparr> w1)))"

definition maybeSendNativePushNotification ::
  "('n, 's) poll_services \<Rightarrow> user_ctx \<Rightarrow> inbox_message \<Rightarrow> string \<Rightarrow> string list \<Rightarrow>
   ('n, 'm, 's) poll_world \<Rightarrow> ('n, 'm, 's) poll_world" where
  "maybeSendNativePushNotification svc uc msg selectedLabel messageKeywords w =
    (if \<not> shouldSendNotification (uc_settings uc) selectedLabel messageKeywords then w
     else
       (let (devices, w1) = on_store (\<lambda>_. ListNativeDevices) w in
        if devices = [] then w1
        else
          (let (title, body) = buildNativeNotificationText msg in
           snd (SendNativePush (sv_net svc) (sv_order svc) (sv_dispatcher svc)
             \<lparr>pm_Title = title, pm_Body = body, pm_Data = buildNativePushData msg messageKeywords title body\<rparr> w1))))"

definition notify ::
  "('n, 's) poll_services \<Rightarrow> poll_config \<Rightarrow> user_ctx \<Rightarrow> inbox_message \<Rightarrow> string \<Rightarrow> string list \<Rightarrow>
   ('n, 'm, 's) poll_world \<Rightarrow> ('n, 'm, 's) poll_world" where
  "notify svc cfg uc msg label keywords w =
    maybeSendNativePushNotification svc uc msg label keywords (maybeSendPushNotification svc cfg uc msg label keywords w)"

section \<open>Messages that are too large\<close>

definition notice_body :: "inbox_message \<Rightarrow> string" where
  "notice_body msg =
    ''An incoming message was rejected because it exceeded the '' @ itoa (MaxInboundMessageBytes div 2 ^ 20) @
    '' MiB size limit this server enforces, and was not read, classified, or filtered.'' @ Classifier.newline @ Classifier.newline @
    ''From: '' @ im_Sender msg @ Classifier.newline @ ''Subject: '' @ im_Subject msg @ Classifier.newline @ Classifier.newline @
    ''The message itself was left on the server exactly as delivered '' @ [CHR 0xE2, CHR 0x80, CHR 0x94] @
    '' check your mailbox directly to read it '' @ [CHR 0xE2, CHR 0x80, CHR 0x94] @
    '' but no label or rule was applied to it.''"

definition notifyMessageTooLarge ::
  "('n, 's) poll_services \<Rightarrow> inbox_message \<Rightarrow> ('n, 'm, 's) poll_world \<Rightarrow> string option \<times> ('n, 'm, 's) poll_world" where
  "notifyMessageTooLarge svc msg w0 =
    (let (r, key) = ReadIMAPConfigPayload (sv_aead svc) (sv_codec svc) (sv_payload svc) (uw_env w0 0) (pw_mailConfig w0) (pw_key w0);
         w = next_env (w0\<lparr>pw_key := key\<rparr>)
     in case r of
       Inl err \<Rightarrow> (Some (''read imap config: '' @ sv_crypto_text svc err), w)
     | Inr None \<Rightarrow> (Some ''no imap configuration on file for this account'', w)
     | Inr (Some payload) \<Rightarrow>
        (let accountAddr = SanitizeHeaderValue (ip_Username payload) in
         if accountAddr = '''' then (Some ''imap username is required to notify the account'', w)
         else
           (case ResolveSMTPTarget (sv_smtpHost svc) (sv_smtpPort svc) payload of
              Inl err \<Rightarrow> (Some err, w)
            | Inr (host, port, addr) \<Rightarrow>
                on_net (sv_smtp svc
                  \<lparr>sq_host = host, sq_port = port, sq_addr = addr, sq_username = ip_Username payload,
                   sq_password = ip_Password payload, sq_from = accountAddr, sq_recipients = [accountAddr],
                   sq_message = Build []
                     \<lparr>m_From = accountAddr, m_To = [accountAddr], m_CC = [], m_BCC = [],
                      m_Subject = ''Message rejected: too large to process'', m_Body = notice_body msg,
                      m_Mode = ''plain'', m_Attachments = []\<rparr>\<rparr>) w)))"

definition rejectOversizedMessage ::
  "('n, 's) poll_services \<Rightarrow> inbox_message \<Rightarrow> ('n, 'm, 's) poll_world \<Rightarrow> message_error option \<times> ('n, 'm, 's) poll_world" where
  "rejectOversizedMessage svc msg w =
    (let (err, w1) = notifyMessageTooLarge svc msg w;
         detail = ''message from '' @ quote (im_Sender msg) @ '' exceeded the '' @ itoa (MaxInboundMessageBytes div 2 ^ 20) @
           '' MiB inbound size limit and was not processed'' @
           (case err of None \<Rightarrow> '''' | Some e \<Rightarrow> ''; rejection notice could not be sent: '' @ e)
     in then_step (add_decision svc (decision_for msg '''' ''rejected_too_large'' detail) w1) (mark_processed svc (im_ID msg)))"
section \<open>The classifier\<close>

definition flagAICreditsExhausted :: "('n, 'm, 's) poll_world \<Rightarrow> ('n, 'm, 's) poll_world" where
  "flagAICreditsExhausted w =
    (let now = stamp (uw_env w 0); (_, w1) = on_global (\<lambda>e. SetAICreditsExhausted e now) w
     in on_health (\<lambda>_. health_SetAICreditsExhausted now) w1)"

definition clearAICreditsExhausted :: "('n, 'm, 's) poll_world \<Rightarrow> ('n, 'm, 's) poll_world" where
  "clearAICreditsExhausted w =
    (if \<not> fst (AICreditsExhausted (pw_global w)) then w
     else (let (_, w1) = on_global ClearAICreditsExhausted w in on_health (\<lambda>_. health_ClearAICreditsExhausted) w1))"

definition classify_call ::
  "('n, 's) poll_services \<Rightarrow> poll_config \<Rightarrow> 'm message_ctx \<Rightarrow> string \<Rightarrow> string \<Rightarrow> string \<Rightarrow> string \<Rightarrow>
   ('s classifier_state, string) attempt" where
  "classify_call svc cfg mx sender subject body tuning k st =
    (case Classify (sv_model svc) (sv_template svc) (mx_attempt mx k) (pc_Allowlist cfg) sender subject body tuning st of
       (Inr out, st') \<Rightarrow>
         (if out \<noteq> '''' then ((Inr out, False), st') else ((Inl ''classifier returned empty label'', True), st'))
     | (Inl err, st') \<Rightarrow> ((Inl err, \<not> isPermanentClassifierError err), st'))"

definition classifyWithRetry ::
  "('n, 's) poll_services \<Rightarrow> poll_config \<Rightarrow> 'm message_ctx \<Rightarrow> string \<Rightarrow> string \<Rightarrow> string \<Rightarrow> string \<Rightarrow>
   's classifier_state \<Rightarrow> (string + string) \<times> 's classifier_state" where
  "classifyWithRetry svc cfg mx sender subject body tuning =
    retry_Loop (mx_classify mx) 3 (classify_call svc cfg mx sender subject body tuning)"

section \<open>Labels\<close>

definition label_attempt :: "'m mail_client \<Rightarrow> string \<Rightarrow> string \<Rightarrow> ('m, unit) attempt" where
  "label_attempt client messageID keyword k m =
    (case client (EnsureLabel keyword) m of
       (Some err, m1) \<Rightarrow> ((Inl err, True), m1)
     | (None, m1) \<Rightarrow>
        (case client (ApplyLabel messageID keyword) m1 of
           (Some err, m2) \<Rightarrow> ((Inl err, True), m2)
         | (None, m2) \<Rightarrow> ((Inr (), False), m2)))"

definition applySingleKeywordWithRetry :: "go_context \<Rightarrow> 'm mail_client \<Rightarrow> string \<Rightarrow> string \<Rightarrow> 'm \<Rightarrow> string option \<times> 'm" where
  "applySingleKeywordWithRetry ctx client messageID keyword m =
    (case retry_Loop ctx 3 (label_attempt client messageID keyword) m of
       (Inl err, m') \<Rightarrow> (Some err, m') | (Inr _, m') \<Rightarrow> (None, m'))"

fun applyKeywordsWithRetry ::
  "(nat \<Rightarrow> go_context) \<Rightarrow> 'm mail_client \<Rightarrow> string \<Rightarrow> nat \<Rightarrow> string list \<Rightarrow> 'm \<Rightarrow> string option \<times> 'm" where
  "applyKeywordsWithRetry ctx client messageID k [] m = (None, m)"
| "applyKeywordsWithRetry ctx client messageID k (keyword # rest) m =
    (case applySingleKeywordWithRetry (ctx k) client messageID keyword m of
       (Some err, m') \<Rightarrow> (Some err, m')
     | (None, m') \<Rightarrow> applyKeywordsWithRetry ctx client messageID (Suc k) rest m')"

text \<open>The keywords of a label are set, the message retired and the decision recorded.\<close>

definition tag_message ::
  "('n, 's) poll_services \<Rightarrow> poll_config \<Rightarrow> user_ctx \<Rightarrow> 'm message_ctx \<Rightarrow> inbox_message \<Rightarrow> string \<Rightarrow> string \<Rightarrow>
   ('n, 'm, 's) poll_world \<Rightarrow> message_error option \<times> ('n, 'm, 's) poll_world" where
  "tag_message svc cfg uc mx msg label detail w =
    (let keywords = keywordsForSelectedLabel label (pc_KeywordMappings cfg);
         (err, w1) = on_mail (applyKeywordsWithRetry (mx_label mx) (mx_client mx) (im_ID msg) 0 keywords) w
     in case err of
       Some e \<Rightarrow> (Some (OtherErr e), w1)
     | None \<Rightarrow>
        then_step (mark_processed svc (im_ID msg) w1) (\<lambda>w2.
        then_step (add_decision svc (decision_for msg label ''applied'' detail) w2) (\<lambda>w3.
        (None, notify svc cfg uc msg label keywords w3))))"

section \<open>handleMessage\<close>

text \<open>The rules come first; True: a rule with a stop action has settled the message.\<close>

definition apply_rules ::
  "('n, 's) poll_services \<Rightarrow> poll_config \<Rightarrow> user_ctx \<Rightarrow> 'm message_ctx \<Rightarrow> inbox_message \<Rightarrow>
   ('n, 'm, 's) poll_world \<Rightarrow> (message_error + bool) \<times> ('n, 'm, 's) poll_world" where
  "apply_rules svc cfg uc mx msg w =
    (let outcome = Evaluate (sv_re2 svc) (rule_input msg) (uc_rules uc) in
     if o_Matched outcome = [] then (Inr False, w)
     else
       (let (results, w1) = on_mail (ApplyOutcome (mx_client mx) ''INBOX'' (rule_input msg) outcome) w in
        case add_decision svc (decision_for msg '''' ''applied'' (rules_detail (o_Matched outcome) results)) w1 of
          (Some err, w2) \<Rightarrow> (Inl err, w2)
        | (None, w2) \<Rightarrow>
           (if o_Stopped outcome then
              (case mark_processed svc (im_ID msg) w2 of
                 (Some err, w3) \<Rightarrow> (Inl err, w3)
               | (None, w3) \<Rightarrow> (Inr True, notify svc cfg uc msg '''' [] w3))
            else (Inr False, w2))))"

definition classify_message ::
  "('n, 's) poll_services \<Rightarrow> poll_config \<Rightarrow> user_ctx \<Rightarrow> 'm message_ctx \<Rightarrow> inbox_message \<Rightarrow>
   ('n, 'm, 's) poll_world \<Rightarrow> message_error option \<times> ('n, 'm, 's) poll_world" where
  "classify_message svc cfg uc mx msg w =
    (let body = classifier_body (sv_redact svc) msg (uw_store w);
         (r, w1) = on_model (classifyWithRetry svc cfg mx (im_Sender msg) (im_Subject msg) body (uc_tuning uc)) w
     in case r of
       Inl err \<Rightarrow>
         (Some (ClassifierErr err), if isAICreditsExhaustedError err then flagAICreditsExhausted w1 else w1)
     | Inr label \<Rightarrow>
        (let w2 = clearAICreditsExhausted w1; selected = SelectLabelFromText (pc_Allowlist cfg) label in
         if selected = '''' then
           then_step (mark_processed svc (im_ID msg)
               (snd (add_decision svc (decision_for msg '''' ''skipped'' ''no known label returned'') w2)))
             (\<lambda>w3. (None, notify svc cfg uc msg '''' [] w3))
         else tag_message svc cfg uc mx msg selected ''label applied successfully'' w2))"

definition handleMessage ::
  "('n, 's) poll_services \<Rightarrow> poll_config \<Rightarrow> user_ctx \<Rightarrow> 'm message_ctx \<Rightarrow> inbox_message \<Rightarrow>
   ('n, 'm, 's) poll_world \<Rightarrow> message_error option \<times> ('n, 'm, 's) poll_world" where
  "handleMessage svc cfg uc mx msg w =
    (if im_TooLarge msg then rejectOversizedMessage svc msg w
     else
       (case apply_rules svc cfg uc mx msg w of
          (Inl err, w1) \<Rightarrow> (Some err, w1)
        | (Inr True, w1) \<Rightarrow> (None, w1)
        | (Inr False, w1) \<Rightarrow>
           (if \<not> uc_autoLabelEnabled uc then
              (let label = disabledLabelingFallback (pc_Allowlist cfg)
               in tag_message svc cfg uc mx msg label (''automatic keyword labeling disabled; tagged '' @ label) w1)
            else classify_message svc cfg uc mx msg w1)))"

section \<open>The loop over a user's messages\<close>

definition recordMessageFailure ::
  "('n, 's) poll_services \<Rightarrow> poll_config \<Rightarrow> user_ctx \<Rightarrow> inbox_message \<Rightarrow> message_error \<Rightarrow>
   ('n, 'm, 's) poll_world \<Rightarrow> ('n, 'm, 's) poll_world" where
  "recordMessageFailure svc cfg uc msg err w =
    (let w1 = snd (add_decision svc (decision_for msg '''' ''failed'' (error_text err)) w);
         w2 = (if shouldMarkProcessedOnError err then snd (mark_processed svc (im_ID msg) w1) else w1)
     in notify svc cfg uc msg '''' [] w2)"

definition allow_message :: "poll_config \<Rightarrow> string \<Rightarrow> ('n, 'm, 's) poll_world \<Rightarrow> bool \<times> ('n, 'm, 's) poll_world" where
  "allow_message cfg userID w =
    (case allowByRate cfg (env_now (uw_env w 0)) userID (pw_rate w) of
       (ok, rate) \<Rightarrow> (ok, next_env (w\<lparr>pw_rate := rate\<rparr>)))"

definition one_message ::
  "('n, 's) poll_services \<Rightarrow> poll_config \<Rightarrow> user_ctx \<Rightarrow> 'm message_ctx \<Rightarrow> inbox_message \<Rightarrow>
   ('n, 'm, 's) poll_world \<Rightarrow> ('n, 'm, 's) poll_world" where
  "one_message svc cfg uc mx msg w =
    (case handleMessage svc cfg uc mx msg w of
       (None, w1) \<Rightarrow> w1
     | (Some err, w1) \<Rightarrow> recordMessageFailure svc cfg uc msg err w1)"

text \<open>The k-th message is handled in the context \<open>mxs k\<close>.\<close>

fun handle_messages ::
  "('n, 's) poll_services \<Rightarrow> poll_config \<Rightarrow> user_ctx \<Rightarrow> (nat \<Rightarrow> 'm message_ctx) \<Rightarrow> nat \<Rightarrow> inbox_message list \<Rightarrow>
   ('n, 'm, 's) poll_world \<Rightarrow> ('n, 'm, 's) poll_world" where
  "handle_messages svc cfg uc mxs k [] w = w"
| "handle_messages svc cfg uc mxs k (msg # rest) w =
    (if Seen (im_ID msg) (uw_store w) then handle_messages svc cfg uc mxs (Suc k) rest w
     else
       (case allow_message cfg (uc_id uc) w of
          (False, w1) \<Rightarrow> w1
        | (True, w1) \<Rightarrow> handle_messages svc cfg uc mxs (Suc k) rest (one_message svc cfg uc (mxs k) msg w1)))"

section \<open>tickUser\<close>

definition cache_entry_of :: "inbox_message \<Rightarrow> int \<Rightarrow> cache_entry" where
  "cache_entry_of msg uid =
    \<lparr>ce_UID = uid, ce_MessageID = im_ID msg, ce_Subject = im_Subject msg, ce_Sender = im_Sender msg,
     ce_SentTo = im_SentTo msg, ce_CC = im_CC msg, ce_BCC = im_BCC msg, ce_Keywords = im_Keywords msg,
     ce_Status = ''unread'', ce_AtUTC = im_AtUTC msg, ce_Rev = 0, ce_FirstRev = 0, ce_Body = im_Body msg,
     ce_HasAttachments = im_HasAttachments msg, ce_PGPEncrypted = False, ce_PGPSigned = False, ce_PGPVerified = False,
     ce_PGPSignerFingerprint = '''', ce_PGPProtectedSubject = ''''\<rparr>"

definition mailCacheEntriesFromMessages :: "inbox_message list \<Rightarrow> cache_entry list" where
  "mailCacheEntriesFromMessages messages =
    List.map_filter (\<lambda>msg. map_option (cache_entry_of msg) (atoi (trim_space (im_ID msg)))) messages"

text \<open>
  What a tick of one user starts from: the mail client's list operation, the user's settings (None:
  they cannot be loaded), the tuning file, whether the stores of rules and of the mail cache open, and
  the mailbox as the send-as check finds it. The user's state store is open.
\<close>

record 'm tick_input =
  ti_user :: string
  ti_list :: "string \<Rightarrow> 'm \<Rightarrow> (string + inbox_message list \<times> string) \<times> 'm"
  ti_settings :: "(notification_settings \<times> bool) option"
  ti_tuning :: "string option"
  ti_rules_open :: bool
  ti_cache_open :: bool
  ti_mail_view :: mail_view

definition DefaultUserSettings :: "notification_settings \<times> bool" where
  "DefaultUserSettings = (\<lparr>ns_Mode = ''none'', ns_Keywords = []\<rparr>, True)"

definition tick_ctx :: "'m tick_input \<Rightarrow> rule list \<Rightarrow> user_ctx" where
  "tick_ctx ti rules =
    (let settings = (case ti_settings ti of None \<Rightarrow> DefaultUserSettings | Some s \<Rightarrow> s) in
     \<lparr>uc_id = ti_user ti, uc_tuning = (case ti_tuning ti of None \<Rightarrow> '''' | Some b \<Rightarrow> trim_space b),
      uc_settings = fst settings, uc_autoLabelEnabled = snd settings, uc_rules = rules\<rparr>)"

text \<open>After the list operation: warm the cache, handle the messages, set the checkpoint.\<close>

definition process_fetched ::
  "('n, 's) poll_services \<Rightarrow> poll_config \<Rightarrow> user_ctx \<Rightarrow> (nat \<Rightarrow> 'm message_ctx) \<Rightarrow> bool \<Rightarrow> inbox_message list \<Rightarrow> string \<Rightarrow>
   ('n, 'm, 's) poll_world \<Rightarrow> ('n, 'm, 's) poll_world" where
  "process_fetched svc cfg uc mxs cache_open messages nextCheckpoint w =
    (let w1 = (if messages \<noteq> [] \<and> cache_open
               then snd (on_cache (\<lambda>e. cache_Upsert e ''INBOX'' (mailCacheEntriesFromMessages messages)) w) else w);
         w2 = handle_messages svc cfg uc mxs 0 messages w1
     in if nextCheckpoint \<noteq> '''' then snd (on_store (\<lambda>e. SetCheckpoint e nextCheckpoint) w2) else w2)"

text \<open>The beginning of tickUser: the rules of the user and the messages past the checkpoint.\<close>

definition tick_fetch ::
  "'m tick_input \<Rightarrow> ('n, 'm, 's) poll_world \<Rightarrow>
   (rule list \<times> (string + inbox_message list \<times> string)) \<times> ('n, 'm, 's) poll_world" where
  "tick_fetch ti w =
    (let (_, w1) = on_store (\<lambda>e. Cleanup e 30) w;
         (rules, w2) = (if ti_rules_open ti then on_rules rules_List w1 else ([], w1));
         (r, w3) = on_mail (ti_list ti (Checkpoint (uw_store w2))) w2
     in ((rules, r), w3))"

definition tickUser ::
  "('n, 's) poll_services \<Rightarrow> poll_config \<Rightarrow> 'm tick_input \<Rightarrow> (nat \<Rightarrow> 'm message_ctx) \<Rightarrow>
   ('n, 'm, 's) poll_world \<Rightarrow> string option \<times> ('n, 'm, 's) poll_world" where
  "tickUser svc cfg ti mxs w =
    (case tick_fetch ti w of
       ((rules, Inl err), w1) \<Rightarrow> (Some err, w1)
     | ((rules, Inr (messages, nextCheckpoint)), w1) \<Rightarrow>
        (None, on_sendas (ti_mail_view ti)
          (process_fetched svc cfg (tick_ctx ti rules) mxs (ti_cache_open ti) messages nextCheckpoint w1)))"

section \<open>A whole tick\<close>

text \<open>
  The users a tick polls, in the order of the list, and its report to the health service: for each
  polled user whether its tick failed; None when the list of users cannot be read.
\<close>

definition polled_users :: "(string \<Rightarrow> bool) \<Rightarrow> user list \<Rightarrow> user list" where
  "polled_users configured all = filter (\<lambda>u. u_Active u \<and> configured (u_ID u)) all"

definition tick_report :: "go_env \<Rightarrow> bool list option \<Rightarrow> health_service \<Rightarrow> health_service" where
  "tick_report e failures h =
    (case failures of
       None \<Rightarrow> MarkUnhealthy e [''users store unreadable''] h
     | Some fs \<Rightarrow>
        (let usersPolled = length fs; usersFailed = length (filter id fs) in
         if usersPolled > 0 \<and> usersFailed = usersPolled then MarkUnhealthy e [''imap unreachable for all users''] h
         else MarkHealthy e h))"

text \<open>An unread sweep forgets the checkpoint of every active user before a tick.\<close>

definition sweep_user :: "('n, 'm, 's) poll_world \<Rightarrow> ('n, 'm, 's) poll_world" where
  "sweep_user w = snd (on_store (\<lambda>e. SetCheckpoint e '''') w)"

end
