(* ===== verification/Poller_Safety.thy ===== *)
theory Poller_Safety
  imports Poller
begin

text \<open>
  What the poller guarantees whatever the classifier, the network and the push services answer: which
  messages are put before the model, which calls the mail client gets, and that no message is handed
  out by two ticks.
\<close>

section \<open>What a notification leaves alone\<close>

text \<open>
  The contract of an invariant J that the sending of notifications keeps: it may be broken by the
  steps of the user's store only, and those keep C.
\<close>

locale push_keeper =
  fixes J :: "('n, 'z) push_world_scheme \<Rightarrow> bool" and C :: "state_world \<Rightarrow> bool"
  assumes store_step: "J w \<Longrightarrow> (C (uw_store w) \<Longrightarrow> C s) \<Longrightarrow> J (w\<lparr>uw_store := s, uw_env := \<lambda>k. uw_env w (Suc k)\<rparr>)"
    and health_step: "J w \<Longrightarrow> J (w\<lparr>uw_health := h, uw_env := \<lambda>k. uw_env w (Suc k)\<rparr>)"
    and net_step: "J w \<Longrightarrow> J (w\<lparr>uw_net := n\<rparr>)"
    and refresh: "C s \<Longrightarrow> C (snd (refresh_with app s))"
    and transact_unit: "C s \<Longrightarrow> C (snd (st_transact e () body s))"
    and transact_bool: "C s \<Longrightarrow> C (snd (st_transact e False body2 s))"
begin

lemma J_store: "J w \<Longrightarrow> (\<And>e s. C s \<Longrightarrow> C (snd (f e s))) \<Longrightarrow> J (snd (on_store f w))"
  using store_step [of w "snd (f (uw_env w 0) (uw_store w))"] by (simp add: on_store_def split_beta)

lemma J_health: "J w \<Longrightarrow> J (on_health f w)"
  by (simp add: on_health_def health_step)

lemma J_net: "J w \<Longrightarrow> J (snd (on_net f w))"
  by (simp add: on_net_def split_beta net_step)

lemma C_ops:
  "C s \<Longrightarrow> C (snd (ListNotificationSubscriptions s))" "C s \<Longrightarrow> C (snd (ListNativeDevices s))"
  "C s \<Longrightarrow> C (snd (NativeDeliveryMode s))" "C s \<Longrightarrow> C (snd (RemoveNotificationSubscription e i s))"
  "C s \<Longrightarrow> C (snd (RemoveNativeDevice e i s))" "C s \<Longrightarrow> C (snd (EnqueuePullNotification e n s))"
  "C s \<Longrightarrow> C (snd (MarkProcessed e i s))" "C s \<Longrightarrow> C (snd (SetCheckpoint e i s))"
  using refresh [of s] transact_unit transact_bool
  by (simp_all add: ListNotificationSubscriptions_def ListNativeDevices_def NativeDeliveryMode_def
      refreshNotifications_def refreshNativeDevices_def refreshPull_def RemoveNotificationSubscription_def
      RemoveNativeDevice_def EnqueuePullNotification_def MarkProcessed_def SetCheckpoint_def split_beta)

lemma J_web_sends: "J w \<Longrightarrow> J (snd (web_sends net opts payload subs w))"
  by (induction subs arbitrary: w) (simp_all add: Let_def split_beta J_net)

lemma J_remove_stale: "J w \<Longrightarrow> J (snd (remove_stale endpoints w))"
  by (induction endpoints arbitrary: w) (simp_all add: Let_def split_beta J_store C_ops)

lemma J_SendWebPush: "J w \<Longrightarrow> J (snd (SendWebPush net pub key ttl payload w))"
  unfolding SendWebPush_def Let_def
  by (auto simp: split_beta J_store C_ops J_web_sends J_remove_stale split: sum.split)

lemma J_send_device: "J w \<Longrightarrow> J (snd (send_device net d msg x l w))"
  unfolding send_device_def Let_def
  by (auto simp: split_beta J_store C_ops J_net split: option.split send_error.split)

lemma J_send_devices: "J w \<Longrightarrow> J (snd (send_devices net d msg xs l w))"
  by (induction xs arbitrary: l w) (simp_all add: Let_def split_beta J_send_device)

lemma J_fold: "J w \<Longrightarrow> (\<And>p w. J w \<Longrightarrow> J (f p w)) \<Longrightarrow> J (fold f ps w)"
  by (induction ps arbitrary: w) simp_all

lemma J_report_health: "J w \<Longrightarrow> J (report_health order l w)"
  unfolding report_health_def Let_def
  by (intro J_fold) (auto simp: J_health split: option.split)

lemma J_SendNativePush: "J w \<Longrightarrow> J (snd (SendNativePush net order d msg w))"
  unfolding SendNativePush_def SendNativePushToDevices_def Let_def
  by (auto simp: split_beta J_store C_ops J_send_devices J_report_health)

end
text \<open>The same for the steps of the poller around one message.\<close>

locale poll_keeper = push_keeper J C
  for J :: "('n, 'm, 's) poll_world \<Rightarrow> bool" and C :: "state_world \<Rightarrow> bool" +
  assumes add_step: "C s \<Longrightarrow> C (snd (AddDecision e d s))"
    and key_step: "J w \<Longrightarrow> J (next_env (w\<lparr>pw_key := key\<rparr>))"
begin

lemma J_notify: "J w \<Longrightarrow> J (notify svc cfg uc msg label kws w)"
  unfolding notify_def maybeSendNativePushNotification_def maybeSendPushNotification_def Let_def
  by (simp add: split_beta J_store C_ops J_SendWebPush J_SendNativePush)

lemma J_add_decision: "J w \<Longrightarrow> J (snd (add_decision svc d w))"
  by (simp add: add_decision_def split_beta J_store add_step)

lemma J_mark_processed: "J w \<Longrightarrow> J (snd (mark_processed svc i w))"
  by (simp add: mark_processed_def split_beta J_store C_ops)

lemma J_then_step: "J (snd r) \<Longrightarrow> (\<And>w. J w \<Longrightarrow> J (snd (k w))) \<Longrightarrow> J (snd (then_step r k))"
  by (cases r) (auto simp: then_step_def split: option.split)

lemma J_notifyMessageTooLarge: "J w \<Longrightarrow> J (snd (notifyMessageTooLarge svc msg w))"
  unfolding notifyMessageTooLarge_def Let_def
  by (auto simp: split_beta J_net key_step split: sum.split option.split)

lemma J_rejectOversizedMessage: "J w \<Longrightarrow> J (snd (rejectOversizedMessage svc msg w))"
  unfolding rejectOversizedMessage_def Let_def split_beta
  by (intro J_then_step J_add_decision J_notifyMessageTooLarge J_mark_processed)

lemma J_recordMessageFailure: "J w \<Longrightarrow> J (recordMessageFailure svc cfg uc msg err w)"
  by (simp add: recordMessageFailure_def Let_def J_notify J_add_decision J_mark_processed)

text \<open>What is left of a message once the mail client has done its part.\<close>

lemma J_tag_message:
  assumes "J w" "\<And>m. J (snd (on_mail (applyKeywordsWithRetry (mx_label mx) (mx_client mx) (im_ID msg) 0
      (keywordsForSelectedLabel label (pc_KeywordMappings cfg))) w))"
  shows "J (snd (tag_message svc cfg uc mx msg label detail w))"
  using assms(2) unfolding tag_message_def Let_def split_beta
  by (auto intro!: J_then_step J_mark_processed J_add_decision J_notify split: option.split)

lemma J_apply_rules:
  assumes "J w" "J (snd (on_mail (ApplyOutcome (mx_client mx) ''INBOX'' (rule_input msg)
      (Evaluate (sv_re2 svc) (rule_input msg) (uc_rules uc))) w))"
  shows "J (snd (apply_rules svc cfg uc mx msg w))"
proof -
  let ?w1 = "snd (on_mail (ApplyOutcome (mx_client mx) ''INBOX'' (rule_input msg)
      (Evaluate (sv_re2 svc) (rule_input msg) (uc_rules uc))) w)"
  have a: "J (snd (add_decision svc d ?w1))" for d by (rule J_add_decision [OF assms(2)])
  have m: "J (snd (mark_processed svc i (snd (add_decision svc d ?w1))))" for d i by (rule J_mark_processed [OF a])
  show ?thesis
    unfolding apply_rules_def Let_def split_beta by (simp add: assms(1) a m J_notify split: option.split)
qed

end

text \<open>
  The contract of an invariant of a whole message: it may depend on the mail client's state, which
  has M.
\<close>

locale message_keeper = poll_keeper J C
  for J :: "('n, 'm, 's) poll_world \<Rightarrow> bool" and C :: "state_world \<Rightarrow> bool" +
  fixes M :: "'m \<Rightarrow> bool"
  assumes mail_step: "J w \<Longrightarrow> (M (pw_mail w) \<Longrightarrow> M m) \<Longrightarrow> J (w\<lparr>pw_mail := m\<rparr>)"
    and model_step: "J w \<Longrightarrow> J (w\<lparr>pw_model := x\<rparr>)"
    and global_step: "J w \<Longrightarrow> J (next_env (w\<lparr>pw_global := g\<rparr>))"
begin

lemma J_mail: "J w \<Longrightarrow> (\<And>m. M m \<Longrightarrow> M (snd (f m))) \<Longrightarrow> J (snd (on_mail f w))"
  using mail_step [of w "snd (f (pw_mail w))"] by (simp add: on_mail_def split_beta)

lemma J_credits: "J w \<Longrightarrow> J (flagAICreditsExhausted w)" "J w \<Longrightarrow> J (clearAICreditsExhausted w)"
  by (simp_all add: flagAICreditsExhausted_def clearAICreditsExhausted_def Let_def on_global_def split_beta global_step J_health)

lemma M_keywords:
  assumes "\<And>k m. k \<in> set ks \<Longrightarrow> M m \<Longrightarrow> M (snd (client (EnsureLabel k) m)) \<and> M (snd (client (ApplyLabel i k) m))" "M m"
  shows "M (snd (applyKeywordsWithRetry ctx client i n ks m))"
  using assms
proof (induction ks arbitrary: n m)
  case (Cons k ks)
  have "M (snd (label_attempt client i k j x)) \<and> (\<forall>y. fst (fst (label_attempt client i k j x)) = Inr y \<longrightarrow> True)"
    if "M x" for j x
    using that Cons.prems(1) [of k] by (simp add: label_attempt_def split_beta split: option.split)
  from retry_Loop_inv(1) [OF this Cons.prems(2)]
  have "M (snd (applySingleKeywordWithRetry (ctx n) client i k m))"
    by (simp add: applySingleKeywordWithRetry_def split_beta split: sum.split)
  then show ?case using Cons.IH Cons.prems(1) by (auto split: prod.split option.split)
qed simp

lemma M_rules:
  assumes "\<And>call m. call \<in> set (calls_of mb i as) \<Longrightarrow> M m \<Longrightarrow> M (snd (client call m))" "M m"
  shows "M (snd (apply_actions client mb i as m))"
proof -
  have "set cs \<subseteq> set (calls_of mb i as) \<Longrightarrow> M m \<Longrightarrow> M (fold (\<lambda>call c. snd (client call c)) cs m)" for cs m
    by (induction cs arbitrary: m) (simp_all add: assms(1))
  from this [OF order_refl assms(2)] show ?thesis using apply_actions_spec by metis
qed

end

text \<open>
  The calls of the mail client a message may lead to: the actions of the rules that fire, and the
  keywords of a label of the configuration.
\<close>

definition permitted_call :: "('n, 's) poll_services \<Rightarrow> poll_config \<Rightarrow> user_ctx \<Rightarrow> inbox_message \<Rightarrow> mail_call \<Rightarrow> bool" where
  "permitted_call svc cfg uc msg call \<longleftrightarrow>
    call \<in> set (calls_of ''INBOX'' (im_ID msg) (o_Applied (Evaluate (sv_re2 svc) (rule_input msg) (uc_rules uc)))) \<or>
    (\<exists>label\<in>insert (disabledLabelingFallback (pc_Allowlist cfg)) (set (pc_Allowlist cfg)).
      \<exists>k\<in>set (keywordsForSelectedLabel label (pc_KeywordMappings cfg)). call = EnsureLabel k \<or> call = ApplyLabel (im_ID msg) k)"

context message_keeper
begin

lemma J_handleMessage:
  assumes "J w" "\<And>call m. permitted_call svc cfg uc msg call \<Longrightarrow> M m \<Longrightarrow> M (snd (mx_client mx call m))"
  shows "J (snd (handleMessage svc cfg uc mx msg w))"
proof -
  have tag: "J (snd (tag_message svc cfg uc mx msg label detail v))"
    if "J v" "label \<in> insert (disabledLabelingFallback (pc_Allowlist cfg)) (set (pc_Allowlist cfg))" for v label detail
    by (intro J_tag_message that(1) J_mail M_keywords conjI assms(2)) (use that(2) in \<open>auto simp: permitted_call_def\<close>)
  have "J (snd (on_mail (ApplyOutcome (mx_client mx) ''INBOX'' (rule_input msg)
      (Evaluate (sv_re2 svc) (rule_input msg) (uc_rules uc))) w))"
    unfolding ApplyOutcome_def
    by (intro J_mail assms(1) M_rules assms(2)) (auto simp: permitted_call_def rule_input_def)
  then have rules: "J (snd (apply_rules svc cfg uc mx msg w))" by (rule J_apply_rules [OF assms(1)])
  have "J (snd (classify_message svc cfg uc mx msg v))" if "J v" for v
  proof -
    obtain r v1 where c: "on_model (classifyWithRetry svc cfg mx (im_Sender msg) (im_Subject msg)
        (classifier_body (sv_redact svc) msg (uw_store v)) (uc_tuning uc)) v = (r, v1)" by fastforce
    then have v1: "J v1" using model_step [OF that] by (auto simp: on_model_def split: prod.splits)
    show ?thesis
    proof (cases r)
      case (Inl err)
      then show ?thesis using c v1 by (simp add: classify_message_def J_credits)
    next
      case (Inr label)
      let ?sel = "SelectLabelFromText (pc_Allowlist cfg) label"
      show ?thesis
      proof (cases "?sel = ''''")
        case True
        then show ?thesis using c v1 Inr
          by (auto simp: classify_message_def Let_def J_credits intro!: J_then_step J_mark_processed J_add_decision J_notify)
      next
        case False
        then show ?thesis using c v1 Inr tag [OF J_credits(2) [OF v1], of ?sel] SelectLabel_allowed [OF False]
          by (simp add: classify_message_def Let_def)
      qed
    qed
  qed
  then show ?thesis
    using rules tag J_rejectOversizedMessage [OF assms(1)]
    by (auto simp: handleMessage_def Let_def split: prod.split sum.split bool.split)
qed

end
section \<open>The invariants\<close>

lemma evaluate_loop_stopped:
  "o_Stopped (evaluate_loop re2 i rs out) \<Longrightarrow> \<not> o_Stopped out \<Longrightarrow> o_Matched (evaluate_loop re2 i rs out) \<noteq> []"
proof (induction rs arbitrary: out)
  case (Cons r rs)
  have grow: "o_Matched out' \<noteq> [] \<Longrightarrow> o_Matched (evaluate_loop re2 i xs out') \<noteq> []" for out' xs
    by (induction xs arbitrary: out') (simp_all add: Let_def)
  show ?case using Cons by (auto simp: Let_def grow split: if_splits)
qed simp

lemma stop_matches: "o_Stopped (Evaluate re2 i rs) \<Longrightarrow> o_Matched (Evaluate re2 i rs) \<noteq> []"
  unfolding Evaluate_def by (erule evaluate_loop_stopped) simp

interpretation model_kept: poll_keeper "\<lambda>w. pw_model w = x" "\<lambda>_. True" for x
  by unfold_locales (simp_all add: next_env_def)

lemma model_on_mail: "pw_model (snd (on_mail f w)) = pw_model w"
  by (simp add: on_mail_def split_beta)

interpretation mail_kept: message_keeper "\<lambda>w. M (pw_mail w)" "\<lambda>_. True" M for M
  by unfold_locales (simp_all add: next_env_def)

text \<open>The state file stays readable, and every write succeeds.\<close>

definition json_state :: "state_world \<Rightarrow> bool" where
  "json_state s \<longleftrightarrow> (\<exists>sf. sw_state s = Json sf)"

definition sound_world :: "('n, 'm, 's) poll_world \<Rightarrow> bool" where
  "sound_world w \<longleftrightarrow> json_state (uw_store w) \<and> (\<forall>k. env_write_ok (uw_env w k))"

lemma json_refresh: "json_state s \<Longrightarrow> json_state (snd (refresh_with app s))"
  by (auto simp: json_state_def refresh_with_def)

lemma json_then_io: "json_state (snd r) \<Longrightarrow> (\<And>w. json_state w \<Longrightarrow> json_state (snd (k w))) \<Longrightarrow> json_state (snd (then_io r k))"
  by (cases r) (auto simp: then_io_def split: option.split)

lemma json_persist: "json_state s \<Longrightarrow> json_state (snd (persistState e s))"
  unfolding persistState_def unless_dirty_def refreshNotifications_def refreshNativeDevices_def refreshPull_def
  by (intro json_then_io) (simp_all add: json_refresh, simp add: json_state_def)

lemma json_transact: "json_state s \<Longrightarrow> json_state (snd (st_transact e zero body s))"
proof -
  assume s: "json_state s"
  obtain r w1 where 1: "refreshState e s = (r, w1)" by fastforce
  have w1: "json_state w1" using json_refresh [OF s, of "applyStateFile e"] 1 by (simp add: refreshState_def)
  obtain v v_err s' p where b: "body (sw_mem w1) = (v, v_err, s', p)" by (metis prod_cases4)
  have w2: "json_state (w1\<lparr>sw_mem := s'\<rparr>)" using w1 by (simp add: json_state_def)
  obtain r2 w3 where 3: "persistState e (w1\<lparr>sw_mem := s'\<rparr>) = (r2, w3)" by fastforce
  have "json_state w3" using json_persist [OF w2, of e] 3 by simp
  with w1 w2 show ?thesis by (cases r; cases r2) (simp_all add: st_transact_def 1 b 3)
qed

lemma json_decisions: "json_state s \<Longrightarrow> json_state (snd (persistDecisions e s))"
  by (simp add: json_state_def persistDecisions_def)

lemma json_AddDecision: "json_state s \<Longrightarrow> json_state (snd (AddDecision e d s))"
  unfolding AddDecision_def Let_def by (rule json_decisions) (simp add: json_state_def)

interpretation sound: message_keeper sound_world json_state "\<lambda>_. True"
  by unfold_locales
    (auto simp: sound_world_def next_env_def json_refresh json_transact json_AddDecision)
section \<open>A tick and the next one\<close>

lemma SetCheckpoint_written:
  assumes "sw_state s = Json sf" "env_write_ok e"
  obtains sf' where "sw_state (snd (SetCheckpoint e v s)) = Json sf'" "sf_LastCheckpoint sf' = v"
proof -
  have m: "marks sf ((applyStateFile e sf (sw_mem s))\<lparr>st_checkpoint := v\<rparr>)"
    using marks_loaded [of sf e "sw_mem s"] by (simp add: marks_def)
  have "SetCheckpoint e v s = st_transact e () (\<lambda>s. ((), (), s\<lparr>st_checkpoint := v\<rparr>, True)) s" by (simp add: SetCheckpoint_def)
  then show thesis
    using that assms m by (simp add: st_transact_def refreshState_Json persist_marked state_file_of_def)
qed

lemma Cleanup_loads:
  assumes "sw_state s = Json sf"
  shows "Checkpoint (snd (Cleanup e n s)) = sf_LastCheckpoint sf"
proof -
  have keep: "Checkpoint (snd (then_io r k)) = c" if "Checkpoint (snd r) = c" "\<And>w. Checkpoint w = c \<Longrightarrow> Checkpoint (snd (k w)) = c"
    for r :: "io_error option \<times> state_world" and k c
    using that by (cases r) (auto simp: then_io_def split: option.split)
  have refresh: "Checkpoint (snd (refresh_with app w)) = Checkpoint w"
    if "\<And>sf x. st_checkpoint (app sf x) = st_checkpoint x" for app w
    using that by (simp add: refresh_with_def Checkpoint_def split: json_file.split)
  have p: "Checkpoint (snd (persistState e w)) = c" if "Checkpoint w = c" for w c
    unfolding persistState_def unless_dirty_def refreshNotifications_def refreshNativeDevices_def refreshPull_def
    by (intro keep) (simp_all add: refresh that, simp add: Checkpoint_def)
  have d: "Checkpoint (snd (persistDecisions e w)) = c" if "Checkpoint w = c" for w c
    using that by (simp add: persistDecisions_def Checkpoint_def)
  show ?thesis
    unfolding Cleanup_def Let_def
    by (intro keep p d) (use assms in \<open>simp_all add: refreshState_Json Checkpoint_def applyStateFile_def Let_def then_io_def\<close>)
qed

lemma json_Cleanup: "json_state s \<Longrightarrow> json_state (snd (Cleanup e n s))"
  unfolding Cleanup_def Let_def refreshState_def
  by (intro json_then_io json_refresh json_decisions json_persist) (simp_all add: json_state_def)

lemma tick_fetch_list:
  assumes "tick_fetch ti w = ((rules, r), w1)"
  obtains m m' where "ti_list ti (Checkpoint (snd (Cleanup (uw_env w 0) 30 (uw_store w)))) m = (r, m')"
    "uw_store w1 = snd (Cleanup (uw_env w 0) 30 (uw_store w))" "uw_env w1 = (\<lambda>k. uw_env w (Suc k))"
proof -
  let ?w1 = "snd (on_store (\<lambda>e. Cleanup e 30) w)"
  obtain w2 where w2: "(if ti_rules_open ti then on_rules rules_List ?w1 else ([], ?w1)) = (rules, w2)"
    and l: "on_mail (ti_list ti (Checkpoint (uw_store w2))) w2 = (r, w1)"
  proof
    let ?p = "if ti_rules_open ti then on_rules rules_List ?w1 else ([], ?w1)"
    show "?p = (rules, snd ?p)" "on_mail (ti_list ti (Checkpoint (uw_store (snd ?p)))) (snd ?p) = (r, w1)"
      using assms by (auto simp: tick_fetch_def Let_def split_beta intro!: prod_eqI)
  qed
  have "uw_store w2 = uw_store ?w1" "uw_env w2 = uw_env ?w1"
    using w2 by (auto simp: on_rules_def split: if_splits prod.splits)
  moreover have "uw_env ?w1 = (\<lambda>k. uw_env w (Suc k))" by (simp add: on_store_def split_beta)
  ultimately show thesis using l that by (auto simp: on_mail_def split: prod.splits)
qed

lemma sound_handle_messages: "sound_world w \<Longrightarrow> sound_world (handle_messages svc cfg uc mxs k msgs w)"
proof (induction msgs arbitrary: k w)
  case (Cons msg rest)
  have a: "sound_world (snd (allow_message cfg (uc_id uc) w))"
    using Cons.prems by (auto simp: allow_message_def sound_world_def next_env_def split: prod.split)
  have "sound_world (one_message svc cfg uc (mxs k) msg v)" if "sound_world v" for v
    using sound.J_handleMessage [OF that, of svc cfg uc msg "mxs k"] sound.J_recordMessageFailure
    by (auto simp: one_message_def split: prod.split option.split)
  with a Cons show ?case by (cases "allow_message cfg (uc_id uc) w") (auto split: bool.split)
qed simp

lemma process_fetched_checkpoint:
  assumes "sound_world w" "nextCheckpoint \<noteq> ''''"
  obtains sf where "sw_state (uw_store (process_fetched svc cfg uc mxs open msgs nextCheckpoint w)) = Json sf"
    "sf_LastCheckpoint sf = nextCheckpoint"
proof -
  let ?w1 = "if msgs \<noteq> [] \<and> open then snd (on_cache (\<lambda>e. cache_Upsert e ''INBOX'' (mailCacheEntriesFromMessages msgs)) w) else w"
  have "sound_world ?w1" using assms(1) by (simp add: on_cache_def split_beta sound_world_def next_env_def)
  then have s: "sound_world (handle_messages svc cfg uc mxs 0 msgs ?w1)" by (rule sound_handle_messages)
  then obtain sf where f: "sw_state (uw_store (handle_messages svc cfg uc mxs 0 msgs ?w1)) = Json sf"
    by (auto simp: sound_world_def json_state_def)
  show thesis
    by (rule SetCheckpoint_written [OF f, of "uw_env (handle_messages svc cfg uc mxs 0 msgs ?w1) 0" nextCheckpoint])
      (use s that assms(2) in \<open>auto simp: process_fetched_def Let_def sound_world_def\<close>)
qed

lemma polled_once:
  assumes "uids_32bit D" "uids_32bit D'" "ti_list ti = ListUnreadInbox D fmt ctx" "ti_list ti' = ListUnreadInbox D' fmt' ctx'"
    and "sound_world w" "tick_fetch ti w = ((rules, Inr (ms, next)), w1)"
    and "sw_state (uw_store w2) = sw_state (uw_store (snd (tickUser svc cfg ti mxs w)))"
    and "tick_fetch ti' w2 = ((rules', Inr (ms', next')), w3)"
  shows "set (map im_ID ms) \<inter> set (map im_ID ms') = {}"
proof (cases "ms = []")
  case False
  let ?cp = "Checkpoint (snd (Cleanup (uw_env w 0) 30 (uw_store w)))"
  obtain m m1 where l: "ListUnreadInbox D fmt ctx ?cp m = (Inr (ms, next), m1)"
    and w1: "uw_store w1 = snd (Cleanup (uw_env w 0) 30 (uw_store w))" "uw_env w1 = (\<lambda>k. uw_env w (Suc k))"
    using tick_fetch_list [OF assms(6)] unfolding assms(3) by metis
  obtain us where "map im_ID ms = map itoa us" "\<forall>u\<in>set us. parseCheckpointUID ?cp < u \<and> u \<le> parseCheckpointUID next"
    using ListUnreadInbox_ids [OF l assms(1)] by blast
  with False have "0 < parseCheckpointUID next" using parse_nonneg [of ?cp] by (cases us) auto
  then have n: "next \<noteq> ''''" by (auto simp: parseCheckpointUID_def)
  have "sound_world w1" using assms(5) json_Cleanup unfolding sound_world_def w1 by auto
  then obtain sf where "sw_state (uw_store (snd (tickUser svc cfg ti mxs w))) = Json sf" and sf: "sf_LastCheckpoint sf = next"
    using process_fetched_checkpoint [OF _ n, of w1 svc cfg "tick_ctx ti rules" mxs "ti_cache_open ti" ms] assms(6)
    by (auto simp: tickUser_def on_sendas_def)
  then have "Checkpoint (snd (Cleanup (uw_env w2 0) 30 (uw_store w2))) = next" using Cleanup_loads assms(7) by simp
  then obtain m2 m3 where "ListUnreadInbox D' fmt' ctx' next m2 = (Inr (ms', next'), m3)"
    using tick_fetch_list [OF assms(8)] unfolding assms(4) by metis
  from inbox_ids_disjoint [OF assms(1,2) l order_refl this] show ?thesis by blast
qed simp
section \<open>Worked examples\<close>

definition poll_example_world :: "'m \<Rightarrow> (unit, 'm, unit) poll_world" where
  "poll_example_world m =
    \<lparr>uw_env = \<lambda>k. tally_env (int k * second) None True,
     uw_store = \<lparr>sw_mem = state_empty, sw_state = Json (example_file ''push'' []), sw_decisions = Json []\<rparr>,
     uw_health = NewService (tally_env 0 None True), uw_net = (), pw_mail = m,
     pw_global = \<lparr>sw_mem = state_empty, sw_state = Missing, sw_decisions = Missing\<rparr>, pw_model = (True, ()),
     pw_rate = \<lambda>_. [], pw_cache = (\<lambda>_. None, Missing), pw_rules = (rules_empty, Missing), pw_sendas = ([], Missing),
     pw_mailConfig = Missing, pw_key = Missing\<rparr>"

definition poll_example_services :: "(unit, unit) poll_services" where
  "poll_example_services =
    \<lparr>sv_net = example_net 200, sv_order = id, sv_dispatcher = example_dispatcher,
     sv_model = \<lparr>ms_generate = \<lambda>_ s. (HttpReply 200 ''Work'', s), ms_pull = \<lambda>s. (HttpReply 200 '''', s), ms_decode = \<lambda>_. None\<rparr>,
     sv_template = '''', sv_redact = id, sv_re2 = (\<lambda>_ _. None), sv_io_text = (\<lambda>_. ''io''), sv_crypto_text = (\<lambda>_. ''key''),
     sv_aead = plain_aead, sv_codec = unary_codec, sv_payload = (\<lambda>_. None), sv_smtpHost = '''', sv_smtpPort = 0,
     sv_smtp = (\<lambda>_ n. (None, n))\<rparr>"

definition poll_example_rule :: rule where
  "poll_example_rule =
    \<lparr>r_ID = ''r'', r_Name = ''news'', r_Enabled = True, r_Order = 0, r_Scope = \<lparr>rs_Folders = []\<rparr>,
     r_Match = MatchGroup ''allof'' [Condition False None ''subject'' ''contains'' ''news''],
     r_Actions = [\<lparr>a_Type = ''read'', a_Value = ''''\<rparr>, \<lparr>a_Type = ''stop'', a_Value = ''''\<rparr>], r_Rev = 1, r_CreatedAt = '''', r_UpdatedAt = ''''\<rparr>"

definition poll_example_user :: user_ctx where
  "poll_example_user =
    \<lparr>uc_id = ''u'', uc_tuning = '''', uc_settings = \<lparr>ns_Mode = ''all'', ns_Keywords = []\<rparr>, uc_autoLabelEnabled = True,
     uc_rules = [poll_example_rule]\<rparr>"

definition poll_example_message :: "string \<Rightarrow> inbox_message" where
  "poll_example_message subject =
    \<lparr>im_ID = ''5'', im_Subject = subject, im_Sender = ''a@b'', im_SentTo = '''', im_CC = '''', im_BCC = '''', im_Keywords = [],
     im_AtUTC = '''', im_Body = ''text'', im_HasAttachments = False, im_TooLarge = False\<rparr>"

definition no_deadline :: go_context where
  "no_deadline = \<lparr>cx_cancelled = \<lambda>_. False, cx_err = ''''\<rparr>"

definition poll_example_ctx :: "'m mail_client \<Rightarrow> 'm message_ctx" where
  "poll_example_ctx client =
    \<lparr>mx_client = client, mx_classify = no_deadline,
     mx_attempt = \<lambda>_. \<lparr>cc_retry = no_deadline, cc_pace_cancelled = False\<rparr>, mx_label = \<lambda>_. no_deadline\<rparr>"

text \<open>A mail client that keeps a list of the calls it got.\<close>

definition recording_client :: "mail_call list mail_client" where
  "recording_client call calls = (None, call # calls)"

definition poll_example_tick :: "int list \<Rightarrow> int list imap_world tick_input" where
  "poll_example_tick uids =
    \<lparr>ti_user = ''u'', ti_list = ListUnreadInbox (example_dialer uids []) itoa (\<lambda>_. None), ti_settings = None, ti_tuning = None,
     ti_rules_open = False, ti_cache_open = False,
     ti_mail_view = \<lparr>mv_search = \<lambda>_. None, mv_fetch = \<lambda>_. None, mv_dkim = \<lambda>_ _. False\<rparr>\<rparr>"

section \<open>Properties\<close>

text \<open>
  A message that is too large, that a rule with a stop action has settled, or whose user has
  automatic labelling switched off, is never put before the model: not one request is made for it.
\<close>

theorem classifier_spared:
  assumes "im_TooLarge msg \<or> \<not> uc_autoLabelEnabled uc \<or> o_Stopped (Evaluate (sv_re2 svc) (rule_input msg) (uc_rules uc))"
  shows "pw_model (snd (handleMessage svc cfg uc mx msg w)) = pw_model w"
proof (cases "im_TooLarge msg")
  case True
  then show ?thesis
    using model_kept.J_rejectOversizedMessage [of w "pw_model w" svc msg] by (simp add: handleMessage_def)
next
  case False
  have rules: "pw_model (snd (apply_rules svc cfg uc mx msg w)) = pw_model w"
    by (rule model_kept.J_apply_rules) (simp_all add: model_on_mail)
  have tag: "pw_model (snd (tag_message svc cfg uc mx msg label detail v)) = pw_model v" for label detail v
    by (rule model_kept.J_tag_message) (simp_all add: model_on_mail)
  obtain r w1 where a: "apply_rules svc cfg uc mx msg w = (r, w1)" by fastforce
  have "r \<noteq> Inr False" if "uc_autoLabelEnabled uc"
  proof -
    have "o_Stopped (Evaluate (sv_re2 svc) (rule_input msg) (uc_rules uc))" using assms False that by simp
    then show ?thesis using a stop_matches unfolding apply_rules_def Let_def
      by (auto split: prod.splits option.splits)
  qed
  then show ?thesis
    using False a rules tag by (auto simp: handleMessage_def Let_def split: sum.split bool.split)
qed

theorem classifier_spared_witness:
  "pw_model (snd (handleMessage poll_example_services sample_config poll_example_user (poll_example_ctx recording_client)
     (poll_example_message ''Daily News'') (poll_example_world []))) = (True, ())"
proof -
  have "o_Stopped (Evaluate (sv_re2 poll_example_services) (rule_input (poll_example_message ''Daily News'')) (uc_rules poll_example_user))"
    by code_simp
  then show ?thesis
    using classifier_spared [of "poll_example_message ''Daily News''" poll_example_user poll_example_services sample_config
        "poll_example_ctx recording_client" "poll_example_world []"]
    by (simp add: poll_example_world_def)
qed

text \<open>
  C21: Whatever the model answers, the mail client gets no other calls for a message than the actions
  of the rules that fire and the keywords of a label of the configuration: what holds of the mailbox
  and no such call can break still holds when the message has been handled.
\<close>

theorem mail_calls_permitted:
  assumes "\<And>call m. permitted_call svc cfg uc msg call \<Longrightarrow> M m \<Longrightarrow> M (snd (mx_client mx call m))" "M (pw_mail w)"
  shows "M (pw_mail (snd (handleMessage svc cfg uc mx msg w)))"
  by (rule mail_kept.J_handleMessage) (use assms in auto)

theorem mail_calls_permitted_witness:
  "list_all (permitted_call poll_example_services sample_config poll_example_user (poll_example_message ''hello''))
     (pw_mail (snd (handleMessage poll_example_services sample_config poll_example_user
       (poll_example_ctx recording_client) (poll_example_message ''hello'') (poll_example_world []))))"
  by (rule mail_calls_permitted) (auto simp: poll_example_ctx_def recording_client_def poll_example_world_def)


text \<open>With a limit of no message in a minute the first tick defers message 5, and the second does not see it.\<close>

definition closed_config :: poll_config where
  "closed_config = sample_config\<lparr>pc_PerMinute := 0\<rparr>"

definition poll_example_after :: "(unit, int list imap_world, unit) poll_world" where
  "poll_example_after = snd (tickUser poll_example_services closed_config (poll_example_tick [5])
     (\<lambda>_. poll_example_ctx (\<lambda>_ m. (None, m))) (poll_example_world example_client))"

definition fetched_ids :: "int list imap_world tick_input \<Rightarrow> (unit, int list imap_world, unit) poll_world \<Rightarrow> string list option" where
  "fetched_ids ti w = (case fst (tick_fetch ti w) of (_, Inr (ms, _)) \<Rightarrow> Some (map im_ID ms) | _ \<Rightarrow> None)"

lemma fetched_ids_Some:
  assumes "fetched_ids ti w = Some ids"
  obtains rules ms "next" w1 where "tick_fetch ti w = ((rules, Inr (ms, next)), w1)" "map im_ID ms = ids"
  using assms by (cases "tick_fetch ti w") (auto simp: fetched_ids_def split: sum.splits)

lemma deferred_message_lost:
  "fetched_ids (poll_example_tick [5]) (poll_example_world example_client) = Some [''5''] \<and>
   \<not> Seen ''5'' (uw_store poll_example_after) \<and> fetched_ids (poll_example_tick [5]) poll_example_after = Some []"
  by code_simp


end
