(* ===== verification/Http_Model.thy ===== *)
theory Http_Model
  imports Go_Prelude
begin

text \<open>
  What the handlers of backend/internal/api see of HTTP: the method, the decoded JSON body, and the two
  kinds of answers they write, \<open>http.Error\<close> with a text and \<open>writeJSON\<close> with a value.
\<close>

text \<open>A body read through \<open>json.Decoder\<close>: empty (the error is \<open>io.EOF\<close>), not JSON of the type, or a value.\<close>

datatype 'p json_body = EmptyBody | BadBody | Body 'p

datatype 'j http_reply = HttpError nat string | HttpJson nat 'j

definition http_ok :: "'j http_reply \<Rightarrow> bool" where
  "http_ok r \<longleftrightarrow> (case r of HttpError n _ \<Rightarrow> n = 200 | HttpJson n _ \<Rightarrow> n = 200)"

text \<open>A handler goes on with the decoded body or answers 400.\<close>

definition with_body :: "'p json_body \<Rightarrow> ('p \<Rightarrow> 'w \<Rightarrow> 'j http_reply \<times> 'w) \<Rightarrow> 'w \<Rightarrow> 'j http_reply \<times> 'w" where
  "with_body b k w = (case b of Body p \<Rightarrow> k p w | _ \<Rightarrow> (HttpError 400 ''invalid request'', w))"

lemma with_body_simps [simp]:
  "with_body (Body p) k w = k p w"
  "with_body EmptyBody k w = (HttpError 400 ''invalid request'', w)"
  "with_body BadBody k w = (HttpError 400 ''invalid request'', w)"
  by (simp_all add: with_body_def)

end
