(* ===== verification/Rules_Api.thy ===== *)
theory Rules_Api
  imports Http_Model Sieve_Roundtrip Rules_Store Imap_Actions
begin

text \<open>
  The handlers of the filter rules (backend/internal/api/rules_handlers.go): the list and the creation of
  rules, one rule by ID, the order, the script of a rule, and the manual run over a mailbox. A handler is
  a function of the request, of whether the store could be opened, and of the store.
\<close>

section \<open>Payloads\<close>

definition maxRulesPerUser :: nat where
  "maxRulesPerUser = 100"

record rule_payload =
  rp_ID :: string
  rp_Name :: string
  rp_Enabled :: bool
  rp_Order :: int
  rp_Scope :: rule_scope
  rp_Match :: match_group
  rp_Actions :: "action list"
  rp_Rev :: int
  rp_CreatedAt :: string
  rp_UpdatedAt :: string
  rp_GUIEditable :: bool

definition ruleIsGUIEditable :: "rule \<Rightarrow> bool" where
  "ruleIsGUIEditable r \<longleftrightarrow> list_all (\<lambda>c. c_Group c = None) (mg_Conditions (r_Match r))"

definition ruleToPayload :: "rule \<Rightarrow> rule_payload" where
  "ruleToPayload r =
    \<lparr>rp_ID = r_ID r, rp_Name = r_Name r, rp_Enabled = r_Enabled r, rp_Order = r_Order r, rp_Scope = r_Scope r,
     rp_Match = r_Match r, rp_Actions = r_Actions r, rp_Rev = r_Rev r, rp_CreatedAt = r_CreatedAt r,
     rp_UpdatedAt = r_UpdatedAt r, rp_GUIEditable = ruleIsGUIEditable r\<rparr>"

definition ruleFromPayload :: "rule_payload \<Rightarrow> rule" where
  "ruleFromPayload p =
    \<lparr>r_ID = rp_ID p, r_Name = rp_Name p, r_Enabled = rp_Enabled p, r_Order = rp_Order p, r_Scope = rp_Scope p,
     r_Match = rp_Match p, r_Actions = rp_Actions p, r_Rev = 0, r_CreatedAt = '''', r_UpdatedAt = ''''\<rparr>"

record rules_run_result =
  rr_Scanned :: nat
  rr_Matched :: nat
  rr_Applied :: nat
  rr_Failed :: nat

datatype rules_json =
  RulesJson "rule_payload list"
| RuleJson rule_payload
| RuleRemoved bool
| RulesOk
| RuleScript string
| RuleScriptError sieve_error
| RulesRun rules_run_result

type_synonym rules_http = "rules_json http_reply"

text \<open>The texts of the errors of \<open>ValidateMatchShape\<close>.\<close>

definition shape_error_text :: "shape_error \<Rightarrow> string" where
  "shape_error_text err =
    (case err of
       NestingExceeds \<Rightarrow> ''match nesting exceeds maximum depth of '' @ itoa (int maxTestNestingDepth)
     | TooManyConditions \<Rightarrow> ''match has more than '' @ itoa (int maxMatchConditions) @ '' total conditions'')"

section \<open>The list and single rules\<close>

definition post_rule :: "go_env \<Rightarrow> rule_payload \<Rightarrow> rules_world \<Rightarrow> rules_http \<times> rules_world" where
  "post_rule e payload w =
    (let name = trim_space (rp_Name payload) in
     if name = '''' then (HttpError 400 ''name is required'', w)
     else
       (let (rs, w1) = rules_List w in
        if maxRulesPerUser \<le> length rs then (HttpError 400 ''too many rules for this account'', w1)
        else
          (case ValidateMatchShape (rp_Match payload) of
             Inl err \<Rightarrow> (HttpError 400 (shape_error_text err), w1)
           | Inr _ \<Rightarrow>
              (case rules_Upsert e (ruleFromPayload (payload\<lparr>rp_ID := '''', rp_Name := name\<rparr>)) w1 of
                 (Inl _, w2) \<Rightarrow> (HttpError 500 ''failed to create rule'', w2)
               | (Inr created, w2) \<Rightarrow> (HttpJson 200 (RuleJson (ruleToPayload created)), w2)))))"

definition handleRules ::
  "go_env \<Rightarrow> bool \<Rightarrow> string \<Rightarrow> rule_payload json_body \<Rightarrow> rules_world \<Rightarrow> rules_http \<times> rules_world" where
  "handleRules e opened meth body w =
    (if \<not> opened then (HttpError 500 ''failed to open rules store'', w)
     else if meth = ''GET'' then
       (let (rs, w1) = rules_List w in (HttpJson 200 (RulesJson (map ruleToPayload rs)), w1))
     else if meth = ''POST'' then with_body body (post_rule e) w
     else (HttpError 405 ''method not allowed'', w))"

definition put_rule :: "go_env \<Rightarrow> rule \<Rightarrow> rule_payload \<Rightarrow> rules_world \<Rightarrow> rules_http \<times> rules_world" where
  "put_rule e existing payload w =
    (let name = trim_space (rp_Name payload) in
     if name = '''' then (HttpError 400 ''name is required'', w)
     else
       (case ValidateMatchShape (rp_Match payload) of
          Inl err \<Rightarrow> (HttpError 400 (shape_error_text err), w)
        | Inr _ \<Rightarrow>
           (case rules_Upsert e (ruleFromPayload (payload\<lparr>rp_ID := r_ID existing, rp_Name := name,
                   rp_Order := r_Order existing, rp_Scope := r_Scope existing\<rparr>)) w of
              (Inl _, w1) \<Rightarrow> (HttpError 500 ''failed to update rule'', w1)
            | (Inr updated, w1) \<Rightarrow> (HttpJson 200 (RuleJson (ruleToPayload updated)), w1))))"

definition handleRuleByID ::
  "go_env \<Rightarrow> bool \<Rightarrow> string \<Rightarrow> string \<Rightarrow> rule_payload json_body \<Rightarrow> rules_world \<Rightarrow> rules_http \<times> rules_world" where
  "handleRuleByID e opened meth pathID body w =
    (if \<not> opened then (HttpError 500 ''failed to open rules store'', w)
     else
       (let rid = trim_space pathID in
        if rid = '''' then (HttpError 400 ''id is required'', w)
        else if meth = ''PUT'' then
          (case rules_Get rid w of
             (None, w1) \<Rightarrow> (HttpError 404 ''rule not found'', w1)
           | (Some existing, w1) \<Rightarrow> with_body body (put_rule e existing) w1)
        else if meth = ''DELETE'' then
          (case rules_Delete e rid w of
             (Inl _, w1) \<Rightarrow> (HttpError 500 ''failed to delete rule'', w1)
           | (Inr removed, w1) \<Rightarrow> (HttpJson 200 (RuleRemoved removed), w1))
        else (HttpError 405 ''method not allowed'', w)))"

definition handleRulesReorder ::
  "go_env \<Rightarrow> bool \<Rightarrow> string \<Rightarrow> string list json_body \<Rightarrow> rules_world \<Rightarrow> rules_http \<times> rules_world" where
  "handleRulesReorder e opened meth body w =
    (if meth \<noteq> ''POST'' then (HttpError 405 ''method not allowed'', w)
     else if \<not> opened then (HttpError 500 ''failed to open rules store'', w)
     else with_body body (\<lambda>ids w.
       if ids = [] then (HttpError 400 ''ids is required'', w)
       else (case rules_Reorder e ids w of
               (Inl _, w1) \<Rightarrow> (HttpError 500 ''failed to reorder rules'', w1)
             | (Inr _, w1) \<Rightarrow> (HttpJson 200 RulesOk, w1))) w)"

section \<open>The script of a rule\<close>

definition put_script :: "go_env \<Rightarrow> rule \<Rightarrow> string \<Rightarrow> rules_world \<Rightarrow> rules_http \<times> rules_world" where
  "put_script e existing script w =
    (case ParseRuleText script existing of
       Inl err \<Rightarrow> (HttpJson 400 (RuleScriptError err), w)
     | Inr parsed \<Rightarrow>
        (case rules_Upsert e parsed w of
           (Inl _, w1) \<Rightarrow> (HttpError 500 ''failed to save rule'', w1)
         | (Inr updated, w1) \<Rightarrow> (HttpJson 200 (RuleJson (ruleToPayload updated)), w1)))"

definition handleRuleSieve ::
  "go_env \<Rightarrow> bool \<Rightarrow> string \<Rightarrow> string \<Rightarrow> string json_body \<Rightarrow> rules_world \<Rightarrow> rules_http \<times> rules_world" where
  "handleRuleSieve e opened meth pathID body w =
    (if \<not> opened then (HttpError 500 ''failed to open rules store'', w)
     else
       (case rules_Get (trim_space pathID) w of
          (None, w1) \<Rightarrow> (HttpError 404 ''rule not found'', w1)
        | (Some existing, w1) \<Rightarrow>
           if meth = ''GET'' then
             (case CompileRule existing of
                Inl _ \<Rightarrow> (HttpError 500 ''failed to compile rule'', w1)
              | Inr script \<Rightarrow> (HttpJson 200 (RuleScript script), w1))
           else if meth = ''PUT'' then with_body body (put_script e existing) w1
           else (HttpError 405 ''method not allowed'', w1)))"

section \<open>The manual run\<close>

fun conditionsUseBody :: "match_group \<Rightarrow> bool"
  and condition_uses_body :: "condition \<Rightarrow> bool" where
  "conditionsUseBody (MatchGroup oper conds) \<longleftrightarrow> list_ex condition_uses_body conds"
| "condition_uses_body (Condition neg grp field cmp val) \<longleftrightarrow>
    (case grp of Some g \<Rightarrow> conditionsUseBody g | None \<Rightarrow> equal_fold field ''body'')"

definition run_input :: "string \<Rightarrow> overview \<Rightarrow> string \<Rightarrow> eval_input" where
  "run_input mailbox ov body =
    \<lparr>ei_UID = ov_UID ov, ei_MessageID = ov_MessageID ov, ei_From = ov_Sender ov, ei_To = ov_SentTo ov,
     ei_CC = ov_CC ov, ei_BCC = ov_BCC ov, ei_Subject = ov_Subject ov, ei_Body = body,
     ei_Keywords = ov_Keywords ov, ei_Folder = mailbox\<rparr>"

text \<open>The body of a message in the fetched map; a UID that is not in it has the empty body.\<close>

definition body_in :: "(int \<Rightarrow> message_content option) \<Rightarrow> overview \<Rightarrow> string" where
  "body_in bodies ov = (case bodies (ov_UID ov) of None \<Rightarrow> '''' | Some c \<Rightarrow> mc_Body c)"

fun run_messages ::
  "re2_engine \<Rightarrow> (nat \<Rightarrow> 'm mail_client) \<Rightarrow> string \<Rightarrow> rule list \<Rightarrow> (int \<Rightarrow> message_content option) \<Rightarrow> nat \<Rightarrow>
   overview list \<Rightarrow> rules_run_result \<Rightarrow> 'm \<Rightarrow> rules_run_result \<times> 'm" where
  "run_messages re2 client mailbox activeRules bodies k [] result m = (result, m)"
| "run_messages re2 client mailbox activeRules bodies k (ov # rest) result m =
    (let i = run_input mailbox ov (body_in bodies ov); outcome = Evaluate re2 i activeRules in
     if o_Matched outcome = [] then run_messages re2 client mailbox activeRules bodies (Suc k) rest result m
     else
       (let (results, m1) = ApplyOutcome (client k) mailbox i outcome m;
            matched = result\<lparr>rr_Matched := rr_Matched result + 1\<rparr>
        in run_messages re2 client mailbox activeRules bodies (Suc k) rest
             (if list_ex (\<lambda>ar. ar_Err ar \<noteq> None) results then matched\<lparr>rr_Failed := rr_Failed matched + 1\<rparr>
              else matched\<lparr>rr_Applied := rr_Applied matched + 1\<rparr>) m1))"

text \<open>What the run works with: RE2, the mail library, the environment, and the contexts of its calls.\<close>

record 'd run_services =
  rn_re2 :: re2_engine
  rn_dialer :: "'d dialer"
  rn_format :: "int \<Rightarrow> string"
  rn_isPGP :: "string \<Rightarrow> bool"
  rn_env :: go_env
  rn_list :: imap_ctx
  rn_bodies :: imap_ctx
  rn_actions :: "nat \<Rightarrow> imap_ctx"

datatype mail_access = MailReady | MailNotConfigured | MailUnavailable

definition run_client :: "'d run_services \<Rightarrow> nat \<Rightarrow> 'd imap_world mail_client" where
  "run_client svc k = imap_mail_client (rn_dialer svc) (rn_env svc) (rn_actions svc k)"

definition run_limit :: "int \<Rightarrow> int" where
  "run_limit limit = (if limit \<le> 0 \<or> limit > 500 then 200 else limit)"

definition run_rules ::
  "'d run_services \<Rightarrow> string \<Rightarrow> int \<Rightarrow> rule list \<Rightarrow> 'd imap_world \<Rightarrow> rules_http \<times> 'd imap_world" where
  "run_rules svc mailbox limit activeRules m =
    (case ListOverviews (rn_dialer svc) (rn_format svc) (rn_list svc) mailbox limit m of
       (Inl _, m1) \<Rightarrow> (HttpError 502 ''failed to list messages'', m1)
     | (Inr overviews, m1) \<Rightarrow>
        (case (if list_ex (\<lambda>r. conditionsUseBody (r_Match r)) activeRules \<and> overviews \<noteq> []
               then GetMessageBodies (rn_dialer svc) (rn_isPGP svc) (rn_bodies svc) mailbox (map ov_UID overviews) m1
               else (Inr (\<lambda>_. None), m1)) of
           (Inl _, m2) \<Rightarrow> (HttpError 502 ''failed to fetch message bodies'', m2)
         | (Inr bodies, m2) \<Rightarrow>
            (case run_messages (rn_re2 svc) (run_client svc) mailbox activeRules bodies 0 overviews
                    \<lparr>rr_Scanned = length overviews, rr_Matched = 0, rr_Applied = 0, rr_Failed = 0\<rparr> m2 of
               (result, m3) \<Rightarrow> (HttpJson 200 (RulesRun result), m3))))"

definition handleRulesRun ::
  "'d run_services \<Rightarrow> mail_access \<Rightarrow> bool \<Rightarrow> string \<Rightarrow> (string \<times> int) json_body \<Rightarrow>
   rules_world \<times> 'd imap_world \<Rightarrow> rules_http \<times> rules_world \<times> 'd imap_world" where
  "handleRulesRun svc access opened meth body wm =
    (if meth \<noteq> ''POST'' then (HttpError 405 ''method not allowed'', wm)
     else if access = MailNotConfigured then (HttpError 400 ''imap configuration is required'', wm)
     else if access = MailUnavailable then (HttpError 503 ''imap client is not configured'', wm)
     else if \<not> opened then (HttpError 500 ''failed to open rules store'', wm)
     else if body = BadBody then (HttpError 400 ''invalid request'', wm)
     else
       (let (mailbox, limit) = (case body of Body req \<Rightarrow> req | _ \<Rightarrow> ('''', 0));
            mailbox1 = (if trim_space mailbox = '''' then ''INBOX'' else trim_space mailbox);
            (w, m) = wm; (rs, w1) = rules_List w;
            (reply, m1) = run_rules svc mailbox1 (run_limit limit) (filter r_Enabled rs) m
        in (reply, w1, m1)))"

section \<open>The run does without bodies\<close>

text \<open>No condition names its field with spaces around it; the rules that scripts make have such fields only.\<close>

fun fields_trimmed :: "match_group \<Rightarrow> bool"
  and field_trimmed :: "condition \<Rightarrow> bool" where
  "fields_trimmed (MatchGroup oper conds) \<longleftrightarrow> list_all field_trimmed conds"
| "field_trimmed (Condition neg grp field cmp val) \<longleftrightarrow>
    (case grp of Some g \<Rightarrow> fields_trimmed g | None \<Rightarrow> trim_space field = field)"

lemma body_lower: "to_lower ''body'' = ''body''"
  by code_simp

lemma body_not_read:
  "fields_trimmed mg \<Longrightarrow> \<not> conditionsUseBody mg \<Longrightarrow>
     matchGroup re2 mg (i\<lparr>ei_Body := b\<rparr>) = matchGroup re2 mg i"
  "field_trimmed c \<Longrightarrow> \<not> condition_uses_body c \<Longrightarrow>
     conditionMatches re2 c (i\<lparr>ei_Body := b\<rparr>) = conditionMatches re2 c i"
proof (induction mg and c rule: fields_trimmed_field_trimmed.induct)
  case (1 oper conds)
  have "conditionMatches re2 c (i\<lparr>ei_Body := b\<rparr>) = conditionMatches re2 c i" if "c \<in> set conds" for c
    using 1 that by (auto simp: list_all_iff list_ex_iff)
  then show ?case by (auto simp: list_all_iff list_ex_iff)
next
  case (2 neg grp field cmp val)
  have "fieldValue (i\<lparr>ei_Body := b\<rparr>) field = fieldValue i field" if "grp = None"
    using 2(2,3) that by (auto simp: fieldValue_def equal_fold_def Let_def body_lower)
  with 2 show ?case by (cases grp) auto
qed

lemma Evaluate_body:
  assumes "list_all (\<lambda>r. fields_trimmed (r_Match r)) rs" "\<not> list_ex (\<lambda>r. conditionsUseBody (r_Match r)) rs"
  shows "Evaluate re2 (i\<lparr>ei_Body := b\<rparr>) rs = Evaluate re2 i rs"
proof -
  have "evaluate_loop re2 (i\<lparr>ei_Body := b\<rparr>) xs out = evaluate_loop re2 i xs out" if "set xs \<subseteq> set rs" for xs out
    using that
  proof (induction xs arbitrary: out)
    case (Cons x xs)
    then have "matchGroup re2 (r_Match x) (i\<lparr>ei_Body := b\<rparr>) = matchGroup re2 (r_Match x) i"
      using assms by (intro body_not_read(1)) (auto simp: list_all_iff list_ex_iff)
    with Cons show ?case by (simp add: Let_def)
  qed simp
  then show ?thesis by (simp add: Evaluate_def)
qed

lemma run_input_body: "run_input mailbox ov b = (run_input mailbox ov b')\<lparr>ei_Body := b\<rparr>"
  by (simp add: run_input_def)

section \<open>The counts of a run\<close>

lemma run_messages_counts:
  assumes "run_messages re2 client mailbox rs bodies k ovs result m = (result', m')"
  shows "rr_Scanned result' = rr_Scanned result"
    "rr_Matched result' = rr_Matched result +
       length (filter (\<lambda>ov. fired re2 (run_input mailbox ov (body_in bodies ov)) rs \<noteq> []) ovs)"
    "rr_Matched result' - rr_Matched result + rr_Applied result + rr_Failed result = rr_Applied result' + rr_Failed result'"
    "rr_Matched result \<le> rr_Matched result'"
proof -
  have "rr_Scanned result' = rr_Scanned result \<and> rr_Matched result' = rr_Matched result +
       length (filter (\<lambda>ov. fired re2 (run_input mailbox ov (body_in bodies ov)) rs \<noteq> []) ovs) \<and>
    rr_Matched result' + rr_Applied result + rr_Failed result = rr_Applied result' + rr_Failed result' + rr_Matched result"
    using assms
  proof (induction ovs arbitrary: k result m)
    case (Cons ov ovs)
    let ?i = "run_input mailbox ov (body_in bodies ov)"
    have fired: "o_Matched (Evaluate re2 ?i rs) = map r_Name (fired re2 ?i rs)"
      by (simp add: Evaluate_def evaluate_loop_spec fired_def Let_def)
    show ?case
    proof (cases "fired re2 ?i rs = []")
      case True
      with Cons.prems have "run_messages re2 client mailbox rs bodies (Suc k) ovs result m = (result', m')"
        by (simp add: fired Let_def)
      from Cons.IH [OF this] True show ?thesis by simp
    next
      case False
      obtain ars m1 where a: "ApplyOutcome (client k) mailbox ?i (Evaluate re2 ?i rs) m = (ars, m1)" by fastforce
      from Cons.prems False have "run_messages re2 client mailbox rs bodies (Suc k) ovs
        (let matched = result\<lparr>rr_Matched := rr_Matched result + 1\<rparr>
         in if list_ex (\<lambda>ar. ar_Err ar \<noteq> None) ars then matched\<lparr>rr_Failed := rr_Failed matched + 1\<rparr>
            else matched\<lparr>rr_Applied := rr_Applied matched + 1\<rparr>) m1 = (result', m')"
        by (simp add: fired a Let_def)
      from Cons.IH [OF this] False show ?thesis by (auto simp: Let_def split: if_splits)
    qed
  qed simp
  then show "rr_Scanned result' = rr_Scanned result"
    "rr_Matched result' = rr_Matched result +
       length (filter (\<lambda>ov. fired re2 (run_input mailbox ov (body_in bodies ov)) rs \<noteq> []) ovs)"
    "rr_Matched result' - rr_Matched result + rr_Applied result + rr_Failed result = rr_Applied result' + rr_Failed result'"
    "rr_Matched result \<le> rr_Matched result'"
    by linarith+
qed

section \<open>The number of rules\<close>

text \<open>The requests of the handlers that change rules, one by one, each in its own environment.\<close>

datatype rules_api_request =
  ApiRules string "rule_payload json_body"
| ApiRule string string "rule_payload json_body"
| ApiReorder string "string list json_body"
| ApiSieve string string "string json_body"

fun rules_api_call :: "go_env \<times> bool \<times> rules_api_request \<Rightarrow> rules_world \<Rightarrow> rules_http \<times> rules_world" where
  "rules_api_call (e, opened, ApiRules meth body) w = handleRules e opened meth body w"
| "rules_api_call (e, opened, ApiRule meth pathID body) w = handleRuleByID e opened meth pathID body w"
| "rules_api_call (e, opened, ApiReorder meth body) w = handleRulesReorder e opened meth body w"
| "rules_api_call (e, opened, ApiSieve meth pathID body) w = handleRuleSieve e opened meth pathID body w"

text \<open>Rules have IDs and are at most \<^const>\<open>maxRulesPerUser\<close>.\<close>

definition few_rules :: "rules_store \<Rightarrow> bool" where
  "few_rules s \<longleftrightarrow> length (rl_rules s) \<le> maxRulesPerUser \<and> '''' \<notin> r_ID ` set (rl_rules s)"

definition few_rules_file :: "rules_file json_file \<Rightarrow> bool" where
  "few_rules_file f \<longleftrightarrow> (\<exists>v. f = Json v \<and> (\<forall>t. few_rules (rules_applyFile v t)))"

lemma few_rules_load: "few_rules (rules_applyFile v t) = few_rules (rules_applyFile v t')"
  by (simp add: rules_applyFile_def few_rules_def)

lemma few_rules_fileI: "few_rules (rules_applyFile v t) \<Longrightarrow> few_rules_file (Json v)"
  unfolding few_rules_file_def using few_rules_load by blast

lemma few_rules_transact:
  assumes "\<And>t. few_rules t \<Longrightarrow> few_rules (fst (snd (body t)))" "few_rules_file (snd w)"
  shows "few_rules_file (snd (snd (transact rules_applyFile rules_file_of id e body w)))"
proof -
  obtain s v where w: "w = (s, Json v)" "few_rules (rules_applyFile v s)"
    using assms(2) by (cases w) (auto simp: few_rules_file_def)
  obtain r s' f where t: "transact rules_applyFile rules_file_of id e body (s, Json v) = (r, s', f)" by (metis prod_cases3)
  from rules_js.transact_inv [where I = few_rules, OF assms(1) w(2) t] show ?thesis
    by (auto simp: w(1) t few_rules_file_def)
qed

lemma few_rules_observe:
  "few_rules_file (snd w) \<Longrightarrow> few_rules_file (snd (snd (observe rules_applyFile q w)))"
  by (cases w) (auto simp: few_rules_file_def observe_Json)

lemma uuid_nonempty: "NewUUIDv4 rnd = Inr u \<Longrightarrow> u \<noteq> ''''"
  by (auto simp: NewUUIDv4_def Let_def split: option.splits)

text \<open>An Upsert of a rule that is there replaces it, another adds one.\<close>

lemma few_rules_upsert:
  assumes "few_rules s" "length (rl_rules s) < maxRulesPerUser \<or> rule_get (r_ID r) s \<noteq> None"
  shows "few_rules (fst (snd (rules_upsert_body e r s)))"
proof (cases "r_ID r = ''''")
  case True
  then have "rule_get (r_ID r) s = None"
    using assms(1) by (force simp: rule_get_def few_rules_def find_None_iff)
  with assms True show ?thesis
    by (auto simp: rules_upsert_body_def Let_def few_rules_def split: sum.splits dest: uuid_nonempty)
next
  case False
  show ?thesis
  proof (cases "List.find (\<lambda>x. r_ID x = r_ID r) (rl_rules s)")
    case None
    with assms False show ?thesis by (auto simp: rules_upsert_body_def Let_def few_rules_def rule_get_def)
  next
    case (Some y)
    have "'''' \<notin> r_ID ` set (replace_first (\<lambda>x. r_ID x = r_ID r) (\<lambda>_. r2) (rl_rules s))" if "r_ID r2 = r_ID r" for r2
      using set_replace_first_subset [of "\<lambda>x. r_ID x = r_ID r" "\<lambda>_. r2" "rl_rules s"] that False assms(1)
      by (auto simp: few_rules_def)
    with assms(1) False Some show ?thesis by (auto simp: rules_upsert_body_def Let_def few_rules_def)
  qed
qed

lemma few_rules_delete: "few_rules s \<Longrightarrow> few_rules (fst (snd (rules_delete_body i s)))"
  using set_remove_first_subset [of "\<lambda>r. r_ID r = i" "rl_rules s"] length_remove_first [of "\<lambda>r. r_ID r = i" "rl_rules s"]
  by (auto simp: rules_delete_body_def few_rules_def split: option.splits)

lemma few_rules_reorder: "few_rules s \<Longrightarrow> few_rules (fst (snd (rules_reorder_body e ids s)))"
proof -
  assume few: "few_rules s"
  obtain rs sq where l: "reorder_loop (rule_position ids) (stamp e) (rl_rules s) (rl_seq s) = (rs, sq)" by fastforce
  have "map r_ID rs = map r_ID (rl_rules s)" using reorder_loop_spec [OF l] by simp
  then have "length rs = length (rl_rules s)" "r_ID ` set rs = r_ID ` set (rl_rules s)"
    by (metis length_map, metis list.set_map)
  with few show ?thesis by (simp add: rules_reorder_body_def l few_rules_def)
qed

text \<open>An Upsert after a read that has seen room or the rule itself.\<close>

lemma few_rules_Upsert:
  assumes "few_rules (rules_applyFile v s)"
    "length (rf_Rules v) < maxRulesPerUser \<or> rule_get (r_ID r) (rules_applyFile v s) \<noteq> None"
  shows "few_rules_file (snd (snd (rules_Upsert e r (s, Json v))))"
proof -
  obtain x t d where b: "rules_upsert_body e r (rules_applyFile v s) = (x, t, d)" by (metis prod_cases3)
  have "few_rules t" using few_rules_upsert [OF assms(1), of r e] assms(2) b by (simp add: rules_applyFile_def)
  then have "few_rules (rules_applyFile (rules_file_of t) t)" by simp
  from few_rules_fileI [OF this] few_rules_fileI [OF assms(1)] show ?thesis
    by (simp add: rules_Upsert_def transact_Json b)
qed

lemma few_rules_post: "few_rules_file (snd w) \<Longrightarrow> few_rules_file (snd (snd (post_rule e p w)))"
proof -
  assume few: "few_rules_file (snd w)"
  then obtain s v where w: "w = (s, Json v)" and few_v: "\<And>t. few_rules (rules_applyFile v t)"
    by (cases w) (auto simp: few_rules_file_def)
  show ?thesis
  proof (cases "maxRulesPerUser \<le> length (rf_Rules v)")
    case True
    with few show ?thesis
      by (auto simp: post_rule_def Let_def rules_List_def w observe_Json few_rules_file_def rules_applyFile_def)
  next
    case False
    then have "rules_Upsert e r (t, Json v) = (x, a, b) \<Longrightarrow> few_rules_file b" for r t x a b
      using few_rules_Upsert [OF few_v, of r t e] by simp
    with few show ?thesis
      by (auto simp: post_rule_def Let_def rules_List_def w observe_Json split: sum.splits prod.splits)
  qed
qed

lemma few_rules_update:
  assumes "few_rules_file f" "rule_get (r_ID r) (rules_applyFile v s) \<noteq> None" "f = Json v"
  shows "few_rules_file (snd (snd (rules_Upsert e r (t, f))))"
proof -
  have few: "few_rules (rules_applyFile v u)" for u using assms(1,3) by (auto simp: few_rules_file_def)
  show ?thesis
    unfolding assms(3)
    by (rule few_rules_Upsert [OF few]) (use assms(2) rules_js.overwrites [of v s t] in simp)
qed

lemma found_has_id: "rule_get i s = Some r \<Longrightarrow> r_ID r = i"
  by (auto simp: rule_get_def dest: find_SomeD)

lemma few_rules_put:
  assumes "few_rules_file (Json v)" "rule_get i (rules_applyFile v s) = Some r"
  shows "few_rules_file (snd (snd (put_rule e r p (t, Json v))))"
    "few_rules_file (snd (snd (put_script e r str (t, Json v))))"
proof -
  have id: "r_ID r = i" by (rule found_has_id [OF assms(2)])
  have up: "few_rules_file b" if "rules_Upsert e r' (t, Json v) = (x, a, b)" "r_ID r' = i" for r' x a b
    using few_rules_update [OF assms(1) _ refl, of r' s e t] assms(2) that by simp
  show "few_rules_file (snd (snd (put_rule e r p (t, Json v))))"
    using assms(1)
    by (auto simp: put_rule_def Let_def ruleFromPayload_def id split: sum.splits prod.splits dest!: up)
  have "ParseRuleText str r = Inr r' \<Longrightarrow> r_ID r' = i" for r'
    using ParseRuleText_shape(3) [of str r r'] id by (cases r') (metis rule.ext_inject rule.surjective rule.update_convs(6,7) rule.select_convs(1))
  with assms(1) show "few_rules_file (snd (snd (put_script e r str (t, Json v))))"
    by (auto simp: put_script_def split: sum.splits prod.splits dest: up)
qed

lemma few_rules_call: "few_rules_file (snd w) \<Longrightarrow> few_rules_file (snd (snd (rules_api_call q w)))"
proof -
  assume few: "few_rules_file (snd w)"
  then obtain s v where w: "w = (s, Json v)" by (cases w) (auto simp: few_rules_file_def)
  obtain e opened q' where q: "q = (e, opened, q')" by (metis prod_cases3)
  note ops = rules_List_def rules_Get_def observe_Json w
  have put: "few_rules_file (snd (snd (put_rule e r p (t, Json v))))" "few_rules_file (snd (snd (put_script e r str (t, Json v))))"
    if "rule_get i (rules_applyFile v s) = Some r" for i r p str t
    using few_rules_put [OF few [unfolded w snd_conv] that] by auto
  have del: "few_rules_file f" if "rules_Delete e i (s, Json v) = (x, t, f)" for i x t f
    using few_rules_transact [of "rules_delete_body i" w e] few_rules_delete few that by (simp add: rules_Delete_def w)
  have ord: "few_rules_file f" if "rules_Reorder e ids (s, Json v) = (x, t, f)" for ids x t f
    using few_rules_transact [of "rules_reorder_body e ids" w e] few_rules_reorder few that by (simp add: rules_Reorder_def w)
  show ?thesis
  proof (cases q')
    case (ApiRules meth body)
    then show ?thesis using few few_rules_post [OF few, of e]
      by (cases body) (auto simp: q handleRules_def ops)
  next
    case (ApiRule meth pathID body)
    then show ?thesis using few
      by (cases body) (auto simp: q handleRuleByID_def Let_def ops split: option.splits sum.splits prod.splits
          intro: put del)
  next
    case (ApiReorder meth body)
    then show ?thesis using few
      by (cases body) (auto simp: q handleRulesReorder_def ops split: sum.splits prod.splits intro: ord)
  next
    case (ApiSieve meth pathID body)
    then show ?thesis using few
      by (cases body) (auto simp: q handleRuleSieve_def ops split: option.splits sum.splits prod.splits intro: put)
  qed
qed

lemma few_rules_run: "few_rules_file (snd w) \<Longrightarrow> few_rules_file (snd (fold (\<lambda>q w. snd (rules_api_call q w)) qs w))"
  by (induction qs arbitrary: w) (auto simp: few_rules_call)

section \<open>Putting a script back\<close>

lemma upsert_same_id:
  assumes "rule_get (r_ID r) s = Some existing" "r_ID r \<noteq> ''''" "r_CreatedAt r = r_CreatedAt existing"
  shows "fst (rules_upsert_body e r s) = Inr (r\<lparr>r_Rev := rl_seq s + 1, r_UpdatedAt := stamp e\<rparr>)"
    "snd (snd (rules_upsert_body e r s))"
  using assms by (simp_all add: rules_upsert_body_def rule_get_def Let_def)

lemma put_script_same:
  assumes "rules_ok (rules_applyFile v s)" "r \<in> set (rf_Rules v)" "env_write_ok e"
    and "ParseRuleText script r = Inr r"
  shows "fst (put_script e r script (s, Json v)) =
    HttpJson 200 (RuleJson (ruleToPayload (r\<lparr>r_Rev := rf_Seq v + 1, r_UpdatedAt := stamp e\<rparr>)))"
proof -
  have r: "r \<in> set (rl_rules (rules_applyFile v s))" using assms(2) by (simp add: rules_applyFile_def)
  then have "r_ID r \<noteq> ''''" using assms(1) by (force simp: rules_ok_def)
  from upsert_same_id [OF rule_get_Some [OF assms(1) r] this refl, of e]
  obtain t where "rules_upsert_body e r (rules_applyFile v s) =
      (Inr (r\<lparr>r_Rev := rf_Seq v + 1, r_UpdatedAt := stamp e\<rparr>), t, True)"
    by (cases "rules_upsert_body e r (rules_applyFile v s)") (auto simp: rules_applyFile_def)
  then have "rules_Upsert e r (s, Json v) =
      (Inr (r\<lparr>r_Rev := rf_Seq v + 1, r_UpdatedAt := stamp e\<rparr>), t, Json (rules_file_of t))"
    using assms(3) by (simp add: rules_Upsert_def transact_Json)
  then show ?thesis by (simp add: put_script_def assms(4))
qed

section \<open>What the run gets wrong\<close>

text \<open>
  The engine trims the name of a field and \<^const>\<open>conditionsUseBody\<close> does not: a rule on the field
  body with a space in front depends on the body, and the run does not fetch it.
\<close>

lemma spaced_body_field_missed:
  "(let g = MatchGroup ''allof'' [Condition False None '' body'' ''contains'' ''invoice''] in
    \<not> conditionsUseBody g \<and> matchGroup re2 g (run_input ''INBOX'' ov ''your invoice'') \<and>
    \<not> matchGroup re2 g (run_input ''INBOX'' ov ''''))"
  by (simp add: run_input_def fieldValue_def matchesValue_def Let_def trim_space_def trim_left_def trim_right_def
      is_space_def to_lower_def lower_char_def equal_fold_def)

text \<open>
  A message over the size limit comes back with an empty body, and the run evaluates the rules on that:
  a condition that the body does not contain a word holds of a body that was never read.
\<close>

lemma oversized_body_evaluated:
  assumes "bodies (ov_UID ov) = Some too_large_content"
  shows "matchGroup re2 (MatchGroup ''allof'' [Condition True None ''body'' ''contains'' ''invoice''])
    (run_input mailbox ov (body_in bodies ov))"
  using assms
  by (simp add: run_input_def body_in_def too_large_content_def fieldValue_def matchesValue_def Let_def
      trim_space_def trim_left_def trim_right_def is_space_def to_lower_def lower_char_def equal_fold_def)

section \<open>Properties\<close>


text \<open>
  C24: however its rules are created, changed, scripted, ordered and deleted, an account that starts with
  at most 100 rules never has more.
\<close>

theorem rules_stay_few:
  assumes "length (rf_Rules v) \<le> maxRulesPerUser" "'''' \<notin> r_ID ` set (rf_Rules v)"
  shows "\<exists>v'. snd (fold (\<lambda>q w. snd (rules_api_call q w)) qs (s, Json v)) = Json v' \<and> length (rf_Rules v') \<le> maxRulesPerUser"
proof -
  have "few_rules_file (snd (s, Json v))"
    using assms by (simp add: few_rules_file_def few_rules_def rules_applyFile_def)
  from few_rules_run [OF this, of qs] show ?thesis by (auto simp: few_rules_file_def few_rules_def rules_applyFile_def)
qed

text \<open>
  A client that reads the script of a rule and puts it back unchanged changes the revision and the
  time of the last change of the rule and nothing else.
\<close>

theorem script_put_back:
  assumes "rules_ok (rules_applyFile v s)" "r \<in> set (rf_Rules v)" "trim_space pathID = r_ID r"
    and "canonical_rule r" "printable_rule r" "group_nest (r_Match r) \<le> maxTestNestingDepth" "env_write_ok e'"
  shows "\<exists>script w. handleRuleSieve e True ''GET'' pathID b (s, Json v) = (HttpJson 200 (RuleScript script), w) \<and>
    fst (handleRuleSieve e' True ''PUT'' pathID (Body script) w) =
      HttpJson 200 (RuleJson (ruleToPayload (r\<lparr>r_Rev := rf_Seq v + 1, r_UpdatedAt := stamp e'\<rparr>)))"
proof -
  obtain script where c: "CompileRule r = Inr script" using canonical_rule_compiles assms(4) by blast
  have p: "ParseRuleText script r = Inr r" using compile_parse [OF assms(4,5,6) c, of r] by simp
  have "r \<in> set (rl_rules (rules_applyFile v s))" using assms(2) by (simp add: rules_applyFile_def)
  from rule_get_Some [OF assms(1) this]
  have g: "rules_Get (trim_space pathID) (t, Json v) = (Some r, rules_applyFile v s, Json v)" for t
    using rules_js.overwrites [of v t s] by (simp add: rules_Get_def observe_Json assms(3))
  have "fst (put_script e' r script (rules_applyFile v s, Json v)) =
      HttpJson 200 (RuleJson (ruleToPayload (r\<lparr>r_Rev := rf_Seq v + 1, r_UpdatedAt := stamp e'\<rparr>)))"
    by (rule put_script_same [OF _ assms(2,7) p])
      (use assms(1) rules_js.overwrites [of v "rules_applyFile v s" s] in simp)
  with c g show ?thesis by (auto simp: handleRuleSieve_def)
qed

section \<open>Worked examples\<close>

definition script_file :: rules_file where
  "script_file = \<lparr>rf_Rules = [sample_rule], rf_Seq = 7\<rparr>"

theorem rules_stay_few_witness:
  "\<exists>v'. snd (fold (\<lambda>q w. snd (rules_api_call q w))
      [(tally_env 0 None True, True, ApiRules ''POST'' (Body (ruleToPayload sample_rule)))] (rules_empty, Json script_file)) = Json v' \<and>
    length (rf_Rules v') \<le> maxRulesPerUser"
  by (rule rules_stay_few) (simp_all add: script_file_def maxRulesPerUser_def sample_rule_def)

theorem script_put_back_witness:
  "\<exists>script w. handleRuleSieve (tally_env 0 None True) True ''GET'' ''r1 '' EmptyBody (rules_empty, Json script_file) =
      (HttpJson 200 (RuleScript script), w) \<and>
    fst (handleRuleSieve (tally_env 9 None True) True ''PUT'' ''r1 '' (Body script) w) =
      HttpJson 200 (RuleJson (ruleToPayload (sample_rule\<lparr>r_Rev := rf_Seq script_file + 1,
        r_UpdatedAt := stamp (tally_env 9 None True)\<rparr>)))"
proof (rule script_put_back)
  show "rules_ok (rules_applyFile script_file rules_empty)"
    by (simp add: rules_ok_def script_file_def rules_applyFile_def sample_rule_def)
  show "sample_rule \<in> set (rf_Rules script_file)" by (simp add: script_file_def)
  show "trim_space ''r1 '' = r_ID sample_rule" by code_simp
qed (rule sample_rule_ok, rule sample_rule_ok, rule sample_rule_ok, simp)

definition run_example :: "int list run_services" where
  "run_example = \<lparr>rn_re2 = \<lambda>_ _. None, rn_dialer = example_dialer [5] [], rn_format = itoa, rn_isPGP = \<lambda>_. False,
     rn_env = tally_env 0 None True, rn_list = \<lambda>_. None, rn_bodies = \<lambda>_. None, rn_actions = \<lambda>_ _. None\<rparr>"

definition run_example_rule :: rule where
  "run_example_rule = sample_rule\<lparr>r_Match := MatchGroup ''allof'' [Condition False None ''from'' ''contains'' ''A@B'']\<rparr>"

lemma run_example_list: "list_ex (\<lambda>r. case r of Inl _ \<Rightarrow> False | Inr ovs \<Rightarrow> length ovs = 1)
    [fst (ListOverviews (rn_dialer run_example) (rn_format run_example) (rn_list run_example) ''INBOX'' 10 example_client)]"
  by code_simp


end
