(* ===== verification/Contacts_Api.thy ===== *)
theory Contacts_Api
  imports Http_Model Groups_Store Contacts_Merge
begin

text \<open>
  The handlers of the address book (backend/internal/api/contacts_handlers.go, contacts_self.go,
  contacts_search.go) and of its groups (groups_handlers.go). They join two stores that do not know of
  each other: a contact names its groups by ID, so a handler drops unknown IDs before it writes a contact,
  and the deletion of a group takes its ID out of the contacts.
\<close>

section \<open>Payloads and answers\<close>

record contact_payload =
  cp_FormattedName :: string
  cp_GivenName :: string
  cp_FamilyName :: string
  cp_MiddleName :: string
  cp_Prefix :: string
  cp_Suffix :: string
  cp_Nickname :: string
  cp_Org :: string
  cp_Title :: string
  cp_Emails :: "contact_value list"
  cp_Phones :: "contact_value list"
  cp_Addresses :: "contact_address list"
  cp_Notes :: string
  cp_Birthday :: string
  cp_PhotoRef :: string
  cp_GroupIDs :: "string list"
  cp_PGPKey :: string
  cp_IMs :: "contact_im list"
  cp_Websites :: "contact_url list"
  cp_Relations :: "contact_relation list"
  cp_Events :: "contact_event list"
  cp_PhoneticGivenName :: string
  cp_PhoneticFamilyName :: string
  cp_Department :: string
  cp_CustomFields :: "contact_custom_field list"
  cp_Pronouns :: string

text \<open>The fields a payload does not have get the zero values of Go.\<close>

definition toContact :: "contact_payload \<Rightarrow> string \<Rightarrow> contact" where
  "toContact p uid =
    \<lparr>ct_UID = uid, ct_Rev = 0, ct_Deleted = False, ct_CreatedAt = '''', ct_UpdatedAt = '''', ct_IsSelf = False,
     ct_FormattedName = trim_space (cp_FormattedName p), ct_GivenName = cp_GivenName p,
     ct_FamilyName = cp_FamilyName p, ct_MiddleName = cp_MiddleName p, ct_Prefix = cp_Prefix p,
     ct_Suffix = cp_Suffix p, ct_Nickname = cp_Nickname p, ct_Org = cp_Org p, ct_Title = cp_Title p,
     ct_Emails = cp_Emails p, ct_Phones = cp_Phones p, ct_Addresses = cp_Addresses p, ct_Notes = cp_Notes p,
     ct_Birthday = cp_Birthday p, ct_PhotoRef = cp_PhotoRef p, ct_GroupIDs = cp_GroupIDs p,
     ct_PGPKey = cp_PGPKey p, ct_IMs = cp_IMs p, ct_Websites = cp_Websites p, ct_Relations = cp_Relations p,
     ct_Events = cp_Events p, ct_PhoneticGivenName = cp_PhoneticGivenName p,
     ct_PhoneticFamilyName = cp_PhoneticFamilyName p, ct_Department = cp_Department p,
     ct_CustomFields = cp_CustomFields p, ct_Pronouns = cp_Pronouns p, ct_MergedUIDs = [], ct_MergedInto = ''''\<rparr>"

record contact_sync_change =
  sc_UID :: string
  sc_Rev :: int
  sc_Deleted :: bool
  sc_payload :: contact_payload

record contacts_push =
  cq_BaseCursor :: int
  cq_Changes :: "contact_sync_change list"

datatype contacts_json =
  ContactsJson "contact list"
| ContactJson contact
| DedupeJson dedupe_report
| Removed bool
| BulkDeleted bool nat "(string \<times> contacts_error) list"
| SyncJson int bool "(contact list \<times> contact list) option"
| GroupsJson "group list"
| GroupJson group

type_synonym contacts_http = "contacts_json http_reply"

section \<open>The two stores of a user\<close>

record address_world =
  aw_contacts :: contacts_world
  aw_groups :: groups_world

text \<open>
  The environment of a request: that of its k-th change of the contacts and that of its change of the
  groups, and whether the two stores could be opened.
\<close>

record address_env =
  ax_env :: "nat \<Rightarrow> go_env"
  ax_group_env :: go_env
  ax_contacts :: bool
  ax_groups :: bool

definition on_contacts :: "(contacts_world \<Rightarrow> 'r \<times> contacts_world) \<Rightarrow> address_world \<Rightarrow> 'r \<times> address_world" where
  "on_contacts f w = (case f (aw_contacts w) of (r, c) \<Rightarrow> (r, w\<lparr>aw_contacts := c\<rparr>))"

definition on_groups :: "(groups_world \<Rightarrow> 'r \<times> groups_world) \<Rightarrow> address_world \<Rightarrow> 'r \<times> address_world" where
  "on_groups f w = (case f (aw_groups w) of (r, g) \<Rightarrow> (r, w\<lparr>aw_groups := g\<rparr>))"

fun keep_known :: "string list \<Rightarrow> groups_world \<Rightarrow> string list \<times> groups_world" where
  "keep_known [] g = ([], g)"
| "keep_known (i # ids) g =
    (let (found, g1) = groups_Get i g; (known, g2) = keep_known ids g1
     in (if found = None then known else i # known, g2))"

definition sanitizeGroupIDsForUser :: "bool \<Rightarrow> string list \<Rightarrow> address_world \<Rightarrow> string list \<times> address_world" where
  "sanitizeGroupIDsForUser opened ids w =
    (if ids = [] then (ids, w) else if \<not> opened then ([], w) else on_groups (keep_known ids) w)"

section \<open>Contacts\<close>

definition http_of ::
  "string \<Rightarrow> ('a \<Rightarrow> contacts_json) \<Rightarrow> ('e + 'a) \<times> 'w \<Rightarrow> contacts_http \<times> 'w" where
  "http_of failure f r =
    (case r of (Inl _, w) \<Rightarrow> (HttpError 500 failure, w) | (Inr x, w) \<Rightarrow> (HttpJson 200 (f x), w))"

text \<open>What POST and PUT of a contact share: the name, the group IDs, the write.\<close>

definition write_contact ::
  "address_env \<Rightarrow> string \<Rightarrow> string \<Rightarrow> contact_payload \<Rightarrow> address_world \<Rightarrow> contacts_http \<times> address_world" where
  "write_contact ax failure uid p w =
    (if trim_space (cp_FormattedName p) = '''' then (HttpError 400 ''fn is required'', w)
     else
       (let (ids, w1) = sanitizeGroupIDsForUser (ax_groups ax) (cp_GroupIDs p) w
        in http_of failure ContactJson
             (on_contacts (contacts_Upsert (ax_env ax 0) (toContact (p\<lparr>cp_GroupIDs := ids\<rparr>) uid)) w1)))"

definition handleContacts ::
  "address_env \<Rightarrow> string \<Rightarrow> contact_payload json_body \<Rightarrow> address_world \<Rightarrow> contacts_http \<times> address_world" where
  "handleContacts ax meth body w =
    (if \<not> ax_contacts ax then (HttpError 500 ''failed to open contacts store'', w)
     else if meth = ''GET'' then
       (let (cs, w1) = on_contacts contacts_List w in (HttpJson 200 (ContactsJson cs), w1))
     else if meth = ''POST'' then with_body body (write_contact ax ''failed to create contact'' '''') w
     else (HttpError 405 ''method not allowed'', w))"

definition handleContactsDedupe ::
  "address_env \<Rightarrow> map_orders \<Rightarrow> address_world \<Rightarrow> contacts_http \<times> address_world" where
  "handleContactsDedupe ax mo w =
    (if \<not> ax_contacts ax then (HttpError 500 ''failed to open contacts store'', w)
     else http_of ''failed to dedupe contacts'' DedupeJson (on_contacts (contacts_Dedupe (ax_env ax 0) mo) w))"

definition live_contact :: "contact option \<Rightarrow> bool" where
  "live_contact c \<longleftrightarrow> (case c of None \<Rightarrow> False | Some x \<Rightarrow> \<not> ct_Deleted x)"

definition handleContactByID ::
  "address_env \<Rightarrow> string \<Rightarrow> string \<Rightarrow> contact_payload json_body \<Rightarrow> address_world \<Rightarrow> contacts_http \<times> address_world" where
  "handleContactByID ax meth pathID body w =
    (if \<not> ax_contacts ax then (HttpError 500 ''failed to open contacts store'', w)
     else
       (let uid = trim_space pathID in
        if uid = '''' then (HttpError 400 ''id is required'', w)
        else if meth = ''GET'' then
          (let (c, w1) = on_contacts (contacts_Get uid) w in
           if \<not> live_contact c then (HttpError 404 ''contact not found'', w1)
           else (HttpJson 200 (ContactJson (the c)), w1))
        else if meth = ''PUT'' then
          (let (c, w1) = on_contacts (contacts_Get uid) w in
           if \<not> live_contact c then (HttpError 404 ''contact not found'', w1)
           else with_body body (write_contact ax ''failed to update contact'' uid) w1)
        else if meth = ''DELETE'' then
          http_of ''failed to delete contact'' Removed (on_contacts (contacts_Delete (ax_env ax 0) uid) w)
        else (HttpError 405 ''method not allowed'', w)))"

text \<open>The IDs of a bulk deletion: trimmed, without empty ones, each once, in order of first occurrence.\<close>

fun unique_ids :: "string list \<Rightarrow> string list \<Rightarrow> string list" where
  "unique_ids seen [] = []"
| "unique_ids seen (i # ids) =
    (let clean = trim_space i in
     if clean = '''' \<or> clean \<in> set seen then unique_ids seen ids
     else clean # unique_ids (clean # seen) ids)"

fun bulk_delete ::
  "(nat \<Rightarrow> go_env) \<Rightarrow> nat \<Rightarrow> string list \<Rightarrow> contacts_world \<Rightarrow> (nat \<times> (string \<times> contacts_error) list) \<times> contacts_world" where
  "bulk_delete es k [] w = ((0, []), w)"
| "bulk_delete es k (uid # uids) w =
    (let (r, w1) = contacts_Delete (es k) uid w; ((n, failed), w2) = bulk_delete es (Suc k) uids w1
     in (case r of Inl err \<Rightarrow> ((n, (uid, err) # failed), w2) | Inr _ \<Rightarrow> ((Suc n, failed), w2)))"

definition handleContactsBulkDelete ::
  "address_env \<Rightarrow> string list json_body \<Rightarrow> address_world \<Rightarrow> contacts_http \<times> address_world" where
  "handleContactsBulkDelete ax body w =
    (if \<not> ax_contacts ax then (HttpError 500 ''failed to open contacts store'', w)
     else with_body body (\<lambda>ids w.
       (let uids = unique_ids [] ids in
        if uids = [] then (HttpError 400 ''at least one id is required'', w)
        else
          (let ((processed, failed), w1) = on_contacts (bulk_delete (ax_env ax) 0 uids) w
           in (HttpJson 200 (BulkDeleted (failed = []) processed failed), w1)))) w)"

definition handleContactSelf ::
  "address_env \<Rightarrow> string \<Rightarrow> string \<Rightarrow> bool json_body \<Rightarrow> address_world \<Rightarrow> contacts_http \<times> address_world" where
  "handleContactSelf ax meth pathID body w =
    (if meth \<noteq> ''POST'' then (HttpError 405 ''method not allowed'', w)
     else if \<not> ax_contacts ax then (HttpError 500 ''failed to open contacts store'', w)
     else
       (let uid = trim_space pathID in
        if uid = '''' then (HttpError 400 ''id is required'', w)
        else with_body body (\<lambda>self w.
          (case on_contacts (contacts_SetSelf (ax_env ax 0) uid self) w of
             (Inl _, w1) \<Rightarrow> (HttpError 500 ''failed to update contact'', w1)
           | (Inr None, w1) \<Rightarrow> (HttpError 404 ''contact not found'', w1)
           | (Inr (Some c), w1) \<Rightarrow> (HttpJson 200 (ContactJson c), w1))) w))"

definition search_limit_of :: "string \<Rightarrow> int" where
  "search_limit_of limitStr =
    (let limit = (if limitStr = '''' then 5
                  else (case atoi limitStr of None \<Rightarrow> 5 | Some n \<Rightarrow> if n > 0 then n else 5))
     in if limit > 25 then 25 else limit)"

definition handleContactsSearch :: "address_env \<Rightarrow> string \<Rightarrow> string \<Rightarrow> address_world \<Rightarrow> contacts_http \<times> address_world" where
  "handleContactsSearch ax q limitStr w =
    (if \<not> ax_contacts ax then (HttpError 500 ''failed to open contacts store'', w)
     else if trim_space q = '''' then (HttpError 400 ''q parameter is required'', w)
     else
       (let (cs, w1) = on_contacts (contacts_Search q (search_limit_of limitStr)) w
        in (HttpJson 200 (ContactsJson cs), w1)))"

section \<open>Synchronisation of devices\<close>

definition parseNonNegativeInt64Query :: "string \<Rightarrow> int" where
  "parseNonNegativeInt64Query v =
    (let raw = trim_space v in
     if raw = '''' then 0 else (case atoi raw of None \<Rightarrow> 0 | Some n \<Rightarrow> if n < 0 then 0 else n))"

definition writeContactsSyncResponse :: "int \<Rightarrow> contacts_world \<Rightarrow> contacts_http \<times> contacts_world" where
  "writeContactsSyncResponse since w =
    (let (d, w1) = contacts_ChangedSince since w
     in (HttpJson 200 (SyncJson (sd_cursor d) (sd_tooOld d)
           (if sd_tooOld d then None else Some (sd_changed d, sd_deleted d))), w1))"

text \<open>The changes one after the other; False: a change could not be applied, and the rest is not.\<close>

fun apply_changes ::
  "address_env \<Rightarrow> nat \<Rightarrow> contact_sync_change list \<Rightarrow> address_world \<Rightarrow> bool \<times> address_world" where
  "apply_changes ax k [] w = (True, w)"
| "apply_changes ax k (ch # rest) w =
    (let uid = trim_space (sc_UID ch) in
     if sc_Deleted ch then
       (if uid = '''' then apply_changes ax k rest w
        else (case on_contacts (contacts_Delete (ax_env ax k) uid) w of
                (Inl _, w1) \<Rightarrow> (False, w1)
              | (Inr _, w1) \<Rightarrow> apply_changes ax (Suc k) rest w1))
     else if trim_space (cp_FormattedName (sc_payload ch)) = '''' then apply_changes ax k rest w
     else
       (let (ids, w1) = sanitizeGroupIDsForUser (ax_groups ax) (cp_GroupIDs (sc_payload ch)) w in
        case on_contacts (contacts_Upsert (ax_env ax k) (toContact ((sc_payload ch)\<lparr>cp_GroupIDs := ids\<rparr>) uid)) w1 of
          (Inl _, w2) \<Rightarrow> (False, w2)
        | (Inr _, w2) \<Rightarrow> apply_changes ax (Suc k) rest w2))"

text \<open>The credentials of the device: the seconds it is locked out for (0: refused), or accepted.\<close>

definition handleContactsSync ::
  "address_env \<Rightarrow> nat + unit \<Rightarrow> string \<Rightarrow> string \<Rightarrow> contacts_push json_body \<Rightarrow> address_world \<Rightarrow>
   contacts_http \<times> address_world" where
  "handleContactsSync ax auth meth since body w =
    (case auth of
       Inl retryAfter \<Rightarrow>
         (if retryAfter > 0 then (HttpError 429 ''too many failed attempts, try again later'', w)
          else (HttpError 401 ''invalid device credentials'', w))
     | Inr _ \<Rightarrow>
        (if \<not> ax_contacts ax then (HttpError 500 ''failed to open contacts store'', w)
         else if meth = ''GET'' then on_contacts (writeContactsSyncResponse (parseNonNegativeInt64Query since)) w
         else if meth = ''POST'' then
           with_body body (\<lambda>req w.
             (case apply_changes ax 0 (cq_Changes req) w of
                (False, w1) \<Rightarrow> (HttpError 500 ''failed to apply change'', w1)
              | (True, w1) \<Rightarrow> on_contacts (writeContactsSyncResponse (cq_BaseCursor req)) w1)) w
         else (HttpError 405 ''method not allowed'', w)))"

section \<open>Groups\<close>

definition groupFromPayload :: "string \<Rightarrow> string \<Rightarrow> group" where
  "groupFromPayload gid name = \<lparr>g_ID = gid, g_Name = name, g_Rev = 0, g_CreatedAt = '''', g_UpdatedAt = ''''\<rparr>"

definition write_group ::
  "address_env \<Rightarrow> string \<Rightarrow> string \<Rightarrow> string \<Rightarrow> address_world \<Rightarrow> contacts_http \<times> address_world" where
  "write_group ax failure gid rawName w =
    (let name = trim_space rawName in
     if name = '''' then (HttpError 400 ''name is required'', w)
     else http_of failure GroupJson (on_groups (groups_Upsert (ax_group_env ax) (groupFromPayload gid name)) w))"

definition handleGroups ::
  "address_env \<Rightarrow> string \<Rightarrow> string json_body \<Rightarrow> address_world \<Rightarrow> contacts_http \<times> address_world" where
  "handleGroups ax meth body w =
    (if \<not> ax_groups ax then (HttpError 500 ''failed to open groups store'', w)
     else if meth = ''GET'' then
       (let (gs, w1) = on_groups groups_List w in (HttpJson 200 (GroupsJson gs), w1))
     else if meth = ''POST'' then with_body body (write_group ax ''failed to create group'' '''') w
     else (HttpError 405 ''method not allowed'', w))"

text \<open>The loop over the contacts that have the ID; an error ends it.\<close>

fun strip_group ::
  "(nat \<Rightarrow> go_env) \<Rightarrow> nat \<Rightarrow> string \<Rightarrow> contact list \<Rightarrow> contacts_world \<Rightarrow> contacts_error option \<times> contacts_world" where
  "strip_group es k gid [] w = (None, w)"
| "strip_group es k gid (c # cs) w =
    (if gid \<notin> set (ct_GroupIDs c) then strip_group es k gid cs w
     else
       (case contacts_Upsert (es k) (c\<lparr>ct_GroupIDs := filter (\<lambda>i. i \<noteq> gid) (ct_GroupIDs c)\<rparr>) w of
          (Inl err, w1) \<Rightarrow> (Some err, w1)
        | (Inr _, w1) \<Rightarrow> strip_group es (Suc k) gid cs w1))"

text \<open>True: every contact that named the group has been written without it.\<close>

definition removeGroupFromContacts :: "address_env \<Rightarrow> string \<Rightarrow> address_world \<Rightarrow> bool \<times> address_world" where
  "removeGroupFromContacts ax gid w =
    (if \<not> ax_contacts ax then (False, w)
     else
       (let (cs, w1) = on_contacts contacts_List w; (err, w2) = on_contacts (strip_group (ax_env ax) 0 gid cs) w1
        in (err = None, w2)))"

definition handleGroupByID ::
  "address_env \<Rightarrow> string \<Rightarrow> string \<Rightarrow> string json_body \<Rightarrow> address_world \<Rightarrow> contacts_http \<times> address_world" where
  "handleGroupByID ax meth pathID body w =
    (if \<not> ax_groups ax then (HttpError 500 ''failed to open groups store'', w)
     else
       (let gid = trim_space pathID in
        if gid = '''' then (HttpError 400 ''id is required'', w)
        else if meth = ''PUT'' then
          (case on_groups (groups_Get gid) w of
             (None, w1) \<Rightarrow> (HttpError 404 ''group not found'', w1)
           | (Some _, w1) \<Rightarrow> with_body body (write_group ax ''failed to rename group'' gid) w1)
        else if meth = ''DELETE'' then
          (case on_groups (groups_Delete (ax_group_env ax) gid) w of
             (Inl _, w1) \<Rightarrow> (HttpError 500 ''failed to delete group'', w1)
           | (Inr removed, w1) \<Rightarrow>
              (let (ok, w2) = (if removed then removeGroupFromContacts ax gid w1 else (True, w1)) in
               if ok then (HttpJson 200 (Removed removed), w2)
               else (HttpError 500 ''group deleted but failed to update contacts'', w2)))
        else (HttpError 405 ''method not allowed'', w)))"

section \<open>Every group a contact names exists\<close>

subsection \<open>The operations on the contacts\<close>

text \<open>A contact names groups of a set only, a deleted one names none.\<close>

definition names_in :: "string set \<Rightarrow> contact \<Rightarrow> bool" where
  "names_in G c \<longleftrightarrow> set (ct_GroupIDs c) \<subseteq> G \<and> (ct_Deleted c \<longrightarrow> ct_GroupIDs c = [])"

definition refs_in :: "string set \<Rightarrow> contacts_store \<Rightarrow> bool" where
  "refs_in G s \<longleftrightarrow> (\<forall>c\<in>set (co_contacts s). names_in G c)"

lemma names_in_stamped [simp]:
  "names_in G (c\<lparr>ct_Rev := r\<rparr>) = names_in G c" "names_in G (c\<lparr>ct_UpdatedAt := t\<rparr>) = names_in G c"
  "names_in G (c\<lparr>ct_IsSelf := b\<rparr>) = names_in G c" "names_in G (c\<lparr>ct_CreatedAt := t\<rparr>) = names_in G c"
  "names_in G (c\<lparr>ct_UID := u\<rparr>) = names_in G c" "names_in G (c\<lparr>ct_MergedInto := u\<rparr>) = names_in G c"
  by (simp_all add: names_in_def)

lemma names_in_tombstone [simp]: "names_in G (tombstone c)"
  by (simp add: names_in_def tombstone_def)

lemma refs_in_mono: "refs_in G s \<Longrightarrow> G \<subseteq> H \<Longrightarrow> refs_in H s"
  unfolding refs_in_def names_in_def by blast

lemma refs_in_seq [simp]: "refs_in G (s\<lparr>co_seq := q\<rparr>) = refs_in G s"
  by (simp add: refs_in_def)

lemma in_replace_first: "x \<in> set (replace_first P (\<lambda>_. c) xs) \<Longrightarrow> x = c \<or> x \<in> set xs"
  using set_replace_first_subset [of P "\<lambda>_. c" xs] by auto

lemma in_list_update: "x \<in> set (xs[i := c]) \<Longrightarrow> x = c \<or> x \<in> set xs"
  using set_update_subset_insert [of xs i c] by auto

lemma refs_in_update: "refs_in G s \<Longrightarrow> names_in G c \<Longrightarrow> co_contacts s' = (co_contacts s)[i := c] \<Longrightarrow> refs_in G s'"
  by (auto simp: refs_in_def dest!: in_list_update)

lemma upsert_refs:
  assumes "refs_in G s" "set (ct_GroupIDs c) \<subseteq> G"
  shows "refs_in G (fst (snd (contact_upsert e c s)))"
proof -
  have c: "names_in G (c\<lparr>ct_Rev := r, ct_Deleted := False, ct_UpdatedAt := t\<rparr>)" for r t
    using assms(2) by (simp add: names_in_def)
  then show ?thesis
    using assms(1)
    by (auto simp: contact_upsert_def Let_def refs_in_def dest!: in_replace_first split: sum.splits option.splits)
qed

lemma delete_refs: "refs_in G s \<Longrightarrow> refs_in G (fst (snd (contact_delete e uid s)))"
  by (auto simp: contact_delete_def refs_in_def Let_def dest!: in_replace_first split: option.split)

lemma clear_other_selfs_refs:
  "\<forall>c\<in>set cs. names_in G c \<Longrightarrow> \<forall>c\<in>set (fst (clear_other_selfs now idx i cs sq)). names_in G c"
  by (induction now idx i cs sq rule: clear_other_selfs.induct) (auto split: prod.splits)

lemma set_self_refs: "refs_in G s \<Longrightarrow> refs_in G (fst (snd (contact_set_self e uid b s)))"
proof (cases "find_index (\<lambda>c. ct_UID c = uid) (co_contacts s)")
  case (Some idx)
  assume r: "refs_in G s"
  obtain cs1 sq1 ch1 where cl: "clear_other_selfs (stamp e) idx 0 (co_contacts s) (co_seq s) = (cs1, sq1, ch1)"
    by (metis prod_cases3)
  have cs1: "\<forall>c\<in>set cs1. names_in G c"
    using clear_other_selfs_refs [of "co_contacts s" G "stamp e" idx 0 "co_seq s"] r cl by (simp add: refs_in_def)
  have "find_index P xs = Some i \<Longrightarrow> i < length xs" for P and xs :: "contact list" and i
    by (induction xs arbitrary: i) (auto split: if_splits)
  from this [OF Some] have l: "idx < length (co_contacts s)" .
  have "length cs1 = length (co_contacts s)" using clear_other_selfs_spec [OF cl] by blast
  with l have "names_in G (cs1 ! idx)" "names_in G (co_contacts s ! idx)" using cs1 r by (auto simp: refs_in_def)
  then show ?thesis
    using Some cl r cs1
    by (cases b) (auto simp: contact_set_self_def Let_def refs_in_def dest!: in_list_update)
qed (simp add: contact_set_self_def)

lemma keep_new_subset: "set (keep_new key seen xs) \<subseteq> set xs"
  by (induction key seen xs rule: keep_new.induct) auto

lemma merge_refs:
  assumes "mergeGroup members = (sv, ab)" "members \<noteq> []" "\<forall>c\<in>set members. names_in G c \<and> \<not> ct_Deleted c"
  shows "names_in G sv"
proof -
  obtain old rest where o: "by_age members = old # rest"
    using assms(2) unfolding by_age_def by (metis length_0_conv length_sort neq_Nil_conv)
  have "set (old # rest) = set members" unfolding o [symmetric] by (simp add: by_age_def)
  then have "\<not> ct_Deleted old" using assms(3) by auto
  moreover have "set (unionStrings members ct_GroupIDs) \<subseteq> G"
    using keep_new_subset [of id "{''''}" "concat (map ct_GroupIDs members)"] assms(3)
    by (fastforce simp: unionStrings_def names_in_def)
  ultimately show ?thesis using assms(1) o by (auto simp: mergeGroup_def Let_def names_in_def)
qed

lemma absorb_refs: "refs_in G s \<Longrightarrow> absorb_losers now at surv uids s = Some s' \<Longrightarrow> refs_in G s'"
proof (induction now at surv uids s rule: absorb_losers.induct)
  case (2 now at surv uid uids s)
  from "2.prems"(2) obtain i where i: "at uid = Some i" by (auto split: option.splits)
  show ?case
    by (rule "2.IH" [OF i refl refl])
      (use "2.prems" i in \<open>auto simp: Let_def refs_in_def dest!: in_list_update\<close>)
qed simp

lemma dedupe_groups_refs:
  assumes "refs_in G s" "\<forall>c\<in>set live. names_in G c \<and> \<not> ct_Deleted c" "\<forall>g\<in>set grps. g \<noteq> [] \<and> (\<forall>k\<in>set g. k < length live)"
    and "dedupe_groups now live idx grps (s, r, ch) = Some (s', r', ch')"
  shows "refs_in G s'"
  using assms
proof (induction grps arbitrary: s r ch)
  case (Cons grp grps)
  let ?m = "map ((!) live) grp"
  show ?case
  proof (cases "groupShouldMerge ?m")
    case True
    obtain sv ab where mg: "mergeGroup ?m = (sv, ab)" by fastforce
    have "names_in G sv" by (rule merge_refs [OF mg]) (use Cons.prems in auto)
    then have sv: "names_in G (sv\<lparr>ct_Rev := q, ct_UpdatedAt := now\<rparr>)" for q by simp
    obtain i s2 where s2: "absorb_losers now (byUID live idx grp) (ct_UID sv) ab
        (s\<lparr>co_seq := co_seq s + 1, co_contacts := (co_contacts s)[i := sv\<lparr>ct_Rev := co_seq s + 1, ct_UpdatedAt := now\<rparr>]\<rparr>) = Some s2"
      and rest: "\<exists>r2. dedupe_groups now live idx grps (s2, r2, True) = Some (s', r', ch')"
      using Cons.prems(4) True mg by (auto simp: Let_def split: option.splits)
    have "refs_in G s2"
      by (rule absorb_refs [OF _ s2]) (rule refs_in_update [OF Cons.prems(1) sv], simp)
    with rest Cons.IH Cons.prems(2,3) show ?thesis by auto
  next
    case False
    with Cons show ?thesis by (simp add: Let_def)
  qed
qed simp

lemma dedupe_refs:
  assumes "refs_in G s" "map_iteration mo"
  shows "refs_in G (fst (snd (contacts_dedupe e mo s)))"
proof -
  let ?live = "live_contacts s"
  have live: "\<forall>c\<in>set ?live. names_in G c \<and> \<not> ct_Deleted c" using assms(1) by (auto simp: live_contacts_def refs_in_def)
  have grps: "\<forall>g\<in>set (component_groups ?live). g \<noteq> [] \<and> (\<forall>k\<in>set g. k < length ?live)"
    using component_groups_props(3) component_groups_bounded by fastforce
  show ?thesis
    using dedupe_groups_refs [OF assms(1) live grps] assms(1) findDuplicateGroups_components_aux [OF assms(2), of ?live]
    by (auto simp: contacts_dedupe_def Let_def split: option.splits)
qed

subsection \<open>The requests\<close>

text \<open>
  The two files are readable, the book is well-formed, the contacts name groups that exist. \<open>X\<close> is a set
  of UIDs that contains those of the book.
\<close>

definition address_files :: "contacts_file \<Rightarrow> groups_file \<Rightarrow> address_world \<Rightarrow> bool" where
  "address_files cv gv w \<longleftrightarrow> snd (aw_contacts w) = Json cv \<and> snd (aw_groups w) = Json gv"

definition group_ids :: "groups_file \<Rightarrow> string set" where
  "group_ids gv = g_ID ` set (gf_Groups gv)"

definition book_uids :: "contacts_file \<Rightarrow> string set" where
  "book_uids cv = ct_UID ` set (cf_Contacts cv)"

definition address_ok :: "string set \<Rightarrow> address_world \<Rightarrow> bool" where
  "address_ok X w \<longleftrightarrow>
    (\<exists>cv gv. address_files cv gv w \<and> contacts_ok (book cv) \<and> refs_in (group_ids gv) (book cv) \<and> book_uids cv \<subseteq> X)"

text \<open>The identifiers generated from the k-th change on are new and different.\<close>

definition new_ids :: "(nat \<Rightarrow> go_env) \<Rightarrow> string set \<Rightarrow> bool" where
  "new_ids es X \<longleftrightarrow> (\<forall>k u. NewUUIDv4 (env_rand (es k)) = Inr u \<longrightarrow>
    u \<noteq> '''' \<and> u \<notin> X \<and> (\<forall>j<k. NewUUIDv4 (env_rand (es j)) \<noteq> Inr u))"

definition new_upto :: "(nat \<Rightarrow> go_env) \<Rightarrow> nat \<Rightarrow> string set" where
  "new_upto es k = {u. \<exists>j<k. NewUUIDv4 (env_rand (es j)) = Inr u}"

lemma new_ids_fresh: "new_ids es X \<Longrightarrow> U \<subseteq> X \<union> new_upto es k \<Longrightarrow> fresh_id (es k) U"
  unfolding new_ids_def new_upto_def fresh_id_def by (auto split: sum.split)

lemma new_upto_Suc: "new_upto es (Suc k) = new_upto es k \<union> {u. NewUUIDv4 (env_rand (es k)) = Inr u}"
  unfolding new_upto_def by (auto simp: less_Suc_eq)

lemma book_uids_alt: "book_uids cv = ct_UID ` set (co_contacts (book cv))"
  by (simp add: book_uids_def book_def contacts_applyFile_def)

lemma upsert_uids:
  "ct_UID ` set (co_contacts (fst (snd (contact_upsert e c s)))) \<subseteq>
     ct_UID ` set (co_contacts s) \<union> ({ct_UID c} - {''''}) \<union> {u. NewUUIDv4 (env_rand e) = Inr u}"
  by (auto simp: contact_upsert_def Let_def dest!: in_replace_first split: sum.splits option.splits)

text \<open>A change of the contacts whose body keeps the book and its references.\<close>

lemma address_transact:
  assumes "address_ok X w" "\<And>m. f (m, snd (aw_contacts w)) = transact contacts_applyFile contacts_file_of io e body (m, snd (aw_contacts w))"
    and "\<And>cv gv. address_files cv gv w \<Longrightarrow> contacts_ok (book cv) \<Longrightarrow> refs_in (group_ids gv) (book cv) \<Longrightarrow> book_uids cv \<subseteq> X \<Longrightarrow>
      contacts_ok (fst (snd (body (book cv)))) \<and> refs_in (group_ids gv) (fst (snd (body (book cv)))) \<and>
      ct_UID ` set (co_contacts (fst (snd (body (book cv))))) \<subseteq> Y" "X \<subseteq> Y"
  shows "address_ok Y (snd (on_contacts f w))"
proof -
  obtain cv gv where ok: "address_files cv gv w" "contacts_ok (book cv)" "refs_in (group_ids gv) (book cv)" "book_uids cv \<subseteq> X"
    using assms(1) by (auto simp: address_ok_def)
  obtain m where m: "aw_contacts w = (m, Json cv)" using ok(1) by (cases "aw_contacts w") (auto simp: address_files_def)
  obtain r s' d where b: "body (book cv) = (r, s', d)" by (metis prod_cases3)
  have s': "contacts_ok s'" "refs_in (group_ids gv) s'" "ct_UID ` set (co_contacts s') \<subseteq> Y"
    using assms(3) [OF ok] b by simp_all
  have "f (m, Json cv) = transact contacts_applyFile contacts_file_of io e body (m, Json cv)" using assms(2) m by simp
  then obtain r' t v' where f: "f (m, Json cv) = (r', t, Json v')" and v': "v' = cv \<or> v' = contacts_file_of s'"
    by (auto simp: transact_Json apply_book b split: if_splits)
  from v' have "contacts_ok (book v') \<and> refs_in (group_ids gv) (book v') \<and> book_uids v' \<subseteq> Y"
    using ok s' assms(4) by (auto simp: book_uids_alt)
  with ok(1) f show ?thesis
    unfolding address_ok_def by (intro exI [of _ v'] exI [of _ gv]) (simp add: on_contacts_def m address_files_def)
qed

lemma keep_known_spec:
  "snd g = Json gv \<Longrightarrow> keep_known ids g = (known, g') \<Longrightarrow> set known \<subseteq> group_ids gv \<and> snd g' = Json gv"
proof (induction ids arbitrary: g known g')
  case (Cons i ids)
  obtain found g1 where g1: "groups_Get i g = (found, g1)" by (rule prod.exhaust)
  obtain known2 g2 where r: "keep_known ids g1 = (known2, g2)" by (rule prod.exhaust)
  have found: "found = group_get i (groups_applyFile gv (fst g))" "snd g1 = Json gv"
    using g1 Cons.prems(1) by (cases g; auto simp: groups_Get_def observe_Json)+
  have "found \<noteq> None \<Longrightarrow> i \<in> group_ids gv"
    by (auto simp: found(1) group_get_def group_ids_def groups_applyFile_def dest!: find_SomeD)
  with Cons.IH [OF found(2) r] Cons.prems(2) show ?case by (auto simp: g1 r split: if_splits)
qed simp

lemma sanitize_spec:
  assumes "snd (aw_groups w) = Json gv" "sanitizeGroupIDsForUser opened ids w = (known, w')"
  shows "set known \<subseteq> group_ids gv" "snd (aw_groups w') = Json gv" "aw_contacts w' = aw_contacts w"
  using assms keep_known_spec [OF assms(1)]
  by (auto simp: sanitizeGroupIDsForUser_def on_groups_def split: if_splits prod.splits)

lemma sanitize_ok:
  assumes "address_ok X w" "sanitizeGroupIDsForUser opened ids w = (known, w')"
  shows "address_ok X w' \<and> (\<exists>gv. snd (aw_groups w') = Json gv \<and> set known \<subseteq> group_ids gv)"
proof -
  obtain cv gv where "address_files cv gv w" "contacts_ok (book cv)" "refs_in (group_ids gv) (book cv)" "book_uids cv \<subseteq> X"
    using assms(1) by (auto simp: address_ok_def)
  moreover have "snd (aw_groups w) = Json gv" using calculation(1) by (simp add: address_files_def)
  ultimately show ?thesis
    using sanitize_spec [OF _ assms(2)] unfolding address_ok_def address_files_def by metis
qed

lemma address_mono: "address_ok X w \<Longrightarrow> X \<subseteq> Y \<Longrightarrow> address_ok Y w"
  unfolding address_ok_def by blast

lemma address_upsert:
  assumes "address_ok X w" "fresh_id e X" "snd (aw_groups w) = Json gv" "set (ct_GroupIDs c) \<subseteq> group_ids gv"
  shows "address_ok (X \<union> ({ct_UID c} - {''''}) \<union> {u. NewUUIDv4 (env_rand e) = Inr u}) (snd (on_contacts (contacts_Upsert e c) w))"
proof (rule address_transact [OF assms(1), where body = "contact_upsert e c"])
  show "contacts_Upsert e c (m, snd (aw_contacts w)) =
      transact contacts_applyFile contacts_file_of ContactsIO e (contact_upsert e c) (m, snd (aw_contacts w))" for m
    by (simp add: contacts_Upsert_def)
  fix cv gv' assume ok: "address_files cv gv' w" "contacts_ok (book cv)" "refs_in (group_ids gv') (book cv)" "book_uids cv \<subseteq> X"
  have "gv' = gv" using ok(1) assms(3) by (simp add: address_files_def)
  have "fresh_id e (ct_UID ` set (co_contacts (book cv)))"
    using assms(2) ok(4) by (auto simp: book_uids_alt fresh_id_def split: sum.splits)
  from upsert_good [OF ok(2) this, of c] upsert_refs [OF ok(3), of c e] upsert_uids [of e c "book cv"] assms(4) ok(4)
  show "contacts_ok (fst (snd (contact_upsert e c (book cv)))) \<and>
      refs_in (group_ids gv') (fst (snd (contact_upsert e c (book cv)))) \<and>
      ct_UID ` set (co_contacts (fst (snd (contact_upsert e c (book cv)))))
        \<subseteq> X \<union> ({ct_UID c} - {''''}) \<union> {u. NewUUIDv4 (env_rand e) = Inr u}"
    by (auto simp: good_step_def book_uids_alt \<open>gv' = gv\<close>)
qed auto

lemma touched_refs_keep:
  assumes "address_ok X w" "\<And>s. touched s (fst (snd (body s)))" "\<And>G s. refs_in G s \<Longrightarrow> refs_in G (fst (snd (body s)))"
    and "\<And>m. f (m, snd (aw_contacts w)) = transact contacts_applyFile contacts_file_of io e body (m, snd (aw_contacts w))"
  shows "address_ok X (snd (on_contacts f w))"
proof (rule address_transact [OF assms(1,4)])
  fix cv gv assume ok: "address_files cv gv w" "contacts_ok (book cv)" "refs_in (group_ids gv) (book cv)" "book_uids cv \<subseteq> X"
  have "map ct_UID (co_contacts (fst (snd (body (book cv))))) = map ct_UID (co_contacts (book cv))"
    by (rule touched_uids [OF assms(2)])
  then have "ct_UID ` set (co_contacts (fst (snd (body (book cv))))) = ct_UID ` set (co_contacts (book cv))"
    by (metis list.set_map)
  with ok touched_ok [OF ok(2) assms(2)] assms(3)
  show "contacts_ok (fst (snd (body (book cv)))) \<and> refs_in (group_ids gv) (fst (snd (body (book cv)))) \<and>
      ct_UID ` set (co_contacts (fst (snd (body (book cv))))) \<subseteq> X"
    by (simp add: book_uids_alt)
qed auto

lemma address_delete: "address_ok X w \<Longrightarrow> address_ok X (snd (on_contacts (contacts_Delete e uid) w))"
  by (rule touched_refs_keep [OF _ delete_touched delete_refs]) (simp_all add: contacts_Delete_def)

lemma address_set_self: "address_ok X w \<Longrightarrow> address_ok X (snd (on_contacts (contacts_SetSelf e uid b) w))"
  by (rule touched_refs_keep [OF _ set_self_touched set_self_refs]) (simp_all add: contacts_SetSelf_def)

lemma address_dedupe: "map_iteration mo \<Longrightarrow> address_ok X w \<Longrightarrow> address_ok X (snd (on_contacts (contacts_Dedupe e mo) w))"
  by (rule touched_refs_keep [OF _ dedupe_touched dedupe_refs]) (simp_all add: contacts_Dedupe_def)

lemma address_observe: "address_ok X w \<Longrightarrow> address_ok X (snd (on_contacts (observe contacts_applyFile q) w))"
  by (cases "aw_contacts w") (auto simp: address_ok_def address_files_def on_contacts_def observe_Json)

lemma address_observe_groups: "address_ok X w \<Longrightarrow> address_ok X (snd (on_groups (observe groups_applyFile q) w))"
  by (cases "aw_groups w") (auto simp: address_ok_def address_files_def on_groups_def observe_Json)

lemma address_bulk: "address_ok X w \<Longrightarrow> address_ok X (snd (on_contacts (bulk_delete es k uids) w))"
proof (induction uids arbitrary: k w)
  case Nil
  then show ?case by (simp add: on_contacts_def)
next
  case (Cons uid uids)
  obtain r c1 where d: "contacts_Delete (es k) uid (aw_contacts w) = (r, c1)" by (rule prod.exhaust)
  have "address_ok X (snd (on_contacts (contacts_Delete (es k) uid) w))" by (rule address_delete [OF Cons.prems])
  then have "address_ok X (w\<lparr>aw_contacts := c1\<rparr>)" by (simp add: on_contacts_def d)
  from Cons.IH [OF this, of "Suc k"] show ?case
    by (cases r) (auto simp: on_contacts_def d split: prod.splits)
qed

text \<open>The changes a device pushes; the UIDs it names count as used.\<close>

definition change_uids :: "contact_sync_change list \<Rightarrow> string set" where
  "change_uids chs = (\<lambda>ch. trim_space (sc_UID ch)) ` set chs"

lemma address_changes:
  assumes "address_ok (X \<union> new_upto (ax_env ax) k) w" "new_ids (ax_env ax) X" "change_uids chs \<subseteq> X"
  shows "\<exists>k'. address_ok (X \<union> new_upto (ax_env ax) k') (snd (apply_changes ax k chs w))"
  using assms
proof (induction chs arbitrary: k w)
  case (Cons ch chs)
  let ?uid = "trim_space (sc_UID ch)"
  have chs: "change_uids chs \<subseteq> X" and uid: "?uid \<in> X" using Cons.prems(3) by (auto simp: change_uids_def)
  have IH: "address_ok (X \<union> new_upto (ax_env ax) k1) w1 \<Longrightarrow>
      \<exists>k'. address_ok (X \<union> new_upto (ax_env ax) k') (snd (apply_changes ax k1 chs w1))" for k1 w1
    using Cons.IH Cons.prems(2) chs by blast
  have Suc: "X \<union> new_upto (ax_env ax) k \<subseteq> X \<union> new_upto (ax_env ax) (Suc k)" by (auto simp: new_upto_Suc)
  consider (skip) "apply_changes ax k (ch # chs) w = apply_changes ax k chs w"
    | (del) r w1 where "on_contacts (contacts_Delete (ax_env ax k) ?uid) w = (r, w1)"
        "snd (apply_changes ax k (ch # chs) w) = w1 \<or> apply_changes ax k (ch # chs) w = apply_changes ax (Suc k) chs w1"
    | (put) ids w1 r w2 where "sanitizeGroupIDsForUser (ax_groups ax) (cp_GroupIDs (sc_payload ch)) w = (ids, w1)"
        "on_contacts (contacts_Upsert (ax_env ax k) (toContact ((sc_payload ch)\<lparr>cp_GroupIDs := ids\<rparr>) ?uid)) w1 = (r, w2)"
        "snd (apply_changes ax k (ch # chs) w) = w2 \<or> apply_changes ax k (ch # chs) w = apply_changes ax (Suc k) chs w2"
  proof (cases "sc_Deleted ch")
    case True
    obtain r w1 where d: "on_contacts (contacts_Delete (ax_env ax k) ?uid) w = (r, w1)" by (rule prod.exhaust)
    show thesis
      by (cases "?uid = ''''"; cases r) (use True d in \<open>auto intro: skip del [OF d]\<close>)
  next
    case False
    obtain ids w1 where s: "sanitizeGroupIDsForUser (ax_groups ax) (cp_GroupIDs (sc_payload ch)) w = (ids, w1)"
      by (rule prod.exhaust)
    obtain r w2 where u: "on_contacts (contacts_Upsert (ax_env ax k) (toContact ((sc_payload ch)\<lparr>cp_GroupIDs := ids\<rparr>) ?uid)) w1 = (r, w2)"
      by (rule prod.exhaust)
    show thesis
      by (cases "trim_space (cp_FormattedName (sc_payload ch)) = ''''"; cases r)
        (use False s u in \<open>auto intro: skip put [OF s u]\<close>)
  qed
  then show ?case
  proof cases
    case skip
    with IH Cons.prems(1) show ?thesis by simp
  next
    case (del r w1)
    have "address_ok (X \<union> new_upto (ax_env ax) (Suc k)) w1"
      using address_delete [OF address_mono [OF Cons.prems(1) Suc], of "ax_env ax k" ?uid] del(1) by simp
    with IH del(2) show ?thesis by metis
  next
    case (put ids w1 r w2)
    obtain gv where gv: "address_ok (X \<union> new_upto (ax_env ax) k) w1" "snd (aw_groups w1) = Json gv" "set ids \<subseteq> group_ids gv"
      using sanitize_ok [OF Cons.prems(1) put(1)] by blast
    have "address_ok (X \<union> new_upto (ax_env ax) k \<union> ({?uid} - {''''}) \<union> {u. NewUUIDv4 (env_rand (ax_env ax k)) = Inr u}) w2"
      using address_upsert [OF gv(1) new_ids_fresh [OF Cons.prems(2) order_refl] gv(2),
          of "toContact ((sc_payload ch)\<lparr>cp_GroupIDs := ids\<rparr>) ?uid"] put(2) gv(3)
      by (simp add: toContact_def)
    then have "address_ok (X \<union> new_upto (ax_env ax) (Suc k)) w2"
      by (rule address_mono) (use uid in \<open>auto simp: new_upto_Suc\<close>)
    with IH put(3) show ?thesis by metis
  qed
qed auto

text \<open>Taking a group out of the contacts: afterwards none of them names it.\<close>

lemma upsert_known_uid: "ct_UID c \<noteq> '''' \<Longrightarrow> contact_upsert e c s = contact_upsert (e\<lparr>env_rand := None\<rparr>) c s"
  by (simp add: contact_upsert_def Let_def stamp_def)

lemma upsert_at:
  assumes "contacts_ok s" "c \<in> set (co_contacts s)"
  obtains c2 where "ct_GroupIDs c2 = ids" "ct_UID c2 = ct_UID c" "fst (contact_upsert e (c\<lparr>ct_GroupIDs := ids\<rparr>) s) = Inr c2"
    "set (co_contacts (fst (snd (contact_upsert e (c\<lparr>ct_GroupIDs := ids\<rparr>) s)))) = insert c2 (set (co_contacts s) - {c})"
    "contacts_ok (fst (snd (contact_upsert e (c\<lparr>ct_GroupIDs := ids\<rparr>) s)))"
    "snd (snd (contact_upsert e (c\<lparr>ct_GroupIDs := ids\<rparr>) s))" "\<not> ct_Deleted c2"
proof -
  have u: "ct_UID c \<noteq> ''''" using assms by (force simp: contacts_ok_def)
  have d: "distinct (map ct_UID (co_contacts s))" using assms(1) by (simp add: contacts_ok_def)
  have fs: "List.find (\<lambda>x. ct_UID x = ct_UID c) (co_contacts s) = Some c"
  proof -
    obtain y where y: "List.find (\<lambda>x. ct_UID x = ct_UID c) (co_contacts s) = Some y"
      using assms(2) by (cases "List.find (\<lambda>x. ct_UID x = ct_UID c) (co_contacts s)") (auto dest: find_NoneD)
    then have "y = c" using find_SomeD [OF y] d assms(2) by (auto simp: distinct_map inj_on_def)
    with y show ?thesis by simp
  qed
  define c2 where "c2 = c\<lparr>ct_GroupIDs := ids, ct_Rev := co_seq s + 1, ct_Deleted := False, ct_UpdatedAt := stamp e,
    ct_CreatedAt := (if ct_CreatedAt c = '''' then ct_CreatedAt c else ct_CreatedAt c)\<rparr>"
  obtain i where i: "i < length (co_contacts s)" "co_contacts s ! i = c"
    "replace_first (\<lambda>x. ct_UID x = ct_UID c) (\<lambda>_. c2) (co_contacts s) = (co_contacts s)[i := c2]"
    using replace_first_update [OF fs] by metis
  have up: "contact_upsert e (c\<lparr>ct_GroupIDs := ids\<rparr>) s =
      (Inr c2, s\<lparr>co_seq := co_seq s + 1, co_contacts := (co_contacts s)[i := c2]\<rparr>, True)"
    using u fs i(3) unfolding c2_def
    by (cases "ct_CreatedAt c = ''''") (simp_all add: contact_upsert_def Let_def del: if_cancel)
  have "distinct (co_contacts s)" using d by (simp add: distinct_map)
  then have "set ((co_contacts s)[i := c2]) = insert c2 (set (co_contacts s) - {c})"
    using set_update_distinct i(1,2) by metis
  moreover have "contacts_ok (fst (snd (contact_upsert e (c\<lparr>ct_GroupIDs := ids\<rparr>) s)))"
    using upsert_good [OF assms(1), of "e\<lparr>env_rand := None\<rparr>" "c\<lparr>ct_GroupIDs := ids\<rparr>"]
      upsert_known_uid [of "c\<lparr>ct_GroupIDs := ids\<rparr>" e s] u
    by (simp add: good_step_def fresh_id_def NewUUIDv4_def)
  ultimately show thesis by (intro that [of c2]) (simp_all add: up c2_def)
qed

lemma strip_group_spec:
  assumes "contacts_ok (book v)" "\<forall>k. env_write_ok (es k)" "set cs \<subseteq> set (cf_Contacts v)" "distinct (map ct_UID cs)"
    and "\<forall>c\<in>set cs. \<not> ct_Deleted c" "\<forall>c\<in>set (cf_Contacts v) - set cs. gid \<notin> set (ct_GroupIDs c)" "refs_in G (book v)"
  shows "\<exists>s' v'. strip_group es k gid cs (s, Json v) = (None, s', Json v') \<and> contacts_ok (book v') \<and>
    refs_in (G - {gid}) (book v') \<and> book_uids v' = book_uids v"
  using assms
proof (induction cs arbitrary: k s v)
  case Nil
  then have "refs_in (G - {gid}) (book v)"
    by (auto simp: refs_in_def names_in_def book_def contacts_applyFile_def)
  with Nil.prems(1) show ?case by simp
next
  case (Cons c cs)
  show ?case
  proof (cases "gid \<in> set (ct_GroupIDs c)")
    case False
    then have "\<forall>x\<in>set (cf_Contacts v) - set cs. gid \<notin> set (ct_GroupIDs x)" using Cons.prems(6) by auto
    from Cons.IH [OF Cons.prems(1,2) _ _ _ this Cons.prems(7)] Cons.prems(3-5) False show ?thesis by simp
  next
    case True
    let ?ids = "filter (\<lambda>i. i \<noteq> gid) (ct_GroupIDs c)"
    have c: "c \<in> set (co_contacts (book v))" using Cons.prems(3) by (simp add: book_def contacts_applyFile_def)
    obtain c2 where c2: "ct_GroupIDs c2 = ?ids" "ct_UID c2 = ct_UID c"
      "fst (contact_upsert (es k) (c\<lparr>ct_GroupIDs := ?ids\<rparr>) (book v)) = Inr c2"
      "set (co_contacts (fst (snd (contact_upsert (es k) (c\<lparr>ct_GroupIDs := ?ids\<rparr>) (book v))))) = insert c2 (set (co_contacts (book v)) - {c})"
      "contacts_ok (fst (snd (contact_upsert (es k) (c\<lparr>ct_GroupIDs := ?ids\<rparr>) (book v))))"
      "snd (snd (contact_upsert (es k) (c\<lparr>ct_GroupIDs := ?ids\<rparr>) (book v)))" "\<not> ct_Deleted c2"
      by (rule upsert_at [OF Cons.prems(1) c, where ids = ?ids and e = "es k"])
    obtain s1 where up: "contact_upsert (es k) (c\<lparr>ct_GroupIDs := ?ids\<rparr>) (book v) = (Inr c2, s1, True)"
      using c2(3,6) by (cases "contact_upsert (es k) (c\<lparr>ct_GroupIDs := ?ids\<rparr>) (book v)") auto
    define v1 where "v1 = contacts_file_of s1"
    have run: "contacts_Upsert (es k) (c\<lparr>ct_GroupIDs := ?ids\<rparr>) (s, Json v) = (Inr c2, s1, Json v1)"
      using Cons.prems(2) by (simp add: contacts_Upsert_def transact_Json apply_book up v1_def)
    have set1: "set (cf_Contacts v1) = insert c2 (set (cf_Contacts v) - {c})"
      using c2(4) unfolding up by (simp add: v1_def contacts_file_of_def book_def contacts_applyFile_def)
    have ok1: "contacts_ok (book v1)" using c2(5) by (simp add: up v1_def)
    have cs: "set cs \<subseteq> set (cf_Contacts v1)" using Cons.prems(3,4) set1 by auto
    have others: "\<forall>x\<in>set (cf_Contacts v1) - set cs. gid \<notin> set (ct_GroupIDs x)"
      using Cons.prems(6) set1 c2(1) by auto
    have "names_in G c2" using c2(1,7) c Cons.prems(7) by (auto simp: names_in_def refs_in_def)
    then have refs1: "refs_in G (book v1)"
      using Cons.prems(7) set1 by (auto simp: refs_in_def book_def contacts_applyFile_def)
    have uids: "book_uids v1 = book_uids v"
      using set1 c2(2) c by (auto simp: book_uids_def book_def contacts_applyFile_def image_iff)
    from Cons.IH [OF ok1 Cons.prems(2) cs _ _ others refs1, of "Suc k" s1] Cons.prems(4,5) True run uids
    show ?thesis by simp
  qed
qed

lemma ids_replace_first:
  "List.find P xs = Some y \<Longrightarrow> k z = k y \<Longrightarrow> k ` set (replace_first P (\<lambda>_. z) xs) = k ` set xs"
  using map_replace_first_found [of P xs y k z] by (metis image_set)

lemma group_body_ids: "g_ID ` set (gl_groups s) \<subseteq> g_ID ` set (gl_groups (fst (snd (groups_upsert_body e g s))))"
proof (cases "g_ID g = ''''")
  case True
  then show ?thesis by (auto simp: groups_upsert_body_def Let_def split: sum.splits)
next
  case False
  show ?thesis
  proof (cases "List.find (\<lambda>x. g_ID x = g_ID g) (gl_groups s)")
    case None
    with False show ?thesis by (auto simp: groups_upsert_body_def Let_def)
  next
    case (Some y)
    have "g_ID z = g_ID y \<Longrightarrow> g_ID ` set (replace_first (\<lambda>x. g_ID x = g_ID g) (\<lambda>_. z) (gl_groups s)) = g_ID ` set (gl_groups s)" for z
      by (rule ids_replace_first [OF Some])
    with False Some find_SomeD [OF Some] show ?thesis by (simp add: groups_upsert_body_def Let_def)
  qed
qed

lemma address_write_group:
  assumes "address_ok X w"
  shows "address_ok X (snd (on_groups (groups_Upsert e g) w))"
proof -
  obtain cv gv where ok: "address_files cv gv w" "contacts_ok (book cv)" "refs_in (group_ids gv) (book cv)" "book_uids cv \<subseteq> X"
    using assms by (auto simp: address_ok_def)
  obtain t where t: "aw_groups w = (t, Json gv)" using ok(1) by (cases "aw_groups w") (auto simp: address_files_def)
  obtain r t' d where b: "groups_upsert_body e g (groups_applyFile gv t) = (r, t', d)" by (metis prod_cases3)
  have "group_ids gv \<subseteq> g_ID ` set (gl_groups t')"
    using group_body_ids [of "groups_applyFile gv t" e g] b by (simp add: group_ids_def groups_applyFile_def)
  moreover obtain r2 t2 gv2 where "groups_Upsert e g (t, Json gv) = (r2, t2, Json gv2)" "gv2 = gv \<or> gv2 = groups_file_of t'"
    by (cases d; cases "env_write_ok e") (auto simp: groups_Upsert_def transact_Json b)
  ultimately show ?thesis
    using ok refs_in_mono [OF ok(3), of "group_ids gv2"] unfolding address_ok_def
    by (intro exI [of _ cv] exI [of _ gv2])
      (auto simp: on_groups_def t address_files_def group_ids_def groups_file_of_def)
qed

text \<open>The whole deletion of a group.\<close>

lemma group_delete_ids:
  assumes "groups_Delete e gid (t, Json gv) = (r, t', f)"
  shows "\<exists>gv'. f = Json gv' \<and> group_ids gv - {gid} \<subseteq> group_ids gv' \<and> (r \<noteq> Inr True \<longrightarrow> gv' = gv)"
proof -
  have rest: "x \<in> set xs \<Longrightarrow> \<not> P x \<Longrightarrow> x \<in> set (remove_first P xs)" for x :: group and P xs
    by (induction xs) auto
  have "g_ID x = gid" if "(x :: group) \<in> set xs" "g_ID x \<notin> g_ID ` set (remove_first (\<lambda>g. g_ID g = gid) xs)" for x xs
    using rest [of x xs "\<lambda>g. g_ID g = gid"] that by blast
  then show ?thesis
    using assms
    by (auto simp: groups_Delete_def transact_Json groups_delete_body_def groups_file_of_def groups_applyFile_def group_ids_def
        split: option.splits if_splits)
qed

lemma address_delete_group:
  assumes "address_ok X w" "\<forall>k. env_write_ok (ax_env ax k)" "ax_contacts ax"
  shows "address_ok X (snd (handleGroupByID ax ''DELETE'' pathID body w))"
proof -
  obtain cv gv where ok: "address_files cv gv w" "contacts_ok (book cv)" "refs_in (group_ids gv) (book cv)" "book_uids cv \<subseteq> X"
    using assms(1) by (auto simp: address_ok_def)
  obtain m t where w: "aw_contacts w = (m, Json cv)" "aw_groups w = (t, Json gv)"
    using ok(1) by (cases "aw_contacts w"; cases "aw_groups w") (auto simp: address_files_def)
  let ?gid = "trim_space pathID"
  obtain r t' f where d: "groups_Delete (ax_group_env ax) ?gid (t, Json gv) = (r, t', f)" by (metis prod_cases3)
  obtain gv' where gv': "f = Json gv'" "group_ids gv - {?gid} \<subseteq> group_ids gv'" "r \<noteq> Inr True \<longrightarrow> gv' = gv"
    using group_delete_ids [OF d] by blast
  show ?thesis
  proof (cases "ax_groups ax \<and> ?gid \<noteq> '''' \<and> r = Inr True")
    case False
    have "address_ok X (w\<lparr>aw_groups := (t', Json gv')\<rparr>)" if "r \<noteq> Inr True"
      using ok that gv'(3) unfolding address_ok_def by (intro exI [of _ cv] exI [of _ gv]) (simp add: address_files_def)
    with False assms(1) show ?thesis
      by (auto simp: handleGroupByID_def Let_def on_groups_def w(2) d gv'(1) split: sum.splits)
  next
    case True
    let ?w1 = "w\<lparr>aw_groups := (t', Json gv')\<rparr>"
    let ?live = "live_contacts (book cv)"
    have live: "set ?live \<subseteq> set (cf_Contacts cv)" "distinct (map ct_UID ?live)" "\<forall>c\<in>set ?live. \<not> ct_Deleted c"
      "\<forall>c\<in>set (cf_Contacts cv) - set ?live. ?gid \<notin> set (ct_GroupIDs c)"
      using ok(2,3) live_distinct [OF ok(2)]
      by (auto simp: live_contacts_def book_def contacts_applyFile_def refs_in_def names_in_def)
    obtain s' v' where st: "strip_group (ax_env ax) 0 ?gid ?live (book cv, Json cv) = (None, s', Json v')" "contacts_ok (book v')"
      "refs_in (group_ids gv - {?gid}) (book v')" "book_uids v' = book_uids cv"
      using strip_group_spec [OF ok(2) assms(2) live(1,2,3,4) ok(3)] by blast
    have "removeGroupFromContacts ax ?gid ?w1 = (True, ?w1\<lparr>aw_contacts := (s', Json v')\<rparr>)"
      using assms(3) st(1)
      by (simp add: removeGroupFromContacts_def on_contacts_def contacts_List_def observe_Json w(1) apply_book)
    moreover have "address_ok X (?w1\<lparr>aw_contacts := (s', Json v')\<rparr>)"
      unfolding address_ok_def
      by (intro exI [of _ v'] exI [of _ gv'])
        (use st(2-4) ok(4) refs_in_mono [OF st(3) gv'(2)] in \<open>simp add: address_files_def\<close>)
    ultimately show ?thesis
      using True by (simp add: handleGroupByID_def Let_def on_groups_def w(2) d gv'(1))
  qed
qed

section \<open>Runs of requests\<close>

datatype address_request =
  ReqContacts string "contact_payload json_body"
| ReqContact string string "contact_payload json_body"
| ReqDedupe map_orders
| ReqBulkDelete "string list json_body"
| ReqSelf string string "bool json_body"
| ReqSearch string string
| ReqSync "nat + unit" string string "contacts_push json_body"
| ReqGroups string "string json_body"
| ReqGroup string string "string json_body"

fun address_call :: "address_env \<Rightarrow> address_request \<Rightarrow> address_world \<Rightarrow> contacts_http \<times> address_world" where
  "address_call ax (ReqContacts meth body) w = handleContacts ax meth body w"
| "address_call ax (ReqContact meth pathID body) w = handleContactByID ax meth pathID body w"
| "address_call ax (ReqDedupe mo) w = handleContactsDedupe ax mo w"
| "address_call ax (ReqBulkDelete body) w = handleContactsBulkDelete ax body w"
| "address_call ax (ReqSelf meth pathID body) w = handleContactSelf ax meth pathID body w"
| "address_call ax (ReqSearch q limit) w = handleContactsSearch ax q limit w"
| "address_call ax (ReqSync auth meth since body) w = handleContactsSync ax auth meth since body w"
| "address_call ax (ReqGroups meth body) w = handleGroups ax meth body w"
| "address_call ax (ReqGroup meth pathID body) w = handleGroupByID ax meth pathID body w"

text \<open>
  A request in an environment where the stores open, writes succeed and generated identifiers are new,
  with respect to the UIDs of the book and those the request brings.
\<close>

fun request_uids :: "address_request \<Rightarrow> string set" where
  "request_uids (ReqContact meth pathID body) = {trim_space pathID}"
| "request_uids (ReqSync auth meth since (Body req)) = change_uids (cq_Changes req)"
| "request_uids _ = {}"

definition world_uids :: "address_world \<Rightarrow> string set" where
  "world_uids w = (case snd (aw_contacts w) of Json cv \<Rightarrow> book_uids cv | _ \<Rightarrow> {})"

definition benign :: "address_env \<Rightarrow> address_request \<Rightarrow> address_world \<Rightarrow> bool" where
  "benign ax q w \<longleftrightarrow> ax_contacts ax \<and> ax_groups ax \<and> (\<forall>k. env_write_ok (ax_env ax k)) \<and>
    new_ids (ax_env ax) (world_uids w \<union> request_uids q) \<and> (\<forall>mo. q = ReqDedupe mo \<longrightarrow> map_iteration mo)"

inductive address_run :: "address_world \<Rightarrow> address_world \<Rightarrow> bool" where
  address_start: "address_run w w"
| address_step: "address_run w w' \<Longrightarrow> benign ax q w' \<Longrightarrow> address_run w (snd (address_call ax q w'))"

definition address_sound :: "address_world \<Rightarrow> bool" where
  "address_sound w \<longleftrightarrow> (\<exists>X. address_ok X w)"

lemma address_soundI: "address_ok X w \<Longrightarrow> address_sound w"
  by (auto simp: address_sound_def)

lemma address_write_contact:
  assumes "address_ok X w" "new_ids (ax_env ax) X" "uid \<in> X \<or> uid = ''''"
  shows "address_sound (snd (write_contact ax failure uid p w))"
proof -
  obtain ids w1 where s: "sanitizeGroupIDsForUser (ax_groups ax) (cp_GroupIDs p) w = (ids, w1)" by (rule prod.exhaust)
  obtain gv where gv: "address_ok X w1" "snd (aw_groups w1) = Json gv" "set ids \<subseteq> group_ids gv"
    using sanitize_ok [OF assms(1) s] by blast
  have fr: "fresh_id (ax_env ax 0) X" using assms(2) by (auto simp: new_ids_def fresh_id_def split: sum.split)
  have "address_sound (snd (on_contacts (contacts_Upsert (ax_env ax 0) (toContact (p\<lparr>cp_GroupIDs := ids\<rparr>) uid)) w1))"
    using address_upsert [OF gv(1) fr gv(2), of "toContact (p\<lparr>cp_GroupIDs := ids\<rparr>) uid"] gv(3)
    by (auto simp: toContact_def address_sound_def)
  with address_soundI [OF assms(1)] s show ?thesis
    by (auto simp: write_contact_def http_of_def split: prod.splits sum.splits)
qed

lemma sound_step:
  assumes "address_sound w" "\<And>X. address_ok X w \<Longrightarrow> address_ok X (snd (f w))" "f w = (r, w')"
  shows "address_sound w'"
  using assms by (auto simp: address_sound_def)

lemma sound_ops:
  assumes "address_sound w"
  shows "on_contacts (contacts_Delete e uid) w = (r, w') \<Longrightarrow> address_sound w'"
    "on_contacts (contacts_SetSelf e uid b) w = (r1, w') \<Longrightarrow> address_sound w'"
    "map_iteration mo \<Longrightarrow> on_contacts (contacts_Dedupe e mo) w = (r2, w') \<Longrightarrow> address_sound w'"
    "on_contacts (bulk_delete es k uids) w = (r3, w') \<Longrightarrow> address_sound w'"
    "on_groups (groups_Upsert e g) w = (r4, w') \<Longrightarrow> address_sound w'"
    "on_contacts (observe contacts_applyFile q) w = (r5, w') \<Longrightarrow> address_sound w'"
    "on_groups (observe groups_applyFile q') w = (r6, w') \<Longrightarrow> address_sound w'"
  by (rule sound_step [OF assms], erule address_delete address_set_self address_bulk address_write_group
      address_observe address_observe_groups, assumption | rule sound_step [OF assms], erule (1) address_dedupe, assumption)+

lemma sound_sync: "address_sound w \<Longrightarrow> address_sound (snd (on_contacts (writeContactsSyncResponse since) w))"
  using sound_ops(6) [of w "changed_since since"]
  by (cases "observe contacts_applyFile (changed_since since) (aw_contacts w)")
    (auto simp: writeContactsSyncResponse_def contacts_ChangedSince_def on_contacts_def)

lemmas address_observes = contacts_List_def contacts_Get_def contacts_Search_def groups_List_def groups_Get_def

lemma address_world_uids: "address_ok X w \<Longrightarrow> address_ok (world_uids w) w"
  by (auto simp: address_ok_def world_uids_def address_files_def)

lemma address_call_ok:
  assumes "address_sound w" "benign ax q w"
  shows "address_sound (snd (address_call ax q w))"
proof -
  let ?X = "world_uids w \<union> request_uids q"
  obtain X where "address_ok X w" using assms(1) by (auto simp: address_sound_def)
  from address_mono [OF address_world_uids [OF this]] have ok: "address_ok ?X w" by blast
  have b: "ax_contacts ax" "ax_groups ax" "\<forall>k. env_write_ok (ax_env ax k)" "new_ids (ax_env ax) ?X"
    using assms(2) by (simp_all add: benign_def)
  show ?thesis
  proof (cases q)
    case (ReqContacts meth body)
    have "address_sound (snd (write_contact ax failure '''' p w))" for failure p
      by (rule address_write_contact [OF ok b(4)]) simp
    with assms(1) show ?thesis
      by (cases body) (auto simp: ReqContacts handleContacts_def b address_observes split: prod.splits
          dest: sound_ops(6) [OF assms(1)])
  next
    case (ReqContact meth pathID body)
    obtain c w1 where g: "on_contacts (contacts_Get (trim_space pathID)) w = (c, w1)" by (rule prod.exhaust)
    have ok1: "address_ok ?X w1"
      using address_observe [OF ok, of "contact_get (trim_space pathID)"] g by (simp add: contacts_Get_def)
    have "address_sound (snd (write_contact ax failure (trim_space pathID) p w1))" for failure p
      by (rule address_write_contact [OF ok1 b(4)]) (simp add: ReqContact)
    with assms(1) address_soundI [OF ok1] show ?thesis
      by (cases body) (auto simp: ReqContact handleContactByID_def Let_def b g http_of_def split: prod.splits sum.splits
          dest: sound_ops(1) [OF assms(1)])
  next
    case (ReqDedupe mo)
    then have "map_iteration mo" using assms(2) by (simp add: benign_def)
    then show ?thesis
      by (auto simp: ReqDedupe handleContactsDedupe_def b http_of_def split: prod.splits sum.splits
          dest: sound_ops(3) [OF assms(1)])
  next
    case (ReqBulkDelete body)
    with assms(1) show ?thesis
      by (cases body) (auto simp: handleContactsBulkDelete_def Let_def b split: prod.splits dest: sound_ops(4) [OF assms(1)])
  next
    case (ReqSelf meth pathID body)
    with assms(1) show ?thesis
      by (cases body) (auto simp: handleContactSelf_def Let_def b split: prod.splits sum.splits option.splits
          dest: sound_ops(2) [OF assms(1)])
  next
    case (ReqSearch qq limit)
    with assms(1) show ?thesis
      by (auto simp: handleContactsSearch_def b address_observes split: prod.splits dest: sound_ops(6) [OF assms(1)])
  next
    case (ReqSync auth meth since body)
    show ?thesis
    proof (cases body)
      case (Body req)
      have "address_ok (?X \<union> new_upto (ax_env ax) 0) w" using ok by (simp add: new_upto_def)
      from address_changes [OF this b(4), of "cq_Changes req"]
      have "address_sound (snd (apply_changes ax 0 (cq_Changes req) w))"
        by (auto simp: ReqSync Body address_sound_def)
      then show ?thesis
        using assms(1) sound_sync
        by (auto simp: ReqSync Body handleContactsSync_def b split: sum.splits prod.splits bool.splits)
    qed (use assms(1) sound_sync in \<open>auto simp: ReqSync handleContactsSync_def b split: sum.splits\<close>)
  next
    case (ReqGroups meth body)
    with assms(1) show ?thesis
      by (cases body) (auto simp: handleGroups_def write_group_def Let_def b address_observes http_of_def split: prod.splits sum.splits
          dest: sound_ops(5,7) [OF assms(1)])
  next
    case (ReqGroup meth pathID body)
    show ?thesis
    proof (cases "meth = ''DELETE''")
      case True
      with ReqGroup address_delete_group [OF ok b(3,1)] show ?thesis by (auto simp: address_sound_def)
    next
      case False
      obtain c w1 where g: "on_groups (groups_Get (trim_space pathID)) w = (c, w1)" by (rule prod.exhaust)
      then have w1: "address_sound w1" by (auto simp: groups_Get_def dest: sound_ops(7) [OF assms(1)])
      with assms(1) False show ?thesis
        by (cases body) (auto simp: ReqGroup handleGroupByID_def write_group_def Let_def b g http_of_def
            split: option.splits prod.splits sum.splits dest: sound_ops(5) [OF w1])
    qed
  qed
qed

lemma address_run_sound: "address_run w w' \<Longrightarrow> address_sound w \<Longrightarrow> address_sound w'"
  by (induction rule: address_run.induct) (auto intro: address_call_ok)

section \<open>What is lost\<close>

text \<open>
  A payload has no merge provenance and the store keeps none of the contact it replaces, so an edit of a
  contact that absorbed duplicates forgets which.
\<close>

lemma edit_drops_provenance:
  assumes "contact_upsert e (toContact p uid) s = (Inr c, s', d)"
  shows "ct_MergedUIDs c = []"
  using assms by (auto simp: contact_upsert_def toContact_def Let_def split: if_splits sum.splits option.splits)

text \<open>
  When the group is gone and a contact cannot be written, the answer is an error, and the same request
  again finds no group to delete: it answers that all is well, and the contact still names the group.
\<close>

definition half_env :: "bool \<Rightarrow> address_env" where
  "half_env ok = \<lparr>ax_env = \<lambda>_. tally_env 0 None ok, ax_group_env = tally_env 0 None True, ax_contacts = True, ax_groups = True\<rparr>"

definition grouped_world :: address_world where
  "grouped_world =
    \<lparr>aw_contacts = (contacts_empty, Json \<lparr>cf_Contacts = [ann\<lparr>ct_GroupIDs := [''2'', ''1'']\<rparr>], cf_Seq = 1, cf_GCHighWaterRev = 0\<rparr>),
     aw_groups = (groups_empty, Json two_groups)\<rparr>"

lemma half_deleted_group:
  "(let (r1, w1) = handleGroupByID (half_env False) ''DELETE'' ''2'' EmptyBody grouped_world;
        (r2, w2) = handleGroupByID (half_env True) ''DELETE'' ''2'' EmptyBody w1
    in r1 = HttpError 500 ''group deleted but failed to update contacts'' \<and> r2 = HttpJson 200 (Removed False) \<and>
       map ct_GroupIDs (fst (contacts_List (aw_contacts w2))) = [[''2'', ''1'']] \<and> fst (groups_Get ''2'' (aw_groups w2)) = None)"
  by code_simp

section \<open>Properties\<close>

text \<open>
  C14: the groups that contacts name exist. Whatever requests the address book and the groups serve, a
  contact that is listed names no group that the group store does not have, as long as the stores open,
  writes succeed and generated identifiers are new.
\<close>

theorem contact_groups_exist:
  assumes "address_ok X w" "address_run w w'"
  shows "\<forall>c\<in>set (fst (contacts_List (aw_contacts w'))). \<forall>i\<in>set (ct_GroupIDs c). fst (groups_Get i (aw_groups w')) \<noteq> None"
proof -
  have "address_sound w'" using address_run_sound [OF assms(2) address_soundI [OF assms(1)]] .
  then obtain cv gv where ok: "address_files cv gv w'" "refs_in (group_ids gv) (book cv)"
    by (auto simp: address_sound_def address_ok_def)
  obtain m t where w: "aw_contacts w' = (m, Json cv)" "aw_groups w' = (t, Json gv)"
    using ok(1) by (cases "aw_contacts w'"; cases "aw_groups w'") (auto simp: address_files_def)
  have "group_get i (groups_applyFile gv t) \<noteq> None" if "i \<in> group_ids gv" for i
    using that by (auto simp: group_get_def group_ids_def groups_applyFile_def find_None_iff)
  with ok(2) show ?thesis
    by (auto simp: w contacts_List_def groups_Get_def observe_Json apply_book live_contacts_def refs_in_def names_in_def)
qed

lemma grouped_world_ok: "address_ok {''a''} grouped_world"
proof -
  let ?cv = "\<lparr>cf_Contacts = [ann\<lparr>ct_GroupIDs := [''2'', ''1'']\<rparr>], cf_Seq = 1, cf_GCHighWaterRev = 0\<rparr>"
  have "address_files ?cv two_groups grouped_world" "contacts_ok (book ?cv)" "book_uids ?cv \<subseteq> {''a''}"
    "refs_in (group_ids two_groups) (book ?cv)"
    by (simp_all add: address_files_def grouped_world_def contacts_ok_def book_def contacts_applyFile_def ann_def
        blank_contact_def book_uids_def refs_in_def names_in_def group_ids_def two_groups_def)
  then show ?thesis unfolding address_ok_def by blast
qed

theorem contact_groups_exist_witness:
  "list_all (\<lambda>c. list_all (\<lambda>i. fst (groups_Get i (aw_groups
       (snd (address_call (half_env True) (ReqGroup ''DELETE'' '' 2'' EmptyBody) grouped_world)))) \<noteq> None) (ct_GroupIDs c))
     (fst (contacts_List (aw_contacts
       (snd (address_call (half_env True) (ReqGroup ''DELETE'' '' 2'' EmptyBody) grouped_world)))))"
proof -
  have "benign (half_env True) (ReqGroup ''DELETE'' '' 2'' EmptyBody) grouped_world"
    by (simp add: benign_def half_env_def new_ids_def NewUUIDv4_def)
  from contact_groups_exist [OF grouped_world_ok address_step [OF address_start this]]
  show ?thesis by (simp add: list_all_iff)
qed

end
