(* ===== verification/Vcard.thy ===== *)
theory Vcard
  imports Contacts_Model Go_Text
begin

text \<open>
  Contacts as vCards (backend/internal/api/dav_server.go): \<open>contactToVCard\<close> and \<open>contactFromVCard\<close>, through
  which every contact goes that is served, stored, exported or imported over CardDAV. A card is the map the
  code builds and reads; the methods of the vCard library on it are parameters.
\<close>

section \<open>Cards and the library\<close>

text \<open>The properties the code names by constants of the library.\<close>

datatype vcard_field =
  FieldVersion | FieldUID | FieldFormattedName | FieldNickname | FieldOrganization | FieldTitle | FieldNote
| FieldBirthday | FieldEmail | FieldTelephone | FieldPhoto | FieldKey | FieldIMPP | FieldURL | FieldRelated
| FieldAnniversary

type_synonym vcard_params = "string \<rightharpoonup> string list"

record vcard_value =
  vf_Value :: string
  vf_Params :: vcard_params

type_synonym vcard = "string \<rightharpoonup> vcard_value list"

record vcard_name =
  vn_FamilyName :: string
  vn_GivenName :: string
  vn_AdditionalName :: string
  vn_HonorificPrefix :: string
  vn_HonorificSuffix :: string

record vcard_address =
  va_Field :: "vcard_value option"
  va_StreetAddress :: string
  va_Locality :: string
  va_Region :: string
  va_PostalCode :: string
  va_Country :: string

record vcard_lib =
  vl_field :: "vcard_field \<Rightarrow> string"
  vl_ParamType :: string
  vl_SetValue :: "string \<Rightarrow> string \<Rightarrow> vcard \<Rightarrow> vcard"
  vl_Value :: "string \<Rightarrow> vcard \<Rightarrow> string"
  vl_Add :: "string \<Rightarrow> vcard_value \<Rightarrow> vcard \<Rightarrow> vcard"
  vl_SetName :: "vcard_name \<Rightarrow> vcard \<Rightarrow> vcard"
  vl_Name :: "vcard \<Rightarrow> vcard_name option"
  vl_AddAddress :: "vcard_address \<Rightarrow> vcard \<Rightarrow> vcard"
  vl_Addresses :: "vcard \<Rightarrow> vcard_address list"
  vl_SetCategories :: "string list \<Rightarrow> vcard \<Rightarrow> vcard"
  vl_Categories :: "vcard \<Rightarrow> string list"
  vl_Get :: "string \<Rightarrow> vcard_params \<Rightarrow> string"

section \<open>Bytes and data URIs\<close>

definition string_bytes :: "string \<Rightarrow> byte list" where
  "string_bytes s = map (\<lambda>c. word_of_nat (of_char c)) s"

definition bytes_string :: "byte list \<Rightarrow> string" where
  "bytes_string bs = map (\<lambda>b. char_of (unat b)) bs"

definition data_uri :: "string \<Rightarrow> byte list \<Rightarrow> string" where
  "data_uri contentType data = ''data:'' @ contentType @ '';base64,'' @ b64_encode data"

text \<open>The data and the content type; None: the text is not of the form.\<close>

definition decodeDataURI :: "string \<Rightarrow> (byte list \<times> string) option" where
  "decodeDataURI v =
    (if \<not> prefix ''data:'' v then None
     else
       (case cut_at (CHR '','') (drop 5 v) of
          None \<Rightarrow> None
        | Some (meta, b64) \<Rightarrow>
            map_option (\<lambda>decoded. (decoded, takeWhile (\<lambda>c. c \<noteq> CHR '';'') meta)) (b64_decode b64)))"

section \<open>contactToVCard\<close>

definition imServiceCatalog :: "string \<rightharpoonup> string" where
  "imServiceCatalog = map_of
    [(''whatsapp'', ''WhatsApp''), (''signal'', ''Signal''), (''telegram'', ''Telegram''),
     (''instagram'', ''Instagram''), (''x'', ''Twitter''), (''linkedin'', ''LinkedIn''),
     (''facebook'', ''Facebook''), (''mastodon'', ''Mastodon''), (''matrix'', ''Matrix'')]"

definition imServiceCatalogReverse :: "string \<rightharpoonup> string" where
  "imServiceCatalogReverse = map_of
    [(''whatsapp'', ''whatsapp''), (''signal'', ''signal''), (''telegram'', ''telegram''),
     (''instagram'', ''instagram''), (''twitter'', ''x''), (''linkedin'', ''linkedin''),
     (''facebook'', ''facebook''), (''mastodon'', ''mastodon''), (''matrix'', ''matrix'')]"

definition set_nonempty :: "vcard_lib \<Rightarrow> string \<Rightarrow> string \<Rightarrow> vcard \<Rightarrow> vcard" where
  "set_nonempty L k v vc = (if v = '''' then vc else vl_SetValue L k v vc)"

definition no_params :: vcard_params where
  "no_params = (\<lambda>_. None)"

definition labelled :: "vcard_lib \<Rightarrow> string \<Rightarrow> string \<Rightarrow> vcard_value" where
  "labelled L label v =
    \<lparr>vf_Value = v, vf_Params = (if label = '''' then no_params else [vl_ParamType L \<mapsto> [label]])\<rparr>"

definition add_all :: "vcard_lib \<Rightarrow> string \<Rightarrow> vcard_value list \<Rightarrow> vcard \<Rightarrow> vcard" where
  "add_all L k vs vc = fold (vl_Add L k) vs vc"

definition add_address :: "vcard_lib \<Rightarrow> contact_address \<Rightarrow> vcard \<Rightarrow> vcard" where
  "add_address L a =
    vl_AddAddress L \<lparr>va_Field = Some (labelled L (ca_Label a) ''''), va_StreetAddress = ca_Street a,
      va_Locality = ca_City a, va_Region = ca_Region a, va_PostalCode = ca_PostalCode a, va_Country = ca_Country a\<rparr>"

definition add_im :: "vcard_lib \<Rightarrow> contact_im \<Rightarrow> vcard \<Rightarrow> vcard" where
  "add_im L im =
    (case imServiceCatalog (ci_Service im) of
       Some serviceLabel \<Rightarrow>
         vl_Add L (vl_field L FieldIMPP) \<lparr>vf_Value = ci_Value im, vf_Params = [''X-SERVICE-TYPE'' \<mapsto> [serviceLabel]]\<rparr>
     | None \<Rightarrow>
         vl_Add L ''X-SOCIALPROFILE''
           \<lparr>vf_Value = ci_Value im,
            vf_Params = [vl_ParamType L \<mapsto> [if ci_Label im = '''' then ''Other'' else ci_Label im]]\<rparr>)"

definition add_event :: "vcard_lib \<Rightarrow> contact_event \<Rightarrow> vcard \<Rightarrow> vcard" where
  "add_event L ev =
    (if ce_Label ev = ''anniversary'' then vl_SetValue L (vl_field L FieldAnniversary) (ce_Date ev)
     else vl_Add L ''X-ABDATE''
       \<lparr>vf_Value = ce_Date ev, vf_Params = [vl_ParamType L \<mapsto> [if ce_Label ev = '''' then ''other'' else ce_Label ev]]\<rparr>)"

fun add_custom :: "vcard_lib \<Rightarrow> nat \<Rightarrow> contact_custom_field list \<Rightarrow> vcard \<Rightarrow> vcard" where
  "add_custom L i [] vc = vc"
| "add_custom L i (cf # cfs) vc =
    add_custom L (Suc i) cfs
      (vl_Add L (''X-CUSTOM-'' @ itoa (int i + 1))
         \<lparr>vf_Value = cc_Value cf, vf_Params = [vl_ParamType L \<mapsto> [cc_Label cf]]\<rparr> vc)"

definition card_name :: "contact \<Rightarrow> string" where
  "card_name c = (let fn = trim_space (ct_FormattedName c) in if fn = '''' then ''Unnamed Contact'' else fn)"

definition card_org :: "contact \<Rightarrow> string" where
  "card_org c = (if ct_Department c = '''' then ct_Org c else ct_Org c @ '';'' @ ct_Department c)"

text \<open>The steps in the order of the code, from the empty card.\<close>

definition contactToVCard :: "vcard_lib \<Rightarrow> contact \<Rightarrow> string list \<Rightarrow> byte list \<Rightarrow> string \<Rightarrow> vcard" where
  "contactToVCard L c groupNames photoData photoContentType =
    (let card0 = vl_SetValue L (vl_field L FieldVersion) ''4.0'' (\<lambda>_. None);
         card1 = vl_SetValue L (vl_field L FieldUID) (ct_UID c) card0;
         card2 = vl_SetValue L (vl_field L FieldFormattedName) (card_name c) card1;
         card3 = (if ct_GivenName c \<noteq> '''' \<or> ct_FamilyName c \<noteq> '''' \<or> ct_MiddleName c \<noteq> '''' \<or> ct_Prefix c \<noteq> '''' \<or> ct_Suffix c \<noteq> ''''
                  then vl_SetName L \<lparr>vn_FamilyName = ct_FamilyName c, vn_GivenName = ct_GivenName c,
                         vn_AdditionalName = ct_MiddleName c, vn_HonorificPrefix = ct_Prefix c,
                         vn_HonorificSuffix = ct_Suffix c\<rparr> card2
                  else card2);
         card4 = set_nonempty L (vl_field L FieldNickname) (ct_Nickname c) card3;
         card5 = set_nonempty L (vl_field L FieldOrganization) (card_org c) card4;
         card6 = set_nonempty L (vl_field L FieldTitle) (ct_Title c) card5;
         card7 = set_nonempty L (vl_field L FieldNote) (ct_Notes c) card6;
         card8 = set_nonempty L (vl_field L FieldBirthday) (ct_Birthday c) card7;
         card9 = add_all L (vl_field L FieldEmail) (map (\<lambda>e. labelled L (cv_Label e) (cv_Value e)) (ct_Emails c)) card8;
         card10 = add_all L (vl_field L FieldTelephone) (map (\<lambda>p. labelled L (cv_Label p) (cv_Value p)) (ct_Phones c)) card9;
         card11 = fold (add_address L) (ct_Addresses c) card10;
         card12 = (if groupNames = [] then card11 else vl_SetCategories L groupNames card11);
         card13 = (if photoData = [] then card12
                   else vl_SetValue L (vl_field L FieldPhoto) (data_uri photoContentType photoData) card12);
         card14 = (if ct_PGPKey c = '''' then card13
                   else vl_SetValue L (vl_field L FieldKey) (data_uri ''application/pgp-keys'' (string_bytes (ct_PGPKey c))) card13);
         card15 = fold (add_im L) (ct_IMs c) card14;
         card16 = add_all L (vl_field L FieldURL) (map (\<lambda>u. labelled L (cu_Label u) (cu_Value u)) (ct_Websites c)) card15;
         card17 = add_all L (vl_field L FieldRelated) (map (\<lambda>r. labelled L (cr_Label r) (cr_Name r)) (ct_Relations c)) card16;
         card18 = fold (add_event L) (ct_Events c) card17;
         card19 = set_nonempty L ''X-PHONETIC-FIRST-NAME'' (ct_PhoneticGivenName c) card18;
         card20 = set_nonempty L ''X-PHONETIC-LAST-NAME'' (ct_PhoneticFamilyName c) card19;
         card21 = set_nonempty L ''X-ABPRONOUNS'' (ct_Pronouns c) card20
     in add_custom L 0 (ct_CustomFields c) card21)"

section \<open>contactFromVCard\<close>

record parsed_vcard =
  pv_contact :: contact
  pv_categoryNames :: "string list"
  pv_photoData :: "byte list"
  pv_photoContentType :: string

definition fields_of :: "string \<Rightarrow> vcard \<Rightarrow> vcard_value list" where
  "fields_of k vc = (case vc k of None \<Rightarrow> [] | Some fs \<Rightarrow> fs)"

definition type_of_field :: "vcard_lib \<Rightarrow> vcard_value \<Rightarrow> string" where
  "type_of_field L f = vl_Get L (vl_ParamType L) (vf_Params f)"

definition impp_im :: "vcard_lib \<Rightarrow> vcard_value \<Rightarrow> contact_im" where
  "impp_im L f =
    (let st = vl_Get L ''X-SERVICE-TYPE'' (vf_Params f);
         service = (if st = '''' then '''' else case imServiceCatalogReverse (to_lower st) of None \<Rightarrow> '''' | Some code \<Rightarrow> code);
         label = (if service \<noteq> '''' then '''' else if st = '''' then type_of_field L f else st)
     in \<lparr>ci_Service = service, ci_Label = label, ci_Value = vf_Value f\<rparr>)"

definition parsed_address :: "vcard_lib \<Rightarrow> vcard_address \<Rightarrow> contact_address" where
  "parsed_address L a =
    \<lparr>ca_Label = (case va_Field a of None \<Rightarrow> '''' | Some f \<Rightarrow> type_of_field L f), ca_Street = va_StreetAddress a,
     ca_City = va_Locality a, ca_Region = va_Region a, ca_PostalCode = va_PostalCode a, ca_Country = va_Country a\<rparr>"

definition parsed_events :: "vcard_lib \<Rightarrow> vcard \<Rightarrow> contact_event list" where
  "parsed_events L vc =
    (let anniv = vl_Value L (vl_field L FieldAnniversary) vc in
     (if anniv = '''' then [] else [\<lparr>ce_Label = ''anniversary'', ce_Date = anniv\<rparr>]) @
     map (\<lambda>f. \<lparr>ce_Label = (if type_of_field L f = '''' then ''other'' else type_of_field L f), ce_Date = vf_Value f\<rparr>)
       (fields_of ''X-ABDATE'' vc))"

text \<open>\<open>keys\<close> is the sequence in which the loop over the map meets its keys.\<close>

definition parsed_custom :: "vcard_lib \<Rightarrow> string list \<Rightarrow> vcard \<Rightarrow> contact_custom_field list" where
  "parsed_custom L keys vc =
    concat (map (\<lambda>k. map (\<lambda>f. \<lparr>cc_Label = type_of_field L f, cc_Value = vf_Value f\<rparr>) (fields_of k vc))
      (filter (prefix ''X-CUSTOM-'') keys))"

definition parsed_key :: "vcard_lib \<Rightarrow> vcard \<Rightarrow> string" where
  "parsed_key L vc =
    (let pgp = vl_Value L (vl_field L FieldKey) vc in
     if pgp = '''' then ''''
     else (case decodeDataURI pgp of None \<Rightarrow> pgp | Some (data, _) \<Rightarrow> bytes_string data))"

definition parsed_org :: "string \<Rightarrow> string \<times> string" where
  "parsed_org org = (case cut_at (CHR '';'') org of None \<Rightarrow> (org, '''') | Some (o1, dept) \<Rightarrow> (o1, dept))"

definition contactFromVCard :: "vcard_lib \<Rightarrow> string list \<Rightarrow> string \<Rightarrow> vcard \<Rightarrow> parsed_vcard" where
  "contactFromVCard L keys uid vc =
    (let V = (\<lambda>k. vl_Value L k vc);
         n = (case vl_Name L vc of
                None \<Rightarrow> \<lparr>vn_FamilyName = '''', vn_GivenName = '''', vn_AdditionalName = '''', vn_HonorificPrefix = '''',
                         vn_HonorificSuffix = ''''\<rparr>
              | Some x \<Rightarrow> x);
         fn = trim_space (V (vl_field L FieldFormattedName));
         photo = V (vl_field L FieldPhoto);
         (photoData, photoContentType) =
           (if photo = '''' then ([], '''') else case decodeDataURI photo of None \<Rightarrow> ([], '''') | Some r \<Rightarrow> r);
         values = (\<lambda>k. map (\<lambda>f. \<lparr>cv_Label = type_of_field L f, cv_Value = vf_Value f\<rparr>) (fields_of (vl_field L k) vc))
     in \<lparr>pv_contact =
          \<lparr>ct_UID = uid, ct_Rev = 0, ct_Deleted = False, ct_CreatedAt = '''', ct_UpdatedAt = '''', ct_IsSelf = False,
           ct_FormattedName =
             (if fn = '''' then trim_space (vn_GivenName n @ '' '' @ vn_FamilyName n) else fn),
           ct_GivenName = vn_GivenName n, ct_FamilyName = vn_FamilyName n, ct_MiddleName = vn_AdditionalName n,
           ct_Prefix = vn_HonorificPrefix n, ct_Suffix = vn_HonorificSuffix n,
           ct_Nickname = V (vl_field L FieldNickname), ct_Org = fst (parsed_org (V (vl_field L FieldOrganization))),
           ct_Title = V (vl_field L FieldTitle), ct_Emails = values FieldEmail, ct_Phones = values FieldTelephone,
           ct_Addresses = map (parsed_address L) (vl_Addresses L vc), ct_Notes = V (vl_field L FieldNote),
           ct_Birthday = V (vl_field L FieldBirthday), ct_PhotoRef = '''', ct_GroupIDs = [], ct_PGPKey = parsed_key L vc,
           ct_IMs = map (impp_im L) (fields_of (vl_field L FieldIMPP) vc) @
             map (\<lambda>f. \<lparr>ci_Service = '''', ci_Label = type_of_field L f, ci_Value = vf_Value f\<rparr>) (fields_of ''X-SOCIALPROFILE'' vc),
           ct_Websites = map (\<lambda>f. \<lparr>cu_Label = type_of_field L f, cu_Value = vf_Value f\<rparr>) (fields_of (vl_field L FieldURL) vc),
           ct_Relations = map (\<lambda>f. \<lparr>cr_Label = type_of_field L f, cr_Name = vf_Value f\<rparr>) (fields_of (vl_field L FieldRelated) vc),
           ct_Events = parsed_events L vc, ct_PhoneticGivenName = V ''X-PHONETIC-FIRST-NAME'',
           ct_PhoneticFamilyName = V ''X-PHONETIC-LAST-NAME'', ct_Department = snd (parsed_org (V (vl_field L FieldOrganization))),
           ct_CustomFields = parsed_custom L keys vc, ct_Pronouns = V ''X-ABPRONOUNS'', ct_MergedUIDs = [],
           ct_MergedInto = ''''\<rparr>,
         pv_categoryNames = vl_Categories L vc, pv_photoData = photoData, pv_photoContentType = photoContentType\<rparr>)"

section \<open>What the library promises\<close>

text \<open>
  The documented behaviour of the library that the code relies on: setting and adding fields, reading the
  value of a property with one field, and that structured names, addresses and categories come back when
  their parts do not contain the separator. The keys and encodings of the structured properties are named
  by a second record.
\<close>

record vcard_coding =
  vk_name :: string
  vk_address :: string
  vk_categories :: string
  vk_enc_name :: "vcard_name \<Rightarrow> vcard_value"
  vk_enc_address :: "vcard_address \<Rightarrow> vcard_value"
  vk_enc_categories :: "string list \<Rightarrow> vcard_value"

definition plain_value :: "string \<Rightarrow> vcard_value" where
  "plain_value v = \<lparr>vf_Value = v, vf_Params = no_params\<rparr>"

definition without :: "char \<Rightarrow> string list \<Rightarrow> bool" where
  "without ch ss \<longleftrightarrow> list_all (\<lambda>s. ch \<notin> set s) ss"

definition plain_name :: "vcard_name \<Rightarrow> bool" where
  "plain_name n \<longleftrightarrow> without (CHR '';'')
    [vn_FamilyName n, vn_GivenName n, vn_AdditionalName n, vn_HonorificPrefix n, vn_HonorificSuffix n]"

definition plain_address :: "vcard_address \<Rightarrow> bool" where
  "plain_address a \<longleftrightarrow> va_Field a \<noteq> None \<and> without (CHR '';'')
    [va_StreetAddress a, va_Locality a, va_Region a, va_PostalCode a, va_Country a]"

text \<open>What the code reads of an address: its parameters and its parts.\<close>

definition address_view :: "vcard_address \<Rightarrow> vcard_params option \<times> string list" where
  "address_view a = (map_option vf_Params (va_Field a),
    [va_StreetAddress a, va_Locality a, va_Region a, va_PostalCode a, va_Country a])"

definition vcard_keys :: "vcard_lib \<Rightarrow> vcard_coding \<Rightarrow> bool" where
  "vcard_keys L K \<longleftrightarrow> inj (vl_field L) \<and> distinct [vk_name K, vk_address K, vk_categories K] \<and>
    (\<forall>f. vl_field L f \<notin> {vk_name K, vk_address K, vk_categories K}) \<and>
    (\<forall>f s. vl_field L f \<noteq> ''X-'' @ s) \<and> (\<forall>s. ''X-'' @ s \<notin> {vk_name K, vk_address K, vk_categories K}) \<and>
    vl_ParamType L \<noteq> ''X-SERVICE-TYPE''"

definition vcard_laws :: "vcard_lib \<Rightarrow> vcard_coding \<Rightarrow> bool" where
  "vcard_laws L K \<longleftrightarrow> vcard_keys L K \<and>
    (\<forall>k v m. vl_SetValue L k v m = m(k \<mapsto> [plain_value v])) \<and>
    (\<forall>k f m. m k = Some [f] \<longrightarrow> vl_Value L k m = vf_Value f) \<and> (\<forall>k m. m k = None \<longrightarrow> vl_Value L k m = '''') \<and>
    (\<forall>k f m. vl_Add L k f m = m(k \<mapsto> fields_of k m @ [f])) \<and>
    (\<forall>n m. vl_SetName L n m = m(vk_name K \<mapsto> [vk_enc_name K n])) \<and> (\<forall>m. m (vk_name K) = None \<longrightarrow> vl_Name L m = None) \<and>
    (\<forall>n m. plain_name n \<longrightarrow> m (vk_name K) = Some [vk_enc_name K n] \<longrightarrow> vl_Name L m = Some n) \<and>
    (\<forall>a m. vl_AddAddress L a m = m(vk_address K \<mapsto> fields_of (vk_address K) m @ [vk_enc_address K a])) \<and>
    (\<forall>as m. list_all plain_address as \<longrightarrow> fields_of (vk_address K) m = map (vk_enc_address K) as \<longrightarrow>
       map address_view (vl_Addresses L m) = map address_view as) \<and>
    (\<forall>ns m. vl_SetCategories L ns m = m(vk_categories K \<mapsto> [vk_enc_categories K ns])) \<and>
    (\<forall>ns m. ns \<noteq> [] \<longrightarrow> without (CHR '','') ns \<longrightarrow> m (vk_categories K) = Some [vk_enc_categories K ns] \<longrightarrow> vl_Categories L m = ns) \<and>
    (\<forall>m. m (vk_categories K) = None \<longrightarrow> list_all (\<lambda>n. n = '''') (vl_Categories L m)) \<and>
    (\<forall>ps k v vs. ps k = Some (v # vs) \<longrightarrow> vl_Get L k ps = v) \<and> (\<forall>ps k. ps k = None \<longrightarrow> vl_Get L k ps = '''')"

section \<open>The card at each property\<close>

lemma string_bytes_roundtrip [simp]: "bytes_string (string_bytes s) = s"
proof -
  have "char_of (unat (word_of_nat (of_char c) :: byte)) = c" for c :: char
  proof -
    have "(of_char c :: nat) < 256" by (cases c) (simp add: of_char_def horner_sum_simps)
    then have "unat (word_of_nat (of_char c) :: byte) = of_char c" by (simp add: unat_of_nat)
    then show ?thesis by simp
  qed
  then show ?thesis by (simp add: bytes_string_def string_bytes_def map_idI)
qed

lemma data_uri_roundtrip:
  assumes "CHR '','' \<notin> set ct" "CHR '';'' \<notin> set ct"
  shows "decodeDataURI (data_uri ct data) = Some (data, ct)"
proof -
  have "cut_at (CHR '','') ((ct @ '';base64'') @ CHR '','' # b64_encode data) = Some (ct @ '';base64'', b64_encode data)"
    by (rule cut_at_append) (use assms(1) in auto)
  moreover have "takeWhile (\<lambda>c. c \<noteq> CHR '';'') (ct @ '';base64'') = ct"
    using assms(2) by (simp add: takeWhile_append)
  ultimately show ?thesis by (simp add: decodeDataURI_def data_uri_def b64_decode_encode)
qed

lemma vcard_lawD:
  assumes "vcard_laws L K"
  shows "vl_SetValue L k v m = m(k \<mapsto> [plain_value v])" "m k = Some [f] \<Longrightarrow> vl_Value L k m = vf_Value f"
    "m k = None \<Longrightarrow> vl_Value L k m = ''''" "vl_Add L k f m = m(k \<mapsto> fields_of k m @ [f])"
    "vl_SetName L n m = m(vk_name K \<mapsto> [vk_enc_name K n])" "m (vk_name K) = None \<Longrightarrow> vl_Name L m = None"
    "plain_name n \<Longrightarrow> m (vk_name K) = Some [vk_enc_name K n] \<Longrightarrow> vl_Name L m = Some n"
    "vl_AddAddress L a m = m(vk_address K \<mapsto> fields_of (vk_address K) m @ [vk_enc_address K a])"
    "list_all plain_address as \<Longrightarrow> fields_of (vk_address K) m = map (vk_enc_address K) as \<Longrightarrow>
       map address_view (vl_Addresses L m) = map address_view as"
    "vl_SetCategories L ns m = m(vk_categories K \<mapsto> [vk_enc_categories K ns])"
    "ns \<noteq> [] \<Longrightarrow> without (CHR '','') ns \<Longrightarrow> m (vk_categories K) = Some [vk_enc_categories K ns] \<Longrightarrow> vl_Categories L m = ns"
    "m (vk_categories K) = None \<Longrightarrow> list_all (\<lambda>n. n = '''') (vl_Categories L m)"
    "ps k = Some (w # vs) \<Longrightarrow> vl_Get L k ps = w" "ps k = None \<Longrightarrow> vl_Get L k ps = ''''"
proof -
  note all = assms [unfolded vcard_laws_def]
  note c1 = conjunct2 [OF all]
  note c2 = conjunct2 [OF c1]
  note c3 = conjunct2 [OF c2]
  note c4 = conjunct2 [OF c3]
  note c5 = conjunct2 [OF c4]
  note c6 = conjunct2 [OF c5]
  note c7 = conjunct2 [OF c6]
  note c8 = conjunct2 [OF c7]
  note c9 = conjunct2 [OF c8]
  note c10 = conjunct2 [OF c9]
  note c11 = conjunct2 [OF c10]
  note c12 = conjunct2 [OF c11]
  note c13 = conjunct2 [OF c12]
  note c14 = conjunct2 [OF c13]
  show "vl_SetValue L k v m = m(k \<mapsto> [plain_value v])" using conjunct1 [OF c1] by blast
  show "m k = Some [f] \<Longrightarrow> vl_Value L k m = vf_Value f" using conjunct1 [OF c2] by blast
  show "m k = None \<Longrightarrow> vl_Value L k m = ''''" using conjunct1 [OF c3] by blast
  show "vl_Add L k f m = m(k \<mapsto> fields_of k m @ [f])" using conjunct1 [OF c4] by blast
  show "vl_SetName L n m = m(vk_name K \<mapsto> [vk_enc_name K n])" using conjunct1 [OF c5] by blast
  show "m (vk_name K) = None \<Longrightarrow> vl_Name L m = None" using conjunct1 [OF c6] by blast
  show "plain_name n \<Longrightarrow> m (vk_name K) = Some [vk_enc_name K n] \<Longrightarrow> vl_Name L m = Some n" using conjunct1 [OF c7] by blast
  show "vl_AddAddress L a m = m(vk_address K \<mapsto> fields_of (vk_address K) m @ [vk_enc_address K a])"
    using conjunct1 [OF c8] by blast
  show "list_all plain_address as \<Longrightarrow> fields_of (vk_address K) m = map (vk_enc_address K) as \<Longrightarrow>
       map address_view (vl_Addresses L m) = map address_view as" using conjunct1 [OF c9] by blast
  show "vl_SetCategories L ns m = m(vk_categories K \<mapsto> [vk_enc_categories K ns])" using conjunct1 [OF c10] by blast
  show "ns \<noteq> [] \<Longrightarrow> without (CHR '','') ns \<Longrightarrow> m (vk_categories K) = Some [vk_enc_categories K ns] \<Longrightarrow> vl_Categories L m = ns"
    using conjunct1 [OF c11] by blast
  show "m (vk_categories K) = None \<Longrightarrow> list_all (\<lambda>n. n = '''') (vl_Categories L m)" using conjunct1 [OF c12] by blast
  show "ps k = Some (w # vs) \<Longrightarrow> vl_Get L k ps = w" using conjunct1 [OF c13] by blast
  show "ps k = None \<Longrightarrow> vl_Get L k ps = ''''" using c14 by blast
qed

lemma vcard_key_simps:
  assumes "vcard_laws L K"
  shows "vl_field L f = vl_field L g \<longleftrightarrow> f = g" "vl_field L f \<noteq> vk_name K" "vl_field L f \<noteq> vk_address K"
    "vl_field L f \<noteq> vk_categories K" "vk_name K \<noteq> vl_field L f" "vk_address K \<noteq> vl_field L f" "vk_categories K \<noteq> vl_field L f"
    "vk_name K \<noteq> vk_address K" "vk_address K \<noteq> vk_name K" "vk_name K \<noteq> vk_categories K" "vk_categories K \<noteq> vk_name K"
    "vk_address K \<noteq> vk_categories K" "vk_categories K \<noteq> vk_address K"
    "vl_field L f \<noteq> CHR ''X'' # CHR ''-'' # s" "CHR ''X'' # CHR ''-'' # s \<noteq> vl_field L f"
    "vk_name K \<noteq> CHR ''X'' # CHR ''-'' # s" "CHR ''X'' # CHR ''-'' # s \<noteq> vk_name K"
    "vk_address K \<noteq> CHR ''X'' # CHR ''-'' # s" "CHR ''X'' # CHR ''-'' # s \<noteq> vk_address K"
    "vk_categories K \<noteq> CHR ''X'' # CHR ''-'' # s" "CHR ''X'' # CHR ''-'' # s \<noteq> vk_categories K"
proof -
  have k: "inj (vl_field L)" "distinct [vk_name K, vk_address K, vk_categories K]"
    "\<forall>f. vl_field L f \<notin> {vk_name K, vk_address K, vk_categories K}"
    "\<forall>f s. vl_field L f \<noteq> ''X-'' @ s" "\<forall>s. ''X-'' @ s \<notin> {vk_name K, vk_address K, vk_categories K}"
    using conjunct1 [OF assms [unfolded vcard_laws_def]] unfolding vcard_keys_def by blast+
  then have "vl_field L f \<noteq> CHR ''X'' # CHR ''-'' # s" "vk_name K \<noteq> CHR ''X'' # CHR ''-'' # s"
    "vk_address K \<noteq> CHR ''X'' # CHR ''-'' # s" "vk_categories K \<noteq> CHR ''X'' # CHR ''-'' # s" by auto
  then show "vl_field L f \<noteq> CHR ''X'' # CHR ''-'' # s" "CHR ''X'' # CHR ''-'' # s \<noteq> vl_field L f"
    "vk_name K \<noteq> CHR ''X'' # CHR ''-'' # s" "CHR ''X'' # CHR ''-'' # s \<noteq> vk_name K"
    "vk_address K \<noteq> CHR ''X'' # CHR ''-'' # s" "CHR ''X'' # CHR ''-'' # s \<noteq> vk_address K"
    "vk_categories K \<noteq> CHR ''X'' # CHR ''-'' # s" "CHR ''X'' # CHR ''-'' # s \<noteq> vk_categories K" by metis+
  show "vl_field L f = vl_field L g \<longleftrightarrow> f = g" using k(1) by (simp add: inj_eq)
  show "vl_field L f \<noteq> vk_name K" "vl_field L f \<noteq> vk_address K" "vl_field L f \<noteq> vk_categories K"
    "vk_name K \<noteq> vl_field L f" "vk_address K \<noteq> vl_field L f" "vk_categories K \<noteq> vl_field L f"
    using k(3) by (auto dest: spec [of _ f])
  show "vk_name K \<noteq> vk_address K" "vk_address K \<noteq> vk_name K" "vk_name K \<noteq> vk_categories K" "vk_categories K \<noteq> vk_name K"
    "vk_address K \<noteq> vk_categories K" "vk_categories K \<noteq> vk_address K" using k(2) by auto
qed

text \<open>Each step of the construction at each key.\<close>

lemma set_nonempty_at:
  "vcard_laws L K \<Longrightarrow> set_nonempty L k v m k' = (if k' = k \<and> v \<noteq> '''' then Some [plain_value v] else m k')"
  by (simp add: set_nonempty_def vcard_lawD(1))

lemma add_all_at:
  assumes "vcard_laws L K"
  shows "add_all L k vs m k' = (if k' = k \<and> vs \<noteq> [] then Some (fields_of k m @ vs) else m k')"
  by (induction vs arbitrary: m) (auto simp: add_all_def vcard_lawD(4) [OF assms] fields_of_def)

definition address_value :: "vcard_lib \<Rightarrow> contact_address \<Rightarrow> vcard_address" where
  "address_value L a =
    \<lparr>va_Field = Some (labelled L (ca_Label a) ''''), va_StreetAddress = ca_Street a,
     va_Locality = ca_City a, va_Region = ca_Region a, va_PostalCode = ca_PostalCode a, va_Country = ca_Country a\<rparr>"

lemma add_addresses_at:
  assumes "vcard_laws L K"
  shows "fold (add_address L) as m k' =
    (if k' = vk_address K \<and> as \<noteq> [] then Some (fields_of k' m @ map (\<lambda>a. vk_enc_address K (address_value L a)) as) else m k')"
  by (induction as arbitrary: m) (auto simp: add_address_def address_value_def vcard_lawD(8) [OF assms] fields_of_def)

definition listed_im :: "contact_im \<Rightarrow> bool" where
  "listed_im im \<longleftrightarrow> imServiceCatalog (ci_Service im) \<noteq> None"

definition impp_value :: "contact_im \<Rightarrow> vcard_value" where
  "impp_value im = \<lparr>vf_Value = ci_Value im, vf_Params = [''X-SERVICE-TYPE'' \<mapsto> [the (imServiceCatalog (ci_Service im))]]\<rparr>"

definition social_value :: "vcard_lib \<Rightarrow> contact_im \<Rightarrow> vcard_value" where
  "social_value L im = \<lparr>vf_Value = ci_Value im,
     vf_Params = [vl_ParamType L \<mapsto> [if ci_Label im = '''' then ''Other'' else ci_Label im]]\<rparr>"

lemma add_ims_at:
  assumes "vcard_laws L K"
  shows "fold (add_im L) ims m k' =
    (if k' = vl_field L FieldIMPP \<and> list_ex listed_im ims then Some (fields_of k' m @ map impp_value (filter listed_im ims))
     else if k' = ''X-SOCIALPROFILE'' \<and> \<not> list_all listed_im ims
     then Some (fields_of k' m @ map (social_value L) (filter (\<lambda>im. \<not> listed_im im) ims))
     else m k')"
proof (induction ims arbitrary: m)
  case (Cons im ims)
  have k: "vl_field L FieldIMPP \<noteq> ''X-SOCIALPROFILE''" "''X-SOCIALPROFILE'' \<noteq> vl_field L FieldIMPP"
    using vcard_key_simps(14,15) [OF assms] by simp_all
  have f: "list_ex listed_im ims = (filter listed_im ims \<noteq> [])"
    "list_all listed_im ims = (filter (\<lambda>im. \<not> listed_im im) ims = [])"
    by (auto simp: list_ex_iff list_all_iff filter_empty_conv)
  show ?case
  proof (cases "listed_im im")
    case True
    then have "add_im L im m = m(vl_field L FieldIMPP \<mapsto> fields_of (vl_field L FieldIMPP) m @ [impp_value im])"
      by (auto simp: add_im_def listed_im_def impp_value_def vcard_lawD(4) [OF assms])
    with Cons k f True show ?thesis by (auto simp: fields_of_def)
  next
    case False
    then have "add_im L im m = m(''X-SOCIALPROFILE'' \<mapsto> fields_of ''X-SOCIALPROFILE'' m @ [social_value L im])"
      by (simp add: add_im_def listed_im_def social_value_def vcard_lawD(4) [OF assms])
    with Cons k f False show ?thesis by (auto simp: fields_of_def)
  qed
qed simp

definition dated_value :: "vcard_lib \<Rightarrow> contact_event \<Rightarrow> vcard_value" where
  "dated_value L ev = \<lparr>vf_Value = ce_Date ev,
     vf_Params = [vl_ParamType L \<mapsto> [if ce_Label ev = '''' then ''other'' else ce_Label ev]]\<rparr>"

definition anniversary :: "contact_event \<Rightarrow> bool" where
  "anniversary ev \<longleftrightarrow> ce_Label ev = ''anniversary''"

text \<open>Of several anniversaries the last stays.\<close>

lemma add_events_at:
  assumes "vcard_laws L K"
  shows "fold (add_event L) evs m k' =
    (if k' = vl_field L FieldAnniversary \<and> list_ex anniversary evs
     then Some [plain_value (ce_Date (last (filter anniversary evs)))]
     else if k' = ''X-ABDATE'' \<and> \<not> list_all anniversary evs
     then Some (fields_of k' m @ map (dated_value L) (filter (\<lambda>ev. \<not> anniversary ev) evs))
     else m k')"
proof (induction evs arbitrary: m)
  case (Cons ev evs)
  have k: "vl_field L FieldAnniversary \<noteq> ''X-ABDATE''" "''X-ABDATE'' \<noteq> vl_field L FieldAnniversary"
    using vcard_key_simps(14,15) [OF assms] by simp_all
  have f: "list_ex anniversary evs = (filter anniversary evs \<noteq> [])"
    "list_all anniversary evs = (filter (\<lambda>ev. \<not> anniversary ev) evs = [])"
    by (auto simp: list_ex_iff list_all_iff filter_empty_conv)
  show ?case
  proof (cases "anniversary ev")
    case True
    then have "add_event L ev m = m(vl_field L FieldAnniversary \<mapsto> [plain_value (ce_Date ev)])"
      by (simp add: add_event_def anniversary_def vcard_lawD(1) [OF assms])
    with Cons k f True show ?thesis by (auto simp: fields_of_def)
  next
    case False
    then have "add_event L ev m = m(''X-ABDATE'' \<mapsto> fields_of ''X-ABDATE'' m @ [dated_value L ev])"
      by (simp add: add_event_def anniversary_def dated_value_def vcard_lawD(4) [OF assms])
    with Cons k f False show ?thesis by (auto simp: fields_of_def)
  qed
qed simp

definition custom_key :: "nat \<Rightarrow> string" where
  "custom_key i = ''X-CUSTOM-'' @ itoa (int i + 1)"

definition custom_value :: "vcard_lib \<Rightarrow> contact_custom_field \<Rightarrow> vcard_value" where
  "custom_value L cf = \<lparr>vf_Value = cc_Value cf, vf_Params = [vl_ParamType L \<mapsto> [cc_Label cf]]\<rparr>"

lemma custom_key_inj [simp]: "custom_key i = custom_key j \<longleftrightarrow> i = j"
proof
  assume "custom_key i = custom_key j"
  then have "dec_digits (nat (int i + 1)) = dec_digits (nat (int j + 1))" by (simp add: custom_key_def itoa_def)
  then have "Some (nat (int i + 1)) = Some (nat (int j + 1))" using dec_value_digits by metis
  then show "i = j" by simp
qed simp

lemma add_custom_step:
  assumes "vcard_laws L K" "m (custom_key i) = None"
  shows "add_custom L i (cf # cfs) m = add_custom L (Suc i) cfs (m(custom_key i \<mapsto> [custom_value L cf]))"
proof -
  have "vl_Add L (custom_key i) (custom_value L cf) m = m(custom_key i \<mapsto> [custom_value L cf])"
    using assms(2) by (simp add: vcard_lawD(4) [OF assms(1)] fields_of_def)
  then show ?thesis by (simp add: custom_key_def custom_value_def)
qed

lemma add_custom_other:
  assumes "vcard_laws L K"
  shows "(\<And>j. i \<le> j \<Longrightarrow> m (custom_key j) = None) \<Longrightarrow> (\<And>j. j < length cfs \<Longrightarrow> k' \<noteq> custom_key (i + j)) \<Longrightarrow>
    add_custom L i cfs m k' = m k'"
proof (induction cfs arbitrary: i m)
  case (Cons cf cfs)
  let ?m = "m(custom_key i \<mapsto> [custom_value L cf])"
  have "add_custom L (Suc i) cfs ?m k' = ?m k'"
  proof (rule Cons.IH)
    show "?m (custom_key j) = None" if "Suc i \<le> j" for j using that Cons.prems(1) by simp
    show "k' \<noteq> custom_key (Suc i + j)" if "j < length cfs" for j using that Cons.prems(2) [of "Suc j"] by simp
  qed
  moreover have "k' \<noteq> custom_key i" using Cons.prems(2) [of 0] by simp
  ultimately show ?case using Cons.prems(1) by (simp add: add_custom_step [OF assms] del: add_custom.simps)
qed simp

lemma add_custom_at:
  assumes "vcard_laws L K"
  shows "(\<And>j. i \<le> j \<Longrightarrow> m (custom_key j) = None) \<Longrightarrow> j < length cfs \<Longrightarrow>
    add_custom L i cfs m (custom_key (i + j)) = Some [custom_value L (cfs ! j)]"
proof (induction cfs arbitrary: i m j)
  case (Cons cf cfs)
  let ?m = "m(custom_key i \<mapsto> [custom_value L cf])"
  have m: "?m (custom_key j) = None" if "Suc i \<le> j" for j using that Cons.prems(1) by simp
  have step: "add_custom L i (cf # cfs) m = add_custom L (Suc i) cfs ?m"
    using Cons.prems(1) by (intro add_custom_step [OF assms]) simp
  show ?case
  proof (cases j)
    case 0
    have "add_custom L (Suc i) cfs ?m (custom_key i) = ?m (custom_key i)"
      by (rule add_custom_other [OF assms]) (use m in simp_all)
    with 0 step show ?thesis by simp
  next
    case (Suc j')
    with Cons.IH [of "Suc i" ?m j', OF m] Cons.prems(2) show ?thesis unfolding step by (simp del: fun_upd_apply)
  qed
qed simp

definition one_value :: "string \<Rightarrow> vcard_value list option" where
  "one_value v = (if v = '''' then None else Some [plain_value v])"

definition some_values :: "vcard_value list \<Rightarrow> vcard_value list option" where
  "some_values vs = (if vs = [] then None else Some vs)"

lemma fields_some_values [simp]: "m k = some_values vs \<Longrightarrow> fields_of k m = vs"
  by (simp add: fields_of_def some_values_def)

definition name_of_contact :: "contact \<Rightarrow> vcard_name" where
  "name_of_contact c = \<lparr>vn_FamilyName = ct_FamilyName c, vn_GivenName = ct_GivenName c,
     vn_AdditionalName = ct_MiddleName c, vn_HonorificPrefix = ct_Prefix c, vn_HonorificSuffix = ct_Suffix c\<rparr>"

definition has_name :: "contact \<Rightarrow> bool" where
  "has_name c \<longleftrightarrow> ct_GivenName c \<noteq> '''' \<or> ct_FamilyName c \<noteq> '''' \<or> ct_MiddleName c \<noteq> '''' \<or> ct_Prefix c \<noteq> '''' \<or> ct_Suffix c \<noteq> ''''"

text \<open>The card before the custom fields, at each key.\<close>

definition base_at :: "vcard_lib \<Rightarrow> vcard_coding \<Rightarrow> contact \<Rightarrow> string list \<Rightarrow> byte list \<Rightarrow> string \<Rightarrow> vcard \<Rightarrow> bool" where
  "base_at L K c groupNames photoData ct m \<longleftrightarrow>
    m (vl_field L FieldFormattedName) = Some [plain_value (card_name c)] \<and>
    m (vk_name K) = (if has_name c then Some [vk_enc_name K (name_of_contact c)] else None) \<and>
    m (vl_field L FieldNickname) = one_value (ct_Nickname c) \<and> m (vl_field L FieldOrganization) = one_value (card_org c) \<and>
    m (vl_field L FieldTitle) = one_value (ct_Title c) \<and> m (vl_field L FieldNote) = one_value (ct_Notes c) \<and>
    m (vl_field L FieldBirthday) = one_value (ct_Birthday c) \<and>
    m (vl_field L FieldEmail) = some_values (map (\<lambda>e. labelled L (cv_Label e) (cv_Value e)) (ct_Emails c)) \<and>
    m (vl_field L FieldTelephone) = some_values (map (\<lambda>p. labelled L (cv_Label p) (cv_Value p)) (ct_Phones c)) \<and>
    m (vk_address K) = some_values (map (\<lambda>a. vk_enc_address K (address_value L a)) (ct_Addresses c)) \<and>
    m (vk_categories K) = (if groupNames = [] then None else Some [vk_enc_categories K groupNames]) \<and>
    m (vl_field L FieldPhoto) = (if photoData = [] then None else Some [plain_value (data_uri ct photoData)]) \<and>
    m (vl_field L FieldKey) =
      (if ct_PGPKey c = '''' then None
       else Some [plain_value (data_uri ''application/pgp-keys'' (string_bytes (ct_PGPKey c)))]) \<and>
    m (vl_field L FieldIMPP) = some_values (map impp_value (filter listed_im (ct_IMs c))) \<and>
    m ''X-SOCIALPROFILE'' = some_values (map (social_value L) (filter (\<lambda>im. \<not> listed_im im) (ct_IMs c))) \<and>
    m (vl_field L FieldURL) = some_values (map (\<lambda>u. labelled L (cu_Label u) (cu_Value u)) (ct_Websites c)) \<and>
    m (vl_field L FieldRelated) = some_values (map (\<lambda>r. labelled L (cr_Label r) (cr_Name r)) (ct_Relations c)) \<and>
    m (vl_field L FieldAnniversary) =
      (if list_ex anniversary (ct_Events c)
       then Some [plain_value (ce_Date (last (filter anniversary (ct_Events c))))] else None) \<and>
    m ''X-ABDATE'' = some_values (map (dated_value L) (filter (\<lambda>ev. \<not> anniversary ev) (ct_Events c))) \<and>
    m ''X-PHONETIC-FIRST-NAME'' = one_value (ct_PhoneticGivenName c) \<and>
    m ''X-PHONETIC-LAST-NAME'' = one_value (ct_PhoneticFamilyName c) \<and> m ''X-ABPRONOUNS'' = one_value (ct_Pronouns c)"

lemma contactToVCard_base:
  assumes "vcard_laws L K"
  obtains m where "contactToVCard L c groupNames photoData ct = add_custom L 0 (ct_CustomFields c) m"
    "base_at L K c groupNames photoData ct m" "\<And>k. prefix ''X-CUSTOM-'' k \<Longrightarrow> m k = None"
proof -
  define m0 where "m0 = vl_SetValue L (vl_field L FieldVersion) ''4.0'' (\<lambda>_. None)"
  define m1 where "m1 = vl_SetValue L (vl_field L FieldUID) (ct_UID c) m0"
  define m2 where "m2 = vl_SetValue L (vl_field L FieldFormattedName) (card_name c) m1"
  define m3 where "m3 = (if has_name c then vl_SetName L (name_of_contact c) m2 else m2)"
  define m4 where "m4 = set_nonempty L (vl_field L FieldNickname) (ct_Nickname c) m3"
  define m5 where "m5 = set_nonempty L (vl_field L FieldOrganization) (card_org c) m4"
  define m6 where "m6 = set_nonempty L (vl_field L FieldTitle) (ct_Title c) m5"
  define m7 where "m7 = set_nonempty L (vl_field L FieldNote) (ct_Notes c) m6"
  define m8 where "m8 = set_nonempty L (vl_field L FieldBirthday) (ct_Birthday c) m7"
  define m9 where "m9 = add_all L (vl_field L FieldEmail) (map (\<lambda>e. labelled L (cv_Label e) (cv_Value e)) (ct_Emails c)) m8"
  define m10 where "m10 = add_all L (vl_field L FieldTelephone) (map (\<lambda>p. labelled L (cv_Label p) (cv_Value p)) (ct_Phones c)) m9"
  define m11 where "m11 = fold (add_address L) (ct_Addresses c) m10"
  define m12 where "m12 = (if groupNames = [] then m11 else vl_SetCategories L groupNames m11)"
  define m13 where "m13 = (if photoData = [] then m12
                   else vl_SetValue L (vl_field L FieldPhoto) (data_uri ct photoData) m12)"
  define m14 where "m14 = (if ct_PGPKey c = '''' then m13
                   else vl_SetValue L (vl_field L FieldKey) (data_uri ''application/pgp-keys'' (string_bytes (ct_PGPKey c))) m13)"
  define m15 where "m15 = fold (add_im L) (ct_IMs c) m14"
  define m16 where "m16 = add_all L (vl_field L FieldURL) (map (\<lambda>u. labelled L (cu_Label u) (cu_Value u)) (ct_Websites c)) m15"
  define m17 where "m17 = add_all L (vl_field L FieldRelated) (map (\<lambda>r. labelled L (cr_Label r) (cr_Name r)) (ct_Relations c)) m16"
  define m18 where "m18 = fold (add_event L) (ct_Events c) m17"
  define m19 where "m19 = set_nonempty L ''X-PHONETIC-FIRST-NAME'' (ct_PhoneticGivenName c) m18"
  define m20 where "m20 = set_nonempty L ''X-PHONETIC-LAST-NAME'' (ct_PhoneticFamilyName c) m19"
  define m21 where "m21 = set_nonempty L ''X-ABPRONOUNS'' (ct_Pronouns c) m20"
  have whole: "contactToVCard L c groupNames photoData ct = add_custom L 0 (ct_CustomFields c) m21"
    unfolding m21_def m20_def m19_def m18_def m17_def m16_def m15_def m14_def m13_def m12_def m11_def m10_def m9_def
      m8_def m7_def m6_def m5_def m4_def m3_def m2_def m1_def m0_def
    by (simp only: contactToVCard_def Let_def has_name_def name_of_contact_def)
  note laws = vcard_lawD(1,5,10) [OF assms]
  have at0: "m0 k = (if k = vl_field L FieldVersion then Some [plain_value ''4.0''] else None)" for k by (simp add: m0_def laws)
  have at1: "m1 k = (if k = vl_field L FieldUID then Some [plain_value (ct_UID c)] else m0 k)" for k by (simp add: m1_def laws)
  have at2: "m2 k = (if k = vl_field L FieldFormattedName then Some [plain_value (card_name c)] else m1 k)" for k
    by (simp add: m2_def laws)
  have at3: "m3 k = (if k = vk_name K \<and> has_name c then Some [vk_enc_name K (name_of_contact c)] else m2 k)" for k
    by (simp add: m3_def laws)
  have at12: "m12 k = (if k = vk_categories K \<and> groupNames \<noteq> [] then Some [vk_enc_categories K groupNames] else m11 k)" for k
    by (simp add: m12_def laws)
  have at13: "m13 k = (if k = vl_field L FieldPhoto \<and> photoData \<noteq> [] then Some [plain_value (data_uri ct photoData)] else m12 k)" for k
    by (simp add: m13_def laws)
  have at14: "m14 k = (if k = vl_field L FieldKey \<and> ct_PGPKey c \<noteq> ''''
      then Some [plain_value (data_uri ''application/pgp-keys'' (string_bytes (ct_PGPKey c)))] else m13 k)" for k
    by (simp add: m14_def laws)
  note at4 = set_nonempty_at [OF assms, of _ _ m3, folded m4_def]
  note ats = at0 at1 at2 at3 at12 at13 at14
    m4_def [THEN fun_cong, unfolded set_nonempty_at [OF assms]] m5_def [THEN fun_cong, unfolded set_nonempty_at [OF assms]]
    m6_def [THEN fun_cong, unfolded set_nonempty_at [OF assms]] m7_def [THEN fun_cong, unfolded set_nonempty_at [OF assms]]
    m8_def [THEN fun_cong, unfolded set_nonempty_at [OF assms]] m9_def [THEN fun_cong, unfolded add_all_at [OF assms]]
    m10_def [THEN fun_cong, unfolded add_all_at [OF assms]] m11_def [THEN fun_cong, unfolded add_addresses_at [OF assms]]
    m15_def [THEN fun_cong, unfolded add_ims_at [OF assms]] m16_def [THEN fun_cong, unfolded add_all_at [OF assms]]
    m17_def [THEN fun_cong, unfolded add_all_at [OF assms]] m18_def [THEN fun_cong, unfolded add_events_at [OF assms]]
    m19_def [THEN fun_cong, unfolded set_nonempty_at [OF assms]] m20_def [THEN fun_cong, unfolded set_nonempty_at [OF assms]]
    m21_def [THEN fun_cong, unfolded set_nonempty_at [OF assms]]
  have custom: "m21 k = None" if "prefix ''X-CUSTOM-'' k" for k
  proof -
    obtain s where k: "k = ''X-CUSTOM-'' @ s" using \<open>prefix ''X-CUSTOM-'' k\<close> by (auto simp: prefix_def)
    show ?thesis unfolding k by (simp add: ats vcard_key_simps [OF assms])
  qed
  have f: "list_ex P xs = (filter P xs \<noteq> [])" "list_all P xs = (filter (\<lambda>x. \<not> P x) xs = [])" for P :: "'z \<Rightarrow> bool" and xs
    by (auto simp: list_ex_iff list_all_iff filter_empty_conv)
  have "base_at L K c groupNames photoData ct m21"
    unfolding base_at_def
    by (intro conjI; simp add: ats vcard_key_simps [OF assms] fields_of_def one_value_def some_values_def f)
  from that [OF whole this custom] show thesis .
qed

section \<open>There and back\<close>

text \<open>What a card carries of a contact.\<close>

definition carried :: "string \<Rightarrow> contact \<Rightarrow> contact" where
  "carried uid c = c\<lparr>ct_UID := uid, ct_Rev := 0, ct_Deleted := False, ct_CreatedAt := '''', ct_UpdatedAt := '''',
     ct_IsSelf := False, ct_PhotoRef := '''', ct_GroupIDs := [], ct_MergedUIDs := [], ct_MergedInto := ''''\<rparr>"

text \<open>
  The contacts that come back: a trimmed name, no semicolons in the structured parts, messenger accounts of
  listed services without a label first and labelled others after them, at most one anniversary, first.
\<close>

definition clean_ims :: "contact_im list \<Rightarrow> bool" where
  "clean_ims ims \<longleftrightarrow> ims = filter listed_im ims @ filter (\<lambda>im. \<not> listed_im im) ims \<and>
    list_all (\<lambda>im. if listed_im im then ci_Label im = '''' else ci_Service im = '''' \<and> ci_Label im \<noteq> '''') ims"

definition clean_events :: "contact_event list \<Rightarrow> bool" where
  "clean_events evs \<longleftrightarrow> evs = filter anniversary evs @ filter (\<lambda>ev. \<not> anniversary ev) evs \<and>
    length (filter anniversary evs) \<le> 1 \<and>
    list_all (\<lambda>ev. if anniversary ev then ce_Date ev \<noteq> '''' else ce_Label ev \<noteq> '''') evs"

definition plain_contact_address :: "contact_address \<Rightarrow> bool" where
  "plain_contact_address a \<longleftrightarrow> without (CHR '';'') [ca_Street a, ca_City a, ca_Region a, ca_PostalCode a, ca_Country a]"

definition clean_contact :: "contact \<Rightarrow> bool" where
  "clean_contact c \<longleftrightarrow> trim_space (ct_FormattedName c) = ct_FormattedName c \<and> ct_FormattedName c \<noteq> '''' \<and>
    plain_name (name_of_contact c) \<and> CHR '';'' \<notin> set (ct_Org c) \<and> list_all plain_contact_address (ct_Addresses c) \<and>
    clean_ims (ct_IMs c) \<and> clean_events (ct_Events c)"

lemma catalog_entry:
  assumes "imServiceCatalog s = Some l"
  shows "l \<noteq> '''' \<and> s \<noteq> '''' \<and> imServiceCatalogReverse (to_lower l) = Some s"
proof -
  let ?entries = "[(''whatsapp'', ''WhatsApp''), (''signal'', ''Signal''), (''telegram'', ''Telegram''),
     (''instagram'', ''Instagram''), (''x'', ''Twitter''), (''linkedin'', ''LinkedIn''),
     (''facebook'', ''Facebook''), (''mastodon'', ''Mastodon''), (''matrix'', ''Matrix'')]"
  have "list_all (\<lambda>(s, l). l \<noteq> '''' \<and> s \<noteq> '''' \<and> imServiceCatalogReverse (to_lower l) = Some s) ?entries" by code_simp
  moreover have "(s, l) \<in> set ?entries" using map_of_SomeD assms unfolding imServiceCatalog_def by fast
  ultimately show ?thesis unfolding list_all_iff by blast
qed

lemma value_some_fields: "vcard_laws L K \<Longrightarrow> m k = one_value v \<Longrightarrow> vl_Value L k m = v"
  using vcard_lawD(2,3) [of L K m k] by (auto simp: one_value_def plain_value_def split: if_splits)

lemma type_of_labelled: "vcard_laws L K \<Longrightarrow> type_of_field L (labelled L label v) = label"
  using vcard_lawD(13,14) [of L K] by (auto simp: type_of_field_def labelled_def no_params_def)

lemma type_of_single: "vcard_laws L K \<Longrightarrow> vl_Get L k [k \<mapsto> [v]] = v"
  using vcard_lawD(13) [of L K "[k \<mapsto> [v]]" k v "[]"] by simp

lemma impp_back:
  assumes "vcard_laws L K" "listed_im im" "ci_Label im = ''''"
  shows "impp_im L (impp_value im) = im"
proof -
  obtain l where l: "imServiceCatalog (ci_Service im) = Some l" using assms(2) by (auto simp: listed_im_def)
  from catalog_entry [OF l] l assms(3) show ?thesis
    by (cases im) (simp add: impp_im_def impp_value_def type_of_single [OF assms(1)])
qed

lemma addresses_back:
  assumes "vcard_laws L K" "list_all plain_contact_address as"
    and "fields_of (vk_address K) m = map (\<lambda>a. vk_enc_address K (address_value L a)) as"
  shows "map (parsed_address L) (vl_Addresses L m) = as"
proof -
  have "list_all plain_address (map (address_value L) as)"
    using assms(2) by (simp add: list_all_iff plain_address_def plain_contact_address_def address_value_def)
  from vcard_lawD(9) [OF assms(1) this, of m] assms(3)
  have v: "map address_view (vl_Addresses L m) = map address_view (map (address_value L) as)" by (simp add: comp_def)
  define g where "g = (\<lambda>(ps, parts). \<lparr>ca_Label = (case ps of None \<Rightarrow> '''' | Some p \<Rightarrow> vl_Get L (vl_ParamType L) p),
      ca_Street = parts ! 0, ca_City = parts ! 1, ca_Region = parts ! 2, ca_PostalCode = parts ! 3, ca_Country = parts ! 4\<rparr>)"
  have g: "parsed_address L a = g (address_view a)" for a
    by (cases "va_Field a") (simp_all add: parsed_address_def g_def address_view_def type_of_field_def)
  have "map (parsed_address L) (vl_Addresses L m) = map g (map address_view (vl_Addresses L m))" by (simp add: g)
  also have "\<dots> = map (parsed_address L) (map (address_value L) as)" unfolding v by (simp add: g)
  also have "\<dots> = as"
    by (simp add: parsed_address_def address_value_def type_of_labelled [OF assms(1)] map_idI)
  finally show ?thesis .
qed

lemma custom_back:
  assumes "vcard_laws L K" "distinct keys" "set keys = dom C"
    and "\<And>j. j < length cfs \<Longrightarrow> C (custom_key j) = Some [custom_value L (cfs ! j)]"
    and "\<And>k. prefix ''X-CUSTOM-'' k \<Longrightarrow> k \<notin> custom_key ` {..<length cfs} \<Longrightarrow> C k = None"
  shows "mset (parsed_custom L keys C) = mset cfs"
proof -
  let ?h = "\<lambda>k. map (\<lambda>f. \<lparr>cc_Label = type_of_field L f, cc_Value = vf_Value f\<rparr>) (fields_of k C)"
  let ?F = "filter (prefix ''X-CUSTOM-'') keys" and ?G = "map custom_key [0..<length cfs]"
  have "k \<in> set ?F \<longleftrightarrow> k \<in> set ?G" for k
  proof
    assume "k \<in> set ?F"
    then have "C k \<noteq> None" "prefix ''X-CUSTOM-'' k" using assms(3) by auto
    then have "\<not> k \<notin> custom_key ` {..<length cfs}" using assms(5) [of k] by metis
    then show "k \<in> set ?G" by auto
  next
    assume "k \<in> set ?G"
    then show "k \<in> set ?F" using assms(3,4) by (auto simp: custom_key_def domI)
  qed
  then have "mset ?F = mset ?G"
    using assms(2) by (intro set_eq_iff_mset_eq_distinct [THEN iffD1]) (auto simp: distinct_map inj_on_def)
  then have "mset (map (\<lambda>k. mset (?h k)) ?F) = mset (map (\<lambda>k. mset (?h k)) ?G)" by (metis mset_map)
  then have "mset (concat (map ?h ?F)) = mset (concat (map ?h ?G))"
    by (simp add: mset_concat sum_mset_sum_list [symmetric] comp_def)
  also have "map ?h ?G = map (\<lambda>j. [cfs ! j]) [0..<length cfs]"
    by (simp add: fields_of_def assms(4) custom_value_def type_of_field_def type_of_single [OF assms(1)])
  also have "concat (map (\<lambda>j. [cfs ! j]) [0..<length cfs]) = cfs" by (simp add: concat_map_singleton map_nth)
  finally show ?thesis by (simp add: parsed_custom_def)
qed

lemma contact_back:
  assumes laws: "vcard_laws L K" and clean: "clean_contact c" and base: "base_at L K c names photo ct C"
  shows "(pv_contact (contactFromVCard L keys uid C))\<lparr>ct_CustomFields := []\<rparr> = (carried uid c)\<lparr>ct_CustomFields := []\<rparr>"
proof -
  note at = base [unfolded base_at_def]
  have V: "vl_Value L (vl_field L FieldNickname) C = ct_Nickname c" "vl_Value L (vl_field L FieldOrganization) C = card_org c"
    "vl_Value L (vl_field L FieldTitle) C = ct_Title c" "vl_Value L (vl_field L FieldNote) C = ct_Notes c"
    "vl_Value L (vl_field L FieldBirthday) C = ct_Birthday c" "vl_Value L ''X-PHONETIC-FIRST-NAME'' C = ct_PhoneticGivenName c"
    "vl_Value L ''X-PHONETIC-LAST-NAME'' C = ct_PhoneticFamilyName c" "vl_Value L ''X-ABPRONOUNS'' C = ct_Pronouns c"
    using at by (auto intro: value_some_fields [OF laws])
  have fn: "trim_space (vl_Value L (vl_field L FieldFormattedName) C) = ct_FormattedName c" "ct_FormattedName c \<noteq> ''''"
    using at clean vcard_lawD(2) [OF laws, where m = C and k = "vl_field L FieldFormattedName"]
    by (simp_all add: plain_value_def card_name_def clean_contact_def Let_def)
  have name: "(case vl_Name L C of
                None \<Rightarrow> \<lparr>vn_FamilyName = '''', vn_GivenName = '''', vn_AdditionalName = '''', vn_HonorificPrefix = '''',
                         vn_HonorificSuffix = ''''\<rparr>
              | Some x \<Rightarrow> x) = name_of_contact c"
    using at clean vcard_lawD(6) [OF laws, of C] vcard_lawD(7) [OF laws, where m = C and n = "name_of_contact c"]
    by (cases "has_name c") (auto simp: clean_contact_def has_name_def name_of_contact_def)
  have org: "parsed_org (card_org c) = (ct_Org c, ct_Department c)"
    using clean cut_at_append [of "CHR '';''" "ct_Org c" "ct_Department c"]
    by (cases "ct_Department c = ''''") (simp_all add: parsed_org_def card_org_def clean_contact_def, simp add: cut_at_def)
  have lists: "fields_of (vl_field L FieldEmail) C = map (\<lambda>e. labelled L (cv_Label e) (cv_Value e)) (ct_Emails c)"
    "fields_of (vl_field L FieldTelephone) C = map (\<lambda>p. labelled L (cv_Label p) (cv_Value p)) (ct_Phones c)"
    "fields_of (vl_field L FieldURL) C = map (\<lambda>u. labelled L (cu_Label u) (cu_Value u)) (ct_Websites c)"
    "fields_of (vl_field L FieldRelated) C = map (\<lambda>r. labelled L (cr_Label r) (cr_Name r)) (ct_Relations c)"
    "fields_of (vl_field L FieldIMPP) C = map impp_value (filter listed_im (ct_IMs c))"
    "fields_of ''X-SOCIALPROFILE'' C = map (social_value L) (filter (\<lambda>im. \<not> listed_im im) (ct_IMs c))"
    "fields_of ''X-ABDATE'' C = map (dated_value L) (filter (\<lambda>ev. \<not> anniversary ev) (ct_Events c))"
    using at by (simp_all add: fields_some_values)
  have lab: "vf_Value (labelled L l v) = v" for l v by (simp add: labelled_def)
  have adr: "map (parsed_address L) (vl_Addresses L C) = ct_Addresses c"
    using at clean by (intro addresses_back [OF laws]) (simp_all add: clean_contact_def fields_some_values)
  have ims: "map (impp_im L) (fields_of (vl_field L FieldIMPP) C) @
      map (\<lambda>f. \<lparr>ci_Service = '''', ci_Label = type_of_field L f, ci_Value = vf_Value f\<rparr>) (fields_of ''X-SOCIALPROFILE'' C) = ct_IMs c"
  proof -
    have c: "ct_IMs c = filter listed_im (ct_IMs c) @ filter (\<lambda>im. \<not> listed_im im) (ct_IMs c)"
      "\<forall>im\<in>set (ct_IMs c). if listed_im im then ci_Label im = '''' else ci_Service im = '''' \<and> ci_Label im \<noteq> ''''"
      using clean unfolding clean_contact_def clean_ims_def list_all_iff by blast+
    have "map (impp_im L) (map impp_value (filter listed_im (ct_IMs c))) = filter listed_im (ct_IMs c)"
      using c(2) by (auto intro!: map_idI impp_back [OF laws] simp: comp_def)
    moreover have "map (\<lambda>f. \<lparr>ci_Service = '''', ci_Label = type_of_field L f, ci_Value = vf_Value f\<rparr>)
        (map (social_value L) (filter (\<lambda>im. \<not> listed_im im) (ct_IMs c))) = filter (\<lambda>im. \<not> listed_im im) (ct_IMs c)"
      using c(2) by (auto intro!: map_idI simp: social_value_def type_of_field_def type_of_single [OF laws])
    ultimately show ?thesis unfolding lists using c(1) by simp
  qed
  have evs: "parsed_events L C = ct_Events c"
  proof -
    have c: "ct_Events c = filter anniversary (ct_Events c) @ filter (\<lambda>ev. \<not> anniversary ev) (ct_Events c)"
      "length (filter anniversary (ct_Events c)) \<le> 1"
      "\<forall>ev\<in>set (ct_Events c). if anniversary ev then ce_Date ev \<noteq> '''' else ce_Label ev \<noteq> ''''"
      using clean unfolding clean_contact_def clean_events_def list_all_iff by blast+
    have "map (\<lambda>f. \<lparr>ce_Label = (if type_of_field L f = '''' then ''other'' else type_of_field L f), ce_Date = vf_Value f\<rparr>)
        (map (dated_value L) (filter (\<lambda>ev. \<not> anniversary ev) (ct_Events c))) = filter (\<lambda>ev. \<not> anniversary ev) (ct_Events c)"
      using c(3) by (auto intro!: map_idI simp: dated_value_def type_of_field_def type_of_single [OF laws])
    moreover have "(let anniv = vl_Value L (vl_field L FieldAnniversary) C in
        if anniv = '''' then [] else [\<lparr>ce_Label = ''anniversary'', ce_Date = anniv\<rparr>]) = filter anniversary (ct_Events c)"
    proof (cases "filter anniversary (ct_Events c)")
      case Nil
      then have "C (vl_field L FieldAnniversary) = None" using at by (auto simp: list_ex_iff filter_empty_conv)
      then show ?thesis using vcard_lawD(3) [OF laws] Nil by simp
    next
      case (Cons ev rest)
      then have "rest = []" using c(2) by (cases rest) auto
      have ev: "ev \<in> set (ct_Events c)" "anniversary ev" using Cons by (auto simp: filter_eq_Cons_iff)
      then have "C (vl_field L FieldAnniversary) = Some [plain_value (ce_Date ev)]"
        using at Cons \<open>rest = []\<close> by (auto simp: list_ex_iff)
      then have "vl_Value L (vl_field L FieldAnniversary) C = ce_Date ev"
        using vcard_lawD(2) [OF laws] by (simp add: plain_value_def)
      then show ?thesis using c(3) ev Cons \<open>rest = []\<close> by (cases ev) (auto simp: anniversary_def)
    qed
    ultimately show ?thesis using c(1) unfolding parsed_events_def lists Let_def by simp
  qed
  have key: "parsed_key L C = ct_PGPKey c"
  proof (cases "ct_PGPKey c = ''''")
    case True
    then show ?thesis using at vcard_lawD(3) [OF laws] by (simp add: parsed_key_def)
  next
    case False
    then have v: "vl_Value L (vl_field L FieldKey) C = data_uri ''application/pgp-keys'' (string_bytes (ct_PGPKey c))"
      using at vcard_lawD(2) [OF laws] by (simp add: plain_value_def)
    have "decodeDataURI (data_uri ''application/pgp-keys'' (string_bytes (ct_PGPKey c))) =
        Some (string_bytes (ct_PGPKey c), ''application/pgp-keys'')"
      by (rule data_uri_roundtrip) simp_all
    moreover have "data_uri ct d \<noteq> ''''" for ct d by (simp add: data_uri_def)
    ultimately show ?thesis by (simp add: parsed_key_def v Let_def)
  qed
  have vals: "map (\<lambda>f. \<lparr>cv_Label = type_of_field L f, cv_Value = vf_Value f\<rparr>)
      (map (\<lambda>e. labelled L (cv_Label e) (cv_Value e)) vs) = vs" for vs
    unfolding list.map_comp by (rule map_idI) (simp add: lab type_of_labelled [OF laws])
  have urls: "map (\<lambda>f. \<lparr>cu_Label = type_of_field L f, cu_Value = vf_Value f\<rparr>)
      (map (\<lambda>e. labelled L (cu_Label e) (cu_Value e)) vs) = vs" for vs
    unfolding list.map_comp by (rule map_idI) (simp add: lab type_of_labelled [OF laws])
  have rels: "map (\<lambda>f. \<lparr>cr_Label = type_of_field L f, cr_Name = vf_Value f\<rparr>)
      (map (\<lambda>e. labelled L (cr_Label e) (cr_Name e)) vs) = vs" for vs
    unfolding list.map_comp by (rule map_idI) (simp add: lab type_of_labelled [OF laws])
  obtain pd pct where photo: "(if vl_Value L (vl_field L FieldPhoto) C = '''' then ([], '''')
      else case decodeDataURI (vl_Value L (vl_field L FieldPhoto) C) of None \<Rightarrow> ([], '''') | Some r \<Rightarrow> r) = (pd, pct)"
    by (meson surj_pair)
  show ?thesis
    unfolding contactFromVCard_def Let_def photo ims evs key adr name V fn(1) org unfolding lists vals urls rels
    by (cases c) (use fn(2) in \<open>simp add: carried_def name_of_contact_def\<close>)
qed

lemma contactFromVCard_custom: "ct_CustomFields (pv_contact (contactFromVCard L keys uid C)) = parsed_custom L keys C"
  by (simp add: contactFromVCard_def Let_def split: prod.splits)

lemma card_rest:
  assumes laws: "vcard_laws L K" and base: "base_at L K c names photo ct C"
    and names: "without (CHR '','') names" "'''' \<notin> set names" and ct: "CHR '','' \<notin> set ct" "CHR '';'' \<notin> set ct"
  shows "filter (\<lambda>n. n \<noteq> '''') (pv_categoryNames (contactFromVCard L keys uid C)) = names \<and>
    pv_photoData (contactFromVCard L keys uid C) = photo"
proof (rule conjI)
  have "filter (\<lambda>n. n \<noteq> '''') (vl_Categories L C) = names"
  proof (cases "names = []")
    case True
    then have "C (vk_categories K) = None" using base by (simp add: base_at_def)
    from vcard_lawD(12) [OF laws, of C, OF this] show ?thesis using True by (simp add: list_all_iff)
  next
    case False
    then have "C (vk_categories K) = Some [vk_enc_categories K names]" using base by (simp add: base_at_def)
    have "vl_Categories L C = names"
      by (rule vcard_lawD(11) [OF laws False names(1)]) (rule \<open>C (vk_categories K) = _\<close>)
    then show ?thesis using names(2) by (auto simp: filter_id_conv)
  qed
  then show "filter (\<lambda>n. n \<noteq> '''') (pv_categoryNames (contactFromVCard L keys uid C)) = names"
    by (simp add: contactFromVCard_def Let_def split: prod.splits)
  have at: "C (vl_field L FieldPhoto) = (if photo = [] then None else Some [plain_value (data_uri ct photo)])"
    using base by (simp add: base_at_def)
  have d: "data_uri ct photo \<noteq> ''''" by (simp add: data_uri_def)
  show "pv_photoData (contactFromVCard L keys uid C) = photo"
  proof (cases "photo = []")
    case True
    with at have "vl_Value L (vl_field L FieldPhoto) C = ''''" using vcard_lawD(3) [OF laws] by simp
    with True show ?thesis by (simp add: contactFromVCard_def Let_def)
  next
    case False
    with at have "vl_Value L (vl_field L FieldPhoto) C = data_uri ct photo"
      using vcard_lawD(2) [OF laws] by (simp add: plain_value_def)
    with d show ?thesis by (simp add: contactFromVCard_def Let_def data_uri_roundtrip [OF ct])
  qed
qed

section \<open>What does not come back\<close>

text \<open>
  A label of a messenger account of a listed service, and all anniversaries but the last, are lost; and with
  two custom fields the sequence of the loop over the map decides the order they come back in.
\<close>

definition example_lib :: vcard_lib where
  "example_lib =
    \<lparr>vl_field = (\<lambda>f. case f of FieldVersion \<Rightarrow> ''VERSION'' | FieldUID \<Rightarrow> ''UID'' | FieldFormattedName \<Rightarrow> ''FN''
       | FieldNickname \<Rightarrow> ''NICKNAME'' | FieldOrganization \<Rightarrow> ''ORG'' | FieldTitle \<Rightarrow> ''TITLE'' | FieldNote \<Rightarrow> ''NOTE''
       | FieldBirthday \<Rightarrow> ''BDAY'' | FieldEmail \<Rightarrow> ''EMAIL'' | FieldTelephone \<Rightarrow> ''TEL'' | FieldPhoto \<Rightarrow> ''PHOTO''
       | FieldKey \<Rightarrow> ''KEY'' | FieldIMPP \<Rightarrow> ''IMPP'' | FieldURL \<Rightarrow> ''URL'' | FieldRelated \<Rightarrow> ''RELATED''
       | FieldAnniversary \<Rightarrow> ''ANNIVERSARY''),
     vl_ParamType = ''TYPE'', vl_SetValue = \<lambda>k v m. m(k \<mapsto> [plain_value v]),
     vl_Value = \<lambda>k m. (case fields_of k m of [] \<Rightarrow> '''' | f # _ \<Rightarrow> vf_Value f),
     vl_Add = \<lambda>k f m. m(k \<mapsto> fields_of k m @ [f]),
     vl_SetName = \<lambda>n m. m(''N'' \<mapsto> [plain_value (str_join '';''
       [vn_FamilyName n, vn_GivenName n, vn_AdditionalName n, vn_HonorificPrefix n, vn_HonorificSuffix n])]),
     vl_Name = \<lambda>m. (case fields_of ''N'' m of [] \<Rightarrow> None
       | f # _ \<Rightarrow> (case split_char (CHR '';'') (vf_Value f) of
           [a, b, c, d, e] \<Rightarrow> Some \<lparr>vn_FamilyName = a, vn_GivenName = b, vn_AdditionalName = c, vn_HonorificPrefix = d, vn_HonorificSuffix = e\<rparr>
         | _ \<Rightarrow> None)),
     vl_AddAddress = \<lambda>a m. m(''ADR'' \<mapsto> fields_of ''ADR'' m @ [\<lparr>vf_Value = str_join '';''
       [va_StreetAddress a, va_Locality a, va_Region a, va_PostalCode a, va_Country a],
       vf_Params = (case va_Field a of None \<Rightarrow> no_params | Some f \<Rightarrow> vf_Params f)\<rparr>]),
     vl_Addresses = \<lambda>m. map (\<lambda>f. (case split_char (CHR '';'') (vf_Value f) of
         [a, b, c, d, e] \<Rightarrow> \<lparr>va_Field = Some f, va_StreetAddress = a, va_Locality = b, va_Region = c, va_PostalCode = d, va_Country = e\<rparr>
       | _ \<Rightarrow> \<lparr>va_Field = Some f, va_StreetAddress = '''', va_Locality = '''', va_Region = '''', va_PostalCode = '''', va_Country = ''''\<rparr>))
       (fields_of ''ADR'' m),
     vl_SetCategories = \<lambda>ns m. m(''CATEGORIES'' \<mapsto> [plain_value (str_join '','' ns)]),
     vl_Categories = \<lambda>m. (case fields_of ''CATEGORIES'' m of [] \<Rightarrow> [] | f # _ \<Rightarrow> split_char (CHR '','') (vf_Value f)),
     vl_Get = \<lambda>k ps. (case ps k of Some (v # _) \<Rightarrow> v | _ \<Rightarrow> '''')\<rparr>"

definition lossy_contact :: contact where
  "lossy_contact = blank_contact\<lparr>ct_FormattedName := ''Ann'',
     ct_IMs := [\<lparr>ci_Service = ''signal'', ci_Label = ''work'', ci_Value = ''a''\<rparr>],
     ct_Events := [\<lparr>ce_Label = ''anniversary'', ce_Date = ''2001''\<rparr>, \<lparr>ce_Label = ''anniversary'', ce_Date = ''2002''\<rparr>],
     ct_CustomFields := [\<lparr>cc_Label = ''p'', cc_Value = ''1''\<rparr>, \<lparr>cc_Label = ''q'', cc_Value = ''2''\<rparr>]\<rparr>"

lemma card_loses:
  "(let C = contactToVCard example_lib lossy_contact [] [] '''';
        back = (\<lambda>keys. pv_contact (contactFromVCard example_lib keys ''u'' C)) in
    ct_IMs (back []) = [\<lparr>ci_Service = ''signal'', ci_Label = '''', ci_Value = ''a''\<rparr>] \<and>
    ct_Events (back []) = [\<lparr>ce_Label = ''anniversary'', ce_Date = ''2002''\<rparr>] \<and>
    map cc_Value (ct_CustomFields (back [''X-CUSTOM-2'', ''X-CUSTOM-1''])) = [''2'', ''1''])"
  by code_simp

section \<open>A library that keeps the promises\<close>

definition example_coding :: vcard_coding where
  "example_coding =
    \<lparr>vk_name = ''N'', vk_address = ''ADR'', vk_categories = ''CATEGORIES'',
     vk_enc_name = \<lambda>n. plain_value (str_join '';''
       [vn_FamilyName n, vn_GivenName n, vn_AdditionalName n, vn_HonorificPrefix n, vn_HonorificSuffix n]),
     vk_enc_address = \<lambda>a. \<lparr>vf_Value = str_join '';''
       [va_StreetAddress a, va_Locality a, va_Region a, va_PostalCode a, va_Country a],
       vf_Params = (case va_Field a of None \<Rightarrow> no_params | Some f \<Rightarrow> vf_Params f)\<rparr>,
     vk_enc_categories = \<lambda>ns. plain_value (str_join '','' ns)\<rparr>"

lemma split_joined: "ss \<noteq> [] \<Longrightarrow> without c ss \<Longrightarrow> split_char c (str_join [c] ss) = ss"
  by (induction "[c]" ss rule: str_join.induct) (simp_all add: without_def split_char_word split_char_append)

lemma example_keys: "vcard_keys example_lib example_coding"
proof -
  have "inj (vl_field example_lib)"
    unfolding inj_def example_lib_def by (auto split: vcard_field.splits)
  moreover have "vl_field example_lib f \<noteq> ''X-'' @ s" for f s
    by (cases f) (simp_all add: example_lib_def)
  moreover have "vl_field example_lib f \<notin> {''N'', ''ADR'', ''CATEGORIES''}" for f
    by (cases f) (simp_all add: example_lib_def)
  ultimately show ?thesis by (simp add: vcard_keys_def example_coding_def) (simp add: example_lib_def)
qed

lemma example_name:
  "plain_name n \<Longrightarrow> m ''N'' = Some [vk_enc_name example_coding n] \<Longrightarrow> vl_Name example_lib m = Some n"
  using split_joined [of "[vn_FamilyName n, vn_GivenName n, vn_AdditionalName n, vn_HonorificPrefix n, vn_HonorificSuffix n]" "CHR '';''"]
  by (simp add: plain_name_def example_lib_def example_coding_def fields_of_def plain_value_def)

lemma example_addresses:
  assumes "list_all plain_address as" "fields_of ''ADR'' m = map (vk_enc_address example_coding) as"
  shows "map address_view (vl_Addresses example_lib m) = map address_view as"
proof -
  define dec where "dec = (\<lambda>f. (case split_char (CHR '';'') (vf_Value f) of
         [a, b, c, d, e] \<Rightarrow> \<lparr>va_Field = Some f, va_StreetAddress = a, va_Locality = b, va_Region = c, va_PostalCode = d, va_Country = e\<rparr>
       | _ \<Rightarrow> \<lparr>va_Field = Some f, va_StreetAddress = '''', va_Locality = '''', va_Region = '''', va_PostalCode = '''', va_Country = ''''\<rparr>))"
  have "address_view (dec (vk_enc_address example_coding a)) = address_view a" if "plain_address a" for a
    using that split_joined [of "[va_StreetAddress a, va_Locality a, va_Region a, va_PostalCode a, va_Country a]" "CHR '';''"]
    by (auto simp: dec_def plain_address_def example_coding_def address_view_def)
  moreover have "vl_Addresses example_lib m = map dec (map (vk_enc_address example_coding) as)"
    using assms(2) by (simp add: example_lib_def dec_def)
  ultimately show ?thesis using assms(1) by (auto simp: list_all_iff)
qed

lemma example_laws: "vcard_laws example_lib example_coding"
proof -
  have keys: "vk_name example_coding = ''N''" "vk_address example_coding = ''ADR''" "vk_categories example_coding = ''CATEGORIES''"
    by (simp_all add: example_coding_def)
  show ?thesis
    unfolding vcard_laws_def keys
  proof (intro conjI allI impI example_keys example_name example_addresses)
    fix ns :: "string list" and m :: vcard
    assume "ns \<noteq> []" "without (CHR '','') ns" "m ''CATEGORIES'' = Some [vk_enc_categories example_coding ns]"
    then show "vl_Categories example_lib m = ns"
      by (simp add: example_lib_def example_coding_def fields_of_def plain_value_def split_joined)
  qed (simp_all add: example_lib_def example_coding_def fields_of_def plain_value_def)
qed

section \<open>The round trip\<close>

text \<open>
  C15: a clean contact comes back from its card: every field a card carries, with the custom fields in the
  order the loop over the map gives them, the names of its groups and its photo.
\<close>

theorem vcard_roundtrip:
  assumes "vcard_laws L K" "clean_contact c" "C = contactToVCard L c names photo ct"
    and "distinct keys" "set keys = dom C" "without (CHR '','') names" "'''' \<notin> set names"
    and "CHR '','' \<notin> set ct" "CHR '';'' \<notin> set ct"
  shows "(pv_contact (contactFromVCard L keys uid C))\<lparr>ct_CustomFields := []\<rparr> = (carried uid c)\<lparr>ct_CustomFields := []\<rparr> \<and>
    mset (ct_CustomFields (pv_contact (contactFromVCard L keys uid C))) = mset (ct_CustomFields c) \<and>
    filter (\<lambda>n. n \<noteq> '''') (pv_categoryNames (contactFromVCard L keys uid C)) = names \<and>
    pv_photoData (contactFromVCard L keys uid C) = photo"
proof -
  obtain m where m: "C = add_custom L 0 (ct_CustomFields c) m" "base_at L K c names photo ct m"
    "\<And>k. prefix ''X-CUSTOM-'' k \<Longrightarrow> m k = None"
    using contactToVCard_base [OF assms(1)] assms(3) by metis
  have none: "m (custom_key j) = None" for j by (rule m(3)) (simp add: custom_key_def)
  have others: "C k = m k" if "\<And>j. k \<noteq> custom_key j" for k
    unfolding m(1) by (rule add_custom_other [OF assms(1)]) (use that none in simp_all)
  have base: "base_at L K c names photo ct C"
    using m(2) unfolding base_at_def by (simp add: others custom_key_def vcard_key_simps [OF assms(1)])
  have custom: "mset (parsed_custom L keys C) = mset (ct_CustomFields c)"
  proof (rule custom_back [OF assms(1,4,5)])
    show "C (custom_key j) = Some [custom_value L (ct_CustomFields c ! j)]" if "j < length (ct_CustomFields c)" for j
      using add_custom_at [OF assms(1), of 0 m j] that none by (simp add: m(1))
    show "C k = None" if "prefix ''X-CUSTOM-'' k" "k \<notin> custom_key ` {..<length (ct_CustomFields c)}" for k
      unfolding m(1) by (subst add_custom_other [OF assms(1)]) (use that none m(3) in auto)
  qed
  note rest = card_rest [OF assms(1) base assms(6-9)]
  show ?thesis
    using contact_back [OF assms(1,2) base, of keys uid] custom rest [of keys uid]
    by (simp add: contactFromVCard_custom)
qed

definition sample_contact :: contact where
  "sample_contact = blank_contact\<lparr>ct_UID := ''a'', ct_Rev := 3, ct_FormattedName := ''Ann Lee'', ct_GivenName := ''Ann'',
     ct_FamilyName := ''Lee'', ct_Org := ''Acme'', ct_Department := ''R;D'',
     ct_Emails := [\<lparr>cv_Label = ''work'', cv_Value = ''ann@x''\<rparr>],
     ct_Addresses := [\<lparr>ca_Label = ''home'', ca_Street = ''1 Elm'', ca_City = ''Ulm'', ca_Region = '''', ca_PostalCode = ''8'', ca_Country = ''D''\<rparr>],
     ct_IMs := [\<lparr>ci_Service = ''x'', ci_Label = '''', ci_Value = ''ann''\<rparr>],
     ct_Events := [\<lparr>ce_Label = ''anniversary'', ce_Date = ''2001''\<rparr>],
     ct_CustomFields := [\<lparr>cc_Label = ''shoe'', cc_Value = ''38''\<rparr>]\<rparr>"

abbreviation sample_keys :: "string list" where
  "sample_keys \<equiv> [''X-CUSTOM-1'', ''VERSION'', ''UID'', ''FN'', ''N'', ''ORG'', ''EMAIL'', ''ADR'', ''CATEGORIES'', ''PHOTO'', ''IMPP'', ''ANNIVERSARY'']"

theorem vcard_roundtrip_witness:
  "filter (\<lambda>n. n \<noteq> '''') (pv_categoryNames (contactFromVCard example_lib sample_keys ''a''
      (contactToVCard example_lib sample_contact [''Friends''] [1, 2] ''image/png''))) = [''Friends''] \<and>
   ct_Department (pv_contact (contactFromVCard example_lib sample_keys ''a''
      (contactToVCard example_lib sample_contact [''Friends''] [1, 2] ''image/png''))) = ''R;D''"
proof -
  let ?C = "contactToVCard example_lib sample_contact [''Friends''] [1, 2] ''image/png''"
  have keys: "set sample_keys = dom ?C"
    by (auto simp: contactToVCard_def Let_def sample_contact_def blank_contact_def example_lib_def add_all_def set_nonempty_def
        add_address_def labelled_def add_im_def imServiceCatalog_def add_event_def fields_of_def card_name_def card_org_def
        trim_space_def itoa_def dec_digits.simps split: if_splits)
  have clean: "clean_contact sample_contact" by code_simp
  note r = vcard_roundtrip [OF example_laws clean refl, where keys = sample_keys and uid = "''a''" and names = "[''Friends'']"
      and photo = "[1, 2]" and ct = "''image/png''"]
  have all: "(pv_contact (contactFromVCard example_lib sample_keys ''a'' ?C))\<lparr>ct_CustomFields := []\<rparr> =
      (carried ''a'' sample_contact)\<lparr>ct_CustomFields := []\<rparr> \<and>
    mset (ct_CustomFields (pv_contact (contactFromVCard example_lib sample_keys ''a'' ?C))) = mset (ct_CustomFields sample_contact) \<and>
    filter (\<lambda>n. n \<noteq> '''') (pv_categoryNames (contactFromVCard example_lib sample_keys ''a'' ?C)) = [''Friends''] \<and>
    pv_photoData (contactFromVCard example_lib sample_keys ''a'' ?C) = [1, 2]"
    by (rule r) (use keys in \<open>simp_all add: without_def\<close>)
  have "ct_Department (pv_contact (contactFromVCard example_lib sample_keys ''a'' ?C)) = ''R;D''"
    using arg_cong [OF conjunct1 [OF all], of ct_Department] by (simp add: carried_def sample_contact_def)
  then show ?thesis using all by blast
qed

end
