(* ===== verification/Ssrf.thy ===== *)
theory Ssrf
  imports Go_Text
begin

text \<open>
  The guard of outbound requests to addresses that users configure (backend/internal/api/ssrf_guard.go): the
  check of a URL, the check at every dial and the limit of redirects. An IP address is its 4 or 16 bytes;
  parsing of URLs and addresses and the resolver are parameters.
\<close>

unbundle bit_operations_syntax

type_synonym ip_addr = "byte list"

section \<open>Addresses (package net)\<close>

definition v4_prefix :: "byte list" where
  "v4_prefix = replicate 10 0 @ [0xFF, 0xFF]"

text \<open>\<open>To4\<close>: the four bytes of an IPv4 address in either form.\<close>

definition To4 :: "ip_addr \<Rightarrow> ip_addr option" where
  "To4 ip =
    (if length ip = 4 then Some ip
     else if length ip = 16 \<and> take 12 ip = v4_prefix then Some (drop 12 ip)
     else None)"

definition ip_equal :: "ip_addr \<Rightarrow> ip_addr \<Rightarrow> bool" where
  "ip_equal ip x \<longleftrightarrow> (if length ip = length x then ip = x
     else if length ip = 4 \<and> length x = 16 then take 12 x = v4_prefix \<and> ip = drop 12 x
     else if length ip = 16 \<and> length x = 4 then take 12 ip = v4_prefix \<and> drop 12 ip = x
     else False)"

definition IPv6loopback :: ip_addr where "IPv6loopback = replicate 15 0 @ [1]"

definition IPv6unspecified :: ip_addr where "IPv6unspecified = replicate 16 0"

definition IPv4zero :: ip_addr where "IPv4zero = v4_prefix @ [0, 0, 0, 0]"

definition IsLoopback :: "ip_addr \<Rightarrow> bool" where
  "IsLoopback ip \<longleftrightarrow> (case To4 ip of Some ip4 \<Rightarrow> ip4 ! 0 = 127 | None \<Rightarrow> ip_equal ip IPv6loopback)"

definition IsPrivate :: "ip_addr \<Rightarrow> bool" where
  "IsPrivate ip \<longleftrightarrow>
    (case To4 ip of
       Some ip4 \<Rightarrow> ip4 ! 0 = 10 \<or> ip4 ! 0 = 172 \<and> ip4 ! 1 AND 0xF0 = 16 \<or> ip4 ! 0 = 192 \<and> ip4 ! 1 = 168
     | None \<Rightarrow> length ip = 16 \<and> ip ! 0 AND 0xFE = 0xFC)"

definition IsLinkLocalUnicast :: "ip_addr \<Rightarrow> bool" where
  "IsLinkLocalUnicast ip \<longleftrightarrow>
    (case To4 ip of
       Some ip4 \<Rightarrow> ip4 ! 0 = 169 \<and> ip4 ! 1 = 254
     | None \<Rightarrow> length ip = 16 \<and> ip ! 0 = 0xFE \<and> ip ! 1 AND 0xC0 = 0x80)"

definition IsLinkLocalMulticast :: "ip_addr \<Rightarrow> bool" where
  "IsLinkLocalMulticast ip \<longleftrightarrow>
    (case To4 ip of
       Some ip4 \<Rightarrow> ip4 ! 0 = 224 \<and> ip4 ! 1 = 0 \<and> ip4 ! 2 = 0
     | None \<Rightarrow> length ip = 16 \<and> ip ! 0 = 0xFF \<and> ip ! 1 AND 0x0F = 0x02)"

definition IsMulticast :: "ip_addr \<Rightarrow> bool" where
  "IsMulticast ip \<longleftrightarrow>
    (case To4 ip of
       Some ip4 \<Rightarrow> ip4 ! 0 AND 0xF0 = 0xE0
     | None \<Rightarrow> length ip = 16 \<and> ip ! 0 = 0xFF)"

definition IsUnspecified :: "ip_addr \<Rightarrow> bool" where
  "IsUnspecified ip \<longleftrightarrow> ip_equal ip IPv4zero \<or> ip_equal ip IPv6unspecified"

section \<open>The guard\<close>

definition isPrivateOrReservedIP :: "ip_addr \<Rightarrow> bool" where
  "isPrivateOrReservedIP ip \<longleftrightarrow> IsLoopback ip \<or> IsPrivate ip \<or> IsLinkLocalUnicast ip \<or> IsLinkLocalMulticast ip \<or>
     IsMulticast ip \<or> IsUnspecified ip"

record 'u net_lib =
  nl_parse_url :: "string \<Rightarrow> 'u option"
  nl_scheme :: "'u \<Rightarrow> string"
  nl_hostname :: "'u \<Rightarrow> string"
  nl_parse_ip :: "string \<Rightarrow> ip_addr option"

text \<open>What the resolver answers at one time; None is an error.\<close>

type_synonym resolver = "string \<Rightarrow> ip_addr list option"

datatype url_error = InvalidURL | WrongScheme "string list" | MissingHost | ReservedLiteral | Unresolved | ReservedHost ip_addr

text \<open>None: the URL may be used.\<close>

definition validateOutboundURL :: "'u net_lib \<Rightarrow> resolver \<Rightarrow> string list \<Rightarrow> string \<Rightarrow> url_error option" where
  "validateOutboundURL N lookup allowedSchemes rawURL =
    (case nl_parse_url N (trim_space rawURL) of
       None \<Rightarrow> Some InvalidURL
     | Some u \<Rightarrow>
        if \<not> list_ex (equal_fold (nl_scheme N u)) allowedSchemes then Some (WrongScheme allowedSchemes)
        else
          (let host = nl_hostname N u in
           if host = '''' then Some MissingHost
           else
             (case nl_parse_ip N host of
                Some ip \<Rightarrow> if isPrivateOrReservedIP ip then Some ReservedLiteral else None
              | None \<Rightarrow>
                 (case lookup host of
                    None \<Rightarrow> Some Unresolved
                  | Some ips \<Rightarrow> map_option ReservedHost (List.find isPrivateOrReservedIP ips)))))"

datatype dial_error = BadAddress | DialUnresolved | NoPublicAddress string | DialFailed

text \<open>
  The address that is dialled, or the error; \<open>split\<close> is \<open>net.SplitHostPort\<close>.
\<close>

definition ssrfSafeDialContext ::
  "(string \<Rightarrow> (string \<times> string) option) \<Rightarrow> resolver \<Rightarrow> string \<Rightarrow> dial_error + ip_addr \<times> string" where
  "ssrfSafeDialContext split lookup addr =
    (case split addr of
       None \<Rightarrow> Inl BadAddress
     | Some (host, port) \<Rightarrow>
        (case lookup host of
           None \<Rightarrow> Inl DialUnresolved
         | Some ips \<Rightarrow>
            (case List.find (\<lambda>ip. \<not> isPrivateOrReservedIP ip) ips of
               None \<Rightarrow> Inl (NoPublicAddress host)
             | Some chosen \<Rightarrow> Inr (chosen, port))))"

text \<open>
  A request of the client: it dials, and while the answer is a redirect it dials the next address, at most
  five times; \<open>answer\<close> says what the k-th connection gives: the address of a redirect, or None. The
  addresses that were connected to are collected.
\<close>

definition CheckRedirect :: "nat \<Rightarrow> bool" where
  "CheckRedirect via \<longleftrightarrow> \<not> 5 \<le> via"

function client_dials ::
  "(string \<Rightarrow> (string \<times> string) option) \<Rightarrow> (nat \<Rightarrow> resolver) \<Rightarrow> (nat \<Rightarrow> ip_addr \<times> string \<Rightarrow> string option) \<Rightarrow>
   nat \<Rightarrow> string \<Rightarrow> (ip_addr \<times> string) list" where
  "client_dials split lookup answer k addr =
    (case ssrfSafeDialContext split (lookup k) addr of
       Inl _ \<Rightarrow> []
     | Inr c \<Rightarrow>
        c # (case answer k c of
               None \<Rightarrow> []
             | Some next \<Rightarrow> if CheckRedirect (Suc k) then client_dials split lookup answer (Suc k) next else []))"
  by pat_completeness auto
termination
  by (relation "measure (\<lambda>(_, _, _, k, _). 5 - k)") (auto simp: CheckRedirect_def)

declare client_dials.simps [simp del]

section \<open>The networks it closes\<close>

text \<open>An address in 16 bytes is in a network of n leading bits.\<close>

definition in_network :: "ip_addr \<Rightarrow> ip_addr \<times> nat \<Rightarrow> bool" where
  "in_network ip N = (case N of (net, n) \<Rightarrow>
     take (n div 8) ip = take (n div 8) net \<and>
     (n mod 8 = 0 \<or> drop_bit (8 - n mod 8) (ip ! (n div 8)) = drop_bit (8 - n mod 8) (net ! (n div 8))))"

text \<open>\<open>To16\<close>\<close>

definition To16 :: "ip_addr \<Rightarrow> ip_addr" where
  "To16 ip = (if length ip = 4 then v4_prefix @ ip else ip)"

definition net4 :: "byte list \<Rightarrow> nat \<Rightarrow> ip_addr \<times> nat" where
  "net4 bs n = (v4_prefix @ take 4 (bs @ replicate 4 0), 96 + n)"

definition net6 :: "byte list \<Rightarrow> nat \<Rightarrow> ip_addr \<times> nat" where
  "net6 bs n = (take 16 (bs @ replicate 16 0), n)"

text \<open>
  Loopback, RFC 1918, link-local, multicast and unspecified addresses of IPv4; loopback, unspecified,
  RFC 4193, link-local and multicast addresses of IPv6.
\<close>

definition closed_networks :: "(ip_addr \<times> nat) list" where
  "closed_networks =
    [net4 [127] 8, net4 [10] 8, net4 [172, 16] 12, net4 [192, 168] 16, net4 [169, 254] 16, net4 [0xE0] 4,
     net4 [0, 0, 0, 0] 32, (IPv6loopback, 128), (IPv6unspecified, 128), net6 [0xFC] 7, net6 [0xFE, 0x80] 10, net6 [0xFF] 8]"

lemma byte_eq_bits: "x = y \<longleftrightarrow> list_all (\<lambda>i. bit x i = bit y i) [0, 1, 2, 3, 4, 5, 6, 7]" for x y :: byte
proof
  assume a: "list_all (\<lambda>i. bit x i = bit y i) [0, 1, 2, 3, 4, 5, 6, 7]"
  have "bit x i = bit y i" for i
  proof (cases "i < 8")
    case True
    then have "i \<in> set [0, 1, 2, 3, 4, 5, 6, 7]" by (simp, arith)
    with a show ?thesis by (simp only: list_all_iff)
  next
    case False
    then show ?thesis by (auto dest: bit_imp_le_length)
  qed
  then show "x = y" by (simp add: bit_eq_iff)
qed simp

lemma byte_masks:
  fixes b :: byte
  shows "b AND 0xF0 = 16 \<longleftrightarrow> drop_bit 4 b = 1" "b AND 0xF0 = 0xE0 \<longleftrightarrow> drop_bit 4 b = 14"
    "b AND 0xFE = 0xFC \<longleftrightarrow> drop_bit 1 b = 126" "b AND 0xC0 = 0x80 \<longleftrightarrow> drop_bit 6 b = 2"
proof -
  have "\<not> bit b n" if "8 \<le> n" for n using that by (auto dest: bit_imp_le_length)
  then have beyond: "\<not> bit b 8" "\<not> bit b 9" "\<not> bit b 10" "\<not> bit b 11" "\<not> bit b 12" "\<not> bit b 13" by simp_all
  show "b AND 0xF0 = 16 \<longleftrightarrow> drop_bit 4 b = 1" "b AND 0xF0 = 0xE0 \<longleftrightarrow> drop_bit 4 b = 14"
    "b AND 0xFE = 0xFC \<longleftrightarrow> drop_bit 1 b = 126" "b AND 0xC0 = 0x80 \<longleftrightarrow> drop_bit 6 b = 2"
    unfolding byte_eq_bits by (simp_all add: bit_and_iff bit_drop_bit_eq beyond flip: numeral_2_eq_2)
qed

text \<open>The guard closes exactly these networks; an IPv4 address may come in either form.\<close>

lemma zeros:
  "replicate 2 (0 :: byte) = [0, 0]" "replicate 3 (0 :: byte) = [0, 0, 0]" "replicate 4 (0 :: byte) = [0, 0, 0, 0]"
  "replicate 10 (0 :: byte) = [0, 0, 0, 0, 0, 0, 0, 0, 0, 0]"
  "replicate 15 (0 :: byte) = [0, 0, 0, 0, 0, 0, 0, 0, 0, 0, 0, 0, 0, 0, 0]"
  "replicate 16 (0 :: byte) = [0, 0, 0, 0, 0, 0, 0, 0, 0, 0, 0, 0, 0, 0, 0, 0]"
  by (simp_all add: numeral_eq_Suc)

lemma length_v4_prefix [simp]: "length v4_prefix = 12"
  by (simp add: v4_prefix_def)

lemma To4_cases:
  assumes "length ip = 4 \<or> length ip = 16"
  obtains a b c d where "To16 ip = v4_prefix @ [a, b, c, d]" "To4 ip = Some [a, b, c, d]"
    | "To16 ip = ip" "length ip = 16" "To4 ip = None" "take 12 ip \<noteq> v4_prefix"
proof (cases "To4 ip")
  case (Some q)
  have "length ip = 16 \<Longrightarrow> take 12 ip = v4_prefix \<Longrightarrow> v4_prefix @ drop 12 ip = ip" by (metis append_take_drop_id)
  with Some have q: "length q = 4" "To16 ip = v4_prefix @ q" by (auto simp: To4_def To16_def split: if_splits)
  then obtain a b c d where "q = [a, b, c, d]" by (auto simp: eval_nat_numeral length_Suc_conv)
  with q Some that(1) show thesis by simp
next
  case None
  with assms that(2) show thesis by (auto simp: To4_def To16_def split: if_splits)
qed

lemma nets_v4:
  "in_network (v4_prefix @ [a, b, c, d]) (net4 [127] 8) \<longleftrightarrow> a = 127"
  "in_network (v4_prefix @ [a, b, c, d]) (net4 [10] 8) \<longleftrightarrow> a = 10"
  "in_network (v4_prefix @ [a, b, c, d]) (net4 [172, 16] 12) \<longleftrightarrow> a = 172 \<and> drop_bit 4 b = 1"
  "in_network (v4_prefix @ [a, b, c, d]) (net4 [192, 168] 16) \<longleftrightarrow> a = 192 \<and> b = 168"
  "in_network (v4_prefix @ [a, b, c, d]) (net4 [169, 254] 16) \<longleftrightarrow> a = 169 \<and> b = 254"
  "in_network (v4_prefix @ [a, b, c, d]) (net4 [0xE0] 4) \<longleftrightarrow> drop_bit 4 a = 14"
  "in_network (v4_prefix @ [a, b, c, d]) (net4 [0, 0, 0, 0] 32) \<longleftrightarrow> a = 0 \<and> b = 0 \<and> c = 0 \<and> d = 0"
  "\<not> in_network (v4_prefix @ [a, b, c, d]) (IPv6loopback, 128)" "\<not> in_network (v4_prefix @ [a, b, c, d]) (IPv6unspecified, 128)"
  "\<not> in_network (v4_prefix @ [a, b, c, d]) (net6 [0xFC] 7)" "\<not> in_network (v4_prefix @ [a, b, c, d]) (net6 [0xFE, 0x80] 10)"
  "\<not> in_network (v4_prefix @ [a, b, c, d]) (net6 [0xFF] 8)"
  by (simp_all add: net4_def net6_def in_network_def v4_prefix_def IPv6loopback_def IPv6unspecified_def zeros)
lemma guard_v4:
  assumes "To16 ip = v4_prefix @ [a, b, c, d]" "To4 ip = Some [a, b, c, d]"
  shows "isPrivateOrReservedIP ip \<longleftrightarrow> list_ex (in_network (To16 ip)) closed_networks"
proof -
  have "ip_equal ip IPv4zero \<longleftrightarrow> To4 ip = Some [0, 0, 0, 0]" "\<not> ip_equal ip IPv6unspecified"
  proof -
    have "ip_equal ip IPv4zero \<longleftrightarrow> To4 ip = Some [0, 0, 0, 0]"
    proof (cases "length ip = 4")
      case False
      with assms(2) have "length ip = 16" "take 12 ip = v4_prefix" by (auto simp: To4_def split: if_splits)
      moreover from this have "ip = v4_prefix @ drop 12 ip" by (metis append_take_drop_id)
      ultimately show ?thesis by (auto simp: ip_equal_def To4_def IPv4zero_def)
    qed (auto simp: ip_equal_def To4_def IPv4zero_def)
    moreover have "\<not> ip_equal ip IPv6unspecified"
      using assms by (auto simp: ip_equal_def To4_def IPv6unspecified_def v4_prefix_def zeros split: if_splits)
    ultimately show "ip_equal ip IPv4zero \<longleftrightarrow> To4 ip = Some [0, 0, 0, 0]" "\<not> ip_equal ip IPv6unspecified" by blast+
  qed
  then have u: "IsUnspecified ip \<longleftrightarrow> a = 0 \<and> b = 0 \<and> c = 0 \<and> d = 0" by (simp add: IsUnspecified_def assms(2))
  have m: "drop_bit 4 a = 14" if "a = 224" using that by simp
  have "isPrivateOrReservedIP ip \<longleftrightarrow> a = 127 \<or> (a = 10 \<or> a = 172 \<and> drop_bit 4 b = 1 \<or> a = 192 \<and> b = 168) \<or>
      a = 169 \<and> b = 254 \<or> a = 224 \<and> b = 0 \<and> c = 0 \<or> drop_bit 4 a = 14 \<or> a = 0 \<and> b = 0 \<and> c = 0 \<and> d = 0"
    by (simp add: isPrivateOrReservedIP_def u IsLoopback_def IsPrivate_def IsLinkLocalUnicast_def IsLinkLocalMulticast_def
        IsMulticast_def assms(2) byte_masks)
  moreover have "list_ex (in_network (To16 ip)) closed_networks \<longleftrightarrow> a = 127 \<or> a = 10 \<or> a = 172 \<and> drop_bit 4 b = 1 \<or>
      a = 192 \<and> b = 168 \<or> a = 169 \<and> b = 254 \<or> drop_bit 4 a = 14 \<or> a = 0 \<and> b = 0 \<and> c = 0 \<and> d = 0"
    by (simp only: closed_networks_def list_ex_Cons_iff list_ex_Nil_iff nets_v4 assms(1) simp_thms)
  ultimately show ?thesis using m by blast
qed

lemma nets_v6:
  assumes "ip = a # b # rest" "length rest = 14" "take 12 ip \<noteq> v4_prefix"
  shows "in_network ip (IPv6loopback, 128) \<longleftrightarrow> ip = IPv6loopback" "in_network ip (IPv6unspecified, 128) \<longleftrightarrow> ip = IPv6unspecified"
    "in_network ip (net6 [0xFC] 7) \<longleftrightarrow> drop_bit 1 a = 126" "in_network ip (net6 [0xFE, 0x80] 10) \<longleftrightarrow> a = 0xFE \<and> drop_bit 6 b = 2"
    "in_network ip (net6 [0xFF] 8) \<longleftrightarrow> a = 0xFF" "\<not> in_network ip (net4 bs n)"
proof -
  show "\<not> in_network ip (net4 bs n)"
  proof
    assume "in_network ip (net4 bs n)"
    then have t: "take ((96 + n) div 8) ip = take ((96 + n) div 8) (v4_prefix @ take 4 (bs @ replicate 4 0))"
      by (simp add: in_network_def net4_def)
    have "12 \<le> (96 + n) div 8" by simp
    then have "take 12 ip = take 12 (take ((96 + n) div 8) ip)" by (simp add: min_def)
    also have "\<dots> = take 12 (v4_prefix @ take 4 (bs @ replicate 4 0))" unfolding t using \<open>12 \<le> (96 + n) div 8\<close> by (simp add: min_def)
    finally show False using assms(3) by simp
  qed
qed (use assms in \<open>auto simp: in_network_def net6_def IPv6loopback_def IPv6unspecified_def zeros\<close>)

lemma guard_v6:
  assumes "length ip = 16" "To4 ip = None" "take 12 ip \<noteq> v4_prefix"
  shows "isPrivateOrReservedIP ip \<longleftrightarrow> list_ex (in_network ip) closed_networks"
proof -
  have "Suc (Suc 14) = (16::nat)" by simp
  then obtain a b rest where ip: "ip = a # b # rest" "length rest = 14"
    using assms(1) by (metis length_Suc_conv)
  have four: "\<not> ip_equal ip IPv4zero"
    using assms(1,3) by (auto simp: ip_equal_def IPv4zero_def)
  have six: "ip_equal ip IPv6unspecified \<longleftrightarrow> ip = IPv6unspecified" "ip_equal ip IPv6loopback \<longleftrightarrow> ip = IPv6loopback"
    using assms(1) by (simp_all add: ip_equal_def IPv6unspecified_def IPv6loopback_def)
  have ab: "ip ! 0 = a" "ip ! 1 = b" by (simp_all add: ip(1))
  have "isPrivateOrReservedIP ip \<longleftrightarrow> ip = IPv6loopback \<or> drop_bit 1 a = 126 \<or> a = 0xFE \<and> drop_bit 6 b = 2 \<or> a = 0xFF \<or> ip = IPv6unspecified"
    by (simp only: isPrivateOrReservedIP_def IsLoopback_def IsPrivate_def IsLinkLocalUnicast_def IsLinkLocalMulticast_def
        IsMulticast_def IsUnspecified_def assms(1,2) four six byte_masks option.case ab) blast
  then show ?thesis
    unfolding closed_networks_def list_ex_Cons_iff list_ex_Nil_iff nets_v6(1-5) [OF ip assms(3)]
    using nets_v6(6) [OF ip assms(3)] by blast
qed

lemma guard_exact:
  assumes "length ip = 4 \<or> length ip = 16"
  shows "isPrivateOrReservedIP ip \<longleftrightarrow> list_ex (in_network (To16 ip)) closed_networks"
  using To4_cases [OF assms] guard_v4 guard_v6 by metis

definition addresses_ok :: "resolver \<Rightarrow> bool" where
  "addresses_ok lookup \<longleftrightarrow> (\<forall>host ips. lookup host = Some ips \<longrightarrow> (\<forall>ip\<in>set ips. length ip = 4 \<or> length ip = 16))"

lemma dial_out:
  assumes "addresses_ok lookup" "ssrfSafeDialContext split lookup addr = Inr (ip, port)"
  shows "\<not> list_ex (in_network (To16 ip)) closed_networks"
proof -
  obtain host ips where h: "lookup host = Some ips" "List.find (\<lambda>ip. \<not> isPrivateOrReservedIP ip) ips = Some ip"
    using assms(2) by (auto simp: ssrfSafeDialContext_def split: option.splits prod.splits)
  then have "ip \<in> set ips" "\<not> isPrivateOrReservedIP ip" by (auto simp: find_Some_iff)
  with assms(1) h(1) guard_exact [of ip] show ?thesis unfolding addresses_ok_def by blast
qed

text \<open>
  C16: a request of the guarded client connects to no address of the closed networks, neither for the URL nor
  for a redirect, whatever the resolver answers at each time, and connects at most five times.
\<close>

theorem guarded_client_stays_out:
  assumes "\<And>k. addresses_ok (lookup k)"
  shows "list_all (\<lambda>(ip, port). \<not> list_ex (in_network (To16 ip)) closed_networks) (client_dials split lookup answer 0 addr) \<and>
    length (client_dials split lookup answer 0 addr) \<le> 5"
proof -
  have "list_all (\<lambda>(ip, port). \<not> list_ex (in_network (To16 ip)) closed_networks) (client_dials split lookup answer k addr) \<and>
      length (client_dials split lookup answer k addr) \<le> 5 - k" if "k < 5" "\<And>k. addresses_ok (lookup k)" for k addr
    using that
  proof (induction split lookup answer k addr rule: client_dials.induct)
    case (1 split lookup answer k addr)
    show ?case
    proof (cases "ssrfSafeDialContext split (lookup k) addr")
      case (Inr c)
      then obtain ip port where c: "c = (ip, port)" "\<not> list_ex (in_network (To16 ip)) closed_networks"
        using dial_out [OF 1(3)] by (cases c) blast
      show ?thesis
      proof (cases "answer k c")
        case None
        with Inr c 1(2) show ?thesis by (simp add: client_dials.simps [of _ _ _ k])
      next
        case (Some target)
        show ?thesis
        proof (cases "CheckRedirect (Suc k)")
          case True
          then have "Suc k < 5" by (simp add: CheckRedirect_def)
          with 1(1) [OF Inr Some True _ 1(3)] Inr Some True c show ?thesis by (auto simp: client_dials.simps [of _ _ _ k])
        next
          case False
          with Inr Some c 1(2) show ?thesis by (simp add: client_dials.simps [of _ _ _ k])
        qed
      qed
    qed (simp add: client_dials.simps)
  qed
  from this [of 0 addr] assms show ?thesis by simp
qed

text \<open>
  Networks that stay open: addresses for IPv4 inside IPv6 (RFC 6052) with a private IPv4 address in them, the
  shared addresses of RFC 6598 and the rest of 0.0.0.0/8.
\<close>

lemma open_networks:
  "\<not> isPrivateOrReservedIP [0, 0x64, 0xFF, 0x9B, 0, 0, 0, 0, 0, 0, 0, 0, 10, 0, 0, 1]"
  "\<not> isPrivateOrReservedIP [100, 64, 0, 1]" "\<not> isPrivateOrReservedIP [0, 0, 0, 1]"
  by code_simp+

section \<open>A worked example\<close>

text \<open>A host that first has a public address and then redirects to a name with the address of a metadata service.\<close>

definition example_lookup :: "nat \<Rightarrow> resolver" where
  "example_lookup k host = Some (if host = ''a'' then [[10, 0, 0, 1], [93, 184, 216, 34]] else [[169, 254, 169, 254]])"

theorem guarded_client_stays_out_witness:
  "list_all (\<lambda>(ip, port). \<not> list_ex (in_network (To16 ip)) closed_networks)
     (client_dials (cut_at (CHR '':'')) example_lookup (\<lambda>_ _. Some ''b:80'') 0 ''a:443'') \<and>
   client_dials (cut_at (CHR '':'')) example_lookup (\<lambda>_ _. Some ''b:80'') 0 ''a:443'' = [([93, 184, 216, 34], ''443'')]"
proof -
  have "addresses_ok (example_lookup k)" for k by (auto simp: addresses_ok_def example_lookup_def split: if_splits)
  from guarded_client_stays_out [where lookup = example_lookup, OF this] have
    "list_all (\<lambda>(ip, port). \<not> list_ex (in_network (To16 ip)) closed_networks)
     (client_dials (cut_at (CHR '':'')) example_lookup (\<lambda>_ _. Some ''b:80'') 0 ''a:443'')" by blast
  moreover have "client_dials (cut_at (CHR '':'')) example_lookup (\<lambda>_ _. Some ''b:80'') 0 ''a:443'' = [([93, 184, 216, 34], ''443'')]"
    by code_simp
  ultimately show ?thesis by blast
qed

end
