(* ===== verification/Dav.thy ===== *)
theory Dav
  imports Vcard Contacts_Api Ssrf
begin

text \<open>
  The address book outside the web interface: the photos of contacts (backend/internal/api/contacts_photo.go),
  the CardDAV resources (dav_server.go), export and import (contacts_export.go), and the synchronisation from
  another CardDAV server (carddav_client.go). They work on the two stores of \<open>address_world\<close> and the
  directory of the photos.
\<close>

section \<open>Paths\<close>

text \<open>\<open>path.Base\<close> and \<open>filepath.Base\<close>.\<close>

definition path_base :: "string \<Rightarrow> string" where
  "path_base p =
    (if p = '''' then ''.''
     else (let q = rev (dropWhile (\<lambda>c. c = CHR ''/'') (rev p)); b = rev (takeWhile (\<lambda>c. c \<noteq> CHR ''/'') (rev q))
           in if b = '''' then ''/'' else b))"

text \<open>\<open>path.Join\<close> of parts with a rooted first one: the parts between slashes without empty ones and dots, each \<open>..\<close> taking one away.\<close>

fun clean_parts :: "string list \<Rightarrow> string list \<Rightarrow> string list" where
  "clean_parts acc [] = rev acc"
| "clean_parts acc (p # ps) =
    (if p = '''' \<or> p = ''.'' then clean_parts acc ps
     else if p = ''..'' then clean_parts (tl acc) ps
     else clean_parts (p # acc) ps)"

definition path_join :: "string list \<Rightarrow> string" where
  "path_join parts = CHR ''/'' # str_join ''/'' (clean_parts [] (concat (map (split_char (CHR ''/'')) parts)))"

section \<open>Photos\<close>

text \<open>
  What the standard library says of an image: its header decodes (package image, with the decoders for
  GIF, JPEG and PNG the file registers), and the text of other content types. SHA-256 is a parameter too.
\<close>

record photo_lib =
  ph_config :: "string \<Rightarrow> byte list \<Rightarrow> bool"
  ph_other_type :: "byte list \<Rightarrow> string"
  ph_sha256 :: "byte list \<Rightarrow> byte list"

definition starts_with :: "string \<Rightarrow> byte list \<Rightarrow> bool" where
  "starts_with s bs \<longleftrightarrow> prefix (string_bytes s) bs"

definition jpeg_magic :: "byte list" where "jpeg_magic = [0xFF, 0xD8, 0xFF]"

definition png_magic :: "byte list" where "png_magic = [0x89, 0x50, 0x4E, 0x47, 0x0D, 0x0A, 0x1A, 0x0A]"

definition is_gif :: "byte list \<Rightarrow> bool" where
  "is_gif b \<longleftrightarrow> starts_with ''GIF87a'' b \<or> starts_with ''GIF89a'' b"

definition is_webp :: "byte list \<Rightarrow> bool" where
  "is_webp b \<longleftrightarrow> starts_with ''RIFF'' b \<and> starts_with ''WEBPVP'' (drop 8 b)"

text \<open>\<open>http.DetectContentType\<close> on the four types of the table.\<close>

definition DetectContentType :: "photo_lib \<Rightarrow> byte list \<Rightarrow> string" where
  "DetectContentType P b =
    (if prefix jpeg_magic b then ''image/jpeg'' else if prefix png_magic b then ''image/png''
     else if is_gif b then ''image/gif'' else if is_webp b then ''image/webp'' else ph_other_type P b)"

definition contentTypeExt :: "(string \<times> string) list" where
  "contentTypeExt = [(''image/jpeg'', ''jpg''), (''image/png'', ''png''), (''image/webp'', ''webp''), (''image/gif'', ''gif'')]"

text \<open>\<open>image.DecodeConfig\<close>: the registered format whose magic the data has, then its decoder.\<close>

definition image_format :: "byte list \<Rightarrow> string option" where
  "image_format b =
    (if is_gif b then Some ''gif'' else if prefix (take 2 jpeg_magic) b then Some ''jpeg''
     else if prefix png_magic b then Some ''png'' else None)"

definition DecodeConfig :: "photo_lib \<Rightarrow> byte list \<Rightarrow> bool" where
  "DecodeConfig P b = (case image_format b of None \<Rightarrow> False | Some f \<Rightarrow> ph_config P f b)"

record dav_world =
  dw_address :: address_world
  dw_photos :: "string \<rightharpoonup> byte list"

definition on_address :: "(address_world \<Rightarrow> 'r \<times> address_world) \<Rightarrow> dav_world \<Rightarrow> 'r \<times> dav_world" where
  "on_address f w = (case f (dw_address w) of (r, a) \<Rightarrow> (r, w\<lparr>dw_address := a\<rparr>))"

text \<open>Left: the error, with its text; the file is written under the last part of the reference.\<close>

definition storeContactPhoto ::
  "photo_lib \<Rightarrow> bool \<Rightarrow> byte list \<Rightarrow> dav_world \<Rightarrow> (string + string) \<times> dav_world" where
  "storeContactPhoto P storable body w =
    (let contentType = DetectContentType P body in
     case map_of contentTypeExt contentType of
       None \<Rightarrow> (Inl (''unsupported image type: '' @ contentType), w)
     | Some ext \<Rightarrow>
        if \<not> DecodeConfig P body then (Inl ''file is not a decodable image'', w)
        else
          (let ref = hex_bytes (ph_sha256 P body) @ ''.'' @ ext in
           if storable then (Inr ref, w\<lparr>dw_photos := (dw_photos w)(path_base ref \<mapsto> body)\<rparr>)
           else (Inl ''failed to store photo'', w)))"

text \<open>The text after the last dot, or all of it.\<close>

definition after_last_dot :: "string \<Rightarrow> string" where
  "after_last_dot s = rev (takeWhile (\<lambda>c. c \<noteq> CHR ''.'') (rev s))"

definition loadContactPhoto :: "string \<Rightarrow> dav_world \<Rightarrow> (byte list \<times> string) option" where
  "loadContactPhoto ref w =
    (if ref = '''' then None
     else
       (case dw_photos w (path_base ref) of
          None \<Rightarrow> None
        | Some body \<Rightarrow>
           (case List.find (\<lambda>(ct, e). e = after_last_dot ref) contentTypeExt of
              Some (ct, _) \<Rightarrow> Some (body, ct)
            | None \<Rightarrow> Some (body, ''application/octet-stream''))))"

section \<open>The environment of a request\<close>

text \<open>
  Which stores open; the environments of the k-th write of a contact and of the j-th group the k-th card
  creates; whether the k-th photo can be written; the sequence in which the k-th card's map is iterated.
\<close>

record dav_env =
  dx_contacts :: bool
  dx_groups :: bool
  dx_env :: "nat \<Rightarrow> go_env"
  dx_group_env :: "nat \<Rightarrow> nat \<Rightarrow> go_env"
  dx_photo :: photo_lib
  dx_photo_ok :: "nat \<Rightarrow> bool"
  dx_keys :: "nat \<Rightarrow> string list"
  dx_lib :: vcard_lib

section \<open>The cards of a user\<close>

fun group_names :: "string list \<Rightarrow> groups_world \<Rightarrow> string list \<times> groups_world" where
  "group_names [] g = ([], g)"
| "group_names (i # ids) g =
    (let (found, g1) = groups_Get i g; (names, g2) = group_names ids g1
     in ((case found of None \<Rightarrow> names | Some x \<Rightarrow> g_Name x # names), g2))"

definition contactToVCardForUser :: "dav_env \<Rightarrow> contact \<Rightarrow> dav_world \<Rightarrow> vcard \<times> dav_world" where
  "contactToVCardForUser dx c w =
    (let (names, w1) = (if ct_GroupIDs c \<noteq> [] \<and> dx_groups dx then on_address (on_groups (group_names (ct_GroupIDs c))) w else ([], w));
         (photo, ct) = (case (if ct_PhotoRef c = '''' then None else loadContactPhoto (ct_PhotoRef c) w1) of
           None \<Rightarrow> ([], '''') | Some r \<Rightarrow> r)
     in (contactToVCard (dx_lib dx) c names photo ct, w1))"

fun resolve_names :: "(nat \<Rightarrow> go_env) \<Rightarrow> nat \<Rightarrow> (string \<rightharpoonup> string) \<Rightarrow> string list \<Rightarrow> groups_world \<Rightarrow> string list \<times> groups_world" where
  "resolve_names es j byName [] g = ([], g)"
| "resolve_names es j byName (n # ns) g =
    (let name = trim_space n in
     if name = '''' then resolve_names es j byName ns g
     else
       (case byName (to_lower name) of
          Some gid \<Rightarrow> (let (ids, g1) = resolve_names es j byName ns g in (gid # ids, g1))
        | None \<Rightarrow>
           (case groups_Upsert (es j) (groupFromPayload '''' name) g of
              (Inl _, g1) \<Rightarrow> resolve_names es (Suc j) byName ns g1
            | (Inr x, g1) \<Rightarrow>
               (let (ids, g2) = resolve_names es (Suc j) (byName(to_lower name \<mapsto> g_ID x)) ns g1 in (g_ID x # ids, g2)))))"

definition resolveGroupIDsByName :: "(nat \<Rightarrow> go_env) \<Rightarrow> string list \<Rightarrow> groups_world \<Rightarrow> string list \<times> groups_world" where
  "resolveGroupIDsByName es names g =
    (let (existing, g1) = groups_List g
     in resolve_names es 0 (fold (\<lambda>x m. m(to_lower (g_Name x) \<mapsto> g_ID x)) existing (\<lambda>_. None)) names g1)"

text \<open>The k-th card of a request; a CardDAV client of the server passes the groups store in, here too.\<close>

definition contactFromVCardForUser :: "dav_env \<Rightarrow> nat \<Rightarrow> string \<Rightarrow> vcard \<Rightarrow> dav_world \<Rightarrow> contact \<times> dav_world" where
  "contactFromVCardForUser dx k uid vc w =
    (let parsed = contactFromVCard (dx_lib dx) (dx_keys dx k) uid vc; c = pv_contact parsed;
         (ids, w1) = (if pv_categoryNames parsed \<noteq> [] \<and> dx_groups dx
           then on_address (on_groups (resolveGroupIDsByName (dx_group_env dx k) (pv_categoryNames parsed))) w else (ct_GroupIDs c, w));
         (ref, w2) = (if pv_photoData parsed = [] then (ct_PhotoRef c, w1)
           else (case storeContactPhoto (dx_photo dx) (dx_photo_ok dx k) (pv_photoData parsed) w1 of
                   (Inl _, w2) \<Rightarrow> (ct_PhotoRef c, w2) | (Inr r, w2) \<Rightarrow> (r, w2)))
     in (c\<lparr>ct_GroupIDs := ids, ct_PhotoRef := ref\<rparr>, w2))"
section \<open>The photo of a contact\<close>

text \<open>How far the reading of the uploaded form gets.\<close>

datatype photo_form = BadForm | NoPhotoFile | UnreadablePhoto | PhotoBody "byte list"

datatype photo_json = PhotoOk | PhotoStored string string | PhotoFile string

type_synonym photo_http = "photo_json http_reply"

definition handleContactPhotoUpload ::
  "dav_env \<Rightarrow> photo_form \<Rightarrow> contact \<Rightarrow> dav_world \<Rightarrow> photo_http \<times> dav_world" where
  "handleContactPhotoUpload dx form c w =
    (case form of
       BadForm \<Rightarrow> (HttpError 400 ''photo too large or invalid form'', w)
     | NoPhotoFile \<Rightarrow> (HttpError 400 ''photo file is required'', w)
     | UnreadablePhoto \<Rightarrow> (HttpError 400 ''failed to read photo'', w)
     | PhotoBody body \<Rightarrow>
        (case storeContactPhoto (dx_photo dx) (dx_photo_ok dx 0) body w of
           (Inl err, w1) \<Rightarrow> (HttpError 400 err, w1)
         | (Inr ref, w1) \<Rightarrow>
            (case on_address (on_contacts (contacts_Upsert (dx_env dx 0) (c\<lparr>ct_PhotoRef := ref\<rparr>))) w1 of
               (Inl _, w2) \<Rightarrow> (HttpError 500 ''failed to update contact'', w2)
             | (Inr updated, w2) \<Rightarrow>
                (HttpJson 200 (PhotoStored (ct_PhotoRef updated) (''/api/contacts/'' @ ct_UID updated @ ''/photo'')), w2))))"

text \<open>
  The names that are no file of the directory but the directory or the one above it pass \<open>os.Stat\<close>;
  \<open>stat_ok\<close>: no error but a missing file comes up.
\<close>

definition handleContactPhotoGet :: "bool \<Rightarrow> contact \<Rightarrow> dav_world \<Rightarrow> photo_http" where
  "handleContactPhotoGet stat_ok c w =
    (if ct_PhotoRef c = '''' then HttpError 404 ''no photo''
     else
       (let file = path_base (ct_PhotoRef c) in
        if \<not> stat_ok then HttpError 500 ''failed to read photo''
        else if dw_photos w file = None \<and> file \<notin> {''.'', ''..'', ''/''} then HttpError 404 ''no photo''
        else HttpJson 200 (PhotoFile file)))"

definition handleContactPhoto ::
  "dav_env \<Rightarrow> bool \<Rightarrow> bool \<Rightarrow> string \<Rightarrow> string \<Rightarrow> photo_form \<Rightarrow> dav_world \<Rightarrow> photo_http \<times> dav_world" where
  "handleContactPhoto dx stat_ok authed meth pathID form w =
    (if \<not> dx_contacts dx then (HttpError 500 ''failed to open contacts store'', w)
     else if \<not> authed then (HttpError 401 ''unauthorized'', w)
     else
       (case on_address (on_contacts (contacts_Get (trim_space pathID))) w of
          (found, w1) \<Rightarrow>
            (case found of
               None \<Rightarrow> (HttpError 404 ''contact not found'', w1)
             | Some c \<Rightarrow>
                if ct_Deleted c then (HttpError 404 ''contact not found'', w1)
                else if meth = ''POST'' then handleContactPhotoUpload dx form c w1
                else if meth = ''GET'' then (handleContactPhotoGet stat_ok c w1, w1)
                else if meth = ''DELETE'' then
                  (case on_address (on_contacts (contacts_Upsert (dx_env dx 0) (c\<lparr>ct_PhotoRef := ''''\<rparr>))) w1 of
                     (Inl _, w2) \<Rightarrow> (HttpError 500 ''failed to update contact'', w2)
                   | (Inr _, w2) \<Rightarrow> (HttpJson 200 PhotoOk, w2))
                else (HttpError 405 ''method not allowed'', w1))))"

section \<open>The CardDAV resources\<close>

definition davPrefix :: string where
  "davPrefix = ''/dav''"

definition CurrentUserPrincipal :: "string \<Rightarrow> string" where
  "CurrentUserPrincipal username = path_join [davPrefix, username] @ ''/''"

definition AddressBookHomeSetPath :: "string \<Rightarrow> string" where
  "AddressBookHomeSetPath username = path_join [davPrefix, username, ''contacts''] @ ''/''"

definition addressBookPath :: "string \<Rightarrow> string" where
  "addressBookPath username = path_join [davPrefix, username, ''contacts'', ''default''] @ ''/''"

definition objectPath :: "string \<Rightarrow> string \<Rightarrow> string" where
  "objectPath username uid = path_join [addressBookPath username, uid @ ''.vcf'']"

definition trim_suffix :: "string \<Rightarrow> string \<Rightarrow> string" where
  "trim_suffix s suf = (if suffix suf s then take (length s - length suf) s else s)"

definition uidFromObjectPath :: "string \<Rightarrow> string" where
  "uidFromObjectPath p = trim_suffix (path_base p) ''.vcf''"

record address_book =
  ab_Path :: string
  ab_Name :: string
  ab_Description :: string

record address_object =
  ao_Path :: string
  ao_ETag :: string
  ao_ModTime :: "int option"
  ao_Card :: vcard

text \<open>An HTTP error of the WebDAV library, or another one.\<close>

datatype dav_error = DavHttp nat string | DavStore contacts_error | DavNoStore

definition ListAddressBooks :: "string \<Rightarrow> address_book list" where
  "ListAddressBooks username =
    [\<lparr>ab_Path = addressBookPath username, ab_Name = ''Contacts'', ab_Description = ''KyPost contacts''\<rparr>]"

definition GetAddressBook :: "string \<Rightarrow> string \<Rightarrow> dav_error + address_book" where
  "GetAddressBook username p =
    (case List.find (\<lambda>ab. ab_Path ab = p) (ListAddressBooks username) of
       Some ab \<Rightarrow> Inr ab
     | None \<Rightarrow> Inl (DavHttp 404 ''address book not found''))"

text \<open>\<open>parseContactTime\<close>; None is the zero time.\<close>

definition parseContactTime :: "dav_env \<Rightarrow> string \<Rightarrow> int option" where
  "parseContactTime dx v = env_parse (dx_env dx 0) v"

definition GetAddressObject :: "dav_env \<Rightarrow> string \<Rightarrow> dav_world \<Rightarrow> (dav_error + address_object) \<times> dav_world" where
  "GetAddressObject dx p w =
    (if \<not> dx_contacts dx then (Inl DavNoStore, w)
     else
       (case on_address (on_contacts (contacts_Get (uidFromObjectPath p))) w of
          (found, w1) \<Rightarrow>
            (case found of
               None \<Rightarrow> (Inl (DavHttp 404 ''contact not found''), w1)
             | Some c \<Rightarrow>
                if ct_Deleted c then (Inl (DavHttp 404 ''contact not found''), w1)
                else
                  (let (vc, w2) = contactToVCardForUser dx c w1
                   in (Inr \<lparr>ao_Path = p, ao_ETag = ETag c, ao_ModTime = parseContactTime dx (ct_UpdatedAt c),
                            ao_Card = vc\<rparr>, w2)))))"

fun address_objects :: "dav_env \<Rightarrow> string \<Rightarrow> contact list \<Rightarrow> dav_world \<Rightarrow> address_object list \<times> dav_world" where
  "address_objects dx username [] w = ([], w)"
| "address_objects dx username (c # cs) w =
    (let (vc, w1) = contactToVCardForUser dx c w; (rest, w2) = address_objects dx username cs w1
     in (\<lparr>ao_Path = objectPath username (ct_UID c), ao_ETag = ETag c, ao_ModTime = parseContactTime dx (ct_UpdatedAt c),
          ao_Card = vc\<rparr> # rest, w2))"

definition ListAddressObjects ::
  "dav_env \<Rightarrow> string \<Rightarrow> dav_world \<Rightarrow> (dav_error + address_object list) \<times> dav_world" where
  "ListAddressObjects dx username w =
    (if \<not> dx_contacts dx then (Inl DavNoStore, w)
     else
       (let (cs, w1) = on_address (on_contacts contacts_List) w; (aos, w2) = address_objects dx username cs w1
        in (Inr aos, w2)))"

text \<open>A conditional header as its methods answer: whether it is set, a wildcard, and its entity tag if it has one.\<close>

record conditional_match =
  cm_IsSet :: bool
  cm_IsWildcard :: bool
  cm_ETag :: "string option"

record put_options =
  po_IfNoneMatch :: conditional_match
  po_IfMatch :: conditional_match

text \<open>The precondition the headers ask for; None: \<open>ETag()\<close> gave an error.\<close>

definition put_precondition :: "put_options option \<Rightarrow> contact_precondition option" where
  "put_precondition opts =
    (case opts of
       None \<Rightarrow> Some \<lparr>RequireAbsent = False, RequireETag = ''''\<rparr>
     | Some po \<Rightarrow>
        (let absent = cm_IsSet (po_IfNoneMatch po) \<and> cm_IsWildcard (po_IfNoneMatch po) in
         if cm_IsSet (po_IfMatch po) then map_option (\<lambda>tag. \<lparr>RequireAbsent = absent, RequireETag = tag\<rparr>) (cm_ETag (po_IfMatch po))
         else Some \<lparr>RequireAbsent = absent, RequireETag = ''''\<rparr>))"

definition PutAddressObject ::
  "dav_env \<Rightarrow> string \<Rightarrow> string \<Rightarrow> vcard \<Rightarrow> put_options option \<Rightarrow> dav_world \<Rightarrow> (dav_error + address_object) \<times> dav_world" where
  "PutAddressObject dx username p vc opts w =
    (if \<not> dx_contacts dx then (Inl DavNoStore, w)
     else
       (case put_precondition opts of
          None \<Rightarrow> (Inl (DavHttp 412 ''etag mismatch''), w)
        | Some pre \<Rightarrow>
           (let (c, w1) = contactFromVCardForUser dx 0 (uidFromObjectPath p) vc w in
            case on_address (on_contacts (contacts_UpsertWithPrecondition (dx_env dx 0) c pre)) w1 of
              (Inl err, w2) \<Rightarrow>
                (Inl (if err = PreconditionFailed
                      then DavHttp 412 (if RequireAbsent pre then ''contact already exists'' else ''etag mismatch'')
                      else DavStore err), w2)
            | (Inr updated, w2) \<Rightarrow>
                (Inr \<lparr>ao_Path = objectPath username (ct_UID updated), ao_ETag = ETag updated,
                      ao_ModTime = parseContactTime dx (ct_UpdatedAt updated), ao_Card = vc\<rparr>, w2))))"

definition DeleteAddressObject :: "dav_env \<Rightarrow> string \<Rightarrow> dav_world \<Rightarrow> dav_error option \<times> dav_world" where
  "DeleteAddressObject dx p w =
    (if \<not> dx_contacts dx then (Some DavNoStore, w)
     else
       (case on_address (on_contacts (contacts_Delete (dx_env dx 0) (uidFromObjectPath p))) w of
          (Inl err, w1) \<Rightarrow> (Some (DavStore err), w1)
        | (Inr removed, w1) \<Rightarrow> (if removed then None else Some (DavHttp 404 ''contact not found''), w1)))"

text \<open>The guard in front of the resources: None lets the request through.\<close>

definition handleCardDAV :: "string option \<Rightarrow> string \<Rightarrow> (nat \<times> string) option" where
  "handleCardDAV user urlPath =
    (case user of
       None \<Rightarrow> Some (401, ''unauthorized'')
     | Some username \<Rightarrow>
        (if prefix (davPrefix @ ''/'') urlPath then
           (let segment = takeWhile (\<lambda>c. c \<noteq> CHR ''/'') (drop 5 urlPath) in
            if segment \<noteq> '''' \<and> segment \<noteq> username then Some (403, ''forbidden: address book belongs to a different user'')
            else None)
         else None))"
section \<open>Export\<close>

text \<open>A cell that a spreadsheet would read as a formula gets an apostrophe.\<close>

definition csvSafe :: "string \<Rightarrow> string" where
  "csvSafe s =
    (case s of
       [] \<Rightarrow> s
     | c # _ \<Rightarrow> if c \<in> {CHR ''='', CHR ''+'', CHR ''-'', CHR ''@'', CHR 0x09, CHR 0x0D} then CHR 0x27 # s else s)"

definition csv_row :: "contact \<Rightarrow> string list" where
  "csv_row c =
    [csvSafe (ct_FormattedName c), csvSafe (ct_Org c), csvSafe (ct_Title c),
     csvSafe (str_join '';'' (map cv_Value (ct_Emails c))), csvSafe (str_join '';'' (map cv_Value (ct_Phones c))),
     csvSafe (ct_Notes c), csvSafe (ct_Birthday c)]"

definition csv_header :: "string list" where
  "csv_header = [''Name'', ''Organization'', ''Title'', ''Email(s)'', ''Phone(s)'', ''Notes'', ''Birthday'']"

text \<open>The cards that have been written, and whether all were; the rows; or an error.\<close>

datatype export_reply = ExportError nat string | ExportCards "vcard list" bool | ExportRows "string list list"

fun export_cards :: "(vcard \<Rightarrow> bool) \<Rightarrow> dav_env \<Rightarrow> contact list \<Rightarrow> dav_world \<Rightarrow> (vcard list \<times> bool) \<times> dav_world" where
  "export_cards encodes dx [] w = (([], True), w)"
| "export_cards encodes dx (c # cs) w =
    (if ct_Deleted c then export_cards encodes dx cs w
     else
       (let (vc, w1) = contactToVCardForUser dx c w in
        if \<not> encodes vc then (([], False), w1)
        else (let ((vcs, all), w2) = export_cards encodes dx cs w1 in ((vc # vcs, all), w2))))"

definition handleContactsExport ::
  "(vcard \<Rightarrow> bool) \<Rightarrow> dav_env \<Rightarrow> bool \<Rightarrow> string \<Rightarrow> dav_world \<Rightarrow> export_reply \<times> dav_world" where
  "handleContactsExport encodes dx authed formatParam w =
    (if \<not> dx_contacts dx then (ExportError 500 ''failed to open contacts store'', w)
     else if \<not> authed then (ExportError 401 ''unauthorized'', w)
     else
       (let f = to_lower (trim_space formatParam); format = (if f = '''' then ''vcard'' else f);
            (cs, w1) = on_address (on_contacts contacts_List) w in
        if format = ''vcard'' then
          (let ((vcs, all), w2) = export_cards encodes dx cs w1 in (ExportCards vcs all, w2))
        else if format = ''csv'' then
          (ExportRows (csv_header # map csv_row (filter (\<lambda>c. \<not> ct_Deleted c) cs)), w1)
        else (ExportError 400 ''unsupported format'', w1)))"

section \<open>Import\<close>

text \<open>What the k-th call of the decoder gives.\<close>

datatype decode_event = DecodeEOF | DecodeFailed string | Decoded vcard

datatype import_error = DecodeProblem string | ImportProblem string contacts_error | StoppedAfterContacts nat | StoppedAfterAttempts nat

record import_result =
  im_Imported :: nat
  im_Skipped :: nat
  im_Errors :: "import_error list"
  im_ErrorCount :: nat

definition maxCards :: nat where "maxCards = 5000"

definition maxAttempts :: nat where "maxAttempts = maxCards * 2"

definition maxErrors :: nat where "maxErrors = 100"

definition addError :: "import_error \<Rightarrow> import_result \<Rightarrow> import_result" where
  "addError err r =
    (let r1 = r\<lparr>im_ErrorCount := im_ErrorCount r + 1\<rparr> in
     if length (im_Errors r) < maxErrors then r1\<lparr>im_Errors := im_Errors r @ [err]\<rparr> else r1)"

definition addSummary :: "import_error \<Rightarrow> import_result \<Rightarrow> import_result" where
  "addSummary err r = r\<lparr>im_ErrorCount := im_ErrorCount r + 1, im_Errors := im_Errors r @ [err]\<rparr>"

text \<open>One decoded card.\<close>

definition import_card :: "dav_env \<Rightarrow> nat \<Rightarrow> vcard \<Rightarrow> import_result \<Rightarrow> dav_world \<Rightarrow> import_result \<times> dav_world" where
  "import_card dx k vc r w =
    (let (c, w1) = contactFromVCardForUser dx k '''' vc w in
     if ct_FormattedName c = '''' then (r\<lparr>im_Skipped := im_Skipped r + 1\<rparr>, w1)
     else
       (case on_address (on_contacts (contacts_Upsert (dx_env dx k) c)) w1 of
          (Inl err, w2) \<Rightarrow>
            (let r1 = addError (ImportProblem (ct_FormattedName c) err) r in (r1\<lparr>im_Skipped := im_Skipped r1 + 1\<rparr>, w2))
        | (Inr _, w2) \<Rightarrow> (r\<lparr>im_Imported := im_Imported r + 1\<rparr>, w2)))"

function import_loop ::
  "dav_env \<Rightarrow> (nat \<Rightarrow> decode_event) \<Rightarrow> nat \<Rightarrow> nat \<Rightarrow> import_result \<Rightarrow> dav_world \<Rightarrow> import_result \<times> dav_world" where
  "import_loop dx dec cardCount attempts r w =
    (if maxCards \<le> cardCount then (addSummary (StoppedAfterContacts maxCards) r, w)
     else if maxAttempts < attempts + 1 then (addSummary (StoppedAfterAttempts maxAttempts) r, w)
     else
       (case dec attempts of
          DecodeEOF \<Rightarrow> (r, w)
        | DecodeFailed msg \<Rightarrow> import_loop dx dec cardCount (attempts + 1) (addError (DecodeProblem msg) r) w
        | Decoded vc \<Rightarrow>
           (case import_card dx attempts vc r w of
              (r1, w1) \<Rightarrow> import_loop dx dec (cardCount + 1) (attempts + 1) r1 w1)))"
  by pat_completeness auto
termination
  by (relation "measure (\<lambda>(_, _, _, attempts, _, _). maxAttempts - attempts)") auto

declare import_loop.simps [simp del]

datatype import_reply = ImportError nat string | ImportDone import_result

definition handleContactsImport ::
  "dav_env \<Rightarrow> bool \<Rightarrow> (nat \<Rightarrow> decode_event) \<Rightarrow> dav_world \<Rightarrow> import_reply \<times> dav_world" where
  "handleContactsImport dx authed dec w =
    (if \<not> dx_contacts dx then (ImportError 500 ''failed to open contacts store'', w)
     else if \<not> authed then (ImportError 401 ''unauthorized'', w)
     else
       (case import_loop dx dec 0 0 \<lparr>im_Imported = 0, im_Skipped = 0, im_Errors = [], im_ErrorCount = 0\<rparr> w of
          (r, w1) \<Rightarrow> (ImportDone r, w1)))"
section \<open>Names and paths\<close>

lemma clean_parts_last: "p \<noteq> '''' \<Longrightarrow> p \<noteq> ''.'' \<Longrightarrow> p \<noteq> ''..'' \<Longrightarrow> clean_parts acc (ps @ [p]) = clean_parts acc ps @ [p]"
  by (induction acc ps rule: clean_parts.induct) auto

lemma str_join_last: "str_join ''/'' (ps @ [p]) = (if ps = [] then p else str_join ''/'' ps @ ''/'' @ p)"
  by (induction "''/''" ps rule: str_join.induct) (auto simp: neq_Nil_conv)

lemma path_base_last:
  assumes "b \<noteq> ''''" "CHR ''/'' \<notin> set b"
  shows "path_base (d @ CHR ''/'' # b) = b"
proof -
  obtain c cs where r: "rev b = c # cs" using assms(1) by (cases "rev b") auto
  then have "c \<noteq> CHR ''/''" using assms(2) by (metis list.set_intros(1) set_rev)
  then have "dropWhile (\<lambda>c. c = CHR ''/'') (rev (d @ CHR ''/'' # b)) = rev b @ CHR ''/'' # rev d" by (simp add: r)
  moreover have "takeWhile (\<lambda>c. c \<noteq> CHR ''/'') (rev b @ CHR ''/'' # rev d) = rev b"
    using assms(2) by (simp add: takeWhile_append)
  ultimately show ?thesis using assms(1) by (simp add: path_base_def Let_def)
qed

text \<open>The path of a contact leads back to its UID, unless the UID has a slash.\<close>

lemma object_path_uid:
  assumes "CHR ''/'' \<notin> set uid"
  shows "uidFromObjectPath (objectPath username uid) = uid"
proof -
  let ?file = "uid @ ''.vcf''"
  have f: "CHR ''/'' \<notin> set ?file" "?file \<noteq> ''''" "?file \<noteq> ''.''" "?file \<noteq> ''..''"
    using assms by (auto simp: append_eq_Cons_conv)
  have "concat (map (split_char (CHR ''/'')) [addressBookPath username, ?file]) = split_char (CHR ''/'') (addressBookPath username) @ [?file]"
    using f(1) by (simp add: split_char_word)
  then have "objectPath username uid =
      CHR ''/'' # str_join ''/'' (clean_parts [] (split_char (CHR ''/'') (addressBookPath username)) @ [?file])"
    using clean_parts_last [OF f(2-4)] by (simp add: objectPath_def path_join_def)
  moreover have "\<exists>d. CHR ''/'' # str_join ''/'' (ps @ [?file]) = d @ CHR ''/'' # ?file" for ps
    by (cases "ps = []") (force simp: str_join_last intro: exI [of _ "[]"] exI [of _ "CHR ''/'' # str_join ''/'' ps"])+
  ultimately obtain d where "objectPath username uid = d @ CHR ''/'' # ?file" by metis
  then have "path_base (objectPath username uid) = ?file" using path_base_last f(1,2) by metis
  then show ?thesis by (simp add: uidFromObjectPath_def trim_suffix_def suffix_def)
qed

text \<open>A contact with a slash in its UID is listed at a path that leads to no contact.\<close>

lemma slash_unreachable: "uidFromObjectPath (objectPath ''ann'' ''urn/1'') = ''1''"
  by code_simp

text \<open>A cell of the export never starts as a formula.\<close>

lemma csvSafe_inert: "csvSafe s = '''' \<or> hd (csvSafe s) \<notin> {CHR ''='', CHR ''+'', CHR ''-'', CHR ''@'', CHR 0x09, CHR 0x0D}"
  by (cases s) (simp_all add: csvSafe_def)

lemma csv_cells_inert:
  "list_all (\<lambda>cell. cell = '''' \<or> hd cell \<notin> {CHR ''='', CHR ''+'', CHR ''-'', CHR ''@'', CHR 0x09, CHR 0x0D}) (csv_row c)"
  unfolding csv_row_def list.pred_inject(2) by (intro conjI csvSafe_inert) simp

section \<open>What keeps the stores sound\<close>

lemma resolve_names_spec:
  assumes "snd g = Json gv" "\<And>n i. byName n = Some i \<Longrightarrow> i \<in> group_ids gv" "resolve_names es j byName ns g = (ids, g')"
  shows "\<exists>gv'. snd g' = Json gv' \<and> group_ids gv \<subseteq> group_ids gv' \<and> set ids \<subseteq> group_ids gv'"
  using assms
proof (induction es j byName ns g arbitrary: gv ids g' rule: resolve_names.induct)
  case (2 es j byName n ns g)
  let ?name = "trim_space n"
  show ?case
  proof (cases "?name = ''''")
    case True
    with 2 show ?thesis by (auto simp: Let_def)
  next
    case False
    show ?thesis
    proof (cases "byName (to_lower ?name)")
      case (Some gid)
      obtain ids1 g1 where r: "resolve_names es j byName ns g = (ids1, g1)" by (rule prod.exhaust)
      obtain gv' where "snd g1 = Json gv'" "group_ids gv \<subseteq> group_ids gv'" "set ids1 \<subseteq> group_ids gv'"
        using "2.IH"(4) [OF refl False Some "2.prems"(1) _ r] "2.prems"(2) by blast
      moreover have "gid \<in> group_ids gv" using "2.prems"(2) [OF Some] .
      ultimately show ?thesis using "2.prems"(3) False Some r by (auto simp: Let_def)
    next
      case None
      obtain t where t: "g = (t, Json gv)" using "2.prems"(1) by (cases g) auto
      obtain res g1 where u: "groups_Upsert (es j) (groupFromPayload '''' ?name) g = (res, g1)" by (rule prod.exhaust)
      obtain r t' d where b: "groups_upsert_body (es j) (groupFromPayload '''' ?name) (groups_applyFile gv t) = (r, t', d)"
        by (metis prod_cases3)
      have grow: "group_ids gv \<subseteq> g_ID ` set (gl_groups t')"
        using group_body_ids [of "groups_applyFile gv t" "es j" "groupFromPayload '''' ?name"] b
        by (simp add: group_ids_def groups_applyFile_def)
      have new: "g_ID x \<in> g_ID ` set (gl_groups t') \<and> d" if "r = Inr x" for x
        using b that by (auto simp: groups_upsert_body_def groupFromPayload_def Let_def split: sum.splits)
      have out: "(\<exists>gv1. snd g1 = Json gv1 \<and> group_ids gv \<subseteq> group_ids gv1 \<and> (\<forall>x. res = Inr x \<longrightarrow> g_ID x \<in> group_ids gv1))"
        using u b grow new unfolding t
        by (auto simp: groups_Upsert_def transact_Json group_ids_def groups_file_of_def split: if_splits)
      then obtain gv1 where gv1: "snd g1 = Json gv1" "group_ids gv \<subseteq> group_ids gv1" "\<And>x. res = Inr x \<Longrightarrow> g_ID x \<in> group_ids gv1"
        by blast
      show ?thesis
      proof (cases res)
        case (Inl err)
        have "resolve_names es (Suc j) byName ns g1 = (ids, g')" using "2.prems"(3) False None u Inl by (simp add: Let_def)
        from "2.IH"(2) [OF refl False None u [symmetric] Inl gv1(1) _ this] "2.prems"(2) gv1(2) show ?thesis by blast
      next
        case (Inr x)
        obtain ids1 g2 where r2: "resolve_names es (Suc j) (byName(to_lower ?name \<mapsto> g_ID x)) ns g1 = (ids1, g2)" by (rule prod.exhaust)
        have known: "i \<in> group_ids gv1" if "(byName(to_lower ?name \<mapsto> g_ID x)) m = Some i" for m i
          using that "2.prems"(2) gv1(2,3) Inr by (auto split: if_splits)
        obtain gv' where "snd g2 = Json gv'" "group_ids gv1 \<subseteq> group_ids gv'" "set ids1 \<subseteq> group_ids gv'"
          using "2.IH"(3) [OF refl False None u [symmetric] Inr gv1(1) _ r2] known by blast
        then show ?thesis using "2.prems"(3) False None u Inr r2 gv1(2,3) by (auto simp: Let_def)
      qed
    qed
  qed
qed auto

lemma resolveGroupIDs_spec:
  assumes "snd g = Json gv" "resolveGroupIDsByName es names g = (ids, g')"
  shows "\<exists>gv'. snd g' = Json gv' \<and> group_ids gv \<subseteq> group_ids gv' \<and> set ids \<subseteq> group_ids gv'"
proof -
  obtain t where t: "g = (t, Json gv)" using assms(1) by (cases g) auto
  define known where "known = fold (\<lambda>x m. m(to_lower (g_Name x) \<mapsto> g_ID x)) (sort_key g_Name (gf_Groups gv)) (\<lambda>_. None)"
  have fold: "fold (\<lambda>x m. m(to_lower (g_Name x) \<mapsto> g_ID x)) xs m n = Some i \<Longrightarrow> m n = Some i \<or> i \<in> g_ID ` set xs" for xs m n i
  proof (induction xs arbitrary: m)
    case (Cons x xs)
    from Cons.IH [of "m(to_lower (g_Name x) \<mapsto> g_ID x)"] Cons.prems show ?case by (auto split: if_splits)
  qed simp
  have "i \<in> group_ids gv" if "known n = Some i" for n i
    using fold [of "sort_key g_Name (gf_Groups gv)" "\<lambda>_. None" n i] that by (simp add: known_def group_ids_def)
  moreover have "resolve_names es 0 known names (groups_applyFile gv t, Json gv) = (ids, g')"
    using assms(2) by (simp add: resolveGroupIDsByName_def groups_List_def observe_Json t known_def groups_applyFile_def)
  ultimately show ?thesis using resolve_names_spec [of "(groups_applyFile gv t, Json gv)" gv known] by simp
qed

text \<open>A card becomes a contact that names groups that exist.\<close>

lemma storePhoto_address [simp]: "dw_address (snd (storeContactPhoto P b body w)) = dw_address w"
  by (simp add: storeContactPhoto_def Let_def split: option.split)

lemma contactFromVCardForUser_ok:
  assumes "address_ok X (dw_address w)" "contactFromVCardForUser dx k uid vc w = (c, w')"
  shows "address_ok X (dw_address w') \<and> ct_UID c = uid \<and>
    (\<exists>gv. snd (aw_groups (dw_address w')) = Json gv \<and> set (ct_GroupIDs c) \<subseteq> group_ids gv)"
proof -
  let ?p = "contactFromVCard (dx_lib dx) (dx_keys dx k) uid vc"
  have uid: "ct_UID (pv_contact ?p) = uid" "ct_GroupIDs (pv_contact ?p) = []"
    by (simp_all add: contactFromVCard_def Let_def split: prod.splits)
  obtain cv gv where ok: "address_files cv gv (dw_address w)" "contacts_ok (book cv)" "refs_in (group_ids gv) (book cv)" "book_uids cv \<subseteq> X"
    using assms(1) by (auto simp: address_ok_def)
  obtain ids w1 where r: "(if pv_categoryNames ?p \<noteq> [] \<and> dx_groups dx
      then on_address (on_groups (resolveGroupIDsByName (dx_group_env dx k) (pv_categoryNames ?p))) w else ([], w)) = (ids, w1)"
    by (rule prod.exhaust)
  have w': "ct_UID c = uid" "ct_GroupIDs c = ids" "dw_address w' = dw_address w1"
    using assms(2) r uid storePhoto_address [of "dx_photo dx" "dx_photo_ok dx k" "pv_photoData ?p" w1]
    by (auto simp: contactFromVCardForUser_def Let_def split: if_splits sum.splits prod.splits simp del: storePhoto_address)
  have "\<exists>gv'. address_files cv gv' (dw_address w1) \<and> group_ids gv \<subseteq> group_ids gv' \<and> set ids \<subseteq> group_ids gv'"
  proof (cases "pv_categoryNames ?p \<noteq> [] \<and> dx_groups dx")
    case True
    obtain ids' g' where g': "resolveGroupIDsByName (dx_group_env dx k) (pv_categoryNames ?p) (aw_groups (dw_address w)) = (ids', g')"
      by (rule prod.exhaust)
    have gv: "snd (aw_groups (dw_address w)) = Json gv" using ok(1) by (simp add: address_files_def)
    obtain gv' where "snd g' = Json gv'" "group_ids gv \<subseteq> group_ids gv'" "set ids' \<subseteq> group_ids gv'"
      using resolveGroupIDs_spec [OF gv g'] by blast
    with True r g' ok(1) show ?thesis by (auto simp: on_address_def on_groups_def address_files_def)
  qed (use r ok(1) in auto)
  then obtain gv' where gv': "address_files cv gv' (dw_address w1)" "group_ids gv \<subseteq> group_ids gv'" "set ids \<subseteq> group_ids gv'" by blast
  have "address_ok X (dw_address w1)"
    using ok gv' refs_in_mono [OF ok(3) gv'(2)] unfolding address_ok_def by blast
  with w' gv' show ?thesis by (auto simp: address_files_def)
qed
lemma address_upsert_if:
  assumes "address_ok X w" "fresh_id e X" "snd (aw_groups w) = Json gv" "set (ct_GroupIDs c) \<subseteq> group_ids gv"
  shows "address_ok (X \<union> ({ct_UID c} - {''''}) \<union> {u. NewUUIDv4 (env_rand e) = Inr u})
    (snd (on_contacts (contacts_UpsertWithPrecondition e c pre) w))"
proof (rule address_transact [OF assms(1), where body = "contact_upsert_if e c pre"])
  show "contacts_UpsertWithPrecondition e c pre (m, snd (aw_contacts w)) =
      transact contacts_applyFile contacts_file_of ContactsIO e (contact_upsert_if e c pre) (m, snd (aw_contacts w))" for m
    by (simp add: contacts_UpsertWithPrecondition_def)
  fix cv gv' assume ok: "address_files cv gv' w" "contacts_ok (book cv)" "refs_in (group_ids gv') (book cv)" "book_uids cv \<subseteq> X"
  have "gv' = gv" using ok(1) assms(3) by (simp add: address_files_def)
  have "fresh_id e (ct_UID ` set (co_contacts (book cv)))"
    using assms(2) ok(4) by (auto simp: book_uids_alt fresh_id_def split: sum.splits)
  from upsert_good [OF ok(2) this, of c] upsert_refs [OF ok(3), of c e] upsert_uids [of e c "book cv"] assms(4) ok(2,3,4)
  show "contacts_ok (fst (snd (contact_upsert_if e c pre (book cv)))) \<and>
      refs_in (group_ids gv') (fst (snd (contact_upsert_if e c pre (book cv)))) \<and>
      ct_UID ` set (co_contacts (fst (snd (contact_upsert_if e c pre (book cv)))))
        \<subseteq> X \<union> ({ct_UID c} - {''''}) \<union> {u. NewUUIDv4 (env_rand e) = Inr u}"
    by (auto simp: contact_upsert_if_def Let_def good_step_def book_uids_alt \<open>gv' = gv\<close>)
qed auto

lemma on_address_fst: "on_address f w = (r, w') \<Longrightarrow> f (dw_address w) = (r, dw_address w')"
  by (auto simp: on_address_def split: prod.splits)

lemma put_ok:
  assumes "address_ok X (dw_address w)" "fresh_id (dx_env dx 0) X"
  shows "address_sound (dw_address (snd (PutAddressObject dx username p vc opts w)))"
proof (cases "dx_contacts dx")
  case True
  show ?thesis
  proof (cases "put_precondition opts")
    case (Some pre)
    obtain c w1 where c: "contactFromVCardForUser dx 0 (uidFromObjectPath p) vc w = (c, w1)" by (rule prod.exhaust)
    obtain gv where gv: "address_ok X (dw_address w1)" "snd (aw_groups (dw_address w1)) = Json gv" "set (ct_GroupIDs c) \<subseteq> group_ids gv"
      using contactFromVCardForUser_ok [OF assms(1) c] by blast
    obtain r w2 where u: "on_address (on_contacts (contacts_UpsertWithPrecondition (dx_env dx 0) c pre)) w1 = (r, w2)" by (rule prod.exhaust)
    have "address_sound (dw_address w2)"
      using address_upsert_if [OF gv(1) assms(2) gv(2,3), of pre] on_address_fst [OF u] by (auto simp: address_sound_def)
    with True Some c u show ?thesis by (cases r) (auto simp: PutAddressObject_def)
  qed (use True assms in \<open>auto simp: PutAddressObject_def address_sound_def\<close>)
qed (use assms in \<open>auto simp: PutAddressObject_def address_sound_def\<close>)

lemma dav_delete_ok:
  "address_ok X (dw_address w) \<Longrightarrow> address_ok X (dw_address (snd (DeleteAddressObject dx p w)))"
  using address_delete [of X "dw_address w" "dx_env dx 0" "uidFromObjectPath p"]
  by (auto simp: DeleteAddressObject_def on_address_def split: prod.splits sum.splits)

lemma new_upto_mono: "X \<union> new_upto es k \<subseteq> X \<union> new_upto es (Suc k)"
  by (auto simp: new_upto_Suc)

lemma import_card_ok:
  assumes "address_ok (X \<union> new_upto (dx_env dx) k) (dw_address w)" "new_ids (dx_env dx) X"
  shows "address_ok (X \<union> new_upto (dx_env dx) (Suc k)) (dw_address (snd (import_card dx k vc r w)))"
proof -
  let ?X = "X \<union> new_upto (dx_env dx) k" and ?Y = "X \<union> new_upto (dx_env dx) (Suc k)"
  obtain c w1 where c: "contactFromVCardForUser dx k '''' vc w = (c, w1)" by (rule prod.exhaust)
  obtain gv where gv: "address_ok ?X (dw_address w1)" "ct_UID c = ''''" "snd (aw_groups (dw_address w1)) = Json gv" "set (ct_GroupIDs c) \<subseteq> group_ids gv"
    using contactFromVCardForUser_ok [OF assms(1) c] by blast
  obtain res w2 where u: "on_address (on_contacts (contacts_Upsert (dx_env dx k) c)) w1 = (res, w2)" by (rule prod.exhaust)
  have "address_ok (?X \<union> ({ct_UID c} - {''''}) \<union> {u. NewUUIDv4 (env_rand (dx_env dx k)) = Inr u}) (dw_address w2)"
    using address_upsert [OF gv(1) new_ids_fresh [OF assms(2) order_refl] gv(3,4)] on_address_fst [OF u] by simp
  then have "address_ok ?Y (dw_address w2)" by (rule address_mono) (auto simp: gv(2) new_upto_Suc)
  moreover have "address_ok ?Y (dw_address w1)" using address_mono [OF gv(1) new_upto_mono] .
  ultimately show ?thesis by (cases res) (auto simp: import_card_def c u Let_def)
qed

lemma import_loop_ok:
  assumes "address_ok (X \<union> new_upto (dx_env dx) attempts) (dw_address w)" "new_ids (dx_env dx) X"
  shows "address_sound (dw_address (snd (import_loop dx dec n attempts r w)))"
  using assms
proof (induction dx dec n attempts r w rule: import_loop.induct)
  case (1 dx dec n attempts r w)
  show ?case
  proof (cases "maxCards \<le> n \<or> maxAttempts < attempts + 1")
    case True
    with 1(3) show ?thesis by (auto simp: import_loop.simps address_sound_def)
  next
    case False
    then have f: "\<not> maxCards \<le> n" "\<not> maxAttempts < attempts + 1" by auto
    show ?thesis
    proof (cases "dec attempts")
      case DecodeEOF
      with f 1(3) show ?thesis by (auto simp: import_loop.simps [of _ _ n] address_sound_def)
    next
      case (DecodeFailed msg)
      from 1(1) [OF f DecodeFailed] address_mono [OF 1(3) new_upto_mono] 1(4) f DecodeFailed
      show ?thesis by (simp add: import_loop.simps [of _ _ n])
    next
      case (Decoded vc)
      obtain r1 w1 where c: "import_card dx attempts vc r w = (r1, w1)" by (rule prod.exhaust)
      from 1(2) [OF f Decoded c [symmetric]] import_card_ok [OF 1(3,4), of vc r] 1(4) f Decoded c
      show ?thesis by (simp add: import_loop.simps [of _ _ n])
    qed
  qed
qed
section \<open>What an import does\<close>

lemma card_contacts:
  assumes "contactFromVCardForUser dx k uid vc w = (c, w')"
  shows "aw_contacts (dw_address w') = aw_contacts (dw_address w) \<and> ct_UID c = uid"
proof -
  let ?p = "contactFromVCard (dx_lib dx) (dx_keys dx k) uid vc"
  have uid: "ct_UID (pv_contact ?p) = uid" by (simp add: contactFromVCard_def Let_def split: prod.splits)
  obtain ids w1 where r: "(if pv_categoryNames ?p \<noteq> [] \<and> dx_groups dx
      then on_address (on_groups (resolveGroupIDsByName (dx_group_env dx k) (pv_categoryNames ?p))) w
      else (ct_GroupIDs (pv_contact ?p), w)) = (ids, w1)"
    by (rule prod.exhaust)
  have "aw_contacts (dw_address w1) = aw_contacts (dw_address w)"
    using r by (auto simp: on_address_def on_groups_def split: if_splits prod.splits)
  moreover obtain ref w2 where s: "(if pv_photoData ?p = [] then (ct_PhotoRef (pv_contact ?p), w1)
           else (case storeContactPhoto (dx_photo dx) (dx_photo_ok dx k) (pv_photoData ?p) w1 of
                   (Inl _, w2) \<Rightarrow> (ct_PhotoRef (pv_contact ?p), w2) | (Inr r, w2) \<Rightarrow> (r, w2))) = (ref, w2)"
    by (rule prod.exhaust)
  moreover have "dw_address w2 = dw_address w1"
    using s storePhoto_address [of "dx_photo dx" "dx_photo_ok dx k" "pv_photoData ?p" w1]
    by (auto split: if_splits prod.splits sum.splits simp del: storePhoto_address)
  moreover have "c = (pv_contact ?p)\<lparr>ct_GroupIDs := ids, ct_PhotoRef := ref\<rparr>" "w' = w2"
    using assms unfolding contactFromVCardForUser_def Let_def r prod.case s by simp_all
  ultimately show ?thesis using uid by simp
qed

lemma upsert_new_length:
  assumes "contacts_Upsert e c (m, Json cv) = (res, m', f)" "ct_UID c = ''''"
  shows "\<exists>cv'. f = Json cv' \<and>
    length (live_contacts (book cv')) = length (live_contacts (book cv)) + (case res of Inl _ \<Rightarrow> 0 | Inr _ \<Rightarrow> 1)"
proof -
  obtain r s' d where b: "contact_upsert e c (book cv) = (r, s', d)" by (metis prod_cases3)
  have f: "f = Json (if d \<and> env_write_ok e then contacts_file_of s' else cv)"
    "res = (if d \<and> \<not> env_write_ok e then Inl (ContactsIO IoWrite) else r)"
    using assms(1) by (auto simp: contacts_Upsert_def transact_Json apply_book b split: if_splits)
  have "case r of Inl err \<Rightarrow> \<not> d | Inr c2 \<Rightarrow> d \<and> co_contacts s' = co_contacts (book cv) @ [c2] \<and> \<not> ct_Deleted c2"
    using b assms(2) by (auto simp: contact_upsert_def Let_def split: sum.splits)
  then show ?thesis
    using f by (cases r) (auto simp: live_contacts_def)
qed

definition live_count :: "dav_world \<Rightarrow> nat option" where
  "live_count w = (case snd (aw_contacts (dw_address w)) of Json cv \<Rightarrow> Some (length (live_contacts (book cv))) | _ \<Rightarrow> None)"

lemma addError_counts [simp]:
  "im_Imported (addError err r) = im_Imported r" "im_Skipped (addError err r) = im_Skipped r"
  "im_ErrorCount (addError err r) = im_ErrorCount r + 1"
  "length (im_Errors (addError err r)) = (if length (im_Errors r) < maxErrors then length (im_Errors r) + 1 else length (im_Errors r))"
  by (simp_all add: addError_def Let_def)

lemma import_card_counts:
  assumes "live_count w = Some n" "import_card dx k vc r w = (r', w')"
  shows "live_count w' = Some (n + im_Imported r' - im_Imported r) \<and> im_Imported r \<le> im_Imported r' \<and>
    im_Imported r' + im_Skipped r' = im_Imported r + im_Skipped r + 1 \<and>
    (length (im_Errors r) \<le> maxErrors \<longrightarrow> length (im_Errors r') \<le> maxErrors) \<and>
    (length (im_Errors r) \<le> im_ErrorCount r \<longrightarrow> length (im_Errors r') \<le> im_ErrorCount r')"
proof -
  obtain c w1 where c: "contactFromVCardForUser dx k '''' vc w = (c, w1)" by (rule prod.exhaust)
  have same: "aw_contacts (dw_address w1) = aw_contacts (dw_address w)" "ct_UID c = ''''" using card_contacts [OF c] by simp_all
  then have n1: "live_count w1 = Some n" using assms(1) by (simp add: live_count_def)
  show ?thesis
  proof (cases "ct_FormattedName c = ''''")
    case True
    with n1 assms(2) c show ?thesis by (auto simp: import_card_def)
  next
    case False
    obtain m cv where m: "aw_contacts (dw_address w1) = (m, Json cv)" "n = length (live_contacts (book cv))"
      using n1 by (cases "aw_contacts (dw_address w1)") (auto simp: live_count_def split: json_file.splits)
    obtain res m' f where u: "contacts_Upsert (dx_env dx k) c (m, Json cv) = (res, m', f)" by (metis prod_cases3)
    obtain cv' where "f = Json cv'" "length (live_contacts (book cv')) = n + (case res of Inl _ \<Rightarrow> 0 | Inr _ \<Rightarrow> 1)"
      using upsert_new_length [OF u same(2)] m(2) by blast
    with False m u assms(2) c show ?thesis
      by (cases res) (auto simp: import_card_def on_address_def on_contacts_def live_count_def Let_def)
  qed
qed

lemma import_loop_counts:
  assumes "live_count w = Some n" "import_loop dx dec j attempts r w = (r', w')" "im_Imported r + im_Skipped r = j" "j \<le> maxCards"
    and "length (im_Errors r) \<le> maxErrors" "length (im_Errors r) \<le> im_ErrorCount r"
  shows "live_count w' = Some (n + im_Imported r' - im_Imported r) \<and> im_Imported r \<le> im_Imported r' \<and>
    im_Imported r' + im_Skipped r' \<le> maxCards \<and> length (im_Errors r') \<le> maxErrors + 1 \<and> length (im_Errors r') \<le> im_ErrorCount r'"
  using assms
proof (induction dx dec j attempts r w arbitrary: n rule: import_loop.induct)
  case (1 dx dec j attempts r w)
  note eq = import_loop.simps [of dx dec j attempts r w]
  show ?case
  proof (cases "maxCards \<le> j \<or> maxAttempts < attempts + 1")
    case True
    with eq 1(3-) show ?thesis by (auto simp: addSummary_def split: if_splits)
  next
    case False
    then have f: "\<not> maxCards \<le> j" "\<not> maxAttempts < attempts + 1" by auto
    show ?thesis
    proof (cases "dec attempts")
      case DecodeEOF
      with f eq 1(3-) show ?thesis by auto
    next
      case (DecodeFailed msg)
      with f eq 1(4) have "import_loop dx dec j (attempts + 1) (addError (DecodeProblem msg) r) w = (r', w')" by simp
      from 1(1) [OF f DecodeFailed 1(3) this] 1(5-) show ?thesis by (auto split: if_splits)
    next
      case (Decoded vc)
      obtain r1 w1 where c: "import_card dx attempts vc r w = (r1, w1)" by (rule prod.exhaust)
      note s = import_card_counts [OF 1(3) c]
      have run: "import_loop dx dec (j + 1) (attempts + 1) r1 w1 = (r', w')" using f eq 1(4) Decoded c by simp
      have "live_count w' = Some ((n + im_Imported r1 - im_Imported r) + im_Imported r' - im_Imported r1) \<and> im_Imported r1 \<le> im_Imported r' \<and>
          im_Imported r' + im_Skipped r' \<le> maxCards \<and> length (im_Errors r') \<le> maxErrors + 1 \<and> length (im_Errors r') \<le> im_ErrorCount r'"
        by (rule 1(2) [OF f Decoded c [symmetric] _ run]) (use s 1(5-) f in auto)
      with s show ?thesis by auto
    qed
  qed
qed

lemma import_loop_reads:
  assumes "\<And>k. k < maxAttempts \<Longrightarrow> dec' k = dec k"
  shows "import_loop dx dec' j attempts r w = import_loop dx dec j attempts r w"
  using assms
proof (induction dx dec j attempts r w rule: import_loop.induct)
  case (1 dx dec j attempts r w)
  show ?case
  proof (cases "maxCards \<le> j \<or> maxAttempts < attempts + 1")
    case True
    then show ?thesis by (auto simp: import_loop.simps [of _ _ j attempts])
  next
    case False
    then have f: "\<not> maxCards \<le> j" "\<not> maxAttempts < attempts + 1" by auto
    then have "dec' attempts = dec attempts" by (intro 1(3)) simp
    then show ?thesis
      using f 1(1) [OF f _ 1(3)] 1(2) [OF f _ _ 1(3)]
      by (simp add: import_loop.simps [of _ _ j attempts] split: decode_event.splits prod.splits)
  qed
qed

text \<open>
  C18: an import of any input, also one that never ends, reports how many contacts it has added; it takes at
  most 5000 cards from the input and reads no more than 10000 times; the list of errors stays short, and no
  error goes uncounted.
\<close>

theorem import_bounded:
  assumes "snd (aw_contacts (dw_address w)) = Json cv" "handleContactsImport dx True dec w = (ImportDone r, w')"
    and "\<And>k. k < 10000 \<Longrightarrow> dec' k = dec k"
  shows "length (fst (contacts_List (aw_contacts (dw_address w')))) = length (fst (contacts_List (aw_contacts (dw_address w)))) + im_Imported r \<and>
    im_Imported r + im_Skipped r \<le> 5000 \<and> length (im_Errors r) \<le> 101 \<and> length (im_Errors r) \<le> im_ErrorCount r \<and>
    handleContactsImport dx True dec' w = (ImportDone r, w')"
proof -
  have loop: "import_loop dx dec 0 0 \<lparr>im_Imported = 0, im_Skipped = 0, im_Errors = [], im_ErrorCount = 0\<rparr> w = (r, w')"
    and opens: "dx_contacts dx"
    using assms(2) by (auto simp: handleContactsImport_def split: if_splits prod.splits)
  have n: "live_count w = Some (length (live_contacts (book cv)))" using assms(1) by (simp add: live_count_def)
  note c = import_loop_counts [OF n loop]
  have lst: "fst (contacts_List (aw_contacts (dw_address x))) = live_contacts (book v)" if "snd (aw_contacts (dw_address x)) = Json v" for x v
    using that by (cases "aw_contacts (dw_address x)") (simp add: contacts_List_def observe_Json apply_book)
  have c': "live_count w' = Some (length (live_contacts (book cv)) + im_Imported r) \<and>
      im_Imported r + im_Skipped r \<le> maxCards \<and> length (im_Errors r) \<le> maxErrors + 1 \<and> length (im_Errors r) \<le> im_ErrorCount r"
    using c by simp
  then obtain cv' where w': "snd (aw_contacts (dw_address w')) = Json cv'" "length (live_contacts (book cv')) = length (live_contacts (book cv)) + im_Imported r"
    by (auto simp: live_count_def split: json_file.splits)
  moreover have "import_loop dx dec' 0 0 r0 w = import_loop dx dec 0 0 r0 w" for r0
    by (rule import_loop_reads) (use assms(3) in \<open>simp add: maxAttempts_def maxCards_def\<close>)
  ultimately show ?thesis
    using c' opens loop lst [OF w'(1)] lst [OF assms(1)] w'(2) by (simp add: maxCards_def maxErrors_def handleContactsImport_def)
qed

section \<open>What a PUT does\<close>

text \<open>The card and the reply; the store has the contact under the UID of the path.\<close>

lemma upsert_if_get:
  assumes "contacts_UpsertWithPrecondition e c pre (m, Json cv) = (Inr updated, m', f)" "ct_UID c \<noteq> ''''" "contacts_ok (book cv)"
  shows "\<exists>cv'. f = Json cv' \<and> contact_get (ct_UID c) (book cv') = Some updated \<and> \<not> ct_Deleted updated \<and> ct_UID updated = ct_UID c \<and>
    (\<forall>u. u \<noteq> ct_UID c \<longrightarrow> contact_get u (book cv') = contact_get u (book cv))"
proof -
  obtain r s' d where b: "contact_upsert_if e c pre (book cv) = (r, s', d)" by (metis prod_cases3)
  have f: "f = Json (if d then contacts_file_of s' else cv)" "r = Inr updated" "d \<longrightarrow> env_write_ok e"
    using assms(1) by (auto simp: contacts_UpsertWithPrecondition_def transact_Json apply_book b split: if_splits)
  then have up: "contact_upsert e c (book cv) = (Inr updated, s', d)"
    using b by (auto simp: contact_upsert_if_def Let_def split: if_splits)
  define c1 where "c1 = c\<lparr>ct_Rev := co_seq (book cv) + 1, ct_Deleted := False, ct_UpdatedAt := stamp e\<rparr>"
  have c1: "ct_UID c1 = ct_UID c" "\<not> ct_Deleted c1" by (simp_all add: c1_def)
  show ?thesis
  proof (cases "List.find (\<lambda>x. ct_UID x = ct_UID c) (co_contacts (book cv))")
    case None
    then have "d" "updated = c1\<lparr>ct_CreatedAt := stamp e\<rparr>" "co_contacts s' = co_contacts (book cv) @ [updated]"
      using up assms(2) by (auto simp: contact_upsert_def Let_def c1_def)
    moreover have "List.find P (xs @ [x]) = (case List.find P xs of None \<Rightarrow> if P x then Some x else None | Some y \<Rightarrow> Some y)"
      for P and xs :: "contact list" and x by (induction xs) auto
    ultimately show ?thesis using f None c1
      by (auto simp: contact_get_def split: option.split)
  next
    case (Some y)
    then have d: "d" "ct_UID updated = ct_UID c" "\<not> ct_Deleted updated"
      "co_contacts s' = replace_first (\<lambda>x. ct_UID x = ct_UID c) (\<lambda>_. updated) (co_contacts (book cv))"
      using up assms(2) by (auto simp: contact_upsert_def Let_def c1_def)
    have "List.find (\<lambda>x. ct_UID x = u) (replace_first (\<lambda>x. ct_UID x = ct_UID c) (\<lambda>_. updated) xs) =
        (if u = ct_UID c \<and> List.find (\<lambda>x. ct_UID x = u) xs \<noteq> None then Some updated else List.find (\<lambda>x. ct_UID x = u) xs)" for u xs
      using d(2) by (induction xs) auto
    with f d Some show ?thesis by (auto simp: contact_get_def)
  qed
qed

lemma get_through_world:
  assumes "snd (aw_contacts a) = Json v"
  shows "fst (contacts_Get u (aw_contacts a)) = contact_get u (book v)"
  using assms by (cases "aw_contacts a") (simp add: contacts_Get_def observe_Json apply_book)

section \<open>Photos that come back, and others\<close>

lemma hex_plain: "CHR ''.'' \<notin> set (hex_bytes bs) \<and> CHR ''/'' \<notin> set (hex_bytes bs)"
proof -
  have d: "hex_digit n \<noteq> CHR ''.'' \<and> hex_digit n \<noteq> CHR ''/''" if "n < 16" for n
  proof -
    have "list_all (\<lambda>n. hex_digit n \<noteq> CHR ''.'' \<and> hex_digit n \<noteq> CHR ''/'') [0..<16]" by code_simp
    then show ?thesis using that by (simp add: list_all_iff)
  qed
  have q: "unat b div 16 < 16" "unat b mod 16 < 16" for b :: byte
  proof -
    have "unat b < 256" using unsigned_less [of b] by simp
    then show "unat b div 16 < 16" "unat b mod 16 < 16" by simp_all
  qed
  have "CHR ''.'' \<notin> set (hex_byte b) \<and> CHR ''/'' \<notin> set (hex_byte b)" for b
    using d [OF q(1), of b] d [OF q(2), of b] by (auto simp: hex_byte_def)
  then show ?thesis by (auto simp: hex_bytes_def)
qed

text \<open>A photo that is stored comes back with its bytes and the type it was detected as.\<close>

lemma stored_photo_loads:
  assumes "storeContactPhoto P storable body w = (Inr ref, w')"
  shows "loadContactPhoto ref w' = Some (body, DetectContentType P body)"
proof -
  let ?hex = "hex_bytes (ph_sha256 P body)"
  obtain ext where e: "map_of contentTypeExt (DetectContentType P body) = Some ext" "ref = ?hex @ ''.'' @ ext"
    "w' = w\<lparr>dw_photos := (dw_photos w)(path_base ref \<mapsto> body)\<rparr>"
    using assms by (auto simp: storeContactPhoto_def Let_def split: option.splits if_splits)
  have table: "list_all (\<lambda>(ct, x). CHR ''.'' \<notin> set x \<and> List.find (\<lambda>(ct', e). e = x) contentTypeExt = Some (ct, x)) contentTypeExt"
    by code_simp
  have "(DetectContentType P body, ext) \<in> set contentTypeExt" using e(1) by (rule map_of_SomeD)
  then have x: "CHR ''.'' \<notin> set ext" "List.find (\<lambda>(ct', e). e = ext) contentTypeExt = Some (DetectContentType P body, ext)"
    using table by (auto simp: list_all_iff)
  have "after_last_dot ref = ext"
    using x(1) by (simp add: after_last_dot_def e(2) takeWhile_append)
  with x(2) e(2,3) show ?thesis by (simp add: loadContactPhoto_def)
qed

text \<open>WebP is in the table of the types, but no decoder for it is registered: such a photo is always refused.\<close>

lemma webp_never_stored:
  assumes "is_webp body"
  shows "storeContactPhoto P storable body w = (Inl ''file is not a decodable image'', w)"
proof -
  obtain rest where b: "body = [0x52, 0x49, 0x46, 0x46] @ rest"
    using assms by (auto simp: is_webp_def starts_with_def string_bytes_def prefix_def)
  have "image_format body = None" "DetectContentType P body = ''image/webp''"
    using assms by (simp_all add: b image_format_def DetectContentType_def is_gif_def starts_with_def string_bytes_def
        jpeg_magic_def png_magic_def)
  then show ?thesis by (simp add: storeContactPhoto_def DecodeConfig_def contentTypeExt_def)
qed

text \<open>
  The last part of a path is no protection against the name of the directory above: a reference of two dots,
  which a contact payload can carry, passes as a photo.
\<close>

lemma dots_pass_as_photo: "handleContactPhotoGet True (ann\<lparr>ct_PhotoRef := ''..''\<rparr>) w = HttpJson 200 (PhotoFile ''..'')"
  by (simp add: handleContactPhotoGet_def path_base_def Let_def)

section \<open>Worked examples\<close>

definition example_photo :: photo_lib where
  "example_photo = \<lparr>ph_config = \<lambda>_ _. True, ph_other_type = \<lambda>_. ''text/plain'', ph_sha256 = take 1\<rparr>"

definition dav_example :: dav_env where
  "dav_example = \<lparr>dx_contacts = True, dx_groups = True, dx_env = \<lambda>k. tally_env 0 (Some (replicate 16 (of_nat k))) True,
     dx_group_env = \<lambda>_ j. tally_env 0 (Some (replicate 16 (of_nat j))) True, dx_photo = example_photo, dx_photo_ok = \<lambda>_. True,
     dx_keys = \<lambda>_. [], dx_lib = example_lib\<rparr>"

definition dav_start :: dav_world where
  "dav_start = \<lparr>dw_address = grouped_world, dw_photos = \<lambda>_. None\<rparr>"

definition bea_card :: vcard where
  "bea_card = contactToVCard example_lib (ann\<lparr>ct_FormattedName := ''Bea''\<rparr>) [''Friends''] [] ''''"

text \<open>A refused PUT has made its groups all the same.\<close>

definition only_new :: put_options where
  "only_new = \<lparr>po_IfNoneMatch = \<lparr>cm_IsSet = True, cm_IsWildcard = True, cm_ETag = None\<rparr>,
     po_IfMatch = \<lparr>cm_IsSet = False, cm_IsWildcard = False, cm_ETag = None\<rparr>\<rparr>"

lemma refused_put_leaves_group:
  "(case PutAddressObject dav_example ''u'' ''/dav/u/contacts/default/a.vcf'' bea_card (Some only_new) dav_start of
      (r, w) \<Rightarrow> (case r of Inl err \<Rightarrow> err = DavHttp 412 ''contact already exists'' | Inr _ \<Rightarrow> False) \<and>
        map g_Name (fst (groups_List (aw_groups (dw_address w)))) = [''Friends'', ''w'', ''x''])"
  by code_simp

theorem import_bounded_witness:
  "(case handleContactsImport dav_example True (\<lambda>k. if k = 0 then Decoded bea_card else DecodeEOF) dav_start of
      (ImportDone r, w') \<Rightarrow> length (fst (contacts_List (aw_contacts (dw_address w')))) = 1 + im_Imported r
    | _ \<Rightarrow> False)"
proof -
  let ?dec = "\<lambda>k. if k = 0 then Decoded bea_card else DecodeEOF"
  obtain r w' where h: "handleContactsImport dav_example True ?dec dav_start = (ImportDone r, w')"
    by (cases "import_loop dav_example ?dec 0 0 \<lparr>im_Imported = 0, im_Skipped = 0, im_Errors = [], im_ErrorCount = 0\<rparr> dav_start")
      (simp add: handleContactsImport_def dav_example_def)
  have v: "snd (aw_contacts (dw_address dav_start)) = Json \<lparr>cf_Contacts = [ann\<lparr>ct_GroupIDs := [''2'', ''1'']\<rparr>], cf_Seq = 1, cf_GCHighWaterRev = 0\<rparr>"
    by (simp add: dav_start_def grouped_world_def)
  have one: "length (fst (contacts_List (aw_contacts (dw_address dav_start)))) = 1"
    by (simp add: dav_start_def grouped_world_def contacts_List_def observe_Json live_contacts_def contacts_applyFile_def ann_def blank_contact_def)
  have "length (fst (contacts_List (aw_contacts (dw_address w')))) = length (fst (contacts_List (aw_contacts (dw_address dav_start)))) + im_Imported r \<and>
    im_Imported r + im_Skipped r \<le> 5000 \<and> length (im_Errors r) \<le> 101 \<and> length (im_Errors r) \<le> im_ErrorCount r \<and>
    handleContactsImport dav_example True ?dec dav_start = (ImportDone r, w')"
    by (rule import_bounded [OF v h]) simp
  then show ?thesis by (simp add: h one)
qed


end
