(* ===== verification/Carddav_Client.thy ===== *)
theory Carddav_Client
  imports Dav
begin

text \<open>
  The synchronisation of the address book from another CardDAV server (backend/internal/api/carddav_client.go):
  the stored credentials, the search for the address books of the account, the fetching of the cards and their
  writing to the stores. The remote server, package url, and the decoders for XML and vCards are parameters.
\<close>

section \<open>Stored configuration\<close>

record discovered_book =
  db_Path :: string
  db_Name :: string
  db_ContactCount :: nat

record carddav_config =
  cd_ServerURL :: string
  cd_Username :: string
  cd_Password :: string
  cd_AddressBookPath :: string
  cd_UpdatedAt :: string
  cd_LastSyncedAt :: string
  cd_LastSyncError :: string
  cd_LastSyncImported :: nat
  cd_LastSyncUpdated :: nat
  cd_Discovered :: "discovered_book list"

definition normalizeCardDAVClientPayload :: "carddav_config \<Rightarrow> carddav_config" where
  "normalizeCardDAVClientPayload p =
    p\<lparr>cd_ServerURL := trim_space (cd_ServerURL p), cd_Username := trim_space (cd_Username p),
      cd_Password := trim_space (cd_Password p), cd_AddressBookPath := trim_space (cd_AddressBookPath p)\<rparr>"

text \<open>
  The file as what its decrypted content decodes to; an envelope that does not open and a text that does not
  decode are malformed. None is a missing file.
\<close>

definition readCardDAVClientConfigPayload :: "carddav_config json_file \<Rightarrow> io_error + carddav_config option" where
  "readCardDAVClientConfigPayload f =
    (case f of
       Missing \<Rightarrow> Inr None
     | Unreadable \<Rightarrow> Inl IoRead
     | Malformed \<Rightarrow> Inl BadJson
     | Json p \<Rightarrow> Inr (Some (normalizeCardDAVClientPayload p)))"

definition writeCardDAVClientConfigPayload ::
  "bool \<Rightarrow> carddav_config \<Rightarrow> carddav_config json_file \<Rightarrow> bool \<times> carddav_config json_file" where
  "writeCardDAVClientConfigPayload storable p f = (if storable then (True, Json p) else (False, f))"

section \<open>URLs\<close>

record url =
  u_Scheme :: string
  u_Host :: string
  u_Path :: string
  u_Rest :: string

record url_lib =
  ul_Parse :: "string \<Rightarrow> url option"
  ul_String :: "url \<Rightarrow> string"
  ul_Hostname :: "url \<Rightarrow> string"
  ul_ResolveReference :: "url \<Rightarrow> url \<Rightarrow> url"
  ul_ParseIP :: "string \<Rightarrow> ip_addr option"

definition net_of :: "url_lib \<Rightarrow> url net_lib" where
  "net_of U = \<lparr>nl_parse_url = ul_Parse U, nl_scheme = u_Scheme, nl_hostname = ul_Hostname U, nl_parse_ip = ul_ParseIP U\<rparr>"

text \<open>The scheme and the host are always those of the host root.\<close>

definition resolved_url :: "url_lib \<Rightarrow> url \<Rightarrow> url \<Rightarrow> url" where
  "resolved_url U base ref = (ul_ResolveReference U base ref)\<lparr>u_Scheme := u_Scheme base, u_Host := u_Host base\<rparr>"

definition resolveCardDAVPath :: "url_lib \<Rightarrow> string \<Rightarrow> string \<Rightarrow> string option" where
  "resolveCardDAVPath U hostRoot p =
    (case ul_Parse U hostRoot of
       None \<Rightarrow> None
     | Some base \<Rightarrow> (case ul_Parse U p of None \<Rightarrow> None | Some ref \<Rightarrow> Some (ul_String U (resolved_url U base ref))))"

definition cardDAVHostRoot :: "url_lib \<Rightarrow> string \<Rightarrow> string option" where
  "cardDAVHostRoot U raw =
    map_option (\<lambda>u. ul_String U \<lparr>u_Scheme = u_Scheme u, u_Host = u_Host u, u_Path = ''/'', u_Rest = ''''\<rparr>) (ul_Parse U raw)"

definition cardDAVURLPath :: "url_lib \<Rightarrow> string \<Rightarrow> string option" where
  "cardDAVURLPath U raw = map_option (\<lambda>u. if u_Path u = '''' then ''/'' else u_Path u) (ul_Parse U raw)"

definition trim_slashes :: "string \<Rightarrow> string" where
  "trim_slashes p = rev (dropWhile (\<lambda>c. c = CHR ''/'') (rev p))"

text \<open>The text up to and with its last slash; None: it has no slash.\<close>

definition upto_last_slash :: "string \<Rightarrow> string option" where
  "upto_last_slash s = (if CHR ''/'' \<in> set s then Some (rev (dropWhile (\<lambda>c. c \<noteq> CHR ''/'') (rev s))) else None)"

lemma trim_slashes_length: "length (trim_slashes p) \<le> length p"
  using length_dropWhile_le [of "\<lambda>c. c = CHR ''/''" "rev p"] by (simp add: trim_slashes_def)

lemma upto_last_slash_shorter:
  assumes "upto_last_slash (trim_slashes p) = Some q"
  shows "length q < length p"
proof -
  let ?t = "trim_slashes p"
  have q: "q = rev (dropWhile (\<lambda>c. c \<noteq> CHR ''/'') (rev ?t))" "CHR ''/'' \<in> set ?t"
    using assms by (auto simp: upto_last_slash_def split: if_splits)
  then obtain x xs where x: "rev ?t = x # xs" by (cases "rev ?t") auto
  have "x \<noteq> CHR ''/''" using x hd_dropWhile [of "\<lambda>c. c = CHR ''/''" "rev p"] by (auto simp: trim_slashes_def)
  then have "length q \<le> length xs" using x by (simp add: q(1) length_dropWhile_le)
  moreover have "length xs < length ?t" using arg_cong [OF x, of length] by simp
  ultimately show ?thesis using trim_slashes_length [of p] by simp
qed

text \<open>The walk towards the root: the candidates after the URL itself, and the path where it ends.\<close>

function discovery_walk :: "url \<Rightarrow> string \<Rightarrow> url list \<times> string" where
  "discovery_walk u p =
    (case upto_last_slash (trim_slashes p) of
       None \<Rightarrow> ([], p)
     | Some q \<Rightarrow>
        if q = ''/'' then ([u\<lparr>u_Path := q\<rparr>], q)
        else (case discovery_walk u q of (us, e) \<Rightarrow> (u\<lparr>u_Path := q\<rparr> # us, e)))"
  by pat_completeness auto
termination
  by (relation "measure (\<lambda>(_, p). length p)") (auto simp: upto_last_slash_shorter)

declare discovery_walk.simps [simp del]

definition discovery_urls :: "url \<Rightarrow> url list" where
  "discovery_urls u =
    (case discovery_walk u (u_Path u) of (us, e) \<Rightarrow> u # us @ (if e = ''/'' then [] else [u\<lparr>u_Path := ''/''\<rparr>]))"

definition cardDAVDiscoveryCandidates :: "url_lib \<Rightarrow> string \<Rightarrow> string list option" where
  "cardDAVDiscoveryCandidates U raw = map_option (\<lambda>u. map (ul_String U) (discovery_urls u)) (ul_Parse U raw)"

section \<open>The remote server\<close>

datatype remote_reply = RemoteFailure string | UnreadableBody string | RemoteReply nat string

record dav_response =
  dr_Href :: string
  dr_AddressData :: "string list"

record remote_card =
  rc_Path :: string
  rc_Card :: vcard

text \<open>
  The answers to the k-th fetch of a collection and to the discovery at the k-th candidate, and the decoders.
\<close>

record remote_server =
  rs_report :: "nat \<Rightarrow> string \<Rightarrow> remote_reply"
  rs_xml :: "string \<Rightarrow> dav_response list option"
  rs_vcard :: "string \<Rightarrow> vcard option"
  rs_client :: "string \<Rightarrow> bool"
  rs_principal :: "nat \<Rightarrow> string option"
  rs_home_set :: "nat \<Rightarrow> string \<Rightarrow> string option"
  rs_books :: "nat \<Rightarrow> string \<Rightarrow> (string \<times> string) list option"
  rs_sha1 :: "byte list \<Rightarrow> byte list"
  rs_lookup :: resolver

datatype fetch_error = FetchURL | FetchTransport string | FetchBody string | FetchStatus nat string | FetchXML

text \<open>The card of one response; a response without one or with one that does not decode is skipped.\<close>

definition response_card :: "remote_server \<Rightarrow> dav_response \<Rightarrow> remote_card option" where
  "response_card R r =
    (case List.find (\<lambda>d. trim_space d \<noteq> '''') (dr_AddressData r) of
       None \<Rightarrow> None
     | Some raw \<Rightarrow> map_option (\<lambda>vc. \<lparr>rc_Path = dr_Href r, rc_Card = vc\<rparr>) (rs_vcard R raw))"

definition fetchAddressBookCards ::
  "url_lib \<Rightarrow> remote_server \<Rightarrow> nat \<Rightarrow> string \<Rightarrow> string \<Rightarrow> fetch_error + remote_card list" where
  "fetchAddressBookCards U R k hostRoot p =
    (case resolveCardDAVPath U hostRoot p of
       None \<Rightarrow> Inl FetchURL
     | Some target \<Rightarrow>
        (case rs_report R k target of
           RemoteFailure err \<Rightarrow> Inl (FetchTransport err)
         | UnreadableBody err \<Rightarrow> Inl (FetchBody err)
         | RemoteReply status body \<Rightarrow>
            if status \<noteq> 207 \<and> status \<noteq> 200 then Inl (FetchStatus status (trim_space body))
            else (case rs_xml R body of None \<Rightarrow> Inl FetchXML | Some rs \<Rightarrow> Inr (List.map_filter (response_card R) rs))))"

datatype discover_error = NoClient | NoPrincipal | NoHomeSet | BooksFailed | NoBooks

definition discoverAddressBooksFrom ::
  "remote_server \<Rightarrow> nat \<Rightarrow> string \<Rightarrow> discover_error + (string \<times> string) list" where
  "discoverAddressBooksFrom R k endpoint =
    (if \<not> rs_client R endpoint then Inl NoClient
     else
       (case rs_principal R k of
          None \<Rightarrow> Inl NoPrincipal
        | Some prin \<Rightarrow>
           (case rs_home_set R k prin of
              None \<Rightarrow> Inl NoHomeSet
            | Some homeSet \<Rightarrow>
               (case rs_books R k homeSet of
                  None \<Rightarrow> Inl BooksFailed
                | Some books \<Rightarrow> if books = [] then Inl NoBooks else Inr books))))"

text \<open>The first candidate that works, or the error of the last; without candidates there is neither.\<close>

fun discover_any :: "remote_server \<Rightarrow> nat \<Rightarrow> string list \<Rightarrow> discover_error + (string \<times> string) list" where
  "discover_any R k [] = Inr []"
| "discover_any R k [c] = discoverAddressBooksFrom R k c"
| "discover_any R k (c # c' # cs) =
    (case discoverAddressBooksFrom R k c of Inr books \<Rightarrow> Inr books | Inl _ \<Rightarrow> discover_any R (Suc k) (c' # cs))"

section \<open>The synchronisation\<close>

definition remoteContactUID :: "vcard_lib \<Rightarrow> remote_server \<Rightarrow> remote_card \<Rightarrow> string" where
  "remoteContactUID L R c =
    (let uid = trim_space (vl_Value L (vl_field L FieldUID) (rc_Card c)) in
     if uid \<noteq> '''' then ''carddav-import-'' @ uid
     else ''carddav-import-'' @ hex_bytes (rs_sha1 R (string_bytes (rc_Path c))))"

datatype sync_error =
  RefusingToSync url_error | BadServerURL | FetchFailed fetch_error | DiscoverFailed discover_error
| SaveFailed string contacts_error

text \<open>The books with what was fetched of each; a book that could not be fetched counts as empty.\<close>

definition probe_books ::
  "url_lib \<Rightarrow> remote_server \<Rightarrow> string \<Rightarrow> (string \<times> string) list \<Rightarrow> (discovered_book \<times> remote_card list) list" where
  "probe_books U R hostRoot books =
    map (\<lambda>(i, found_at, name).
        (case fetchAddressBookCards U R i hostRoot found_at of
           Inl _ \<Rightarrow> (\<lparr>db_Path = found_at, db_Name = name, db_ContactCount = 0\<rparr>, [])
         | Inr cards \<Rightarrow> (\<lparr>db_Path = found_at, db_Name = name, db_ContactCount = length cards\<rparr>, cards)))
      (zip [0..<length books] books)"

text \<open>The first book that has contacts, else the first one.\<close>

definition chosen_book :: "(discovered_book \<times> remote_card list) list \<Rightarrow> discovered_book \<times> remote_card list" where
  "chosen_book probes = (case List.find (\<lambda>(b, cards). cards \<noteq> []) probes of Some x \<Rightarrow> x | None \<Rightarrow> hd probes)"

text \<open>The path, the cards and the books found; or the error with the path and the books to report.\<close>

definition collect_cards ::
  "url_lib \<Rightarrow> remote_server \<Rightarrow> carddav_config \<Rightarrow> string \<Rightarrow>
   (sync_error \<times> string) + string \<times> remote_card list \<times> discovered_book list option" where
  "collect_cards U R cfg hostRoot =
    (let pinned = cd_AddressBookPath cfg in
     if pinned \<noteq> '''' then
       (case fetchAddressBookCards U R 0 hostRoot pinned of
          Inl err \<Rightarrow> Inl (FetchFailed err, pinned)
        | Inr cards \<Rightarrow> Inr (pinned, cards, None))
     else
       (case cardDAVDiscoveryCandidates U (cd_ServerURL cfg) of
          None \<Rightarrow> Inl (BadServerURL, '''')
        | Some candidates \<Rightarrow>
           (case discover_any R 0 candidates of
              Inl derr \<Rightarrow>
                (case cardDAVURLPath U (cd_ServerURL cfg) of
                   None \<Rightarrow> Inl (DiscoverFailed derr, '''')
                 | Some directPath \<Rightarrow>
                    (case fetchAddressBookCards U R 0 hostRoot directPath of
                       Inl _ \<Rightarrow> Inl (DiscoverFailed derr, '''')
                     | Inr cards \<Rightarrow> Inr (directPath, cards, None)))
            | Inr books \<Rightarrow>
               (let probes = probe_books U R hostRoot books; (b, cards) = chosen_book probes
                in Inr (db_Path b, cards, Some (map fst probes))))))"

text \<open>The k-th card; the group store is open, so the card becomes a contact as on the CardDAV server.\<close>

fun sync_cards ::
  "dav_env \<Rightarrow> remote_server \<Rightarrow> nat \<Rightarrow> remote_card list \<Rightarrow> nat \<times> nat \<Rightarrow> dav_world \<Rightarrow>
   (sync_error option \<times> nat \<times> nat) \<times> dav_world" where
  "sync_cards dx R k [] (imported, updated) w = ((None, imported, updated), w)"
| "sync_cards dx R k (c # cs) (imported, updated) w =
    (let uid = remoteContactUID (dx_lib dx) R c;
         (existing, w1) = on_address (on_contacts (contacts_Get uid)) w;
         (newContact, w2) = contactFromVCardForUser (dx\<lparr>dx_groups := True\<rparr>) k uid (rc_Card c) w1
     in case on_address (on_contacts (contacts_Upsert (dx_env dx k) newContact)) w2 of
          (Inl err, w3) \<Rightarrow> ((Some (SaveFailed uid err), imported, updated), w3)
        | (Inr _, w3) \<Rightarrow>
            sync_cards dx R (Suc k) cs (if existing \<noteq> None then (imported, updated + 1) else (imported + 1, updated)) w3)"

record sync_outcome =
  so_Imported :: nat
  so_Updated :: nat
  so_Path :: string
  so_Discovered :: "discovered_book list option"
  so_Error :: "sync_error option"

definition syncCardDAVClient ::
  "url_lib \<Rightarrow> remote_server \<Rightarrow> dav_env \<Rightarrow> carddav_config \<Rightarrow> dav_world \<Rightarrow> sync_outcome \<times> dav_world" where
  "syncCardDAVClient U R dx cfg w =
    (let failed = (\<lambda>err found_at. (\<lparr>so_Imported = 0, so_Updated = 0, so_Path = found_at, so_Discovered = None, so_Error = Some err\<rparr>, w)) in
     case validateOutboundURL (net_of U) (rs_lookup R) [''http'', ''https''] (cd_ServerURL cfg) of
       Some uerr \<Rightarrow> failed (RefusingToSync uerr) ''''
     | None \<Rightarrow>
        (case cardDAVHostRoot U (cd_ServerURL cfg) of
           None \<Rightarrow> failed BadServerURL ''''
         | Some hostRoot \<Rightarrow>
            (case collect_cards U R cfg hostRoot of
               Inl (err, found_at) \<Rightarrow> failed err found_at
             | Inr (found_at, cards, found) \<Rightarrow>
                (case sync_cards dx R 0 cards (0, 0) w of
                   ((err, imported, updated), w1) \<Rightarrow>
                     (\<lparr>so_Imported = imported, so_Updated = updated, so_Path = found_at, so_Discovered = found, so_Error = err\<rparr>, w1)))))"

section \<open>The handlers\<close>

record carddav_world =
  cw_dav :: dav_world
  cw_config :: "carddav_config json_file"

record carddav_env =
  ce_dav :: dav_env
  ce_now :: string
  ce_storable :: bool
  ce_text :: "sync_error \<Rightarrow> string"

text \<open>What the status shows: everything but the password.\<close>

record carddav_status =
  cs_ServerURL :: string
  cs_Username :: string
  cs_AddressBookPath :: string
  cs_UpdatedAt :: string
  cs_LastSyncedAt :: string
  cs_LastSyncError :: string
  cs_LastSyncImported :: nat
  cs_LastSyncUpdated :: nat
  cs_Discovered :: "discovered_book list"

datatype carddav_json =
  Unconfigured | ConfigStatus carddav_status | ConfigRemoved | SyncFailedJson string "discovered_book list option" | Synced nat nat string string "discovered_book list option"

type_synonym carddav_http = "carddav_json http_reply"

definition cardDAVClientStatusResponse :: "carddav_config \<Rightarrow> carddav_status" where
  "cardDAVClientStatusResponse p =
    \<lparr>cs_ServerURL = cd_ServerURL p, cs_Username = cd_Username p, cs_AddressBookPath = cd_AddressBookPath p,
     cs_UpdatedAt = cd_UpdatedAt p, cs_LastSyncedAt = cd_LastSyncedAt p, cs_LastSyncError = cd_LastSyncError p,
     cs_LastSyncImported = cd_LastSyncImported p, cs_LastSyncUpdated = cd_LastSyncUpdated p, cs_Discovered = cd_Discovered p\<rparr>"

definition save_config ::
  "url_lib \<Rightarrow> remote_server \<Rightarrow> carddav_env \<Rightarrow> carddav_config \<Rightarrow> carddav_world \<Rightarrow> carddav_http \<times> carddav_world" where
  "save_config U R e payload w =
    (let p = normalizeCardDAVClientPayload payload in
     if cd_ServerURL p = '''' \<or> cd_Username p = '''' \<or> cd_Password p = ''''
     then (HttpError 400 ''serverUrl, username, and password are required'', w)
     else if validateOutboundURL (net_of U) (rs_lookup R) [''http'', ''https''] (cd_ServerURL p) \<noteq> None
     then (HttpError 400 ''serverUrl is not reachable'', w)
     else
       (let p1 = p\<lparr>cd_UpdatedAt := ce_now e\<rparr> in
        case writeCardDAVClientConfigPayload (ce_storable e) p1 (cw_config w) of
          (False, f) \<Rightarrow> (HttpError 500 ''failed to save carddav client configuration'', w\<lparr>cw_config := f\<rparr>)
        | (True, f) \<Rightarrow> (HttpJson 200 (ConfigStatus (cardDAVClientStatusResponse p1)), w\<lparr>cw_config := f\<rparr>)))"

definition handleContactsCardDAVClientConfig ::
  "url_lib \<Rightarrow> remote_server \<Rightarrow> carddav_env \<Rightarrow> bool \<Rightarrow> string \<Rightarrow> carddav_config json_body \<Rightarrow> carddav_world \<Rightarrow>
   carddav_http \<times> carddav_world" where
  "handleContactsCardDAVClientConfig U R e authed meth body w =
    (if \<not> authed then (HttpError 401 ''unauthorized'', w)
     else if meth = ''GET'' then
       (case readCardDAVClientConfigPayload (cw_config w) of
          Inl _ \<Rightarrow> (HttpError 500 ''failed to read carddav client configuration'', w)
        | Inr None \<Rightarrow> (HttpJson 200 Unconfigured, w)
        | Inr (Some p) \<Rightarrow> (HttpJson 200 (ConfigStatus (cardDAVClientStatusResponse p)), w))
     else if meth = ''POST'' then
       (case body of
          Body payload \<Rightarrow> save_config U R e payload w
        | _ \<Rightarrow> (HttpError 400 ''invalid JSON body'', w))
     else if meth = ''DELETE'' then
       (if ce_storable e \<or> cw_config w = Missing then (HttpJson 200 ConfigRemoved, w\<lparr>cw_config := Missing\<rparr>)
        else (HttpError 500 ''failed to remove carddav client configuration'', w))
     else (HttpError 405 ''method not allowed'', w))"

text \<open>The outcome is written to the configuration; a failure to do so is ignored.\<close>

definition synced_config :: "carddav_env \<Rightarrow> sync_outcome \<Rightarrow> carddav_config \<Rightarrow> carddav_config" where
  "synced_config e so p =
    (let p1 = p\<lparr>cd_LastSyncedAt := ce_now e\<rparr>;
         p2 = (case so_Discovered so of None \<Rightarrow> p1 | Some ds \<Rightarrow> p1\<lparr>cd_Discovered := ds\<rparr>)
     in case so_Error so of
          Some err \<Rightarrow> p2\<lparr>cd_LastSyncError := ce_text e err\<rparr>
        | None \<Rightarrow>
           (let p3 = p2\<lparr>cd_LastSyncError := '''', cd_LastSyncImported := so_Imported so, cd_LastSyncUpdated := so_Updated so\<rparr>
            in if so_Path so = '''' then p3 else p3\<lparr>cd_AddressBookPath := so_Path so\<rparr>))"

definition handleContactsCardDAVClientSync ::
  "url_lib \<Rightarrow> remote_server \<Rightarrow> carddav_env \<Rightarrow> bool \<Rightarrow> string \<Rightarrow> carddav_world \<Rightarrow> carddav_http \<times> carddav_world" where
  "handleContactsCardDAVClientSync U R e authed meth w =
    (if meth \<noteq> ''POST'' then (HttpError 405 ''method not allowed'', w)
     else if \<not> authed then (HttpError 401 ''unauthorized'', w)
     else
       (case readCardDAVClientConfigPayload (cw_config w) of
          Inl _ \<Rightarrow> (HttpError 500 ''failed to read carddav client configuration'', w)
        | Inr None \<Rightarrow> (HttpError 400 ''carddav client is not configured'', w)
        | Inr (Some p) \<Rightarrow>
           if \<not> dx_contacts (ce_dav e) then (HttpError 500 ''failed to open contacts store'', w)
           else if \<not> dx_groups (ce_dav e) then (HttpError 500 ''failed to open groups store'', w)
           else
             (case syncCardDAVClient U R (ce_dav e) p (cw_dav w) of
                (so, d) \<Rightarrow>
                  (let p1 = synced_config e so p;
                       w1 = \<lparr>cw_dav = d, cw_config = snd (writeCardDAVClientConfigPayload (ce_storable e) p1 (cw_config w))\<rparr>
                   in (case so_Error so of
                         Some err \<Rightarrow> (HttpJson 502 (SyncFailedJson (ce_text e err) (so_Discovered so)), w1)
                       | None \<Rightarrow> (HttpJson 200 (Synced (so_Imported so) (so_Updated so) (so_Path so) (cd_LastSyncedAt p1) (so_Discovered so)), w1))))))"
section \<open>Where the credentials go\<close>

text \<open>
  Every address the synchronisation asks keeps the scheme and the host of the configured URL: the candidates of
  the discovery and what a path resolves to.
\<close>

lemma discovery_walk_host:
  "discovery_walk u p = (us, e) \<Longrightarrow> list_all (\<lambda>v. u_Scheme v = u_Scheme u \<and> u_Host v = u_Host u \<and> u_Rest v = u_Rest u) us"
proof (induction u p arbitrary: us e rule: discovery_walk.induct)
  case (1 u p)
  then show ?case
    by (auto simp: discovery_walk.simps [of u p] split: option.splits if_splits prod.splits)
qed

lemma discovery_stays_on_host:
  "list_all (\<lambda>v. u_Scheme v = u_Scheme u \<and> u_Host v = u_Host u \<and> u_Rest v = u_Rest u) (discovery_urls u)"
  by (auto simp: discovery_urls_def split: prod.split dest: discovery_walk_host)

lemma discovery_ends_at_root: "u_Path u \<noteq> ''/'' \<Longrightarrow> u_Path (last (discovery_urls u)) = ''/''"
proof -
  have "discovery_walk v p = (us, e) \<Longrightarrow> e = ''/'' \<Longrightarrow> p \<noteq> ''/'' \<Longrightarrow> us \<noteq> [] \<and> u_Path (last us) = ''/''" for v p us e
  proof (induction v p arbitrary: us e rule: discovery_walk.induct)
    case (1 v p)
    then show ?case
      by (auto simp: discovery_walk.simps [of v p] split: option.splits if_splits prod.splits)
  qed
  then show "u_Path u \<noteq> ''/'' \<Longrightarrow> ?thesis" by (auto simp: discovery_urls_def split: prod.split)
qed

text \<open>
  A book that cannot be fetched counts as empty: when none can, the synchronisation succeeds without contacts and
  its caller stores the first book as the one to ask from then on.
\<close>

lemma failed_probes_succeed:
  assumes "cd_AddressBookPath cfg = ''''" "cardDAVDiscoveryCandidates U (cd_ServerURL cfg) = Some cs"
    and "discover_any R 0 cs = Inr (b # bs)" "\<And>k p. isl (fetchAddressBookCards U R k hostRoot p)"
  shows "\<exists>found. collect_cards U R cfg hostRoot = Inr (fst b, [], Some found)"
proof -
  define none where "none = (\<lambda>(i :: nat, p, name). (\<lparr>db_Path = p, db_Name = name, db_ContactCount = 0\<rparr>, [] :: remote_card list))"
  have "(case fetchAddressBookCards U R i hostRoot p of
      Inl _ \<Rightarrow> (\<lparr>db_Path = p, db_Name = name, db_ContactCount = 0\<rparr>, [])
    | Inr cards \<Rightarrow> (\<lparr>db_Path = p, db_Name = name, db_ContactCount = length cards\<rparr>, cards)) = none (i, p, name)" for i p name
    using assms(4) [of i p] by (cases "fetchAddressBookCards U R i hostRoot p") (simp_all add: none_def)
  then have probes: "probe_books U R hostRoot (b # bs) = map none (zip [0..<length (b # bs)] (b # bs))"
    unfolding probe_books_def by (intro map_cong) auto
  have "List.find (\<lambda>(b, cards). cards \<noteq> []) (probe_books U R hostRoot (b # bs)) = None"
    unfolding probes find_None_iff by (auto simp: none_def)
  moreover have "hd (probe_books U R hostRoot (b # bs)) = none (0, b)"
    unfolding probes by (simp add: upt_conv_Cons del: upt_Suc)
  ultimately show ?thesis
    using assms(1-3) by (cases b) (simp add: collect_cards_def chosen_book_def none_def Let_def)
qed

section \<open>Synchronising again\<close>

lemma remoteContactUID_nonempty [simp]: "remoteContactUID L R c \<noteq> ''''"
  by (simp add: remoteContactUID_def Let_def)
text \<open>The contacts file is there and has the UIDs.\<close>

definition file_uids :: "dav_world \<Rightarrow> string set \<Rightarrow> bool" where
  "file_uids w S \<longleftrightarrow> (\<exists>cv. snd (aw_contacts (dw_address w)) = Json cv \<and> S \<subseteq> book_uids cv)"

lemma upsert_body_uids:
  assumes "contact_upsert e c s = (Inr c', s', d)" "ct_UID c \<noteq> ''''"
  shows "d \<and> ct_UID ` set (co_contacts s') = insert (ct_UID c) (ct_UID ` set (co_contacts s))"
proof (cases "List.find (\<lambda>x. ct_UID x = ct_UID c) (co_contacts s)")
  case None
  then show ?thesis using assms by (auto simp: contact_upsert_def Let_def)
next
  case (Some y)
  then have d: "d" "ct_UID c' = ct_UID c"
    "co_contacts s' = replace_first (\<lambda>x. ct_UID x = ct_UID c) (\<lambda>_. c') (co_contacts s)"
    using assms by (auto simp: contact_upsert_def Let_def)
  have y: "ct_UID y = ct_UID c" "y \<in> set (co_contacts s)" using find_SomeD [OF Some] by simp_all
  have "ct_UID ` set (co_contacts s') = ct_UID ` set (co_contacts s)"
    unfolding d(3) by (rule ids_replace_first [OF Some]) (simp add: d(2) y(1))
  moreover have "ct_UID c \<in> ct_UID ` set (co_contacts s)" using y by (metis image_eqI)
  ultimately show ?thesis using d(1) by auto
qed

lemma upsert_adds_uid:
  assumes "contacts_Upsert e c cw = (Inr c', m', f)" "ct_UID c \<noteq> ''''"
  shows "\<exists>cv'. f = Json cv' \<and> ct_UID c \<in> book_uids cv' \<and> (\<forall>cv. snd cw = Json cv \<longrightarrow> book_uids cv \<subseteq> book_uids cv')"
proof -
  obtain m f0 where cw: "cw = (m, f0)" by (rule prod.exhaust)
  define s where "s = (case f0 of Json v \<Rightarrow> book v | _ \<Rightarrow> m)"
  obtain r s' d where b: "contact_upsert e c s = (r, s', d)" by (metis prod_cases3)
  have r: "r = Inr c'" "f = (if d then Json (contacts_file_of s') else f0)"
    using assms(1) b by (cases f0; auto simp: contacts_Upsert_def transact_def LoadJSONFile_def PersistJSONFile_def apply_book cw s_def
        split: if_splits prod.splits)+
  have "d \<and> ct_UID ` set (co_contacts s') = insert (ct_UID c) (ct_UID ` set (co_contacts s))"
    using upsert_body_uids [OF b [unfolded r(1)] assms(2)] .
  then show ?thesis using r(2) by (auto simp: cw s_def book_uids_alt split: json_file.splits)
qed

lemma on_address_get:
  assumes "on_address (on_contacts (contacts_Get uid)) w = (found, w1)"
  shows "snd (aw_contacts (dw_address w1)) = snd (aw_contacts (dw_address w)) \<and>
    found = fst (contacts_Get uid (aw_contacts (dw_address w)))"
proof -
  let ?cw = "aw_contacts (dw_address w)"
  obtain a b where g: "contacts_Get uid ?cw = (a, b)" by (rule prod.exhaust)
  have "snd (snd (contacts_Get uid ?cw)) = snd ?cw"
    by (cases ?cw; cases "snd ?cw") (simp_all add: contacts_Get_def observe_def LoadJSONFile_def)
  then show ?thesis using assms g by (auto simp: on_address_def on_contacts_def)
qed

text \<open>The cards: their UIDs are in the file afterwards, and those that were there before count as updates.\<close>

lemma sync_cards_counts:
  assumes "sync_cards dx R k cs (i, u) w = ((None, i', u'), w')" "S = {} \<or> file_uids w S"
  shows "i \<le> i' \<and> u \<le> u' \<and> i' + u' = i + u + length cs \<and>
    (cs = [] \<and> w' = w \<or> file_uids w' (S \<union> remoteContactUID (dx_lib dx) R ` set cs)) \<and>
    (remoteContactUID (dx_lib dx) R ` set cs \<subseteq> S \<longrightarrow> i' = i)"
  using assms
proof (induction cs arbitrary: k i u w S)
  case (Cons c cs)
  let ?uid = "remoteContactUID (dx_lib dx) R c"
  obtain found w1 where g: "on_address (on_contacts (contacts_Get ?uid)) w = (found, w1)" by (rule prod.exhaust)
  obtain n w2 where n: "contactFromVCardForUser (dx\<lparr>dx_groups := True\<rparr>) k ?uid (rc_Card c) w1 = (n, w2)" by (rule prod.exhaust)
  obtain r w3 where up: "on_address (on_contacts (contacts_Upsert (dx_env dx k) n)) w2 = (r, w3)" by (rule prod.exhaust)
  obtain c' where r: "r = Inr c'" using Cons.prems(1) g n up by (cases r) (simp_all add: Let_def)
  define iu where "iu = (if found \<noteq> None then (i, u + 1) else (i + 1, u))"
  have rest: "sync_cards dx R (Suc k) cs (fst iu, snd iu) w3 = ((None, i', u'), w')"
    using Cons.prems(1) g n up r by (simp add: Let_def iu_def split: if_splits)
  have n1: "aw_contacts (dw_address w2) = aw_contacts (dw_address w1)" "ct_UID n = ?uid" using card_contacts [OF n] by simp_all
  have g1: "snd (aw_contacts (dw_address w1)) = snd (aw_contacts (dw_address w))"
    "found = fst (contacts_Get ?uid (aw_contacts (dw_address w)))"
    using on_address_get [OF g] by simp_all
  obtain m' f where u3: "contacts_Upsert (dx_env dx k) n (aw_contacts (dw_address w2)) = (Inr c', m', f)" "aw_contacts (dw_address w3) = (m', f)"
    using up r by (auto simp: on_address_def on_contacts_def split: prod.splits)
  obtain cv' where cv': "f = Json cv'" "?uid \<in> book_uids cv'"
    "\<forall>cv. snd (aw_contacts (dw_address w2)) = Json cv \<longrightarrow> book_uids cv \<subseteq> book_uids cv'"
    using upsert_adds_uid [OF u3(1)] n1(2) by auto
  have "file_uids w3 (insert ?uid S)"
    using Cons.prems(2) cv' u3(2) g1(1) n1(1) by (auto simp: file_uids_def)
  then have IH: "fst iu \<le> i'" "snd iu \<le> u'" "i' + u' = fst iu + snd iu + length cs"
    "cs = [] \<and> w' = w3 \<or> file_uids w' (insert ?uid S \<union> remoteContactUID (dx_lib dx) R ` set cs)"
    "remoteContactUID (dx_lib dx) R ` set cs \<subseteq> insert ?uid S \<longrightarrow> i' = fst iu"
    using Cons.IH [OF rest, of "insert ?uid S"] by blast+
  have "file_uids w' (insert ?uid S \<union> remoteContactUID (dx_lib dx) R ` set cs)"
    using IH(4) \<open>file_uids w3 (insert ?uid S)\<close> by auto
  then have "file_uids w' (S \<union> remoteContactUID (dx_lib dx) R ` set (c # cs))" by (simp only: list.set image_insert Un_insert_left Un_insert_right)
  moreover have "found \<noteq> None" if old: "?uid \<in> S"
  proof -
    obtain cv where cv: "snd (aw_contacts (dw_address w)) = Json cv" "S \<subseteq> book_uids cv"
      using Cons.prems(2) old by (auto simp: file_uids_def)
    then obtain x where "x \<in> set (co_contacts (book cv))" "ct_UID x = ?uid"
      using old unfolding book_uids_alt by (metis imageE subsetD)
    then show ?thesis
      by (auto simp: g1(2) get_through_world [OF cv(1)] contact_get_def find_None_iff)
  qed
  moreover have "remoteContactUID (dx_lib dx) R ` set cs \<subseteq> insert ?uid S"
    if "remoteContactUID (dx_lib dx) R ` set (c # cs) \<subseteq> S" using that by auto
  ultimately show ?case using IH(1-3,5) by (auto simp: iu_def split: if_splits)
qed simp

lemma sync_outcome_cards:
  assumes "syncCardDAVClient U R dx cfg w = (so, w')" "so_Error so = None"
  shows "\<exists>hostRoot found_at cards found. cardDAVHostRoot U (cd_ServerURL cfg) = Some hostRoot \<and>
    collect_cards U R cfg hostRoot = Inr (found_at, cards, found) \<and>
    sync_cards dx R 0 cards (0, 0) w = ((None, so_Imported so, so_Updated so), w')"
  using assms by (auto simp: syncCardDAVClient_def Let_def split: option.splits sum.splits prod.splits)

text \<open>
  C19: a second synchronisation with the same answers of the server adds no contact: every card that the first one
  imported or updated is found again under its stable UID and updated, and both have gone through the same number
  of cards. The entropy, the clock and the keys may differ.
\<close>

theorem resync_updates_all:
  assumes "syncCardDAVClient U R dx cfg w = (so, w1)" "so_Error so = None"
    and "syncCardDAVClient U R dx' cfg w1 = (so', w2)" "so_Error so' = None" "dx_lib dx' = dx_lib dx"
  shows "so_Imported so' = 0 \<and> so_Updated so' = so_Imported so + so_Updated so"
proof -
  obtain h p cards fd where a: "cardDAVHostRoot U (cd_ServerURL cfg) = Some h" "collect_cards U R cfg h = Inr (p, cards, fd)"
    "sync_cards dx R 0 cards (0, 0) w = ((None, so_Imported so, so_Updated so), w1)"
    using sync_outcome_cards [OF assms(1,2)] by blast
  have b: "sync_cards dx' R 0 cards (0, 0) w1 = ((None, so_Imported so', so_Updated so'), w2)"
    using sync_outcome_cards [OF assms(3,4)] a(1,2) by auto
  let ?S = "remoteContactUID (dx_lib dx) R ` set cards"
  have one: "so_Imported so + so_Updated so = length cards" "cards = [] \<or> file_uids w1 ?S"
    using sync_cards_counts [OF a(3), of "{}"] by auto
  then have "?S = {} \<or> file_uids w1 ?S" by auto
  from sync_cards_counts [OF b this] show ?thesis using one(1) assms(5) by simp
qed

section \<open>Worked examples\<close>

definition example_urls :: url_lib where
  "example_urls = \<lparr>ul_Parse = (\<lambda>s. Some \<lparr>u_Scheme = ''https'', u_Host = ''a'', u_Path = s, u_Rest = ''''\<rparr>),
     ul_String = (\<lambda>u. u_Scheme u @ ''://'' @ u_Host u @ u_Path u), ul_Hostname = u_Host,
     ul_ResolveReference = (\<lambda>base ref. ref), ul_ParseIP = (\<lambda>_. None)\<rparr>"

text \<open>Two cards with one UID and a response that holds none.\<close>

definition example_server :: remote_server where
  "example_server = \<lparr>rs_report = (\<lambda>_ _. RemoteReply 207 ''<>''),
     rs_xml = (\<lambda>_. Some [\<lparr>dr_Href = ''/1'', dr_AddressData = [''card'']\<rparr>, \<lparr>dr_Href = ''/2'', dr_AddressData = [''  '']\<rparr>,
       \<lparr>dr_Href = ''/3'', dr_AddressData = ['''', ''card'']\<rparr>]),
     rs_vcard = (\<lambda>_. Some bea_card), rs_client = (\<lambda>_. True), rs_principal = (\<lambda>_. None), rs_home_set = (\<lambda>_ _. None),
     rs_books = (\<lambda>_ _. None), rs_sha1 = rev, rs_lookup = (\<lambda>_. Some [[93, 184, 216, 34]])\<rparr>"

definition example_config :: carddav_config where
  "example_config = \<lparr>cd_ServerURL = ''s'', cd_Username = ''u'', cd_Password = ''p'', cd_AddressBookPath = ''/book'', cd_UpdatedAt = '''',
     cd_LastSyncedAt = '''', cd_LastSyncError = '''', cd_LastSyncImported = 0, cd_LastSyncUpdated = 0, cd_Discovered = []\<rparr>"

definition example_sync :: "dav_world \<Rightarrow> sync_outcome \<times> dav_world" where
  "example_sync = syncCardDAVClient example_urls example_server dav_example example_config"

lemma example_syncs:
  "(case example_sync dav_start of (so, w1) \<Rightarrow> so_Error so = None \<and> so_Imported so = 1 \<and> so_Updated so = 1 \<and>
      so_Error (fst (example_sync w1)) = None)"
  by code_simp

theorem resync_updates_all_witness:
  "(case example_sync dav_start of (so, w1) \<Rightarrow> (case example_sync w1 of (so', _) \<Rightarrow>
      so_Error so = None \<and> so_Error so' = None \<and> so_Imported so = 1 \<and> so_Imported so' = 0 \<and> so_Updated so' = 2))"
proof -
  obtain so w1 where a: "example_sync dav_start = (so, w1)" by (rule prod.exhaust)
  obtain so' w2 where b: "example_sync w1 = (so', w2)" by (rule prod.exhaust)
  have e: "so_Error so = None" "so_Imported so = 1" "so_Updated so = 1" "so_Error so' = None" using example_syncs by (simp_all add: a b)
  from resync_updates_all [OF a [unfolded example_sync_def] e(1) b [unfolded example_sync_def] e(4) refl]
  show ?thesis using e by (simp add: a b)
qed

end
