(* ===== verification/Sessions.thy ===== *)
theory Sessions
  imports Users_Store Mfa Throttles State_Store Http_Model Push_Dispatch
begin

text \<open>
  Who a request comes from (backend/internal/api: the sessions and the login of server.go, mfa_handlers.go,
  push_mfa_handlers.go, device_auth.go, the device index of server_userscope.go, server_users.go): passwords and
  second factors, session cookies with their CSRF tokens, paired devices, and the management of the accounts. A
  request reads the clock once. What the operating system and the libraries give is a record of parameters.
\<close>

section \<open>The state of the server\<close>

record session =
  ss_UserID :: string
  ss_ExpiresAt :: int
  ss_CSRFToken :: string

record auth_context =
  ac_UserID :: string
  ac_Username :: string
  ac_Role :: string
  ac_MustChangePassword :: bool

text \<open>\<open>as_pushes\<close> are the goroutines that were started to push a challenge: the user and the challenge.\<close>

record auth_world =
  as_users :: users_disk
  as_sessions :: "string \<rightharpoonup> session"
  as_challenges :: challenges
  as_login :: lockout
  as_mfa :: lockout
  as_device :: lockout
  as_cooldown :: last_sent
  as_stores :: "string \<Rightarrow> state_world"
  as_deviceIndex :: "string \<rightharpoonup> string"
  as_pushes :: "(string \<times> string) list"
  as_subIndex :: "string \<rightharpoonup> string"
  as_nonces :: "(string \<times> int) list"

text \<open>
  Per request: the clock and the writes, the reads of the random source by their use, scrypt, the captcha provider if
  there is one, the sealed secrets, the arithmetic of TOTP, the directories of the users and which state stores open.
\<close>

record auth_env =
  ae_env :: go_env
  ae_token :: "byte list option"
  ae_csrf :: "byte list option"
  ae_challenge :: "byte list option"
  ae_secret :: "byte list option"
  ae_salt :: "byte list option"
  ae_codes :: "nat \<Rightarrow> byte list option"
  ae_code_salts :: "nat \<Rightarrow> byte list option"
  ae_kdf :: scrypt
  ae_captcha :: "(string \<Rightarrow> string \<Rightarrow> string + bool) option"
  ae_seal :: "string \<Rightarrow> string option"
  ae_unseal :: "string \<Rightarrow> string option"
  ae_decode :: "string \<Rightarrow> byte list option"
  ae_mac :: "byte list \<Rightarrow> byte list \<Rightarrow> byte list"
  ae_trust_proxy :: bool
  ae_split :: "string \<Rightarrow> (string \<times> string) option"
  ae_dirs :: "string list option"
  ae_open :: "string \<Rightarrow> bool"

abbreviation now_of :: "auth_env \<Rightarrow> int" where "now_of e \<equiv> env_now (ae_env e)"

text \<open>What the handlers read of a request besides its body.\<close>

record http_request =
  rq_Method :: string
  rq_Path :: string
  rq_Session :: "string option"
  rq_CSRF :: string
  rq_DeviceID :: string
  rq_DeviceSecret :: string
  rq_ForwardedFor :: string
  rq_ForwardedProto :: string
  rq_RemoteAddr :: string
  rq_TLS :: bool
  rq_Host :: string
  rq_ForwardedHost :: string
  rq_UserAgent :: string
  rq_After :: string

record device_status =
  ds_DeviceID :: string
  ds_DeviceName :: string
  ds_Platform :: string
  ds_Approver :: bool

record pairing_info =
  pi_SubscriberID :: string
  pi_ServerBaseURL :: string
  pi_RegisterEndpoint :: string
  pi_PullEndpoint :: string
  pi_DeliveryMode :: string
  pi_TTLSeconds :: int
  pi_Configured :: bool
  pi_Token :: "(string \<times> string) option"

record registration_info =
  ri_DeviceID :: string
  ri_DeviceSecret :: string
  ri_Devices :: nat
  ri_DeliveryMode :: string
  ri_PullEndpoint :: string
  ri_Transport :: string

record desktop_info =
  di_PairingCode :: string
  di_TTLSeconds :: int
  di_RateLimit :: int
  di_ServerBaseURL :: string
  di_RegisterEndpoint :: string

text \<open>The values of the JSON answers; a login that succeeds also sets the two cookies.\<close>

datatype auth_json =
  LoggedIn bool string string bool
| MfaRequired string "string list"
| TooManyAttempts int
| AuthProblem string
| PasswordChangeRequired
| AuthOk
| LoggedOut bool
| CaptchaConfig string string
| CsrfToken string
| NotAuthenticated
| Authenticated "user option" string
| MfaStatus bool nat bool "device_status list"
| MfaSecret string string
| RecoveryCodes "string list"
| PushEnabled bool
| DeviceApprover string bool
| PushStatusJson string
| AlreadyResolved string
| PushResolved string
| UserList "public_user list"
| UserJson public_user
| PairingInfo pairing_info
| DeviceRegistered registration_info
| NativeDevices "native_device list"
| DevicesRemoved nat nat
| DeliveryMode string
| PulledNotifications string int "pull_notification list"
| DesktopPairing desktop_info
| VapidKey string
| SubscriptionCount "bool option" nat

type_synonym auth_http = "auth_json http_reply"

section \<open>Requests\<close>

definition last_part :: "string \<Rightarrow> string" where
  "last_part s = last (split_char CHR '','' s)"

definition clientIP :: "auth_env \<Rightarrow> http_request \<Rightarrow> string" where
  "clientIP e rq =
    (let fwd = (if ae_trust_proxy e \<and> trim_space (rq_ForwardedFor rq) \<noteq> '''' then trim_space (last_part (rq_ForwardedFor rq)) else '''')
     in if fwd \<noteq> '''' then fwd
        else (case ae_split e (rq_RemoteAddr rq) of None \<Rightarrow> trim_space (rq_RemoteAddr rq) | Some (host, port) \<Rightarrow> host))"

definition isRequestSecure :: "auth_env \<Rightarrow> http_request \<Rightarrow> bool" where
  "isRequestSecure e rq =
    (let proto = (if ae_trust_proxy e then trim_space (hd (split_char CHR '','' (rq_ForwardedProto rq))) else '''')
     in if proto \<noteq> '''' then equal_fold proto ''https'' else rq_TLS rq)"

text \<open>The seconds of a Retry-After header.\<close>

definition retry_seconds :: "int \<Rightarrow> int" where
  "retry_seconds retryAfter = retryAfter div second + 1"

definition randomToken :: "byte list option \<Rightarrow> string option" where
  "randomToken rnd = map_option hex_bytes rnd"

section \<open>Sessions\<close>

abbreviation session_life :: int where "session_life \<equiv> 24 * hour"

text \<open>The cookies, or None when the random source fails.\<close>

definition startSession ::
  "auth_env \<Rightarrow> http_request \<Rightarrow> string \<Rightarrow> auth_world \<Rightarrow> (string \<times> string) option \<times> auth_world" where
  "startSession e rq userID w =
    (case randomToken (ae_token e) of
       None \<Rightarrow> (None, w)
     | Some token \<Rightarrow>
        (case randomToken (ae_csrf e) of
           None \<Rightarrow> (None, w)
         | Some csrf \<Rightarrow>
            (Some (token, csrf),
             w\<lparr>as_sessions := (as_sessions w)(token \<mapsto>
                 \<lparr>ss_UserID = userID, ss_ExpiresAt = now_of e + session_life, ss_CSRFToken = csrf\<rparr>)\<rparr>)))"

text \<open>The end of every login.\<close>

definition finish_login :: "auth_env \<Rightarrow> http_request \<Rightarrow> user \<Rightarrow> auth_world \<Rightarrow> auth_http \<times> auth_world" where
  "finish_login e rq u w =
    (case startSession e rq (u_ID u) w of
       (None, w1) \<Rightarrow> (HttpError 500 ''session creation failed'', w1)
     | (Some (token, csrf), w1) \<Rightarrow> (HttpJson 200 (LoggedIn (u_MustChangePassword u) token csrf (isRequestSecure e rq)), w1))"

definition drop_session :: "string \<Rightarrow> auth_world \<Rightarrow> auth_world" where
  "drop_session token w = w\<lparr>as_sessions := (as_sessions w)(token := None)\<rparr>"

text \<open>The session is looked up and extended, the account is read afresh.\<close>

definition currentUser :: "auth_env \<Rightarrow> http_request \<Rightarrow> auth_world \<Rightarrow> auth_context option \<times> auth_world" where
  "currentUser e rq w =
    (case rq_Session rq of
       None \<Rightarrow> (None, w)
     | Some token \<Rightarrow>
        (case as_sessions w token of
           None \<Rightarrow> (None, w)
         | Some s \<Rightarrow>
            if ss_ExpiresAt s < now_of e then (None, drop_session token w)
            else
              (let w1 = w\<lparr>as_sessions := (as_sessions w)(token \<mapsto> s\<lparr>ss_ExpiresAt := now_of e + session_life\<rparr>)\<rparr> in
               case users_Get (ss_UserID s) (as_users w1) of
                 Inl _ \<Rightarrow> (None, drop_session token w1)
               | Inr u \<Rightarrow>
                   if \<not> u_Active u then (None, drop_session token w1)
                   else (Some \<lparr>ac_UserID = u_ID u, ac_Username = u_Username u, ac_Role = u_Role u,
                               ac_MustChangePassword = u_MustChangePassword u\<rparr>, w1))))"

definition csrfCheckOK :: "http_request \<Rightarrow> auth_world \<Rightarrow> bool" where
  "csrfCheckOK rq w \<longleftrightarrow>
    rq_Method rq \<in> {''GET'', ''HEAD'', ''OPTIONS''} \<or>
    (case rq_Session rq of
       None \<Rightarrow> True
     | Some token \<Rightarrow>
        (case as_sessions w token of
           None \<Rightarrow> True
         | Some s \<Rightarrow> rq_CSRF rq \<noteq> '''' \<and> rq_CSRF rq = ss_CSRFToken s))"

definition mustChangePasswordExemptPaths :: "string set" where
  "mustChangePasswordExemptPaths = {''/api/auth/password'', ''/api/auth/logout''}"

text \<open>The checks that both wrappers share once they know who is calling.\<close>

definition admit ::
  "http_request \<Rightarrow> (auth_context \<Rightarrow> auth_world \<Rightarrow> auth_http \<times> auth_world) \<Rightarrow> auth_context \<Rightarrow> auth_world \<Rightarrow> auth_http \<times> auth_world" where
  "admit rq h ac w =
    (if \<not> csrfCheckOK rq w then (HttpJson 403 (AuthProblem ''missing or invalid csrf token''), w)
     else if ac_MustChangePassword ac \<and> rq_Path rq \<notin> mustChangePasswordExemptPaths then (HttpJson 403 PasswordChangeRequired, w)
     else h ac w)"

definition withAuth ::
  "auth_env \<Rightarrow> http_request \<Rightarrow> (auth_context \<Rightarrow> auth_world \<Rightarrow> auth_http \<times> auth_world) \<Rightarrow> auth_world \<Rightarrow> auth_http \<times> auth_world" where
  "withAuth e rq h w =
    (case currentUser e rq w of
       (None, w1) \<Rightarrow> (HttpJson 401 (AuthProblem ''unauthorized''), w1)
     | (Some ac, w1) \<Rightarrow> admit rq h ac w1)"

definition withAdmin ::
  "auth_env \<Rightarrow> http_request \<Rightarrow> (auth_context \<Rightarrow> auth_world \<Rightarrow> auth_http \<times> auth_world) \<Rightarrow> auth_world \<Rightarrow> auth_http \<times> auth_world" where
  "withAdmin e rq h =
    withAuth e rq (\<lambda>ac w. if ac_Role ac \<noteq> RoleAdmin then (HttpJson 403 (AuthProblem ''admin access required''), w) else h ac w)"

definition revokeUserSessions :: "string \<Rightarrow> string \<Rightarrow> auth_world \<Rightarrow> auth_world" where
  "revokeUserSessions userID keepToken w =
    w\<lparr>as_sessions := (\<lambda>t. case as_sessions w t of
        None \<Rightarrow> None
      | Some s \<Rightarrow> if ss_UserID s = userID \<and> t \<noteq> keepToken then None else Some s)\<rparr>"

definition currentSessionToken :: "http_request \<Rightarrow> string" where
  "currentSessionToken rq = (case rq_Session rq of None \<Rightarrow> '''' | Some t \<Rightarrow> t)"

definition handleLogout :: "auth_env \<Rightarrow> http_request \<Rightarrow> auth_world \<Rightarrow> auth_http \<times> auth_world" where
  "handleLogout e rq w =
    (HttpJson 200 (LoggedOut (isRequestSecure e rq)),
     case rq_Session rq of None \<Rightarrow> w | Some token \<Rightarrow> drop_session token w)"

definition handleCSRFToken :: "auth_env \<Rightarrow> http_request \<Rightarrow> auth_world \<Rightarrow> auth_http \<times> auth_world" where
  "handleCSRFToken e rq w =
    (case currentUser e rq w of
       (None, w1) \<Rightarrow> (HttpJson 401 (AuthProblem ''unauthorized''), w1)
     | (Some _, w1) \<Rightarrow>
        (case rq_Session rq of
           None \<Rightarrow> (HttpJson 401 (AuthProblem ''unauthorized''), w1)
         | Some token \<Rightarrow>
            (case as_sessions w1 token of
               None \<Rightarrow> (HttpJson 401 (AuthProblem ''unauthorized''), w1)
             | Some s \<Rightarrow> (HttpJson 200 (CsrfToken (ss_CSRFToken s)), w1))))"

text \<open>A change to the state store of a user, when it can be opened.\<close>

definition on_state :: "(state_world \<Rightarrow> 'r \<times> state_world) \<Rightarrow> string \<Rightarrow> auth_world \<Rightarrow> 'r \<times> auth_world" where
  "on_state f userID w = (case f (as_stores w userID) of (r, s) \<Rightarrow> (r, w\<lparr>as_stores := (as_stores w)(userID := s)\<rparr>))"

definition handleMe :: "auth_env \<Rightarrow> http_request \<Rightarrow> auth_world \<Rightarrow> auth_http \<times> auth_world" where
  "handleMe e rq w =
    (case currentUser e rq w of
       (None, w1) \<Rightarrow> (HttpJson 200 NotAuthenticated, w1)
     | (Some ac, w1) \<Rightarrow>
        (let (sub, w2) =
           (if ae_open e (ac_UserID ac) then
              (case on_state (GetOrCreateSubscriberID (ae_env e)) (ac_UserID ac) w1 of ((i, _), w2) \<Rightarrow> (i, w2))
            else ('''', w1))
         in (HttpJson 200 (Authenticated
               (case users_Get (ac_UserID ac) (as_users w2) of Inl _ \<Rightarrow> None | Inr u \<Rightarrow> Some u) sub), w2)))"

section \<open>Paired devices\<close>

text \<open>The index from the device IDs to their users, from the state files of all users; a file that does not decode is left out.\<close>

definition index_user :: "auth_world \<Rightarrow> string \<Rightarrow> (string \<rightharpoonup> string) \<Rightarrow> string \<rightharpoonup> string" where
  "index_user w d m =
    (case sw_state (as_stores w d) of
       Json sf \<Rightarrow> fold (\<lambda>x m. let i = trim_space (nd_DeviceID x) in if i = '''' then m else m(i \<mapsto> d)) (sf_NativeDevices sf) m
     | _ \<Rightarrow> m)"

definition rescanDeviceIndex :: "auth_env \<Rightarrow> auth_world \<Rightarrow> auth_world" where
  "rescanDeviceIndex e w =
    (case ae_dirs e of None \<Rightarrow> w | Some ds \<Rightarrow> w\<lparr>as_deviceIndex := fold (index_user w) ds Map.empty\<rparr>)"

definition lookupUserByDevice :: "auth_env \<Rightarrow> string \<Rightarrow> auth_world \<Rightarrow> string option \<times> auth_world" where
  "lookupUserByDevice e deviceID w =
    (let i = trim_space deviceID in
     if i = '''' then (None, w)
     else
       (case as_deviceIndex w i of
          Some u \<Rightarrow> (Some u, w)
        | None \<Rightarrow> (let w1 = rescanDeviceIndex e w in (as_deviceIndex w1 i, w1))))"

definition reserveDeviceID :: "auth_env \<Rightarrow> string \<Rightarrow> string \<Rightarrow> auth_world \<Rightarrow> bool \<times> auth_world" where
  "reserveDeviceID e ownerID deviceID w =
    (let i = trim_space deviceID in
     if i = '''' then (True, w)
     else
       (let (_, w1) = lookupUserByDevice e i w in
        if as_deviceIndex w1 i \<notin> {None, Some ownerID} then (False, w1)
        else (True, w1\<lparr>as_deviceIndex := (as_deviceIndex w1)(i \<mapsto> ownerID)\<rparr>)))"

text \<open>Right: the user and the device; left: the time the device is locked out for, or 0.\<close>

definition deviceAuthFromRequest ::
  "auth_env \<Rightarrow> http_request \<Rightarrow> auth_world \<Rightarrow> (int + string \<times> native_device) \<times> auth_world" where
  "deviceAuthFromRequest e rq w =
    (let i = trim_space (rq_DeviceID rq); now = now_of e;
         strike = (\<lambda>w. (Inl 0, w\<lparr>as_device := lockout_recordFailure (as_device w) i now\<rparr>))
     in if i = '''' \<or> rq_DeviceSecret rq = '''' then (Inl 0, w)
        else if \<not> fst (lockout_allowed (as_device w) i now) then (Inl (snd (lockout_allowed (as_device w) i now)), w)
        else
          (case lookupUserByDevice e i w of
             (None, w1) \<Rightarrow> strike w1
           | (Some ownerID, w1) \<Rightarrow>
              if \<not> ae_open e ownerID then strike w1
              else
                (case on_state (GetNativeDevice i) ownerID w1 of
                   (None, w2) \<Rightarrow> strike w2
                 | (Some dev, w2) \<Rightarrow>
                    if \<not> VerifySecretHash (ae_kdf e) (nd_SecretHash dev) (rq_DeviceSecret rq) then strike w2
                    else
                      (case users_Get ownerID (as_users w2) of
                         Inl _ \<Rightarrow> (Inl 0, w2)
                       | Inr u \<Rightarrow>
                          if \<not> u_Active u then (Inl 0, w2)
                          else (Inr (ownerID, dev), w2\<lparr>as_device := lockout_recordSuccess (as_device w2) i\<rparr>)))))"

definition writeDeviceAuthFailure :: "int \<Rightarrow> auth_http" where
  "writeDeviceAuthFailure retryAfter =
    (if retryAfter > 0 then HttpError 429 ''too many failed attempts, try again later''
     else HttpError 401 ''invalid device credentials'')"

text \<open>The caller of a mail request: a session or a device. Left: locked out for that time, or not authenticated.\<close>

definition resolveMailAuthContext ::
  "auth_env \<Rightarrow> http_request \<Rightarrow> auth_world \<Rightarrow> (int + auth_context) \<times> auth_world" where
  "resolveMailAuthContext e rq w =
    (case currentUser e rq w of
       (Some ac, w1) \<Rightarrow> (Inr ac, w1)
     | (None, w1) \<Rightarrow>
        (case deviceAuthFromRequest e rq w1 of
           (Inl retryAfter, w2) \<Rightarrow> (Inl retryAfter, w2)
         | (Inr (userID, _), w2) \<Rightarrow>
             (Inr \<lparr>ac_UserID = userID, ac_Username = '''', ac_Role = '''', ac_MustChangePassword = False\<rparr>, w2)))"

definition withMailAuth ::
  "auth_env \<Rightarrow> http_request \<Rightarrow> (auth_context \<Rightarrow> auth_world \<Rightarrow> auth_http \<times> auth_world) \<Rightarrow> auth_world \<Rightarrow> auth_http \<times> auth_world" where
  "withMailAuth e rq h w =
    (case resolveMailAuthContext e rq w of
       (Inl retryAfter, w1) \<Rightarrow>
         (if retryAfter > 0 then HttpJson 429 (AuthProblem ''too many failed attempts, try again later'')
          else HttpJson 401 (AuthProblem ''unauthorized''), w1)
     | (Inr ac, w1) \<Rightarrow> admit rq h ac w1)"

text \<open>Each device of the user is removed; one that cannot be removed stays in the index too.\<close>

fun revoke_devices :: "auth_env \<Rightarrow> string \<Rightarrow> native_device list \<Rightarrow> auth_world \<Rightarrow> auth_world" where
  "revoke_devices e userID [] w = w"
| "revoke_devices e userID (d # ds) w =
    (case on_state (RemoveNativeDevice (ae_env e) (nd_DeviceID d)) userID w of
       ((_, Some err), w1) \<Rightarrow> revoke_devices e userID ds w1
     | ((_, None), w1) \<Rightarrow>
         revoke_devices e userID ds (w1\<lparr>as_deviceIndex := (as_deviceIndex w1)(nd_DeviceID d := None)\<rparr>))"

definition revokeUserDevices :: "auth_env \<Rightarrow> string \<Rightarrow> auth_world \<Rightarrow> auth_world" where
  "revokeUserDevices e userID w =
    (if \<not> ae_open e userID then w
     else (case on_state ListNativeDevices userID w of (ds, w1) \<Rightarrow> revoke_devices e userID ds w1))"

section \<open>The password\<close>

record login_body =
  lb_Username :: string
  lb_Password :: string
  lb_CaptchaToken :: string

text \<open>The answer that stops a login before the password is looked at.\<close>

definition captcha_refusal :: "auth_env \<Rightarrow> string \<Rightarrow> string \<Rightarrow> auth_http option" where
  "captcha_refusal e token ip =
    (case ae_captcha e of
       None \<Rightarrow> None
     | Some verify \<Rightarrow>
        (case verify token ip of
           Inl _ \<Rightarrow> Some (HttpError 503 ''captcha verification unavailable'')
         | Inr ok \<Rightarrow> if ok then None else Some (HttpError 401 ''captcha verification failed'')))"

text \<open>The challenge of an account with a second factor; at most one push in five minutes.\<close>

definition start_challenge :: "auth_env \<Rightarrow> user \<Rightarrow> auth_world \<Rightarrow> auth_http \<times> auth_world" where
  "start_challenge e u w =
    (case mfa_Create (ae_challenge e) (now_of e) (u_ID u) (as_challenges w) of
       (Inl _, m) \<Rightarrow> (HttpError 500 ''session creation failed'', w\<lparr>as_challenges := m\<rparr>)
     | (Inr ch, m) \<Rightarrow>
        (let w1 = w\<lparr>as_challenges := m\<rparr>;
             totp = (if u_TOTPEnabled u then [''totp''] else [])
         in if u_PushMFAEnabled u then
              (case mfa_push_tryConsume (as_cooldown w1) (u_ID u) (now_of e) of
                 ((allowed, _), cd) \<Rightarrow>
                   (HttpJson 200 (MfaRequired (ch_ID ch) (totp @ [''push''])),
                    w1\<lparr>as_cooldown := cd, as_pushes := as_pushes w1 @ (if allowed then [(u_ID u, ch_ID ch)] else [])\<rparr>))
            else (HttpJson 200 (MfaRequired (ch_ID ch) totp), w1)))"

definition handleLogin ::
  "auth_env \<Rightarrow> http_request \<Rightarrow> login_body json_body \<Rightarrow> auth_world \<Rightarrow> auth_http \<times> auth_world" where
  "handleLogin e rq body = with_body body (\<lambda>b w.
    (let ip = clientIP e rq; lockoutKey = lb_Username b @ [CHR 0x00] @ ip; now = now_of e;
         refuse = (\<lambda>w. (HttpError 401 ''invalid credentials'', w\<lparr>as_login := lockout_recordFailure (as_login w) lockoutKey now\<rparr>))
     in if \<not> fst (lockout_allowed (as_login w) lockoutKey now)
        then (HttpJson 429 (TooManyAttempts (retry_seconds (snd (lockout_allowed (as_login w) lockoutKey now)))), w)
        else
          (case captcha_refusal e (lb_CaptchaToken b) ip of
             Some reply \<Rightarrow> (reply, w)
           | None \<Rightarrow>
              (case users_GetByUsername (lb_Username b) (as_users w) of
                 Inl _ \<Rightarrow> refuse w
               | Inr u \<Rightarrow>
                  if \<not> u_Active u then refuse w
                  else if \<not> VerifyPassword (ae_kdf e) u (lb_Password b) then refuse w
                  else
                    (let w1 = w\<lparr>as_login := lockout_recordSuccess (as_login w) lockoutKey\<rparr> in
                     if u_TOTPEnabled u \<or> u_PushMFAEnabled u then start_challenge e u w1
                     else finish_login e rq u w1)))))"

definition handleCaptchaConfig :: "string \<Rightarrow> string \<Rightarrow> auth_http" where
  "handleCaptchaConfig provider siteKey = HttpJson 200 (CaptchaConfig provider siteKey)"

record password_body =
  pb_OldPassword :: string
  pb_NewPassword :: string

definition handleChangePassword ::
  "auth_env \<Rightarrow> http_request \<Rightarrow> password_body json_body \<Rightarrow> auth_context \<Rightarrow> auth_world \<Rightarrow> auth_http \<times> auth_world" where
  "handleChangePassword e rq body ac = with_body body (\<lambda>b w.
    if trim_space (pb_NewPassword b) = '''' then (HttpError 400 ''new password required'', w)
    else
      (case users_Get (ac_UserID ac) (as_users w) of
         Inl _ \<Rightarrow> (HttpError 500 ''user unavailable'', w)
       | Inr u \<Rightarrow>
          if \<not> u_MustChangePassword u \<and> \<not> VerifyPassword (ae_kdf e) u (pb_OldPassword b)
          then (HttpError 401 ''invalid credentials'', w)
          else if u_MustChangePassword u \<and> trim_space (pb_OldPassword b) \<noteq> '''' \<and> \<not> VerifyPassword (ae_kdf e) u (pb_OldPassword b)
          then (HttpError 401 ''invalid credentials'', w)
          else
            (case SetPassword (ae_kdf e) (ae_env e) (ae_salt e) (u_ID u) (pb_NewPassword b) False (as_users w) of
               (Inl _, d) \<Rightarrow> (HttpError 500 ''failed to update password'', w\<lparr>as_users := d\<rparr>)
             | (Inr _, d) \<Rightarrow>
                (HttpJson 200 AuthOk, revokeUserSessions (u_ID u) (currentSessionToken rq) (w\<lparr>as_users := d\<rparr>)))))"

section \<open>The second factor\<close>

record code_body =
  cb_ChallengeID :: string
  cb_Code :: string

definition with_mfa :: "(challenges \<Rightarrow> 'r \<times> challenges) \<Rightarrow> auth_world \<Rightarrow> 'r \<times> auth_world" where
  "with_mfa f w = (case f (as_challenges w) of (r, m) \<Rightarrow> (r, w\<lparr>as_challenges := m\<rparr>))"

abbreviation drop_challenge :: "string \<Rightarrow> auth_world \<Rightarrow> auth_world" where
  "drop_challenge i w \<equiv> w\<lparr>as_challenges := mfa_Delete i (as_challenges w)\<rparr>"

abbreviation mfa_strike :: "auth_env \<Rightarrow> string \<Rightarrow> auth_world \<Rightarrow> auth_world" where
  "mfa_strike e userID w \<equiv> w\<lparr>as_mfa := lockout_recordFailure (as_mfa w) userID (now_of e)\<rparr>"

abbreviation mfa_clear :: "string \<Rightarrow> auth_world \<Rightarrow> auth_world" where
  "mfa_clear userID w \<equiv> w\<lparr>as_mfa := lockout_recordSuccess (as_mfa w) userID\<rparr>"

definition bad_challenge :: auth_http where
  "bad_challenge = HttpError 401 ''invalid or expired challenge''"

text \<open>The challenge and its account, for the two endpoints that take a code.\<close>

definition open_challenge ::
  "auth_env \<Rightarrow> string \<Rightarrow> (user \<Rightarrow> bool) \<Rightarrow> (challenge \<Rightarrow> user \<Rightarrow> auth_world \<Rightarrow> auth_http \<times> auth_world) \<Rightarrow> auth_world \<Rightarrow>
   auth_http \<times> auth_world" where
  "open_challenge e i usable k w =
    (case with_mfa (mfa_Get (now_of e) (trim_space i)) w of
       (None, w1) \<Rightarrow> (bad_challenge, w1)
     | (Some ch, w1) \<Rightarrow>
        if \<not> fst (lockout_allowed (as_mfa w1) (ch_UserID ch) (now_of e))
        then (HttpError 429 ''too many attempts, try again later'', w1)
        else
          (case users_Get (ch_UserID ch) (as_users w1) of
             Inl _ \<Rightarrow> (bad_challenge, w1)
           | Inr u \<Rightarrow> if \<not> u_Active u \<or> \<not> usable u then (bad_challenge, w1) else k ch u w1))"

text \<open>A code that is wrong.\<close>

definition wrong_code :: "auth_env \<Rightarrow> challenge \<Rightarrow> auth_world \<Rightarrow> auth_http \<times> auth_world" where
  "wrong_code e ch w =
    (case with_mfa (mfa_RecordTOTPAttempt (now_of e) (ch_ID ch)) (mfa_strike e (ch_UserID ch) w) of
       (Some ErrTooManyAttempts, w1) \<Rightarrow> (HttpError 401 ''too many attempts'', w1)
     | (_, w1) \<Rightarrow> (HttpError 401 ''invalid code'', w1))"

definition totp_step :: "auth_env \<Rightarrow> string \<Rightarrow> string \<Rightarrow> int option" where
  "totp_step e secret code = totp_Validate (ae_decode e) (ae_mac e) secret code (now_of e div second)"

definition handleMFATOTP ::
  "auth_env \<Rightarrow> http_request \<Rightarrow> code_body json_body \<Rightarrow> auth_world \<Rightarrow> auth_http \<times> auth_world" where
  "handleMFATOTP e rq body = with_body body (\<lambda>b.
    open_challenge e (cb_ChallengeID b) (\<lambda>u. u_TOTPEnabled u \<and> u_TOTPSecretEnc u \<noteq> '''') (\<lambda>ch u w.
      case ae_unseal e (u_TOTPSecretEnc u) of
        None \<Rightarrow> (HttpError 500 ''failed to load second factor'', w)
      | Some secret \<Rightarrow>
         (case totp_step e secret (cb_Code b) of
            None \<Rightarrow> wrong_code e ch w
          | Some step \<Rightarrow>
             (case with_mfa (mfa_ConsumeTOTPStep (now_of e) (ch_ID ch) step) w of
                (Some ErrChallengeAlreadyUsed, w1) \<Rightarrow> (HttpError 401 ''challenge already used'', w1)
              | (Some _, w1) \<Rightarrow> (bad_challenge, w1)
              | (None, w1) \<Rightarrow>
                 (case SetLastUsedTOTPStep (ae_env e) (u_ID u) step (as_users w1) of
                    (Inl _, d) \<Rightarrow>
                      (HttpError 401 ''invalid code'', drop_challenge (ch_ID ch) (mfa_strike e (ch_UserID ch) (w1\<lparr>as_users := d\<rparr>)))
                  | (Inr _, d) \<Rightarrow>
                      finish_login e rq u (drop_challenge (ch_ID ch) (mfa_clear (ch_UserID ch) (w1\<lparr>as_users := d\<rparr>))))))))"

definition handleMFARecoveryCode ::
  "auth_env \<Rightarrow> http_request \<Rightarrow> code_body json_body \<Rightarrow> auth_world \<Rightarrow> auth_http \<times> auth_world" where
  "handleMFARecoveryCode e rq body = with_body body (\<lambda>b.
    open_challenge e (cb_ChallengeID b) u_TOTPEnabled (\<lambda>ch u w.
      case ConsumeRecoveryCode (ae_kdf e) (ae_env e) (u_ID u) (trim_space (cb_Code b)) (as_users w) of
        (Inl _, d) \<Rightarrow> (HttpError 500 ''failed to verify recovery code'', w\<lparr>as_users := d\<rparr>)
      | (Inr None, d) \<Rightarrow> wrong_code e ch (w\<lparr>as_users := d\<rparr>)
      | (Inr (Some _), d) \<Rightarrow>
          finish_login e rq u (drop_challenge (ch_ID ch) (mfa_clear (ch_UserID ch) (w\<lparr>as_users := d\<rparr>)))))"

definition handlePushPoll :: "auth_env \<Rightarrow> string json_body \<Rightarrow> auth_world \<Rightarrow> auth_http \<times> auth_world" where
  "handlePushPoll e body = with_body body (\<lambda>i w.
    case with_mfa (mfa_PushStatus (now_of e) (trim_space i)) w of
      (None, w1) \<Rightarrow> (HttpJson 200 (PushStatusJson ''expired''), w1)
    | (Some status, w1) \<Rightarrow> (HttpJson 200 (PushStatusJson status), w1))"

definition handlePushFinish ::
  "auth_env \<Rightarrow> http_request \<Rightarrow> string json_body \<Rightarrow> auth_world \<Rightarrow> auth_http \<times> auth_world" where
  "handlePushFinish e rq body = with_body body (\<lambda>i w.
    case with_mfa (mfa_ConsumePushApproval (now_of e) (trim_space i)) w of
      (Inl ErrPushNotApproved, w1) \<Rightarrow> (HttpError 409 ''challenge not approved'', w1)
    | (Inl _, w1) \<Rightarrow> (bad_challenge, w1)
    | (Inr userID, w1) \<Rightarrow>
       (case users_Get userID (as_users w1) of
          Inl _ \<Rightarrow> (bad_challenge, w1)
        | Inr u \<Rightarrow>
           if \<not> u_Active u then (bad_challenge, w1)
           else if \<not> u_PushMFAEnabled u then (bad_challenge, w1)
           else finish_login e rq u w1))"

definition handlePushRespond ::
  "auth_env \<Rightarrow> http_request \<Rightarrow> (string \<times> bool) json_body \<Rightarrow> auth_world \<Rightarrow> auth_http \<times> auth_world" where
  "handlePushRespond e rq body w =
    (case deviceAuthFromRequest e rq w of
       (Inl retryAfter, w1) \<Rightarrow> (writeDeviceAuthFailure retryAfter, w1)
     | (Inr (userID, device), w1) \<Rightarrow>
        with_body body (\<lambda>(i, approve) w1.
          let challengeID = trim_space i in
          if challengeID = '''' then (HttpError 400 ''challengeId is required'', w1)
          else
            (case with_mfa (mfa_Get (now_of e) challengeID) w1 of
               (None, w2) \<Rightarrow> (bad_challenge, w2)
             | (Some ch, w2) \<Rightarrow>
                if ch_UserID ch \<noteq> userID then (HttpError 403 ''challenge does not belong to this device'', w2)
                else
                  (case users_Get userID (as_users w2) of
                     Inl _ \<Rightarrow> (HttpError 500 ''user unavailable'', w2)
                   | Inr owner \<Rightarrow>
                      if \<not> u_PushMFAEnabled owner then (HttpError 403 ''push approval is not enabled for this account'', w2)
                      else if \<not> ae_open e userID then (HttpError 500 ''failed to open user state'', w2)
                      else
                        (case on_state ListNativeDevices userID w2 of
                           (ds, w3) \<Rightarrow>
                             if list_ex nd_MFAApprover ds \<and> \<not> nd_MFAApprover device
                             then (HttpError 403 ''device is not permitted to approve sign-in'', w3)
                             else
                               (case with_mfa (mfa_ResolvePush (now_of e) challengeID (nd_DeviceID device) approve) w3 of
                                  ((status, Some ErrChallengeAlreadyResolved), w4) \<Rightarrow> (HttpJson 409 (AlreadyResolved status), w4)
                                | ((_, Some _), w4) \<Rightarrow> (bad_challenge, w4)
                                | ((status, None), w4) \<Rightarrow> (HttpJson 200 (PushResolved status), w4))))))
        w1)"

text \<open>The devices a challenge is pushed to.\<close>

definition approverDevices :: "native_device list \<Rightarrow> native_device list" where
  "approverDevices ds = (let approvers = filter nd_MFAApprover ds in if approvers \<noteq> [] then approvers else ds)"

definition challenge_message :: "string \<Rightarrow> push_message" where
  "challenge_message challengeID =
    \<lparr>pm_Title = ''Approve sign-in'', pm_Body = ''Tap to approve or deny a sign-in to your account.'',
     pm_Data = [(''type'', ''mfa_challenge''), (''challengeId'', challengeID)]\<rparr>"

definition dispatchPushChallenge ::
  "'n push_net \<Rightarrow> (string list \<Rightarrow> string list) \<Rightarrow> push_dispatcher \<Rightarrow> string \<Rightarrow> ('n, 'z) push_world_scheme \<Rightarrow>
   ('n, 'z) push_world_scheme" where
  "dispatchPushChallenge net order d challengeID w =
    (case on_store (\<lambda>_. ListNativeDevices) w of
       (ds, w1) \<Rightarrow>
         (let targets = filter (\<lambda>x. to_lower (trim_space (nd_Transport x)) \<noteq> ''unifiedpush'') (approverDevices ds)
          in if targets = [] then w1
             else snd (SendNativePushToDevices net order d targets (challenge_message challengeID) w1)))"

section \<open>Enrolment\<close>

subsection \<open>Secrets of TOTP\<close>

definition base32_alphabet :: string where
  "base32_alphabet = ''ABCDEFGHIJKLMNOPQRSTUVWXYZ234567''"

text \<open>Base 32 without padding: the bits of the bytes, filled up with zeros, in groups of five.\<close>

definition base32_encode :: "byte list \<Rightarrow> string" where
  "base32_encode bs =
    (let bits = 8 * length bs; fill = (5 - bits mod 5) mod 5; k = (bits + fill) div 5;
         v = foldl (\<lambda>n b. n * 256 + unat b) 0 bs * 2 ^ fill
     in map (\<lambda>j. base32_alphabet ! (v div 32 ^ (k - 1 - j) mod 32)) [0..<k])"

text \<open>The argument is what the read of 20 random bytes gives.\<close>

definition GenerateSecret :: "byte list option \<Rightarrow> string option" where
  "GenerateSecret buf = map_option base32_encode buf"

definition percent :: "char \<Rightarrow> string" where
  "percent c = ''%'' @ to_upper (hex_byte (of_char c))"

definition unreserved :: "char \<Rightarrow> bool" where
  "unreserved c \<longleftrightarrow> c \<in> set ''0123456789-_.~'' \<or> to_lower [c] \<noteq> to_upper [c]"

definition PathEscape :: "string \<Rightarrow> string" where
  "PathEscape s = concat (map (\<lambda>c. if unreserved c \<or> c \<in> set ''$&+=:@'' then [c] else percent c) s)"

definition QueryEscape :: "string \<Rightarrow> string" where
  "QueryEscape s = concat (map (\<lambda>c. if c = CHR '' '' then ''+'' else if unreserved c then [c] else percent c) s)"

text \<open>The query parameters are written in the order of their names.\<close>

definition ProvisioningURI :: "string \<Rightarrow> string \<Rightarrow> string \<Rightarrow> string" where
  "ProvisioningURI issuer accountName base32Secret =
    ''otpauth://totp/'' @ PathEscape (issuer @ '':'' @ accountName) @ ''?algorithm=SHA1&digits=6&issuer='' @ QueryEscape issuer @
    ''&period=30&secret='' @ QueryEscape base32Secret"

definition mfaTOTPIssuer :: string where "mfaTOTPIssuer = ''KyPost''"

definition recoveryCodeCount :: nat where "recoveryCodeCount = 10"

subsection \<open>The handlers of the own account\<close>

definition mfa_devices :: "auth_env \<Rightarrow> string \<Rightarrow> auth_world \<Rightarrow> device_status list \<times> auth_world" where
  "mfa_devices e userID w =
    (if \<not> ae_open e userID then ([], w)
     else (case on_state ListNativeDevices userID w of
        (ds, w1) \<Rightarrow>
          (map (\<lambda>d. \<lparr>ds_DeviceID = nd_DeviceID d, ds_DeviceName = nd_DeviceName d, ds_Platform = nd_Platform d, ds_Approver = nd_MFAApprover d\<rparr>) ds, w1)))"

definition handleMFAStatus :: "auth_env \<Rightarrow> auth_context \<Rightarrow> auth_world \<Rightarrow> auth_http \<times> auth_world" where
  "handleMFAStatus e ac w =
    (case users_Get (ac_UserID ac) (as_users w) of
       Inl _ \<Rightarrow> (HttpError 500 ''user unavailable'', w)
     | Inr u \<Rightarrow>
        (case mfa_devices e (ac_UserID ac) w of
           (ds, w1) \<Rightarrow> (HttpJson 200 (MfaStatus (u_TOTPEnabled u) (length (u_RecoveryCodesHash u)) (u_PushMFAEnabled u) ds), w1)))"

definition handleMFASetup :: "auth_env \<Rightarrow> auth_context \<Rightarrow> auth_world \<Rightarrow> auth_http \<times> auth_world" where
  "handleMFASetup e ac w =
    (case users_Get (ac_UserID ac) (as_users w) of
       Inl _ \<Rightarrow> (HttpError 500 ''user unavailable'', w)
     | Inr u \<Rightarrow>
        if u_TOTPEnabled u then (HttpError 409 ''two-factor auth is already enabled; disable it first'', w)
        else
          (case GenerateSecret (ae_secret e) of
             None \<Rightarrow> (HttpError 500 ''failed to generate secret'', w)
           | Some secret \<Rightarrow>
              (case ae_seal e secret of
                 None \<Rightarrow> (HttpError 500 ''failed to secure secret'', w)
               | Some sealed \<Rightarrow>
                  (case SetPendingTOTPSecret (ae_env e) (u_ID u) sealed (as_users w) of
                     (Inl _, d) \<Rightarrow> (HttpError 500 ''failed to stage secret'', w\<lparr>as_users := d\<rparr>)
                   | (Inr _, d) \<Rightarrow>
                      (HttpJson 200 (MfaSecret secret (ProvisioningURI mfaTOTPIssuer (u_Username u) secret)), w\<lparr>as_users := d\<rparr>)))))"

text \<open>The codes with their hashes; left: the random source failed.\<close>

definition newRecoveryCodes :: "auth_env \<Rightarrow> (string list \<times> string list) option" where
  "newRecoveryCodes e =
    (case GenerateRecoveryCodes (map (ae_codes e) [0..<recoveryCodeCount]) of
       Inl _ \<Rightarrow> None
     | Inr codes \<Rightarrow>
        (let hs = map (\<lambda>(k, c). HashPassword (ae_kdf e) (ae_code_salts e k) c) (zip [0..<length codes] codes)
         in if list_ex isl hs then None else Some (codes, map projr hs)))"

definition handleMFAConfirm :: "auth_env \<Rightarrow> string json_body \<Rightarrow> auth_context \<Rightarrow> auth_world \<Rightarrow> auth_http \<times> auth_world" where
  "handleMFAConfirm e body ac = with_body body (\<lambda>code w.
    case users_Get (ac_UserID ac) (as_users w) of
      Inl _ \<Rightarrow> (HttpError 500 ''user unavailable'', w)
    | Inr u \<Rightarrow>
       if u_TOTPEnabled u then (HttpError 409 ''two-factor auth is already enabled'', w)
       else if u_TOTPSecretEnc u = '''' then (HttpError 400 ''start setup before confirming'', w)
       else
         (case ae_unseal e (u_TOTPSecretEnc u) of
            None \<Rightarrow> (HttpError 500 ''failed to load pending secret'', w)
          | Some secret \<Rightarrow>
             (case totp_step e secret (trim_space code) of
                None \<Rightarrow> (HttpError 401 ''invalid code'', w)
              | Some step \<Rightarrow>
                 (case SetLastUsedTOTPStep (ae_env e) (u_ID u) step (as_users w) of
                    (Inl _, d) \<Rightarrow> (HttpError 401 ''invalid code'', w\<lparr>as_users := d\<rparr>)
                  | (Inr _, d) \<Rightarrow>
                     (case newRecoveryCodes e of
                        None \<Rightarrow> (HttpError 500 ''failed to generate recovery codes'', w\<lparr>as_users := d\<rparr>)
                      | Some (codes, hashes) \<Rightarrow>
                         (case EnableTOTP (ae_env e) (u_ID u) (stamp (ae_env e)) hashes d of
                            (Inl _, d') \<Rightarrow> (HttpError 500 ''failed to enable two-factor auth'', w\<lparr>as_users := d'\<rparr>)
                          | (Inr _, d') \<Rightarrow> (HttpJson 200 (RecoveryCodes codes), w\<lparr>as_users := d'\<rparr>)))))))"

text \<open>The answer that refuses, or the account once its password has been given again.\<close>

definition requirePasswordConfirm ::
  "auth_env \<Rightarrow> string json_body \<Rightarrow> auth_context \<Rightarrow> auth_world \<Rightarrow> (auth_http + user) \<times> auth_world" where
  "requirePasswordConfirm e body ac w =
    (let name = ac_Username ac; now = now_of e in
     if \<not> fst (lockout_allowed (as_login w) name now)
     then (Inl (HttpJson 429 (TooManyAttempts (retry_seconds (snd (lockout_allowed (as_login w) name now))))), w)
     else
       (case body of
          Body password \<Rightarrow>
            (case users_Get (ac_UserID ac) (as_users w) of
               Inl _ \<Rightarrow> (Inl (HttpError 500 ''user unavailable''), w)
             | Inr u \<Rightarrow>
                if \<not> VerifyPassword (ae_kdf e) u password
                then (Inl (HttpJson 401 (AuthProblem ''invalid credentials'')), w\<lparr>as_login := lockout_recordFailure (as_login w) name now\<rparr>)
                else (Inr u, w\<lparr>as_login := lockout_recordSuccess (as_login w) name\<rparr>))
        | _ \<Rightarrow> (Inl (HttpError 400 ''invalid request''), w)))"

definition handleMFADisable ::
  "auth_env \<Rightarrow> http_request \<Rightarrow> string json_body \<Rightarrow> auth_context \<Rightarrow> auth_world \<Rightarrow> auth_http \<times> auth_world" where
  "handleMFADisable e rq body ac w =
    (case requirePasswordConfirm e body ac w of
       (Inl reply, w1) \<Rightarrow> (reply, w1)
     | (Inr u, w1) \<Rightarrow>
        (case DisableTOTP (ae_env e) (u_ID u) (as_users w1) of
           (Inl _, d) \<Rightarrow> (HttpError 500 ''failed to disable two-factor auth'', w1\<lparr>as_users := d\<rparr>)
         | (Inr _, d) \<Rightarrow> (HttpJson 200 AuthOk, revokeUserSessions (u_ID u) (currentSessionToken rq) (w1\<lparr>as_users := d\<rparr>))))"

definition handleMFARecoveryCodesRegenerate ::
  "auth_env \<Rightarrow> http_request \<Rightarrow> string json_body \<Rightarrow> auth_context \<Rightarrow> auth_world \<Rightarrow> auth_http \<times> auth_world" where
  "handleMFARecoveryCodesRegenerate e rq body ac w =
    (case requirePasswordConfirm e body ac w of
       (Inl reply, w1) \<Rightarrow> (reply, w1)
     | (Inr u, w1) \<Rightarrow>
        if \<not> u_TOTPEnabled u then (HttpError 400 ''two-factor auth is not enabled'', w1)
        else
          (case newRecoveryCodes e of
             None \<Rightarrow> (HttpError 500 ''failed to generate recovery codes'', w1)
           | Some (codes, hashes) \<Rightarrow>
              (case ReplaceRecoveryCodes (ae_env e) (u_ID u) hashes (as_users w1) of
                 (Inl _, d) \<Rightarrow> (HttpError 500 ''failed to store recovery codes'', w1\<lparr>as_users := d\<rparr>)
               | (Inr _, d) \<Rightarrow>
                  (HttpJson 200 (RecoveryCodes codes), revokeUserSessions (u_ID u) (currentSessionToken rq) (w1\<lparr>as_users := d\<rparr>)))))"

definition handleMFAPushEnabled :: "auth_env \<Rightarrow> bool json_body \<Rightarrow> auth_context \<Rightarrow> auth_world \<Rightarrow> auth_http \<times> auth_world" where
  "handleMFAPushEnabled e body ac = with_body body (\<lambda>enabled w.
    let store = (\<lambda>u w. case SetPushMFAEnabled (ae_env e) (u_ID u) enabled (as_users w) of
          (Inl _, d) \<Rightarrow> (HttpError 500 ''failed to update push 2fa'', w\<lparr>as_users := d\<rparr>)
        | (Inr _, d) \<Rightarrow> (HttpJson 200 (PushEnabled enabled), w\<lparr>as_users := d\<rparr>))
    in case users_Get (ac_UserID ac) (as_users w) of
         Inl _ \<Rightarrow> (HttpError 500 ''user unavailable'', w)
       | Inr u \<Rightarrow>
          if \<not> enabled then store u w
          else if \<not> u_TOTPEnabled u
          then (HttpError 400 ''enable an authenticator app (TOTP) before enabling push approval, so you always have a fallback'', w)
          else if \<not> ae_open e (ac_UserID ac) then (HttpError 500 ''failed to open user state'', w)
          else
            (case on_state ListNativeDevices (ac_UserID ac) w of
               (ds, w1) \<Rightarrow>
                 if approverDevices ds = []
                 then (HttpError 400 ''pair a device on the Notifications page before enabling push approval'', w1)
                 else store u w1))"

definition handleNativeDeviceMFA ::
  "auth_env \<Rightarrow> string \<Rightarrow> bool json_body \<Rightarrow> auth_context \<Rightarrow> auth_world \<Rightarrow> auth_http \<times> auth_world" where
  "handleNativeDeviceMFA e pathID body ac w =
    (let deviceID = trim_space pathID in
     if \<not> ae_open e (ac_UserID ac) then (HttpError 500 ''failed to open user state'', w)
     else if deviceID = '''' then (HttpError 400 ''deviceId is required'', w)
     else with_body body (\<lambda>approver w.
       case on_state (SetNativeDeviceMFAApprover (ae_env e) deviceID approver) (ac_UserID ac) w of
         ((_, Some _), w1) \<Rightarrow> (HttpError 500 ''failed to update device'', w1)
       | ((updated, None), w1) \<Rightarrow>
           (if updated then HttpJson 200 (DeviceApprover deviceID approver) else HttpError 404 ''device not found'', w1)) w)"

section \<open>The accounts\<close>

definition parseRole :: "string \<Rightarrow> string option" where
  "parseRole raw =
    (if trim_space raw = RoleAdmin then Some RoleAdmin
     else if trim_space raw = RoleUser \<or> trim_space raw = '''' then Some RoleUser
     else None)"

definition writeUserStoreError :: "users_error \<Rightarrow> auth_http" where
  "writeUserStoreError err =
    (if err = UserNotFound then HttpError 404 ''user not found'' else HttpError 500 ''user store error'')"

text \<open>Left: the accounts could not be read.\<close>

definition isLastActiveAdmin :: "string \<Rightarrow> users_disk \<Rightarrow> users_error + bool" where
  "isLastActiveAdmin i d =
    (case users_List d of
       Inl err \<Rightarrow> Inl err
     | Inr us \<Rightarrow>
        (let admins = filter (\<lambda>u. u_Role u = RoleAdmin \<and> u_Active u) us
         in Inr (list_ex (\<lambda>u. u_ID u = i) admins \<and> filter (\<lambda>u. u_ID u \<noteq> i) admins = [])))"

definition handleUsersList :: "auth_context \<Rightarrow> auth_world \<Rightarrow> auth_http \<times> auth_world" where
  "handleUsersList ac w =
    (case users_List (as_users w) of
       Inl _ \<Rightarrow> (HttpError 500 ''failed to list users'', w)
     | Inr us \<Rightarrow> (HttpJson 200 (UserList (map Public us)), w))"

record account_body =
  ab_Username :: string
  ab_Password :: string
  ab_Role :: string

definition handleUsersCreate ::
  "auth_env \<Rightarrow> account_body json_body \<Rightarrow> auth_context \<Rightarrow> auth_world \<Rightarrow> auth_http \<times> auth_world" where
  "handleUsersCreate e body ac = with_body body (\<lambda>b w.
    let username = trim_space (ab_Username b) in
    if username = '''' then (HttpError 400 ''username required'', w)
    else if trim_space (ab_Password b) = '''' then (HttpError 400 ''password required'', w)
    else
      (case parseRole (ab_Role b) of
         None \<Rightarrow> (HttpError 400 ''invalid role; expected admin or user'', w)
       | Some role \<Rightarrow>
          (case users_Create (ae_kdf e) (ae_env e) (ae_salt e) username (ab_Password b) role (as_users w) of
             (Inl UsernameTaken, d) \<Rightarrow> (HttpError 409 ''username already in use'', w\<lparr>as_users := d\<rparr>)
           | (Inl _, d) \<Rightarrow> (HttpError 500 ''failed to create user'', w\<lparr>as_users := d\<rparr>)
           | (Inr u, d) \<Rightarrow> (HttpJson 201 (UserJson (Public u)), w\<lparr>as_users := d\<rparr>))))"

text \<open>The end of the other handlers: the changed account, and what else happens to it.\<close>

definition stored_account ::
  "(users_error + user) \<times> users_disk \<Rightarrow> (user \<Rightarrow> auth_world \<Rightarrow> auth_world) \<Rightarrow> auth_world \<Rightarrow> auth_http \<times> auth_world" where
  "stored_account res after w =
    (case res of
       (Inl err, d) \<Rightarrow> (writeUserStoreError err, w\<lparr>as_users := d\<rparr>)
     | (Inr u, d) \<Rightarrow> (HttpJson 200 (UserJson (Public u)), after u (w\<lparr>as_users := d\<rparr>)))"

text \<open>Sessions and devices of an account are given up.\<close>

definition cut_off :: "auth_env \<Rightarrow> user \<Rightarrow> auth_world \<Rightarrow> auth_world" where
  "cut_off e u w = revokeUserDevices e (u_ID u) (revokeUserSessions (u_ID u) '''' w)"

definition handleUsersUpdate ::
  "auth_env \<Rightarrow> string \<Rightarrow> string json_body \<Rightarrow> auth_context \<Rightarrow> auth_world \<Rightarrow> auth_http \<times> auth_world" where
  "handleUsersUpdate e i body ac = with_body body (\<lambda>raw w.
    case parseRole raw of
      None \<Rightarrow> (HttpError 400 ''invalid role; expected admin or user'', w)
    | Some role \<Rightarrow>
       (case (if role \<noteq> RoleAdmin then isLastActiveAdmin i (as_users w) else Inr False) of
          Inl _ \<Rightarrow> (HttpError 500 ''failed to update user'', w)
        | Inr blocked \<Rightarrow>
           if blocked then (HttpError 400 ''cannot demote the last active admin'', w)
           else stored_account (users_SetRole (ae_env e) i role (as_users w)) (\<lambda>_ w. w) w))"

definition handleUsersResetPassword ::
  "auth_env \<Rightarrow> string \<Rightarrow> string json_body \<Rightarrow> auth_context \<Rightarrow> auth_world \<Rightarrow> auth_http \<times> auth_world" where
  "handleUsersResetPassword e i body ac = with_body body (\<lambda>password w.
    if trim_space password = '''' then (HttpError 400 ''password required'', w)
    else stored_account (SetPassword (ae_kdf e) (ae_env e) (ae_salt e) i password True (as_users w)) (cut_off e) w)"

definition handleUsersDeactivate :: "auth_env \<Rightarrow> string \<Rightarrow> auth_context \<Rightarrow> auth_world \<Rightarrow> auth_http \<times> auth_world" where
  "handleUsersDeactivate e i ac w =
    (case isLastActiveAdmin i (as_users w) of
       Inl _ \<Rightarrow> (HttpError 500 ''failed to deactivate user'', w)
     | Inr blocked \<Rightarrow>
        if blocked then (HttpError 400 ''cannot deactivate the last active admin'', w)
        else stored_account (Deactivate (ae_env e) i (as_users w)) (cut_off e) w)"

definition handleUsersReactivate :: "auth_env \<Rightarrow> string \<Rightarrow> auth_context \<Rightarrow> auth_world \<Rightarrow> auth_http \<times> auth_world" where
  "handleUsersReactivate e i ac w = stored_account (Reactivate (ae_env e) i (as_users w)) (\<lambda>_ w. w) w"

definition handleUsersClearMFA :: "auth_env \<Rightarrow> string \<Rightarrow> auth_context \<Rightarrow> auth_world \<Rightarrow> auth_http \<times> auth_world" where
  "handleUsersClearMFA e i ac w =
    stored_account (DisableTOTP (ae_env e) i (as_users w))
      (\<lambda>u w. (cut_off e u w)\<lparr>as_challenges := mfa_DeleteByUser (u_ID u) (as_challenges (cut_off e u w))\<rparr>) w"

end
