(* ===== verification/Session_Safety.thy ===== *)
theory Session_Safety
  imports Sessions
begin

text \<open>
  Runs of requests to the server, and what they show: where sessions come from, what cuts them off, and that an
  administrator stays.
\<close>

section \<open>Requests and runs\<close>

datatype auth_call =
  CallLogin "login_body json_body"
| CallTOTP "code_body json_body"
| CallRecoveryCode "code_body json_body"
| CallPushPoll "string json_body"
| CallPushFinish "string json_body"
| CallPushRespond "(string \<times> bool) json_body"
| CallMe
| CallCSRF
| CallLogout
| CallPassword "password_body json_body"
| CallMFAStatus
| CallMFASetup
| CallMFAConfirm "string json_body"
| CallMFADisable "string json_body"
| CallNewCodes "string json_body"
| CallPushEnabled "bool json_body"
| CallDeviceMFA string "bool json_body"
| CallUsersList
| CallUsersCreate "account_body json_body"
| CallUsersUpdate string "string json_body"
| CallUsersReset string "string json_body"
| CallUsersDeactivate string
| CallUsersReactivate string
| CallUsersClearMFA string

text \<open>The routes with their wrappers.\<close>

fun serve :: "auth_env \<Rightarrow> http_request \<Rightarrow> auth_call \<Rightarrow> auth_world \<Rightarrow> auth_http \<times> auth_world" where
  "serve e rq (CallLogin b) w = handleLogin e rq b w"
| "serve e rq (CallTOTP b) w = handleMFATOTP e rq b w"
| "serve e rq (CallRecoveryCode b) w = handleMFARecoveryCode e rq b w"
| "serve e rq (CallPushPoll b) w = handlePushPoll e b w"
| "serve e rq (CallPushFinish b) w = handlePushFinish e rq b w"
| "serve e rq (CallPushRespond b) w = handlePushRespond e rq b w"
| "serve e rq CallMe w = handleMe e rq w"
| "serve e rq CallCSRF w = handleCSRFToken e rq w"
| "serve e rq CallLogout w = withAuth e rq (\<lambda>_. handleLogout e rq) w"
| "serve e rq (CallPassword b) w = withAuth e rq (handleChangePassword e rq b) w"
| "serve e rq CallMFAStatus w = withAuth e rq (handleMFAStatus e) w"
| "serve e rq CallMFASetup w = withAuth e rq (handleMFASetup e) w"
| "serve e rq (CallMFAConfirm b) w = withAuth e rq (handleMFAConfirm e b) w"
| "serve e rq (CallMFADisable b) w = withAuth e rq (handleMFADisable e rq b) w"
| "serve e rq (CallNewCodes b) w = withAuth e rq (handleMFARecoveryCodesRegenerate e rq b) w"
| "serve e rq (CallPushEnabled b) w = withAuth e rq (handleMFAPushEnabled e b) w"
| "serve e rq (CallDeviceMFA i b) w = withAuth e rq (handleNativeDeviceMFA e i b) w"
| "serve e rq CallUsersList w = withAdmin e rq handleUsersList w"
| "serve e rq (CallUsersCreate b) w = withAdmin e rq (handleUsersCreate e b) w"
| "serve e rq (CallUsersUpdate i b) w = withAdmin e rq (handleUsersUpdate e i b) w"
| "serve e rq (CallUsersReset i b) w = withAdmin e rq (handleUsersResetPassword e i b) w"
| "serve e rq (CallUsersDeactivate i) w = withAdmin e rq (handleUsersDeactivate e i) w"
| "serve e rq (CallUsersReactivate i) w = withAdmin e rq (handleUsersReactivate e i) w"
| "serve e rq (CallUsersClearMFA i) w = withAdmin e rq (handleUsersClearMFA e i) w"

text \<open>An event: the request with the state it came to.\<close>

type_synonym auth_event = "auth_env \<times> http_request \<times> auth_call \<times> auth_world"

text \<open>
  A run, with what was requested. Everything else that goes on (the other handlers, the other process) may change
  the accounts, the devices and the throttles at will, but neither the sessions nor the challenges, which only the
  handlers above hold.
\<close>

inductive auth_run :: "auth_world \<Rightarrow> auth_event list \<Rightarrow> auth_world \<Rightarrow> bool" for w0 where
  begin_run: "auth_run w0 [] w0"
| request: "auth_run w0 es w \<Longrightarrow> auth_run w0 (es @ [(e, rq, c, w)]) (snd (serve e rq c w))"
| elsewhere: "auth_run w0 es w \<Longrightarrow> as_sessions w' = as_sessions w \<Longrightarrow> as_challenges w' = as_challenges w \<Longrightarrow> auth_run w0 es w'"

section \<open>What an event shows of a user\<close>

text \<open>A login with the password of the active account, past the lockout and the captcha.\<close>

definition password_given :: "string \<Rightarrow> (user \<Rightarrow> bool) \<Rightarrow> auth_event \<Rightarrow> bool" where
  "password_given i P ev = (case ev of (e, rq, c, w) \<Rightarrow>
    (case c of
       CallLogin (Body b) \<Rightarrow>
         fst (lockout_allowed (as_login w) (lb_Username b @ [CHR 0x00] @ clientIP e rq) (now_of e)) \<and>
         captcha_refusal e (lb_CaptchaToken b) (clientIP e rq) = None \<and>
         (case users_GetByUsername (lb_Username b) (as_users w) of
            Inl _ \<Rightarrow> False
          | Inr u \<Rightarrow> u_ID u = i \<and> u_Active u \<and> P u \<and> VerifyPassword (ae_kdf e) u (lb_Password b))
     | _ \<Rightarrow> False))"

definition single_factor :: "user \<Rightarrow> bool" where
  "single_factor u \<longleftrightarrow> \<not> u_TOTPEnabled u \<and> \<not> u_PushMFAEnabled u"

text \<open>A TOTP code newer than the last one accepted, or one of the recovery codes, past the lockout of the account.\<close>

definition code_given :: "string \<Rightarrow> auth_event \<Rightarrow> bool" where
  "code_given i ev = (case ev of (e, rq, c, w) \<Rightarrow>
    fst (lockout_allowed (as_mfa w) i (now_of e)) \<and>
    (case users_Get i (as_users w) of
       Inl _ \<Rightarrow> False
     | Inr u \<Rightarrow>
        u_ID u = i \<and> u_Active u \<and> u_TOTPEnabled u \<and>
        (case c of
           CallTOTP (Body b) \<Rightarrow>
             (case ae_unseal e (u_TOTPSecretEnc u) of
                None \<Rightarrow> False
              | Some secret \<Rightarrow>
                  (case totp_step e secret (cb_Code b) of None \<Rightarrow> False | Some step \<Rightarrow> u_LastUsedTOTPStep u < step))
         | CallRecoveryCode (Body b) \<Rightarrow>
             list_ex (\<lambda>h. verifyScryptHash (ae_kdf e) h (trim_space (cb_Code b))) (u_RecoveryCodesHash u)
         | _ \<Rightarrow> False)))"

text \<open>An approval sent by a device that is registered for the active account and has shown its secret.\<close>

definition device_approved :: "string \<Rightarrow> auth_event \<Rightarrow> bool" where
  "device_approved i ev = (case ev of (e, rq, c, w) \<Rightarrow>
    (case c of CallPushRespond (Body (_, approve)) \<Rightarrow> approve | _ \<Rightarrow> False) \<and>
    (case users_Get i (as_users w) of Inl _ \<Rightarrow> False | Inr u \<Rightarrow> u_Active u \<and> u_PushMFAEnabled u) \<and>
    (case fst (GetNativeDevice (trim_space (rq_DeviceID rq)) (as_stores w i)) of
       None \<Rightarrow> False
     | Some dev \<Rightarrow> VerifySecretHash (ae_kdf e) (nd_SecretHash dev) (rq_DeviceSecret rq)))"

text \<open>The end of a login by push, with the account still active and push still enabled.\<close>

definition push_finished :: "string \<Rightarrow> auth_event \<Rightarrow> bool" where
  "push_finished i ev = (case ev of (e, rq, c, w) \<Rightarrow>
    (case c of CallPushFinish (Body _) \<Rightarrow> True | _ \<Rightarrow> False) \<and>
    (case users_Get i (as_users w) of Inl _ \<Rightarrow> False | Inr u \<Rightarrow> u_Active u \<and> u_PushMFAEnabled u))"

text \<open>Events with these properties happened in this order.\<close>

fun happened :: "('e \<Rightarrow> bool) list \<Rightarrow> 'e list \<Rightarrow> bool" where
  "happened [] es = True"
| "happened (P # Ps) [] = False"
| "happened (P # Ps) (x # es) = (P x \<and> happened Ps es \<or> happened (P # Ps) es)"

lemma happened_snoc: "happened Ps es \<Longrightarrow> happened Ps (es @ [x])"
  by (induction Ps es rule: happened.induct) auto

lemma happened_now: "happened Ps es \<Longrightarrow> P x \<Longrightarrow> happened (Ps @ [P]) (es @ [x])"
proof (induction Ps es rule: happened.induct)
  case (1 es)
  then show ?case by (induction es) auto
qed auto

definition justified :: "string \<Rightarrow> auth_event list \<Rightarrow> bool" where
  "justified i es \<longleftrightarrow>
    happened [password_given i single_factor] es \<or>
    happened [password_given i (\<lambda>u. \<not> single_factor u), code_given i] es \<or>
    happened [password_given i (\<lambda>u. \<not> single_factor u), device_approved i, push_finished i] es"

lemma justified_snoc: "justified i es \<Longrightarrow> justified i (es @ [x])"
  by (auto simp: justified_def intro: happened_snoc)

section \<open>Requests that make no sessions\<close>

text \<open>Sessions keep their users, and challenges their users and decisions; nothing is added.\<close>

definition no_more :: "auth_world \<Rightarrow> auth_world \<Rightarrow> bool" where
  "no_more w w' \<longleftrightarrow>
    (\<forall>t s'. as_sessions w' t = Some s' \<longrightarrow> (\<exists>s. as_sessions w t = Some s \<and> ss_UserID s' = ss_UserID s)) \<and>
    (\<forall>i ch'. (i, ch') \<in> set (as_challenges w') \<longrightarrow>
       (\<exists>ch. (i, ch) \<in> set (as_challenges w) \<and> ch_UserID ch' = ch_UserID ch \<and> ch_PushStatus ch' = ch_PushStatus ch))"

lemma no_more_refl [simp, intro]: "no_more w w"
  by (auto simp: no_more_def)

lemma no_more_trans: "no_more w w1 \<Longrightarrow> no_more w1 w2 \<Longrightarrow> no_more w w2"
  unfolding no_more_def by metis

lemma no_more_same:
  "as_sessions w' = as_sessions w \<Longrightarrow> as_challenges w' = as_challenges w \<Longrightarrow> no_more w w'"
  by (auto simp: no_more_def)

lemma on_state_sel [simp]:
  "as_sessions (snd (on_state f i w)) = as_sessions w" "as_challenges (snd (on_state f i w)) = as_challenges w"
  "as_users (snd (on_state f i w)) = as_users w" "as_mfa (snd (on_state f i w)) = as_mfa w"
  by (simp_all add: on_state_def split: prod.split)

lemma no_more_drop [simp, intro]: "no_more w (drop_session t w)"
  by (auto simp: no_more_def drop_session_def)

lemma no_more_revoke [simp, intro]: "no_more w (revokeUserSessions i k w)"
  by (auto simp: no_more_def revokeUserSessions_def split: option.splits if_splits)

lemma no_more_currentUser: "no_more w (snd (currentUser e rq w))"
  by (auto simp: no_more_def currentUser_def drop_session_def Let_def split: option.splits sum.splits)

lemma no_more_withAuth:
  assumes "\<And>ac w. no_more w (snd (h ac w))"
  shows "no_more w (snd (withAuth e rq h w))"
proof (cases "currentUser e rq w")
  case (Pair r w1)
  then have "no_more w w1" using no_more_currentUser [of w e rq] by simp
  then show ?thesis using Pair assms no_more_trans by (cases r) (auto simp: withAuth_def admit_def)
qed

lemma no_more_withAdmin:
  assumes "\<And>ac w. no_more w (snd (h ac w))"
  shows "no_more w (snd (withAdmin e rq h w))"
  unfolding withAdmin_def by (rule no_more_withAuth) (use assms in auto)

text \<open>The challenges: what each operation of their store leaves.\<close>

lemma delete_subset: "(i, ch) \<in> set (AList.delete k m) \<Longrightarrow> (i, ch) \<in> set m"
  by (auto simp: AList.delete_eq)

lemma update_subset: "(i, ch) \<in> set (AList.update k v m) \<Longrightarrow> i = k \<and> ch = v \<or> (i, ch) \<in> set m"
  by (induction m) (auto split: if_splits)

lemma no_more_attempt: "no_more w (snd (with_mfa (mfa_RecordTOTPAttempt t k) w))"
proof -
  have "live (as_challenges w) t k = Some ch \<Longrightarrow> (k, ch) \<in> set (as_challenges w)" for ch
    by (auto simp: live_def split: option.splits if_splits dest: map_of_SomeD)
  then show ?thesis
    by (fastforce simp: no_more_def with_mfa_def mfa_RecordTOTPAttempt_def Let_def split: option.splits if_splits
        dest!: delete_subset update_subset)
qed

lemma no_more_consume_step: "no_more w (snd (with_mfa (mfa_ConsumeTOTPStep t k s) w))"
proof -
  have "live (as_challenges w) t k = Some ch \<Longrightarrow> (k, ch) \<in> set (as_challenges w)" for ch
    by (auto simp: live_def split: option.splits if_splits dest: map_of_SomeD)
  then show ?thesis
    by (fastforce simp: no_more_def with_mfa_def mfa_ConsumeTOTPStep_def Let_def split: option.splits if_splits
        dest!: delete_subset update_subset)
qed

lemma no_more_shrink:
  assumes "as_sessions w' = as_sessions w" "set (as_challenges w') \<subseteq> set (as_challenges w)"
  shows "no_more w w'"
  using assms unfolding no_more_def by (metis subsetD)

lemma no_more_get: "no_more w (snd (with_mfa (mfa_Get t k) w))"
  by (rule no_more_shrink) (auto simp: with_mfa_def mfa_Get_def split: option.splits dest: delete_subset)

lemma no_more_status: "no_more w (snd (with_mfa (mfa_PushStatus t k) w))"
  by (rule no_more_shrink) (auto simp: with_mfa_def mfa_PushStatus_def split: option.splits dest: delete_subset)

lemma no_more_approval: "no_more w (snd (with_mfa (mfa_ConsumePushApproval t k) w))"
  by (rule no_more_shrink) (auto simp: with_mfa_def mfa_ConsumePushApproval_def split: option.splits dest: delete_subset)

lemma no_more_delete_user: "no_more w (w\<lparr>as_challenges := mfa_DeleteByUser i (as_challenges w)\<rparr>)"
  by (rule no_more_shrink) (auto simp: mfa_DeleteByUser_def)

lemma no_more_snd: "no_more w (snd q) \<Longrightarrow> q = (r, w1) \<Longrightarrow> no_more w w1"
  by simp

text \<open>The devices.\<close>

lemma lookup_sel [simp]:
  "as_sessions (snd (lookupUserByDevice e i w)) = as_sessions w" "as_challenges (snd (lookupUserByDevice e i w)) = as_challenges w"
  "as_users (snd (lookupUserByDevice e i w)) = as_users w" "as_stores (snd (lookupUserByDevice e i w)) = as_stores w"
  by (simp_all add: lookupUserByDevice_def rescanDeviceIndex_def Let_def split: option.split)

lemma device_auth_sel [simp]:
  "as_sessions (snd (deviceAuthFromRequest e rq w)) = as_sessions w"
  "as_challenges (snd (deviceAuthFromRequest e rq w)) = as_challenges w"
  "as_users (snd (deviceAuthFromRequest e rq w)) = as_users w"
proof -
  let ?i = "trim_space (rq_DeviceID rq)"
  obtain o1 w1 where l: "lookupUserByDevice e ?i w = (o1, w1)" by (rule prod.exhaust)
  have w1: "as_sessions w1 = as_sessions w" "as_challenges w1 = as_challenges w" "as_users w1 = as_users w"
    using lookup_sel(1,2,3) [of e ?i w] by (simp_all add: l)
  have "as_sessions (snd (deviceAuthFromRequest e rq w)) = as_sessions w \<and>
    as_challenges (snd (deviceAuthFromRequest e rq w)) = as_challenges w \<and> as_users (snd (deviceAuthFromRequest e rq w)) = as_users w"
  proof (cases o1)
    case None
    then show ?thesis by (simp add: deviceAuthFromRequest_def Let_def l w1)
  next
    case (Some oid)
    obtain d w2 where g: "on_state (GetNativeDevice ?i) oid w1 = (d, w2)" by (rule prod.exhaust)
    have "as_sessions w2 = as_sessions w" "as_challenges w2 = as_challenges w" "as_users w2 = as_users w"
      using on_state_sel(1,2,3) [of "GetNativeDevice ?i" oid w1] by (simp_all add: g w1)
    then show ?thesis by (simp add: deviceAuthFromRequest_def Let_def l w1 Some g split: option.split sum.split)
  qed
  then show "as_sessions (snd (deviceAuthFromRequest e rq w)) = as_sessions w"
    "as_challenges (snd (deviceAuthFromRequest e rq w)) = as_challenges w"
    "as_users (snd (deviceAuthFromRequest e rq w)) = as_users w" by blast+
qed

lemma revoke_devices_sel [simp]:
  "as_sessions (revoke_devices e i ds w) = as_sessions w \<and> as_challenges (revoke_devices e i ds w) = as_challenges w \<and>
   as_users (revoke_devices e i ds w) = as_users w"
proof (induction ds arbitrary: w)
  case (Cons d ds)
  obtain b err w1 where s: "on_state (RemoveNativeDevice (ae_env e) (nd_DeviceID d)) i w = ((b, err), w1)" by (metis prod.exhaust)
  have "as_sessions w1 = as_sessions w" "as_challenges w1 = as_challenges w" "as_users w1 = as_users w"
    using on_state_sel(1,2,3) [of "RemoveNativeDevice (ae_env e) (nd_DeviceID d)" i w] by (simp_all add: s)
  with Cons.IH [of w1] Cons.IH [of "w1\<lparr>as_deviceIndex := (as_deviceIndex w1)(nd_DeviceID d := None)\<rparr>"] show ?case
    by (simp add: s split: option.split)
qed simp

lemma revokeUserDevices_sel [simp]:
  "as_sessions (revokeUserDevices e i w) = as_sessions w" "as_challenges (revokeUserDevices e i w) = as_challenges w"
  "as_users (revokeUserDevices e i w) = as_users w"
proof -
  obtain ds w1 where s: "on_state ListNativeDevices i w = (ds, w1)" by (rule prod.exhaust)
  have "as_sessions w1 = as_sessions w" "as_challenges w1 = as_challenges w" "as_users w1 = as_users w"
    using on_state_sel(1,2,3) [of ListNativeDevices i w] by (simp_all add: s)
  then show "as_sessions (revokeUserDevices e i w) = as_sessions w" "as_challenges (revokeUserDevices e i w) = as_challenges w"
    "as_users (revokeUserDevices e i w) = as_users w" by (simp_all add: revokeUserDevices_def s)
qed

text \<open>The handlers of the account and of the accounts.\<close>

lemma quiet_users [simp, intro]: "no_more w (w\<lparr>as_users := d\<rparr>)" "no_more w (w\<lparr>as_login := l\<rparr>)"
  by (simp_all add: no_more_same)

lemma no_more_users_revoke: "no_more w (revokeUserSessions i k (w\<lparr>as_users := d\<rparr>))"
  using no_more_trans [OF quiet_users(1) no_more_revoke] .

lemma quiet_Me: "no_more w (snd (handleMe e rq w))"
proof (cases "currentUser e rq w")
  case (Pair r w1)
  then have w1: "no_more w w1" using no_more_currentUser [of w e rq] by simp
  show ?thesis
  proof (cases r)
    case (Some ac)
    obtain s err w2 where s: "on_state (GetOrCreateSubscriberID (ae_env e)) (ac_UserID ac) w1 = ((s, err), w2)" by (metis prod.exhaust)
    have "no_more w1 w2" using on_state_sel(1,2) [of "GetOrCreateSubscriberID (ae_env e)" "ac_UserID ac" w1]
      by (simp add: s no_more_same)
    with w1 show ?thesis by (auto simp: handleMe_def Pair Some s dest: no_more_trans)
  qed (simp add: handleMe_def Pair w1)
qed

lemma quiet_CSRF: "no_more w (snd (handleCSRFToken e rq w))"
  using no_more_currentUser [of w e rq]
  by (auto simp: handleCSRFToken_def split: option.split prod.split)

lemma quiet_Logout: "no_more w (snd (handleLogout e rq w))"
  by (auto simp: handleLogout_def split: option.split)

lemma with_body_quiet: "(\<And>p. no_more w (snd (k p w))) \<Longrightarrow> no_more w (snd (with_body b k w))"
  by (cases b) auto

lemma quiet_Password: "no_more w (snd (handleChangePassword e rq b ac w))"
  unfolding handleChangePassword_def
  by (rule with_body_quiet) (auto simp: no_more_users_revoke split: sum.split prod.split)

lemma quiet_on_state: "on_state f i w = (r, w1) \<Longrightarrow> no_more w w1"
  using on_state_sel(1,2) [of f i w] by (auto intro: no_more_same)

lemma quiet_Status: "no_more w (snd (handleMFAStatus e ac w))"
  by (auto simp: handleMFAStatus_def mfa_devices_def split: sum.split prod.split dest: quiet_on_state)

lemma quiet_Setup: "no_more w (snd (handleMFASetup e ac w))"
  by (auto simp: handleMFASetup_def split: sum.split prod.split option.split)

lemma quiet_Confirm: "no_more w (snd (handleMFAConfirm e b ac w))"
  unfolding handleMFAConfirm_def
  by (rule with_body_quiet) (auto split: sum.split prod.split option.split)

lemma confirm_quiet: "requirePasswordConfirm e b ac w = (r, w1) \<Longrightarrow> no_more w w1"
  by (auto simp: requirePasswordConfirm_def Let_def split: json_body.splits sum.splits if_splits)

lemma quiet_Disable: "no_more w (snd (handleMFADisable e rq b ac w))"
proof (cases "requirePasswordConfirm e b ac w")
  case (Pair r w1)
  from confirm_quiet [OF Pair] show ?thesis
    by (auto simp: handleMFADisable_def Pair split: sum.split prod.split intro: no_more_trans [OF _ no_more_users_revoke] no_more_trans [OF _ quiet_users(1)])
qed

lemma quiet_NewCodes: "no_more w (snd (handleMFARecoveryCodesRegenerate e rq b ac w))"
proof (cases "requirePasswordConfirm e b ac w")
  case (Pair r w1)
  from confirm_quiet [OF Pair] show ?thesis
    by (auto simp: handleMFARecoveryCodesRegenerate_def Pair split: sum.split prod.split option.split
        intro: no_more_trans [OF _ no_more_users_revoke] no_more_trans [OF _ quiet_users(1)])
qed

lemma quiet_PushEnabled: "no_more w (snd (handleMFAPushEnabled e b ac w))"
  unfolding handleMFAPushEnabled_def
  by (rule with_body_quiet)
    (auto simp: Let_def split: sum.split prod.split intro: no_more_trans [OF quiet_on_state quiet_users(1)] dest: quiet_on_state)

lemma quiet_DeviceMFA: "no_more w (snd (handleNativeDeviceMFA e i b ac w))"
  by (auto simp: handleNativeDeviceMFA_def Let_def with_body_def split: json_body.split prod.split option.split dest: quiet_on_state)

lemma quiet_cut_off: "no_more w (cut_off e u w)"
  unfolding cut_off_def by (rule no_more_trans [OF no_more_revoke no_more_same]) simp_all

lemma quiet_stored: "(\<And>u w. no_more w (after u w)) \<Longrightarrow> no_more w (snd (stored_account res after w))"
  by (auto simp: stored_account_def split: prod.split sum.split intro: no_more_trans [OF quiet_users(1)])

lemma quiet_List: "no_more w (snd (handleUsersList ac w))"
  by (simp add: handleUsersList_def split: sum.split)

lemma quiet_Create: "no_more w (snd (handleUsersCreate e b ac w))"
  unfolding handleUsersCreate_def
  by (rule with_body_quiet) (auto simp: Let_def split: option.split prod.split sum.split users_error.split)

lemma quiet_Update: "no_more w (snd (handleUsersUpdate e i b ac w))"
  unfolding handleUsersUpdate_def
  by (rule with_body_quiet) (auto split: option.split sum.split intro: quiet_stored)

lemma quiet_Reset: "no_more w (snd (handleUsersResetPassword e i b ac w))"
  unfolding handleUsersResetPassword_def
  by (rule with_body_quiet) (auto intro: quiet_stored quiet_cut_off)

lemma quiet_Deactivate: "no_more w (snd (handleUsersDeactivate e i ac w))"
  by (auto simp: handleUsersDeactivate_def split: sum.split intro: quiet_stored quiet_cut_off)

lemma quiet_Reactivate: "no_more w (snd (handleUsersReactivate e i ac w))"
  by (auto simp: handleUsersReactivate_def intro: quiet_stored)

lemma quiet_ClearMFA: "no_more w (snd (handleUsersClearMFA e i ac w))"
  unfolding handleUsersClearMFA_def
  by (rule quiet_stored) (rule no_more_trans [OF quiet_cut_off no_more_delete_user])

lemma quiet_PushPoll: "no_more w (snd (handlePushPoll e b w))"
  unfolding handlePushPoll_def
  by (rule with_body_quiet) (auto split: option.split prod.split intro: no_more_status [THEN no_more_snd])

lemmas quiet_handlers = quiet_Me quiet_CSRF quiet_Logout quiet_Password quiet_Status quiet_Setup quiet_Confirm quiet_Disable
  quiet_NewCodes quiet_PushEnabled quiet_DeviceMFA quiet_List quiet_Create quiet_Update quiet_Reset quiet_Deactivate
  quiet_Reactivate quiet_ClearMFA quiet_PushPoll

text \<open>Five requests can do more: a login, its three ends and the approval.\<close>

fun loud :: "auth_call \<Rightarrow> bool" where
  "loud (CallLogin b) = True"
| "loud (CallTOTP b) = True"
| "loud (CallRecoveryCode b) = True"
| "loud (CallPushFinish b) = True"
| "loud (CallPushRespond b) = True"
| "loud _ = False"

lemma quiet_serve: "\<not> loud c \<Longrightarrow> no_more w (snd (serve e rq c w))"
  by (cases c) (auto intro: quiet_handlers no_more_withAuth no_more_withAdmin)

section \<open>Where sessions come from\<close>

text \<open>The sessions of a user are justified, and so are the challenges and their approvals.\<close>

abbreviation first_factor :: "string \<Rightarrow> auth_event \<Rightarrow> bool" where
  "first_factor i \<equiv> password_given i (\<lambda>u. \<not> single_factor u)"

definition rooted :: "string \<Rightarrow> auth_event list \<Rightarrow> auth_world \<Rightarrow> bool" where
  "rooted i es w \<longleftrightarrow>
    (\<forall>t s. as_sessions w t = Some s \<and> ss_UserID s = i \<longrightarrow> justified i es) \<and>
    (\<forall>k ch. (k, ch) \<in> set (as_challenges w) \<and> ch_UserID ch = i \<longrightarrow>
       happened [first_factor i] es \<and> (ch_PushStatus ch = PushApproved \<longrightarrow> happened [first_factor i, device_approved i] es))"

lemma rooted_snoc: "rooted i es w \<Longrightarrow> rooted i (es @ [x]) w"
  unfolding rooted_def by (metis happened_snoc justified_snoc)

lemma rooted_quiet: "rooted i es w \<Longrightarrow> no_more w w' \<Longrightarrow> rooted i es w'"
  unfolding rooted_def no_more_def by metis

lemma rooted_finish:
  assumes "rooted i es w" "u_ID u = i \<Longrightarrow> justified i es"
  shows "rooted i es (snd (finish_login e rq u w))"
  using assms
  by (auto simp: finish_login_def startSession_def rooted_def split: option.split)

lemma login_rooted:
  assumes "rooted i es w"
  shows "rooted i (es @ [(e, rq, CallLogin body, w)]) (snd (handleLogin e rq body w))"
proof (cases body)
  case (Body b)
  let ?x = "(e, rq, CallLogin body, w)" and ?key = "lb_Username b @ [CHR 0x00] @ clientIP e rq"
  have r: "rooted i (es @ [?x]) w'" if "no_more w w'" for w'
    using rooted_quiet [OF rooted_snoc [OF assms] that] .
  show ?thesis
  proof (cases "fst (lockout_allowed (as_login w) ?key (now_of e)) \<and> captcha_refusal e (lb_CaptchaToken b) (clientIP e rq) = None")
    case False
    then show ?thesis using r [of w] by (auto simp: handleLogin_def Body Let_def split: option.split)
  next
    case past: True
    show ?thesis
    proof (cases "users_GetByUsername (lb_Username b) (as_users w)")
      case (Inl err)
      then show ?thesis using r [OF quiet_users(2)] past by (simp add: handleLogin_def Body Let_def)
    next
      case (Inr u)
      define w1 where "w1 = w\<lparr>as_login := lockout_recordSuccess (as_login w) ?key\<rparr>"
      show ?thesis
      proof (cases "u_Active u \<and> VerifyPassword (ae_kdf e) u (lb_Password b)")
        case False
        then show ?thesis using r [OF quiet_users(2)] past Inr by (auto simp: handleLogin_def Body Let_def)
      next
        case ok: True
        have given: "u_ID u = i \<Longrightarrow> P u \<Longrightarrow> happened [password_given i P] (es @ [?x])" for P
          using happened_now [of "[]" es "password_given i P" ?x] past ok Inr by (simp add: password_given_def Body)
        have w1: "rooted i (es @ [?x]) w1" using r [OF quiet_users(2)] by (simp add: w1_def)
        have h: "handleLogin e rq body w = (if single_factor u then finish_login e rq u w1 else start_challenge e u w1)"
          using past ok Inr by (simp add: handleLogin_def Body Let_def w1_def single_factor_def)
        show ?thesis
        proof (cases "single_factor u")
          case True
          then show ?thesis using rooted_finish [OF w1, of u] given [of single_factor] by (simp add: h justified_def)
        next
          case False
          then show ?thesis using w1 given [of "\<lambda>u. \<not> single_factor u"]
            by (auto simp: h start_challenge_def mfa_Create_def Let_def rooted_def PushApproved_def split: option.split prod.split
                dest!: update_subset)
        qed
      qed
    qed
  qed
qed (use assms in \<open>auto simp: handleLogin_def intro: rooted_snoc\<close>)

text \<open>What the two endpoints that take a code know when they look at it.\<close>

lemma open_challenge_rooted:
  assumes "rooted i es w"
    and "\<And>ch u w1. no_more w w1 \<Longrightarrow> as_users w1 = as_users w \<Longrightarrow> fst (lockout_allowed (as_mfa w) (ch_UserID ch) (now_of e)) \<Longrightarrow>
      (trim_space k, ch) \<in> set (as_challenges w) \<Longrightarrow> users_Get (ch_UserID ch) (as_users w) = Inr u \<Longrightarrow> u_Active u \<Longrightarrow> usable u \<Longrightarrow>
      rooted i (es @ [x]) (snd (f ch u w1))"
  shows "rooted i (es @ [x]) (snd (open_challenge e k usable f w))"
proof -
  obtain r w1 where g: "with_mfa (mfa_Get (now_of e) (trim_space k)) w = (r, w1)" by (rule prod.exhaust)
  have w1: "no_more w w1" using no_more_get g by (rule no_more_snd)
  have same: "as_users w1 = as_users w" "as_mfa w1 = as_mfa w" using g by (auto simp: with_mfa_def split: prod.splits)
  have "(trim_space k, ch) \<in> set (as_challenges w)" if "r = Some ch" for ch
    using g that by (auto simp: with_mfa_def mfa_Get_def split: option.splits if_splits dest: map_of_SomeD)
  then show ?thesis
    using assms(2) [OF w1 same(1)] rooted_quiet [OF rooted_snoc [OF assms(1)] w1]
    by (auto simp: open_challenge_def g same split: option.split sum.split)
qed

lemma wrong_code_quiet: "no_more w (snd (wrong_code e ch w))"
proof -
  obtain r w1 where a: "with_mfa (mfa_RecordTOTPAttempt (now_of e) (ch_ID ch)) (mfa_strike e (ch_UserID ch) w) = (r, w1)" by (rule prod.exhaust)
  have "no_more (mfa_strike e (ch_UserID ch) w) w1" using no_more_attempt a by (rule no_more_snd)
  then have "no_more w w1" using no_more_trans [of w "mfa_strike e (ch_UserID ch) w" w1] no_more_same by auto
  then show ?thesis by (auto simp: wrong_code_def a split: option.split mfa_error.split)
qed

lemma no_more_drop_challenge: "no_more w (w\<lparr>as_users := d, as_mfa := l, as_challenges := mfa_Delete k (as_challenges w)\<rparr>)"
  by (rule no_more_shrink) (auto simp: mfa_Delete_def dest: delete_subset)

lemma users_Get_ID: "users_Get i d = Inr u \<Longrightarrow> u_ID u = i"
  by (auto simp: users_Get_def find_or_not_found_def and_then_def split: sum.splits option.splits dest: find_SomeD)

lemma step_newer:
  assumes "SetLastUsedTOTPStep e i step d = (Inr u', d')" "users_Get i d = Inr u"
  shows "u_LastUsedTOTPStep u < step"
  using assms
  by (auto simp: SetLastUsedTOTPStep_def users_mutate_def users_Get_def find_or_not_found_def and_then_def
      split: sum.splits option.splits if_splits)

lemma code_spent:
  assumes "ConsumeRecoveryCode kdf e i c d = (Inr (Some u'), d')" "users_Get i d = Inr u"
  shows "list_ex (\<lambda>h. verifyScryptHash kdf h c) (u_RecoveryCodesHash u)"
  using assms
  by (auto simp: ConsumeRecoveryCode_def users_mutate_def users_Get_def find_or_not_found_def and_then_def spend_code_def
      split: sum.splits option.splits if_splits users_error.splits prod.splits)

lemma totp_rooted:
  assumes "rooted i es w"
  shows "rooted i (es @ [(e, rq, CallTOTP body, w)]) (snd (handleMFATOTP e rq body w))"
proof (cases body)
  case (Body b)
  let ?x = "(e, rq, CallTOTP body, w)"
  have "rooted i (es @ [?x]) (snd (case ae_unseal e (u_TOTPSecretEnc u) of
        None \<Rightarrow> (HttpError 500 ''failed to load second factor'', w1)
      | Some secret \<Rightarrow>
         (case totp_step e secret (cb_Code b) of
            None \<Rightarrow> wrong_code e ch w1
          | Some step \<Rightarrow>
             (case with_mfa (mfa_ConsumeTOTPStep (now_of e) (ch_ID ch) step) w1 of
                (Some ErrChallengeAlreadyUsed, w1) \<Rightarrow> (HttpError 401 ''challenge already used'', w1)
              | (Some _, w1) \<Rightarrow> (bad_challenge, w1)
              | (None, w1) \<Rightarrow>
                 (case SetLastUsedTOTPStep (ae_env e) (u_ID u) step (as_users w1) of
                    (Inl _, d) \<Rightarrow>
                      (HttpError 401 ''invalid code'', drop_challenge (ch_ID ch) (mfa_strike e (ch_UserID ch) (w1\<lparr>as_users := d\<rparr>)))
                  | (Inr _, d) \<Rightarrow>
                      finish_login e rq u (drop_challenge (ch_ID ch) (mfa_clear (ch_UserID ch) (w1\<lparr>as_users := d\<rparr>))))))))"
    if w1: "no_more w w1" "as_users w1 = as_users w" and past: "fst (lockout_allowed (as_mfa w) (ch_UserID ch) (now_of e))"
      and ch: "(trim_space (cb_ChallengeID b), ch) \<in> set (as_challenges w)"
      and u: "users_Get (ch_UserID ch) (as_users w) = Inr u" "u_Active u" "u_TOTPEnabled u \<and> u_TOTPSecretEnc u \<noteq> ''''" for ch u w1
  proof -
    have r: "rooted i (es @ [?x]) w'" if "no_more w w'" for w'
      using rooted_quiet [OF rooted_snoc [OF assms] that] .
    have ui: "u_ID u = ch_UserID ch" by (rule users_Get_ID [OF u(1)])
    show ?thesis
    proof (cases "ae_unseal e (u_TOTPSecretEnc u)")
      case None
      then show ?thesis using r [OF w1(1)] by simp
    next
      case sec: (Some secret)
      show ?thesis
      proof (cases "totp_step e secret (cb_Code b)")
        case None
        then show ?thesis using sec r [OF no_more_trans [OF w1(1) wrong_code_quiet]] by simp
      next
        case st: (Some step)
        obtain err w2 where c: "with_mfa (mfa_ConsumeTOTPStep (now_of e) (ch_ID ch) step) w1 = (err, w2)" by (rule prod.exhaust)
        have w2: "no_more w w2" using no_more_trans [OF w1(1) no_more_snd [OF no_more_consume_step c]] .
        have users: "as_users w2 = as_users w" using c w1(2) by (auto simp: with_mfa_def split: prod.splits)
        obtain res d where s: "SetLastUsedTOTPStep (ae_env e) (u_ID u) step (as_users w2) = (res, d)" by (rule prod.exhaust)
        have drop: "rooted i (es @ [?x]) (w2\<lparr>as_users := d, as_mfa := l, as_challenges := mfa_Delete k (as_challenges w2)\<rparr>)" for l d k
          using r [OF no_more_trans [OF w2 no_more_drop_challenge]] .
        show ?thesis
        proof (cases "err = None \<and> \<not> isl res")
          case False
          then show ?thesis using sec st c s r [OF w2] drop by (auto split: option.split mfa_error.split sum.split)
        next
          case True
          then obtain u' where res: "res = Inr u'" by (cases res) auto
          have "justified i (es @ [?x])" if me: "u_ID u = i"
          proof -
            have "u_LastUsedTOTPStep u < step" using step_newer [OF s [unfolded res]] u(1) users ui by simp
            then have "code_given i ?x" using past u sec st me ui by (simp add: code_given_def Body)
            moreover have "happened [first_factor i] es" using assms ch me ui by (auto simp: rooted_def)
            ultimately show ?thesis using happened_now [of "[first_factor i]" es "code_given i" ?x] by (simp add: justified_def)
          qed
          then show ?thesis using sec st c s res True rooted_finish [OF drop, of u] by simp
        qed
      qed
    qed
  qed
  then show ?thesis using open_challenge_rooted [OF assms] by (simp add: handleMFATOTP_def Body)
qed (use assms in \<open>auto simp: handleMFATOTP_def intro: rooted_snoc\<close>)

lemma recovery_rooted:
  assumes "rooted i es w"
  shows "rooted i (es @ [(e, rq, CallRecoveryCode body, w)]) (snd (handleMFARecoveryCode e rq body w))"
proof (cases body)
  case (Body b)
  let ?x = "(e, rq, CallRecoveryCode body, w)"
  have "rooted i (es @ [?x]) (snd (case ConsumeRecoveryCode (ae_kdf e) (ae_env e) (u_ID u) (trim_space (cb_Code b)) (as_users w1) of
        (Inl _, d) \<Rightarrow> (HttpError 500 ''failed to verify recovery code'', w1\<lparr>as_users := d\<rparr>)
      | (Inr None, d) \<Rightarrow> wrong_code e ch (w1\<lparr>as_users := d\<rparr>)
      | (Inr (Some _), d) \<Rightarrow>
          finish_login e rq u (drop_challenge (ch_ID ch) (mfa_clear (ch_UserID ch) (w1\<lparr>as_users := d\<rparr>)))))"
    if w1: "no_more w w1" "as_users w1 = as_users w" and past: "fst (lockout_allowed (as_mfa w) (ch_UserID ch) (now_of e))"
      and ch: "(trim_space (cb_ChallengeID b), ch) \<in> set (as_challenges w)"
      and u: "users_Get (ch_UserID ch) (as_users w) = Inr u" "u_Active u" "u_TOTPEnabled u" for ch u w1
  proof -
    have r: "rooted i (es @ [?x]) w'" if "no_more w1 w'" for w'
      using rooted_quiet [OF rooted_snoc [OF assms] no_more_trans [OF w1(1) that]] .
    have ui: "u_ID u = ch_UserID ch" by (rule users_Get_ID [OF u(1)])
    obtain res d where s: "ConsumeRecoveryCode (ae_kdf e) (ae_env e) (u_ID u) (trim_space (cb_Code b)) (as_users w1) = (res, d)"
      by (rule prod.exhaust)
    show ?thesis
    proof (cases "\<exists>u'. res = Inr (Some u')")
      case False
      then show ?thesis
        using s r [OF quiet_users(1)] r [OF no_more_trans [OF quiet_users(1) wrong_code_quiet]] by (auto split: sum.split option.split)
    next
      case True
      then obtain u' where res: "res = Inr (Some u')" by blast
      have "justified i (es @ [?x])" if me: "u_ID u = i"
      proof -
        have "list_ex (\<lambda>h. verifyScryptHash (ae_kdf e) h (trim_space (cb_Code b))) (u_RecoveryCodesHash u)"
          using code_spent [OF s [unfolded res]] u(1) w1(2) ui by simp
        then have "code_given i ?x" using past u me ui by (simp add: code_given_def Body)
        moreover have "happened [first_factor i] es" using assms ch me ui by (auto simp: rooted_def)
        ultimately show ?thesis using happened_now [of "[first_factor i]" es "code_given i" ?x] by (simp add: justified_def)
      qed
      then show ?thesis using s res rooted_finish [OF r [OF no_more_drop_challenge], of u] by simp
    qed
  qed
  then show ?thesis using open_challenge_rooted [OF assms] by (simp add: handleMFARecoveryCode_def Body)
qed (use assms in \<open>auto simp: handleMFARecoveryCode_def intro: rooted_snoc\<close>)

lemma push_finish_rooted:
  assumes "rooted i es w"
  shows "rooted i (es @ [(e, rq, CallPushFinish body, w)]) (snd (handlePushFinish e rq body w))"
proof (cases body)
  case (Body k)
  let ?x = "(e, rq, CallPushFinish body, w)"
  obtain r w1 where c: "with_mfa (mfa_ConsumePushApproval (now_of e) (trim_space k)) w = (r, w1)" by (rule prod.exhaust)
  have w1: "rooted i (es @ [?x]) w1" using rooted_quiet [OF rooted_snoc [OF assms] no_more_snd [OF no_more_approval c]] .
  have users: "as_users w1 = as_users w" using c by (auto simp: with_mfa_def split: prod.splits)
  show ?thesis
  proof (cases r)
    case (Inl err)
    then show ?thesis using w1 c by (cases err) (simp_all add: handlePushFinish_def Body)
  next
    case (Inr uid)
    obtain ch where "live (as_challenges w) (now_of e) (trim_space k) = Some ch" "ch_PushStatus ch = PushApproved" "ch_UserID ch = uid"
      using c Inr by (auto simp: with_mfa_def mfa_ConsumePushApproval_def split: option.splits if_splits)
    then have ch: "(trim_space k, ch) \<in> set (as_challenges w)" "ch_PushStatus ch = PushApproved" "ch_UserID ch = uid"
      by (auto simp: live_def split: option.splits if_splits dest: map_of_SomeD)
    show ?thesis
    proof (cases "\<exists>u. users_Get uid (as_users w) = Inr u \<and> u_Active u \<and> u_PushMFAEnabled u")
      case False
      then show ?thesis using w1 c Inr by (auto simp: handlePushFinish_def Body users split: sum.split)
    next
      case True
      then obtain u where u: "users_Get uid (as_users w) = Inr u" "u_Active u" "u_PushMFAEnabled u" by blast
      have "justified i (es @ [?x])" if me: "u_ID u = i"
      proof -
        have uid: "uid = i" using users_Get_ID [OF u(1)] me by simp
        then have "happened [first_factor i, device_approved i] es" using assms ch by (auto simp: rooted_def)
        moreover have "push_finished i ?x" using u uid by (simp add: push_finished_def Body)
        ultimately show ?thesis
          using happened_now [of "[first_factor i, device_approved i]" es "push_finished i" ?x] by (simp add: justified_def)
      qed
      then show ?thesis using c Inr u rooted_finish [OF w1, of u] by (simp add: handlePushFinish_def Body users)
    qed
  qed
qed (use assms in \<open>auto simp: handlePushFinish_def intro: rooted_snoc\<close>)

lemma device_authenticated:
  assumes "deviceAuthFromRequest e rq w = (Inr (i, dev), w1)"
  shows "fst (GetNativeDevice (trim_space (rq_DeviceID rq)) (as_stores w i)) = Some dev \<and>
    VerifySecretHash (ae_kdf e) (nd_SecretHash dev) (rq_DeviceSecret rq) \<and>
    (\<exists>u. users_Get i (as_users w) = Inr u \<and> u_Active u)"
proof -
  let ?i = "trim_space (rq_DeviceID rq)"
  obtain o1 w2 where l: "lookupUserByDevice e ?i w = (o1, w2)" by (rule prod.exhaust)
  have w2: "as_users w2 = as_users w" "as_stores w2 = as_stores w"
    using lookup_sel(3,4) [of e ?i w] by (simp_all add: l)
  obtain oid where o1: "o1 = Some oid" using assms l by (cases o1) (auto simp: deviceAuthFromRequest_def Let_def split: if_splits)
  obtain d w3 where g: "on_state (GetNativeDevice ?i) oid w2 = (d, w3)" by (rule prod.exhaust)
  have "as_users w3 = as_users w" using on_state_sel(3) [of "GetNativeDevice ?i" oid w2] by (simp add: g w2)
  moreover have "fst (GetNativeDevice ?i (as_stores w oid)) = d" using g w2 by (auto simp: on_state_def split: prod.splits)
  ultimately show ?thesis
    using assms l o1 g by (auto simp: deviceAuthFromRequest_def Let_def split: if_splits option.splits sum.splits)
qed

lemma push_respond_rooted:
  assumes "rooted i es w"
  shows "rooted i (es @ [(e, rq, CallPushRespond body, w)]) (snd (handlePushRespond e rq body w))"
proof -
  let ?x = "(e, rq, CallPushRespond body, w)"
  obtain a w1 where d: "deviceAuthFromRequest e rq w = (a, w1)" by (rule prod.exhaust)
  have same1: "as_sessions w1 = as_sessions w" "as_challenges w1 = as_challenges w" "as_users w1 = as_users w"
    using device_auth_sel [of e rq w] by (simp_all add: d)
  have r: "rooted i (es @ [?x]) w'" if "no_more w1 w'" for w'
    using rooted_quiet [OF rooted_snoc [OF assms] no_more_trans [OF no_more_same that]] same1 by blast
  show ?thesis
  proof (cases "\<exists>uid dev k approve. a = Inr (uid, dev) \<and> body = Body (k, approve) \<and> trim_space k \<noteq> ''''")
    case False
    then show ?thesis using r [OF no_more_refl] d
      by (cases a; cases body) (auto simp: handlePushRespond_def Let_def split: prod.splits)
  next
    case True
    then obtain uid dev k approve where a: "a = Inr (uid, dev)" and body: "body = Body (k, approve)" "trim_space k \<noteq> ''''" by blast
    note dev = device_authenticated [OF d [unfolded a]]
    obtain g w2 where g: "with_mfa (mfa_Get (now_of e) (trim_space k)) w1 = (g, w2)" by (rule prod.exhaust)
    have w2: "no_more w1 w2" using no_more_snd [OF no_more_get g] .
    have users2: "as_users w2 = as_users w" using g same1 by (auto simp: with_mfa_def split: prod.splits)
    show ?thesis
    proof (cases "\<exists>ch u. g = Some ch \<and> ch_UserID ch = uid \<and> users_Get uid (as_users w) = Inr u \<and> u_PushMFAEnabled u \<and> ae_open e uid")
      case False
      then show ?thesis using r [OF w2] d a body g users2 by (auto simp: handlePushRespond_def split: option.split sum.split)
    next
      case True
      then obtain ch u where ch: "g = Some ch" "ch_UserID ch = uid" "users_Get uid (as_users w) = Inr u" "u_PushMFAEnabled u" "ae_open e uid"
        by blast
      obtain ds w3 where l: "on_state ListNativeDevices uid w2 = (ds, w3)" by (rule prod.exhaust)
      have w3: "no_more w1 w3" using no_more_trans [OF w2 quiet_on_state [OF l]] .
      obtain status err w4 where s: "with_mfa (mfa_ResolvePush (now_of e) (trim_space k) (nd_DeviceID dev) approve) w3 = ((status, err), w4)"
        by (metis prod.exhaust)
      have rest: "snd (handlePushRespond e rq body w) = (if list_ex nd_MFAApprover ds \<and> \<not> nd_MFAApprover dev then w3 else w4)"
        using d a body g ch users2 l s by (auto simp: handlePushRespond_def split: option.split mfa_error.split)
      have approved: "approve \<Longrightarrow> uid = i \<Longrightarrow> device_approved i ?x" using dev ch by (auto simp: device_approved_def body)
      have "rooted i (es @ [?x]) w4"
      proof (cases "live (as_challenges w3) (now_of e) (trim_space k)")
        case None
        then have "no_more w3 w4" using s by (intro no_more_shrink) (auto simp: with_mfa_def mfa_ResolvePush_def dest: delete_subset)
        then show ?thesis by (rule r [OF no_more_trans [OF w3]])
      next
        case (Some c)
        have c: "(trim_space k, c) \<in> set (as_challenges w3)"
          using Some by (auto simp: live_def split: option.splits if_splits dest: map_of_SomeD)
        have users: "ch_UserID c = uid"
        proof -
          have "as_challenges w3 = as_challenges w2" using on_state_sel(2) [of ListNativeDevices uid w2] by (simp add: l)
          moreover have "map_of (as_challenges w2) (trim_space k) = Some ch"
            using g ch(1) by (auto simp: with_mfa_def mfa_Get_def split: option.splits if_splits)
          ultimately show ?thesis using Some ch(2) by (auto simp: live_def split: if_splits)
        qed
        have old: "rooted i es w3" using rooted_quiet [OF assms no_more_trans [OF no_more_same w3]] same1 by blast
        note new = r [OF w3]
        show ?thesis
        proof (cases "ch_PushStatus c = PushApproved \<or> ch_PushStatus c = PushDenied")
          case True
          then show ?thesis using new s Some by (simp add: with_mfa_def mfa_ResolvePush_def)
        next
          case False
          define c1 where "c1 = c\<lparr>ch_PushStatus := (if approve then PushApproved else PushDenied), ch_RespondedBy := nd_DeviceID dev\<rparr>"
          have w4: "as_sessions w4 = as_sessions w3" "as_challenges w4 = AList.update (trim_space k) c1 (as_challenges w3)"
            using s Some False by (auto simp: with_mfa_def mfa_ResolvePush_def Let_def c1_def)
          have first: "uid = i \<Longrightarrow> happened [first_factor i] es" using old c users by (auto simp: rooted_def)
          have c1: "happened [first_factor i] (es @ [?x]) \<and>
            (ch_PushStatus c1 = PushApproved \<longrightarrow> happened [first_factor i, device_approved i] (es @ [?x]))" if "ch_UserID c1 = i"
          proof -
            have "uid = i" using that users by (simp add: c1_def)
            moreover have "ch_PushStatus c1 = PushApproved \<Longrightarrow> approve"
              by (cases approve) (simp_all add: c1_def PushApproved_def PushDenied_def)
            ultimately show ?thesis
              using first approved happened_snoc [of "[first_factor i]" es ?x] happened_now [of "[first_factor i]" es "device_approved i" ?x] by auto
          qed
          show ?thesis using new c1 unfolding rooted_def w4 by (blast dest!: update_subset)
        qed
      qed
      then show ?thesis using r [OF w3] by (simp add: rest)
    qed
  qed
qed

lemma serve_rooted: "rooted i es w \<Longrightarrow> rooted i (es @ [(e, rq, c, w)]) (snd (serve e rq c w))"
proof (cases "loud c")
  case True
  then show "rooted i es w \<Longrightarrow> ?thesis"
    by (cases c) (auto intro: login_rooted totp_rooted recovery_rooted push_finish_rooted push_respond_rooted)
next
  case False
  then show "rooted i es w \<Longrightarrow> ?thesis" using rooted_quiet [OF rooted_snoc quiet_serve] by blast
qed

lemma run_rooted: "auth_run w0 es w \<Longrightarrow> rooted i [] w0 \<Longrightarrow> rooted i es w"
  by (induction rule: auth_run.induct) (auto intro: serve_rooted rooted_quiet no_more_same)

text \<open>
  C3: whatever is requested, in any order, by anyone, and whatever changes the accounts, the devices and the
  throttles in between: a session of a user who had neither a session nor a challenge at the start stems from a
  login with the password of the active account, and, if the account had a second factor then, from a later code of
  that account (one that is newer than every code accepted before, or a recovery code), or from a later approval by
  a device of that user that has shown its secret and a redemption after it.
\<close>

theorem sessions_have_factors:
  assumes "auth_run w0 es w" "\<And>t s. as_sessions w0 t = Some s \<Longrightarrow> ss_UserID s \<noteq> i"
    and "\<And>k ch. (k, ch) \<in> set (as_challenges w0) \<Longrightarrow> ch_UserID ch \<noteq> i"
    and "as_sessions w t = Some s" "ss_UserID s = i"
  shows "happened [password_given i single_factor] es \<or>
    happened [password_given i (\<lambda>u. \<not> single_factor u), code_given i] es \<or>
    happened [password_given i (\<lambda>u. \<not> single_factor u), device_approved i, push_finished i] es"
proof -
  have "rooted i [] w0" using assms(2,3) by (auto simp: rooted_def)
  then have "rooted i es w" using run_rooted [OF assms(1)] by blast
  then show ?thesis using assms(4,5) by (auto simp: rooted_def justified_def)
qed

section \<open>An administrator stays\<close>

definition is_admin :: "user \<Rightarrow> bool" where
  "is_admin u \<longleftrightarrow> u_Role u = RoleAdmin \<and> u_Active u"

definition admin_left :: "users_disk \<Rightarrow> bool" where
  "admin_left d \<longleftrightarrow> (case d of Json f \<Rightarrow> list_ex is_admin (uf_Users f) | _ \<Rightarrow> False)"

lemma admin_left_iff: "admin_left d \<longleftrightarrow> (\<exists>f u. d = Json f \<and> u \<in> set (uf_Users f) \<and> is_admin u)"
  by (cases d) (auto simp: admin_left_def list_ex_iff)

lemma replace_first_keeps:
  "List.find P xs = Some y \<Longrightarrow> x \<in> set xs \<Longrightarrow> x \<noteq> y \<Longrightarrow> x \<in> set (replace_first P f xs)"
  "List.find P xs = Some y \<Longrightarrow> f y \<in> set (replace_first P f xs)"
  by (induction xs) (auto split: if_splits)

text \<open>A change of account i keeps an administrator if that account stays one or another one is left.\<close>

lemma mutate_admin:
  assumes "admin_left d" "\<And>u u'. fn u = Inr u' \<Longrightarrow> is_admin u \<Longrightarrow> is_admin u' \<or> isLastActiveAdmin i d = Inr False"
  shows "admin_left (snd (users_mutate e i fn d))"
proof -
  obtain f a where f: "d = Json f" "a \<in> set (uf_Users f)" "is_admin a" using assms(1) by (auto simp: admin_left_iff)
  obtain r d' where m: "users_mutate e i fn (Json f) = (r, d')" by (rule prod.exhaust)
  from m have "admin_left d'"
  proof (cases rule: mutate_cases)
    case (1 err)
    then show ?thesis using assms(1) f by simp
  next
    case (2 u u1)
    let ?u2 = "u1\<lparr>u_UpdatedAt := stamp e\<rparr>" and ?us = "replace_first (\<lambda>u. u_ID u = i) (\<lambda>_. u1\<lparr>u_UpdatedAt := stamp e\<rparr>) (uf_Users f)"
    have find: "List.find (\<lambda>u. u_ID u = i) (uf_Users f) = Some u" using 2(1) by (simp add: account_Json)
    have "\<exists>x. x \<in> set ?us \<and> is_admin x"
    proof (cases "is_admin u1 \<or> a \<noteq> u")
      case True
      then show ?thesis
      proof
        assume "is_admin u1"
        then have "is_admin ?u2" by (simp add: is_admin_def)
        then show ?thesis using replace_first_keeps(2) [OF find, of "\<lambda>_. ?u2"] by blast
      next
        assume "a \<noteq> u"
        then show ?thesis using replace_first_keeps(1) [OF find f(2)] f(3) by blast
      qed
    next
      case False
      then have "isLastActiveAdmin i d = Inr False" using assms(2) [OF 2(2)] f(3) by auto
      moreover have "list_ex (\<lambda>x. u_ID x = i) (filter (\<lambda>u. u_Role u = RoleAdmin \<and> u_Active u) (uf_Users f))"
        using False f(2,3) find_SomeD [OF find] by (auto simp: list_ex_iff is_admin_def)
      ultimately have "filter (\<lambda>x. u_ID x \<noteq> i) (filter (\<lambda>u. u_Role u = RoleAdmin \<and> u_Active u) (uf_Users f)) \<noteq> []"
        by (auto simp: isLastActiveAdmin_def users_List_def users_read_def and_then_def f(1) Let_def)
      then obtain b where "b \<in> set (uf_Users f)" "u_ID b \<noteq> i" "is_admin b" by (auto simp: is_admin_def filter_empty_conv)
      then show ?thesis using replace_first_keeps(1) [OF find] find_SomeD [OF find] by metis
    qed
    then show ?thesis using 2(4) by (auto simp: admin_left_iff)
  qed
  then show ?thesis using f(1) m by simp
qed

lemma mutate_admin_same:
  assumes "admin_left d" "\<And>u u'. fn u = Inr u' \<Longrightarrow> u_Role u' = u_Role u \<and> (u_Active u \<longrightarrow> u_Active u')"
  shows "admin_left (snd (users_mutate e i fn d))"
  by (rule mutate_admin [OF assms(1)]) (use assms(2) in \<open>auto simp: is_admin_def\<close>)

lemma password_admin: "admin_left d \<Longrightarrow> admin_left (snd (SetPassword kdf e salt i p c d))"
  by (auto simp: SetPassword_def split: sum.split intro: mutate_admin_same)

lemma create_admin: "admin_left d \<Longrightarrow> admin_left (snd (users_Create kdf e salt n p r d))"
  by (auto simp: users_Create_def admin_left_iff users_read_def users_write_def Let_def split: json_file.splits sum.splits prod.splits)

lemma consume_admin: "admin_left d \<Longrightarrow> admin_left (snd (ConsumeRecoveryCode kdf e i c d))"
proof -
  assume "admin_left d"
  then have "admin_left (snd (users_mutate e i (spend_code kdf c) d))"
    by (rule mutate_admin_same) (auto simp: spend_code_def split: if_splits)
  then show ?thesis
    by (auto simp: ConsumeRecoveryCode_def split: prod.splits sum.splits users_error.splits)
qed

lemma mutations_admin:
  assumes "admin_left d"
  shows "admin_left (snd (SetPendingTOTPSecret e i x d))" "admin_left (snd (EnableTOTP e i at hs d))"
    "admin_left (snd (DisableTOTP e i d))" "admin_left (snd (SetPushMFAEnabled e i b d))"
    "admin_left (snd (SetLastUsedTOTPStep e i st d))" "admin_left (snd (ReplaceRecoveryCodes e i hs d))"
    "admin_left (snd (Reactivate e i d))"
  unfolding SetPendingTOTPSecret_def EnableTOTP_def DisableTOTP_def SetPushMFAEnabled_def SetLastUsedTOTPStep_def
    ReplaceRecoveryCodes_def Reactivate_def
  by (rule mutate_admin_same [OF assms]; auto split: if_splits)+

lemma role_admin:
  assumes "admin_left d" "role = RoleAdmin \<or> isLastActiveAdmin i d = Inr False"
  shows "admin_left (snd (users_SetRole e i role d))"
  unfolding users_SetRole_def by (rule mutate_admin [OF assms(1)]) (use assms(2) in \<open>auto simp: is_admin_def\<close>)

lemma deactivate_admin:
  assumes "admin_left d" "isLastActiveAdmin i d = Inr False"
  shows "admin_left (snd (Deactivate e i d))"
  unfolding Deactivate_def by (rule mutate_admin [OF assms(1)]) (use assms(2) in auto)

text \<open>The handlers: whatever is not about the accounts leaves them alone.\<close>

lemma currentUser_users [simp]: "as_users (snd (currentUser e rq w)) = as_users w"
  by (simp add: currentUser_def drop_session_def Let_def split: option.split sum.split)

lemma users_drop [simp]: "as_users (drop_session t w) = as_users w" "as_users (revokeUserSessions i k w) = as_users w"
  by (simp_all add: drop_session_def revokeUserSessions_def)

lemma with_mfa_users: "with_mfa f w = (r, w1) \<Longrightarrow> as_users w1 = as_users w"
  by (auto simp: with_mfa_def split: prod.splits)

lemma on_state_users: "on_state f i w = (r, w1) \<Longrightarrow> as_users w1 = as_users w"
  by (auto simp: on_state_def split: prod.splits)

lemma finish_users [simp]: "as_users (snd (finish_login e rq u w)) = as_users w"
  by (simp add: finish_login_def startSession_def split: option.split)

lemma wrong_code_users [simp]: "as_users (snd (wrong_code e ch w)) = as_users w"
  by (auto simp: wrong_code_def with_mfa_def split: prod.split option.split mfa_error.split)

lemma withAuth_admin:
  assumes "admin_left (as_users w)" "\<And>ac w. admin_left (as_users w) \<Longrightarrow> admin_left (as_users (snd (h ac w)))"
  shows "admin_left (as_users (snd (withAuth e rq h w)))"
proof -
  obtain r w1 where c: "currentUser e rq w = (r, w1)" by (rule prod.exhaust)
  then have "as_users w1 = as_users w" using currentUser_users [of e rq w] by simp
  then show ?thesis using assms c by (auto simp: withAuth_def admit_def split: option.split)
qed

lemma withAdmin_admin:
  assumes "admin_left (as_users w)" "\<And>ac w. admin_left (as_users w) \<Longrightarrow> admin_left (as_users (snd (h ac w)))"
  shows "admin_left (as_users (snd (withAdmin e rq h w)))"
  unfolding withAdmin_def by (rule withAuth_admin [OF assms(1)]) (use assms(2) in auto)

lemma with_body_admin:
  assumes "admin_left (as_users w)" "\<And>p. admin_left (as_users (snd (k p w)))"
  shows "admin_left (as_users (snd (with_body b k w)))"
  using assms by (cases b) auto

lemma stored_admin:
  assumes "admin_left (snd res)" "\<And>u w. as_users (after u w) = as_users w"
  shows "admin_left (as_users (snd (stored_account res after w)))"
  using assms by (auto simp: stored_account_def split: prod.splits sum.splits)

lemma open_challenge_admin:
  assumes "admin_left (as_users w)" "\<And>ch u w. admin_left (as_users w) \<Longrightarrow> admin_left (as_users (snd (f ch u w)))"
  shows "admin_left (as_users (snd (open_challenge e k usable f w)))"
  using assms by (auto simp: open_challenge_def split: prod.split option.split sum.split dest!: with_mfa_users)

lemma snd_admin: "admin_left (snd q) \<Longrightarrow> q = (r, d) \<Longrightarrow> admin_left d"
  by simp

lemma Login_admin: "admin_left (as_users w) \<Longrightarrow> admin_left (as_users (snd (handleLogin e rq b w)))"
  unfolding handleLogin_def
  by (rule with_body_admin)
    (auto simp: Let_def start_challenge_def split: option.split sum.split prod.split)

lemma TOTP_admin: "admin_left (as_users w) \<Longrightarrow> admin_left (as_users (snd (handleMFATOTP e rq b w)))"
  unfolding handleMFATOTP_def
  by (rule with_body_admin, assumption, rule open_challenge_admin, assumption)
    (auto split: option.split sum.split prod.split mfa_error.split dest!: with_mfa_users intro: snd_admin [OF mutations_admin(5)])

lemma Recovery_admin: "admin_left (as_users w) \<Longrightarrow> admin_left (as_users (snd (handleMFARecoveryCode e rq b w)))"
  unfolding handleMFARecoveryCode_def
  by (rule with_body_admin, assumption, rule open_challenge_admin, assumption)
    (auto split: option.split sum.split prod.split intro: snd_admin [OF consume_admin])

lemma Poll_users [simp]: "as_users (snd (handlePushPoll e b w)) = as_users w"
  by (cases b) (auto simp: handlePushPoll_def split: prod.split option.split dest: with_mfa_users)

lemma Finish_users [simp]: "as_users (snd (handlePushFinish e rq b w)) = as_users w"
  by (cases b) (auto simp: handlePushFinish_def split: prod.split option.split sum.split mfa_error.split dest: with_mfa_users)

lemma Respond_users [simp]: "as_users (snd (handlePushRespond e rq b w)) = as_users w"
proof -
  obtain a w1 where d: "deviceAuthFromRequest e rq w = (a, w1)" by (rule prod.exhaust)
  then have "as_users w1 = as_users w" using device_auth_sel(3) [of e rq w] by simp
  then show ?thesis
    by (cases b) (auto simp: handlePushRespond_def d Let_def split: prod.split option.split sum.split mfa_error.split
        dest!: with_mfa_users on_state_users)
qed

lemma Me_users [simp]: "as_users (snd (handleMe e rq w)) = as_users w"
proof -
  obtain r w1 where c: "currentUser e rq w = (r, w1)" by (rule prod.exhaust)
  then have "as_users w1 = as_users w" using currentUser_users [of e rq w] by simp
  then show ?thesis by (auto simp: handleMe_def c split: option.split prod.split dest: on_state_users)
qed

lemma CSRF_users [simp]: "as_users (snd (handleCSRFToken e rq w)) = as_users w"
proof -
  obtain r w1 where c: "currentUser e rq w = (r, w1)" by (rule prod.exhaust)
  then have "as_users w1 = as_users w" using currentUser_users [of e rq w] by simp
  then show ?thesis by (auto simp: handleCSRFToken_def c split: option.split)
qed

lemma Logout_users [simp]: "as_users (snd (handleLogout e rq w)) = as_users w"
  by (simp add: handleLogout_def split: option.split)

lemma Password_admin: "admin_left (as_users w) \<Longrightarrow> admin_left (as_users (snd (handleChangePassword e rq b ac w)))"
  unfolding handleChangePassword_def
  by (rule with_body_admin) (auto split: sum.split prod.split intro: snd_admin [OF password_admin])

lemma Status_users [simp]: "as_users (snd (handleMFAStatus e ac w)) = as_users w"
  by (auto simp: handleMFAStatus_def mfa_devices_def split: sum.split prod.split dest: on_state_users)

lemma Setup_admin: "admin_left (as_users w) \<Longrightarrow> admin_left (as_users (snd (handleMFASetup e ac w)))"
  by (auto simp: handleMFASetup_def split: sum.split prod.split option.split intro: snd_admin [OF mutations_admin(1)])

lemma Confirm_admin: "admin_left (as_users w) \<Longrightarrow> admin_left (as_users (snd (handleMFAConfirm e b ac w)))"
  unfolding handleMFAConfirm_def
  by (rule with_body_admin)
    (auto split: sum.split prod.split option.split intro: snd_admin [OF mutations_admin(5)] snd_admin [OF mutations_admin(2)])

lemma confirm_users: "requirePasswordConfirm e b ac w = (r, w1) \<Longrightarrow> as_users w1 = as_users w"
  by (auto simp: requirePasswordConfirm_def Let_def split: json_body.splits sum.splits if_splits)

lemma Disable_admin: "admin_left (as_users w) \<Longrightarrow> admin_left (as_users (snd (handleMFADisable e rq b ac w)))"
  by (auto simp: handleMFADisable_def split: sum.split prod.split dest!: confirm_users intro: snd_admin [OF mutations_admin(3)])

lemma NewCodes_admin: "admin_left (as_users w) \<Longrightarrow> admin_left (as_users (snd (handleMFARecoveryCodesRegenerate e rq b ac w)))"
  by (auto simp: handleMFARecoveryCodesRegenerate_def split: sum.split prod.split option.split dest!: confirm_users
      intro: snd_admin [OF mutations_admin(6)])

lemma PushEnabled_admin: "admin_left (as_users w) \<Longrightarrow> admin_left (as_users (snd (handleMFAPushEnabled e b ac w)))"
  unfolding handleMFAPushEnabled_def
  by (rule with_body_admin)
    (auto simp: Let_def split: sum.split prod.split dest!: on_state_users intro: snd_admin [OF mutations_admin(4)])

lemma DeviceMFA_users [simp]: "as_users (snd (handleNativeDeviceMFA e i b ac w)) = as_users w"
  by (auto simp: handleNativeDeviceMFA_def Let_def with_body_def split: json_body.split prod.split option.split dest: on_state_users)

lemma cut_off_users [simp]: "as_users (cut_off e u w) = as_users w"
  by (simp add: cut_off_def)

lemma List_users [simp]: "as_users (snd (handleUsersList ac w)) = as_users w"
  by (simp add: handleUsersList_def split: sum.split)

lemma Create_admin: "admin_left (as_users w) \<Longrightarrow> admin_left (as_users (snd (handleUsersCreate e b ac w)))"
  unfolding handleUsersCreate_def
  by (rule with_body_admin)
    (auto simp: Let_def split: option.split prod.split sum.split users_error.split intro: snd_admin [OF create_admin])

lemma Update_admin: "admin_left (as_users w) \<Longrightarrow> admin_left (as_users (snd (handleUsersUpdate e i b ac w)))"
  unfolding handleUsersUpdate_def
  by (rule with_body_admin) (auto split: option.split sum.split if_splits intro!: stored_admin role_admin)

lemma Reset_admin: "admin_left (as_users w) \<Longrightarrow> admin_left (as_users (snd (handleUsersResetPassword e i b ac w)))"
  unfolding handleUsersResetPassword_def
  by (rule with_body_admin) (auto intro!: stored_admin password_admin)

lemma Deactivate_admin: "admin_left (as_users w) \<Longrightarrow> admin_left (as_users (snd (handleUsersDeactivate e i ac w)))"
  by (auto simp: handleUsersDeactivate_def split: sum.split intro!: stored_admin deactivate_admin)

lemma Reactivate_admin: "admin_left (as_users w) \<Longrightarrow> admin_left (as_users (snd (handleUsersReactivate e i ac w)))"
  by (auto simp: handleUsersReactivate_def intro!: stored_admin mutations_admin)

lemma ClearMFA_admin: "admin_left (as_users w) \<Longrightarrow> admin_left (as_users (snd (handleUsersClearMFA e i ac w)))"
  by (auto simp: handleUsersClearMFA_def intro!: stored_admin mutations_admin)

lemmas handlers_admin = Login_admin TOTP_admin Recovery_admin Password_admin Setup_admin Confirm_admin Disable_admin NewCodes_admin
  PushEnabled_admin Create_admin Update_admin Reset_admin Deactivate_admin Reactivate_admin ClearMFA_admin

lemma serve_admin: "admin_left (as_users w) \<Longrightarrow> admin_left (as_users (snd (serve e rq c w)))"
  by (cases c) (auto intro: handlers_admin withAuth_admin withAdmin_admin)

fun serve_all :: "(auth_env \<times> http_request \<times> auth_call) list \<Rightarrow> auth_world \<Rightarrow> auth_world" where
  "serve_all [] w = w"
| "serve_all ((e, rq, c) # qs) w = serve_all qs (snd (serve e rq c w))"

text \<open>
  C4: an installation with an active administrator keeps one, whatever requests are served one after the other:
  neither a change of a role nor a deactivation takes the last one away.
\<close>

theorem an_admin_stays:
  assumes "admin_left (as_users w)"
  shows "admin_left (as_users (serve_all qs w))"
  using assms by (induction qs w rule: serve_all.induct) (auto intro: serve_admin)

section \<open>What the sessions and the throttles leave open\<close>

text \<open>The check for the last administrator and the change are two steps: two requests at the same time can both pass it.\<close>

definition two_admins :: users_disk where
  "two_admins = Json \<lparr>uf_Version = 1, uf_Users = [sample_user, sample_user\<lparr>u_ID := ''2'', u_Username := ''bob''\<rparr>]\<rparr>"

lemma concurrent_demotions:
  assumes "env_write_ok en"
  shows "isLastActiveAdmin ''1'' two_admins = Inr False \<and> isLastActiveAdmin ''2'' two_admins = Inr False \<and>
    \<not> admin_left (snd (users_SetRole en ''2'' RoleUser (snd (users_SetRole en ''1'' RoleUser two_admins))))"
  using assms
  by (simp add: two_admins_def isLastActiveAdmin_def users_List_def users_read_def and_then_def sample_user_def user_zero_def
      RoleAdmin_def RoleUser_def users_SetRole_def users_mutate_def users_write_def versioned_def admin_left_def is_admin_def Let_def)

text \<open>
  The old password of a change of password can be guessed without end: the answer does not depend on the lockout,
  and a wrong one is not counted.
\<close>

lemma old_password_unthrottled:
  "fst (handleChangePassword e rq b ac (w\<lparr>as_login := l\<rparr>)) = fst (handleChangePassword e rq b ac w) \<and>
   as_login (snd (handleChangePassword e rq b ac w)) = as_login w"
  by (cases b) (auto simp: handleChangePassword_def revokeUserSessions_def split: sum.split prod.split)

section \<open>Worked examples\<close>

definition example_auth :: auth_env where
  "example_auth = \<lparr>ae_env = tally_env 0 (Some (replicate 16 7)) True, ae_token = Some [1], ae_csrf = Some [2], ae_challenge = Some [3],
     ae_secret = None, ae_salt = Some [], ae_codes = (\<lambda>_. None), ae_code_salts = (\<lambda>_. None), ae_kdf = toy_scrypt, ae_captcha = None,
     ae_seal = Some, ae_unseal = Some, ae_decode = (\<lambda>_. None), ae_mac = (\<lambda>_ _. []), ae_trust_proxy = False,
     ae_split = cut_at (CHR '':''), ae_dirs = None, ae_open = (\<lambda>_. True)\<rparr>"

definition example_rq :: http_request where
  "example_rq = \<lparr>rq_Method = ''POST'', rq_Path = ''/api/auth/login'', rq_Session = None, rq_CSRF = '''', rq_DeviceID = '''',
     rq_DeviceSecret = '''', rq_ForwardedFor = '''', rq_ForwardedProto = '''', rq_RemoteAddr = ''h:1'', rq_TLS = True,
     rq_Host = ''mail.example'', rq_ForwardedHost = '''', rq_UserAgent = '''', rq_After = ''''\<rparr>"

text \<open>An account whose password has three characters and whose recovery code has four, for the toy key derivation.\<close>

definition ann_user :: user where
  "ann_user = sample_user\<lparr>u_PasswordHash := ''scrypt$1$1$1$$Aw=='', u_RecoveryCodesHash := [''scrypt$1$1$1$$BA==''], u_TOTPEnabled := True\<rparr>"

definition example_users :: users_disk where
  "example_users = Json \<lparr>uf_Version = 1, uf_Users = [ann_user]\<rparr>"

definition example_start :: auth_world where
  "example_start = \<lparr>as_users = example_users, as_sessions = (\<lambda>_. None), as_challenges = [], as_login = newLoginLockout,
     as_mfa = newLoginLockout, as_device = newLoginLockout, as_cooldown = [], as_stores = (\<lambda>_. sample_world),
     as_deviceIndex = (\<lambda>_. None), as_pushes = [], as_subIndex = (\<lambda>_. None), as_nonces = []\<rparr>"

lemma example_texts:
  "atoi ''1'' = Some 1" "b64_decode [] = Some []" "b64_decode ''Aw=='' = Some [3]" "b64_decode ''BA=='' = Some [4]"
  by (simp_all add: atoi_def Let_def digit_value_def b64_decode_def b64_number_def b64_value_def b64_bytes_def)

lemma example_hashes:
  "verifyScryptHash toy_scrypt ''scrypt$1$1$1$$Aw=='' ''abc''" "verifyScryptHash toy_scrypt ''scrypt$1$1$1$$BA=='' ''wxyz''"
  by (simp_all add: verifyScryptHash_def toy_scrypt_def example_texts)

definition ann_login :: auth_call where
  "ann_login = CallLogin (Body \<lparr>lb_Username = ''ann'', lb_Password = ''abc'', lb_CaptchaToken = ''''\<rparr>)"

definition ann_code :: auth_call where
  "ann_code = CallRecoveryCode (Body \<lparr>cb_ChallengeID = ''03'', cb_Code = ''wxyz''\<rparr>)"

definition ann_challenge :: challenge where
  "ann_challenge = \<lparr>ch_ID = ''03'', ch_UserID = ''1'', ch_CreatedAt = 0, ch_ExpiresAt = challengeTTL, ch_TOTPAttempts = 0,
     ch_UsedTOTPStep = 0, ch_PushStatus = '''', ch_RespondedBy = ''''\<rparr>"

definition after_password :: auth_world where
  "after_password = example_start\<lparr>as_challenges := [(''03'', ann_challenge)]\<rparr>"

definition after_code :: auth_world where
  "after_code = snd (serve example_auth example_rq ann_code after_password)"

lemma ann_user_sel [simp]:
  "u_ID ann_user = ''1''" "u_Active ann_user" "u_TOTPEnabled ann_user" "\<not> u_PushMFAEnabled ann_user" "u_PasswordHash ann_user = ''scrypt$1$1$1$$Aw==''"
  "u_RecoveryCodesHash ann_user = [''scrypt$1$1$1$$BA=='']" "u_Username ann_user = ''ann''"
  by (simp_all add: ann_user_def sample_user_def user_zero_def)

lemma example_reads:
  "users_GetByUsername ''ann'' example_users = Inr ann_user" "users_Get ''1'' example_users = Inr ann_user"
  by (simp_all add: users_GetByUsername_def users_Get_def users_read_def and_then_def find_or_not_found_def example_users_def)

lemma example_free: "lockout_allowed newLoginLockout k t = (True, 0)" "lockout_recordSuccess newLoginLockout k = newLoginLockout"
  by (simp_all add: lockout_allowed_def lockout_recordSuccess_def newLoginLockout_def newFailureLockout_def)

lemma ann_logs_in: "snd (serve example_auth example_rq ann_login example_start) = after_password"
  by (simp add: ann_login_def handleLogin_def Let_def example_start_def example_free captcha_refusal_def example_auth_def example_reads
      VerifyPassword_def example_hashes start_challenge_def mfa_Create_def hex_bytes_def hex_byte_def hex_digit_def after_password_def
      ann_challenge_def)

lemma ann_recovers:
  assumes "as_challenges w = [(''03'', ann_challenge)]" "as_mfa w = newLoginLockout" "as_users w = Json f"
    and "List.find (\<lambda>u. u_ID u = ''1'') (uf_Users f) = Some u" "u_Active u" "u_TOTPEnabled u" "u_RecoveryCodesHash u = [''scrypt$1$1$1$$BA=='']"
  shows "map_option ss_UserID (as_sessions (snd (serve example_auth example_rq ann_code w)) ''01'') = Some ''1''"
proof -
  have u: "u_ID u = ''1''" using find_SomeD [OF assms(4)] by simp
  have t: "trim_space ''03'' = ''03''" "trim_space ''wxyz'' = ''wxyz''" by code_simp+
  have "users_Get ''1'' (Json f) = Inr u" using assms(4) by (simp add: users_Get_def users_read_def and_then_def find_or_not_found_def)
  moreover have "mfa_Get 0 ''03'' [(''03'', ann_challenge)] = (Some ann_challenge, [(''03'', ann_challenge)])"
    by (simp add: mfa_Get_def ann_challenge_def challengeTTL_def)
  moreover have "\<exists>u' d. ConsumeRecoveryCode toy_scrypt (ae_env example_auth) ''1'' ''wxyz'' (Json f) = (Inr (Some u'), d)"
    using assms(4,7) by (simp add: ConsumeRecoveryCode_def users_mutate_def users_read_def spend_code_def example_hashes users_write_def
        Let_def example_auth_def)
  moreover have "ch_UserID ann_challenge = ''1''" by (simp add: ann_challenge_def)
  ultimately show ?thesis using assms(1-3,5,6) u
    by (auto simp: ann_code_def handleMFARecoveryCode_def open_challenge_def with_mfa_def example_auth_def example_free t
        finish_login_def startSession_def randomToken_def hex_bytes_def hex_byte_def hex_digit_def)
qed

lemma ann_session: "map_option ss_UserID (as_sessions after_code ''01'') = Some ''1''"
  unfolding after_code_def
  by (rule ann_recovers [where u = ann_user and f = "\<lparr>uf_Version = 1, uf_Users = [ann_user]\<rparr>"])
    (simp_all add: after_password_def example_start_def example_users_def)

text \<open>
  A reset of the password by an administrator leaves the challenges: a login with the old password that waits for its
  second factor still ends in a session.
\<close>

definition root_context :: auth_context where
  "root_context = \<lparr>ac_UserID = ''2'', ac_Username = ''root'', ac_Role = RoleAdmin, ac_MustChangePassword = False\<rparr>"

lemma old_login_survives_reset:
  "case handleUsersResetPassword example_auth ''1'' (Body ''fresh'') root_context after_password of
     (reply, w) \<Rightarrow> http_ok reply \<and> as_sessions w = (\<lambda>_. None) \<and>
       map_option ss_UserID (as_sessions (snd (serve example_auth example_rq ann_code w)) ''01'') = Some ''1''"
proof -
  obtain h where h: "HashPassword toy_scrypt (Some []) ''fresh'' = Inr h" by (simp add: HashPassword_def toy_scrypt_def Let_def)
  define u1 where "u1 = ann_user\<lparr>u_PasswordHash := h, u_MustChangePassword := True, u_UpdatedAt := stamp (ae_env example_auth)\<rparr>"
  have s: "SetPassword toy_scrypt (ae_env example_auth) (Some []) ''1'' ''fresh'' True example_users =
      (Inr u1, Json \<lparr>uf_Version = 1, uf_Users = [u1]\<rparr>)"
    by (simp add: SetPassword_def h users_mutate_def users_read_def users_write_def versioned_def example_users_def example_auth_def u1_def Let_def)
  define w where "w = cut_off example_auth u1 (after_password\<lparr>as_users := Json \<lparr>uf_Version = 1, uf_Users = [u1]\<rparr>\<rparr>)"
  have t: "trim_space ''fresh'' = ''fresh''" by code_simp
  have r: "handleUsersResetPassword example_auth ''1'' (Body ''fresh'') root_context after_password = (HttpJson 200 (UserJson (Public u1)), w)"
    using s by (simp add: handleUsersResetPassword_def t stored_account_def w_def after_password_def example_start_def example_auth_def)
  have rev: "as_mfa (revoke_devices e i ds v) = as_mfa v" for e i ds v
  proof (induction ds arbitrary: v)
    case (Cons d ds)
    obtain b err v1 where s: "on_state (RemoveNativeDevice (ae_env e) (nd_DeviceID d)) i v = ((b, err), v1)" by (metis prod.exhaust)
    have "as_mfa v1 = as_mfa v" using on_state_sel(4) [of "RemoveNativeDevice (ae_env e) (nd_DeviceID d)" i v] by (simp add: s)
    with Cons.IH show ?case by (simp add: s split: option.split)
  qed simp
  have m: "as_mfa w = newLoginLockout"
    by (simp add: w_def cut_off_def revokeUserDevices_def rev on_state_def revokeUserSessions_def after_password_def example_start_def
        split: prod.split)
  have k: "as_sessions w = (\<lambda>_. None)"
    by (simp add: w_def cut_off_def revokeUserSessions_def after_password_def example_start_def)
  have "map_option ss_UserID (as_sessions (snd (serve example_auth example_rq ann_code w)) ''01'') = Some ''1''"
    by (rule ann_recovers [where u = u1 and f = "\<lparr>uf_Version = 1, uf_Users = [u1]\<rparr>"])
      (simp_all add: m, simp_all add: w_def cut_off_def revokeUserSessions_def after_password_def u1_def)
  with r k show ?thesis by (simp add: http_ok_def)
qed

theorem sessions_have_factors_witness:
  "happened [password_given ''1'' (\<lambda>u. \<not> single_factor u), code_given ''1'']
     [(example_auth, example_rq, ann_login, example_start), (example_auth, example_rq, ann_code, after_password)]"
proof -
  let ?x = "(example_auth, example_rq, ann_login, example_start)" and ?y = "(example_auth, example_rq, ann_code, after_password)"
  have "auth_run example_start [?x] after_password"
    using auth_run.request [OF auth_run.begin_run, of example_start example_auth example_rq ann_login] by (simp add: ann_logs_in)
  then have run: "auth_run example_start [?x, ?y] after_code"
    using auth_run.request [of example_start "[?x]" after_password example_auth example_rq ann_code] by (simp add: after_code_def)
  obtain s where s: "as_sessions after_code ''01'' = Some s" "ss_UserID s = ''1''" using ann_session by auto
  have "\<not> password_given ''1'' single_factor ?x"
    by (simp add: password_given_def ann_login_def example_start_def example_reads single_factor_def)
  moreover have "\<not> password_given ''1'' P ?y" for P by (simp add: password_given_def ann_code_def)
  moreover have "\<not> device_approved ''1'' ?x" "\<not> device_approved ''1'' ?y"
    by (simp_all add: device_approved_def ann_code_def ann_login_def)
  moreover have "happened [password_given ''1'' single_factor] [?x, ?y] \<or>
    happened [password_given ''1'' (\<lambda>u. \<not> single_factor u), code_given ''1''] [?x, ?y] \<or>
    happened [password_given ''1'' (\<lambda>u. \<not> single_factor u), device_approved ''1'', push_finished ''1''] [?x, ?y]"
    by (rule sessions_have_factors [OF run _ _ s]) (simp_all add: example_start_def)
  ultimately show ?thesis by auto
qed

theorem an_admin_stays_witness:
  "admin_left (as_users (serve_all [(example_auth, example_rq, ann_login), (example_auth, example_rq\<lparr>rq_Session := Some ''01''\<rparr>, CallUsersDeactivate ''1'')] example_start))"
proof -
  have "admin_left (as_users example_start)"
    by (simp add: admin_left_def example_start_def example_users_def is_admin_def ann_user_def sample_user_def)
  from an_admin_stays [OF this] show ?thesis .
qed

end
