(* ===== verification/Dav_Auth.thy ===== *)
theory Dav_Auth
  imports Session_Safety Vcard
begin

text \<open>
  The authentication of CardDAV requests (backend/internal/api/dav_auth.go) and the handler of the CardDAV password
  (the end of contacts_handlers.go): HTTP basic authentication against a password of its own, with a lockout per
  address and a cache of verified credentials.
\<close>

section \<open>The credential cache\<close>

abbreviation davCredentialTTL :: int where "davCredentialTTL \<equiv> 90 * second"

type_synonym dav_cache = "string \<rightharpoonup> auth_context \<times> int"

definition davCredentialCacheKey :: "(byte list \<Rightarrow> byte list) \<Rightarrow> string \<Rightarrow> string \<Rightarrow> string" where
  "davCredentialCacheKey sha256 username password = hex_bytes (sha256 (string_bytes (username @ [CHR 0x00] @ password)))"

definition dav_cache_get ::
  "(byte list \<Rightarrow> byte list) \<Rightarrow> int \<Rightarrow> string \<Rightarrow> string \<Rightarrow> dav_cache \<Rightarrow> auth_context option \<times> dav_cache" where
  "dav_cache_get sha256 now username password m =
    (let key = davCredentialCacheKey sha256 username password in
     case m key of
       None \<Rightarrow> (None, m(key := None))
     | Some (ac, expiresAt) \<Rightarrow> if expiresAt < now then (None, m(key := None)) else (Some ac, m))"

definition dav_cache_put ::
  "(byte list \<Rightarrow> byte list) \<Rightarrow> int \<Rightarrow> string \<Rightarrow> string \<Rightarrow> auth_context \<Rightarrow> dav_cache \<Rightarrow> dav_cache" where
  "dav_cache_put sha256 now username password ac m =
    m(davCredentialCacheKey sha256 username password \<mapsto> (ac, now + davCredentialTTL))"

text \<open>Every entry goes, whoever's password has changed.\<close>

definition dav_cache_invalidateUser :: "string \<Rightarrow> dav_cache \<Rightarrow> dav_cache" where
  "dav_cache_invalidateUser username m = Map.empty"

section \<open>The password file\<close>

record dav_password =
  dp_Hash :: string
  dp_CreatedAt :: string

definition readDAVPassword :: "dav_password json_file \<Rightarrow> io_error + dav_password option" where
  "readDAVPassword f =
    (case f of
       Missing \<Rightarrow> Inr None
     | Unreadable \<Rightarrow> Inl IoRead
     | Malformed \<Rightarrow> Inl BadJson
     | Json p \<Rightarrow> Inr (Some p))"

definition writeDAVPassword :: "go_env \<Rightarrow> dav_password \<Rightarrow> dav_password json_file \<Rightarrow> bool \<times> dav_password json_file" where
  "writeDAVPassword e p f = (if env_write_ok e then (True, Json p) else (False, f))"

record dav_auth_world =
  da_users :: users_disk
  da_lockout :: lockout
  da_credentials :: dav_cache
  da_passwords :: "string \<Rightarrow> dav_password json_file"

section \<open>The requests\<close>

datatype dav_access = DavServe auth_context | DavChallenge | DavLockedOut int

definition requireDAVAuth :: "dav_auth_world \<Rightarrow> dav_access \<times> dav_auth_world" where
  "requireDAVAuth w = (DavChallenge, w)"

definition withDAVBasicAuth ::
  "(byte list \<Rightarrow> byte list) \<Rightarrow> auth_env \<Rightarrow> http_request \<Rightarrow> (string \<times> string) option \<Rightarrow> dav_auth_world \<Rightarrow> dav_access \<times> dav_auth_world" where
  "withDAVBasicAuth sha256 e rq basic w =
    (case basic of
       None \<Rightarrow> requireDAVAuth w
     | Some (username, password) \<Rightarrow>
        if trim_space username = '''' \<or> password = '''' then requireDAVAuth w
        else
          (let ip = clientIP e rq; now = now_of e;
               strike = (\<lambda>w. requireDAVAuth (w\<lparr>da_lockout := lockout_recordFailure (da_lockout w) ip now\<rparr>))
           in if \<not> fst (lockout_allowed (da_lockout w) ip now)
              then (DavLockedOut (retry_seconds (snd (lockout_allowed (da_lockout w) ip now))), w)
              else
                (case dav_cache_get sha256 now username password (da_credentials w) of
                   (Some ac, m) \<Rightarrow> (DavServe ac, w\<lparr>da_credentials := m\<rparr>)
                 | (None, m) \<Rightarrow>
                    (let w1 = w\<lparr>da_credentials := m\<rparr> in
                     case users_GetByUsername username (da_users w1) of
                       Inl _ \<Rightarrow> strike w1
                     | Inr u \<Rightarrow>
                        if \<not> u_Active u then strike w1
                        else
                          (case readDAVPassword (da_passwords w1 (u_ID u)) of
                             Inr (Some p) \<Rightarrow>
                               if \<not> VerifySecretHash (ae_kdf e) (dp_Hash p) password then strike w1
                               else
                                 (let ac = \<lparr>ac_UserID = u_ID u, ac_Username = u_Username u, ac_Role = u_Role u, ac_MustChangePassword = False\<rparr>
                                  in (DavServe ac,
                                      w1\<lparr>da_lockout := lockout_recordSuccess (da_lockout w1) ip,
                                         da_credentials := dav_cache_put sha256 now username password ac (da_credentials w1)\<rparr>))
                           | _ \<Rightarrow> strike w1)))))"

datatype dav_password_json = DavConfigured "string option" | DavPassword string string | DavRevoked | DavUnauthorized

definition handleContactsDAVPassword ::
  "auth_env \<Rightarrow> auth_context option \<Rightarrow> string \<Rightarrow> bool \<Rightarrow> dav_auth_world \<Rightarrow> dav_password_json http_reply \<times> dav_auth_world" where
  "handleContactsDAVPassword e auth meth removable w =
    (case auth of
       None \<Rightarrow> (HttpJson 401 DavUnauthorized, w)
     | Some ac \<Rightarrow>
        (let i = ac_UserID ac in
         if meth = ''GET'' then
           (case readDAVPassword (da_passwords w i) of
              Inl _ \<Rightarrow> (HttpError 500 ''failed to read carddav password state'', w)
            | Inr p \<Rightarrow> (HttpJson 200 (DavConfigured (map_option dp_CreatedAt p)), w))
         else if meth = ''POST'' then
           (case randomToken (ae_token e) of
              None \<Rightarrow> (HttpError 500 ''failed to generate password'', w)
            | Some raw \<Rightarrow>
               (case HashPassword (ae_kdf e) (ae_salt e) raw of
                  Inl _ \<Rightarrow> (HttpError 500 ''failed to store password'', w)
                | Inr hash \<Rightarrow>
                   (case writeDAVPassword (ae_env e) \<lparr>dp_Hash = hash, dp_CreatedAt = stamp (ae_env e)\<rparr> (da_passwords w i) of
                      (False, f) \<Rightarrow> (HttpError 500 ''failed to persist carddav password'', w\<lparr>da_passwords := (da_passwords w)(i := f)\<rparr>)
                    | (True, f) \<Rightarrow>
                       (HttpJson 200 (DavPassword raw (stamp (ae_env e))),
                        w\<lparr>da_passwords := (da_passwords w)(i := f),
                          da_credentials := dav_cache_invalidateUser (ac_Username ac) (da_credentials w)\<rparr>))))
         else if meth = ''DELETE'' then
           (if \<not> removable \<and> da_passwords w i \<noteq> Missing then (HttpError 500 ''failed to revoke carddav password'', w)
            else
              (HttpJson 200 DavRevoked,
               w\<lparr>da_passwords := (da_passwords w)(i := Missing),
                 da_credentials := dav_cache_invalidateUser (ac_Username ac) (da_credentials w)\<rparr>))
         else (HttpError 405 ''method not allowed'', w)))"

section \<open>What gives access\<close>

datatype dav_call = DavRequest http_request "(string \<times> string) option" | DavManage "auth_context option" string bool

fun dav_step :: "(byte list \<Rightarrow> byte list) \<Rightarrow> auth_env \<Rightarrow> dav_call \<Rightarrow> dav_auth_world \<Rightarrow> dav_auth_world" where
  "dav_step sha256 e (DavRequest rq basic) w = snd (withDAVBasicAuth sha256 e rq basic w)"
| "dav_step sha256 e (DavManage auth meth removable) w = snd (handleContactsDAVPassword e auth meth removable w)"

type_synonym dav_event = "auth_env \<times> dav_call \<times> dav_auth_world"

text \<open>A run; the accounts and the files may change in between as they like, the cache is only touched by these requests.\<close>

inductive dav_run :: "(byte list \<Rightarrow> byte list) \<Rightarrow> dav_auth_world \<Rightarrow> dav_event list \<Rightarrow> dav_auth_world \<Rightarrow> bool" for sha256 w0 where
  dav_begin: "dav_run sha256 w0 [] w0"
| dav_request: "dav_run sha256 w0 es w \<Longrightarrow> dav_run sha256 w0 (es @ [(e, c, w)]) (dav_step sha256 e c w)"
| dav_elsewhere: "dav_run sha256 w0 es w \<Longrightarrow> da_credentials w' = da_credentials w \<Longrightarrow> dav_run sha256 w0 es w'"

text \<open>The request carried credentials with this digest that were checked against the active account and its password file.\<close>

definition dav_verified :: "(byte list \<Rightarrow> byte list) \<Rightarrow> string \<Rightarrow> auth_context \<Rightarrow> dav_event \<Rightarrow> bool" where
  "dav_verified sha256 key ac ev = (case ev of (e, c, w) \<Rightarrow>
    (case c of
       DavRequest rq (Some (username, password)) \<Rightarrow>
         davCredentialCacheKey sha256 username password = key \<and>
         fst (lockout_allowed (da_lockout w) (clientIP e rq) (now_of e)) \<and>
         (case users_GetByUsername username (da_users w) of
            Inl _ \<Rightarrow> False
          | Inr u \<Rightarrow>
             u_Active u \<and> ac = \<lparr>ac_UserID = u_ID u, ac_Username = u_Username u, ac_Role = u_Role u, ac_MustChangePassword = False\<rparr> \<and>
             (case da_passwords w (u_ID u) of Json p \<Rightarrow> VerifySecretHash (ae_kdf e) (dp_Hash p) password | _ \<Rightarrow> False))
     | _ \<Rightarrow> False))"

text \<open>A password was made or revoked.\<close>

definition dav_changed :: "dav_event \<Rightarrow> bool" where
  "dav_changed ev = (case ev of (e, c, w) \<Rightarrow>
    (case c of
       DavManage auth meth removable \<Rightarrow> meth \<noteq> ''GET'' \<and> http_ok (fst (handleContactsDAVPassword e auth meth removable w))
     | _ \<Rightarrow> False))"

text \<open>The verification that is younger than every change of a password.\<close>

definition fresh_since :: "(byte list \<Rightarrow> byte list) \<Rightarrow> string \<Rightarrow> auth_context \<Rightarrow> int \<Rightarrow> dav_event list \<Rightarrow> bool" where
  "fresh_since sha256 key ac t es \<longleftrightarrow>
    (\<exists>pre ev post. es = pre @ ev # post \<and> dav_verified sha256 key ac ev \<and> now_of (fst ev) = t \<and> \<not> list_ex dav_changed post)"

lemma fresh_snoc: "fresh_since sha256 k ac t es \<Longrightarrow> \<not> dav_changed x \<Longrightarrow> fresh_since sha256 k ac t (es @ [x])"
  unfolding fresh_since_def
  by (elim exE conjE) (rule exI, rule exI, rule_tac x = "post @ [x]" in exI, simp)

lemma fresh_now: "dav_verified sha256 k ac x \<Longrightarrow> fresh_since sha256 k ac (now_of (fst x)) (es @ [x])"
  unfolding fresh_since_def by (rule exI [of _ es], rule exI [of _ x], rule exI [of _ "[]"]) simp

definition cache_rooted :: "(byte list \<Rightarrow> byte list) \<Rightarrow> dav_event list \<Rightarrow> dav_cache \<Rightarrow> bool" where
  "cache_rooted sha256 es m \<longleftrightarrow>
    (\<forall>k ac t. m k = Some (ac, t) \<longrightarrow> fresh_since sha256 k ac (t - davCredentialTTL) es)"

lemma cache_rooted_snoc: "cache_rooted sha256 es m \<Longrightarrow> \<not> dav_changed x \<Longrightarrow> cache_rooted sha256 (es @ [x]) m"
  by (auto simp: cache_rooted_def intro: fresh_snoc)

lemma cache_rooted_less: "cache_rooted sha256 es m \<Longrightarrow> cache_rooted sha256 es (m(k := None))"
  by (auto simp: cache_rooted_def)

lemma request_unchanged [simp]: "\<not> dav_changed (e, DavRequest rq basic, w)"
  by (simp add: dav_changed_def)

lemma strike_sel [simp]: "da_credentials (snd (requireDAVAuth w)) = da_credentials w" "fst (requireDAVAuth w) = DavChallenge"
  by (simp_all add: requireDAVAuth_def)

text \<open>A request that is served was verified now or comes from the cache.\<close>

lemma dav_request_cases:
  assumes "withDAVBasicAuth sha256 e rq basic w = (r, w')"
  obtains (refused) "\<And>ac. r \<noteq> DavServe ac" "da_credentials w' = da_credentials w \<or> (\<exists>k. da_credentials w' = (da_credentials w)(k := None))"
  | (cached) username password ac t where "basic = Some (username, password)" "r = DavServe ac" "da_credentials w' = da_credentials w"
      "da_credentials w (davCredentialCacheKey sha256 username password) = Some (ac, t)" "now_of e \<le> t"
      "fst (lockout_allowed (da_lockout w) (clientIP e rq) (now_of e))"
  | (verified) username password ac m where "basic = Some (username, password)" "r = DavServe ac"
      "m = (da_credentials w)(davCredentialCacheKey sha256 username password := None)"
      "da_credentials w' = m(davCredentialCacheKey sha256 username password \<mapsto> (ac, now_of e + davCredentialTTL))"
      "dav_verified sha256 (davCredentialCacheKey sha256 username password) ac (e, DavRequest rq basic, w)"
      "fst (lockout_allowed (da_lockout w) (clientIP e rq) (now_of e))"
proof (cases "\<exists>username password. basic = Some (username, password) \<and> trim_space username \<noteq> '''' \<and> password \<noteq> '''' \<and>
    fst (lockout_allowed (da_lockout w) (clientIP e rq) (now_of e))")
  case False
  then show ?thesis using assms
    by (intro refused) (auto simp: withDAVBasicAuth_def requireDAVAuth_def Let_def split: option.splits if_splits)
next
  case True
  then obtain username password where b: "basic = Some (username, password)" "trim_space username \<noteq> ''''" "password \<noteq> ''''"
    "fst (lockout_allowed (da_lockout w) (clientIP e rq) (now_of e))" by blast
  let ?k = "davCredentialCacheKey sha256 username password"
  show ?thesis
  proof (cases "\<exists>ac t. da_credentials w ?k = Some (ac, t) \<and> now_of e \<le> t")
    case True
    then obtain ac t where c: "da_credentials w ?k = Some (ac, t)" "now_of e \<le> t" by blast
    then show ?thesis using assms b
      by (intro cached [of username password ac t]) (auto simp: withDAVBasicAuth_def dav_cache_get_def Let_def)
  next
    case False
    define m where "m = (da_credentials w)(?k := None)"
    have g: "dav_cache_get sha256 (now_of e) username password (da_credentials w) = (None, m)"
      using False by (auto simp: dav_cache_get_def Let_def m_def split: option.split)
    show ?thesis
    proof (cases "\<exists>u p. users_GetByUsername username (da_users w) = Inr u \<and> u_Active u \<and> da_passwords w (u_ID u) = Json p \<and>
        VerifySecretHash (ae_kdf e) (dp_Hash p) password")
      case True
      then obtain u p where u: "users_GetByUsername username (da_users w) = Inr u" "u_Active u" "da_passwords w (u_ID u) = Json p"
        "VerifySecretHash (ae_kdf e) (dp_Hash p) password" by blast
      show ?thesis using assms b g u
        by (intro verified [of username password "\<lparr>ac_UserID = u_ID u, ac_Username = u_Username u, ac_Role = u_Role u, ac_MustChangePassword = False\<rparr>" m])
          (auto simp: withDAVBasicAuth_def Let_def readDAVPassword_def dav_cache_put_def dav_verified_def m_def)
    next
      case False
      have "(\<forall>ac. r \<noteq> DavServe ac) \<and> da_credentials w' = m"
      proof (cases "\<exists>u. users_GetByUsername username (da_users w) = Inr u \<and> u_Active u")
        case True
        then obtain u where u: "users_GetByUsername username (da_users w) = Inr u" "u_Active u" by blast
        then show ?thesis using False assms b g
          by (cases "da_passwords w (u_ID u)") (auto simp: withDAVBasicAuth_def Let_def readDAVPassword_def requireDAVAuth_def)
      next
        case no: False
        then show ?thesis using assms b g
          by (cases "users_GetByUsername username (da_users w)") (auto simp: withDAVBasicAuth_def Let_def requireDAVAuth_def)
      qed
      then show ?thesis using refused m_def by blast
    qed
  qed
qed

lemma dav_step_rooted:
  assumes "cache_rooted sha256 es (da_credentials w)"
  shows "cache_rooted sha256 (es @ [(e, c, w)]) (da_credentials (dav_step sha256 e c w))"
proof (cases c)
  case (DavRequest rq basic)
  obtain r w' where s: "withDAVBasicAuth sha256 e rq basic w = (r, w')" by (rule prod.exhaust)
  have old: "cache_rooted sha256 (es @ [(e, c, w)]) (da_credentials w)" using cache_rooted_snoc [OF assms] by (simp add: DavRequest)
  from s have "cache_rooted sha256 (es @ [(e, c, w)]) (da_credentials w')"
  proof (cases rule: dav_request_cases)
    case refused
    then show ?thesis using old cache_rooted_less by auto
  next
    case (cached username password ac t)
    then show ?thesis using old by simp
  next
    case (verified username password ac m)
    have "fresh_since sha256 (davCredentialCacheKey sha256 username password) ac (now_of e) (es @ [(e, c, w)])"
      using fresh_now [OF verified(5), of es] by (simp add: DavRequest)
    then show ?thesis using old cache_rooted_less by (auto simp: cache_rooted_def verified(3,4))
  qed
  then show ?thesis by (simp add: DavRequest s)
next
  case (DavManage auth meth removable)
  show ?thesis
  proof (cases "dav_changed (e, c, w)")
    case True
    then have "da_credentials (dav_step sha256 e c w) = Map.empty"
      by (auto simp: dav_changed_def DavManage handleContactsDAVPassword_def http_ok_def dav_cache_invalidateUser_def Let_def
          split: option.splits sum.splits prod.splits if_splits bool.splits)
    then show ?thesis by (simp add: cache_rooted_def)
  next
    case False
    then have "da_credentials (dav_step sha256 e c w) = da_credentials w"
      by (auto simp: dav_changed_def DavManage handleContactsDAVPassword_def http_ok_def Let_def
          split: option.splits sum.splits prod.splits if_splits bool.splits)
    then show ?thesis using cache_rooted_snoc [OF assms False] by simp
  qed
qed

lemma dav_run_rooted: "dav_run sha256 w0 es w \<Longrightarrow> da_credentials w0 = Map.empty \<Longrightarrow> cache_rooted sha256 es (da_credentials w)"
  by (induction rule: dav_run.induct) (auto simp: dav_step_rooted, simp add: cache_rooted_def)

text \<open>
  C5: a CardDAV request is served only from an address that is not locked out, and only with credentials whose
  digest was verified, by this request or one at most 90 seconds before it, against the password of an account that
  was active then, with no CardDAV password made or revoked since by anyone; the request acts for that account.
\<close>

theorem dav_access_is_fresh:
  assumes "dav_run sha256 w0 es w" "da_credentials w0 = Map.empty"
    and "withDAVBasicAuth sha256 e rq (Some (username, password)) w = (DavServe ac, w')"
  shows "fst (lockout_allowed (da_lockout w) (clientIP e rq) (now_of e)) \<and>
    (\<exists>t. fresh_since sha256 (davCredentialCacheKey sha256 username password) ac t
            (es @ [(e, DavRequest rq (Some (username, password)), w)]) \<and> now_of e - t \<le> davCredentialTTL)"
  using assms(3)
proof (cases rule: dav_request_cases)
  case refused
  then show ?thesis by blast
next
  case (cached username' password' ac' t)
  have "fresh_since sha256 (davCredentialCacheKey sha256 username password) ac (t - davCredentialTTL) es"
    using dav_run_rooted [OF assms(1,2)] cached by (simp add: cache_rooted_def)
  then have "fresh_since sha256 (davCredentialCacheKey sha256 username password) ac (t - davCredentialTTL)
      (es @ [(e, DavRequest rq (Some (username, password)), w)])" by (rule fresh_snoc) simp
  moreover have "now_of e - (t - davCredentialTTL) \<le> davCredentialTTL" using cached by simp
  ultimately show ?thesis using cached(6) by blast
next
  case (verified username' password' ac' m)
  then have "fresh_since sha256 (davCredentialCacheKey sha256 username password) ac (now_of e)
      (es @ [(e, DavRequest rq (Some (username, password)), w)])"
    using fresh_now [OF verified(5), of es] by simp
  moreover have "now_of e - now_of e \<le> davCredentialTTL" by simp
  ultimately show ?thesis using verified(6) by blast
qed

text \<open>
  The cache does not look at the account: until the entry is too old, the requests of an account that has been
  deactivated, or lost its role, are served as before.
\<close>

lemma cache_outlives_account:
  assumes "fst (withDAVBasicAuth sha256 e rq (Some (username, password)) w) = DavServe ac" "da_credentials w = Map.empty"
    and "now_of e' \<le> now_of e + davCredentialTTL" "w' = snd (withDAVBasicAuth sha256 e rq (Some (username, password)) w)"
    and "fst (lockout_allowed (da_lockout w') (clientIP e' rq') (now_of e'))"
  shows "fst (withDAVBasicAuth sha256 e' rq' (Some (username, password)) (w'\<lparr>da_users := d\<rparr>)) = DavServe ac"
proof -
  obtain w1 where s: "withDAVBasicAuth sha256 e rq (Some (username, password)) w = (DavServe ac, w1)"
    using assms(1) by (cases "withDAVBasicAuth sha256 e rq (Some (username, password)) w") simp
  have t: "trim_space username \<noteq> '''' \<and> password \<noteq> ''''"
    using s by (auto simp: withDAVBasicAuth_def requireDAVAuth_def split: if_splits)
  from s have "\<exists>x. da_credentials w1 (davCredentialCacheKey sha256 username password) = Some (ac, x) \<and> now_of e + davCredentialTTL \<le> x"
    using assms(2) by (cases rule: dav_request_cases) auto
  then show ?thesis using assms(3-5) s t
    by (auto simp: withDAVBasicAuth_def dav_cache_get_def Let_def)
qed

definition example_dav_auth :: dav_auth_world where
  "example_dav_auth = \<lparr>da_users = example_users, da_lockout = newLoginLockout, da_credentials = Map.empty,
     da_passwords = (\<lambda>_. Json \<lparr>dp_Hash = ''scrypt$1$1$1$$Aw=='', dp_CreatedAt = ''''\<rparr>)\<rparr>"

theorem dav_access_is_fresh_witness:
  "\<exists>ac w'. withDAVBasicAuth id example_auth example_rq (Some (''ann'', ''abc'')) example_dav_auth = (DavServe ac, w') \<and> ac_UserID ac = ''1'' \<and>
     (\<exists>t. fresh_since id (davCredentialCacheKey id ''ann'' ''abc'') ac t
            [(example_auth, DavRequest example_rq (Some (''ann'', ''abc'')), example_dav_auth)] \<and> now_of example_auth - t \<le> davCredentialTTL)"
proof -
  have t: "trim_space ''ann'' = ''ann''" by code_simp
  have "\<exists>ac w'. withDAVBasicAuth id example_auth example_rq (Some (''ann'', ''abc'')) example_dav_auth = (DavServe ac, w') \<and> ac_UserID ac = ''1''"
    by (simp add: withDAVBasicAuth_def t example_dav_auth_def example_free dav_cache_get_def Let_def example_reads readDAVPassword_def
        VerifySecretHash_def example_auth_def example_hashes)
  then obtain ac w' where s: "withDAVBasicAuth id example_auth example_rq (Some (''ann'', ''abc'')) example_dav_auth = (DavServe ac, w')"
    "ac_UserID ac = ''1''" by blast
  have "da_credentials example_dav_auth = Map.empty" by (simp add: example_dav_auth_def)
  from dav_access_is_fresh [OF dav_begin this s(1)] s show ?thesis by simp
qed

end
