(* ===== verification/Pairing.thy ===== *)
theory Pairing
  imports Session_Safety Vcard Ssrf
begin

text \<open>
  The pairing of devices and their notifications (backend/internal/api: the notification handlers and the pairing
  tokens of server.go, the index of subscribers of server_userscope.go; the check of UnifiedPush endpoints of
  processor/native_sender.go). HMAC, the JSON codec of the claims, parsing of URLs and the resolver are parameters;
  after a colon the text of an answer may be shortened.
\<close>

section \<open>Raw URL base64\<close>

definition to_url_char :: "char \<Rightarrow> char" where
  "to_url_char c = (if c = CHR ''+'' then CHR ''-'' else if c = CHR ''/'' then CHR ''_'' else c)"

definition from_url_char :: "char \<Rightarrow> char" where
  "from_url_char c = (if c = CHR ''-'' then CHR ''+'' else if c = CHR ''_'' then CHR ''/'' else c)"

definition raw_url_encode :: "byte list \<Rightarrow> string" where
  "raw_url_encode bs = map to_url_char (filter (\<lambda>c. c \<noteq> b64_pad) (b64_encode bs))"

text \<open>The decoder skips line ends; padding and the two characters of the other alphabet are errors.\<close>

definition raw_url_decode :: "string \<Rightarrow> byte list option" where
  "raw_url_decode s =
    (let t = filter (\<lambda>c. c \<noteq> CHR 0x0A \<and> c \<noteq> CHR 0x0D) s in
     if list_ex (\<lambda>c. c \<in> {CHR ''+'', CHR ''/'', b64_pad}) t then None
     else b64_quads (map from_url_char t @ replicate ((4 - length t mod 4) mod 4) b64_pad))"

section \<open>Pairing tokens\<close>

record pairing_claims =
  pc_Sub :: string
  pc_Exp :: int
  pc_Nonce :: string
  pc_Purpose :: string

definition pairingPurposeNativeDevice :: string where "pairingPurposeNativeDevice = ''native-device''"
definition pairingPurposePGPQRKey :: string where "pairingPurposePGPQRKey = ''pgp-qr-key''"
definition pairingPurposePickupLink :: string where "pairingPurposePickupLink = ''pickup-link''"

text \<open>
  The configuration of the server and, per request, what the random source, the resolver and the libraries give.
\<close>

record 'u pair_env =
  pe_auth :: auth_env
  pe_secret :: string
  pe_baseURL :: string
  pe_publicKey :: string
  pe_nonce :: "byte list option"
  pe_code :: "byte list option"
  pe_hmac :: "byte list \<Rightarrow> byte list \<Rightarrow> byte list"
  pe_marshal :: "pairing_claims \<Rightarrow> byte list option"
  pe_unmarshal :: "byte list \<Rightarrow> pairing_claims option"
  pe_net :: "'u net_lib"
  pe_lookup :: resolver

abbreviation pe_now :: "'u pair_env \<Rightarrow> int" where "pe_now E \<equiv> now_of (pe_auth E)"

abbreviation unix :: "int \<Rightarrow> int" where "unix t \<equiv> t div second"

text \<open>The token and the time of its expiry.\<close>

definition createPairingToken :: "'u pair_env \<Rightarrow> string \<Rightarrow> string \<Rightarrow> int \<Rightarrow> (string \<times> int) option" where
  "createPairingToken E subscriberID purpose ttl0 =
    (let ttl = (if ttl0 \<le> 0 then 90 * second else ttl0) in
     case pe_nonce E of
       None \<Rightarrow> None
     | Some nonceBytes \<Rightarrow>
        (let expiresAt = pe_now E + ttl;
             claims = \<lparr>pc_Sub = trim_space subscriberID, pc_Exp = unix expiresAt, pc_Nonce = hex_bytes nonceBytes, pc_Purpose = purpose\<rparr>
         in case pe_marshal E claims of
              None \<Rightarrow> None
            | Some payload \<Rightarrow>
               (let sig = pe_hmac E (string_bytes (pe_secret E)) payload
                in Some (raw_url_encode payload @ ''.'' @ raw_url_encode sig, expiresAt))))"

datatype token_error = TokenFormat | TokenPayload | TokenSignature | SignatureMismatch | TokenClaims | TokenExpired
  | PurposeMismatch | SubscriberMismatch

definition decodeAndVerifyPairingToken ::
  "'u pair_env \<Rightarrow> string \<Rightarrow> string \<Rightarrow> int \<Rightarrow> token_error + pairing_claims" where
  "decodeAndVerifyPairingToken E token wantPurpose now =
    (case split_char (CHR ''.'') (trim_space token) of
       [part0, part1] \<Rightarrow>
        (case raw_url_decode part0 of
           None \<Rightarrow> Inl TokenPayload
         | Some payload \<Rightarrow>
            (case raw_url_decode part1 of
               None \<Rightarrow> Inl TokenSignature
             | Some sig \<Rightarrow>
                if sig \<noteq> pe_hmac E (string_bytes (pe_secret E)) payload then Inl SignatureMismatch
                else
                  (case pe_unmarshal E payload of
                     None \<Rightarrow> Inl TokenClaims
                   | Some claims \<Rightarrow>
                      if pc_Exp claims \<le> 0 \<or> unix now > pc_Exp claims then Inl TokenExpired
                      else if pc_Purpose claims \<noteq> wantPurpose then Inl PurposeMismatch
                      else Inr claims)))
     | _ \<Rightarrow> Inl TokenFormat)"

definition validatePairingToken :: "'u pair_env \<Rightarrow> string \<Rightarrow> string \<Rightarrow> string \<Rightarrow> int \<Rightarrow> token_error option" where
  "validatePairingToken E subscriberID token wantPurpose now =
    (case decodeAndVerifyPairingToken E token wantPurpose now of
       Inl err \<Rightarrow> Some err
     | Inr claims \<Rightarrow> if trim_space (pc_Sub claims) \<noteq> trim_space subscriberID then Some SubscriberMismatch else None)"

definition parsePairingTokenUserID :: "'u pair_env \<Rightarrow> string \<Rightarrow> string \<Rightarrow> int \<Rightarrow> token_error + string" where
  "parsePairingTokenUserID E token wantPurpose now =
    (case decodeAndVerifyPairingToken E token wantPurpose now of
       Inl err \<Rightarrow> Inl err
     | Inr claims \<Rightarrow> Inr (pc_Sub claims))"

section \<open>UnifiedPush endpoints (processor/native_sender.go)\<close>

definition push_isPrivateOrReservedIP :: "ip_addr \<Rightarrow> bool" where
  "push_isPrivateOrReservedIP ip \<longleftrightarrow> IsLoopback ip \<or> IsPrivate ip \<or> IsLinkLocalUnicast ip \<or> IsLinkLocalMulticast ip \<or>
     IsMulticast ip \<or> IsUnspecified ip"

definition ValidateUnifiedPushEndpointURL :: "'u net_lib \<Rightarrow> resolver \<Rightarrow> string \<Rightarrow> url_error option" where
  "ValidateUnifiedPushEndpointURL N lookup rawURL =
    (case nl_parse_url N (trim_space rawURL) of
       None \<Rightarrow> Some InvalidURL
     | Some u \<Rightarrow>
        if nl_scheme N u \<noteq> ''https'' then Some (WrongScheme [''https''])
        else
          (let host = nl_hostname N u in
           if host = '''' then Some MissingHost
           else
             (case nl_parse_ip N host of
                Some ip \<Rightarrow> if push_isPrivateOrReservedIP ip then Some ReservedLiteral else None
              | None \<Rightarrow>
                 (case lookup host of
                    None \<Rightarrow> Some Unresolved
                  | Some ips \<Rightarrow> map_option ReservedHost (List.find push_isPrivateOrReservedIP ips)))))"

definition safeDialContext ::
  "(string \<Rightarrow> (string \<times> string) option) \<Rightarrow> resolver \<Rightarrow> string \<Rightarrow> dial_error + ip_addr \<times> string" where
  "safeDialContext split lookup addr =
    (case split addr of
       None \<Rightarrow> Inl BadAddress
     | Some (host, port) \<Rightarrow>
        (case lookup host of
           None \<Rightarrow> Inl DialUnresolved
         | Some ips \<Rightarrow>
            (case List.find (\<lambda>ip. \<not> push_isPrivateOrReservedIP ip) ips of
               None \<Rightarrow> Inl (NoPublicAddress host)
             | Some chosen \<Rightarrow> Inr (chosen, port))))"

section \<open>The index of subscribers\<close>

definition index_subscriber :: "auth_world \<Rightarrow> string \<Rightarrow> (string \<rightharpoonup> string) \<Rightarrow> string \<rightharpoonup> string" where
  "index_subscriber w d m =
    (case sw_state (as_stores w d) of
       Json sf \<Rightarrow> (let i = trim_space (sf_SubscriberID sf) in if i = '''' then m else m(i \<mapsto> d))
     | _ \<Rightarrow> m)"

definition rescanSubscriberIndex :: "auth_env \<Rightarrow> auth_world \<Rightarrow> auth_world" where
  "rescanSubscriberIndex e w =
    (case ae_dirs e of None \<Rightarrow> w | Some ds \<Rightarrow> w\<lparr>as_subIndex := fold (index_subscriber w) ds Map.empty\<rparr>)"

definition lookupUserBySubscriber :: "auth_env \<Rightarrow> string \<Rightarrow> auth_world \<Rightarrow> string option \<times> auth_world" where
  "lookupUserBySubscriber e subscriberID w =
    (let i = trim_space subscriberID in
     if i = '''' then (None, w)
     else
       (case as_subIndex w i of
          Some u \<Rightarrow> (Some u, w)
        | None \<Rightarrow> (let w1 = rescanSubscriberIndex e w in (as_subIndex w1 i, w1))))"

definition externalBaseURL :: "auth_env \<Rightarrow> http_request \<Rightarrow> string" where
  "externalBaseURL e rq =
    (let first = (\<lambda>h. if ae_trust_proxy e then trim_space (hd (split_char CHR '','' h)) else '''');
         proto = (if first (rq_ForwardedProto rq) \<noteq> '''' then first (rq_ForwardedProto rq)
                  else if rq_TLS rq then ''https'' else ''http'');
         host = (if first (rq_ForwardedHost rq) \<noteq> '''' then first (rq_ForwardedHost rq) else trim_space (rq_Host rq))
     in if host = '''' then '''' else proto @ ''://'' @ host)"

definition trim_slashes :: "string \<Rightarrow> string" where
  "trim_slashes s = rev (dropWhile (\<lambda>c. c = CHR ''/'') (rev s))"

text \<open>The address of the server as the handlers give it to a client, and an endpoint under it.\<close>

definition server_url :: "'u pair_env \<Rightarrow> http_request \<Rightarrow> string" where
  "server_url E rq = (if pe_baseURL E = '''' then externalBaseURL (pe_auth E) rq else pe_baseURL E)"

definition endpoint :: "string \<Rightarrow> string \<Rightarrow> string" where
  "endpoint base path = (if base = '''' then '''' else trim_slashes base @ path)"

section \<open>Pairing a device\<close>

abbreviation nativePairingTokenTTL :: int where "nativePairingTokenTTL \<equiv> 90 * second"

abbreviation store_failure :: auth_http where "store_failure \<equiv> HttpError 500 ''failed to open user state''"

definition handleNotificationPairing ::
  "'u pair_env \<Rightarrow> http_request \<Rightarrow> auth_context \<Rightarrow> auth_world \<Rightarrow> auth_http \<times> auth_world" where
  "handleNotificationPairing E rq ac w =
    (let e = pe_auth E; userID = ac_UserID ac in
     if \<not> ae_open e userID then (store_failure, w)
     else
       (case on_state (GetOrCreateSubscriberID (ae_env e)) userID w of
          ((_, Some err), w1) \<Rightarrow> (HttpError 500 ''failed to load subscriber id'', w1)
        | ((subscriberID, None), w1) \<Rightarrow>
           (let w2 = w1\<lparr>as_subIndex := (as_subIndex w1)(subscriberID \<mapsto> userID)\<rparr>;
                base = server_url E rq;
                (mode, w3) = on_state NativeDeliveryMode userID w2;
                info = \<lparr>pi_SubscriberID = subscriberID, pi_ServerBaseURL = base,
                        pi_RegisterEndpoint = endpoint base ''/api/notifications/native/register'',
                        pi_PullEndpoint = endpoint base ''/api/notifications/native/pull'', pi_DeliveryMode = mode,
                        pi_TTLSeconds = nativePairingTokenTTL div second, pi_Configured = pe_secret E \<noteq> '''', pi_Token = None\<rparr>
            in if pe_secret E = '''' then (HttpJson 200 (PairingInfo info), w3)
               else
                 (case createPairingToken E subscriberID pairingPurposeNativeDevice ((nativePairingTokenTTL div second) * second) of
                    None \<Rightarrow> (HttpError 500 ''failed to prepare mobile pairing'', w3)
                  | Some (token, expiresAt) \<Rightarrow>
                     (HttpJson 200 (PairingInfo (info\<lparr>pi_Token := Some (token, env_format (ae_env e) expiresAt)\<rparr>)), w3)))))"

record register_body =
  nr_SubscriberID :: string
  nr_PairingToken :: string
  nr_DeviceToken :: string
  nr_DeviceID :: string
  nr_Platform :: string
  nr_Transport :: string
  nr_DeviceName :: string
  nr_AppVersion :: string

definition normalizeNativePlatform :: "string \<Rightarrow> string" where
  "normalizeNativePlatform platform =
    (let clean = to_lower (trim_space platform) in if clean = '''' then ''android'' else clean)"

text \<open>Left: the transport that is not known.\<close>

definition normalizeNativeTransport :: "string \<Rightarrow> string \<Rightarrow> string + string" where
  "normalizeNativeTransport transport platform =
    (let clean = to_lower (trim_space transport) in
     if clean \<in> {''fcm'', ''apns'', ''unifiedpush''} then Inr clean
     else if clean = '''' then
       (let p = to_lower (trim_space platform) in
        Inr (if p \<in> {''ios'', ''macos''} then ''apns'' else if p = ''linux'' then ''unifiedpush'' else ''fcm''))
     else Inl clean)"

text \<open>The checks of a registration up to the one-time use of the token; on success the transport.\<close>

definition redeem_token ::
  "'u pair_env \<Rightarrow> register_body \<Rightarrow> auth_world \<Rightarrow> (auth_http + string) \<times> auth_world" where
  "redeem_token E b w =
    (let subscriberID = trim_space (nr_SubscriberID b); pairingToken = trim_space (nr_PairingToken b);
         deviceToken = trim_space (nr_DeviceToken b)
     in if subscriberID = '''' \<or> pairingToken = '''' \<or> deviceToken = ''''
        then (Inl (HttpError 400 ''subscriberId, pairingToken, and deviceToken are required''), w)
        else
          (case normalizeNativeTransport (nr_Transport b) (nr_Platform b) of
             Inl clean \<Rightarrow> (Inl (HttpError 400 (''invalid transport: unrecognized transport '' @ quoted clean)), w)
           | Inr transport \<Rightarrow>
              if transport = ''unifiedpush'' \<and> ValidateUnifiedPushEndpointURL (pe_net E) (pe_lookup E) deviceToken \<noteq> None
              then (Inl (HttpError 400 ''invalid unifiedpush deviceToken''), w)
              else
                (case decodeAndVerifyPairingToken E pairingToken pairingPurposeNativeDevice (pe_now E) of
                   Inl _ \<Rightarrow> (Inl (HttpError 401 ''invalid or expired pairing token''), w)
                 | Inr claims \<Rightarrow>
                    if trim_space (pc_Sub claims) \<noteq> subscriberID
                    then (Inl (HttpError 401 ''invalid or expired pairing token''), w)
                    else
                      (case nonce_consume (as_nonces w) (pc_Nonce claims) nativePairingTokenTTL (pe_now E) of
                         (False, ns) \<Rightarrow> (Inl (HttpError 409 ''pairing token already used''), w\<lparr>as_nonces := ns\<rparr>)
                       | (True, ns) \<Rightarrow> (Inr transport, w\<lparr>as_nonces := ns\<rparr>)))))"

text \<open>The row of the device, and the one that is looked up again by its token: the last of the platform with it.\<close>

definition new_device :: "http_request \<Rightarrow> register_body \<Rightarrow> string \<Rightarrow> string \<Rightarrow> string \<Rightarrow> native_device" where
  "new_device rq b transport ownerID secretHash =
    \<lparr>nd_DeviceID = trim_space (nr_DeviceID b), nd_Platform = normalizeNativePlatform (nr_Platform b),
     nd_PushToken = trim_space (nr_DeviceToken b), nd_DeviceName = trim_space (nr_DeviceName b),
     nd_AppVersion = trim_space (nr_AppVersion b), nd_UserAgent = trim_space (rq_UserAgent rq), nd_RegisteredAt = '''',
     nd_UpdatedAt = '''', nd_UserID = ownerID, nd_MFAApprover = True, nd_Transport = transport, nd_SecretHash = secretHash\<rparr>"

definition registered_id :: "native_device \<Rightarrow> native_device list \<Rightarrow> string" where
  "registered_id device devices =
    (case List.find (\<lambda>d. trim_space (nd_PushToken d) = nd_PushToken device \<and> nd_Platform d = nd_Platform device) (rev devices) of
       None \<Rightarrow> nd_DeviceID device
     | Some d \<Rightarrow> nd_DeviceID d)"

definition store_device ::
  "'u pair_env \<Rightarrow> http_request \<Rightarrow> register_body \<Rightarrow> string \<Rightarrow> string \<Rightarrow> auth_world \<Rightarrow> auth_http \<times> auth_world" where
  "store_device E rq b transport ownerID w =
    (let e = pe_auth E in
     case randomToken (ae_token e) of
       None \<Rightarrow> (HttpError 500 ''failed to mint device secret'', w)
     | Some rawSecret \<Rightarrow>
        (case HashPassword (ae_kdf e) (ae_salt e) rawSecret of
           Inl _ \<Rightarrow> (HttpError 500 ''failed to mint device secret'', w)
         | Inr secretHash \<Rightarrow>
            (let device = new_device rq b transport ownerID secretHash in
             case on_state (UpsertNativeDevice (ae_env e) device) ownerID w of
               ((_, Some err), w1) \<Rightarrow> (HttpError 500 ''failed to persist native device'', w1)
             | ((_, None), w1) \<Rightarrow>
                (let (devices, w2) = on_state ListNativeDevices ownerID w1;
                     i = registered_id device devices;
                     w3 = w2\<lparr>as_deviceIndex := (as_deviceIndex w2)(i \<mapsto> ownerID)\<rparr>;
                     (mode, w4) = on_state NativeDeliveryMode ownerID w3
                 in (HttpJson 200 (DeviceRegistered
                       \<lparr>ri_DeviceID = i, ri_DeviceSecret = rawSecret, ri_Devices = length devices, ri_DeliveryMode = mode,
                        ri_PullEndpoint = endpoint (server_url E rq) ''/api/notifications/native/pull'', ri_Transport = transport\<rparr>), w4)))))"

definition register_redeemed ::
  "'u pair_env \<Rightarrow> http_request \<Rightarrow> register_body \<Rightarrow> string \<Rightarrow> auth_world \<Rightarrow> auth_http \<times> auth_world" where
  "register_redeemed E rq b transport w =
    (case lookupUserBySubscriber (pe_auth E) (trim_space (nr_SubscriberID b)) w of
       (None, w1) \<Rightarrow> (HttpError 401 ''unknown subscriber'', w1)
     | (Some ownerID, w1) \<Rightarrow>
        if \<not> ae_open (pe_auth E) ownerID then (store_failure, w1)
        else
          (case reserveDeviceID (pe_auth E) ownerID (trim_space (nr_DeviceID b)) w1 of
             (False, w2) \<Rightarrow> (HttpError 409 ''device id already registered'', w2)
           | (True, w2) \<Rightarrow> store_device E rq b transport ownerID w2))"

definition handleNotificationNativeRegister ::
  "'u pair_env \<Rightarrow> http_request \<Rightarrow> register_body json_body \<Rightarrow> auth_world \<Rightarrow> auth_http \<times> auth_world" where
  "handleNotificationNativeRegister E rq body w =
    (if pe_secret E = '''' then (HttpError 503 ''pairing is not configured'', w)
     else with_body body (\<lambda>b w.
       case redeem_token E b w of
         (Inl reply, w1) \<Rightarrow> (reply, w1)
       | (Inr transport, w1) \<Rightarrow> register_redeemed E rq b transport w1) w)"

section \<open>The devices of a user\<close>

definition count_devices :: "string \<Rightarrow> auth_world \<Rightarrow> nat \<times> auth_world" where
  "count_devices userID w = (case on_state ListNativeDevices userID w of (ds, w1) \<Rightarrow> (length ds, w1))"

definition forget_device :: "string \<Rightarrow> auth_world \<Rightarrow> auth_world" where
  "forget_device deviceID w = w\<lparr>as_deviceIndex := (as_deviceIndex w)(deviceID := None)\<rparr>"

definition handleNotificationNativeDevices ::
  "auth_env \<Rightarrow> http_request \<Rightarrow> string json_body \<Rightarrow> auth_context \<Rightarrow> auth_world \<Rightarrow> auth_http \<times> auth_world" where
  "handleNotificationNativeDevices e rq body ac w =
    (let userID = ac_UserID ac in
     if \<not> ae_open e userID then (store_failure, w)
     else if rq_Method rq = ''GET'' then
       (case on_state ListNativeDevices userID w of
          (devices, w1) \<Rightarrow> (HttpJson 200 (NativeDevices (map Redacted devices)), w1))
     else with_body body (\<lambda>payload w.
       let deviceID = trim_space payload in
       if deviceID = '''' then (HttpError 400 ''deviceId is required'', w)
       else
         (case on_state (RemoveNativeDevice (ae_env e) deviceID) userID w of
            ((_, Some err), w1) \<Rightarrow> (HttpError 500 ''failed to remove native device'', w1)
          | ((removed, None), w1) \<Rightarrow>
             (case count_devices userID (forget_device deviceID w1) of
                (n, w2) \<Rightarrow> (HttpJson 200 (DevicesRemoved (if removed then 1 else 0) n), w2)))) w)"

text \<open>The loop of the unpairing stops at the first device that cannot be removed (None).\<close>

fun unpair_devices :: "auth_env \<Rightarrow> string \<Rightarrow> native_device list \<Rightarrow> nat \<Rightarrow> auth_world \<Rightarrow> nat option \<times> auth_world" where
  "unpair_devices e userID [] removed w = (Some removed, w)"
| "unpair_devices e userID (d # ds) removed w =
    (if trim_space (nd_DeviceID d) = '''' then unpair_devices e userID ds removed w
     else
       (case on_state (RemoveNativeDevice (ae_env e) (nd_DeviceID d)) userID w of
          ((_, Some err), w1) \<Rightarrow> (None, w1)
        | ((ok, None), w1) \<Rightarrow>
            if ok then unpair_devices e userID ds (removed + 1) (forget_device (nd_DeviceID d) w1)
            else unpair_devices e userID ds removed w1))"

definition handleNotificationNativeUnpair :: "auth_env \<Rightarrow> auth_context \<Rightarrow> auth_world \<Rightarrow> auth_http \<times> auth_world" where
  "handleNotificationNativeUnpair e ac w =
    (let userID = ac_UserID ac in
     if \<not> ae_open e userID then (store_failure, w)
     else
       (case on_state ListNativeDevices userID w of
          (devices, w1) \<Rightarrow>
            (case unpair_devices e userID devices 0 w1 of
               (None, w2) \<Rightarrow> (HttpError 500 ''failed to revoke paired devices'', w2)
             | (Some removed, w2) \<Rightarrow>
                (case count_devices userID w2 of (n, w3) \<Rightarrow> (HttpJson 200 (DevicesRemoved removed n), w3)))))"

definition handleNotificationNativeDeregister :: "auth_env \<Rightarrow> http_request \<Rightarrow> auth_world \<Rightarrow> auth_http \<times> auth_world" where
  "handleNotificationNativeDeregister e rq w =
    (case deviceAuthFromRequest e rq w of
       (Inl retryAfter, w1) \<Rightarrow> (writeDeviceAuthFailure retryAfter, w1)
     | (Inr (userID, device), w1) \<Rightarrow>
        if \<not> ae_open e userID then (store_failure, w1)
        else
          (case on_state (RemoveNativeDevice (ae_env e) (nd_DeviceID device)) userID w1 of
             ((_, Some err), w2) \<Rightarrow> (HttpError 500 ''failed to remove device'', w2)
           | ((_, None), w2) \<Rightarrow> (HttpJson 200 AuthOk, forget_device (nd_DeviceID device) w2)))"

definition handleNotificationNativeMode ::
  "auth_env \<Rightarrow> string json_body \<Rightarrow> auth_context \<Rightarrow> auth_world \<Rightarrow> auth_http \<times> auth_world" where
  "handleNotificationNativeMode e body ac w =
    (let userID = ac_UserID ac in
     if \<not> ae_open e userID then (store_failure, w)
     else with_body body (\<lambda>payload w.
       let mode = to_lower (trim_space payload) in
       if mode \<noteq> DeliveryModePush \<and> mode \<noteq> DeliveryModePull then (HttpError 400 (''mode must be '' @ quoted ''push'' @ '' or '' @ quoted ''pull''), w)
       else
         (case on_state (SetNativeDeliveryMode (ae_env e) mode) userID w of
            ((_, Some err), w1) \<Rightarrow> (HttpError 500 ''failed to persist delivery mode'', w1)
          | ((_, None), w1) \<Rightarrow>
             (case on_state NativeDeliveryMode userID w1 of (m, w2) \<Rightarrow> (HttpJson 200 (DeliveryMode m), w2)))) w)"

definition pull_after :: "http_request \<Rightarrow> int" where
  "pull_after rq =
    (let raw = trim_space (rq_After rq) in
     if raw = '''' then 0
     else (case atoi raw of None \<Rightarrow> 0 | Some parsed \<Rightarrow> if parsed > 0 then parsed else 0))"

definition handleNotificationNativePull :: "auth_env \<Rightarrow> http_request \<Rightarrow> auth_world \<Rightarrow> auth_http \<times> auth_world" where
  "handleNotificationNativePull e rq w =
    (case deviceAuthFromRequest e rq w of
       (Inl retryAfter, w1) \<Rightarrow> (writeDeviceAuthFailure retryAfter, w1)
     | (Inr (userID, _), w1) \<Rightarrow>
        if \<not> ae_open e userID then (store_failure, w1)
        else
          (case on_state (PullNotificationsAfter (pull_after rq)) userID w1 of
             ((notifications, cursor), w2) \<Rightarrow>
               (case on_state NativeDeliveryMode userID w2 of
                  (m, w3) \<Rightarrow> (HttpJson 200 (PulledNotifications m cursor notifications), w3))))"

text \<open>A code for a desktop application; its attempt is recorded as a success, an error of that is ignored.\<close>

definition handleDesktopPair ::
  "'u pair_env \<Rightarrow> http_request \<Rightarrow> auth_context \<Rightarrow> auth_world \<Rightarrow> auth_http \<times> auth_world" where
  "handleDesktopPair E rq ac w =
    (let e = pe_auth E; userID = ac_UserID ac in
     if \<not> ae_open e userID then (store_failure, w)
     else
       (case on_state (CheckDesktopPairingRateLimit (ae_env e)) userID w of
          ((_, _, Some err), w1) \<Rightarrow> (HttpError 500 ''failed to check rate limit'', w1)
        | ((allowed, remaining, None), w1) \<Rightarrow>
           if \<not> allowed
           then (HttpJson 429 (AuthProblem ''rate limit exceeded: too many pairing attempts. Try again later.''), w1)
           else
             (case pe_code E of
                None \<Rightarrow> (HttpError 500 ''failed to generate pairing code'', w1)
              | Some codeBytes \<Rightarrow>
                 (let pairingCode = to_upper (hex_bytes codeBytes); base = server_url E rq in
                  case on_state (SetDesktopPairingCode (ae_env e) pairingCode (5 * minute)) userID w1 of
                    ((_, Some err), w2) \<Rightarrow> (HttpError 500 ''failed to create pairing code'', w2)
                  | ((_, None), w2) \<Rightarrow>
                     (case on_state (RecordDesktopPairingAttempt (ae_env e) pairingCode True) userID w2 of
                        (_, w3) \<Rightarrow>
                          (HttpJson 200 (DesktopPairing \<lparr>di_PairingCode = pairingCode, di_TTLSeconds = 300,
                             di_RateLimit = remaining, di_ServerBaseURL = base,
                             di_RegisterEndpoint = endpoint base ''/api/notifications/desktop/register''\<rparr>), w3))))))"

section \<open>Browser subscriptions\<close>

definition handleNotificationVAPIDPublicKey :: "'u pair_env \<Rightarrow> auth_http" where
  "handleNotificationVAPIDPublicKey E =
    (let publicKey = trim_space (pe_publicKey E) in
     if publicKey = '''' then HttpError 500 ''notification public key not configured'' else HttpJson 200 (VapidKey publicKey))"

record subscription_body =
  sb_Endpoint :: string
  sb_Auth :: string
  sb_P256DH :: string

definition count_subscriptions :: "string \<Rightarrow> auth_world \<Rightarrow> nat \<times> auth_world" where
  "count_subscriptions userID w = (case on_state ListNotificationSubscriptions userID w of (ss, w1) \<Rightarrow> (length ss, w1))"

definition subscribe ::
  "auth_env \<Rightarrow> http_request \<Rightarrow> subscription_body json_body \<Rightarrow> string \<Rightarrow> auth_world \<Rightarrow> auth_http \<times> auth_world" where
  "subscribe e rq body userID w =
    (case body of
       Body b \<Rightarrow>
         (if trim_space (sb_Endpoint b) = '''' \<or> trim_space (sb_Auth b) = '''' \<or> trim_space (sb_P256DH b) = ''''
          then (HttpError 400 ''endpoint and keys are required'', w)
          else
            (case on_state (UpsertNotificationSubscription (ae_env e)
                \<lparr>su_Endpoint = trim_space (sb_Endpoint b), su_Auth = trim_space (sb_Auth b), su_P256DH = trim_space (sb_P256DH b),
                 su_UserAgent = trim_space (rq_UserAgent rq), su_UpdatedAt = stamp (ae_env e)\<rparr>) userID w of
               ((_, Some err), w1) \<Rightarrow> (HttpError 500 ''failed to persist notification subscription'', w1)
             | ((_, None), w1) \<Rightarrow>
                (case count_subscriptions userID w1 of (n, w2) \<Rightarrow> (HttpJson 200 (SubscriptionCount None n), w2))))
     | _ \<Rightarrow> (HttpError 400 ''invalid subscription payload'', w))"

definition unsubscribe :: "auth_env \<Rightarrow> string json_body \<Rightarrow> string \<Rightarrow> auth_world \<Rightarrow> auth_http \<times> auth_world" where
  "unsubscribe e body userID w =
    (case body of
       Body b \<Rightarrow>
         (if trim_space b = '''' then (HttpError 400 ''endpoint is required'', w)
          else
            (case on_state (RemoveNotificationSubscription (ae_env e) (trim_space b)) userID w of
               ((_, Some err), w1) \<Rightarrow> (HttpError 500 ''failed to remove notification subscription'', w1)
             | ((removed, None), w1) \<Rightarrow>
                (case count_subscriptions userID w1 of (n, w2) \<Rightarrow> (HttpJson 200 (SubscriptionCount (Some removed) n), w2))))
     | _ \<Rightarrow> (HttpError 400 ''invalid unsubscribe payload'', w))"

definition handleNotificationSubscriptions ::
  "auth_env \<Rightarrow> http_request \<Rightarrow> subscription_body json_body \<Rightarrow> string json_body \<Rightarrow> auth_context \<Rightarrow> auth_world \<Rightarrow> auth_http \<times> auth_world"
where
  "handleNotificationSubscriptions e rq post_body delete_body ac w =
    (if \<not> ae_open e (ac_UserID ac) then (store_failure, w)
     else if rq_Method rq = ''POST'' then subscribe e rq post_body (ac_UserID ac) w
     else unsubscribe e delete_body (ac_UserID ac) w)"

section \<open>The test notification\<close>

record test_result =
  tr_Ok :: bool
  tr_Subscriptions :: nat
  tr_Sent :: nat
  tr_Failed :: nat
  tr_Removed :: nat
  tr_Active :: nat
  tr_NativeDevices :: nat
  tr_NativeSent :: nat
  tr_NativeFailed :: nat
  tr_NativeRemoved :: nat
  tr_NativeError :: "io_error option"

text \<open>
  It works on the store of the caller. \<open>publicKey\<close> and \<open>keyPath\<close> are of the configuration; \<open>payload\<close> is the
  title and the text that decoding the body has left, whether it failed or not.
\<close>

definition test_web ::
  "'n push_net \<Rightarrow> string \<Rightarrow> string \<Rightarrow> web_payload \<Rightarrow> subscription list \<Rightarrow> 'n push_world \<Rightarrow>
   (string + web_outcome) \<times> 'n push_world" where
  "test_web net publicKey keyPath payload subs w =
    (if subs = [] then (Inr \<lparr>wo_Subscriptions = 0, wo_Sent = 0, wo_Failed = 0, wo_Removed = 0\<rparr>, w)
     else SendWebPush net publicKey keyPath 3600 payload w)"

definition test_native ::
  "'n push_net \<Rightarrow> (string list \<Rightarrow> string list) \<Rightarrow> push_dispatcher \<Rightarrow> push_message \<Rightarrow> native_device list \<Rightarrow> 'n push_world \<Rightarrow>
   (nat \<times> nat \<times> nat \<times> io_error option) \<times> 'n push_world" where
  "test_native net order d msg devices w =
    (if devices = [] then ((0, 0, 0, None), w)
     else
       (case SendNativePush net order d msg w of
          ((outcome, err), w1) \<Rightarrow>
            (if no_Queued outcome then (if err \<noteq> None then (0, 0, 0, err) else (no_Sent outcome, 0, 0, None))
             else (no_Sent outcome, no_Failed outcome, no_Removed outcome, None), w1)))"

definition handleNotificationTest ::
  "'n push_net \<Rightarrow> (string list \<Rightarrow> string list) \<Rightarrow> push_dispatcher \<Rightarrow> string \<Rightarrow> string \<Rightarrow> string \<times> string \<Rightarrow>
   'n push_world \<Rightarrow> test_result http_reply \<times> 'n push_world" where
  "handleNotificationTest net order d publicKey keyPath payload w =
    (let title = (if trim_space (fst payload) = '''' then ''KyPost Test Notification'' else trim_space (fst payload));
         text = (if trim_space (snd payload) = '''' then ''Push delivery is working across all subscribed devices.''
                 else trim_space (snd payload));
         message = \<lparr>wl_title = title, wl_body = text, wl_url = ''/notifications'', wl_tag = ''kypost-test''\<rparr>;
         (subs, w1) = on_store (\<lambda>_. ListNotificationSubscriptions) w
     in case test_web net publicKey keyPath message subs w1 of
          (Inl _, w2) \<Rightarrow> (HttpError 500 ''failed to load notification private key'', w2)
        | (Inr web, w2) \<Rightarrow>
           (let (devices, w3) = on_store (\<lambda>_. ListNativeDevices) w2;
                msg = \<lparr>pm_Title = title, pm_Body = text, pm_Data = [(''url'', ''/notifications'')]\<rparr>;
                ((nativeSent, nativeFailed, nativeRemoved, nativeError), w4) = test_native net order d msg devices w3;
                (active, w5) = on_store (\<lambda>_. ListNotificationSubscriptions) w4
            in (HttpJson 200
                  \<lparr>tr_Ok = (wo_Failed web = 0 \<and> nativeFailed = 0 \<and> nativeError = None), tr_Subscriptions = length subs,
                   tr_Sent = wo_Sent web, tr_Failed = wo_Failed web, tr_Removed = wo_Removed web, tr_Active = length active,
                   tr_NativeDevices = length devices, tr_NativeSent = nativeSent, tr_NativeFailed = nativeFailed,
                   tr_NativeRemoved = nativeRemoved, tr_NativeError = nativeError\<rparr>, w5)))"

end
