(* ===== verification/Pairing_Safety.thy ===== *)
theory Pairing_Safety
  imports Pairing
begin

text \<open>
  What pairing tokens are good for and how often, what a registration changes, and that a paired device gets in;
  and what the pairing leaves open.
\<close>

section \<open>Tokens as texts\<close>

lemma b64_quad_chars: "n < 16777216 \<Longrightarrow> c \<in> set (b64_quad n) \<Longrightarrow> \<exists>m < 64. c = b64_digit m"
proof -
  assume n: "n < 16777216" and c: "c \<in> set (b64_quad n)"
  have "n div 262144 < 64" "n div 4096 mod 64 < 64" "n div 64 mod 64 < 64" "n mod 64 < 64" using n by simp_all
  then show ?thesis using c unfolding b64_quad_def by (auto simp del: mod_less_divisor)
qed

lemma b64_encode_chars: "c \<in> set (b64_encode bs) \<Longrightarrow> c = b64_pad \<or> (\<exists>n < 64. c = b64_digit n)"
proof (induction bs rule: b64_encode.induct)
  case (2 a)
  have n: "unat a * 65536 < 16777216" using byte_less [of a] by simp
  from 2 b64_quad_chars [OF this, of c] show ?case by (auto dest: in_set_takeD)
next
  case (3 a b)
  have n: "unat a * 65536 + unat b * 256 < 16777216" using byte_less [of a] byte_less [of b] by simp
  from 3 b64_quad_chars [OF this, of c] show ?case by (auto dest: in_set_takeD)
next
  case (4 a b c' bs)
  have n: "unat a * 65536 + unat b * 256 + unat c' < 16777216"
    using byte_less [of a] byte_less [of b] byte_less [of c'] by simp
  from 4 b64_quad_chars [OF this, of c] show ?case by auto
qed simp

lemma url_digit:
  assumes "n < 64"
  shows "from_url_char (to_url_char (b64_digit n)) = b64_digit n"
    "to_url_char (b64_digit n) \<notin> {CHR ''+'', CHR ''/'', b64_pad, CHR 0x0A, CHR 0x0D, CHR ''.''}"
    "\<not> is_space (to_url_char (b64_digit n))"
proof -
  have o: "(of_char (b64_digit n) :: nat) \<noteq> of_char (CHR ''-'')" "(of_char (b64_digit n) :: nat) \<noteq> of_char (CHR ''_'')"
    "(of_char (b64_digit n) :: nat) \<noteq> of_char (CHR ''.'')" "(of_char (b64_digit n) :: nat) > 32"
    using assms by (simp_all add: of_char_b64_digit, arith+)
  have d: "b64_digit n \<noteq> CHR ''-''" "b64_digit n \<noteq> CHR ''_''" "b64_digit n \<noteq> CHR ''.''"
    using o(1-3) by metis+
  have s: "\<not> is_space (b64_digit n)" using o(4) by (auto simp: is_space_def)
  show "from_url_char (to_url_char (b64_digit n)) = b64_digit n" using d by (simp add: to_url_char_def from_url_char_def)
  show "to_url_char (b64_digit n) \<notin> {CHR ''+'', CHR ''/'', b64_pad, CHR 0x0A, CHR 0x0D, CHR ''.''}"
    using b64_digit_plain [OF assms] d by (auto simp: to_url_char_def)
  show "\<not> is_space (to_url_char (b64_digit n))" using s by (simp add: to_url_char_def is_space_def)
qed

lemma raw_encode_chars: "c \<in> set (raw_url_encode bs) \<Longrightarrow> \<exists>n < 64. c = to_url_char (b64_digit n)"
  using b64_encode_chars by (fastforce simp: raw_url_encode_def)

lemma b64_quad_filter: "n < 16777216 \<Longrightarrow> filter (\<lambda>c. c \<noteq> b64_pad) (b64_quad n) = b64_quad n"
  using b64_quad_plain [of n] by (auto simp: filter_id_conv)

lemma b64_quad_length [simp]: "length (b64_quad n) = 4"
  by (simp add: b64_quad_def)

lemma pad_again:
  "filter (\<lambda>c. c \<noteq> b64_pad) (b64_encode bs) @
    replicate ((4 - length (filter (\<lambda>c. c \<noteq> b64_pad) (b64_encode bs)) mod 4) mod 4) b64_pad = b64_encode bs"
proof (induction bs rule: b64_encode.induct)
  case (2 a)
  have n: "unat a * 65536 < 16777216" using byte_less [of a] by simp
  have "filter (\<lambda>c. c \<noteq> b64_pad) (take 2 (b64_quad (unat a * 65536))) = take 2 (b64_quad (unat a * 65536))"
    using b64_quad_plain [OF n] by (auto simp: filter_id_conv dest: in_set_takeD)
  then show ?case by (simp add: numeral_2_eq_2)
next
  case (3 a b)
  have n: "unat a * 65536 + unat b * 256 < 16777216" using byte_less [of a] byte_less [of b] by simp
  have "filter (\<lambda>c. c \<noteq> b64_pad) (take 3 (b64_quad (unat a * 65536 + unat b * 256))) = take 3 (b64_quad (unat a * 65536 + unat b * 256))"
    using b64_quad_plain [OF n] by (auto simp: filter_id_conv dest: in_set_takeD)
  then show ?case by simp
next
  case (4 a b c bs)
  have n: "unat a * 65536 + unat b * 256 + unat c < 16777216"
    using byte_less [of a] byte_less [of b] byte_less [of c] by simp
  then show ?case using 4 by (simp add: b64_quad_filter)
qed simp

lemma raw_url_roundtrip [simp]: "raw_url_decode (raw_url_encode bs) = Some bs"
proof -
  let ?u = "filter (\<lambda>c. c \<noteq> b64_pad) (b64_encode bs)"
  have d: "\<exists>n < 64. c = b64_digit n" if "c \<in> set ?u" for c using that b64_encode_chars by auto
  have f: "filter (\<lambda>c. c \<noteq> CHR 0x0A \<and> c \<noteq> CHR 0x0D) (map to_url_char ?u) = map to_url_char ?u"
    using d url_digit(2) by (fastforce simp: filter_id_conv)
  have x: "\<not> list_ex (\<lambda>c. c \<in> {CHR ''+'', CHR ''/'', b64_pad}) (map to_url_char ?u)"
    using d url_digit(2) by (fastforce simp: list_ex_iff)
  have "map (\<lambda>c. from_url_char (to_url_char c)) ?u = map (\<lambda>c. c) ?u"
    by (rule map_cong) (use d url_digit(1) in auto)
  then have m: "map from_url_char (map to_url_char ?u) = ?u" by (simp add: comp_def)
  show ?thesis
    unfolding raw_url_decode_def raw_url_encode_def Let_def f
    using x m pad_again [of bs] b64_quads_encode [of bs] by simp
qed

lemma trim_space_plain: "(\<And>c. c \<in> set s \<Longrightarrow> \<not> is_space c) \<Longrightarrow> trim_space s = s"
proof -
  assume a: "\<And>c. c \<in> set s \<Longrightarrow> \<not> is_space c"
  have "dropWhile is_space t = t" if "\<And>c. c \<in> set t \<Longrightarrow> \<not> is_space c" for t
    using that by (cases t) auto
  from this [of s] this [of "rev s"] a show ?thesis by (simp add: trim_space_def trim_left_def trim_right_def)
qed

lemma token_parts:
  "split_char (CHR ''.'') (trim_space (raw_url_encode p @ CHR ''.'' # raw_url_encode q)) = [raw_url_encode p, raw_url_encode q]"
proof -
  have c: "\<not> is_space c \<and> c \<noteq> CHR ''.''" if "c \<in> set (raw_url_encode bs)" for c bs
    using raw_encode_chars [OF that] url_digit(2,3) by fastforce
  have "trim_space (raw_url_encode p @ CHR ''.'' # raw_url_encode q) = raw_url_encode p @ CHR ''.'' # raw_url_encode q"
    by (rule trim_space_plain) (use c in \<open>auto simp: is_space_def\<close>)
  moreover have "CHR ''.'' \<notin> set (raw_url_encode bs)" for bs using c by blast
  ultimately show ?thesis using split_char_append split_char_word by simp
qed
section \<open>What a token is good for\<close>

text \<open>The codec: claims whose texts are ASCII and whose expiry fits 64 bits come back from their JSON.\<close>

definition ascii :: "string \<Rightarrow> bool" where
  "ascii s \<longleftrightarrow> list_all (\<lambda>c. (of_char c :: nat) < 128) s"

definition claims_codec :: "'u pair_env \<Rightarrow> bool" where
  "claims_codec E \<longleftrightarrow>
    (\<forall>c p. ascii (pc_Sub c) \<and> ascii (pc_Nonce c) \<and> ascii (pc_Purpose c) \<and> pc_Exp c < 2 ^ 63 \<and> - (2 ^ 63) \<le> pc_Exp c \<and>
       pe_marshal E c = Some p \<longrightarrow> pe_unmarshal E p = Some c)"

definition same_keys :: "'u pair_env \<Rightarrow> 'u pair_env \<Rightarrow> bool" where
  "same_keys E E' \<longleftrightarrow> pe_secret E' = pe_secret E \<and> pe_hmac E' = pe_hmac E \<and> pe_unmarshal E' = pe_unmarshal E"

lemma ascii_simps [simp]: "ascii []" "ascii (c # s) \<longleftrightarrow> (of_char c :: nat) < 128 \<and> ascii s" "ascii (s @ t) \<longleftrightarrow> ascii s \<and> ascii t"
  by (simp_all add: ascii_def)

lemma ascii_hex: "ascii (hex_bytes bs)"
proof (induction bs)
  case (Cons b bs)
  have "list_all (\<lambda>c. (of_char c :: nat) < 128) ''0123456789abcdef''" by code_simp
  then have "(of_char (hex_digit n) :: nat) < 128" if "n < 16" for n
    using that unfolding hex_digit_def list_all_length by simp
  moreover have "unat b div 16 < 16" "unat b mod 16 < 16" using byte_less [of b] by simp_all
  ultimately show ?case using Cons by simp
qed simp

lemma ascii_trim: "ascii s \<Longrightarrow> ascii (trim_space s)"
  by (auto simp: ascii_def list_all_iff trim_space_def trim_left_def trim_right_def dest!: set_dropWhileD)

definition token_claims :: "'u pair_env \<Rightarrow> string \<Rightarrow> string \<Rightarrow> int \<Rightarrow> pairing_claims" where
  "token_claims E sub purpose expiresAt =
    \<lparr>pc_Sub = trim_space sub, pc_Exp = unix expiresAt, pc_Nonce = (case pe_nonce E of None \<Rightarrow> '''' | Some b \<Rightarrow> hex_bytes b),
     pc_Purpose = purpose\<rparr>"

lemma decode_created:
  assumes "createPairingToken E sub purpose ttl = Some (token, expiresAt)" "claims_codec E" "same_keys E E'"
    and "ascii sub" "ascii purpose" "0 < unix expiresAt" "expiresAt < 2 ^ 63"
  shows "decodeAndVerifyPairingToken E' token want t =
    (if unix expiresAt < unix t then Inl TokenExpired else if purpose \<noteq> want then Inl PurposeMismatch
     else Inr (token_claims E sub purpose expiresAt))"
proof -
  let ?c = "token_claims E sub purpose expiresAt"
  obtain p where p: "pe_marshal E ?c = Some p"
    and t: "token = raw_url_encode p @ ''.'' @ raw_url_encode (pe_hmac E (string_bytes (pe_secret E)) p)"
    using assms(1) by (auto simp: createPairingToken_def token_claims_def Let_def split: option.splits)
  have "0 \<le> expiresAt" using assms(6) by (simp add: pos_imp_zdiv_pos_iff)
  then have "unix expiresAt \<le> expiresAt" using zdiv_mono2 [of expiresAt 1 second] by simp
  then have e: "unix expiresAt < 2 ^ 63" using assms(7) by linarith
  have "ascii (pc_Sub ?c)" "ascii (pc_Nonce ?c)" "ascii (pc_Purpose ?c)" "pc_Exp ?c = unix expiresAt"
    using ascii_trim [OF assms(4)] assms(5) ascii_hex by (auto simp: token_claims_def split: option.split)
  then have "pe_unmarshal E p = Some ?c" using assms(2,6) p e unfolding claims_codec_def by auto
  then show ?thesis using assms(3,6)
    by (simp add: decodeAndVerifyPairingToken_def t token_parts same_keys_def) (simp add: token_claims_def)
qed

text \<open>
  C9: a pairing token is good for its own purpose and subscriber until the second of its expiry is over, and for
  nothing else.
\<close>

theorem pairing_token_scope:
  assumes "createPairingToken E sub purpose ttl = Some (token, expiresAt)" "claims_codec E" "same_keys E E'"
    and "ascii sub" "ascii purpose" "0 < unix expiresAt" "expiresAt < 2 ^ 63"
  shows "(validatePairingToken E' sub' token want t = None \<longleftrightarrow>
      purpose = want \<and> trim_space sub' = trim_space sub \<and> unix t \<le> unix expiresAt) \<and>
    parsePairingTokenUserID E' token want t =
      (if unix expiresAt < unix t then Inl TokenExpired else if purpose \<noteq> want then Inl PurposeMismatch else Inr (trim_space sub))"
  using decode_created [OF assms, of want t]
  by (auto simp: validatePairingToken_def parsePairingTokenUserID_def token_claims_def)

section \<open>One-time use\<close>

type_synonym 'u register_event = "'u pair_env \<times> http_request \<times> register_body json_body \<times> auth_world"

inductive pairing_run :: "auth_world \<Rightarrow> 'u register_event list \<Rightarrow> auth_world \<Rightarrow> bool" for w0 where
  begin_run: "pairing_run w0 [] w0"
| register: "pairing_run w0 es w \<Longrightarrow>
    pairing_run w0 (es @ [(E, rq, body, w)]) (snd (handleNotificationNativeRegister E rq body w))"
| elsewhere: "pairing_run w0 es w \<Longrightarrow> as_nonces w' = as_nonces w \<Longrightarrow> pairing_run w0 es w'"

definition event_time :: "'u register_event \<Rightarrow> int" where
  "event_time ev = (case ev of (E, rq, body, w) \<Rightarrow> pe_now E)"

text \<open>A registration with this token that ended with a device.\<close>

definition registers :: "string \<Rightarrow> 'u register_event \<Rightarrow> bool" where
  "registers token ev = (case ev of (E, rq, body, w) \<Rightarrow>
    (case body of Body b \<Rightarrow> trim_space (nr_PairingToken b) = token | _ \<Rightarrow> False) \<and>
    (case fst (handleNotificationNativeRegister E rq body w) of HttpJson _ (DeviceRegistered _) \<Rightarrow> True | _ \<Rightarrow> False))"

text \<open>The nonce an event puts before the table.\<close>

definition asks_nonce :: "'u register_event \<Rightarrow> string option" where
  "asks_nonce ev = (case ev of (E, rq, body, w) \<Rightarrow>
    (case body of
       Body b \<Rightarrow>
         (if pe_secret E = '''' \<or> trim_space (nr_SubscriberID b) = '''' \<or> trim_space (nr_PairingToken b) = '''' \<or>
             trim_space (nr_DeviceToken b) = '''' then None
          else
            (case normalizeNativeTransport (nr_Transport b) (nr_Platform b) of
               Inl _ \<Rightarrow> None
             | Inr transport \<Rightarrow>
                if transport = ''unifiedpush'' \<and>
                   ValidateUnifiedPushEndpointURL (pe_net E) (pe_lookup E) (trim_space (nr_DeviceToken b)) \<noteq> None then None
                else
                  (case decodeAndVerifyPairingToken E (trim_space (nr_PairingToken b)) pairingPurposeNativeDevice (pe_now E) of
                     Inl _ \<Rightarrow> None
                   | Inr claims \<Rightarrow>
                      if trim_space (pc_Sub claims) \<noteq> trim_space (nr_SubscriberID b) then None else Some (pc_Nonce claims))))
     | _ \<Rightarrow> None))"


lemma on_state_nonces [simp]: "as_nonces (snd (on_state f i w)) = as_nonces w"
  by (simp add: on_state_def split: prod.split)

lemma on_state_nonces' [simp]: "on_state f i w = (r, w') \<Longrightarrow> as_nonces w' = as_nonces w"
  using on_state_nonces [of f i w] by simp

lemma index_nonces [simp]:
  "as_nonces (snd (lookupUserBySubscriber e i w)) = as_nonces w" "as_nonces (snd (lookupUserByDevice e i w)) = as_nonces w"
  by (simp_all add: lookupUserBySubscriber_def rescanSubscriberIndex_def lookupUserByDevice_def rescanDeviceIndex_def Let_def
      split: option.split)

lemma reserve_nonces [simp]: "as_nonces (snd (reserveDeviceID e u i w)) = as_nonces w"
proof -
  obtain o1 w1 where l: "lookupUserByDevice e (trim_space i) w = (o1, w1)" by (rule prod.exhaust)
  then show ?thesis using index_nonces(2) [of e "trim_space i" w] by (simp add: reserveDeviceID_def Let_def)
qed

lemma store_device_nonces [simp]: "as_nonces (snd (store_device E rq b tr u w)) = as_nonces w"
  by (auto simp: store_device_def Let_def split: option.splits sum.splits prod.splits)

lemma register_redeemed_nonces [simp]: "as_nonces (snd (register_redeemed E rq b tr w1)) = as_nonces w1"
proof -
  obtain o1 w2 where l: "lookupUserBySubscriber (pe_auth E) (trim_space (nr_SubscriberID b)) w1 = (o1, w2)" by (rule prod.exhaust)
  have w2: "as_nonces w2 = as_nonces w1" using index_nonces(1) [of "pe_auth E" "trim_space (nr_SubscriberID b)" w1] l by simp
  show ?thesis
  proof (cases o1)
    case (Some u)
    obtain ok w3 where r3: "reserveDeviceID (pe_auth E) u (trim_space (nr_DeviceID b)) w2 = (ok, w3)" by (rule prod.exhaust)
    have "as_nonces w3 = as_nonces w2" using reserve_nonces [of "pe_auth E" u "trim_space (nr_DeviceID b)" w2] r3 by simp
    then show ?thesis by (simp add: register_redeemed_def l Some r3 w2 split: bool.split)
  qed (simp add: register_redeemed_def l w2)
qed

text \<open>A registration asks for at most one nonce, and it goes on only when the table lets the nonce through.\<close>

lemma register_asks:
  assumes "asks_nonce (E, rq, body, w) = Some n"
  shows "as_nonces (snd (handleNotificationNativeRegister E rq body w)) = snd (nonce_consume (as_nonces w) n nativePairingTokenTTL (pe_now E))"
    "registers token (E, rq, body, w) \<Longrightarrow> fst (nonce_consume (as_nonces w) n nativePairingTokenTTL (pe_now E))"
proof -
  obtain b where b: "body = Body b" using assms by (cases body) (auto simp: asks_nonce_def)
  obtain acc ns where c: "nonce_consume (as_nonces w) n nativePairingTokenTTL (pe_now E) = (acc, ns)" by (rule prod.exhaust)
  have s: "pe_secret E \<noteq> ''''" using assms by (auto simp: asks_nonce_def b split: if_splits)
  obtain tr where tr: "normalizeNativeTransport (nr_Transport b) (nr_Platform b) = Inr tr"
    using assms by (auto simp: asks_nonce_def b split: if_splits sum.splits)
  then have r: "redeem_token E b w =
      (if acc then Inr tr else Inl (HttpError 409 ''pairing token already used''), w\<lparr>as_nonces := ns\<rparr>)"
    using assms c by (auto simp: asks_nonce_def b redeem_token_def Let_def split: if_splits sum.splits)
  have h: "handleNotificationNativeRegister E rq body w =
      (if acc then register_redeemed E rq b tr (w\<lparr>as_nonces := ns\<rparr>)
       else (HttpError 409 ''pairing token already used'', w\<lparr>as_nonces := ns\<rparr>))"
    using s r by (simp add: b handleNotificationNativeRegister_def)
  show "as_nonces (snd (handleNotificationNativeRegister E rq body w)) = snd (nonce_consume (as_nonces w) n nativePairingTokenTTL (pe_now E))"
    unfolding h c by simp
  assume "registers token (E, rq, body, w)"
  then show "fst (nonce_consume (as_nonces w) n nativePairingTokenTTL (pe_now E))"
    using c by (cases acc) (simp_all add: registers_def h)
qed

lemma register_asks_not:
  assumes "asks_nonce (E, rq, body, w) = None"
  shows "as_nonces (snd (handleNotificationNativeRegister E rq body w)) = as_nonces w" "\<not> registers token (E, rq, body, w)"
proof -
  have "as_nonces (snd (handleNotificationNativeRegister E rq body w)) = as_nonces w \<and> \<not> registers token (E, rq, body, w)"
  proof (cases body)
    case (Body b)
    show ?thesis
    proof (cases "pe_secret E = ''''")
      case False
      then obtain reply where r: "redeem_token E b w = (Inl reply, w)" "\<forall>n j. reply \<noteq> HttpJson n j"
        using assms by (auto simp: asks_nonce_def Body redeem_token_def Let_def split: if_splits sum.splits)
      then show ?thesis using False
        by (auto simp: Body handleNotificationNativeRegister_def registers_def split: http_reply.splits)
    qed (simp add: Body handleNotificationNativeRegister_def registers_def)
  qed (simp_all add: handleNotificationNativeRegister_def registers_def split: if_splits)
  then show "as_nonces (snd (handleNotificationNativeRegister E rq body w)) = as_nonces w" "\<not> registers token (E, rq, body, w)"
    by blast+
qed

text \<open>The nonces asked for in a run, the table after them, and what was let through in a longer run.\<close>

definition asked :: "'u register_event list \<Rightarrow> (string \<times> int) list" where
  "asked es = List.map_filter (\<lambda>ev. map_option (\<lambda>n. (n, event_time ev)) (asks_nonce ev)) es"

abbreviation let_through :: "string \<Rightarrow> (string \<times> int) list \<Rightarrow> (string \<times> int) list \<Rightarrow> int list" where
  "let_through \<equiv> accepted_times (\<lambda>seen n t. nonce_consume seen n nativePairingTokenTTL t)"

definition table_after :: "(string \<times> int) list \<Rightarrow> (string \<times> int) list \<Rightarrow> (string \<times> int) list" where
  "table_after as seen = fold (\<lambda>(n, t) seen. snd (nonce_consume seen n nativePairingTokenTTL t)) as seen"

lemma let_through_snoc:
  "let_through k (as @ [(n, t)]) seen =
    let_through k as seen @ (if fst (nonce_consume (table_after as seen) n nativePairingTokenTTL t) \<and> n = k then [t] else [])"
  by (induction as arbitrary: seen) (auto simp: table_after_def split: prod.split)

lemma run_tables:
  assumes "pairing_run w0 es w"
    and "\<And>ev n. ev \<in> set es \<Longrightarrow> registers token ev \<Longrightarrow> asks_nonce ev = Some n \<Longrightarrow> n = k"
  shows "as_nonces w = table_after (asked es) (as_nonces w0) \<and>
    subseq (map event_time (filter (registers token) es)) (let_through k (asked es) (as_nonces w0))"
  using assms
proof (induction rule: pairing_run.induct)
  case (register es w E rq body)
  have IH: "as_nonces w = table_after (asked es) (as_nonces w0)"
    "subseq (map event_time (filter (registers token) es)) (let_through k (asked es) (as_nonces w0))"
    using register.IH register.prems by (simp_all, blast+)
  let ?ev = "(E, rq, body, w)"
  show ?case
  proof (cases "asks_nonce ?ev")
    case None
    then show ?thesis using IH register_asks_not [OF None] by (simp add: asked_def)
  next
    case (Some n)
    have a: "asked (es @ [?ev]) = asked es @ [(n, pe_now E)]" using Some by (simp add: asked_def event_time_def)
    have t: "as_nonces (snd (handleNotificationNativeRegister E rq body w)) = table_after (asked (es @ [?ev])) (as_nonces w0)"
      using IH(1) register_asks(1) [OF Some] by (simp add: a table_after_def)
    let ?more = "if fst (nonce_consume (as_nonces w) n nativePairingTokenTTL (pe_now E)) \<and> n = k then [pe_now E] else []"
    have m: "let_through k (asked (es @ [?ev])) (as_nonces w0) = let_through k (asked es) (as_nonces w0) @ ?more"
      unfolding a let_through_snoc IH(1) ..
    have "subseq (if registers token ?ev then [pe_now E] else []) ?more"
      using register.prems [of ?ev n] Some register_asks(2) [OF Some, of token] by simp
    then have "subseq (map event_time (filter (registers token) es) @ (if registers token ?ev then [pe_now E] else []))
        (let_through k (asked (es @ [?ev])) (as_nonces w0))"
      unfolding m by (rule list_emb_append_mono [OF IH(2)])
    moreover have "map event_time (filter (registers token) (es @ [?ev])) =
        map event_time (filter (registers token) es) @ (if registers token ?ev then [pe_now E] else [])"
      by (simp add: event_time_def)
    ultimately show ?thesis using t by simp
  qed
qed (simp_all add: asked_def table_after_def)

lemma sorted_wrt_subseq: "subseq xs ys \<Longrightarrow> sorted_wrt P ys \<Longrightarrow> sorted_wrt P xs"
proof (induction rule: list_emb.induct)
  case (list_emb_Cons2 x y xs ys)
  then show ?case using set_nths_subset by (auto dest: list_emb_set)
qed simp_all

lemma sorted_asked: "sorted_wrt (\<le>) (map event_time es) \<Longrightarrow> sorted_wrt (\<le>) (map snd (asked es))"
  by (rule sorted_wrt_subseq [of _ "map event_time es"])
    (induction es; auto simp: asked_def split: option.split)

lemma few_spaced:
  assumes "sorted_wrt (\<lambda>a b. a + d \<le> b) ts" "\<And>t. t \<in> set ts \<Longrightarrow> lo \<le> t \<and> t < (hi :: int)" "hi \<le> lo + int n * d" "0 < d"
  shows "length ts \<le> n"
  using assms
proof (induction ts arbitrary: lo n)
  case (Cons t ts)
  have lo: "hi \<le> t + int n * d" using Cons.prems(2) [of t] Cons.prems(3) by simp
  have "length ts \<le> n - 1" if "n \<noteq> 0"
    by (rule Cons.IH [of "t + d"]) (use Cons.prems(1,2,4) that lo in \<open>auto simp: of_nat_diff algebra_simps\<close>)
  moreover have "n \<noteq> 0"
  proof
    assume "n = 0"
    then show False using Cons.prems(2) [of t] Cons.prems(3) by simp
  qed
  ultimately show ?case by auto
qed simp

definition all_keys :: "'u pair_env \<Rightarrow> 'u register_event list \<Rightarrow> bool" where
  "all_keys E0 es \<longleftrightarrow> list_all (\<lambda>(E, rq, body, w). same_keys E0 E) es"

definition all_after :: "int \<Rightarrow> 'u register_event list \<Rightarrow> bool" where
  "all_after t es \<longleftrightarrow> list_all (\<lambda>ev. t \<le> event_time ev) es"

text \<open>
  C7: a token for pairing registers one device at most before it expires, and in any run of the server at most two
  in all: the second one, 90 seconds after the first, in the second of its expiry.
\<close>

theorem pairing_token_once:
  assumes "createPairingToken E0 sub pairingPurposeNativeDevice nativePairingTokenTTL = Some (token, expiresAt)"
    and "claims_codec E0" "ascii sub" "0 \<le> pe_now E0" "expiresAt < 2 ^ 63"
    and run: "pairing_run w0 es w" "all_keys E0 es" "all_after (pe_now E0) es" "sorted_wrt (\<le>) (map event_time es)"
  shows "let ts = map event_time (filter (registers token) es) in
    length (filter (\<lambda>t. t < expiresAt) ts) \<le> 1 \<and> length ts \<le> 2 \<and>
    list_all (\<lambda>t. unix t \<le> unix expiresAt) ts \<and> sorted_wrt (\<lambda>a b. a + nativePairingTokenTTL \<le> b) ts"
proof -
  define ts where "ts = map event_time (filter (registers token) es)"
  have exp: "expiresAt = pe_now E0 + nativePairingTokenTTL"
    using assms(1) by (auto simp: createPairingToken_def Let_def split: option.splits)
  then have pos: "0 < unix expiresAt" using assms(4) by (simp add: pos_imp_zdiv_pos_iff)
  have asc: "ascii pairingPurposeNativeDevice" unfolding pairingPurposeNativeDevice_def ascii_def by code_simp
  let ?c = "token_claims E0 sub pairingPurposeNativeDevice expiresAt"
  have use: "asks_nonce ev = Some n \<Longrightarrow> n = pc_Nonce ?c" "asks_nonce ev = Some n \<Longrightarrow> unix (event_time ev) \<le> unix expiresAt"
    if ev: "ev \<in> set es" "registers token ev" for ev n
  proof -
    obtain E rq body w' where e: "ev = (E, rq, body, w')" by (metis prod.exhaust)
    obtain b where b: "body = Body b" "trim_space (nr_PairingToken b) = token"
      using ev(2) by (cases body) (auto simp: registers_def e)
    have k: "same_keys E0 E" using run(2) ev(1) by (auto simp: all_keys_def list_all_iff e)
    assume a: "asks_nonce ev = Some n"
    from decode_created [OF assms(1,2) k assms(3) asc pos assms(5), of pairingPurposeNativeDevice "pe_now E"] a
    show "n = pc_Nonce ?c" "unix (event_time ev) \<le> unix expiresAt"
      by (auto simp: asks_nonce_def e b event_time_def split: if_splits sum.splits)
  qed
  have asks: "asks_nonce ev \<noteq> None" if "registers token ev" for ev
  proof -
    obtain E rq body w' where "ev = (E, rq, body, w')" by (metis prod.exhaust)
    then show ?thesis using that register_asks_not(2) [of E rq body w' token] by auto
  qed
  have "subseq ts (let_through (pc_Nonce ?c) (asked es) (as_nonces w0))"
    unfolding ts_def using run_tables [OF run(1), of token] use(1) by blast
  then have spaced: "sorted_wrt (\<lambda>a b. a + nativePairingTokenTTL \<le> b) ts"
    by (rule sorted_wrt_subseq) (rule nonces.accepted_spaced [OF sorted_asked [OF run(4)]])
  have bounds: "pe_now E0 \<le> t \<and> unix t \<le> unix expiresAt" if mem: "t \<in> set ts" for t
  proof -
    obtain ev where ev: "ev \<in> set es" "registers token ev" "t = event_time ev" using mem by (auto simp: ts_def)
    obtain n where "asks_nonce ev = Some n" using asks [OF ev(2)] by auto
    from use(2) [OF ev(1,2) this] run(3) ev(1) show ?thesis by (auto simp: ev(3) all_after_def list_all_iff)
  qed
  have "length (filter (\<lambda>t. t < expiresAt) ts) \<le> 1"
    by (rule few_spaced [of nativePairingTokenTTL _ "pe_now E0" expiresAt])
      (use bounds exp sorted_wrt_filter [OF spaced] in auto)
  moreover have "t < expiresAt + second" if "t \<in> set ts" for t
    using bounds [OF that] by (smt (verit) zdiv_mono1 div_add_self2)
  then have "length ts \<le> 2"
    by (intro few_spaced [OF spaced, of "pe_now E0" "expiresAt + second"]) (use bounds exp in auto)
  ultimately show ?thesis using bounds spaced by (auto simp: list_all_iff Let_def ts_def [symmetric])
qed

text \<open>
  The second time: the table forgets the nonce 90 seconds after it was redeemed, the token ends with the second of its
  expiry. A token that is redeemed early in the second it was made in can be redeemed again.
\<close>

definition acceptable :: "'u pair_env \<Rightarrow> string \<Rightarrow> string \<Rightarrow> register_body \<Rightarrow> bool" where
  "acceptable E sub token b \<longleftrightarrow>
    trim_space (nr_SubscriberID b) = trim_space sub \<and> trim_space sub \<noteq> '''' \<and> trim_space (nr_PairingToken b) = token \<and> token \<noteq> '''' \<and>
    trim_space (nr_DeviceToken b) \<noteq> '''' \<and> normalizeNativeTransport (nr_Transport b) (nr_Platform b) = Inr ''fcm''"

lemma token_trimmed:
  assumes "createPairingToken E sub purpose ttl = Some (token, expiresAt)"
  shows "trim_space token = token" "token \<noteq> ''''"
proof -
  obtain p q where t: "token = raw_url_encode p @ CHR ''.'' # raw_url_encode q"
    using assms by (auto simp: createPairingToken_def Let_def split: option.splits)
  have "\<not> is_space c" if "c \<in> set (raw_url_encode bs)" for c bs
    using raw_encode_chars [OF that] url_digit(3) by auto
  then show "trim_space token = token" unfolding t by (intro trim_space_plain) (auto simp: is_space_def)
  show "token \<noteq> ''''" by (simp add: t)
qed

lemma unix_ttl: "unix (t + nativePairingTokenTTL) = unix t + 90"
  using div_mult_self1 [of second t 90] by simp

lemma token_redeemed_twice:
  assumes c: "createPairingToken E0 sub pairingPurposeNativeDevice nativePairingTokenTTL = Some (token, expiresAt)"
    and "claims_codec E0" "ascii sub" "0 \<le> pe_now E0" "expiresAt < 2 ^ 63"
    and "same_keys E0 E1" "same_keys E0 E2" "acceptable E1 sub token b1" "acceptable E2 sub token b2"
    and "pe_now E0 \<le> pe_now E1" "unix (pe_now E1) = unix (pe_now E0)" "pe_now E2 = pe_now E1 + nativePairingTokenTTL"
    and "as_nonces w = []" "as_nonces w2 = as_nonces (snd (redeem_token E1 b1 w))"
  shows "fst (redeem_token E1 b1 w) = Inr ''fcm'' \<and> fst (redeem_token E2 b2 w2) = Inr ''fcm''"
proof -
  have exp: "expiresAt = pe_now E0 + nativePairingTokenTTL"
    using c by (auto simp: createPairingToken_def Let_def split: option.splits)
  then have pos: "0 < unix expiresAt" using assms(4) by (simp add: pos_imp_zdiv_pos_iff)
  have asc: "ascii pairingPurposeNativeDevice" unfolding pairingPurposeNativeDevice_def ascii_def by code_simp
  let ?c = "token_claims E0 sub pairingPurposeNativeDevice expiresAt"
  have "unix (pe_now E1) \<le> unix expiresAt" "unix (pe_now E2) \<le> unix expiresAt"
    using assms(11,12) exp unix_ttl [of "pe_now E1"] unix_ttl [of "pe_now E0"] by simp_all
  then have d: "decodeAndVerifyPairingToken E1 token pairingPurposeNativeDevice (pe_now E1) = Inr ?c"
    "decodeAndVerifyPairingToken E2 token pairingPurposeNativeDevice (pe_now E2) = Inr ?c"
    using decode_created [OF c assms(2,6,3) asc pos assms(5)] decode_created [OF c assms(2,7,3) asc pos assms(5)] by simp_all
  have s: "pc_Sub ?c = trim_space sub" by (simp add: token_claims_def)
  have r: "redeem_token E b w = (case nonce_consume (as_nonces w) (pc_Nonce ?c) nativePairingTokenTTL (pe_now E) of
      (False, ns) \<Rightarrow> (Inl (HttpError 409 ''pairing token already used''), w\<lparr>as_nonces := ns\<rparr>)
    | (True, ns) \<Rightarrow> (Inr ''fcm'', w\<lparr>as_nonces := ns\<rparr>))"
    if "acceptable E sub token b" "decodeAndVerifyPairingToken E token pairingPurposeNativeDevice (pe_now E) = Inr ?c" for E b w
    using that s by (auto simp: acceptable_def redeem_token_def Let_def)
  have n: "nonce_consume [] k ttl t = (True, [(k, t + ttl)])" "nonce_consume [(k, t)] k ttl t = (True, [(k, t + ttl)])" for k ttl t
    by (simp_all add: nonce_consume_def nativePairingNonceSweepThreshold_def)
  have r1: "redeem_token E1 b1 w = (Inr ''fcm'', w\<lparr>as_nonces := [(pc_Nonce ?c, pe_now E2)]\<rparr>)"
    using r [OF assms(8) d(1)] assms(12,13) by (simp add: n)
  then have "as_nonces w2 = [(pc_Nonce ?c, pe_now E2)]" using assms(14) by simp
  with r [OF assms(9) d(2)] r1 show ?thesis by (simp add: n)
qed
section \<open>A paired device\<close>

text \<open>The rows of a user: IDs and tokens without white space around them, no ID and no token of a platform twice.\<close>

definition push_key :: "native_device \<Rightarrow> string \<times> string" where
  "push_key d = (nd_PushToken d, nd_Platform d)"

definition devices_wf :: "native_device list \<Rightarrow> bool" where
  "devices_wf ds \<longleftrightarrow> distinct (map nd_DeviceID ds) \<and> distinct (map push_key ds) \<and>
    list_all (\<lambda>d. trim_space (nd_DeviceID d) = nd_DeviceID d \<and> nd_DeviceID d \<noteq> '''' \<and> trim_space (nd_PushToken d) = nd_PushToken d) ds"

text \<open>No other row than the one with the requested ID, if there is one, has the token that is registered.\<close>

definition token_free :: "string \<Rightarrow> string \<times> string \<Rightarrow> native_device list \<Rightarrow> bool" where
  "token_free i key ds \<longleftrightarrow> i \<in> nd_DeviceID ` set ds \<longrightarrow> list_all (\<lambda>d. push_key d = key \<longrightarrow> nd_DeviceID d = i) ds"

definition clean_device :: "native_device \<Rightarrow> bool" where
  "clean_device d \<longleftrightarrow> trim_space (nd_DeviceID d) = nd_DeviceID d \<and> to_lower (trim_space (nd_Platform d)) = nd_Platform d \<and>
    trim_space (nd_PushToken d) = nd_PushToken d \<and> nd_PushToken d \<noteq> ''''"

lemma uuid_trimmed:
  assumes "NewUUIDv4 r = Inr i"
  shows "trim_space i = i"
proof -
  have h: "list_all (\<lambda>c. \<not> is_space c) ''0123456789abcdef''" by code_simp
  have "\<not> is_space (hex_digit n)" if "n < 16" for n using h that unfolding hex_digit_def list_all_length by simp
  then have x: "list_all (\<lambda>c. \<not> is_space c) (hex_bytes bs)" for bs
    using byte_less by (induction bs) (auto simp: less_mult_imp_div_less)
  have d: "\<not> is_space CHR ''-''" by (simp add: is_space_def)
  have "list_all (\<lambda>c. \<not> is_space c) i"
    using assms x d by (auto simp: NewUUIDv4_def Let_def list_all_append simp del: hex_bytes_simps split: option.splits)
  then show ?thesis by (intro trim_space_plain) (simp add: list_all_iff)
qed

lemma registered_row:
  assumes "row \<in> set ds'" "distinct (map nd_DeviceID ds')" "push_key row = push_key d" "clean_device d"
    and "list_all (\<lambda>x. trim_space (nd_PushToken x) = nd_PushToken x) ds'"
    and "\<And>y. y \<in> set ds' \<Longrightarrow> push_key y = push_key d \<Longrightarrow> y = row"
  shows "registered_id d ds' = nd_DeviceID row \<and> List.find (\<lambda>x. nd_DeviceID x = nd_DeviceID row) ds' = Some row"
proof -
  let ?P = "\<lambda>x. trim_space (nd_PushToken x) = nd_PushToken d \<and> nd_Platform x = nd_Platform d"
  have p: "?P x \<longleftrightarrow> push_key x = push_key d" if "x \<in> set ds'" for x
    using assms(5) that by (auto simp: list_all_iff push_key_def)
  have "List.find ?P (rev ds') = Some row"
  proof (cases "List.find ?P (rev ds')")
    case None
    then show ?thesis using assms(1,3) p by (auto dest!: find_NoneD)
  next
    case (Some y)
    then have "y \<in> set ds'" "?P y" by (auto dest: find_SomeD)
    then show ?thesis using Some p assms(6) by auto
  qed
  then show ?thesis using find_key_unique [OF assms(2,1)] by (simp add: registered_id_def)
qed

lemma register_device_row:
  assumes "register_device e d ds = Inr ds'" "devices_wf ds" "clean_device d" "fresh_id e (nd_DeviceID ` set ds)"
    and "token_free (nd_DeviceID d) (push_key d) ds"
  shows "\<exists>row. registered_id d ds' = nd_DeviceID row \<and> List.find (\<lambda>x. nd_DeviceID x = nd_DeviceID row) ds' = Some row \<and>
    nd_SecretHash row = nd_SecretHash d \<and> nd_UserID row = nd_UserID d \<and> nd_Transport row = nd_Transport d \<and>
    trim_space (nd_DeviceID row) = nd_DeviceID row \<and> nd_DeviceID row \<noteq> ''''"
proof -
  have wf: "distinct (map nd_DeviceID ds)" "distinct (map push_key ds)"
    "\<And>x. x \<in> set ds \<Longrightarrow> trim_space (nd_DeviceID x) = nd_DeviceID x \<and> nd_DeviceID x \<noteq> '''' \<and> trim_space (nd_PushToken x) = nd_PushToken x"
    using assms(2) by (auto simp: devices_wf_def list_all_iff)
  have cl: "trim_space (nd_DeviceID d) = nd_DeviceID d" "to_lower (trim_space (nd_Platform d)) = nd_Platform d"
    "trim_space (nd_PushToken d) = nd_PushToken d" "nd_PushToken d \<noteq> ''''" using assms(3) by (auto simp: clean_device_def)
  have same: "d\<lparr>nd_DeviceID := trim_space (nd_DeviceID d), nd_Platform := to_lower (trim_space (nd_Platform d)),
      nd_PushToken := trim_space (nd_PushToken d)\<rparr> = d"
    using cl by (cases d) simp
  obtain i where i: "(if nd_DeviceID d = '''' then NewUUIDv4 (env_rand e) else Inr (nd_DeviceID d)) = Inr i"
    using assms(1) by (cases "if nd_DeviceID d = '''' then NewUUIDv4 (env_rand e) else Inr (nd_DeviceID d)")
      (auto simp: register_device_def Let_def cl and_then_def)
  have it: "trim_space i = i" "i \<noteq> ''''"
    using i uuid_trimmed assms(4) cl(1) by (auto simp: fresh_id_def split: if_splits)
  define d2 where "d2 = d\<lparr>nd_DeviceID := i, nd_RegisteredAt := (if trim_space (nd_RegisteredAt d) = '''' then stamp e else nd_RegisteredAt d),
      nd_UpdatedAt := stamp e\<rparr>"
  have d2: "nd_DeviceID d2 = i" "push_key d2 = push_key d" "nd_PushToken d2 = nd_PushToken d" "nd_Platform d2 = nd_Platform d"
    by (simp_all add: d2_def push_key_def)
  let ?upd = "\<lambda>x. d2\<lparr>nd_RegisteredAt := (if nd_RegisteredAt d2 = '''' then nd_RegisteredAt x else nd_RegisteredAt d2),
      nd_MFAApprover := nd_MFAApprover x\<rparr>"
  let ?merge = "\<lambda>x. d2\<lparr>nd_DeviceID := nd_DeviceID x, nd_RegisteredAt := nd_RegisteredAt x, nd_MFAApprover := nd_MFAApprover x\<rparr>"
  have r: "ds' = (case List.find (\<lambda>x. nd_DeviceID x = i) ds of
        Some existing \<Rightarrow> replace_first (\<lambda>x. nd_DeviceID x = i) (\<lambda>_. ?upd existing) ds
      | None \<Rightarrow>
          (case List.find (\<lambda>x. push_key x = push_key d) ds of
             Some existing \<Rightarrow> replace_first (\<lambda>x. push_key x = push_key d) (\<lambda>_. ?merge existing) ds
           | None \<Rightarrow> ds @ [d2]))"
    using assms(1) i cl(4) unfolding register_device_def Let_def same
    by (simp add: d2_def push_key_def and_then_def cong: option.case_cong if_cong)
  show ?thesis
  proof (cases "List.find (\<lambda>x. nd_DeviceID x = i) ds")
    case (Some x)
    let ?row = "?upd x"
    have x: "x \<in> set ds" "nd_DeviceID x = i" using find_SomeD [OF Some] by auto
    have mem: "i \<in> nd_DeviceID ` set ds" using x by blast
    have "nd_DeviceID d = i"
    proof (cases "nd_DeviceID d = ''''")
      case True
      with i assms(4) mem show ?thesis by (simp add: fresh_id_def)
    qed (use i in simp)
    with assms(5) mem have "list_all (\<lambda>y. push_key y = push_key d \<longrightarrow> nd_DeviceID y = i) ds" by (simp add: token_free_def)
    then have free: "nd_DeviceID y = i" if "y \<in> set ds" "push_key y = push_key d" for y
      using that by (simp add: list_all_iff)
    have m: "ds' = map (\<lambda>x. if nd_DeviceID x = i then ?row else x) ds"
      using r Some replace_first_eq_map [OF wf(1), of i "\<lambda>_. ?row"] by simp
    have row: "push_key ?row = push_key d" "nd_DeviceID ?row = i" "nd_PushToken ?row = nd_PushToken d"
      by (simp_all add: d2_def push_key_def)
    have "registered_id d ds' = nd_DeviceID ?row \<and> List.find (\<lambda>x. nd_DeviceID x = nd_DeviceID ?row) ds' = Some ?row"
    proof (rule registered_row [OF _ _ row(1) assms(3)])
      show "?row \<in> set ds'" unfolding m using x by force
      show "distinct (map nd_DeviceID ds')"
        using find_replace_first_key(1) [OF Some, of nd_DeviceID ?row] x row(2) wf(1) r Some by simp
      show "list_all (\<lambda>x. trim_space (nd_PushToken x) = nd_PushToken x) ds'"
        unfolding m list_all_iff using wf(3) row(3) cl(3) by auto
      show "y = ?row" if "y \<in> set ds'" "push_key y = push_key d" for y
        using that free row(2) unfolding m by (auto split: if_splits)
    qed
    then show ?thesis using it by (intro exI [of _ ?row]) (auto simp: d2_def)
  next
    case none: None
    show ?thesis
    proof (cases "List.find (\<lambda>x. push_key x = push_key d) ds")
      case (Some x)
      let ?row = "?merge x"
      have x: "x \<in> set ds" "push_key x = push_key d" using find_SomeD [OF Some] by auto
      have m: "ds' = map (\<lambda>x. if push_key x = push_key d then ?row else x) ds"
        using r none Some replace_first_eq_map [OF wf(2), of "push_key d" "\<lambda>_. ?row"] by simp
      have row: "push_key ?row = push_key d" "nd_DeviceID ?row = nd_DeviceID x" "nd_PushToken ?row = nd_PushToken d"
        by (simp_all add: d2_def push_key_def)
      have "registered_id d ds' = nd_DeviceID ?row \<and> List.find (\<lambda>x. nd_DeviceID x = nd_DeviceID ?row) ds' = Some ?row"
      proof (rule registered_row [OF _ _ row(1) assms(3)])
        show "?row \<in> set ds'" unfolding m using x by force
        show "distinct (map nd_DeviceID ds')"
          using find_replace_first_key(1) [OF Some, of nd_DeviceID ?row] row(2) wf(1) r none Some by simp
        show "list_all (\<lambda>x. trim_space (nd_PushToken x) = nd_PushToken x) ds'"
          unfolding m list_all_iff using wf(3) row(3) cl(3) by auto
        show "y = ?row" if "y \<in> set ds'" "push_key y = push_key d" for y
          using that row(1) unfolding m by (auto split: if_splits)
      qed
      then show ?thesis using wf(3) [OF x(1)] by (intro exI [of _ ?row]) (auto simp: d2_def)
    next
      case None
      have fresh: "i \<notin> nd_DeviceID ` set ds" using none by (auto dest: find_NoneD)
      have m: "ds' = ds @ [d2]" using r none None by simp
      have "registered_id d ds' = nd_DeviceID d2 \<and> List.find (\<lambda>x. nd_DeviceID x = nd_DeviceID d2) ds' = Some d2"
      proof (rule registered_row [OF _ _ d2(2) assms(3)])
        show "d2 \<in> set ds'" "distinct (map nd_DeviceID ds')" using m wf(1) fresh d2(1) by auto
        show "list_all (\<lambda>x. trim_space (nd_PushToken x) = nd_PushToken x) ds'"
          unfolding m list_all_iff using wf(3) d2(3) cl(3) by auto
        show "y = d2" if "y \<in> set ds'" "push_key y = push_key d" for y
          using that find_NoneD [OF None] unfolding m by auto
      qed
      then show ?thesis using it by (intro exI [of _ d2]) (auto simp: d2_def)
    qed
  qed
qed

lemma upsert_file:
  assumes "sw_state s = Json sf" "UpsertNativeDevice e d s = (((), None), s')"
  shows "\<exists>sf'. register_device e d (sf_NativeDevices sf) = Inr (sf_NativeDevices sf') \<and> sw_state s' = Json sf'"
proof -
  let ?m = "applyStateFile e sf (sw_mem s)"
  have nd: "st_nativeDevices ?m = sf_NativeDevices sf" by (simp add: applyStateFile_def Let_def)
  obtain ds where ds: "register_device e d (sf_NativeDevices sf) = Inr ds"
    and p: "persistState e (s\<lparr>sw_mem := ?m\<lparr>st_nativeDevices := ds, st_nativeDevicesDirty := True\<rparr>\<rparr>) = (None, s')"
    using assms nd by (auto simp: UpsertNativeDevice_def refreshState_Json split: sum.splits prod.splits)
  let ?s = "s\<lparr>sw_mem := ?m\<lparr>st_nativeDevices := ds, st_nativeDevicesDirty := True\<rparr>\<rparr>"
  have mk: "marks sf (sw_mem ?s)" using marks_loaded [of sf e "sw_mem s"] by (simp add: marks_def)
  have "env_write_ok e" using p persist_fails(1) [of ?s sf e] assms(1) by (cases "env_write_ok e") auto
  then have "sw_state s' = Json (state_file_of e (sw_mem ?s))"
    using p persist_marked [of ?s sf e] mk assms(1) by auto
  then show ?thesis using ds by (simp add: state_file_of_def)
qed

lemma list_file: "sw_state s = Json sf \<Longrightarrow>
    fst (ListNativeDevices s) = sf_NativeDevices sf \<and> sw_state (snd (ListNativeDevices s)) = Json sf"
  by (simp add: ListNativeDevices_def refreshNativeDevices_def refresh_with_def)

lemma mode_file: "sw_state (snd (NativeDeliveryMode s)) = sw_state s"
  by (simp add: NativeDeliveryMode_def refreshPull_def refresh_with_def split: json_file.split)

lemma get_file: "sw_state s = Json sf \<Longrightarrow> trim_space i = i \<Longrightarrow> i \<noteq> '''' \<Longrightarrow>
    fst (GetNativeDevice i s) = List.find (\<lambda>d. nd_DeviceID d = i) (sf_NativeDevices sf)"
  by (simp add: GetNativeDevice_def refreshNativeDevices_def refresh_with_def)

lemma on_state_sel2 [simp]:
  "as_device (snd (on_state f i w)) = as_device w" "as_deviceIndex (snd (on_state f i w)) = as_deviceIndex w"
  "as_stores (snd (on_state f i w)) i = snd (f (as_stores w i))" "fst (on_state f i w) = fst (f (as_stores w i))"
  by (simp_all add: on_state_def split: prod.split)

lemma on_state_others: "j \<noteq> i \<Longrightarrow> as_stores (snd (on_state f i w)) j = as_stores w j"
  by (simp add: on_state_def split: prod.split)

lemma on_state_eq:
  assumes "on_state f i w = (r, w')"
  shows "f (as_stores w i) = (r, as_stores w' i)" "as_users w' = as_users w" "as_device w' = as_device w"
    "as_deviceIndex w' = as_deviceIndex w"
  using on_state_sel2 [of f i w] on_state_sel(3) [of f i w] assms by (auto simp: prod_eq_iff)

text \<open>What a stored registration leaves: the row of the device, and its owner in the index.\<close>

lemma stored_device:
  assumes st: "store_device E rq b tr owner w = (HttpJson 200 (DeviceRegistered info), w')"
    and "sw_state (as_stores w owner) = Json sf"
    and "devices_wf (sf_NativeDevices sf)" "fresh_id (ae_env (pe_auth E)) (nd_DeviceID ` set (sf_NativeDevices sf))"
    and "token_free (trim_space (nr_DeviceID b)) (trim_space (nr_DeviceToken b), normalizeNativePlatform (nr_Platform b)) (sf_NativeDevices sf)"
    and "trim_space (nr_DeviceToken b) \<noteq> ''''"
  shows "\<exists>row h sf'. sw_state (as_stores w' owner) = Json sf' \<and>
    List.find (\<lambda>d. nd_DeviceID d = ri_DeviceID info) (sf_NativeDevices sf') = Some row \<and> nd_UserID row = owner \<and>
    nd_Transport row = ri_Transport info \<and> HashPassword (ae_kdf (pe_auth E)) (ae_salt (pe_auth E)) (ri_DeviceSecret info) = Inr h \<and>
    nd_SecretHash row = h \<and> trim_space (ri_DeviceID info) = ri_DeviceID info \<and> ri_DeviceID info \<noteq> '''' \<and>
    randomToken (ae_token (pe_auth E)) = Some (ri_DeviceSecret info) \<and>
    as_deviceIndex w' (ri_DeviceID info) = Some owner \<and> as_users w' = as_users w \<and> as_device w' = as_device w"
proof -
  let ?e = "pe_auth E"
  obtain secret where s: "randomToken (ae_token ?e) = Some secret"
    using st by (cases "randomToken (ae_token ?e)") (auto simp: store_device_def)
  obtain h where h: "HashPassword (ae_kdf ?e) (ae_salt ?e) secret = Inr h"
    using st s by (cases "HashPassword (ae_kdf ?e) (ae_salt ?e) secret") (auto simp: store_device_def)
  let ?d = "new_device rq b tr owner h"
  obtain x err w1 where u: "on_state (UpsertNativeDevice (ae_env ?e) ?d) owner w = ((x, err), w1)" by (metis prod.exhaust)
  have err: "err = None" using st s h u by (cases err) (auto simp: store_device_def)
  obtain devices w2 where l: "on_state ListNativeDevices owner w1 = (devices, w2)" by (rule prod.exhaust)
  define i where "i = registered_id ?d devices"
  define w3 where "w3 = w2\<lparr>as_deviceIndex := (as_deviceIndex w2)(i \<mapsto> owner)\<rparr>"
  obtain mode w4 where m: "on_state NativeDeliveryMode owner w3 = (mode, w4)" by (rule prod.exhaust)
  have res: "w' = w4" "ri_DeviceID info = i" "ri_DeviceSecret info = secret" "ri_Transport info = tr"
    using st s h u err l m by (auto simp: store_device_def Let_def i_def w3_def)
  have "UpsertNativeDevice (ae_env ?e) ?d (as_stores w owner) = (((), None), as_stores w1 owner)"
    using on_state_eq(1) [OF u] err by simp
  from upsert_file [OF assms(2) this] obtain sf' where
    reg: "register_device (ae_env ?e) ?d (sf_NativeDevices sf) = Inr (sf_NativeDevices sf')"
    and f1: "sw_state (as_stores w1 owner) = Json sf'" by blast
  have f2: "devices = sf_NativeDevices sf'" "sw_state (as_stores w2 owner) = Json sf'"
    using on_state_eq(1) [OF l] list_file [OF f1] by simp_all
  have f4: "sw_state (as_stores w4 owner) = Json sf'"
    using on_state_eq(1) [OF m] mode_file [of "as_stores w3 owner"] f2(2) by (simp add: w3_def)
  have "to_lower (trim_space ''android'') = ''android''" by code_simp
  then have cl: "clean_device ?d" using assms(6)
    by (simp add: clean_device_def new_device_def normalizeNativePlatform_def Let_def trim_space_to_lower)
  have tf: "token_free (nd_DeviceID ?d) (push_key ?d) (sf_NativeDevices sf)"
    using assms(5) by (simp add: new_device_def push_key_def)
  obtain row where row: "registered_id ?d (sf_NativeDevices sf') = nd_DeviceID row"
    "List.find (\<lambda>x. nd_DeviceID x = nd_DeviceID row) (sf_NativeDevices sf') = Some row" "nd_SecretHash row = nd_SecretHash ?d"
    "nd_UserID row = nd_UserID ?d" "nd_Transport row = nd_Transport ?d" "trim_space (nd_DeviceID row) = nd_DeviceID row" "nd_DeviceID row \<noteq> ''''"
    using register_device_row [OF reg assms(3) cl assms(4) tf] by blast
  have i: "i = nd_DeviceID row" using row(1) f2(1) by (simp add: i_def)
  have "nd_SecretHash ?d = h" "nd_UserID ?d = owner" "nd_Transport ?d = tr" by (simp_all add: new_device_def)
  moreover have "as_deviceIndex w4 i = Some owner" using on_state_eq(4) [OF m] by (simp add: w3_def)
  moreover have "as_users w4 = as_users w" "as_device w4 = as_device w"
    using on_state_eq(2,3) [OF u] on_state_eq(2,3) [OF l] on_state_eq(2,3) [OF m] by (simp_all add: w3_def)
  ultimately show ?thesis using f4 row s h by (intro exI [of _ row] exI [of _ h] exI [of _ sf']) (simp add: res i)
qed

lemma reserve_same:
  "as_stores (snd (reserveDeviceID e u i w)) = as_stores w" "as_users (snd (reserveDeviceID e u i w)) = as_users w"
  "as_device (snd (reserveDeviceID e u i w)) = as_device w"
proof -
  obtain o1 w1 where l: "lookupUserByDevice e (trim_space i) w = (o1, w1)" by (rule prod.exhaust)
  have "as_stores w1 = as_stores w" "as_users w1 = as_users w" "as_device w1 = as_device w"
    using lookup_sel(3,4) [of e "trim_space i" w] l
    by (auto simp: lookupUserByDevice_def rescanDeviceIndex_def Let_def split: if_splits option.splits)
  then show "as_stores (snd (reserveDeviceID e u i w)) = as_stores w" "as_users (snd (reserveDeviceID e u i w)) = as_users w"
    "as_device (snd (reserveDeviceID e u i w)) = as_device w"
    by (simp_all add: reserveDeviceID_def Let_def l)
qed

text \<open>A registration that succeeds is the storing of the device, in a world with the same users and stores.\<close>

lemma registration_stores:
  assumes "handleNotificationNativeRegister E rq (Body b) w = (HttpJson 200 (DeviceRegistered info), w')"
    and "as_subIndex w (trim_space (nr_SubscriberID b)) = Some owner"
  shows "\<exists>tr w2. store_device E rq b tr owner w2 = (HttpJson 200 (DeviceRegistered info), w') \<and> as_stores w2 = as_stores w \<and>
    as_users w2 = as_users w \<and> as_device w2 = as_device w \<and> trim_space (nr_DeviceToken b) \<noteq> ''''"
proof -
  have c: "pe_secret E \<noteq> ''''" using assms(1) by (auto simp: handleNotificationNativeRegister_def)
  obtain r w1 where r: "redeem_token E b w = (r, w1)" by (rule prod.exhaust)
  obtain tr where tr: "r = Inr tr" "trim_space (nr_SubscriberID b) \<noteq> ''''" "trim_space (nr_DeviceToken b) \<noteq> ''''"
    and w1: "\<exists>ns. w1 = w\<lparr>as_nonces := ns\<rparr>"
    using assms(1) c r
    by (auto simp: handleNotificationNativeRegister_def redeem_token_def Let_def split: if_splits sum.splits prod.splits bool.splits)
  have rr: "register_redeemed E rq b tr w1 = (HttpJson 200 (DeviceRegistered info), w')"
    using assms(1) c r tr(1) by (simp add: handleNotificationNativeRegister_def)
  have "as_subIndex w1 (trim_space (nr_SubscriberID b)) = Some owner" using w1 assms(2) by auto
  then have l: "lookupUserBySubscriber (pe_auth E) (trim_space (nr_SubscriberID b)) w1 = (Some owner, w1)"
    using tr(2) by (simp add: lookupUserBySubscriber_def Let_def)
  obtain ok w2 where rs: "reserveDeviceID (pe_auth E) owner (trim_space (nr_DeviceID b)) w1 = (ok, w2)" by (rule prod.exhaust)
  have "ae_open (pe_auth E) owner" using rr l by (auto simp: register_redeemed_def split: if_splits)
  then have "store_device E rq b tr owner w2 = (HttpJson 200 (DeviceRegistered info), w')"
    using rr l rs by (cases ok) (auto simp: register_redeemed_def)
  moreover have "as_stores w2 = as_stores w" "as_users w2 = as_users w" "as_device w2 = as_device w"
    using reserve_same [of "pe_auth E" owner "trim_space (nr_DeviceID b)" w1] rs w1 by auto
  ultimately show ?thesis using tr(3) by blast
qed


text \<open>Only the store of the owner changes.\<close>

lemma store_device_others: "v \<noteq> owner \<Longrightarrow> as_stores (snd (store_device E rq b tr owner w)) v = as_stores w v"
proof -
  assume v: "v \<noteq> owner"
  have o: "as_stores w2 v = as_stores w1 v" if "on_state f owner w1 = (r, w2)" for f w1 w2 and r :: 'z
    using on_state_others [OF v, of f w1] that by simp
  show ?thesis
    by (auto simp: store_device_def Let_def split: option.splits sum.splits prod.splits dest!: o)
qed

text \<open>
  C6: a registration, which nobody has to be signed in for, writes to the store of a user only when the request has a
  token of the server that is valid for pairing and names the subscriber, and the user is the one of that subscriber.
\<close>

theorem registration_writes_owner:
  assumes "as_stores (snd (handleNotificationNativeRegister E rq body w)) v \<noteq> as_stores w v"
  shows "\<exists>b claims. body = Body b \<and> pe_secret E \<noteq> '''' \<and>
    decodeAndVerifyPairingToken E (trim_space (nr_PairingToken b)) pairingPurposeNativeDevice (pe_now E) = Inr claims \<and>
    trim_space (pc_Sub claims) = trim_space (nr_SubscriberID b) \<and>
    nonce_free (as_nonces w) (pc_Nonce claims) (pe_now E) \<and>
    fst (lookupUserBySubscriber (pe_auth E) (trim_space (nr_SubscriberID b)) w) = Some v"
proof -
  have c: "pe_secret E \<noteq> ''''" using assms by (auto simp: handleNotificationNativeRegister_def)
  obtain b where b: "body = Body b" using assms c by (cases body) (auto simp: handleNotificationNativeRegister_def)
  obtain r w1 where r: "redeem_token E b w = (r, w1)" by (rule prod.exhaust)
  have st: "as_stores w1 = as_stores w"
    using r by (auto simp: redeem_token_def Let_def split: if_splits sum.splits prod.splits bool.splits)
  obtain tr where tr: "r = Inr tr"
    using assms b c r st by (cases r) (auto simp: handleNotificationNativeRegister_def)
  obtain claims where cl: "decodeAndVerifyPairingToken E (trim_space (nr_PairingToken b)) pairingPurposeNativeDevice (pe_now E) = Inr claims"
    "trim_space (pc_Sub claims) = trim_space (nr_SubscriberID b)" "fst (nonce_consume (as_nonces w) (pc_Nonce claims) nativePairingTokenTTL (pe_now E))"
    and w1: "\<exists>ns. w1 = w\<lparr>as_nonces := ns\<rparr>"
    using r tr by (auto simp: redeem_token_def Let_def split: if_splits sum.splits prod.splits bool.splits)
  have ne: "as_stores (snd (register_redeemed E rq b tr w1)) v \<noteq> as_stores w v"
    using assms b c r tr by (simp add: handleNotificationNativeRegister_def)
  obtain o1 w2 where l: "lookupUserBySubscriber (pe_auth E) (trim_space (nr_SubscriberID b)) w1 = (o1, w2)" by (rule prod.exhaust)
  have w2: "as_stores w2 = as_stores w" using l st
    by (auto simp: lookupUserBySubscriber_def rescanSubscriberIndex_def Let_def split: if_splits option.splits)
  obtain owner where o: "o1 = Some owner" using ne l w2 by (cases o1) (auto simp: register_redeemed_def)
  have "v = owner"
  proof (rule ccontr)
    assume v: "v \<noteq> owner"
    obtain ok w3 where rs: "reserveDeviceID (pe_auth E) owner (trim_space (nr_DeviceID b)) w2 = (ok, w3)" by (rule prod.exhaust)
    have "as_stores w3 = as_stores w" using reserve_same(1) [of "pe_auth E" owner "trim_space (nr_DeviceID b)" w2] rs w2 by simp
    then show False using ne l o rs w2 store_device_others [OF v, of E rq b tr w3]
      by (auto simp: register_redeemed_def split: if_splits bool.splits)
  qed
  have "index_subscriber (w\<lparr>as_nonces := ns\<rparr>) = index_subscriber w" for ns
    by (rule ext)+ (simp add: index_subscriber_def)
  then have "fst (lookupUserBySubscriber (pe_auth E) i (w\<lparr>as_nonces := ns\<rparr>)) = fst (lookupUserBySubscriber (pe_auth E) i w)" for i ns
    by (simp add: lookupUserBySubscriber_def rescanSubscriberIndex_def Let_def split: option.split)
  with w1 l o have "fst (lookupUserBySubscriber (pe_auth E) (trim_space (nr_SubscriberID b)) w) = Some owner" by (metis fst_conv)
  with \<open>v = owner\<close> show ?thesis using b c cl nonce_consume_free(1) by simp
qed

section \<open>What the pairing leaves open\<close>

text \<open>
  The answer looks the row up by its token alone. When the requested ID is known and another row has the token, the
  answer names the other row: the secret it gives is of the first, and does not open the second.
\<close>

lemma wrong_device_answered:
  assumes "clean_device d" "nd_DeviceID d = nd_DeviceID x" "nd_DeviceID d \<noteq> ''''" "nd_DeviceID y \<noteq> nd_DeviceID x"
    and "push_key y = push_key d"
  shows "\<exists>ds. register_device e d [x, y] = Inr ds \<and> registered_id d ds = nd_DeviceID y \<and>
    List.find (\<lambda>r. nd_DeviceID r = registered_id d ds) ds = Some y"
  using assms
  by (simp add: register_device_def Let_def clean_device_def registered_id_def push_key_def)

text \<open>
  The reservation of an ID lasts until the next look-up of an unknown device, which rebuilds the index from the files:
  two users can both register the ID after all.
\<close>

lemma reservation_lost:
  assumes "trim_space i = i" "i \<noteq> ''''" "trim_space j = j" "j \<noteq> ''''" "j \<noteq> i"
    and "ae_dirs e = Some ds" "fold (index_user w) ds Map.empty i = None" "fold (index_user w) ds Map.empty j = None"
    and "as_deviceIndex w i = None"
  shows "fst (reserveDeviceID e u i w) \<and>
    fst (reserveDeviceID e v i (snd (lookupUserByDevice e j (snd (reserveDeviceID e u i w)))))"
proof -
  have ix: "index_user (w\<lparr>as_deviceIndex := m\<rparr>) = index_user w" for m
    by (rule ext)+ (simp add: index_user_def)
  let ?m = "fold (index_user w) ds Map.empty"
  have r: "reserveDeviceID e u i w = (True, w\<lparr>as_deviceIndex := ?m(i \<mapsto> u)\<rparr>)"
    using assms by (simp add: reserveDeviceID_def lookupUserByDevice_def rescanDeviceIndex_def Let_def)
  have l: "snd (lookupUserByDevice e j (w\<lparr>as_deviceIndex := ?m(i \<mapsto> u)\<rparr>)) = w\<lparr>as_deviceIndex := ?m\<rparr>"
    using assms by (simp add: lookupUserByDevice_def rescanDeviceIndex_def Let_def ix)
  show ?thesis using assms
    by (simp add: r l) (simp add: reserveDeviceID_def lookupUserByDevice_def rescanDeviceIndex_def Let_def ix)
qed

text \<open>The two copies of the guard of outbound connections do the same.\<close>

lemma same_guard:
  shows same_networks: "push_isPrivateOrReservedIP = isPrivateOrReservedIP" and same_dials: "safeDialContext = ssrfSafeDialContext"
proof -
  show *: "push_isPrivateOrReservedIP = isPrivateOrReservedIP"
    by (rule ext) (simp only: push_isPrivateOrReservedIP_def isPrivateOrReservedIP_def)
  show "safeDialContext = ssrfSafeDialContext"
    by (intro ext) (simp only: safeDialContext_def ssrfSafeDialContext_def *)
qed

lemma same_url_check: "ValidateUnifiedPushEndpointURL N lookup url = None \<Longrightarrow> validateOutboundURL N lookup [''https''] url = None"
  unfolding ValidateUnifiedPushEndpointURL_def validateOutboundURL_def same_networks by (auto split: option.splits if_splits)

text \<open>Only successes are recorded for the pairing of desktops, so its limit of failed attempts is never reached.\<close>

definition no_failures :: "state_world \<Rightarrow> bool" where
  "no_failures s \<longleftrightarrow> (case sw_state s of Json sf \<Rightarrow> list_all pa_Success (sf_Attempts sf) | _ \<Rightarrow> False)"

lemma transact_no_failures:
  assumes "no_failures s"
    and "\<And>sf v1 v2 m p. sw_state s = Json sf \<Longrightarrow> body (applyStateFile e sf (sw_mem s)) = (v1, v2, m, p) \<Longrightarrow>
      marks sf m \<and> (list_all pa_Success (st_attempts (applyStateFile e sf (sw_mem s))) \<longrightarrow> list_all pa_Success (st_attempts m))"
  shows "no_failures (snd (st_transact e z body s))"
proof -
  obtain sf where sf: "sw_state s = Json sf" "list_all pa_Success (sf_Attempts sf)"
    using assms(1) by (auto simp: no_failures_def split: json_file.splits)
  obtain v1 v2 m p where b: "body (applyStateFile e sf (sw_mem s)) = (v1, v2, m, p)" by (metis prod.exhaust)
  have "list_all pa_Success (st_attempts (applyStateFile e sf (sw_mem s)))"
    using sf(2) by (auto simp: applyStateFile_def Let_def list_all_iff)
  then have m: "marks sf m" "list_all pa_Success (st_attempts m)" using assms(2) [OF sf(1) b] by auto
  show ?thesis
  proof (cases "p \<and> env_write_ok e")
    case True
    then show ?thesis using m sf b
      by (simp add: st_transact_def refreshState_Json persist_marked no_failures_def state_file_of_def)
  next
    case False
    let ?s = "s\<lparr>sw_mem := m\<rparr>"
    have "sw_state ?s = Json sf" using sf(1) by simp
    then have "\<not> env_write_ok e \<Longrightarrow> sw_state (snd (persistState e ?s)) = Json sf" by (rule persist_fails(2))
    then show ?thesis using False sf b
      by (cases "persistState e ?s") (auto simp: st_transact_def refreshState_Json no_failures_def split: option.splits)
  qed
qed

lemma desktop_limit_idle:
  assumes "no_failures (as_stores w (ac_UserID ac))"
  shows "no_failures (as_stores (snd (handleDesktopPair E rq ac w)) (ac_UserID ac)) \<and>
    (\<forall>j. fst (handleDesktopPair E rq ac w) \<noteq> HttpJson 429 j)"
proof -
  let ?u = "ac_UserID ac" and ?e = "ae_env (pe_auth E)"
  obtain sf where sf: "sw_state (as_stores w ?u) = Json sf" "list_all pa_Success (sf_Attempts sf)"
    using assms by (auto simp: no_failures_def split: json_file.splits)
  let ?m = "applyStateFile ?e sf (sw_mem (as_stores w ?u))"
  have "list_all pa_Success (st_attempts ?m)" using sf(2) by (auto simp: applyStateFile_def Let_def list_all_iff)
  then have "failed_since ?e t (st_attempts ?m) = 0" for t by (auto simp: failed_since_def list_all_iff filter_empty_conv)
  then have ck: "CheckDesktopPairingRateLimit ?e (as_stores w ?u) = ((True, 5, None), (as_stores w ?u)\<lparr>sw_mem := ?m\<rparr>)"
    by (simp add: CheckDesktopPairingRateLimit_def refreshState_Json [OF sf(1)] maxFailedAttempts_def Let_def)
  obtain w1 where w1: "on_state (CheckDesktopPairingRateLimit ?e) ?u w = ((True, 5, None), w1)"
    "as_stores w1 ?u = (as_stores w ?u)\<lparr>sw_mem := ?m\<rparr>"
    by (simp add: on_state_def ck)
  have n1: "no_failures (as_stores w1 ?u)" using sf w1(2) by (simp add: no_failures_def)
  have set_ok: "no_failures (snd (SetDesktopPairingCode ?e code ttl s))" if "no_failures s" for s code ttl
    unfolding SetDesktopPairingCode_def
    by (rule transact_no_failures [OF that]) (use marks_loaded in \<open>auto simp: Let_def marks_def\<close>)
  have rec_ok: "no_failures (snd (RecordDesktopPairingAttempt ?e code True s))" if "no_failures s" for s code
    unfolding RecordDesktopPairingAttempt_def
    by (rule transact_no_failures [OF that])
      (use marks_loaded in \<open>auto simp: Let_def marks_def list_all_iff keep_last_def dest!: in_set_dropD\<close>)
  have on: "no_failures (as_stores w3 ?u)" if "on_state f ?u w2 = (r, w3)" "no_failures (snd (f (as_stores w2 ?u)))" for f w2 w3 and r :: 'z
    using on_state_eq(1) [OF that(1)] that(2) by simp
  show ?thesis using n1 assms
    by (auto simp: handleDesktopPair_def Let_def w1(1) split: option.split prod.split dest!: on [OF _ set_ok] on [OF _ rec_ok])
qed

section \<open>Worked examples\<close>

lemma store_device_ok:
  assumes "randomToken (ae_token (pe_auth E)) = Some secret" "HashPassword (ae_kdf (pe_auth E)) (ae_salt (pe_auth E)) secret = Inr h"
    and "sw_state (as_stores w owner) = Json sf" "env_write_ok (ae_env (pe_auth E))"
    and "register_device (ae_env (pe_auth E)) (new_device rq b tr owner h) (sf_NativeDevices sf) = Inr ds"
  shows "\<exists>info w'. store_device E rq b tr owner w = (HttpJson 200 (DeviceRegistered info), w')"
proof -
  let ?e = "ae_env (pe_auth E)"
  let ?m = "applyStateFile ?e sf (sw_mem (as_stores w owner))"
  have nd: "st_nativeDevices ?m = sf_NativeDevices sf" by (simp add: applyStateFile_def Let_def)
  have "marks sf (?m\<lparr>st_nativeDevices := ds, st_nativeDevicesDirty := True\<rparr>)"
    using marks_loaded [of sf ?e "sw_mem (as_stores w owner)"] by (simp add: marks_def)
  then obtain s' where "UpsertNativeDevice ?e (new_device rq b tr owner h) (as_stores w owner) = (((), None), s')"
    using assms(3,4,5) by (simp add: UpsertNativeDevice_def refreshState_Json nd persist_marked)
  then show ?thesis using assms(1,2) by (simp add: store_device_def on_state_def Let_def split: prod.split)
qed

definition example_claims :: pairing_claims where
  "example_claims = \<lparr>pc_Sub = ''s'', pc_Exp = 90, pc_Nonce = ''07'', pc_Purpose = pairingPurposeNativeDevice\<rparr>"

definition example_pair :: "string pair_env" where
  "example_pair = \<lparr>pe_auth = example_auth, pe_secret = ''k'', pe_baseURL = '''', pe_publicKey = '''', pe_nonce = Some [7], pe_code = None,
     pe_hmac = (@), pe_marshal = (\<lambda>c. if c = example_claims then Some [1] else None),
     pe_unmarshal = (\<lambda>p. if p = [1] then Some example_claims else None),
     pe_net = \<lparr>nl_parse_url = (\<lambda>_. None), nl_scheme = id, nl_hostname = id, nl_parse_ip = (\<lambda>_. None)\<rparr>, pe_lookup = (\<lambda>_. None)\<rparr>"

definition example_token :: string where
  "example_token = raw_url_encode [1] @ ''.'' @ raw_url_encode (string_bytes ''k'' @ [1])"

lemma example_pair_sel [simp]:
  "pe_auth example_pair = example_auth" "pe_secret example_pair = ''k''" "now_of example_auth = 0"
  "ae_env example_auth = tally_env 0 (Some (replicate 16 7)) True"
  by (simp_all add: example_pair_def example_auth_def)

lemma example_created:
  "createPairingToken example_pair ''s'' pairingPurposeNativeDevice nativePairingTokenTTL = Some (example_token, 90 * second)"
proof -
  have "trim_space ''s'' = ''s''" "hex_bytes [7] = ''07''" by code_simp+
  then show ?thesis
    by (simp add: createPairingToken_def example_pair_def example_claims_def example_token_def example_auth_def Let_def)
qed

lemma example_codec: "claims_codec example_pair" "same_keys example_pair example_pair" "ascii ''s''"
  by (auto simp: claims_codec_def example_pair_def same_keys_def split: if_splits)

theorem pairing_token_scope_witness:
  "validatePairingToken example_pair ''s'' example_token pairingPurposeNativeDevice (60 * second) = None \<and>
   validatePairingToken example_pair ''s'' example_token pairingPurposePickupLink (60 * second) \<noteq> None \<and>
   validatePairingToken example_pair ''s'' example_token pairingPurposeNativeDevice (91 * second) \<noteq> None"
proof -
  have asc: "ascii pairingPurposeNativeDevice" unfolding pairingPurposeNativeDevice_def by code_simp
  have p: "pairingPurposePickupLink \<noteq> pairingPurposeNativeDevice" by (simp add: pairingPurposePickupLink_def pairingPurposeNativeDevice_def)
  note scope = pairing_token_scope [OF example_created example_codec(1,2,3) asc]
  show ?thesis
    using scope [of "''s''" pairingPurposeNativeDevice "60 * second"] scope [of "''s''" pairingPurposePickupLink "60 * second"]
      scope [of "''s''" pairingPurposeNativeDevice "91 * second"] p by simp
qed

definition example_body :: register_body where
  "example_body = \<lparr>nr_SubscriberID = ''s'', nr_PairingToken = example_token, nr_DeviceToken = ''tok'', nr_DeviceID = ''n1'',
     nr_Platform = ''ios'', nr_Transport = '''', nr_DeviceName = '''', nr_AppVersion = ''''\<rparr>"

definition example_pairing_start :: auth_world where
  "example_pairing_start = example_start\<lparr>as_subIndex := (\<lambda>_. None)(''s'' \<mapsto> ''1'')\<rparr>"

lemma example_body_texts:
  "trim_space ''s'' = ''s''" "trim_space ''tok'' = ''tok''" "trim_space ''n1'' = ''n1''" "normalizeNativePlatform ''ios'' = ''ios''"
  "normalizeNativeTransport '''' ''ios'' = Inr ''apns''" "to_lower (trim_space ''ios'') = ''ios''"
  by code_simp+

lemma example_registers:
  "\<exists>info w'. handleNotificationNativeRegister example_pair example_rq (Body example_body) example_pairing_start =
     (HttpJson 200 (DeviceRegistered info), w')"
proof -
  have asc: "ascii pairingPurposeNativeDevice" unfolding pairingPurposeNativeDevice_def by code_simp
  have tok: "trim_space example_token = example_token" "example_token \<noteq> ''''" using token_trimmed [OF example_created] by simp_all
  define c where "c = token_claims example_pair ''s'' pairingPurposeNativeDevice (90 * second)"
  have d: "decodeAndVerifyPairingToken example_pair example_token pairingPurposeNativeDevice 0 = Inr c"
    using decode_created [OF example_created example_codec asc, of pairingPurposeNativeDevice 0] by (simp add: c_def)
  define w1 where "w1 = example_pairing_start\<lparr>as_nonces := [(pc_Nonce c, nativePairingTokenTTL)]\<rparr>"
  have s: "pc_Sub c = ''s''" by (simp add: c_def token_claims_def example_body_texts)
  have n: "nonce_consume [] k ttl 0 = (True, [(k, ttl)])" for k ttl
    by (simp add: nonce_consume_def nativePairingNonceSweepThreshold_def)
  have w0: "as_nonces example_pairing_start = []" "as_subIndex w1 ''s'' = Some ''1''" "as_deviceIndex w1 = (\<lambda>_. None)"
    "as_stores w1 = (\<lambda>_. sample_world)"
    by (simp_all add: w1_def example_pairing_start_def example_start_def)
  have r: "redeem_token example_pair example_body example_pairing_start = (Inr ''apns'', w1)"
    by (simp add: redeem_token_def example_body_def example_body_texts tok d s w0(1) n w1_def Let_def)
  have l: "lookupUserBySubscriber example_auth ''s'' w1 = (Some ''1'', w1)"
    using w0(2) by (simp add: lookupUserBySubscriber_def example_body_texts)
  define w2 where "w2 = w1\<lparr>as_deviceIndex := (\<lambda>_. None)(''n1'' \<mapsto> ''1'')\<rparr>"
  have rs: "reserveDeviceID example_auth ''1'' ''n1'' w1 = (True, w2)"
    using w0(3) by (simp add: w2_def reserveDeviceID_def lookupUserByDevice_def rescanDeviceIndex_def example_body_texts example_auth_def)
  obtain secret where sec: "randomToken (ae_token example_auth) = Some secret" by (simp add: randomToken_def example_auth_def)
  obtain h where h: "HashPassword (ae_kdf example_auth) (ae_salt example_auth) secret = Inr h"
    by (simp add: HashPassword_def example_auth_def toy_scrypt_def Let_def)
  obtain ds where ds: "register_device (ae_env example_auth) (new_device example_rq example_body ''apns'' ''1'' h) (sf_NativeDevices sample_state) = Inr ds"
    by (simp add: register_device_def new_device_def example_body_def example_body_texts Let_def)
  have f: "sw_state (as_stores w2 ''1'') = Json sample_state" using w0(4) by (simp add: w2_def)
  have ok: "env_write_ok (ae_env (pe_auth example_pair))" by simp
  have "\<exists>info w'. store_device example_pair example_rq example_body ''apns'' ''1'' w2 = (HttpJson 200 (DeviceRegistered info), w')"
    by (rule store_device_ok [OF _ _ f ok]) (use sec h ds in simp_all)
  moreover have "ae_open example_auth ''1''" by (simp add: example_auth_def)
  moreover have "nr_SubscriberID example_body = ''s''" "nr_DeviceID example_body = ''n1''" by (simp_all add: example_body_def)
  ultimately show ?thesis
    by (simp add: handleNotificationNativeRegister_def r register_redeemed_def example_body_texts l rs)
qed

lemma example_rows:
  "devices_wf (sf_NativeDevices sample_state)"
  "fresh_id (ae_env (pe_auth example_pair)) (nd_DeviceID ` set (sf_NativeDevices sample_state))"
  "token_free (trim_space (nr_DeviceID example_body)) (trim_space (nr_DeviceToken example_body),
     normalizeNativePlatform (nr_Platform example_body)) (sf_NativeDevices sample_state)"
proof -
  have t: "trim_space ''d'' = ''d''" "trim_space ''t'' = ''t''" by code_simp+
  show "devices_wf (sf_NativeDevices sample_state)" by (simp add: devices_wf_def sample_state_def push_key_def t)
  show "fresh_id (ae_env (pe_auth example_pair)) (nd_DeviceID ` set (sf_NativeDevices sample_state))"
    by (simp add: fresh_id_def NewUUIDv4_def sample_state_def Let_def)
  show "token_free (trim_space (nr_DeviceID example_body)) (trim_space (nr_DeviceToken example_body),
     normalizeNativePlatform (nr_Platform example_body)) (sf_NativeDevices sample_state)"
    by (simp add: token_free_def sample_state_def example_body_def example_body_texts)
qed


theorem pairing_token_once_witness:
  "registers example_token (example_pair, example_rq, Body example_body, example_pairing_start) \<and>
   length (map event_time (filter (registers example_token) [(example_pair, example_rq, Body example_body, example_pairing_start),
     (example_pair, example_rq, Body example_body,
       snd (handleNotificationNativeRegister example_pair example_rq (Body example_body) example_pairing_start))])) \<le> 1"
proof -
  let ?b = "Body example_body"
  let ?w1 = "snd (handleNotificationNativeRegister example_pair example_rq ?b example_pairing_start)"
  let ?es = "[(example_pair, example_rq, ?b, example_pairing_start), (example_pair, example_rq, ?b, ?w1)]"
  have "trim_space example_token = example_token" using token_trimmed [OF example_created] by simp
  then have reg: "registers example_token (example_pair, example_rq, ?b, example_pairing_start)"
    using example_registers by (auto simp: registers_def example_body_def)
  have run: "pairing_run example_pairing_start ?es (snd (handleNotificationNativeRegister example_pair example_rq ?b ?w1))"
    using pairing_run.register [OF pairing_run.register [OF pairing_run.begin_run]] by fastforce
  have t: "event_time ev = 0" if "ev \<in> set ?es" for ev using that by (auto simp: event_time_def)
  have "length (filter (\<lambda>t. t < 90 * second) (map event_time (filter (registers example_token) ?es))) \<le> 1"
    using pairing_token_once [OF example_created example_codec(1,3) _ _ run]
    by (simp add: all_keys_def all_after_def event_time_def example_codec Let_def)
  moreover have "filter (\<lambda>t. t < 90 * second) (map event_time (filter (registers example_token) ?es)) =
      map event_time (filter (registers example_token) ?es)"
    using t by (simp add: filter_id_conv)
  ultimately show ?thesis using reg by simp
qed

theorem registration_writes_owner_witness:
  "as_stores (snd (handleNotificationNativeRegister example_pair example_rq (Body example_body) example_pairing_start)) ''1'' \<noteq>
     as_stores example_pairing_start ''1'' \<and>
   fst (lookupUserBySubscriber example_auth ''s'' example_pairing_start) = Some ''1''"
proof -
  obtain info w' where r: "handleNotificationNativeRegister example_pair example_rq (Body example_body) example_pairing_start =
      (HttpJson 200 (DeviceRegistered info), w')" using example_registers by blast
  have ix: "as_subIndex example_pairing_start (trim_space (nr_SubscriberID example_body)) = Some ''1''"
    by (simp add: example_pairing_start_def example_body_def example_body_texts)
  obtain tr w2 where st: "store_device example_pair example_rq example_body tr ''1'' w2 = (HttpJson 200 (DeviceRegistered info), w')"
    and w2: "as_stores w2 = as_stores example_pairing_start" "trim_space (nr_DeviceToken example_body) \<noteq> ''''"
    using registration_stores [OF r ix] by blast
  have f: "sw_state (as_stores w2 ''1'') = Json sample_state"
    by (simp add: w2 example_pairing_start_def example_start_def)
  obtain row sf' where row: "sw_state (as_stores w' ''1'') = Json sf'" "nd_UserID row = ''1''"
    "List.find (\<lambda>d. nd_DeviceID d = ri_DeviceID info) (sf_NativeDevices sf') = Some row"
    using stored_device [OF st f example_rows w2(2)] by blast
  have "sf' \<noteq> sample_state" using find_SomeD [OF row(3)] row(2) by (auto simp: sample_state_def)
  then have "as_stores w' ''1'' \<noteq> as_stores example_pairing_start ''1''" using row(1) f w2(1) by auto
  then have ne: "as_stores (snd (handleNotificationNativeRegister example_pair example_rq (Body example_body) example_pairing_start)) ''1'' \<noteq>
     as_stores example_pairing_start ''1''" by (simp add: r)
  have "fst (lookupUserBySubscriber example_auth ''s'' example_pairing_start) = Some ''1''"
    using registration_writes_owner [OF ne] by (auto simp: example_body_def example_body_texts)
  with ne show ?thesis ..
qed

end
