(* ===== verification/Spec2Isabelle.thy ===== *)
theory Spec2Isabelle
  imports Users_Store Rules_Store Groups_Store Sendas Mfa State_Store Sieve_Roundtrip Contacts_Merge
    Poller_Safety Rules_Api Contacts_Api Carddav_Client Dav_Auth
    Pairing_Safety
begin

text \<open>
  A model of the Go backend of the mail labelling server (src/backend/internal). The program
  consists of two processes, the API server and the daemon that polls the mailboxes; they share
  no memory but a directory of JSON files per user. The core logic is in packages that keep one
  such file each (rules, groups, contacts, sendas, state, users), in the rule language (rules),
  in the second factor of the login (mfa, totp) and in the throttles of the API (login lockout,
  cooldowns, pairing nonces).

  Common ground.
  \<^item> Go_Prelude: package strings on bytes, first-match loops over slices, the environment of an
    operation (clock, RFC 3339 codec, random source, whether the write succeeds) and error values.
  \<^item> Go_Text: splitting, decimal numbers and base64, with their round trips.
  \<^item> Fsutil (fsutil/fsutil.go): AtomicWriteFile as the sequence of file system states a reader can
    observe; LoadJSONFile, PersistJSONFile, NewUUIDv4; the two shapes of a store method,
    \<open>transact\<close> (re-read, change, persist) and \<open>observe\<close> (re-read, look); the locale \<open>json_store\<close>
    with the laws of a store's load and dump functions, interpreted for every store that persists
    its whole memory, and from it the serialisation of runs of several processes.

  Components; a definition has the name of the Go function, with a prefix where several packages
  have a function of that name (rules_Upsert is Store.Upsert of package rules).
  \<^item> Rules_Engine (rules/model.go, engine.go): Evaluate, the match tree, the comparators, glob
    patterns turned into regular expressions, ApplyOutcome. Package regexp is a parameter for the
    regex comparator only; the expressions of the matches comparator are parsed and run here.
  \<^item> Rules_Sieve, Sieve_Parser, Sieve_Roundtrip (rules/sieve.go): the compiler from rules to Sieve
    text, the lexer, the recursive descent parser and the shape check, and their round trip. The
    loops of the lexer and the parser carry fuel, 2 * n + 2 for n bytes or tokens; every iteration
    but one of two consumes a byte or token, and ParseRuleText_total proves that it never runs out.
  \<^item> Rules_Store, Groups_Store (rules/store.go, groups/): lists with revisions in one file each.
  \<^item> Contacts_Model, Union_Find, Contacts_Dedupe, Contacts_Store (contacts/): the address book, its
    synchronisation cursor, conditional writes, tombstones and their garbage collection, and the
    union-find based search for duplicates (a partial function: its loop is shown to end).
    Dedupe_Groups, Contacts_Sync and Contacts_Merge hold what is proved of them.
  \<^item> Sendas (sendas/, processor/sendas_check.go, part of api/sendas_handlers.go): aliases in the
    state pending, verified or failed, the poll tick that verifies them and the create handler.
    Mail search and DKIM verification are parameters.
  \<^item> State_Store (state/store.go): state.json and decisions.json with their dirty flags, the push
    queues, the native devices and the desktop pairing codes.
  \<^item> Users_Store (users/users.go): accounts, first start and migration, passwords and recovery
    codes (scrypt is a parameter), TOTP steps.
  \<^item> Mfa (mfa/mfa.go, totp/totp.go): login challenges, push approval, TOTP validation (the HMAC is a
    parameter), recovery codes.
  \<^item> Throttles (api/login_lockout.go and the cooldown and nonce tables beside it).
  \<^item> Retry, Classifier (retry/retry.go, adapters/classifier/): the prompt with its fence around the
    e-mail, the reading of the model's answer, and the requests with retries and warm-up. The model
    server is a parameter.
  \<^item> Imap_Client, Imap_Actions (adapters/imap/client.go): the operations of the mail client over a
    record of the commands of the protocol library; connecting, the poll of the inbox with its
    checkpoint and size limit, searches, bodies, attachments, labels, the inbox actions, folders and
    drafts.
  \<^item> Mailmsg, Cryptutil (mailmsg/, cryptutil/): building a message, the stored mail configuration, and
    the sealed envelopes of secrets under the master key. AES-GCM is a parameter.
  \<^item> Health, Push_Dispatch (health/, processor/push_dispatch.go, native_sender.go): the health report,
    the choice of a transport and the dispatch of pushes to browsers and devices over a record
    \<open>push_world\<close> of the stores, the health service and the network.
  \<^item> Mailcache (mailcache/): the window of message metadata per mailbox, Sync and Upsert, and what
    a synchronising client is told.
  \<^item> Poller_Text, Poller, Poller_Safety (processor/poller.go): what happens to a message, the tick of
    a user and the report of a tick, in a state \<open>poll_world\<close> that extends \<open>push_world\<close> with the mail
    client, the classifier and the other stores. The locales \<open>push_keeper\<close>, \<open>poll_keeper\<close> and
    \<open>message_keeper\<close> say what an invariant needs to be kept by a message; they are interpreted for
    the state of the model, for the mailbox and for the soundness of the state file. The ticks of
    several users, which the code runs at the same time, are taken one after another.
  \<^item> Http_Model, Rules_Api, Contacts_Api (api/rules_handlers.go, contacts_handlers.go, contacts_self.go,
    contacts_search.go, groups_handlers.go): the handlers as functions from the method, the decoded body
    and the stores to a reply and the stores. What can fail outside (opening a store, decoding a body) is
    an argument. Rules_Api has the manual run of the rules over the mail client, Contacts_Api both stores
    of the address book and what keeps the groups that contacts name in existence.
  \<^item> Vcard (api/dav_server.go): a contact as a vCard and back. The methods of the vCard library are a
    record of parameters, their documented behaviour the hypothesis \<open>vcard_laws\<close>, which a concrete
    library is shown to satisfy.
  \<^item> Ssrf (api/ssrf_guard.go): the classes of addresses of package net on their bytes, the check of a
    URL that a user configures, and the guarded client that checks every dial, redirects included.
  \<^item> Dav (the rest of api/dav_server.go, contacts_photo.go, contacts_export.go): the CardDAV resources,
    the photos, export and import over a record \<open>dav_world\<close> of the address book and the photos. The
    loop of the import is bounded by its number of attempts.
  \<^item> Carddav_Client (api/carddav_client.go): discovery of the address books of another server and the
    synchronisation from it. Package url, the decoders and the server are parameters.
  \<^item> Sessions (the sessions and the login in api/server.go, mfa_handlers.go, push_mfa_handlers.go,
    device_auth.go, server_users.go, the device index of server_userscope.go): the state \<open>auth_world\<close> of
    accounts, sessions, challenges, throttles and paired devices, and every handler that changes it.
    Session_Safety has the routes as one function \<open>serve\<close>, its runs with the events they consist of, and
    what they show. Dav_Auth (api/dav_auth.go) is the authentication of CardDAV with its credential cache.
  \<^item> Pairing (the pairing tokens and the notification handlers of api/server.go, the index of subscribers of
    server_userscope.go, the endpoint checks of processor/native_sender.go), on the same \<open>auth_world\<close>: a token
    is made, redeemed and turned into a device with a secret of its own. Pairing_Safety has the runs of
    registrations (\<open>pairing_run\<close>), whose nonces it hands to the cooldown contract of Throttles.

  What the lemmas show. Each store has an invariant (\<open>rules_ok\<close>, \<open>groups_ok\<close>, \<open>contacts_ok\<close>,
  \<open>guarded\<close>, \<open>users_ok\<close> and others), kept by every operation, and the functional behaviour of its
  operations across processes; runs of requests are lists of calls (\<open>run_procs\<close>) or an inductive
  relation (\<open>contacts_steps\<close>). The Sieve theories relate compiler and parser; Dedupe_Groups relates
  the union-find code to connected components; Contacts_Sync has the relation \<open>evolves\<close> every change
  of the address book obeys, from which synchronising clients converge. The properties, numbered
  C1, C2 and so on, stand at the ends of the theories, each with a worked example that applies it to
  concrete data when it has hypotheses.

  Bounds and idealisations. Revisions and counters (int64) are unbounded integers; words are used
  where bits matter (UUIDs, base64, HMAC truncation). Text is bytes, and letters beyond ASCII have no
  case. An operation on a store is one step: the code locks per process only, so a write of another
  process between the re-read and the write of an operation is outside the model. JSON encoding and
  decoding is taken to give back what was encoded.

  Not modelled: the HTTP server and its other handlers (api/), OpenPGP mail (pgpmail/),
  configuration, logging and the start-up of the processes (app/), which are input and output around
  third-party libraries; the TypeScript front end and push relays.
\<close>

end
